(* ===== verification/Prelude.thy ===== *)
theory Prelude
  imports "HOL-Library.Word" "HOL-Library.AList"
begin

text \<open>
  Shared vocabulary of the development: machine arithmetic on \<open>u64\<close>/\<open>usize\<close> values,
  little-endian byte encodings, the slice and positional-write operations of byte buffers,
  \<open>HashMap\<close>s as association lists with distinct keys, and the generic lemmas the component
  theories use.

  A Rust \<open>u64\<close> (and \<open>usize\<close>, which is 64 bits wide on the platforms the crate supports) is a
  natural number below \<open>2 ^ 64\<close>. The source's plain \<open>+\<close>, \<open>-\<close> and \<open>*\<close> wrap around in
  the release profile (the workspace sets no \<open>overflow-checks\<close>); they are \<open>uadd\<close>, \<open>usub\<close>
  and \<open>umul\<close> here. \<open>saturating_add\<close>, \<open>checked_add\<close> and \<open>checked_mul\<close> keep their names.
  Bytes are 8-bit words and CRC values are 32-bit words.
\<close>

unbundle bit_operations_syntax

named_theorems u64_simps \<open>u64 operations that stay in range\<close>
named_theorems buf_simps \<open>slices and positional writes\<close>
named_theorems hm_simps \<open>association lists used as hash maps\<close>

type_synonym byte = "8 word"
type_synonym u32 = "32 word"

section \<open>Machine arithmetic\<close>

definition u64_max :: nat where
  "u64_max = 2 ^ 64 - 1"

definition uadd :: "nat \<Rightarrow> nat \<Rightarrow> nat" where
  "uadd a b = (a + b) mod 2 ^ 64"

definition usub :: "nat \<Rightarrow> nat \<Rightarrow> nat" where
  "usub a b = (a + (2 ^ 64 - b)) mod 2 ^ 64"

definition umul :: "nat \<Rightarrow> nat \<Rightarrow> nat" where
  "umul a b = (a * b) mod 2 ^ 64"

definition saturating_add :: "nat \<Rightarrow> nat \<Rightarrow> nat" where
  "saturating_add a b = min (a + b) u64_max"

definition saturating_sub :: "nat \<Rightarrow> nat \<Rightarrow> nat" where
  "saturating_sub a b = a - b"

definition checked_add :: "nat \<Rightarrow> nat \<Rightarrow> nat option" where
  "checked_add a b = (if a + b < 2 ^ 64 then Some (a + b) else None)"

definition checked_mul :: "nat \<Rightarrow> nat \<Rightarrow> nat option" where
  "checked_mul a b = (if a * b < 2 ^ 64 then Some (a * b) else None)"

definition div_ceil :: "nat \<Rightarrow> nat \<Rightarrow> nat" where
  "div_ceil a b = a div b + (if a mod b > 0 then 1 else 0)"

lemma uadd_in_range [u64_simps]: "a + b < 2 ^ 64 \<Longrightarrow> uadd a b = a + b"
  by (simp add: uadd_def)

lemma usub_in_range [u64_simps]: "b \<le> a \<Longrightarrow> a < 2 ^ 64 \<Longrightarrow> usub a b = a - b"
proof -
  assume "b \<le> a" and "a < 2 ^ 64"
  then have "a + (2 ^ 64 - b) = (a - b) + 2 ^ 64" by simp
  then have "usub a b = (a - b) mod 2 ^ 64" by (simp add: usub_def)
  with \<open>a < 2 ^ 64\<close> show ?thesis by simp
qed

lemma umul_in_range [u64_simps]: "a * b < 2 ^ 64 \<Longrightarrow> umul a b = a * b"
  by (simp add: umul_def)

lemma saturating_add_le_iff:
  "m < u64_max \<Longrightarrow> saturating_add a b \<le> m \<longleftrightarrow> a + b \<le> m"
  by (auto simp: saturating_add_def min_def)

lemma saturating_add_in_range [u64_simps]:
  "a + b < 2 ^ 64 \<Longrightarrow> saturating_add a b = a + b"
  by (simp add: saturating_add_def u64_max_def min_def)

lemma checked_add_Some_iff: "checked_add a b = Some c \<longleftrightarrow> a + b < 2 ^ 64 \<and> c = a + b"
  by (auto simp: checked_add_def)

lemma checked_mul_Some_iff: "checked_mul a b = Some c \<longleftrightarrow> a * b < 2 ^ 64 \<and> c = a * b"
  by (auto simp: checked_mul_def)

lemma div_ceil_bounds:
  assumes "0 < b"
  shows "a \<le> div_ceil a b * b" and "0 < a \<Longrightarrow> div_ceil a b * b < a + b"
proof -
  have eq: "a = a div b * b + a mod b" by simp
  have lt: "a mod b < b" using assms by simp
  have le: "a mod b \<le> b" using lt by simp
  show "a \<le> div_ceil a b * b"
  proof (cases "a mod b > 0")
    case True
    then have "div_ceil a b * b = a div b * b + b"
      by (simp add: div_ceil_def add_mult_distrib)
    with eq le show ?thesis by linarith
  next
    case False
    then have "div_ceil a b * b = a div b * b" by (simp add: div_ceil_def)
    with eq False show ?thesis by linarith
  qed
  show "div_ceil a b * b < a + b" if "0 < a"
  proof (cases "a mod b > 0")
    case True
    then have "div_ceil a b * b = a div b * b + b"
      by (simp add: div_ceil_def add_mult_distrib)
    with eq True show ?thesis by linarith
  next
    case False
    then have "div_ceil a b * b = a div b * b" by (simp add: div_ceil_def)
    with eq False assms show ?thesis by linarith
  qed
qed

lemma div_ceil_le_iff:
  assumes "0 < b"
  shows "div_ceil a b \<le> n \<longleftrightarrow> a \<le> n * b"
proof
  assume "div_ceil a b \<le> n"
  then have "div_ceil a b * b \<le> n * b" by simp
  with div_ceil_bounds(1) [OF assms, of a] show "a \<le> n * b" by linarith
next
  assume le: "a \<le> n * b"
  show "div_ceil a b \<le> n"
  proof (rule ccontr)
    assume "\<not> div_ceil a b \<le> n"
    then have "(n + 1) * b \<le> div_ceil a b * b" by (intro mult_le_mono1) simp
    then have "n * b + b \<le> div_ceil a b * b" by (simp add: add_mult_distrib)
    moreover have "0 < a"
      using \<open>\<not> div_ceil a b \<le> n\<close> by (cases a) (auto simp: div_ceil_def)
    ultimately show False
      using div_ceil_bounds(2) [OF assms, of a] le by linarith
  qed
qed

lemma less_div_ceil_iff: "0 < b \<Longrightarrow> n < div_ceil a b \<longleftrightarrow> n * b < a"
  using div_ceil_le_iff [of b a n] by linarith

section \<open>Little-endian byte encodings\<close>

fun le_bytes :: "nat \<Rightarrow> nat \<Rightarrow> byte list" where
  "le_bytes 0 x = []"
| "le_bytes (Suc n) x = of_nat (x mod 256) # le_bytes n (x div 256)"

fun le_val :: "byte list \<Rightarrow> nat" where
  "le_val [] = 0"
| "le_val (b # bs) = unat b + 256 * le_val bs"

lemma length_le_bytes [simp]: "length (le_bytes n x) = n"
  by (induction n x rule: le_bytes.induct) auto

lemma le_bytes_4: "le_bytes 4 x =
    [of_nat (x mod 256), of_nat (x div 256 mod 256), of_nat (x div 256 div 256 mod 256),
     of_nat (x div 256 div 256 div 256 mod 256)]"
proof -
  have "(4 :: nat) = Suc (Suc (Suc (Suc 0)))" by simp
  then show ?thesis by (simp only: le_bytes.simps)
qed

lemma unat_byte_bound: "unat (b :: byte) < 256"
proof -
  have "unat b < 2 ^ LENGTH(8)" by (rule unsigned_less)
  then show ?thesis by simp
qed

lemma unat_u32_bound: "unat (c :: u32) < 2 ^ 32"
proof -
  have "unat c < 2 ^ LENGTH(32)" by (rule unsigned_less)
  then show ?thesis by simp
qed

lemma le_val_le_bytes: "x < 256 ^ n \<Longrightarrow> le_val (le_bytes n x) = x"
proof (induction n x rule: le_bytes.induct)
  case (1 x)
  then show ?case by simp
next
  case (2 n x)
  from "2.prems" have "x div 256 < 256 ^ n"
    by (simp add: less_mult_imp_div_less)
  then have IH: "le_val (le_bytes n (x div 256)) = x div 256" by (rule "2.IH")
  have "unat (of_nat (x mod 256) :: byte) = x mod 256"
    by (simp add: unat_of_nat)
  with IH show ?case by simp
qed

lemma le_val_bound: "le_val bs < 256 ^ length bs"
proof (induction bs)
  case Nil
  then show ?case by simp
next
  case (Cons b bs)
  have "unat b < 256" by (rule unat_byte_bound)
  with Cons show ?case by simp
qed

lemma le_bytes_le_val: "le_bytes (length bs) (le_val bs) = bs"
proof (induction bs)
  case Nil
  then show ?case by simp
next
  case (Cons b bs)
  have "unat b < 256" by (rule unat_byte_bound)
  then have "(unat b + 256 * le_val bs) mod 256 = unat b"
    and "(unat b + 256 * le_val bs) div 256 = le_val bs" by simp_all
  with Cons show ?case by simp
qed

text \<open>\<open>u32::to_le_bytes\<close> and \<open>u32::from_le_bytes\<close>.\<close>

definition u32_to_le_bytes :: "u32 \<Rightarrow> byte list" where
  "u32_to_le_bytes c = le_bytes 4 (unat c)"

definition u32_from_le_bytes :: "byte list \<Rightarrow> u32" where
  "u32_from_le_bytes bs = of_nat (le_val bs)"

lemma length_u32_to_le_bytes [simp]: "length (u32_to_le_bytes c) = 4"
  by (simp add: u32_to_le_bytes_def)

lemma u32_from_to_le_bytes [simp]: "u32_from_le_bytes (u32_to_le_bytes c) = c"
proof -
  have "unat c < 256 ^ 4" using unat_u32_bound [of c] by simp
  then show ?thesis
    by (simp add: u32_from_le_bytes_def u32_to_le_bytes_def le_val_le_bytes)
qed

lemma u32_to_from_le_bytes: "length bs = 4 \<Longrightarrow> u32_to_le_bytes (u32_from_le_bytes bs) = bs"
proof -
  assume len: "length bs = 4"
  then have "le_val bs < 2 ^ 32" using le_val_bound [of bs] by simp
  then have "unat (of_nat (le_val bs) :: u32) = le_val bs"
    by (simp add: unat_of_nat)
  with le_bytes_le_val [of bs] len show ?thesis
    by (simp add: u32_to_le_bytes_def u32_from_le_bytes_def)
qed

section \<open>Byte buffers\<close>

text \<open>\<open>slice xs a b\<close> is Rust's \<open>xs[a..b]\<close> for \<open>a \<le> b \<le> xs.len()\<close>.\<close>

definition slice :: "'a list \<Rightarrow> nat \<Rightarrow> nat \<Rightarrow> 'a list" where
  "slice xs a b = take (b - a) (drop a xs)"

text \<open>
  \<open>write_at d off bs\<close> is a positional write of \<open>bs\<close> into the file contents \<open>d\<close>; a gap
  past the end reads as zero bytes.
\<close>

definition write_at :: "byte list \<Rightarrow> nat \<Rightarrow> byte list \<Rightarrow> byte list" where
  "write_at d off bs =
     take off (d @ replicate (off - length d) 0) @ bs @ drop (off + length bs) d"

lemma length_slice [buf_simps]: "b \<le> length xs \<Longrightarrow> length (slice xs a b) = b - a"
  by (simp add: slice_def)

lemma slice_nth: "i < b - a \<Longrightarrow> b \<le> length xs \<Longrightarrow> slice xs a b ! i = xs ! (a + i)"
  by (simp add: slice_def)

lemma slice_full [simp]: "slice xs 0 (length xs) = xs"
  by (simp add: slice_def)

lemma slice_empty [simp]: "b \<le> a \<Longrightarrow> slice xs a b = []"
  by (simp add: slice_def)

lemma slice_split:
  "a \<le> b \<Longrightarrow> b \<le> c \<Longrightarrow> slice xs a b @ slice xs b c = slice xs a c"
proof -
  assume "a \<le> b" and "b \<le> c"
  then have "take (c - a) (drop a xs) =
      take (b - a) (drop a xs) @ take (c - b) (drop (b - a) (drop a xs))"
    by (metis Nat.add_diff_assoc add.commute le_add_diff_inverse take_add)
  with \<open>a \<le> b\<close> show ?thesis by (simp add: slice_def)
qed

lemma slice_slice:
  "a + d \<le> b \<Longrightarrow> slice (slice xs a b) c d = slice xs (a + c) (a + d)"
  by (simp add: slice_def drop_take min_def add.commute)

lemma slice_eqI:
  assumes "length xs = length ys" and "\<And>i. a \<le> i \<Longrightarrow> i < b \<Longrightarrow> i < length xs \<Longrightarrow> xs ! i = ys ! i"
  shows "slice xs a b = slice ys a b"
proof (rule nth_equalityI)
  show "length (slice xs a b) = length (slice ys a b)"
    using assms(1) by (simp add: slice_def)
  fix i assume "i < length (slice xs a b)"
  then have "i < b - a" and "a + i < length xs" by (auto simp: slice_def)
  with assms show "slice xs a b ! i = slice ys a b ! i" by (simp add: slice_def)
qed

lemma length_write_at [buf_simps]:
  "off + length bs \<le> length d \<Longrightarrow> length (write_at d off bs) = length d"
  by (simp add: write_at_def)

lemma length_write_at_ge: "length d \<le> length (write_at d off bs)"
  by (auto simp: write_at_def min_def)

lemma write_at_nth:
  assumes "off + length bs \<le> length d" and "i < length d"
  shows "write_at d off bs ! i =
    (if off \<le> i \<and> i < off + length bs then bs ! (i - off) else d ! i)"
  using assms by (auto simp: write_at_def nth_append min_def)

lemma write_at_Nil [simp]: "off \<le> length d \<Longrightarrow> write_at d off [] = d"
  by (simp add: write_at_def)

lemma slice_write_at_same [buf_simps]:
  "off + length bs \<le> length d \<Longrightarrow> slice (write_at d off bs) off (off + length bs) = bs"
  by (simp add: slice_def write_at_def)

lemma slice_write_at_disjoint:
  assumes "off + length bs \<le> length d" and "b \<le> off \<or> off + length bs \<le> a"
  shows "slice (write_at d off bs) a b = slice d a b"
  using assms by (intro slice_eqI) (auto simp: length_write_at write_at_nth)

lemma write_at_append:
  "off + length bs + length cs \<le> length d \<Longrightarrow>
     write_at (write_at d off bs) (off + length bs) cs = write_at d off (bs @ cs)"
  by (intro nth_equalityI)
    (auto simp: length_write_at write_at_nth nth_append)

lemma write_at_slice_id:
  "a \<le> b \<Longrightarrow> b \<le> length d \<Longrightarrow> write_at d a (slice d a b) = d"
  by (intro nth_equalityI) (auto simp: length_write_at write_at_nth slice_nth length_slice)

section \<open>List operations of the Rust standard library\<close>

text \<open>\<open>iter().position(p)\<close>, \<open>Vec::insert\<close> and \<open>Vec::remove\<close>.\<close>

fun position :: "('a \<Rightarrow> bool) \<Rightarrow> 'a list \<Rightarrow> nat option" where
  "position p [] = None"
| "position p (x # xs) = (if p x then Some 0 else map_option Suc (position p xs))"

definition vec_insert :: "nat \<Rightarrow> 'a \<Rightarrow> 'a list \<Rightarrow> 'a list" where
  "vec_insert i x xs = take i xs @ x # drop i xs"

definition vec_remove :: "nat \<Rightarrow> 'a list \<Rightarrow> 'a list" where
  "vec_remove i xs = take i xs @ drop (Suc i) xs"

lemma position_Some_split:
  "position p xs = Some i \<Longrightarrow>
     \<exists>ys x zs. xs = ys @ x # zs \<and> length ys = i \<and> p x \<and> (\<forall>y\<in>set ys. \<not> p y)"
proof (induction xs arbitrary: i)
  case Nil
  then show ?case by simp
next
  case (Cons a xs)
  show ?case
  proof (cases "p a")
    case True
    with Cons.prems show ?thesis by (intro exI [of _ "[]"]) auto
  next
    case False
    with Cons.prems obtain j where j: "position p xs = Some j" and "i = Suc j" by auto
    from Cons.IH [OF j] obtain ys x zs where
      "xs = ys @ x # zs" "length ys = j" "p x" "\<forall>y\<in>set ys. \<not> p y" by blast
    with False \<open>i = Suc j\<close> show ?thesis by (intro exI [of _ "a # ys"]) auto
  qed
qed

lemma position_None_iff: "position p xs = None \<longleftrightarrow> (\<forall>x\<in>set xs. \<not> p x)"
  by (induction xs) auto

lemma position_append:
  "\<forall>y\<in>set ys. \<not> p y \<Longrightarrow> p x \<Longrightarrow> position p (ys @ x # zs) = Some (length ys)"
  by (induction ys) auto

lemma vec_insert_append [simp]: "vec_insert (length ys) x (ys @ zs) = ys @ x # zs"
  by (simp add: vec_insert_def)

lemma vec_remove_append [simp]: "vec_remove (length ys) (ys @ x # zs) = ys @ zs"
  by (simp add: vec_remove_def)

text \<open>The decimal digits that \<open>Display\<close> prints for an unsigned integer.\<close>

fun show_nat :: "nat \<Rightarrow> string" where
  "show_nat n =
     (if n < 10 then [char_of (48 + n)] else show_nat (n div 10) @ [char_of (48 + n mod 10)])"

declare show_nat.simps [simp del]

lemma write_at_shift:
  "j + length w \<le> length Q \<Longrightarrow> write_at (P @ Q) (length P + j) w = P @ write_at Q j w"
  by (intro nth_equalityI) (auto simp: length_write_at write_at_nth nth_append)

lemma slice_shift: "slice (P @ Q) (length P + a) (length P + b) = slice Q a b"
  by (simp add: slice_def)

lemma write_at_zero: "length w \<le> length Q \<Longrightarrow> write_at Q 0 w = w @ drop (length w) Q"
  by (simp add: write_at_def)

section \<open>Hash maps\<close>

text \<open>
  A \<open>HashMap\<close> is an association list with distinct keys; the order of the list stands for
  the (unspecified) iteration order. \<open>hm_get\<close>, \<open>hm_insert\<close>, \<open>hm_remove\<close> and
  \<open>hm_extend\<close> are \<open>get\<close>, \<open>insert\<close>, \<open>remove\<close> and \<open>extend\<close>.
\<close>

type_synonym ('k, 'v) hashmap = "('k \<times> 'v) list"

abbreviation hm_get :: "('k, 'v) hashmap \<Rightarrow> 'k \<Rightarrow> 'v option" where
  "hm_get \<equiv> map_of"

abbreviation hm_insert :: "'k \<Rightarrow> 'v \<Rightarrow> ('k, 'v) hashmap \<Rightarrow> ('k, 'v) hashmap" where
  "hm_insert \<equiv> AList.update"

abbreviation hm_remove :: "'k \<Rightarrow> ('k, 'v) hashmap \<Rightarrow> ('k, 'v) hashmap" where
  "hm_remove \<equiv> AList.delete"

definition hm_extend :: "('k, 'v) hashmap \<Rightarrow> ('k, 'v) hashmap \<Rightarrow> ('k, 'v) hashmap" where
  "hm_extend m n = fold (\<lambda>(k, v). hm_insert k v) n m"

definition hm_wf :: "('k, 'v) hashmap \<Rightarrow> bool" where
  "hm_wf m \<longleftrightarrow> distinct (map fst m)"

lemma hm_get_insert [hm_simps]: "hm_get (hm_insert k v m) = (hm_get m)(k \<mapsto> v)"
  by (rule update_conv')

lemma hm_get_remove [hm_simps]: "hm_get (hm_remove k m) = (hm_get m)(k := None)"
  by (rule delete_conv')

lemma hm_wf_insert [hm_simps]: "hm_wf m \<Longrightarrow> hm_wf (hm_insert k v m)"
  by (simp add: hm_wf_def distinct_update)

lemma hm_wf_remove [hm_simps]: "hm_wf m \<Longrightarrow> hm_wf (hm_remove k m)"
  by (simp add: hm_wf_def distinct_delete)

lemma hm_wf_Nil [hm_simps]: "hm_wf []"
  by (simp add: hm_wf_def)

lemma hm_wf_filter [hm_simps]: "hm_wf m \<Longrightarrow> hm_wf (filter p m)"
  by (simp add: hm_wf_def distinct_map_filter)

lemma hm_get_iff: "hm_wf m \<Longrightarrow> hm_get m k = Some v \<longleftrightarrow> (k, v) \<in> set m"
  by (simp add: hm_wf_def)

lemma hm_extend_get: "hm_get (hm_extend m n) = hm_get m ++ hm_get (rev n)"
proof (induction n arbitrary: m)
  case Nil
  then show ?case by (simp add: hm_extend_def)
next
  case (Cons kv n)
  obtain k v where kv: "kv = (k, v)" by (cases kv)
  have "hm_get (hm_extend m (kv # n)) = hm_get (hm_insert k v m) ++ hm_get (rev n)"
    using Cons [of "hm_insert k v m"] by (simp add: hm_extend_def kv)
  then show ?case by (simp add: kv hm_get_insert map_add_upd_left fun_eq_iff map_add_def
        split: option.splits)
qed

lemma hm_extend_wf [hm_simps]: "hm_wf m \<Longrightarrow> hm_wf (hm_extend m n)"
  by (induction n arbitrary: m) (auto simp: hm_extend_def hm_wf_insert)

lemma hm_get_rev: "hm_wf m \<Longrightarrow> hm_get (rev m) = hm_get m"
proof
  fix k
  assume wf: "hm_wf m"
  then have "hm_wf (rev m)" by (simp add: hm_wf_def flip: rev_map)
  with wf have "hm_get (rev m) k = Some v \<longleftrightarrow> hm_get m k = Some v" for v
    by (simp add: hm_get_iff)
  then show "hm_get (rev m) k = hm_get m k"
    by (cases "hm_get m k"; cases "hm_get (rev m) k") auto
qed

end
