(* ===== verification/Raw_Types.thy ===== *)
theory Raw_Types
  imports Prelude
begin

text \<open>
  The crate root of \<open>rawobjstr\<close> (\<open>rawobjstr/src/lib.rs\<close>): the error type, the layout
  constants, the compression setting and \<open>align_up\<close>.

  The third-party codecs the crate calls are parameters: a record \<open>codecs\<close> with the CRC32c
  function, its incremental form and the compressors. Every definition that reaches them takes
  the record as its first argument.
\<close>

section \<open>Errors\<close>

text \<open>
  \<open>Panicked\<close> is not a variant of the Rust enum: it is the outcome of an \<open>assert!\<close>, an index
  out of range or an \<open>unwrap\<close> of the source that fails. Formatted message texts are dropped;
  an I/O error keeps its kind.
\<close>

datatype io_kind = InvalidData | InvalidInput | OtherKind | UnexpectedEof | Unsupported | OsError

datatype raw_store_error =
    NotFormatted
  | SuperblockCorrupt
  | IndexCorrupt
  | DataCorruption string u32 u32
  | ExtentInvalid string
  | NoSpace nat nat
  | NotFound string
  | AlreadyExists string
  | DeviceTooSmall nat nat
  | InvalidIndexSlotSize nat
  | KeyTooLong nat nat
  | ShardOverflow nat nat nat
  | MaxKeyLengthTooLarge nat nat
  | MetadataTooLarge nat nat
  | EmptyPayload
  | ReadOnly
  | WriteProtected
  | DeviceLocked
  | InsufficientWrites string nat nat
  | Io io_kind
  | Bincode
  | Panicked

type_synonym 'a result = "raw_store_error + 'a"

fun bind_res :: "'e + 'a \<Rightarrow> ('a \<Rightarrow> 'e + 'b) \<Rightarrow> 'e + 'b" where
  "bind_res (Inl e) f = Inl e"
| "bind_res (Inr x) f = f x"

fun is_ok :: "'e + 'a \<Rightarrow> bool" where
  "is_ok (Inl e) = False"
| "is_ok (Inr x) = True"

lemma bind_res_Inr_iff: "bind_res r f = Inr y \<longleftrightarrow> (\<exists>x. r = Inr x \<and> f x = Inr y)"
  by (cases r) auto

lemma is_ok_iff: "is_ok r \<longleftrightarrow> (\<exists>x. r = Inr x)"
  by (cases r) auto

section \<open>Layout constants\<close>

definition SUPERBLOCK_SIZE :: nat where "SUPERBLOCK_SIZE = 4096"
definition SUPERBLOCK_REGION :: nat where "SUPERBLOCK_REGION = SUPERBLOCK_SIZE * 2"
definition DATA_START :: nat where "DATA_START = SUPERBLOCK_REGION"
definition BLOCK_ALIGNMENT :: nat where "BLOCK_ALIGNMENT = 4096"
definition INDEX_REGION_SIZE :: nat where "INDEX_REGION_SIZE = 16 * 1024 * 1024"
definition INDEX_TOTAL_SIZE :: nat where "INDEX_TOTAL_SIZE = INDEX_REGION_SIZE * 2"
definition MIN_DEVICE_SIZE :: nat where
  "MIN_DEVICE_SIZE = SUPERBLOCK_REGION + BLOCK_ALIGNMENT + INDEX_TOTAL_SIZE"
definition SUPERBLOCK_MAGIC :: string where "SUPERBLOCK_MAGIC = ''RAWOBJST''"
definition NUM_SHARDS :: nat where "NUM_SHARDS = 256"
definition FLAG_DIRECT_IO :: u32 where "FLAG_DIRECT_IO = push_bit 0 1"
definition FLAG_WRITE_PROTECT :: u32 where "FLAG_WRITE_PROTECT = push_bit 1 1"
definition FLAG_KNOWN_MASK :: u32 where "FLAG_KNOWN_MASK = FLAG_DIRECT_IO OR FLAG_WRITE_PROTECT"
definition MAX_KEY_LENGTH :: nat where "MAX_KEY_LENGTH = 1024"
definition DEFAULT_MAX_KEY_LENGTH :: nat where "DEFAULT_MAX_KEY_LENGTH = MAX_KEY_LENGTH"
definition MAX_KEY_LENGTH_HARD_CEILING :: nat where "MAX_KEY_LENGTH_HARD_CEILING = 65536"
definition COMPRESSED_RANGE_READ_MAX :: nat where
  "COMPRESSED_RANGE_READ_MAX = 1024 * 1024 * 1024"

lemmas layout_consts =
  SUPERBLOCK_SIZE_def SUPERBLOCK_REGION_def DATA_START_def BLOCK_ALIGNMENT_def
  INDEX_REGION_SIZE_def INDEX_TOTAL_SIZE_def MIN_DEVICE_SIZE_def NUM_SHARDS_def

definition min_device_size :: "nat \<Rightarrow> nat" where
  "min_device_size index_slot_size =
     uadd (SUPERBLOCK_REGION + BLOCK_ALIGNMENT) (umul index_slot_size 2)"

definition validate_index_slot_size :: "nat \<Rightarrow> unit result" where
  "validate_index_slot_size slot_size =
     (if slot_size < INDEX_REGION_SIZE \<or> slot_size mod INDEX_REGION_SIZE \<noteq> 0
      then Inl (InvalidIndexSlotSize slot_size) else Inr ())"

section \<open>Alignment\<close>

definition align_up :: "nat \<Rightarrow> nat \<Rightarrow> nat" where
  "align_up value alignment =
     unat ((of_nat value + of_nat alignment - 1 :: 64 word) AND NOT (of_nat alignment - 1))"

lemma and_not_mask_word: "(w :: 64 word) AND NOT (mask n) = push_bit n (drop_bit n w)"
  by (rule bit_word_eqI) (auto simp: bit_simps)

lemma unat_and_not_mask:
  "n < 64 \<Longrightarrow> unat ((w :: 64 word) AND NOT (mask n)) = unat w div 2 ^ n * 2 ^ n"
proof -
  assume n: "n < 64"
  have d: "unat (drop_bit n w) = unat w div 2 ^ n"
    by (simp only: unat_drop_bit_eq) (simp add: drop_bit_eq_div)
  have "unat w div 2 ^ n * 2 ^ n \<le> unat w" by simp
  moreover have "unat w < 2 ^ 64" using unsigned_less [of w, where ?'a = nat] by simp
  ultimately have lt: "unat w div 2 ^ n * 2 ^ n < 2 ^ 64" by linarith
  have "unat (push_bit n (drop_bit n w)) = take_bit 64 (push_bit n (unat (drop_bit n w)))"
    by (simp only: unsigned_push_bit_eq) simp
  also have "\<dots> = (unat w div 2 ^ n * 2 ^ n) mod 2 ^ 64"
    by (simp only: d push_bit_eq_mult take_bit_eq_mod)
  finally show ?thesis using lt by (simp only: and_not_mask_word mod_less)
qed

lemma align_up_pow2:
  assumes "n < 64" and "v + 2 ^ n \<le> 2 ^ 64"
  shows "align_up v (2 ^ n) = (v + 2 ^ n - 1) div 2 ^ n * 2 ^ n"
proof -
  let ?w = "of_nat (v + 2 ^ n - 1) :: 64 word"
  have "v + 2 ^ n = Suc (v + 2 ^ n - 1)" by simp
  then have "(of_nat (v + 2 ^ n) :: 64 word) = ?w + 1" by (metis of_nat_Suc add.commute)
  then have "of_nat v + of_nat (2 ^ n) - 1 = ?w" by simp
  moreover have "(of_nat (2 ^ n) - 1 :: 64 word) = mask n"
    by (simp add: mask_eq_exp_minus_1)
  moreover have "unat ?w = v + 2 ^ n - 1"
    using assms by (simp add: unat_of_nat)
  ultimately show ?thesis
    using unat_and_not_mask [OF assms(1), of ?w] by (simp add: align_up_def)
qed

lemma align_up_4096:
  "v + 4096 \<le> 2 ^ 64 \<Longrightarrow> align_up v 4096 = (v + 4095) div 4096 * 4096"
  using align_up_pow2 [of 12 v] by simp

lemma align_up_multiple: "4096 dvd v \<Longrightarrow> v + 4096 \<le> 2 ^ 64 \<Longrightarrow> align_up v 4096 = v"
  by (auto simp: align_up_4096 elim!: dvdE)

section \<open>Compression\<close>

datatype compression =
  CNone | Zstd | Snappy | Gzip0 | Gzip1 | Gzip2 | Gzip3 | Gzip4 | Gzip5 | Gzip6 | Gzip7 | Gzip8 | Gzip9

fun compression_as_u8 :: "compression \<Rightarrow> nat" where
  "compression_as_u8 CNone = 0"
| "compression_as_u8 Zstd = 1"
| "compression_as_u8 Snappy = 2"
| "compression_as_u8 Gzip0 = 3"
| "compression_as_u8 Gzip1 = 4"
| "compression_as_u8 Gzip2 = 5"
| "compression_as_u8 Gzip3 = 6"
| "compression_as_u8 Gzip4 = 7"
| "compression_as_u8 Gzip5 = 8"
| "compression_as_u8 Gzip6 = 9"
| "compression_as_u8 Gzip7 = 10"
| "compression_as_u8 Gzip8 = 11"
| "compression_as_u8 Gzip9 = 12"

definition compression_from_u8 :: "nat \<Rightarrow> compression result" where
  "compression_from_u8 v =
     (if v = 0 then Inr CNone
      else if v = 1 then Inr Zstd
      else if v = 2 then Inr Snappy
      else if v = 3 then Inr Gzip0
      else if v = 4 then Inr Gzip1
      else if v = 5 then Inr Gzip2
      else if v = 6 then Inr Gzip3
      else if v = 7 then Inr Gzip4
      else if v = 8 then Inr Gzip5
      else if v = 9 then Inr Gzip6
      else if v = 10 then Inr Gzip7
      else if v = 11 then Inr Gzip8
      else if v = 12 then Inr Gzip9
      else Inl (Io InvalidData))"

fun compression_as_str :: "compression \<Rightarrow> string" where
  "compression_as_str CNone = ''none''"
| "compression_as_str Zstd = ''zstd''"
| "compression_as_str Snappy = ''snappy''"
| "compression_as_str Gzip0 = ''gzip0''"
| "compression_as_str Gzip1 = ''gzip1''"
| "compression_as_str Gzip2 = ''gzip2''"
| "compression_as_str Gzip3 = ''gzip3''"
| "compression_as_str Gzip4 = ''gzip4''"
| "compression_as_str Gzip5 = ''gzip5''"
| "compression_as_str Gzip6 = ''gzip6''"
| "compression_as_str Gzip7 = ''gzip7''"
| "compression_as_str Gzip8 = ''gzip8''"
| "compression_as_str Gzip9 = ''gzip9''"

definition ascii_lower :: "char \<Rightarrow> char" where
  "ascii_lower c =
     (if 65 \<le> (of_char c :: nat) \<and> (of_char c :: nat) \<le> 90 then char_of (of_char c + 32 :: nat) else c)"

definition to_ascii_lowercase :: "string \<Rightarrow> string" where
  "to_ascii_lowercase s = map ascii_lower s"

definition compression_from_str_name :: "string \<Rightarrow> compression result" where
  "compression_from_str_name s =
     (let l = to_ascii_lowercase s in
      if l = ''none'' then Inr CNone
      else if l = ''zstd'' then Inr Zstd
      else if l = ''snappy'' then Inr Snappy
      else if l = ''gzip0'' then Inr Gzip0
      else if l = ''gzip1'' then Inr Gzip1
      else if l = ''gzip2'' then Inr Gzip2
      else if l = ''gzip3'' then Inr Gzip3
      else if l = ''gzip4'' then Inr Gzip4
      else if l = ''gzip5'' then Inr Gzip5
      else if l = ''gzip6'' then Inr Gzip6
      else if l = ''gzip7'' then Inr Gzip7
      else if l = ''gzip8'' then Inr Gzip8
      else if l = ''gzip9'' then Inr Gzip9
      else Inl (Io InvalidData))"

text \<open>
  The external codecs. A compressor returns \<open>None\<close> where the crate returns an error; a
  decompressor likewise. \<open>x_gz_compress\<close> takes the level.
\<close>

record codecs =
  x_crc32c :: "byte list \<Rightarrow> u32"
  x_crc32c_append :: "u32 \<Rightarrow> byte list \<Rightarrow> u32"
  x_zstd_compress :: "byte list \<Rightarrow> byte list option"
  x_zstd_decompress :: "byte list \<Rightarrow> byte list option"
  x_snap_compress :: "byte list \<Rightarrow> byte list option"
  x_snap_decompress :: "byte list \<Rightarrow> byte list option"
  x_gz_compress :: "nat \<Rightarrow> byte list \<Rightarrow> byte list option"
  x_gz_decompress :: "byte list \<Rightarrow> byte list option"

definition compress :: "'x codecs_scheme \<Rightarrow> compression \<Rightarrow> byte list \<Rightarrow> byte list option" where
  "compress X c data =
     (case c of
        CNone \<Rightarrow> None
      | Zstd \<Rightarrow> Some (case x_zstd_compress X data of Some v \<Rightarrow> v | None \<Rightarrow> data)
      | Snappy \<Rightarrow> Some (case x_snap_compress X data of Some v \<Rightarrow> v | None \<Rightarrow> data)
      | _ \<Rightarrow> (let level = saturating_sub (compression_as_u8 c) (compression_as_u8 Gzip0)
              in Some (case x_gz_compress X level data of Some v \<Rightarrow> v | None \<Rightarrow> data)))"

definition decompress :: "'x codecs_scheme \<Rightarrow> compression \<Rightarrow> byte list \<Rightarrow> byte list result" where
  "decompress X c data =
     (case c of
        CNone \<Rightarrow> Inr data
      | Zstd \<Rightarrow> (case x_zstd_decompress X data of Some v \<Rightarrow> Inr v | None \<Rightarrow> Inl (Io InvalidData))
      | Snappy \<Rightarrow> (case x_snap_decompress X data of Some v \<Rightarrow> Inr v | None \<Rightarrow> Inl (Io InvalidData))
      | _ \<Rightarrow> (case x_gz_decompress X data of Some v \<Rightarrow> Inr v | None \<Rightarrow> Inl (Io InvalidData)))"

text \<open>
  What the code relies on: the incremental CRC of a split input is the CRC of the whole
  (\<open>crc32c\<close>'s documentation of \<open>crc32c_append\<close>, with 0 the CRC of the empty input), and every
  decompressor inverts its compressor, whose output (a frame with a header) is never empty.
\<close>

definition crc_laws :: "'x codecs_scheme \<Rightarrow> bool" where
  "crc_laws X \<longleftrightarrow>
     x_crc32c X [] = 0 \<and>
     (\<forall>a b. x_crc32c_append X (x_crc32c X a) b = x_crc32c X (a @ b))"

definition codec_laws :: "'x codecs_scheme \<Rightarrow> bool" where
  "codec_laws X \<longleftrightarrow>
     (\<forall>d v. x_zstd_compress X d = Some v \<longrightarrow> v \<noteq> [] \<and> x_zstd_decompress X v = Some d) \<and>
     (\<forall>d v. x_snap_compress X d = Some v \<longrightarrow> v \<noteq> [] \<and> x_snap_decompress X v = Some d) \<and>
     (\<forall>l d v. x_gz_compress X l d = Some v \<longrightarrow> v \<noteq> [] \<and> x_gz_decompress X v = Some d)"

lemma crc_append_zero: "crc_laws X \<Longrightarrow> x_crc32c_append X 0 b = x_crc32c X b"
  unfolding crc_laws_def by (metis append_Nil)

lemma crc_append: "crc_laws X \<Longrightarrow> x_crc32c_append X (x_crc32c X a) b = x_crc32c X (a @ b)"
  by (simp add: crc_laws_def)

text \<open>A compressor's output that is strictly smaller than its input decompresses to the input.\<close>

lemma compress_smaller_decompress:
  assumes laws: "codec_laws X" and "compress X c d = Some v" and "length v < length d"
  shows "decompress X c v = Inr d" and "v \<noteq> []"
  using assms
  by (cases c; force simp: compress_def decompress_def codec_laws_def Let_def split: option.splits)+

lemma compression_u8_roundtrip: "compression_from_u8 (compression_as_u8 c) = Inr c"
  by (cases c) (simp_all add: compression_from_u8_def)

lemma compression_from_u8_Inr: "compression_from_u8 v = Inr c \<longleftrightarrow> v = compression_as_u8 c"
  by (cases c) (auto simp: compression_from_u8_def split: if_splits)

lemma compression_from_u8_error: "compression_from_u8 v = Inl (Io InvalidData) \<longleftrightarrow> 12 < v"
proof (cases "12 < v")
  case True
  then show ?thesis by (simp add: compression_from_u8_def)
next
  case False
  then have "v < 13" by simp
  then have "v \<in> set [0..<13]" by simp
  then have "v \<in> {0, 1, 2, 3, 4, 5, 6, 7, 8, 9, 10, 11, 12}" by (auto simp: upt_rec)
  with False show ?thesis by (auto simp: compression_from_u8_def)
qed

lemma to_ascii_lowercase_name: "to_ascii_lowercase (compression_as_str c) = compression_as_str c"
  by (cases c) (simp_all add: to_ascii_lowercase_def ascii_lower_def)

lemma compression_name_roundtrip: "compression_from_str_name (compression_as_str c) = Inr c"
  unfolding compression_from_str_name_def to_ascii_lowercase_name by (cases c) simp_all

end
