(* ===== verification/Allocator.thy ===== *)
theory Allocator
  imports Raw_Types
begin

text \<open>
  The first-fit extent allocator with coalescing (\<open>rawobjstr/src/allocator.rs\<close>), and the
  gap scan of \<open>rebuild_free_list\<close> in \<open>rawobjstr/src/store.rs\<close>.

  The free list is a list of \<open>(offset, size)\<close> pairs. Its invariant \<open>fl_ok\<close> says that the
  list is sorted, that its regions lie in the data area and that two neighbours never touch:
  \<open>free\<close> merges touching regions, so the list is a canonical form of the set of free bytes
  \<open>covered\<close>. The locale \<open>extent_space\<close> states what the store relies on; it is interpreted
  on the model of the source.
\<close>

section \<open>The allocator\<close>

record extent_allocator =
  free_list :: "(nat \<times> nat) list"
  alignment :: nat

definition alloc_new :: "nat \<Rightarrow> nat \<Rightarrow> nat \<Rightarrow> extent_allocator" where
  "alloc_new data_start data_end align =
     \<lparr>free_list = (if data_end > data_start then [(data_start, data_end - data_start)] else []),
      alignment = align\<rparr>"

definition from_free_list :: "(nat \<times> nat) list \<Rightarrow> nat \<Rightarrow> nat \<Rightarrow> extent_allocator" where
  "from_free_list fl data_start data_end =
     (let sorted_fl = sort_key fst fl;
          nonempty = filter (\<lambda>(_, s). s > 0) sorted_fl;
          bounded = filter (\<lambda>(off, sz). off \<ge> data_start \<and> saturating_add off sz \<le> data_end) nonempty
      in \<lparr>free_list = bounded, alignment = BLOCK_ALIGNMENT\<rparr>)"

definition free_space :: "extent_allocator \<Rightarrow> nat" where
  "free_space a = foldl uadd 0 (map snd (free_list a))"

definition largest_free :: "(nat \<times> nat) list \<Rightarrow> nat" where
  "largest_free fl = (if fl = [] then 0 else Max (snd ` set fl))"

definition alloc :: "extent_allocator \<Rightarrow> nat \<Rightarrow> nat result \<times> extent_allocator" where
  "alloc a needed0 =
     (let needed = align_up needed0 (alignment a) in
      case position (\<lambda>(_, size). size \<ge> needed) (free_list a) of
        Some idx \<Rightarrow>
          (let (offset, size) = free_list a ! idx;
               remaining = size - needed
           in if remaining > 0
              then (Inr offset, a\<lparr>free_list := (free_list a)[idx := (uadd offset needed, remaining)]\<rparr>)
              else (Inr offset, a\<lparr>free_list := vec_remove idx (free_list a)\<rparr>))
      | None \<Rightarrow> (Inl (NoSpace needed (largest_free (free_list a))), a))"

text \<open>\<open>partition_point\<close> on a list whose matching entries come first.\<close>

definition partition_point :: "('a \<Rightarrow> bool) \<Rightarrow> 'a list \<Rightarrow> nat" where
  "partition_point p xs = length (takeWhile p xs)"

definition merge_next :: "nat \<Rightarrow> (nat \<times> nat) list \<Rightarrow> (nat \<times> nat) list" where
  "merge_next pos fl =
     (if pos + 1 < length fl then
        (let (cur_off, cur_sz) = fl ! pos; (next_off, next_sz) = fl ! (pos + 1)
         in if saturating_add cur_off cur_sz = next_off
            then vec_remove (pos + 1) (fl[pos := (cur_off, uadd cur_sz next_sz)])
            else fl)
      else fl)"

definition merge_prev :: "nat \<Rightarrow> (nat \<times> nat) list \<Rightarrow> (nat \<times> nat) list" where
  "merge_prev pos fl =
     (if pos > 0 then
        (let (prev_off, prev_sz) = fl ! (pos - 1); (cur_off, cur_sz) = fl ! pos
         in if saturating_add prev_off prev_sz = cur_off
            then vec_remove pos (fl[pos - 1 := (prev_off, uadd prev_sz cur_sz)])
            else fl)
      else fl)"

definition alloc_free :: "extent_allocator \<Rightarrow> nat \<Rightarrow> nat \<Rightarrow> extent_allocator" where
  "alloc_free a offset padded_size =
     (let insert_pos = partition_point (\<lambda>(off, _). off < offset) (free_list a);
          inserted = vec_insert insert_pos (offset, padded_size) (free_list a)
      in a\<lparr>free_list := merge_prev insert_pos (merge_next insert_pos inserted)\<rparr>)"

text \<open>
  The loop of \<open>rebuild_free_list\<close> over the used extents sorted by offset, and the tail gap.
\<close>

definition gap_step :: "nat \<times> (nat \<times> nat) list \<Rightarrow> nat \<times> nat \<Rightarrow> nat \<times> (nat \<times> nat) list" where
  "gap_step st e =
     (case st of (cursor, free) \<Rightarrow> case e of (offset, psize) \<Rightarrow>
        (uadd offset psize,
         if offset > cursor then free @ [(cursor, offset - cursor)] else free))"

definition gap_list :: "nat \<Rightarrow> (nat \<times> nat) list \<Rightarrow> nat \<Rightarrow> (nat \<times> nat) list" where
  "gap_list data_start used data_end =
     (let (cursor, free) = foldl gap_step (data_start, []) used
      in if cursor < data_end then free @ [(cursor, data_end - cursor)] else free)"

section \<open>Well-formed free lists\<close>

fun fl_ok :: "nat \<Rightarrow> nat \<Rightarrow> (nat \<times> nat) list \<Rightarrow> bool" where
  "fl_ok lo hi [] = True"
| "fl_ok lo hi ((off, s) # r) = (lo \<le> off \<and> 0 < s \<and> off + s \<le> hi \<and> fl_ok (off + s + 1) hi r)"

fun fl_end :: "nat \<Rightarrow> (nat \<times> nat) list \<Rightarrow> nat" where
  "fl_end lo [] = lo"
| "fl_end lo ((off, s) # r) = fl_end (off + s + 1) r"

definition ext_range :: "nat \<times> nat \<Rightarrow> nat set" where
  "ext_range e = {fst e..<fst e + snd e}"

definition covered :: "(nat \<times> nat) list \<Rightarrow> nat set" where
  "covered fl = (\<Union>e\<in>set fl. ext_range e)"

lemma covered_simps [simp]:
  "covered [] = {}"
  "covered (e # r) = ext_range e \<union> covered r"
  "covered (xs @ ys) = covered xs \<union> covered ys"
  by (auto simp: covered_def)

lemma ext_range_pair [simp]: "ext_range (off, s) = {off..<off + s}"
  by (simp add: ext_range_def)

lemma fl_ok_weaken: "fl_ok lo hi fl \<Longrightarrow> lo' \<le> lo \<Longrightarrow> fl_ok lo' hi fl"
  by (cases fl) auto

lemma fl_ok_append: "fl_ok lo hi (xs @ ys) \<longleftrightarrow> fl_ok lo hi xs \<and> fl_ok (fl_end lo xs) hi ys"
  by (induction lo hi xs rule: fl_ok.induct) auto

lemma fl_end_append: "fl_end lo (xs @ ys) = fl_end (fl_end lo xs) ys"
  by (induction lo xs rule: fl_end.induct) auto

lemma fl_end_ge: "fl_ok lo hi fl \<Longrightarrow> lo \<le> fl_end lo fl"
  by (induction lo hi fl rule: fl_ok.induct) auto

lemma fl_ok_covered: "fl_ok lo hi fl \<Longrightarrow> covered fl \<subseteq> {lo..<hi}"
  by (induction lo hi fl rule: fl_ok.induct) (auto simp: subset_iff)

lemma fl_ok_covered_end: "fl_ok lo hi fl \<Longrightarrow> x \<in> covered fl \<Longrightarrow> x + 1 < fl_end lo fl"
proof (induction lo hi fl rule: fl_ok.induct)
  case (1 lo hi)
  then show ?case by simp
next
  case (2 lo hi off s r)
  then have "off + s + 1 \<le> fl_end (off + s + 1) r" by (auto intro: fl_end_ge)
  with 2 show ?case by auto
qed

lemma finite_covered [simp]: "finite (covered fl)"
  by (auto simp: covered_def ext_range_def)

lemma card_covered: "fl_ok lo hi fl \<Longrightarrow> card (covered fl) = sum_list (map snd fl)"
proof (induction lo hi fl rule: fl_ok.induct)
  case (1 lo hi)
  then show ?case by simp
next
  case (2 lo hi off s r)
  then have "covered r \<subseteq> {off + s + 1..<hi}" by (auto dest: fl_ok_covered)
  then have "{off..<off + s} \<inter> covered r = {}" by auto
  then have "card ({off..<off + s} \<union> covered r) = s + card (covered r)"
    by (subst card_Un_disjoint) auto
  with 2 show ?case by simp
qed

text \<open>A well-formed free list is determined by the bytes it covers.\<close>

lemma fl_ok_head:
  assumes "fl_ok lo hi ((off, s) # r)"
  shows "off \<in> covered ((off, s) # r)" and "off + s \<notin> covered ((off, s) # r)"
    and "x \<in> covered ((off, s) # r) \<Longrightarrow> off \<le> x"
  using assms fl_ok_covered [of "off + s + 1" hi r] by auto

lemma fl_ok_canonical:
  assumes "fl_ok lo hi a" and "fl_ok lo hi b" and "covered a = covered b"
  shows "a = b"
  using assms
proof (induction a arbitrary: lo b)
  case Nil
  then show ?case by (cases b) (auto dest: fl_ok_head)
next
  case (Cons e r)
  obtain off s where e: "e = (off, s)" by (cases e)
  obtain off' s' r' where b: "b = (off', s') # r'"
    using Cons.prems by (cases b) (auto simp: e dest: fl_ok_head)
  note oka = Cons.prems(1) [unfolded e] and okb = Cons.prems(2) [unfolded b]
  note cov = Cons.prems(3) [unfolded e b]
  have "off = off'"
    using fl_ok_head(1,3) [OF oka] fl_ok_head(1,3) [OF okb] cov by (metis le_antisym)
  moreover have "s = s'"
  proof (rule ccontr)
    assume "s \<noteq> s'"
    then consider "s < s'" | "s' < s" by linarith
    then show False
      using fl_ok_head(2) [OF oka] fl_ok_head(2) [OF okb] cov \<open>off = off'\<close>
      by cases auto
  qed
  moreover have "covered r = covered r'"
  proof -
    have "covered r = covered (e # r) - {off..<off + s}"
      using fl_ok_covered [of "off + s + 1" hi r] oka by (auto simp: e)
    moreover have "covered r' = covered b - {off..<off + s}"
      using fl_ok_covered [of "off' + s' + 1" hi r'] okb \<open>off = off'\<close> \<open>s = s'\<close>
      by (auto simp: b)
    ultimately show ?thesis using Cons.prems(3) by simp
  qed
  ultimately show ?case
    using Cons.IH [of "off + s + 1" r'] oka okb by (simp add: e b)
qed


section \<open>Allocation\<close>

text \<open>
  The allocator's invariant for the data area \<open>[ds, de)\<close>: a well-formed free list whose
  regions start on 4096-byte boundaries (the last one may end anywhere: the data area ends where
  the index regions of a device of arbitrary size begin).
\<close>

definition fl_aligned :: "(nat \<times> nat) list \<Rightarrow> bool" where
  "fl_aligned fl \<longleftrightarrow> (\<forall>(off, s)\<in>set fl. 4096 dvd off)"

definition alloc_inv :: "nat \<Rightarrow> nat \<Rightarrow> extent_allocator \<Rightarrow> bool" where
  "alloc_inv ds de a \<longleftrightarrow>
     alignment a = BLOCK_ALIGNMENT \<and> fl_ok ds de (free_list a) \<and> fl_aligned (free_list a)"

definition free_set :: "extent_allocator \<Rightarrow> nat set" where
  "free_set a = covered (free_list a)"

lemma fl_aligned_simps [simp]:
  "fl_aligned []"
  "fl_aligned ((off, s) # r) \<longleftrightarrow> 4096 dvd off \<and> fl_aligned r"
  "fl_aligned (xs @ ys) \<longleftrightarrow> fl_aligned xs \<and> fl_aligned ys"
  by (auto simp: fl_aligned_def)

lemma alloc_Inr_split:
  assumes "alloc a n = (Inr off, a')"
  obtains ys s zs where "free_list a = ys @ (off, s) # zs"
    and "align_up n (alignment a) \<le> s"
    and "\<forall>e\<in>set ys. snd e < align_up n (alignment a)"
    and "a' = a\<lparr>free_list := ys @ (if align_up n (alignment a) < s
           then (uadd off (align_up n (alignment a)), s - align_up n (alignment a)) # zs else zs)\<rparr>"
proof -
  let ?p = "\<lambda>(_ :: nat, size). align_up n (alignment a) \<le> size"
  obtain i where i: "position ?p (free_list a) = Some i"
    using assms by (cases "position ?p (free_list a)") (auto simp: alloc_def)
  from position_Some_split [OF i] obtain ys x zs
    where sp: "free_list a = ys @ x # zs" "length ys = i" "?p x" "\<forall>y\<in>set ys. \<not> ?p y"
    by blast
  obtain o' s where x: "x = (o', s)" by (cases x)
  have nth: "free_list a ! i = (o', s)"
    and upd: "(free_list a)[i := e] = ys @ e # zs"
    and rem: "vec_remove i (free_list a) = ys @ zs" for e
    using sp(1,2) x by (auto simp: nth_append)
  have "alloc a n = (Inr o', a\<lparr>free_list := ys @ (if align_up n (alignment a) < s
      then (uadd o' (align_up n (alignment a)), s - align_up n (alignment a)) # zs else zs)\<rparr>)"
    using i by (simp add: alloc_def Let_def nth upd rem)
  with assms sp x show ?thesis
    by (intro that [of ys s zs]) (auto simp: not_le)
qed

lemma alloc_Inl_iff:
  "alloc a n = (Inl e, a') \<longleftrightarrow>
     (\<forall>r\<in>set (free_list a). snd r < align_up n (alignment a)) \<and> a' = a \<and>
     e = NoSpace (align_up n (alignment a)) (largest_free (free_list a))"
proof (cases "position (\<lambda>(_ :: nat, size). size \<ge> align_up n (alignment a)) (free_list a)")
  case None
  then have "\<forall>r\<in>set (free_list a). snd r < align_up n (alignment a)"
    by (auto simp: position_None_iff not_le)
  with None show ?thesis by (auto simp: alloc_def Let_def)
next
  case (Some i)
  then have "\<not> (\<forall>r\<in>set (free_list a). snd r < align_up n (alignment a))"
    by (auto dest!: position_Some_split)
  with Some show ?thesis by (auto simp: alloc_def Let_def split: prod.splits if_splits)
qed

text \<open>A run of free bytes lies in one free region, because regions never touch.\<close>

lemma fl_ok_run:
  assumes "fl_ok lo hi fl" and "0 < p" and "{x..<x + p} \<subseteq> covered fl"
  shows "\<exists>(off, s)\<in>set fl. off \<le> x \<and> x + p \<le> off + s"
  using assms
proof (induction lo hi fl rule: fl_ok.induct)
  case (1 lo hi)
  then show ?case by auto
next
  case (2 lo hi off s r)
  have tail: "covered r \<subseteq> {off + s + 1..<hi}" using 2 by (auto dest: fl_ok_covered)
  have x: "x \<in> covered ((off, s) # r)"
    using "2.prems"(2) by (intro subsetD [OF "2.prems"(3)]) simp
  show ?case
  proof (cases "x < off + s")
    case True
    have "off + s \<notin> {x..<x + p}"
      using "2.prems"(3) tail by (auto simp: subset_iff)
    with True have "x + p \<le> off + s" by auto
    moreover have "off \<le> x" using x tail True by auto
    ultimately show ?thesis by auto
  next
    case False
    then have "{x..<x + p} \<subseteq> covered r" using "2.prems"(3) by (auto simp: subset_iff)
    with 2 show ?thesis by fastforce
  qed
qed

lemma fl_ok_take_front:
  assumes ok: "fl_ok lo hi (ys @ (off, s) # zs)" and p: "0 < p" "p \<le> s"
  defines "fl' \<equiv> ys @ (if p < s then (off + p, s - p) # zs else zs)"
  shows "fl_ok lo hi fl'"
    and "covered fl' = covered (ys @ (off, s) # zs) - {off..<off + p}"
    and "{off..<off + p} \<subseteq> covered (ys @ (off, s) # zs)"
proof -
  have okz: "fl_ok (off + s + 1) hi zs" and oky: "fl_ok lo hi ys" and "fl_end lo ys \<le> off"
    and "off + s \<le> hi"
    using ok by (auto simp: fl_ok_append)
  then show "fl_ok lo hi fl'"
    using p by (auto simp: fl'_def fl_ok_append intro: fl_ok_weaken)
  have "covered ys \<inter> {off..<off + p} = {}"
    using fl_ok_covered_end [OF oky] \<open>fl_end lo ys \<le> off\<close> by fastforce
  moreover have "covered zs \<inter> {off..<off + p} = {}"
    using fl_ok_covered [OF okz] p by auto
  ultimately show "covered fl' = covered (ys @ (off, s) # zs) - {off..<off + p}"
    using p by (auto simp: fl'_def)
  show "{off..<off + p} \<subseteq> covered (ys @ (off, s) # zs)" using p by auto
qed

lemma align_up_pos: "0 < n \<Longrightarrow> n + 4096 \<le> 2 ^ 64 \<Longrightarrow> n \<le> align_up n 4096 \<and> 4096 dvd align_up n 4096"
  by (auto simp: align_up_4096)

lemma alloc_Inr:
  assumes inv: "alloc_inv ds de a" and de: "de < 2 ^ 64" and n: "0 < n" "n + 4096 \<le> 2 ^ 64"
    and run: "alloc a n = (Inr off, a')"
  shows "alloc_inv ds de a'" and "free_set a' = free_set a - {off..<off + align_up n 4096}"
    and "{off..<off + align_up n 4096} \<subseteq> free_set a" and "4096 dvd off"
    and "ds \<le> off" and "off + align_up n 4096 \<le> de"
proof -
  let ?p = "align_up n 4096"
  have al: "alignment a = 4096" using inv by (simp add: alloc_inv_def layout_consts)
  have p: "0 < ?p" "4096 dvd ?p" using align_up_pos [OF n] n by auto
  from alloc_Inr_split [OF run] obtain ys s zs where
    fl: "free_list a = ys @ (off, s) # zs" and le: "?p \<le> s"
    and a': "a' = a\<lparr>free_list := ys @ (if ?p < s then (uadd off ?p, s - ?p) # zs else zs)\<rparr>"
    unfolding al by blast
  have ok: "fl_ok ds de (ys @ (off, s) # zs)" and aln: "fl_aligned (ys @ (off, s) # zs)"
    using inv by (auto simp: alloc_inv_def fl)
  have bnd: "off + s \<le> de" using ok by (simp add: fl_ok_append)
  with de le have u: "uadd off ?p = off + ?p" by (simp add: uadd_in_range)
  note take = fl_ok_take_front [OF ok p(1) le]
  show "alloc_inv ds de a'"
    using inv take(1) aln p(2) by (auto simp: alloc_inv_def a' u)
  show "free_set a' = free_set a - {off..<off + ?p}"
    using take(2) unfolding free_set_def a' u fl by simp
  show sub: "{off..<off + ?p} \<subseteq> free_set a" using take(3) by (simp add: free_set_def fl)
  show "4096 dvd off" using aln by simp
  show "off + ?p \<le> de" using bnd le by simp
  have "off \<in> free_set a" using p(1) by (intro subsetD [OF sub]) simp
  then show "ds \<le> off" using fl_ok_covered [OF ok] by (auto simp: free_set_def fl)
qed

lemma alloc_Inl:
  assumes inv: "alloc_inv ds de a" and n: "0 < n" "n + 4096 \<le> 2 ^ 64"
    and run: "alloc a n = (Inl e, a')"
  shows "a' = a" and "\<not> {x..<x + align_up n 4096} \<subseteq> free_set a"
    and "\<exists>avail. e = NoSpace (align_up n 4096) avail"
proof -
  have al: "alignment a = 4096" using inv by (simp add: alloc_inv_def layout_consts)
  show "a' = a" and "\<exists>avail. e = NoSpace (align_up n 4096) avail"
    using run by (simp_all add: alloc_Inl_iff al)
  show "\<not> {x..<x + align_up n 4096} \<subseteq> free_set a"
  proof
    assume "{x..<x + align_up n 4096} \<subseteq> free_set a"
    then have "\<exists>(off, s)\<in>set (free_list a). off \<le> x \<and> x + align_up n 4096 \<le> off + s"
      using inv align_up_pos [OF n] n
      by (intro fl_ok_run [of ds de]) (auto simp: alloc_inv_def free_set_def)
    then obtain off s where "(off, s) \<in> set (free_list a)" "off \<le> x" "x + align_up n 4096 \<le> off + s"
      by blast
    moreover from this have "s < align_up n 4096" using run by (auto simp: alloc_Inl_iff al)
    ultimately show False by linarith
  qed
qed

section \<open>Freeing\<close>

lemma merge_next_at:
  "merge_next (length ys) (ys @ (off, p) # zs) =
     ys @ (case zs of [] \<Rightarrow> [(off, p)]
           | (next_off, next_sz) # zs' \<Rightarrow>
               (if saturating_add off p = next_off then (off, uadd p next_sz) # zs'
                else (off, p) # zs))"
proof (cases zs)
  case Nil
  then show ?thesis by (simp add: merge_next_def)
next
  case (Cons z zs')
  obtain no ns where z: "z = (no, ns)" by (cases z)
  have "vec_remove (length ys + 1) (ys @ e # (no, ns) # zs') = ys @ e # zs'" for e
    using vec_remove_append [of "ys @ [e]" "(no, ns)" zs'] by simp
  then show ?thesis by (simp add: merge_next_def Cons z nth_append list_update_append)
qed

lemma merge_prev_at:
  "merge_prev (length ys) (ys @ (off, p) # zs) =
     (case rev ys of [] \<Rightarrow> (off, p) # zs
      | (prev_off, prev_sz) # rys \<Rightarrow>
          (if saturating_add prev_off prev_sz = off then rev rys @ (prev_off, uadd prev_sz p) # zs
           else ys @ (off, p) # zs))"
proof (cases ys rule: rev_cases)
  case Nil
  then show ?thesis by (simp add: merge_prev_def)
next
  case (snoc ys' y)
  obtain po ps where y: "y = (po, ps)" by (cases y)
  have "vec_remove (Suc (length ys')) (ys' @ e # (off, p) # zs) = ys' @ e # zs" for e
    using vec_remove_append [of "ys' @ [e]" "(off, p)" zs] by simp
  then show ?thesis by (simp add: merge_prev_def snoc y nth_append list_update_append)
qed

lemma sorted_split_disjoint:
  assumes ok: "fl_ok lo hi (ys @ zs)" and lt: "\<forall>e\<in>set ys. fst e < off"
    and ge: "case zs of [] \<Rightarrow> True | e # _ \<Rightarrow> off \<le> fst e"
    and dis: "{off..<off + p} \<inter> covered (ys @ zs) = {}" and p: "0 < p"
  shows "case zs of [] \<Rightarrow> True | e # _ \<Rightarrow> off + p \<le> fst e"
    and "\<forall>e\<in>set ys. fst e + snd e \<le> off"
proof -
  show "case zs of [] \<Rightarrow> True | e # _ \<Rightarrow> off + p \<le> fst e"
  proof (cases zs)
    case (Cons e zs')
    obtain no ns where e: "e = (no, ns)" by (cases e)
    have "0 < ns" using ok by (simp add: Cons e fl_ok_append)
    then have "no \<in> covered (ys @ zs)" by (simp add: Cons e)
    then have "no \<notin> {off..<off + p}" using dis by blast
    with ge show ?thesis by (simp add: Cons e)
  qed simp
  show "\<forall>e\<in>set ys. fst e + snd e \<le> off"
  proof
    fix e assume e: "e \<in> set ys"
    have "off \<in> {off..<off + p}" using p by simp
    with dis have "off \<notin> covered (ys @ zs)" by blast
    then have "off \<notin> ext_range e" using e by (auto simp: covered_def)
    with lt e show "fst e + snd e \<le> off" by (auto simp: ext_range_def)
  qed
qed

lemma fl_end_last: "fl_end lo (ys @ [(po, ps)]) = po + ps + 1"
  by (simp add: fl_end_append)

lemma free_list_insert:
  assumes ok: "fl_ok lo hi (ys @ zs)" and lt: "\<forall>e\<in>set ys. fst e < off"
    and ge: "case zs of [] \<Rightarrow> True | e # _ \<Rightarrow> off \<le> fst e"
    and dis: "{off..<off + p} \<inter> covered (ys @ zs) = {}" and p: "0 < p"
    and bnd: "lo \<le> off" "off + p \<le> hi" and hi: "hi < 2 ^ 64"
    and al: "fl_aligned (ys @ zs)" "4096 dvd off"
  defines "fl' \<equiv> merge_prev (length ys) (merge_next (length ys) (ys @ (off, p) # zs))"
  shows "fl_ok lo hi fl' \<and> fl_aligned fl' \<and> covered fl' = covered (ys @ zs) \<union> {off..<off + p}"
proof -
  note bz = sorted_split_disjoint(1) [OF ok lt ge dis p]
  note by' = sorted_split_disjoint(2) [OF ok lt ge dis p]
  obtain q zs' where mn: "merge_next (length ys) (ys @ (off, p) # zs) = ys @ (off, q) # zs'"
    and q: "p \<le> q" "off + q \<le> hi" "fl_ok (off + q + 1) hi zs'" "fl_aligned zs'"
    and cov: "covered zs' \<union> {off..<off + q} = covered zs \<union> {off..<off + p}"
  proof (cases zs)
    case Nil
    then show ?thesis using that [of p "[]"] bnd al by (simp add: merge_next_at)
  next
    case (Cons e r)
    obtain no ns where e: "e = (no, ns)" by (cases e)
    have z: "0 < ns" "no + ns \<le> hi" "fl_ok (no + ns + 1) hi r" "off + p \<le> no"
      using ok bz by (auto simp: Cons e fl_ok_append)
    then have u: "saturating_add off p = off + p" "uadd p ns = p + ns"
      using hi by (simp_all add: u64_simps)
    show ?thesis
    proof (cases "off + p = no")
      case True
      then have no: "no = off + p" by simp
      have "{off..<off + (p + ns)} = {off..<off + p} \<union> {off + p..<off + (p + ns)}" by auto
      then show ?thesis
        using that [of "p + ns" r] z al by (simp add: merge_next_at Cons e u no add.assoc Un_ac)
    next
      case False
      then show ?thesis
        using that [of p zs] z al p by (auto simp: merge_next_at Cons e u)
    qed
  qed
  show ?thesis
  proof (cases ys rule: rev_cases)
    case Nil
    with mn have "fl' = (off, q) # zs'" by (simp add: fl'_def merge_prev_at [of "[]", simplified])
    with q bnd p al cov Nil show ?thesis by auto
  next
    case (snoc ys' y)
    obtain po ps where y: "y = (po, ps)" by (cases y)
    have y': "fl_ok lo hi ys'" "fl_end lo ys' \<le> po" "0 < ps" "po + ps \<le> off"
      using ok by' by (auto simp: snoc y fl_ok_append)
    then have u: "saturating_add po ps = po + ps" "uadd ps q = ps + q"
      using hi q bnd by (simp_all add: u64_simps)
    show ?thesis
    proof (cases "po + ps = off")
      case True
      then have "fl' = ys' @ (po, ps + q) # zs'"
        unfolding fl'_def mn merge_prev_at by (simp add: snoc y u)
      moreover have "{po..<po + (ps + q)} = {po..<po + ps} \<union> {off..<off + q}"
        using True by auto
      then have "covered (ys' @ (po, ps + q) # zs') = covered ys \<union> (covered zs' \<union> {off..<off + q})"
        by (simp add: snoc y Un_ac)
      moreover have "fl_ok lo hi (ys' @ (po, ps + q) # zs')"
        using y' q True by (simp add: fl_ok_append add.assoc [symmetric])
      ultimately show ?thesis using q al by (simp add: cov snoc y Un_ac)
    next
      case False
      then have "fl' = ys @ (off, q) # zs'"
        unfolding fl'_def mn merge_prev_at by (simp add: snoc y u)
      moreover have "fl_end lo ys \<le> off" using False y' by (simp add: snoc y fl_end_last)
      ultimately show ?thesis
        using ok q p al cov by (auto simp: fl_ok_append)
    qed
  qed
qed

lemma alloc_free_inv:
  assumes inv: "alloc_inv ds de a" and de: "de < 2 ^ 64"
    and ext: "ds \<le> off" "off + p \<le> de" "0 < p" "4096 dvd off" "4096 dvd p"
    and dis: "{off..<off + p} \<inter> free_set a = {}"
  shows "alloc_inv ds de (alloc_free a off p)"
    and "free_set (alloc_free a off p) = free_set a \<union> {off..<off + p}"
proof -
  let ?P = "\<lambda>(o', _ :: nat). o' < off"
  define ys where "ys = takeWhile ?P (free_list a)"
  define zs where "zs = dropWhile ?P (free_list a)"
  have fl: "free_list a = ys @ zs" by (simp add: ys_def zs_def)
  have lt: "\<forall>e\<in>set ys. fst e < off" by (auto simp: ys_def dest: set_takeWhileD)
  have ge: "case zs of [] \<Rightarrow> True | e # _ \<Rightarrow> off \<le> fst e"
  proof (cases zs)
    case (Cons e r)
    then have "\<not> ?P e" by (auto simp: zs_def dropWhile_eq_Cons_conv)
    then show ?thesis by (simp add: Cons split: prod.splits)
  qed simp
  have "partition_point ?P (ys @ zs) = length ys"
    unfolding partition_point_def fl [symmetric] by (simp add: ys_def)
  then have fl': "free_list (alloc_free a off p) =
      merge_prev (length ys) (merge_next (length ys) (ys @ (off, p) # zs))"
    by (simp add: alloc_free_def Let_def fl)
  have "fl_ok ds de (ys @ zs)" "fl_aligned (ys @ zs)" using inv by (auto simp: alloc_inv_def fl)
  then have "fl_ok ds de (free_list (alloc_free a off p)) \<and> fl_aligned (free_list (alloc_free a off p))
      \<and> covered (free_list (alloc_free a off p)) = covered (ys @ zs) \<union> {off..<off + p}"
    unfolding fl' using lt ge dis ext de by (intro free_list_insert) (auto simp: free_set_def fl)
  moreover have "alignment (alloc_free a off p) = alignment a"
    by (simp add: alloc_free_def Let_def)
  ultimately show "alloc_inv ds de (alloc_free a off p)"
    and "free_set (alloc_free a off p) = free_set a \<union> {off..<off + p}"
    using inv by (auto simp: alloc_inv_def free_set_def fl)
qed

text \<open>\<open>free_space\<close> counts the free bytes.\<close>

lemma foldl_uadd: "acc + sum_list xs < 2 ^ 64 \<Longrightarrow> foldl uadd acc xs = acc + sum_list xs"
  by (induction xs arbitrary: acc) (simp_all add: uadd_in_range add.assoc)

lemma free_space_card:
  assumes "alloc_inv ds de a" and "de < 2 ^ 64"
  shows "free_space a = card (free_set a)"
proof -
  have ok: "fl_ok ds de (free_list a)" using assms by (simp add: alloc_inv_def)
  have "card (covered (free_list a)) \<le> card {ds..<de}"
    using fl_ok_covered [OF ok] by (intro card_mono) auto
  then have "sum_list (map snd (free_list a)) < 2 ^ 64"
    using assms(2) card_covered [OF ok] by simp
  then show ?thesis
    using foldl_uadd [of 0 "map snd (free_list a)"] card_covered [OF ok]
    by (simp add: free_space_def free_set_def)
qed

lemma alloc_inv_canonical:
  assumes "alloc_inv ds de a" and "alloc_inv ds de b" and "free_set a = free_set b"
  shows "a = (b :: extent_allocator)"
  using assms fl_ok_canonical [of ds de "free_list a" "free_list b"]
  by (auto simp: alloc_inv_def free_set_def)

section \<open>Rebuilding the free list\<close>

text \<open>
  The used extents, in offset order, do not overlap: each starts at or after the end of its
  predecessor.
\<close>

fun used_ok :: "nat \<Rightarrow> nat \<Rightarrow> (nat \<times> nat) list \<Rightarrow> bool" where
  "used_ok lo hi [] = (lo \<le> hi)"
| "used_ok lo hi ((off, s) # r) = (lo \<le> off \<and> 0 < s \<and> off + s \<le> hi \<and> used_ok (off + s) hi r)"

definition used_aligned :: "(nat \<times> nat) list \<Rightarrow> bool" where
  "used_aligned used \<longleftrightarrow> (\<forall>(off, s)\<in>set used. 4096 dvd off \<and> 4096 dvd s)"

fun gaps_ref :: "nat \<Rightarrow> (nat \<times> nat) list \<Rightarrow> nat \<Rightarrow> (nat \<times> nat) list" where
  "gaps_ref cur [] hi = (if cur < hi then [(cur, hi - cur)] else [])"
| "gaps_ref cur ((off, s) # r) hi =
     (if cur < off then (cur, off - cur) # gaps_ref (off + s) r hi else gaps_ref (off + s) r hi)"

lemma gap_step_fold:
  "used_ok cur hi used \<Longrightarrow> hi < 2 ^ 64 \<Longrightarrow>
     (let (c, f) = foldl gap_step (cur, free) used in if c < hi then f @ [(c, hi - c)] else f) =
     free @ gaps_ref cur used hi"
proof (induction used arbitrary: cur free)
  case Nil
  then show ?case by simp
next
  case (Cons e used)
  obtain off s where e: "e = (off, s)" by (cases e)
  then have "uadd off s = off + s" using Cons.prems by (simp add: uadd_in_range)
  then show ?case using Cons.prems Cons.IH [of "off + s"] by (simp add: e gap_step_def)
qed

lemma used_ok_covered: "used_ok lo hi used \<Longrightarrow> covered used \<subseteq> {lo..<hi} \<and> lo \<le> hi"
  by (induction lo hi used rule: used_ok.induct) (auto simp: subset_iff)

lemma gaps_ref_props:
  assumes "used_ok cur hi used" and "4096 dvd cur" and "used_aligned used"
  shows "fl_ok cur hi (gaps_ref cur used hi) \<and> fl_aligned (gaps_ref cur used hi) \<and>
         covered (gaps_ref cur used hi) = {cur..<hi} - covered used"
  using assms
proof (induction cur used hi rule: gaps_ref.induct)
  case (1 cur hi)
  then show ?case by (auto simp: dvd_diff_nat)
next
  case (2 cur off s r hi)
  then have IH: "fl_ok (off + s) hi (gaps_ref (off + s) r hi)" "fl_aligned (gaps_ref (off + s) r hi)"
    "covered (gaps_ref (off + s) r hi) = {off + s..<hi} - covered r"
    and r: "covered r \<subseteq> {off + s..<hi}" and le: "off + s \<le> hi" "cur \<le> off" "0 < s"
    and al: "4096 dvd off" "4096 dvd cur"
    using used_ok_covered [of "off + s" hi r] by (auto simp: used_aligned_def)
  have cov: "{cur..<hi} - ({off..<off + s} \<union> covered r) =
      {cur..<off} \<union> ({off + s..<hi} - covered r)"
    using r le by auto
  show ?case
  proof (cases "cur < off")
    case True
    then show ?thesis
      using IH al le cov by (auto simp: dvd_diff_nat intro: fl_ok_weaken [of "off + s"])
  next
    case False
    then show ?thesis using IH cov le by (auto intro: fl_ok_weaken)
  qed
qed

lemma gap_list_props:
  assumes "used_ok ds de used" and "de < 2 ^ 64" and "4096 dvd ds" and "used_aligned used"
  shows "fl_ok ds de (gap_list ds used de)" and "fl_aligned (gap_list ds used de)"
    and "covered (gap_list ds used de) = {ds..<de} - covered used"
proof -
  have "gap_list ds used de = gaps_ref ds used de"
    using gap_step_fold [OF assms(1,2), of "[]"] by (simp add: gap_list_def)
  with gaps_ref_props [OF assms(1,3,4)]
  show "fl_ok ds de (gap_list ds used de)" and "fl_aligned (gap_list ds used de)"
    and "covered (gap_list ds used de) = {ds..<de} - covered used" by simp_all
qed

text \<open>Loading a well-formed free list changes nothing.\<close>

lemma fl_ok_sorted: "fl_ok lo hi fl \<Longrightarrow> sorted (map fst fl) \<and> (\<forall>e\<in>set fl. lo \<le> fst e)"
  by (induction lo hi fl rule: fl_ok.induct) fastforce+

lemma fl_ok_mem: "fl_ok lo hi fl \<Longrightarrow> (off, s) \<in> set fl \<Longrightarrow> lo \<le> off \<and> 0 < s \<and> off + s \<le> hi"
  by (induction lo hi fl rule: fl_ok.induct) fastforce+

lemma from_free_list_id:
  assumes ok: "fl_ok ds de fl"
  shows "from_free_list fl ds de = \<lparr>free_list = fl, alignment = BLOCK_ALIGNMENT\<rparr>"
proof -
  have sort: "sort_key fst fl = fl"
    using fl_ok_sorted [OF ok] by (simp add: sort_key_id_if_sorted)
  have "filter (\<lambda>(_, s). s > 0) fl = fl"
    using fl_ok_mem [OF ok] by (auto intro!: filter_True)
  moreover have "filter (\<lambda>(off, sz). off \<ge> ds \<and> saturating_add off sz \<le> de) fl = fl"
    using fl_ok_mem [OF ok] by (auto intro!: filter_True min.coboundedI1 simp: saturating_add_def)
  ultimately show ?thesis
    unfolding from_free_list_def Let_def sort by (simp only: BLOCK_ALIGNMENT_def)
qed

lemma from_free_list_inv:
  "fl_ok ds de fl \<Longrightarrow> fl_aligned fl \<Longrightarrow> alloc_inv ds de (from_free_list fl ds de)"
  by (simp add: from_free_list_id alloc_inv_def)

lemma alloc_new_inv:
  "4096 dvd ds \<Longrightarrow> alloc_inv ds de (alloc_new ds de BLOCK_ALIGNMENT)"
  by (auto simp: alloc_inv_def alloc_new_def dvd_diff_nat)

lemma alloc_new_free_set: "free_set (alloc_new ds de al) = {ds..<de}"
  by (auto simp: free_set_def alloc_new_def)

section \<open>What the store relies on\<close>

text \<open>
  The interface of an allocator of byte ranges, in terms of the set of free bytes. A request of
  \<open>n\<close> bytes takes \<open>pad n\<close> bytes; requests are \<open>valid\<close> when the size computation is in
  range.
\<close>

locale extent_space =
  fixes allocate :: "'s \<Rightarrow> nat \<Rightarrow> nat result \<times> 's"
    and release :: "'s \<Rightarrow> nat \<Rightarrow> nat \<Rightarrow> 's"
    and inv :: "'s \<Rightarrow> bool"
    and avail :: "'s \<Rightarrow> nat set"
    and pad :: "nat \<Rightarrow> nat"
    and valid :: "nat \<Rightarrow> bool"
    and unit_ok :: "nat \<Rightarrow> nat \<Rightarrow> bool"
  assumes allocate_inv:
      "inv s \<Longrightarrow> valid n \<Longrightarrow> allocate s n = (Inr off, s') \<Longrightarrow> inv s'"
    and allocate_avail:
      "inv s \<Longrightarrow> valid n \<Longrightarrow> allocate s n = (Inr off, s') \<Longrightarrow> avail s' = avail s - {off..<off + pad n}"
    and allocate_sub:
      "inv s \<Longrightarrow> valid n \<Longrightarrow> allocate s n = (Inr off, s') \<Longrightarrow> {off..<off + pad n} \<subseteq> avail s"
    and allocate_unit:
      "inv s \<Longrightarrow> valid n \<Longrightarrow> allocate s n = (Inr off, s') \<Longrightarrow> unit_ok off (pad n)"
    and allocate_fail: "inv s \<Longrightarrow> valid n \<Longrightarrow> allocate s n = (Inl e, s') \<Longrightarrow> s' = s"
    and allocate_complete:
      "inv s \<Longrightarrow> valid n \<Longrightarrow> allocate s n = (Inl e, s') \<Longrightarrow> \<not> {x..<x + pad n} \<subseteq> avail s"
    and release_inv:
      "inv s \<Longrightarrow> unit_ok off p \<Longrightarrow> {off..<off + p} \<inter> avail s = {} \<Longrightarrow> inv (release s off p)"
    and release_avail:
      "inv s \<Longrightarrow> unit_ok off p \<Longrightarrow> {off..<off + p} \<inter> avail s = {} \<Longrightarrow>
         avail (release s off p) = avail s \<union> {off..<off + p}"
    and canonical: "inv s \<Longrightarrow> inv t \<Longrightarrow> avail s = avail t \<Longrightarrow> s = t"
begin

text \<open>Returning what was just allocated restores the allocator exactly.\<close>

lemma allocate_release:
  assumes "inv s" and "valid n" and run: "allocate s n = (Inr off, s')"
  shows "release s' off (pad n) = s"
proof -
  have av: "avail s' = avail s - {off..<off + pad n}" and sub: "{off..<off + pad n} \<subseteq> avail s"
    and u: "unit_ok off (pad n)" and i: "inv s'"
    using assms allocate_avail allocate_sub allocate_unit allocate_inv by blast+
  then have dis: "{off..<off + pad n} \<inter> avail s' = {}" by blast
  have "avail (release s' off (pad n)) = avail s"
    using release_avail [OF i u dis] av sub by blast
  then show ?thesis using canonical [OF release_inv [OF i u dis] assms(1)] by simp
qed

text \<open>Two live allocations never share a byte.\<close>

lemma allocate_twice_disjoint:
  assumes "inv s" and "valid n" and "valid m"
    and "allocate s n = (Inr x, s')" and "allocate s' m = (Inr y, s'')"
  shows "{x..<x + pad n} \<inter> {y..<y + pad m} = {}"
  using assms allocate_avail [of s n x s'] allocate_sub [of s' m y s''] allocate_inv [of s n x s']
  by blast

text \<open>A request that failed succeeds once enough contiguous bytes are returned.\<close>

lemma release_enables:
  assumes i: "inv s" and u: "unit_ok off p" and dis: "{off..<off + p} \<inter> avail s = {}"
    and n: "valid n" "pad n \<le> p"
  shows "\<exists>x s'. allocate (release s off p) n = (Inr x, s')"
proof (cases "allocate (release s off p) n")
  case (Pair r s')
  show ?thesis
  proof (cases r)
    case (Inl e)
    have "{off..<off + pad n} \<subseteq> {off..<off + p}" using n(2) by simp
    then have "{off..<off + pad n} \<subseteq> avail (release s off p)"
      unfolding release_avail [OF i u dis] by blast
    moreover have "\<not> {off..<off + pad n} \<subseteq> avail (release s off p)"
      using Pair Inl n(1) release_inv [OF i u dis] by (intro allocate_complete) auto
    ultimately show ?thesis by blast
  qed (use Pair in auto)
qed

end

definition size_valid :: "nat \<Rightarrow> bool" where
  "size_valid n \<longleftrightarrow> 0 < n \<and> n + 4096 \<le> 2 ^ 64"

definition area_unit :: "nat \<Rightarrow> nat \<Rightarrow> nat \<Rightarrow> nat \<Rightarrow> bool" where
  "area_unit ds de off p \<longleftrightarrow> ds \<le> off \<and> off + p \<le> de \<and> 0 < p \<and> 4096 dvd off \<and> 4096 dvd p"

definition area_inv :: "nat \<Rightarrow> nat \<Rightarrow> extent_allocator \<Rightarrow> bool" where
  "area_inv ds de a \<longleftrightarrow> alloc_inv ds de a \<and> de < 2 ^ 64"

interpretation ea: extent_space alloc alloc_free "area_inv ds de" free_set
  "\<lambda>n. align_up n 4096" size_valid "area_unit ds de"
  for ds de :: nat
proof (unfold_locales, goal_cases)
  case (1 s n off s')
  then show ?case by (auto simp: area_inv_def size_valid_def intro: alloc_Inr(1))
next
  case (2 s n off s')
  then show ?case
    using alloc_Inr(2) [of ds de s n off s'] by (simp add: area_inv_def size_valid_def)
next
  case (3 s n off s')
  then show ?case
    using alloc_Inr(3) [of ds de s n off s'] by (simp add: area_inv_def size_valid_def)
next
  case (4 s n off s')
  then have inv: "alloc_inv ds de s" "de < 2 ^ 64" and n: "0 < n" "n + 4096 \<le> 2 ^ 64"
    by (auto simp: area_inv_def size_valid_def)
  show ?case
    using alloc_Inr(4,5,6) [OF inv n 4(3)] align_up_pos [OF n] n(1) by (simp add: area_unit_def)
next
  case (5 s n e s')
  then show ?case by (auto simp: alloc_Inl_iff)
next
  case (6 s n e s' x)
  then show ?case
    using alloc_Inl(2) [of ds de s n e s' x] by (auto simp: area_inv_def size_valid_def)
next
  case (7 s off p)
  then show ?case
    using alloc_free_inv(1) [of ds de s off p] by (simp add: area_inv_def area_unit_def)
next
  case (8 s off p)
  then show ?case
    using alloc_free_inv(2) [of ds de s off p] by (simp add: area_inv_def area_unit_def)
next
  case (9 s t)
  then show ?case by (auto simp: area_inv_def intro: alloc_inv_canonical)
qed

section \<open>Properties\<close>

lemma fl_ok_before: "fl_ok lo hi (ys @ (off, s) # zs) \<Longrightarrow> (o', s') \<in> set zs \<Longrightarrow> off + s < o'"
proof -
  assume "fl_ok lo hi (ys @ (off, s) # zs)" and m: "(o', s') \<in> set zs"
  then have "fl_ok (off + s + 1) hi zs" by (simp add: fl_ok_append)
  from fl_ok_mem [OF this m] show ?thesis by simp
qed

lemma alloc_first_fit:
  assumes inv: "area_inv ds de a" and n: "size_valid n" and run: "alloc a n = (Inr off, a')"
    and x: "{x..<x + align_up n 4096} \<subseteq> free_set a"
  shows "off \<le> x"
proof -
  have al: "alignment a = 4096" and ok: "fl_ok ds de (free_list a)"
    using inv by (auto simp: area_inv_def alloc_inv_def layout_consts)
  obtain ys s zs where fl: "free_list a = ys @ (off, s) # zs"
    and small: "\<forall>e\<in>set ys. snd e < align_up n 4096"
    using alloc_Inr_split [OF run] unfolding al by metis
  have "0 < align_up n 4096" using n align_up_pos [of n] by (auto simp: size_valid_def)
  then obtain o1 s1 where r: "(o1, s1) \<in> set (free_list a)" "o1 \<le> x" "x + align_up n 4096 \<le> o1 + s1"
    using fl_ok_run [OF ok _ x [unfolded free_set_def]] by blast
  then have "(o1, s1) \<notin> set ys" using small by fastforce
  with r(1) fl have "(o1, s1) = (off, s) \<or> (o1, s1) \<in> set zs" by auto
  then show ?thesis using r(2) fl_ok_before [of ds de ys off s zs o1 s1] ok fl by fastforce
qed

text \<open>
  C30. Allocation. From a well-formed free list a request that can be satisfied gets the lowest
  block-aligned run of free bytes that is long enough, inside the data area, and exactly that run
  leaves the free set; a request is refused, with the allocator unchanged, only if there is no
  such run.
\<close>

theorem alloc_correct:
  assumes "area_inv ds de a" and "size_valid n" and "alloc a n = (r, a')"
  shows "area_inv ds de a' \<and>
    (case r of
       Inr off \<Rightarrow>
         area_unit ds de off (align_up n 4096) \<and> n \<le> align_up n 4096 \<and>
         {off..<off + align_up n 4096} \<subseteq> free_set a \<and>
         free_set a' = free_set a - {off..<off + align_up n 4096} \<and>
         (\<forall>x. {x..<x + align_up n 4096} \<subseteq> free_set a \<longrightarrow> off \<le> x)
     | Inl e \<Rightarrow> a' = a \<and> (\<forall>x. \<not> {x..<x + align_up n 4096} \<subseteq> free_set a))"
proof (cases r)
  case (Inl e)
  then show ?thesis
    using ea.allocate_fail [OF assms(1,2)] ea.allocate_complete [OF assms(1,2)] assms by auto
next
  case (Inr off)
  have n: "n \<le> align_up n 4096" using assms(2) align_up_pos [of n] by (simp add: size_valid_def)
  have run: "alloc a n = (Inr off, a')" using assms(3) Inr by simp
  show ?thesis
    unfolding Inr sum.case
    using ea.allocate_inv [OF assms(1,2) run] ea.allocate_unit [OF assms(1,2) run]
      ea.allocate_sub [OF assms(1,2) run] ea.allocate_avail [OF assms(1,2) run]
      alloc_first_fit [OF assms(1,2) run] n by blast
qed

definition demo_alloc :: extent_allocator where
  "demo_alloc = \<lparr>free_list = [(8192, 4096), (16384, 12288)], alignment = 4096\<rparr>"

lemma demo_alloc_inv: "area_inv 8192 28672 demo_alloc"
  by (simp add: area_inv_def alloc_inv_def demo_alloc_def layout_consts)

lemma align_up_5000: "align_up 5000 4096 = 8192"
  by (simp add: align_up_4096)

lemma demo_alloc_run:
  "alloc demo_alloc 5000 = (Inr 16384, \<lparr>free_list = [(8192, 4096), (24576, 4096)], alignment = 4096\<rparr>)"
  by (simp add: alloc_def demo_alloc_def align_up_5000 uadd_def)

theorem alloc_correct_witness:
  "area_unit 8192 28672 16384 8192 \<and>
   {16384..<24576} \<subseteq> free_set demo_alloc \<and>
   free_set (\<lparr>free_list = [(8192, 4096), (24576, 4096)], alignment = 4096\<rparr> :: extent_allocator) =
     free_set demo_alloc - {16384..<24576}"
  using alloc_correct [OF demo_alloc_inv _ demo_alloc_run] align_up_5000
  by (simp add: size_valid_def)

text \<open>
  Freeing. Returning an extent that is not free adds exactly its bytes to the free set, keeps
  the free list sorted, disjoint and fully coalesced, and the result depends only on the set of
  free bytes: after allocating, freeing restores the very same free list.
\<close>

lemma free_correct:
  assumes "area_inv ds de a" and "area_unit ds de off p" and "{off..<off + p} \<inter> free_set a = {}"
  shows "area_inv ds de (alloc_free a off p) \<and>
    free_set (alloc_free a off p) = free_set a \<union> {off..<off + p} \<and>
    free_space (alloc_free a off p) = free_space a + p \<and>
    (\<forall>b. area_inv ds de b \<and> free_set b = free_set a \<union> {off..<off + p} \<longrightarrow> alloc_free a off p = b)"
proof (intro conjI allI impI)
  note inv = ea.release_inv [OF assms] and av = ea.release_avail [OF assms]
  show "area_inv ds de (alloc_free a off p)" by (rule inv)
  show "free_set (alloc_free a off p) = free_set a \<union> {off..<off + p}" by (rule av)
  show "alloc_free a off p = b" if "area_inv ds de b \<and> free_set b = free_set a \<union> {off..<off + p}" for b
    using ea.canonical [OF inv, of b] av that by simp
  have "free_space (alloc_free a off p) = card (free_set a \<union> {off..<off + p})"
    using inv av free_space_card [of ds de "alloc_free a off p"] by (simp add: area_inv_def)
  also have "\<dots> = card (free_set a) + p"
    using assms(3) by (subst card_Un_disjoint) (auto simp: free_set_def)
  finally show "free_space (alloc_free a off p) = free_space a + p"
    using assms(1) free_space_card [of ds de a] by (simp add: area_inv_def)
qed

text \<open>
  Allocating and freeing cancel: whatever the allocator handed out, freeing it immediately
  gives back the allocator as it was, and two live allocations never share a byte.
\<close>

lemma alloc_free_cancel:
  assumes "area_inv ds de a" and "size_valid n" and "alloc a n = (Inr off, a')"
  shows "alloc_free a' off (align_up n 4096) = a \<and>
    (\<forall>m off' a''. size_valid m \<and> alloc a' m = (Inr off', a'') \<longrightarrow>
      {off..<off + align_up n 4096} \<inter> {off'..<off' + align_up m 4096} = {})"
  using ea.allocate_release [OF assms] ea.allocate_twice_disjoint [OF assms(1,2) _ assms(3)] by blast

end
