(* ===== verification/Device_Io.thy ===== *)
theory Device_Io
  imports Raw_Types
begin

text \<open>
  Positional device I/O (\<open>rawobjstr/src/io.rs\<close>): \<open>pread\<close>, \<open>pwrite\<close> and \<open>sync\<close> on an open
  device, with the padding of the \<open>O_DIRECT\<close> mode, and the ways a device is opened or created.

  The device holds the bytes a read sees, the bytes that were on the medium at the last
  successful sync, and the list of the writes issued since. The faults of the operating system
  are functions in the record: \<open>dev_wfault n = Some k\<close> makes the \<open>n\<close>-th write fail after
  \<open>k\<close> of its bytes reached the device, \<open>dev_sfault n\<close> makes the \<open>n\<close>-th sync fail and
  \<open>dev_rfault off len\<close> makes a read fail. Every statement about a device without a premise on
  these functions holds for every fault schedule.
\<close>

section \<open>State\<close>

record device_io =
  dev_data :: "byte list"
  dev_stable :: "byte list"
  dev_unsynced :: "(nat \<times> byte list) list"
  dev_direct :: bool
  dev_read_only :: bool
  dev_block :: bool
  dev_writes :: nat
  dev_syncs :: nat
  dev_wfault :: "nat \<Rightarrow> nat option"
  dev_sfault :: "nat \<Rightarrow> bool"
  dev_rfault :: "nat \<Rightarrow> nat \<Rightarrow> bool"

section \<open>Reading, writing and syncing\<close>

text \<open>\<open>align_len\<close> panics on overflow (\<open>expect\<close>), \<open>aligned_buf\<close> on an empty length.\<close>

definition align_len :: "nat \<Rightarrow> nat option" where
  "align_len n =
     map_option (\<lambda>s. unat ((of_nat s :: 64 word) AND NOT (of_nat (BLOCK_ALIGNMENT - 1))))
       (checked_add n (BLOCK_ALIGNMENT - 1))"

definition aligned_buf :: "nat \<Rightarrow> byte list result" where
  "aligned_buf len = (if len > 0 then Inr (replicate len 0) else Inl Panicked)"

text \<open>
  \<open>write_all_at\<close> of the standard library on the open file: a regular file grows, a block device
  takes the bytes that fit.
\<close>

definition write_all_at :: "device_io \<Rightarrow> byte list \<Rightarrow> nat \<Rightarrow> unit result \<times> device_io" where
  "write_all_at dev bs off =
     (let n = dev_writes dev;
          room = (if dev_block dev then length (dev_data dev) - off else length bs);
          k = (case dev_wfault dev n of None \<Rightarrow> length bs | Some k \<Rightarrow> k);
          wrote = take (min k room) bs;
          dev' = dev\<lparr>dev_data := (if wrote = [] then dev_data dev else write_at (dev_data dev) off wrote),
                     dev_unsynced := dev_unsynced dev @ [(off, wrote)],
                     dev_writes := Suc n\<rparr>
      in if dev_wfault dev n = None \<and> wrote = bs then (Inr (), dev')
         else (Inl (Io OsError), dev'))"

definition read_exact_at :: "device_io \<Rightarrow> nat \<Rightarrow> nat \<Rightarrow> byte list result" where
  "read_exact_at dev len off =
     (if dev_rfault dev off len then Inl (Io OsError)
      else if off + len \<le> length (dev_data dev) then Inr (slice (dev_data dev) off (off + len))
      else Inl (Io UnexpectedEof))"

text \<open>
  \<open>pwrite\<close>. A buffer of an aligned size is written as it is whether or not its address is
  aligned; any other buffer is copied into a zero-padded one. An empty buffer has no aligned
  address and reaches the assertion of \<open>aligned_buf\<close>.
\<close>

definition pwrite :: "device_io \<Rightarrow> nat \<Rightarrow> byte list \<Rightarrow> unit result \<times> device_io" where
  "pwrite dev offset bs =
     (if dev_read_only dev then (Inl ReadOnly, dev)
      else if dev_direct dev then
        (if offset mod BLOCK_ALIGNMENT \<noteq> 0 then (Inl Panicked, dev)
         else if bs \<noteq> [] \<and> length bs mod BLOCK_ALIGNMENT = 0 then write_all_at dev bs offset
         else
           (case align_len (length bs) of
              None \<Rightarrow> (Inl Panicked, dev)
            | Some padded_len \<Rightarrow>
                (case aligned_buf padded_len of
                   Inl e \<Rightarrow> (Inl e, dev)
                 | Inr buf \<Rightarrow> write_all_at dev (bs @ drop (length bs) buf) offset)))
      else write_all_at dev bs offset)"

definition pread :: "device_io \<Rightarrow> nat \<Rightarrow> nat \<Rightarrow> byte list result" where
  "pread dev offset len =
     (if len = 0 then Inr []
      else if dev_direct dev then
        (if offset mod BLOCK_ALIGNMENT \<noteq> 0 then Inl Panicked
         else
           (case align_len len of
              None \<Rightarrow> Inl Panicked
            | Some padded_len \<Rightarrow>
                bind_res (aligned_buf padded_len) (\<lambda>_.
                bind_res (read_exact_at dev padded_len offset) (\<lambda>buf. Inr (take len buf)))))
      else read_exact_at dev len offset)"

definition dev_sync :: "device_io \<Rightarrow> unit result \<times> device_io" where
  "dev_sync dev =
     (if dev_read_only dev then (Inl ReadOnly, dev)
      else if dev_sfault dev (dev_syncs dev)
      then (Inl (Io OsError), dev\<lparr>dev_syncs := Suc (dev_syncs dev)\<rparr>)
      else (Inr (), dev\<lparr>dev_stable := dev_data dev, dev_unsynced := [],
                       dev_syncs := Suc (dev_syncs dev)\<rparr>))"

definition dev_size :: "device_io \<Rightarrow> nat result" where
  "dev_size dev = Inr (length (dev_data dev))"

section \<open>Opening and creating\<close>

text \<open>
  What the host holds at a path: the contents (none when the path does not exist), whether it is
  a block device, whether another process holds the advisory lock, and the fault schedules the
  opened device gets. \<open>host_denied\<close> is an \<open>open(2)\<close> that fails.
\<close>

record host_file =
  host_contents :: "byte list option"
  host_block :: bool
  host_locked :: bool
  host_denied :: bool
  host_wfault :: "nat \<Rightarrow> nat option"
  host_sfault :: "nat \<Rightarrow> bool"
  host_rfault :: "nat \<Rightarrow> nat \<Rightarrow> bool"

definition acquire_exclusive_lock :: "host_file \<Rightarrow> unit result" where
  "acquire_exclusive_lock h = (if host_locked h then Inl DeviceLocked else Inr ())"

definition open_file :: "host_file \<Rightarrow> byte list result" where
  "open_file h =
     (if host_denied h then Inl (Io OsError)
      else case host_contents h of None \<Rightarrow> Inl (Io OsError) | Some d \<Rightarrow> Inr d)"

definition mk_device :: "host_file \<Rightarrow> byte list \<Rightarrow> bool \<Rightarrow> bool \<Rightarrow> device_io" where
  "mk_device h d direct ro =
     \<lparr>dev_data = d, dev_stable = d, dev_unsynced = [], dev_direct = direct, dev_read_only = ro,
      dev_block = host_block h, dev_writes = 0, dev_syncs = 0, dev_wfault = host_wfault h,
      dev_sfault = host_sfault h, dev_rfault = host_rfault h\<rparr>"

definition dev_open :: "host_file \<Rightarrow> bool \<Rightarrow> device_io result" where
  "dev_open h direct =
     bind_res (open_file h) (\<lambda>d.
     bind_res (acquire_exclusive_lock h) (\<lambda>_. Inr (mk_device h d direct False)))"

definition dev_open_readonly :: "host_file \<Rightarrow> bool \<Rightarrow> device_io result" where
  "dev_open_readonly h direct = bind_res (open_file h) (\<lambda>d. Inr (mk_device h d direct True))"

definition dev_create :: "host_file \<Rightarrow> nat \<Rightarrow> bool \<Rightarrow> device_io result \<times> host_file" where
  "dev_create h sz direct =
     (if host_contents h \<noteq> None \<and> host_block h then (dev_open h direct, h)
      else if host_denied h then (Inl (Io OsError), h)
      else
        (let h' = h\<lparr>host_contents := Some (replicate sz 0), host_block := False\<rparr>
         in (dev_open h' direct, h')))"

section \<open>Padding\<close>

definition pad_len :: "nat \<Rightarrow> nat" where
  "pad_len n = (n + 4095) div 4096 * 4096"

lemma pad_len_ge: "n \<le> pad_len n"
  by (simp add: pad_len_def)

lemma pad_len_multiple: "4096 dvd n \<Longrightarrow> pad_len n = n"
  by (auto simp: pad_len_def elim!: dvdE)

lemma pad_len_dvd [simp]: "4096 dvd pad_len n"
  by (simp add: pad_len_def)

lemma pad_len_less: "pad_len n < n + 4096"
  by (simp add: pad_len_def)

lemma pad_len_mono: "a \<le> b \<Longrightarrow> 4096 dvd b \<Longrightarrow> pad_len a \<le> b"
  using pad_len_multiple [of b] by (auto simp: pad_len_def intro!: div_le_mono mult_le_mono1)

lemma align_len_Some: "n + 4095 < 2 ^ 64 \<Longrightarrow> align_len n = Some (pad_len n)"
proof -
  assume n: "n + 4095 < 2 ^ 64"
  have m: "(4095 :: 64 word) = mask 12" by (simp add: mask_eq_exp_minus_1)
  have "unat ((of_nat (n + 4095) :: 64 word) AND NOT (mask 12)) =
      unat (of_nat (n + 4095) :: 64 word) div 2 ^ 12 * 2 ^ 12"
    by (rule unat_and_not_mask) simp
  moreover have "unat (of_nat (n + 4095) :: 64 word) = n + 4095"
    using n by (simp only: unat_of_nat) simp
  ultimately show ?thesis
    using n by (simp add: align_len_def checked_add_def BLOCK_ALIGNMENT_def pad_len_def m)
qed

text \<open>The bytes a write of \<open>n\<close> bytes may touch.\<close>

definition write_span :: "device_io \<Rightarrow> nat \<Rightarrow> nat" where
  "write_span dev n = (if dev_direct dev then pad_len n else n)"

lemma write_span_ge: "n \<le> write_span dev n"
  by (simp add: write_span_def pad_len_ge)

lemma write_span_multiple [simp]: "4096 dvd n \<Longrightarrow> write_span dev n = n"
  by (simp add: write_span_def pad_len_multiple)

section \<open>Frame properties\<close>

text \<open>\<open>dev_same\<close>: the same open device, whatever its contents.\<close>

definition dev_same :: "device_io \<Rightarrow> device_io \<Rightarrow> bool" where
  "dev_same dev dev' \<longleftrightarrow>
     dev_direct dev' = dev_direct dev \<and> dev_read_only dev' = dev_read_only dev \<and>
     dev_block dev' = dev_block dev \<and> dev_wfault dev' = dev_wfault dev \<and>
     dev_sfault dev' = dev_sfault dev \<and> dev_rfault dev' = dev_rfault dev \<and>
     dev_writes dev \<le> dev_writes dev' \<and> dev_syncs dev \<le> dev_syncs dev'"

lemma dev_same_refl [simp]: "dev_same dev dev"
  by (simp add: dev_same_def)

lemma dev_same_trans: "dev_same a b \<Longrightarrow> dev_same b c \<Longrightarrow> dev_same a c"
  by (auto simp: dev_same_def)

lemma dev_same_span: "dev_same a b \<Longrightarrow> write_span b n = write_span a n"
  by (simp add: dev_same_def write_span_def)

text \<open>
  A byte is quiet when the medium has what reads see and no pending write touches it.
\<close>

definition touches :: "nat \<times> byte list \<Rightarrow> nat \<Rightarrow> bool" where
  "touches w i \<longleftrightarrow> fst w \<le> i \<and> i < fst w + length (snd w)"

definition byte_quiet :: "device_io \<Rightarrow> nat \<Rightarrow> bool" where
  "byte_quiet dev i \<longleftrightarrow>
     dev_stable dev ! i = dev_data dev ! i \<and> (\<forall>w\<in>set (dev_unsynced dev). \<not> touches w i)"

text \<open>
  \<open>dev_frame dev dev' a b\<close>: from \<open>dev\<close> to \<open>dev'\<close> no byte outside \<open>[a, b)\<close> changed,
  neither in what reads see nor, by a pending write, on the medium.
\<close>

definition dev_frame :: "device_io \<Rightarrow> device_io \<Rightarrow> nat \<Rightarrow> nat \<Rightarrow> bool" where
  "dev_frame dev dev' a b \<longleftrightarrow>
     dev_same dev dev' \<and> length (dev_data dev') = length (dev_data dev) \<and>
     (\<forall>i < length (dev_data dev). i < a \<or> b \<le> i \<longrightarrow>
        dev_data dev' ! i = dev_data dev ! i \<and> (byte_quiet dev i \<longrightarrow> byte_quiet dev' i))"

lemma dev_frame_refl [simp]: "dev_frame dev dev a b"
  by (simp add: dev_frame_def)

lemma dev_frame_trans:
  "dev_frame x y a b \<Longrightarrow> dev_frame y z a b \<Longrightarrow> dev_frame x z a b"
  by (auto simp: dev_frame_def intro: dev_same_trans)

lemma dev_frame_weaken: "dev_frame x y a b \<Longrightarrow> a' \<le> a \<Longrightarrow> b \<le> b' \<Longrightarrow> dev_frame x y a' b'"
  by (auto simp: dev_frame_def)

lemma dev_frame_same: "dev_frame x y a b \<Longrightarrow> dev_same x y"
  by (simp add: dev_frame_def)

lemma dev_frame_length: "dev_frame x y a b \<Longrightarrow> length (dev_data y) = length (dev_data x)"
  by (simp add: dev_frame_def)

lemma dev_frame_slice:
  "dev_frame x y a b \<Longrightarrow> d \<le> a \<or> b \<le> c \<Longrightarrow> slice (dev_data y) c d = slice (dev_data x) c d"
  by (intro slice_eqI) (auto simp: dev_frame_def)

lemma write_all_at_frame:
  assumes "off + length bs \<le> length (dev_data dev)"
  shows "dev_frame dev (snd (write_all_at dev bs off)) off (off + length bs)"
proof -
  have "length (write_at (dev_data dev) off w) = length (dev_data dev)"
    if "length w \<le> length bs" for w
    using assms that by (intro length_write_at) simp
  moreover have "write_at (dev_data dev) off w ! i = dev_data dev ! i"
    if "length w \<le> length bs" "i < length (dev_data dev)" "i < off \<or> off + length bs \<le> i" for w i
    using assms that by (subst write_at_nth) auto
  ultimately show ?thesis
    by (auto simp: write_all_at_def Let_def dev_frame_def dev_same_def byte_quiet_def touches_def)
qed

lemma write_all_at_Inr:
  assumes "off + length bs \<le> length (dev_data dev)" and "fst (write_all_at dev bs off) = Inr ()"
  shows "dev_data (snd (write_all_at dev bs off)) = write_at (dev_data dev) off bs"
  using assms by (auto simp: write_all_at_def Let_def split: if_splits)

lemma write_all_at_ok:
  assumes "off + length bs \<le> length (dev_data dev)" and "dev_wfault dev (dev_writes dev) = None"
  shows "fst (write_all_at dev bs off) = Inr ()"
  using assms by (auto simp: write_all_at_def Let_def)

text \<open>
  The buffer that \<open>pwrite\<close> hands to the operating system, and when it reaches it at all.
\<close>

lemma pwrite_eq:
  assumes "length bs + 4095 < 2 ^ 64"
  shows "pwrite dev off bs =
    (if dev_read_only dev then (Inl ReadOnly, dev)
     else if dev_direct dev \<and> (\<not> 4096 dvd off \<or> bs = []) then (Inl Panicked, dev)
     else write_all_at dev (bs @ replicate (write_span dev (length bs) - length bs) 0) off)"
proof (cases "bs = [] \<or> 4096 dvd length bs")
  case True
  then have "pad_len (length bs) = length bs" by (auto simp: pad_len_multiple)
  with True align_len_Some [OF assms] show ?thesis
    by (auto simp: pwrite_def write_span_def BLOCK_ALIGNMENT_def aligned_buf_def mod_eq_0_iff_dvd)
next
  case False
  then have "0 < pad_len (length bs)" using pad_len_ge [of "length bs"] by (cases bs) auto
  with False align_len_Some [OF assms] show ?thesis
    by (auto simp: pwrite_def write_span_def BLOCK_ALIGNMENT_def aligned_buf_def mod_eq_0_iff_dvd)
qed

lemma length_padded: "length (bs @ replicate (write_span dev (length bs) - length bs) 0)
    = write_span dev (length bs)"
  using write_span_ge [of "length bs" dev] by simp

lemma pwrite_frame:
  assumes "off + write_span dev (length bs) \<le> length (dev_data dev)" and "length bs + 4095 < 2 ^ 64"
  shows "dev_frame dev (snd (pwrite dev off bs)) off (off + write_span dev (length bs))"
proof -
  have "dev_frame dev (snd (write_all_at dev (bs @ replicate (write_span dev (length bs) - length bs) 0) off))
      off (off + write_span dev (length bs))"
    using write_all_at_frame [of off "bs @ replicate (write_span dev (length bs) - length bs) 0" dev] assms(1)
    by (simp only: length_padded)
  then show ?thesis unfolding pwrite_eq [OF assms(2)] by auto
qed

lemma pwrite_Inr:
  assumes fits: "off + write_span dev (length bs) \<le> length (dev_data dev)"
    and len: "length bs + 4095 < 2 ^ 64" and ok: "fst (pwrite dev off bs) = Inr ()"
  shows "dev_data (snd (pwrite dev off bs)) =
     write_at (dev_data dev) off (bs @ replicate (write_span dev (length bs) - length bs) 0)"
  using ok fits write_all_at_Inr [of off "bs @ replicate (write_span dev (length bs) - length bs) 0" dev]
  unfolding pwrite_eq [OF len] length_padded by (auto split: if_splits)

lemma pwrite_slice:
  assumes fits: "off + write_span dev (length bs) \<le> length (dev_data dev)"
    and len: "length bs + 4095 < 2 ^ 64" and ok: "fst (pwrite dev off bs) = Inr ()"
  shows "slice (dev_data (snd (pwrite dev off bs))) off (off + length bs) = bs"
proof -
  let ?b = "bs @ replicate (write_span dev (length bs) - length bs) 0"
  have l: "off + length ?b \<le> length (dev_data dev)" using fits by (simp only: length_padded)
  have "slice (write_at (dev_data dev) off ?b) off (off + length bs) =
      slice (slice (write_at (dev_data dev) off ?b) off (off + length ?b)) 0 (length bs)"
    by (subst slice_slice) simp_all
  also have "\<dots> = bs" by (simp only: slice_write_at_same [OF l]) (simp add: slice_def)
  finally show ?thesis by (simp only: pwrite_Inr [OF assms])
qed

text \<open>A write succeeds when the device is writable, the write fits and no fault strikes it.\<close>

lemma pwrite_ok:
  assumes "\<not> dev_read_only dev" and "dev_direct dev \<Longrightarrow> 4096 dvd off"
    and fits: "off + write_span dev (length bs) \<le> length (dev_data dev)" and "length bs + 4095 < 2 ^ 64"
    and "bs \<noteq> []" and fault: "dev_wfault dev (dev_writes dev) = None"
  shows "fst (pwrite dev off bs) = Inr ()"
proof -
  have "fst (write_all_at dev (bs @ replicate (write_span dev (length bs) - length bs) 0) off) = Inr ()"
    using fits fault by (intro write_all_at_ok) (simp_all only: length_padded)
  with assms show ?thesis by (auto simp: pwrite_eq)
qed

text \<open>A successful read returns the bytes of the device, in both modes.\<close>

lemma pread_Inr:
  assumes "pread dev off len = Inr bs"
  shows "bs = slice (dev_data dev) off (off + len)" and "len = 0 \<or> off + len \<le> length (dev_data dev)"
    and "length bs = len"
proof -
  have *: "take len (slice d off (off + p)) = slice d off (off + len)" if "len \<le> p" for d :: "byte list" and p
    using that by (simp add: slice_def)
  have al: "len \<le> p" if "align_len len = Some p" for p
  proof -
    have "len + 4095 < 2 ^ 64"
      using that by (auto simp: align_len_def checked_add_def BLOCK_ALIGNMENT_def split: if_splits)
    with that show ?thesis using align_len_Some [of len] pad_len_ge [of len] by simp
  qed
  show "bs = slice (dev_data dev) off (off + len)"
    using assms al
    by (auto simp: pread_def read_exact_at_def bind_res_Inr_iff * split: if_splits option.splits)
  moreover show "len = 0 \<or> off + len \<le> length (dev_data dev)"
    using assms al
    by (fastforce simp: pread_def read_exact_at_def bind_res_Inr_iff split: if_splits option.splits)
  ultimately show "length bs = len" by (auto simp: length_slice)
qed

lemma pread_ok:
  assumes "dev_direct dev \<Longrightarrow> 4096 dvd off"
    and "off + write_span dev len \<le> length (dev_data dev)" and "len + 4095 < 2 ^ 64"
    and "\<And>n. \<not> dev_rfault dev off n"
  shows "pread dev off len = Inr (slice (dev_data dev) off (off + len))"
proof (cases "len = 0")
  case True
  then show ?thesis by (simp add: pread_def)
next
  case False
  have "take len (slice (dev_data dev) off (off + pad_len len)) = slice (dev_data dev) off (off + len)"
    using pad_len_ge [of len] by (simp add: slice_def)
  moreover have "0 < pad_len len" using False pad_len_ge [of len] by simp
  ultimately show ?thesis
    using False assms(1,2,4) align_len_Some [OF assms(3)]
    by (cases "dev_direct dev")
      (auto simp: pread_def read_exact_at_def BLOCK_ALIGNMENT_def aligned_buf_def write_span_def)
qed

lemma dev_sync_frame: "dev_frame dev (snd (dev_sync dev)) a b" and
  dev_sync_data [simp]: "dev_data (snd (dev_sync dev)) = dev_data dev"
  by (auto simp: dev_sync_def dev_frame_def dev_same_def byte_quiet_def)

text \<open>The assertions of \<open>pwrite\<close> and \<open>pread\<close> hold for aligned positions.\<close>

lemma pwrite_no_panic:
  "4096 dvd off \<Longrightarrow> bs \<noteq> [] \<Longrightarrow> length bs + 4095 < 2 ^ 64 \<Longrightarrow> fst (pwrite dev off bs) \<noteq> Inl Panicked"
  by (auto simp: pwrite_eq write_all_at_def Let_def)

lemma pread_no_panic:
  "4096 dvd off \<Longrightarrow> len + 4095 < 2 ^ 64 \<Longrightarrow> pread dev off len \<noteq> Inl Panicked"
  using pad_len_ge [of len] align_len_Some [of len]
  by (auto simp: pread_def BLOCK_ALIGNMENT_def aligned_buf_def read_exact_at_def split: option.splits)

lemma pwrite_read_only: "dev_read_only dev \<Longrightarrow> pwrite dev off bs = (Inl ReadOnly, dev)"
  by (simp add: pwrite_def)

end
