(* ===== verification/Extent_Codec.thy ===== *)
theory Extent_Codec
  imports Device_Io
begin

text \<open>
  The extent format (\<open>rawobjstr/src/extent.rs\<close>): a payload is split into 4092-byte pieces, each
  stored in a 4096-byte block behind its CRC32c. The theory has the batch encoder and the
  streaming encoder, the batch decoder, the range decoder, the streaming reader and the
  \<open>Read\<close> adapter over it.

  Index arithmetic inside a buffer is plain: a Rust slice is shorter than \<open>2 ^ 63\<close> bytes. The
  byte positions on the device wrap.
\<close>

section \<open>Sizes\<close>

definition BLOCK_CRC_SIZE :: nat where "BLOCK_CRC_SIZE = 4"
definition BLOCK_DATA_SIZE :: nat where "BLOCK_DATA_SIZE = BLOCK_ALIGNMENT - BLOCK_CRC_SIZE"
definition BATCH_BLOCKS :: nat where "BATCH_BLOCKS = 256"

lemma block_consts [simp]: "BLOCK_CRC_SIZE = 4" "BLOCK_DATA_SIZE = 4092" "BLOCK_ALIGNMENT = 4096"
  "BATCH_BLOCKS = 256"
  by (simp_all add: BLOCK_CRC_SIZE_def BLOCK_DATA_SIZE_def BLOCK_ALIGNMENT_def BATCH_BLOCKS_def)

definition num_blocks :: "nat \<Rightarrow> nat" where
  "num_blocks payload_size = (if payload_size = 0 then 0 else div_ceil payload_size BLOCK_DATA_SIZE)"

definition padded_extent_size :: "nat \<Rightarrow> nat result" where
  "padded_extent_size payload_size =
     (case checked_mul (num_blocks payload_size) BLOCK_ALIGNMENT of
        Some p \<Rightarrow> Inr p
      | None \<Rightarrow> Inl (ExtentInvalid ''padded_extent_size: block count overflow''))"

section \<open>Encoding\<close>

text \<open>
  One turn of the encoder's inner loop: block \<open>i\<close> of the payload goes to slot \<open>i - first\<close> of
  the zeroed buffer. \<open>encode_blocks\<close> is the one-buffer encoder of the source, built for its
  tests; here it is the reference for the two encoders that write to a device.
\<close>

definition fill_block :: "'x codecs_scheme \<Rightarrow> byte list \<Rightarrow> nat \<Rightarrow> nat \<Rightarrow> byte list \<Rightarrow> byte list" where
  "fill_block X payload first i buf =
     (let payload_start = i * BLOCK_DATA_SIZE;
          payload_end = min (payload_start + BLOCK_DATA_SIZE) (length payload);
          local = i - first;
          block_offset = local * BLOCK_ALIGNMENT;
          buf1 = write_at buf (block_offset + BLOCK_CRC_SIZE) (slice payload payload_start payload_end);
          data_region = slice buf1 (block_offset + BLOCK_CRC_SIZE) (block_offset + BLOCK_ALIGNMENT);
          crc = x_crc32c X data_region
      in write_at buf1 block_offset (u32_to_le_bytes crc))"

definition encode_blocks :: "'x codecs_scheme \<Rightarrow> byte list \<Rightarrow> byte list" where
  "encode_blocks X payload =
     (let n = num_blocks (length payload)
      in fold (fill_block X payload 0) [0..<n] (replicate (n * BLOCK_ALIGNMENT) 0))"

function write_batches ::
  "'x codecs_scheme \<Rightarrow> nat \<Rightarrow> byte list \<Rightarrow> nat \<Rightarrow> nat \<Rightarrow> device_io \<Rightarrow> unit result \<times> device_io" where
  "write_batches X extent_offset payload n block_idx dev =
     (if block_idx < n then
        (let batch_end = min (block_idx + BATCH_BLOCKS) n;
             batch_count = batch_end - block_idx;
             buf = fold (fill_block X payload block_idx) [block_idx..<batch_end]
                     (replicate (batch_count * BLOCK_ALIGNMENT) 0);
             disk_offset = uadd extent_offset (umul block_idx BLOCK_ALIGNMENT)
         in case pwrite dev disk_offset buf of
              (Inl e, dev') \<Rightarrow> (Inl e, dev')
            | (Inr _, dev') \<Rightarrow> write_batches X extent_offset payload n batch_end dev')
      else (Inr (), dev))"
  by pat_completeness auto
termination
  by (relation "measure (\<lambda>(X, off, payload, n, block_idx, dev). n - block_idx)") auto

declare write_batches.simps [simp del]

definition encode_and_write_batched ::
  "'x codecs_scheme \<Rightarrow> device_io \<Rightarrow> nat \<Rightarrow> byte list \<Rightarrow> unit result \<times> device_io" where
  "encode_and_write_batched X dev extent_offset payload =
     write_batches X extent_offset payload (num_blocks (length payload)) 0 dev"

text \<open>\<open>StreamingBlockWriter\<close>. The device it borrows is passed along.\<close>

record block_writer =
  bw_extent_offset :: nat
  bw_batch :: "byte list"
  bw_blocks_in_batch :: nat
  bw_partial :: "byte list"
  bw_blocks_written :: nat

definition bw_new :: "nat \<Rightarrow> block_writer" where
  "bw_new extent_offset =
     \<lparr>bw_extent_offset = extent_offset, bw_batch = [], bw_blocks_in_batch = 0, bw_partial = [],
      bw_blocks_written = 0\<rparr>"

definition flush_batch :: "device_io \<Rightarrow> block_writer \<Rightarrow> unit result \<times> device_io \<times> block_writer" where
  "flush_batch dev w =
     (let disk_offset = uadd (bw_extent_offset w) (umul (bw_blocks_written w) BLOCK_ALIGNMENT)
      in case pwrite dev disk_offset (bw_batch w) of
           (Inl e, dev') \<Rightarrow> (Inl e, dev', w)
         | (Inr _, dev') \<Rightarrow>
             (Inr (), dev', w\<lparr>bw_blocks_written := bw_blocks_written w + bw_blocks_in_batch w,
                             bw_batch := [], bw_blocks_in_batch := 0\<rparr>))"

definition seal_block ::
  "'x codecs_scheme \<Rightarrow> device_io \<Rightarrow> block_writer \<Rightarrow> unit result \<times> device_io \<times> block_writer" where
  "seal_block X dev w =
     (let crc = x_crc32c X (bw_partial w);
          w1 = w\<lparr>bw_batch := bw_batch w @ u32_to_le_bytes crc @ bw_partial w, bw_partial := [],
                 bw_blocks_in_batch := bw_blocks_in_batch w + 1\<rparr>
      in if bw_blocks_in_batch w1 = BATCH_BLOCKS then flush_batch dev w1 else (Inr (), dev, w1))"

text \<open>
  \<open>write_chunk\<close>. The partial block holds fewer than 4092 bytes between calls
  (\<open>writer_inv\<close> below), so \<open>space\<close> is positive; the first branch, where the subtraction of the
  source would underflow, is never taken from \<open>bw_new\<close>.
\<close>

function write_chunk ::
  "'x codecs_scheme \<Rightarrow> device_io \<Rightarrow> block_writer \<Rightarrow> byte list \<Rightarrow> unit result \<times> device_io \<times> block_writer" where
  "write_chunk X dev w bs =
     (if bs = [] then (Inr (), dev, w)
      else if BLOCK_DATA_SIZE \<le> length (bw_partial w) then (Inl Panicked, dev, w)
      else
        (let space = BLOCK_DATA_SIZE - length (bw_partial w);
             n = min (length bs) space;
             w1 = w\<lparr>bw_partial := bw_partial w @ take n bs\<rparr>;
             rest = drop n bs
         in if length (bw_partial w1) = BLOCK_DATA_SIZE
            then (case seal_block X dev w1 of
                    (Inl e, dev', w') \<Rightarrow> (Inl e, dev', w')
                  | (Inr _, dev', w') \<Rightarrow> write_chunk X dev' w' rest)
            else write_chunk X dev w1 rest))"
  by pat_completeness auto
termination
  by (relation "measure (\<lambda>(X, dev, w, bs). length bs)") (auto simp: min_def)

declare write_chunk.simps [simp del]

definition bw_finish ::
  "'x codecs_scheme \<Rightarrow> device_io \<Rightarrow> block_writer \<Rightarrow> unit result \<times> device_io" where
  "bw_finish X dev w =
     (let flush_rest = (\<lambda>dev w. if bw_blocks_in_batch w > 0
              then (case flush_batch dev w of (r, dev', _) \<Rightarrow> (r, dev')) else (Inr (), dev))
      in if bw_partial w \<noteq> [] then
           (case seal_block X dev
               (w\<lparr>bw_partial := bw_partial w @ replicate (BLOCK_DATA_SIZE - length (bw_partial w)) 0\<rparr>) of
              (Inl e, dev', _) \<Rightarrow> (Inl e, dev')
            | (Inr _, dev', w') \<Rightarrow> flush_rest dev' w')
         else flush_rest dev w)"

section \<open>Decoding\<close>

definition verify_block_crc :: "'x codecs_scheme \<Rightarrow> byte list \<Rightarrow> nat \<Rightarrow> byte list result" where
  "verify_block_crc X block block_label =
     (let stored_crc = u32_from_le_bytes (take BLOCK_CRC_SIZE block);
          bytes = drop BLOCK_CRC_SIZE block;
          actual_crc = x_crc32c X bytes
      in if stored_crc \<noteq> actual_crc
         then Inl (DataCorruption (''block '' @ show_nat block_label) stored_crc actual_crc)
         else Inr bytes)"

text \<open>The decoding loop over the blocks of one buffer; \<open>first\<close> is the label of block 0.\<close>

fun decode_loop ::
  "'x codecs_scheme \<Rightarrow> byte list \<Rightarrow> nat \<Rightarrow> nat \<Rightarrow> nat list \<Rightarrow> byte list \<Rightarrow> byte list result" where
  "decode_loop X raw first payload_len [] content = Inr content"
| "decode_loop X raw first payload_len (i # is) content =
     bind_res (verify_block_crc X (slice raw (i * BLOCK_ALIGNMENT) ((i + 1) * BLOCK_ALIGNMENT)) (first + i))
       (\<lambda>bytes. decode_loop X raw first payload_len is
                 (content @ take (min (payload_len - length content) BLOCK_DATA_SIZE) bytes))"

definition decode_blocks :: "'x codecs_scheme \<Rightarrow> byte list \<Rightarrow> nat \<Rightarrow> byte list result" where
  "decode_blocks X raw expected_content_len =
     decode_loop X raw 0 expected_content_len [0..<length raw div BLOCK_ALIGNMENT] []"

text \<open>The part of one block's bytes that overlaps the requested range.\<close>

definition range_piece :: "nat \<Rightarrow> nat \<Rightarrow> nat \<Rightarrow> byte list \<Rightarrow> byte list" where
  "range_piece block_idx r_start r_end bytes =
     (let block_content_start = block_idx * BLOCK_DATA_SIZE;
          block_content_end = block_content_start + BLOCK_DATA_SIZE;
          overlap_start = max r_start block_content_start;
          overlap_end = min r_end block_content_end
      in if overlap_start < overlap_end
         then slice bytes (overlap_start - block_content_start) (overlap_end - block_content_start)
         else [])"

fun decode_range_loop ::
  "'x codecs_scheme \<Rightarrow> byte list \<Rightarrow> nat \<Rightarrow> nat \<Rightarrow> nat \<Rightarrow> nat list \<Rightarrow> byte list \<Rightarrow> byte list result" where
  "decode_range_loop X raw first_block_idx r_start r_end [] acc = Inr acc"
| "decode_range_loop X raw first_block_idx r_start r_end (i # is) acc =
     bind_res (verify_block_crc X (slice raw (i * BLOCK_ALIGNMENT) ((i + 1) * BLOCK_ALIGNMENT))
                (first_block_idx + i))
       (\<lambda>bytes. decode_range_loop X raw first_block_idx r_start r_end is
                 (acc @ range_piece (first_block_idx + i) r_start r_end bytes))"

definition decode_block_range ::
  "'x codecs_scheme \<Rightarrow> byte list \<Rightarrow> nat \<Rightarrow> nat \<Rightarrow> nat \<Rightarrow> byte list result" where
  "decode_block_range X raw first_block_idx r_start r_end =
     decode_range_loop X raw first_block_idx r_start r_end [0..<length raw div BLOCK_ALIGNMENT] []"

function read_batches ::
  "'x codecs_scheme \<Rightarrow> device_io \<Rightarrow> nat \<Rightarrow> nat \<Rightarrow> nat \<Rightarrow> nat \<Rightarrow> byte list \<Rightarrow> byte list result" where
  "read_batches X dev extent_offset payload_len n block_idx payload =
     (if block_idx < n then
        (let batch_end = min (block_idx + BATCH_BLOCKS) n;
             batch_count = batch_end - block_idx;
             disk_offset = uadd extent_offset (umul block_idx BLOCK_ALIGNMENT);
             read_len = batch_count * BLOCK_ALIGNMENT
         in bind_res (pread dev disk_offset read_len) (\<lambda>raw.
            bind_res (decode_loop X raw block_idx payload_len [0..<batch_count] payload) (\<lambda>payload'.
              read_batches X dev extent_offset payload_len n batch_end payload')))
      else Inr payload)"
  by pat_completeness auto
termination
  by (relation "measure (\<lambda>(X, dev, off, plen, n, block_idx, payload). n - block_idx)") auto

declare read_batches.simps [simp del]

definition read_and_decode_batched ::
  "'x codecs_scheme \<Rightarrow> device_io \<Rightarrow> nat \<Rightarrow> nat \<Rightarrow> byte list result" where
  "read_and_decode_batched X dev extent_offset payload_size =
     read_batches X dev extent_offset payload_size (num_blocks payload_size) 0 []"

text \<open>\<open>StreamingBlockReader\<close>.\<close>

record block_reader =
  br_extent_offset :: nat
  br_total_blocks :: nat
  br_payload_len :: nat
  br_block_idx :: nat
  br_payload_consumed :: nat

definition br_new :: "nat \<Rightarrow> nat \<Rightarrow> block_reader" where
  "br_new extent_offset payload_size =
     \<lparr>br_extent_offset = extent_offset, br_total_blocks = num_blocks payload_size,
      br_payload_len = payload_size, br_block_idx = 0, br_payload_consumed = 0\<rparr>"

fun chunk_loop ::
  "'x codecs_scheme \<Rightarrow> byte list \<Rightarrow> nat list \<Rightarrow> byte list \<Rightarrow> block_reader \<Rightarrow> byte list result \<times> block_reader" where
  "chunk_loop X raw [] chunk r = (Inr chunk, r)"
| "chunk_loop X raw (i # is) chunk r =
     (case verify_block_crc X (slice raw (i * BLOCK_ALIGNMENT) ((i + 1) * BLOCK_ALIGNMENT))
             (br_block_idx r + i) of
        Inl e \<Rightarrow> (Inl e, r)
      | Inr bytes \<Rightarrow>
          (let n = min (br_payload_len r - br_payload_consumed r) BLOCK_DATA_SIZE
           in chunk_loop X raw is (chunk @ take n bytes)
                (r\<lparr>br_payload_consumed := br_payload_consumed r + n\<rparr>)))"

definition next_chunk ::
  "'x codecs_scheme \<Rightarrow> device_io \<Rightarrow> block_reader \<Rightarrow> byte list option result \<times> block_reader" where
  "next_chunk X dev r =
     (if br_block_idx r \<ge> br_total_blocks r then (Inr None, r)
      else
        (let batch_end = min (br_block_idx r + BATCH_BLOCKS) (br_total_blocks r);
             batch_count = batch_end - br_block_idx r;
             disk_offset = uadd (br_extent_offset r) (umul (br_block_idx r) BLOCK_ALIGNMENT);
             read_len = batch_count * BLOCK_ALIGNMENT
         in case pread dev disk_offset read_len of
              Inl e \<Rightarrow> (Inl e, r)
            | Inr raw \<Rightarrow>
                (case chunk_loop X raw [0..<batch_count] [] r of
                   (Inl e, r') \<Rightarrow> (Inl e, r')
                 | (Inr chunk, r') \<Rightarrow> (Inr (Some chunk), r'\<lparr>br_block_idx := batch_end\<rparr>))))"

text \<open>
  \<open>BlockReaderIo\<close> and its \<open>Read::read\<close> into a buffer of \<open>len\<close> bytes. The loop of the source
  turns at most twice: a fetched chunk that is not empty is drained on the next turn. The
  sticky error keeps its kind, which is always \<open>Other\<close>.
\<close>

record block_reader_io =
  bio_reader :: block_reader
  bio_buf :: "byte list"
  bio_pos :: nat
  bio_err :: "io_kind option"

definition bio_new :: "nat \<Rightarrow> nat \<Rightarrow> block_reader_io" where
  "bio_new extent_offset payload_size =
     \<lparr>bio_reader = br_new extent_offset payload_size, bio_buf = [], bio_pos = 0, bio_err = None\<rparr>"

definition bio_drain :: "nat \<Rightarrow> block_reader_io \<Rightarrow> byte list \<times> block_reader_io" where
  "bio_drain len b =
     (let n = min (length (bio_buf b) - bio_pos b) len
      in (slice (bio_buf b) (bio_pos b) (bio_pos b + n), b\<lparr>bio_pos := bio_pos b + n\<rparr>))"

definition bio_read ::
  "'x codecs_scheme \<Rightarrow> device_io \<Rightarrow> nat \<Rightarrow> block_reader_io \<Rightarrow> (io_kind + byte list) \<times> block_reader_io" where
  "bio_read X dev len b =
     (case bio_err b of
        Some k \<Rightarrow> (Inl k, b)
      | None \<Rightarrow>
          if bio_pos b < length (bio_buf b)
          then (case bio_drain len b of (bs, b') \<Rightarrow> (Inr bs, b'))
          else
            (case next_chunk X dev (bio_reader b) of
               (Inr (Some chunk), r') \<Rightarrow>
                 (if chunk \<noteq> []
                  then (case bio_drain len (b\<lparr>bio_reader := r', bio_buf := chunk, bio_pos := 0\<rparr>) of
                          (bs, b') \<Rightarrow> (Inr bs, b'))
                  else (Inr [], b\<lparr>bio_reader := r'\<rparr>))
             | (Inr None, r') \<Rightarrow> (Inr [], b\<lparr>bio_reader := r'\<rparr>)
             | (Inl e, r') \<Rightarrow> (Inl OtherKind, b\<lparr>bio_reader := r', bio_err := Some OtherKind\<rparr>)))"


section \<open>Sizes: bounds\<close>

lemma less_num_blocks_iff: "i < num_blocks n \<longleftrightarrow> i * 4092 < n"
  by (simp add: num_blocks_def less_div_ceil_iff)

lemma num_blocks_le_iff: "num_blocks n \<le> k \<longleftrightarrow> n \<le> k * 4092"
  using less_num_blocks_iff [of k n] by linarith

lemma num_blocks_ge: "n \<le> num_blocks n * 4092"
  using num_blocks_le_iff [of n "num_blocks n"] by simp

lemma num_blocks_pos: "0 < num_blocks n \<longleftrightarrow> 0 < n"
  by (simp add: less_num_blocks_iff)

lemma num_blocks_upper: "0 < n \<Longrightarrow> num_blocks n * 4092 < n + 4092"
  using less_num_blocks_iff [of "num_blocks n - 1" n] num_blocks_pos [of n]
  by (cases "num_blocks n") auto

lemma padded_extent_size_Inr:
  "padded_extent_size n = Inr p \<longleftrightarrow> p = num_blocks n * 4096 \<and> p < 2 ^ 64"
  by (auto simp: padded_extent_size_def checked_mul_def)

lemma padded_extent_size_ge: "padded_extent_size n = Inr p \<Longrightarrow> n \<le> p \<and> 4096 dvd p"
  using num_blocks_ge [of n] by (auto simp: padded_extent_size_Inr)

section \<open>The encoder\<close>

text \<open>
  The payload padded with zeros to whole blocks, the data region of block \<open>i\<close> and the encoded
  block.
\<close>

definition zpad :: "byte list \<Rightarrow> byte list" where
  "zpad payload = payload @ replicate (num_blocks (length payload) * 4092 - length payload) 0"

definition block_data :: "byte list \<Rightarrow> nat \<Rightarrow> byte list" where
  "block_data payload i = slice (zpad payload) (i * 4092) ((i + 1) * 4092)"

definition enc_block :: "'x codecs_scheme \<Rightarrow> byte list \<Rightarrow> byte list" where
  "enc_block X d = u32_to_le_bytes (x_crc32c X d) @ d"

definition enc_blocks :: "'x codecs_scheme \<Rightarrow> byte list \<Rightarrow> nat \<Rightarrow> nat \<Rightarrow> byte list" where
  "enc_blocks X payload a b = concat (map (\<lambda>i. enc_block X (block_data payload i)) [a..<b])"

lemma length_zpad [simp]: "length (zpad p) = num_blocks (length p) * 4092"
  using num_blocks_ge [of "length p"] by (simp add: zpad_def)

lemma take_zpad [simp]: "take (length p) (zpad p) = p"
  by (simp add: zpad_def)

lemma length_block_data: "i < num_blocks (length p) \<Longrightarrow> length (block_data p i) = 4092"
  using mult_le_mono1 [of "i + 1" "num_blocks (length p)" 4092]
  by (simp add: block_data_def length_slice)

lemma length_enc_block [simp]: "length (enc_block X d) = 4 + length d"
  by (simp add: enc_block_def)

lemma enc_blocks_Nil [simp]: "b \<le> a \<Longrightarrow> enc_blocks X p a b = []"
  by (simp add: enc_blocks_def)

lemma enc_blocks_Suc:
  "a \<le> b \<Longrightarrow> enc_blocks X p a (Suc b) = enc_blocks X p a b @ enc_block X (block_data p b)"
  by (simp add: enc_blocks_def)

lemma enc_blocks_append:
  "a \<le> b \<Longrightarrow> b \<le> c \<Longrightarrow> enc_blocks X p a b @ enc_blocks X p b c = enc_blocks X p a c"
  using upt_add_eq_append [of a b "c - b"]
  by (simp add: enc_blocks_def flip: concat_append map_append)

lemma length_enc_blocks:
  "b \<le> num_blocks (length p) \<Longrightarrow> length (enc_blocks X p a b) = (b - a) * 4096"
proof (induction b)
  case 0
  then show ?case by simp
next
  case (Suc b)
  then show ?case
    by (cases "a \<le> b") (auto simp: enc_blocks_Suc length_block_data Suc_diff_le)
qed

lemma block_data_eq:
  assumes "i < num_blocks (length p)"
  defines "ch \<equiv> slice p (i * 4092) (min (i * 4092 + 4092) (length p))"
  shows "block_data p i = ch @ replicate (4092 - length ch) 0" and "length ch \<le> 4092"
proof -
  have i: "i * 4092 < length p" using assms(1) by (simp add: less_num_blocks_iff)
  have k: "i * 4092 + 4092 \<le> num_blocks (length p) * 4092"
    using mult_le_mono1 [of "i + 1" "num_blocks (length p)" 4092] assms(1) by simp
  have ch: "ch = take 4092 (drop (i * 4092) p)"
    using i by (auto simp: ch_def slice_def min_def)
  have b: "block_data p i =
      take 4092 (drop (i * 4092) p @ replicate (num_blocks (length p) * 4092 - length p) 0)"
    using i by (simp add: block_data_def slice_def zpad_def)
  show "block_data p i = ch @ replicate (4092 - length ch) 0"
    unfolding b ch using i k by (simp add: min_def) linarith
  show "length ch \<le> 4092" by (simp add: ch)
qed

lemma fill_block_at:
  assumes i: "i < num_blocks (length p)" and P: "length P = (i - first) * 4096"
  shows "fill_block X p first i (P @ replicate (4096 + m) 0) =
     P @ enc_block X (block_data p i) @ replicate m 0"
proof -
  let ?ch = "slice p (i * 4092) (min (i * 4092 + 4092) (length p))"
  let ?z = "replicate (4096 + m) 0 :: byte list"
  note bd = block_data_eq [OF i]
  have split: "4092 + m - length ?ch = (4092 - length ?ch) + m" using bd(2) by simp
  have "write_at ?z 4 ?ch = replicate 4 0 @ ?ch @ replicate (4092 + m - length ?ch) 0"
    by (simp add: write_at_def)
  also have "\<dots> = replicate 4 0 @ block_data p i @ replicate m 0"
    unfolding split replicate_add bd(1) by simp
  finally have w1: "write_at (P @ ?z) (length P + 4) ?ch = P @ replicate 4 0 @ block_data p i @ replicate m 0"
    using bd(2) by (subst write_at_shift) simp_all
  have l: "length (block_data p i) = 4092" using i by (rule length_block_data)
  have reg: "slice (P @ replicate 4 0 @ block_data p i @ replicate m 0) (length P + 4) (length P + 4096)
      = block_data p i"
    using l by (simp only: slice_shift) (simp add: slice_def)
  have w2: "write_at (P @ replicate 4 0 @ block_data p i @ replicate m 0) (length P + 0)
      (u32_to_le_bytes c) = P @ u32_to_le_bytes c @ block_data p i @ replicate m 0" for c
    by (subst write_at_shift) (simp_all add: write_at_zero)
  show ?thesis
    using w1 reg w2 [of "x_crc32c X (block_data p i)"]
    by (simp add: fill_block_def Let_def P enc_block_def)
qed

lemma fill_fold:
  assumes "a \<le> b" and "b \<le> num_blocks (length p)"
  shows "fold (fill_block X p a) [a..<b] (replicate ((b - a) * 4096 + m) 0) =
    enc_blocks X p a b @ replicate m 0"
  using assms
proof (induction b arbitrary: m)
  case 0
  then show ?case by simp
next
  case (Suc b)
  show ?case
  proof (cases "a \<le> b")
    case True
    have "fold (fill_block X p a) [a..<b] (replicate ((Suc b - a) * 4096 + m) 0) =
        enc_blocks X p a b @ replicate (4096 + m) 0"
      using Suc.IH [of "4096 + m"] Suc.prems True by (simp add: Suc_diff_le algebra_simps)
    then show ?thesis
      using True Suc.prems fill_block_at [of b p "enc_blocks X p a b" a X m]
      by (simp add: length_enc_blocks enc_blocks_Suc)
  next
    case False
    with Suc.prems have "a = Suc b" by simp
    then show ?thesis by simp
  qed
qed

lemma encode_blocks_eq: "encode_blocks X p = enc_blocks X p 0 (num_blocks (length p))"
  using fill_fold [of 0 "num_blocks (length p)" p X 0] by (simp add: encode_blocks_def Let_def)

lemma length_encode_blocks: "length (encode_blocks X p) = num_blocks (length p) * 4096"
  by (simp add: encode_blocks_eq length_enc_blocks)

section \<open>Writing an extent\<close>

text \<open>The place of an extent of \<open>n\<close> blocks on the device.\<close>

definition extent_fits :: "device_io \<Rightarrow> nat \<Rightarrow> nat \<Rightarrow> bool" where
  "extent_fits dev off n \<longleftrightarrow>
     4096 dvd off \<and> off + n * 4096 \<le> length (dev_data dev) \<and> length (dev_data dev) + 4096 \<le> 2 ^ 64"

lemma extent_pos: "extent_fits dev off n \<Longrightarrow> i \<le> n \<Longrightarrow> uadd off (umul i 4096) = off + i * 4096"
proof -
  assume f: "extent_fits dev off n" and "i \<le> n"
  then have "i * 4096 \<le> n * 4096" by simp
  with f have "off + i * 4096 < 2 ^ 64" unfolding extent_fits_def by linarith
  then show ?thesis by (simp add: u64_simps)
qed

lemma write_batches_buf:
  "block_idx < num_blocks (length p) \<Longrightarrow>
   fold (fill_block X p block_idx) [block_idx..<min (block_idx + 256) (num_blocks (length p))]
     (replicate ((min (block_idx + 256) (num_blocks (length p)) - block_idx) * 4096) 0)
   = enc_blocks X p block_idx (min (block_idx + 256) (num_blocks (length p)))"
  using fill_fold [of block_idx "min (block_idx + 256) (num_blocks (length p))" p X 0] by simp

lemma write_batches_step:
  assumes "block_idx < num_blocks (length p)"
  shows "write_batches X off p (num_blocks (length p)) block_idx dev =
    (case pwrite dev (uadd off (umul block_idx 4096))
            (enc_blocks X p block_idx (min (block_idx + 256) (num_blocks (length p)))) of
       (Inl e, dev') \<Rightarrow> (Inl e, dev')
     | (Inr _, dev') \<Rightarrow>
         write_batches X off p (num_blocks (length p)) (min (block_idx + 256) (num_blocks (length p))) dev')"
  using assms write_batches_buf [OF assms, of X]
  by (subst write_batches.simps) (simp add: Let_def)

lemma write_batches_done: "n \<le> block_idx \<Longrightarrow> write_batches X off p n block_idx dev = (Inr (), dev)"
  by (subst write_batches.simps) simp

lemma write_batches_spec:
  assumes "extent_fits dev off (num_blocks (length p))" and "block_idx \<le> num_blocks (length p)"
    and "write_batches X off p (num_blocks (length p)) block_idx dev = (r, dev')"
  shows "dev_frame dev dev' (off + block_idx * 4096) (off + num_blocks (length p) * 4096) \<and>
    (r = Inr () \<longrightarrow> dev_data dev' =
       write_at (dev_data dev) (off + block_idx * 4096) (enc_blocks X p block_idx (num_blocks (length p))))"
  using assms
proof (induction "num_blocks (length p) - block_idx" arbitrary: block_idx dev rule: less_induct)
  case less
  let ?n = "num_blocks (length p)"
  show ?case
  proof (cases "block_idx < ?n")
    case False
    with less.prems show ?thesis by (auto simp: write_batches_done extent_fits_def)
  next
    case True
    define e where "e = min (block_idx + 256) ?n"
    define bs where "bs = enc_blocks X p block_idx e"
    have e: "block_idx < e" "e \<le> ?n" using True by (auto simp: e_def)
    have len: "length bs = (e - block_idx) * 4096" unfolding bs_def using e by (simp add: length_enc_blocks)
    have span: "write_span dv (length bs) = length bs" for dv by (simp add: len)
    have pos: "uadd off (umul block_idx 4096) = off + block_idx * 4096"
      using less.prems(1) True by (intro extent_pos) auto
    have endp: "off + block_idx * 4096 + length bs = off + e * 4096"
      using e by (simp add: len diff_mult_distrib)
    have en: "e * 4096 \<le> ?n * 4096" using e by simp
    have fits: "off + block_idx * 4096 + write_span dev (length bs) \<le> length (dev_data dev)"
      unfolding span endp using less.prems(1) en by (simp add: extent_fits_def)
    have small: "length bs + 4095 < 2 ^ 64"
      using fits less.prems(1) unfolding span extent_fits_def by linarith
    obtain rw dev1 where pw: "pwrite dev (off + block_idx * 4096) bs = (rw, dev1)" by fastforce
    have fr1: "dev_frame dev dev1 (off + block_idx * 4096) (off + e * 4096)"
      using pwrite_frame [OF fits small] by (simp add: pw span endp)
    then have fr1': "dev_frame dev dev1 (off + block_idx * 4096) (off + ?n * 4096)"
      using en by (auto intro: dev_frame_weaken)
    show ?thesis
    proof (cases rw)
      case (Inl err)
      then show ?thesis
        using less.prems(3) fr1' write_batches_step [OF True, of X off dev] pw pos
        by (auto simp: bs_def e_def)
    next
      case (Inr u)
      have d1: "dev_data dev1 = write_at (dev_data dev) (off + block_idx * 4096) bs"
        using pwrite_Inr [OF fits small] pw Inr span by simp
      have fits1: "extent_fits dev1 off ?n"
        using less.prems(1) dev_frame_length [OF fr1] by (simp add: extent_fits_def)
      have run1: "write_batches X off p ?n e dev1 = (r, dev')"
        using less.prems(3) write_batches_step [OF True, of X off dev] pw pos Inr
        by (auto simp: bs_def e_def)
      have IH: "dev_frame dev1 dev' (off + e * 4096) (off + ?n * 4096)"
        and data: "r = Inr () \<longrightarrow> dev_data dev' = write_at (dev_data dev1) (off + e * 4096) (enc_blocks X p e ?n)"
        using less.hyps [of e dev1] e True fits1 run1 by auto
      have "dev_frame dev dev' (off + block_idx * 4096) (off + ?n * 4096)"
        using fr1' dev_frame_weaken [OF IH, of "off + block_idx * 4096"] e
        by (auto intro: dev_frame_trans)
      moreover have "write_at (dev_data dev1) (off + e * 4096) (enc_blocks X p e ?n)
          = write_at (dev_data dev) (off + block_idx * 4096) (enc_blocks X p block_idx ?n)"
      proof -
        have lens: "off + block_idx * 4096 + length bs + length (enc_blocks X p e ?n) \<le> length (dev_data dev)"
          using less.prems(1) en endp length_enc_blocks [of ?n p X e]
          unfolding extent_fits_def diff_mult_distrib by linarith
        have "bs @ enc_blocks X p e ?n = enc_blocks X p block_idx ?n"
          unfolding bs_def using e by (simp add: enc_blocks_append)
        with write_at_append [OF lens] endp d1 show ?thesis by simp
      qed
      ultimately show ?thesis using data by simp
    qed
  qed
qed

lemma enc_blocks_not_Nil: "a < b \<Longrightarrow> b \<le> num_blocks (length p) \<Longrightarrow> enc_blocks X p a b \<noteq> []"
  using length_enc_blocks [of b p X a] by (cases "enc_blocks X p a b") auto

lemma write_batches_no_panic:
  assumes "extent_fits dev off (num_blocks (length p))" and "block_idx \<le> num_blocks (length p)"
  shows "fst (write_batches X off p (num_blocks (length p)) block_idx dev) \<noteq> Inl Panicked"
  using assms
proof (induction "num_blocks (length p) - block_idx" arbitrary: block_idx dev rule: less_induct)
  case less
  let ?n = "num_blocks (length p)"
  show ?case
  proof (cases "block_idx < ?n")
    case False
    then show ?thesis by (simp add: write_batches_done)
  next
    case True
    define e where "e = min (block_idx + 256) ?n"
    define bs where "bs = enc_blocks X p block_idx e"
    have e: "block_idx < e" "e \<le> ?n" using True by (auto simp: e_def)
    have len: "length bs = (e - block_idx) * 4096" unfolding bs_def using e by (simp add: length_enc_blocks)
    have "e * 4096 \<le> ?n * 4096" using e by simp
    then have fits: "off + block_idx * 4096 + write_span dev (length bs) \<le> length (dev_data dev)"
      using less.prems(1) e by (simp add: extent_fits_def len diff_mult_distrib)
    then have small: "length bs + 4095 < 2 ^ 64"
      using less.prems(1) write_span_ge [of "length bs" dev] unfolding extent_fits_def by linarith
    have pos: "uadd off (umul block_idx 4096) = off + block_idx * 4096"
      using less.prems(1) True by (intro extent_pos) auto
    have al: "4096 dvd off + block_idx * 4096" using less.prems(1) by (simp add: extent_fits_def)
    have np: "fst (pwrite dev (off + block_idx * 4096) bs) \<noteq> Inl Panicked"
      using al small e unfolding bs_def by (intro pwrite_no_panic enc_blocks_not_Nil) auto
    obtain rw dev1 where pw: "pwrite dev (off + block_idx * 4096) bs = (rw, dev1)" by fastforce
    have "extent_fits dev1 off ?n"
      using less.prems(1) dev_frame_length [OF pwrite_frame [OF fits small]] pw by (simp add: extent_fits_def)
    then have "fst (write_batches X off p ?n e dev1) \<noteq> Inl Panicked"
      using less.hyps [of e dev1] e True by simp
    then show ?thesis
      using write_batches_step [OF True, of X off dev] np pw pos
      by (cases rw) (auto simp: bs_def e_def)
  qed
qed

lemma write_batches_ok:
  assumes "extent_fits dev off (num_blocks (length p))" and "block_idx \<le> num_blocks (length p)"
    and "\<not> dev_read_only dev" and "\<And>n. dev_wfault dev n = None"
  shows "fst (write_batches X off p (num_blocks (length p)) block_idx dev) = Inr ()"
  using assms
proof (induction "num_blocks (length p) - block_idx" arbitrary: block_idx dev rule: less_induct)
  case less
  let ?n = "num_blocks (length p)"
  show ?case
  proof (cases "block_idx < ?n")
    case False
    then show ?thesis by (simp add: write_batches_done)
  next
    case True
    define e where "e = min (block_idx + 256) ?n"
    define bs where "bs = enc_blocks X p block_idx e"
    have e: "block_idx < e" "e \<le> ?n" using True by (auto simp: e_def)
    have len: "length bs = (e - block_idx) * 4096" unfolding bs_def using e by (simp add: length_enc_blocks)
    have "e * 4096 \<le> ?n * 4096" using e by simp
    then have fits: "off + block_idx * 4096 + write_span dev (length bs) \<le> length (dev_data dev)"
      using less.prems(1) e by (simp add: extent_fits_def len diff_mult_distrib)
    then have small: "length bs + 4095 < 2 ^ 64"
      using less.prems(1) write_span_ge [of "length bs" dev] unfolding extent_fits_def by linarith
    have pos: "uadd off (umul block_idx 4096) = off + block_idx * 4096"
      using less.prems(1) True by (intro extent_pos) auto
    have al: "4096 dvd off + block_idx * 4096" using less.prems(1) by (simp add: extent_fits_def)
    have ok: "fst (pwrite dev (off + block_idx * 4096) bs) = Inr ()"
      using al small fits less.prems(3,4) e unfolding bs_def by (intro pwrite_ok enc_blocks_not_Nil) auto
    then obtain dev1 where pw: "pwrite dev (off + block_idx * 4096) bs = (Inr (), dev1)"
      by (metis prod.collapse)
    have fr: "dev_frame dev dev1 (off + block_idx * 4096) (off + block_idx * 4096 + write_span dev (length bs))"
      using pwrite_frame [OF fits small] pw by simp
    have "extent_fits dev1 off ?n"
      using less.prems(1) dev_frame_length [OF fr] by (simp add: extent_fits_def)
    moreover have "\<not> dev_read_only dev1" "dev_wfault dev1 n = None" for n
      using dev_frame_same [OF fr] less.prems(3,4) by (auto simp: dev_same_def)
    ultimately have "fst (write_batches X off p ?n e dev1) = Inr ()"
      using less.hyps [of e dev1] e True by simp
    then show ?thesis
      using write_batches_step [OF True, of X off dev] pw pos by (simp add: bs_def e_def)
  qed
qed

lemma encode_and_write_ok:
  "extent_fits dev off (num_blocks (length p)) \<Longrightarrow> \<not> dev_read_only dev \<Longrightarrow> (\<And>n. dev_wfault dev n = None) \<Longrightarrow>
     fst (encode_and_write_batched X dev off p) = Inr ()"
  using write_batches_ok [of dev off p 0 X] by (simp add: encode_and_write_batched_def)

lemma encode_and_write_no_panic:
  "extent_fits dev off (num_blocks (length p)) \<Longrightarrow>
     fst (encode_and_write_batched X dev off p) \<noteq> Inl Panicked"
  using write_batches_no_panic [of dev off p 0 X] by (simp add: encode_and_write_batched_def)

text \<open>
  \<open>encode_and_write_batched\<close>: whatever happens only the extent's own bytes change, and on
  success they are the encoded payload.
\<close>

lemma encode_and_write_frame:
  assumes "extent_fits dev off (num_blocks (length p))"
  shows "dev_frame dev (snd (encode_and_write_batched X dev off p)) off (off + num_blocks (length p) * 4096)"
  using write_batches_spec [OF assms, of 0 X] by (simp add: encode_and_write_batched_def prod_eq_iff)

lemma encode_and_write_data:
  assumes "extent_fits dev off (num_blocks (length p))"
    and "fst (encode_and_write_batched X dev off p) = Inr ()"
  shows "dev_data (snd (encode_and_write_batched X dev off p)) = write_at (dev_data dev) off (encode_blocks X p)"
  using write_batches_spec [OF assms(1), of 0 X] assms(2)
  by (simp add: encode_and_write_batched_def encode_blocks_eq prod_eq_iff)


section \<open>Decoding a buffer\<close>

definition block_ok :: "'x codecs_scheme \<Rightarrow> byte list \<Rightarrow> bool" where
  "block_ok X b \<longleftrightarrow> u32_from_le_bytes (take 4 b) = x_crc32c X (drop 4 b)"

abbreviation nth_block :: "byte list \<Rightarrow> nat \<Rightarrow> byte list" where
  "nth_block raw i \<equiv> slice raw (i * 4096) ((i + 1) * 4096)"

lemma verify_block_crc_Inr: "verify_block_crc X b l = Inr d \<longleftrightarrow> block_ok X b \<and> d = drop 4 b"
  by (auto simp: verify_block_crc_def block_ok_def Let_def)

lemma verify_block_crc_Inl:
  "verify_block_crc X b l = Inl e \<longleftrightarrow> \<not> block_ok X b \<and>
     e = DataCorruption (''block '' @ show_nat l) (u32_from_le_bytes (take 4 b)) (x_crc32c X (drop 4 b))"
  by (auto simp: verify_block_crc_def block_ok_def Let_def)

lemma verify_enc_block [simp]: "block_ok X (enc_block X d)" "drop 4 (enc_block X d) = d"
  by (simp_all add: block_ok_def enc_block_def)

lemma nth_block_enc_blocks:
  assumes "a + i < b" and "b \<le> num_blocks (length p)"
  shows "nth_block (enc_blocks X p a b) i = enc_block X (block_data p (a + i))"
proof -
  have 1: "enc_blocks X p a b = enc_blocks X p a (a + i) @ enc_block X (block_data p (a + i)) @
      enc_blocks X p (Suc (a + i)) b"
    using assms enc_blocks_append [of a "Suc (a + i)" b X p] by (simp add: enc_blocks_Suc)
  have l: "length (enc_blocks X p a (a + i)) = i * 4096"
    using assms by (simp add: length_enc_blocks)
  have "length (enc_block X (block_data p (a + i))) = 4096"
    using assms by (simp add: length_block_data)
  then show ?thesis unfolding 1 by (simp add: slice_def l)
qed

lemma length_nth_block: "(i + 1) * 4096 \<le> length raw \<Longrightarrow> length (nth_block raw i) = 4096"
  by (simp add: length_slice)

lemma decode_loop_Inr_iff:
  assumes "\<forall>i\<in>set is. (i + 1) * 4096 \<le> length raw" and "length content \<le> plen"
  shows "decode_loop X raw first plen is content = Inr r \<longleftrightarrow>
    (\<forall>i\<in>set is. block_ok X (nth_block raw i)) \<and>
    r = content @ take (plen - length content) (concat (map (\<lambda>i. drop 4 (nth_block raw i)) is))"
  using assms
proof (induction "is" arbitrary: content)
  case Nil
  then show ?case by auto
next
  case (Cons i js)
  let ?d = "drop 4 (nth_block raw i)"
  have len: "length ?d = 4092" using Cons.prems by (simp add: length_slice)
  let ?c = "content @ take (min (plen - length content) 4092) ?d"
  have c: "?c = content @ take (plen - length content) ?d"
    using len by (auto simp: min_def)
  have "length ?c \<le> plen" using Cons.prems(2) len by simp
  then have IH: "decode_loop X raw first plen js ?c = Inr r \<longleftrightarrow>
      (\<forall>i\<in>set js. block_ok X (nth_block raw i)) \<and>
      r = ?c @ take (plen - length ?c) (concat (map (\<lambda>i. drop 4 (nth_block raw i)) js))"
    using Cons.prems(1) by (intro Cons.IH) auto
  have m: "plen - length ?c = plen - length content - 4092" using len by simp
  have len': "length (slice raw (i * 4096) (4096 + i * 4096)) = 4096"
    using Cons.prems by (simp add: length_slice)
  have step: "decode_loop X raw first plen (i # js) content = Inr r \<longleftrightarrow>
      block_ok X (nth_block raw i) \<and> decode_loop X raw first plen js ?c = Inr r"
    by (auto simp: bind_res_Inr_iff verify_block_crc_Inr)
  show ?case unfolding step IH m unfolding c by (simp add: len')
qed

lemma decode_loop_append:
  "decode_loop X raw first plen (is @ js) c =
     bind_res (decode_loop X raw first plen is c) (decode_loop X raw first plen js)"
proof (induction "is" arbitrary: c)
  case (Cons i "is")
  then show ?case
    by (cases "verify_block_crc X (nth_block raw i) (first + i)") (simp_all add: add.commute)
qed simp

lemma decode_loop_shift:
  assumes "\<And>i. i < m \<Longrightarrow> nth_block raw i = nth_block raw' (k + i)"
  shows "decode_loop X raw (f + k) plen [j..<m] c = decode_loop X raw' f plen [k + j..<k + m] c"
proof (induction "m - j" arbitrary: j c)
  case 0
  then show ?case by simp
next
  case (Suc d)
  then have j: "j < m" by simp
  have IH: "decode_loop X raw (f + k) plen [Suc j..<m] c' =
      decode_loop X raw' f plen [Suc (k + j)..<k + m] c'" for c'
    using Suc by simp
  show ?case
    using j assms [of j] IH by (simp add: upt_conv_Cons add.assoc add.commute add.left_commute)
qed

section \<open>Reading an extent\<close>

abbreviation extent_bytes :: "device_io \<Rightarrow> nat \<Rightarrow> nat \<Rightarrow> byte list" where
  "extent_bytes dev off n \<equiv> slice (dev_data dev) off (off + n * 4096)"

lemma nth_block_batch:
  assumes "i < cnt" and "idx + cnt \<le> n"
  shows "nth_block (slice d (off + idx * 4096) (off + idx * 4096 + cnt * 4096)) i =
    nth_block (slice d off (off + n * 4096)) (idx + i)"
proof -
  have "(i + 1) * 4096 \<le> cnt * 4096" and "(idx + i + 1) * 4096 \<le> n * 4096"
    using assms by (intro mult_le_mono1; simp)+
  then show ?thesis by (simp add: slice_slice algebra_simps)
qed

text \<open>
  A batched read either is the decoding of the whole extent, or failed in a device read. The
  second cannot happen when no read faults and the extent lies on the device.
\<close>

lemma read_batches_decode:
  assumes "off + n * 4096 < 2 ^ 64" and "idx \<le> n"
  shows "read_batches X dev off plen n idx c = decode_loop X (extent_bytes dev off n) 0 plen [idx..<n] c \<or>
    (\<exists>i k e. pread dev i k = Inl e \<and> read_batches X dev off plen n idx c = Inl e)"
  using assms
proof (induction "n - idx" arbitrary: idx c rule: less_induct)
  case less
  show ?case
  proof (cases "idx < n")
    case False
    then show ?thesis by (subst (1 2) read_batches.simps) simp
  next
    case True
    define e where "e = min (idx + 256) n"
    have e: "idx < e" "e \<le> n" using True by (auto simp: e_def)
    have "idx * 4096 \<le> n * 4096" using True by simp
    then have "off + idx * 4096 < 2 ^ 64" using less.prems(1) by linarith
    then have pos: "uadd off (umul idx 4096) = off + idx * 4096" by (simp add: u64_simps)
    have step: "read_batches X dev off plen n idx c =
        bind_res (pread dev (off + idx * 4096) ((e - idx) * 4096)) (\<lambda>raw.
        bind_res (decode_loop X raw idx plen [0..<e - idx] c)
          (read_batches X dev off plen n e))"
      using True pos by (subst read_batches.simps) (simp add: Let_def e_def)
    show ?thesis
    proof (cases "pread dev (off + idx * 4096) ((e - idx) * 4096)")
      case (Inl err)
      then show ?thesis using step by auto
    next
      case (Inr raw)
      then have raw: "raw = slice (dev_data dev) (off + idx * 4096) (off + idx * 4096 + (e - idx) * 4096)"
        by (rule pread_Inr)
      have "decode_loop X raw idx plen [0..<e - idx] c =
          decode_loop X (extent_bytes dev off n) 0 plen [idx..<e] c"
        using decode_loop_shift [of "e - idx" raw "extent_bytes dev off n" idx X 0 plen 0 c]
          nth_block_batch [of _ "e - idx" idx n "dev_data dev" off] e by (simp add: raw)
      moreover have "[idx..<n] = [idx..<e] @ [e..<n]"
        using e upt_add_eq_append [of idx e "n - e"] by simp
      moreover have "read_batches X dev off plen n e c' = decode_loop X (extent_bytes dev off n) 0 plen [e..<n] c' \<or>
          (\<exists>i k err. pread dev i k = Inl err \<and> read_batches X dev off plen n e c' = Inl err)" for c'
        using less.hyps [of e c'] less.prems e by simp
      ultimately show ?thesis
        using step Inr
        by (cases "decode_loop X (extent_bytes dev off n) 0 plen [idx..<e] c")
          (auto simp: decode_loop_append)
    qed
  qed
qed

lemma extent_fits_bound: "extent_fits dev off n \<Longrightarrow> off + n * 4096 < 2 ^ 64"
  unfolding extent_fits_def by linarith

lemma length_extent_bytes: "extent_fits dev off n \<Longrightarrow> length (extent_bytes dev off n) = n * 4096"
  by (simp add: extent_fits_def length_slice)

lemma decode_blocks_extent:
  "extent_fits dev off n \<Longrightarrow>
     decode_blocks X (extent_bytes dev off n) plen = decode_loop X (extent_bytes dev off n) 0 plen [0..<n] []"
  by (simp add: decode_blocks_def length_extent_bytes)

lemma read_and_decode_Inr:
  assumes "extent_fits dev off (num_blocks plen)" and "read_and_decode_batched X dev off plen = Inr r"
  shows "decode_blocks X (extent_bytes dev off (num_blocks plen)) plen = Inr r"
  using assms read_batches_decode [OF extent_fits_bound [OF assms(1)], of 0 X dev plen "[]"]
  by (auto simp: read_and_decode_batched_def decode_blocks_extent)

lemma pread_batch_ok:
  assumes "extent_fits dev off n" and "a + b \<le> n" and "\<And>i k. \<not> dev_rfault dev i k"
  shows "pread dev (off + a * 4096) (b * 4096) = Inr (slice (dev_data dev) (off + a * 4096) (off + a * 4096 + b * 4096))"
proof (rule pread_ok)
  have "(a + b) * 4096 \<le> n * 4096" using assms(2) by (rule mult_le_mono1)
  then have le: "off + a * 4096 + b * 4096 \<le> length (dev_data dev)"
    using assms(1) unfolding extent_fits_def by (simp only: add_mult_distrib) linarith
  then show "off + a * 4096 + write_span dev (b * 4096) \<le> length (dev_data dev)" by simp
  show "b * 4096 + 4095 < 2 ^ 64" using le assms(1) unfolding extent_fits_def by linarith
  show "4096 dvd off + a * 4096" using assms(1) by (simp add: extent_fits_def)
qed (use assms in simp)

lemma read_batches_no_fault:
  assumes fits: "extent_fits dev off n" and "idx \<le> n" and nf: "\<And>i k. \<not> dev_rfault dev i k"
  shows "read_batches X dev off plen n idx c = decode_loop X (extent_bytes dev off n) 0 plen [idx..<n] c"
  using assms(2)
proof (induction "n - idx" arbitrary: idx c rule: less_induct)
  case less
  show ?case
  proof (cases "idx < n")
    case False
    then show ?thesis by (subst read_batches.simps) simp
  next
    case True
    define e where "e = min (idx + 256) n"
    have e: "idx < e" "e \<le> n" using True by (auto simp: e_def)
    have pos: "uadd off (umul idx 4096) = off + idx * 4096"
      using fits True by (intro extent_pos) auto
    define raw where "raw = slice (dev_data dev) (off + idx * 4096) (off + idx * 4096 + (e - idx) * 4096)"
    have "pread dev (off + idx * 4096) ((e - idx) * 4096) = Inr raw"
      unfolding raw_def using e by (intro pread_batch_ok [OF fits _ nf]) simp
    then have step: "read_batches X dev off plen n idx c =
        bind_res (decode_loop X raw idx plen [0..<e - idx] c) (read_batches X dev off plen n e)"
      using True pos by (subst read_batches.simps) (simp add: Let_def e_def)
    have "decode_loop X raw idx plen [0..<e - idx] c =
        decode_loop X (extent_bytes dev off n) 0 plen [idx..<e] c"
      using decode_loop_shift [of "e - idx" raw "extent_bytes dev off n" idx X 0 plen 0 c]
        nth_block_batch [of _ "e - idx" idx n "dev_data dev" off] e by (simp add: raw_def)
    moreover have "[idx..<n] = [idx..<e] @ [e..<n]"
      using e upt_add_eq_append [of idx e "n - e"] by simp
    moreover have "read_batches X dev off plen n e c' = decode_loop X (extent_bytes dev off n) 0 plen [e..<n] c'" for c'
      using less.hyps [of e c'] less.prems e by simp
    ultimately show ?thesis
      using step by (cases "decode_loop X (extent_bytes dev off n) 0 plen [idx..<e] c")
          (auto simp: decode_loop_append)
  qed
qed

lemma read_and_decode_no_fault:
  assumes "extent_fits dev off (num_blocks plen)" and "\<And>i k. \<not> dev_rfault dev i k"
  shows "read_and_decode_batched X dev off plen = decode_blocks X (extent_bytes dev off (num_blocks plen)) plen"
  using read_batches_no_fault [OF assms(1) _ assms(2), of 0 X plen "[]"]
  by (simp add: read_and_decode_batched_def decode_blocks_extent [OF assms(1)])


section \<open>Round trips\<close>

lemma concat_block_data:
  "a \<le> b \<Longrightarrow> concat (map (block_data p) [a..<b]) = slice (zpad p) (a * 4092) (b * 4092)"
proof (induction b)
  case (Suc b)
  show ?case
  proof (cases "a \<le> b")
    case True
    then have "slice (zpad p) (a * 4092) (b * 4092) @ block_data p b = slice (zpad p) (a * 4092) (Suc b * 4092)"
      by (simp add: block_data_def slice_split)
    with True Suc.IH show ?thesis by simp
  qed (use Suc.prems in simp)
qed simp

lemma decode_encode_blocks: "decode_blocks X (encode_blocks X p) (length p) = Inr p"
proof -
  let ?n = "num_blocks (length p)" and ?raw = "encode_blocks X p"
  have blk: "nth_block ?raw i = enc_block X (block_data p i)" if "i < ?n" for i
    using nth_block_enc_blocks [of 0 i ?n p X] that by (simp add: encode_blocks_eq)
  have "map (\<lambda>i. drop 4 (nth_block ?raw i)) [0..<?n] = map (block_data p) [0..<?n]"
    using blk by auto
  then have "concat (map (\<lambda>i. drop 4 (nth_block ?raw i)) [0..<?n]) = slice (zpad p) (0 * 4092) (?n * 4092)"
    by (simp only: concat_block_data le0)
  also have "\<dots> = zpad p" by (simp add: slice_def)
  finally have c: "concat (map (\<lambda>i. drop 4 (nth_block ?raw i)) [0..<?n]) = zpad p" .
  have b: "\<forall>i\<in>set [0..<?n]. (i + 1) * 4096 \<le> length ?raw"
    unfolding length_encode_blocks by (intro ballI mult_le_mono1) simp
  have "\<forall>i\<in>set [0..<?n]. block_ok X (nth_block ?raw i)" using blk by simp
  then have "decode_loop X ?raw 0 (length p) [0..<?n] [] = Inr p"
    using decode_loop_Inr_iff [OF b, of "[]" "length p" X 0 p] unfolding c by simp
  then show ?thesis by (simp add: decode_blocks_def length_encode_blocks)
qed

text \<open>
  Reading back a written extent returns the payload: with faults, a read that returns at all
  returns the payload.
\<close>

lemma stored_read_Inr:
  assumes "extent_fits dev off (num_blocks (length p))"
    and "extent_bytes dev off (num_blocks (length p)) = encode_blocks X p"
    and "read_and_decode_batched X dev off (length p) = Inr r"
  shows "r = p"
  using read_and_decode_Inr [OF assms(1,3)] assms(2) decode_encode_blocks [of X p] by simp

lemma stored_read_ok:
  assumes "extent_fits dev off (num_blocks (length p))"
    and "extent_bytes dev off (num_blocks (length p)) = encode_blocks X p"
    and "\<And>i k. \<not> dev_rfault dev i k"
  shows "read_and_decode_batched X dev off (length p) = Inr p"
  using read_and_decode_no_fault [OF assms(1,3), where X = X] assms(2) decode_encode_blocks [of X p] by simp

lemma encode_and_write_stored:
  assumes fits: "extent_fits dev off (num_blocks (length p))"
    and run: "encode_and_write_batched X dev off p = (Inr (), dev')"
  shows "extent_fits dev' off (num_blocks (length p))"
    and "extent_bytes dev' off (num_blocks (length p)) = encode_blocks X p"
proof -
  have fr: "dev_frame dev dev' off (off + num_blocks (length p) * 4096)"
    using encode_and_write_frame [OF fits, of X] run by simp
  then show "extent_fits dev' off (num_blocks (length p))"
    using fits by (simp add: extent_fits_def dev_frame_length)
  have "dev_data dev' = write_at (dev_data dev) off (encode_blocks X p)"
    using encode_and_write_data [OF fits, of X] run by simp
  then show "extent_bytes dev' off (num_blocks (length p)) = encode_blocks X p"
    using slice_write_at_same [of off "encode_blocks X p" "dev_data dev"] fits
    by (simp add: length_encode_blocks extent_fits_def)
qed

text \<open>Range reads.\<close>

lemma range_piece_block:
  assumes "i < num_blocks (length p)"
  shows "range_piece i a b (block_data p i) = slice (zpad p) (max a (i * 4092)) (min b ((i + 1) * 4092))"
proof (cases "max a (i * 4092) < min b (i * 4092 + 4092)")
  case True
  then have "slice (block_data p i) (max a (i * 4092) - i * 4092) (min b (i * 4092 + 4092) - i * 4092) =
      slice (zpad p) (max a (i * 4092)) (min b (i * 4092 + 4092))"
    unfolding block_data_def by (subst slice_slice) auto
  with True show ?thesis by (simp add: range_piece_def Let_def add.commute)
next
  case False
  then show ?thesis by (auto simp: range_piece_def Let_def add.commute)
qed

lemma decode_range_loop_ok:
  assumes "\<forall>i\<in>set is. block_ok X (nth_block raw i)"
  shows "decode_range_loop X raw f a b is acc =
    Inr (acc @ concat (map (\<lambda>i. range_piece (f + i) a b (drop 4 (nth_block raw i))) is))"
  using assms
proof (induction "is" arbitrary: acc)
  case (Cons i js)
  then have "verify_block_crc X (nth_block raw i) (f + i) = Inr (drop 4 (nth_block raw i))"
    by (simp add: verify_block_crc_Inr)
  with Cons show ?case by simp
qed simp

lemma concat_range_pieces:
  assumes "f * 4092 \<le> a" and "a \<le> b" and "f + k \<le> num_blocks (length p)"
  shows "concat (map (\<lambda>i. range_piece (f + i) a b (block_data p (f + i))) [0..<k]) =
    slice (zpad p) a (min b ((f + k) * 4092))"
  using assms
proof (induction k)
  case 0
  then show ?case by (simp add: min_def)
next
  case (Suc k)
  let ?m = "(f + k) * 4092"
  have piece: "range_piece (f + k) a b (block_data p (f + k)) =
      slice (zpad p) (max a ?m) (min b (?m + 4092))"
    using range_piece_block [of "f + k" p a b] Suc.prems by (simp add: add.commute)
  have IH: "concat (map (\<lambda>i. range_piece (f + i) a b (block_data p (f + i))) [0..<k]) =
      slice (zpad p) a (min b ?m)"
    using Suc by simp
  have "slice (zpad p) a (min b ?m) @ slice (zpad p) (max a ?m) (min b (?m + 4092)) =
      slice (zpad p) a (min b (?m + 4092))"
  proof (cases "?m \<le> a \<or> b \<le> ?m")
    case True
    then show ?thesis using Suc.prems(2) by (auto simp: max_def min_def)
  next
    case False
    then have "slice (zpad p) a ?m @ slice (zpad p) ?m (min b (?m + 4092)) =
        slice (zpad p) a (min b (?m + 4092))"
      by (intro slice_split) auto
    with False show ?thesis by (simp add: max_def min_def)
  qed
  with IH piece show ?case by (simp add: add.commute)
qed

lemma decode_block_range_encoded:
  assumes "f * 4092 \<le> a" and "a \<le> b" and "b \<le> length p" and "b \<le> (f + k) * 4092"
    and n: "f + k \<le> num_blocks (length p)"
  shows "decode_block_range X (enc_blocks X p f (f + k)) f a b = Inr (slice p a b)"
proof -
  let ?raw = "enc_blocks X p f (f + k)"
  have len: "length ?raw div 4096 = k" using n by (simp add: length_enc_blocks)
  have blk: "nth_block ?raw i = enc_block X (block_data p (f + i))" if "i < k" for i
    using nth_block_enc_blocks [of f i "f + k" p X] that n by simp
  have "decode_block_range X ?raw f a b =
      Inr ([] @ concat (map (\<lambda>i. range_piece (f + i) a b (drop 4 (nth_block ?raw i))) [0..<k]))"
    unfolding decode_block_range_def block_consts len using blk by (intro decode_range_loop_ok) simp
  moreover have "map (\<lambda>i. range_piece (f + i) a b (drop 4 (nth_block ?raw i))) [0..<k] =
      map (\<lambda>i. range_piece (f + i) a b (block_data p (f + i))) [0..<k]"
    using blk by auto
  moreover have "slice (zpad p) a (min b ((f + k) * 4092)) = slice p a b"
    using assms(2-4) by (simp add: zpad_def slice_def min_def)
  ultimately show ?thesis
    using concat_range_pieces [OF assms(1,2) n] by (simp only: append_Nil)
qed

lemma extent_sub_blocks:
  assumes "extent_bytes dev off (num_blocks (length p)) = encode_blocks X p"
    and "f + k \<le> num_blocks (length p)"
  shows "slice (dev_data dev) (off + f * 4096) (off + f * 4096 + k * 4096) = enc_blocks X p f (f + k)"
proof -
  let ?n = "num_blocks (length p)"
  have le: "(f + k) * 4096 \<le> ?n * 4096" using assms(2) by (rule mult_le_mono1)
  have "slice (dev_data dev) (off + f * 4096) (off + f * 4096 + k * 4096) =
      slice (extent_bytes dev off ?n) (f * 4096) ((f + k) * 4096)"
    using le by (subst slice_slice) (simp_all add: algebra_simps)
  also have "\<dots> = slice (enc_blocks X p 0 f @ enc_blocks X p f (f + k) @ enc_blocks X p (f + k) ?n)
      (f * 4096) ((f + k) * 4096)"
    using assms enc_blocks_append [of 0 f ?n X p] enc_blocks_append [of f "f + k" ?n X p]
    by (simp add: encode_blocks_eq)
  also have "\<dots> = enc_blocks X p f (f + k)"
    using assms(2) by (simp add: slice_def length_enc_blocks)
  finally show ?thesis .
qed

end
