(* ===== verification/Extent_Stream.thy ===== *)
theory Extent_Stream
  imports Extent_Codec
begin

text \<open>
  The streaming forms of the extent codec agree with the batch forms: the streaming writer issues
  the same device writes in the same order as \<open>encode_and_write_batched\<close> on the concatenation
  of its chunks, whatever the chunk boundaries and whatever write fails; the streaming reader
  yields the bytes of \<open>read_and_decode_batched\<close>; the \<open>Read\<close> adapter passes them on.
\<close>

section \<open>The streaming writer\<close>

text \<open>A writer fed a list of chunks and finished.\<close>

fun write_chunks ::
  "'x codecs_scheme \<Rightarrow> device_io \<Rightarrow> block_writer \<Rightarrow> byte list list \<Rightarrow> unit result \<times> device_io" where
  "write_chunks X dev w [] = bw_finish X dev w"
| "write_chunks X dev w (c # cs) =
     (case write_chunk X dev w c of
        (Inl e, dev', w') \<Rightarrow> (Inl e, dev')
      | (Inr _, dev', w') \<Rightarrow> write_chunks X dev' w' cs)"

abbreviation full_block :: "byte list \<Rightarrow> nat \<Rightarrow> byte list" where
  "full_block P i \<equiv> slice P (i * 4092) ((i + 1) * 4092)"

abbreviation batch_write ::
  "'x codecs_scheme \<Rightarrow> nat \<Rightarrow> byte list \<Rightarrow> nat \<Rightarrow> device_io \<Rightarrow> unit result \<times> device_io" where
  "batch_write X off T i dev \<equiv> write_batches X off T (num_blocks (length T)) i dev"

text \<open>
  The simulation: \<open>P\<close> is what was fed so far. The blocks of \<open>P\<close> that are full and not yet
  written are in the batch, the rest is in the partial block, and the batch encoder on any
  extension of \<open>P\<close> has come to the same device.
\<close>

definition writer_inv :: "'x codecs_scheme \<Rightarrow> nat \<Rightarrow> device_io \<Rightarrow> byte list \<Rightarrow> device_io \<Rightarrow> block_writer \<Rightarrow> bool" where
  "writer_inv X off dev0 P dev w \<longleftrightarrow>
     bw_extent_offset w = off \<and> length (bw_partial w) < 4092 \<and> bw_blocks_in_batch w < 256 \<and>
     length P = (bw_blocks_written w + bw_blocks_in_batch w) * 4092 + length (bw_partial w) \<and>
     bw_partial w = drop ((bw_blocks_written w + bw_blocks_in_batch w) * 4092) P \<and>
     bw_batch w = concat (map (\<lambda>i. enc_block X (full_block P i))
       [bw_blocks_written w..<bw_blocks_written w + bw_blocks_in_batch w]) \<and>
     (\<forall>rest. batch_write X off (P @ rest) 0 dev0 = batch_write X off (P @ rest) (bw_blocks_written w) dev)"

lemma full_block_append: "(i + 1) * 4092 \<le> length P \<Longrightarrow> full_block (P @ rest) i = full_block P i"
  by (simp add: slice_def)

lemma block_data_full: "(i + 1) * 4092 \<le> length P \<Longrightarrow> block_data (P @ rest) i = full_block P i"
  by (simp add: block_data_def zpad_def slice_def)

lemma concat_full_blocks:
  "b * 4092 \<le> length P \<Longrightarrow>
     concat (map (\<lambda>i. enc_block X (full_block P i)) [a..<b]) = enc_blocks X (P @ rest) a b"
proof -
  assume b: "b * 4092 \<le> length P"
  have "(i + 1) * 4092 \<le> length P" if "i < b" for i
    using mult_le_mono1 [of "i + 1" b 4092] that b by simp
  then have "map (\<lambda>i. enc_block X (full_block P i)) [a..<b] =
      map (\<lambda>i. enc_block X (block_data (P @ rest) i)) [a..<b]"
    by (auto simp: block_data_full)
  then show ?thesis by (simp only: enc_blocks_def)
qed

lemma writer_inv_new: "writer_inv X off dev [] dev (bw_new off)"
  by (simp add: writer_inv_def bw_new_def)

text \<open>Sealing a block that \<open>d\<close> fills up.\<close>

lemma seal_block_step:
  assumes inv: "writer_inv X off dev0 P dev w" and len: "length (bw_partial w) + length d = 4092"
    and run: "seal_block X dev (w\<lparr>bw_partial := bw_partial w @ d\<rparr>) = (r, dev', w')"
  shows "case r of Inl e \<Rightarrow> \<forall>rest. batch_write X off (P @ d @ rest) 0 dev0 = (Inl e, dev')
    | Inr _ \<Rightarrow> writer_inv X off dev0 (P @ d) dev' w'"
proof -
  let ?a = "bw_blocks_written w" and ?j = "bw_blocks_in_batch w"
  let ?Q = "P @ d"
  have lenP: "length P = (?a + ?j) * 4092 + length (bw_partial w)"
    and par: "bw_partial w = drop ((?a + ?j) * 4092) P"
    and bat: "bw_batch w = concat (map (\<lambda>i. enc_block X (full_block P i)) [?a..<?a + ?j])"
    and off: "bw_extent_offset w = off" and j: "?j < 256"
    and sim: "\<And>rest. batch_write X off (P @ rest) 0 dev0 = batch_write X off (P @ rest) ?a dev"
    using inv unfolding writer_inv_def by blast+
  have lenQ: "length ?Q = (?a + ?j + 1) * 4092" using lenP len by simp
  have last: "full_block ?Q (?a + ?j) = bw_partial w @ d"
    using lenP len by (simp add: slice_def par)
  have "bw_batch w = concat (map (\<lambda>i. enc_block X (full_block ?Q i)) [?a..<?a + ?j])"
  proof -
    have "full_block ?Q i = full_block P i" if "i < ?a + ?j" for i
      using mult_le_mono1 [of "i + 1" "?a + ?j" 4092] that lenP by (intro full_block_append) linarith
    then have "map (\<lambda>i. enc_block X (full_block P i)) [?a..<?a + ?j] =
        map (\<lambda>i. enc_block X (full_block ?Q i)) [?a..<?a + ?j]"
      by (intro map_cong) auto
    with bat show ?thesis by (simp only:)
  qed
  then have batQ: "bw_batch w @ u32_to_le_bytes (x_crc32c X (bw_partial w @ d)) @ bw_partial w @ d =
      concat (map (\<lambda>i. enc_block X (full_block ?Q i)) [?a..<Suc (?a + ?j)])"
    using last by (simp add: enc_block_def)
  define w1 where "w1 = w\<lparr>bw_batch := bw_batch w @ u32_to_le_bytes (x_crc32c X (bw_partial w @ d)) @
    bw_partial w @ d, bw_partial := [], bw_blocks_in_batch := Suc ?j\<rparr>"
  have wb: "bw_batch w1 = concat (map (\<lambda>i. enc_block X (full_block ?Q i)) [?a..<?a + Suc ?j])"
    using batQ by (simp add: w1_def)
  have w1 [simp]: "bw_partial w1 = []" "bw_blocks_in_batch w1 = Suc ?j" "bw_blocks_written w1 = ?a"
    "bw_extent_offset w1 = off"
    by (simp_all add: w1_def off)
  have seal: "seal_block X dev (w\<lparr>bw_partial := bw_partial w @ d\<rparr>) =
      (if Suc ?j = 256 then flush_batch dev w1 else (Inr (), dev, w1))"
    by (simp add: seal_block_def Let_def w1_def)
  show ?thesis
  proof (cases "Suc ?j = 256")
    case False
    have simQ: "batch_write X off (?Q @ rest) 0 dev0 = batch_write X off (?Q @ rest) ?a dev" for rest
      using sim [of "d @ rest"] by simp
    have "writer_inv X off dev0 ?Q dev w1"
      unfolding writer_inv_def wb using lenQ j False simQ by simp
    with run seal False show ?thesis by auto
  next
    case True
    have step: "batch_write X off (?Q @ rest) ?a dev =
        (case pwrite dev (uadd off (umul ?a 4096)) (bw_batch w1) of
           (Inl e, dev') \<Rightarrow> (Inl e, dev')
         | (Inr _, dev') \<Rightarrow> batch_write X off (?Q @ rest) (?a + 256) dev')" for rest
    proof -
      let ?n = "num_blocks (length (?Q @ rest))"
      have "?a + 255 < ?n" using lenQ True by (simp add: less_num_blocks_iff)
      then have "?a < ?n" and m: "min (?a + 256) ?n = ?a + 256" by auto
      moreover have "bw_batch w1 = enc_blocks X (?Q @ rest) ?a (?a + 256)"
        using concat_full_blocks [of "?a + 256" ?Q X ?a rest] lenQ True unfolding wb by simp
      ultimately show ?thesis using write_batches_step [of ?a "?Q @ rest" X off dev] by (simp only:)
    qed
    obtain rw dv where pw: "pwrite dev (uadd off (umul ?a 4096)) (bw_batch w1) = (rw, dv)" by fastforce
    have fl: "flush_batch dev w1 = (case rw of Inl e \<Rightarrow> (Inl e, dv, w1)
        | Inr _ \<Rightarrow> (Inr (), dv, w1\<lparr>bw_blocks_written := ?a + 256, bw_batch := [], bw_blocks_in_batch := 0\<rparr>))"
      using pw True by (simp add: flush_batch_def split: sum.splits)
    have sim0: "batch_write X off (?Q @ rest) 0 dev0 = batch_write X off (?Q @ rest) ?a dev" for rest
      using sim [of "d @ rest"] by simp
    show ?thesis
    proof (cases rw)
      case (Inl e)
      then show ?thesis using run seal True fl step sim0 pw by auto
    next
      case (Inr u)
      have "(?a + 256) * 4092 = length ?Q" using lenQ True by simp
      then have "writer_inv X off dev0 ?Q dv
          (w1\<lparr>bw_blocks_written := ?a + 256, bw_batch := [], bw_blocks_in_batch := 0\<rparr>)"
        unfolding writer_inv_def using step sim0 pw Inr by simp
      then show ?thesis using run seal True fl Inr by auto
    qed
  qed
qed

lemma writer_inv_grow:
  assumes inv: "writer_inv X off dev0 P dev w" and len: "length (bw_partial w) + length d < 4092"
  shows "writer_inv X off dev0 (P @ d) dev (w\<lparr>bw_partial := bw_partial w @ d\<rparr>)"
proof -
  let ?a = "bw_blocks_written w" and ?j = "bw_blocks_in_batch w"
  have lenP: "length P = (?a + ?j) * 4092 + length (bw_partial w)"
    and par: "bw_partial w = drop ((?a + ?j) * 4092) P"
    and bat: "bw_batch w = concat (map (\<lambda>i. enc_block X (full_block P i)) [?a..<?a + ?j])"
    and off: "bw_extent_offset w = off" and j: "?j < 256"
    and sim: "\<And>rest. batch_write X off (P @ rest) 0 dev0 = batch_write X off (P @ rest) ?a dev"
    using inv unfolding writer_inv_def by blast+
  have "full_block (P @ d) i = full_block P i" if "i < ?a + ?j" for i
    using mult_le_mono1 [of "i + 1" "?a + ?j" 4092] that lenP by (intro full_block_append) linarith
  then have "map (\<lambda>i. enc_block X (full_block P i)) [?a..<?a + ?j] =
      map (\<lambda>i. enc_block X (full_block (P @ d) i)) [?a..<?a + ?j]"
    by (intro map_cong) auto
  with bat have "bw_batch w = concat (map (\<lambda>i. enc_block X (full_block (P @ d) i)) [?a..<?a + ?j])"
    by (simp only:)
  moreover have "drop ((?a + ?j) * 4092) (P @ d) = bw_partial w @ d"
    using lenP par [symmetric] by simp
  moreover have "batch_write X off ((P @ d) @ rest) 0 dev0 = batch_write X off ((P @ d) @ rest) ?a dev" for rest
    using sim [of "d @ rest"] by (simp only: append_assoc)
  ultimately show ?thesis
    using len lenP off j unfolding writer_inv_def by simp
qed

lemma write_chunk_step:
  assumes "writer_inv X off dev0 P dev w" and "write_chunk X dev w bs = (r, dev', w')"
  shows "case r of Inl e \<Rightarrow> \<forall>rest. batch_write X off (P @ bs @ rest) 0 dev0 = (Inl e, dev')
    | Inr _ \<Rightarrow> writer_inv X off dev0 (P @ bs) dev' w'"
  using assms
proof (induction "length bs" arbitrary: P dev w bs rule: less_induct)
  case less
  show ?case
  proof (cases "bs = []")
    case True
    moreover have "write_chunk X dev w [] = (Inr (), dev, w)" by (subst write_chunk.simps) simp
    ultimately have "(r, dev', w') = (Inr (), dev, w)" using less.prems(2) by simp
    then show ?thesis using True less.prems(1) by simp
  next
    case False
    define n where "n = min (length bs) (4092 - length (bw_partial w))"
    define w1 where "w1 = w\<lparr>bw_partial := bw_partial w @ take n bs\<rparr>"
    have part: "length (bw_partial w) < 4092" using less.prems(1) unfolding writer_inv_def by blast
    have n: "0 < n" "n \<le> length bs" using False part by (auto simp: n_def)
    have cat: "(P @ take n bs) @ drop n bs @ rest = P @ bs @ rest" "(P @ take n bs) @ drop n bs = P @ bs"
      "P @ take n bs @ drop n bs @ rest = P @ bs @ rest" for rest
      by (metis append.assoc append_take_drop_id)+
    note hyp = less.hyps [of "drop n bs" "P @ take n bs", unfolded cat]
    have run: "write_chunk X dev w bs =
        (if length (bw_partial w) + n = 4092
         then (case seal_block X dev w1 of (Inl e, dev', w') \<Rightarrow> (Inl e, dev', w')
               | (Inr _, dev', w') \<Rightarrow> write_chunk X dev' w' (drop n bs))
         else write_chunk X dev w1 (drop n bs))"
      using False part n by (subst write_chunk.simps) (simp add: Let_def w1_def flip: n_def split: prod.split sum.split)
    show ?thesis
    proof (cases "length (bw_partial w) + n = 4092")
      case False
      then have "length (bw_partial w) + length (take n bs) < 4092" using n part by (auto simp: n_def)
      then have "writer_inv X off dev0 (P @ take n bs) dev w1"
        unfolding w1_def using less.prems(1) by (intro writer_inv_grow)
      then show ?thesis
        using hyp [of dev w1] n less.prems(2) run False by simp
    next
      case True
      obtain rs dv wv where seal: "seal_block X dev w1 = (rs, dv, wv)" by (metis prod_cases3)
      have st: "case rs of Inl e \<Rightarrow> \<forall>rest. batch_write X off (P @ take n bs @ rest) 0 dev0 = (Inl e, dv)
          | Inr _ \<Rightarrow> writer_inv X off dev0 (P @ take n bs) dv wv"
        using seal_block_step [OF less.prems(1), of "take n bs"] seal True n by (simp add: w1_def)
      show ?thesis
      proof (cases rs)
        case (Inl e)
        have "batch_write X off (P @ bs @ rest) 0 dev0 = (Inl e, dv)" for rest
          using st [unfolded Inl sum.case, rule_format, of "drop n bs @ rest"] unfolding cat .
        then show ?thesis using less.prems(2) run True seal Inl by auto
      next
        case (Inr u)
        then show ?thesis
          using hyp [of dv wv] n st less.prems(2) run True seal by simp
      qed
    qed
  qed
qed

lemma flush_rest_step:
  assumes j: "0 < j" and n: "num_blocks (length P) = a + j" and le: "j \<le> 256"
    and w: "bw_blocks_written w = a" "bw_blocks_in_batch w = j" "bw_extent_offset w = off"
      "bw_batch w = enc_blocks X P a (a + j)"
  shows "(case flush_batch dev w of (r, dev', _) \<Rightarrow> (r, dev')) = batch_write X off P a dev"
proof -
  have "a < num_blocks (length P)" and m: "min (a + 256) (num_blocks (length P)) = a + j"
    using j n le by auto
  then show ?thesis
    using write_batches_step [of a P X off dev] n
    by (auto simp: flush_batch_def w write_batches_done split: prod.splits sum.splits)
qed

lemma bw_finish_step:
  assumes inv: "writer_inv X off dev0 P dev w"
  shows "bw_finish X dev w = batch_write X off P 0 dev0"
proof -
  let ?a = "bw_blocks_written w" and ?j = "bw_blocks_in_batch w"
  have lenP: "length P = (?a + ?j) * 4092 + length (bw_partial w)"
    and bat: "bw_batch w = concat (map (\<lambda>i. enc_block X (full_block P i)) [?a..<?a + ?j])"
    and off: "bw_extent_offset w = off" and j: "?j < 256" and part: "length (bw_partial w) < 4092"
    and sim: "\<And>rest. batch_write X off (P @ rest) 0 dev0 = batch_write X off (P @ rest) ?a dev"
    using inv unfolding writer_inv_def by blast+
  have par: "bw_partial w = drop ((?a + ?j) * 4092) P" using inv unfolding writer_inv_def by blast
  have sim0: "batch_write X off P 0 dev0 = batch_write X off P ?a dev" using sim [of "[]"] by simp
  have bat': "bw_batch w = enc_blocks X P ?a (?a + ?j)"
    using concat_full_blocks [of "?a + ?j" P X ?a "[]"] lenP bat by simp
  show ?thesis
  proof (cases "bw_partial w = []")
    case True
    have n: "num_blocks (length P) = ?a + ?j"
      using lenP True num_blocks_le_iff [of "length P" "?a + ?j"] less_num_blocks_iff [of "?a + ?j - 1" "length P"]
      by (cases "?a + ?j") auto
    show ?thesis
    proof (cases "?j = 0")
      case True
      then show ?thesis using \<open>bw_partial w = []\<close> n sim0 by (simp add: bw_finish_def write_batches_done)
    next
      case False
      then show ?thesis
        using \<open>bw_partial w = []\<close> sim0 j flush_rest_step [of ?j P ?a w off X dev] n bat' off
        by (simp add: bw_finish_def)
    qed
  next
    case False
    let ?z = "replicate (4092 - length (bw_partial w)) 0 :: byte list"
    have pos: "0 < length (bw_partial w)" using False by simp
    have n: "num_blocks (length P) = ?a + Suc ?j"
    proof (rule antisym)
      show "num_blocks (length P) \<le> ?a + Suc ?j" using lenP part by (simp add: num_blocks_le_iff)
      have "?a + ?j < num_blocks (length P)" using lenP pos by (simp add: less_num_blocks_iff)
      then show "?a + Suc ?j \<le> num_blocks (length P)" by simp
    qed
    have last: "block_data P (?a + ?j) = bw_partial w @ ?z"
      using block_data_eq(1) [of "?a + ?j" P] n lenP part par [symmetric]
      by (simp add: slice_def min_def split: if_splits)
    define w1 where "w1 = w\<lparr>bw_batch := bw_batch w @ u32_to_le_bytes (x_crc32c X (bw_partial w @ ?z)) @
      bw_partial w @ ?z, bw_partial := [], bw_blocks_in_batch := Suc ?j\<rparr>"
    have wb: "bw_batch w1 = enc_blocks X P ?a (?a + Suc ?j)"
      using bat' last by (simp add: w1_def enc_blocks_Suc enc_block_def)
    have seal: "seal_block X dev (w\<lparr>bw_partial := bw_partial w @ ?z\<rparr>) =
        (if Suc ?j = 256 then flush_batch dev w1 else (Inr (), dev, w1))"
      by (simp add: seal_block_def Let_def w1_def)
    have fl: "(case flush_batch dev w1 of (r, dev', _) \<Rightarrow> (r, dev')) = batch_write X off P ?a dev"
      using n j off wb by (intro flush_rest_step [of "Suc ?j"]) (simp_all add: w1_def)
    have "bw_blocks_in_batch w'' = 0" if "flush_batch dev w1 = (Inr u, dv, w'')" for u dv w''
      using that by (auto simp: flush_batch_def Let_def split: prod.splits sum.splits)
    then show ?thesis
      using False seal fl sim0
      by (auto simp: bw_finish_def Let_def w1_def split: prod.splits sum.splits if_splits)
  qed
qed

lemma write_chunks_eq_batched:
  assumes "writer_inv X off dev0 P dev w"
  shows "write_chunks X dev w cs = batch_write X off (P @ concat cs) 0 dev0"
  using assms
proof (induction cs arbitrary: P dev w)
  case Nil
  then show ?case by (simp add: bw_finish_step)
next
  case (Cons c cs)
  obtain r dv wv where run: "write_chunk X dev w c = (r, dv, wv)" by (metis prod_cases3)
  show ?case
    using write_chunk_step [OF Cons.prems run] Cons.IH [of "P @ c" dv wv] run
    by (cases r) auto
qed

text \<open>Where a writer that has room for \<open>N\<close> blocks may write.\<close>

definition writer_room :: "nat \<Rightarrow> nat \<Rightarrow> nat \<Rightarrow> block_writer \<Rightarrow> bool" where
  "writer_room off N m w \<longleftrightarrow>
     bw_extent_offset w = off \<and> length (bw_batch w) = bw_blocks_in_batch w * 4096 \<and>
     (bw_blocks_written w + bw_blocks_in_batch w) * 4092 + length (bw_partial w) + m \<le> N * 4092"

lemma flush_batch_frame:
  assumes fits: "extent_fits dev off N" and room: "writer_room off N m w"
    and run: "flush_batch dev w = (r, dev', w')"
  shows "dev_frame dev dev' off (off + N * 4096)" and "r = Inr () \<Longrightarrow> writer_room off N m w'"
proof -
  let ?a = "bw_blocks_written w" and ?j = "bw_blocks_in_batch w"
  have off: "bw_extent_offset w = off" and lb: "length (bw_batch w) = ?j * 4096"
    and n: "(?a + ?j) * 4092 + length (bw_partial w) + m \<le> N * 4092"
    using room by (auto simp: writer_room_def)
  have aj: "?a + ?j \<le> N" using n by simp
  have le: "(?a + ?j) * 4096 \<le> N * 4096" using aj by (rule mult_le_mono1)
  have pos: "uadd off (umul ?a 4096) = off + ?a * 4096" using fits aj by (intro extent_pos) auto
  have f1: "off + ?a * 4096 + write_span dev (length (bw_batch w)) \<le> length (dev_data dev)"
    using fits le by (simp add: lb extent_fits_def)
  have f2: "length (bw_batch w) + 4095 < 2 ^ 64"
    using f1 fits unfolding lb extent_fits_def by simp
  have fr: "dev_frame dev (snd (pwrite dev (off + ?a * 4096) (bw_batch w))) (off + ?a * 4096) (off + ?a * 4096 + ?j * 4096)"
    using pwrite_frame [OF f1 f2] by (simp add: lb)
  have "dev' = snd (pwrite dev (off + ?a * 4096) (bw_batch w))"
    using run by (auto simp: flush_batch_def off pos split: prod.splits sum.splits)
  then show "dev_frame dev dev' off (off + N * 4096)"
    using dev_frame_weaken [OF fr, of off "off + N * 4096"] le by simp
  show "writer_room off N m w'" if "r = Inr ()"
    using run that n off by (auto simp: flush_batch_def writer_room_def split: prod.splits sum.splits)
qed

lemma seal_block_frame:
  assumes fits: "extent_fits dev off N" and room: "writer_room off N m w" and p: "length (bw_partial w) = 4092"
    and run: "seal_block X dev w = (r, dev', w')"
  shows "dev_frame dev dev' off (off + N * 4096)" and "r = Inr () \<Longrightarrow> writer_room off N m w'"
proof -
  define w1 where "w1 = w\<lparr>bw_batch := bw_batch w @ u32_to_le_bytes (x_crc32c X (bw_partial w)) @ bw_partial w,
    bw_partial := [], bw_blocks_in_batch := bw_blocks_in_batch w + 1\<rparr>"
  have r1: "writer_room off N m w1" using room p by (simp add: writer_room_def w1_def)
  have run1: "(if bw_blocks_in_batch w1 = 256 then flush_batch dev w1 else (Inr (), dev, w1)) = (r, dev', w')"
    using run by (auto simp: seal_block_def Let_def w1_def split: if_splits)
  show "dev_frame dev dev' off (off + N * 4096)" and "r = Inr () \<Longrightarrow> writer_room off N m w'"
    using run1 flush_batch_frame [OF fits r1] r1 by (auto split: if_splits)
qed

lemma write_chunk_frame:
  assumes "extent_fits dev off N" and "writer_room off N (length bs) w"
    and "write_chunk X dev w bs = (r, dev', w')"
  shows "dev_frame dev dev' off (off + N * 4096)"
  using assms
proof (induction "length bs" arbitrary: bs dev w rule: less_induct)
  case less
  show ?case
  proof (cases "bs = [] \<or> 4092 \<le> length (bw_partial w)")
    case True
    then show ?thesis using less.prems(3) by (subst (asm) write_chunk.simps) (auto split: if_splits)
  next
    case False
    define n where "n = min (length bs) (4092 - length (bw_partial w))"
    define w1 where "w1 = w\<lparr>bw_partial := bw_partial w @ take n bs\<rparr>"
    have n: "0 < n" "n \<le> length bs" using False by (auto simp: n_def)
    have room1: "writer_room off N (length (drop n bs)) w1"
      using less.prems(2) n by (auto simp: writer_room_def w1_def)
    have run: "write_chunk X dev w bs =
        (if length (bw_partial w) + n = 4092
         then (case seal_block X dev w1 of (Inl e, dev', w') \<Rightarrow> (Inl e, dev', w')
               | (Inr _, dev', w') \<Rightarrow> write_chunk X dev' w' (drop n bs))
         else write_chunk X dev w1 (drop n bs))"
      using False n by (subst write_chunk.simps) (simp add: Let_def w1_def flip: n_def split: prod.split sum.split)
    show ?thesis
    proof (cases "length (bw_partial w) + n = 4092")
      case False
      then show ?thesis using less.hyps [of "drop n bs" dev w1] n less.prems(1,3) room1 run by simp
    next
      case True
      obtain rs dv wv where seal: "seal_block X dev w1 = (rs, dv, wv)" by (metis prod_cases3)
      have "length (bw_partial w1) = 4092" using True n by (simp add: w1_def)
      note sf = seal_block_frame [OF less.prems(1) room1 this seal]
      have fits: "extent_fits dv off N" using less.prems(1) dev_frame_length [OF sf(1)] by (simp add: extent_fits_def)
      show ?thesis
      proof (cases rs)
        case (Inl e)
        then show ?thesis using sf(1) less.prems(3) run True seal by simp
      next
        case (Inr u)
        then have "dev_frame dv dev' off (off + N * 4096)"
          using less.hyps [of "drop n bs" dv wv] n fits sf(2) less.prems(3) run True seal by simp
        then show ?thesis using sf(1) by (rule dev_frame_trans [rotated])
      qed
    qed
  qed
qed

lemma writer_inv_room:
  assumes "writer_inv X off dev0 P dev w" and "length P + m \<le> N * 4092"
  shows "writer_room off N m w"
proof -
  let ?a = "bw_blocks_written w" and ?j = "bw_blocks_in_batch w"
  have lenP: "length P = (?a + ?j) * 4092 + length (bw_partial w)" and off: "bw_extent_offset w = off"
    and bat: "bw_batch w = concat (map (\<lambda>i. enc_block X (full_block P i)) [?a..<?a + ?j])"
    using assms(1) unfolding writer_inv_def by blast+
  have "bw_batch w = enc_blocks X P ?a (?a + ?j)"
    using concat_full_blocks [of "?a + ?j" P X ?a "[]"] lenP bat by simp
  moreover have "?a + ?j \<le> num_blocks (length P)"
  proof -
    have "(?a + ?j) * 4092 \<le> num_blocks (length P) * 4092"
      using lenP num_blocks_ge [of "length P"] by linarith
    then show ?thesis by simp
  qed
  ultimately have "length (bw_batch w) = ?j * 4096" by (simp add: length_enc_blocks)
  then show ?thesis using assms(2) lenP off by (simp add: writer_room_def)
qed

section \<open>The streaming reader\<close>

text \<open>A client that pulls chunks until the reader is exhausted.\<close>

function collect_chunks ::
  "'x codecs_scheme \<Rightarrow> device_io \<Rightarrow> block_reader \<Rightarrow> byte list \<Rightarrow> byte list result" where
  "collect_chunks X dev r acc =
     (case next_chunk X dev r of
        (Inl e, _) \<Rightarrow> Inl e
      | (Inr None, _) \<Rightarrow> Inr acc
      | (Inr (Some chunk), r') \<Rightarrow>
          (if br_total_blocks r' - br_block_idx r' < br_total_blocks r - br_block_idx r
           then collect_chunks X dev r' (acc @ chunk) else Inl Panicked))"
  by pat_completeness auto
termination
  by (relation "measure (\<lambda>(X, dev, r, acc). br_total_blocks r - br_block_idx r)") auto

declare collect_chunks.simps [simp del]

lemma chunk_loop_decode:
  assumes "br_payload_consumed r = length (acc @ chunk)" and "length (acc @ chunk) \<le> br_payload_len r"
    and "\<forall>i\<in>set is. (i + 1) * 4096 \<le> length raw"
  shows "case decode_loop X raw (br_block_idx r) (br_payload_len r) is (acc @ chunk) of
      Inl e \<Rightarrow> \<exists>r'. chunk_loop X raw is chunk r = (Inl e, r')
    | Inr out \<Rightarrow> \<exists>chunk'. out = acc @ chunk' \<and>
        chunk_loop X raw is chunk r = (Inr chunk', r\<lparr>br_payload_consumed := length out\<rparr>)"
  using assms
proof (induction "is" arbitrary: chunk r)
  case Nil
  then show ?case by simp
next
  case (Cons i js)
  show ?case
  proof (cases "verify_block_crc X (nth_block raw i) (br_block_idx r + i)")
    case (Inl e)
    then show ?thesis by simp
  next
    case (Inr d)
    then have "length d = 4092"
      using Cons.prems(3) length_nth_block [of i raw] by (auto simp: verify_block_crc_Inr)
    define m where "m = min (br_payload_len r - br_payload_consumed r) 4092"
    have m: "length (take m d) = m" using \<open>length d = 4092\<close> by (simp add: m_def)
    define r1 where "r1 = r\<lparr>br_payload_consumed := br_payload_consumed r + m\<rparr>"
    have p: "br_payload_consumed r1 = length (acc @ chunk @ take m d)"
      "length (acc @ chunk @ take m d) \<le> br_payload_len r1"
      using Cons.prems(1,2) m by (auto simp: r1_def m_def)
    have c1: "chunk_loop X raw (i # js) chunk r = chunk_loop X raw js (chunk @ take m d) r1"
      using Inr by (simp add: Let_def m_def r1_def)
    have d1: "decode_loop X raw (br_block_idx r) (br_payload_len r) (i # js) (acc @ chunk) =
        decode_loop X raw (br_block_idx r1) (br_payload_len r1) js (acc @ chunk @ take m d)"
      using Inr Cons.prems(1) by (simp add: m_def r1_def)
    have r1: "r1\<lparr>br_payload_consumed := x\<rparr> = r\<lparr>br_payload_consumed := x\<rparr>" for x
      by (simp add: r1_def)
    have "\<forall>i\<in>set js. (i + 1) * 4096 \<le> length raw" using Cons.prems(3) by simp
    from Cons.IH [OF p this] show ?thesis unfolding c1 d1 r1 .
  qed
qed

lemma next_chunk_pos:
  assumes "br_block_idx r < br_total_blocks r"
  defines "e \<equiv> min (br_block_idx r + 256) (br_total_blocks r)"
  shows "next_chunk X dev r =
    (case pread dev (uadd (br_extent_offset r) (umul (br_block_idx r) 4096)) ((e - br_block_idx r) * 4096) of
       Inl err \<Rightarrow> (Inl err, r)
     | Inr raw \<Rightarrow>
         (case chunk_loop X raw [0..<e - br_block_idx r] [] r of
            (Inl err, r') \<Rightarrow> (Inl err, r')
          | (Inr chunk, r') \<Rightarrow> (Inr (Some chunk), r'\<lparr>br_block_idx := e\<rparr>)))"
  unfolding e_def using assms(1) by (simp add: next_chunk_def Let_def)

lemma collect_chunks_eq:
  assumes "br_payload_consumed r = length acc" and "length acc \<le> br_payload_len r"
  shows "collect_chunks X dev r acc =
    read_batches X dev (br_extent_offset r) (br_payload_len r) (br_total_blocks r) (br_block_idx r) acc"
  using assms
proof (induction "br_total_blocks r - br_block_idx r" arbitrary: r acc rule: less_induct)
  case less
  let ?i = "br_block_idx r" and ?n = "br_total_blocks r"
  show ?case
  proof (cases "?i < ?n")
    case False
    then show ?thesis
      by (subst collect_chunks.simps, subst read_batches.simps) (simp add: next_chunk_def)
  next
    case True
    define e where "e = min (?i + 256) ?n"
    have e: "?i < e" "e \<le> ?n" using True by (auto simp: e_def)
    let ?pr = "pread dev (uadd (br_extent_offset r) (umul ?i 4096)) ((e - ?i) * 4096)"
    have rd: "read_batches X dev (br_extent_offset r) (br_payload_len r) ?n ?i acc =
        bind_res ?pr (\<lambda>raw. bind_res (decode_loop X raw ?i (br_payload_len r) [0..<e - ?i] acc)
          (read_batches X dev (br_extent_offset r) (br_payload_len r) ?n e))"
      using True by (subst read_batches.simps) (simp add: Let_def e_def)
    note nc = next_chunk_pos [OF True, of X dev, folded e_def]
    show ?thesis
    proof (cases ?pr)
      case (Inl err)
      then show ?thesis by (subst collect_chunks.simps) (simp add: nc rd)
    next
      case (Inr raw)
      then have "length raw = (e - ?i) * 4096" by (rule pread_Inr)
      then have b: "\<forall>i\<in>set [0..<e - ?i]. (i + 1) * 4096 \<le> length raw"
        by (auto intro!: mult_le_mono1 simp del: add_mult_distrib add_mult_distrib2 mult_Suc)
      note cl = chunk_loop_decode [of r acc "[]" "[0..<e - ?i]" raw X, simplified append_Nil2, OF less.prems b]
      show ?thesis
      proof (cases "decode_loop X raw ?i (br_payload_len r) [0..<e - ?i] acc")
        case (Inl err)
        with cl obtain r' where "chunk_loop X raw [0..<e - ?i] [] r = (Inl err, r')" by auto
        then show ?thesis using Inl \<open>?pr = Inr raw\<close> by (subst collect_chunks.simps) (simp add: nc rd)
      next
        case (Inr out)
        with cl obtain ch where out: "out = acc @ ch"
          and run: "chunk_loop X raw [0..<e - ?i] [] r = (Inr ch, r\<lparr>br_payload_consumed := length out\<rparr>)"
          by auto
        define r1 where "r1 = r\<lparr>br_payload_consumed := length out, br_block_idx := e\<rparr>"
        have "length out \<le> br_payload_len r"
          using Inr decode_loop_Inr_iff [OF b less.prems(2), of X ?i out] less.prems(2) by auto
        then have "collect_chunks X dev r1 out =
            read_batches X dev (br_extent_offset r) (br_payload_len r) ?n e out"
          using less.hyps [of r1 out] e True by (simp add: r1_def)
        moreover have "next_chunk X dev r = (Inr (Some ch), r1)"
          using \<open>?pr = Inr raw\<close> run by (simp add: nc r1_def)
        moreover have "?n - e < ?n - ?i" using e by linarith
        ultimately show ?thesis
          using Inr \<open>?pr = Inr raw\<close> out by (subst collect_chunks.simps) (simp add: rd r1_def)
      qed
    qed
  qed
qed

lemma collect_chunks_new:
  "collect_chunks X dev (br_new off sz) [] = read_and_decode_batched X dev off sz"
  using collect_chunks_eq [of "br_new off sz" "[]" X dev]
  by (simp add: br_new_def read_and_decode_batched_def)

section \<open>The Read adapter\<close>

text \<open>
  What is left to read: the rest of the buffered chunk and what the reader still yields. A read
  into a non-empty buffer returns a prefix of it and leaves the rest; it returns nothing only
  when nothing is left.
\<close>

definition bio_rest :: "'x codecs_scheme \<Rightarrow> device_io \<Rightarrow> block_reader_io \<Rightarrow> byte list result" where
  "bio_rest X dev b =
     bind_res (collect_chunks X dev (bio_reader b) []) (\<lambda>t. Inr (drop (bio_pos b) (bio_buf b) @ t))"

lemma collect_chunks_acc:
  "collect_chunks X dev r acc = bind_res (collect_chunks X dev r []) (\<lambda>t. Inr (acc @ t))"
proof (induction "br_total_blocks r - br_block_idx r" arbitrary: r acc rule: less_induct)
  case less
  show ?case
  proof (cases "\<exists>ch r'. next_chunk X dev r = (Inr (Some ch), r') \<and>
      br_total_blocks r' - br_block_idx r' < br_total_blocks r - br_block_idx r")
    case True
    then obtain ch r' where run: "next_chunk X dev r = (Inr (Some ch), r')"
      and lt: "br_total_blocks r' - br_block_idx r' < br_total_blocks r - br_block_idx r" by blast
    have "collect_chunks X dev r a = collect_chunks X dev r' (a @ ch)" for a
      using run lt by (subst collect_chunks.simps) simp
    then show ?thesis
      using less [OF lt, of "acc @ ch"] less [OF lt, of "ch"]
      by (cases "collect_chunks X dev r' []") simp_all
  next
    case False
    then show ?thesis
      by (subst (1 2) collect_chunks.simps) (auto split: prod.splits sum.splits option.splits)
  qed
qed

lemma next_chunk_progress:
  assumes "next_chunk X dev r = (Inr (Some ch), r')"
  shows "br_total_blocks r' - br_block_idx r' < br_total_blocks r - br_block_idx r"
proof -
  have lp: "br_total_blocks r2 = br_total_blocks r1 \<and> br_block_idx r2 = br_block_idx r1"
    if "chunk_loop X raw is c r1 = (res, r2)" for raw "is" c r1 res r2
    using that by (induction "is" arbitrary: c r1) (auto simp: Let_def split: sum.splits)
  show ?thesis
    using assms by (auto simp: next_chunk_def Let_def split: if_splits sum.splits prod.splits dest!: lp)
qed

lemma bio_drain_rest:
  "bio_drain len b = (bs, b') \<Longrightarrow>
     drop (bio_pos b) (bio_buf b) = bs @ drop (bio_pos b') (bio_buf b') \<and>
     bio_reader b' = bio_reader b \<and> bio_err b' = bio_err b"
proof -
  assume *: "bio_drain len b = (bs, b')"
  define n where "n = min (length (bio_buf b) - bio_pos b) len"
  have "bs = take n (drop (bio_pos b) (bio_buf b))" "b' = b\<lparr>bio_pos := bio_pos b + n\<rparr>"
    using * by (auto simp: bio_drain_def Let_def slice_def n_def)
  then show ?thesis by (simp add: add.commute flip: drop_drop)
qed

text \<open>The reader's progress: after \<open>i\<close> blocks, \<open>min (4092 i) len\<close> payload bytes are consumed.\<close>

definition reader_ok :: "block_reader \<Rightarrow> bool" where
  "reader_ok r \<longleftrightarrow> br_total_blocks r = num_blocks (br_payload_len r) \<and>
     br_block_idx r \<le> br_total_blocks r \<and>
     br_payload_consumed r = min (br_block_idx r * 4092) (br_payload_len r)"

lemma chunk_loop_consumed:
  assumes "chunk_loop X raw is c r = (Inr c', r')" and "br_payload_consumed r \<le> br_payload_len r"
    and "\<forall>i\<in>set is. (i + 1) * 4096 \<le> length raw"
  shows "r' = r\<lparr>br_payload_consumed := min (br_payload_consumed r + length is * 4092) (br_payload_len r)\<rparr> \<and>
    length c' + br_payload_consumed r = length c + br_payload_consumed r'"
  using assms
proof (induction "is" arbitrary: c r)
  case Nil
  then show ?case by simp
next
  case (Cons i js)
  obtain d where v: "verify_block_crc X (nth_block raw i) (br_block_idx r + i) = Inr d"
    using Cons.prems(1) by (cases "verify_block_crc X (nth_block raw i) (br_block_idx r + i)") auto
  then have d: "length d = 4092"
    using Cons.prems(3) length_nth_block [of i raw] by (auto simp: verify_block_crc_Inr)
  define m where "m = min (br_payload_len r - br_payload_consumed r) 4092"
  define r1 where "r1 = r\<lparr>br_payload_consumed := br_payload_consumed r + m\<rparr>"
  have "chunk_loop X raw js (c @ take m d) r1 = (Inr c', r')"
    using Cons.prems(1) v by (simp add: Let_def m_def r1_def)
  then have "r' = r1\<lparr>br_payload_consumed := min (br_payload_consumed r1 + length js * 4092) (br_payload_len r1)\<rparr>
      \<and> length c' + br_payload_consumed r1 = length (c @ take m d) + br_payload_consumed r'"
    using Cons.prems by (intro Cons.IH) (auto simp: r1_def m_def)
  moreover have "min (br_payload_consumed r + m + length js * 4092) (br_payload_len r) =
      min (br_payload_consumed r + length (i # js) * 4092) (br_payload_len r)"
    using Cons.prems(2) unfolding m_def min_def list.size add_mult_distrib
    by (simp split: if_split) linarith
  ultimately show ?case using d by (simp add: r1_def m_def)
qed

lemma next_chunk_Some:
  assumes ok: "reader_ok r" and run: "next_chunk X dev r = (Inr (Some ch), r')"
  shows "reader_ok r'" and "ch \<noteq> []"
proof -
  let ?i = "br_block_idx r" and ?n = "br_total_blocks r"
  have lt: "?i < ?n" using run by (auto simp: next_chunk_def split: if_splits)
  define e where "e = min (?i + 256) ?n"
  have e: "?i < e" "e \<le> ?n" using lt by (auto simp: e_def)
  obtain raw r1 where rd: "pread dev (uadd (br_extent_offset r) (umul ?i 4096)) ((e - ?i) * 4096) = Inr raw"
    and cl: "chunk_loop X raw [0..<e - ?i] [] r = (Inr ch, r1)" and r': "r' = r1\<lparr>br_block_idx := e\<rparr>"
    using run unfolding next_chunk_pos [OF lt, of X dev, folded e_def]
    by (auto split: sum.splits prod.splits)
  have "length raw = (e - ?i) * 4096" using rd by (rule pread_Inr)
  then have b: "\<forall>i\<in>set [0..<e - ?i]. (i + 1) * 4096 \<le> length raw"
    by (auto intro!: mult_le_mono1 simp del: add_mult_distrib add_mult_distrib2 mult_Suc)
  have le: "br_payload_consumed r \<le> br_payload_len r" using ok by (simp add: reader_ok_def)
  note cc = chunk_loop_consumed [OF cl le b]
  have "?i * 4092 < br_payload_len r" using lt ok by (simp add: reader_ok_def less_num_blocks_iff)
  then have "br_payload_consumed r = ?i * 4092" using ok by (simp add: reader_ok_def)
  moreover have "(e - ?i) * 4092 + ?i * 4092 = e * 4092" using e by (simp add: diff_mult_distrib)
  ultimately have c': "br_payload_consumed r1 = min (e * 4092) (br_payload_len r)"
    using cc by (simp add: add.commute)
  show "reader_ok r'" using ok cc e c' by (auto simp: reader_ok_def r')
  have "br_payload_consumed r < br_payload_consumed r1"
    using c' \<open>br_payload_consumed r = ?i * 4092\<close> \<open>?i * 4092 < br_payload_len r\<close> e by simp
  with cc show "ch \<noteq> []" by auto
qed

lemma next_chunk_None: "next_chunk X dev r = (Inr None, r') \<Longrightarrow> r' = r \<and> collect_chunks X dev r [] = Inr []"
  by (subst collect_chunks.simps)
    (auto simp: next_chunk_def Let_def split: if_splits sum.splits prod.splits)

lemma bio_drain_pos:
  "bio_drain len b = (bs, b') \<Longrightarrow> bio_pos b < length (bio_buf b) \<Longrightarrow> 0 < len \<Longrightarrow> bs \<noteq> [] \<and> length bs \<le> len"
  by (auto simp: bio_drain_def Let_def slice_def)

lemma bio_read_rest:
  assumes err: "bio_err b = None" and ok: "reader_ok (bio_reader b)"
    and rest: "bio_rest X dev b = Inr t" and len: "0 < len"
  shows "\<exists>bs b' t'. bio_read X dev len b = (Inr bs, b') \<and> bio_err b' = None \<and> reader_ok (bio_reader b') \<and>
    bio_rest X dev b' = Inr t' \<and> t = bs @ t' \<and> length bs \<le> len \<and> (bs = [] \<longrightarrow> t = [])"
proof (cases "bio_pos b < length (bio_buf b)")
  case True
  obtain bs b' where d: "bio_drain len b = (bs, b')" by fastforce
  have "bio_read X dev len b = (Inr bs, b')" using err True d by (simp add: bio_read_def)
  moreover have "\<exists>t'. bio_rest X dev b' = Inr t' \<and> t = bs @ t'"
    using bio_drain_rest [OF d] rest by (auto simp: bio_rest_def bind_res_Inr_iff)
  ultimately show ?thesis
    using bio_drain_rest [OF d] bio_drain_pos [OF d True len] err ok by auto
next
  case False
  have t: "collect_chunks X dev (bio_reader b) [] = Inr t"
    using rest False by (auto simp: bio_rest_def bind_res_Inr_iff)
  obtain res r' where run: "next_chunk X dev (bio_reader b) = (res, r')" by fastforce
  show ?thesis
  proof (cases res)
    case (Inl e)
    with t run show ?thesis by (subst (asm) collect_chunks.simps) simp
  next
    case (Inr o')
    show ?thesis
    proof (cases o')
      case None
      with Inr run next_chunk_None [of X dev "bio_reader b" r'] t have "r' = bio_reader b" "t = []" by auto
      with Inr None run False err ok rest show ?thesis by (simp add: bio_read_def)
    next
      case (Some ch)
      note nc = next_chunk_Some [OF ok run [unfolded Inr Some]]
      define b1 where "b1 = b\<lparr>bio_reader := r', bio_buf := ch, bio_pos := 0\<rparr>"
      obtain bs b' where d: "bio_drain len b1 = (bs, b')" by fastforce
      have rd: "bio_read X dev len b = (Inr bs, b')"
        using err False run Inr Some nc(2) d by (simp add: bio_read_def b1_def)
      have "collect_chunks X dev (bio_reader b) [] = collect_chunks X dev r' ch"
        using run Inr Some next_chunk_progress [OF run [unfolded Inr Some]]
        by (subst collect_chunks.simps) simp
      then have "bio_rest X dev b1 = Inr t"
        using t collect_chunks_acc [of X dev r' ch] by (simp add: bio_rest_def b1_def)
      then have "\<exists>t'. bio_rest X dev b' = Inr t' \<and> t = bs @ t'"
        using bio_drain_rest [OF d] by (auto simp: bio_rest_def bind_res_Inr_iff)
      moreover have "bs \<noteq> [] \<and> length bs \<le> len"
        using bio_drain_pos [OF d _ len] nc(2) by (simp add: b1_def)
      ultimately show ?thesis
        using rd bio_drain_rest [OF d] nc(1) err by (auto simp: b1_def)
    qed
  qed
qed

subsection \<open>What a reader supplies before it fails\<close>

function drain_chunks :: "'x codecs_scheme \<Rightarrow> device_io \<Rightarrow> block_reader \<Rightarrow> byte list \<times> bool" where
  "drain_chunks X dev r =
     (case next_chunk X dev r of
        (Inl e, _) \<Rightarrow> ([], True)
      | (Inr None, _) \<Rightarrow> ([], False)
      | (Inr (Some chunk), r') \<Rightarrow>
          (if br_total_blocks r' - br_block_idx r' < br_total_blocks r - br_block_idx r
           then (case drain_chunks X dev r' of (bs, failed) \<Rightarrow> (chunk @ bs, failed)) else ([], True)))"
  by pat_completeness auto
termination
  by (relation "measure (\<lambda>(X, dev, r). br_total_blocks r - br_block_idx r)") auto

declare drain_chunks.simps [simp del]

lemma drain_collect:
  "drain_chunks X dev r = (bs, failed) \<Longrightarrow>
     (if failed then \<exists>e. collect_chunks X dev r [] = Inl e else collect_chunks X dev r [] = Inr bs)"
proof (induction "br_total_blocks r - br_block_idx r" arbitrary: r bs rule: less_induct)
  case less
  obtain res r' where run: "next_chunk X dev r = (res, r')" by fastforce
  show ?case
  proof (cases "\<exists>ch. res = Inr (Some ch)")
    case False
    then show ?thesis
      using less.prems run
      by (subst (1 2) collect_chunks.simps, subst (asm) drain_chunks.simps)
        (auto split: sum.splits option.splits)
  next
    case True
    then obtain ch where ch: "res = Inr (Some ch)" by blast
    note lt = next_chunk_progress [OF run [unfolded ch]]
    obtain bs' where dr: "drain_chunks X dev r' = (bs', failed)" and bs: "bs = ch @ bs'"
      using less.prems run ch lt by (subst (asm) drain_chunks.simps) (auto split: prod.splits)
    have "collect_chunks X dev r [] = collect_chunks X dev r' ch"
      using run ch lt by (subst collect_chunks.simps) simp
    then show ?thesis
      using less.hyps [OF lt dr] bs collect_chunks_acc [of X dev r' ch] by (auto split: if_splits)
  qed
qed

text \<open>A failing device supplies a prefix of what the same device without read faults supplies.\<close>

lemma pread_no_rfault: "pread dev off len = Inr bs \<Longrightarrow> pread (dev\<lparr>dev_rfault := \<lambda>_ _. False\<rparr>) off len = Inr bs"
  by (auto simp: pread_def read_exact_at_def bind_res_Inr_iff split: if_splits option.splits)

lemma next_chunk_no_rfault:
  "next_chunk X dev r = (Inr ch, r') \<Longrightarrow> next_chunk X (dev\<lparr>dev_rfault := \<lambda>_ _. False\<rparr>) r = (Inr ch, r')"
  by (auto simp: next_chunk_def Let_def pread_no_rfault split: if_splits sum.splits)

lemma drain_prefix:
  "\<exists>t. fst (drain_chunks X (dev\<lparr>dev_rfault := \<lambda>_ _. False\<rparr>) r) = fst (drain_chunks X dev r) @ t"
proof (induction "br_total_blocks r - br_block_idx r" arbitrary: r rule: less_induct)
  case less
  let ?d = "dev\<lparr>dev_rfault := \<lambda>_ _. False\<rparr>"
  obtain res r' where run: "next_chunk X dev r = (res, r')" by fastforce
  show ?case
  proof (cases "\<exists>ch. res = Inr (Some ch)")
    case False
    then have "fst (drain_chunks X dev r) = []"
      using run by (subst drain_chunks.simps) (auto split: sum.splits option.splits)
    then show ?thesis by simp
  next
    case True
    then obtain ch where ch: "res = Inr (Some ch)" by blast
    note lt = next_chunk_progress [OF run [unfolded ch]]
    note run' = next_chunk_no_rfault [OF run [unfolded ch]]
    have "fst (drain_chunks X dev r) = ch @ fst (drain_chunks X dev r')"
      using run ch lt by (subst drain_chunks.simps) (simp split: prod.split)
    moreover have "fst (drain_chunks X ?d r) = ch @ fst (drain_chunks X ?d r')"
      using run' lt by (subst drain_chunks.simps) (simp split: prod.split)
    ultimately show ?thesis using less [OF lt] by auto
  qed
qed

lemma drain_stored:
  assumes fits: "extent_fits dev off (num_blocks (length w))"
    and st: "extent_bytes dev off (num_blocks (length w)) = encode_blocks X w"
  shows "drain_chunks X dev (br_new off (length w)) = (bs, failed) \<Longrightarrow>
      (if failed then \<exists>t. w = bs @ t else bs = w)"
    and "(\<And>i k. \<not> dev_rfault dev i k) \<Longrightarrow> drain_chunks X dev (br_new off (length w)) = (w, False)"
proof -
  let ?r = "br_new off (length w)" and ?d = "dev\<lparr>dev_rfault := \<lambda>_ _. False\<rparr>"
  have ok: "drain_chunks X dv ?r = (w, False)"
    if "extent_fits dv off (num_blocks (length w))" "extent_bytes dv off (num_blocks (length w)) = encode_blocks X w"
      "\<And>i k. \<not> dev_rfault dv i k" for dv
  proof -
    obtain cs fl where dr: "drain_chunks X dv ?r = (cs, fl)" by fastforce
    then show ?thesis
      using drain_collect [OF dr] stored_read_ok [OF that] by (auto simp: collect_chunks_new split: if_splits)
  qed
  show "drain_chunks X dev ?r = (w, False)" if "\<And>i k. \<not> dev_rfault dev i k"
    using ok [OF fits st that] .
  have d: "drain_chunks X ?d ?r = (w, False)" using fits st by (intro ok) (simp_all add: extent_fits_def)
  show "if failed then \<exists>t. w = bs @ t else bs = w" if dr: "drain_chunks X dev ?r = (bs, failed)"
  proof (cases failed)
    case True
    then show ?thesis using drain_prefix [of X dev ?r] d dr by auto
  next
    case False
    then have "read_and_decode_batched X dev off (length w) = Inr bs"
      using drain_collect [OF dr] by (simp add: collect_chunks_new)
    then show ?thesis using False stored_read_Inr [OF fits st] by simp
  qed
qed

lemma reader_ok_new: "reader_ok (br_new off sz)"
  by (simp add: reader_ok_def br_new_def)

end
