(* ===== verification/Superblock.thy ===== *)
theory Superblock
  imports Raw_Types
begin

text \<open>
  The superblock (\<open>rawobjstr/src/superblock.rs\<close>) and its checksummed 4096-byte form.

  \<open>bincode\<close> is a parameter: the record \<open>sb_codec\<close> extends the codecs with the serializer and
  the deserializer of the superblock. What the code relies on is \<open>sb_laws\<close>: a deserializer
  reads back a serialized value and ignores bytes after it, and the checksum field is a
  fixed-width little-endian integer at a fixed place.
\<close>

section \<open>Data\<close>

record shard_slot_meta =
  active_slot :: nat
  slot_size :: nat
  slot_crc :: u32

definition slot_default :: shard_slot_meta where
  "slot_default = \<lparr>active_slot = 0, slot_size = 0, slot_crc = 0\<rparr>"

record superblock =
  sb_magic :: string
  sb_version :: nat
  sb_flags :: u32
  sb_device_size :: nat
  sb_block_alignment :: nat
  sb_index_region_offset :: nat
  sb_index_region_size :: nat
  sb_txn_id :: nat
  sb_index_checksum :: u32
  sb_superblock_checksum :: u32
  sb_prev_index_offset :: nat
  sb_prev_index_size :: nat
  sb_prev_txn_id :: nat
  sb_prev_index_checksum :: u32
  sb_index_slot_capacity :: nat
  sb_shard_slots :: "shard_slot_meta list"
  sb_max_key_length :: nat
  sb_compression :: nat

definition sb_new :: "nat \<Rightarrow> nat \<Rightarrow> nat \<Rightarrow> nat \<Rightarrow> nat \<Rightarrow> compression \<Rightarrow> superblock" where
  "sb_new device_size block_alignment index_a_offset index_slot_capacity max_key_length compression =
     \<lparr>sb_magic = SUPERBLOCK_MAGIC, sb_version = 4, sb_flags = 0, sb_device_size = device_size,
      sb_block_alignment = block_alignment, sb_index_region_offset = index_a_offset,
      sb_index_region_size = 0, sb_txn_id = 0, sb_index_checksum = 0, sb_superblock_checksum = 0,
      sb_prev_index_offset = index_a_offset, sb_prev_index_size = 0, sb_prev_txn_id = 0,
      sb_prev_index_checksum = 0, sb_index_slot_capacity = index_slot_capacity,
      sb_shard_slots = replicate NUM_SHARDS slot_default, sb_max_key_length = max_key_length,
      sb_compression = compression_as_u8 compression\<rparr>"

section \<open>Serialization\<close>

record sb_codec = codecs +
  x_ser_sb :: "superblock \<Rightarrow> byte list option"
  x_de_sb :: "byte list \<Rightarrow> superblock option"

definition DEADBEEF :: u32 where "DEADBEEF = 0xDEADBEEF"

text \<open>
  The probing loop: the first index where the two serializations differ; reading past the end of
  the second panics.
\<close>

fun first_diff :: "byte list \<Rightarrow> byte list \<Rightarrow> nat option result" where
  "first_diff [] probe = Inr None"
| "first_diff (x # xs) [] = Inl Panicked"
| "first_diff (x # xs) (y # ys) =
     (if x \<noteq> y then Inr (Some 0) else bind_res (first_diff xs ys) (\<lambda>r. Inr (map_option Suc r)))"

definition checksum_offset :: "byte list \<Rightarrow> byte list \<Rightarrow> nat result" where
  "checksum_offset zero_data probe_data =
     bind_res (first_diff zero_data probe_data) (\<lambda>r.
       case r of Some off \<Rightarrow> Inr off | None \<Rightarrow> Inl (Io InvalidData))"

definition ser_sb :: "'x sb_codec_scheme \<Rightarrow> superblock \<Rightarrow> byte list result" where
  "ser_sb X sb = (case x_ser_sb X sb of Some d \<Rightarrow> Inr d | None \<Rightarrow> Inl Bincode)"

definition patch4 :: "byte list \<Rightarrow> nat \<Rightarrow> u32 \<Rightarrow> byte list result" where
  "patch4 buf off c =
     (if off + 4 \<le> length buf then Inr (write_at buf off (u32_to_le_bytes c)) else Inl Panicked)"

definition sb_to_bytes :: "'x sb_codec_scheme \<Rightarrow> superblock \<Rightarrow> byte list result" where
  "sb_to_bytes X self =
     (let sb = self\<lparr>sb_superblock_checksum := 0\<rparr> in
      bind_res (ser_sb X sb) (\<lambda>bytes.
        if length bytes > SUPERBLOCK_SIZE then Inl (Io InvalidData)
        else
          (let buf = bytes @ replicate (SUPERBLOCK_SIZE - length bytes) 0;
               checksum = x_crc32c X buf
           in bind_res (ser_sb X (sb\<lparr>sb_superblock_checksum := DEADBEEF\<rparr>)) (\<lambda>probe_data.
              bind_res (checksum_offset bytes probe_data) (\<lambda>off.
              patch4 buf off checksum)))))"

definition sb_from_bytes :: "'x sb_codec_scheme \<Rightarrow> byte list \<Rightarrow> superblock result" where
  "sb_from_bytes X buf =
     (case x_de_sb X buf of
        None \<Rightarrow> Inl Bincode
      | Some sb \<Rightarrow>
          if sb_magic sb \<noteq> SUPERBLOCK_MAGIC then Inl NotFormatted
          else if sb_version sb \<noteq> 4 then Inl (Io InvalidData)
          else if length (sb_shard_slots sb) \<noteq> NUM_SHARDS then Inl (Io InvalidData)
          else if sb_block_alignment sb = 0 then Inl SuperblockCorrupt
          else
            bind_res (ser_sb X (sb\<lparr>sb_superblock_checksum := 0\<rparr>)) (\<lambda>zero_data.
            bind_res (ser_sb X (sb\<lparr>sb_superblock_checksum := DEADBEEF\<rparr>)) (\<lambda>probe_data.
            bind_res (checksum_offset zero_data probe_data) (\<lambda>off.
              let copy_len = min (length buf) SUPERBLOCK_SIZE;
                  check_buf = take copy_len buf @ replicate (SUPERBLOCK_SIZE - copy_len) 0
              in bind_res (patch4 check_buf off 0) (\<lambda>check_buf'.
                 if x_crc32c X check_buf' \<noteq> sb_superblock_checksum sb then Inl SuperblockCorrupt
                 else Inr sb)))))"

section \<open>What the code relies on\<close>

definition sb_laws :: "'x sb_codec_scheme \<Rightarrow> bool" where
  "sb_laws X \<longleftrightarrow>
     (\<forall>sb d t. x_ser_sb X sb = Some d \<longrightarrow> x_de_sb X (d @ t) = Some sb) \<and>
     (\<exists>off. \<forall>sb d c. x_ser_sb X (sb\<lparr>sb_superblock_checksum := 0\<rparr>) = Some d \<longrightarrow>
        off + 4 \<le> length d \<and> slice d off (off + 4) = [0, 0, 0, 0] \<and>
        x_ser_sb X (sb\<lparr>sb_superblock_checksum := c\<rparr>) = Some (write_at d off (u32_to_le_bytes c)))"

text \<open>A superblock that \<open>sb_from_bytes\<close> accepts, its checksum apart.\<close>

definition sb_valid :: "superblock \<Rightarrow> bool" where
  "sb_valid sb \<longleftrightarrow>
     sb_magic sb = SUPERBLOCK_MAGIC \<and> sb_version sb = 4 \<and> length (sb_shard_slots sb) = NUM_SHARDS \<and>
     sb_block_alignment sb \<noteq> 0"

lemma first_diff_append:
  "first_diff (P @ xs) (P @ ys) = bind_res (first_diff xs ys) (\<lambda>r. Inr (map_option (\<lambda>i. length P + i) r))"
  by (induction P) (cases "first_diff xs ys"; simp add: option.map_comp comp_def option.map_ident)+

lemma deadbeef_bytes: "u32_to_le_bytes DEADBEEF = [0xEF, 0xBE, 0xAD, 0xDE]"
  by (simp add: u32_to_le_bytes_def DEADBEEF_def le_bytes_4)

lemma first_diff_patch:
  assumes "off + 4 \<le> length d" and "slice d off (off + 4) = [0, 0, 0, 0]"
  shows "first_diff d (write_at d off (u32_to_le_bytes DEADBEEF)) = Inr (Some off)"
proof -
  have "take off d @ slice d off (off + 4) @ drop (off + 4) d = d"
    unfolding slice_def by (metis add.commute add_diff_cancel_left' append_take_drop_id drop_drop)
  then have d: "d = take off d @ [0, 0, 0, 0] @ drop (off + 4) d" using assms(2) by simp
  have "write_at d off (u32_to_le_bytes DEADBEEF) = take off d @ [0xEF, 0xBE, 0xAD, 0xDE] @ drop (off + 4) d"
    using assms(1) length_u32_to_le_bytes [of DEADBEEF]
    unfolding write_at_def by (simp del: length_u32_to_le_bytes) (simp add: deadbeef_bytes)
  moreover have "first_diff (take off d @ [0, 0, 0, 0] @ drop (off + 4) d)
      (take off d @ [0xEF, 0xBE, 0xAD, 0xDE] @ drop (off + 4) d) = Inr (Some off)"
    unfolding first_diff_append using assms(1) by simp
  ultimately show ?thesis using d by metis
qed

lemma write_at_idem: "off + 4 \<le> length d \<Longrightarrow> slice d off (off + 4) = w \<Longrightarrow> length v = 4 \<Longrightarrow>
    write_at (write_at d off v) off w = d"
proof -
  assume 1: "off + 4 \<le> length d" "slice d off (off + 4) = w" "length v = 4"
  then have "length w = 4" by (auto simp: length_slice)
  with 1 have "write_at (write_at d off v) off w = write_at d off w"
    by (intro nth_equalityI) (auto simp: length_write_at write_at_nth)
  also have "\<dots> = d" using 1 write_at_slice_id [of off "off + 4" d] by simp
  finally show ?thesis .
qed

lemma write_at_prefix:
  "off + length w \<le> length d \<Longrightarrow> write_at (d @ z) off w = write_at d off w @ z"
  by (simp add: write_at_def)

lemma zero_bytes: "u32_to_le_bytes 0 = [0, 0, 0, 0]"
  by (simp add: u32_to_le_bytes_def le_bytes_4)

text \<open>The layout law, unfolded at one superblock.\<close>

lemma sb_laws_layout:
  assumes "sb_laws X" and "x_ser_sb X (sb\<lparr>sb_superblock_checksum := 0\<rparr>) = Some d"
  obtains off where "off + 4 \<le> length d" and "slice d off (off + 4) = [0, 0, 0, 0]"
    and "\<And>c. x_ser_sb X (sb\<lparr>sb_superblock_checksum := c\<rparr>) = Some (write_at d off (u32_to_le_bytes c))"
    and "checksum_offset d (write_at d off (u32_to_le_bytes DEADBEEF)) = Inr off"
proof -
  from assms(1) obtain off where o1: "\<And>sb d c. x_ser_sb X (sb\<lparr>sb_superblock_checksum := 0\<rparr>) = Some d \<Longrightarrow>
        off + 4 \<le> length d \<and> slice d off (off + 4) = [0, 0, 0, 0] \<and>
        x_ser_sb X (sb\<lparr>sb_superblock_checksum := c\<rparr>) = Some (write_at d off (u32_to_le_bytes c))"
    unfolding sb_laws_def by blast
  note o2 = o1 [OF assms(2)]
  show ?thesis
    by (rule that [of off]) (use o2 first_diff_patch [of off d] in \<open>auto simp: checksum_offset_def\<close>)
qed

text \<open>
  Writing and reading back: the reader accepts the buffer and returns the superblock with its
  checksum filled in.
\<close>

lemma sb_roundtrip:
  assumes laws: "sb_laws X" and bytes: "sb_to_bytes X sb = Inr buf" and valid: "sb_valid sb"
  shows "\<exists>c. sb_from_bytes X buf = Inr (sb\<lparr>sb_superblock_checksum := c\<rparr>)" and "length buf = 4096"
proof -
  let ?sb0 = "sb\<lparr>sb_superblock_checksum := 0\<rparr>"
  obtain d where d: "x_ser_sb X ?sb0 = Some d" and len: "length d \<le> 4096"
    using bytes by (auto simp: sb_to_bytes_def Let_def ser_sb_def SUPERBLOCK_SIZE_def bind_res_Inr_iff
        split: option.splits if_splits)
  obtain off where off: "off + 4 \<le> length d" and zero: "slice d off (off + 4) = [0, 0, 0, 0]"
    and ser: "\<And>c. x_ser_sb X (sb\<lparr>sb_superblock_checksum := c\<rparr>) = Some (write_at d off (u32_to_le_bytes c))"
    and co: "checksum_offset d (write_at d off (u32_to_le_bytes DEADBEEF)) = Inr off"
    using sb_laws_layout [OF laws d] by metis
  let ?z = "replicate (4096 - length d) 0"
  define crc where "crc = x_crc32c X (d @ ?z)"
  have buf: "buf = write_at (d @ ?z) off (u32_to_le_bytes crc)"
    using bytes d len ser [of DEADBEEF] co off
    by (simp add: sb_to_bytes_def Let_def ser_sb_def SUPERBLOCK_SIZE_def patch4_def crc_def)
  then have buf': "buf = write_at d off (u32_to_le_bytes crc) @ ?z"
    using off by (simp add: write_at_prefix)
  show len4: "length buf = 4096" using buf len off by (simp add: length_write_at)
  have de: "x_de_sb X buf = Some (sb\<lparr>sb_superblock_checksum := crc\<rparr>)"
    using laws ser [of crc] unfolding buf' sb_laws_def by blast
  have "write_at buf off (u32_to_le_bytes 0) = d @ ?z"
    unfolding buf using off zero
    by (intro write_at_idem) (auto simp: zero_bytes slice_def)
  then have "patch4 buf off 0 = Inr (d @ ?z)" using off len4 len by (simp add: patch4_def)
  then have "sb_from_bytes X buf = Inr (sb\<lparr>sb_superblock_checksum := crc\<rparr>)"
    using de valid d ser [of DEADBEEF] co len4
    by (simp add: sb_from_bytes_def sb_valid_def ser_sb_def SUPERBLOCK_SIZE_def Let_def crc_def)
  then show "\<exists>c. sb_from_bytes X buf = Inr (sb\<lparr>sb_superblock_checksum := c\<rparr>)" by blast
qed

lemma sb_to_bytes_ok:
  assumes laws: "sb_laws X" and d: "x_ser_sb X (sb\<lparr>sb_superblock_checksum := 0\<rparr>) = Some d"
    and len: "length d \<le> 4096"
  shows "\<exists>buf. sb_to_bytes X sb = Inr buf"
proof -
  obtain off where "off + 4 \<le> length d"
    and "\<And>c. x_ser_sb X (sb\<lparr>sb_superblock_checksum := c\<rparr>) = Some (write_at d off (u32_to_le_bytes c))"
    and "checksum_offset d (write_at d off (u32_to_le_bytes DEADBEEF)) = Inr off"
    using sb_laws_layout [OF laws d] by metis
  with d len show ?thesis
    by (simp add: sb_to_bytes_def Let_def ser_sb_def SUPERBLOCK_SIZE_def patch4_def)
qed

lemma sb_from_bytes_valid: "sb_from_bytes X buf = Inr sb \<Longrightarrow> sb_valid sb \<and> x_de_sb X buf = Some sb"
  by (auto simp: sb_from_bytes_def sb_valid_def Let_def bind_res_Inr_iff split: option.splits if_splits)

end
