(* ===== verification/Index.thy ===== *)
theory Index
  imports Superblock
begin

text \<open>
  The device index (\<open>rawobjstr/src/index.rs\<close>): the extent and tombstone records, the shard a
  key belongs to, and the serialized form of a shard.

  The bincode serializer of a shard is a parameter (\<open>store_env\<close>). A deserialized \<open>HashMap\<close> has
  the entries of the serialized one in an order of its own, so the round-trip law
  (\<open>shard_laws\<close>) is stated up to the lookup function. The environment also has the streaming
  encoders of the compression crates, as a function of the chunks written to them, and their
  streaming decoders: \<open>x_decode_stream X c n w failed\<close> is what reading \<open>n\<close> bytes from a decoder
  gives (\<open>None\<close> for an error) when its source supplies the bytes \<open>w\<close> and then fails (\<open>failed\<close>) or
  ends.
\<close>

section \<open>Data\<close>

record extent_info =
  ei_offset :: nat
  ei_size :: nat
  ei_padded_size :: nat
  ei_crc32c :: u32
  ei_created_txn :: nat
  ei_last_modified :: int
  ei_meta_len :: nat
  ei_uncompressed_size :: nat

record tombstone_info =
  tb_size :: nat
  tb_crc32c :: u32
  tb_last_modified :: int
  tb_reason :: string
  tb_tombstone_txn :: nat

record shard_data =
  sd_files :: "(string, extent_info) hashmap"
  sd_tombstones :: "(string, tombstone_info) hashmap"

record device_index =
  ix_files :: "(string, extent_info) hashmap"
  ix_tombstones :: "(string, tombstone_info) hashmap"

definition shard_default :: shard_data where
  "shard_default = \<lparr>sd_files = [], sd_tombstones = []\<rparr>"

definition index_new :: device_index where
  "index_new = \<lparr>ix_files = [], ix_tombstones = []\<rparr>"

section \<open>Shards\<close>

definition as_bytes :: "string \<Rightarrow> byte list" where
  "as_bytes s = map of_char s"

definition shard_for_key :: "'x codecs_scheme \<Rightarrow> string \<Rightarrow> nat" where
  "shard_for_key X key = unat (x_crc32c X (as_bytes key) AND 0xFF)"

record store_env = sb_codec +
  x_ser_shard :: "shard_data \<Rightarrow> byte list option"
  x_de_shard :: "byte list \<Rightarrow> shard_data option"
  x_stream_compress :: "compression \<Rightarrow> byte list list \<Rightarrow> byte list option"
  x_decode_stream :: "compression \<Rightarrow> nat \<Rightarrow> byte list \<Rightarrow> bool \<Rightarrow> byte list option"

definition shard_to_bytes :: "'x store_env_scheme \<Rightarrow> shard_data \<Rightarrow> (byte list \<times> u32) result" where
  "shard_to_bytes X s =
     (case x_ser_shard X s of
        None \<Rightarrow> Inl Bincode
      | Some bytes \<Rightarrow> Inr (bytes, x_crc32c X bytes))"

definition shard_from_bytes :: "'x store_env_scheme \<Rightarrow> byte list \<Rightarrow> u32 \<Rightarrow> shard_data result" where
  "shard_from_bytes X bytes expected_crc =
     (if x_crc32c X bytes \<noteq> expected_crc then Inl IndexCorrupt
      else case x_de_shard X bytes of None \<Rightarrow> Inl Bincode | Some s \<Rightarrow> Inr s)"

section \<open>What the code relies on\<close>

definition shard_wf :: "shard_data \<Rightarrow> bool" where
  "shard_wf s \<longleftrightarrow> hm_wf (sd_files s) \<and> hm_wf (sd_tombstones s)"

definition shard_equiv :: "shard_data \<Rightarrow> shard_data \<Rightarrow> bool" where
  "shard_equiv s t \<longleftrightarrow>
     hm_get (sd_files s) = hm_get (sd_files t) \<and> hm_get (sd_tombstones s) = hm_get (sd_tombstones t)"

definition shard_laws :: "'x store_env_scheme \<Rightarrow> bool" where
  "shard_laws X \<longleftrightarrow>
     (\<forall>s d. shard_wf s \<longrightarrow> x_ser_shard X s = Some d \<longrightarrow> d \<noteq> [] \<and> (\<exists>t. x_de_shard X d = Some t \<and> shard_equiv s t)) \<and>
     (\<forall>d s. x_de_shard X d = Some s \<longrightarrow> shard_wf s)"

definition stream_laws :: "'x store_env_scheme \<Rightarrow> bool" where
  "stream_laws X \<longleftrightarrow>
     (\<forall>c chunks out. c \<noteq> CNone \<longrightarrow> x_stream_compress X c chunks = Some out \<longrightarrow>
        out \<noteq> [] \<and> decompress X c out = Inr (concat chunks)) \<and>
     (\<forall>c n w t p. c \<noteq> CNone \<longrightarrow> decompress X c (w @ t) = Inr p \<longrightarrow>
        x_decode_stream X c n (w @ t) False = Some (take n p) \<and>
        (\<forall>q. x_decode_stream X c n w True = Some q \<longrightarrow> q = take n p))"

lemma shard_for_key_less: "shard_for_key X key < 256"
proof -
  have "x_crc32c X (as_bytes key) AND 0xFF = take_bit 8 (x_crc32c X (as_bytes key))"
    by (simp add: take_bit_eq_mask mask_eq_exp_minus_1)
  then have "shard_for_key X key = take_bit 8 (unat (x_crc32c X (as_bytes key)))"
    unfolding shard_for_key_def by (simp add: unsigned_take_bit_eq)
  then show ?thesis by (simp add: take_bit_eq_mod)
qed

lemma shard_roundtrip:
  assumes "shard_laws X" and "shard_wf s" and "shard_to_bytes X s = Inr (d, c)"
  shows "\<exists>t. shard_from_bytes X d c = Inr t \<and> shard_equiv s t \<and> shard_wf t" and "d \<noteq> []"
  using assms by (auto simp: shard_laws_def shard_to_bytes_def shard_from_bytes_def split: option.splits)
     fastforce+

lemma shard_from_bytes_crc: "shard_from_bytes X d c = Inr t \<Longrightarrow> x_crc32c X d = c"
  by (auto simp: shard_from_bytes_def split: if_splits)

end
