(* ===== verification/Raw_Store.thy ===== *)
theory Raw_Store
  imports Allocator Extent_Stream Index
begin

text \<open>
  The mutable state of the raw store and the operations on it that run under its lock
  (\<open>rawobjstr/src/store.rs\<close>, \<open>rebuild_free_list\<close> and \<open>impl Inner\<close>): put, get, raw get, range
  get and copy.

  An operation takes the state and returns its result with the new state. \<open>Utc::now()\<close> is the
  argument \<open>now\<close>. A panic (\<open>Panicked\<close>) unwinds past the code that frees an extent after an I/O
  error, so that code is skipped for it.
\<close>

section \<open>State\<close>

record inner =
  in_io :: device_io
  in_index :: device_index
  in_allocator :: "extent_allocator option"
  in_superblock :: superblock
  in_dirty :: bool
  in_read_only :: bool
  in_shard_dirty :: "bool list"
  in_last_flush_bytes :: nat
  in_max_key_length :: nat
  in_compression :: compression

definition MULTIPART_TMP_PREFIX :: string where
  "MULTIPART_TMP_PREFIX = ''__raw_multipart_tmp/''"

definition STREAMING_PUT_THRESHOLD :: nat where
  "STREAMING_PUT_THRESHOLD = 8 * 1024 * 1024"

definition used_extents :: "(string, extent_info) hashmap \<Rightarrow> nat \<Rightarrow> (nat \<times> nat) list" where
  "used_extents files data_end =
     sort_key fst (map (\<lambda>(_, e). (ei_offset e, ei_padded_size e))
       (filter (\<lambda>(_, e). ei_offset e \<ge> DATA_START \<and> ei_padded_size e > 0 \<and>
                 saturating_add (ei_offset e) (ei_padded_size e) \<le> data_end) files))"

definition rebuild_free_list :: "device_index \<Rightarrow> nat \<Rightarrow> (nat \<times> nat) list \<times> (nat \<times> nat) list" where
  "rebuild_free_list index data_end =
     (let used = used_extents (ix_files index) data_end
      in (used, gap_list DATA_START used data_end))"

definition allocator_mut :: "inner \<Rightarrow> extent_allocator result" where
  "allocator_mut self = (case in_allocator self of Some a \<Rightarrow> Inr a | None \<Rightarrow> Inl ReadOnly)"

definition mark_shard_dirty :: "'x store_env_scheme \<Rightarrow> string \<Rightarrow> inner \<Rightarrow> inner" where
  "mark_shard_dirty X key self =
     self\<lparr>in_shard_dirty := (in_shard_dirty self)[shard_for_key X key := True]\<rparr>"

text \<open>\<open>allocator_mut().alloc(n)\<close> and \<open>allocator_mut().map(|a| a.free(off, p))\<close>.\<close>

definition inner_alloc :: "nat \<Rightarrow> inner \<Rightarrow> nat result \<times> inner" where
  "inner_alloc n self =
     (case allocator_mut self of
        Inl e \<Rightarrow> (Inl e, self)
      | Inr a \<Rightarrow> (case alloc a n of (r, a') \<Rightarrow> (r, self\<lparr>in_allocator := Some a'\<rparr>)))"

definition inner_free :: "nat \<Rightarrow> nat \<Rightarrow> inner \<Rightarrow> inner" where
  "inner_free off padded self =
     self\<lparr>in_allocator := map_option (\<lambda>a. alloc_free a off padded) (in_allocator self)\<rparr>"

definition files_of :: "inner \<Rightarrow> (string, extent_info) hashmap" where
  "files_of self = ix_files (in_index self)"

definition set_files :: "(string, extent_info) hashmap \<Rightarrow> inner \<Rightarrow> inner" where
  "set_files f self = self\<lparr>in_index := (in_index self)\<lparr>ix_files := f\<rparr>\<rparr>"

definition set_tombstones :: "(string, tombstone_info) hashmap \<Rightarrow> inner \<Rightarrow> inner" where
  "set_tombstones t self = self\<lparr>in_index := (in_index self)\<lparr>ix_tombstones := t\<rparr>\<rparr>"

section \<open>Put\<close>

definition put_compress :: "'x store_env_scheme \<Rightarrow> inner \<Rightarrow> byte list \<Rightarrow> byte list \<times> nat" where
  "put_compress X self payload =
     (let original_size = length payload in
      if in_compression self \<noteq> CNone \<and> original_size \<ge> 4096 then
        (case compress X (in_compression self) payload of
           Some compressed \<Rightarrow>
             (if length compressed < original_size then (compressed, original_size) else (payload, 0))
         | None \<Rightarrow> (payload, 0))
      else (payload, 0))"

text \<open>The loop of the streaming write path: one-megabyte chunks and an incremental CRC.\<close>

function stream_put_loop ::
  "'x codecs_scheme \<Rightarrow> device_io \<Rightarrow> block_writer \<Rightarrow> byte list \<Rightarrow> u32 \<Rightarrow> u32 result \<times> device_io" where
  "stream_put_loop X dev w rest crc =
     (if rest = [] then
        (case bw_finish X dev w of (Inl e, dev') \<Rightarrow> (Inl e, dev') | (Inr _, dev') \<Rightarrow> (Inr crc, dev'))
      else
        (let chunk = take (1024 * 1024) rest;
             crc' = x_crc32c_append X crc chunk
         in case write_chunk X dev w chunk of
              (Inl e, dev', _) \<Rightarrow> (Inl e, dev')
            | (Inr _, dev', w') \<Rightarrow> stream_put_loop X dev' w' (drop (1024 * 1024) rest) crc'))"
  by pat_completeness auto
termination
  by (relation "measure (\<lambda>(X, dev, w, rest, crc). length rest)") auto

declare stream_put_loop.simps [simp del]

definition write_extent :: "'x codecs_scheme \<Rightarrow> device_io \<Rightarrow> nat \<Rightarrow> byte list \<Rightarrow> u32 result \<times> device_io" where
  "write_extent X dev offset payload =
     (if length payload \<ge> STREAMING_PUT_THRESHOLD
      then stream_put_loop X dev (bw_new offset) payload 0
      else
        (case encode_and_write_batched X dev offset payload of
           (Inl e, dev') \<Rightarrow> (Inl e, dev')
         | (Inr _, dev') \<Rightarrow> (Inr (x_crc32c X payload), dev')))"

text \<open>The index update shared by put and copy: the overwritten extent is freed, the entry inserted.\<close>

definition free_old :: "string \<Rightarrow> inner \<Rightarrow> inner" where
  "free_old key self =
     (case hm_get (files_of self) key of
        Some old \<Rightarrow> inner_free (ei_offset old) (ei_padded_size old)
                     (set_files (hm_remove key (files_of self)) self)
      | None \<Rightarrow> self)"

definition insert_entry :: "'x store_env_scheme \<Rightarrow> string \<Rightarrow> extent_info \<Rightarrow> inner \<Rightarrow> inner" where
  "insert_entry X key e self =
     (let self1 = mark_shard_dirty X key self
      in (set_files (hm_insert key e (files_of self1)) self1)\<lparr>in_dirty := True\<rparr>)"

definition do_put_with_meta ::
  "'x store_env_scheme \<Rightarrow> int \<Rightarrow> string \<Rightarrow> byte list \<Rightarrow> nat \<Rightarrow> inner \<Rightarrow> unit result \<times> inner" where
  "do_put_with_meta X now key payload meta_len self =
     (if in_read_only self then (Inl ReadOnly, self)
      else if payload = [] then (Inl EmptyPayload, self)
      else if length key > in_max_key_length self
      then (Inl (KeyTooLong (length key) (in_max_key_length self)), self)
      else
        (let (write_payload, uncompressed_size) = put_compress X self payload;
             payload_size = length write_payload
         in case padded_extent_size payload_size of
              Inl e \<Rightarrow> (Inl e, self)
            | Inr padded \<Rightarrow>
                (case inner_alloc padded self of
                   (Inl e, self1) \<Rightarrow> (Inl e, self1)
                 | (Inr offset, self1) \<Rightarrow>
                     (case write_extent X (in_io self1) offset write_payload of
                        (Inl e, dev) \<Rightarrow>
                          (let self2 = self1\<lparr>in_io := dev\<rparr>
                           in (Inl e, if e = Panicked then self2 else inner_free offset padded self2))
                      | (Inr crc, dev) \<Rightarrow>
                          (let self2 = free_old key (self1\<lparr>in_io := dev\<rparr>);
                               self3 = set_tombstones (hm_remove key (ix_tombstones (in_index self2))) self2
                           in (Inr (), insert_entry X key
                                \<lparr>ei_offset = offset, ei_size = payload_size, ei_padded_size = padded,
                                 ei_crc32c = crc, ei_created_txn = sb_txn_id (in_superblock self),
                                 ei_last_modified = now, ei_meta_len = meta_len,
                                 ei_uncompressed_size = uncompressed_size\<rparr> self3))))))"

definition do_put ::
  "'x store_env_scheme \<Rightarrow> int \<Rightarrow> string \<Rightarrow> byte list \<Rightarrow> inner \<Rightarrow> unit result \<times> inner" where
  "do_put X now key payload self = do_put_with_meta X now key payload 0 self"

section \<open>Get\<close>

text \<open>\<open>map_err\<close> of the readers: a corruption report names the key.\<close>

fun name_corruption :: "string \<Rightarrow> 'a result \<Rightarrow> 'a result" where
  "name_corruption key (Inl (DataCorruption _ expected actual)) = Inl (DataCorruption key expected actual)"
| "name_corruption key r = r"

definition lookup_info :: "string \<Rightarrow> inner \<Rightarrow> extent_info result" where
  "lookup_info key self =
     (case hm_get (files_of self) key of Some info \<Rightarrow> Inr info | None \<Rightarrow> Inl (NotFound key))"

definition do_get_raw :: "'x store_env_scheme \<Rightarrow> string \<Rightarrow> inner \<Rightarrow> (byte list \<times> extent_info) result" where
  "do_get_raw X key self =
     bind_res (lookup_info key self) (\<lambda>info.
     bind_res (name_corruption key
         (read_and_decode_batched X (in_io self) (ei_offset info) (ei_size info))) (\<lambda>content.
     Inr (content, info)))"

definition do_get :: "'x store_env_scheme \<Rightarrow> string \<Rightarrow> inner \<Rightarrow> (byte list \<times> extent_info) result" where
  "do_get X key self =
     bind_res (lookup_info key self) (\<lambda>info.
     bind_res (name_corruption key
         (read_and_decode_batched X (in_io self) (ei_offset info) (ei_size info))) (\<lambda>content.
     bind_res (if ei_uncompressed_size info > 0 then decompress X (in_compression self) content
               else Inr content) (\<lambda>bytes.
     Inr (bytes, info))))"

definition checked_or :: "string \<Rightarrow> nat option \<Rightarrow> nat result" where
  "checked_or reason r = (case r of Some v \<Rightarrow> Inr v | None \<Rightarrow> Inl (ExtentInvalid reason))"

definition do_get_range ::
  "'x store_env_scheme \<Rightarrow> string \<Rightarrow> nat \<Rightarrow> nat \<Rightarrow> inner \<Rightarrow> (byte list \<times> extent_info) result" where
  "do_get_range X key r_start r_end self =
     bind_res (lookup_info key self) (\<lambda>info.
       if ei_uncompressed_size info > 0 then
         (if ei_uncompressed_size info > COMPRESSED_RANGE_READ_MAX then Inl (Io OtherKind)
          else bind_res (do_get X key self) (\<lambda>(full_data, info').
            let e = min r_end (length full_data); s = min r_start e
            in Inr (slice full_data s e, info')))
       else
         (let first_block = r_start div BLOCK_DATA_SIZE;
              last_block = saturating_sub r_end 1 div BLOCK_DATA_SIZE
          in bind_res (checked_or ''range read: block offset overflow''
                 (checked_mul first_block BLOCK_ALIGNMENT)) (\<lambda>block_byte_offset.
             bind_res (checked_or ''range read: disk offset overflow''
                 (checked_add (ei_offset info) block_byte_offset)) (\<lambda>disk_offset.
             bind_res (checked_or ''range read: disk length overflow''
                 (checked_mul (uadd (usub last_block first_block) 1) BLOCK_ALIGNMENT)) (\<lambda>disk_len.
             bind_res (pread (in_io self) disk_offset disk_len) (\<lambda>raw.
             bind_res (name_corruption key (decode_block_range X raw first_block r_start r_end)) (\<lambda>bytes.
             Inr (bytes, info))))))))"

section \<open>Copy\<close>

text \<open>
  The batched raw copy. The error comes with the information whether the code path frees the new
  extent: the overflow checks return without freeing it, the I/O errors free it.
\<close>

definition COPY_BATCH_SIZE :: nat where
  "COPY_BATCH_SIZE = 256 * BLOCK_ALIGNMENT"

function copy_loop ::
  "nat \<Rightarrow> nat \<Rightarrow> nat \<Rightarrow> nat \<Rightarrow> device_io \<Rightarrow> ((raw_store_error \<times> bool) + unit) \<times> device_io" where
  "copy_loop src dst total_len copied dev =
     (if copied < total_len then
        (let chunk = min (total_len - copied) COPY_BATCH_SIZE in
         case checked_add src copied of
           None \<Rightarrow> (Inl (ExtentInvalid ''copy: source offset overflow'', False), dev)
         | Some src_off \<Rightarrow>
             (case checked_add dst copied of
                None \<Rightarrow> (Inl (ExtentInvalid ''copy: destination offset overflow'', False), dev)
              | Some dst_off \<Rightarrow>
                  (case pread dev src_off chunk of
                     Inl e \<Rightarrow> (Inl (e, e \<noteq> Panicked), dev)
                   | Inr raw \<Rightarrow>
                       (case pwrite dev dst_off raw of
                          (Inl e, dev') \<Rightarrow> (Inl (e, e \<noteq> Panicked), dev')
                        | (Inr _, dev') \<Rightarrow> copy_loop src dst total_len (copied + chunk) dev'))))
      else (Inr (), dev))"
  by pat_completeness auto
termination
  by (relation "measure (\<lambda>(src, dst, total_len, copied, dev). total_len - copied)")
    (auto simp: COPY_BATCH_SIZE_def BLOCK_ALIGNMENT_def)

declare copy_loop.simps [simp del]

definition do_copy ::
  "'x store_env_scheme \<Rightarrow> int \<Rightarrow> string \<Rightarrow> string \<Rightarrow> inner \<Rightarrow> unit result \<times> inner" where
  "do_copy X now from_key to_key self =
     (if in_read_only self then (Inl ReadOnly, self)
      else if length to_key > in_max_key_length self
      then (Inl (KeyTooLong (length to_key) (in_max_key_length self)), self)
      else
        (case lookup_info from_key self of
           Inl e \<Rightarrow> (Inl e, self)
         | Inr info \<Rightarrow>
             (case inner_alloc (ei_padded_size info) self of
                (Inl e, self1) \<Rightarrow> (Inl e, self1)
              | (Inr new_offset, self1) \<Rightarrow>
                  (case copy_loop (ei_offset info) new_offset (ei_padded_size info) 0 (in_io self1) of
                     (Inl (e, freed), dev) \<Rightarrow>
                       (let self2 = self1\<lparr>in_io := dev\<rparr>
                        in (Inl e, if freed then inner_free new_offset (ei_padded_size info) self2 else self2))
                   | (Inr _, dev) \<Rightarrow>
                       (Inr (), insert_entry X to_key
                          (info\<lparr>ei_offset := new_offset, ei_created_txn := sb_txn_id (in_superblock self),
                                ei_last_modified := now\<rparr>)
                          (free_old to_key (self1\<lparr>in_io := dev\<rparr>)))))))"

end
