(* ===== verification/Store_Invariant.thy ===== *)
theory Store_Invariant
  imports Raw_Store
begin

text \<open>
  The invariant of the raw store and what it stores.

  \<open>space_inv de H self\<close>: every byte of the data area \<open>[DATA_START, de)\<close> is in exactly one of
  the free list, one object's extent and the set \<open>H\<close> of bytes an operation holds between its
  allocation and its index update. \<open>rep X self A\<close>: the bytes on the device encode the abstract
  map \<open>A\<close> from keys to payloads and metadata lengths.
\<close>

section \<open>Streaming and batched puts write the same extent\<close>

lemma stream_put_loop_eq:
  assumes laws: "crc_laws X" and "writer_inv X off dev0 P dev w"
  shows "stream_put_loop X dev w rest (x_crc32c X P) =
    (case batch_write X off (P @ rest) 0 dev0 of
       (Inl e, d) \<Rightarrow> (Inl e, d) | (Inr _, d) \<Rightarrow> (Inr (x_crc32c X (P @ rest)), d))"
  using assms(2)
proof (induction "length rest" arbitrary: rest P dev w rule: less_induct)
  case less
  show ?case
  proof (cases "rest = []")
    case True
    then show ?thesis
      using bw_finish_step [OF less.prems]
      by (subst stream_put_loop.simps) (simp split: prod.split sum.split)
  next
    case False
    let ?c = "take (1024 * 1024) rest" and ?r = "drop (1024 * 1024) rest"
    obtain r dv wv where run: "write_chunk X dev w ?c = (r, dv, wv)" by (metis prod_cases3)
    note st = write_chunk_step [OF less.prems run]
    have step: "stream_put_loop X dev w rest (x_crc32c X P) =
        (case r of Inl e \<Rightarrow> (Inl e, dv) | Inr _ \<Rightarrow> stream_put_loop X dv wv ?r (x_crc32c X (P @ ?c)))"
      using False run crc_append [OF laws, of P ?c]
      by (subst stream_put_loop.simps) (simp add: Let_def split: sum.split)
    have cat: "P @ ?c @ ?r = P @ rest" "(P @ ?c) @ ?r = P @ rest" by simp_all
    show ?thesis
    proof (cases r)
      case (Inl e)
      then show ?thesis using st [unfolded Inl sum.case, rule_format, of ?r] step unfolding cat by simp
    next
      case (Inr u)
      have "writer_inv X off dev0 (P @ ?c) dv wv" using st Inr by simp
      moreover have "length ?r < length rest" using False by simp
      ultimately show ?thesis using less.hyps [of ?r "P @ ?c" dv wv] step Inr unfolding cat by simp
    qed
  qed
qed

lemma write_extent_eq:
  assumes "crc_laws X"
  shows "write_extent X dev off p =
    (case encode_and_write_batched X dev off p of
       (Inl e, d) \<Rightarrow> (Inl e, d) | (Inr _, d) \<Rightarrow> (Inr (x_crc32c X p), d))"
proof -
  have "x_crc32c X [] = 0" using assms by (simp add: crc_laws_def)
  then show ?thesis
    using stream_put_loop_eq [OF assms writer_inv_new [of X off dev], of p]
    by (simp add: write_extent_def encode_and_write_batched_def split: prod.split sum.split)
qed

section \<open>Extents of a key map\<close>

abbreviation e_range :: "extent_info \<Rightarrow> nat set" where
  "e_range e \<equiv> {ei_offset e..<ei_offset e + ei_padded_size e}"

definition entry_ok :: "nat \<Rightarrow> extent_info \<Rightarrow> bool" where
  "entry_ok de e \<longleftrightarrow>
     area_unit DATA_START de (ei_offset e) (ei_padded_size e) \<and>
     ei_padded_size e = num_blocks (ei_size e) * 4096"

definition files_inv :: "nat \<Rightarrow> (string \<rightharpoonup> extent_info) \<Rightarrow> bool" where
  "files_inv de F \<longleftrightarrow>
     (\<forall>k e. F k = Some e \<longrightarrow> entry_ok de e) \<and>
     (\<forall>k k' e e'. F k = Some e \<longrightarrow> F k' = Some e' \<longrightarrow> k \<noteq> k' \<longrightarrow> e_range e \<inter> e_range e' = {})"

definition used :: "(string \<rightharpoonup> extent_info) \<Rightarrow> nat set" where
  "used F = (\<Union>e\<in>ran F. e_range e)"

lemma e_range_used: "F k = Some e \<Longrightarrow> e_range e \<subseteq> used F"
  unfolding used_def by (blast intro: ranI)

lemma used_mem: "x \<in> used F \<longleftrightarrow> (\<exists>k e. F k = Some e \<and> x \<in> e_range e)"
  by (auto simp: used_def ran_def)

lemma used_insert: "F k = None \<Longrightarrow> used (F(k \<mapsto> e)) = used F \<union> e_range e"
  by (auto simp: used_def)

lemma used_delete: "files_inv de F \<Longrightarrow> F k = Some e \<Longrightarrow> used (F(k := None)) = used F - e_range e"
proof (rule set_eqI)
  fix x
  assume inv: "files_inv de F" and k: "F k = Some e"
  show "x \<in> used (F(k := None)) \<longleftrightarrow> x \<in> used F - e_range e"
  proof
    assume "x \<in> used (F(k := None))"
    then obtain k' e' where "F k' = Some e'" "k' \<noteq> k" "x \<in> e_range e'"
      by (auto simp: used_mem split: if_splits)
    with inv k show "x \<in> used F - e_range e" by (fastforce simp: files_inv_def used_mem)
  next
    assume x: "x \<in> used F - e_range e"
    then obtain k' e' where k': "F k' = Some e'" "x \<in> e_range e'" using used_mem [of x F] by blast
    with x k have "k' \<noteq> k" by auto
    with k' have "(F(k := None)) k' = Some e' \<and> x \<in> e_range e'" by simp
    then show "x \<in> used (F(k := None))" unfolding used_mem by blast
  qed
qed

lemma files_inv_delete: "files_inv de F \<Longrightarrow> files_inv de (F(k := None))"
  by (auto simp: files_inv_def)

lemma files_inv_insert:
  assumes "files_inv de F" and "entry_ok de e" and "F k = None" and "e_range e \<inter> used F = {}"
  shows "files_inv de (F(k \<mapsto> e))"
proof -
  have d: "e_range e' \<inter> e_range e = {}" "e_range e \<inter> e_range e' = {}" if "F k' = Some e'" for k' e'
    using e_range_used [of F k' e'] that assms(4) by blast+
  show ?thesis
    unfolding files_inv_def
  proof (intro conjI allI impI)
    show "entry_ok de e'" if "(F(k \<mapsto> e)) k' = Some e'" for k' e'
      using that assms(1,2) by (auto simp: files_inv_def split: if_splits)
    show "e_range e1 \<inter> e_range e2 = {}"
      if "(F(k \<mapsto> e)) k1 = Some e1" "(F(k \<mapsto> e)) k2 = Some e2" "k1 \<noteq> k2" for k1 k2 e1 e2
    proof (cases "k1 = k \<or> k2 = k")
      case True
      then show ?thesis using that d by (auto simp del: Int_atLeastLessThan split: if_splits)
    next
      case False
      then have "F k1 = Some e1" "F k2 = Some e2" using that by simp_all
      with assms(1) that(3) show ?thesis unfolding files_inv_def by blast
    qed
  qed
qed

lemma files_inv_used: "files_inv de F \<Longrightarrow> used F \<subseteq> {DATA_START..<de}"
  by (fastforce simp: files_inv_def used_mem entry_ok_def area_unit_def)

section \<open>The space invariant\<close>

definition dev_room :: "nat \<Rightarrow> device_io \<Rightarrow> bool" where
  "dev_room de dev \<longleftrightarrow> de \<le> length (dev_data dev) \<and> length (dev_data dev) + 4096 \<le> 2 ^ 64"

definition space_inv :: "nat \<Rightarrow> nat set \<Rightarrow> inner \<Rightarrow> bool" where
  "space_inv de H self \<longleftrightarrow>
     hm_wf (files_of self) \<and> files_inv de (hm_get (files_of self)) \<and>
     H \<subseteq> {DATA_START..<de} \<and> H \<inter> used (hm_get (files_of self)) = {} \<and>
     (case in_allocator self of
        None \<Rightarrow> in_read_only self
      | Some a \<Rightarrow> area_inv DATA_START de a \<and>
          free_set a = {DATA_START..<de} - used (hm_get (files_of self)) - H) \<and>
     dev_room de (in_io self) \<and> length (in_shard_dirty self) = NUM_SHARDS"

abbreviation store_ok :: "nat \<Rightarrow> inner \<Rightarrow> bool" where
  "store_ok de self \<equiv> space_inv de {} self"

text \<open>The state components that no extent operation touches.\<close>

definition same_config :: "inner \<Rightarrow> inner \<Rightarrow> bool" where
  "same_config s t \<longleftrightarrow>
     in_superblock t = in_superblock s \<and> in_read_only t = in_read_only s \<and>
     in_max_key_length t = in_max_key_length s \<and> in_compression t = in_compression s \<and>
     in_last_flush_bytes t = in_last_flush_bytes s"

lemma same_config_refl [simp]: "same_config s s"
  by (simp add: same_config_def)

lemma field_simps_inner [simp]:
  "files_of (self\<lparr>in_io := d\<rparr>) = files_of self"
  "files_of (self\<lparr>in_allocator := al\<rparr>) = files_of self"
  "files_of (self\<lparr>in_dirty := b\<rparr>) = files_of self"
  "files_of (self\<lparr>in_shard_dirty := sd\<rparr>) = files_of self"
  "files_of (set_files f self) = f"
  "files_of (set_tombstones t self) = files_of self"
  "files_of (inner_free off p self) = files_of self"
  "files_of (mark_shard_dirty X key self) = files_of self"
  "in_allocator (set_files f self) = in_allocator self"
  "in_allocator (set_tombstones t self) = in_allocator self"
  "in_allocator (mark_shard_dirty X key self) = in_allocator self"
  "in_io (set_files f self) = in_io self"
  "in_io (set_tombstones t self) = in_io self"
  "in_io (inner_free off p self) = in_io self"
  "in_io (mark_shard_dirty X key self) = in_io self"
  "in_read_only (set_files f self) = in_read_only self"
  "in_read_only (set_tombstones t self) = in_read_only self"
  "in_read_only (inner_free off p self) = in_read_only self"
  "in_read_only (mark_shard_dirty X key self) = in_read_only self"
  "in_shard_dirty (set_files f self) = in_shard_dirty self"
  "in_shard_dirty (set_tombstones t self) = in_shard_dirty self"
  "in_shard_dirty (inner_free off p self) = in_shard_dirty self"
  "length (in_shard_dirty (mark_shard_dirty X key self)) = length (in_shard_dirty self)"
  "in_compression (set_files f self) = in_compression self"
  "in_compression (set_tombstones t self) = in_compression self"
  "in_compression (inner_free off p self) = in_compression self"
  "in_compression (mark_shard_dirty X key self) = in_compression self"
  by (simp_all add: files_of_def set_files_def set_tombstones_def inner_free_def mark_shard_dirty_def)

lemma padded_size_valid:
  assumes "padded_extent_size n = Inr p" and "0 < n" and "p + 4096 \<le> 2 ^ 64"
  shows "size_valid p" and "align_up p 4096 = p" and "0 < p"
proof -
  show "0 < p" using assms num_blocks_pos [of n] by (simp add: padded_extent_size_Inr)
  then show "size_valid p" using assms by (simp add: size_valid_def)
  show "align_up p 4096 = p"
    using assms padded_extent_size_ge [OF assms(1)] by (intro align_up_multiple) auto
qed

text \<open>
  Allocation moves bytes from the free list to the held set; it fails without a change, and only
  when no free run is long enough.
\<close>

lemma inner_alloc_ok:
  assumes inv: "store_ok de self" and p: "size_valid p" "align_up p 4096 = p"
    and run: "inner_alloc p self = (Inr off, self1)"
  shows "space_inv de {off..<off + p} self1" and "area_unit DATA_START de off p"
    and "\<exists>a'. self1 = self\<lparr>in_allocator := Some a'\<rparr>"
    and "inner_free off p self1 = self"
proof -
  obtain a a' where a: "in_allocator self = Some a" and al: "alloc a p = (Inr off, a')"
    and s1: "self1 = self\<lparr>in_allocator := Some a'\<rparr>"
    using run by (auto simp: inner_alloc_def allocator_mut_def split: option.splits prod.splits)
  have ia: "area_inv DATA_START de a"
    and fs: "free_set a = {DATA_START..<de} - used (hm_get (files_of self))"
    using inv a by (auto simp: space_inv_def)
  note A = ea.allocate_inv [OF ia p(1) al] ea.allocate_avail [OF ia p(1) al] ea.allocate_sub [OF ia p(1) al]
    ea.allocate_unit [OF ia p(1) al] ea.allocate_release [OF ia p(1) al]
  have "{off..<off + p} \<subseteq> {DATA_START..<de}" "{off..<off + p} \<inter> used (hm_get (files_of self)) = {}"
    using A(3) fs unfolding p(2) by blast+
  moreover have "free_set a' = {DATA_START..<de} - used (hm_get (files_of self)) - {off..<off + p}"
    using A(2) fs unfolding p(2) by simp
  ultimately show "space_inv de {off..<off + p} self1"
    using inv A(1) by (simp add: space_inv_def s1)
  show "area_unit DATA_START de off p" using A(4) unfolding p(2) .
  show "\<exists>a'. self1 = self\<lparr>in_allocator := Some a'\<rparr>" using s1 by blast
  show "inner_free off p self1 = self"
    using A(5) a unfolding p(2) by (simp add: inner_free_def s1)
qed

lemma inner_alloc_Inl:
  assumes inv: "store_ok de self" and p: "size_valid p"
    and run: "inner_alloc p self = (Inl e, self1)"
  shows "self1 = self"
    and "in_allocator self = Some a \<Longrightarrow> \<not> {x..<x + align_up p 4096} \<subseteq> free_set a"
proof -
  show "self1 = self"
    using run
    by (auto simp: inner_alloc_def allocator_mut_def alloc_Inl_iff split: option.splits prod.splits)
  assume a: "in_allocator self = Some a"
  then have "area_inv DATA_START de a" using inv by (simp add: space_inv_def)
  moreover obtain a' where "alloc a p = (Inl e, a')"
    using run a by (auto simp: inner_alloc_def allocator_mut_def split: prod.splits)
  ultimately show "\<not> {x..<x + align_up p 4096} \<subseteq> free_set a"
    using p by (intro ea.allocate_complete)
qed

lemma space_inv_io:
  assumes "space_inv de H self" and "length (dev_data dev) = length (dev_data (in_io self))"
  shows "space_inv de H (self\<lparr>in_io := dev\<rparr>)"
  using assms by (simp add: space_inv_def dev_room_def split: option.splits)

text \<open>Freeing the old extent of a key keeps the held bytes.\<close>

lemma free_old_inv:
  assumes inv: "space_inv de H self"
  shows "space_inv de H (free_old key self)" and "hm_get (files_of (free_old key self)) key = None"
    and "hm_get (files_of (free_old key self)) = (hm_get (files_of self))(key := None)"
proof -
  let ?F = "hm_get (files_of self)"
  show get: "hm_get (files_of (free_old key self)) = ?F(key := None)"
    by (cases "?F key") (auto simp: free_old_def hm_get_remove)
  then show "hm_get (files_of (free_old key self)) key = None" by simp
  show "space_inv de H (free_old key self)"
  proof (cases "?F key")
    case None
    then show ?thesis using inv by (simp add: free_old_def)
  next
    case (Some old)
    have fi: "files_inv de ?F" and wf: "hm_wf (files_of self)" and H: "H \<subseteq> {DATA_START..<de}" "H \<inter> used ?F = {}"
      using inv by (auto simp: space_inv_def)
    have u: "area_unit DATA_START de (ei_offset old) (ei_padded_size old)"
      using fi Some unfolding files_inv_def entry_ok_def by blast
    have ud: "used (?F(key := None)) = used ?F - e_range old" by (rule used_delete [OF fi Some])
    have sub: "e_range old \<subseteq> used ?F" using Some by (rule e_range_used)
    have al: "area_inv DATA_START de (alloc_free a (ei_offset old) (ei_padded_size old)) \<and>
        free_set (alloc_free a (ei_offset old) (ei_padded_size old)) =
          {DATA_START..<de} - used (?F(key := None)) - H"
      if a: "in_allocator self = Some a" for a
    proof -
      have ia: "area_inv DATA_START de a" and fs: "free_set a = {DATA_START..<de} - used ?F - H"
        using inv a by (auto simp: space_inv_def)
      have dis: "e_range old \<inter> free_set a = {}" using sub fs by blast
      have "e_range old \<subseteq> {DATA_START..<de} - H" using sub files_inv_used [OF fi] H(2) by blast
      then show ?thesis
        using ea.release_inv [OF ia u dis] ea.release_avail [OF ia u dis] fs ud sub by blast
    qed
    have fo: "free_old key self = inner_free (ei_offset old) (ei_padded_size old)
        (set_files (hm_remove key (files_of self)) self)"
      using Some by (simp add: free_old_def)
    show ?thesis
      unfolding fo space_inv_def
      using inv wf fi H ud al
      by (auto simp: hm_get_remove hm_wf_remove files_inv_delete inner_free_def space_inv_def
          split: option.splits)
  qed
qed

text \<open>Inserting an entry turns the held bytes into the entry's extent.\<close>

lemma insert_entry_inv:
  assumes inv: "space_inv de (e_range e) self" and e: "entry_ok de e"
    and none: "hm_get (files_of self) key = None"
  shows "store_ok de (insert_entry X key e self)"
    and "hm_get (files_of (insert_entry X key e self)) = (hm_get (files_of self))(key \<mapsto> e)"
proof -
  let ?F = "hm_get (files_of self)"
  have get: "hm_get (files_of (insert_entry X key e self)) = ?F(key \<mapsto> e)"
    by (simp add: insert_entry_def Let_def hm_get_insert fun_upd_def)
  then show "hm_get (files_of (insert_entry X key e self)) = ?F(key \<mapsto> e)" .
  have fi: "files_inv de (?F(key \<mapsto> e))"
    using inv e none by (intro files_inv_insert) (auto simp: space_inv_def)
  have ui: "used (?F(key \<mapsto> e)) = used ?F \<union> e_range e" by (rule used_insert [of ?F key e, OF none])
  show "store_ok de (insert_entry X key e self)"
    unfolding space_inv_def get
    using inv fi ui
    by (auto simp: insert_entry_def Let_def space_inv_def hm_wf_insert mark_shard_dirty_def Diff_Un
        split: option.splits)
qed

lemma set_tombstones_inv: "space_inv de H (set_tombstones t self) = space_inv de H self"
  by (simp add: space_inv_def split: option.splits)

section \<open>The stored objects\<close>

text \<open>
  \<open>obj_ok X cm d e p\<close>: the extent \<open>e\<close> of a device with bytes \<open>d\<close> holds the payload \<open>p\<close>.
  The stored form \<open>w\<close> is \<open>p\<close> itself or a compressed form that decompresses to it.
\<close>

definition obj_ok ::
  "'x codecs_scheme \<Rightarrow> compression \<Rightarrow> byte list \<Rightarrow> extent_info \<Rightarrow> byte list \<Rightarrow> bool" where
  "obj_ok X cm d e p \<longleftrightarrow>
     (\<exists>w. length w = ei_size e \<and> w \<noteq> [] \<and> ei_crc32c e = x_crc32c X w \<and>
       slice d (ei_offset e) (ei_offset e + num_blocks (ei_size e) * 4096) = encode_blocks X w \<and>
       (if ei_uncompressed_size e = 0 then p = w
        else cm \<noteq> CNone \<and> decompress X cm w = Inr p \<and> ei_uncompressed_size e = length p))"

definition rep :: "'x codecs_scheme \<Rightarrow> inner \<Rightarrow> (string \<rightharpoonup> byte list \<times> nat) \<Rightarrow> bool" where
  "rep X self A \<longleftrightarrow>
     (\<forall>k. hm_get (files_of self) k = None \<longrightarrow> A k = None) \<and>
     (\<forall>k e. hm_get (files_of self) k = Some e \<longrightarrow>
        (\<exists>p. A k = Some (p, ei_meta_len e) \<and>
          obj_ok X (in_compression self) (dev_data (in_io self)) e p))"

lemma rep_None: "rep X self A \<Longrightarrow> A k = None \<longleftrightarrow> hm_get (files_of self) k = None"
  unfolding rep_def by (metis option.distinct(1) option.exhaust)

lemma rep_Some:
  assumes "rep X self A" and "hm_get (files_of self) k = Some e"
  obtains p where "A k = Some (p, ei_meta_len e)" "obj_ok X (in_compression self) (dev_data (in_io self)) e p"
  using assms unfolding rep_def by blast

lemma obj_ok_unique: "obj_ok X c d e p \<Longrightarrow> obj_ok X c d e q \<Longrightarrow> p = q"
proof -
  assume "obj_ok X c d e p" "obj_ok X c d e q"
  then obtain w v where
    w: "length w = ei_size e" "slice d (ei_offset e) (ei_offset e + num_blocks (ei_size e) * 4096) = encode_blocks X w"
      "if ei_uncompressed_size e = 0 then p = w else decompress X c w = Inr p" and
    v: "length v = ei_size e" "slice d (ei_offset e) (ei_offset e + num_blocks (ei_size e) * 4096) = encode_blocks X v"
      "if ei_uncompressed_size e = 0 then q = v else decompress X c v = Inr q"
    unfolding obj_ok_def by (metis (full_types))
  have "Inr w = (Inr v :: byte list result)"
    using decode_encode_blocks [of X w] decode_encode_blocks [of X v] w v by metis
  then show "p = q" using w(3) v(3) by (auto split: if_splits)
qed

text \<open>The abstract map is determined by the state.\<close>

lemma rep_unique: "rep X self A \<Longrightarrow> rep X self B \<Longrightarrow> A = B"
proof
  fix k
  assume A: "rep X self A" and B: "rep X self B"
  show "A k = B k"
  proof (cases "hm_get (files_of self) k")
    case None
    then show ?thesis using rep_None [OF A] rep_None [OF B] by metis
  next
    case (Some e)
    then show ?thesis using rep_Some [OF A Some] rep_Some [OF B Some] obj_ok_unique by metis
  qed
qed

lemma obj_ok_frame:
  assumes "obj_ok X c (dev_data dev) e p" and "entry_ok de e" and "dev_frame dev dev' a b"
    and "e_range e \<inter> {a..<b} = {}"
  shows "obj_ok X c (dev_data dev') e p"
proof -
  let ?n = "num_blocks (ei_size e) * 4096"
  have p: "ei_padded_size e = ?n" "0 < ?n" using assms(2) by (auto simp: entry_ok_def area_unit_def)
  have "slice (dev_data dev') (ei_offset e) (ei_offset e + ?n) =
      slice (dev_data dev) (ei_offset e) (ei_offset e + ?n)"
  proof (cases "a < b")
    case True
    then have "ei_offset e + ?n \<le> a \<or> b \<le> ei_offset e" using assms(4) p by auto
    then show ?thesis by (rule dev_frame_slice [OF assms(3)])
  next
    case False
    then have "dev_frame dev dev' a a" using assms(3) by (auto simp: dev_frame_def)
    then have "dev_data dev' = dev_data dev"
      by (intro nth_equalityI) (auto simp: dev_frame_def not_less)
    then show ?thesis by simp
  qed
  then show ?thesis using assms(1) by (simp add: obj_ok_def)
qed

text \<open>A device change inside the held or free bytes keeps every object.\<close>

lemma rep_frame:
  assumes rep: "rep X self A" and fi: "files_inv de (hm_get (files_of self))"
    and fr: "dev_frame (in_io self) dev' a b" and dis: "{a..<b} \<inter> used (hm_get (files_of self)) = {}"
  shows "rep X (self\<lparr>in_io := dev'\<rparr>) A"
proof -
  have "obj_ok X (in_compression self) (dev_data dev') e p"
    if Some: "hm_get (files_of self) k = Some e" and p: "obj_ok X (in_compression self) (dev_data (in_io self)) e p"
    for k e p
  proof -
    have "entry_ok de e" using fi Some unfolding files_inv_def by blast
    moreover have "e_range e \<inter> {a..<b} = {}"
      using e_range_used [of "hm_get (files_of self)" k e] Some dis by blast
    ultimately show ?thesis using obj_ok_frame [OF p _ fr] by simp
  qed
  then show ?thesis using rep unfolding rep_def by simp blast
qed

lemma rep_cong:
  "files_of t = files_of s \<Longrightarrow> in_compression t = in_compression s \<Longrightarrow>
     dev_data (in_io t) = dev_data (in_io s) \<Longrightarrow> rep X t A = rep X s A"
  by (simp add: rep_def)

lemma rep_upd:
  assumes rep: "rep X s A" and get: "hm_get (files_of t) = (hm_get (files_of s))(key \<mapsto> e)"
    and same: "in_compression t = in_compression s" "dev_data (in_io t) = dev_data (in_io s)"
    and obj: "obj_ok X (in_compression s) (dev_data (in_io s)) e p"
  shows "rep X t (A(key \<mapsto> (p, ei_meta_len e)))"
  using rep obj unfolding rep_def get same by auto

lemma rep_del:
  assumes rep: "rep X s A" and get: "hm_get (files_of t) = (hm_get (files_of s))(key := None)"
    and same: "in_compression t = in_compression s" "dev_data (in_io t) = dev_data (in_io s)"
  shows "rep X t (A(key := None))"
  using rep unfolding rep_def get same by auto

end
