(* ===== verification/Store_Ops.thy ===== *)
theory Store_Ops
  imports Store_Invariant
begin

text \<open>
  The core operations of the raw store refine a map from keys to payloads: put and copy update
  it, the readers look it up, and an operation that fails leaves the index and the free list as
  they were, whichever device fault made it fail.
\<close>

section \<open>Writing an extent into held bytes\<close>

lemma area_unit_fits:
  assumes "area_unit DATA_START de off (n * 4096)" and "dev_room de dev"
  shows "extent_fits dev off n"
  using assms by (auto simp: area_unit_def dev_room_def extent_fits_def)

lemma dev_frame_unit:
  "dev_frame x y off (off + n) \<Longrightarrow> area_unit ds de off n \<Longrightarrow> dev_frame x y ds de"
  by (erule dev_frame_weaken) (auto simp: area_unit_def)

lemma write_extent_held:
  assumes laws: "crc_laws X" and inv: "space_inv de {off..<off + n * 4096} self"
    and n: "n = num_blocks (length w)" and u: "area_unit DATA_START de off (n * 4096)"
    and run: "write_extent X (in_io self) off w = (r, dev)"
  shows "space_inv de {off..<off + n * 4096} (self\<lparr>in_io := dev\<rparr>)"
    and "rep X self A \<Longrightarrow> rep X (self\<lparr>in_io := dev\<rparr>) A"
    and "r \<noteq> Inl Panicked"
    and "r = Inr c \<Longrightarrow> c = x_crc32c X w \<and> slice (dev_data dev) off (off + n * 4096) = encode_blocks X w"
    and "dev_frame (in_io self) dev off (off + n * 4096)"
proof -
  have fits: "extent_fits (in_io self) off (num_blocks (length w))"
    using u inv unfolding n by (intro area_unit_fits [of de]) (auto simp: space_inv_def)
  obtain rb where eb: "encode_and_write_batched X (in_io self) off w = (rb, dev)"
    and r: "r = (case rb of Inl e \<Rightarrow> Inl e | Inr _ \<Rightarrow> Inr (x_crc32c X w))"
    using run unfolding write_extent_eq [OF laws] by (auto split: prod.splits sum.splits)
  show fr: "dev_frame (in_io self) dev off (off + n * 4096)"
    using encode_and_write_frame [OF fits, of X] eb n by simp
  from fr show "space_inv de {off..<off + n * 4096} (self\<lparr>in_io := dev\<rparr>)"
    using inv by (intro space_inv_io) (auto simp: dev_frame_length)
  show "rep X (self\<lparr>in_io := dev\<rparr>) A" if "rep X self A"
    using inv that by (intro rep_frame [OF _ _ fr, of X A de]) (auto simp: space_inv_def)
  show "r \<noteq> Inl Panicked"
    using encode_and_write_no_panic [OF fits, of X] eb r by (auto split: sum.splits)
  show "c = x_crc32c X w \<and> slice (dev_data dev) off (off + n * 4096) = encode_blocks X w" if "r = Inr c"
  proof -
    have "rb = Inr ()" "c = x_crc32c X w" using r that by (auto split: sum.splits)
    with eb encode_and_write_stored(2) [OF fits, of X dev] n show ?thesis by simp
  qed
qed

section \<open>Put\<close>

lemma put_compress_stored:
  assumes "codec_laws X" and "put_compress X self payload = (w, u)" and "payload \<noteq> []"
  shows "length w \<le> length payload" and "u = 0 \<Longrightarrow> w = payload"
    and "u \<noteq> 0 \<Longrightarrow> in_compression self \<noteq> CNone \<and> decompress X (in_compression self) w = Inr payload \<and>
      u = length payload"
    and "w \<noteq> []"
  using assms compress_smaller_decompress [OF assms(1)]
  by (auto simp: put_compress_def Let_def split: if_splits option.splits)

lemma free_old_fields [simp]:
  "in_io (free_old key self) = in_io self" "in_compression (free_old key self) = in_compression self"
  "in_superblock (free_old key self) = in_superblock self" "in_read_only (free_old key self) = in_read_only self"
  "in_max_key_length (free_old key self) = in_max_key_length self"
  "in_shard_dirty (free_old key self) = in_shard_dirty self"
  by (auto simp: free_old_def inner_free_def set_files_def split: option.splits)

lemma insert_entry_fields [simp]:
  "in_io (insert_entry X key e self) = in_io self"
  "in_compression (insert_entry X key e self) = in_compression self"
  "in_superblock (insert_entry X key e self) = in_superblock self"
  "in_read_only (insert_entry X key e self) = in_read_only self"
  "in_max_key_length (insert_entry X key e self) = in_max_key_length self"
  by (auto simp: insert_entry_def set_files_def mark_shard_dirty_def Let_def)

text \<open>The last phase of put and copy, from a state that holds the new extent.\<close>

lemma commit_entry:
  assumes inv: "space_inv de (e_range e) self" and e: "entry_ok de e"
    and obj: "obj_ok X (in_compression self) (dev_data (in_io self)) e p"
    and t: "files_of t = files_of (free_old key self)" "in_allocator t = in_allocator (free_old key self)"
      "in_io t = in_io self" "in_compression t = in_compression self" "in_read_only t = in_read_only self"
      "length (in_shard_dirty t) = length (in_shard_dirty self)"
  shows "store_ok de (insert_entry X key e t)"
    and "rep X self A \<Longrightarrow> rep X (insert_entry X key e t) (A(key \<mapsto> (p, ei_meta_len e)))"
proof -
  note fo = free_old_inv [OF inv, of key]
  have it: "space_inv de (e_range e) t"
    using fo(1) by (simp add: space_inv_def t split: option.splits)
  have nt: "hm_get (files_of t) key = None" using fo(2) by (simp add: t)
  show "store_ok de (insert_entry X key e t)" by (rule insert_entry_inv [OF it e nt])
  assume rep: "rep X self A"
  have rt: "rep X t (A(key := None))"
    using rep by (rule rep_del [where s = self]) (simp_all add: t fo(3) fun_upd_def)
  have "rep X (insert_entry X key e t) ((A(key := None))(key \<mapsto> (p, ei_meta_len e)))"
    using rt insert_entry_inv(2) [OF it e nt] obj by (intro rep_upd [where s = t]) (simp_all add: t)
  then show "rep X (insert_entry X key e t) (A(key \<mapsto> (p, ei_meta_len e)))" by simp
qed

lemma payload_padded:
  assumes "0 < n" and "n < 2 ^ 63"
  shows "padded_extent_size n = Inr (num_blocks n * 4096)" and "num_blocks n * 4096 + 4096 \<le> 2 ^ 64"
proof -
  have "num_blocks n * 4092 < n + 4092" by (rule num_blocks_upper [OF assms(1)])
  with assms(2) show le: "num_blocks n * 4096 + 4096 \<le> 2 ^ 64" by simp
  then show "padded_extent_size n = Inr (num_blocks n * 4096)" by (simp add: padded_extent_size_Inr)
qed

text \<open>
  The ways \<open>do_put_with_meta\<close> ends: it fails with nothing changed but bytes of free extents, or
  it commits the new object.
\<close>

lemma do_put_spec:
  assumes laws: "crc_laws X" "codec_laws X" and inv: "store_ok de self"
    and small: "length payload < 2 ^ 63"
    and run: "do_put_with_meta X now key payload meta_len self = (r, self')"
  shows "store_ok de self' \<and> dev_frame (in_io self) (in_io self') DATA_START de \<and>
    (case r of
       Inl e \<Rightarrow> self' = self\<lparr>in_io := in_io self'\<rparr> \<and> (\<forall>A. rep X self A \<longrightarrow> rep X self' A)
     | Inr _ \<Rightarrow> \<not> in_read_only self \<and> payload \<noteq> [] \<and> length key \<le> in_max_key_length self \<and>
         (\<forall>A. rep X self A \<longrightarrow> rep X self' (A(key \<mapsto> (payload, meta_len)))))"
proof (cases "in_read_only self \<or> payload = [] \<or> length key > in_max_key_length self")
  case True
  then have "\<exists>e. do_put_with_meta X now key payload meta_len self = (Inl e, self)"
    by (cases "in_read_only self"; cases "payload = []") (simp_all add: do_put_with_meta_def)
  then show ?thesis using run inv by auto
next
  case False
  obtain w u where w: "put_compress X self payload = (w, u)" by fastforce
  have "payload \<noteq> []" using False by simp
  note pc = put_compress_stored [OF laws(2) w this]
  define n where "n = num_blocks (length w)"
  have wl: "0 < length w" "length w < 2 ^ 63" using pc(1,4) small by auto
  note pp = payload_padded [OF wl, folded n_def]
  note pv = padded_size_valid [OF pp(1) wl(1) pp(2)]
  obtain ra self1 where al: "inner_alloc (n * 4096) self = (ra, self1)" by fastforce
  show ?thesis
  proof (cases ra)
    case (Inl e)
    then have "self1 = self" using inner_alloc_Inl(1) [OF inv pv(1)] al by simp
    then show ?thesis using run inv False w pp(1) al Inl by (auto simp: do_put_with_meta_def)
  next
    case (Inr off)
    note ia = inner_alloc_ok [OF inv pv(1,2) al [unfolded Inr]]
    obtain a' where s1: "self1 = self\<lparr>in_allocator := Some a'\<rparr>" using ia(3) by blast
    obtain rw dev where wr: "write_extent X (in_io self1) off w = (rw, dev)" by fastforce
    note wh = write_extent_held [OF laws(1) ia(1) n_def ia(2) wr]
    have rep1: "rep X self A \<Longrightarrow> rep X self1 A" for A by (simp add: rep_def s1)
    show ?thesis
    proof (cases rw)
      case (Inl e)
      have "e \<noteq> Panicked" using wh(3) Inl by simp
      then have res: "r = Inl e" "self' = inner_free off (n * 4096) (self1\<lparr>in_io := dev\<rparr>)"
        using run False w pp(1) al \<open>ra = Inr off\<close> wr Inl by (auto simp: do_put_with_meta_def Let_def)
      have "self' = (inner_free off (n * 4096) self1)\<lparr>in_io := dev\<rparr>"
        unfolding res(2) by (simp add: inner_free_def s1)
      then have eq: "self' = self\<lparr>in_io := dev\<rparr>" using ia(4) by simp
      have "length (dev_data dev) = length (dev_data (in_io self))"
        using dev_frame_length [OF wh(5)] by (simp add: s1)
      then have "store_ok de self'" unfolding eq by (intro space_inv_io inv)
      moreover have "rep X self' A" if "rep X self A" for A
        using wh(2) [OF rep1 [OF that]] by (simp add: rep_def s1 eq)
      ultimately show ?thesis using res eq dev_frame_unit [OF wh(5) ia(2)] by (simp add: s1)
    next
      case (Inr crc)
      define e where "e = \<lparr>ei_offset = off, ei_size = length w, ei_padded_size = n * 4096,
        ei_crc32c = crc, ei_created_txn = sb_txn_id (in_superblock self), ei_last_modified = now,
        ei_meta_len = meta_len, ei_uncompressed_size = u\<rparr>"
      define s2 where "s2 = self1\<lparr>in_io := dev\<rparr>"
      define t where "t = set_tombstones (hm_remove key (ix_tombstones (in_index (free_old key s2)))) (free_old key s2)"
      have res: "r = Inr ()" "self' = insert_entry X key e t"
        using run False w pp(1) al \<open>ra = Inr off\<close> wr Inr
        by (auto simp: do_put_with_meta_def Let_def e_def s2_def t_def)
      have c: "crc = x_crc32c X w" "slice (dev_data dev) off (off + n * 4096) = encode_blocks X w"
        using wh(4) [OF Inr] by auto
      have obj: "obj_ok X (in_compression s2) (dev_data (in_io s2)) e payload"
        unfolding obj_ok_def using c wl pc(2,3) by (intro exI [of _ w]) (auto simp: e_def n_def s2_def s1)
      have ok: "entry_ok de e" using ia(2) by (simp add: entry_ok_def e_def n_def)
      have inv2: "space_inv de (e_range e) s2" using wh(1) by (simp add: e_def s2_def)
      note ce = commit_entry [OF inv2 ok obj, of t key]
      have "store_ok de self'" unfolding res(2) by (rule ce) (simp_all add: t_def)
      moreover have "rep X self' (A(key \<mapsto> (payload, meta_len)))" if "rep X self A" for A
      proof -
        have "rep X s2 A" using wh(2) [OF rep1 [OF that]] by (simp add: s2_def)
        then have "rep X self' (A(key \<mapsto> (payload, ei_meta_len e)))"
          unfolding res(2) by (intro ce) (simp_all add: t_def)
        then show ?thesis by (simp add: e_def)
      qed
      moreover have "in_io self' = dev" unfolding res(2) by (simp add: t_def s2_def)
      ultimately show ?thesis using res(1) False dev_frame_unit [OF wh(5) ia(2)] by (auto simp: s1)
    qed
  qed
qed

text \<open>A put of a valid object succeeds when the free list has room and the device does not fail.\<close>

lemma do_put_succeeds:
  assumes laws: "crc_laws X" "codec_laws X" and inv: "store_ok de self"
    and small: "length payload < 2 ^ 63"
    and req: "\<not> in_read_only self" "payload \<noteq> []" "length key \<le> in_max_key_length self"
    and a: "in_allocator self = Some a"
    and room: "{x..<x + num_blocks (length payload) * 4096} \<subseteq> free_set a"
    and dev: "\<not> dev_read_only (in_io self)" "\<And>n. dev_wfault (in_io self) n = None"
  shows "fst (do_put_with_meta X now key payload meta_len self) = Inr ()"
proof -
  obtain w u where w: "put_compress X self payload = (w, u)" by fastforce
  note pc = put_compress_stored [OF laws(2) w req(2)]
  define n where "n = num_blocks (length w)"
  have wl: "0 < length w" "length w < 2 ^ 63" using pc(1,4) small by auto
  note pp = payload_padded [OF wl, folded n_def]
  note pv = padded_size_valid [OF pp(1) wl(1) pp(2)]
  have "length w \<le> num_blocks (length payload) * 4092"
    using pc(1) num_blocks_ge [of "length payload"] by linarith
  then have "n \<le> num_blocks (length payload)" by (simp add: n_def num_blocks_le_iff)
  then have "{x..<x + n * 4096} \<subseteq> free_set a" using room by (force simp: subset_iff)
  moreover obtain ra self1 where al: "inner_alloc (n * 4096) self = (ra, self1)" by fastforce
  ultimately obtain off where ra: "ra = Inr off"
    using inner_alloc_Inl(2) [OF inv pv(1) _ a, of _ self1 x] pv(2) by (cases ra) auto
  note ia = inner_alloc_ok [OF inv pv(1,2) al [unfolded ra]]
  obtain a' where s1: "self1 = self\<lparr>in_allocator := Some a'\<rparr>" using ia(3) by blast
  have "extent_fits (in_io self1) off (num_blocks (length w))"
    using ia(1,2) unfolding n_def by (intro area_unit_fits [of de]) (auto simp: space_inv_def)
  then have "fst (encode_and_write_batched X (in_io self1) off w) = Inr ()"
    using dev by (intro encode_and_write_ok) (simp_all add: s1)
  then obtain d where "encode_and_write_batched X (in_io self1) off w = (Inr (), d)"
    by (metis prod.collapse)
  then have "write_extent X (in_io self1) off w = (Inr (x_crc32c X w), d)"
    by (simp add: write_extent_eq [OF laws(1)])
  then show ?thesis
    using req w pp(1) al ra by (simp add: do_put_with_meta_def Let_def)
qed

section \<open>Get\<close>

lemma name_corruption_Inr [simp]: "name_corruption k r = Inr x \<longleftrightarrow> r = Inr x"
  by (cases "(k, r)" rule: name_corruption.cases) auto

lemma stored_fits:
  assumes inv: "store_ok de self" and e: "hm_get (files_of self) k = Some e"
  shows "extent_fits (in_io self) (ei_offset e) (num_blocks (ei_size e))"
proof -
  have "entry_ok de e" using inv e by (auto simp: space_inv_def files_inv_def)
  then show ?thesis using inv by (intro area_unit_fits [of de]) (auto simp: space_inv_def entry_ok_def)
qed

lemma obj_ok_read:
  assumes obj: "obj_ok X c (dev_data dev) e p" and fits: "extent_fits dev (ei_offset e) (num_blocks (ei_size e))"
  obtains w where "length w = ei_size e"
    and "extent_bytes dev (ei_offset e) (num_blocks (ei_size e)) = encode_blocks X w"
    and "\<And>r. read_and_decode_batched X dev (ei_offset e) (ei_size e) = Inr r \<Longrightarrow> r = w"
    and "(\<And>i k. \<not> dev_rfault dev i k) \<Longrightarrow> read_and_decode_batched X dev (ei_offset e) (ei_size e) = Inr w"
    and "if ei_uncompressed_size e = 0 then p = w
         else c \<noteq> CNone \<and> decompress X c w = Inr p \<and> ei_uncompressed_size e = length p"
proof -
  from obj obtain w where w: "length w = ei_size e"
    "extent_bytes dev (ei_offset e) (num_blocks (ei_size e)) = encode_blocks X w"
    "if ei_uncompressed_size e = 0 then p = w
     else c \<noteq> CNone \<and> decompress X c w = Inr p \<and> ei_uncompressed_size e = length p"
    unfolding obj_ok_def by blast
  have fw: "extent_fits dev (ei_offset e) (num_blocks (length w))"
    "extent_bytes dev (ei_offset e) (num_blocks (length w)) = encode_blocks X w"
    using fits w by simp_all
  show ?thesis
  proof (rule that [OF w(1,2) _ _ w(3)])
    show "r = w" if "read_and_decode_batched X dev (ei_offset e) (ei_size e) = Inr r" for r
      by (rule stored_read_Inr [OF fw]) (simp add: w(1) that)
    show "read_and_decode_batched X dev (ei_offset e) (ei_size e) = Inr w" if "\<And>i k. \<not> dev_rfault dev i k"
      using stored_read_ok [OF fw that] by (simp add: w(1))
  qed
qed

lemma do_get_missing: "rep X self A \<Longrightarrow> A k = None \<Longrightarrow> do_get X k self = Inl (NotFound k)"
  using rep_None [of X self A k] by (simp add: do_get_def lookup_info_def)

lemma do_get_sound:
  assumes inv: "store_ok de self" and rep: "rep X self A" and run: "do_get X k self = Inr (p, e)"
  shows "A k = Some (p, ei_meta_len e)"
proof -
  have e: "hm_get (files_of self) k = Some e"
    using run by (auto simp: do_get_def lookup_info_def bind_res_Inr_iff split: option.splits)
  obtain q where q: "A k = Some (q, ei_meta_len e)"
    and obj: "obj_ok X (in_compression self) (dev_data (in_io self)) e q"
    using rep_Some [OF rep e] by metis
  obtain w where rd: "\<And>r. read_and_decode_batched X (in_io self) (ei_offset e) (ei_size e) = Inr r \<Longrightarrow> r = w"
    and dec: "if ei_uncompressed_size e = 0 then q = w
       else in_compression self \<noteq> CNone \<and> decompress X (in_compression self) w = Inr q \<and> ei_uncompressed_size e = length q"
    using obj_ok_read [OF obj stored_fits [OF inv e]] by metis
  have "p = q"
    using run rd dec
    by (auto simp: do_get_def lookup_info_def bind_res_Inr_iff e split: if_splits)
  then show ?thesis using q by simp
qed

lemma do_get_complete:
  assumes inv: "store_ok de self" and rep: "rep X self A" and A: "A k = Some (p, ml)"
    and nf: "\<And>i n. \<not> dev_rfault (in_io self) i n"
  shows "\<exists>e. do_get X k self = Inr (p, e) \<and> ei_meta_len e = ml \<and> hm_get (files_of self) k = Some e"
proof -
  obtain e where e: "hm_get (files_of self) k = Some e"
    using rep_None [OF rep, of k] A by (cases "hm_get (files_of self) k") auto
  have m: "ei_meta_len e = ml" and obj: "obj_ok X (in_compression self) (dev_data (in_io self)) e p"
    using rep_Some [OF rep e] A by (metis Pair_inject option.inject)+
  obtain w where rd: "read_and_decode_batched X (in_io self) (ei_offset e) (ei_size e) = Inr w"
    and dec: "if ei_uncompressed_size e = 0 then p = w
       else in_compression self \<noteq> CNone \<and> decompress X (in_compression self) w = Inr p \<and> ei_uncompressed_size e = length p"
    using obj_ok_read [OF obj stored_fits [OF inv e]] nf by metis
  then show ?thesis using e m by (auto simp: do_get_def lookup_info_def split: if_splits)
qed

text \<open>Range reads return the slice of the payload.\<close>

lemma block_range_bounds:
  assumes "a < b" and "b \<le> len"
  defines "f \<equiv> a div 4092" and "l \<equiv> (b - 1) div 4092"
  shows "f \<le> l" and "l < num_blocks len" and "f * 4092 \<le> a" and "b \<le> (l + 1) * 4092"
proof -
  show "f \<le> l" using assms(1) unfolding f_def l_def by (intro div_le_mono) simp
  have "l * 4092 \<le> b - 1" by (simp add: l_def)
  then show "l < num_blocks len" using assms(1,2) by (simp add: less_num_blocks_iff)
  show "f * 4092 \<le> a" by (simp add: f_def)
  show "b \<le> (l + 1) * 4092" using assms(1) by (simp add: l_def)
qed

lemma do_get_range_plain:
  assumes inv: "store_ok de self" and e: "hm_get (files_of self) k = Some e"
    and obj: "obj_ok X (in_compression self) (dev_data (in_io self)) e p"
    and plain: "ei_uncompressed_size e = 0" and range: "a < b" "b \<le> length p"
  shows "do_get_range X k a b self =
    bind_res (pread (in_io self) (ei_offset e + a div 4092 * 4096) (((b - 1) div 4092 - a div 4092 + 1) * 4096))
      (\<lambda>_. Inr (slice p a b, e))"
    and "(\<And>i n. \<not> dev_rfault (in_io self) i n) \<Longrightarrow> do_get_range X k a b self = Inr (slice p a b, e)"
proof -
  let ?f = "a div 4092" and ?l = "(b - 1) div 4092"
  let ?k = "?l - ?f + 1"
  note fits = stored_fits [OF inv e]
  obtain w where w: "length w = ei_size e"
    "extent_bytes (in_io self) (ei_offset e) (num_blocks (ei_size e)) = encode_blocks X w" and pw: "p = w"
    using obj_ok_read [OF obj fits] plain by (metis (full_types))
  note bb = block_range_bounds [OF range]
  have fk: "?f + ?k = ?l + 1" "?f + ?k \<le> num_blocks (length w)" using bb(1,2) pw by auto
  have len: "ei_offset e + num_blocks (ei_size e) * 4096 < 2 ^ 64" by (rule extent_fits_bound [OF fits])
  have le: "(?f + ?k) * 4096 \<le> num_blocks (ei_size e) * 4096"
    using fk(2) w(1) by (intro mult_le_mono1) simp
  then have b1: "ei_offset e + ?f * 4096 < 2 ^ 64" "?k * 4096 < 2 ^ 64"
    using len unfolding add_mult_distrib by linarith+
  have "?l < 2 ^ 64"
  proof -
    have "?l * 4096 \<le> (?f + ?k) * 4096" using fk(1) by simp
    then show ?thesis using le len by linarith
  qed
  then have us: "uadd (usub ?l ?f) 1 = ?k" using bb(1) b1(2) by (simp add: u64_simps)
  have cm: "checked_mul ?f 4096 = Some (?f * 4096)"
    "checked_add (ei_offset e) (?f * 4096) = Some (ei_offset e + ?f * 4096)"
    "checked_mul ?k 4096 = Some (?k * 4096)"
    using b1 by (auto simp: checked_mul_def checked_add_def)
  have dec: "decode_block_range X raw ?f a b = Inr (slice p a b)"
    if "pread (in_io self) (ei_offset e + ?f * 4096) (?k * 4096) = Inr raw" for raw
  proof -
    have "raw = slice (dev_data (in_io self)) (ei_offset e + ?f * 4096) (ei_offset e + ?f * 4096 + ?k * 4096)"
      using that by (rule pread_Inr)
    also have "\<dots> = enc_blocks X w ?f (?f + ?k)"
      using w fk(2) by (intro extent_sub_blocks) simp_all
    finally have "raw = enc_blocks X w ?f (?f + ?k)" .
    moreover have "b \<le> (?f + ?k) * 4092" unfolding fk(1) by (rule bb(4))
    then have "decode_block_range X (enc_blocks X w ?f (?f + ?k)) ?f a b = Inr (slice w a b)"
      using range pw by (intro decode_block_range_encoded bb(3) fk(2)) simp_all
    ultimately show ?thesis using pw by simp
  qed
  show eq: "do_get_range X k a b self =
      bind_res (pread (in_io self) (ei_offset e + ?f * 4096) (?k * 4096)) (\<lambda>_. Inr (slice p a b, e))"
    using e plain us cm dec
    by (cases "pread (in_io self) (ei_offset e + ?f * 4096) (?k * 4096)")
      (simp_all add: do_get_range_def lookup_info_def checked_or_def saturating_sub_def)
  show "do_get_range X k a b self = Inr (slice p a b, e)" if "\<And>i n. \<not> dev_rfault (in_io self) i n"
    using pread_batch_ok [OF fits _ that, of ?f ?k] fk(2) w(1) unfolding eq by simp
qed

lemma do_get_range_compressed:
  assumes inv: "store_ok de self" and rep: "rep X self A" and A: "A k = Some (p, ml)"
    and e: "hm_get (files_of self) k = Some e" "ei_uncompressed_size e \<noteq> 0"
    and small: "length p \<le> COMPRESSED_RANGE_READ_MAX"
    and range: "a \<le> b" "b \<le> length p"
  shows "do_get_range X k a b self = Inr (q, e') \<Longrightarrow> q = slice p a b"
    and "(\<And>i n. \<not> dev_rfault (in_io self) i n) \<Longrightarrow> do_get_range X k a b self = Inr (slice p a b, e)"
proof -
  have "obj_ok X (in_compression self) (dev_data (in_io self)) e p"
    using rep_Some [OF rep e(1)] A by (metis Pair_inject option.inject)
  then have u: "ei_uncompressed_size e = length p" using e(2) by (auto simp: obj_ok_def)
  have eq: "do_get_range X k a b self = bind_res (do_get X k self) (\<lambda>(full_data, info').
      let e = min b (length full_data); s = min a e in Inr (slice full_data s e, info'))"
    using e u small by (simp add: do_get_range_def lookup_info_def)
  show "q = slice p a b" if "do_get_range X k a b self = Inr (q, e')"
    using that do_get_sound [OF inv rep] A range unfolding eq
    by (auto simp: bind_res_Inr_iff min_def Let_def split: if_splits)
  show "do_get_range X k a b self = Inr (slice p a b, e)" if "\<And>i n. \<not> dev_rfault (in_io self) i n"
    using do_get_complete [OF inv rep A that] e(1) range unfolding eq by (auto simp: min_def Let_def)
qed

section \<open>Copy\<close>

lemma write_at_slice_grow:
  assumes "c \<le> n" and "dst + n \<le> length d" and "length w = n - c"
  shows "slice (write_at d (dst + c) w) dst (dst + n) = slice d dst (dst + c) @ w"
proof -
  have "slice (write_at d (dst + c) w) dst (dst + n) =
      slice (write_at d (dst + c) w) dst (dst + c) @ slice (write_at d (dst + c) w) (dst + c) (dst + n)"
    using assms(1) by (simp add: slice_split)
  moreover have "slice (write_at d (dst + c) w) dst (dst + c) = slice d dst (dst + c)"
    using assms by (intro slice_write_at_disjoint) auto
  moreover have "slice (write_at d (dst + c) w) (dst + c) (dst + n) = w"
    using slice_write_at_same [of "dst + c" w d] assms by simp
  ultimately show ?thesis by simp
qed

text \<open>
  The copy loop between two disjoint extents: only destination bytes change, every error frees
  the new extent, and on success the destination equals the source.
\<close>

lemma copy_loop_spec:
  assumes "4096 dvd src" and "4096 dvd dst" and "4096 dvd n" and "4096 dvd c" and "c \<le> n"
    and "src + n \<le> length (dev_data dev)" and "dst + n \<le> length (dev_data dev)"
    and "length (dev_data dev) + 4096 \<le> 2 ^ 64"
    and "{src..<src + n} \<inter> {dst..<dst + n} = {}"
    and "slice (dev_data dev) dst (dst + c) = slice (dev_data dev) src (src + c)"
    and "copy_loop src dst n c dev = (r, dev')"
  shows "dev_frame dev dev' dst (dst + n) \<and>
    (case r of Inl (e, freed) \<Rightarrow> freed
     | Inr _ \<Rightarrow> slice (dev_data dev') dst (dst + n) = slice (dev_data dev) src (src + n))"
  using assms(4,5,6,7,8,10,11)
proof (induction "n - c" arbitrary: c dev rule: less_induct)
  case less
  show ?case
  proof (cases "c < n")
    case False
    then show ?thesis using less.prems by (subst (asm) copy_loop.simps) auto
  next
    case True
    define m where "m = min (n - c) COPY_BATCH_SIZE"
    have dm: "4096 dvd m"
      using assms(3) less.prems(1) True
      by (auto simp: m_def COPY_BATCH_SIZE_def min_def dvd_diff_nat)
    have m: "0 < m" "c + m \<le> n" using True by (auto simp: m_def COPY_BATCH_SIZE_def)
    have ca: "checked_add src c = Some (src + c)" "checked_add dst c = Some (dst + c)"
      using less.prems True by (auto simp: checked_add_def)
    have small: "m + 4095 < 2 ^ 64" using m less.prems(3,5) by linarith
    have step: "copy_loop src dst n c dev =
        (case pread dev (src + c) m of Inl e \<Rightarrow> (Inl (e, e \<noteq> Panicked), dev)
         | Inr raw \<Rightarrow> (case pwrite dev (dst + c) raw of (Inl e, dev') \<Rightarrow> (Inl (e, e \<noteq> Panicked), dev')
            | (Inr _, dev') \<Rightarrow> copy_loop src dst n (c + m) dev'))"
      unfolding m_def using True by (subst copy_loop.simps) (simp add: Let_def ca)
    have als: "4096 dvd src + c" "4096 dvd dst + c" using assms(1,2) less.prems(1) by auto
    show ?thesis
    proof (cases "pread dev (src + c) m")
      case (Inl e)
      then have "e \<noteq> Panicked" using pread_no_panic [OF als(1) small, of dev] by auto
      then show ?thesis using less.prems(7) step Inl by auto
    next
      case (Inr raw)
      have raw: "raw = slice (dev_data dev) (src + c) (src + c + m)" "length raw = m"
        using pread_Inr [OF Inr] by auto
      have fits: "dst + c + write_span dev (length raw) \<le> length (dev_data dev)"
        using raw(2) dm m less.prems(4) by simp
      have sm: "length raw + 4095 < 2 ^ 64" using small raw(2) by simp
      have ne: "raw \<noteq> []" using raw(2) m by auto
      obtain rw dev1 where pw: "pwrite dev (dst + c) raw = (rw, dev1)" by fastforce
      have fr: "dev_frame dev dev1 (dst + c) (dst + c + m)"
        using pwrite_frame [OF fits sm] pw raw(2) dm by simp
      then have fr': "dev_frame dev dev1 dst (dst + n)" using m by (auto intro: dev_frame_weaken)
      show ?thesis
      proof (cases rw)
        case (Inl e)
        then have "e \<noteq> Panicked" using pwrite_no_panic [OF als(2) ne sm, of dev] pw by auto
        then show ?thesis using less.prems(7) step \<open>pread dev (src + c) m = Inr raw\<close> pw Inl fr' by auto
      next
        case (Inr u)
        have run1: "copy_loop src dst n (c + m) dev1 = (r, dev')"
          using less.prems(7) step \<open>pread dev (src + c) m = Inr raw\<close> pw Inr by simp
        have len1: "length (dev_data dev1) = length (dev_data dev)" using fr by (rule dev_frame_length)
        have d1: "dev_data dev1 = write_at (dev_data dev) (dst + c) raw"
          using pwrite_Inr [OF fits sm] pw Inr raw(2) dm by simp
        have src1: "slice (dev_data dev1) src (src + q) = slice (dev_data dev) src (src + q)" if "q \<le> n" for q
        proof (rule dev_frame_slice [OF fr'])
          have "0 < n" using True by simp
          then have "src + n \<le> dst \<or> dst + n \<le> src" using assms(9) by auto
          then show "src + q \<le> dst \<or> dst + n \<le> src" using that by auto
        qed
        have "slice (dev_data dev1) dst (dst + (c + m)) = slice (dev_data dev) dst (dst + c) @ raw"
          unfolding d1 using m less.prems(4) raw(2) by (intro write_at_slice_grow) auto
        also have "\<dots> = slice (dev_data dev) src (src + (c + m))"
          unfolding less.prems(6) raw(1) add.assoc [symmetric] by (rule slice_split) simp_all
        also have "\<dots> = slice (dev_data dev1) src (src + (c + m))" using src1 [of "c + m"] m by simp
        finally have pre: "slice (dev_data dev1) dst (dst + (c + m)) = slice (dev_data dev1) src (src + (c + m))" .
        have "dev_frame dev1 dev' dst (dst + n) \<and> (case r of Inl (e, freed) \<Rightarrow> freed
            | Inr _ \<Rightarrow> slice (dev_data dev') dst (dst + n) = slice (dev_data dev1) src (src + n))"
          using less.hyps [of "c + m" dev1] m True less.prems dm len1 pre run1 by simp
        then show ?thesis
          using dev_frame_trans [OF fr'] src1 [of n] by (auto split: sum.splits)
      qed
    qed
  qed
qed

lemma do_copy_spec:
  assumes inv: "store_ok de self" and run: "do_copy X now from to self = (r, self')"
  shows "store_ok de self' \<and> dev_frame (in_io self) (in_io self') DATA_START de \<and>
    (case r of
       Inl e \<Rightarrow> self' = self\<lparr>in_io := in_io self'\<rparr> \<and> (\<forall>A. rep X self A \<longrightarrow> rep X self' A)
     | Inr _ \<Rightarrow> \<not> in_read_only self \<and> length to \<le> in_max_key_length self \<and>
         (\<forall>A. rep X self A \<longrightarrow> A from \<noteq> None \<and> rep X self' (A(to := A from))))"
proof (cases "in_read_only self \<or> length to > in_max_key_length self \<or> hm_get (files_of self) from = None")
  case True
  then have "\<exists>e. do_copy X now from to self = (Inl e, self)"
    by (cases "in_read_only self"; cases "length to > in_max_key_length self")
      (simp_all add: do_copy_def lookup_info_def)
  then show ?thesis using run inv by auto
next
  case False
  then obtain info where info: "hm_get (files_of self) from = Some info" by auto
  let ?n = "num_blocks (ei_size info) * 4096"
  have ok: "entry_ok de info" using inv info by (auto simp: space_inv_def files_inv_def)
  then have pn: "ei_padded_size info = ?n" and unit: "area_unit DATA_START de (ei_offset info) ?n"
    by (auto simp: entry_ok_def)
  have room: "dev_room de (in_io self)" using inv by (simp add: space_inv_def)
  have pos: "0 < ?n" "ei_offset info + ?n \<le> de" "4096 dvd ei_offset info" using unit by (auto simp: area_unit_def)
  then have "?n + 4096 \<le> 2 ^ 64" using room unfolding dev_room_def by linarith
  then have pv: "size_valid ?n" "align_up ?n 4096 = ?n"
    using pos by (auto simp: size_valid_def intro!: align_up_multiple)
  obtain ra self1 where al: "inner_alloc ?n self = (ra, self1)" by fastforce
  show ?thesis
  proof (cases ra)
    case (Inl e)
    then have "self1 = self" using inner_alloc_Inl(1) [OF inv pv(1)] al by simp
    then show ?thesis using run inv False info al Inl pn by (auto simp: do_copy_def lookup_info_def)
  next
    case (Inr off)
    note ia = inner_alloc_ok [OF inv pv al [unfolded Inr]]
    obtain a' where s1: "self1 = self\<lparr>in_allocator := Some a'\<rparr>" using ia(3) by blast
    have rep1: "rep X self A \<Longrightarrow> rep X self1 A" for A by (simp add: rep_def s1)
    have dis: "{ei_offset info..<ei_offset info + ?n} \<inter> {off..<off + ?n} = {}"
    proof -
      have "{off..<off + ?n} \<inter> used (hm_get (files_of self)) = {}"
        using ia(1) by (simp add: space_inv_def s1)
      then show ?thesis
        using e_range_used [of "hm_get (files_of self)" "from" info] info unfolding pn by blast
    qed
    obtain rc dev where cl: "copy_loop (ei_offset info) off ?n 0 (in_io self1) = (rc, dev)" by fastforce
    have cs: "dev_frame (in_io self1) dev off (off + ?n) \<and>
      (case rc of Inl (e, freed) \<Rightarrow> freed
       | Inr _ \<Rightarrow> slice (dev_data dev) off (off + ?n) =
           slice (dev_data (in_io self1)) (ei_offset info) (ei_offset info + ?n))"
      by (rule copy_loop_spec [OF _ _ _ _ _ _ _ _ dis _ cl])
        (use pos ia(2) room in \<open>auto simp: area_unit_def dev_room_def s1\<close>)
    have fr: "dev_frame (in_io self1) dev off (off + ?n)" using cs by simp
    define s2 where "s2 = self1\<lparr>in_io := dev\<rparr>"
    have inv2: "space_inv de {off..<off + ?n} s2"
      unfolding s2_def using ia(1) by (intro space_inv_io) (auto simp: dev_frame_length [OF fr])
    have rep2: "rep X s2 A" if "rep X self A" for A
      unfolding s2_def using ia(1)
      by (intro rep_frame [OF rep1 [OF that] _ fr, of de]) (auto simp: space_inv_def)
    show ?thesis
    proof (cases rc)
      case (Inl ef)
      then obtain e where ef: "ef = (e, True)" using cs by (cases ef) auto
      have res: "r = Inl e" "self' = inner_free off ?n (self1\<lparr>in_io := dev\<rparr>)"
        using run False info al Inr cl Inl ef pn by (auto simp: do_copy_def lookup_info_def)
      have "self' = (inner_free off ?n self1)\<lparr>in_io := dev\<rparr>"
        unfolding res(2) by (simp add: inner_free_def s1)
      then have eq: "self' = self\<lparr>in_io := dev\<rparr>" using ia(4) by simp
      have "length (dev_data dev) = length (dev_data (in_io self))"
        using dev_frame_length [OF fr] by (simp add: s1)
      then have "store_ok de self'" unfolding eq by (intro space_inv_io inv)
      moreover have "rep X self' A" if "rep X self A" for A
        using rep2 [OF that] by (simp add: rep_def s1 s2_def eq)
      ultimately show ?thesis using res eq dev_frame_unit [OF fr ia(2)] by (simp add: s1)
    next
      case (Inr u)
      define e where "e = info\<lparr>ei_offset := off, ei_created_txn := sb_txn_id (in_superblock self),
        ei_last_modified := now\<rparr>"
      have res: "r = Inr ()" "self' = insert_entry X to e (free_old to s2)"
        using run False info al \<open>ra = Inr off\<close> cl Inr pn by (auto simp: do_copy_def lookup_info_def e_def s2_def)
      have oke: "entry_ok de e" using ia(2) pn by (simp add: entry_ok_def e_def)
      have inve: "space_inv de (e_range e) s2" using inv2 pn by (simp add: e_def)
      have same: "slice (dev_data dev) off (off + ?n) = slice (dev_data (in_io self)) (ei_offset info) (ei_offset info + ?n)"
        using cs Inr by (simp add: s1)
      have obj: "obj_ok X (in_compression s2) (dev_data (in_io s2)) e p"
        if "obj_ok X (in_compression self) (dev_data (in_io self)) info p" for p
      proof -
        have f: "ei_offset e = off" "ei_size e = ei_size info" "ei_crc32c e = ei_crc32c info"
          "ei_uncompressed_size e = ei_uncompressed_size info" "in_compression s2 = in_compression self"
          "in_io s2 = dev"
          by (simp_all add: e_def s2_def s1)
        show ?thesis using that unfolding obj_ok_def f same .
      qed
      have "space_inv de (e_range e) (free_old to s2)" "hm_get (files_of (free_old to s2)) to = None"
        by (rule free_old_inv [OF inve])+
      then have "store_ok de self'" unfolding res(2) by (rule insert_entry_inv(1) [OF _ oke])
      moreover have "A from \<noteq> None \<and> rep X self' (A(to := A from))" if rA: "rep X self A" for A
      proof -
        obtain p where p: "A from = Some (p, ei_meta_len info)"
          "obj_ok X (in_compression self) (dev_data (in_io self)) info p"
          using rep_Some [OF rA info] by metis
        have "rep X self' (A(to \<mapsto> (p, ei_meta_len e)))"
          unfolding res(2)
          by (rule commit_entry(2) [OF inve oke obj [OF p(2)] _ _ _ _ _ _ rep2 [OF rA]]) simp_all
        then show ?thesis using p(1) by (simp add: e_def)
      qed
      moreover have "in_io self' = dev" unfolding res(2) by (simp add: s2_def)
      ultimately show ?thesis using res(1) False dev_frame_unit [OF fr ia(2)] by (auto simp: s1)
    qed
  qed
qed

end
