(* ===== verification/Object_Store.thy ===== *)
theory Object_Store
  imports Store_Ops
begin

text \<open>
  The \<open>ObjectStore\<close> implementation of the raw store (\<open>rawobjstr/src/store.rs\<close>): put with its
  modes, ranged and full get, delete, the listings, copy and rename, and the multipart upload.

  Every call takes the store's write or read lock once, so a call is one step on \<open>inner\<close>. A
  location is its key string. The third-party \<open>object_store::Path\<close> parsing and prefix test that the
  listings use are the parameter \<open>path_api\<close>.
\<close>

section \<open>Errors and metadata\<close>

datatype os_error =
    OsNotFound string raw_store_error
  | OsAlreadyExists string raw_store_error
  | OsPrecondition string raw_store_error
  | OsGeneric raw_store_error

fun to_os_error :: "raw_store_error \<Rightarrow> os_error" where
  "to_os_error (NotFound path) = OsNotFound path (NotFound path)"
| "to_os_error (AlreadyExists path) = OsAlreadyExists path (AlreadyExists path)"
| "to_os_error e = OsGeneric e"

definition map_os :: "'a result \<Rightarrow> os_error + 'a" where
  "map_os r = (case r of Inl e \<Rightarrow> Inl (to_os_error e) | Inr x \<Rightarrow> Inr x)"

record object_meta =
  om_location :: string
  om_last_modified :: int
  om_size :: nat

record path_api =
  pa_of_key :: "string \<Rightarrow> string"
  pa_prefix_matches :: "string \<Rightarrow> string \<Rightarrow> bool"

definition logical_size :: "extent_info \<Rightarrow> nat" where
  "logical_size info = (if ei_uncompressed_size info > 0 then ei_uncompressed_size info else ei_size info)"

definition meta_for :: "string \<Rightarrow> extent_info \<Rightarrow> object_meta" where
  "meta_for location info =
     \<lparr>om_location = location, om_last_modified = ei_last_modified info,
      om_size = saturating_sub (logical_size info) (ei_meta_len info)\<rparr>"

section \<open>Put\<close>

datatype put_mode = ModeCreate | ModeOverwrite | ModeUpdate "string option" "string option"

definition put_opts ::
  "'x store_env_scheme \<Rightarrow> int \<Rightarrow> string \<Rightarrow> byte list \<Rightarrow> put_mode \<Rightarrow> inner \<Rightarrow> (os_error + unit) \<times> inner" where
  "put_opts X now key bytes mode self =
     (let proceed = (case do_put X now key bytes self of (r, self') \<Rightarrow> (map_os r, self')) in
      case mode of
        ModeCreate \<Rightarrow>
          (if hm_get (files_of self) key \<noteq> None
           then (Inl (OsAlreadyExists key (AlreadyExists key)), self) else proceed)
      | ModeOverwrite \<Rightarrow> proceed
      | ModeUpdate e_tag version \<Rightarrow>
          (if e_tag \<noteq> None \<or> version \<noteq> None
           then (Inl (OsPrecondition key (Io Unsupported)), self) else proceed))"

definition put_with_meta ::
  "'x store_env_scheme \<Rightarrow> int \<Rightarrow> string \<Rightarrow> byte list \<Rightarrow> byte list \<Rightarrow> inner \<Rightarrow> unit result \<times> inner" where
  "put_with_meta X now key body metadata self =
     (if length metadata > 65535 then (Inl (MetadataTooLarge (length metadata) 65535), self)
      else do_put_with_meta X now key (body @ metadata) (length metadata) self)"

section \<open>Get\<close>

datatype get_range = Bounded nat nat | Offset nat | Suffix nat

text \<open>The byte range of the body that a request names, clamped as the source does.\<close>

fun resolve_range :: "nat \<Rightarrow> get_range \<Rightarrow> nat \<times> nat" where
  "resolve_range total_size (Bounded s e) =
     (let st = min s total_size; en = min e total_size in (min st en, en))"
| "resolve_range total_size (Offset off) = (min off total_size, total_size)"
| "resolve_range total_size (Suffix s) = (saturating_sub total_size s, total_size)"

definition get_ranged ::
  "'x store_env_scheme \<Rightarrow> string \<Rightarrow> get_range \<Rightarrow> inner \<Rightarrow>
     os_error + (byte list \<times> object_meta \<times> nat \<times> nat)" where
  "get_ranged X key rng self =
     (case hm_get (files_of self) key of
        None \<Rightarrow> Inl (to_os_error (NotFound key))
      | Some ei \<Rightarrow>
          (let total_size = saturating_sub (logical_size ei) (ei_meta_len ei);
               (s, e) = resolve_range total_size rng
           in bind_res (map_os (do_get_range X key s e self)) (\<lambda>(bytes, info).
                Inr (bytes, meta_for key info, s, e))))"

text \<open>
  The full get of an uncompressed object: the metadata, the range and the chunks that the stream
  yields. A stream that fails yields the error and, as the source keeps polling its reader, the
  model stops there. A snappy body is read and decompressed in one piece; for the other codecs
  the block reader is the source of a streaming decoder, from which \<open>body_size\<close> bytes are read.
\<close>

definition full_body :: "'x store_env_scheme \<Rightarrow> string \<Rightarrow> inner \<Rightarrow> extent_info \<Rightarrow> os_error + byte list" where
  "full_body X key self info =
     (if ei_uncompressed_size info > 0 then
        (let body_size = saturating_sub (ei_uncompressed_size info) (ei_meta_len info)
         in if in_compression self = Snappy then
              bind_res (map_os (name_corruption key
                (read_and_decode_batched X (in_io self) (ei_offset info) (ei_size info)))) (\<lambda>compressed.
              bind_res (map_os (decompress X (in_compression self) compressed)) (\<lambda>bytes.
              Inr (take (min body_size (length bytes)) bytes)))
            else
              (let (source, failed) = drain_chunks X (in_io self) (br_new (ei_offset info) (ei_size info))
               in case x_decode_stream X (in_compression self) body_size source failed of
                    Some body \<Rightarrow> Inr body
                  | None \<Rightarrow> Inl (OsGeneric (Io OtherKind))))
      else
        (let body_size = saturating_sub (ei_size info) (ei_meta_len info)
         in if body_size = 0 then Inr []
            else map_os (collect_chunks X (in_io self) (br_new (ei_offset info) body_size) [])))"

definition get_full ::
  "'x store_env_scheme \<Rightarrow> string \<Rightarrow> inner \<Rightarrow> os_error + (byte list \<times> object_meta)" where
  "get_full X key self =
     (case hm_get (files_of self) key of
        None \<Rightarrow> Inl (to_os_error (NotFound key))
      | Some info \<Rightarrow>
          bind_res (full_body X key self info) (\<lambda>body. Inr (body, meta_for key info)))"

section \<open>Delete, copy and rename\<close>

text \<open>Removal of an entry with its extent, as \<open>delete\<close> and the multipart clean-up do it.\<close>

definition remove_entry :: "'x store_env_scheme \<Rightarrow> string \<Rightarrow> inner \<Rightarrow> inner" where
  "remove_entry X key self =
     (case hm_get (files_of self) key of
        Some info \<Rightarrow> mark_shard_dirty X key (free_old key self)
      | None \<Rightarrow> self)"

definition delete_object :: "'x store_env_scheme \<Rightarrow> string \<Rightarrow> inner \<Rightarrow> (os_error + unit) \<times> inner" where
  "delete_object X key self =
     (if in_read_only self then (Inl (to_os_error ReadOnly), self)
      else (Inr (),
        case hm_get (files_of self) key of
          Some info \<Rightarrow> (remove_entry X key self)\<lparr>in_dirty := True\<rparr>
        | None \<Rightarrow> self))"

definition copy_object ::
  "'x store_env_scheme \<Rightarrow> int \<Rightarrow> string \<Rightarrow> string \<Rightarrow> inner \<Rightarrow> (os_error + unit) \<times> inner" where
  "copy_object X now from_key to_key self =
     (case do_copy X now from_key to_key self of (r, self') \<Rightarrow> (map_os r, self'))"

definition copy_if_not_exists ::
  "'x store_env_scheme \<Rightarrow> int \<Rightarrow> string \<Rightarrow> string \<Rightarrow> inner \<Rightarrow> (os_error + unit) \<times> inner" where
  "copy_if_not_exists X now from_key to_key self =
     (if hm_get (files_of self) to_key \<noteq> None
      then (Inl (OsAlreadyExists to_key (AlreadyExists to_key)), self)
      else copy_object X now from_key to_key self)"

definition rename_object ::
  "'x store_env_scheme \<Rightarrow> string \<Rightarrow> string \<Rightarrow> inner \<Rightarrow> (os_error + unit) \<times> inner" where
  "rename_object X from_key to_key self =
     (if in_read_only self then (Inl (to_os_error ReadOnly), self)
      else if length to_key > in_max_key_length self
      then (Inl (to_os_error (KeyTooLong (length to_key) (in_max_key_length self))), self)
      else
        (case hm_get (files_of self) from_key of
           None \<Rightarrow> (Inl (OsNotFound from_key (NotFound from_key)), self)
         | Some info \<Rightarrow>
             (let self1 = set_files (hm_remove from_key (files_of self)) self;
                  self2 = free_old to_key self1;
                  self3 = mark_shard_dirty X to_key (mark_shard_dirty X from_key self2)
              in (Inr (), (set_files (hm_insert to_key info (files_of self3)) self3)\<lparr>in_dirty := True\<rparr>))))"

definition rename_if_not_exists ::
  "'x store_env_scheme \<Rightarrow> string \<Rightarrow> string \<Rightarrow> inner \<Rightarrow> (os_error + unit) \<times> inner" where
  "rename_if_not_exists X from_key to_key self =
     (if in_read_only self then (Inl (to_os_error ReadOnly), self)
      else if length to_key > in_max_key_length self
      then (Inl (to_os_error (KeyTooLong (length to_key) (in_max_key_length self))), self)
      else if hm_get (files_of self) to_key \<noteq> None
      then (Inl (OsAlreadyExists to_key (AlreadyExists to_key)), self)
      else
        (case hm_get (files_of self) from_key of
           None \<Rightarrow> (Inl (OsNotFound from_key (NotFound from_key)), self)
         | Some info \<Rightarrow>
             (let self1 = set_files (hm_remove from_key (files_of self)) self;
                  self3 = mark_shard_dirty X to_key (mark_shard_dirty X from_key self1)
              in (Inr (), (set_files (hm_insert to_key info (files_of self3)) self3)\<lparr>in_dirty := True\<rparr>))))"

section \<open>Listings\<close>

definition starts_with :: "string \<Rightarrow> string \<Rightarrow> bool" where
  "starts_with k p = (take (length p) k = p)"

definition visible :: "string \<times> extent_info \<Rightarrow> bool" where
  "visible ke = (\<not> starts_with (fst ke) MULTIPART_TMP_PREFIX)"

definition prefix_filter :: "path_api \<Rightarrow> string option \<Rightarrow> string \<Rightarrow> bool" where
  "prefix_filter P prefix k =
     (case prefix of Some p \<Rightarrow> pa_prefix_matches P (pa_of_key P k) p | None \<Rightarrow> True)"

definition list_objects :: "path_api \<Rightarrow> string option \<Rightarrow> inner \<Rightarrow> object_meta list" where
  "list_objects P prefix self =
     map (\<lambda>(k, info). meta_for (pa_of_key P k) info)
       (filter (\<lambda>(k, _). prefix_filter P prefix k) (filter visible (files_of self)))"

definition list_with_meta :: "path_api \<Rightarrow> string option \<Rightarrow> inner \<Rightarrow> (object_meta \<times> nat) list" where
  "list_with_meta P prefix self =
     map (\<lambda>(k, info). (meta_for (pa_of_key P k) info, ei_meta_len info))
       (filter (\<lambda>(k, _). prefix_filter P prefix k) (filter visible (files_of self)))"

text \<open>
  \<open>list_with_delimiter\<close>: the loop body as a function of one entry. \<open>Left\<close> is a common prefix,
  \<open>Right\<close> an object; an entry that does not match or is the prefix itself gives nothing.
\<close>

definition SLASH :: char where "SLASH = CHR ''/''"

definition delim_matches :: "string \<Rightarrow> string \<Rightarrow> bool" where
  "delim_matches prefix_str k =
     (if prefix_str = [] then True
      else starts_with k prefix_str \<and>
        (length k = length prefix_str \<or>
         (length prefix_str < length k \<and> k ! length prefix_str = SLASH)))"

definition delim_entry :: "path_api \<Rightarrow> string \<Rightarrow> string \<times> extent_info \<Rightarrow> (string + object_meta) option" where
  "delim_entry P prefix_str ke =
     (case ke of (k, info) \<Rightarrow>
        if \<not> delim_matches prefix_str k then None
        else if prefix_str \<noteq> [] \<and> length k \<le> length prefix_str then None
        else
          (let relative = (if prefix_str = [] then k else drop (length prefix_str + 1) k)
           in case position (\<lambda>c. c = SLASH) relative of
                Some slash_pos \<Rightarrow>
                  Some (Inl (pa_of_key P
                    (if prefix_str = [] then take slash_pos relative
                     else take (length prefix_str + 1 + slash_pos) k)))
              | None \<Rightarrow> Some (Inr (meta_for (pa_of_key P k) info))))"

fun str_le :: "string \<Rightarrow> string \<Rightarrow> bool" where
  "str_le [] _ = True"
| "str_le (_ # _) [] = False"
| "str_le (a # s) (b # t) =
     ((of_char a :: nat) < of_char b \<or> (of_char a :: nat) = of_char b \<and> str_le s t)"

fun insert_str :: "('a \<Rightarrow> string) \<Rightarrow> 'a \<Rightarrow> 'a list \<Rightarrow> 'a list" where
  "insert_str f x [] = [x]"
| "insert_str f x (y # ys) = (if str_le (f x) (f y) then x # y # ys else y # insert_str f x ys)"

definition sort_str :: "('a \<Rightarrow> string) \<Rightarrow> 'a list \<Rightarrow> 'a list" where
  "sort_str f xs = foldr (insert_str f) xs []"

definition list_with_delimiter ::
  "path_api \<Rightarrow> string option \<Rightarrow> inner \<Rightarrow> object_meta list \<times> string list" where
  "list_with_delimiter P prefix self =
     (let prefix_str = (case prefix of Some p \<Rightarrow> p | None \<Rightarrow> []);
          snapshot = filter visible (files_of self);
          entries = List.map_filter (delim_entry P prefix_str) snapshot;
          objects = List.map_filter (\<lambda>e. case e of Inr m \<Rightarrow> Some m | Inl _ \<Rightarrow> None) entries;
          prefixes = List.map_filter (\<lambda>e. case e of Inl d \<Rightarrow> Some d | Inr _ \<Rightarrow> None) entries
      in (sort_str om_location objects, sort_str id (remdups prefixes)))"

section \<open>Multipart uploads\<close>

record multipart =
  mp_location :: string
  mp_upload_id :: nat
  mp_part_count :: nat
  mp_part_keys :: "string list"

definition mp_new :: "string \<Rightarrow> nat \<Rightarrow> multipart" where
  "mp_new location upload_id =
     \<lparr>mp_location = location, mp_upload_id = upload_id, mp_part_count = 0, mp_part_keys = []\<rparr>"

definition part_key :: "nat \<Rightarrow> nat \<Rightarrow> string" where
  "part_key upload_id n = MULTIPART_TMP_PREFIX @ show_nat upload_id @ ''/'' @ show_nat n"

text \<open>
  \<open>put_part\<close> registers the part's key at once; the write is the future it returns, run here.
\<close>

definition put_part ::
  "'x store_env_scheme \<Rightarrow> int \<Rightarrow> byte list \<Rightarrow> multipart \<Rightarrow> inner \<Rightarrow> (os_error + unit) \<times> multipart \<times> inner" where
  "put_part X now bytes mp self =
     (let key = part_key (mp_upload_id mp) (mp_part_count mp);
          mp' = mp\<lparr>mp_part_count := mp_part_count mp + 1, mp_part_keys := mp_part_keys mp @ [key]\<rparr>
      in case do_put X now key bytes self of (r, self') \<Rightarrow> (map_os r, mp', self'))"

fun part_infos :: "inner \<Rightarrow> string list \<Rightarrow> extent_info list result" where
  "part_infos self [] = Inr []"
| "part_infos self (pk # pks) =
     (case hm_get (files_of self) pk of
        None \<Rightarrow> Inl (NotFound pk)
      | Some info \<Rightarrow> bind_res (part_infos self pks) (\<lambda>is. Inr (info # is)))"

text \<open>The logical content of one part, read back from the device.\<close>

definition part_content :: "'x store_env_scheme \<Rightarrow> compression \<Rightarrow> device_io \<Rightarrow> extent_info \<Rightarrow> byte list result" where
  "part_content X compr dev info =
     bind_res (read_and_decode_batched X dev (ei_offset info) (ei_size info)) (\<lambda>raw.
       if ei_uncompressed_size info > 0 then decompress X compr raw else Inr raw)"

fun part_contents :: "'x store_env_scheme \<Rightarrow> compression \<Rightarrow> device_io \<Rightarrow> extent_info list \<Rightarrow> byte list list result" where
  "part_contents X compr dev [] = Inr []"
| "part_contents X compr dev (i # is) =
     bind_res (part_content X compr dev i) (\<lambda>c.
     bind_res (part_contents X compr dev is) (\<lambda>cs. Inr (c # cs)))"

text \<open>
  The write loop over the parts of an uncompressed completion: read a part back, add it to the
  CRC, write it.
\<close>

fun parts_loop ::
  "'x store_env_scheme \<Rightarrow> compression \<Rightarrow> device_io \<Rightarrow> block_writer \<Rightarrow> extent_info list \<Rightarrow> u32 \<Rightarrow> u32 result \<times> device_io" where
  "parts_loop X compr dev w [] crc =
     (case bw_finish X dev w of (Inl e, dev') \<Rightarrow> (Inl e, dev') | (Inr _, dev') \<Rightarrow> (Inr crc, dev'))"
| "parts_loop X compr dev w (i # is) crc =
     (case part_content X compr dev i of
        Inl e \<Rightarrow> (Inl e, dev)
      | Inr content \<Rightarrow>
          (let crc' = x_crc32c_append X crc content
           in case write_chunk X dev w content of
                (Inl e, dev', _) \<Rightarrow> (Inl e, dev')
              | (Inr _, dev', w') \<Rightarrow> parts_loop X compr dev' w' is crc'))"

text \<open>
  What is written: \<open>Some bytes\<close> is the compressed temporary file, \<open>None\<close> the parts themselves. A
  failure of the temporary file or of an encoder is \<open>None\<close> of \<open>x_stream_compress\<close>.
\<close>

definition mp_plan ::
  "'x store_env_scheme \<Rightarrow> inner \<Rightarrow> extent_info list \<Rightarrow> (nat \<times> nat \<times> byte list option) result" where
  "mp_plan X self infos =
     (let total_uncompressed = foldl uadd 0 (map logical_size infos)
      in if in_compression self \<noteq> CNone \<and> total_uncompressed \<ge> 4096 then
           bind_res (part_contents X (in_compression self) (in_io self) infos) (\<lambda>contents.
             case x_stream_compress X (in_compression self) contents of
               None \<Rightarrow> Inl (Io OtherKind)
             | Some compressed \<Rightarrow>
                 (if length compressed < total_uncompressed
                  then Inr (length compressed, total_uncompressed, Some compressed)
                  else Inr (total_uncompressed, 0, None)))
         else Inr (total_uncompressed, 0, None))"

definition mp_write ::
  "'x store_env_scheme \<Rightarrow> inner \<Rightarrow> nat \<Rightarrow> extent_info list \<Rightarrow> byte list option \<Rightarrow> u32 result \<times> device_io" where
  "mp_write X self offset infos source =
     (case source of
        Some bytes \<Rightarrow> stream_put_loop X (in_io self) (bw_new offset) bytes 0
      | None \<Rightarrow> parts_loop X (in_compression self) (in_io self) (bw_new offset) infos 0)"

definition remove_parts :: "'x store_env_scheme \<Rightarrow> string list \<Rightarrow> inner \<Rightarrow> inner" where
  "remove_parts X keys self = fold (remove_entry X) keys self"

definition mp_complete ::
  "'x store_env_scheme \<Rightarrow> int \<Rightarrow> multipart \<Rightarrow> inner \<Rightarrow> (os_error + unit) \<times> multipart \<times> inner" where
  "mp_complete X now mp self =
     (if mp_part_keys mp = [] then (Inl (to_os_error EmptyPayload), mp, self)
      else
        (let key = mp_location mp in
         case bind_res (part_infos self (mp_part_keys mp)) (\<lambda>infos.
              bind_res (mp_plan X self infos) (\<lambda>plan. Inr (infos, plan))) of
           Inl e \<Rightarrow> (Inl (to_os_error e), mp, self)
         | Inr (infos, write_size, uncompressed_size, source) \<Rightarrow>
             (case padded_extent_size write_size of
                Inl e \<Rightarrow> (Inl (to_os_error e), mp, self)
              | Inr padded \<Rightarrow>
                  (case inner_alloc padded self of
                     (Inl e, self1) \<Rightarrow> (Inl (to_os_error e), mp, self1)
                   | (Inr offset, self1) \<Rightarrow>
                       (case mp_write X self1 offset infos source of
                          (Inl e, dev) \<Rightarrow>
                            (let self2 = self1\<lparr>in_io := dev\<rparr>
                             in (Inl (to_os_error e), mp,
                                 if e = Panicked then self2 else inner_free offset padded self2))
                        | (Inr crc, dev) \<Rightarrow>
                            (let self2 = remove_entry X key (self1\<lparr>in_io := dev\<rparr>);
                                 self3 = set_tombstones (hm_remove key (ix_tombstones (in_index self2))) self2;
                                 self4 = insert_entry X key
                                   \<lparr>ei_offset = offset, ei_size = write_size, ei_padded_size = padded,
                                    ei_crc32c = crc, ei_created_txn = sb_txn_id (in_superblock self),
                                    ei_last_modified = now, ei_meta_len = 0,
                                    ei_uncompressed_size = uncompressed_size\<rparr> self3
                             in (Inr (), mp\<lparr>mp_part_keys := []\<rparr>,
                                 remove_parts X (mp_part_keys mp) self4)))))))"

definition mp_abort :: "'x store_env_scheme \<Rightarrow> multipart \<Rightarrow> inner \<Rightarrow> multipart \<times> inner" where
  "mp_abort X mp self =
     (mp\<lparr>mp_part_keys := []\<rparr>, (remove_parts X (mp_part_keys mp) self)\<lparr>in_dirty := True\<rparr>)"

end
