(* ===== verification/Lifecycle.thy ===== *)
theory Lifecycle
  imports Object_Store
begin

text \<open>
  The life of a raw store on its device (\<open>rawobjstr/src/store.rs\<close>): formatting, opening with the
  integrity scan, flushing the index, reloading it, and changing the superblock flags.

  The path a store is opened at is a \<open>host_file\<close>; what a device wrote is what a later open of the
  same path reads (\<open>host_after\<close>). A \<open>HashMap\<close> is iterated in the order of its association list.
  The flush callbacks are the log of the transaction numbers they are called with.
\<close>

section \<open>The store handle\<close>

record index_layout =
  il_capacity :: nat
  il_region_a :: nat
  il_region_b :: nat
  il_shard_slot :: nat

record raw_store =
  rs_inner :: inner
  rs_layout :: index_layout
  rs_next_upload_id :: nat
  rs_flush_log :: "nat list"

record format_options =
  fo_device_size :: nat
  fo_direct_io :: bool
  fo_index_slot_size :: nat
  fo_max_key_length :: nat
  fo_compression :: compression

datatype open_mode = OpenDefault | FullVerify | SkipVerify

definition host_after :: "host_file \<Rightarrow> device_io \<Rightarrow> host_file" where
  "host_after h dev = h\<lparr>host_contents := Some (dev_data dev)\<rparr>"

text \<open>The index regions at the end of the device and a shard's slot in one of them.\<close>

definition layout_for :: "nat \<Rightarrow> nat \<Rightarrow> index_layout" where
  "layout_for device_size cap =
     \<lparr>il_capacity = cap, il_region_a = usub device_size (umul cap 2), il_region_b = usub device_size cap,
      il_shard_slot = cap div NUM_SHARDS\<rparr>"

definition shard_offset :: "index_layout \<Rightarrow> nat \<Rightarrow> nat \<Rightarrow> nat" where
  "shard_offset l slot i =
     (if slot = 0 then uadd (il_region_a l) (umul i (il_shard_slot l))
      else uadd (il_region_b l) (umul i (il_shard_slot l)))"

section \<open>Format\<close>

fun format_shards :: "index_layout \<Rightarrow> byte list \<Rightarrow> nat list \<Rightarrow> device_io \<Rightarrow> unit result \<times> device_io" where
  "format_shards l shard_bytes [] dev = (Inr (), dev)"
| "format_shards l shard_bytes (i # is) dev =
     (case pwrite dev (shard_offset l 0 i) shard_bytes of
        (Inl e, dev') \<Rightarrow> (Inl e, dev')
      | (Inr _, dev') \<Rightarrow> format_shards l shard_bytes is dev')"

text \<open>The writes of a superblock to both copies, with a sync where the source has one.\<close>

definition format_commit :: "byte list \<Rightarrow> device_io \<Rightarrow> unit result \<times> device_io" where
  "format_commit sb_bytes dev =
     (case pwrite dev 0 sb_bytes of
        (Inl e, d1) \<Rightarrow> (Inl e, d1)
      | (Inr _, d1) \<Rightarrow>
          (case pwrite d1 SUPERBLOCK_SIZE sb_bytes of
             (Inl e, d2) \<Rightarrow> (Inl e, d2)
           | (Inr _, d2) \<Rightarrow> dev_sync d2))"

definition format_superblock :: "format_options \<Rightarrow> index_layout \<Rightarrow> nat \<Rightarrow> byte list \<Rightarrow> u32 \<Rightarrow> superblock" where
  "format_superblock opts l max_key shard_bytes shard_crc =
     (let sb = sb_new (fo_device_size opts) BLOCK_ALIGNMENT (il_region_a l) (fo_index_slot_size opts)
                 (max_key mod 2 ^ 32) (fo_compression opts)
      in sb\<lparr>sb_shard_slots := replicate NUM_SHARDS
              \<lparr>active_slot = 0, slot_size = length shard_bytes mod 2 ^ 32, slot_crc = shard_crc\<rparr>,
            sb_index_region_offset := il_region_a l,
            sb_index_region_size := umul (length shard_bytes) NUM_SHARDS,
            sb_index_checksum := 0, sb_txn_id := 1,
            sb_flags := (if fo_direct_io opts then sb_flags sb OR FLAG_DIRECT_IO else sb_flags sb)\<rparr>)"

definition format_device ::
  "'x store_env_scheme \<Rightarrow> format_options \<Rightarrow> index_layout \<Rightarrow> nat \<Rightarrow> device_io \<Rightarrow> superblock result \<times> device_io" where
  "format_device X opts l max_key io =
     (case shard_to_bytes X shard_default of
        Inl e \<Rightarrow> (Inl e, io)
      | Inr (shard_bytes, shard_crc) \<Rightarrow>
          (case format_shards l shard_bytes [0..<NUM_SHARDS] io of
             (Inl e, d) \<Rightarrow> (Inl e, d)
           | (Inr _, d) \<Rightarrow>
               (let sb = format_superblock opts l max_key shard_bytes shard_crc
                in case sb_to_bytes X sb of
                     Inl e \<Rightarrow> (Inl e, d)
                   | Inr sb_bytes \<Rightarrow>
                       (case format_commit sb_bytes d of
                          (Inl e, d') \<Rightarrow> (Inl e, d')
                        | (Inr _, d') \<Rightarrow> (Inr sb, d')))))"

definition format_with_options ::
  "'x store_env_scheme \<Rightarrow> host_file \<Rightarrow> format_options \<Rightarrow> raw_store result \<times> host_file" where
  "format_with_options X h opts =
     (let slot = fo_index_slot_size opts in
      case validate_index_slot_size slot of
        Inl e \<Rightarrow> (Inl e, h)
      | Inr _ \<Rightarrow>
          if fo_max_key_length opts > MAX_KEY_LENGTH_HARD_CEILING
          then (Inl (MaxKeyLengthTooLarge (fo_max_key_length opts) MAX_KEY_LENGTH_HARD_CEILING), h)
          else if fo_device_size opts < min_device_size slot
          then (Inl (DeviceTooSmall (fo_device_size opts) (min_device_size slot)), h)
          else
            (case dev_create h (fo_device_size opts) False of
               (Inl e, h1) \<Rightarrow> (Inl e, h1)
             | (Inr io, h1) \<Rightarrow>
                 (let l = layout_for (fo_device_size opts) slot;
                      max_key = min (fo_max_key_length opts) (saturating_sub (il_shard_slot l) 98)
                  in case format_device X opts l max_key io of
                       (Inl e, d) \<Rightarrow> (Inl e, host_after h1 d)
                     | (Inr sb, d) \<Rightarrow>
                         (case (if fo_direct_io opts then dev_open (host_after h1 d) True else Inr d) of
                            Inl e \<Rightarrow> (Inl e, host_after h1 d)
                          | Inr io' \<Rightarrow>
                              (Inr \<lparr>rs_inner = \<lparr>in_io = io', in_index = index_new,
                                 in_allocator = Some (alloc_new DATA_START (il_region_a l) BLOCK_ALIGNMENT),
                                 in_superblock = sb, in_dirty = False, in_read_only = False,
                                 in_shard_dirty = replicate NUM_SHARDS False, in_last_flush_bytes = 0,
                                 in_max_key_length = max_key, in_compression = fo_compression opts\<rparr>,
                               rs_layout = l, rs_next_upload_id = 0, rs_flush_log = []\<rparr>,
                               host_after h1 d)))))"

definition format_with_size ::
  "'x store_env_scheme \<Rightarrow> host_file \<Rightarrow> nat \<Rightarrow> bool \<Rightarrow> raw_store result \<times> host_file" where
  "format_with_size X h device_size direct_io =
     format_with_options X h
       \<lparr>fo_device_size = device_size, fo_direct_io = direct_io, fo_index_slot_size = INDEX_REGION_SIZE,
        fo_max_key_length = DEFAULT_MAX_KEY_LENGTH, fo_compression = CNone\<rparr>"

definition format_store :: "'x store_env_scheme \<Rightarrow> host_file \<Rightarrow> bool \<Rightarrow> raw_store result \<times> host_file" where
  "format_store X h direct_io =
     (case bind_res (dev_open h False) dev_size of
        Inl e \<Rightarrow> (Inl e, h)
      | Inr device_size \<Rightarrow> format_with_size X h device_size direct_io)"

section \<open>Open\<close>

definition select_superblock :: "superblock result \<Rightarrow> superblock result \<Rightarrow> superblock result" where
  "select_superblock sb0 sb1 =
     (case (sb0, sb1) of
        (Inr a, Inr b) \<Rightarrow> (if sb_txn_id a \<ge> sb_txn_id b then Inr a else Inr b)
      | (Inr a, Inl _) \<Rightarrow> Inr a
      | (Inl _, Inr b) \<Rightarrow> Inr b
      | (Inl _, Inl _) \<Rightarrow> Inl SuperblockCorrupt)"

definition read_superblock :: "'x store_env_scheme \<Rightarrow> device_io \<Rightarrow> superblock result" where
  "read_superblock X io =
     bind_res (pread io 0 SUPERBLOCK_SIZE) (\<lambda>sb0_bytes.
     bind_res (pread io SUPERBLOCK_SIZE SUPERBLOCK_SIZE) (\<lambda>sb1_bytes.
     select_superblock (sb_from_bytes X sb0_bytes) (sb_from_bytes X sb1_bytes)))"

definition read_shard :: "'x store_env_scheme \<Rightarrow> device_io \<Rightarrow> index_layout \<Rightarrow> shard_slot_meta \<Rightarrow> nat \<Rightarrow> shard_data result" where
  "read_shard X io l meta i =
     bind_res (pread io (shard_offset l (active_slot meta) i) (slot_size meta)) (\<lambda>shard_bytes.
     shard_from_bytes X shard_bytes (slot_crc meta))"

definition merge_shard :: "shard_data \<Rightarrow> device_index \<Rightarrow> device_index" where
  "merge_shard shard index =
     \<lparr>ix_files = hm_extend (ix_files index) (sd_files shard),
      ix_tombstones = hm_extend (ix_tombstones index) (sd_tombstones shard)\<rparr>"

fun load_shards ::
  "'x store_env_scheme \<Rightarrow> device_io \<Rightarrow> index_layout \<Rightarrow> shard_slot_meta list \<Rightarrow> nat list \<Rightarrow> device_index \<Rightarrow> device_index result" where
  "load_shards X io l slots [] index = Inr index"
| "load_shards X io l slots (i # is) index =
     (if slot_size (slots ! i) = 0 then load_shards X io l slots is index
      else bind_res (read_shard X io l (slots ! i) i) (\<lambda>shard.
             load_shards X io l slots is (merge_shard shard index)))"

definition open_index :: "'x store_env_scheme \<Rightarrow> device_io \<Rightarrow> (superblock \<times> index_layout \<times> device_index) result" where
  "open_index X io =
     bind_res (dev_size io) (\<lambda>device_size.
     bind_res (read_superblock X io) (\<lambda>sb.
       let cap = (if sb_index_slot_capacity sb > 0 then sb_index_slot_capacity sb else INDEX_REGION_SIZE);
           min_size = min_device_size cap
       in if device_size < min_size then Inl (DeviceTooSmall device_size min_size)
          else
            (let l = layout_for device_size cap
             in bind_res (load_shards X io l (sb_shard_slots sb) [0..<NUM_SHARDS] index_new) (\<lambda>index.
                  Inr (sb, l, index)))))"

text \<open>The checks of the loaded entries: bounds, then overlap of neighbours in offset order.\<close>

definition out_of_bounds :: "nat \<Rightarrow> extent_info \<Rightarrow> bool" where
  "out_of_bounds data_end info \<longleftrightarrow>
     ei_offset info < DATA_START \<or> ei_padded_size info = 0 \<or>
     saturating_add (ei_offset info) (ei_padded_size info) > data_end"

definition bad_keys :: "nat \<Rightarrow> (string, extent_info) hashmap \<Rightarrow> string list" where
  "bad_keys data_end files = map fst (filter (\<lambda>(k, info). out_of_bounds data_end info) files)"

fun overlap_windows :: "(string \<times> nat \<times> nat) list \<Rightarrow> string list" where
  "overlap_windows ((k0, o0, p0) # (k1, o1, p1) # rest) =
     (if uadd o0 p0 > o1 then [k1] else []) @ overlap_windows ((k1, o1, p1) # rest)"
| "overlap_windows _ = []"

definition overlap_keys :: "(string, extent_info) hashmap \<Rightarrow> string list" where
  "overlap_keys files =
     overlap_windows (sort_key (\<lambda>(_, off, _). off)
       (map (\<lambda>(k, info). (k, ei_offset info, ei_padded_size info)) files))"

definition remove_keys :: "string list \<Rightarrow> (string, 'v) hashmap \<Rightarrow> (string, 'v) hashmap" where
  "remove_keys ks files = fold hm_remove ks files"

definition validate_entries :: "nat \<Rightarrow> device_index \<Rightarrow> device_index \<times> string list" where
  "validate_entries data_end index =
     (let bad = bad_keys data_end (ix_files index);
          files1 = remove_keys bad (ix_files index);
          over = overlap_keys files1
      in (index\<lparr>ix_files := remove_keys over files1\<rparr>, bad @ over))"

text \<open>\<open>{:#010x}\<close>.\<close>

definition hex_digit :: "nat \<Rightarrow> char" where
  "hex_digit d = (if d < 10 then char_of (48 + d) else char_of (87 + d))"

fun hex_digits :: "nat \<Rightarrow> nat \<Rightarrow> string" where
  "hex_digits 0 x = []"
| "hex_digits (Suc n) x = hex_digits n (x div 16) @ [hex_digit (x mod 16)]"

definition show_hex :: "u32 \<Rightarrow> string" where
  "show_hex w = ''0x'' @ hex_digits 8 (unat w)"

definition block0_stale :: "'x store_env_scheme \<Rightarrow> device_io \<Rightarrow> string \<times> extent_info \<Rightarrow> (string \<times> string) option" where
  "block0_stale X io ke =
     (case ke of (key, info) \<Rightarrow>
        (case pread io (ei_offset info) BLOCK_ALIGNMENT of
           Inl _ \<Rightarrow> Some (key, ''unreadable block 0'')
         | Inr raw \<Rightarrow>
             (let stored = u32_from_le_bytes (take 4 raw); actual = x_crc32c X (drop 4 raw)
              in if stored \<noteq> actual
                 then Some (key, ''block 0 CRC mismatch (expected '' @ show_hex stored @ '', got '' @ show_hex actual @ '')'')
                 else None)))"

definition full_stale :: "'x store_env_scheme \<Rightarrow> device_io \<Rightarrow> string \<times> extent_info \<Rightarrow> (string \<times> string) option" where
  "full_stale X io ke =
     (case ke of (key, info) \<Rightarrow>
        (case padded_extent_size (ei_size info) of
           Inl _ \<Rightarrow> Some (key, ''payload size overflow'')
         | Inr disk_len \<Rightarrow>
             (case pread io (ei_offset info) disk_len of
                Inl _ \<Rightarrow> Some (key, ''unreadable extent'')
              | Inr raw \<Rightarrow>
                  (case decode_blocks X raw (ei_size info) of
                     Inl _ \<Rightarrow> Some (key, ''block CRC failure'')
                   | Inr payload \<Rightarrow>
                       (let actual = x_crc32c X payload
                        in if actual \<noteq> ei_crc32c info
                           then Some (key, ''payload CRC '' @ show_hex actual @ '' != index CRC '' @ show_hex (ei_crc32c info))
                           else None)))))"

definition scan_stale ::
  "'x store_env_scheme \<Rightarrow> device_io \<Rightarrow> open_mode \<Rightarrow> (string, extent_info) hashmap \<Rightarrow> (string \<times> string) list" where
  "scan_stale X io mode files =
     (case mode of
        OpenDefault \<Rightarrow> List.map_filter (block0_stale X io) files
      | FullVerify \<Rightarrow> List.map_filter (full_stale X io) files
      | SkipVerify \<Rightarrow> [])"

definition apply_stale :: "bool \<Rightarrow> nat \<Rightarrow> string \<times> string \<Rightarrow> device_index \<Rightarrow> device_index" where
  "apply_stale read_only next_txn kr index =
     (case kr of (key, reason) \<Rightarrow>
        (case hm_get (ix_files index) key of
           None \<Rightarrow> index
         | Some info \<Rightarrow>
             \<lparr>ix_files = hm_remove key (ix_files index),
              ix_tombstones =
                (if read_only then ix_tombstones index
                 else hm_insert key \<lparr>tb_size = ei_size info, tb_crc32c = ei_crc32c info,
                        tb_last_modified = ei_last_modified info, tb_reason = reason,
                        tb_tombstone_txn = next_txn\<rparr> (ix_tombstones index))\<rparr>))"

definition apply_stale_removals :: "(string \<times> string) list \<Rightarrow> bool \<Rightarrow> nat \<Rightarrow> device_index \<Rightarrow> device_index" where
  "apply_stale_removals stale read_only next_txn index = fold (apply_stale read_only next_txn) stale index"

definition multipart_keys :: "(string, extent_info) hashmap \<Rightarrow> string list" where
  "multipart_keys files = filter (\<lambda>k. starts_with k MULTIPART_TMP_PREFIX) (map fst files)"

definition dirty_flags :: "'x store_env_scheme \<Rightarrow> string list \<Rightarrow> bool list" where
  "dirty_flags X keys = fold (\<lambda>k d. d[shard_for_key X k := True]) keys (replicate NUM_SHARDS False)"

definition rebuild_allocator :: "device_index \<Rightarrow> nat \<Rightarrow> extent_allocator" where
  "rebuild_allocator index data_end =
     from_free_list (snd (rebuild_free_list index data_end)) DATA_START data_end"

definition open_impl ::
  "'x store_env_scheme \<Rightarrow> host_file \<Rightarrow> open_mode \<Rightarrow> bool \<Rightarrow> raw_store result" where
  "open_impl X h mode read_only =
     bind_res (if read_only then dev_open_readonly h False else dev_open h False) (\<lambda>io.
     bind_res (open_index X io) (\<lambda>(sb, l, index).
       let data_end = il_region_a l;
           (index1, modified1) = validate_entries data_end index;
           next_txn = uadd (sb_txn_id sb) 1;
           stale = scan_stale X io mode (ix_files index1);
           index2 = apply_stale_removals stale read_only next_txn index1;
           modified2 = modified1 @ map fst stale
       in if \<not> read_only \<and> sb_flags sb AND FLAG_WRITE_PROTECT \<noteq> 0 then Inl WriteProtected
          else
            (let orphans = (if read_only then [] else multipart_keys (ix_files index2));
                 index3 = index2\<lparr>ix_files := remove_keys orphans (ix_files index2)\<rparr>;
                 modified3 = modified2 @ orphans;
                 allocator = (if read_only then None else Some (rebuild_allocator index3 data_end))
             in bind_res (if sb_flags sb AND FLAG_DIRECT_IO \<noteq> 0
                          then (if read_only then dev_open_readonly h True else dev_open h True)
                          else Inr io) (\<lambda>io'.
                  if sb_max_key_length sb = 0 then Inl (Io InvalidData)
                  else bind_res (compression_from_u8 (sb_compression sb)) (\<lambda>compr.
                    Inr \<lparr>rs_inner = \<lparr>in_io = io', in_index = index3, in_allocator = allocator,
                           in_superblock = sb, in_dirty = (modified3 \<noteq> []), in_read_only = read_only,
                           in_shard_dirty = dirty_flags X modified3, in_last_flush_bytes = 0,
                           in_max_key_length = sb_max_key_length sb, in_compression = compr\<rparr>,
                         rs_layout = l, rs_next_upload_id = 0, rs_flush_log = []\<rparr>)))))"

section \<open>Flush\<close>

text \<open>The entries of one shard.\<close>

definition shard_bucket :: "'x store_env_scheme \<Rightarrow> device_index \<Rightarrow> nat \<Rightarrow> shard_data" where
  "shard_bucket X index s =
     \<lparr>sd_files = filter (\<lambda>(k, _). shard_for_key X k = s) (ix_files index),
      sd_tombstones = filter (\<lambda>(k, _). shard_for_key X k = s) (ix_tombstones index)\<rparr>"

definition new_slot_of :: "nat \<Rightarrow> nat" where
  "new_slot_of cur = (257 - cur) mod 256"

text \<open>
  The loop over the dirty shards. It stops at the first error with the superblock's slots updated
  for the shards already written.
\<close>

fun flush_shards ::
  "'x store_env_scheme \<Rightarrow> index_layout \<Rightarrow> nat list \<Rightarrow> nat \<Rightarrow> inner \<Rightarrow> nat result \<times> inner" where
  "flush_shards X l [] bytes_written self = (Inr bytes_written, self)"
| "flush_shards X l (i # is) bytes_written self =
     (if \<not> in_shard_dirty self ! i then flush_shards X l is bytes_written self
      else
        (case shard_to_bytes X (shard_bucket X (in_index self) i) of
           Inl e \<Rightarrow> (Inl e, self)
         | Inr (shard_bytes, shard_crc) \<Rightarrow>
             if length shard_bytes > il_shard_slot l
             then (Inl (ShardOverflow i (length shard_bytes) (il_shard_slot l)), self)
             else
               (let new_slot = new_slot_of (active_slot (sb_shard_slots (in_superblock self) ! i))
                in case pwrite (in_io self) (shard_offset l new_slot i) shard_bytes of
                     (Inl e, dev) \<Rightarrow> (Inl e, self\<lparr>in_io := dev\<rparr>)
                   | (Inr _, dev) \<Rightarrow>
                       (let meta = \<lparr>active_slot = new_slot, slot_size = length shard_bytes mod 2 ^ 32,
                                    slot_crc = shard_crc\<rparr>;
                            sb = in_superblock self
                        in flush_shards X l is (uadd bytes_written (length shard_bytes))
                             (self\<lparr>in_io := dev,
                                   in_superblock := sb\<lparr>sb_shard_slots := (sb_shard_slots sb)[i := meta]\<rparr>\<rparr>)))))"

text \<open>The commit: sync, write the primary copy, sync, write the backup copy, sync.\<close>

definition commit_superblock :: "byte list \<Rightarrow> device_io \<Rightarrow> unit result \<times> device_io" where
  "commit_superblock sb_bytes dev =
     (case pwrite dev 0 sb_bytes of
        (Inl e, d1) \<Rightarrow> (Inl e, d1)
      | (Inr _, d1) \<Rightarrow>
          (case dev_sync d1 of
             (Inl e, d2) \<Rightarrow> (Inl e, d2)
           | (Inr _, d2) \<Rightarrow>
               (case pwrite d2 SUPERBLOCK_SIZE sb_bytes of
                  (Inl e, d3) \<Rightarrow> (Inl e, d3)
                | (Inr _, d3) \<Rightarrow> dev_sync d3)))"

definition next_superblock :: "nat \<Rightarrow> superblock \<Rightarrow> superblock" where
  "next_superblock new_txn sb =
     sb\<lparr>sb_prev_txn_id := sb_txn_id sb, sb_txn_id := new_txn,
        sb_index_region_size := foldl uadd 0 (map slot_size (sb_shard_slots sb))\<rparr>"

definition flush_inner :: "'x store_env_scheme \<Rightarrow> index_layout \<Rightarrow> inner \<Rightarrow> unit result \<times> inner" where
  "flush_inner X l self =
     (if in_read_only self then (Inl ReadOnly, self)
      else
        (let new_txn = uadd (sb_txn_id (in_superblock self)) 1 in
         case flush_shards X l [0..<NUM_SHARDS] 0 self of
           (Inl e, self1) \<Rightarrow> (Inl e, self1)
         | (Inr bytes_written, self1) \<Rightarrow>
             (case dev_sync (in_io self1) of
                (Inl e, dev) \<Rightarrow> (Inl e, self1\<lparr>in_io := dev\<rparr>)
              | (Inr _, dev) \<Rightarrow>
                  (let self2 = self1\<lparr>in_io := dev,
                         in_superblock := next_superblock new_txn (in_superblock self1)\<rparr>
                   in case sb_to_bytes X (in_superblock self2) of
                        Inl e \<Rightarrow> (Inl e, self2)
                      | Inr sb_bytes \<Rightarrow>
                          (case commit_superblock sb_bytes (in_io self2) of
                             (Inl e, dev') \<Rightarrow> (Inl e, self2\<lparr>in_io := dev'\<rparr>)
                           | (Inr _, dev') \<Rightarrow>
                               (Inr (), self2\<lparr>in_io := dev',
                                  in_shard_dirty := map (\<lambda>_. False) (in_shard_dirty self2), in_dirty := False,
                                  in_last_flush_bytes := uadd bytes_written (2 * SUPERBLOCK_SIZE)\<rparr>))))))"

definition flush_index :: "'x store_env_scheme \<Rightarrow> raw_store \<Rightarrow> unit result \<times> raw_store" where
  "flush_index X rs =
     (case flush_inner X (rs_layout rs) (rs_inner rs) of
        (Inl e, inner') \<Rightarrow> (Inl e, rs\<lparr>rs_inner := inner'\<rparr>)
      | (Inr _, inner') \<Rightarrow>
          (Inr (), rs\<lparr>rs_inner := inner',
                      rs_flush_log := rs_flush_log rs @ [sb_txn_id (in_superblock inner')]\<rparr>))"

section \<open>Reload\<close>

definition slot_unchanged :: "shard_slot_meta \<Rightarrow> shard_slot_meta \<Rightarrow> bool" where
  "slot_unchanged old new \<longleftrightarrow>
     active_slot old = active_slot new \<and> slot_crc old = slot_crc new \<and> slot_size old = slot_size new"

definition drop_shard :: "'x store_env_scheme \<Rightarrow> nat \<Rightarrow> device_index \<Rightarrow> device_index" where
  "drop_shard X i index =
     \<lparr>ix_files = filter (\<lambda>(k, _). shard_for_key X k \<noteq> i) (ix_files index),
      ix_tombstones = filter (\<lambda>(k, _). shard_for_key X k \<noteq> i) (ix_tombstones index)\<rparr>"

fun reload_shards ::
  "'x store_env_scheme \<Rightarrow> device_io \<Rightarrow> index_layout \<Rightarrow> shard_slot_meta list \<Rightarrow> shard_slot_meta list \<Rightarrow> nat list \<Rightarrow>
     device_index \<Rightarrow> unit result \<times> device_index" where
  "reload_shards X io l old_slots new_slots [] index = (Inr (), index)"
| "reload_shards X io l old_slots new_slots (i # is) index =
     (if slot_unchanged (old_slots ! i) (new_slots ! i)
      then reload_shards X io l old_slots new_slots is index
      else
        (let index1 = drop_shard X i index in
         if slot_size (new_slots ! i) = 0 then reload_shards X io l old_slots new_slots is index1
         else
           (case read_shard X io l (new_slots ! i) i of
              Inl e \<Rightarrow> (Inl e, index1)
            | Inr shard \<Rightarrow> reload_shards X io l old_slots new_slots is (merge_shard shard index1))))"

definition read_newest :: "'x store_env_scheme \<Rightarrow> device_io \<Rightarrow> superblock result" where
  "read_newest X io =
     bind_res (pread io 0 SUPERBLOCK_SIZE) (\<lambda>sb_bytes.
       case sb_from_bytes X sb_bytes of
         Inr s \<Rightarrow> Inr s
       | Inl _ \<Rightarrow> bind_res (pread io SUPERBLOCK_SIZE SUPERBLOCK_SIZE) (sb_from_bytes X))"

definition reload_index :: "'x store_env_scheme \<Rightarrow> raw_store \<Rightarrow> bool result \<times> raw_store" where
  "reload_index X rs =
     (let self = rs_inner rs; l = rs_layout rs in
      case read_newest X (in_io self) of
        Inl e \<Rightarrow> (Inl e, rs)
      | Inr new_sb \<Rightarrow>
          if sb_txn_id new_sb = sb_txn_id (in_superblock self) then (Inr False, rs)
          else
            (case reload_shards X (in_io self) l (sb_shard_slots (in_superblock self)) (sb_shard_slots new_sb)
                    [0..<NUM_SHARDS] (in_index self) of
               (Inl e, index) \<Rightarrow> (Inl e, rs\<lparr>rs_inner := self\<lparr>in_index := index\<rparr>\<rparr>)
             | (Inr _, index) \<Rightarrow>
                 (Inr True, rs\<lparr>rs_inner := self\<lparr>in_index := index, in_superblock := new_sb,
                    in_max_key_length := (if sb_max_key_length new_sb > 0 then sb_max_key_length new_sb
                                          else DEFAULT_MAX_KEY_LENGTH),
                    in_allocator := (if in_read_only self then in_allocator self
                                     else Some (rebuild_allocator index (il_region_a l))),
                    in_shard_dirty := map (\<lambda>_. False) (in_shard_dirty self), in_dirty := False\<rparr>\<rparr>)))"

section \<open>Superblock flags\<close>

definition modify_flags ::
  "'x store_env_scheme \<Rightarrow> host_file \<Rightarrow> u32 \<Rightarrow> u32 \<Rightarrow> u32 result \<times> host_file" where
  "modify_flags X h set_flags clear_flags =
     (if set_flags AND NOT FLAG_KNOWN_MASK \<noteq> 0 then (Inl (Io InvalidInput), h)
      else
        (case dev_open h False of
           Inl e \<Rightarrow> (Inl e, h)
         | Inr io \<Rightarrow>
             (case read_superblock X io of
                Inl e \<Rightarrow> (Inl e, h)
              | Inr sb0 \<Rightarrow>
                  (let sb = sb0\<lparr>sb_flags := (sb_flags sb0 OR set_flags) AND NOT clear_flags\<rparr>
                   in case sb_to_bytes X sb of
                        Inl e \<Rightarrow> (Inl e, h)
                      | Inr sb_bytes \<Rightarrow>
                          (case commit_superblock sb_bytes io of
                             (Inl e, dev) \<Rightarrow> (Inl e, host_after h dev)
                           | (Inr _, dev) \<Rightarrow> (Inr (sb_flags sb), host_after h dev))))))"

end
