(* ===== verification/Raw_Tools.thy ===== *)
theory Raw_Tools
  imports Lifecycle
begin

text \<open>
  The diagnostic, maintenance and metadata calls of the raw store (\<open>rawobjstr/src/store.rs\<close>):
  statistics and layout, verification, repair, tombstones, the free-space scrub, import and export,
  and the calls that read or replace the metadata suffix of an object.

  A report carries the error value where the source stores its rendered text. The store that objects
  are imported from or exported to is a parameter, as are the results of reading a source file.
\<close>

section \<open>Statistics and layout\<close>

record device_info_t =
  di_device_size :: nat
  di_format_version :: nat
  di_flags :: u32
  di_direct_io :: bool
  di_txn_id :: nat
  di_index_slot_capacity :: nat
  di_index_serialized_bytes :: nat
  di_index_region_a :: nat
  di_index_region_b :: nat
  di_active_index_region :: nat
  di_file_count :: nat
  di_data_bytes_stored :: nat
  di_device_bytes_used :: nat
  di_free_space :: nat
  di_free_fragments :: nat
  di_largest_free_extent :: nat
  di_data_region_start :: nat
  di_data_region_end :: nat
  di_last_flush_bytes :: nat
  di_max_key_length :: nat
  di_shard_sizes :: "nat list"
  di_shard_slot_size :: nat
  di_compression :: compression

definition alloc_stats :: "extent_allocator option \<Rightarrow> nat \<times> nat \<times> nat" where
  "alloc_stats a =
     (case a of
        Some al \<Rightarrow> (free_space al, length (free_list al), foldr max (map snd (free_list al)) 0)
      | None \<Rightarrow> (0, 0, 0))"

definition device_info :: "raw_store \<Rightarrow> device_info_t" where
  "device_info rs =
     (let self = rs_inner rs; l = rs_layout rs; sb = in_superblock self;
          sizes = map (\<lambda>(_, e). (ei_size e, ei_padded_size e)) (files_of self);
          (free, fragments, largest) = alloc_stats (in_allocator self)
      in \<lparr>di_device_size = sb_device_size sb, di_format_version = sb_version sb, di_flags = sb_flags sb,
          di_direct_io = (sb_flags sb AND FLAG_DIRECT_IO \<noteq> 0), di_txn_id = sb_txn_id sb,
          di_index_slot_capacity = il_capacity l, di_index_serialized_bytes = sb_index_region_size sb,
          di_index_region_a = il_region_a l, di_index_region_b = il_region_b l,
          di_active_index_region = sb_index_region_offset sb, di_file_count = length (files_of self),
          di_data_bytes_stored = foldl uadd 0 (map fst sizes),
          di_device_bytes_used = foldl uadd 0 (map snd sizes),
          di_free_space = free, di_free_fragments = fragments, di_largest_free_extent = largest,
          di_data_region_start = DATA_START, di_data_region_end = il_region_a l,
          di_last_flush_bytes = in_last_flush_bytes self, di_max_key_length = in_max_key_length self,
          di_shard_sizes = map slot_size (sb_shard_slots sb), di_shard_slot_size = il_shard_slot l,
          di_compression = in_compression self\<rparr>)"

definition in_data_area :: "nat \<Rightarrow> extent_info \<Rightarrow> bool" where
  "in_data_area data_end e \<longleftrightarrow>
     ei_offset e \<ge> DATA_START \<and> ei_padded_size e > 0 \<and>
     saturating_add (ei_offset e) (ei_padded_size e) \<le> data_end"

record device_layout =
  dl_device_size :: nat
  dl_data_region_start :: nat
  dl_data_region_end :: nat
  dl_index_region_a :: nat
  dl_index_region_b :: nat
  dl_active_index_region :: nat
  dl_txn_id :: nat
  dl_extents :: "(string \<times> extent_info) list"
  dl_free_regions :: "(nat \<times> nat) list"

definition layout_map :: "raw_store \<Rightarrow> device_layout" where
  "layout_map rs =
     (let self = rs_inner rs; l = rs_layout rs; sb = in_superblock self; data_end = il_region_a l;
          extents = sort_key (\<lambda>(_, e). ei_offset e) (filter (\<lambda>(_, e). in_data_area data_end e) (files_of self));
          free = gap_list DATA_START (map (\<lambda>(_, e). (ei_offset e, ei_padded_size e)) extents) data_end
      in \<lparr>dl_device_size = sb_device_size sb, dl_data_region_start = DATA_START, dl_data_region_end = data_end,
          dl_index_region_a = il_region_a l, dl_index_region_b = il_region_b l,
          dl_active_index_region = sb_index_region_offset sb, dl_txn_id = sb_txn_id sb,
          dl_extents = extents, dl_free_regions = free\<rparr>)"

section \<open>Verification\<close>

datatype verify_status =
    VerifyOk
  | CrcMismatch u32 u32
  | BlockCorrupt string
  | OutOfBounds
  | ReadError raw_store_error

definition verify_extent :: "'x store_env_scheme \<Rightarrow> device_io \<Rightarrow> nat \<Rightarrow> extent_info \<Rightarrow> verify_status" where
  "verify_extent X io data_end info =
     (if ei_offset info < DATA_START \<or> saturating_add (ei_offset info) (ei_padded_size info) > data_end
      then OutOfBounds
      else
        (case padded_extent_size (ei_size info) of
           Inl e \<Rightarrow> ReadError e
         | Inr disk_len \<Rightarrow>
             (case pread io (ei_offset info) disk_len of
                Inl e \<Rightarrow> ReadError e
              | Inr raw \<Rightarrow>
                  (case decode_blocks X raw (ei_size info) of
                     Inl (DataCorruption _ expected actual) \<Rightarrow> CrcMismatch expected actual
                   | Inl e \<Rightarrow> ReadError e
                   | Inr content \<Rightarrow>
                       (let actual = x_crc32c X content
                        in if actual \<noteq> ei_crc32c info then CrcMismatch (ei_crc32c info) actual else VerifyOk)))))"

fun overlap_pairs :: "(string \<times> nat \<times> nat) list \<Rightarrow> (string \<times> string) list" where
  "overlap_pairs ((k0, o0, p0) # (k1, o1, p1) # rest) =
     (if uadd o0 p0 > o1 then [(k0, k1)] else []) @ overlap_pairs ((k1, o1, p1) # rest)"
| "overlap_pairs _ = []"

text \<open>The loop over the free list: every entry in bounds, not empty, and before the next one.\<close>

fun fl_consistent :: "nat \<Rightarrow> (nat \<times> nat) list \<Rightarrow> bool" where
  "fl_consistent data_end [] = True"
| "fl_consistent data_end ((off, sz) # rest) =
     (if off < DATA_START \<or> saturating_add off sz > data_end \<or> sz = 0 then False
      else if (case rest of (next_off, _) # _ \<Rightarrow> uadd off sz > next_off | [] \<Rightarrow> False) then False
      else fl_consistent data_end rest)"

record verify_report =
  vr_files_checked :: nat
  vr_files_ok :: nat
  vr_errors :: "(string \<times> nat \<times> nat \<times> verify_status) list"
  vr_ok_files :: "(string \<times> nat \<times> nat \<times> verify_status) list"
  vr_overlapping_extents :: "(string \<times> string) list"
  vr_free_list_consistent :: bool
  vr_space_accounted :: bool
  vr_total_data_region :: nat
  vr_total_used :: nat
  vr_total_free :: nat

definition verify_all :: "'x store_env_scheme \<Rightarrow> raw_store \<Rightarrow> verify_report" where
  "verify_all X rs =
     (let self = rs_inner rs; data_end = il_region_a (rs_layout rs);
          results = map (\<lambda>(path, info). (path, ei_offset info, ei_size info,
                          verify_extent X (in_io self) data_end info)) (files_of self);
          ok = filter (\<lambda>(_, _, _, st). st = VerifyOk) results;
          sorted = sort_key (\<lambda>(_, off, _). off)
                     (map (\<lambda>(k, v). (k, ei_offset v, ei_padded_size v)) (files_of self));
          region = usub data_end DATA_START;
          used_bytes = foldl uadd 0 (map (\<lambda>(_, e). ei_padded_size e) (files_of self));
          (free, accounted, consistent) =
            (case in_allocator self of
               Some al \<Rightarrow>
                 (free_space al, uadd used_bytes (free_space al) = region,
                  fl_consistent data_end (free_list al))
             | None \<Rightarrow> (saturating_sub region used_bytes, True, True))
      in \<lparr>vr_files_checked = length (files_of self), vr_files_ok = length ok,
          vr_errors = filter (\<lambda>(_, _, _, st). st \<noteq> VerifyOk) results, vr_ok_files = ok,
          vr_overlapping_extents = overlap_pairs sorted, vr_free_list_consistent = consistent,
          vr_space_accounted = accounted, vr_total_data_region = region, vr_total_used = used_bytes,
          vr_total_free = free\<rparr>)"

section \<open>Repair\<close>

record repair_report =
  rr_old_free_entries :: nat
  rr_new_free_entries :: nat
  rr_old_free_space :: nat
  rr_new_free_space :: nat
  rr_files_found :: nat
  rr_used_extents :: "(string \<times> nat \<times> nat) list"
  rr_new_free_list :: "(nat \<times> nat) list"

definition repair :: "'x store_env_scheme \<Rightarrow> raw_store \<Rightarrow> repair_report result \<times> raw_store" where
  "repair X rs =
     (let self = rs_inner rs; data_end = il_region_a (rs_layout rs) in
      if in_read_only self then (Inl ReadOnly, rs)
      else
        (let old_free = alloc_stats (in_allocator self);
             new_free = snd (rebuild_free_list (in_index self) data_end);
             used_named = sort_key (\<lambda>(_, off, _). off)
               (map (\<lambda>(k, e). (k, ei_offset e, ei_padded_size e))
                  (filter (\<lambda>(_, e). in_data_area data_end e) (files_of self)));
             rs1 = rs\<lparr>rs_inner := self\<lparr>in_allocator := Some (from_free_list new_free DATA_START data_end)\<rparr>\<rparr>
         in case flush_index X rs1 of
              (Inl e, rs2) \<Rightarrow> (Inl e, rs2)
            | (Inr _, rs2) \<Rightarrow>
                (let new_stats = alloc_stats (in_allocator (rs_inner rs2))
                 in (Inr \<lparr>rr_old_free_entries = fst (snd old_free), rr_new_free_entries = fst (snd new_stats),
                          rr_old_free_space = fst old_free, rr_new_free_space = fst new_stats,
                          rr_files_found = length (files_of self), rr_used_extents = used_named,
                          rr_new_free_list = new_free\<rparr>, rs2))))"

section \<open>Tombstones\<close>

definition list_tombstones :: "inner \<Rightarrow> (string \<times> tombstone_info) list" where
  "list_tombstones self = sort_str fst (ix_tombstones (in_index self))"

definition delete_tombstone :: "'x store_env_scheme \<Rightarrow> string \<Rightarrow> inner \<Rightarrow> bool result \<times> inner" where
  "delete_tombstone X path self =
     (if in_read_only self then (Inl ReadOnly, self)
      else if hm_get (files_of self) path \<noteq> None then (Inr False, self)
      else
        (case hm_get (ix_tombstones (in_index self)) path of
           Some _ \<Rightarrow>
             (Inr True, (mark_shard_dirty X path
                (set_tombstones (hm_remove path (ix_tombstones (in_index self))) self))\<lparr>in_dirty := True\<rparr>)
         | None \<Rightarrow> (Inr False, self)))"

definition clear_tombstones :: "'x store_env_scheme \<Rightarrow> inner \<Rightarrow> nat result \<times> inner" where
  "clear_tombstones X self =
     (if in_read_only self then (Inl ReadOnly, self)
      else
        (let ts = ix_tombstones (in_index self); count = length ts
         in (Inr count,
             if count > 0
             then (set_tombstones [] (fold (\<lambda>(k, _) s. mark_shard_dirty X k s) ts self))\<lparr>in_dirty := True\<rparr>
             else self)))"

section \<open>Free-space scrub\<close>

definition SCRUB_CHUNK :: nat where
  "SCRUB_CHUNK = 1024 * 1024"

function scrub_region :: "nat \<Rightarrow> nat \<Rightarrow> device_io \<Rightarrow> unit result \<times> device_io" where
  "scrub_region cursor region_end dev =
     (if cursor < region_end then
        (let len = min (region_end - cursor) SCRUB_CHUNK in
         case pwrite dev cursor (replicate len 0) of
           (Inl e, dev') \<Rightarrow> (Inl e, dev')
         | (Inr _, dev') \<Rightarrow> scrub_region (cursor + len) region_end dev')
      else (Inr (), dev))"
  by pat_completeness auto
termination
  by (relation "measure (\<lambda>(cursor, region_end, dev). region_end - cursor)") (auto simp: SCRUB_CHUNK_def)

declare scrub_region.simps [simp del]

fun scrub_regions :: "(nat \<times> nat) list \<Rightarrow> nat \<Rightarrow> nat \<Rightarrow> device_io \<Rightarrow> (nat \<times> nat) result \<times> device_io" where
  "scrub_regions [] regions bytes dev = (Inr (regions, bytes), dev)"
| "scrub_regions ((offset, sz) # rest) regions bytes dev =
     (case scrub_region offset (uadd offset sz) dev of
        (Inl e, dev') \<Rightarrow> (Inl e, dev')
      | (Inr _, dev') \<Rightarrow> scrub_regions rest (regions + 1) (uadd bytes sz) dev')"

definition scrub_free_space :: "inner \<Rightarrow> (nat \<times> nat) result \<times> inner" where
  "scrub_free_space self =
     (if in_read_only self then (Inl ReadOnly, self)
      else
        (case scrub_regions (case in_allocator self of Some a \<Rightarrow> free_list a | None \<Rightarrow> []) 0 0 (in_io self) of
           (Inl e, dev) \<Rightarrow> (Inl e, self\<lparr>in_io := dev\<rparr>)
         | (Inr report, dev) \<Rightarrow>
             (case dev_sync dev of
                (Inl e, dev') \<Rightarrow> (Inl e, self\<lparr>in_io := dev'\<rparr>)
              | (Inr _, dev') \<Rightarrow> (Inr report, self\<lparr>in_io := dev'\<rparr>))))"

section \<open>Import and export\<close>

datatype transfer_error = FetchFailed string | PutFailed os_error | GetFailed os_error | RemoteFailed string

record transfer_report =
  tr_files :: nat
  tr_bytes :: nat
  tr_errors :: "(string \<times> transfer_error) list"

definition import_one ::
  "'x store_env_scheme \<Rightarrow> (string \<Rightarrow> string + byte list) \<Rightarrow> int \<times> string \<Rightarrow> transfer_report \<times> inner \<Rightarrow>
     transfer_report \<times> inner" where
  "import_one X fetch item st =
     (case item of (now, loc) \<Rightarrow> case st of (rpt, self) \<Rightarrow>
        (case fetch loc of
           Inr data \<Rightarrow>
             (case put_opts X now loc data ModeOverwrite self of
                (Inr _, self') \<Rightarrow>
                  (rpt\<lparr>tr_files := tr_files rpt + 1, tr_bytes := uadd (tr_bytes rpt) (length data)\<rparr>, self')
              | (Inl e, self') \<Rightarrow> (rpt\<lparr>tr_errors := tr_errors rpt @ [(loc, PutFailed e)]\<rparr>, self'))
         | Inl e \<Rightarrow> (rpt\<lparr>tr_errors := tr_errors rpt @ [(''fetch'', FetchFailed e)]\<rparr>, self)))"

definition import_from ::
  "'x store_env_scheme \<Rightarrow> (string + string list) \<Rightarrow> (string \<Rightarrow> string + byte list) \<Rightarrow> (nat \<Rightarrow> int) \<Rightarrow> raw_store \<Rightarrow>
     transfer_report result \<times> raw_store" where
  "import_from X listing fetch clock rs =
     (case listing of
        Inl _ \<Rightarrow> (Inl (Io OtherKind), rs)
      | Inr files \<Rightarrow>
          (case fold (import_one X fetch) (zip (map clock [0..<length files]) files)
                  (\<lparr>tr_files = 0, tr_bytes = 0, tr_errors = []\<rparr>, rs_inner rs) of
             (rpt, self) \<Rightarrow>
               (case flush_index X (rs\<lparr>rs_inner := self\<rparr>) of
                  (Inl e, rs') \<Rightarrow> (Inl e, rs')
                | (Inr _, rs') \<Rightarrow> (Inr rpt, rs'))))"

definition export_one ::
  "'x store_env_scheme \<Rightarrow> (string \<Rightarrow> byte list \<Rightarrow> 't \<Rightarrow> (string + unit) \<times> 't) \<Rightarrow> inner \<Rightarrow> string \<Rightarrow>
     transfer_report \<times> 't \<Rightarrow> transfer_report \<times> 't" where
  "export_one X remote_put self loc st =
     (case st of (rpt, t) \<Rightarrow>
        (case get_full X loc self of
           Inl e \<Rightarrow> (rpt\<lparr>tr_errors := tr_errors rpt @ [(loc, GetFailed e)]\<rparr>, t)
         | Inr (data, _) \<Rightarrow>
             (case remote_put loc data t of
                (Inl e, t') \<Rightarrow> (rpt\<lparr>tr_errors := tr_errors rpt @ [(loc, RemoteFailed e)]\<rparr>, t')
              | (Inr _, t') \<Rightarrow>
                  (rpt\<lparr>tr_files := tr_files rpt + 1, tr_bytes := uadd (tr_bytes rpt) (length data)\<rparr>, t'))))"

definition export_to ::
  "'x store_env_scheme \<Rightarrow> path_api \<Rightarrow> (string \<Rightarrow> byte list \<Rightarrow> 't \<Rightarrow> (string + unit) \<times> 't) \<Rightarrow> inner \<Rightarrow> 't \<Rightarrow>
     transfer_report \<times> 't" where
  "export_to X P remote_put self t =
     fold (export_one X remote_put self) (map om_location (list_objects P None self))
       (\<lparr>tr_files = 0, tr_bytes = 0, tr_errors = []\<rparr>, t)"

section \<open>Metadata-aware calls\<close>

text \<open>
  A source file: what its size query returns and what its successive reads return; the reads after
  the last one return nothing.
\<close>

record source_file =
  sf_len :: "nat option"
  sf_reads :: "(io_kind + byte list) list"

fun read_to_end :: "(io_kind + byte list) list \<Rightarrow> byte list result" where
  "read_to_end [] = Inr []"
| "read_to_end (Inl k # _) = Inl (Io k)"
| "read_to_end (Inr c # rest) = (if c = [] then Inr [] else bind_res (read_to_end rest) (\<lambda>r. Inr (c @ r)))"

fun file_put_loop ::
  "'x codecs_scheme \<Rightarrow> device_io \<Rightarrow> block_writer \<Rightarrow> (io_kind + byte list) list \<Rightarrow> u32 \<Rightarrow> u32 result \<times> device_io" where
  "file_put_loop X dev w [] crc =
     (case bw_finish X dev w of (Inl e, dev') \<Rightarrow> (Inl e, dev') | (Inr _, dev') \<Rightarrow> (Inr crc, dev'))"
| "file_put_loop X dev w (Inl k # _) crc = (Inl (Io k), dev)"
| "file_put_loop X dev w (Inr c # rest) crc =
     (if c = [] then
        (case bw_finish X dev w of (Inl e, dev') \<Rightarrow> (Inl e, dev') | (Inr _, dev') \<Rightarrow> (Inr crc, dev'))
      else
        (case write_chunk X dev w c of
           (Inl e, dev', _) \<Rightarrow> (Inl e, dev')
         | (Inr _, dev', w') \<Rightarrow> file_put_loop X dev' w' rest (x_crc32c_append X crc c)))"

text \<open>The index update that ends a streamed put: free the old extent, clear the tombstone, insert.\<close>

definition replace_entry :: "'x store_env_scheme \<Rightarrow> string \<Rightarrow> extent_info \<Rightarrow> inner \<Rightarrow> inner" where
  "replace_entry X key e self =
     (let self1 = free_old key self
      in insert_entry X key e (set_tombstones (hm_remove key (ix_tombstones (in_index self1))) self1))"

text \<open>The end of a streamed put: the extent is freed after an error, else the entry is replaced.\<close>

definition finish_put ::
  "'x store_env_scheme \<Rightarrow> int \<Rightarrow> string \<Rightarrow> nat \<Rightarrow> nat \<Rightarrow> nat \<Rightarrow> nat \<Rightarrow> u32 result \<times> device_io \<Rightarrow> inner \<Rightarrow>
     unit result \<times> inner" where
  "finish_put X now key offset padded payload_size meta_len written self =
     (case written of
        (Inl e, dev) \<Rightarrow>
          (let self2 = self\<lparr>in_io := dev\<rparr>
           in (Inl e, if e = Panicked then self2 else inner_free offset padded self2))
      | (Inr crc, dev) \<Rightarrow>
          (Inr (), replace_entry X key
             \<lparr>ei_offset = offset, ei_size = payload_size, ei_padded_size = padded,
              ei_crc32c = crc, ei_created_txn = sb_txn_id (in_superblock self),
              ei_last_modified = now, ei_meta_len = meta_len, ei_uncompressed_size = 0\<rparr>
             (self\<lparr>in_io := dev\<rparr>)))"

definition put_with_meta_from_file ::
  "'x store_env_scheme \<Rightarrow> int \<Rightarrow> string \<Rightarrow> source_file \<Rightarrow> nat \<Rightarrow> inner \<Rightarrow> unit result \<times> inner" where
  "put_with_meta_from_file X now key file meta_len self =
     (let file_len = (case sf_len file of Some n \<Rightarrow> n | None \<Rightarrow> 0) in
      if in_compression self \<noteq> CNone then
        (case read_to_end (sf_reads file) of
           Inl e \<Rightarrow> (Inl e, self)
         | Inr payload \<Rightarrow> do_put_with_meta X now key payload meta_len self)
      else if in_read_only self then (Inl ReadOnly, self)
      else if file_len = 0 then (Inl EmptyPayload, self)
      else if length key > in_max_key_length self
      then (Inl (KeyTooLong (length key) (in_max_key_length self)), self)
      else
        (case padded_extent_size file_len of
           Inl e \<Rightarrow> (Inl e, self)
         | Inr padded \<Rightarrow>
             (case inner_alloc padded self of
                (Inl e, self1) \<Rightarrow> (Inl e, self1)
              | (Inr offset, self1) \<Rightarrow>
                  finish_put X now key offset padded file_len meta_len
                    (file_put_loop X (in_io self1) (bw_new offset) (sf_reads file) 0) self1)))"

definition head_with_meta :: "string \<Rightarrow> inner \<Rightarrow> (object_meta \<times> nat) result" where
  "head_with_meta key self =
     bind_res (lookup_info key self) (\<lambda>info. Inr (meta_for key info, ei_meta_len info))"

definition get_metadata :: "'x store_env_scheme \<Rightarrow> string \<Rightarrow> inner \<Rightarrow> byte list result" where
  "get_metadata X key self =
     bind_res (lookup_info key self) (\<lambda>info.
       if ei_meta_len info = 0 then Inr []
       else bind_res (do_get_range X key (saturating_sub (logical_size info) (ei_meta_len info))
                        (logical_size info) self) (\<lambda>(data, _). Inr data))"

definition set_meta_len :: "'x store_env_scheme \<Rightarrow> string \<Rightarrow> nat \<Rightarrow> inner \<Rightarrow> unit result \<times> inner" where
  "set_meta_len X key meta_len self =
     (case lookup_info key self of
        Inl e \<Rightarrow> (Inl e, self)
      | Inr info \<Rightarrow>
          (Inr (), (mark_shard_dirty X key
             (set_files (hm_insert key (info\<lparr>ei_meta_len := meta_len\<rparr>) (files_of self)) self))\<lparr>in_dirty := True\<rparr>))"

definition get_raw :: "'x store_env_scheme \<Rightarrow> string \<Rightarrow> inner \<Rightarrow> (byte list \<times> nat \<times> compression) result" where
  "get_raw X key self =
     bind_res (do_get_raw X key self) (\<lambda>(data, info). Inr (data, ei_uncompressed_size info, in_compression self))"

record object_full_info =
  of_key :: string
  of_body_size :: nat
  of_meta_len :: nat
  of_last_modified :: int
  of_created_txn :: nat
  of_offset :: nat
  of_padded_size :: nat

definition list_full :: "path_api \<Rightarrow> string option \<Rightarrow> inner \<Rightarrow> object_full_info list" where
  "list_full P prefix self =
     sort_str of_key
       (map (\<lambda>(k, info).
          \<lparr>of_key = k, of_body_size = saturating_sub (logical_size info) (ei_meta_len info),
           of_meta_len = ei_meta_len info, of_last_modified = ei_last_modified info,
           of_created_txn = ei_created_txn info, of_offset = ei_offset info,
           of_padded_size = ei_padded_size info\<rparr>)
         (filter (\<lambda>(k, _). prefix_filter P prefix k) (filter visible (files_of self))))"

text \<open>The body of an uncompressed object is streamed from its extent to the new one.\<close>

function body_copy_loop ::
  "'x codecs_scheme \<Rightarrow> device_io \<Rightarrow> block_reader \<Rightarrow> block_writer \<Rightarrow> nat \<Rightarrow> u32 \<Rightarrow>
     (u32 \<times> block_writer) result \<times> device_io" where
  "body_copy_loop X dev r w remaining crc =
     (if remaining > 0 then
        (case next_chunk X dev r of
           (Inl e, _) \<Rightarrow> (Inl e, dev)
         | (Inr None, _) \<Rightarrow> (Inr (crc, w), dev)
         | (Inr (Some chunk), r') \<Rightarrow>
             (let n = min (length chunk) remaining in
              case write_chunk X dev w (take n chunk) of
                (Inl e, dev', _) \<Rightarrow> (Inl e, dev')
              | (Inr _, dev', w') \<Rightarrow>
                  body_copy_loop X dev' r' w' (remaining - n) (x_crc32c_append X crc (take n chunk))))
      else (Inr (crc, w), dev))"
  by pat_completeness auto
termination
  by (relation "measure (\<lambda>(X, dev, r, w, remaining, crc). br_total_blocks r - br_block_idx r)")
    (auto dest: next_chunk_progress [OF sym])

declare body_copy_loop.simps [simp del]

definition rewrite_extent ::
  "'x store_env_scheme \<Rightarrow> device_io \<Rightarrow> extent_info \<Rightarrow> nat \<Rightarrow> nat \<Rightarrow> byte list \<Rightarrow> u32 result \<times> device_io" where
  "rewrite_extent X dev info new_offset body_size metadata =
     (case body_copy_loop X dev (br_new (ei_offset info) (ei_size info)) (bw_new new_offset) body_size 0 of
        (Inl e, d) \<Rightarrow> (Inl e, d)
      | (Inr (crc, w), d) \<Rightarrow>
          (case (if metadata = [] then (Inr (), d, w) else write_chunk X d w metadata) of
             (Inl e, d', _) \<Rightarrow> (Inl e, d')
           | (Inr _, d', w') \<Rightarrow>
               (case bw_finish X d' w' of
                  (Inl e, d'') \<Rightarrow> (Inl e, d'')
                | (Inr _, d'') \<Rightarrow>
                    (Inr (if metadata = [] then crc else x_crc32c_append X crc metadata), d''))))"

definition update_metadata ::
  "'x store_env_scheme \<Rightarrow> int \<Rightarrow> string \<Rightarrow> byte list \<Rightarrow> inner \<Rightarrow> unit result \<times> inner" where
  "update_metadata X now key metadata self =
     (if length metadata > 65535 then (Inl (MetadataTooLarge (length metadata) 65535), self)
      else
        (case lookup_info key self of
           Inl e \<Rightarrow> (Inl e, self)
         | Inr info \<Rightarrow>
             if ei_uncompressed_size info > 0 then
               (let body_size = saturating_sub (ei_uncompressed_size info) (ei_meta_len info) in
                case (if body_size = 0 then Inr []
                      else bind_res (do_get X key self) (\<lambda>(data, _).
                             if body_size \<le> length data then Inr (take body_size data) else Inl Panicked)) of
                  Inl e \<Rightarrow> (Inl e, self)
                | Inr body \<Rightarrow> do_put_with_meta X now key (body @ metadata) (length metadata) self)
             else if in_read_only self then (Inl ReadOnly, self)
             else
               (let body_size = saturating_sub (ei_size info) (ei_meta_len info);
                    new_size = uadd body_size (length metadata)
                in if new_size = 0 then (Inl EmptyPayload, self)
                   else
                     (case padded_extent_size new_size of
                        Inl e \<Rightarrow> (Inl e, self)
                      | Inr padded \<Rightarrow>
                          (case inner_alloc padded self of
                             (Inl e, self1) \<Rightarrow> (Inl e, self1)
                           | (Inr new_offset, self1) \<Rightarrow>
                               finish_put X now key new_offset padded new_size (length metadata)
                                 (rewrite_extent X (in_io self1) info new_offset body_size metadata) self1)))))"

end
