(* ===== verification/Object_Ops.thy ===== *)
theory Object_Ops
  imports Object_Store
begin

text \<open>
  The \<open>ObjectStore\<close> calls refine the operations of a map from keys to payloads with their
  metadata lengths: delete, rename and its conditional form, conditional put and copy, full and
  ranged get, and the multipart upload.
\<close>

section \<open>Delete and rename\<close>

lemma mark_shard_dirty_inv [simp]: "space_inv de H (mark_shard_dirty X key self) = space_inv de H self"
  by (simp add: space_inv_def mark_shard_dirty_def split: option.splits)

lemma set_dirty_inv [simp]: "space_inv de H (self\<lparr>in_dirty := b\<rparr>) = space_inv de H self"
  by (simp add: space_inv_def split: option.splits)

lemma rep_mark_dirty [simp]:
  "rep X (mark_shard_dirty Y key self) A = rep X self A" "rep X (self\<lparr>in_dirty := b\<rparr>) A = rep X self A"
  by (simp_all add: rep_def mark_shard_dirty_def)

lemma free_old_rep: "space_inv de H self \<Longrightarrow> rep X self A \<Longrightarrow> rep X (free_old key self) (A(key := None))"
  using free_old_inv(3) [of de H self key] by (intro rep_del [where s = self]) simp_all

lemma remove_entry_inv:
  assumes "space_inv de H self"
  shows "space_inv de H (remove_entry X key self)"
    and "hm_get (files_of (remove_entry X key self)) = (hm_get (files_of self))(key := None)"
    and "rep X self A \<Longrightarrow> rep X (remove_entry X key self) (A(key := None))"
    and "in_io (remove_entry X key self) = in_io self"
proof -
  show "space_inv de H (remove_entry X key self)"
    using assms free_old_inv(1) [OF assms] by (auto simp: remove_entry_def split: option.splits)
  show "hm_get (files_of (remove_entry X key self)) = (hm_get (files_of self))(key := None)"
    using free_old_inv(3) [OF assms, of key] by (auto simp: remove_entry_def fun_eq_iff split: option.splits)
  show "rep X (remove_entry X key self) (A(key := None))" if "rep X self A"
    using free_old_rep [OF assms that, of key] rep_None [OF that, of key] that
    by (auto simp: remove_entry_def fun_upd_idem split: option.splits)
  show "in_io (remove_entry X key self) = in_io self"
    by (simp add: remove_entry_def split: option.splits)
qed

lemma delete_object_spec:
  assumes "store_ok de self" and "delete_object X key self = (r, self')"
  shows "store_ok de self' \<and> in_io self' = in_io self \<and>
    (case r of Inl e \<Rightarrow> in_read_only self \<and> self' = self
     | Inr _ \<Rightarrow> \<not> in_read_only self \<and> (\<forall>A. rep X self A \<longrightarrow> rep X self' (A(key := None))))"
proof (cases "in_read_only self")
  case True
  then show ?thesis using assms by (auto simp: delete_object_def)
next
  case False
  then have "self' = (case hm_get (files_of self) key of
      Some info \<Rightarrow> (remove_entry X key self)\<lparr>in_dirty := True\<rparr> | None \<Rightarrow> self)" "r = Inr ()"
    using assms by (auto simp: delete_object_def)
  moreover have "rep X self (A(key := None))" if "rep X self A" "hm_get (files_of self) key = None" for A
    using rep_None [OF that(1), of key] that by (simp add: fun_upd_idem)
  ultimately show ?thesis
    using remove_entry_inv [OF assms(1), where X = X and key = key] assms(1) False by (auto split: option.splits)
qed

text \<open>Removing an entry without freeing its extent leaves the extent held.\<close>

lemma detach_entry:
  assumes inv: "store_ok de self" and info: "hm_get (files_of self) k = Some info"
  shows "space_inv de (e_range info) (set_files (hm_remove k (files_of self)) self)"
proof -
  let ?F = "hm_get (files_of self)"
  have fi: "files_inv de ?F" using inv by (simp add: space_inv_def)
  have u: "used (?F(k := None)) = used ?F - e_range info" by (rule used_delete [OF fi info])
  have sub: "e_range info \<subseteq> used ?F" using info by (rule e_range_used)
  have "e_range info \<subseteq> {DATA_START..<de}" using sub files_inv_used [OF fi] by blast
  moreover have "{DATA_START..<de} - (used ?F - e_range info) - e_range info = {DATA_START..<de} - used ?F"
    using sub by blast
  ultimately show ?thesis
    using inv files_inv_delete [OF fi, of k] u
    by (auto simp: space_inv_def hm_get_remove hm_wf_remove split: option.splits)
qed

lemma entry_ok_of: "store_ok de self \<Longrightarrow> hm_get (files_of self) k = Some e \<Longrightarrow> entry_ok de e"
  by (auto simp: space_inv_def files_inv_def)

text \<open>The common tail of the renames: the detached entry goes to the new key.\<close>

lemma attach_entry:
  assumes inv: "store_ok de self" and info: "hm_get (files_of self) from = Some info"
    and t: "t = free_old to (set_files (hm_remove from (files_of self)) self)"
    and self': "self' = (set_files (hm_insert to info (files_of (mark_shard_dirty X to (mark_shard_dirty X from t))))
          (mark_shard_dirty X to (mark_shard_dirty X from t)))\<lparr>in_dirty := True\<rparr>"
  shows "store_ok de self'" and "rep X self A \<Longrightarrow> rep X self' ((A(from := None))(to := A from))"
    and "in_io self' = in_io self"
proof -
  let ?s1 = "set_files (hm_remove from (files_of self)) self"
  have inv1: "space_inv de (e_range info) ?s1" by (rule detach_entry [OF inv info])
  note fo = free_old_inv [OF inv1, of to, folded t]
  have ok: "entry_ok de info" using inv info by (rule entry_ok_of)
  have eq: "self' = insert_entry X to info (mark_shard_dirty X from t)"
    by (simp add: self' insert_entry_def Let_def)
  have invt: "space_inv de (e_range info) (mark_shard_dirty X from t)"
    "hm_get (files_of (mark_shard_dirty X from t)) to = None" using fo by simp_all
  show "store_ok de self'" unfolding eq by (rule insert_entry_inv(1) [OF invt(1) ok invt(2)])
  have io: "in_io t = in_io self" "in_compression t = in_compression self" by (simp_all add: t)
  then show "in_io self' = in_io self" by (simp add: eq)
  show "rep X self' ((A(from := None))(to := A from))" if rA: "rep X self A"
  proof -
    obtain p where p: "A from = Some (p, ei_meta_len info)"
      "obj_ok X (in_compression self) (dev_data (in_io self)) info p"
      using rep_Some [OF rA info] by metis
    have "rep X ?s1 (A(from := None))"
      using rA by (rule rep_del [where s = self]) (simp_all add: hm_get_remove)
    then have "rep X t ((A(from := None))(to := None))"
      unfolding t by (rule free_old_rep [OF inv1])
    then have "rep X self' ((A(from := None, to := None))(to \<mapsto> (p, ei_meta_len info)))"
      unfolding eq using p(2) io insert_entry_inv(2) [OF invt(1) ok invt(2), of X]
      by (intro rep_upd [where s = t]) simp_all
    then show ?thesis using p(1) by simp
  qed
qed

lemma rename_object_spec:
  assumes inv: "store_ok de self" and run: "rename_object X from to self = (r, self')"
  shows "store_ok de self' \<and> in_io self' = in_io self \<and>
    (case r of Inl e \<Rightarrow> self' = self
     | Inr _ \<Rightarrow> \<not> in_read_only self \<and> length to \<le> in_max_key_length self \<and>
         (\<forall>A. rep X self A \<longrightarrow> A from \<noteq> None \<and> rep X self' ((A(from := None))(to := A from))))"
proof (cases "in_read_only self \<or> length to > in_max_key_length self \<or> hm_get (files_of self) from = None")
  case True
  then have "\<exists>e. rename_object X from to self = (Inl e, self)"
    by (cases "in_read_only self"; cases "length to > in_max_key_length self") (simp_all add: rename_object_def)
  then show ?thesis using run inv by auto
next
  case False
  then obtain info where info: "hm_get (files_of self) from = Some info" by auto
  define t where "t = free_old to (set_files (hm_remove from (files_of self)) self)"
  have "r = Inr ()" and self': "self' = (set_files (hm_insert to info (files_of (mark_shard_dirty X to (mark_shard_dirty X from t))))
          (mark_shard_dirty X to (mark_shard_dirty X from t)))\<lparr>in_dirty := True\<rparr>"
    using run False info by (simp_all add: rename_object_def Let_def t_def)
  moreover note attach_entry [OF inv info t_def self']
  moreover have "A from \<noteq> None" if "rep X self A" for A using rep_None [OF that, of "from"] info by simp
  ultimately show ?thesis using False by auto
qed

lemma rename_if_not_exists_eq:
  "rename_if_not_exists X from to self =
     (if \<not> in_read_only self \<and> length to \<le> in_max_key_length self \<and> hm_get (files_of self) to \<noteq> None
      then (Inl (OsAlreadyExists to (AlreadyExists to)), self) else rename_object X from to self)"
proof (cases "hm_get (files_of self) to")
  case None
  then have "free_old to (set_files (hm_remove from (files_of self)) self) = set_files (hm_remove from (files_of self)) self"
    by (simp add: free_old_def hm_get_remove)
  with None show ?thesis
    by (auto simp: rename_if_not_exists_def rename_object_def Let_def split: option.splits)
next
  case (Some e)
  then show ?thesis by (simp add: rename_if_not_exists_def rename_object_def)
qed

section \<open>Full get\<close>

text \<open>A read of the first \<open>b\<close> bytes of a stored extent.\<close>

lemma stored_prefix_decode:
  assumes w: "slice d off (off + num_blocks (length w) * 4096) = encode_blocks X w" and b: "b \<le> length w"
    and r: "decode_loop X (slice d off (off + num_blocks b * 4096)) 0 b [0..<num_blocks b] [] = res"
  shows "res = Inr (take b w)"
proof -
  let ?m = "num_blocks b" and ?n = "num_blocks (length w)"
  have mn: "?m \<le> ?n" using b num_blocks_ge [of "length w"] by (simp add: num_blocks_le_iff)
  then have mn': "?m * 4096 \<le> ?n * 4096" by simp
  define raw where "raw = slice d off (off + ?m * 4096)"
  have "raw = slice (slice d off (off + ?n * 4096)) 0 (?m * 4096)"
    unfolding raw_def using mn' by (subst slice_slice) simp_all
  also have "\<dots> = enc_blocks X w 0 ?m"
    using w mn enc_blocks_append [of 0 ?m ?n X w] by (simp add: encode_blocks_eq slice_def length_enc_blocks)
      (metis append_eq_conv_conj diff_zero length_enc_blocks mn)
  finally have raw: "raw = enc_blocks X w 0 ?m" .
  have blk: "nth_block raw i = enc_block X (block_data w i)" if "i < ?m" for i
    using nth_block_enc_blocks [of 0 i ?m w X] that mn by (simp add: raw)
  have len: "length raw = ?m * 4096" using mn by (simp add: raw length_enc_blocks)
  have bnd: "\<forall>i\<in>set [0..<?m]. (i + 1) * 4096 \<le> length raw"
    unfolding len by (intro ballI mult_le_mono1) simp
  have "map (\<lambda>i. drop 4 (nth_block raw i)) [0..<?m] = map (block_data w) [0..<?m]" using blk by auto
  then have c: "concat (map (\<lambda>i. drop 4 (nth_block raw i)) [0..<?m]) = slice (zpad w) (0 * 4092) (?m * 4092)"
    by (simp only: concat_block_data le0)
  have "take b (slice (zpad w) (0 * 4092) (?m * 4092)) = take b w"
    using b num_blocks_ge [of b] by (simp add: slice_def zpad_def min_def)
  moreover have "\<forall>i\<in>set [0..<?m]. block_ok X (nth_block raw i)" using blk by simp
  ultimately have "decode_loop X raw 0 b [0..<?m] [] = Inr (take b w)"
    using decode_loop_Inr_iff [OF bnd, of "[]" b X 0 "take b w"] unfolding c by simp
  with r show ?thesis by (simp add: raw_def)
qed

lemma full_body_compressed:
  assumes laws: "stream_laws X"
    and fits: "extent_fits (in_io self) (ei_offset e) (num_blocks (ei_size e))"
    and w: "length w = ei_size e" "extent_bytes (in_io self) (ei_offset e) (num_blocks (ei_size e)) = encode_blocks X w"
    and u: "ei_uncompressed_size e = length p" "0 < length p"
    and c: "in_compression self \<noteq> CNone" "decompress X (in_compression self) w = Inr p"
  shows "full_body X k self e = Inr body \<Longrightarrow> body = take (length p - ei_meta_len e) p"
    and "(\<And>i n. \<not> dev_rfault (in_io self) i n) \<Longrightarrow>
      full_body X k self e = Inr (take (length p - ei_meta_len e) p)"
proof -
  let ?n = "length p - ei_meta_len e"
  have fw: "extent_fits (in_io self) (ei_offset e) (num_blocks (length w))"
    "extent_bytes (in_io self) (ei_offset e) (num_blocks (length w)) = encode_blocks X w"
    using fits w by simp_all
  obtain src failed where dr: "drain_chunks X (in_io self) (br_new (ei_offset e) (ei_size e)) = (src, failed)"
    by fastforce
  have full: "x_decode_stream X (in_compression self) n w False = Some (take n p)" for n
    using laws c unfolding stream_laws_def by (metis append_Nil2)
  have part: "x_decode_stream X (in_compression self) n src True = Some q \<Longrightarrow> w = src @ t \<Longrightarrow> q = take n p" for n q t
    using laws c unfolding stream_laws_def by blast
  show "body = take ?n p" if run: "full_body X k self e = Inr body"
  proof (cases "in_compression self = Snappy")
    case True
    then show ?thesis
      using run u c w stored_read_Inr [OF fw]
      by (auto simp: full_body_def saturating_sub_def map_os_def Let_def bind_res_Inr_iff
          split: sum.splits)
  next
    case False
    then have "x_decode_stream X (in_compression self) ?n src failed = Some body"
      using run u dr by (auto simp: full_body_def saturating_sub_def Let_def split: option.splits)
    moreover have "if failed then \<exists>t. w = src @ t else src = w"
      by (rule drain_stored(1) [OF fw]) (simp only: w(1) dr)
    ultimately show ?thesis using full [of ?n] part [of ?n body] by (metis (full_types) option.inject)
  qed
  show "full_body X k self e = Inr (take ?n p)" if nf: "\<And>i n. \<not> dev_rfault (in_io self) i n"
    using u c w stored_read_ok [OF fw nf] drain_stored(2) [OF fw nf] full
    by (cases "in_compression self = Snappy") (simp_all add: full_body_def saturating_sub_def map_os_def Let_def)
qed

lemma full_body_spec:
  assumes laws: "stream_laws X" and inv: "store_ok de self" and e: "hm_get (files_of self) k = Some e"
    and obj: "obj_ok X (in_compression self) (dev_data (in_io self)) e p"
  shows "full_body X k self e = Inr body \<Longrightarrow> body = take (length p - ei_meta_len e) p"
    and "(\<And>i n. \<not> dev_rfault (in_io self) i n) \<Longrightarrow>
      full_body X k self e = Inr (take (length p - ei_meta_len e) p)"
proof -
  note fits = stored_fits [OF inv e]
  obtain w where w: "length w = ei_size e"
    "extent_bytes (in_io self) (ei_offset e) (num_blocks (ei_size e)) = encode_blocks X w"
    and dec: "if ei_uncompressed_size e = 0 then p = w
       else in_compression self \<noteq> CNone \<and> decompress X (in_compression self) w = Inr p \<and>
         ei_uncompressed_size e = length p"
    using obj_ok_read [OF obj fits] by metis
  let ?b = "ei_size e - ei_meta_len e"
  have bw: "?b \<le> length w" using w(1) by simp
  have "num_blocks ?b \<le> num_blocks (ei_size e)"
    using num_blocks_ge [of "ei_size e"] by (simp add: num_blocks_le_iff)
  then have "num_blocks ?b * 4096 \<le> num_blocks (ei_size e) * 4096" by simp
  then have fb: "extent_fits (in_io self) (ei_offset e) (num_blocks ?b)"
    using fits unfolding extent_fits_def by linarith
  have dl: "decode_blocks X (extent_bytes (in_io self) (ei_offset e) (num_blocks ?b)) ?b = Inr (take ?b w)"
    unfolding decode_blocks_extent [OF fb]
    using stored_prefix_decode [of "dev_data (in_io self)" "ei_offset e" w X ?b] w bw by simp
  note fc = full_body_compressed [OF laws fits w, of p k]
  show "body = take (length p - ei_meta_len e) p" if run: "full_body X k self e = Inr body"
  proof (cases "ei_uncompressed_size e = 0")
    case True
    then show ?thesis
      using run dec w(1) read_and_decode_Inr [OF fb, of X] dl
      by (auto simp: full_body_def saturating_sub_def collect_chunks_new map_os_def Let_def
          split: if_splits sum.splits)
  next
    case False
    then show ?thesis using fc(1) [OF _ _ _ _ run] dec by simp
  qed
  show "full_body X k self e = Inr (take (length p - ei_meta_len e) p)"
    if n: "\<And>i n. \<not> dev_rfault (in_io self) i n"
  proof (cases "ei_uncompressed_size e = 0")
    case True
    then show ?thesis
      using dec w(1) read_and_decode_no_fault [OF fb n, of X] dl
      by (auto simp: full_body_def saturating_sub_def collect_chunks_new map_os_def Let_def)
  next
    case False
    then show ?thesis using fc(2) [OF _ _ _ _ n] dec by simp
  qed
qed

end
