(* ===== verification/Multipart.thy ===== *)
theory Multipart
  imports Object_Ops
begin

text \<open>
  Multipart uploads: completing an upload stores the concatenation of its parts under the
  location and removes the parts, whatever the device does; aborting removes the parts.
\<close>

section \<open>Reading the parts back\<close>

text \<open>The extents \<open>is\<close> hold the contents \<open>cs\<close>.\<close>

definition parts_hold :: "inner \<Rightarrow> (string \<rightharpoonup> byte list \<times> nat) \<Rightarrow> extent_info list \<Rightarrow> byte list list \<Rightarrow> bool" where
  "parts_hold self A is cs \<longleftrightarrow>
     list_all2 (\<lambda>i c. \<exists>k m. hm_get (files_of self) k = Some i \<and> A k = Some (c, m)) is cs"

lemma bind_res_not_Inl: "r \<noteq> Inl e \<Longrightarrow> (\<And>x. r = Inr x \<Longrightarrow> f x \<noteq> Inl e) \<Longrightarrow> bind_res r f \<noteq> Inl e"
  by (cases r) auto

lemma read_batches_no_panic:
  assumes "4096 dvd off"
  shows "read_batches X dev off plen n idx c \<noteq> Inl Panicked"
proof (induction "n - idx" arbitrary: idx c rule: less_induct)
  case less
  have dl: "decode_loop X raw a b is acc \<noteq> Inl Panicked" for raw a b "is" acc
    by (induction "is" arbitrary: acc) (auto simp: verify_block_crc_def Let_def split: sum.splits if_splits)
  have p2: "(4096 :: nat) dvd 2 ^ 64" by simp
  then have "4096 dvd umul idx 4096" unfolding umul_def by (intro dvd_mod) simp_all
  then have al: "4096 dvd uadd off (umul idx 4096)"
    using assms p2 unfolding uadd_def by (intro dvd_mod dvd_add)
  have pr: "pread dev (uadd off (umul idx 4096)) ((min (idx + 256) n - idx) * 4096) \<noteq> Inl Panicked"
    using al
  proof (rule pread_no_panic)
    have "(min (idx + 256) n - idx) * 4096 \<le> 256 * 4096" by (intro mult_le_mono1) simp
    then show "(min (idx + 256) n - idx) * 4096 + 4095 < 2 ^ 64" by simp
  qed
  show ?case
  proof (cases "idx < n")
    case False
    then show ?thesis by (subst read_batches.simps) simp
  next
    case True
    define e where "e = min (idx + 256) n"
    have lt: "n - e < n - idx" using True by (auto simp: e_def)
    have "bind_res (pread dev (uadd off (umul idx 4096)) ((e - idx) * 4096)) (\<lambda>raw.
        bind_res (decode_loop X raw idx plen [0..<e - idx] c) (read_batches X dev off plen n e)) \<noteq> Inl Panicked"
      using pr less [OF lt] unfolding e_def by (intro bind_res_not_Inl dl) simp_all
    then show ?thesis using True by (subst read_batches.simps) (simp add: Let_def e_def)
  qed
qed

lemma part_content_spec:
  fixes X :: "'x store_env_scheme"
  assumes inv: "space_inv de H self" and rep: "rep X self A" and e: "hm_get (files_of self) k = Some e"
    and A: "A k = Some (c, m)"
  shows "part_content X (in_compression self) (in_io self) e = Inr d \<Longrightarrow> d = c"
    and "part_content X (in_compression self) (in_io self) e \<noteq> Inl Panicked"
    and "logical_size e = length c" and "c \<noteq> []"
proof -
  have ok: "entry_ok de e" using inv e by (auto simp: space_inv_def files_inv_def)
  have fits: "extent_fits (in_io self) (ei_offset e) (num_blocks (ei_size e))"
    using ok inv by (intro area_unit_fits [of de]) (auto simp: space_inv_def entry_ok_def)
  have obj: "obj_ok X (in_compression self) (dev_data (in_io self)) e c"
    using rep_Some [OF rep e] A by (metis Pair_inject option.inject)
  obtain w where w: "length w = ei_size e"
    and rd: "\<And>r. read_and_decode_batched X (in_io self) (ei_offset e) (ei_size e) = Inr r \<Longrightarrow> r = w"
    and dec: "if ei_uncompressed_size e = 0 then c = w
       else in_compression self \<noteq> CNone \<and> decompress X (in_compression self) w = Inr c \<and>
         ei_uncompressed_size e = length c"
    using obj_ok_read [OF obj fits] by metis
  show "d = c" if "part_content X (in_compression self) (in_io self) e = Inr d"
    using that rd dec by (auto simp: part_content_def bind_res_Inr_iff split: if_splits)
  have "decompress X cm v \<noteq> Inl Panicked" for cm v
    by (cases cm) (auto simp: decompress_def split: option.splits)
  moreover have "read_and_decode_batched X (in_io self) (ei_offset e) (ei_size e) \<noteq> Inl Panicked"
    unfolding read_and_decode_batched_def
    using ok by (intro read_batches_no_panic) (simp add: entry_ok_def area_unit_def)
  ultimately show "part_content X (in_compression self) (in_io self) e \<noteq> Inl Panicked"
    by (cases "read_and_decode_batched X (in_io self) (ei_offset e) (ei_size e)") (auto simp: part_content_def)
  show len: "logical_size e = length c" using w dec by (auto simp: logical_size_def)
  have "w \<noteq> []" using obj w by (auto simp: obj_ok_def)
  then show "c \<noteq> []" using len dec w by (auto simp: logical_size_def split: if_splits)
qed

lemma part_infos_hold:
  assumes "rep X self A" and "map (\<lambda>k. map_option fst (A k)) ks = map Some cs"
  shows "\<exists>is. part_infos self ks = Inr is \<and> parts_hold self A is cs"
  using assms(2)
proof (induction ks arbitrary: cs)
  case Nil
  then show ?case by (simp add: parts_hold_def)
next
  case (Cons k ks)
  then obtain c cs' m where c: "cs = c # cs'" "A k = Some (c, m)"
    and rest: "map (\<lambda>k. map_option fst (A k)) ks = map Some cs'"
    by (cases cs) auto
  then obtain e where "hm_get (files_of self) k = Some e"
    using rep_None [OF assms(1), of k] by auto
  with Cons.IH [OF rest] c show ?case by (fastforce simp: parts_hold_def)
qed

lemma parts_hold_logical:
  fixes X :: "'x store_env_scheme"
  assumes "space_inv de H self" and "rep X self A" and "parts_hold self A is cs"
  shows "sum_list (map logical_size is) = length (concat cs)" and "cs \<noteq> [] \<Longrightarrow> concat cs \<noteq> []"
proof -
  have "list_all2 (\<lambda>i c. logical_size i = length c \<and> c \<noteq> []) is cs"
    using assms(3) part_content_spec(3,4) [OF assms(1,2)] unfolding parts_hold_def
    by (elim list_all2_mono) blast
  then have "sum_list (map logical_size is) = length (concat cs) \<and> (cs \<noteq> [] \<longrightarrow> concat cs \<noteq> [])"
    by (induction rule: list_all2_induct) auto
  then show "sum_list (map logical_size is) = length (concat cs)" and "cs \<noteq> [] \<Longrightarrow> concat cs \<noteq> []"
    by auto
qed

lemma part_contents_hold:
  fixes X :: "'x store_env_scheme"
  assumes "space_inv de H self" and "rep X self A" and "parts_hold self A is cs"
    and "part_contents X (in_compression self) (in_io self) is = Inr ds"
  shows "ds = cs"
  using assms(3,4) unfolding parts_hold_def
proof (induction "is" cs arbitrary: ds rule: list_all2_induct)
  case Nil
  then show ?case by simp
next
  case (Cons i "is" c cs)
  then show ?case using part_content_spec(1) [OF assms(1,2)] by (auto simp: bind_res_Inr_iff)
qed

section \<open>Writing the parts\<close>

lemma rep_held_io:
  assumes "space_inv de {off..<b} self" and "rep X self A" and "dev_frame (in_io self) dev off b"
  shows "space_inv de {off..<b} (self\<lparr>in_io := dev\<rparr>)" and "rep X (self\<lparr>in_io := dev\<rparr>) A"
proof -
  show "space_inv de {off..<b} (self\<lparr>in_io := dev\<rparr>)"
    using assms(1) dev_frame_length [OF assms(3)] by (rule space_inv_io)
  show "rep X (self\<lparr>in_io := dev\<rparr>) A"
    using assms(1) by (intro rep_frame [OF assms(2) _ assms(3), of de]) (auto simp: space_inv_def)
qed

lemma parts_loop_spec:
  fixes X :: "'x store_env_scheme"
  assumes laws: "crc_laws X" and inv: "space_inv de {off..<off + N * 4096} self"
    and u: "area_unit DATA_START de off (N * 4096)" and rep: "rep X self A"
    and "parts_hold self A is cs" and "dev_frame (in_io self) dev off (off + N * 4096)"
    and "writer_inv X off (in_io self) P dev w" and "length P + length (concat cs) \<le> N * 4092"
    and "parts_loop X (in_compression self) dev w is (x_crc32c X P) = (r, dev')"
  shows "dev_frame (in_io self) dev' off (off + N * 4096) \<and> r \<noteq> Inl Panicked \<and>
    (\<forall>c. r = Inr c \<longrightarrow> c = x_crc32c X (P @ concat cs) \<and>
      encode_and_write_batched X (in_io self) off (P @ concat cs) = (Inr (), dev'))"
  using assms(5-)
proof (induction "is" arbitrary: cs dev P w)
  case Nil
  then have cs: "cs = []" by (simp add: parts_hold_def)
  have le: "num_blocks (length P) \<le> N" using Nil.prems(4) by (simp add: num_blocks_le_iff cs)
  have fitN: "extent_fits (in_io self) off N"
    using u inv by (intro area_unit_fits [of de]) (auto simp: space_inv_def)
  then have fits: "extent_fits (in_io self) off (num_blocks (length P))"
    using mult_le_mono1 [OF le, of 4096] unfolding extent_fits_def by linarith
  obtain rb where eb: "encode_and_write_batched X (in_io self) off P = (rb, dev')"
    and r: "r = (case rb of Inl e \<Rightarrow> Inl e | Inr _ \<Rightarrow> Inr (x_crc32c X P))"
    using Nil.prems(5) bw_finish_step [OF Nil.prems(3)]
    by (auto simp: encode_and_write_batched_def split: prod.splits sum.splits)
  have "dev_frame (in_io self) dev' off (off + num_blocks (length P) * 4096)"
    using encode_and_write_frame [OF fits, of X] eb by simp
  then have "dev_frame (in_io self) dev' off (off + N * 4096)"
    using mult_le_mono1 [OF le, of 4096] by (auto intro: dev_frame_weaken)
  then show ?case
    using encode_and_write_no_panic [OF fits, of X] eb r cs by (auto split: sum.splits)
next
  case (Cons i "is")
  obtain c cs' k m where cs: "cs = c # cs'" and i: "hm_get (files_of self) k = Some i" "A k = Some (c, m)"
    and hold: "parts_hold self A is cs'"
    using Cons.prems(1) by (auto simp: parts_hold_def list_all2_Cons1)
  note h = rep_held_io [OF inv rep Cons.prems(2)]
  note pc = part_content_spec [where self = "self\<lparr>in_io := dev\<rparr>", OF h, of k i c m, simplified, OF i]
  show ?case
  proof (cases "part_content X (in_compression self) dev i")
    case (Inl e)
    then show ?thesis using Cons.prems(2,5) pc(2) by auto
  next
    case (Inr d)
    then have d: "d = c" by (rule pc(1))
    obtain rw dv wv where wc: "write_chunk X dev w c = (rw, dv, wv)" by (metis prod_cases3)
    have room: "writer_room off N (length c) w"
      using Cons.prems(4) by (intro writer_inv_room [OF Cons.prems(3)]) (simp add: cs)
    have fitN: "extent_fits dev off N"
      using u h(1) by (intro area_unit_fits [of de]) (auto simp: space_inv_def)
    have fr: "dev_frame (in_io self) dv off (off + N * 4096)"
      using Cons.prems(2) write_chunk_frame [OF fitN room wc] by (rule dev_frame_trans)
    note st = write_chunk_step [OF Cons.prems(3) wc]
    show ?thesis
    proof (cases rw)
      case (Inl e)
      then have run: "r = Inl e" "dev' = dv" using Cons.prems(5) \<open>part_content X _ dev i = Inr d\<close> d wc by auto
      have "encode_and_write_batched X (in_io self) off (P @ c) = (Inl e, dv)"
        using st [unfolded Inl sum.case, rule_format, of "[]"] by (simp add: encode_and_write_batched_def)
      moreover have "num_blocks (length (P @ c)) \<le> N" using Cons.prems(4) by (simp add: num_blocks_le_iff cs)
      then have "extent_fits (in_io self) off (num_blocks (length (P @ c)))"
        using fitN mult_le_mono1 [of "num_blocks (length (P @ c))" N 4096] dev_frame_length [OF Cons.prems(2)]
        unfolding extent_fits_def by simp
      ultimately show ?thesis
        using run fr encode_and_write_no_panic [of "in_io self" off "P @ c" X] by auto
    next
      case (Inr x)
      have "parts_loop X (in_compression self) dv wv is (x_crc32c X (P @ c)) = (r, dev')"
        using Cons.prems(5) \<open>part_content X _ dev i = Inr d\<close> d wc Inr crc_append [OF laws, of P c] by simp
      moreover have "writer_inv X off (in_io self) (P @ c) dv wv" using st Inr by simp
      moreover have "length (P @ c) + length (concat cs') \<le> N * 4092" using Cons.prems(4) by (simp add: cs)
      ultimately show ?thesis using Cons.IH [OF hold fr, of "P @ c" wv] by (simp add: cs)
    qed
  qed
qed

section \<open>Completing an upload\<close>

text \<open>What an upload's plan says is written: \<open>v\<close> stands for the payload \<open>p\<close>.\<close>

definition plan_ok ::
  "'x codecs_scheme \<Rightarrow> compression \<Rightarrow> byte list \<Rightarrow> byte list \<Rightarrow> nat \<times> nat \<times> byte list option \<Rightarrow> bool" where
  "plan_ok X cm p v plan \<longleftrightarrow>
     (case plan of (write_size, uncompressed_size, source) \<Rightarrow>
        v \<noteq> [] \<and> write_size = length v \<and> length v \<le> length p \<and>
        (case source of None \<Rightarrow> v = p \<and> uncompressed_size = 0
         | Some b \<Rightarrow> v = b \<and> uncompressed_size = length p \<and> p \<noteq> [] \<and> cm \<noteq> CNone \<and> decompress X cm b = Inr p))"

lemma mp_plan_ok:
  assumes laws: "stream_laws X" and inv: "space_inv de H self" and rep: "rep X self A"
    and hold: "parts_hold self A is cs" and ne: "cs \<noteq> []" and small: "length (concat cs) < 2 ^ 63"
    and run: "mp_plan X self is = Inr plan"
  shows "\<exists>v. plan_ok X (in_compression self) (concat cs) v plan"
proof -
  note pl = parts_hold_logical [OF inv rep hold]
  have tot: "foldl uadd 0 (map logical_size is) = length (concat cs)"
    using pl(1) small by (simp add: foldl_uadd)
  note pc = part_contents_hold [OF inv rep hold]
  show ?thesis
  proof (cases "in_compression self \<noteq> CNone \<and> length (concat cs) \<ge> 4096")
    case False
    then have "plan = (length (concat cs), 0, None)" using run tot by (auto simp: mp_plan_def Let_def)
    then show ?thesis using pl(2) [OF ne] by (simp add: plan_ok_def del: concat_eq_Nil_conv)
  next
    case True
    then obtain b where b: "x_stream_compress X (in_compression self) cs = Some b"
      and plan: "plan = (if length b < length (concat cs) then (length b, length (concat cs), Some b)
        else (length (concat cs), 0, None))"
      using run tot pc by (auto simp: mp_plan_def Let_def bind_res_Inr_iff split: option.splits if_splits)
    have "b \<noteq> []" "decompress X (in_compression self) b = Inr (concat cs)"
      using laws b True unfolding stream_laws_def by blast+
    then show ?thesis using plan True pl(2) [OF ne]
      by (cases "length b < length (concat cs)") (auto simp: plan_ok_def simp del: concat_eq_Nil_conv)
  qed
qed

lemma mp_write_held:
  fixes X :: "'x store_env_scheme"
  assumes laws: "crc_laws X" and inv: "space_inv de {off..<off + n * 4096} self" and rep: "rep X self A"
    and hold: "parts_hold self A is cs" and plan: "plan_ok X (in_compression self) (concat cs) v (ws, us, src)"
    and n: "n = num_blocks (length v)" and u: "area_unit DATA_START de off (n * 4096)"
    and run: "mp_write X self off is src = (r, dev)"
  shows "dev_frame (in_io self) dev off (off + n * 4096) \<and> r \<noteq> Inl Panicked \<and>
    (\<forall>c. r = Inr c \<longrightarrow> c = x_crc32c X v \<and> slice (dev_data dev) off (off + n * 4096) = encode_blocks X v)"
proof -
  have fits: "extent_fits (in_io self) off (num_blocks (length v))"
    using u inv unfolding n by (intro area_unit_fits [of de]) (auto simp: space_inv_def)
  have z: "x_crc32c X [] = 0" using laws by (simp add: crc_laws_def)
  have "dev_frame (in_io self) dev off (off + n * 4096) \<and> r \<noteq> Inl Panicked \<and>
    (\<forall>c. r = Inr c \<longrightarrow> c = x_crc32c X v \<and> encode_and_write_batched X (in_io self) off v = (Inr (), dev))"
  proof (cases src)
    case None
    then have v: "v = concat cs" using plan by (simp add: plan_ok_def)
    have "parts_loop X (in_compression self) (in_io self) (bw_new off) is (x_crc32c X []) = (r, dev)"
      using run None z by (simp add: mp_write_def)
    from parts_loop_spec [OF laws inv u rep hold dev_frame_refl writer_inv_new _ this]
    show ?thesis using num_blocks_ge [of "length v"] by (simp add: v n)
  next
    case (Some b)
    then have v: "v = b" using plan by (simp add: plan_ok_def)
    obtain rb where eb: "encode_and_write_batched X (in_io self) off v = (rb, dev)"
      and r: "r = (case rb of Inl e \<Rightarrow> Inl e | Inr _ \<Rightarrow> Inr (x_crc32c X v))"
      using run stream_put_loop_eq [OF laws writer_inv_new [of X off "in_io self"], of b] z
      by (auto simp: mp_write_def Some v encode_and_write_batched_def split: prod.splits sum.splits)
    then show ?thesis
      using encode_and_write_frame [OF fits, of X] encode_and_write_no_panic [OF fits, of X] eb
      by (auto simp: n split: sum.splits)
  qed
  then show ?thesis using encode_and_write_stored(2) [OF fits, of X dev] by (auto simp: n)
qed

lemma remove_parts_inv:
  assumes "store_ok de self"
  shows "store_ok de (remove_parts X ks self)" and "in_io (remove_parts X ks self) = in_io self"
    and "rep X self A \<Longrightarrow> rep X (remove_parts X ks self) (A |` (- set ks))"
proof -
  have "store_ok de (fold (remove_entry X) ks s) \<and> in_io (fold (remove_entry X) ks s) = in_io s \<and>
      (\<forall>A. rep X s A \<longrightarrow> rep X (fold (remove_entry X) ks s) (A |` (- set ks)))"
    if "store_ok de s" for s
    using that
  proof (induction ks arbitrary: s)
    case Nil
    then show ?case by (simp add: restrict_map_def)
  next
    case (Cons k ks)
    note re = remove_entry_inv [OF Cons.prems, where X = X and key = k]
    have "A(k := None) |` (- set ks) = A |` (- set (k # ks))" for A :: "string \<rightharpoonup> byte list \<times> nat"
      by (auto simp: restrict_map_def fun_eq_iff)
    then have "rep X (fold (remove_entry X) (k # ks) s) (A |` (- set (k # ks)))" if "rep X s A" for A
      using Cons.IH [OF re(1)] re(3) [OF that] by (metis fold_simps(2))
    then show ?case using Cons.IH [OF re(1)] re(4) by simp
  qed
  from this [OF assms] show "store_ok de (remove_parts X ks self)" "in_io (remove_parts X ks self) = in_io self"
    "rep X self A \<Longrightarrow> rep X (remove_parts X ks self) (A |` (- set ks))"
    by (simp_all add: remove_parts_def)
qed

lemma remove_entry_fields [simp]:
  "in_compression (remove_entry X key self) = in_compression self"
  "in_read_only (remove_entry X key self) = in_read_only self"
  "in_io (remove_entry X key self) = in_io self"
  "length (in_shard_dirty (remove_entry X key self)) = length (in_shard_dirty self)"
  "in_allocator (remove_entry X key self) = in_allocator (free_old key self)"
  "files_of (remove_entry X key self) = files_of (free_old key self)"
  by (auto simp: remove_entry_def free_old_def mark_shard_dirty_def set_files_def files_of_def inner_free_def split: option.splits)

text \<open>The steps of \<open>complete\<close> after the plan: allocate, write, update the index.\<close>

definition mp_commit ::
  "'x store_env_scheme \<Rightarrow> int \<Rightarrow> string \<Rightarrow> nat \<Rightarrow> nat \<Rightarrow> nat \<Rightarrow> u32 \<Rightarrow> nat \<Rightarrow> nat \<Rightarrow> inner \<Rightarrow> inner" where
  "mp_commit X now key offset write_size padded crc txn uncompressed_size s2 =
     insert_entry X key
       \<lparr>ei_offset = offset, ei_size = write_size, ei_padded_size = padded, ei_crc32c = crc,
        ei_created_txn = txn, ei_last_modified = now, ei_meta_len = 0,
        ei_uncompressed_size = uncompressed_size\<rparr>
       (set_tombstones (hm_remove key (ix_tombstones (in_index (remove_entry X key s2)))) (remove_entry X key s2))"

lemma mp_commit_spec:
  assumes inv: "space_inv de {off..<off + n * 4096} s2" and u: "area_unit DATA_START de off (n * 4096)"
    and n: "n = num_blocks (length v)" and plan: "plan_ok X (in_compression s2) p v (ws, us, src)"
    and st: "slice (dev_data (in_io s2)) off (off + n * 4096) = encode_blocks X v"
  shows "store_ok de (mp_commit X now key off ws (n * 4096) (x_crc32c X v) txn us s2)"
    and "rep X s2 A \<Longrightarrow> rep X (mp_commit X now key off ws (n * 4096) (x_crc32c X v) txn us s2) (A(key \<mapsto> (p, 0)))"
    and "in_io (mp_commit X now key off ws (n * 4096) (x_crc32c X v) txn us s2) = in_io s2"
proof -
  define e where "e = \<lparr>ei_offset = off, ei_size = ws, ei_padded_size = n * 4096, ei_crc32c = x_crc32c X v,
    ei_created_txn = txn, ei_last_modified = now, ei_meta_len = 0, ei_uncompressed_size = us\<rparr>"
  define t where "t = set_tombstones (hm_remove key (ix_tombstones (in_index (remove_entry X key s2)))) (remove_entry X key s2)"
  have eq: "mp_commit X now key off ws (n * 4096) (x_crc32c X v) txn us s2 = insert_entry X key e t"
    by (simp add: mp_commit_def e_def t_def)
  have ok: "entry_ok de e" using u plan by (simp add: entry_ok_def e_def n plan_ok_def)
  have obj: "obj_ok X (in_compression s2) (dev_data (in_io s2)) e p"
    unfolding obj_ok_def using st plan
    by (intro exI [of _ v]) (auto simp: e_def n plan_ok_def split: option.splits)
  have inv2: "space_inv de (e_range e) s2" using inv by (simp add: e_def)
  note ce = commit_entry [OF inv2 ok obj, of t key]
  show "store_ok de (mp_commit X now key off ws (n * 4096) (x_crc32c X v) txn us s2)"
    unfolding eq by (rule ce) (simp_all add: t_def)
  show "rep X (mp_commit X now key off ws (n * 4096) (x_crc32c X v) txn us s2) (A(key \<mapsto> (p, 0)))" if "rep X s2 A"
  proof -
    have "rep X (insert_entry X key e t) (A(key \<mapsto> (p, ei_meta_len e)))"
      using that by (intro ce) (simp_all add: t_def)
    then show ?thesis by (simp add: eq e_def)
  qed
  show "in_io (mp_commit X now key off ws (n * 4096) (x_crc32c X v) txn us s2) = in_io s2"
    by (simp add: eq t_def)
qed

lemma mp_complete_spec:
  assumes laws: "crc_laws X" "stream_laws X" and inv: "store_ok de self" and rep: "rep X self A"
    and parts: "map (\<lambda>k. map_option fst (A k)) (mp_part_keys mp) = map Some cs"
    and small: "length (concat cs) < 2 ^ 63" and run: "mp_complete X now mp self = (r, mp', self')"
  shows "store_ok de self' \<and> dev_frame (in_io self) (in_io self') DATA_START de \<and>
    (case r of
       Inl e \<Rightarrow> mp' = mp \<and> self' = self\<lparr>in_io := in_io self'\<rparr> \<and> rep X self' A
     | Inr _ \<Rightarrow> mp' = mp\<lparr>mp_part_keys := []\<rparr> \<and> mp_part_keys mp \<noteq> [] \<and>
         rep X self' ((A(mp_location mp \<mapsto> (concat cs, 0))) |` (- set (mp_part_keys mp))))"
proof -
  obtain "is" where pi: "part_infos self (mp_part_keys mp) = Inr is" and hold: "parts_hold self A is cs"
    using part_infos_hold [OF rep parts] by blast
  show ?thesis
  proof (cases "mp_part_keys mp = [] \<or> (\<exists>e. mp_plan X self is = Inl e)")
    case True
    then have "\<exists>e. mp_complete X now mp self = (Inl e, mp, self)"
      using pi by (auto simp: mp_complete_def)
    then show ?thesis using run inv rep by auto
  next
    case False
    then obtain ws us src where plan: "mp_plan X self is = Inr (ws, us, src)" by (metis sum.exhaust prod_cases3)
    have "cs \<noteq> []" using parts False by auto
    then obtain v where v: "plan_ok X (in_compression self) (concat cs) v (ws, us, src)"
      using mp_plan_ok [OF laws(2) inv rep hold _ small plan] by blast
    define n where "n = num_blocks (length v)"
    have vl: "0 < length v" "length v < 2 ^ 63" "ws = length v" using v small by (auto simp: plan_ok_def)
    note pp = payload_padded [OF vl(1,2), folded n_def]
    note pv = padded_size_valid [OF pp(1) vl(1) pp(2)]
    obtain ra self1 where al: "inner_alloc (n * 4096) self = (ra, self1)" by fastforce
    show ?thesis
    proof (cases ra)
      case (Inl e)
      then have "self1 = self" using inner_alloc_Inl(1) [OF inv pv(1)] al by simp
      then show ?thesis using run inv rep False pi plan pp(1) vl(3) al Inl by (auto simp: mp_complete_def)
    next
      case (Inr off)
      note ia = inner_alloc_ok [OF inv pv(1,2) al [unfolded Inr]]
      obtain a' where s1: "self1 = self\<lparr>in_allocator := Some a'\<rparr>" using ia(3) by blast
      have rep1: "rep X self1 A" using rep by (simp add: rep_def s1)
      have hold1: "parts_hold self1 A is cs" using hold by (simp add: parts_hold_def s1)
      have v1: "plan_ok X (in_compression self1) (concat cs) v (ws, us, src)" using v by (simp add: s1)
      obtain rw dev where wr: "mp_write X self1 off is src = (rw, dev)" by fastforce
      note wh = mp_write_held [OF laws(1) ia(1) rep1 hold1 v1 n_def ia(2) wr]
      have fr: "dev_frame (in_io self1) dev off (off + n * 4096)" using wh by blast
      note h = rep_held_io [OF ia(1) rep1 fr]
      show ?thesis
      proof (cases rw)
        case (Inl e)
        have "e \<noteq> Panicked" using wh Inl by auto
        then have res: "\<exists>e. r = Inl e" "mp' = mp" "self' = inner_free off (n * 4096) (self1\<lparr>in_io := dev\<rparr>)"
          using run False pi plan pp(1) vl(3) al \<open>ra = Inr off\<close> wr Inl by (auto simp: mp_complete_def Let_def)
        have "self' = (inner_free off (n * 4096) self1)\<lparr>in_io := dev\<rparr>"
          unfolding res(3) by (simp add: inner_free_def s1)
        then have eq: "self' = self\<lparr>in_io := dev\<rparr>" using ia(4) by simp
        have "store_ok de self'"
          unfolding eq using dev_frame_length [OF fr] by (intro space_inv_io inv) (simp add: s1)
        moreover have "rep X self' A" using h(2) by (simp add: rep_def s1 eq)
        ultimately show ?thesis using res eq dev_frame_unit [OF fr ia(2)] by (auto simp: s1)
      next
        case (Inr crc)
        have c: "crc = x_crc32c X v" "slice (dev_data dev) off (off + n * 4096) = encode_blocks X v"
          using wh Inr by auto
        let ?s4 = "mp_commit X now (mp_location mp) off ws (n * 4096) (x_crc32c X v)
          (sb_txn_id (in_superblock self)) us (self1\<lparr>in_io := dev\<rparr>)"
        have res: "r = Inr ()" "mp' = mp\<lparr>mp_part_keys := []\<rparr>" "self' = remove_parts X (mp_part_keys mp) ?s4"
          using run False pi plan pp(1) vl(3) al \<open>ra = Inr off\<close> wr Inr c(1)
          by (auto simp: mp_complete_def Let_def mp_commit_def)
        note mc = mp_commit_spec [OF h(1) ia(2) n_def, where X = X and p = "concat cs" and ws = ws and us = us
            and src = src and now = now and key = "mp_location mp" and txn = "sb_txn_id (in_superblock self)"]
        have ok4: "store_ok de ?s4" using v1 c(2) by (intro mc) simp_all
        have r4: "rep X ?s4 (A(mp_location mp \<mapsto> (concat cs, 0)))" using v1 c(2) h(2) by (intro mc) simp_all
        have "in_io (remove_parts X (mp_part_keys mp) ?s4) = dev"
          using v1 c(2) mc(3) remove_parts_inv(2) [OF ok4] by simp
        then have "dev_frame (in_io self) (in_io (remove_parts X (mp_part_keys mp) ?s4)) DATA_START de"
          using dev_frame_unit [OF fr ia(2)] by (simp add: s1)
        with remove_parts_inv(3) [OF ok4 r4, of "mp_part_keys mp"] show ?thesis
          unfolding res sum.case using remove_parts_inv(1) [OF ok4] False by blast
      qed
    qed
  qed
qed

end
