(* ===== verification/Tools_Ops.thy ===== *)
theory Tools_Ops
  imports Raw_Tools Multipart
begin

text \<open>
  The maintenance and metadata calls keep the invariant of the store and refine the map of objects:
  streamed rewrites of an extent, the metadata suffix, verification and the free-space scrub.
\<close>

section \<open>Writers and readers of stored extents\<close>

text \<open>One chunk, or the end, of a writer that has room for its extent.\<close>

lemma write_chunk_held:
  assumes fits: "extent_fits dev0 off N" and fr: "dev_frame dev0 dev off (off + N * 4096)"
    and wi: "writer_inv X off dev0 P dev w" and room: "length P + length c \<le> N * 4092"
    and run: "write_chunk X dev w c = (r, dev', w')"
  shows "dev_frame dev0 dev' off (off + N * 4096)" and "r \<noteq> Inl Panicked"
    and "r = Inr () \<Longrightarrow> writer_inv X off dev0 (P @ c) dev' w'"
proof -
  have fitN: "extent_fits dev off N" using fits dev_frame_length [OF fr] by (simp add: extent_fits_def)
  show "dev_frame dev0 dev' off (off + N * 4096)"
    using fr write_chunk_frame [OF fitN writer_inv_room [OF wi room] run] by (rule dev_frame_trans)
  note st = write_chunk_step [OF wi run]
  show "writer_inv X off dev0 (P @ c) dev' w'" if "r = Inr ()" using st that by simp
  show "r \<noteq> Inl Panicked"
  proof
    assume r: "r = Inl Panicked"
    have "encode_and_write_batched X dev0 off (P @ c) = (Inl Panicked, dev')"
      using st [unfolded r sum.case, rule_format, of "[]"] by (simp add: encode_and_write_batched_def)
    moreover have le: "num_blocks (length (P @ c)) \<le> N" using room by (simp add: num_blocks_le_iff)
    have "extent_fits dev0 off (num_blocks (length (P @ c)))"
      using fits mult_le_mono1 [OF le, of 4096] unfolding extent_fits_def by linarith
    ultimately show False using encode_and_write_no_panic [of dev0 off "P @ c" X] by auto
  qed
qed

lemma bw_finish_held:
  assumes fits: "extent_fits dev0 off N" and wi: "writer_inv X off dev0 P dev w" and le: "num_blocks (length P) \<le> N"
    and run: "bw_finish X dev w = (r, dev')"
  shows "dev_frame dev0 dev' off (off + N * 4096)" and "r \<noteq> Inl Panicked"
    and "encode_and_write_batched X dev0 off P = (r, dev')"
proof -
  show eb: "encode_and_write_batched X dev0 off P = (r, dev')"
    using run bw_finish_step [OF wi] by (simp add: encode_and_write_batched_def)
  have fit: "extent_fits dev0 off (num_blocks (length P))"
    using fits mult_le_mono1 [OF le, of 4096] unfolding extent_fits_def by linarith
  show "r \<noteq> Inl Panicked" using encode_and_write_no_panic [OF fit, of X] eb by auto
  have "dev_frame dev0 dev' off (off + num_blocks (length P) * 4096)"
    using encode_and_write_frame [OF fit, of X] eb by simp
  then show "dev_frame dev0 dev' off (off + N * 4096)"
    using mult_le_mono1 [OF le, of 4096] by (auto intro: dev_frame_weaken)
qed

text \<open>A reader of a stored extent yields the payload from its position on.\<close>

definition reader_at :: "nat \<Rightarrow> byte list \<Rightarrow> block_reader \<Rightarrow> bool" where
  "reader_at off w r \<longleftrightarrow> reader_ok r \<and> br_extent_offset r = off \<and> br_payload_len r = length w"

lemma reader_at_new: "reader_at off w (br_new off (length w))"
  by (simp add: reader_at_def reader_ok_new) (simp add: br_new_def)

lemma collect_stored:
  assumes fits: "extent_fits dev off (num_blocks (length w))"
    and st: "extent_bytes dev off (num_blocks (length w)) = encode_blocks X w"
    and nf: "\<And>i k. \<not> dev_rfault dev i k" and r: "reader_at off w r"
  shows "collect_chunks X dev r [] = Inr (drop (br_payload_consumed r) w)"
proof -
  let ?n = "num_blocks (length w)" and ?i = "br_block_idx r" and ?c = "br_payload_consumed r"
  let ?raw = "encode_blocks X w"
  have i: "?i \<le> ?n" and c: "?c = min (?i * 4092) (length w)" and tb: "br_total_blocks r = ?n"
    using r unfolding reader_at_def reader_ok_def by metis+
  have acc: "length (take ?c w) = ?c" using c by simp
  have "collect_chunks X dev r (take ?c w) = read_batches X dev off (length w) ?n ?i (take ?c w)"
    using collect_chunks_eq [of r "take ?c w" X dev] acc r c tb by (simp add: reader_at_def)
  also have "\<dots> = decode_loop X ?raw 0 (length w) [?i..<?n] (take ?c w)"
    using read_batches_no_fault [OF fits i nf, of X "length w" "take ?c w"] st by simp
  also have "\<dots> = Inr w"
  proof -
    have blk: "nth_block ?raw j = enc_block X (block_data w j)" if "j < ?n" for j
      using nth_block_enc_blocks [of 0 j ?n w X] that by (simp add: encode_blocks_eq)
    have bnd: "\<forall>j\<in>set [?i..<?n]. (j + 1) * 4096 \<le> length ?raw"
      unfolding length_encode_blocks by (intro ballI mult_le_mono1) simp
    have "map (\<lambda>j. drop 4 (nth_block ?raw j)) [?i..<?n] = map (block_data w) [?i..<?n]" using blk by auto
    then have cc: "concat (map (\<lambda>j. drop 4 (nth_block ?raw j)) [?i..<?n]) = slice (zpad w) (?i * 4092) (?n * 4092)"
      by (simp only: concat_block_data [OF i])
    have "take (length w - ?c) (slice (zpad w) (?i * 4092) (?n * 4092)) = drop ?c w"
    proof (cases "?i < ?n")
      case True
      then have "?c = ?i * 4092" using c less_num_blocks_iff [of ?i "length w"] by simp
      moreover have "length w \<le> ?n * 4092" by (rule num_blocks_ge)
      ultimately show ?thesis by (simp add: slice_def zpad_def take_drop min_def)
    next
      case False
      then have "?c = length w" using c i num_blocks_ge [of "length w"] by (simp add: min_def)
      then show ?thesis by simp
    qed
    then show ?thesis
      using decode_loop_Inr_iff [OF bnd, of "take ?c w" "length w" X 0 w] blk acc unfolding cc by simp
  qed
  finally have "bind_res (collect_chunks X dev r []) (\<lambda>t. Inr (take ?c w @ t)) = Inr w"
    using collect_chunks_acc [of X dev r "take ?c w"] by simp
  then obtain t where "collect_chunks X dev r [] = Inr t" and t: "take ?c w @ t = w"
    by (auto simp: bind_res_Inr_iff)
  moreover have "t = drop ?c w" using t by (metis append_take_drop_id same_append_eq)
  ultimately show ?thesis by simp
qed

lemma next_chunk_fields:
  "next_chunk X dev r = (Inr (Some ch), r') \<Longrightarrow>
     br_extent_offset r' = br_extent_offset r \<and> br_payload_len r' = br_payload_len r"
proof -
  have lp: "br_extent_offset r2 = br_extent_offset r1 \<and> br_payload_len r2 = br_payload_len r1"
    if "chunk_loop X raw is c r1 = (res, r2)" for raw "is" c r1 res r2
    using that by (induction "is" arbitrary: c r1) (auto simp: Let_def split: sum.splits)
  show "next_chunk X dev r = (Inr (Some ch), r') \<Longrightarrow> ?thesis"
    by (auto simp: next_chunk_def Let_def split: if_splits sum.splits prod.splits dest!: lp)
qed

lemma reader_step:
  assumes fits: "extent_fits dev off (num_blocks (length w))"
    and st: "extent_bytes dev off (num_blocks (length w)) = encode_blocks X w"
    and r: "reader_at off w r" and run: "next_chunk X dev r = (Inr (Some ch), r')"
  shows "reader_at off w r'" and "drop (br_payload_consumed r) w = ch @ drop (br_payload_consumed r') w"
    and "br_payload_consumed r' = br_payload_consumed r + length ch"
proof -
  let ?d = "dev\<lparr>dev_rfault := \<lambda>_ _. False\<rparr>"
  have ok: "reader_ok r" using r by (simp add: reader_at_def)
  show r': "reader_at off w r'"
    using r next_chunk_Some(1) [OF ok run] next_chunk_fields [OF run] by (simp add: reader_at_def)
  have fd: "extent_fits ?d off (num_blocks (length w))" "extent_bytes ?d off (num_blocks (length w)) = encode_blocks X w"
    using fits st by (simp_all add: extent_fits_def)
  note run' = next_chunk_no_rfault [OF run] and lt = next_chunk_progress [OF run]
  have "collect_chunks X ?d r [] = collect_chunks X ?d r' ch"
    using run' lt by (subst collect_chunks.simps) simp
  then have "Inr (drop (br_payload_consumed r) w) = bind_res (collect_chunks X ?d r' []) (\<lambda>t. Inr (ch @ t))"
    using collect_stored [OF fd _ r] collect_chunks_acc [of X ?d r' ch] by simp
  then show d: "drop (br_payload_consumed r) w = ch @ drop (br_payload_consumed r') w"
    using collect_stored [OF fd _ r'] by simp
  have "length (drop (br_payload_consumed r) w) = length (ch @ drop (br_payload_consumed r') w)" by (simp only: d)
  moreover have "br_payload_consumed r \<le> length w" "br_payload_consumed r' \<le> length w"
    using r r' by (simp_all add: reader_at_def reader_ok_def)
  ultimately show "br_payload_consumed r' = br_payload_consumed r + length ch" by simp
qed

lemma next_chunk_Inl_no_panic:
  assumes "reader_at off w r" and "4096 dvd off" and "next_chunk X dev r = (Inl e, r')"
  shows "e \<noteq> Panicked"
proof -
  let ?c = "br_payload_consumed r"
  have "collect_chunks X dev r (take ?c w) = Inl e" using assms(3) by (subst collect_chunks.simps) simp
  moreover have "collect_chunks X dev r (take ?c w) =
      read_batches X dev off (length w) (br_total_blocks r) (br_block_idx r) (take ?c w)"
    using collect_chunks_eq [of r "take ?c w" X dev] assms(1) by (simp add: reader_at_def reader_ok_def)
  ultimately show ?thesis using read_batches_no_panic [OF assms(2)] by metis
qed

section \<open>Streamed puts\<close>

lemma finish_put_spec:
  assumes inv: "store_ok de self" and pos: "0 < length w" and small: "length w < 2 ^ 63"
    and n: "n = num_blocks (length w)" and al: "inner_alloc (n * 4096) self = (Inr off, self1)"
    and fr: "dev_frame (in_io self1) dev off (off + n * 4096)" and np: "r \<noteq> Inl Panicked"
    and ok: "\<And>c. r = Inr c \<Longrightarrow> c = x_crc32c X w \<and> slice (dev_data dev) off (off + n * 4096) = encode_blocks X w"
    and run: "finish_put X now key off (n * 4096) (length w) meta_len (r, dev) self1 = (res, self')"
  shows "store_ok de self' \<and> dev_frame (in_io self) (in_io self') DATA_START de \<and>
    (case res of
       Inl e \<Rightarrow> self' = self\<lparr>in_io := in_io self'\<rparr> \<and> (\<forall>A. rep X self A \<longrightarrow> rep X self' A)
     | Inr _ \<Rightarrow> (\<forall>A. rep X self A \<longrightarrow> rep X self' (A(key \<mapsto> (w, meta_len)))))"
proof -
  note pp = payload_padded [OF pos small, folded n]
  note pv = padded_size_valid [OF pp(1) pos pp(2)]
  note ia = inner_alloc_ok [OF inv pv(1,2) al]
  obtain a' where s1: "self1 = self\<lparr>in_allocator := Some a'\<rparr>" using ia(3) by blast
  have rep1: "rep X self A \<Longrightarrow> rep X self1 A" for A by (simp add: rep_def s1)
  have frd: "dev_frame (in_io self) dev DATA_START de" using dev_frame_unit [OF fr ia(2)] by (simp add: s1)
  have held: "space_inv de {off..<off + n * 4096} (self1\<lparr>in_io := dev\<rparr>)"
    using ia(1) dev_frame_length [OF fr] by (rule space_inv_io)
  have rep2: "rep X (self1\<lparr>in_io := dev\<rparr>) A" if "rep X self A" for A
    using ia(1) by (intro rep_frame [OF rep1 [OF that] _ fr, of de]) (auto simp: space_inv_def)
  show ?thesis
  proof (cases r)
    case (Inl e)
    then have res: "res = Inl e" "self' = inner_free off (n * 4096) (self1\<lparr>in_io := dev\<rparr>)"
      using run np by (auto simp: finish_put_def Let_def)
    have "self' = (inner_free off (n * 4096) self1)\<lparr>in_io := dev\<rparr>"
      unfolding res(2) by (simp add: inner_free_def s1)
    then have eq: "self' = self\<lparr>in_io := dev\<rparr>" using ia(4) by simp
    have "store_ok de self'"
      unfolding eq using dev_frame_length [OF frd] by (intro space_inv_io inv)
    moreover have "rep X self' A" if "rep X self A" for A using rep2 [OF that] by (simp add: rep_def s1 eq)
    ultimately show ?thesis using res(1) frd by (simp add: eq)
  next
    case (Inr crc)
    define e where "e = \<lparr>ei_offset = off, ei_size = length w, ei_padded_size = n * 4096,
      ei_crc32c = crc, ei_created_txn = sb_txn_id (in_superblock self1), ei_last_modified = now,
      ei_meta_len = meta_len, ei_uncompressed_size = 0\<rparr>"
    define s2 where "s2 = self1\<lparr>in_io := dev\<rparr>"
    define t where "t = set_tombstones (hm_remove key (ix_tombstones (in_index (free_old key s2)))) (free_old key s2)"
    have res: "res = Inr ()" "self' = insert_entry X key e t"
      using run Inr by (auto simp: finish_put_def replace_entry_def Let_def e_def s2_def t_def)
    note c = ok [OF Inr]
    have obj: "obj_ok X (in_compression s2) (dev_data (in_io s2)) e w"
      unfolding obj_ok_def using c pos by (intro exI [of _ w]) (auto simp: e_def n s2_def s1)
    have eok: "entry_ok de e" using ia(2) by (simp add: entry_ok_def e_def n)
    have inv2: "space_inv de (e_range e) s2" using held by (simp add: e_def s2_def)
    note ce = commit_entry [OF inv2 eok obj, of t key]
    have "store_ok de self'" unfolding res(2) by (rule ce) (simp_all add: t_def)
    moreover have "rep X self' (A(key \<mapsto> (w, meta_len)))" if "rep X self A" for A
    proof -
      have "rep X s2 A" using rep2 [OF that] by (simp add: s2_def)
      then have "rep X self' (A(key \<mapsto> (w, ei_meta_len e)))"
        unfolding res(2) by (intro ce) (simp_all add: t_def)
      then show ?thesis by (simp add: e_def)
    qed
    moreover have "in_io self' = dev" unfolding res(2) by (simp add: t_def s2_def)
    ultimately show ?thesis using res(1) frd by auto
  qed
qed

lemma body_copy_loop_spec:
  assumes laws: "crc_laws X" and fits: "extent_fits dev0 off N" and src: "extent_fits dev0 so (num_blocks (length w))"
    and st: "extent_bytes dev0 so (num_blocks (length w)) = encode_blocks X w" and al: "4096 dvd so"
    and disj: "so + num_blocks (length w) * 4096 \<le> off \<or> off + N * 4096 \<le> so"
    and body: "body \<le> length w" "body \<le> N * 4092"
    and "dev_frame dev0 dev off (off + N * 4096)" and "writer_inv X off dev0 P dev wr" and "reader_at so w r"
    and "P = take (length P) w" and "length P + remaining = body" and "0 < remaining \<Longrightarrow> br_payload_consumed r = length P"
    and "body_copy_loop X dev r wr remaining (x_crc32c X P) = (res, dev')"
  shows "dev_frame dev0 dev' off (off + N * 4096) \<and> res \<noteq> Inl Panicked \<and>
    (\<forall>crc w'. res = Inr (crc, w') \<longrightarrow> crc = x_crc32c X (take body w) \<and> writer_inv X off dev0 (take body w) dev' w')"
  using assms(9-)
proof (induction "br_total_blocks r - br_block_idx r" arbitrary: dev P wr r remaining rule: less_induct)
  case less
  show ?case
  proof (cases "remaining = 0")
    case True
    then have "res = Inr (x_crc32c X P, wr)" "dev' = dev"
      using less.prems(7) by (subst (asm) body_copy_loop.simps; simp)+
    moreover have "P = take body w" using less.prems(4,5) True by simp
    ultimately show ?thesis using less.prems(1,2) by simp
  next
    case False
    then have pos: "0 < remaining" by simp
    note cons = less.prems(6) [OF pos]
    obtain nc r' where nx: "next_chunk X dev r = (nc, r')" by fastforce
    have len: "length (dev_data dev) = length (dev_data dev0)" by (rule dev_frame_length [OF less.prems(1)])
    have srcd: "extent_fits dev so (num_blocks (length w))" using src len by (simp add: extent_fits_def)
    have std: "extent_bytes dev so (num_blocks (length w)) = encode_blocks X w"
      using st disj dev_frame_slice [OF less.prems(1)] by metis
    show ?thesis
    proof (cases nc)
      case (Inl e)
      then have "res = Inl e" "dev' = dev" using less.prems(7) nx pos by (subst (asm) body_copy_loop.simps; simp)+
      then show ?thesis using less.prems(1) next_chunk_Inl_no_panic [OF less.prems(3) al nx [unfolded Inl]] by simp
    next
      case (Inr oc)
      show ?thesis
      proof (cases oc)
        case None
        then have "br_total_blocks r \<le> br_block_idx r"
          using nx Inr by (auto simp: next_chunk_def Let_def split: if_splits sum.splits prod.splits)
        then have "br_payload_consumed r = length w"
          using less.prems(3) num_blocks_ge [of "length w"] by (auto simp: reader_at_def reader_ok_def min_def)
        then show ?thesis using cons less.prems(5) body pos by simp
      next
        case (Some ch)
        note rs = reader_step [OF srcd std less.prems(3) nx [unfolded Inr Some]]
        define m where "m = min (length ch) remaining"
        define c where "c = take m ch"
        obtain rw dv wv where wc: "write_chunk X dev wr c = (rw, dv, wv)" by (metis prod_cases3)
        have room: "length P + length c \<le> N * 4092" using less.prems(5) body(2) by (simp add: c_def m_def)
        note wh = write_chunk_held [OF fits less.prems(1,2) room wc]
        have step: "(res, dev') = (case rw of Inl e \<Rightarrow> (Inl e, dv)
            | Inr _ \<Rightarrow> body_copy_loop X dv r' wv (remaining - m) (x_crc32c X (P @ c)))"
          using less.prems(7) nx pos wc crc_append [OF laws, of P c]
          by (subst (asm) body_copy_loop.simps) (auto simp: Inr Some m_def c_def Let_def split: sum.splits)
        show ?thesis
        proof (cases rw)
          case (Inl e)
          then show ?thesis using step wh(1,2) by simp
        next
          case (Inr x)
          have lc: "length c = m" by (simp add: c_def m_def)
          have "drop (length P) w = ch @ drop (br_payload_consumed r') w" using rs(2) cons by simp
          then have "c = take m (drop (length P) w)" by (simp add: c_def m_def)
          then have Pc: "P @ c = take (length (P @ c)) w"
            using less.prems(4) lc by (metis length_append take_add)
          have "br_payload_consumed r' = length (P @ c)" if "0 < remaining - m"
            using rs(3) cons that lc by (simp add: m_def)
          moreover have "length (P @ c) + (remaining - m) = body" using less.prems(5) lc by (simp add: m_def)
          moreover have "body_copy_loop X dv r' wv (remaining - m) (x_crc32c X (P @ c)) = (res, dev')"
            using step Inr by simp
          ultimately show ?thesis
            using Inr less.hyps [OF next_chunk_progress [OF nx [unfolded \<open>nc = Inr oc\<close> Some]] wh(1) wh(3) rs(1) Pc] by simp
        qed
      qed
    qed
  qed
qed

lemma rewrite_extent_held:
  assumes laws: "crc_laws X" and fits: "extent_fits dev0 off n" and src: "extent_fits dev0 (ei_offset e) (num_blocks (length w))"
    and st: "extent_bytes dev0 (ei_offset e) (num_blocks (length w)) = encode_blocks X w" and al: "4096 dvd ei_offset e"
    and disj: "ei_offset e + num_blocks (length w) * 4096 \<le> off \<or> off + n * 4096 \<le> ei_offset e"
    and sz: "ei_size e = length w" and body: "body \<le> length w" and n: "n = num_blocks (body + length md)"
    and run: "rewrite_extent X dev0 e off body md = (r, dev)"
  shows "dev_frame dev0 dev off (off + n * 4096)" and "r \<noteq> Inl Panicked"
    and "r = Inr c \<Longrightarrow> c = x_crc32c X (take body w @ md) \<and>
      slice (dev_data dev) off (off + n * 4096) = encode_blocks X (take body w @ md)"
proof -
  have cap: "body + length md \<le> n * 4092" using num_blocks_ge [of "body + length md"] by (simp add: n)
  have z: "x_crc32c X [] = 0" using laws by (simp add: crc_laws_def)
  obtain rb db where lp: "body_copy_loop X dev0 (br_new (ei_offset e) (length w)) (bw_new off) body (x_crc32c X []) = (rb, db)"
    by fastforce
  have c0: "br_payload_consumed (br_new (ei_offset e) (length w)) = length []" by (simp add: br_new_def)
  have b: "dev_frame dev0 db off (off + n * 4096) \<and> rb \<noteq> Inl Panicked \<and>
    (\<forall>crc w'. rb = Inr (crc, w') \<longrightarrow> crc = x_crc32c X (take body w) \<and> writer_inv X off dev0 (take body w) db w')"
    using body_copy_loop_spec [OF laws fits src st al disj body _ dev_frame_refl writer_inv_new reader_at_new _ _ c0 lp] cap
    by simp
  show "dev_frame dev0 dev off (off + n * 4096)" and "r \<noteq> Inl Panicked"
    and "r = Inr c \<Longrightarrow> c = x_crc32c X (take body w @ md) \<and>
      slice (dev_data dev) off (off + n * 4096) = encode_blocks X (take body w @ md)"
  proof (atomize (full), cases rb)
    case (Inl err)
    then have "r = Inl err" "dev = db" using run lp z by (auto simp: rewrite_extent_def sz)
    then show "dev_frame dev0 dev off (off + n * 4096) \<and> r \<noteq> Inl Panicked \<and> (r = Inr c \<longrightarrow> c = x_crc32c X (take body w @ md) \<and>
      slice (dev_data dev) off (off + n * 4096) = encode_blocks X (take body w @ md))" using b Inl by simp
  next
    case (Inr cw)
    obtain crc wr where cw: "cw = (crc, wr)" by (cases cw)
    have crc: "crc = x_crc32c X (take body w)" and wi: "writer_inv X off dev0 (take body w) db wr" using b Inr cw by auto
    obtain rm dm wm where m: "(if md = [] then (Inr (), db, wr) else write_chunk X db wr md) = (rm, dm, wm)"
      by (metis prod_cases3)
    have mh: "dev_frame dev0 dm off (off + n * 4096) \<and> rm \<noteq> Inl Panicked \<and>
        (rm = Inr () \<longrightarrow> writer_inv X off dev0 (take body w @ md) dm wm)"
    proof (cases "md = []")
      case True
      then show ?thesis using m b wi by auto
    next
      case False
      then have "write_chunk X db wr md = (rm, dm, wm)" using m by simp
      from write_chunk_held [OF fits conjunct1 [OF b] wi _ this] show ?thesis using cap body by simp
    qed
    obtain rf df where f: "bw_finish X dm wm = (rf, df)" by fastforce
    have crc': "(if md = [] then crc else x_crc32c_append X crc md) = x_crc32c X (take body w @ md)"
      using crc_append [OF laws, of "take body w" md] by (simp add: crc)
    have eq: "(r, dev) = (case rm of Inl err \<Rightarrow> (Inl err, dm) | Inr _ \<Rightarrow>
        (case rf of Inl err \<Rightarrow> (Inl err, df) | Inr _ \<Rightarrow> (Inr (x_crc32c X (take body w @ md)), df)))"
      using run lp z m f Inr cw crc' by (simp add: rewrite_extent_def sz split: sum.splits if_splits)
    show "dev_frame dev0 dev off (off + n * 4096) \<and> r \<noteq> Inl Panicked \<and> (r = Inr c \<longrightarrow> c = x_crc32c X (take body w @ md) \<and>
      slice (dev_data dev) off (off + n * 4096) = encode_blocks X (take body w @ md))"
    proof (cases rm)
      case (Inl err)
      then show ?thesis using eq mh by simp
    next
      case (Inr u)
      have lw: "num_blocks (length (take body w @ md)) = n" using body by (simp add: n)
      have wi': "writer_inv X off dev0 (take body w @ md) dm wm" using mh Inr by simp
      note fh = bw_finish_held [OF fits wi' _ f]
      show ?thesis
      proof (cases rf)
        case (Inl err)
        then show ?thesis using eq Inr fh lw by simp
      next
        case (Inr v)
        have "slice (dev_data df) off (off + n * 4096) = encode_blocks X (take body w @ md)"
          using encode_and_write_stored(2) [of dev0 off "take body w @ md" X df] fh(3) fits lw Inr by simp
        then show ?thesis using eq \<open>rm = Inr u\<close> Inr fh(1) lw by simp
      qed
    qed
  qed
qed

section \<open>Replacing the metadata\<close>

lemma intervals_disjoint:
  fixes a b c d :: nat
  assumes "{a..<b} \<inter> {c..<d} = {}" and "a < b" and "c < d"
  shows "b \<le> c \<or> d \<le> a"
proof (rule ccontr)
  assume "\<not> (b \<le> c \<or> d \<le> a)"
  then have "max a c \<in> {a..<b} \<inter> {c..<d}" using assms(2,3) by simp
  then show False using assms(1) by blast
qed

definition put_outcome ::
  "'x codecs_scheme \<Rightarrow> nat \<Rightarrow> string \<Rightarrow> byte list \<times> nat \<Rightarrow> (string \<rightharpoonup> byte list \<times> nat) \<Rightarrow> inner \<Rightarrow> unit result \<Rightarrow> inner \<Rightarrow> bool" where
  "put_outcome X de key v A self r self' \<longleftrightarrow>
     store_ok de self' \<and> dev_frame (in_io self) (in_io self') DATA_START de \<and>
     (case r of
        Inl e \<Rightarrow> self' = self\<lparr>in_io := in_io self'\<rparr> \<and> rep X self' A
      | Inr _ \<Rightarrow> rep X self' (A(key \<mapsto> v)))"

lemma put_outcome_same: "store_ok de self \<Longrightarrow> rep X self A \<Longrightarrow> put_outcome X de key v A self (Inl e) self"
  by (simp add: put_outcome_def)

lemma update_metadata_plain:
  fixes X :: "'x store_env_scheme"
  assumes laws: "crc_laws X" and inv: "store_ok de self" and rep: "rep X self A" and A: "A key = Some (p, ml)"
    and e: "hm_get (files_of self) key = Some e" "ei_uncompressed_size e = 0"
    and small: "length p + 65535 < 2 ^ 63" and md: "length md \<le> 65535"
    and run: "update_metadata X now key md self = (r, self')"
  shows "put_outcome X de key (take (length p - ml) p @ md, length md) A self r self'"
proof -
  have ml: "ei_meta_len e = ml" and obj: "obj_ok X (in_compression self) (dev_data (in_io self)) e p"
    using rep_Some [OF rep e(1)] A by (metis Pair_inject option.inject)+
  have sz: "ei_size e = length p" and pn: "p \<noteq> []"
    and st: "extent_bytes (in_io self) (ei_offset e) (num_blocks (length p)) = encode_blocks X p"
    using obj e(2) by (auto simp: obj_ok_def)
  define body where "body = length p - ml"
  define w where "w = take body p @ md"
  have lw: "length w = body + length md" by (simp add: w_def body_def)
  have bs: "saturating_sub (ei_size e) (ei_meta_len e) = body" by (simp add: saturating_sub_def sz ml body_def)
  have ns: "uadd body (length md) = length w" using small md by (simp add: lw body_def uadd_in_range)
  show ?thesis
  proof (cases "in_read_only self \<or> w = []")
    case True
    then have "\<exists>er. r = Inl er \<and> self' = self"
      using run e md bs ns by (auto simp: update_metadata_def lookup_info_def split: if_splits)
    then show ?thesis using put_outcome_same [OF inv rep] by blast
  next
    case False
    then have pos: "0 < length w" and rw: "\<not> in_read_only self" by auto
    have small': "length w < 2 ^ 63" using small md by (simp add: lw body_def)
    define n where "n = num_blocks (length w)"
    note pp = payload_padded [OF pos small', folded n_def]
    note pv = padded_size_valid [OF pp(1) pos pp(2)]
    obtain ra self1 where al: "inner_alloc (n * 4096) self = (ra, self1)" by fastforce
    have step: "(r, self') = (case ra of Inl er \<Rightarrow> (Inl er, self1) | Inr off \<Rightarrow>
        finish_put X now key off (n * 4096) (length w) (length md)
          (rewrite_extent X (in_io self1) e off body md) self1)"
      using run e md bs ns rw pos pp(1) al by (auto simp: update_metadata_def lookup_info_def split: sum.splits)
    show ?thesis
    proof (cases ra)
      case (Inl er)
      then have "self1 = self" using inner_alloc_Inl(1) [OF inv pv(1)] al by simp
      then show ?thesis using step Inl put_outcome_same [OF inv rep] by simp
    next
      case (Inr off)
      note ia = inner_alloc_ok [OF inv pv(1,2) al [unfolded Inr]]
      obtain a' where s1: "self1 = self\<lparr>in_allocator := Some a'\<rparr>" using ia(3) by blast
      have ek: "entry_ok de e" by (rule entry_ok_of [OF inv e(1)])
      have fits: "extent_fits (in_io self1) off n"
        using ia(1,2) by (intro area_unit_fits [of de]) (auto simp: space_inv_def)
      have src: "extent_fits (in_io self1) (ei_offset e) (num_blocks (length p))"
        using stored_fits [OF inv e(1)] by (simp add: s1 sz)
      have "{off..<off + n * 4096} \<inter> used (hm_get (files_of self1)) = {}" using ia(1) by (simp add: space_inv_def)
      moreover have "e_range e \<subseteq> used (hm_get (files_of self1))" using e(1) by (intro e_range_used) (simp add: s1)
      ultimately have "e_range e \<inter> {off..<off + n * 4096} = {}" by blast
      moreover have "ei_padded_size e = num_blocks (length p) * 4096" using ek by (simp add: entry_ok_def sz)
      moreover have "0 < num_blocks (length p)" "0 < n" using num_blocks_pos pn pos by (auto simp: n_def)
      ultimately have disj: "ei_offset e + num_blocks (length p) * 4096 \<le> off \<or> off + n * 4096 \<le> ei_offset e"
        using intervals_disjoint [of "ei_offset e" "ei_offset e + num_blocks (length p) * 4096" off "off + n * 4096"] by simp
      have a: "4096 dvd ei_offset e" using ek by (simp add: entry_ok_def area_unit_def)
      obtain rw dev where rwr: "rewrite_extent X (in_io self1) e off body md = (rw, dev)" by fastforce
      note rh = rewrite_extent_held [OF laws fits src _ a disj sz _ _ rwr]
      have st1: "extent_bytes (in_io self1) (ei_offset e) (num_blocks (length p)) = encode_blocks X p"
        using st by (simp add: s1)
      have body: "body \<le> length p" and nn: "n = num_blocks (body + length md)" by (simp_all add: body_def n_def lw)
      note rh = rh [OF st1 body nn]
      have "finish_put X now key off (n * 4096) (length w) (length md) (rw, dev) self1 = (r, self')"
        using step Inr rwr by simp
      from finish_put_spec [OF inv pos small' n_def al [unfolded Inr] rh(1,2) _ this] rh(3)
      show ?thesis using rep by (auto simp: put_outcome_def w_def body_def split: sum.splits)
    qed
  qed
qed

lemma update_metadata_spec:
  fixes X :: "'x store_env_scheme"
  assumes laws: "crc_laws X" "codec_laws X" and inv: "store_ok de self" and rep: "rep X self A"
    and small: "\<And>p ml. A key = Some (p, ml) \<Longrightarrow> length p + 65535 < 2 ^ 63"
    and run: "update_metadata X now key md self = (r, self')"
  shows "case A key of
      None \<Rightarrow> self' = self \<and> r = (if length md > 65535 then Inl (MetadataTooLarge (length md) 65535) else Inl (NotFound key))
    | Some (p, ml) \<Rightarrow> put_outcome X de key (take (length p - ml) p @ md, length md) A self r self' \<and>
        (is_ok r \<longrightarrow> length md \<le> 65535)"
proof (cases "hm_get (files_of self) key")
  case None
  then show ?thesis using run rep_None [OF rep, of key] by (auto simp: update_metadata_def lookup_info_def split: if_splits)
next
  case (Some e)
  obtain p where A: "A key = Some (p, ei_meta_len e)" and obj: "obj_ok X (in_compression self) (dev_data (in_io self)) e p"
    using rep_Some [OF rep Some] by blast
  note sm = small [OF A]
  show ?thesis
  proof (cases "length md > 65535")
    case True
    then show ?thesis using run A put_outcome_same [OF inv rep] by (auto simp: update_metadata_def)
  next
    case False
    then have md: "length md \<le> 65535" by simp
    show ?thesis
    proof (cases "ei_uncompressed_size e = 0")
      case True
      then show ?thesis using update_metadata_plain [OF laws(1) inv rep A Some True sm md run] A md by simp
    next
      case comp: False
      then have us: "ei_uncompressed_size e = length p" using obj by (auto simp: obj_ok_def)
      define body where "body = length p - ei_meta_len e"
      define bd where "bd = (if body = 0 then Inr [] else bind_res (do_get X key self) (\<lambda>(data, _).
        if body \<le> length data then Inr (take body data) else Inl Panicked))"
      have step: "(r, self') = (case bd of Inl er \<Rightarrow> (Inl er, self)
          | Inr b \<Rightarrow> do_put_with_meta X now key (b @ md) (length md) self)"
        unfolding bd_def body_def using run [symmetric] Some md comp
        by (simp add: update_metadata_def lookup_info_def Let_def us saturating_sub_def)
      show ?thesis
      proof (cases bd)
        case (Inl er)
        then show ?thesis using step put_outcome_same [OF inv rep] A by simp
      next
        case (Inr b)
        have "b = take body p"
          using Inr do_get_sound [OF inv rep, of key] A
          by (auto simp: bd_def bind_res_Inr_iff split: if_splits)
        then have put: "do_put_with_meta X now key (take body p @ md) (length md) self = (r, self')" using step Inr by simp
        have "length (take body p @ md) < 2 ^ 63" using sm md by (simp add: body_def)
        from do_put_spec [OF laws inv this put] show ?thesis
          using rep A md by (auto simp: put_outcome_def body_def split: sum.splits)
      qed
    qed
  qed
qed

section \<open>Puts from a file\<close>

text \<open>What a file delivers before its end or its first error.\<close>

fun delivered :: "(io_kind + byte list) list \<Rightarrow> byte list" where
  "delivered [] = []"
| "delivered (Inl k # _) = []"
| "delivered (Inr c # rest) = (if c = [] then [] else c @ delivered rest)"

lemma read_to_end_delivered: "read_to_end rs = Inr q \<Longrightarrow> q = delivered rs"
  by (induction rs arbitrary: q rule: delivered.induct) (auto simp: bind_res_Inr_iff split: if_splits)

lemma file_put_loop_spec:
  assumes laws: "crc_laws X" and fits: "extent_fits dev0 off N"
    and "dev_frame dev0 dev off (off + N * 4096)" and "writer_inv X off dev0 P dev w"
    and "length P + length (delivered rs) \<le> N * 4092"
    and "file_put_loop X dev w rs (x_crc32c X P) = (r, dev')"
  shows "dev_frame dev0 dev' off (off + N * 4096) \<and> r \<noteq> Inl Panicked \<and>
    (\<forall>c. r = Inr c \<longrightarrow> is_ok (read_to_end rs) \<and> c = x_crc32c X (P @ delivered rs) \<and>
      encode_and_write_batched X dev0 off (P @ delivered rs) = (Inr (), dev'))"
  using assms(3-)
proof (induction rs arbitrary: dev P w rule: delivered.induct)
  case 1
  obtain rf df where f: "bw_finish X dev w = (rf, df)" by fastforce
  have "num_blocks (length P) \<le> N" using "1.prems"(3) by (simp add: num_blocks_le_iff)
  from bw_finish_held [OF fits "1.prems"(2) this f] show ?case using "1.prems"(4) f by (auto split: sum.splits)
next
  case (2 k rest)
  then show ?case by auto
next
  case (3 c rest)
  show ?case
  proof (cases "c = []")
    case True
    obtain rf df where f: "bw_finish X dev w = (rf, df)" by fastforce
    have "num_blocks (length P) \<le> N" using "3.prems"(3) True by (simp add: num_blocks_le_iff)
    from bw_finish_held [OF fits "3.prems"(2) this f] show ?thesis
      using "3.prems"(4) f True by (auto split: sum.splits)
  next
    case False
    obtain rw dv wv where wc: "write_chunk X dev w c = (rw, dv, wv)" by (metis prod_cases3)
    note wh = write_chunk_held [OF fits "3.prems"(1,2) _ wc]
    show ?thesis
    proof (cases rw)
      case (Inl e)
      then show ?thesis using "3.prems"(3,4) False wc wh(1,2) by auto
    next
      case (Inr u)
      have "file_put_loop X dv wv rest (x_crc32c X (P @ c)) = (r, dev')"
        using "3.prems"(4) False wc Inr crc_append [OF laws, of P c] by simp
      from "3.IH" [OF False wh(1,3) _ this] show ?thesis using "3.prems"(3) False Inr
        by (cases "read_to_end rest") auto
    qed
  qed
qed

lemma put_from_file_spec:
  fixes X :: "'x store_env_scheme"
  assumes laws: "crc_laws X" "codec_laws X" and inv: "store_ok de self" and rep: "rep X self A"
    and len: "sf_len file = Some n" and small: "n < 2 ^ 63"
    and max: "length (delivered (sf_reads file)) \<le> n"
    and whole: "\<And>q. read_to_end (sf_reads file) = Inr q \<Longrightarrow> length q = n"
    and run: "put_with_meta_from_file X now key file ml self = (r, self')"
  shows "put_outcome X de key (delivered (sf_reads file), ml) A self r self'"
    and "is_ok r \<Longrightarrow> read_to_end (sf_reads file) = Inr (delivered (sf_reads file))"
proof -
  let ?q = "delivered (sf_reads file)"
  have "put_outcome X de key (?q, ml) A self r self' \<and> (is_ok r \<longrightarrow> read_to_end (sf_reads file) = Inr ?q)"
  proof (cases "in_compression self = CNone")
    case False
    show ?thesis
    proof (cases "read_to_end (sf_reads file)")
      case (Inl e)
      then show ?thesis
        using run False put_outcome_same [OF inv rep] by (auto simp: put_with_meta_from_file_def len)
    next
      case (Inr q)
      then have q: "q = ?q" by (rule read_to_end_delivered)
      have put: "do_put_with_meta X now key ?q ml self = (r, self')"
        using run False Inr q by (simp add: put_with_meta_from_file_def len)
      have "length ?q < 2 ^ 63" using max small by simp
      from do_put_spec [OF laws inv this put] show ?thesis
        using rep Inr q by (auto simp: put_outcome_def split: sum.splits)
    qed
  next
    case True
    show ?thesis
    proof (cases "in_read_only self \<or> n = 0 \<or> length key > in_max_key_length self")
      case True
      then have "\<exists>e. r = Inl e \<and> self' = self"
        using run \<open>in_compression self = CNone\<close> by (auto simp: put_with_meta_from_file_def len split: if_splits)
      then show ?thesis using put_outcome_same [OF inv rep] by auto
    next
      case False
      then have n0: "0 < n" by simp
      define b where "b = num_blocks n"
      note pp = payload_padded [OF n0 small, folded b_def]
      note pv = padded_size_valid [OF pp(1) n0 pp(2)]
      obtain ra self1 where al: "inner_alloc (b * 4096) self = (ra, self1)" by fastforce
      have step: "(r, self') = (case ra of Inl er \<Rightarrow> (Inl er, self1) | Inr off \<Rightarrow>
          finish_put X now key off (b * 4096) n ml (file_put_loop X (in_io self1) (bw_new off) (sf_reads file) 0) self1)"
        using run True False pp(1) al by (auto simp: put_with_meta_from_file_def len split: sum.splits)
      show ?thesis
      proof (cases ra)
        case (Inl er)
        then have "self1 = self" using inner_alloc_Inl(1) [OF inv pv(1)] al by simp
        then show ?thesis using step Inl put_outcome_same [OF inv rep] by simp
      next
        case (Inr off)
        note ia = inner_alloc_ok [OF inv pv(1,2) al [unfolded Inr]]
        have fits: "extent_fits (in_io self1) off b"
          using ia(1,2) by (intro area_unit_fits [of de]) (auto simp: space_inv_def)
        have z: "x_crc32c X [] = 0" using laws(1) by (simp add: crc_laws_def)
        obtain rl dev where lp: "file_put_loop X (in_io self1) (bw_new off) (sf_reads file) (x_crc32c X []) = (rl, dev)"
          by fastforce
        have cap: "length [] + length ?q \<le> b * 4092" using max num_blocks_ge [of n] by (simp add: b_def)
        note fl = file_put_loop_spec [OF laws(1) fits dev_frame_refl writer_inv_new cap lp]
        have lq: "length ?q = n" if "rl = Inr c" for c
        proof -
          have "is_ok (read_to_end (sf_reads file))" using fl that by blast
          then obtain q where q: "read_to_end (sf_reads file) = Inr q" by (cases "read_to_end (sf_reads file)") auto
          then show ?thesis using whole read_to_end_delivered by metis
        qed
        show ?thesis
        proof (cases rl)
          case (Inl er)
          define w where "w = replicate n (0 :: byte)"
          have w: "0 < length w" "length w < 2 ^ 63" "b = num_blocks (length w)" using n0 small by (simp_all add: w_def b_def)
          have "finish_put X now key off (b * 4096) (length w) ml (Inl er, dev) self1 = (r, self')"
            using step Inr lp z Inl by (simp add: w_def)
          moreover have "dev_frame (in_io self1) dev off (off + b * 4096)" "Inl er \<noteq> (Inl Panicked :: u32 result)"
            using fl Inl by auto
          ultimately have s: "store_ok de self' \<and> dev_frame (in_io self) (in_io self') DATA_START de \<and>
            (case r of Inl e \<Rightarrow> self' = self\<lparr>in_io := in_io self'\<rparr> \<and> (\<forall>A. rep X self A \<longrightarrow> rep X self' A)
             | Inr _ \<Rightarrow> (\<forall>A. rep X self A \<longrightarrow> rep X self' (A(key \<mapsto> (w, ml)))))"
            by (intro finish_put_spec [OF inv w al [unfolded Inr]]) auto
          moreover have "r = Inl er" using step Inr lp z Inl by (auto simp: finish_put_def Let_def)
          ultimately show ?thesis using rep by (auto simp: put_outcome_def)
        next
          case (Inr c)
          have w: "0 < length ?q" "length ?q < 2 ^ 63" "b = num_blocks (length ?q)"
            using lq [OF Inr] n0 small by (simp_all add: b_def)
          have fp: "finish_put X now key off (b * 4096) (length ?q) ml (Inr c, dev) self1 = (r, self')"
            using step \<open>ra = Inr off\<close> lp z Inr lq [OF Inr] by simp
          have eb: "encode_and_write_batched X (in_io self1) off ?q = (Inr (), dev)" and c: "c = x_crc32c X ?q"
            using fl Inr by auto
          have fr: "dev_frame (in_io self1) dev off (off + b * 4096)" using fl by blast
          have sl: "slice (dev_data dev) off (off + b * 4096) = encode_blocks X ?q"
            using encode_and_write_stored(2) [of "in_io self1" off ?q X dev] fits eb w(3) by simp
          have "store_ok de self' \<and> dev_frame (in_io self) (in_io self') DATA_START de \<and>
            (case r of Inl e \<Rightarrow> self' = self\<lparr>in_io := in_io self'\<rparr> \<and> (\<forall>A. rep X self A \<longrightarrow> rep X self' A)
             | Inr _ \<Rightarrow> (\<forall>A. rep X self A \<longrightarrow> rep X self' (A(key \<mapsto> (?q, ml)))))"
            by (rule finish_put_spec [OF inv w al [unfolded \<open>ra = Inr off\<close>] fr _ _ fp]) (use sl c in simp_all)
          moreover have "read_to_end (sf_reads file) = Inr ?q"
            using fl Inr read_to_end_delivered by (cases "read_to_end (sf_reads file)") auto
          ultimately show ?thesis using rep by (auto simp: put_outcome_def split: sum.splits)
        qed
      qed
    qed
  qed
  then show "put_outcome X de key (?q, ml) A self r self'"
    and "is_ok r \<Longrightarrow> read_to_end (sf_reads file) = Inr ?q" by auto
qed

end
