(* ===== verification/Crash.thy ===== *)
theory Crash
  imports Lifecycle
begin

text \<open>
  What is on the medium after a crash. A crash image takes every byte from the last synced state or
  from any write issued since, so writes may be lost, reordered and torn at every byte. The frame
  lemmas here carry the bytes that no pending write touches through the device calls.
\<close>

section \<open>Crash images\<close>

definition crash_image :: "device_io \<Rightarrow> byte list \<Rightarrow> bool" where
  "crash_image dev img \<longleftrightarrow>
     length img = length (dev_data dev) \<and>
     (\<forall>i < length img. img ! i = dev_stable dev ! i \<or>
        (\<exists>w\<in>set (dev_unsynced dev). touches w i \<and> img ! i = snd w ! (i - fst w)))"

lemma crash_exists: "\<exists>img. crash_image dev img"
  by (rule exI [of _ "map (\<lambda>i. dev_stable dev ! i) [0..<length (dev_data dev)]"]) (simp add: crash_image_def)

lemma crash_quiet: "crash_image dev img \<Longrightarrow> i < length img \<Longrightarrow> byte_quiet dev i \<Longrightarrow> img ! i = dev_data dev ! i"
  unfolding crash_image_def byte_quiet_def by metis

lemma crash_quiet_slice:
  assumes "crash_image dev img" and "\<And>i. a \<le> i \<Longrightarrow> i < b \<Longrightarrow> i < length (dev_data dev) \<Longrightarrow> byte_quiet dev i"
  shows "slice img a b = slice (dev_data dev) a b"
  using assms by (intro slice_eqI) (auto simp: crash_image_def intro!: crash_quiet)

section \<open>Frames over a set of bytes\<close>

definition frame_set :: "device_io \<Rightarrow> device_io \<Rightarrow> nat set \<Rightarrow> bool" where
  "frame_set dev dev' W \<longleftrightarrow>
     dev_same dev dev' \<and> length (dev_data dev') = length (dev_data dev) \<and>
     (\<forall>i < length (dev_data dev). i \<notin> W \<longrightarrow>
        dev_data dev' ! i = dev_data dev ! i \<and> (byte_quiet dev i \<longrightarrow> byte_quiet dev' i))"

lemma frame_set_refl [simp]: "frame_set dev dev W"
  by (simp add: frame_set_def)

lemma frame_set_trans: "frame_set x y V \<Longrightarrow> frame_set y z W \<Longrightarrow> frame_set x z (V \<union> W)"
  unfolding frame_set_def using dev_same_trans by (metis UnI1 UnI2)

lemma frame_set_mono: "frame_set x y V \<Longrightarrow> V \<subseteq> W \<Longrightarrow> frame_set x y W"
  unfolding frame_set_def by blast

lemma frame_set_length: "frame_set x y W \<Longrightarrow> length (dev_data y) = length (dev_data x)"
  by (simp add: frame_set_def)

lemma frame_set_slice:
  "frame_set x y W \<Longrightarrow> {a..<b} \<inter> W = {} \<Longrightarrow> slice (dev_data y) a b = slice (dev_data x) a b"
  by (intro slice_eqI) (auto simp: frame_set_def disjoint_iff)

lemma frame_set_quiet:
  "frame_set x y W \<Longrightarrow> byte_quiet x i \<Longrightarrow> i < length (dev_data x) \<Longrightarrow> i \<notin> W \<Longrightarrow> byte_quiet y i"
  by (simp add: frame_set_def)

lemma write_all_at_pending:
  "\<exists>n. dev_unsynced (snd (write_all_at dev bs off)) = dev_unsynced dev @ [(off, take n bs)] \<and>
     dev_stable (snd (write_all_at dev bs off)) = dev_stable dev"
  by (rule exI [of _ "min (case dev_wfault dev (dev_writes dev) of None \<Rightarrow> length bs | Some k \<Rightarrow> k)
      (if dev_block dev then length (dev_data dev) - off else length bs)"])
    (simp add: write_all_at_def Let_def)

lemma write_all_at_frame_set:
  assumes "off + length bs \<le> length (dev_data dev)"
  shows "frame_set dev (snd (write_all_at dev bs off)) {off..<off + length bs}"
  using write_all_at_frame [OF assms] by (auto simp: frame_set_def dev_frame_def)

lemma frame_set_of: "dev_frame dev dev' a b \<Longrightarrow> {a..<b} \<subseteq> W \<Longrightarrow> frame_set dev dev' W"
  unfolding frame_set_def dev_frame_def by (meson atLeastLessThan_iff linorder_not_less subsetD)

lemma pwrite_frame_set:
  assumes "off + write_span dev (length bs) \<le> length (dev_data dev)" and "length bs + 4095 < 2 ^ 64"
  shows "frame_set dev (snd (pwrite dev off bs)) {off..<off + write_span dev (length bs)}"
proof -
  have "frame_set dev (snd (write_all_at dev (bs @ replicate (write_span dev (length bs) - length bs) 0) off))
      {off..<off + write_span dev (length bs)}"
    using write_all_at_frame_set [of off "bs @ replicate (write_span dev (length bs) - length bs) 0" dev] assms(1)
    unfolding length_padded by simp
  then show ?thesis by (simp add: pwrite_eq [OF assms(2)])
qed

lemma dev_sync_frame_set:
  assumes "dev_sync dev = (r, dev')"
  shows "frame_set dev dev' {}" and "dev_data dev' = dev_data dev" and "r = Inr () \<Longrightarrow> byte_quiet dev' i"
  using assms by (auto simp: dev_sync_def frame_set_def dev_same_def byte_quiet_def split: if_splits)

text \<open>A torn write: every byte is the old or the new one.\<close>

definition torn :: "byte list \<Rightarrow> byte list \<Rightarrow> byte list \<Rightarrow> bool" where
  "torn old new mix \<longleftrightarrow>
     length mix = length old \<and> length mix = length new \<and> (\<forall>i < length mix. mix ! i = old ! i \<or> mix ! i = new ! i)"

lemma pwrite_torn:
  assumes fits: "off + length bs \<le> length (dev_data dev)" and al: "4096 dvd length bs"
    and small: "length bs + 4095 < 2 ^ 64"
    and quiet: "\<And>i. off \<le> i \<Longrightarrow> i < off + length bs \<Longrightarrow> byte_quiet dev i"
    and img: "crash_image (snd (pwrite dev off bs)) img"
  shows "torn (slice (dev_data dev) off (off + length bs)) bs (slice img off (off + length bs))"
proof -
  let ?d = "snd (pwrite dev off bs)"
  have pw: "?d = dev \<or> ?d = snd (write_all_at dev bs off)"
    using al by (auto simp: pwrite_eq [OF small])
  have len: "length img = length (dev_data dev)"
    using img frame_set_length [OF pwrite_frame_set [of off dev bs]] fits al small by (simp add: crash_image_def)
  have "img ! (off + i) = dev_data dev ! (off + i) \<or> img ! (off + i) = bs ! i" if i: "i < length bs" for i
  proof -
    have q: "byte_quiet dev (off + i)" using i by (intro quiet) auto
    show ?thesis
    proof (cases "?d = dev")
      case True
      then show ?thesis using img q i fits len crash_quiet [of dev img "off + i"] by simp
    next
      case False
      then have d: "?d = snd (write_all_at dev bs off)" using pw by blast
      obtain n where u: "dev_unsynced ?d = dev_unsynced dev @ [(off, take n bs)]" and st: "dev_stable ?d = dev_stable dev"
        unfolding d using write_all_at_pending [of dev bs off] by blast
      have "img ! (off + i) = dev_stable ?d ! (off + i) \<or>
          (\<exists>w\<in>set (dev_unsynced ?d). touches w (off + i) \<and> img ! (off + i) = snd w ! (off + i - fst w))"
        using img i fits len unfolding crash_image_def by auto
      then show ?thesis using q i by (auto simp: u st byte_quiet_def touches_def)
    qed
  qed
  then show ?thesis
    using fits len by (auto simp: torn_def length_slice slice_nth)
qed

end
