(* ===== verification/Flush.thy ===== *)
theory Flush
  imports Crash
begin

text \<open>
  Flushing the index: where the loop over the dirty shards writes, what a successful flush leaves on
  the device, and that a crash at any moment of a flush leaves the old or the new index.
\<close>

section \<open>Geometry of the index regions\<close>

definition layout_ok :: "nat \<Rightarrow> index_layout \<Rightarrow> bool" where
  "layout_ok N l \<longleftrightarrow>
     l = layout_for N (il_capacity l) \<and> 0 < il_capacity l \<and> il_capacity l < 2 ^ 40 \<and> INDEX_REGION_SIZE dvd il_capacity l \<and>
     DATA_START + 4096 + 2 * il_capacity l \<le> N \<and> N + 4096 \<le> 2 ^ 64 \<and> 4096 dvd N"

definition shard_pos :: "index_layout \<Rightarrow> nat \<Rightarrow> nat \<Rightarrow> nat" where
  "shard_pos l slot i = (if slot = 0 then il_region_a l else il_region_b l) + i * il_shard_slot l"

abbreviation slot_bytes :: "index_layout \<Rightarrow> nat \<Rightarrow> nat \<Rightarrow> nat set" where
  "slot_bytes l slot i \<equiv> {shard_pos l slot i..<shard_pos l slot i + il_shard_slot l}"

lemma layout_facts:
  assumes "layout_ok N l"
  shows "il_region_a l = N - 2 * il_capacity l" and "il_region_b l = il_region_a l + il_capacity l"
    and "256 * il_shard_slot l = il_capacity l" and "4096 dvd il_shard_slot l" and "0 < il_shard_slot l"
    and "il_region_a l + 2 * il_capacity l = N" and "DATA_START + 4096 \<le> il_region_a l"
    and "4096 dvd il_region_a l" and "N < 2 ^ 64" and "il_shard_slot l < 2 ^ 32"
proof -
  let ?c = "il_capacity l"
  have l: "l = layout_for N ?c" and c: "0 < ?c" "INDEX_REGION_SIZE dvd ?c" and n: "DATA_START + 4096 + 2 * ?c \<le> N"
    and N: "N + 4096 \<le> 2 ^ 64" and al: "4096 dvd N"
    using assms by (auto simp: layout_ok_def)
  show N64: "N < 2 ^ 64" using N by simp
  have u: "umul ?c 2 = 2 * ?c" using n N by (simp add: umul_def)
  show a: "il_region_a l = N - 2 * ?c"
    using arg_cong [OF l, of il_region_a] n N u by (simp add: layout_for_def u64_simps)
  show b: "il_region_b l = il_region_a l + ?c"
    using arg_cong [OF l, of il_region_b] n N a by (simp add: layout_for_def u64_simps)
  have s: "il_shard_slot l = ?c div 256"
    using arg_cong [OF l, of il_shard_slot] by (simp add: layout_for_def NUM_SHARDS_def)
  obtain k where k: "?c = 16777216 * k" using c(2) by (auto simp: layout_consts elim!: dvdE)
  then have s': "il_shard_slot l = 65536 * k" using s by simp
  show "256 * il_shard_slot l = ?c" using s' k by simp
  show "4096 dvd il_shard_slot l" unfolding s' by (rule dvd_mult2) simp
  show "0 < il_shard_slot l" using s' k c(1) by simp
  show "il_region_a l + 2 * ?c = N" using a n by simp
  show "DATA_START + 4096 \<le> il_region_a l" using a n by simp
  have "4096 dvd 2 * ?c" unfolding k by (rule dvdI [of _ _ "8192 * k"]) simp
  then show "4096 dvd il_region_a l" unfolding a using al by (intro dvd_diff_nat)
  have "?c < 2 ^ 40" using assms by (simp add: layout_ok_def)
  then show "il_shard_slot l < 2 ^ 32" using s' k by simp
qed

lemma shard_pos_bounds:
  assumes "layout_ok N l" and "i < 256"
  shows "il_region_a l \<le> shard_pos l slot i" and "shard_pos l slot i + il_shard_slot l \<le> N"
    and "4096 dvd shard_pos l slot i"
proof -
  note f = layout_facts [OF assms(1)]
  have "(i + 1) * il_shard_slot l \<le> 256 * il_shard_slot l" using assms(2) by (intro mult_le_mono1) simp
  then have le: "i * il_shard_slot l + il_shard_slot l \<le> il_capacity l" using f(3) by simp
  show "il_region_a l \<le> shard_pos l slot i" using f(2) by (simp add: shard_pos_def)
  show "shard_pos l slot i + il_shard_slot l \<le> N" using le f(2,6) by (simp add: shard_pos_def)
  have "INDEX_REGION_SIZE dvd il_capacity l" using assms(1) by (simp add: layout_ok_def)
  moreover have "(4096 :: nat) dvd INDEX_REGION_SIZE" by (simp add: layout_consts)
  ultimately have "4096 dvd il_capacity l" by (rule dvd_trans [rotated])
  then have "4096 dvd il_region_b l" using f(2,8) by simp
  then show "4096 dvd shard_pos l slot i" using f(4,8) by (auto simp: shard_pos_def intro: dvd_add dvd_mult)
qed

lemma shard_offset_pos: "layout_ok N l \<Longrightarrow> i < 256 \<Longrightarrow> shard_offset l slot i = shard_pos l slot i"
proof -
  assume l: "layout_ok N l" and i: "i < 256"
  note f = layout_facts [OF l]
  have "shard_pos l slot i < 2 ^ 64" using shard_pos_bounds(2) [OF l i, of slot] f(9) by simp
  moreover have "i * il_shard_slot l < 2 ^ 64"
    using shard_pos_bounds(2) [OF l i, of slot] f(9) by (simp add: shard_pos_def split: if_splits)
  ultimately show ?thesis
    by (auto simp: shard_offset_def shard_pos_def u64_simps split: if_splits)
qed

lemma slot_bytes_disjoint:
  assumes "layout_ok N l" and "i < 256" and "j < 256" and "slot \<le> 1" and "slot' \<le> 1" and "slot \<noteq> slot' \<or> i \<noteq> j"
  shows "slot_bytes l slot i \<inter> slot_bytes l slot' j = {}"
proof -
  note f = layout_facts [OF assms(1)]
  let ?s = "il_shard_slot l"
  have step: "(a + 1) * ?s \<le> b * ?s" if "a < b" for a b :: nat using that by (intro mult_le_mono1) simp
  have top: "(a + 1) * ?s \<le> il_capacity l" if "a < 256" for a
    using step [of a 256] that f(3) by simp
  show ?thesis
  proof (cases "slot = slot'")
    case True
    then have "i < j \<or> j < i" using assms(6) by auto
    then show ?thesis using step [of i j] step [of j i] True by (auto simp: shard_pos_def)
  next
    case False
    then have "slot = 0 \<and> slot' = 1 \<or> slot = 1 \<and> slot' = 0" using assms(4,5) by auto
    then show ?thesis using top [OF assms(2)] top [OF assms(3)] f(2) by (auto simp: shard_pos_def)
  qed
qed

section \<open>The index on the device\<close>

text \<open>Shard \<open>i\<close> of the index \<open>ix\<close> is what the slot \<open>slots ! i\<close> points to in the bytes \<open>d\<close>.\<close>

definition shard_on_disk ::
  "'x store_env_scheme \<Rightarrow> index_layout \<Rightarrow> byte list \<Rightarrow> device_index \<Rightarrow> shard_slot_meta list \<Rightarrow> nat \<Rightarrow> bool" where
  "shard_on_disk X l d ix slots i \<longleftrightarrow>
     (let m = slots ! i; off = shard_pos l (active_slot m) i in
      if slot_size m = 0 then shard_equiv (shard_bucket X ix i) shard_default
      else \<exists>t. shard_from_bytes X (slice d off (off + slot_size m)) (slot_crc m) = Inr t \<and>
             shard_equiv (shard_bucket X ix i) t)"

definition slots_ok :: "index_layout \<Rightarrow> shard_slot_meta list \<Rightarrow> bool" where
  "slots_ok l slots \<longleftrightarrow>
     length slots = NUM_SHARDS \<and> (\<forall>m\<in>set slots. active_slot m \<le> 1 \<and> slot_size m \<le> il_shard_slot l)"

definition index_on_disk ::
  "'x store_env_scheme \<Rightarrow> index_layout \<Rightarrow> byte list \<Rightarrow> device_index \<Rightarrow> shard_slot_meta list \<Rightarrow> bool" where
  "index_on_disk X l d ix slots \<longleftrightarrow> slots_ok l slots \<and> (\<forall>i < NUM_SHARDS. shard_on_disk X l d ix slots i)"

definition index_equiv :: "device_index \<Rightarrow> device_index \<Rightarrow> bool" where
  "index_equiv a b \<longleftrightarrow>
     hm_get (ix_files a) = hm_get (ix_files b) \<and> hm_get (ix_tombstones a) = hm_get (ix_tombstones b)"

lemma hm_get_filter: "hm_get (filter (\<lambda>(k, _). P k) m) k = (if P k then hm_get m k else None)"
  by (induction m) auto

lemma shard_bucket_get:
  "hm_get (sd_files (shard_bucket X ix i)) k = (if shard_for_key X k = i then hm_get (ix_files ix) k else None)"
  "hm_get (sd_tombstones (shard_bucket X ix i)) k = (if shard_for_key X k = i then hm_get (ix_tombstones ix) k else None)"
  by (simp_all add: shard_bucket_def hm_get_filter [of "\<lambda>k. shard_for_key X k = i"])

lemma shard_on_disk_cong:
  assumes "slice d' off (off + il_shard_slot l) = slice d off (off + il_shard_slot l)"
    and "off = shard_pos l (active_slot (slots ! i)) i" and "slot_size (slots ! i) \<le> il_shard_slot l"
    and "slots' ! i = slots ! i" and "shard_equiv (shard_bucket X ix' i) (shard_bucket X ix i)"
  shows "shard_on_disk X l d' ix' slots' i = shard_on_disk X l d ix slots i"
proof -
  have "slice d' off (off + slot_size (slots ! i)) = slice (slice d' off (off + il_shard_slot l)) 0 (slot_size (slots ! i))"
    using assms(3) by (subst slice_slice) simp_all
  also have "\<dots> = slice d off (off + slot_size (slots ! i))"
    using assms(1,3) by (simp add: slice_slice)
  finally show ?thesis
    using assms(2,4,5) by (auto simp: shard_on_disk_def Let_def shard_equiv_def)
qed

text \<open>Loading the shards of an index that is on the device gives that index.\<close>

lemma load_shards_spec:
  assumes laws: "shard_laws X" and l: "layout_ok (length (dev_data io)) l" and nd: "\<not> dev_direct io"
    and rf: "\<And>i n. \<not> dev_rfault io i n"
    and disk: "slots_ok l slots" "\<forall>i\<in>set is. shard_on_disk X l (dev_data io) ix slots i"
    and "set is \<subseteq> {..<256}" and "distinct is"
  shows "\<exists>acc'. load_shards X io l slots is acc = Inr acc' \<and>
    (\<forall>k. hm_get (ix_files acc') k =
       (if shard_for_key X k \<in> set is \<and> hm_get (ix_files ix) k \<noteq> None then hm_get (ix_files ix) k else hm_get (ix_files acc) k)) \<and>
    (\<forall>k. hm_get (ix_tombstones acc') k =
       (if shard_for_key X k \<in> set is \<and> hm_get (ix_tombstones ix) k \<noteq> None then hm_get (ix_tombstones ix) k else hm_get (ix_tombstones acc) k)) \<and>
    (hm_wf (ix_files acc) \<longrightarrow> hm_wf (ix_files acc')) \<and> (hm_wf (ix_tombstones acc) \<longrightarrow> hm_wf (ix_tombstones acc'))"
  using assms(6-)
proof (induction "is" arbitrary: acc)
  case Nil
  then show ?case by simp
next
  case (Cons i "is")
  let ?m = "slots ! i"
  have i: "i < 256" using Cons.prems(2) by simp
  have m: "slot_size ?m \<le> il_shard_slot l" "?m \<in> set slots"
    using disk(1) i by (auto simp: slots_ok_def NUM_SHARDS_def)
  have so: "shard_on_disk X l (dev_data io) ix slots i" using Cons.prems(1) by simp
  obtain acc1 where step: "load_shards X io l slots (i # is) acc = load_shards X io l slots is acc1"
    and f1: "\<And>k. hm_get (ix_files acc1) k = (if shard_for_key X k = i \<and> hm_get (ix_files ix) k \<noteq> None
        then hm_get (ix_files ix) k else hm_get (ix_files acc) k)"
    and t1: "\<And>k. hm_get (ix_tombstones acc1) k = (if shard_for_key X k = i \<and> hm_get (ix_tombstones ix) k \<noteq> None
        then hm_get (ix_tombstones ix) k else hm_get (ix_tombstones acc) k)"
    and w1: "hm_wf (ix_files acc) \<longrightarrow> hm_wf (ix_files acc1)" "hm_wf (ix_tombstones acc) \<longrightarrow> hm_wf (ix_tombstones acc1)"
  proof (cases "slot_size ?m = 0")
    case True
    then have "shard_equiv (shard_bucket X ix i) shard_default" using so by (simp add: shard_on_disk_def Let_def)
    then have "hm_get (sd_files (shard_bucket X ix i)) k = None" "hm_get (sd_tombstones (shard_bucket X ix i)) k = None" for k
      by (simp_all add: shard_equiv_def shard_default_def)
    then have "shard_for_key X k = i \<longrightarrow> hm_get (ix_files ix) k = None \<and> hm_get (ix_tombstones ix) k = None" for k
      unfolding shard_bucket_get by metis
    then show ?thesis using True by (intro that [of acc]) auto
  next
    case False
    let ?off = "shard_pos l (active_slot ?m) i"
    obtain t where t: "shard_from_bytes X (slice (dev_data io) ?off (?off + slot_size ?m)) (slot_crc ?m) = Inr t"
      and eq: "shard_equiv (shard_bucket X ix i) t"
      using so False by (auto simp: shard_on_disk_def Let_def)
    have "pread io ?off (slot_size ?m) = Inr (slice (dev_data io) ?off (?off + slot_size ?m))"
      using nd rf m(1) shard_pos_bounds(2) [OF l i, of "active_slot ?m"] layout_facts(10) [OF l]
      by (intro pread_ok) (simp_all add: write_span_def)
    then have rd: "read_shard X io l ?m i = Inr t"
      using t shard_offset_pos [OF l i] by (simp add: read_shard_def)
    have "shard_wf t"
      using t laws by (auto simp: shard_from_bytes_def shard_laws_def split: if_splits option.splits)
    then have rv: "hm_get (rev (sd_files t)) = hm_get (sd_files t)" "hm_get (rev (sd_tombstones t)) = hm_get (sd_tombstones t)"
      by (simp_all add: shard_wf_def hm_get_rev)
    have tg: "hm_get (sd_files t) k = (if shard_for_key X k = i then hm_get (ix_files ix) k else None)"
      "hm_get (sd_tombstones t) k = (if shard_for_key X k = i then hm_get (ix_tombstones ix) k else None)" for k
      using eq by (simp_all add: shard_equiv_def flip: shard_bucket_get)
    show ?thesis
    proof (rule that [of "merge_shard t acc"])
      show "load_shards X io l slots (i # is) acc = load_shards X io l slots is (merge_shard t acc)"
        using False rd by simp
    qed (auto simp: merge_shard_def hm_extend_get rv tg map_add_def hm_extend_wf split: option.splits)
  qed
  obtain acc' where IH: "load_shards X io l slots is acc1 = Inr acc'"
    "\<And>k. hm_get (ix_files acc') k = (if shard_for_key X k \<in> set is \<and> hm_get (ix_files ix) k \<noteq> None
        then hm_get (ix_files ix) k else hm_get (ix_files acc1) k)"
    "\<And>k. hm_get (ix_tombstones acc') k = (if shard_for_key X k \<in> set is \<and> hm_get (ix_tombstones ix) k \<noteq> None
        then hm_get (ix_tombstones ix) k else hm_get (ix_tombstones acc1) k)"
    "hm_wf (ix_files acc1) \<longrightarrow> hm_wf (ix_files acc')" "hm_wf (ix_tombstones acc1) \<longrightarrow> hm_wf (ix_tombstones acc')"
    using Cons.IH [of acc1] Cons.prems by auto
  show ?case
    unfolding step using IH f1 t1 w1 by (intro exI [of _ acc']) auto
qed

text \<open>
  An image recovers an index when opening it, on a device that can be read, loads that index.
\<close>

definition sb_copy :: "'x store_env_scheme \<Rightarrow> byte list \<Rightarrow> nat \<Rightarrow> superblock result" where
  "sb_copy X d off = sb_from_bytes X (slice d off (off + 4096))"

definition recovers :: "'x store_env_scheme \<Rightarrow> byte list \<Rightarrow> device_index \<Rightarrow> bool" where
  "recovers X img ix \<longleftrightarrow>
     (\<forall>io. dev_data io = img \<and> \<not> dev_direct io \<and> (\<forall>i n. \<not> dev_rfault io i n) \<longrightarrow>
        (\<exists>sb l ix'. open_index X io = Inr (sb, l, ix') \<and> index_equiv ix' ix \<and>
           hm_wf (ix_files ix') \<and> hm_wf (ix_tombstones ix')))"

lemma open_index_spec:
  assumes laws: "shard_laws X" and l: "layout_ok (length (dev_data io)) l" and nd: "\<not> dev_direct io"
    and rf: "\<And>i n. \<not> dev_rfault io i n"
    and sel: "select_superblock (sb_copy X (dev_data io) 0) (sb_copy X (dev_data io) 4096) = Inr sb"
    and cap: "sb_index_slot_capacity sb = il_capacity l"
    and disk: "index_on_disk X l (dev_data io) ix (sb_shard_slots sb)"
  shows "\<exists>ix'. open_index X io = Inr (sb, l, ix') \<and> index_equiv ix' ix \<and> hm_wf (ix_files ix') \<and> hm_wf (ix_tombstones ix')"
proof -
  note f = layout_facts [OF l]
  have rd: "read_superblock X io = Inr sb"
  proof -
    have "pread io off 4096 = Inr (slice (dev_data io) off (off + 4096))" if "off \<le> 4096" for off
      using nd rf that f(6,7) by (intro pread_ok) (simp_all add: write_span_def layout_consts)
    then show ?thesis using sel by (simp add: read_superblock_def sb_copy_def SUPERBLOCK_SIZE_def)
  qed
  have "min_device_size (il_capacity l) = 12288 + 2 * il_capacity l"
    using f(6,7,9) by (simp add: min_device_size_def layout_consts uadd_def umul_def mult.commute)
  then have sz: "\<not> length (dev_data io) < min_device_size (il_capacity l)" using f(6,7) by (simp add: layout_consts)
  obtain ix' where ld: "load_shards X io l (sb_shard_slots sb) [0..<NUM_SHARDS] index_new = Inr ix'"
    and fi: "\<And>k. hm_get (ix_files ix') k = (if shard_for_key X k \<in> set [0..<NUM_SHARDS] \<and> hm_get (ix_files ix) k \<noteq> None
        then hm_get (ix_files ix) k else hm_get (ix_files index_new) k)"
    and ti: "\<And>k. hm_get (ix_tombstones ix') k = (if shard_for_key X k \<in> set [0..<NUM_SHARDS] \<and> hm_get (ix_tombstones ix) k \<noteq> None
        then hm_get (ix_tombstones ix) k else hm_get (ix_tombstones index_new) k)"
    and wf: "hm_wf (ix_files ix')" "hm_wf (ix_tombstones ix')"
  proof -
    have "slots_ok l (sb_shard_slots sb)" "\<forall>i\<in>set [0..<NUM_SHARDS]. shard_on_disk X l (dev_data io) ix (sb_shard_slots sb) i"
      "set [0..<NUM_SHARDS] \<subseteq> {..<256}" "distinct [0..<NUM_SHARDS]"
      using disk by (auto simp: index_on_disk_def NUM_SHARDS_def)
    moreover have "hm_wf (ix_files index_new)" "hm_wf (ix_tombstones index_new)" by (simp_all add: index_new_def hm_wf_def)
    ultimately show ?thesis using that load_shards_spec [OF laws l nd rf, of "sb_shard_slots sb" "[0..<NUM_SHARDS]" ix index_new] by blast
  qed
  have "index_equiv ix' ix"
    using fi ti shard_for_key_less [of X] by (auto simp: index_equiv_def index_new_def NUM_SHARDS_def fun_eq_iff)
  moreover have "l = layout_for (length (dev_data io)) (il_capacity l)" "0 < il_capacity l"
    using l by (auto simp: layout_ok_def)
  ultimately show ?thesis
    using rd sz cap ld wf by (simp add: open_index_def dev_size_def Let_def)
qed

lemma recoversI:
  assumes "shard_laws X" and "layout_ok (length img) l"
    and "select_superblock (sb_copy X img 0) (sb_copy X img 4096) = Inr sb"
    and "sb_index_slot_capacity sb = il_capacity l" and "index_on_disk X l img ix (sb_shard_slots sb)"
  shows "recovers X img ix"
  unfolding recovers_def using open_index_spec [OF assms(1), where l = l and sb = sb and ix = ix] assms(2-) by blast

section \<open>The loop over the dirty shards\<close>

abbreviation slots_of :: "inner \<Rightarrow> shard_slot_meta list" where
  "slots_of self \<equiv> sb_shard_slots (in_superblock self)"

definition flush_region :: "index_layout \<Rightarrow> inner \<Rightarrow> nat set \<Rightarrow> nat set" where
  "flush_region l self I =
     (\<Union>i\<in>{i \<in> I. in_shard_dirty self ! i}. slot_bytes l (1 - active_slot (slots_of self ! i)) i)"

lemma new_slot_of_le: "cur \<le> 1 \<Longrightarrow> new_slot_of cur = 1 - cur"
  by (cases "cur = 0"; cases "cur = 1") (auto simp: new_slot_of_def)

lemma flush_region_Cons:
  "flush_region l self (insert i I) =
     (if in_shard_dirty self ! i then slot_bytes l (1 - active_slot (slots_of self ! i)) i else {}) \<union> flush_region l self I"
  by (auto simp: flush_region_def)

definition index_wf :: "device_index \<Rightarrow> bool" where
  "index_wf ix \<longleftrightarrow> hm_wf (ix_files ix) \<and> hm_wf (ix_tombstones ix)"

lemma shard_bucket_wf: "index_wf ix \<Longrightarrow> shard_wf (shard_bucket X ix i)"
  by (simp add: index_wf_def shard_wf_def shard_bucket_def hm_wf_filter)

text \<open>The write of one dirty shard.\<close>

lemma flush_one:
  assumes laws: "shard_laws X" and l: "layout_ok (length (dev_data dev)) l" and i: "i < 256" and slot: "slot \<le> 1"
    and ser: "shard_to_bytes X (shard_bucket X ix i) = Inr (bs, c)" and wf: "index_wf ix"
    and len: "length bs \<le> il_shard_slot l"
    and run: "pwrite dev (shard_offset l slot i) bs = (r, dev')"
  shows "frame_set dev dev' (slot_bytes l slot i)"
    and "r = Inr () \<Longrightarrow> slots ! i = \<lparr>active_slot = slot, slot_size = length bs mod 2 ^ 32, slot_crc = c\<rparr> \<Longrightarrow>
      shard_on_disk X l (dev_data dev') ix slots i"
proof -
  let ?p = "shard_pos l slot i"
  note f = layout_facts [OF l] and b = shard_pos_bounds [OF l i, of slot]
  have sp: "write_span dev (length bs) \<le> il_shard_slot l"
    using len f(4) pad_len_mono [of "length bs" "il_shard_slot l"] by (simp add: write_span_def)
  have fits: "?p + write_span dev (length bs) \<le> length (dev_data dev)" using b(2) sp by simp
  have small: "length bs + 4095 < 2 ^ 64" using len f(10) by simp
  have run': "pwrite dev ?p bs = (r, dev')" using run shard_offset_pos [OF l i] by simp
  show "frame_set dev dev' (slot_bytes l slot i)"
    using frame_set_mono [OF pwrite_frame_set [OF fits small]] run' sp by auto
  show "shard_on_disk X l (dev_data dev') ix slots i"
    if "r = Inr ()" "slots ! i = \<lparr>active_slot = slot, slot_size = length bs mod 2 ^ 32, slot_crc = c\<rparr>"
  proof -
    have "slice (dev_data dev') ?p (?p + length bs) = bs"
      using pwrite_slice [OF fits small] run' that(1) by simp
    moreover have "length bs mod 2 ^ 32 = length bs" using len f(10) by simp
    moreover note shard_roundtrip [OF laws shard_bucket_wf [OF wf] ser]
    ultimately show ?thesis using that(2) by (auto simp: shard_on_disk_def Let_def)
  qed
qed

lemma flush_shards_spec:
  assumes laws: "shard_laws X" and "layout_ok (length (dev_data (in_io self))) l" and "slots_ok l (slots_of self)"
    and wf: "index_wf (in_index self)" and "set is \<subseteq> {..<256}" and "distinct is"
    and "flush_shards X l is bw self = (r, self')"
  shows "frame_set (in_io self) (in_io self') (flush_region l self (set is)) \<and>
    self' = self\<lparr>in_io := in_io self', in_superblock := (in_superblock self)\<lparr>sb_shard_slots := slots_of self'\<rparr>\<rparr> \<and>
    slots_ok l (slots_of self') \<and>
    (\<forall>i < 256. i \<notin> set is \<or> \<not> in_shard_dirty self ! i \<longrightarrow> slots_of self' ! i = slots_of self ! i) \<and>
    (is_ok r \<longrightarrow> (\<forall>i\<in>set is. in_shard_dirty self ! i \<longrightarrow>
       active_slot (slots_of self' ! i) = 1 - active_slot (slots_of self ! i) \<and>
       shard_on_disk X l (dev_data (in_io self')) (in_index self) (slots_of self') i))"
  using assms(2-)
proof (induction "is" arbitrary: self bw)
  case Nil
  then show ?case by (simp add: flush_region_def)
next
  case (Cons i "is")
  have i: "i < 256" "i \<notin> set is" using Cons.prems(4,5) by auto
  note l = Cons.prems(1) and so = Cons.prems(2)
  show ?case
  proof (cases "in_shard_dirty self ! i")
    case False
    then show ?thesis
      using Cons.IH [OF l so Cons.prems(3), of bw] Cons.prems(4-6) by (simp add: flush_region_Cons)
  next
    case True
    define slot where "slot = 1 - active_slot (slots_of self ! i)"
    have old: "active_slot (slots_of self ! i) \<le> 1" "length (slots_of self) = 256"
      using so i by (auto simp: slots_ok_def NUM_SHARDS_def)
    have ns: "new_slot_of (active_slot (slots_of self ! i)) = slot" using old by (simp add: slot_def new_slot_of_le)
    show ?thesis
    proof (cases "\<exists>e. flush_shards X l (i # is) bw self = (Inl e, self)")
      case True
      then have "r \<noteq> Inr x" "self' = self" for x using Cons.prems(6) by auto
      then show ?thesis using so by (cases r) auto
    next
      case False
      then obtain bs c where ser: "shard_to_bytes X (shard_bucket X (in_index self) i) = Inr (bs, c)"
        and len: "length bs \<le> il_shard_slot l"
        using \<open>in_shard_dirty self ! i\<close>
        by (cases "shard_to_bytes X (shard_bucket X (in_index self) i)") (auto split: if_splits)
      obtain rw dev where pw: "pwrite (in_io self) (shard_offset l slot i) bs = (rw, dev)" by fastforce
      define meta where "meta = \<lparr>active_slot = slot, slot_size = length bs mod 2 ^ 32, slot_crc = c\<rparr>"
      define self1 where "self1 = self\<lparr>in_io := dev,
        in_superblock := (in_superblock self)\<lparr>sb_shard_slots := (slots_of self)[i := meta]\<rparr>\<rparr>"
      have run: "flush_shards X l (i # is) bw self = (case rw of Inl e \<Rightarrow> (Inl e, self\<lparr>in_io := dev\<rparr>)
          | Inr _ \<Rightarrow> flush_shards X l is (uadd bw (length bs)) self1)"
        using True ser len pw ns by (simp add: Let_def self1_def meta_def split: sum.splits)
      have sl: "slot \<le> 1" by (simp add: slot_def)
      note fo = flush_one [OF laws l i(1) sl ser Cons.prems(3) len pw]
      have reg: "flush_region l self (set (i # is)) = slot_bytes l slot i \<union> flush_region l self (set is)"
        using True by (simp add: flush_region_Cons slot_def)
      show ?thesis
      proof (cases rw)
        case (Inl e)
        then have "self' = self\<lparr>in_io := dev\<rparr>" "\<not> is_ok r" using Cons.prems(6) run by auto
        moreover have "frame_set (in_io self) dev (flush_region l self (set (i # is)))"
          unfolding reg by (rule frame_set_mono [OF fo(1)]) blast
        ultimately show ?thesis using so by simp
      next
        case (Inr u)
        have s1: "in_io self1 = dev" "slots_of self1 = (slots_of self)[i := meta]" "in_index self1 = in_index self"
          "in_shard_dirty self1 = in_shard_dirty self" by (simp_all add: self1_def)
        have l1: "layout_ok (length (dev_data (in_io self1))) l" using l frame_set_length [OF fo(1)] by (simp add: s1)
        have "length bs mod 2 ^ 32 \<le> il_shard_slot l" using len by (meson le_trans mod_less_eq_dividend)
        then have so1: "slots_ok l (slots_of self1)"
          using so sl by (auto simp: slots_ok_def s1 meta_def dest!: set_update_subset_insert [THEN subsetD])
        have r1: "flush_region l self1 (set is) = flush_region l self (set is)"
        proof -
          have "slots_of self1 ! j = slots_of self ! j" if "j \<in> set is" for j
            using that i(2) by (metis nth_list_update_neq s1(2))
          then show ?thesis unfolding flush_region_def s1(4) by (intro SUP_cong) auto
        qed
        have IH: "frame_set dev (in_io self') (flush_region l self (set is)) \<and>
          self' = self1\<lparr>in_io := in_io self', in_superblock := (in_superblock self1)\<lparr>sb_shard_slots := slots_of self'\<rparr>\<rparr> \<and>
          slots_ok l (slots_of self') \<and>
          (\<forall>j < 256. j \<notin> set is \<or> \<not> in_shard_dirty self ! j \<longrightarrow> slots_of self' ! j = slots_of self1 ! j) \<and>
          (is_ok r \<longrightarrow> (\<forall>j\<in>set is. in_shard_dirty self ! j \<longrightarrow>
             active_slot (slots_of self' ! j) = 1 - active_slot (slots_of self1 ! j) \<and>
             shard_on_disk X l (dev_data (in_io self')) (in_index self) (slots_of self') j))"
          using Cons.IH [OF l1 so1, of "uadd bw (length bs)"] Cons.prems(3-6) run Inr by (simp add: s1 r1)
        have dis: "slot_bytes l slot i \<inter> flush_region l self (set is) = {}"
        proof -
          have "slot_bytes l slot i \<inter> slot_bytes l (1 - active_slot (slots_of self ! j)) j = {}" if "j \<in> set is" for j
            using that i Cons.prems(4) sl by (intro slot_bytes_disjoint [OF l]) auto
          then show ?thesis unfolding flush_region_def by blast
        qed
        have si: "slots_of self' ! i = meta" using IH i old by (auto simp: s1)
        have m1: "slots_of self1 ! i = meta" using old i by (simp add: s1)
        have "shard_on_disk X l (dev_data (in_io self')) (in_index self) (slots_of self') i =
            shard_on_disk X l (dev_data dev) (in_index self) (slots_of self1) i"
        proof (rule shard_on_disk_cong)
          show "slice (dev_data (in_io self')) (shard_pos l slot i) (shard_pos l slot i + il_shard_slot l) =
              slice (dev_data dev) (shard_pos l slot i) (shard_pos l slot i + il_shard_slot l)"
            using IH dis by (intro frame_set_slice [of dev]) blast+
          show "shard_pos l slot i = shard_pos l (active_slot (slots_of self1 ! i)) i" by (simp add: m1 meta_def)
          show "slot_size (slots_of self1 ! i) \<le> il_shard_slot l"
            using \<open>length bs mod 2 ^ 32 \<le> il_shard_slot l\<close> by (simp add: m1 meta_def)
        qed (simp_all add: si m1 shard_equiv_def)
        then have oi: "shard_on_disk X l (dev_data (in_io self')) (in_index self) (slots_of self') i"
          using fo(2) [of "slots_of self1"] Inr m1 by (simp add: meta_def)
        have "frame_set (in_io self) (in_io self') (flush_region l self (set (i # is)))"
          unfolding reg using IH fo(1) by (blast intro: frame_set_trans)
        moreover have "self' = self\<lparr>in_io := in_io self', in_superblock := (in_superblock self)\<lparr>sb_shard_slots := slots_of self'\<rparr>\<rparr>"
          using IH by (simp add: self1_def)
        moreover have "active_slot (slots_of self' ! i) = 1 - active_slot (slots_of self ! i)"
          using si by (simp add: meta_def slot_def)
        moreover have nl: "slots_of self1 ! j = slots_of self ! j" if "j \<noteq> i" for j
          using that by (simp only: s1(2) nth_list_update_neq [OF that [symmetric]])
        have "\<forall>j < 256. j \<notin> set (i # is) \<or> \<not> in_shard_dirty self ! j \<longrightarrow> slots_of self' ! j = slots_of self ! j"
          using IH nl True by (metis list.set_intros(1,2))
        moreover have "is_ok r \<longrightarrow> (\<forall>j\<in>set is. in_shard_dirty self ! j \<longrightarrow>
            active_slot (slots_of self' ! j) = 1 - active_slot (slots_of self ! j) \<and>
            shard_on_disk X l (dev_data (in_io self')) (in_index self) (slots_of self') j)"
          using IH nl i(2) by metis
        ultimately show ?thesis using IH oi by auto
      qed
    qed
  qed
qed

section \<open>The commit\<close>

lemma sync_fail_image: "dev_sync dev = (Inl e, dev') \<Longrightarrow> crash_image dev' img = crash_image dev img"
proof -
  assume "dev_sync dev = (Inl e, dev')"
  then have "dev_data dev' = dev_data dev" "dev_stable dev' = dev_stable dev" "dev_unsynced dev' = dev_unsynced dev"
    by (auto simp: dev_sync_def split: if_splits)
  then show ?thesis by (simp only: crash_image_def)
qed

lemma torn_refl: "torn old new old" if "length new = length old"
  using that by (simp add: torn_def)

text \<open>One block written to a device that is quiet everywhere, then synced.\<close>

lemma write_sync_image:
  assumes q: "\<And>i. byte_quiet dev i" and len: "length new = 4096" and fits: "off + 4096 \<le> length (dev_data dev)"
    and pw: "pwrite dev off new = (r1, d1)" and img: "crash_image d1 img"
  shows "length img = length (dev_data dev)" and "torn (slice (dev_data dev) off (off + 4096)) new (slice img off (off + 4096))"
    and "b \<le> off \<or> off + 4096 \<le> a \<Longrightarrow> slice img a b = slice (dev_data dev) a b"
proof -
  have small: "length new + 4095 < 2 ^ 64" and al: "4096 dvd length new" using len by simp_all
  have fr: "frame_set dev d1 {off..<off + 4096}"
    using pwrite_frame_set [of off dev new] pw len fits small by simp
  show "length img = length (dev_data dev)"
    using img frame_set_length [OF fr] by (simp add: crash_image_def)
  show "torn (slice (dev_data dev) off (off + 4096)) new (slice img off (off + 4096))"
    using pwrite_torn [of off new dev img] len fits small al q img pw by simp
  show "slice img a b = slice (dev_data dev) a b" if ab: "b \<le> off \<or> off + 4096 \<le> a"
  proof -
    have "slice img a b = slice (dev_data d1) a b"
      using img by (rule crash_quiet_slice)
        (use fr q ab frame_set_length [OF fr] in \<open>auto intro!: frame_set_quiet [OF fr]\<close>)
    also have "\<dots> = slice (dev_data dev) a b" using ab by (intro frame_set_slice [OF fr]) auto
    finally show ?thesis .
  qed
qed

text \<open>
  A crash during the commit: everything behind the superblocks is as before; either the primary
  copy is torn and the backup is old, or the primary is new and the backup is torn.
\<close>

lemma commit_image:
  assumes q: "\<And>i. byte_quiet dev i" and len: "length new = 4096" and fits: "8192 \<le> length (dev_data dev)"
    and run: "commit_superblock new dev = (r, dev')" and img: "crash_image dev' img"
  defines "old0 \<equiv> slice (dev_data dev) 0 4096" and "old1 \<equiv> slice (dev_data dev) 4096 8192"
  shows "length img = length (dev_data dev) \<and> (\<forall>a b. 8192 \<le> a \<longrightarrow> slice img a b = slice (dev_data dev) a b) \<and>
    (torn old0 new (slice img 0 4096) \<and> slice img 4096 8192 = old1 \<or>
     slice img 0 4096 = new \<and> torn old1 new (slice img 4096 8192)) \<and>
    (r = Inr () \<longrightarrow> (\<forall>i. byte_quiet dev' i) \<and> slice img 0 4096 = new \<and> slice img 4096 8192 = new)"
proof -
  obtain r1 d1 where pw1: "pwrite dev 0 new = (r1, d1)" by fastforce
  have small: "length new + 4095 < 2 ^ 64" and al: "4096 dvd length new" using len by simp_all
  note w1 = write_sync_image [OF q len _ pw1]
  have phase1: ?thesis if "crash_image d1 img" "r \<noteq> Inr ()"
    using w1 [OF _ that(1)] fits that(2) by (simp add: old0_def old1_def)
  show ?thesis
  proof (cases r1)
    case (Inl e)
    then show ?thesis using run pw1 phase1 img by (auto simp: commit_superblock_def)
  next
    case (Inr u)
    obtain r2 d2 where sy: "dev_sync d1 = (r2, d2)" by fastforce
    show ?thesis
    proof (cases r2)
      case (Inl e)
      then have "r = Inl e" "dev' = d2" using run pw1 \<open>r1 = Inr u\<close> sy by (auto simp: commit_superblock_def)
      then show ?thesis using phase1 sync_fail_image [of d1 e d2 img] sy Inl img by simp
    next
      case (Inr v)
      note s2 = dev_sync_frame_set [OF sy]
      have q2: "byte_quiet d2 i" for i using s2(3) Inr by simp
      have d1: "dev_data d1 = write_at (dev_data dev) 0 new"
        using pwrite_Inr [of 0 dev new] pw1 \<open>r1 = Inr u\<close> len fits small by simp
      have l2: "length (dev_data d2) = length (dev_data dev)" using s2(2) d1 len fits by (simp add: length_write_at)
      have new0: "slice (dev_data d2) 0 4096 = new"
        using slice_write_at_same [of 0 new "dev_data dev"] len fits by (simp add: s2(2) d1)
      have rest: "slice (dev_data d2) a b = slice (dev_data dev) a b" if "4096 \<le> a" for a b
        using that len fits by (simp add: s2(2) d1 slice_write_at_disjoint)
      obtain r3 d3 where pw3: "pwrite d2 4096 new = (r3, d3)" by fastforce
      have fits2: "4096 + 4096 \<le> length (dev_data d2)" using l2 fits by simp
      note w3 = write_sync_image [OF q2 len fits2 pw3]
      have phase3: "length img = length (dev_data dev) \<and> (\<forall>a b. 8192 \<le> a \<longrightarrow> slice img a b = slice (dev_data dev) a b) \<and>
          slice img 0 4096 = new \<and> torn old1 new (slice img 4096 8192)" if "crash_image d3 img"
        using w3 [OF that] l2 new0 rest by (simp add: old1_def)
      show ?thesis
      proof (cases r3)
        case (Inl e)
        then have "r = Inl e" "dev' = d3"
          using run pw1 \<open>r1 = Inr u\<close> sy \<open>r2 = Inr v\<close> pw3 by (auto simp: commit_superblock_def SUPERBLOCK_SIZE_def)
        then show ?thesis using phase3 img by simp
      next
        case (Inr w)
        then have sy4: "dev_sync d3 = (r, dev')"
          using run pw1 \<open>r1 = Inr u\<close> sy \<open>r2 = Inr v\<close> pw3 by (auto simp: commit_superblock_def SUPERBLOCK_SIZE_def)
        show ?thesis
        proof (cases r)
          case (Inl e)
          then show ?thesis using phase3 sync_fail_image [of d3 e dev' img] sy4 img by simp
        next
          case ok: (Inr x)
          note s4 = dev_sync_frame_set [OF sy4]
          have q4: "byte_quiet dev' i" for i using s4(3) ok by simp
          have d3: "dev_data d3 = write_at (dev_data d2) 4096 new"
            using pwrite_Inr [of 4096 d2 new] pw3 Inr len fits2 small by simp
          have im: "slice img a b = slice (dev_data d3) a b" for a b
            using crash_quiet_slice [OF img] q4 s4(2) by metis
          have "length img = length (dev_data dev)"
            using img s4(2) d3 l2 len fits2 by (simp add: crash_image_def length_write_at)
          moreover have "slice img 4096 8192 = new"
            using slice_write_at_same [of 4096 new "dev_data d2"] len fits2 by (simp add: im d3)
          moreover have "slice img 0 4096 = new"
            using new0 len fits2 by (simp add: im d3 slice_write_at_disjoint)
          moreover have "slice img a b = slice (dev_data dev) a b" if "8192 \<le> a" for a b
            using that rest [of a b] len fits2 by (simp add: im d3 slice_write_at_disjoint)
          moreover have "torn old1 new new" using len fits by (simp add: torn_def old1_def length_slice)
          ultimately show ?thesis using q4 by simp
        qed
      qed
    qed
  qed
qed

section \<open>Crash safety\<close>

text \<open>
  The state a flush starts from: the index \<open>ix0\<close> of the last commit is on the device with the slots
  of the in-memory superblock, both superblock copies are of the current transaction, nothing is
  pending outside the data area, and a shard that is not dirty has not changed.
\<close>

definition flush_ready :: "'x store_env_scheme \<Rightarrow> index_layout \<Rightarrow> device_index \<Rightarrow> inner \<Rightarrow> bool" where
  "flush_ready X l ix0 self \<longleftrightarrow>
     layout_ok (length (dev_data (in_io self))) l \<and> index_wf (in_index self) \<and>
     length (in_shard_dirty self) = NUM_SHARDS \<and>
     (\<forall>i < length (dev_data (in_io self)). i < DATA_START \<or> il_region_a l \<le> i \<longrightarrow> byte_quiet (in_io self) i) \<and>
     index_on_disk X l (dev_data (in_io self)) ix0 (slots_of self) \<and>
     (\<forall>i < NUM_SHARDS. \<not> in_shard_dirty self ! i \<longrightarrow>
        shard_equiv (shard_bucket X ix0 i) (shard_bucket X (in_index self) i)) \<and>
     (\<forall>off\<in>{0, 4096}. \<exists>c. sb_copy X (dev_data (in_io self)) off = Inr ((in_superblock self)\<lparr>sb_superblock_checksum := c\<rparr>)) \<and>
     sb_valid (in_superblock self) \<and> sb_index_slot_capacity (in_superblock self) = il_capacity l"

text \<open>
  A copy of the superblock in the image that mixes the bytes it had on the device \<open>d\<close> with the
  bytes \<open>new\<close> of the commit, is neither of them, and still passes the checksum.
\<close>

definition undetected_tear :: "'x store_env_scheme \<Rightarrow> byte list \<Rightarrow> byte list \<Rightarrow> byte list \<Rightarrow> bool" where
  "undetected_tear X d new img \<longleftrightarrow>
     (\<exists>off\<in>{0, 4096}. torn (slice d off (off + 4096)) new (slice img off (off + 4096)) \<and>
        slice img off (off + 4096) \<noteq> slice d off (off + 4096) \<and> slice img off (off + 4096) \<noteq> new \<and>
        is_ok (sb_copy X img off))"

lemma index_on_disk_image:
  assumes disk: "index_on_disk X l d ix slots"
    and same: "\<And>i. i < 256 \<Longrightarrow> slice img (shard_pos l (active_slot (slots ! i)) i) (shard_pos l (active_slot (slots ! i)) i + il_shard_slot l) =
      slice d (shard_pos l (active_slot (slots ! i)) i) (shard_pos l (active_slot (slots ! i)) i + il_shard_slot l)"
  shows "index_on_disk X l img ix slots"
proof -
  have "shard_on_disk X l img ix slots i" if i: "i < NUM_SHARDS" for i
  proof -
    have "slot_size (slots ! i) \<le> il_shard_slot l"
      using disk i by (auto simp: index_on_disk_def slots_ok_def)
    then have "shard_on_disk X l img ix slots i = shard_on_disk X l d ix slots i"
      using same [of i] i by (intro shard_on_disk_cong) (auto simp: NUM_SHARDS_def shard_equiv_def)
    then show ?thesis using disk i by (simp add: index_on_disk_def)
  qed
  then show ?thesis using disk by (simp add: index_on_disk_def)
qed

lemma old_slots_safe:
  assumes l: "layout_ok N l" and so: "slots_ok l (slots_of self)" and i: "i < 256"
  shows "slot_bytes l (active_slot (slots_of self ! i)) i \<inter> flush_region l self {..<256} = {}"
proof -
  have le: "active_slot (slots_of self ! j) \<le> 1" if "j < 256" for j
    using so that by (auto simp: slots_ok_def NUM_SHARDS_def)
  have "slot_bytes l (active_slot (slots_of self ! i)) i \<inter> slot_bytes l (1 - active_slot (slots_of self ! j)) j = {}"
    if "j < 256" for j
  proof (rule slot_bytes_disjoint [OF l i that le [OF i]])
    show "active_slot (slots_of self ! i) \<noteq> 1 - active_slot (slots_of self ! j) \<or> i \<noteq> j"
      using le [OF i] by (metis diff_diff_cancel diff_self_eq_0 le_0_eq le_SucE numeral_1_eq_Suc_0 numeral_One zero_neq_one diff_zero One_nat_def)
  qed simp
  then show ?thesis unfolding flush_region_def by blast
qed

lemma flush_region_bounds:
  assumes "layout_ok N l" shows "flush_region l self {..<256} \<subseteq> {il_region_a l..<N}"
proof
  fix x
  assume "x \<in> flush_region l self {..<256}"
  then obtain i where "i < 256" "x \<in> slot_bytes l (1 - active_slot (slots_of self ! i)) i"
    unfolding flush_region_def by blast
  then show "x \<in> {il_region_a l..<N}"
    using shard_pos_bounds(1,2) [OF assms, of i "1 - active_slot (slots_of self ! i)"] by simp
qed

text \<open>What a crash finds before the commit.\<close>

lemma old_image:
  assumes laws: "shard_laws X" and ready: "flush_ready X l ix0 self"
    and fr: "frame_set (in_io self) dev (flush_region l self {..<256})" and img: "crash_image dev img"
  shows "recovers X img ix0"
proof -
  let ?d = "dev_data (in_io self)"
  have l: "layout_ok (length ?d) l" and disk: "index_on_disk X l ?d ix0 (slots_of self)"
    and q: "\<And>i. i < length ?d \<Longrightarrow> i < DATA_START \<or> il_region_a l \<le> i \<Longrightarrow> byte_quiet (in_io self) i"
    using ready by (auto simp: flush_ready_def)
  have so: "slots_ok l (slots_of self)" using disk by (simp add: index_on_disk_def)
  note f = layout_facts [OF l]
  have same: "slice img a b = slice ?d a b"
    if "{a..<b} \<inter> flush_region l self {..<256} = {}" "b \<le> DATA_START \<or> il_region_a l \<le> a" for a b
  proof -
    have "slice img a b = slice (dev_data dev) a b"
      using img by (rule crash_quiet_slice)
        (use q that frame_set_length [OF fr] in \<open>auto intro!: frame_set_quiet [OF fr] simp: disjoint_iff\<close>)
    also have "\<dots> = slice ?d a b" using that(1) by (rule frame_set_slice [OF fr])
    finally show ?thesis .
  qed
  have hdr: "slice img off (off + 4096) = slice ?d off (off + 4096)" if "off \<le> 4096" for off
    using that flush_region_bounds [OF l, of self] f(7) by (intro same) (auto simp: layout_consts)
  obtain sb where sb: "sb_copy X ?d 0 = Inr sb" "sb_shard_slots sb = slots_of self" "sb_index_slot_capacity sb = il_capacity l"
    "sb_txn_id sb = sb_txn_id (in_superblock self)" using ready by (auto simp: flush_ready_def)
  obtain sb1 where sb1: "sb_copy X ?d 4096 = Inr sb1" "sb_txn_id sb1 = sb_txn_id (in_superblock self)"
    using ready by (auto simp: flush_ready_def)
  have "select_superblock (sb_copy X img 0) (sb_copy X img 4096) = Inr sb"
    using sb sb1 hdr [of 0] hdr [of 4096] by (simp add: sb_copy_def select_superblock_def)
  moreover have "index_on_disk X l img ix0 (sb_shard_slots sb)"
    unfolding sb(2) using disk
  proof (rule index_on_disk_image)
    fix i :: nat
    assume i: "i < 256"
    show "slice img (shard_pos l (active_slot (slots_of self ! i)) i) (shard_pos l (active_slot (slots_of self ! i)) i + il_shard_slot l) =
        slice ?d (shard_pos l (active_slot (slots_of self ! i)) i) (shard_pos l (active_slot (slots_of self ! i)) i + il_shard_slot l)"
      using old_slots_safe [OF l so i] shard_pos_bounds(1) [OF l i] by (intro same) auto
  qed
  moreover have "length img = length ?d" using img frame_set_length [OF fr] by (simp add: crash_image_def)
  ultimately show ?thesis using laws l sb(3) by (intro recoversI [where l = l and sb = sb]) simp_all
qed

text \<open>What a crash finds once the commit has begun, from a device on which both sets of slots are valid.\<close>

lemma commit_recovers:
  assumes laws: "sb_laws X" "shard_laws X" and q: "\<And>i. byte_quiet dev i" and l: "layout_ok (length (dev_data dev)) l"
    and old: "index_on_disk X l (dev_data dev) ix0 slots0"
      "\<forall>off\<in>{0, 4096}. \<exists>sb. sb_copy X (dev_data dev) off = Inr sb \<and> sb_txn_id sb = t \<and> sb_shard_slots sb = slots0 \<and>
         sb_index_slot_capacity sb = il_capacity l"
    and new: "index_on_disk X l (dev_data dev) ix (sb_shard_slots sb)" "sb_to_bytes X sb = Inr new" "sb_valid sb"
      "sb_txn_id sb = t + 1" "sb_index_slot_capacity sb = il_capacity l"
    and run: "commit_superblock new dev = (r, dev')" and img: "crash_image dev' img"
  shows "r = Inr () \<Longrightarrow> recovers X img ix"
    and "recovers X img ix0 \<or> recovers X img ix \<or> undetected_tear X (dev_data dev) new img" (is ?outcome)
proof -
  note rt = sb_roundtrip [OF laws(1) new(2,3)]
  obtain c where c: "sb_from_bytes X new = Inr (sb\<lparr>sb_superblock_checksum := c\<rparr>)" using rt(1) by blast
  define nsb where "nsb = sb\<lparr>sb_superblock_checksum := c\<rparr>"
  have fits: "8192 \<le> length (dev_data dev)" using layout_facts(6,7) [OF l] by (simp add: layout_consts)
  note ci = commit_image [OF q rt(2) fits run img]
  have li: "layout_ok (length img) l" using ci l by simp
  have disk: "index_on_disk X l img ix' sl" if "index_on_disk X l (dev_data dev) ix' sl" for ix' sl
    using that
  proof (rule index_on_disk_image)
    fix i :: nat
    assume "i < 256"
    then have "8192 \<le> shard_pos l (active_slot (sl ! i)) i"
      using shard_pos_bounds(1) [OF l, of i "active_slot (sl ! i)"] layout_facts(7) [OF l] by (simp add: layout_consts)
    then show "slice img (shard_pos l (active_slot (sl ! i)) i) (shard_pos l (active_slot (sl ! i)) i + il_shard_slot l) =
        slice (dev_data dev) (shard_pos l (active_slot (sl ! i)) i) (shard_pos l (active_slot (sl ! i)) i + il_shard_slot l)"
      using ci by blast
  qed
  have isold: "recovers X img ix0" if "select_superblock (sb_copy X img 0) (sb_copy X img 4096) = Inr s"
    "sb_shard_slots s = slots0" "sb_index_slot_capacity s = il_capacity l" for s
    using recoversI [OF laws(2) li that(1,3)] disk [OF old(1)] that(2) by simp
  have isnew: "recovers X img ix" if "select_superblock (sb_copy X img 0) (sb_copy X img 4096) = Inr nsb"
    using recoversI [OF laws(2) li that] disk [OF new(1)] new(5) by (simp add: nsb_def)
  obtain s0 where s0: "sb_copy X (dev_data dev) 0 = Inr s0" "sb_txn_id s0 = t" "sb_shard_slots s0 = slots0"
      "sb_index_slot_capacity s0 = il_capacity l" using old(2) by auto
  obtain s1 where s1: "sb_copy X (dev_data dev) 4096 = Inr s1" "sb_txn_id s1 = t" "sb_shard_slots s1 = slots0"
      "sb_index_slot_capacity s1 = il_capacity l" using old(2) by auto
  have nt: "sb_txn_id nsb = t + 1" using new(4) by (simp add: nsb_def)
  have cn: "slice img off (off + 4096) = new \<Longrightarrow> sb_copy X img off = Inr nsb" for off
    using c by (simp add: sb_copy_def nsb_def)
  have co: "slice img off (off + 4096) = slice (dev_data dev) off (off + 4096) \<Longrightarrow> sb_copy X img off = sb_copy X (dev_data dev) off" for off
    by (simp add: sb_copy_def)
  have tear: "torn (slice (dev_data dev) off (off + 4096)) new (slice img off (off + 4096)) \<Longrightarrow> off \<in> {0, 4096} \<Longrightarrow>
      undetected_tear X (dev_data dev) new img \<or> \<not> is_ok (sb_copy X img off) \<or>
      slice img off (off + 4096) = slice (dev_data dev) off (off + 4096) \<or> slice img off (off + 4096) = new" for off
    unfolding undetected_tear_def by blast
  show "recovers X img ix" if "r = Inr ()"
    using ci that cn [of 0] cn [of 4096] by (intro isnew) (simp add: select_superblock_def)
  have primary_torn: ?outcome if pt: "torn (slice (dev_data dev) 0 4096) new (slice img 0 4096)"
      "slice img 4096 8192 = slice (dev_data dev) 4096 8192"
  proof -
    have b: "sb_copy X img 4096 = Inr s1" using co [of 4096] pt(2) s1(1) by simp
    consider "undetected_tear X (dev_data dev) new img" | e where "sb_copy X img 0 = Inl e"
      | "sb_copy X img 0 = Inr s0" | "sb_copy X img 0 = Inr nsb"
      using tear [of 0] pt(1) co [of 0] cn [of 0] s0(1) by (cases "sb_copy X img 0") auto
    then show ?thesis
    proof cases
      case 2
      then show ?thesis using isold [of s1] b s1 by (simp add: select_superblock_def)
    next
      case 3
      then show ?thesis using isold [of s0] b s0 s1 by (simp add: select_superblock_def)
    next
      case 4
      then show ?thesis using isnew b nt s1 by (simp add: select_superblock_def)
    qed simp
  qed
  have backup_torn: ?outcome if bt: "slice img 0 4096 = new"
      "torn (slice (dev_data dev) 4096 8192) new (slice img 4096 8192)"
  proof -
    have a: "sb_copy X img 0 = Inr nsb" using cn [of 0] bt(1) by simp
    consider "undetected_tear X (dev_data dev) new img" | e where "sb_copy X img 4096 = Inl e"
      | "sb_copy X img 4096 = Inr s1" | "sb_copy X img 4096 = Inr nsb"
      using tear [of 4096] bt(2) co [of 4096] cn [of 4096] s1(1) by (cases "sb_copy X img 4096") auto
    then show ?thesis using isnew a nt s1 by cases (simp_all add: select_superblock_def)
  qed
  show ?outcome using ci primary_torn backup_torn by blast
qed

text \<open>The device between the loop over the shards and the commit: both indexes are there.\<close>

lemma shards_written:
  assumes laws: "shard_laws X" and ready: "flush_ready X l ix0 self"
    and run: "flush_shards X l [0..<NUM_SHARDS] 0 self = (r, self1)"
  shows "frame_set (in_io self) (in_io self1) (flush_region l self {..<256})"
    and "self1 = self\<lparr>in_io := in_io self1, in_superblock := (in_superblock self)\<lparr>sb_shard_slots := slots_of self1\<rparr>\<rparr>"
    and "length (slots_of self1) = NUM_SHARDS"
    and "off \<le> 4096 \<Longrightarrow> slice (dev_data (in_io self1)) off (off + 4096) = slice (dev_data (in_io self)) off (off + 4096)"
    and "index_on_disk X l (dev_data (in_io self1)) ix0 (slots_of self)"
    and "is_ok r \<Longrightarrow> index_on_disk X l (dev_data (in_io self1)) (in_index self) (slots_of self1)"
proof -
  let ?d = "dev_data (in_io self)" and ?d1 = "dev_data (in_io self1)"
  have l: "layout_ok (length ?d) l" and disk: "index_on_disk X l ?d ix0 (slots_of self)"
    and wf: "index_wf (in_index self)"
    and clean: "\<And>i. i < 256 \<Longrightarrow> \<not> in_shard_dirty self ! i \<Longrightarrow> shard_equiv (shard_bucket X ix0 i) (shard_bucket X (in_index self) i)"
    using ready by (auto simp: flush_ready_def NUM_SHARDS_def)
  have so: "slots_ok l (slots_of self)" using disk by (simp add: index_on_disk_def)
  have "set [0..<NUM_SHARDS] = {..<256}" by (auto simp: NUM_SHARDS_def)
  then have sp: "frame_set (in_io self) (in_io self1) (flush_region l self {..<256}) \<and>
    self1 = self\<lparr>in_io := in_io self1, in_superblock := (in_superblock self)\<lparr>sb_shard_slots := slots_of self1\<rparr>\<rparr> \<and>
    slots_ok l (slots_of self1) \<and>
    (\<forall>i < 256. i \<notin> {..<256} \<or> \<not> in_shard_dirty self ! i \<longrightarrow> slots_of self1 ! i = slots_of self ! i) \<and>
    (is_ok r \<longrightarrow> (\<forall>i\<in>{..<256}. in_shard_dirty self ! i \<longrightarrow>
       active_slot (slots_of self1 ! i) = 1 - active_slot (slots_of self ! i) \<and>
       shard_on_disk X l ?d1 (in_index self) (slots_of self1) i))"
    using flush_shards_spec [OF laws l so wf, of "[0..<NUM_SHARDS]" 0 r self1] run by simp
  show fr: "frame_set (in_io self) (in_io self1) (flush_region l self {..<256})" using sp by blast
  show "self1 = self\<lparr>in_io := in_io self1, in_superblock := (in_superblock self)\<lparr>sb_shard_slots := slots_of self1\<rparr>\<rparr>"
    using sp by blast
  show "length (slots_of self1) = NUM_SHARDS" using sp by (simp add: slots_ok_def)
  show "slice ?d1 off (off + 4096) = slice ?d off (off + 4096)" if "off \<le> 4096"
    using that flush_region_bounds [OF l, of self] layout_facts(7) [OF l]
    by (intro frame_set_slice [OF fr]) (auto simp: layout_consts)
  have same: "slice ?d1 (shard_pos l (active_slot (slots_of self ! i)) i) (shard_pos l (active_slot (slots_of self ! i)) i + il_shard_slot l) =
      slice ?d (shard_pos l (active_slot (slots_of self ! i)) i) (shard_pos l (active_slot (slots_of self ! i)) i + il_shard_slot l)"
    if "i < 256" for i
    using old_slots_safe [OF l so that] by (intro frame_set_slice [OF fr])
  show "index_on_disk X l ?d1 ix0 (slots_of self)" using disk same by (rule index_on_disk_image)
  show "index_on_disk X l ?d1 (in_index self) (slots_of self1)" if ok: "is_ok r"
  proof -
    have "shard_on_disk X l ?d1 (in_index self) (slots_of self1) i" if i: "i < 256" for i
    proof (cases "in_shard_dirty self ! i")
      case True
      then show ?thesis using sp ok i by blast
    next
      case False
      then have eq: "slots_of self1 ! i = slots_of self ! i" using sp i by blast
      have "slot_size (slots_of self ! i) \<le> il_shard_slot l" using so i by (auto simp: slots_ok_def NUM_SHARDS_def)
      then have "shard_on_disk X l ?d1 (in_index self) (slots_of self1) i = shard_on_disk X l ?d ix0 (slots_of self) i"
        using same [OF i] eq clean [OF i False] by (intro shard_on_disk_cong) (auto simp: shard_equiv_def)
      then show ?thesis using disk i by (simp add: index_on_disk_def NUM_SHARDS_def)
    qed
    then show ?thesis using sp by (simp add: index_on_disk_def NUM_SHARDS_def)
  qed
qed

lemma undetected_tear_cong:
  assumes "\<And>off. off \<le> 4096 \<Longrightarrow> slice d' off (off + 4096) = slice d off (off + 4096)"
  shows "undetected_tear X d' new img = undetected_tear X d new img"
  using assms [of 0] assms [of 4096] by (simp add: undetected_tear_def)

text \<open>
  The four ways a flush ends: before the sync, at the sync, at the serialization of the superblock,
  or with the commit.
\<close>

lemma flush_inner_cases:
  assumes "\<not> in_read_only self" and "flush_inner X l self = (r, self')"
  obtains (shards) e where "flush_shards X l [0..<NUM_SHARDS] 0 self = (Inl e, self')" "r = Inl e"
  | (sync) bw self1 e dev where "flush_shards X l [0..<NUM_SHARDS] 0 self = (Inr bw, self1)"
      "dev_sync (in_io self1) = (Inl e, dev)" "r = Inl e" "self' = self1\<lparr>in_io := dev\<rparr>"
  | (serialize) bw self1 dev e where "flush_shards X l [0..<NUM_SHARDS] 0 self = (Inr bw, self1)"
      "dev_sync (in_io self1) = (Inr (), dev)" "r = Inl e" "in_io self' = dev"
  | (commit) bw self1 dev sb new dev' where "flush_shards X l [0..<NUM_SHARDS] 0 self = (Inr bw, self1)"
      "dev_sync (in_io self1) = (Inr (), dev)"
      "sb = next_superblock (uadd (sb_txn_id (in_superblock self)) 1) (in_superblock self1)"
      "sb_to_bytes X sb = Inr new" "commit_superblock new dev = (r, dev')" "in_io self' = dev'"
      "in_superblock self' = sb" "in_index self' = in_index self1"
      "r = Inr () \<Longrightarrow> in_shard_dirty self' = map (\<lambda>_. False) (in_shard_dirty self1)"
  using assms by (auto simp: flush_inner_def Let_def split: prod.splits sum.splits)

lemma flush_commit:
  assumes laws: "sb_laws X" "shard_laws X" and ready: "flush_ready X l ix0 self"
    and txn: "sb_txn_id (in_superblock self) + 1 < 2 ^ 64"
    and run: "flush_shards X l [0..<NUM_SHARDS] 0 self = (Inr bw, self1)"
    and sync: "dev_sync (in_io self1) = (Inr (), dev)"
    and sb: "sb = next_superblock (uadd (sb_txn_id (in_superblock self)) 1) (in_superblock self1)"
    and ser: "sb_to_bytes X sb = Inr new" and commit: "commit_superblock new dev = (r, dev')" and img: "crash_image dev' img"
  shows "r = Inr () \<Longrightarrow> recovers X img (in_index self)"
    and "recovers X img ix0 \<or> recovers X img (in_index self) \<or> undetected_tear X (dev_data (in_io self)) new img"
    and "r = Inr () \<Longrightarrow> (\<forall>i. byte_quiet dev' i) \<and> index_on_disk X l (dev_data dev') (in_index self) (sb_shard_slots sb) \<and>
      length (dev_data dev') = length (dev_data (in_io self)) \<and>
      (\<forall>off\<in>{0, 4096}. \<exists>c. sb_copy X (dev_data dev') off = Inr (sb\<lparr>sb_superblock_checksum := c\<rparr>)) \<and>
      sb_valid sb \<and> sb_index_slot_capacity sb = il_capacity l"
proof -
  let ?d = "dev_data (in_io self)"
  have l: "layout_ok (length ?d) l" and cap: "sb_index_slot_capacity (in_superblock self) = il_capacity l"
    and v: "sb_valid (in_superblock self)"
    and copies: "\<forall>off\<in>{0, 4096}. \<exists>s. sb_copy X ?d off = Inr s \<and> sb_txn_id s = sb_txn_id (in_superblock self) \<and>
        sb_shard_slots s = slots_of self \<and> sb_index_slot_capacity s = il_capacity l"
    using ready by (fastforce simp: flush_ready_def)+
  note sw = shards_written [OF laws(2) ready run] and sy = dev_sync_frame_set [OF sync]
  have q: "byte_quiet dev i" for i using sy(3) by simp
  have ld: "length (dev_data dev) = length ?d" using frame_set_length [OF sw(1)] sy(2) by simp
  have l': "layout_ok (length (dev_data dev)) l" using l ld by simp
  have hdr: "off \<le> 4096 \<Longrightarrow> slice (dev_data dev) off (off + 4096) = slice ?d off (off + 4096)" for off
    using sw(4) sy(2) by simp
  have copies': "\<forall>off\<in>{0, 4096}. \<exists>s. sb_copy X (dev_data dev) off = Inr s \<and> sb_txn_id s = sb_txn_id (in_superblock self) \<and>
        sb_shard_slots s = slots_of self \<and> sb_index_slot_capacity s = il_capacity l"
    using copies hdr [of 0] hdr [of 4096] by (simp add: sb_copy_def)
  obtain sl where sl: "slots_of self1 = sl" by blast
  have s1: "in_superblock self1 = (in_superblock self)\<lparr>sb_shard_slots := sl\<rparr>"
    using arg_cong [OF sw(2), of in_superblock] unfolding sl by simp
  have sbf: "sb_shard_slots sb = slots_of self1" "sb_valid sb" "sb_txn_id sb = sb_txn_id (in_superblock self) + 1"
    "sb_index_slot_capacity sb = il_capacity l"
    using v txn cap sw(3) by (simp_all add: sb next_superblock_def s1 sb_valid_def uadd_def)
  have new: "index_on_disk X l (dev_data dev) (in_index self) (sb_shard_slots sb)" using sw(6) sy(2) by (simp add: sbf(1))
  have old: "index_on_disk X l (dev_data dev) ix0 (slots_of self)" using sw(5) sy(2) by simp
  note cr = commit_recovers [OF laws q l' old copies' new ser sbf(2,3,4) commit]
  show "r = Inr () \<Longrightarrow> recovers X img (in_index self)" using cr(1) [OF img] .
  show "recovers X img ix0 \<or> recovers X img (in_index self) \<or> undetected_tear X ?d new img"
    using cr(2) [OF img] undetected_tear_cong [OF hdr, of X new img] by simp
  show "(\<forall>i. byte_quiet dev' i) \<and> index_on_disk X l (dev_data dev') (in_index self) (sb_shard_slots sb) \<and>
      length (dev_data dev') = length ?d \<and>
      (\<forall>off\<in>{0, 4096}. \<exists>c. sb_copy X (dev_data dev') off = Inr (sb\<lparr>sb_superblock_checksum := c\<rparr>)) \<and>
      sb_valid sb \<and> sb_index_slot_capacity sb = il_capacity l" if ok: "r = Inr ()"
  proof -
    note rt = sb_roundtrip [OF laws(1) ser sbf(2)]
    have fits: "8192 \<le> length (dev_data dev)" using layout_facts(6,7) [OF l'] by (simp add: layout_consts)
    note ci = commit_image [OF q rt(2) fits commit]
    have q': "byte_quiet dev' i" for i using ci [OF img] ok by blast
    have im: "crash_image dev' (dev_data dev')" using q' by (simp add: crash_image_def byte_quiet_def)
    note c = ci [OF im]
    have "index_on_disk X l (dev_data dev') (in_index self) (sb_shard_slots sb)"
      using new
    proof (rule index_on_disk_image)
      fix i :: nat
      assume i: "i < 256"
      let ?p = "shard_pos l (active_slot (sb_shard_slots sb ! i)) i"
      have "8192 \<le> ?p"
        using shard_pos_bounds(1) [OF l' i, of "active_slot (sb_shard_slots sb ! i)"] layout_facts(7) [OF l'] by (simp add: layout_consts)
      then show "slice (dev_data dev') ?p (?p + il_shard_slot l) = slice (dev_data dev) ?p (?p + il_shard_slot l)"
        using c by blast
    qed
    moreover have "\<forall>off\<in>{0, 4096}. \<exists>c. sb_copy X (dev_data dev') off = Inr (sb\<lparr>sb_superblock_checksum := c\<rparr>)"
      using c ok rt(1) by (simp add: sb_copy_def)
    ultimately show ?thesis using q' c ld sbf by simp
  qed
qed

text \<open>A failed sync changes no byte and loses none.\<close>

lemma sync_fail_frame: "dev_sync dev = (r, dev') \<Longrightarrow> frame_set x dev W \<Longrightarrow> frame_set x dev' W"
  using dev_sync_frame_set(1) [of dev r dev'] frame_set_trans [of x dev W dev' "{}"] by simp

lemma flush_crash:
  assumes laws: "sb_laws X" "shard_laws X" and ready: "flush_ready X l ix0 self"
    and txn: "sb_txn_id (in_superblock self) + 1 < 2 ^ 64" and rw: "\<not> in_read_only self"
    and run: "flush_inner X l self = (r, self')" and img: "crash_image (in_io self') img"
  shows "recovers X img ix0 \<or> recovers X img (in_index self) \<or>
      (\<exists>new. sb_to_bytes X (in_superblock self') = Inr new \<and> undetected_tear X (dev_data (in_io self)) new img)"
    and "r = Inr () \<Longrightarrow> recovers X img (in_index self)"
    and "r = Inr () \<Longrightarrow> flush_ready X l (in_index self') self' \<and> in_index self' = in_index self \<and>
      sb_txn_id (in_superblock self') = sb_txn_id (in_superblock self) + 1"
proof -
  let ?outcome = "recovers X img ix0 \<or> recovers X img (in_index self) \<or>
      (\<exists>new. sb_to_bytes X (in_superblock self') = Inr new \<and> undetected_tear X (dev_data (in_io self)) new img)"
  let ?after = "flush_ready X l (in_index self') self' \<and> in_index self' = in_index self \<and>
      sb_txn_id (in_superblock self') = sb_txn_id (in_superblock self) + 1"
  have "?outcome \<and> (r = Inr () \<longrightarrow> recovers X img (in_index self) \<and> ?after)"
    using rw run
  proof (cases rule: flush_inner_cases)
    case (shards e)
    then show ?thesis using old_image [OF laws(2) ready shards_written(1) [OF laws(2) ready shards(1)] img] by simp
  next
    case (sync bw self1 e dev)
    then show ?thesis
      using old_image [OF laws(2) ready sync_fail_frame [OF sync(2) shards_written(1) [OF laws(2) ready sync(1)]], of img] img by simp
  next
    case (serialize bw self1 dev e)
    then show ?thesis
      using old_image [OF laws(2) ready sync_fail_frame [OF serialize(2) shards_written(1) [OF laws(2) ready serialize(1)]], of img] img
      by simp
  next
    case (commit bw self1 dev sb new dev')
    note fc = flush_commit [OF laws ready txn commit(1-5), of img]
    have im: "crash_image dev' img" using img commit(6) by simp
    have s1: "in_index self1 = in_index self" "in_shard_dirty self1 = in_shard_dirty self"
      "sb_txn_id sb = sb_txn_id (in_superblock self) + 1"
      using arg_cong [OF shards_written(2) [OF laws(2) ready commit(1)], of in_index]
        arg_cong [OF shards_written(2) [OF laws(2) ready commit(1)], of in_shard_dirty] txn
      by (simp_all add: commit(3) next_superblock_def uadd_def)
    have ?after if ok: "r = Inr ()"
    proof -
      have "layout_ok (length (dev_data (in_io self))) l" "index_wf (in_index self)" "length (in_shard_dirty self) = NUM_SHARDS"
        using ready by (auto simp: flush_ready_def)
      then show ?thesis
        using fc(3) [OF im ok] commit s1 ok by (auto simp: flush_ready_def shard_equiv_def)
    qed
    then show ?thesis using fc(1,2) [OF im] commit(4,7) by auto
  qed
  then show ?outcome and "r = Inr () \<Longrightarrow> recovers X img (in_index self)" and "r = Inr () \<Longrightarrow> ?after" by blast+
qed

end
