(* ===== verification/Recovery.thy ===== *)
theory Recovery
  imports Flush "HOL-Library.Multiset"
begin

text \<open>
  Opening a device: the integrity scan leaves a consistent index as it is, the free list rebuilt
  from the index is the complement of the stored extents, and what a successful flush wrote is what
  the next open finds.
\<close>

section \<open>Entries in the order of their offsets\<close>

lemma sorted_used_ok:
  assumes "sorted (map fst L)" and "distinct L" and "lo \<le> hi"
    and "\<forall>x\<in>set L. lo \<le> fst x \<and> 0 < snd x \<and> fst x + snd x \<le> hi"
    and "\<forall>x\<in>set L. \<forall>y\<in>set L. x \<noteq> y \<longrightarrow> ext_range x \<inter> ext_range y = {}"
  shows "used_ok lo hi L"
  using assms
proof (induction L arbitrary: lo)
  case Nil
  then show ?case by simp
next
  case (Cons x L)
  have "fst x + snd x \<le> fst y" if y: "y \<in> set L" for y
  proof (rule ccontr)
    assume "\<not> fst x + snd x \<le> fst y"
    moreover have "fst x \<le> fst y" "0 < snd y" using Cons.prems(1,4) y by auto
    ultimately have "fst y \<in> ext_range x \<inter> ext_range y" by (simp add: ext_range_def)
    then show False using Cons.prems(2,5) y by auto
  qed
  then have "used_ok (fst x + snd x) hi L" using Cons.prems by (intro Cons.IH) auto
  then show ?case using Cons.prems(4) by (cases x) simp
qed

definition entry_span :: "string \<times> extent_info \<Rightarrow> nat \<times> nat" where
  "entry_span ke = (ei_offset (snd ke), ei_padded_size (snd ke))"

lemma ext_range_span: "ext_range (entry_span ke) = e_range (snd ke)"
  by (simp add: ext_range_def entry_span_def)

text \<open>The entries of a consistent index: what the scans over the sorted entries rely on.\<close>

lemma entries_distinct:
  assumes wf: "hm_wf F" and inv: "files_inv de (hm_get F)"
  shows "\<forall>ke\<in>set F. entry_ok de (snd ke)"
    and "\<forall>x\<in>set F. \<forall>y\<in>set F. x \<noteq> y \<longrightarrow> ext_range (entry_span x) \<inter> ext_range (entry_span y) = {}"
    and "inj_on entry_span (set F)" and "distinct F"
proof -
  have get: "hm_get F (fst ke) = Some (snd ke)" if "ke \<in> set F" for ke
    using that hm_get_iff [OF wf, of "fst ke" "snd ke"] by simp
  show ok: "\<forall>ke\<in>set F. entry_ok de (snd ke)" using get inv unfolding files_inv_def by blast
  show dis: "\<forall>x\<in>set F. \<forall>y\<in>set F. x \<noteq> y \<longrightarrow> ext_range (entry_span x) \<inter> ext_range (entry_span y) = {}"
  proof (intro ballI impI)
    fix x y
    assume xy: "x \<in> set F" "y \<in> set F" "x \<noteq> y"
    have "fst x \<noteq> fst y" using get [OF xy(1)] get [OF xy(2)] xy(3) by (metis option.inject prod_eqI)
    then show "ext_range (entry_span x) \<inter> ext_range (entry_span y) = {}"
      using inv get [OF xy(1)] get [OF xy(2)] unfolding files_inv_def ext_range_span by blast
  qed
  show "inj_on entry_span (set F)"
  proof (rule inj_onI, rule ccontr)
    fix x y
    assume xy: "x \<in> set F" "y \<in> set F" "entry_span x = entry_span y" "x \<noteq> y"
    then have "ext_range (entry_span x) = {}" using dis by fastforce
    then show False using ok xy(1) by (auto simp: ext_range_span entry_ok_def area_unit_def)
  qed
  show "distinct F" using wf by (simp add: hm_wf_def distinct_map)
qed

lemma spans_used_ok:
  assumes wf: "hm_wf F" and inv: "files_inv de (hm_get F)" and de: "DATA_START \<le> de"
    and "sorted (map fst L)" and "mset L = mset (map entry_span F)"
  shows "used_ok DATA_START de L" and "used_aligned L" and "covered L = used (hm_get F)"
proof -
  note e = entries_distinct [OF wf inv]
  have st: "set L = entry_span ` set F" using assms(5) by (metis set_mset_mset set_map)
  have "distinct (map entry_span F)" using e(3,4) by (simp add: distinct_map)
  then have "distinct L" using assms(5) by (metis mset_eq_imp_distinct_iff)
  moreover have "\<forall>x\<in>set L. DATA_START \<le> fst x \<and> 0 < snd x \<and> fst x + snd x \<le> de"
  proof
    fix x
    assume "x \<in> set L"
    then obtain ke where ke: "ke \<in> set F" "x = entry_span ke" unfolding st by blast
    then have "entry_ok de (snd ke)" using e(1) by blast
    then show "DATA_START \<le> fst x \<and> 0 < snd x \<and> fst x + snd x \<le> de"
      unfolding ke(2) by (simp add: entry_span_def entry_ok_def area_unit_def)
  qed
  moreover have "\<forall>x\<in>set L. \<forall>y\<in>set L. x \<noteq> y \<longrightarrow> ext_range x \<inter> ext_range y = {}"
  proof (intro ballI impI)
    fix x y
    assume xy: "x \<in> set L" "y \<in> set L" "x \<noteq> y"
    then obtain a b where "a \<in> set F" "x = entry_span a" "b \<in> set F" "y = entry_span b" unfolding st by blast
    then show "ext_range x \<inter> ext_range y = {}" using e(2) xy(3) by metis
  qed
  ultimately show "used_ok DATA_START de L" using assms(4) de by (intro sorted_used_ok)
  show "used_aligned L"
    using e(1) by (auto simp: used_aligned_def st entry_span_def entry_ok_def area_unit_def)
  have "covered L = (\<Union>ke\<in>set F. e_range (snd ke))" by (simp add: covered_def st ext_range_span)
  also have "\<dots> = used (hm_get F)"
    by (rule set_eqI) (unfold used_mem hm_get_iff [OF wf], force)
  finally show "covered L = used (hm_get F)" .
qed

lemma entry_in_bounds:
  assumes "entry_ok de e" and "de < 2 ^ 64"
  shows "DATA_START \<le> ei_offset e" and "0 < ei_padded_size e"
    and "saturating_add (ei_offset e) (ei_padded_size e) \<le> de" and "\<not> out_of_bounds de e"
  using assms by (auto simp: entry_ok_def area_unit_def saturating_add_def out_of_bounds_def)

section \<open>The rebuilt free list\<close>

lemma used_extents_spans:
  assumes "hm_wf F" and "files_inv de (hm_get F)" and "de < 2 ^ 64"
  shows "used_extents F de = sort_key fst (map entry_span F)"
proof -
  have "filter (\<lambda>(_, e). ei_offset e \<ge> DATA_START \<and> ei_padded_size e > 0 \<and>
      saturating_add (ei_offset e) (ei_padded_size e) \<le> de) F = F"
    using entries_distinct(1) [OF assms(1,2)] entry_in_bounds [OF _ assms(3)] by (intro filter_True) fastforce
  then show ?thesis by (simp add: used_extents_def entry_span_def [abs_def] case_prod_unfold)
qed

lemma rebuild_allocator_inv:
  assumes "hm_wf (ix_files ix)" and "files_inv de (hm_get (ix_files ix))" and "de < 2 ^ 64" and "DATA_START \<le> de"
  shows "area_inv DATA_START de (rebuild_allocator ix de)"
    and "free_set (rebuild_allocator ix de) = {DATA_START..<de} - used (hm_get (ix_files ix))"
proof -
  let ?u = "sort_key fst (map entry_span (ix_files ix))"
  have u: "used_extents (ix_files ix) de = ?u" by (rule used_extents_spans [OF assms(1-3)])
  note s = spans_used_ok [OF assms(1,2,4), of ?u]
  have s: "used_ok DATA_START de ?u" "used_aligned ?u" "covered ?u = used (hm_get (ix_files ix))"
    using s by simp_all
  note g = gap_list_props [OF s(1) assms(3) _ s(2)]
  have ds: "4096 dvd DATA_START" by (simp add: layout_consts)
  have r: "rebuild_allocator ix de = \<lparr>free_list = gap_list DATA_START ?u de, alignment = BLOCK_ALIGNMENT\<rparr>"
    unfolding rebuild_allocator_def rebuild_free_list_def u Let_def snd_conv
    by (rule from_free_list_id [OF g(1) [OF ds]])
  show "area_inv DATA_START de (rebuild_allocator ix de)"
    using g(1,2) [OF ds] assms(3) by (simp add: r area_inv_def alloc_inv_def)
  show "free_set (rebuild_allocator ix de) = {DATA_START..<de} - used (hm_get (ix_files ix))"
    using g(3) [OF ds] s(3) by (simp add: r free_set_def)
qed

section \<open>The integrity scan\<close>

lemma overlap_windows_none:
  "used_ok lo hi (map snd T) \<Longrightarrow> hi < 2 ^ 64 \<Longrightarrow> overlap_windows T = []"
proof (induction T arbitrary: lo rule: overlap_windows.induct)
  case (1 k0 o0 p0 k1 o1 p1 rest)
  have "uadd o0 p0 = o0 + p0" using 1(2,3) by (simp add: uadd_def)
  moreover have "overlap_windows ((k1, o1, p1) # rest) = []" using 1 by (intro 1(1) [of "o0 + p0"]) auto
  ultimately show ?case using 1(2) by simp
qed auto

lemma overlap_keys_none:
  assumes wf: "hm_wf F" and inv: "files_inv de (hm_get F)" and "de < 2 ^ 64" and "DATA_START \<le> de"
  shows "overlap_keys F = []"
proof -
  let ?T = "sort_key (\<lambda>(_, off, _). off) (map (\<lambda>(k, info). (k, ei_offset info, ei_padded_size info)) F)"
  have "sorted (map fst (map snd ?T))"
    using sorted_sort_key [of "\<lambda>(_, off, _). off" "map (\<lambda>(k, info). (k, ei_offset info, ei_padded_size info)) F"]
    by (simp add: case_prod_unfold comp_def)
  moreover have "mset (map snd ?T) = mset (map entry_span F)"
    by (simp add: image_mset.compositionality comp_def case_prod_unfold entry_span_def [abs_def])
  ultimately have "used_ok DATA_START de (map snd ?T)"
    using spans_used_ok(1) [OF wf inv assms(4)] by blast
  then show ?thesis unfolding overlap_keys_def by (rule overlap_windows_none [OF _ assms(3)])
qed

lemma validate_entries_id:
  assumes "hm_wf (ix_files ix)" and "files_inv de (hm_get (ix_files ix))" and "de < 2 ^ 64" and "DATA_START \<le> de"
  shows "validate_entries de ix = (ix, [])"
proof -
  have "bad_keys de (ix_files ix) = []"
    using entries_distinct(1) [OF assms(1,2)] entry_in_bounds(4) [OF _ assms(3)]
    by (auto simp: bad_keys_def filter_empty_conv)
  then show ?thesis
    using overlap_keys_none [OF assms] by (simp add: validate_entries_def remove_keys_def)
qed

text \<open>An intact extent passes the block-0 check and the full check.\<close>

lemma enc_blocks_first:
  assumes "0 < n" and "n \<le> num_blocks (length w)"
  shows "take 4096 (enc_blocks X w 0 n) = enc_block X (block_data w 0)"
proof -
  have "enc_blocks X w 0 n = enc_blocks X w 0 1 @ enc_blocks X w 1 n"
    using assms by (intro enc_blocks_append [symmetric]) simp_all
  also have "enc_blocks X w 0 1 = enc_block X (block_data w 0)" by (simp add: enc_blocks_def)
  finally show ?thesis using length_block_data [of 0 w] assms by simp
qed

lemma obj_ok_not_stale:
  assumes obj: "obj_ok X cm (dev_data io) e p" and ok: "entry_ok de e" and room: "dev_room de io"
    and nf: "\<And>i n. \<not> dev_rfault io i n"
  shows "block0_stale X io (k, e) = None" and "full_stale X io (k, e) = None"
proof -
  let ?o = "ei_offset e" and ?n = "num_blocks (ei_size e)"
  obtain w where w: "length w = ei_size e" "w \<noteq> []" "ei_crc32c e = x_crc32c X w"
    "slice (dev_data io) ?o (?o + ?n * 4096) = encode_blocks X w"
    using obj by (auto simp: obj_ok_def)
  have n: "0 < ?n" using w by (simp add: num_blocks_pos flip: w(1))
  have e: "4096 dvd ?o" "?o + ?n * 4096 \<le> de" using ok by (auto simp: entry_ok_def area_unit_def)
  have r: "de \<le> length (dev_data io)" "length (dev_data io) + 4096 \<le> 2 ^ 64" using room by (auto simp: dev_room_def)
  have sp: "write_span io (m * 4096) = m * 4096" for m by (simp add: write_span_def pad_len_multiple)
  have pr: "pread io ?o (m * 4096) = Inr (slice (dev_data io) ?o (?o + m * 4096))" if "m \<le> ?n" for m
  proof (rule pread_ok)
    have "m * 4096 \<le> ?n * 4096" using that by simp
    then show "?o + write_span io (m * 4096) \<le> length (dev_data io)" "m * 4096 + 4095 < 2 ^ 64"
      unfolding sp using e r by linarith+
  qed (use e nf in auto)
  show "full_stale X io (k, e) = None"
  proof -
    have "padded_extent_size (ei_size e) = Inr (?n * 4096)" using e r by (simp add: padded_extent_size_Inr)
    moreover have "decode_blocks X (encode_blocks X w) (length w) = Inr w" by (rule decode_encode_blocks)
    ultimately show ?thesis using pr [of ?n] w by (simp add: full_stale_def)
  qed
  show "block0_stale X io (k, e) = None"
  proof -
    have "slice (dev_data io) ?o (?o + 4096) = take 4096 (slice (dev_data io) ?o (?o + ?n * 4096))"
      using n by (simp add: slice_def)
    also have "\<dots> = enc_block X (block_data w 0)"
      using enc_blocks_first [of ?n w X] n w by (simp add: encode_blocks_eq)
    finally have "pread io ?o 4096 = Inr (enc_block X (block_data w 0))" using pr [of 1] n by simp
    then show ?thesis by (simp add: block0_stale_def enc_block_def)
  qed
qed

lemma scan_stale_none:
  assumes wf: "hm_wf F" and inv: "files_inv de (hm_get F)" and room: "dev_room de io"
    and obj: "\<And>k e. hm_get F k = Some e \<Longrightarrow> \<exists>p. obj_ok X cm (dev_data io) e p" and nf: "\<And>i n. \<not> dev_rfault io i n"
  shows "scan_stale X io mode F = []"
proof -
  have "block0_stale X io ke = None \<and> full_stale X io ke = None" if "ke \<in> set F" for ke
  proof -
    obtain k e where ke: "ke = (k, e)" by (cases ke)
    then have get: "hm_get F k = Some e" using that hm_get_iff [OF wf] by simp
    then obtain p where "obj_ok X cm (dev_data io) e p" using obj by blast
    then show ?thesis
      using obj_ok_not_stale [OF _ _ room nf, of X cm e p k] inv get unfolding ke files_inv_def by blast
  qed
  then have "List.map_filter (block0_stale X io) F = []" "List.map_filter (full_stale X io) F = []"
    by (auto simp: map_filter_def filter_empty_conv)
  then show ?thesis by (cases mode) (simp_all add: scan_stale_def)
qed

section \<open>Opening\<close>

lemma remove_keys_get: "hm_get (remove_keys ks F) k = (if k \<in> set ks then None else hm_get F k)"
  by (induction ks arbitrary: F) (auto simp: remove_keys_def hm_get_remove)

lemma remove_keys_wf: "hm_wf F \<Longrightarrow> hm_wf (remove_keys ks F)"
  by (induction ks arbitrary: F) (simp_all add: remove_keys_def hm_wf_remove)

lemma dirty_flags_length [simp]: "length (dirty_flags X ks) = NUM_SHARDS"
proof -
  have "length (fold (\<lambda>k d. d[shard_for_key X k := True]) ks d) = length d" for d :: "bool list"
    by (induction ks arbitrary: d) simp_all
  then show ?thesis by (simp add: dirty_flags_def)
qed

definition visible_keys :: "string set" where
  "visible_keys = {k. \<not> starts_with k MULTIPART_TMP_PREFIX}"

lemma multipart_purge:
  assumes "hm_wf F"
  shows "hm_get (remove_keys (multipart_keys F) F) = hm_get F |` visible_keys"
proof
  fix k
  have "k \<in> set (multipart_keys F) \<longleftrightarrow> k \<notin> visible_keys \<and> hm_get F k \<noteq> None"
    by (auto simp: multipart_keys_def visible_keys_def map_of_eq_None_iff)
  then show "hm_get (remove_keys (multipart_keys F) F) k = (hm_get F |` visible_keys) k"
    unfolding remove_keys_get restrict_map_def by auto
qed

lemma files_inv_restrict: "files_inv de F \<Longrightarrow> files_inv de (F |` K)"
  unfolding files_inv_def restrict_map_def by (metis option.distinct(1))

text \<open>The path of a device that can be opened and read.\<close>

definition readable :: "host_file \<Rightarrow> byte list \<Rightarrow> bool" where
  "readable h img \<longleftrightarrow>
     host_contents h = Some img \<and> \<not> host_denied h \<and> \<not> host_locked h \<and> (\<forall>i n. \<not> host_rfault h i n)"

text \<open>What the index on an image needs for the open to keep every entry.\<close>

definition intact ::
  "'x store_env_scheme \<Rightarrow> index_layout \<Rightarrow> byte list \<Rightarrow> superblock \<Rightarrow> device_index \<Rightarrow> compression \<Rightarrow> bool" where
  "intact X l img sb ix cm \<longleftrightarrow>
     layout_ok (length img) l \<and> select_superblock (sb_copy X img 0) (sb_copy X img 4096) = Inr sb \<and>
     sb_index_slot_capacity sb = il_capacity l \<and> index_on_disk X l img ix (sb_shard_slots sb) \<and>
     files_inv (il_region_a l) (hm_get (ix_files ix)) \<and>
     (\<forall>k e. hm_get (ix_files ix) k = Some e \<longrightarrow> (\<exists>p. obj_ok X cm img e p)) \<and>
     sb_flags sb AND FLAG_WRITE_PROTECT = 0 \<and> sb_max_key_length sb \<noteq> 0 \<and>
     compression_from_u8 (sb_compression sb) = Inr cm"

text \<open>Both copies of the superblock describe the same commit.\<close>

definition copies_agree :: "'x store_env_scheme \<Rightarrow> byte list \<Rightarrow> superblock \<Rightarrow> bool" where
  "copies_agree X img sb \<longleftrightarrow>
     (\<forall>off\<in>{0, 4096}. \<exists>c. sb_copy X img off = Inr (sb\<lparr>sb_superblock_checksum := c\<rparr>))"

text \<open>A shard that the purge of the multipart leftovers does not mark has not changed.\<close>

lemma dirty_flags_nth:
  "i < NUM_SHARDS \<Longrightarrow> dirty_flags X ks ! i \<longleftrightarrow> (\<exists>k\<in>set ks. shard_for_key X k = i)"
proof -
  assume i: "i < NUM_SHARDS"
  have "fold (\<lambda>k d. d[shard_for_key X k := True]) ks d ! i \<longleftrightarrow> d ! i \<or> (\<exists>k\<in>set ks. shard_for_key X k = i)"
    if "length d = NUM_SHARDS" for d
    using that
  proof (induction ks arbitrary: d)
    case Nil
    then show ?case by simp
  next
    case (Cons k ks)
    then show ?case using i by (cases "shard_for_key X k = i") auto
  qed
  then show ?thesis using i by (simp add: dirty_flags_def)
qed

lemma purge_clean:
  assumes "hm_wf F" and "i < NUM_SHARDS" and "\<not> dirty_flags X (multipart_keys F) ! i" and "shard_for_key X k = i"
  shows "hm_get (remove_keys (multipart_keys F) F) k = hm_get F k"
  using assms dirty_flags_nth [of i X "multipart_keys F"] by (auto simp: remove_keys_get)

lemma open_intact:
  assumes laws: "shard_laws X" and h: "readable h img" and i: "intact X l img sb ix cm"
  shows "\<exists>rs. open_impl X h mode False = Inr rs \<and> rs_layout rs = l \<and> store_ok (il_region_a l) (rs_inner rs) \<and>
    hm_get (files_of (rs_inner rs)) = hm_get (ix_files ix) |` visible_keys \<and>
    dev_data (in_io (rs_inner rs)) = img \<and> in_compression (rs_inner rs) = cm \<and>
    in_superblock (rs_inner rs) = sb \<and> in_max_key_length (rs_inner rs) = sb_max_key_length sb \<and>
    hm_get (ix_tombstones (in_index (rs_inner rs))) = hm_get (ix_tombstones ix) \<and> \<not> in_read_only (rs_inner rs) \<and>
    (copies_agree X img sb \<longrightarrow> flush_ready X l ix (rs_inner rs))"
proof -
  define io where "io = mk_device h img False False"
  let ?de = "il_region_a l"
  have l: "layout_ok (length (dev_data io)) l" and inv: "files_inv ?de (hm_get (ix_files ix))"
    using i by (simp_all add: intact_def io_def mk_device_def)
  note f = layout_facts [OF l]
  have de: "?de < 2 ^ 64" "DATA_START \<le> ?de" using f(6,7,9) by linarith+
  have room: "dev_room ?de d" if "dev_data d = img" for d
    using that l f(6) by (auto simp: dev_room_def layout_ok_def io_def mk_device_def)
  have io: "dev_open h b = Inr (mk_device h img b False)" for b
    using h by (simp add: readable_def dev_open_def open_file_def acquire_exclusive_lock_def)
  have nf: "\<not> dev_rfault io j n" "\<not> dev_direct io" for j n
    using h by (simp_all add: readable_def io_def mk_device_def)
  obtain ix' where oi: "open_index X io = Inr (sb, l, ix')" and eq: "index_equiv ix' ix"
    and wf: "hm_wf (ix_files ix')" "hm_wf (ix_tombstones ix')"
    using open_index_spec [OF laws l nf(2,1), of sb ix] i by (auto simp: intact_def io_def mk_device_def)
  have g: "hm_get (ix_files ix') = hm_get (ix_files ix)" "hm_get (ix_tombstones ix') = hm_get (ix_tombstones ix)"
    using eq by (simp_all add: index_equiv_def)
  have inv': "files_inv ?de (hm_get (ix_files ix'))" using inv g by simp
  have va: "validate_entries ?de ix' = (ix', [])" by (rule validate_entries_id [OF wf(1) inv' de])
  have st: "scan_stale X io mode (ix_files ix') = []"
    using i g room [of io] nf by (intro scan_stale_none [OF wf(1) inv', of _ _ cm]) (auto simp: intact_def io_def mk_device_def)
  define F where "F = remove_keys (multipart_keys (ix_files ix')) (ix_files ix')"
  have F: "hm_get F = hm_get (ix_files ix) |` visible_keys" "hm_wf F" "files_inv ?de (hm_get F)"
    using multipart_purge [OF wf(1)] files_inv_restrict [OF inv] remove_keys_wf [OF wf(1)] by (simp_all add: F_def g)
  define ixF where "ixF = ix'\<lparr>ix_files := F\<rparr>"
  have ra: "area_inv DATA_START ?de (rebuild_allocator ixF ?de)"
    "free_set (rebuild_allocator ixF ?de) = {DATA_START..<?de} - used (hm_get F)"
    using rebuild_allocator_inv [of ixF ?de] F(2,3) de by (simp_all add: ixF_def)
  define use_direct where "use_direct = (sb_flags sb AND FLAG_DIRECT_IO \<noteq> 0)"
  define io' where "io' = (if use_direct then mk_device h img True False else io)"
  have io': "dev_data io' = img" by (simp add: io'_def io_def mk_device_def)
  show ?thesis
  proof (intro exI conjI)
    show "open_impl X h mode False = Inr \<lparr>rs_inner = \<lparr>in_io = io', in_index = ixF,
        in_allocator = Some (rebuild_allocator ixF ?de), in_superblock = sb, in_dirty = (multipart_keys (ix_files ix') \<noteq> []),
        in_read_only = False, in_shard_dirty = dirty_flags X (multipart_keys (ix_files ix')), in_last_flush_bytes = 0,
        in_max_key_length = sb_max_key_length sb, in_compression = cm\<rparr>,
        rs_layout = l, rs_next_upload_id = 0, rs_flush_log = []\<rparr>"
      using i io oi va st
      by (simp add: open_impl_def intact_def apply_stale_removals_def io_def [symmetric] io'_def use_direct_def F_def ixF_def Let_def)
  next
    have q: "byte_quiet io' j" for j by (simp add: io'_def io_def mk_device_def byte_quiet_def)
    have "sb_copy X img 0 = Inr sb \<or> sb_copy X img 4096 = Inr sb"
      using i by (auto simp: intact_def select_superblock_def split: sum.splits if_splits)
    then have v: "sb_valid sb" using sb_from_bytes_valid by (auto simp: sb_copy_def)
    have clean: "\<forall>j < NUM_SHARDS. \<not> dirty_flags X (multipart_keys (ix_files ix')) ! j \<longrightarrow>
        shard_equiv (shard_bucket X ix j) (shard_bucket X ixF j)"
      using purge_clean [OF wf(1), where X = X] g by (auto simp: ixF_def F_def shard_equiv_def shard_bucket_get)
    show "copies_agree X img sb \<longrightarrow> flush_ready X l ix (rs_inner \<lparr>rs_inner = \<lparr>in_io = io', in_index = ixF,
        in_allocator = Some (rebuild_allocator ixF ?de), in_superblock = sb, in_dirty = (multipart_keys (ix_files ix') \<noteq> []),
        in_read_only = False, in_shard_dirty = dirty_flags X (multipart_keys (ix_files ix')), in_last_flush_bytes = 0,
        in_max_key_length = sb_max_key_length sb, in_compression = cm\<rparr>,
        rs_layout = l, rs_next_upload_id = 0, rs_flush_log = []\<rparr>)"
      using i q v F(2) wf(2) clean by (simp add: flush_ready_def intact_def io' index_wf_def ixF_def copies_agree_def)
  qed (use F ra room [OF io'] g io' in \<open>simp_all add: space_inv_def files_of_def ixF_def\<close>)
qed

section \<open>A flush and the next open\<close>

lemma commit_frame:
  assumes len: "length new = 4096" and fits: "8192 \<le> length (dev_data dev)"
    and run: "commit_superblock new dev = (r, dev')"
  shows "frame_set dev dev' {..<8192}"
proof -
  have w: "frame_set d (snd (pwrite d off new)) {..<8192}" if "frame_set dev d {..<8192}" "off \<le> 4096" for d off
  proof (rule frame_set_mono)
    show "frame_set d (snd (pwrite d off new)) {off..<off + 4096}"
      using pwrite_frame_set [of off d new] that len fits frame_set_length [OF that(1)] by simp
    show "{off..<off + 4096} \<subseteq> {..<8192}" using that(2) by auto
  qed
  have tr: "frame_set dev z {..<8192}" if "frame_set dev y {..<8192}" "frame_set y z {..<8192}" for y z
    using frame_set_trans [OF that] by simp
  have sy: "frame_set d (snd (dev_sync d)) {..<8192}" for d
    using dev_sync_frame_set(1) [of d] frame_set_mono by (metis empty_subsetI prod.collapse)
  obtain r1 d1 where p1: "pwrite dev 0 new = (r1, d1)" by fastforce
  have f1: "frame_set dev d1 {..<8192}" using w [of dev 0] p1 by simp
  obtain r2 d2 where p2: "dev_sync d1 = (r2, d2)" by fastforce
  have f2: "frame_set dev d2 {..<8192}" using tr [OF f1] sy [of d1] p2 by simp
  obtain r3 d3 where p3: "pwrite d2 4096 new = (r3, d3)" by fastforce
  have f3: "frame_set dev d3 {..<8192}" using tr [OF f2] w [OF f2, of 4096] p3 by simp
  obtain r4 d4 where p4: "dev_sync d3 = (r4, d4)" by fastforce
  have f4: "frame_set dev d4 {..<8192}" using tr [OF f3] sy [of d3] p4 by simp
  show ?thesis
    using run p1 p2 p3 p4 f1 f2 f3 f4 by (auto simp: commit_superblock_def SUPERBLOCK_SIZE_def split: sum.splits)
qed

text \<open>A flush never touches the data area, the free list or the in-memory index.\<close>

lemma flush_data_frame:
  assumes laws: "sb_laws X" "shard_laws X" and ready: "flush_ready X l ix0 self"
    and run: "flush_inner X l self = (r, self')"
  shows "frame_set (in_io self) (in_io self') ({..<DATA_START} \<union> {il_region_a l..})"
    and "in_index self' = in_index self" and "in_allocator self' = in_allocator self"
    and "in_read_only self' = in_read_only self" and "in_compression self' = in_compression self"
    and "in_max_key_length self' = in_max_key_length self" and "length (in_shard_dirty self') = length (in_shard_dirty self)"
    and "sb_flags (in_superblock self') = sb_flags (in_superblock self)"
    and "sb_max_key_length (in_superblock self') = sb_max_key_length (in_superblock self)"
    and "sb_compression (in_superblock self') = sb_compression (in_superblock self)"
proof -
  let ?W = "{..<DATA_START} \<union> {il_region_a l..}"
  let ?goal = "frame_set (in_io self) (in_io self') ?W \<and> in_index self' = in_index self \<and>
    in_allocator self' = in_allocator self \<and> in_read_only self' = in_read_only self \<and>
    in_compression self' = in_compression self \<and> in_max_key_length self' = in_max_key_length self \<and>
    length (in_shard_dirty self') = length (in_shard_dirty self) \<and>
    sb_flags (in_superblock self') = sb_flags (in_superblock self) \<and>
    sb_max_key_length (in_superblock self') = sb_max_key_length (in_superblock self) \<and>
    sb_compression (in_superblock self') = sb_compression (in_superblock self)"
  have l: "layout_ok (length (dev_data (in_io self))) l" and v: "sb_valid (in_superblock self)"
    using ready by (auto simp: flush_ready_def)
  have sub: "flush_region l self {..<256} \<subseteq> ?W" using flush_region_bounds [OF l, of self] by auto
  have goal: ?goal
  proof (cases "in_read_only self")
    case True
    then show ?thesis using run by (auto simp: flush_inner_def)
  next
    case rw: False
    obtain r1 self1 where fs: "flush_shards X l [0..<NUM_SHARDS] 0 self = (r1, self1)" by fastforce
    note sw = shards_written [OF laws(2) ready fs]
    have f1: "frame_set (in_io self) (in_io self1) ?W" by (rule frame_set_mono [OF sw(1) sub])
    obtain io1 sl where s1: "self1 = self\<lparr>in_io := io1, in_superblock := (in_superblock self)\<lparr>sb_shard_slots := sl\<rparr>\<rparr>"
      using sw(2) by blast
    have sl: "length sl = NUM_SHARDS" using sw(3) by (simp add: s1)
    obtain r2 dev where sy: "dev_sync (in_io self1) = (r2, dev)" by fastforce
    have f2: "frame_set (in_io self) dev ?W" by (rule sync_fail_frame [OF sy f1])
    define sb where "sb = next_superblock (uadd (sb_txn_id (in_superblock self)) 1) (in_superblock self1)"
    have vs: "sb_valid sb" using v sl by (simp add: sb_def s1 sb_valid_def next_superblock_def)
    have cf: "frame_set (in_io self) dev' ?W" if "sb_to_bytes X sb = Inr new" "commit_superblock new dev = (rc, dev')" for new rc dev'
    proof -
      have "8192 \<le> length (dev_data dev)"
        using layout_facts(6,7) [OF l] frame_set_length [OF f2] by (simp add: layout_consts)
      from commit_frame [OF sb_roundtrip(2) [OF laws(1) that(1) vs] this that(2)]
      have "frame_set dev dev' ?W" by (rule frame_set_mono) (auto simp: layout_consts)
      then show ?thesis using frame_set_trans [OF f2] by fastforce
    qed
    show ?thesis
      using rw run fs sy f1 f2 cf
      by (auto simp: flush_inner_def Let_def s1 sb_def next_superblock_def split: sum.splits prod.splits)
  qed
  then show "frame_set (in_io self) (in_io self') ?W" and "in_index self' = in_index self" and "in_allocator self' = in_allocator self"
    and "in_read_only self' = in_read_only self" and "in_compression self' = in_compression self"
    and "in_max_key_length self' = in_max_key_length self" and "length (in_shard_dirty self') = length (in_shard_dirty self)"
    and "sb_flags (in_superblock self') = sb_flags (in_superblock self)"
    and "sb_max_key_length (in_superblock self') = sb_max_key_length (in_superblock self)"
    and "sb_compression (in_superblock self') = sb_compression (in_superblock self)" by blast+
qed

text \<open>The configuration the in-memory state took from the superblock.\<close>

definition config_ok :: "inner \<Rightarrow> bool" where
  "config_ok self \<longleftrightarrow>
     \<not> in_read_only self \<and> sb_flags (in_superblock self) AND FLAG_WRITE_PROTECT = 0 \<and>
     sb_max_key_length (in_superblock self) \<noteq> 0 \<and> in_max_key_length self = sb_max_key_length (in_superblock self) \<and>
     compression_from_u8 (sb_compression (in_superblock self)) = Inr (in_compression self)"

text \<open>
  A store with its index on the device: its state is consistent, its objects are the map \<open>A\<close>, and
  the index of its last commit is \<open>ix0\<close>.
\<close>

definition mounted ::
  "'x store_env_scheme \<Rightarrow> index_layout \<Rightarrow> device_index \<Rightarrow> (string \<rightharpoonup> byte list \<times> nat) \<Rightarrow> inner \<Rightarrow> bool" where
  "mounted X l ix0 A self \<longleftrightarrow>
     flush_ready X l ix0 self \<and> store_ok (il_region_a l) self \<and> rep X self A \<and> config_ok self"

lemma obj_ok_slice:
  assumes "obj_ok X c d e p" and "slice d' (ei_offset e) (ei_offset e + num_blocks (ei_size e) * 4096) =
    slice d (ei_offset e) (ei_offset e + num_blocks (ei_size e) * 4096)"
  shows "obj_ok X c d' e p"
  using assms unfolding obj_ok_def by simp

lemma rep_data_area:
  assumes rep: "rep X self A" and inv: "files_inv de (hm_get (files_of self))"
    and fr: "frame_set (in_io self) dev' W" and W: "W \<inter> {DATA_START..<de} = {}"
    and same: "files_of self' = files_of self" "in_compression self' = in_compression self" "in_io self' = dev'"
  shows "rep X self' A"
proof -
  have "obj_ok X (in_compression self) (dev_data dev') e p"
    if "hm_get (files_of self) k = Some e" "obj_ok X (in_compression self) (dev_data (in_io self)) e p" for k e p
  proof (rule obj_ok_slice [OF that(2)])
    have "entry_ok de e" using inv that(1) unfolding files_inv_def by blast
    then have "{ei_offset e..<ei_offset e + num_blocks (ei_size e) * 4096} \<subseteq> {DATA_START..<de}"
      by (auto simp: entry_ok_def area_unit_def)
    then show "slice (dev_data dev') (ei_offset e) (ei_offset e + num_blocks (ei_size e) * 4096) =
        slice (dev_data (in_io self)) (ei_offset e) (ei_offset e + num_blocks (ei_size e) * 4096)"
      using W by (intro frame_set_slice [OF fr]) blast
  qed
  then show ?thesis using rep unfolding rep_def same by blast
qed

lemma flush_mounted:
  assumes laws: "sb_laws X" "shard_laws X" and m: "mounted X l ix0 A self"
    and txn: "sb_txn_id (in_superblock self) + 1 < 2 ^ 64" and run: "flush_inner X l self = (Inr (), self')"
  shows "mounted X l (in_index self') A self'" and "\<And>i. byte_quiet (in_io self') i"
proof -
  have ready: "flush_ready X l ix0 self" and ok: "store_ok (il_region_a l) self" and rep: "rep X self A" and cfg: "config_ok self"
    using m by (simp_all add: mounted_def)
  have rw: "\<not> in_read_only self" using cfg by (simp add: config_ok_def)
  note fd = flush_data_frame [OF laws ready run]
  have len: "length (dev_data (in_io self')) = length (dev_data (in_io self))" by (rule frame_set_length [OF fd(1)])
  show q: "\<And>i. byte_quiet (in_io self') i"
    using rw run
  proof (cases rule: flush_inner_cases)
    case (commit bw self1 dev sb new dev')
    show "byte_quiet (in_io self') i" for i
    proof -
      have "\<exists>img. crash_image dev' img" using crash_exists by blast
      then show ?thesis using flush_commit(3) [OF laws ready txn commit(1-5)] commit(6) by blast
    qed
  qed simp_all
  have "crash_image (in_io self') (dev_data (in_io self'))"
    using q by (simp add: crash_image_def byte_quiet_def)
  then have fr: "flush_ready X l (in_index self') self'" using flush_crash(3) [OF laws ready txn rw run] by blast
  have fl: "files_of self' = files_of self" using fd(2) by (simp add: files_of_def)
  have "store_ok (il_region_a l) self'"
    using ok fd(7) unfolding space_inv_def dev_room_def fl fd(3,4) len by simp
  moreover have "rep X self' A"
    using ok by (intro rep_data_area [OF rep _ fd(1) _ fl fd(5) refl, of "il_region_a l"]) (auto simp: space_inv_def)
  moreover have "config_ok self'" using cfg fd(4-) by (simp add: config_ok_def)
  ultimately show "mounted X l (in_index self') A self'" using fr by (simp add: mounted_def)
qed

text \<open>Opening the device of a mounted store with nothing pending mounts it again.\<close>

lemma reopen_mounted:
  assumes laws: "shard_laws X" and m: "mounted X l (in_index self) A self"
    and img: "img = dev_data (in_io self)" and h: "readable h img"
  shows "\<exists>rs. open_impl X h mode False = Inr rs \<and> rs_layout rs = l \<and>
    mounted X l (in_index self) (A |` visible_keys) (rs_inner rs)"
proof -
  have ready: "flush_ready X l (in_index self) self" and ok: "store_ok (il_region_a l) self" and rep: "rep X self A"
    and cfg: "config_ok self" using m by (simp_all add: mounted_def)
  let ?F = "hm_get (ix_files (in_index self))"
  obtain c where c: "sb_copy X img 0 = Inr ((in_superblock self)\<lparr>sb_superblock_checksum := c\<rparr>)"
    using ready by (auto simp: flush_ready_def img)
  define sb where "sb = (in_superblock self)\<lparr>sb_superblock_checksum := c\<rparr>"
  have sb: "sb_copy X img 0 = Inr sb" "sb_shard_slots sb = slots_of self" "sb_index_slot_capacity sb = il_capacity l"
    "sb_txn_id sb = sb_txn_id (in_superblock self)" "sb_flags sb = sb_flags (in_superblock self)"
    "sb_max_key_length sb = sb_max_key_length (in_superblock self)" "sb_compression sb = sb_compression (in_superblock self)"
    using ready c by (simp_all add: flush_ready_def sb_def)
  obtain sb1 where sb1: "sb_copy X img 4096 = Inr sb1" "sb_txn_id sb1 = sb_txn_id (in_superblock self)"
    using ready by (auto simp: flush_ready_def img)
  have "intact X l img sb (in_index self) (in_compression self)"
    unfolding intact_def
  proof (intro conjI)
    show "select_superblock (sb_copy X img 0) (sb_copy X img 4096) = Inr sb"
      using sb(1,4) sb1 by (simp add: select_superblock_def)
    show "\<forall>k e. ?F k = Some e \<longrightarrow> (\<exists>p. obj_ok X (in_compression self) img e p)"
      using rep unfolding rep_def files_of_def img by blast
  qed (use ready ok cfg sb in \<open>auto simp: flush_ready_def space_inv_def files_of_def config_ok_def img\<close>)
  then obtain rs where rs: "open_impl X h mode False = Inr rs" "rs_layout rs = l" "store_ok (il_region_a l) (rs_inner rs)"
    "hm_get (files_of (rs_inner rs)) = ?F |` visible_keys" "dev_data (in_io (rs_inner rs)) = img"
    "in_compression (rs_inner rs) = in_compression self" "in_superblock (rs_inner rs) = sb"
    "in_max_key_length (rs_inner rs) = sb_max_key_length sb" "\<not> in_read_only (rs_inner rs)"
    "copies_agree X img sb \<longrightarrow> flush_ready X l (in_index self) (rs_inner rs)"
    using open_intact [OF laws h, of l sb "in_index self" "in_compression self" mode] by blast
  have "copies_agree X img sb" using ready by (simp add: copies_agree_def flush_ready_def img sb_def)
  moreover have "rep X (rs_inner rs) (A |` visible_keys)"
    using rep by (auto simp: rep_def rs(4-6) files_of_def [of self] img restrict_map_def)
  moreover have "config_ok (rs_inner rs)" using cfg rs sb by (simp add: config_ok_def)
  ultimately show ?thesis using rs by (auto simp: mounted_def)
qed

end
