(* ===== verification/Reference_Env.thy ===== *)
theory Reference_Env
  imports Object_Ops
begin

text \<open>
  An instance of the parameters that stand for third-party crates: a checksum, a run-length
  compressor, and length-prefixed serializers of the superblock and of an index shard. It
  satisfies every law the development relies on (\<open>crc_laws\<close>, \<open>codec_laws\<close>, \<open>sb_laws\<close>,
  \<open>shard_laws\<close>, \<open>stream_laws\<close>), so no statement that assumes them is empty. The concrete
  store at the end is what the statements about stores are evaluated on.
\<close>

section \<open>Checksum and compression\<close>

definition ref_crc_append :: "u32 \<Rightarrow> byte list \<Rightarrow> u32" where
  "ref_crc_append c bs = foldl (\<lambda>a b. 31 * a + ucast b) c bs"

definition ref_crc :: "byte list \<Rightarrow> u32" where
  "ref_crc bs = ref_crc_append 0 bs"

definition ref_zip :: "byte list \<Rightarrow> byte list option" where
  "ref_zip d = Some (if d = replicate (length d) 0 \<and> length d < 256 ^ 8 then 0 # le_bytes 8 (length d) else 1 # d)"

definition ref_unzip :: "byte list \<Rightarrow> byte list option" where
  "ref_unzip v =
     (case v of [] \<Rightarrow> None
      | b # bs \<Rightarrow> if b = 0 then Some (replicate (le_val bs) 0) else if b = 1 then Some bs else None)"

lemma ref_unzip_zip: "ref_zip d = Some v \<Longrightarrow> v \<noteq> [] \<and> ref_unzip v = Some d"
  by (auto simp: ref_zip_def ref_unzip_def le_val_le_bytes split: if_splits)

section \<open>Serializers\<close>

text \<open>A value code \<open>(e, d)\<close> is a prefix code on the values that satisfy \<open>V\<close>.\<close>

definition prefix_code :: "('a \<Rightarrow> bool) \<Rightarrow> ('a \<Rightarrow> byte list) \<Rightarrow> (byte list \<Rightarrow> ('a \<times> byte list) option) \<Rightarrow> bool" where
  "prefix_code V e d \<longleftrightarrow> (\<forall>x t. V x \<longrightarrow> d (e x @ t) = Some (x, t))"

definition dec_nat :: "nat \<Rightarrow> byte list \<Rightarrow> (nat \<times> byte list) option" where
  "dec_nat w bs = (if length bs < w then None else Some (le_val (take w bs), drop w bs))"

definition dec_u32 :: "byte list \<Rightarrow> (u32 \<times> byte list) option" where
  "dec_u32 bs = map_option (\<lambda>(n, t). (of_nat n, t)) (dec_nat 4 bs)"

fun dec_many :: "(byte list \<Rightarrow> ('a \<times> byte list) option) \<Rightarrow> nat \<Rightarrow> byte list \<Rightarrow> ('a list \<times> byte list) option" where
  "dec_many d 0 bs = Some ([], bs)"
| "dec_many d (Suc n) bs =
     Option.bind (d bs) (\<lambda>(x, t). map_option (\<lambda>(xs, u). (x # xs, u)) (dec_many d n t))"

definition enc_list :: "('a \<Rightarrow> byte list) \<Rightarrow> 'a list \<Rightarrow> byte list" where
  "enc_list e xs = le_bytes 8 (length xs) @ concat (map e xs)"

definition dec_list :: "(byte list \<Rightarrow> ('a \<times> byte list) option) \<Rightarrow> byte list \<Rightarrow> ('a list \<times> byte list) option" where
  "dec_list d bs = Option.bind (dec_nat 8 bs) (\<lambda>(n, t). dec_many d n t)"

definition list_valid :: "('a \<Rightarrow> bool) \<Rightarrow> 'a list \<Rightarrow> bool" where
  "list_valid V xs \<longleftrightarrow> length xs < 256 ^ 8 \<and> (\<forall>x\<in>set xs. V x)"

lemma dec_nat_enc: "x < 256 ^ w \<Longrightarrow> dec_nat w (le_bytes w x @ t) = Some (x, t)"
  by (simp add: dec_nat_def le_val_le_bytes)

lemma dec_u32_enc: "dec_u32 (u32_to_le_bytes c @ t) = Some (c, t)"
proof -
  have "unat c < 256 ^ 4" using unat_u32_bound [of c] by simp
  then show ?thesis by (simp add: dec_u32_def u32_to_le_bytes_def dec_nat_enc)
qed

lemma dec_many_enc:
  "prefix_code V e d \<Longrightarrow> \<forall>x\<in>set xs. V x \<Longrightarrow> dec_many d (length xs) (concat (map e xs) @ t) = Some (xs, t)"
  by (induction xs) (auto simp: prefix_code_def)

lemma dec_list_enc: "prefix_code V e d \<Longrightarrow> list_valid V xs \<Longrightarrow> dec_list d (enc_list e xs @ t) = Some (xs, t)"
  by (simp add: dec_list_def enc_list_def list_valid_def dec_nat_enc dec_many_enc)

definition enc_string :: "string \<Rightarrow> byte list" where
  "enc_string s = enc_list (\<lambda>c. [of_nat (of_char c)]) s"

definition dec_string :: "byte list \<Rightarrow> (string \<times> byte list) option" where
  "dec_string = dec_list (\<lambda>bs. case bs of [] \<Rightarrow> None | b # t \<Rightarrow> Some (char_of (unat b), t))"

lemma char_byte: "char_of (unat (of_nat (of_char c) :: byte)) = c"
proof -
  have "(of_char c :: nat) < 2 ^ 8" by (simp add: nat_of_char_less_256)
  then show ?thesis by (simp add: unat_of_nat)
qed

lemma dec_string_enc: "length s < 256 ^ 8 \<Longrightarrow> dec_string (enc_string s @ t) = Some (s, t)"
  unfolding dec_string_def enc_string_def
  by (rule dec_list_enc [of "\<lambda>_. True"]) (auto simp: prefix_code_def list_valid_def char_byte)

definition enc_int :: "int \<Rightarrow> byte list" where
  "enc_int i = le_bytes 8 (nat (i + 2 ^ 63))"

definition dec_int :: "byte list \<Rightarrow> (int \<times> byte list) option" where
  "dec_int bs = map_option (\<lambda>(n, t). (int n - 2 ^ 63, t)) (dec_nat 8 bs)"

lemma dec_int_enc: "- (2 ^ 63) \<le> i \<Longrightarrow> i < 2 ^ 63 \<Longrightarrow> dec_int (enc_int i @ t) = Some (i, t)"
proof -
  assume i: "- (2 ^ 63) \<le> i" "i < 2 ^ 63"
  then have "nat (i + 2 ^ 63) < 256 ^ 8" by (simp add: nat_less_iff)
  with i show ?thesis by (simp add: dec_int_def enc_int_def dec_nat_enc)
qed

subsection \<open>Superblock\<close>

definition enc_slot :: "shard_slot_meta \<Rightarrow> byte list" where
  "enc_slot s = le_bytes (Suc 0) (active_slot s) @ le_bytes 4 (slot_size s) @ u32_to_le_bytes (slot_crc s)"

definition dec_slot :: "byte list \<Rightarrow> (shard_slot_meta \<times> byte list) option" where
  "dec_slot bs =
     Option.bind (dec_nat (Suc 0) bs) (\<lambda>(a, b1). Option.bind (dec_nat 4 b1) (\<lambda>(s, b2).
     Option.bind (dec_u32 b2) (\<lambda>(c, b3). Some (\<lparr>active_slot = a, slot_size = s, slot_crc = c\<rparr>, b3))))"

definition slot_range :: "shard_slot_meta \<Rightarrow> bool" where
  "slot_range s \<longleftrightarrow> active_slot s < 256 ^ Suc 0 \<and> slot_size s < 256 ^ 4"

lemma slot_code: "prefix_code slot_range enc_slot dec_slot"
  unfolding prefix_code_def slot_range_def enc_slot_def dec_slot_def
  by (auto simp: dec_nat_enc dec_u32_enc simp del: le_bytes.simps One_nat_def)

definition sb_range :: "superblock \<Rightarrow> bool" where
  "sb_range sb \<longleftrightarrow>
     length (sb_magic sb) < 256 ^ 8 \<and> sb_version sb < 256 ^ 8 \<and> sb_device_size sb < 256 ^ 8 \<and>
     sb_block_alignment sb < 256 ^ 8 \<and> sb_index_region_offset sb < 256 ^ 8 \<and>
     sb_index_region_size sb < 256 ^ 8 \<and> sb_txn_id sb < 256 ^ 8 \<and> sb_prev_index_offset sb < 256 ^ 8 \<and>
     sb_prev_index_size sb < 256 ^ 8 \<and> sb_prev_txn_id sb < 256 ^ 8 \<and>
     sb_index_slot_capacity sb < 256 ^ 8 \<and> list_valid slot_range (sb_shard_slots sb) \<and>
     sb_max_key_length sb < 256 ^ 8 \<and> sb_compression sb < 256 ^ 8"

definition enc_sb_rest :: "superblock \<Rightarrow> byte list" where
  "enc_sb_rest sb =
     enc_string (sb_magic sb) @ le_bytes 8 (sb_version sb) @ u32_to_le_bytes (sb_flags sb) @
     le_bytes 8 (sb_device_size sb) @ le_bytes 8 (sb_block_alignment sb) @
     le_bytes 8 (sb_index_region_offset sb) @ le_bytes 8 (sb_index_region_size sb) @
     le_bytes 8 (sb_txn_id sb) @ u32_to_le_bytes (sb_index_checksum sb) @
     le_bytes 8 (sb_prev_index_offset sb) @ le_bytes 8 (sb_prev_index_size sb) @
     le_bytes 8 (sb_prev_txn_id sb) @ u32_to_le_bytes (sb_prev_index_checksum sb) @
     le_bytes 8 (sb_index_slot_capacity sb) @ enc_list enc_slot (sb_shard_slots sb) @
     le_bytes 8 (sb_max_key_length sb) @ le_bytes 8 (sb_compression sb)"

definition ref_ser_sb :: "superblock \<Rightarrow> byte list option" where
  "ref_ser_sb sb =
     (if sb_range sb then Some (u32_to_le_bytes (sb_superblock_checksum sb) @ enc_sb_rest sb) else None)"

definition ref_de_sb :: "byte list \<Rightarrow> superblock option" where
  "ref_de_sb bs =
     Option.bind (dec_u32 bs) (\<lambda>(chk, b0). Option.bind (dec_string b0) (\<lambda>(mg, b1).
     Option.bind (dec_nat 8 b1) (\<lambda>(ver, b2). Option.bind (dec_u32 b2) (\<lambda>(fl, b3).
     Option.bind (dec_nat 8 b3) (\<lambda>(ds, b4). Option.bind (dec_nat 8 b4) (\<lambda>(ba, b5).
     Option.bind (dec_nat 8 b5) (\<lambda>(ro, b6). Option.bind (dec_nat 8 b6) (\<lambda>(rs, b7).
     Option.bind (dec_nat 8 b7) (\<lambda>(tx, b8). Option.bind (dec_u32 b8) (\<lambda>(ic, b9).
     Option.bind (dec_nat 8 b9) (\<lambda>(po, b10). Option.bind (dec_nat 8 b10) (\<lambda>(ps, b11).
     Option.bind (dec_nat 8 b11) (\<lambda>(pt, b12). Option.bind (dec_u32 b12) (\<lambda>(pc, b13).
     Option.bind (dec_nat 8 b13) (\<lambda>(cap, b14). Option.bind (dec_list dec_slot b14) (\<lambda>(sl, b15).
     Option.bind (dec_nat 8 b15) (\<lambda>(mk, b16). Option.bind (dec_nat 8 b16) (\<lambda>(co, b17).
       Some \<lparr>sb_magic = mg, sb_version = ver, sb_flags = fl, sb_device_size = ds,
         sb_block_alignment = ba, sb_index_region_offset = ro, sb_index_region_size = rs,
         sb_txn_id = tx, sb_index_checksum = ic, sb_superblock_checksum = chk,
         sb_prev_index_offset = po, sb_prev_index_size = ps, sb_prev_txn_id = pt,
         sb_prev_index_checksum = pc, sb_index_slot_capacity = cap, sb_shard_slots = sl,
         sb_max_key_length = mk, sb_compression = co\<rparr>))))))))))))))))))"

lemma ref_de_ser_sb: "ref_ser_sb sb = Some d \<Longrightarrow> ref_de_sb (d @ t) = Some sb"
  by (cases sb)
    (auto simp: ref_ser_sb_def ref_de_sb_def enc_sb_rest_def sb_range_def dec_nat_enc dec_u32_enc
      dec_string_enc dec_list_enc [OF slot_code] simp del: le_bytes.simps split: if_splits)

lemma ref_ser_sb_checksum:
  assumes "ref_ser_sb (sb\<lparr>sb_superblock_checksum := 0\<rparr>) = Some d"
  shows "0 + 4 \<le> length d" and "slice d 0 (0 + 4) = [0, 0, 0, 0]"
    and "ref_ser_sb (sb\<lparr>sb_superblock_checksum := c\<rparr>) = Some (write_at d 0 (u32_to_le_bytes c))"
proof -
  have r: "sb_range sb" and d: "d = u32_to_le_bytes 0 @ enc_sb_rest sb"
    using assms by (auto simp: ref_ser_sb_def sb_range_def enc_sb_rest_def split: if_splits)
  show "0 + 4 \<le> length d" using d by simp
  show "slice d 0 (0 + 4) = [0, 0, 0, 0]" using zero_bytes by (simp add: d slice_def)
  have "write_at d 0 (u32_to_le_bytes c) = u32_to_le_bytes c @ enc_sb_rest sb"
    by (subst write_at_zero) (simp_all add: d)
  then show "ref_ser_sb (sb\<lparr>sb_superblock_checksum := c\<rparr>) = Some (write_at d 0 (u32_to_le_bytes c))"
    using r by (simp add: ref_ser_sb_def sb_range_def enc_sb_rest_def)
qed

subsection \<open>Index shards\<close>

definition enc_extent :: "extent_info \<Rightarrow> byte list" where
  "enc_extent e =
     le_bytes 8 (ei_offset e) @ le_bytes 8 (ei_size e) @ le_bytes 8 (ei_padded_size e) @
     u32_to_le_bytes (ei_crc32c e) @ le_bytes 8 (ei_created_txn e) @ enc_int (ei_last_modified e) @
     le_bytes 8 (ei_meta_len e) @ le_bytes 8 (ei_uncompressed_size e)"

definition dec_extent :: "byte list \<Rightarrow> (extent_info \<times> byte list) option" where
  "dec_extent bs =
     Option.bind (dec_nat 8 bs) (\<lambda>(off, b1). Option.bind (dec_nat 8 b1) (\<lambda>(sz, b2).
     Option.bind (dec_nat 8 b2) (\<lambda>(pad, b3). Option.bind (dec_u32 b3) (\<lambda>(crc, b4).
     Option.bind (dec_nat 8 b4) (\<lambda>(txn, b5). Option.bind (dec_int b5) (\<lambda>(lm, b6).
     Option.bind (dec_nat 8 b6) (\<lambda>(ml, b7). Option.bind (dec_nat 8 b7) (\<lambda>(us, b8).
       Some (\<lparr>ei_offset = off, ei_size = sz, ei_padded_size = pad, ei_crc32c = crc,
         ei_created_txn = txn, ei_last_modified = lm, ei_meta_len = ml, ei_uncompressed_size = us\<rparr>, b8)))))))))"

definition extent_range :: "extent_info \<Rightarrow> bool" where
  "extent_range e \<longleftrightarrow>
     ei_offset e < 256 ^ 8 \<and> ei_size e < 256 ^ 8 \<and> ei_padded_size e < 256 ^ 8 \<and>
     ei_created_txn e < 256 ^ 8 \<and> - (2 ^ 63) \<le> ei_last_modified e \<and> ei_last_modified e < 2 ^ 63 \<and>
     ei_meta_len e < 256 ^ 8 \<and> ei_uncompressed_size e < 256 ^ 8"

lemma extent_code: "prefix_code extent_range enc_extent dec_extent"
  by (auto simp: prefix_code_def extent_range_def enc_extent_def dec_extent_def dec_nat_enc dec_u32_enc
      dec_int_enc simp del: le_bytes.simps)

definition enc_tomb :: "tombstone_info \<Rightarrow> byte list" where
  "enc_tomb t =
     le_bytes 8 (tb_size t) @ u32_to_le_bytes (tb_crc32c t) @ enc_int (tb_last_modified t) @
     enc_string (tb_reason t) @ le_bytes 8 (tb_tombstone_txn t)"

definition dec_tomb :: "byte list \<Rightarrow> (tombstone_info \<times> byte list) option" where
  "dec_tomb bs =
     Option.bind (dec_nat 8 bs) (\<lambda>(sz, b1). Option.bind (dec_u32 b1) (\<lambda>(crc, b2).
     Option.bind (dec_int b2) (\<lambda>(lm, b3). Option.bind (dec_string b3) (\<lambda>(re, b4).
     Option.bind (dec_nat 8 b4) (\<lambda>(txn, b5).
       Some (\<lparr>tb_size = sz, tb_crc32c = crc, tb_last_modified = lm, tb_reason = re,
         tb_tombstone_txn = txn\<rparr>, b5))))))"

definition tomb_range :: "tombstone_info \<Rightarrow> bool" where
  "tomb_range t \<longleftrightarrow>
     tb_size t < 256 ^ 8 \<and> - (2 ^ 63) \<le> tb_last_modified t \<and> tb_last_modified t < 2 ^ 63 \<and>
     length (tb_reason t) < 256 ^ 8 \<and> tb_tombstone_txn t < 256 ^ 8"

lemma tomb_code: "prefix_code tomb_range enc_tomb dec_tomb"
  by (auto simp: prefix_code_def tomb_range_def enc_tomb_def dec_tomb_def dec_nat_enc dec_u32_enc
      dec_int_enc dec_string_enc simp del: le_bytes.simps)

definition enc_entry :: "('a \<Rightarrow> byte list) \<Rightarrow> string \<times> 'a \<Rightarrow> byte list" where
  "enc_entry e kv = enc_string (fst kv) @ e (snd kv)"

definition dec_entry :: "(byte list \<Rightarrow> ('a \<times> byte list) option) \<Rightarrow> byte list \<Rightarrow> ((string \<times> 'a) \<times> byte list) option" where
  "dec_entry d bs =
     Option.bind (dec_string bs) (\<lambda>(k, b1). Option.bind (d b1) (\<lambda>(v, b2). Some ((k, v), b2)))"

definition entry_range :: "('a \<Rightarrow> bool) \<Rightarrow> string \<times> 'a \<Rightarrow> bool" where
  "entry_range V kv \<longleftrightarrow> length (fst kv) < 256 ^ 8 \<and> V (snd kv)"

lemma entry_code: "prefix_code V e d \<Longrightarrow> prefix_code (entry_range V) (enc_entry e) (dec_entry d)"
  unfolding prefix_code_def entry_range_def enc_entry_def dec_entry_def
  by (simp add: dec_string_enc)

definition ref_ser_shard :: "shard_data \<Rightarrow> byte list option" where
  "ref_ser_shard s =
     (if list_valid (entry_range extent_range) (sd_files s) \<and>
         list_valid (entry_range tomb_range) (sd_tombstones s)
      then Some (enc_list (enc_entry enc_extent) (sd_files s) @ enc_list (enc_entry enc_tomb) (sd_tombstones s))
      else None)"

definition ref_de_shard :: "byte list \<Rightarrow> shard_data option" where
  "ref_de_shard bs =
     Option.bind (dec_list (dec_entry dec_extent) bs) (\<lambda>(fs, b1).
     Option.bind (dec_list (dec_entry dec_tomb) b1) (\<lambda>(ts, b2).
       if hm_wf fs \<and> hm_wf ts then Some \<lparr>sd_files = fs, sd_tombstones = ts\<rparr> else None))"

lemma ref_de_ser_shard: "ref_ser_shard s = Some d \<Longrightarrow> shard_wf s \<Longrightarrow> d \<noteq> [] \<and> ref_de_shard d = Some s"
proof -
  assume ser: "ref_ser_shard s = Some d" and wf: "shard_wf s"
  then have v: "list_valid (entry_range extent_range) (sd_files s)" "list_valid (entry_range tomb_range) (sd_tombstones s)"
    and d: "d = enc_list (enc_entry enc_extent) (sd_files s) @ enc_list (enc_entry enc_tomb) (sd_tombstones s)"
    by (auto simp: ref_ser_shard_def split: if_splits)
  have "length d \<ge> 8" by (simp add: d enc_list_def)
  then have "d \<noteq> []" by auto
  then show ?thesis
    using wf dec_list_enc [OF entry_code [OF extent_code] v(1)] dec_list_enc [OF entry_code [OF tomb_code] v(2), of "[]"]
    by (simp add: ref_de_shard_def d shard_wf_def)
qed

section \<open>The instance\<close>

definition ref_env :: store_env where
  "ref_env = \<lparr>x_crc32c = ref_crc, x_crc32c_append = ref_crc_append,
     x_zstd_compress = ref_zip, x_zstd_decompress = ref_unzip,
     x_snap_compress = ref_zip, x_snap_decompress = ref_unzip,
     x_gz_compress = (\<lambda>_. ref_zip), x_gz_decompress = ref_unzip,
     x_ser_sb = ref_ser_sb, x_de_sb = ref_de_sb,
     x_ser_shard = ref_ser_shard, x_de_shard = ref_de_shard,
     x_stream_compress = (\<lambda>_ chunks. ref_zip (concat chunks)),
     x_decode_stream = (\<lambda>_ n w failed. if failed then None else map_option (take n) (ref_unzip w))\<rparr>"

lemma ref_crc_laws: "crc_laws ref_env"
  by (simp add: crc_laws_def ref_env_def ref_crc_def ref_crc_append_def)

lemma ref_codec_laws: "codec_laws ref_env"
  using ref_unzip_zip by (simp add: codec_laws_def ref_env_def)

lemma ref_sb_laws: "sb_laws ref_env"
  unfolding sb_laws_def
proof (intro conjI)
  show "\<forall>sb d t. x_ser_sb ref_env sb = Some d \<longrightarrow> x_de_sb ref_env (d @ t) = Some sb"
    using ref_de_ser_sb by (simp add: ref_env_def)
  show "\<exists>off. \<forall>sb d c. x_ser_sb ref_env (sb\<lparr>sb_superblock_checksum := 0\<rparr>) = Some d \<longrightarrow>
      off + 4 \<le> length d \<and> slice d off (off + 4) = [0, 0, 0, 0] \<and>
      x_ser_sb ref_env (sb\<lparr>sb_superblock_checksum := c\<rparr>) = Some (write_at d off (u32_to_le_bytes c))"
    using ref_ser_sb_checksum by (intro exI [of _ 0]) (simp add: ref_env_def)
qed

lemma ref_de_shard_wf: "ref_de_shard d = Some s \<Longrightarrow> shard_wf s"
  by (auto simp: ref_de_shard_def shard_wf_def bind_eq_Some_conv split: if_splits prod.splits)

lemma ref_shard_laws: "shard_laws ref_env"
  using ref_de_ser_shard ref_de_shard_wf by (auto simp: shard_laws_def ref_env_def shard_equiv_def)

lemma ref_stream_laws: "stream_laws ref_env"
proof -
  have "decompress ref_env c w = Inr p \<longleftrightarrow> ref_unzip w = Some p" if "c \<noteq> CNone" for c w p
    using that by (cases c) (auto simp: decompress_def ref_env_def split: option.splits)
  then show ?thesis using ref_unzip_zip by (auto simp: stream_laws_def ref_env_def)
qed

lemmas ref_laws = ref_crc_laws ref_codec_laws ref_sb_laws ref_shard_laws ref_stream_laws

section \<open>A concrete store\<close>

text \<open>An empty store on a device with a data area of eight blocks.\<close>

definition ref_dev :: device_io where
  "ref_dev = \<lparr>dev_data = replicate 40960 0, dev_stable = replicate 40960 0, dev_unsynced = [],
     dev_direct = False, dev_read_only = False, dev_block = False, dev_writes = 0, dev_syncs = 0,
     dev_wfault = (\<lambda>_. None), dev_sfault = (\<lambda>_. False), dev_rfault = (\<lambda>_ _. False)\<rparr>"

lemma ref_dev_fields [simp]:
  "length (dev_data ref_dev) = 40960" "dev_direct ref_dev = False" "dev_read_only ref_dev = False"
  "dev_wfault ref_dev n = None" "dev_rfault ref_dev i n = False" "dev_sfault ref_dev n = False"
  "dev_block ref_dev = False"
  by (simp_all add: ref_dev_def)

definition ref_store :: inner where
  "ref_store = \<lparr>in_io = ref_dev, in_index = index_new, in_allocator = Some (alloc_new DATA_START 40960 BLOCK_ALIGNMENT),
     in_superblock = sb_new 40960 4096 40960 0 1024 CNone, in_dirty = False, in_read_only = False,
     in_shard_dirty = replicate NUM_SHARDS False, in_last_flush_bytes = 0, in_max_key_length = 1024,
     in_compression = CNone\<rparr>"

lemma ref_store_ok: "store_ok 40960 ref_store"
proof -
  have "area_inv DATA_START 40960 (alloc_new DATA_START 40960 BLOCK_ALIGNMENT)"
    unfolding area_inv_def using alloc_new_inv by (auto simp: layout_consts)
  then show ?thesis
    by (simp add: space_inv_def ref_store_def files_of_def index_new_def hm_wf_def files_inv_def used_def
        alloc_new_free_set dev_room_def ref_dev_def NUM_SHARDS_def)
qed

lemma ref_store_rep: "rep ref_env ref_store Map.empty"
  by (simp add: rep_def ref_store_def files_of_def index_new_def)

end
