(* ===== verification/Store_Properties.thy ===== *)
theory Store_Properties
  imports Multipart Reference_Env
begin

text \<open>
  The properties of the raw object store: every call refines the corresponding operation on a map
  from keys to payloads, for every fault schedule of the device, and so does every sequence of
  calls.
\<close>

section \<open>Ranges\<close>

lemma decode_range_empty: "decode_block_range X raw f a a = Inr q \<Longrightarrow> q = []"
proof -
  have "decode_range_loop X raw f a a is acc = Inr q \<Longrightarrow> q = acc" for "is" acc
    by (induction "is" arbitrary: acc) (auto simp: bind_res_Inr_iff range_piece_def Let_def)
  then show "decode_block_range X raw f a a = Inr q \<Longrightarrow> q = []" by (simp add: decode_block_range_def)
qed

lemma do_get_range_empty:
  assumes inv: "store_ok de self" and e: "hm_get (files_of self) k = Some e"
    and obj: "obj_ok X (in_compression self) (dev_data (in_io self)) e p"
    and plain: "ei_uncompressed_size e = 0" and a: "a \<le> length p"
  shows "do_get_range X k a a self = Inr (q, e') \<Longrightarrow> q = [] \<and> e' = e"
    and "(\<And>i n. \<not> dev_rfault (in_io self) i n) \<Longrightarrow> do_get_range X k a a self = Inr ([], e)"
proof -
  note fits = stored_fits [OF inv e]
  obtain w where w: "length w = ei_size e"
    "extent_bytes (in_io self) (ei_offset e) (num_blocks (ei_size e)) = encode_blocks X w" and pw: "p = w"
    using obj_ok_read [OF obj fits] plain by (metis (full_types))
  have ne: "w \<noteq> []" using obj w by (auto simp: obj_ok_def)
  show "q = [] \<and> e' = e" if "do_get_range X k a a self = Inr (q, e')"
    using that e plain decode_range_empty [of X _ _ a q]
    by (auto simp: do_get_range_def lookup_info_def Let_def bind_res_Inr_iff)
  assume nf: "\<And>i n. \<not> dev_rfault (in_io self) i n"
  define f where "f = a div 4092"
  define n where "n = (if 0 < a \<and> a mod 4092 = 0 then 0 else 1 :: nat)"
  have small: "ei_offset e + num_blocks (ei_size e) * 4096 < 2 ^ 64" by (rule extent_fits_bound [OF fits])
  have fn: "f + n \<le> num_blocks (length w)"
  proof (cases "n = 0")
    case True
    have "f * 4092 \<le> length w" using a pw by (simp add: f_def)
    then have "f * 4092 \<le> num_blocks (length w) * 4092" using num_blocks_ge [of "length w"] by linarith
    then show ?thesis using True by simp
  next
    case False
    have "f * 4092 < length w"
    proof (cases "a = 0")
      case True
      then show ?thesis using ne by (simp add: f_def)
    next
      case nz: False
      then have "a mod 4092 \<noteq> 0" using False by (auto simp: n_def split: if_splits)
      then have "f * 4092 < a" unfolding f_def by (metis div_mult_mod_eq less_add_same_cancel1 not_gr0)
      then show ?thesis using a pw by simp
    qed
    then have "f < num_blocks (length w)" by (simp add: less_num_blocks_iff)
    then show ?thesis using False by (simp add: n_def split: if_splits)
  qed
  have le: "f * 4096 \<le> num_blocks (ei_size e) * 4096" using fn w(1) by (intro mult_le_mono1) simp
  have f64: "f < 2 ^ 64" using le small by simp
  have us: "uadd (usub (saturating_sub a 1 div 4092) f) 1 = n"
  proof (cases "n = 0")
    case True
    then have d: "0 < a" "4092 dvd a" by (auto simp: n_def split: if_splits)
    then obtain m where m: "a = 4092 * m" "0 < m" by (auto elim!: dvdE)
    have "(a - 1) div 4092 = m - 1"
    proof -
      have "a - 1 = 4092 * (m - 1) + 4091" using m by (cases m) auto
      then show ?thesis by simp
    qed
    moreover have "f = m" using m by (simp add: f_def)
    ultimately have "usub (saturating_sub a 1 div 4092) f = 2 ^ 64 - 1"
      using m(2) f64 by (cases m) (simp_all add: usub_def saturating_sub_def)
    then show ?thesis using True by (simp add: uadd_def)
  next
    case False
    have "saturating_sub a 1 div 4092 = f"
    proof (cases "a = 0")
      case True
      then show ?thesis by (simp add: f_def saturating_sub_def)
    next
      case nz: False
      then have "a mod 4092 \<noteq> 0" using False by (auto simp: n_def split: if_splits)
      then have "a = 4092 * f + a mod 4092" "0 < a mod 4092" by (simp_all add: f_def)
      then obtain r where r: "a - 1 = 4092 * f + r" "r < 4092"
        by (metis Nat.add_diff_assoc Suc_leI less_imp_diff_less mod_less_divisor zero_less_numeral One_nat_def)
      then show ?thesis by (simp add: saturating_sub_def)
    qed
    then have "usub (saturating_sub a 1 div 4092) f = 0" using f64 by (simp add: usub_def)
    then show ?thesis using False by (simp add: uadd_def n_def split: if_splits)
  qed
  have ch: "checked_mul f 4096 = Some (f * 4096)" "checked_add (ei_offset e) (f * 4096) = Some (ei_offset e + f * 4096)"
    "checked_mul n 4096 = Some (n * 4096)"
    using le small by (auto simp: checked_mul_def checked_add_def n_def)
  have pr: "pread (in_io self) (ei_offset e + f * 4096) (n * 4096) = Inr (enc_blocks X w f (f + n))"
    using pread_batch_ok [OF fits _ nf, of f n] extent_sub_blocks [of "in_io self" "ei_offset e" w X f n] fn w by simp
  have dec: "decode_block_range X (enc_blocks X w f (f + n)) f a a = Inr []"
  proof (cases "n = 0")
    case True
    then show ?thesis by (simp add: decode_block_range_def)
  next
    case False
    then have "a \<le> (f + n) * 4092" by (simp add: n_def f_def split: if_splits)
    then have "decode_block_range X (enc_blocks X w f (f + n)) f a a = Inr (slice w a a)"
      using a pw fn by (intro decode_block_range_encoded) (simp_all add: f_def)
    then show ?thesis by simp
  qed
  show "do_get_range X k a a self = Inr ([], e)"
    using e plain us ch pr dec
    by (simp add: do_get_range_def lookup_info_def checked_or_def Let_def flip: f_def)
qed

section \<open>Stores that refine a map\<close>

text \<open>
  The interface of a store whose calls refine operations on a map: a call reports whether it
  succeeded; a successful call has its effect on the map, a failed one has none, and a lookup
  that returns a value returns the map's.
\<close>

locale map_store =
  fixes valid :: "'s \<Rightarrow> bool" and absm :: "'s \<Rightarrow> ('k \<rightharpoonup> 'v) \<Rightarrow> bool"
    and call :: "'c \<Rightarrow> 's \<Rightarrow> bool \<times> 's" and effect :: "'c \<Rightarrow> ('k \<rightharpoonup> 'v) \<Rightarrow> ('k \<rightharpoonup> 'v)"
    and admissible :: "'c \<Rightarrow> bool" and lookup :: "'k \<Rightarrow> 's \<Rightarrow> 'v option"
  assumes call_valid: "valid s \<Longrightarrow> admissible c \<Longrightarrow> call c s = (ok, s') \<Longrightarrow> valid s'"
    and call_absm: "valid s \<Longrightarrow> absm s A \<Longrightarrow> admissible c \<Longrightarrow> call c s = (ok, s') \<Longrightarrow>
      absm s' (if ok then effect c A else A)"
    and lookup_sound: "valid s \<Longrightarrow> absm s A \<Longrightarrow> lookup k s = Some v \<Longrightarrow> A k = Some v"

fun run_calls :: "('c \<Rightarrow> 's \<Rightarrow> bool \<times> 's) \<Rightarrow> 'c list \<Rightarrow> 's \<Rightarrow> bool list \<times> 's" where
  "run_calls call [] s = ([], s)"
| "run_calls call (c # cs) s =
     (case call c s of (ok, s') \<Rightarrow> (case run_calls call cs s' of (oks, s'') \<Rightarrow> (ok # oks, s'')))"

fun map_effects :: "('c \<Rightarrow> 'm \<Rightarrow> 'm) \<Rightarrow> ('c \<times> bool) list \<Rightarrow> 'm \<Rightarrow> 'm" where
  "map_effects effect [] A = A"
| "map_effects effect ((c, ok) # rest) A = map_effects effect rest (if ok then effect c A else A)"

context map_store
begin

lemma run_refines:
  assumes "valid s" and "absm s A" and "\<forall>c\<in>set cs. admissible c" and "run_calls call cs s = (oks, s')"
  shows "valid s' \<and> length oks = length cs \<and> absm s' (map_effects effect (zip cs oks) A)"
  using assms
proof (induction cs arbitrary: s A oks)
  case Nil
  then show ?case by simp
next
  case (Cons c cs)
  obtain ok s1 where c: "call c s = (ok, s1)" by fastforce
  obtain oks1 where r: "run_calls call cs s1 = (oks1, s')" and oks: "oks = ok # oks1"
    using Cons.prems(4) c by (auto split: prod.splits)
  have "valid s1" "absm s1 (if ok then effect c A else A)"
    using Cons.prems c call_valid [of s c ok s1] call_absm [of s A c ok s1] by auto
  from Cons.IH [OF this _ r] Cons.prems(3) oks show ?case by simp
qed

lemma run_lookup:
  assumes "valid s" and "absm s A" and "\<forall>c\<in>set cs. admissible c" and "run_calls call cs s = (oks, s')"
    and "lookup k s' = Some v"
  shows "map_effects effect (zip cs oks) A k = Some v"
  using run_refines [OF assms(1-4)] lookup_sound [of s' _ k v] assms(5) by blast

end

section \<open>The calls of the raw store\<close>

datatype store_call =
    CallPut string "byte list" put_mode
  | CallPutMeta string "byte list" "byte list"
  | CallDelete string
  | CallCopy string string
  | CallCopyIf string string
  | CallRename string string
  | CallRenameIf string string

fun exec_call :: "'x store_env_scheme \<Rightarrow> int \<Rightarrow> store_call \<Rightarrow> inner \<Rightarrow> bool \<times> inner" where
  "exec_call X now (CallPut k b mode) s = (case put_opts X now k b mode s of (r, s') \<Rightarrow> (is_ok r, s'))"
| "exec_call X now (CallPutMeta k b m) s = (case put_with_meta X now k b m s of (r, s') \<Rightarrow> (is_ok r, s'))"
| "exec_call X now (CallDelete k) s = (case delete_object X k s of (r, s') \<Rightarrow> (is_ok r, s'))"
| "exec_call X now (CallCopy k l) s = (case copy_object X now k l s of (r, s') \<Rightarrow> (is_ok r, s'))"
| "exec_call X now (CallCopyIf k l) s = (case copy_if_not_exists X now k l s of (r, s') \<Rightarrow> (is_ok r, s'))"
| "exec_call X now (CallRename k l) s = (case rename_object X k l s of (r, s') \<Rightarrow> (is_ok r, s'))"
| "exec_call X now (CallRenameIf k l) s = (case rename_if_not_exists X k l s of (r, s') \<Rightarrow> (is_ok r, s'))"

type_synonym obj_map = "string \<rightharpoonup> byte list \<times> nat"

fun call_effect :: "store_call \<Rightarrow> obj_map \<Rightarrow> obj_map" where
  "call_effect (CallPut k b mode) A = A(k \<mapsto> (b, 0))"
| "call_effect (CallPutMeta k b m) A = A(k \<mapsto> (b @ m, length m))"
| "call_effect (CallDelete k) A = A(k := None)"
| "call_effect (CallCopy k l) A = A(l := A k)"
| "call_effect (CallCopyIf k l) A = A(l := A k)"
| "call_effect (CallRename k l) A = (A(k := None))(l := A k)"
| "call_effect (CallRenameIf k l) A = (A(k := None))(l := A k)"

text \<open>A payload is a Rust buffer, shorter than \<open>2^63\<close> bytes.\<close>

fun call_admissible :: "store_call \<Rightarrow> bool" where
  "call_admissible (CallPut k b mode) = (length b < 2 ^ 63)"
| "call_admissible (CallPutMeta k b m) = (length b + length m < 2 ^ 63)"
| "call_admissible _ = True"

definition get_object :: "'x store_env_scheme \<Rightarrow> string \<Rightarrow> inner \<Rightarrow> (byte list \<times> nat) option" where
  "get_object X k s = (case do_get X k s of Inr (p, info) \<Rightarrow> Some (p, ei_meta_len info) | Inl _ \<Rightarrow> None)"

definition lawful :: "'x store_env_scheme \<Rightarrow> bool" where
  "lawful X \<longleftrightarrow> crc_laws X \<and> codec_laws X"

lemma rep_no_io: "rep X s A \<Longrightarrow> s' = s \<Longrightarrow> rep X s' A"
  by simp

lemma put_opts_spec:
  assumes "lawful X" and inv: "store_ok de self" and "length b < 2 ^ 63"
    and run: "put_opts X now k b mode self = (r, self')"
  shows "store_ok de self' \<and>
    (case r of Inl e \<Rightarrow> (\<forall>A. rep X self A \<longrightarrow> rep X self' A)
     | Inr _ \<Rightarrow> (\<forall>A. rep X self A \<longrightarrow> rep X self' (A(k \<mapsto> (b, 0)))) \<and>
         (mode = ModeCreate \<longrightarrow> hm_get (files_of self) k = None))"
proof -
  obtain rp sp where dp: "do_put_with_meta X now k b 0 self = (rp, sp)" by fastforce
  note sp = do_put_spec [OF _ _ inv assms(3) dp]
  have l: "crc_laws X" "codec_laws X" using assms(1) by (simp_all add: lawful_def)
  show ?thesis
    using run inv sp [OF l] dp
    by (cases mode) (auto simp: put_opts_def Let_def do_put_def map_os_def split: if_splits sum.splits)
qed

lemma put_with_meta_spec:
  assumes "lawful X" and inv: "store_ok de self" and "length b + length m < 2 ^ 63"
    and run: "put_with_meta X now k b m self = (r, self')"
  shows "store_ok de self' \<and>
    (case r of Inl e \<Rightarrow> (\<forall>A. rep X self A \<longrightarrow> rep X self' A)
     | Inr _ \<Rightarrow> length m \<le> 65535 \<and> (\<forall>A. rep X self A \<longrightarrow> rep X self' (A(k \<mapsto> (b @ m, length m)))))"
proof -
  have l: "crc_laws X" "codec_laws X" using assms(1) by (simp_all add: lawful_def)
  show ?thesis
    using run inv do_put_spec [OF l inv, of "b @ m" now k "length m" r self'] assms(3)
    by (auto simp: put_with_meta_def split: if_splits sum.splits)
qed

lemma exec_call_spec:
  assumes "lawful X" and "store_ok de s" and "call_admissible c" and "exec_call X now c s = (ok, s')"
  shows "store_ok de s' \<and> (\<forall>A. rep X s A \<longrightarrow> rep X s' (if ok then call_effect c A else A))"
proof (cases c)
  case (CallPut k b mode)
  then show ?thesis
    using assms put_opts_spec [OF assms(1,2), of b now k mode]
    by (auto split: prod.splits sum.splits)
next
  case (CallPutMeta k b m)
  then show ?thesis
    using assms put_with_meta_spec [OF assms(1,2), of b m now k]
    by (auto split: prod.splits sum.splits)
next
  case (CallDelete k)
  obtain r where r: "delete_object X k s = (r, s')" "ok = is_ok r" using assms(4) CallDelete by (auto split: prod.splits)
  then show ?thesis using CallDelete delete_object_spec [OF assms(2) r(1)] by (cases r) auto
next
  case (CallCopy k l)
  obtain r where r: "do_copy X now k l s = (r, s')" "ok = is_ok r"
    using assms(4) CallCopy by (auto simp: copy_object_def map_os_def split: prod.splits sum.splits)
  then show ?thesis using CallCopy do_copy_spec [OF assms(2) r(1)] by (cases r) auto
next
  case (CallCopyIf k l)
  show ?thesis
  proof (cases "hm_get (files_of s) l = None")
    case True
    obtain r where r: "do_copy X now k l s = (r, s')" "ok = is_ok r"
      using assms(4) CallCopyIf True by (auto simp: copy_if_not_exists_def copy_object_def map_os_def split: prod.splits sum.splits)
    then show ?thesis using CallCopyIf do_copy_spec [OF assms(2) r(1)] by (cases r) auto
  next
    case False
    then have "ok = False" "s' = s" using assms(4) CallCopyIf by (auto simp: copy_if_not_exists_def)
    then show ?thesis using assms(2) by simp
  qed
next
  case (CallRename k l)
  obtain r where r: "rename_object X k l s = (r, s')" "ok = is_ok r" using assms(4) CallRename by (auto split: prod.splits)
  then show ?thesis using CallRename rename_object_spec [OF assms(2) r(1)] by (cases r) auto
next
  case (CallRenameIf k l)
  obtain r where r: "rename_if_not_exists X k l s = (r, s')" "ok = is_ok r" using assms(4) CallRenameIf by (auto split: prod.splits)
  show ?thesis
  proof (cases "r = Inl (OsAlreadyExists l (AlreadyExists l)) \<and> s' = s")
    case True
    then show ?thesis using r assms(2) by simp
  next
    case False
    then have rn: "rename_object X k l s = (r, s')"
      using r(1) unfolding rename_if_not_exists_eq by (auto split: if_splits)
    show ?thesis using CallRenameIf r(2) rename_object_spec [OF assms(2) rn] by (cases r) auto
  qed
qed

text \<open>
  The raw store is such a store. The environment's laws are premises of every law, so that the
  interpretation needs no assumption.
\<close>

interpretation raw: map_store "\<lambda>s. lawful X \<and> store_ok de s" "rep X" "exec_call X now" call_effect
  call_admissible "get_object X"
proof
  fix s c ok s' A k v
  assume v: "lawful X \<and> store_ok de s"
  show "lawful X \<and> store_ok de s'" if "call_admissible c" "exec_call X now c s = (ok, s')"
    using exec_call_spec [OF _ _ that] v by blast
  show "rep X s' (if ok then call_effect c A else A)"
    if "rep X s A" "call_admissible c" "exec_call X now c s = (ok, s')"
    using exec_call_spec [OF _ _ that(2,3)] v that(1) by blast
  show "A k = Some v" if "rep X s A" "get_object X k s = Some v"
    using that do_get_sound [of de s X A k] v
    by (auto simp: get_object_def split: sum.splits prod.splits)
qed

section \<open>Put\<close>

text \<open>
  C6. Put. Storing an object either fails, and then the index, the free list and every stored object
  are as before (only bytes of free extents may differ), or it succeeds, and then the map has the
  new payload under the key and is otherwise unchanged. The space invariant (every byte of the data
  area is free or belongs to exactly one object) is kept in both cases. This holds for every
  schedule of device write faults, for compressed and uncompressed devices and for both write paths.
\<close>

theorem put_refines:
  assumes "crc_laws X" and "codec_laws X" and "store_ok de self" and "length payload < 2 ^ 63"
    and "do_put_with_meta X now key payload meta_len self = (r, self')"
  shows "store_ok de self' \<and>
    (case r of
       Inl e \<Rightarrow> self' = self\<lparr>in_io := in_io self'\<rparr> \<and> (\<forall>A. rep X self A \<longrightarrow> rep X self' A)
     | Inr _ \<Rightarrow> \<not> in_read_only self \<and> payload \<noteq> [] \<and> length key \<le> in_max_key_length self \<and>
         (\<forall>A. rep X self A \<longrightarrow> rep X self' (A(key \<mapsto> (payload, meta_len)))))"
  using do_put_spec [OF assms] by simp

definition ref_big :: "byte list" where
  "ref_big = replicate 5000 0"

lemma ref_store_simps [simp]:
  "in_io ref_store = ref_dev" "in_read_only ref_store = False" "in_max_key_length ref_store = 1024"
  "in_allocator ref_store = Some (alloc_new DATA_START 40960 BLOCK_ALIGNMENT)"
  by (simp_all add: ref_store_def)

lemma ref_put_ok:
  assumes "payload \<noteq> []" and "length payload \<le> 8184" and "length key \<le> 1024"
  shows "do_put_with_meta ref_env now key payload ml ref_store =
    (Inr (), snd (do_put_with_meta ref_env now key payload ml ref_store))"
proof -
  have "num_blocks (length payload) \<le> 2" using assms(2) by (simp add: num_blocks_le_iff)
  then have "{8192..<8192 + num_blocks (length payload) * 4096} \<subseteq> free_set (alloc_new DATA_START 40960 BLOCK_ALIGNMENT)"
    by (auto simp: alloc_new_free_set layout_consts)
  then have "fst (do_put_with_meta ref_env now key payload ml ref_store) = Inr ()"
    using assms by (intro do_put_succeeds [OF ref_crc_laws ref_codec_laws ref_store_ok]) simp_all
  then show ?thesis by (simp add: prod_eq_iff)
qed

abbreviation ref_store1 :: inner where
  "ref_store1 \<equiv> snd (do_put_with_meta ref_env 7 ''a'' ref_big 1000 ref_store)"

lemma ref_big_simps [simp]: "length ref_big = 5000" "ref_big \<noteq> []"
  by (simp_all add: ref_big_def)

lemma ref_put1: "do_put_with_meta ref_env 7 ''a'' ref_big 1000 ref_store = (Inr (), ref_store1)"
  by (rule ref_put_ok) simp_all

theorem put_refines_witness:
  "store_ok 40960 ref_store1 \<and> rep ref_env ref_store1 [''a'' \<mapsto> (ref_big, 1000)]"
  using put_refines [OF ref_crc_laws ref_codec_laws ref_store_ok _ ref_put1] ref_store_rep by simp

text \<open>
  C7. Put makes progress: a put of a non-empty payload with an admissible key on a writable store
  succeeds whenever the free list has one run long enough for it and the device takes the writes.
\<close>

theorem put_succeeds:
  assumes "crc_laws X" and "codec_laws X" and "store_ok de self" and "length payload < 2 ^ 63"
    and "\<not> in_read_only self" and "payload \<noteq> []" and "length key \<le> in_max_key_length self"
    and "in_allocator self = Some a" and "{x..<x + num_blocks (length payload) * 4096} \<subseteq> free_set a"
    and "\<not> dev_read_only (in_io self)" and "\<forall>n. dev_wfault (in_io self) n = None"
  shows "fst (do_put_with_meta X now key payload meta_len self) = Inr ()"
  by (rule do_put_succeeds [OF assms(1-10)]) (use assms(11) in simp)

theorem put_succeeds_witness:
  "fst (do_put_with_meta ref_env 7 ''a'' ref_big 1000 ref_store) = Inr ()"
proof (rule put_succeeds [OF ref_crc_laws ref_codec_laws ref_store_ok, where x = 8192])
  have "num_blocks (length ref_big) \<le> 2" by (simp add: num_blocks_le_iff)
  then show "{8192..<8192 + num_blocks (length ref_big) * 4096} \<subseteq> free_set (alloc_new DATA_START 40960 BLOCK_ALIGNMENT)"
    by (auto simp: alloc_new_free_set layout_consts)
qed simp_all

section \<open>Get\<close>

text \<open>
  C8. Get. A get that returns data returns the payload that the map has under the key, with its
  metadata length; a key without an object is reported as not found; and the get does return when
  the device can be read.
\<close>

theorem get_refines:
  assumes "store_ok de self" and "rep X self A"
  shows "(\<forall>p e. do_get X k self = Inr (p, e) \<longrightarrow> A k = Some (p, ei_meta_len e)) \<and>
    (A k = None \<longrightarrow> do_get X k self = Inl (NotFound k)) \<and>
    (\<forall>p ml. A k = Some (p, ml) \<and> (\<forall>i n. \<not> dev_rfault (in_io self) i n) \<longrightarrow>
      (\<exists>e. do_get X k self = Inr (p, e) \<and> ei_meta_len e = ml))"
  using do_get_sound [OF assms] do_get_missing [OF assms(2)] do_get_complete [OF assms] by blast

lemma ref_store1_ok: "store_ok 40960 ref_store1" "rep ref_env ref_store1 [''a'' \<mapsto> (ref_big, 1000)]"
  and ref_store1_rfault: "\<not> dev_rfault (in_io ref_store1) i n"
  using do_put_spec [OF ref_crc_laws ref_codec_laws ref_store_ok _ ref_put1] ref_store_rep
  by (auto dest!: dev_frame_same simp: dev_same_def)

theorem get_refines_witness:
  "(\<exists>e. do_get ref_env ''a'' ref_store1 = Inr (ref_big, e) \<and> ei_meta_len e = 1000) \<and>
   do_get ref_env ''b'' ref_store1 = Inl (NotFound ''b'')"
  using get_refines [OF ref_store1_ok, of "''a''"] get_refines [OF ref_store1_ok, of "''b''"] ref_store1_rfault
  by auto

text \<open>
  Full get. The stream of a full get, when it does not fail, is the payload without its metadata
  suffix, and the reported size is its length; for stored and for compressed objects, whatever
  codec decodes them.
\<close>

lemma full_get_body:
  assumes "stream_laws X" and "store_ok de self" and "rep X self A" and "A k = Some (p, ml)" and "ml \<le> length p"
  shows "(\<forall>body m. get_full X k self = Inr (body, m) \<longrightarrow> body = take (length p - ml) p \<and> om_size m = length body) \<and>
    ((\<forall>i n. \<not> dev_rfault (in_io self) i n) \<longrightarrow> (\<exists>m. get_full X k self = Inr (take (length p - ml) p, m)))"
proof -
  obtain e where e: "hm_get (files_of self) k = Some e"
    using rep_None [OF assms(3), of k] assms(4) by auto
  have obj: "obj_ok X (in_compression self) (dev_data (in_io self)) e p" and ml: "ei_meta_len e = ml"
    using rep_Some [OF assms(3) e] assms(4) by (metis Pair_inject option.inject)+
  note fb = full_body_spec [OF assms(1,2) e obj]
  have "om_size (meta_for k e) = length p - ml"
    using obj ml by (auto simp: meta_for_def saturating_sub_def logical_size_def obj_ok_def)
  moreover have "get_full X k self = bind_res (full_body X k self e) (\<lambda>body. Inr (body, meta_for k e))"
    using e by (simp add: get_full_def)
  ultimately have om: "om_size (meta_for k e) = length p - ml"
    and gf: "get_full X k self = bind_res (full_body X k self e) (\<lambda>body. Inr (body, meta_for k e))" by blast+
  show ?thesis
  proof (intro conjI allI impI)
    show "\<exists>m. get_full X k self = Inr (take (length p - ml) p, m)" if "\<forall>i n. \<not> dev_rfault (in_io self) i n"
      using fb(2) that ml gf by simp
    fix body m
    assume "get_full X k self = Inr (body, m)"
    then have "full_body X k self e = Inr body" "m = meta_for k e" unfolding gf by (auto simp: bind_res_Inr_iff)
    then show "body = take (length p - ml) p" "om_size m = length body" using fb(1) ml om by auto
  qed
qed

text \<open>
  C9. Ranged get. The range of a request is clamped to the body (never past it, never inverted), and
  a ranged get that returns data returns exactly those bytes of the payload, whatever its size. When
  the device can be read it does return, except for an object that is stored compressed and is
  longer than the limit when decompressed; a ranged get of such an object always fails with the
  same error. An empty range returns no bytes.
\<close>

theorem ranged_get_slice:
  assumes "store_ok de self" and "rep X self A" and "A k = Some (p, ml)" and "ml \<le> length p"
    and "hm_get (files_of self) k = Some ei" and "resolve_range (length p - ml) rng = (s, e)"
  shows "s \<le> e \<and> e \<le> length p - ml \<and>
    (\<forall>q m s' e'. get_ranged X k rng self = Inr (q, m, s', e') \<longrightarrow> q = slice p s e \<and> s' = s \<and> e' = e) \<and>
    (if ei_uncompressed_size ei > COMPRESSED_RANGE_READ_MAX
     then get_ranged X k rng self = Inl (to_os_error (Io OtherKind))
     else (\<forall>i n. \<not> dev_rfault (in_io self) i n) \<longrightarrow> (\<exists>m. get_ranged X k rng self = Inr (slice p s e, m, s, e)))"
proof -
  note ei = assms(5)
  have obj: "obj_ok X (in_compression self) (dev_data (in_io self)) ei p" and ml: "ei_meta_len ei = ml"
    using rep_Some [OF assms(2) ei] assms(3) by (metis Pair_inject option.inject)+
  have tot: "saturating_sub (logical_size ei) (ei_meta_len ei) = length p - ml"
    using obj ml by (auto simp: saturating_sub_def logical_size_def obj_ok_def)
  have se: "s \<le> e" "e \<le> length p - ml"
    using assms(6) by (cases rng; auto simp: Let_def saturating_sub_def)+
  have gr: "get_ranged X k rng self = bind_res (map_os (do_get_range X k s e self)) (\<lambda>(bytes, info).
      Inr (bytes, meta_for k info, s, e))"
    using ei assms(6) tot by (simp add: get_ranged_def)
  show ?thesis
  proof (cases "ei_uncompressed_size ei > COMPRESSED_RANGE_READ_MAX")
    case True
    then have "do_get_range X k s e self = Inl (Io OtherKind)" using ei by (simp add: do_get_range_def lookup_info_def)
    then show ?thesis using True se by (simp add: gr map_os_def)
  next
    case False
    have small: "ei_uncompressed_size ei \<noteq> 0 \<Longrightarrow> length p \<le> COMPRESSED_RANGE_READ_MAX"
      using False obj by (auto simp: obj_ok_def)
    have sound: "q = slice p s e" if "do_get_range X k s e self = Inr (q, e')" for q e'
    proof (cases "ei_uncompressed_size ei = 0")
      case True
      then show ?thesis
        using that se do_get_range_plain(1) [OF assms(1) ei obj True, of s e] do_get_range_empty(1) [OF assms(1) ei obj True, of s]
        by (cases "s = e") (auto simp: bind_res_Inr_iff)
    next
      case comp: False
      then show ?thesis using that do_get_range_compressed(1) [OF assms(1,2,3) ei comp small] se by simp
    qed
    have complete: "\<exists>e'. do_get_range X k s e self = Inr (slice p s e, e')"
      if nf: "\<forall>i n. \<not> dev_rfault (in_io self) i n"
    proof (cases "ei_uncompressed_size ei = 0")
      case True
      then show ?thesis
        using nf se do_get_range_plain(2) [OF assms(1) ei obj True, of s e] do_get_range_empty(2) [OF assms(1) ei obj True, of s]
        by (cases "s = e") auto
    next
      case comp: False
      then show ?thesis using nf do_get_range_compressed(2) [OF assms(1,2,3) ei comp small] se by auto
    qed
    have "\<exists>m. get_ranged X k rng self = Inr (slice p s e, m, s, e)" if "\<forall>i n. \<not> dev_rfault (in_io self) i n"
      using complete [OF that] unfolding gr by (auto simp: map_os_def)
    with False se sound show ?thesis by (auto simp: gr bind_res_Inr_iff map_os_def split: sum.splits)
  qed
qed

theorem ranged_get_slice_witness:
  "\<exists>m. get_ranged ref_env ''a'' (Bounded 3999 9000) ref_store1 = Inr (slice ref_big 3999 4000, m, 3999, 4000)"
proof -
  obtain ei where ei: "hm_get (files_of ref_store1) ''a'' = Some ei" using rep_None [OF ref_store1_ok(2), of "''a''"] by auto
  from rep_Some [OF ref_store1_ok(2) ei] obtain p where "p = ref_big"
    and "obj_ok ref_env (in_compression ref_store1) (dev_data (in_io ref_store1)) ei p" by (metis fun_upd_same option.inject prod.inject)
  then have "ei_uncompressed_size ei \<le> length ref_big" by (auto simp: obj_ok_def split: if_splits)
  then have "\<not> ei_uncompressed_size ei > COMPRESSED_RANGE_READ_MAX" by (simp add: COMPRESSED_RANGE_READ_MAX_def)
  then show ?thesis
    using ranged_get_slice [OF ref_store1_ok _ _ ei, of ref_big 1000 "Bounded 3999 9000" 3999 4000] ref_store1_rfault by simp
qed

section \<open>Copy, delete, rename\<close>

text \<open>
  Copy. A copy either fails and changes nothing but free bytes, or gives the target key the
  source's payload and metadata length; the source keeps its own. No byte of a stored object is
  shared between the two.
\<close>

lemma copy_refines:
  assumes "store_ok de self" and "do_copy X now from to self = (r, self')"
  shows "store_ok de self' \<and>
    (case r of
       Inl e \<Rightarrow> self' = self\<lparr>in_io := in_io self'\<rparr> \<and> (\<forall>A. rep X self A \<longrightarrow> rep X self' A)
     | Inr _ \<Rightarrow> \<not> in_read_only self \<and> length to \<le> in_max_key_length self \<and>
         (\<forall>A. rep X self A \<longrightarrow> A from \<noteq> None \<and> rep X self' (A(to := A from))))"
  using do_copy_spec [OF assms] by blast

text \<open>
  Delete. Deleting a key removes it from the map and frees its extent; deleting a key that is not
  there is no error and changes nothing; a read-only store refuses. The device is not touched.
\<close>

lemma delete_refines:
  assumes "store_ok de self" and "delete_object X key self = (r, self')"
  shows "store_ok de self' \<and> in_io self' = in_io self \<and>
    (case r of Inl e \<Rightarrow> in_read_only self \<and> self' = self
     | Inr _ \<Rightarrow> \<not> in_read_only self \<and> (\<forall>A. rep X self A \<longrightarrow> rep X self' (A(key := None))))"
  using assms by (rule delete_object_spec)

text \<open>
  Rename. A rename moves the object's entry to the new key without touching the device: the target
  has what the source had (and its old object is freed), the source is gone, even when both keys
  are the same. The conditional form refuses an existing target and is otherwise the same. An error
  changes nothing.
\<close>

lemma rename_refines:
  assumes "store_ok de self"
    and "(if cond then rename_if_not_exists X from to self else rename_object X from to self) = (r, self')"
  shows "store_ok de self' \<and> in_io self' = in_io self \<and>
    (case r of Inl e \<Rightarrow> self' = self
     | Inr _ \<Rightarrow> \<not> in_read_only self \<and> length to \<le> in_max_key_length self \<and>
         (cond \<longrightarrow> hm_get (files_of self) to = None) \<and>
         (\<forall>A. rep X self A \<longrightarrow> A from \<noteq> None \<and> rep X self' ((A(from := None))(to := A from))))"
proof (cases "cond \<and> \<not> in_read_only self \<and> length to \<le> in_max_key_length self \<and> hm_get (files_of self) to \<noteq> None")
  case True
  then show ?thesis using assms by (auto simp: rename_if_not_exists_eq)
next
  case False
  then have run: "rename_object X from to self = (r, self')"
    using assms(2) by (auto simp: rename_if_not_exists_eq split: if_splits)
  have "rename_object X from to self = (Inr x, s) \<Longrightarrow> \<not> in_read_only self \<and> length to \<le> in_max_key_length self" for x s
    using rename_object_spec [OF assms(1), of X "from" to] by fastforce
  then show ?thesis using rename_object_spec [OF assms(1) run] run False by (cases r) auto
qed

section \<open>Conditional puts\<close>

text \<open>
  Put modes. A put in create mode fails with \<open>AlreadyExists\<close> exactly when the key is there, and
  then changes nothing; an update with a tag or a version is refused; every other put behaves as
  the plain put.
\<close>

lemma put_mode_cases:
  "put_opts X now key bytes mode self =
     (if mode = ModeCreate \<and> hm_get (files_of self) key \<noteq> None
      then (Inl (OsAlreadyExists key (AlreadyExists key)), self)
      else if \<exists>t v. mode = ModeUpdate t v \<and> \<not> (t = None \<and> v = None)
      then (Inl (OsPrecondition key (Io Unsupported)), self)
      else (map_os (fst (do_put_with_meta X now key bytes 0 self)), snd (do_put_with_meta X now key bytes 0 self)))"
  by (cases mode) (auto simp: put_opts_def Let_def do_put_def split: prod.split)

section \<open>Multipart\<close>

text \<open>
  C35. Completing a multipart upload. With all parts stored, completion either fails, leaving the
  upload, the index and every object as they were, or it stores the concatenation of the parts in
  order under the location, with no metadata suffix, and removes the parts; compressed or not, with
  the parts themselves compressed or not, for every device fault.
\<close>

theorem multipart_complete:
  assumes "crc_laws X" and "stream_laws X" and "store_ok de self" and "rep X self A"
    and "map (\<lambda>k. map_option fst (A k)) (mp_part_keys mp) = map Some cs"
    and "length (concat cs) < 2 ^ 63" and "mp_complete X now mp self = (r, mp', self')"
  shows "store_ok de self' \<and>
    (case r of
       Inl e \<Rightarrow> mp' = mp \<and> self' = self\<lparr>in_io := in_io self'\<rparr> \<and> rep X self' A
     | Inr _ \<Rightarrow> mp' = mp\<lparr>mp_part_keys := []\<rparr> \<and> mp_part_keys mp \<noteq> [] \<and>
         rep X self' ((A(mp_location mp \<mapsto> (concat cs, 0))) |` (- set (mp_part_keys mp))))"
  using mp_complete_spec [OF assms] by blast

theorem multipart_complete_witness:
  "store_ok 40960 (snd (snd (mp_complete ref_env 9
     \<lparr>mp_location = ''b'', mp_upload_id = 0, mp_part_count = 1, mp_part_keys = [''a'']\<rparr> ref_store1)))"
proof -
  let ?mp = "\<lparr>mp_location = ''b'', mp_upload_id = 0, mp_part_count = 1, mp_part_keys = [''a'']\<rparr>"
  obtain r m s where run: "mp_complete ref_env 9 ?mp ref_store1 = (r, m, s)" by (metis prod_cases3)
  have "map (\<lambda>k. map_option fst ([''a'' \<mapsto> (ref_big, 1000 :: nat)] k)) (mp_part_keys ?mp) = map Some [ref_big]" by simp
  from multipart_complete [OF ref_crc_laws ref_stream_laws ref_store1_ok this _ run] run show ?thesis by simp
qed

text \<open>
  Aborting a multipart upload removes exactly the parts that were stored and frees their extents;
  the upload has no parts left and every other object is untouched.
\<close>

lemma multipart_abort:
  assumes "store_ok de self" and "mp_abort X mp self = (mp', self')"
  shows "store_ok de self' \<and> in_io self' = in_io self \<and> mp_part_keys mp' = [] \<and>
    (\<forall>A. rep X self A \<longrightarrow> rep X self' (A |` (- set (mp_part_keys mp))))"
  using assms remove_parts_inv [OF assms(1), where X = X and ks = "mp_part_keys mp"] by (auto simp: mp_abort_def)

section \<open>Sequences of calls\<close>

text \<open>
  C5. The store is a map. For every sequence of puts, deletes, copies and renames, each with whatever
  outcome the device's faults give it, the stored objects are those of the map on which the
  successful calls took effect, in order, and a get afterwards that returns an object returns the
  one of that map.
\<close>

theorem call_sequence_refines_map:
  assumes "lawful X" and "store_ok de s" and "rep X s A" and "\<forall>c\<in>set cs. call_admissible c"
    and "run_calls (exec_call X now) cs s = (oks, s')"
  shows "store_ok de s' \<and> rep X s' (map_effects call_effect (zip cs oks) A) \<and>
    (\<forall>k v. get_object X k s' = Some v \<longrightarrow> map_effects call_effect (zip cs oks) A k = Some v)"
  using raw.run_refines [OF _ assms(3-5), of de] raw.run_lookup [OF _ assms(3-5), of de] assms(1,2) by blast

theorem call_sequence_refines_map_witness:
  "store_ok 40960 (snd (run_calls (exec_call ref_env 3)
     [CallPut ''x'' ref_big ModeCreate, CallCopy ''x'' ''y'', CallRename ''y'' ''z'', CallDelete ''x''] ref_store))"
proof -
  let ?cs = "[CallPut ''x'' ref_big ModeCreate, CallCopy ''x'' ''y'', CallRename ''y'' ''z'', CallDelete ''x'']"
  obtain oks s where run: "run_calls (exec_call ref_env 3) ?cs ref_store = (oks, s)" by fastforce
  have "lawful ref_env" by (simp add: lawful_def ref_laws)
  from call_sequence_refines_map [OF this ref_store_ok ref_store_rep _ run] run show ?thesis by simp
qed

end
