(* ===== verification/Dirty_Tracking.thy ===== *)
theory Dirty_Tracking
  imports Recovery Store_Properties
begin

text \<open>
  The calls between two flushes: an entry that a call changes belongs to a shard it marks dirty,
  and a call writes to the data area only. So the index of the last commit stays on the device
  until the next flush, and a flush writes every change.
\<close>

section \<open>Changes of the index outside a set of keys\<close>

definition alters :: "string set \<Rightarrow> inner \<Rightarrow> inner \<Rightarrow> bool" where
  "alters K s t \<longleftrightarrow>
     in_superblock t = in_superblock s \<and> in_read_only t = in_read_only s \<and>
     in_max_key_length t = in_max_key_length s \<and> in_compression t = in_compression s \<and>
     length (in_shard_dirty t) = length (in_shard_dirty s) \<and>
     (\<forall>i < length (in_shard_dirty s). in_shard_dirty s ! i \<longrightarrow> in_shard_dirty t ! i) \<and>
     (\<forall>k. k \<notin> K \<longrightarrow> hm_get (ix_files (in_index t)) k = hm_get (ix_files (in_index s)) k \<and>
        hm_get (ix_tombstones (in_index t)) k = hm_get (ix_tombstones (in_index s)) k) \<and>
     (index_wf (in_index s) \<longrightarrow> index_wf (in_index t))"

lemma alters_refl [simp]: "alters K s s"
  by (simp add: alters_def)

lemma alters_trans: "alters K s t \<Longrightarrow> alters L t u \<Longrightarrow> alters (K \<union> L) s u"
  by (auto simp: alters_def)

lemma alters_chain: "alters K s t \<Longrightarrow> alters K t u \<Longrightarrow> alters K s u"
  using alters_trans [of K s t K u] by simp

lemma alters_mono: "alters K s t \<Longrightarrow> K \<subseteq> L \<Longrightarrow> alters L s t"
  by (auto simp: alters_def)

lemma alters_io [simp]: "alters K s (t\<lparr>in_io := d\<rparr>) = alters K s t" "alters K (s\<lparr>in_io := d\<rparr>) t = alters K s t"
  by (simp_all add: alters_def)

lemma alters_alloc [simp]:
  "alters K s (t\<lparr>in_allocator := a\<rparr>) = alters K s t" "alters K (s\<lparr>in_allocator := a\<rparr>) t = alters K s t"
  "alters K s (inner_free off p t) = alters K s t"
  by (simp_all add: alters_def inner_free_def)

lemma alters_in_dirty [simp]: "alters K s (t\<lparr>in_dirty := b\<rparr>) = alters K s t"
  by (simp add: alters_def)

lemma alters_mark: "alters K s (mark_shard_dirty X k s)"
proof -
  have "(xs[j := True]) ! i" if "xs ! i" "i < length xs" for xs i j using that by (metis nth_list_update_eq nth_list_update_neq)
  then show ?thesis by (auto simp: alters_def mark_shard_dirty_def)
qed

lemma alters_free_old: "alters {k} s (free_old k s)"
  by (auto simp: alters_def free_old_def inner_free_def set_files_def files_of_def index_wf_def hm_get_remove
      hm_wf_remove split: option.splits)

lemma alters_set_files:
  "(\<And>k. k \<notin> K \<Longrightarrow> hm_get f k = hm_get (files_of s) k) \<Longrightarrow> (hm_wf (files_of s) \<Longrightarrow> hm_wf f) \<Longrightarrow> alters K s (set_files f s)"
  by (auto simp: alters_def set_files_def files_of_def index_wf_def)

lemma alters_untomb: "alters {k} s (set_tombstones (hm_remove k (ix_tombstones (in_index s))) s)"
  by (auto simp: alters_def set_tombstones_def index_wf_def hm_get_remove hm_wf_remove)

lemma mark_shard_dirty_nth:
  "length (in_shard_dirty s) = NUM_SHARDS \<Longrightarrow> in_shard_dirty (mark_shard_dirty X k s) ! shard_for_key X k"
  using shard_for_key_less [of X k] by (simp add: mark_shard_dirty_def NUM_SHARDS_def)

lemma alters_insert_entry: "alters {k} s (insert_entry X k e s)"
proof -
  have "alters {k} (mark_shard_dirty X k s) (set_files (hm_insert k e (files_of (mark_shard_dirty X k s))) (mark_shard_dirty X k s))"
    by (rule alters_set_files) (simp_all add: hm_get_insert hm_wf_insert)
  from alters_trans [OF alters_mark [of "{k}" s X k] this] show ?thesis by (simp add: insert_entry_def Let_def)
qed

section \<open>Tracked changes\<close>

text \<open>Every key whose entry changed is in a shard that is now dirty.\<close>

definition tracked :: "'x store_env_scheme \<Rightarrow> inner \<Rightarrow> inner \<Rightarrow> bool" where
  "tracked X s t \<longleftrightarrow>
     (length (in_shard_dirty s) = NUM_SHARDS \<longrightarrow> (\<exists>K. alters K s t \<and> (\<forall>k\<in>K. in_shard_dirty t ! shard_for_key X k)))"

lemma tracked_refl [simp]: "tracked X s s"
  unfolding tracked_def by (rule impI, rule exI [of _ "{}"]) simp

lemma alters_keeps_dirty:
  "alters K s t \<Longrightarrow> length (in_shard_dirty s) = NUM_SHARDS \<Longrightarrow> in_shard_dirty s ! shard_for_key X k \<Longrightarrow>
     in_shard_dirty t ! shard_for_key X k"
  using shard_for_key_less [of X k] by (auto simp: alters_def NUM_SHARDS_def)

lemma tracked_trans:
  assumes "tracked X s t" and "tracked X t u"
  shows "tracked X s u"
  unfolding tracked_def
proof
  assume len: "length (in_shard_dirty s) = NUM_SHARDS"
  obtain K where K: "alters K s t" "\<forall>k\<in>K. in_shard_dirty t ! shard_for_key X k" using assms(1) len by (auto simp: tracked_def)
  then have len': "length (in_shard_dirty t) = NUM_SHARDS" using len by (simp add: alters_def)
  obtain L where L: "alters L t u" "\<forall>k\<in>L. in_shard_dirty u ! shard_for_key X k" using assms(2) len' by (auto simp: tracked_def)
  have "\<forall>k\<in>K \<union> L. in_shard_dirty u ! shard_for_key X k" using K(2) L alters_keeps_dirty [OF L(1) len'] by blast
  then show "\<exists>K. alters K s u \<and> (\<forall>k\<in>K. in_shard_dirty u ! shard_for_key X k)" using alters_trans [OF K(1) L(1)] by blast
qed

lemma tracked_io [simp]:
  "tracked X s (t\<lparr>in_io := d\<rparr>) = tracked X s t" "tracked X (s\<lparr>in_io := d\<rparr>) t = tracked X s t"
  "tracked X s (t\<lparr>in_allocator := a\<rparr>) = tracked X s t" "tracked X (s\<lparr>in_allocator := a\<rparr>) t = tracked X s t"
  "tracked X s (inner_free off p t) = tracked X s t" "tracked X s (t\<lparr>in_dirty := b\<rparr>) = tracked X s t"
  by (simp_all add: tracked_def inner_free_def)

lemma trackedI: "alters {k} s t \<Longrightarrow> tracked X s (insert_entry X k e t)"
proof -
  assume a: "alters {k} s t"
  have "in_shard_dirty (insert_entry X k e t) ! shard_for_key X k" if "length (in_shard_dirty s) = NUM_SHARDS"
  proof -
    have "length (in_shard_dirty t) = NUM_SHARDS" using a that by (simp add: alters_def)
    from mark_shard_dirty_nth [OF this] show ?thesis by (simp add: insert_entry_def Let_def set_files_def)
  qed
  moreover have "alters {k} s (insert_entry X k e t)" using alters_chain [OF a alters_insert_entry] .
  ultimately show ?thesis unfolding tracked_def by (intro impI exI [of _ "{k}"]) simp
qed

lemma remove_entry_tracked: "tracked X s (remove_entry X k s)"
proof (cases "hm_get (files_of s) k")
  case (Some info)
  have "alters {k} s (mark_shard_dirty X k (free_old k s))"
    using alters_chain [OF alters_free_old alters_mark] .
  moreover have "in_shard_dirty (mark_shard_dirty X k (free_old k s)) ! shard_for_key X k"
    if "length (in_shard_dirty s) = NUM_SHARDS" by (rule mark_shard_dirty_nth) (simp add: that)
  ultimately show ?thesis using Some unfolding tracked_def remove_entry_def by (intro impI exI [of _ "{k}"]) simp
qed (simp add: remove_entry_def)

section \<open>The calls\<close>

lemma inner_alloc_state: "inner_alloc n s = (r, t) \<Longrightarrow> \<exists>a. t = s\<lparr>in_allocator := a\<rparr>"
  by (auto simp: inner_alloc_def split: sum.splits prod.splits intro: exI [of _ "in_allocator s"])

lemma put_tracked: "do_put_with_meta X now key payload ml s = (r, t) \<Longrightarrow> tracked X s t"
proof -
  assume run: "do_put_with_meta X now key payload ml s = (r, t)"
  have commit: "tracked X s' (insert_entry X key e (set_tombstones (hm_remove key (ix_tombstones (in_index (free_old key s'))))
      (free_old key s')))" for e s'
    using alters_chain [OF alters_free_old [of key s'] alters_untomb] by (rule trackedI)
  have "tracked X s (insert_entry X key e (set_tombstones (hm_remove key (ix_tombstones (in_index (free_old key (s1\<lparr>in_io := d\<rparr>)))))
      (free_old key (s1\<lparr>in_io := d\<rparr>))))" "tracked X s s1" if "inner_alloc n s = (ra, s1)" for n ra s1 d e
    using inner_alloc_state [OF that] commit [of "s1\<lparr>in_io := d\<rparr>" e] by auto
  then show ?thesis
    using run by (auto simp: do_put_with_meta_def Let_def split: if_splits prod.splits sum.splits)
qed

lemma copy_tracked: "do_copy X now k l s = (r, t) \<Longrightarrow> tracked X s t"
proof -
  assume run: "do_copy X now k l s = (r, t)"
  have "tracked X s (insert_entry X l e (free_old l (s1\<lparr>in_io := d\<rparr>)))" "tracked X s s1"
    if "inner_alloc n s = (ra, s1)" for n ra s1 d e
    using inner_alloc_state [OF that] trackedI [OF alters_free_old, of X "s1\<lparr>in_io := d\<rparr>" l e] by auto
  then show ?thesis
    using run by (auto simp: do_copy_def Let_def split: if_splits prod.splits sum.splits)
qed

lemma delete_tracked: "delete_object X k s = (r, t) \<Longrightarrow> tracked X s t"
  using remove_entry_tracked [of X s k] by (auto simp: delete_object_def split: if_splits option.splits)

text \<open>The tail of the renames.\<close>

lemma relabel_tracked:
  assumes "alters {k, l} s t"
  shows "tracked X s (set_files (hm_insert l e (files_of (mark_shard_dirty X l (mark_shard_dirty X k t))))
    (mark_shard_dirty X l (mark_shard_dirty X k t)))" (is "tracked X s ?u")
proof -
  let ?m = "mark_shard_dirty X l (mark_shard_dirty X k t)"
  have m: "alters {k, l} s ?m"
    by (rule alters_chain [OF alters_chain [OF assms alters_mark] alters_mark])
  have "alters {k, l} ?m ?u" by (rule alters_set_files) (simp_all add: hm_get_insert hm_wf_insert)
  then have "alters {k, l} s ?u" by (rule alters_chain [OF m])
  moreover have "in_shard_dirty ?u ! shard_for_key X x" if "x \<in> {k, l}" "length (in_shard_dirty s) = NUM_SHARDS" for x
  proof -
    have len: "length (in_shard_dirty t) = NUM_SHARDS" using assms that(2) by (simp add: alters_def)
    then have len': "length (in_shard_dirty (mark_shard_dirty X k t)) = NUM_SHARDS" by (simp add: mark_shard_dirty_def)
    show ?thesis
      using that(1) mark_shard_dirty_nth [OF len', of X l] alters_keeps_dirty [OF alters_mark len' mark_shard_dirty_nth [OF len]]
      by (auto simp: set_files_def)
  qed
  ultimately show ?thesis unfolding tracked_def by blast
qed

lemma rename_tracked: "rename_object X k l s = (r, t) \<Longrightarrow> tracked X s t"
proof -
  assume run: "rename_object X k l s = (r, t)"
  have "alters {k, l} s (set_files (hm_remove k (files_of s)) s)"
    by (rule alters_set_files) (simp_all add: hm_get_remove hm_wf_remove)
  from alters_chain [OF this alters_mono [OF alters_free_old [of l]]]
  have "alters {k, l} s (free_old l (set_files (hm_remove k (files_of s)) s))" by simp
  from relabel_tracked [OF this, of X] show ?thesis
    using run by (auto simp: rename_object_def Let_def split: if_splits option.splits)
qed

lemma exec_call_tracked: "exec_call X now c s = (ok, t) \<Longrightarrow> tracked X s t"
proof (cases c)
  case (CallRenameIf k l)
  moreover assume "exec_call X now c s = (ok, t)"
  ultimately show ?thesis
    using rename_tracked [of X k l s] by (auto simp: rename_if_not_exists_eq split: if_splits prod.splits)
qed (auto simp: put_opts_def put_with_meta_def do_put_def copy_if_not_exists_def copy_object_def Let_def
    dest: put_tracked copy_tracked delete_tracked rename_tracked split: prod.splits if_splits put_mode.splits)

lemma exec_call_frame:
  assumes "lawful X" and ok: "store_ok de s" and "call_admissible c" and "exec_call X now c s = (ok, t)"
  shows "dev_frame (in_io s) (in_io t) DATA_START de"
proof -
  have l: "crc_laws X" "codec_laws X" using assms(1) by (simp_all add: lawful_def)
  have put: "dev_frame (in_io s) (in_io u) DATA_START de"
    if "do_put_with_meta X now k p ml s = (r, u)" "length p < 2 ^ 63" for k p ml r u
    using do_put_spec [OF l ok that(2,1)] by blast
  have copy: "dev_frame (in_io s) (in_io u) DATA_START de" if "do_copy X now k k' s = (r, u)" for k k' r u
    using do_copy_spec [OF ok that] by blast
  have del: "in_io u = in_io s" if "delete_object X k s = (r, u)" for k r u
    using delete_object_spec [OF ok that] by blast
  have ren: "in_io u = in_io s" if "rename_object X k k' s = (r, u)" for k k' r u
    using rename_object_spec [OF ok that] by blast
  show ?thesis
  proof (cases c)
    case (CallPut k b mode)
    then show ?thesis
      using assms(3,4) put by (auto simp: put_opts_def do_put_def Let_def split: prod.splits if_splits put_mode.splits)
  next
    case (CallPutMeta k b m)
    then show ?thesis using assms(3,4) put by (auto simp: put_with_meta_def split: prod.splits if_splits)
  next
    case (CallRename k k')
    then show ?thesis using assms(4) ren by (auto split: prod.splits)
  next
    case (CallRenameIf k k')
    then show ?thesis using assms(4) ren by (auto simp: rename_if_not_exists_eq split: prod.splits if_splits)
  next
    case (CallDelete k)
    then show ?thesis using assms(4) del by (auto split: prod.splits)
  next
    case (CallCopy k k')
    then show ?thesis using assms(4) copy by (auto simp: copy_object_def split: prod.splits)
  next
    case (CallCopyIf k k')
    then show ?thesis using assms(4) copy by (auto simp: copy_if_not_exists_def copy_object_def split: prod.splits if_splits)
  qed
qed

section \<open>The state between two flushes\<close>

lemma flush_ready_step:
  assumes ready: "flush_ready X l ix0 s" and tr: "tracked X s t"
    and fr: "dev_frame (in_io s) (in_io t) DATA_START (il_region_a l)"
  shows "flush_ready X l ix0 t"
proof -
  have len: "length (in_shard_dirty s) = NUM_SHARDS" using ready by (simp add: flush_ready_def)
  obtain K where K: "alters K s t" "\<forall>k\<in>K. in_shard_dirty t ! shard_for_key X k"
    using tr len by (auto simp: tracked_def)
  let ?d = "dev_data (in_io s)" and ?d' = "dev_data (in_io t)"
  have l: "layout_ok (length ?d) l" and disk: "index_on_disk X l ?d ix0 (slots_of s)"
    and copies: "\<forall>off\<in>{0, 4096}. \<exists>c. sb_copy X ?d off = Inr ((in_superblock s)\<lparr>sb_superblock_checksum := c\<rparr>)"
    using ready by (simp_all add: flush_ready_def)
  have sb: "in_superblock t = in_superblock s" using K by (simp add: alters_def)
  have "index_on_disk X l ?d' ix0 (slots_of t)"
    unfolding sb using disk
    by (rule index_on_disk_image) (rule dev_frame_slice [OF fr], use shard_pos_bounds(1) [OF l] in blast)
  moreover have "\<forall>off\<in>{0, 4096}. \<exists>c. sb_copy X ?d' off = Inr ((in_superblock t)\<lparr>sb_superblock_checksum := c\<rparr>)"
  proof -
    have "slice ?d' 0 4096 = slice ?d 0 4096" "slice ?d' 4096 8192 = slice ?d 4096 8192"
      by (rule dev_frame_slice [OF fr]; simp add: layout_consts)+
    then show ?thesis using copies by (simp add: sb_copy_def sb)
  qed
  moreover have "shard_equiv (shard_bucket X ix0 i) (shard_bucket X (in_index t) i)"
    if i: "i < NUM_SHARDS" "\<not> in_shard_dirty t ! i" for i
  proof -
    have "\<not> in_shard_dirty s ! i" using K(1) i len by (auto simp: alters_def)
    then have "shard_equiv (shard_bucket X ix0 i) (shard_bucket X (in_index s) i)"
      using ready i(1) by (simp add: flush_ready_def)
    moreover have "k \<notin> K" if "shard_for_key X k = i" for k using K(2) i(2) that by blast
    then have "shard_equiv (shard_bucket X (in_index s) i) (shard_bucket X (in_index t) i)"
      using K(1) by (auto simp: shard_equiv_def shard_bucket_get alters_def fun_eq_iff)
    ultimately show ?thesis by (simp add: shard_equiv_def)
  qed
  moreover have "byte_quiet (in_io t) i"
    if "i < length ?d'" "i < DATA_START \<or> il_region_a l \<le> i" for i
    using ready fr that by (auto simp: flush_ready_def dev_frame_def)
  ultimately show ?thesis
    using ready K(1) dev_frame_length [OF fr] sb by (simp add: flush_ready_def alters_def)
qed

lemma exec_call_mounted:
  assumes laws: "lawful X" and m: "mounted X l ix0 A s" and c: "call_admissible c" and run: "exec_call X now c s = (ok, t)"
  shows "mounted X l ix0 (if ok then call_effect c A else A) t"
proof -
  have ready: "flush_ready X l ix0 s" and so: "store_ok (il_region_a l) s" and rep: "rep X s A" and cfg: "config_ok s"
    using m by (simp_all add: mounted_def)
  have tr: "tracked X s t" by (rule exec_call_tracked [OF run])
  have len: "length (in_shard_dirty s) = NUM_SHARDS" using ready by (simp add: flush_ready_def)
  have "flush_ready X l ix0 t" by (rule flush_ready_step [OF ready tr exec_call_frame [OF laws so c run]])
  moreover have "config_ok t" using tr cfg len by (auto simp: tracked_def alters_def config_ok_def)
  ultimately show ?thesis
    using exec_call_spec [OF laws so c run] rep by (simp add: mounted_def)
qed

text \<open>A mounted store is a store that refines a map, as long as it is not flushed.\<close>

interpretation mt: map_store "\<lambda>s. lawful X \<and> (\<exists>A. mounted X l ix0 A s)" "\<lambda>s A. mounted X l ix0 A s" "exec_call X now" call_effect
  call_admissible "get_object X"
proof
  fix s c ok s' A k v
  assume v: "lawful X \<and> (\<exists>A. mounted X l ix0 A s)"
  show "lawful X \<and> (\<exists>A. mounted X l ix0 A s')" if "call_admissible c" "exec_call X now c s = (ok, s')"
    using exec_call_mounted [OF _ _ that] v by blast
  show "mounted X l ix0 (if ok then call_effect c A else A) s'"
    if "mounted X l ix0 A s" "call_admissible c" "exec_call X now c s = (ok, s')"
    using exec_call_mounted [OF _ that] v by blast
  show "A k = Some v" if "mounted X l ix0 A s" "get_object X k s = Some v"
    using that do_get_sound [of "il_region_a l" s X A k] by (auto simp: mounted_def get_object_def split: sum.splits prod.splits)
qed

lemmas calls_mounted = mt.run_refines [THEN conjunct2, THEN conjunct2]

lemma mounted_crash:
  assumes "shard_laws X" and "mounted X l ix0 A s" and "crash_image (in_io s) img"
  shows "recovers X img ix0"
  using old_image [OF assms(1) _ frame_set_refl assms(3)] assms(2) unfolding mounted_def by blast

end
