(* ===== verification/Format.thy ===== *)
theory Format
  imports Recovery
begin

text \<open>
  Formatting: a formatted device carries an empty index in both superblock copies, its store is
  consistent and holds no object, and formatting succeeds on a device without faults.
\<close>

section \<open>The empty shards\<close>

lemma empty_bucket [simp]: "shard_bucket X index_new i = shard_default"
  by (simp add: shard_bucket_def index_new_def shard_default_def)

lemma index_new_wf [simp]: "index_wf index_new"
  by (simp add: index_wf_def index_new_def hm_wf_def)

lemma format_shards_spec:
  assumes laws: "shard_laws X" and ser: "shard_to_bytes X shard_default = Inr (bs, c)"
    and len: "length bs \<le> il_shard_slot l" and "layout_ok (length (dev_data dev)) l" and "set is \<subseteq> {..<256}" and "distinct is"
    and "format_shards l bs is dev = (r, dev')"
  shows "frame_set dev dev' (\<Union>i\<in>set is. slot_bytes l 0 i) \<and>
    (r = Inr () \<longrightarrow> (\<forall>i\<in>set is. \<forall>slots. slots ! i = \<lparr>active_slot = 0, slot_size = length bs mod 2 ^ 32, slot_crc = c\<rparr> \<longrightarrow>
       shard_on_disk X l (dev_data dev') index_new slots i))"
  using assms(4-)
proof (induction "is" arbitrary: dev)
  case Nil
  then show ?case by simp
next
  case (Cons i "is")
  have i: "i < 256" "i \<notin> set is" using Cons.prems(2,3) by auto
  obtain r1 d1 where pw: "pwrite dev (shard_offset l 0 i) bs = (r1, d1)" by fastforce
  note fo = flush_one [OF laws Cons.prems(1) i(1) _ _ index_new_wf len pw, unfolded empty_bucket, OF _ ser]
  have f1: "frame_set dev d1 (slot_bytes l 0 i)" by (rule fo) simp
  show ?case
  proof (cases r1)
    case (Inl e)
    then have "r = Inl e" "dev' = d1" using Cons.prems(4) pw by auto
    then show ?thesis using frame_set_mono [OF f1] by auto
  next
    case (Inr u)
    have l1: "layout_ok (length (dev_data d1)) l" using Cons.prems(1) frame_set_length [OF f1] by simp
    have run: "format_shards l bs is d1 = (r, dev')" using Cons.prems(4) pw Inr by simp
    note IH = Cons.IH [OF l1 _ _ run]
    have f2: "frame_set d1 dev' (\<Union>i\<in>set is. slot_bytes l 0 i)" using IH Cons.prems(2,3) by auto
    have dis: "slot_bytes l 0 i \<inter> (\<Union>i\<in>set is. slot_bytes l 0 i) = {}"
    proof -
      have "slot_bytes l 0 i \<inter> slot_bytes l 0 j = {}" if "j \<in> set is" for j
        using that i Cons.prems(2) by (intro slot_bytes_disjoint [OF l1]) auto
      then show ?thesis by blast
    qed
    have "shard_on_disk X l (dev_data dev') index_new slots i"
      if "slots ! i = \<lparr>active_slot = 0, slot_size = length bs mod 2 ^ 32, slot_crc = c\<rparr>" for slots
    proof -
      have "shard_on_disk X l (dev_data dev') index_new slots i = shard_on_disk X l (dev_data d1) index_new slots i"
      proof (rule shard_on_disk_cong)
        show "slice (dev_data dev') (shard_pos l 0 i) (shard_pos l 0 i + il_shard_slot l) =
            slice (dev_data d1) (shard_pos l 0 i) (shard_pos l 0 i + il_shard_slot l)"
          using dis by (intro frame_set_slice [OF f2])
        have "length bs mod 2 ^ 32 \<le> il_shard_slot l" using len by (meson le_trans mod_less_eq_dividend)
        then show "slot_size (slots ! i) \<le> il_shard_slot l" by (simp add: that)
      qed (simp_all add: that shard_equiv_def)
      also have "\<dots>" using fo(2) [of slots] Inr that by simp
      finally show ?thesis by simp
    qed
    then show ?thesis using frame_set_trans [OF f1 f2] IH Cons.prems(2,3) by auto
  qed
qed

lemma format_shards_ok:
  assumes "layout_ok (length (dev_data dev)) l" and "set is \<subseteq> {..<256}" and "bs \<noteq> []" and "length bs \<le> il_shard_slot l"
    and "\<not> dev_read_only dev" and "\<And>n. dev_wfault dev n = None"
  shows "fst (format_shards l bs is dev) = Inr ()"
  using assms
proof (induction "is" arbitrary: dev)
  case Nil
  then show ?case by simp
next
  case (Cons i "is")
  have i: "i < 256" using Cons.prems(2) by simp
  let ?p = "shard_pos l 0 i"
  note f = layout_facts [OF Cons.prems(1)] and b = shard_pos_bounds [OF Cons.prems(1) i, of 0]
  have sp: "write_span dev (length bs) \<le> il_shard_slot l"
    using Cons.prems(4) f(4) pad_len_mono [of "length bs" "il_shard_slot l"] by (simp add: write_span_def)
  have fits: "?p + write_span dev (length bs) \<le> length (dev_data dev)" using b(2) sp by simp
  have small: "length bs + 4095 < 2 ^ 64" using Cons.prems(4) f(10) by simp
  have ok: "fst (pwrite dev ?p bs) = Inr ()"
    using Cons.prems(3,5,6) b(3) fits small by (intro pwrite_ok) auto
  have fr: "dev_frame dev (snd (pwrite dev ?p bs)) ?p (?p + write_span dev (length bs))"
    by (rule pwrite_frame [OF fits small])
  have "fst (format_shards l bs is (snd (pwrite dev ?p bs))) = Inr ()"
    using Cons.prems dev_frame_length [OF fr] dev_frame_same [OF fr] by (intro Cons.IH) (auto simp: dev_same_def)
  then show ?case
    using ok shard_offset_pos [OF Cons.prems(1) i, of 0] by (cases "pwrite dev ?p bs") (auto split: sum.splits)
qed

section \<open>The first commit\<close>

lemma format_commit_spec:
  assumes len: "length new = 4096" and fits: "8192 \<le> length (dev_data dev)"
    and run: "format_commit new dev = (Inr (), dev')"
  shows "length (dev_data dev') = length (dev_data dev)" and "slice (dev_data dev') 0 4096 = new"
    and "slice (dev_data dev') 4096 8192 = new"
    and "8192 \<le> a \<Longrightarrow> slice (dev_data dev') a b = slice (dev_data dev) a b" and "byte_quiet dev' i"
    and "dev_same dev dev'"
proof -
  have small: "length new + 4095 < 2 ^ 64" using len by simp
  obtain d1 where p1: "pwrite dev 0 new = (Inr (), d1)"
    and rest: "(case pwrite d1 SUPERBLOCK_SIZE new of (Inl e, d2) \<Rightarrow> (Inl e, d2) | (Inr _, d2) \<Rightarrow> dev_sync d2) = (Inr (), dev')"
    using run by (auto simp: format_commit_def split: prod.splits sum.splits)
  obtain d2 where p2: "pwrite d1 4096 new = (Inr (), d2)" and sy: "dev_sync d2 = (Inr (), dev')"
    using rest by (auto simp: SUPERBLOCK_SIZE_def split: prod.splits sum.splits)
  have d1: "dev_data d1 = write_at (dev_data dev) 0 new"
    using pwrite_Inr [of 0 dev new] p1 len fits small by simp
  have l1: "length (dev_data d1) = length (dev_data dev)" using d1 len fits by (simp add: length_write_at)
  have d2: "dev_data d2 = write_at (dev_data d1) 4096 new"
    using pwrite_Inr [of 4096 d1 new] p2 len fits l1 small by simp
  note s = dev_sync_frame_set [OF sy]
  have d': "dev_data dev' = write_at (write_at (dev_data dev) 0 new) 4096 new" using s(2) d2 d1 by simp
  show "length (dev_data dev') = length (dev_data dev)" using d' len fits by (simp add: length_write_at)
  show "slice (dev_data dev') 4096 8192 = new"
    using slice_write_at_same [of 4096 new "dev_data d1"] len fits l1 by (simp add: d' d1)
  show "slice (dev_data dev') 0 4096 = new"
    using slice_write_at_same [of 0 new "dev_data dev"] len fits by (simp add: d' slice_write_at_disjoint length_write_at)
  show "slice (dev_data dev') a b = slice (dev_data dev) a b" if "8192 \<le> a"
    using that len fits by (simp add: d' slice_write_at_disjoint length_write_at)
  show "byte_quiet dev' i" using s(3) by simp
  have "dev_same dev d1" using dev_frame_same [OF pwrite_frame [of 0 dev new]] p1 len fits small by simp
  moreover have "dev_same d1 d2" using dev_frame_same [OF pwrite_frame [of 4096 d1 new]] p2 len fits small l1 by simp
  moreover have "dev_same d2 dev'" using s(1) by (simp add: frame_set_def)
  ultimately show "dev_same dev dev'" using dev_same_trans by blast
qed

lemma format_commit_ok:
  assumes len: "length new = 4096" and fits: "8192 \<le> length (dev_data dev)" and rw: "\<not> dev_read_only dev"
    and nw: "\<And>n. dev_wfault dev n = None" and ns: "\<And>n. \<not> dev_sfault dev n"
  shows "fst (format_commit new dev) = Inr ()"
proof -
  have small: "length new + 4095 < 2 ^ 64" and ne: "new \<noteq> []" using len by auto
  obtain r1 d1 where p1: "pwrite dev 0 new = (r1, d1)" by fastforce
  have r1: "r1 = Inr ()" using pwrite_ok [of dev 0 new] p1 len fits rw nw small ne by simp
  have f1: "dev_frame dev d1 0 4096" using pwrite_frame [of 0 dev new] p1 len fits small by simp
  obtain r2 d2 where p2: "pwrite d1 4096 new = (r2, d2)" by fastforce
  have same1: "dev_same dev d1" "length (dev_data d1) = length (dev_data dev)"
    using dev_frame_same [OF f1] dev_frame_length [OF f1] by simp_all
  have r2: "r2 = Inr ()"
    using pwrite_ok [of d1 4096 new] p2 len fits rw nw small ne same1 by (simp add: dev_same_def)
  have "dev_frame d1 d2 4096 8192" using pwrite_frame [of 4096 d1 new] p2 len fits small same1 by simp
  then have "dev_same dev d2" using dev_frame_same dev_same_trans same1(1) by blast
  then have "fst (dev_sync d2) = Inr ()" using rw ns by (simp add: dev_sync_def dev_same_def)
  then show ?thesis using p1 p2 r1 r2 by (simp add: format_commit_def SUPERBLOCK_SIZE_def)
qed

section \<open>The formatted store\<close>

text \<open>
  What formatting relies on: sizes in range and block aligned, a key limit, a block device of the
  size it is formatted for, and a serializer that writes an empty shard in less than a slot.
\<close>

definition format_valid :: "'x store_env_scheme \<Rightarrow> host_file \<Rightarrow> format_options \<Rightarrow> bool" where
  "format_valid X h opts \<longleftrightarrow>
     fo_index_slot_size opts < 2 ^ 40 \<and> 4096 dvd fo_device_size opts \<and> fo_device_size opts + 4096 \<le> 2 ^ 64 \<and>
     0 < fo_max_key_length opts \<and>
     (\<forall>d. host_contents h = Some d \<and> host_block h \<longrightarrow> length d = fo_device_size opts) \<and>
     (\<forall>d. x_ser_shard X shard_default = Some d \<longrightarrow> length d \<le> 65536)"

lemma format_layout:
  assumes "format_valid X h opts" and "validate_index_slot_size (fo_index_slot_size opts) = Inr ()"
    and "\<not> fo_device_size opts < min_device_size (fo_index_slot_size opts)"
  shows "layout_ok (fo_device_size opts) (layout_for (fo_device_size opts) (fo_index_slot_size opts))"
    and "65536 \<le> il_shard_slot (layout_for (fo_device_size opts) (fo_index_slot_size opts))"
    and "il_capacity (layout_for (fo_device_size opts) (fo_index_slot_size opts)) = fo_index_slot_size opts"
proof -
  let ?c = "fo_index_slot_size opts"
  have c: "16777216 \<le> ?c" "16777216 dvd ?c" "?c < 2 ^ 40"
    using assms(1,2) by (auto simp: validate_index_slot_size_def format_valid_def layout_consts mod_eq_0_iff_dvd split: if_splits)
  then have "min_device_size ?c = 12288 + 2 * ?c" by (simp add: min_device_size_def layout_consts uadd_def umul_def)
  then show "layout_ok (fo_device_size opts) (layout_for (fo_device_size opts) ?c)"
    using assms(1,3) c by (simp add: layout_ok_def format_valid_def layout_for_def layout_consts)
  show "65536 \<le> il_shard_slot (layout_for (fo_device_size opts) ?c)" using c(1) by (simp add: layout_for_def NUM_SHARDS_def)
qed (simp add: layout_for_def)

lemma format_device_spec:
  assumes laws: "sb_laws X" "shard_laws X" and l: "layout_ok (length (dev_data io)) l"
    and small: "\<And>d. x_ser_shard X shard_default = Some d \<Longrightarrow> length d \<le> il_shard_slot l"
    and cap: "fo_index_slot_size opts = il_capacity l" and run: "format_device X opts l max_key io = (Inr sb, d)"
  shows "\<exists>bs c. sb = format_superblock opts l max_key bs c"
    and "length (dev_data d) = length (dev_data io)" and "byte_quiet d i"
    and "index_on_disk X l (dev_data d) index_new (sb_shard_slots sb)"
    and "\<forall>off\<in>{0, 4096}. \<exists>c. sb_copy X (dev_data d) off = Inr (sb\<lparr>sb_superblock_checksum := c\<rparr>)" and "sb_valid sb"
    and "dev_same io d"
proof -
  obtain bs c where ser: "shard_to_bytes X shard_default = Inr (bs, c)"
    using run by (cases "shard_to_bytes X shard_default") (auto simp: format_device_def)
  then have bs: "length bs \<le> il_shard_slot l" using small by (auto simp: shard_to_bytes_def split: option.splits)
  obtain d1 where fs: "format_shards l bs [0..<NUM_SHARDS] io = (Inr (), d1)"
    using run ser by (auto simp: format_device_def split: prod.splits sum.splits)
  obtain new where sb: "sb = format_superblock opts l max_key bs c" and byt: "sb_to_bytes X sb = Inr new"
    and fc: "format_commit new d1 = (Inr (), d)"
    using run ser fs by (auto simp: format_device_def Let_def split: prod.splits sum.splits)
  show "\<exists>bs c. sb = format_superblock opts l max_key bs c" using sb by blast
  have sl: "sb_shard_slots sb = replicate NUM_SHARDS \<lparr>active_slot = 0, slot_size = length bs mod 2 ^ 32, slot_crc = c\<rparr>"
    by (simp add: sb format_superblock_def Let_def)
  show v: "sb_valid sb"
    by (simp add: sb format_superblock_def sb_valid_def Let_def sb_new_def)
  note rt = sb_roundtrip [OF laws(1) byt v]
  have all: "set [0..<NUM_SHARDS] \<subseteq> {..<256}" "distinct [0..<NUM_SHARDS]" by (auto simp: NUM_SHARDS_def)
  have fsp: "frame_set io d1 (\<Union>i\<in>set [0..<NUM_SHARDS]. slot_bytes l 0 i)"
    "\<forall>i\<in>set [0..<NUM_SHARDS]. \<forall>slots. slots ! i = \<lparr>active_slot = 0, slot_size = length bs mod 2 ^ 32, slot_crc = c\<rparr> \<longrightarrow>
       shard_on_disk X l (dev_data d1) index_new slots i"
    using format_shards_spec [OF laws(2) ser bs l all fs] by blast+
  have l1: "layout_ok (length (dev_data d1)) l" using l frame_set_length [OF fsp(1)] by simp
  have fits: "8192 \<le> length (dev_data d1)" using layout_facts(6,7) [OF l1] by (simp add: layout_consts)
  note f = format_commit_spec [OF rt(2) fits fc]
  show "length (dev_data d) = length (dev_data io)" using f(1) frame_set_length [OF fsp(1)] by simp
  show "byte_quiet d i" by (rule f(5))
  have "dev_same io d1" using fsp(1) by (simp add: frame_set_def)
  then show "dev_same io d" using f(6) dev_same_trans by blast
  show "\<forall>off\<in>{0, 4096}. \<exists>c. sb_copy X (dev_data d) off = Inr (sb\<lparr>sb_superblock_checksum := c\<rparr>)"
    using rt(1) f(2,3) by (simp add: sb_copy_def)
  have "length bs mod 2 ^ 32 \<le> il_shard_slot l" using bs by (meson le_trans mod_less_eq_dividend)
  then have "index_on_disk X l (dev_data d1) index_new (sb_shard_slots sb)"
    using fsp(2) by (auto simp: index_on_disk_def slots_ok_def sl)
  then show "index_on_disk X l (dev_data d) index_new (sb_shard_slots sb)"
  proof (rule index_on_disk_image)
    fix i :: nat
    assume i: "i < 256"
    let ?p = "shard_pos l (active_slot (sb_shard_slots sb ! i)) i"
    have "8192 \<le> ?p"
      using shard_pos_bounds(1) [OF l1 i, of "active_slot (sb_shard_slots sb ! i)"] layout_facts(7) [OF l1] by (simp add: layout_consts)
    then show "slice (dev_data d) ?p (?p + il_shard_slot l) = slice (dev_data d1) ?p (?p + il_shard_slot l)"
      by (rule f(4))
  qed
qed

lemma new_store_mounted:
  assumes l: "layout_ok (length (dev_data dev)) l" and q: "\<And>i. byte_quiet dev i"
    and disk: "index_on_disk X l (dev_data dev) index_new (sb_shard_slots sb)"
    and copies: "\<forall>off\<in>{0, 4096}. \<exists>c. sb_copy X (dev_data dev) off = Inr (sb\<lparr>sb_superblock_checksum := c\<rparr>)"
    and sb: "sb_valid sb" "sb = format_superblock opts l max_key bs c" and cap: "fo_index_slot_size opts = il_capacity l"
    and mk: "0 < max_key" "max_key < 2 ^ 32"
  shows "mounted X l index_new Map.empty
    \<lparr>in_io = dev, in_index = index_new, in_allocator = Some (alloc_new DATA_START (il_region_a l) BLOCK_ALIGNMENT),
     in_superblock = sb, in_dirty = False, in_read_only = False, in_shard_dirty = replicate NUM_SHARDS False,
     in_last_flush_bytes = 0, in_max_key_length = max_key, in_compression = fo_compression opts\<rparr>"
proof -
  note f = layout_facts [OF l]
  have "4096 dvd DATA_START" by (simp add: layout_consts)
  then have al: "area_inv DATA_START (il_region_a l) (alloc_new DATA_START (il_region_a l) BLOCK_ALIGNMENT)"
    using alloc_new_inv f(6,9) by (auto simp: area_inv_def)
  have room: "dev_room (il_region_a l) dev" using l f(6) by (auto simp: dev_room_def layout_ok_def)
  have fl: "sb_flags sb AND FLAG_WRITE_PROTECT = 0"
    by (simp add: sb(2) format_superblock_def Let_def sb_new_def FLAG_DIRECT_IO_def FLAG_WRITE_PROTECT_def)
  have sbf: "sb_index_slot_capacity sb = il_capacity l" "sb_max_key_length sb = max_key"
    "sb_compression sb = compression_as_u8 (fo_compression opts)"
    using cap mk by (simp_all add: sb(2) format_superblock_def Let_def sb_new_def)
  show ?thesis
    using l q disk copies sb(1) sbf fl al room mk
    by (simp add: mounted_def flush_ready_def space_inv_def rep_def config_ok_def files_of_def index_new_def hm_wf_def
        files_inv_def used_def alloc_new_free_set shard_equiv_def index_wf_def compression_u8_roundtrip)
qed

lemma dev_create_size:
  assumes "format_valid X h opts" and "dev_create h (fo_device_size opts) False = (Inr io, h1)"
  shows "length (dev_data io) = fo_device_size opts"
  using assms
  by (auto simp: format_valid_def dev_create_def dev_open_def open_file_def acquire_exclusive_lock_def mk_device_def Let_def
      split: if_splits option.splits)

lemma format_mounted:
  assumes laws: "sb_laws X" "shard_laws X" and fv: "format_valid X h opts"
    and run: "format_with_options X h opts = (Inr rs, h')"
  shows "mounted X (rs_layout rs) index_new Map.empty (rs_inner rs)"
    and "host_contents h' = Some (dev_data (in_io (rs_inner rs)))"
    and "sb_txn_id (in_superblock (rs_inner rs)) = 1"
    and "in_index (rs_inner rs) = index_new" and "in_shard_dirty (rs_inner rs) = replicate NUM_SHARDS False"
    and "\<exists>mk bs c. in_superblock (rs_inner rs) = format_superblock opts (rs_layout rs) mk bs c"
    and "\<not> dev_read_only (in_io (rs_inner rs))" and "dev_wfault (in_io (rs_inner rs)) = host_wfault h"
    and "dev_sfault (in_io (rs_inner rs)) = host_sfault h"
    and "rs_layout rs = layout_for (fo_device_size opts) (fo_index_slot_size opts)"
    and "in_compression (rs_inner rs) = fo_compression opts"
    and "in_max_key_length (rs_inner rs) = min (fo_max_key_length opts) (saturating_sub (il_shard_slot (rs_layout rs)) 98)"
    and "dev_rfault (in_io (rs_inner rs)) = host_rfault h"
proof -
  let ?slot = "fo_index_slot_size opts"
  define l where "l = layout_for (fo_device_size opts) ?slot"
  define max_key where "max_key = min (fo_max_key_length opts) (saturating_sub (il_shard_slot l) 98)"
  have v: "validate_index_slot_size ?slot = Inr ()" and mk: "\<not> fo_max_key_length opts > MAX_KEY_LENGTH_HARD_CEILING"
    and sz: "\<not> fo_device_size opts < min_device_size ?slot"
    using run by (auto simp: format_with_options_def Let_def split: if_splits sum.splits)
  note fl = format_layout [OF fv v sz, folded l_def]
  obtain io h1 where cr: "dev_create h (fo_device_size opts) False = (Inr io, h1)"
    using run v mk sz by (auto simp: format_with_options_def Let_def split: prod.splits sum.splits)
  obtain sb d where fd: "format_device X opts l max_key io = (Inr sb, d)"
    using run v mk sz cr by (auto simp: format_with_options_def Let_def l_def max_key_def split: prod.splits sum.splits)
  obtain io' where ro: "(if fo_direct_io opts then dev_open (host_after h1 d) True else Inr d) = Inr io'"
    and rs: "rs = \<lparr>rs_inner = \<lparr>in_io = io', in_index = index_new,
          in_allocator = Some (alloc_new DATA_START (il_region_a l) BLOCK_ALIGNMENT),
          in_superblock = sb, in_dirty = False, in_read_only = False, in_shard_dirty = replicate NUM_SHARDS False,
          in_last_flush_bytes = 0, in_max_key_length = max_key, in_compression = fo_compression opts\<rparr>,
        rs_layout = l, rs_next_upload_id = 0, rs_flush_log = []\<rparr>" and h': "h' = host_after h1 d"
    using run v mk sz cr fd
    by (auto simp: format_with_options_def Let_def l_def [symmetric] max_key_def [symmetric] split: sum.splits)
  have li: "layout_ok (length (dev_data io)) l" using fl(1) dev_create_size [OF fv cr] by simp
  have small: "length e \<le> il_shard_slot l" if "x_ser_shard X shard_default = Some e" for e
    using fv fl(2) that by (fastforce simp: format_valid_def)
  note fs = format_device_spec [OF laws li small fl(3) [symmetric] fd]
  have io': "dev_data io' = dev_data d" and q: "byte_quiet io' i" for i
    using ro fs(3) [of i]
    by (auto simp: dev_open_def open_file_def acquire_exclusive_lock_def host_after_def mk_device_def byte_quiet_def
        split: if_splits option.splits)
  have lo: "layout_ok (length (dev_data io')) l" using li fs(2) io' by simp
  obtain bs c where sb: "sb = format_superblock opts l max_key bs c" using fs(1) by blast
  have m: "0 < max_key" "max_key < 2 ^ 32"
    using fv fl(2) mk by (auto simp: max_key_def format_valid_def saturating_sub_def MAX_KEY_LENGTH_HARD_CEILING_def)
  show "mounted X (rs_layout rs) index_new Map.empty (rs_inner rs)"
    using new_store_mounted [OF lo q _ _ fs(6) sb fl(3) [symmetric] m] fs(4,5) io' by (simp add: rs)
  show "host_contents h' = Some (dev_data (in_io (rs_inner rs)))" by (simp add: h' rs io' host_after_def)
  show "sb_txn_id (in_superblock (rs_inner rs)) = 1" by (simp add: rs sb format_superblock_def Let_def)
  show "\<exists>mk bs c. in_superblock (rs_inner rs) = format_superblock opts (rs_layout rs) mk bs c" by (auto simp: rs sb)
  have io: "\<not> dev_read_only io" "dev_wfault io = host_wfault h" "dev_sfault io = host_sfault h" "dev_rfault io = host_rfault h"
    "host_wfault h1 = host_wfault h" "host_sfault h1 = host_sfault h" "host_rfault h1 = host_rfault h"
    using cr by (auto simp: dev_create_def dev_open_def open_file_def acquire_exclusive_lock_def mk_device_def Let_def
        split: if_splits option.splits)
  then have io': "\<not> dev_read_only io'" "dev_wfault io' = host_wfault h" "dev_sfault io' = host_sfault h"
    "dev_rfault io' = host_rfault h"
    using ro fs(7)
    by (auto simp: dev_open_def open_file_def acquire_exclusive_lock_def host_after_def mk_device_def dev_same_def
        split: if_splits option.splits)
  then show "\<not> dev_read_only (in_io (rs_inner rs))" "dev_wfault (in_io (rs_inner rs)) = host_wfault h"
    "dev_sfault (in_io (rs_inner rs)) = host_sfault h" "dev_rfault (in_io (rs_inner rs)) = host_rfault h"
    by (simp_all add: rs)
  show "in_index (rs_inner rs) = index_new" "in_shard_dirty (rs_inner rs) = replicate NUM_SHARDS False"
    "rs_layout rs = layout_for (fo_device_size opts) (fo_index_slot_size opts)"
    "in_compression (rs_inner rs) = fo_compression opts"
    "in_max_key_length (rs_inner rs) = min (fo_max_key_length opts) (saturating_sub (il_shard_slot (rs_layout rs)) 98)"
    by (simp_all add: rs l_def max_key_def)
qed

text \<open>Formatting a new file, or a free block device, without faults succeeds.\<close>

lemma format_succeeds:
  assumes laws: "sb_laws X" "shard_laws X" and fv: "format_valid X h opts"
    and slot: "validate_index_slot_size (fo_index_slot_size opts) = Inr ()"
    and key: "fo_max_key_length opts \<le> MAX_KEY_LENGTH_HARD_CEILING"
    and size: "min_device_size (fo_index_slot_size opts) \<le> fo_device_size opts"
    and host: "\<not> host_denied h" "\<not> host_locked h" "\<And>n. host_wfault h n = None" "\<And>n. \<not> host_sfault h n"
    and shard: "x_ser_shard X shard_default \<noteq> None"
    and sbs: "\<And>max_key bs c. length bs < 2 ^ 32 \<Longrightarrow> max_key \<le> MAX_KEY_LENGTH_HARD_CEILING \<Longrightarrow> is_ok (sb_to_bytes X (format_superblock opts
        (layout_for (fo_device_size opts) (fo_index_slot_size opts)) max_key bs c))"
  shows "\<exists>rs h'. format_with_options X h opts = (Inr rs, h')"
proof -
  define l where "l = layout_for (fo_device_size opts) (fo_index_slot_size opts)"
  define max_key where "max_key = min (fo_max_key_length opts) (saturating_sub (il_shard_slot l) 98)"
  have sz: "\<not> fo_device_size opts < min_device_size (fo_index_slot_size opts)" using size by simp
  note fl = format_layout [OF fv slot sz, folded l_def]
  have "\<exists>io h1. dev_create h (fo_device_size opts) False = (Inr io, h1) \<and> \<not> dev_read_only io \<and>
      (\<forall>n. dev_wfault io n = None) \<and> (\<forall>n. \<not> dev_sfault io n) \<and> \<not> host_denied h1 \<and> \<not> host_locked h1"
    using host
    by (cases "host_contents h \<noteq> None \<and> host_block h")
      (auto simp: dev_create_def dev_open_def open_file_def acquire_exclusive_lock_def mk_device_def Let_def)
  then obtain io h1 where cr: "dev_create h (fo_device_size opts) False = (Inr io, h1)"
    and io: "\<not> dev_read_only io" "\<And>n. dev_wfault io n = None" "\<And>n. \<not> dev_sfault io n"
    and h1: "\<not> host_denied h1" "\<not> host_locked h1" by blast
  have li: "layout_ok (length (dev_data io)) l" using fl(1) dev_create_size [OF fv cr] by simp
  obtain bs where bs: "x_ser_shard X shard_default = Some bs" using shard by blast
  define c where "c = x_crc32c X bs"
  have ser: "shard_to_bytes X shard_default = Inr (bs, c)" using bs by (simp add: shard_to_bytes_def c_def)
  have b1: "bs \<noteq> []"
    using shard_roundtrip(2) [OF laws(2) _ ser] by (simp add: shard_wf_def shard_default_def hm_wf_def)
  have b2: "length bs \<le> il_shard_slot l" "length bs < 2 ^ 32" using fv bs fl(2) by (fastforce simp: format_valid_def)+
  have all: "set [0..<NUM_SHARDS] \<subseteq> {..<256}" "distinct [0..<NUM_SHARDS]" by (auto simp: NUM_SHARDS_def)
  obtain d1 where fs: "format_shards l bs [0..<NUM_SHARDS] io = (Inr (), d1)"
    using format_shards_ok [OF li all(1) b1 b2(1) io(1,2)] by (metis prod.collapse)
  have fr: "frame_set io d1 (\<Union>i\<in>set [0..<NUM_SHARDS]. slot_bytes l 0 i)"
    using format_shards_spec [OF laws(2) ser b2(1) li all fs] by blast
  have sm: "dev_same io d1" "length (dev_data d1) = length (dev_data io)" using fr by (simp_all add: frame_set_def)
  define sb where "sb = format_superblock opts l max_key bs c"
  have "max_key \<le> MAX_KEY_LENGTH_HARD_CEILING" using key by (simp add: max_key_def)
  then obtain new where new: "sb_to_bytes X sb = Inr new"
    using sbs [OF b2(2), of max_key c] unfolding sb_def l_def by (cases "sb_to_bytes X (format_superblock opts
        (layout_for (fo_device_size opts) (fo_index_slot_size opts)) max_key bs c)") auto
  have v: "sb_valid sb" by (simp add: sb_def format_superblock_def sb_valid_def Let_def sb_new_def)
  have "8192 \<le> length (dev_data d1)" using layout_facts(6,7) [OF li] sm(2) by (simp add: layout_consts)
  then obtain d2 where fc: "format_commit new d1 = (Inr (), d2)"
    using format_commit_ok [OF sb_roundtrip(2) [OF laws(1) new v], of d1] io sm(1) by (metis dev_same_def prod.collapse)
  have fd: "format_device X opts l max_key io = (Inr sb, d2)"
    using ser fs new fc by (simp add: format_device_def sb_def Let_def)
  have "\<exists>io'. (if fo_direct_io opts then dev_open (host_after h1 d2) True else Inr d2) = Inr io'"
    using h1 by (simp add: dev_open_def open_file_def host_after_def acquire_exclusive_lock_def)
  then show ?thesis
    using slot key sz cr fd
    by (auto simp: format_with_options_def Let_def l_def [symmetric] max_key_def [symmetric])
qed

end
