(* ===== verification/Extent_Properties.thy ===== *)
theory Extent_Properties
  imports Reference_Env
begin

text \<open>
  The properties of the device layer, of the extent codec and of the on-disk records: device
  writes and reads, the CRC-protected blocks in their batch and streaming forms, compression
  names and codecs, the superblock and the index shards.
\<close>

section \<open>Device\<close>

text \<open>
  A device write changes no byte outside its span (the padded length in direct mode, the exact
  length otherwise), whatever write fault strikes; when it reports success, reading the same
  position returns the bytes written, if the read itself does not fail.
\<close>

lemma pwrite_pread:
  assumes "dev_direct dev \<longrightarrow> 4096 dvd off" and "length bs + 4095 < 2 ^ 64"
    and "off + write_span dev (length bs) \<le> length (dev_data dev)"
    and "pwrite dev off bs = (r, dev')" and "\<forall>n. \<not> dev_rfault dev off n"
  shows "dev_frame dev dev' off (off + write_span dev (length bs)) \<and>
    (r = Inr () \<longrightarrow> pread dev' off (length bs) = Inr bs)"
proof -
  have fr: "dev_frame dev dev' off (off + write_span dev (length bs))"
    using pwrite_frame [OF assms(3,2)] assms(4) by simp
  note same = dev_frame_same [OF fr]
  have "pread dev' off (length bs) = Inr bs" if ok: "r = Inr ()"
  proof -
    have "pread dev' off (length bs) = Inr (slice (dev_data dev') off (off + length bs))"
      using same assms dev_frame_length [OF fr] dev_same_span [OF same]
      by (intro pread_ok) (auto simp: dev_same_def)
    then show ?thesis using pwrite_slice [OF assms(3,2)] assms(4) ok by simp
  qed
  then show ?thesis using fr by simp
qed

definition ref_payload :: "byte list" where
  "ref_payload = [1, 2, 3]"

lemma ref_payload_simps [simp]: "length ref_payload = 3" "ref_payload \<noteq> []"
  by (simp_all add: ref_payload_def)

text \<open>
  Creating a device on a regular file: the file is replaced by zeroes of the requested size
  before the lock is tried, so that a file locked by another process is destroyed although the
  caller gets \<open>DeviceLocked\<close>; an existing block device is opened and left as it is.
\<close>

lemma dev_create_truncates:
  "(if host_contents h \<noteq> None \<and> host_block h then snd (dev_create h sz direct) = h
    else if host_denied h then snd (dev_create h sz direct) = h
    else host_contents (snd (dev_create h sz direct)) = Some (replicate sz 0) \<and>
      fst (dev_create h sz direct) =
        (if host_locked h then Inl DeviceLocked else
         Inr (mk_device (h\<lparr>host_contents := Some (replicate sz 0), host_block := False\<rparr>) (replicate sz 0) direct False)))"
  by (auto simp: dev_create_def dev_open_def open_file_def acquire_exclusive_lock_def Let_def)

section \<open>Extents\<close>

text \<open>
  Writing an extent and reading it back. Whatever write fails, only the extent's own bytes
  change and the code does not panic; after a successful write, every read that returns data
  returns the payload, and it does return when the device can be read.
\<close>

lemma extent_write_read:
  assumes "extent_fits dev off (num_blocks (length p))"
    and "encode_and_write_batched X dev off p = (r, dev')"
  shows "dev_frame dev dev' off (off + num_blocks (length p) * 4096) \<and> r \<noteq> Inl Panicked \<and>
    (r = Inr () \<longrightarrow>
      (\<forall>q. read_and_decode_batched X dev' off (length p) = Inr q \<longrightarrow> q = p) \<and>
      ((\<forall>i n. \<not> dev_rfault dev i n) \<longrightarrow> read_and_decode_batched X dev' off (length p) = Inr p))"
proof -
  have fr: "dev_frame dev dev' off (off + num_blocks (length p) * 4096)"
    using encode_and_write_frame [OF assms(1), of X] assms(2) by simp
  moreover have "r \<noteq> Inl Panicked"
    using encode_and_write_no_panic [OF assms(1), of X] assms(2) by simp
  moreover have "(\<forall>q. read_and_decode_batched X dev' off (length p) = Inr q \<longrightarrow> q = p) \<and>
      ((\<forall>i n. \<not> dev_rfault dev i n) \<longrightarrow> read_and_decode_batched X dev' off (length p) = Inr p)"
    if "r = Inr ()"
  proof -
    note st = encode_and_write_stored [OF assms(1) assms(2) [unfolded that]]
    have "dev_rfault dev' = dev_rfault dev" using dev_frame_same [OF fr] by (simp add: dev_same_def)
    then show ?thesis using stored_read_Inr [OF st] stored_read_ok [OF st] by auto
  qed
  ultimately show ?thesis by blast
qed

lemma ref_extent_fits: "off \<in> {8192, 12288} \<Longrightarrow> n \<le> 5 \<Longrightarrow> extent_fits ref_dev off n"
  by (auto simp: extent_fits_def)

lemma ref_num_blocks: "num_blocks 3 = 1"
  by (simp add: num_blocks_def div_ceil_def)

lemma ref_write_ok:
  "encode_and_write_batched ref_env ref_dev 8192 ref_payload =
     (Inr (), snd (encode_and_write_batched ref_env ref_dev 8192 ref_payload))"
  using encode_and_write_ok [of ref_dev 8192 ref_payload ref_env] ref_extent_fits [of 8192 1]
  by (simp add: prod_eq_iff ref_num_blocks)

text \<open>
  The block code is its own inverse: decoding an encoded payload gives the payload, decoding
  any block range that covers a byte range gives that byte range, and the encoding takes exactly
  the padded extent size.
\<close>

lemma block_code_roundtrip:
  "decode_blocks X (encode_blocks X p) (length p) = Inr p \<and>
   length (encode_blocks X p) = num_blocks (length p) * 4096 \<and>
   (\<forall>f k a b. f * 4092 \<le> a \<and> a \<le> b \<and> b \<le> length p \<and> b \<le> (f + k) * 4092 \<and> f + k \<le> num_blocks (length p) \<longrightarrow>
     decode_block_range X (slice (encode_blocks X p) (f * 4096) ((f + k) * 4096)) f a b = Inr (slice p a b))"
proof (intro conjI allI impI)
  show "decode_blocks X (encode_blocks X p) (length p) = Inr p" by (rule decode_encode_blocks)
  show "length (encode_blocks X p) = num_blocks (length p) * 4096" by (rule length_encode_blocks)
  fix f k a b
  assume h: "f * 4092 \<le> a \<and> a \<le> b \<and> b \<le> length p \<and> b \<le> (f + k) * 4092 \<and> f + k \<le> num_blocks (length p)"
  have e: "encode_blocks X p = enc_blocks X p 0 f @ enc_blocks X p f (f + k) @ enc_blocks X p (f + k) (num_blocks (length p))"
    using h enc_blocks_append [of 0 f "num_blocks (length p)" X p] enc_blocks_append [of f "f + k" "num_blocks (length p)" X p]
    by (simp add: encode_blocks_eq)
  have "slice (encode_blocks X p) (f * 4096) ((f + k) * 4096) = enc_blocks X p f (f + k)"
    using h by (simp add: e slice_def length_enc_blocks add_mult_distrib)
  then show "decode_block_range X (slice (encode_blocks X p) (f * 4096) ((f + k) * 4096)) f a b = Inr (slice p a b)"
    using h by (simp add: decode_block_range_encoded)
qed

lemma decode_loop_Inl:
  "decode_loop X raw first plen is c = Inl e \<Longrightarrow>
     \<exists>xs i ys. is = xs @ i # ys \<and> (\<forall>j\<in>set xs. block_ok X (nth_block raw j)) \<and>
       verify_block_crc X (nth_block raw i) (first + i) = Inl e"
proof (induction "is" arbitrary: c)
  case Nil
  then show ?case by simp
next
  case (Cons i "is")
  show ?case
  proof (cases "verify_block_crc X (nth_block raw i) (first + i)")
    case (Inl e')
    then have "e' = e" using Cons.prems by (simp add: add.commute)
    with Inl show ?thesis by (intro exI [of _ "[]"]) auto
  next
    case (Inr d)
    then obtain c' where "decode_loop X raw first plen is c' = Inl e" using Cons.prems by (auto simp: add.commute)
    from Cons.IH [OF this] obtain xs j ys where "is = xs @ j # ys"
      "\<forall>j\<in>set xs. block_ok X (nth_block raw j)" "verify_block_crc X (nth_block raw j) (first + j) = Inl e" by blast
    then show ?thesis using Inr by (intro exI [of _ "i # xs"] exI [of _ j] exI [of _ ys]) (auto simp: verify_block_crc_Inr)
  qed
qed

text \<open>
  C40. Corruption is reported. Reading an extent from a device that can be read returns data only
  when the stored CRC of every block matches its bytes, and then exactly those bytes cut to the
  payload length; otherwise it reports the first block that does not match, with both CRCs.
\<close>

theorem read_detects_corruption:
  assumes "extent_fits dev off (num_blocks len)" and "\<forall>i n. \<not> dev_rfault dev i n"
  shows "let n = num_blocks len; block = (\<lambda>i. slice (dev_data dev) (off + i * 4096) (off + (i + 1) * 4096)) in
    case read_and_decode_batched X dev off len of
      Inr q \<Rightarrow> (\<forall>i < n. block_ok X (block i)) \<and> q = take len (concat (map (\<lambda>i. drop 4 (block i)) [0..<n]))
    | Inl e \<Rightarrow> \<exists>i < n. (\<forall>j < i. block_ok X (block j)) \<and> \<not> block_ok X (block i) \<and>
        e = DataCorruption (''block '' @ show_nat i) (u32_from_le_bytes (take 4 (block i))) (x_crc32c X (drop 4 (block i)))"
proof -
  define n where "n = num_blocks len"
  define raw where "raw = extent_bytes dev off n"
  define block where "block = (\<lambda>i. slice (dev_data dev) (off + i * 4096) (off + (i + 1) * 4096))"
  have len: "length raw = n * 4096" using assms(1) by (simp add: raw_def n_def length_extent_bytes)
  have blk: "nth_block raw i = block i" if "i < n" for i
  proof -
    have "(i + 1) * 4096 \<le> n * 4096" using that by (intro mult_le_mono1) simp
    then show ?thesis unfolding raw_def block_def by (subst slice_slice) (simp_all add: add.assoc)
  qed
  have rd: "read_and_decode_batched X dev off len = decode_loop X raw 0 len [0..<n] []"
    using read_and_decode_no_fault [OF assms(1), of X] assms(2) decode_blocks_extent [OF assms(1), of X len]
    by (simp add: raw_def n_def)
  have bnd: "\<forall>i\<in>set [0..<n]. (i + 1) * 4096 \<le> length raw"
    unfolding len by (intro ballI mult_le_mono1) simp
  show ?thesis
  proof (cases "decode_loop X raw 0 len [0..<n] []")
    case (Inr q)
    then have "(\<forall>i < n. block_ok X (block i)) \<and> q = take len (concat (map (\<lambda>i. drop 4 (nth_block raw i)) [0..<n]))"
      using decode_loop_Inr_iff [OF bnd, of "[]" len X 0 q] blk by auto
    moreover have "map (\<lambda>i. drop 4 (nth_block raw i)) [0..<n] = map (\<lambda>i. drop 4 (block i)) [0..<n]"
      using blk by (intro map_cong) auto
    ultimately show ?thesis
      unfolding Let_def n_def [symmetric] block_def [symmetric] rd Inr sum.case by metis
  next
    case (Inl e)
    then obtain xs i ys where sp: "[0..<n] = xs @ i # ys" and ok: "\<forall>j\<in>set xs. block_ok X (nth_block raw j)"
      and bad: "verify_block_crc X (nth_block raw i) (0 + i) = Inl e"
      using decode_loop_Inl by blast
    have i: "i < n" using arg_cong [OF sp, of set] by auto
    have xs: "xs = [0..<i]"
    proof -
      have "length xs < n" using arg_cong [OF sp, of length] by simp
      then have "i = length xs" using arg_cong [OF sp, of "\<lambda>l. l ! length xs"] by simp
      moreover have "xs = take (length xs) [0..<n]" using sp by simp
      ultimately show ?thesis using i by (metis add_0 take_upt less_imp_le)
    qed
    have "\<forall>j < i. block_ok X (block j)" using ok xs blk i by (metis atLeast0LessThan atLeastLessThan_upt lessThan_iff less_trans)
    then show ?thesis
      using i bad blk [OF i] unfolding Let_def n_def [symmetric] block_def [symmetric] rd Inl sum.case
      by (auto simp: verify_block_crc_Inl)
  qed
qed

theorem read_detects_corruption_witness:
  "let n = num_blocks 3; block = (\<lambda>i. slice (dev_data ref_dev) (8192 + i * 4096) (8192 + (i + 1) * 4096)) in
    case read_and_decode_batched ref_env ref_dev 8192 3 of
      Inr q \<Rightarrow> (\<forall>i < n. block_ok ref_env (block i)) \<and> q = take 3 (concat (map (\<lambda>i. drop 4 (block i)) [0..<n]))
    | Inl e \<Rightarrow> \<exists>i < n. (\<forall>j < i. block_ok ref_env (block j)) \<and> \<not> block_ok ref_env (block i) \<and>
        e = DataCorruption (''block '' @ show_nat i) (u32_from_le_bytes (take 4 (block i)))
          (x_crc32c ref_env (drop 4 (block i)))"
  by (rule read_detects_corruption) (simp_all add: ref_num_blocks ref_extent_fits)

text \<open>
  C39. The streaming writer equals the batch writer: however the payload is cut into chunks, feeding
  them to the writer and finishing gives the same result and the same device, write for write and
  fault for fault, as encoding the concatenation in one call.
\<close>

theorem streaming_writer_equiv:
  "write_chunks X dev (bw_new off) cs = encode_and_write_batched X dev off (concat cs)"
  using write_chunks_eq_batched [OF writer_inv_new, of X dev off cs]
  by (simp add: encode_and_write_batched_def)

text \<open>
  The streaming reader equals the batch reader: the chunks it yields, put together, are what the
  batch reader returns, and it fails exactly when the batch reader fails, with the same error.
\<close>

lemma streaming_reader_equiv:
  "collect_chunks X dev (br_new off sz) [] = read_and_decode_batched X dev off sz"
  by (rule collect_chunks_new)

text \<open>
  The \<open>Read\<close> adapter hands the payload on: a read into a non-empty buffer returns the next
  bytes, at most as many as the buffer holds, and leaves exactly the rest to be read; it
  returns nothing only at the end.
\<close>

lemma read_adapter_step:
  assumes "bio_err b = None" and "reader_ok (bio_reader b)" and "bio_rest X dev b = Inr t" and "0 < len"
  shows "\<exists>bs b' t'. bio_read X dev len b = (Inr bs, b') \<and> bio_err b' = None \<and> reader_ok (bio_reader b') \<and>
    bio_rest X dev b' = Inr t' \<and> t = bs @ t' \<and> length bs \<le> len \<and> (bs = [] \<longrightarrow> t = [])"
  using assms by (rule bio_read_rest)

section \<open>Compression\<close>

text \<open>
  The codec byte and the codec name identify the codec: both parse back to it, no byte above
  twelve is accepted, and compressed data that is stored (because it is smaller) decompresses to
  the original.
\<close>

lemma compression_roundtrip:
  assumes "codec_laws X"
  shows "compression_from_u8 (compression_as_u8 c) = Inr c \<and>
    compression_from_str_name (compression_as_str c) = Inr c \<and>
    (\<forall>v. 12 < v \<longrightarrow> compression_from_u8 v = Inl (Io InvalidData)) \<and>
    (\<forall>d v. compress X c d = Some v \<and> length v < length d \<longrightarrow> decompress X c v = Inr d)"
  using compression_u8_roundtrip [of c] compression_name_roundtrip [of c] compression_from_u8_error
    compress_smaller_decompress [OF assms] by auto

section \<open>On-disk records\<close>

text \<open>
  Superblock round trip: a serialized superblock is one block long, the reader accepts it and
  returns the superblock with its checksum filled in; a reader accepts nothing with a wrong magic,
  version, shard count or alignment.
\<close>

lemma superblock_roundtrip:
  assumes "sb_laws X" and "sb_to_bytes X sb = Inr buf" and "sb_valid sb"
  shows "length buf = 4096 \<and> (\<exists>c. sb_from_bytes X buf = Inr (sb\<lparr>sb_superblock_checksum := c\<rparr>)) \<and>
    (\<forall>other t. sb_from_bytes X other = Inr t \<longrightarrow> sb_valid t)"
  using sb_roundtrip [OF assms] sb_from_bytes_valid by blast

lemma ref_sb_new_bytes: "\<exists>buf. sb_to_bytes ref_env (sb_new 40960 4096 40960 0 1024 CNone) = Inr buf"
proof -
  let ?sb = "sb_new 40960 4096 40960 0 1024 CNone"
  have r: "sb_range ?sb" by (simp add: sb_range_def sb_new_def SUPERBLOCK_MAGIC_def list_valid_def NUM_SHARDS_def
        slot_range_def slot_default_def)
  have sl: "length (concat (map enc_slot (replicate n slot_default))) = 9 * n" for n
    by (induction n) (simp_all add: enc_slot_def)
  have "length (enc_sb_rest ?sb) \<le> 4092"
    using sl [of NUM_SHARDS]
    by (simp add: enc_sb_rest_def sb_new_def enc_string_def enc_list_def SUPERBLOCK_MAGIC_def NUM_SHARDS_def
        del: map_replicate)
  moreover have "x_ser_sb ref_env (?sb\<lparr>sb_superblock_checksum := 0\<rparr>) = Some (u32_to_le_bytes 0 @ enc_sb_rest ?sb)"
    using r by (simp add: ref_env_def ref_ser_sb_def sb_range_def enc_sb_rest_def)
  ultimately show ?thesis by (intro sb_to_bytes_ok [OF ref_sb_laws]) auto
qed

text \<open>
  Index shard round trip: a serialized shard with its CRC reads back to a shard with the same
  entries and tombstones; bytes with another CRC are rejected as corrupt before they are parsed.
\<close>

lemma index_shard_roundtrip:
  assumes "shard_laws X" and "shard_wf s" and "shard_to_bytes X s = Inr (d, c)"
  shows "(\<exists>t. shard_from_bytes X d c = Inr t \<and> shard_equiv s t) \<and>
    (\<forall>d' c'. x_crc32c X d' \<noteq> c' \<longrightarrow> shard_from_bytes X d' c' = Inl IndexCorrupt)"
proof -
  have "\<forall>d' c'. x_crc32c X d' \<noteq> c' \<longrightarrow> shard_from_bytes X d' c' = Inl IndexCorrupt"
    by (simp add: shard_from_bytes_def)
  then show ?thesis using shard_roundtrip(1) [OF assms] by blast
qed

end
