(* ===== verification/Durability.thy ===== *)
theory Durability
  imports Dirty_Tracking Format Extent_Properties
begin

text \<open>
  Properties of the life of a raw store: a session of calls, flushes and reopened devices refines a
  map, a crash finds the last committed index or the new one, and the free list that an open
  rebuilds is the one the running store had.
\<close>

section \<open>Flushes that succeed\<close>

lemma commit_ok:
  assumes len: "length new = 4096" and fits: "8192 \<le> length (dev_data dev)" and rw: "\<not> dev_read_only dev"
    and nw: "\<And>n. dev_wfault dev n = None" and ns: "\<And>n. \<not> dev_sfault dev n"
  shows "fst (commit_superblock new dev) = Inr ()"
proof -
  have small: "length new + 4095 < 2 ^ 64" and ne: "new \<noteq> []" using len by auto
  have step: "\<exists>d'. pwrite d off new = (Inr (), d') \<and> dev_same dev d' \<and> length (dev_data d') = length (dev_data dev)"
    if "dev_same dev d" "length (dev_data d) = length (dev_data dev)" "off = 0 \<or> off = 4096" for d off
  proof -
    have "fst (pwrite d off new) = Inr ()"
      using that len fits rw nw small ne by (intro pwrite_ok) (auto simp: dev_same_def)
    moreover have "dev_frame d (snd (pwrite d off new)) off (off + 4096)"
      using pwrite_frame [of off d new] that len fits small by auto
    ultimately show ?thesis
      using dev_frame_same dev_frame_length dev_same_trans [OF that(1)] that(2) by (metis prod.collapse)
  qed
  have sync: "\<exists>d'. dev_sync d = (Inr (), d') \<and> dev_same dev d' \<and> length (dev_data d') = length (dev_data dev)"
    if "dev_same dev d" "length (dev_data d) = length (dev_data dev)" for d
    using that rw ns by (simp add: dev_sync_def dev_same_def)
  obtain d1 where d1: "pwrite dev 0 new = (Inr (), d1)" "dev_same dev d1" "length (dev_data d1) = length (dev_data dev)"
    using step [of dev 0] by auto
  obtain d2 where d2: "dev_sync d1 = (Inr (), d2)" "dev_same dev d2" "length (dev_data d2) = length (dev_data dev)"
    using sync [OF d1(2,3)] by blast
  obtain d3 where d3: "pwrite d2 4096 new = (Inr (), d3)" "dev_same dev d3" "length (dev_data d3) = length (dev_data dev)"
    using step [OF d2(2,3), of 4096] by blast
  obtain d4 where "dev_sync d3 = (Inr (), d4)" using sync [OF d3(2,3)] by blast
  then show ?thesis using d1(1) d2(1) d3(1) by (simp add: commit_superblock_def SUPERBLOCK_SIZE_def)
qed

text \<open>Every dirty shard has a serialized form that fits its slot.\<close>

definition shards_fit :: "'x store_env_scheme \<Rightarrow> index_layout \<Rightarrow> inner \<Rightarrow> bool" where
  "shards_fit X l self \<longleftrightarrow>
     (\<forall>i < NUM_SHARDS. in_shard_dirty self ! i \<longrightarrow>
        (\<exists>bs c. shard_to_bytes X (shard_bucket X (in_index self) i) = Inr (bs, c) \<and> length bs \<le> il_shard_slot l))"

lemma flush_shards_ok:
  assumes laws: "shard_laws X" and "layout_ok (length (dev_data (in_io self))) l" and "slots_ok l (slots_of self)"
    and "index_wf (in_index self)" and "shards_fit X l self" and "set is \<subseteq> {..<256}"
    and "\<not> dev_read_only (in_io self)" and "\<And>n. dev_wfault (in_io self) n = None"
  shows "is_ok (fst (flush_shards X l is bw self))"
  using assms(2-)
proof (induction "is" arbitrary: self bw)
  case Nil
  then show ?case by simp
next
  case (Cons i "is")
  have i: "i < 256" using Cons.prems(5) by simp
  show ?case
  proof (cases "in_shard_dirty self ! i")
    case False
    then show ?thesis using Cons.IH [of self bw] Cons.prems by simp
  next
    case True
    obtain bs c where ser: "shard_to_bytes X (shard_bucket X (in_index self) i) = Inr (bs, c)" and len: "length bs \<le> il_shard_slot l"
      using Cons.prems(4) True i by (auto simp: shards_fit_def NUM_SHARDS_def)
    define slot where "slot = new_slot_of (active_slot (slots_of self ! i))"
    have old: "active_slot (slots_of self ! i) \<le> 1" using Cons.prems(2) i by (auto simp: slots_ok_def NUM_SHARDS_def)
    then have slot: "slot \<le> 1" by (simp add: slot_def new_slot_of_le)
    let ?p = "shard_pos l slot i"
    note f = layout_facts [OF Cons.prems(1)] and b = shard_pos_bounds [OF Cons.prems(1) i, of slot]
    have sp: "write_span (in_io self) (length bs) \<le> il_shard_slot l"
      using len f(4) pad_len_mono [of "length bs" "il_shard_slot l"] by (simp add: write_span_def)
    have fits: "?p + write_span (in_io self) (length bs) \<le> length (dev_data (in_io self))" using b(2) sp by simp
    have small: "length bs + 4095 < 2 ^ 64" using len f(10) by simp
    have ne: "bs \<noteq> []" by (rule shard_roundtrip(2) [OF laws shard_bucket_wf [OF Cons.prems(3)] ser])
    have "fst (pwrite (in_io self) ?p bs) = Inr ()"
      using Cons.prems(6,7) b(3) fits small ne by (intro pwrite_ok) auto
    then obtain dev where pw: "pwrite (in_io self) (shard_offset l slot i) bs = (Inr (), dev)"
      using shard_offset_pos [OF Cons.prems(1) i] by (metis prod.collapse)
    have fr: "dev_frame (in_io self) dev ?p (?p + write_span (in_io self) (length bs))"
      using pwrite_frame [OF fits small] pw shard_offset_pos [OF Cons.prems(1) i] by simp
    define meta where "meta = \<lparr>active_slot = slot, slot_size = length bs mod 2 ^ 32, slot_crc = c\<rparr>"
    define self1 where "self1 = self\<lparr>in_io := dev,
      in_superblock := (in_superblock self)\<lparr>sb_shard_slots := (slots_of self)[i := meta]\<rparr>\<rparr>"
    have "length bs mod 2 ^ 32 \<le> il_shard_slot l" using len by (meson le_trans mod_less_eq_dividend)
    then have so: "slots_ok l (slots_of self1)"
      using Cons.prems(2) slot by (auto simp: slots_ok_def self1_def meta_def dest!: set_update_subset_insert [THEN subsetD])
    have "is_ok (fst (flush_shards X l is (uadd bw (length bs)) self1))"
      using Cons.prems dev_frame_length [OF fr] dev_frame_same [OF fr] so
      by (intro Cons.IH) (auto simp: self1_def shards_fit_def dev_same_def)
    then show ?thesis
      using True ser len pw by (simp add: Let_def self1_def meta_def slot_def)
  qed
qed

lemma flush_ok:
  assumes laws: "sb_laws X" "shard_laws X" and ready: "flush_ready X l ix0 self" and rw: "\<not> in_read_only self"
    and fit: "shards_fit X l self" and dev: "\<not> dev_read_only (in_io self)" "\<And>n. dev_wfault (in_io self) n = None"
      "\<And>n. \<not> dev_sfault (in_io self) n"
    and sbs: "\<And>sl. length sl = NUM_SHARDS \<Longrightarrow> slots_ok l sl \<Longrightarrow>
      is_ok (sb_to_bytes X (next_superblock (uadd (sb_txn_id (in_superblock self)) 1) ((in_superblock self)\<lparr>sb_shard_slots := sl\<rparr>)))"
  shows "fst (flush_inner X l self) = Inr ()"
proof -
  have l: "layout_ok (length (dev_data (in_io self))) l" and so: "slots_ok l (slots_of self)" and wf: "index_wf (in_index self)"
    and v: "sb_valid (in_superblock self)"
    using ready by (auto simp: flush_ready_def index_on_disk_def)
  have all: "set [0..<NUM_SHARDS] \<subseteq> {..<256}" by (auto simp: NUM_SHARDS_def)
  obtain bw self1 where fs: "flush_shards X l [0..<NUM_SHARDS] 0 self = (Inr bw, self1)"
    using flush_shards_ok [OF laws(2) l so wf fit all dev(1,2), of 0]
    by (cases "flush_shards X l [0..<NUM_SHARDS] 0 self"; cases "fst (flush_shards X l [0..<NUM_SHARDS] 0 self)") auto
  note sw = shards_written [OF laws(2) ready fs]
  have sm: "dev_same (in_io self) (in_io self1)" "length (dev_data (in_io self1)) = length (dev_data (in_io self))"
    using sw(1) by (simp_all add: frame_set_def)
  obtain d where sy: "dev_sync (in_io self1) = (Inr (), d)" and d: "dev_same (in_io self) d" "length (dev_data d) = length (dev_data (in_io self))"
    using dev sm by (simp add: dev_sync_def dev_same_def)
  define sb where "sb = next_superblock (uadd (sb_txn_id (in_superblock self)) 1) (in_superblock self1)"
  obtain sl where sl: "in_superblock self1 = (in_superblock self)\<lparr>sb_shard_slots := sl\<rparr>"
    using arg_cong [OF sw(2), of in_superblock] by auto
  have ls: "length sl = NUM_SHARDS" "slots_ok l sl" using sw(3) sw(6) by (simp_all add: sl index_on_disk_def)
  obtain new where new: "sb_to_bytes X sb = Inr new" using sbs [OF ls] by (cases "sb_to_bytes X sb") (auto simp: sb_def sl)
  have vs: "sb_valid sb" using v ls by (simp add: sb_def sl sb_valid_def next_superblock_def)
  have fits: "8192 \<le> length (dev_data d)" using layout_facts(6,7) [OF l] d by (simp add: layout_consts)
  obtain d' where "commit_superblock new d = (Inr (), d')"
    using commit_ok [OF sb_roundtrip(2) [OF laws(1) new vs] fits] dev d by (metis dev_same_def prod.collapse)
  then show ?thesis
    using rw fs sy new by (simp add: flush_inner_def Let_def sb_def)
qed

section \<open>A reference device\<close>

definition ref_host :: host_file where
  "ref_host = \<lparr>host_contents = None, host_block = False, host_locked = False, host_denied = False,
     host_wfault = (\<lambda>_. None), host_sfault = (\<lambda>_. False), host_rfault = (\<lambda>_ _. False)\<rparr>"

definition ref_opts :: format_options where
  "ref_opts = \<lparr>fo_device_size = 33595392, fo_direct_io = False, fo_index_slot_size = 16777216,
     fo_max_key_length = 1024, fo_compression = CNone\<rparr>"

definition ref_rs :: raw_store where
  "ref_rs = projr (fst (format_with_options ref_env ref_host ref_opts))"

lemma length_enc_slots: "length (concat (map enc_slot sl)) = 9 * length sl"
  by (induction sl) (simp_all add: enc_slot_def)

lemma ref_sb_ok:
  assumes "sb_range sb" and "length (sb_magic sb) = 8" and "length (sb_shard_slots sb) = NUM_SHARDS"
  shows "is_ok (sb_to_bytes ref_env sb)"
proof -
  have rg: "sb_range (sb\<lparr>sb_superblock_checksum := 0\<rparr>)" using assms(1) by (simp add: sb_range_def)
  have len: "length (u32_to_le_bytes 0 @ enc_sb_rest (sb\<lparr>sb_superblock_checksum := 0\<rparr>)) \<le> 4096"
  proof -
    have "length (enc_string (sb_magic sb)) = 16"
      using assms(2) by (simp add: enc_string_def enc_list_def length_concat comp_def sum_list_triv)
    then show ?thesis
      using assms(3) by (simp add: enc_sb_rest_def enc_list_def length_enc_slots NUM_SHARDS_def)
  qed
  have "x_ser_sb ref_env (sb\<lparr>sb_superblock_checksum := 0\<rparr>) =
      Some (u32_to_le_bytes 0 @ enc_sb_rest (sb\<lparr>sb_superblock_checksum := 0\<rparr>))"
    using rg by (simp add: ref_env_def ref_ser_sb_def)
  from sb_to_bytes_ok [OF ref_sb_laws this len] show ?thesis by auto
qed

lemma ref_default_shard: "x_ser_shard ref_env shard_default = Some (replicate 16 0)"
proof -
  have z: "le_bytes n 0 = replicate n 0" for n by (induction n) simp_all
  have "replicate (8 + 8) (0 :: byte) = replicate 8 0 @ replicate 8 0" by (rule replicate_add)
  then show ?thesis
    by (simp add: ref_env_def ref_ser_shard_def shard_default_def enc_list_def list_valid_def z)
qed

lemma ref_format_valid: "format_valid ref_env ref_host ref_opts"
  using ref_default_shard by (simp add: format_valid_def ref_host_def ref_opts_def)

lemma ref_slot_valid: "validate_index_slot_size (fo_index_slot_size ref_opts) = Inr ()"
  by (simp add: validate_index_slot_size_def ref_opts_def layout_consts)

lemma ref_format_superblock:
  assumes "length bs < 2 ^ 32" and "max_key \<le> MAX_KEY_LENGTH_HARD_CEILING"
  shows "is_ok (sb_to_bytes ref_env (format_superblock ref_opts
      (layout_for (fo_device_size ref_opts) (fo_index_slot_size ref_opts)) max_key bs c))"
proof (rule ref_sb_ok)
  show "sb_range (format_superblock ref_opts (layout_for (fo_device_size ref_opts) (fo_index_slot_size ref_opts)) max_key bs c)"
    using assms by (simp add: sb_range_def format_superblock_def Let_def sb_new_def ref_opts_def layout_for_def u64_simps
        list_valid_def slot_range_def layout_consts MAX_KEY_LENGTH_HARD_CEILING_def SUPERBLOCK_MAGIC_def umul_def usub_def)
qed (simp_all add: format_superblock_def Let_def sb_new_def SUPERBLOCK_MAGIC_def)

lemma ref_formatted: "\<exists>h'. format_with_options ref_env ref_host ref_opts = (Inr ref_rs, h')"
proof -
  have "\<exists>rs h'. format_with_options ref_env ref_host ref_opts = (Inr rs, h')"
    using ref_default_shard ref_format_superblock
    by (intro format_succeeds [OF ref_sb_laws ref_shard_laws ref_format_valid ref_slot_valid])
      (simp_all add: ref_opts_def ref_host_def MAX_KEY_LENGTH_HARD_CEILING_def min_device_size_def layout_consts uadd_def umul_def)
  then show ?thesis by (auto simp: ref_rs_def)
qed

lemma ref_mounted: "mounted ref_env (rs_layout ref_rs) index_new Map.empty (rs_inner ref_rs)"
  and ref_txn: "sb_txn_id (in_superblock (rs_inner ref_rs)) = 1"
  using ref_formatted format_mounted [OF ref_sb_laws ref_shard_laws ref_format_valid] by metis+

text \<open>The reference device with one object.\<close>

lemma put_entry:
  assumes "do_put_with_meta X now key p ml s = (Inr (), t)" and "in_compression s = CNone"
  shows "\<exists>off padded c. hm_get (files_of t) = (hm_get (files_of s))(key \<mapsto>
      \<lparr>ei_offset = off, ei_size = length p, ei_padded_size = padded, ei_crc32c = c,
       ei_created_txn = sb_txn_id (in_superblock s), ei_last_modified = now, ei_meta_len = ml, ei_uncompressed_size = 0\<rparr>)"
    and "ix_tombstones (in_index t) = hm_remove key (ix_tombstones (in_index s))"
proof -
  have pc: "put_compress X s p = (p, 0)" using assms(2) by (simp add: put_compress_def Let_def)
  have fo: "ix_tombstones (in_index (free_old key u)) = ix_tombstones (in_index u)"
    "hm_get (files_of (free_old key u)) = (hm_get (files_of u))(key := None)" for u
    by (cases "hm_get (files_of u) key"; auto simp: free_old_def inner_free_def set_files_def files_of_def hm_get_remove)+
  obtain padded off s1 c d where st: "inner_alloc padded s = (Inr off, s1)" "t = insert_entry X key
      \<lparr>ei_offset = off, ei_size = length p, ei_padded_size = padded, ei_crc32c = c,
       ei_created_txn = sb_txn_id (in_superblock s), ei_last_modified = now, ei_meta_len = ml, ei_uncompressed_size = 0\<rparr>
      (set_tombstones (hm_remove key (ix_tombstones (in_index (free_old key (s1\<lparr>in_io := d\<rparr>))))) (free_old key (s1\<lparr>in_io := d\<rparr>)))"
    using assms(1) pc by (auto simp: do_put_with_meta_def Let_def split: if_splits sum.splits prod.splits)
  obtain a where s1: "s1 = s\<lparr>in_allocator := a\<rparr>" using inner_alloc_state [OF st(1)] by blast
  show "ix_tombstones (in_index t) = hm_remove key (ix_tombstones (in_index s))"
    unfolding st(2) by (simp add: insert_entry_def Let_def set_files_def mark_shard_dirty_def set_tombstones_def fo s1)
  have "hm_get (files_of t) = (hm_get (files_of s))(key \<mapsto>
      \<lparr>ei_offset = off, ei_size = length p, ei_padded_size = padded, ei_crc32c = c,
       ei_created_txn = sb_txn_id (in_superblock s), ei_last_modified = now, ei_meta_len = ml, ei_uncompressed_size = 0\<rparr>)"
    unfolding st(2) by (simp add: insert_entry_def Let_def fo s1 hm_get_insert)
  then show "\<exists>off padded c. hm_get (files_of t) = (hm_get (files_of s))(key \<mapsto>
      \<lparr>ei_offset = off, ei_size = length p, ei_padded_size = padded, ei_crc32c = c,
       ei_created_txn = sb_txn_id (in_superblock s), ei_last_modified = now, ei_meta_len = ml, ei_uncompressed_size = 0\<rparr>)"
    by blast
qed

definition ref_one :: inner where
  "ref_one = snd (exec_call ref_env 0 (CallPut ''a'' ref_payload ModeOverwrite) (rs_inner ref_rs))"

lemma ref_rs_facts:
  "in_compression (rs_inner ref_rs) = CNone" "in_index (rs_inner ref_rs) = index_new"
  "\<not> dev_read_only (in_io (rs_inner ref_rs))" "dev_wfault (in_io (rs_inner ref_rs)) n = None"
  "\<not> dev_sfault (in_io (rs_inner ref_rs)) n" "in_shard_dirty (rs_inner ref_rs) = replicate NUM_SHARDS False"
  "\<exists>mk bs c. in_superblock (rs_inner ref_rs) = format_superblock ref_opts (rs_layout ref_rs) mk bs c"
  "il_shard_slot (rs_layout ref_rs) = 65536" "il_capacity (rs_layout ref_rs) = 16777216" "il_region_a (rs_layout ref_rs) = 40960"
  "in_max_key_length (rs_inner ref_rs) = 1024" "\<not> dev_rfault (in_io (rs_inner ref_rs)) i m"
proof -
  obtain h' where f: "format_with_options ref_env ref_host ref_opts = (Inr ref_rs, h')" using ref_formatted by blast
  note fm = format_mounted [OF ref_sb_laws ref_shard_laws ref_format_valid f]
  show "in_index (rs_inner ref_rs) = index_new" "\<not> dev_read_only (in_io (rs_inner ref_rs))"
    "dev_wfault (in_io (rs_inner ref_rs)) n = None" "\<not> dev_sfault (in_io (rs_inner ref_rs)) n"
    "in_shard_dirty (rs_inner ref_rs) = replicate NUM_SHARDS False" "\<not> dev_rfault (in_io (rs_inner ref_rs)) i m"
    "\<exists>mk bs c. in_superblock (rs_inner ref_rs) = format_superblock ref_opts (rs_layout ref_rs) mk bs c"
    using fm by (simp_all add: ref_host_def)
  show ls: "il_shard_slot (rs_layout ref_rs) = 65536" "il_capacity (rs_layout ref_rs) = 16777216" "il_region_a (rs_layout ref_rs) = 40960"
    unfolding fm(10) by (simp_all add: ref_opts_def layout_for_def NUM_SHARDS_def usub_def umul_def)
  show "in_compression (rs_inner ref_rs) = CNone" "in_max_key_length (rs_inner ref_rs) = 1024"
    using fm(11,12) ls by (simp_all add: ref_opts_def saturating_sub_def)
qed

lemma ref_one_ok:
  "exec_call ref_env 0 (CallPut ''a'' ref_payload ModeOverwrite) (rs_inner ref_rs) = (True, ref_one)"
  "mounted ref_env (rs_layout ref_rs) index_new [''a'' \<mapsto> (ref_payload, 0)] ref_one"
  "do_put_with_meta ref_env 0 ''a'' ref_payload 0 (rs_inner ref_rs) = (Inr (), ref_one)"
proof -
  let ?s = "rs_inner ref_rs"
  have so: "store_ok 40960 ?s" and rw: "\<not> in_read_only ?s" and fl: "files_of ?s = []"
    using ref_mounted by (simp_all add: mounted_def config_ok_def ref_rs_facts files_of_def index_new_def)
  obtain a where a: "in_allocator ?s = Some a" "free_set a = {DATA_START..<40960}"
    using so rw fl by (cases "in_allocator ?s") (auto simp: space_inv_def used_def)
  have "num_blocks (length ref_payload) = 1" by (simp add: num_blocks_def div_ceil_def)
  then have "{DATA_START..<DATA_START + num_blocks (length ref_payload) * 4096} \<subseteq> free_set a"
    by (simp add: a layout_consts)
  then have "fst (do_put_with_meta ref_env 0 ''a'' ref_payload 0 ?s) = Inr ()"
    by (intro do_put_succeeds [OF ref_crc_laws ref_codec_laws so _ rw _ _ a(1)]) (simp_all add: ref_rs_facts)
  then obtain t where t: "do_put_with_meta ref_env 0 ''a'' ref_payload 0 ?s = (Inr (), t)" by (metis prod.collapse)
  then have e: "exec_call ref_env 0 (CallPut ''a'' ref_payload ModeOverwrite) ?s = (True, t)"
    by (simp add: put_opts_def do_put_def map_os_def)
  then have o: "t = ref_one" by (simp add: ref_one_def)
  show "do_put_with_meta ref_env 0 ''a'' ref_payload 0 ?s = (Inr (), ref_one)" using t o by simp
  show ec: "exec_call ref_env 0 (CallPut ''a'' ref_payload ModeOverwrite) ?s = (True, ref_one)" using e o by simp
  have "lawful ref_env" by (simp add: lawful_def ref_crc_laws ref_codec_laws)
  from exec_call_mounted [OF this ref_mounted _ ec]
  show "mounted ref_env (rs_layout ref_rs) index_new [''a'' \<mapsto> (ref_payload, 0)] ref_one" by simp
qed

lemma ref_one_shards: "shards_fit ref_env (rs_layout ref_rs) ref_one"
proof -
  obtain off padded c where get: "hm_get (files_of ref_one) = [''a'' \<mapsto>
      \<lparr>ei_offset = off, ei_size = 3, ei_padded_size = padded, ei_crc32c = c,
       ei_created_txn = 1, ei_last_modified = 0, ei_meta_len = 0, ei_uncompressed_size = 0\<rparr>]"
    using put_entry(1) [OF ref_one_ok(3) ref_rs_facts(1)] by (auto simp: ref_txn files_of_def ref_rs_facts index_new_def)
  have tb: "ix_tombstones (in_index ref_one) = []"
    using put_entry(2) [OF ref_one_ok(3) ref_rs_facts(1)] by (simp add: ref_rs_facts index_new_def)
  have so: "store_ok 40960 ref_one" using ref_one_ok(2) by (simp add: mounted_def ref_rs_facts)
  then have wf: "hm_wf (files_of ref_one)" by (simp add: space_inv_def)
  have eo: "off + padded \<le> 40960"
    using entry_ok_of [OF so, of "''a''"] get by (simp add: entry_ok_def area_unit_def)
  let ?e = "\<lparr>ei_offset = off, ei_size = 3, ei_padded_size = padded, ei_crc32c = c,
       ei_created_txn = 1, ei_last_modified = 0, ei_meta_len = 0, ei_uncompressed_size = 0\<rparr>"
  have sub: "set (files_of ref_one) \<subseteq> {(''a'', ?e)}"
  proof (rule subsetI)
    fix ke
    assume "ke \<in> set (files_of ref_one)"
    then have "hm_get (files_of ref_one) (fst ke) = Some (snd ke)" using hm_get_iff [OF wf, of "fst ke" "snd ke"] by simp
    then show "ke \<in> {(''a'', ?e)}" unfolding get by (cases ke) (simp split: if_splits)
  qed
  have "distinct (files_of ref_one)" using wf by (simp add: hm_wf_def distinct_map)
  then have len: "length (files_of ref_one) \<le> 1" using sub card_mono [OF _ sub] by (simp add: distinct_card)
  have v: "entry_range extent_range (''a'', ?e)" using eo by (simp add: entry_range_def extent_range_def)
  have one: "length (enc_entry enc_extent ke) \<le> 100" if "ke \<in> set (files_of ref_one)" for ke
    using that sub by (auto simp: enc_entry_def enc_extent_def enc_string_def enc_list_def enc_int_def)
  have "\<exists>bs c. shard_to_bytes ref_env (shard_bucket ref_env (in_index ref_one) i) = Inr (bs, c) \<and> length bs \<le> 65536" for i
  proof -
    let ?F = "filter (\<lambda>(k, _). shard_for_key ref_env k = i) (files_of ref_one)"
    have F: "set ?F \<subseteq> {(''a'', ?e)}" using sub by auto
    have F2: "length ?F \<le> 1" by (rule le_trans [OF length_filter_le len])
    have ser: "x_ser_shard ref_env = ref_ser_shard" by (simp add: ref_env_def)
    have va: "list_valid (entry_range extent_range) ?F" using F F2 v unfolding list_valid_def by fastforce
    have "length (concat (map (enc_entry enc_extent) ?F)) \<le> 100"
    proof (cases ?F)
      case (Cons ke r)
      then have "ke \<in> set (files_of ref_one)" by (metis filter_is_subset list.set_intros(1) subsetD)
      moreover have "r = []" using F2 Cons by simp
      ultimately show ?thesis using Cons one by simp
    qed simp
    then show ?thesis
      using va tb by (simp add: shard_to_bytes_def ser ref_ser_shard_def shard_bucket_def enc_list_def list_valid_def files_of_def)
  qed
  then show ?thesis by (simp add: shards_fit_def ref_rs_facts)
qed

lemma ref_one_txn: "sb_txn_id (in_superblock ref_one) + 1 < 2 ^ 64"
  and ref_one_superblock: "in_superblock ref_one = in_superblock (rs_inner ref_rs)"
proof -
  show sb: "in_superblock ref_one = in_superblock (rs_inner ref_rs)"
    using exec_call_tracked [OF ref_one_ok(1)] by (auto simp: tracked_def ref_rs_facts alters_def)
  show "sb_txn_id (in_superblock ref_one) + 1 < 2 ^ 64" by (simp add: sb ref_txn)
qed

lemma ref_one_flush:
  "flush_inner ref_env (rs_layout ref_rs) ref_one = (Inr (), snd (flush_inner ref_env (rs_layout ref_rs) ref_one))"
proof -
  let ?l = "rs_layout ref_rs"
  obtain mk bs c where "in_superblock (rs_inner ref_rs) = format_superblock ref_opts ?l mk bs c" using ref_rs_facts(7) by blast
  then have sb: "in_superblock ref_one = format_superblock ref_opts ?l mk bs c" by (simp add: ref_one_superblock)
  have "lawful ref_env" "store_ok 40960 (rs_inner ref_rs)"
    using ref_mounted by (simp_all add: lawful_def ref_crc_laws ref_codec_laws mounted_def ref_rs_facts)
  then have same: "dev_same (in_io (rs_inner ref_rs)) (in_io ref_one)"
    using exec_call_frame [OF _ _ _ ref_one_ok(1)] dev_frame_same by fastforce
  have "fst (flush_inner ref_env ?l ref_one) = Inr ()"
  proof (rule flush_ok [OF ref_sb_laws ref_shard_laws])
    show "flush_ready ref_env ?l index_new ref_one" "\<not> in_read_only ref_one"
      using ref_one_ok(2) by (simp_all add: mounted_def config_ok_def)
    show "shards_fit ref_env ?l ref_one" by (rule ref_one_shards)
    show "is_ok (sb_to_bytes ref_env (next_superblock (uadd (sb_txn_id (in_superblock ref_one)) 1) ((in_superblock ref_one)\<lparr>sb_shard_slots := sl\<rparr>)))"
      if "length sl = NUM_SHARDS" "slots_ok ?l sl" for sl
    proof (rule ref_sb_ok)
      have sl: "\<forall>m\<in>set sl. slot_range m" using that(2) by (fastforce simp: slots_ok_def slot_range_def ref_rs_facts)
      have "foldl uadd 0 xs < 2 ^ 64" for xs by (induction xs rule: rev_induct) (simp_all add: uadd_def)
      then show "sb_range (next_superblock (uadd (sb_txn_id (in_superblock ref_one)) 1) ((in_superblock ref_one)\<lparr>sb_shard_slots := sl\<rparr>))"
        using sl that(1)
        by (simp add: sb sb_range_def next_superblock_def format_superblock_def Let_def sb_new_def ref_opts_def
            list_valid_def layout_consts SUPERBLOCK_MAGIC_def uadd_def ref_rs_facts)
    qed (simp_all add: that sb next_superblock_def format_superblock_def Let_def sb_new_def SUPERBLOCK_MAGIC_def)
  qed (use same ref_rs_facts in \<open>simp_all add: dev_same_def\<close>)
  then show ?thesis by (metis prod.collapse)
qed

lemma ref_readable: "readable (ref_host\<lparr>host_contents := Some img\<rparr>) img"
  by (simp add: readable_def ref_host_def)

lemma ref_visible: "[''a'' \<mapsto> v] |` visible_keys = [''a'' \<mapsto> v]"
  by (auto simp: restrict_map_def visible_keys_def starts_with_def MULTIPART_TMP_PREFIX_def fun_eq_iff)

section \<open>Sessions\<close>

text \<open>
  What can happen to a formatted device: calls, flushes, and a power cut after a flush followed by
  an open. The map is what the calls built.
\<close>

inductive session :: "'x store_env_scheme \<Rightarrow> index_layout \<Rightarrow> obj_map \<Rightarrow> inner \<Rightarrow> bool" for X l where
  formatted: "format_valid X h opts \<Longrightarrow> format_with_options X h opts = (Inr rs, h') \<Longrightarrow> rs_layout rs = l \<Longrightarrow>
    session X l Map.empty (rs_inner rs)"
| called: "session X l A s \<Longrightarrow> call_admissible c \<Longrightarrow> exec_call X now c s = (ok, t) \<Longrightarrow>
    session X l (if ok then call_effect c A else A) t"
| flushed: "session X l A s \<Longrightarrow> sb_txn_id (in_superblock s) + 1 < 2 ^ 64 \<Longrightarrow> flush_inner X l s = (Inr (), t) \<Longrightarrow>
    session X l A t"
| reopened: "session X l A s \<Longrightarrow> sb_txn_id (in_superblock s) + 1 < 2 ^ 64 \<Longrightarrow> flush_inner X l s = (Inr (), t) \<Longrightarrow>
    crash_image (in_io t) img \<Longrightarrow> readable h img \<Longrightarrow> open_impl X h mode False = Inr rs \<Longrightarrow>
    session X l (A |` visible_keys) (rs_inner rs)"

text \<open>A flush that succeeded left nothing pending: the crash image is what reads see.\<close>

lemma quiet_image: "(\<And>i. byte_quiet dev i) \<Longrightarrow> crash_image dev img \<Longrightarrow> img = dev_data dev"
  by (intro nth_equalityI) (auto simp: crash_image_def intro!: crash_quiet [unfolded crash_image_def])

lemma flush_reopen_mounted:
  assumes laws: "sb_laws X" "shard_laws X" and m: "mounted X l ix0 A s"
    and txn: "sb_txn_id (in_superblock s) + 1 < 2 ^ 64" and run: "flush_inner X l s = (Inr (), t)"
    and img: "crash_image (in_io t) img" and h: "readable h img"
  shows "\<exists>rs. open_impl X h mode False = Inr rs \<and> rs_layout rs = l \<and>
    mounted X l (in_index t) (A |` visible_keys) (rs_inner rs)"
  using flush_mounted [OF laws m txn run] quiet_image [OF _ img] reopen_mounted [OF laws(2) _ _ h] by blast

lemma session_mounted:
  assumes laws: "lawful X" "sb_laws X" "shard_laws X" and "session X l A s"
  shows "\<exists>ix0. mounted X l ix0 A s"
  using assms(4)
proof (induction rule: session.induct)
  case (formatted h opts rs h')
  then show ?case using format_mounted(1) [OF laws(2,3)] by blast
next
  case (called A s c now ok t)
  then show ?case using exec_call_mounted [OF laws(1)] by blast
next
  case (flushed A s t)
  then show ?case using flush_mounted(1) [OF laws(2,3)] by blast
next
  case (reopened A s t img h mode rs)
  then obtain ix0 where "mounted X l ix0 A s" by blast
  from flush_reopen_mounted [OF laws(2,3) this reopened.hyps(2-5), of mode] reopened.hyps(6) show ?case by auto
qed

text \<open>
  C1. Life of a store. In every state that a formatted device can reach by puts, deletes, copies and
  renames (each with the outcome its device faults give it), by flushes, and by losing power after a
  flush and being opened again in any mode, the store is consistent and holds exactly the objects of
  the map that the successful calls built, hidden multipart leftovers apart; a get returns the map's
  value, and reports a missing key as missing.
\<close>

theorem session_refines:
  assumes "lawful X" and "sb_laws X" and "shard_laws X" and "session X l A s"
  shows "store_ok (il_region_a l) s \<and> rep X s A \<and>
    (\<forall>k v. get_object X k s = Some v \<longrightarrow> A k = Some v) \<and> (\<forall>k. A k = None \<longrightarrow> do_get X k s = Inl (NotFound k))"
proof -
  obtain ix0 where m: "mounted X l ix0 A s" using session_mounted [OF assms] by blast
  then have so: "store_ok (il_region_a l) s" and rep: "rep X s A" by (simp_all add: mounted_def)
  then show ?thesis
    using do_get_sound [OF so rep] do_get_missing [OF rep] by (auto simp: get_object_def split: sum.splits prod.splits)
qed

lemma ref_lawful: "lawful ref_env"
  by (simp add: lawful_def ref_crc_laws ref_codec_laws)

lemma ref_session: "session ref_env (rs_layout ref_rs) Map.empty (rs_inner ref_rs)"
  using ref_formatted session.formatted [OF ref_format_valid] by blast

theorem session_refines_witness:
  "store_ok (il_region_a (rs_layout ref_rs)) (rs_inner ref_rs) \<and> do_get ref_env ''k'' (rs_inner ref_rs) = Inl (NotFound ''k'')"
  using session_refines [OF ref_lawful ref_sb_laws ref_shard_laws ref_session] by simp

section \<open>Crashes\<close>

text \<open>
  C2. Crash safety of the flush. A flush runs on a store whose last committed index is on the
  device; whatever writes and syncs fail in it, and wherever it stops, the index that the next open
  loads from what a crash leaves (any mixture of old and new bytes of the writes not yet synced) is
  the last committed one or the new one, unless a superblock copy that mixes old and new bytes
  passes its checksum. When the flush reported success the open loads the new index.
\<close>

theorem flush_crash_safe:
  assumes "sb_laws X" and "shard_laws X" and "mounted X l ix0 A s"
    and "sb_txn_id (in_superblock s) + 1 < 2 ^ 64"
    and "flush_inner X l s = (r, t)" and "crash_image (in_io t) img"
  shows "(recovers X img ix0 \<or> recovers X img (in_index s) \<or>
      (\<exists>new. sb_to_bytes X (in_superblock t) = Inr new \<and> undetected_tear X (dev_data (in_io s)) new img)) \<and>
    (r = Inr () \<longrightarrow> recovers X img (in_index s))"
proof -
  have "flush_ready X l ix0 s" "\<not> in_read_only s" using assms(3) by (simp_all add: mounted_def config_ok_def)
  from flush_crash(1,2) [OF assms(1,2) this(1) assms(4) this(2) assms(5,6)] show ?thesis by blast
qed

theorem flush_crash_safe_witness:
  "\<exists>img. crash_image (in_io (snd (flush_inner ref_env (rs_layout ref_rs) ref_one))) img \<and> recovers ref_env img (in_index ref_one)"
proof -
  obtain img where i: "crash_image (in_io (snd (flush_inner ref_env (rs_layout ref_rs) ref_one))) img"
    using crash_exists by blast
  from flush_crash_safe [OF ref_sb_laws ref_shard_laws ref_one_ok(2) ref_one_txn ref_one_flush i] i show ?thesis by blast
qed

text \<open>
  C3. Crash between flushes. Whatever calls ran since the last flush, a crash leaves the index of
  that flush on the device: the calls write to the data area only.
\<close>

theorem calls_crash_safe:
  assumes "lawful X" and "shard_laws X" and "mounted X l ix0 A s" and "\<forall>c\<in>set cs. call_admissible c"
    and "run_calls (exec_call X now) cs s = (oks, t)" and "crash_image (in_io t) img"
  shows "recovers X img ix0"
  using mounted_crash [OF assms(2) calls_mounted [OF _ assms(3,4,5)] assms(6)] assms(1,3) by blast

theorem calls_crash_safe_witness:
  "\<exists>img. crash_image (in_io (snd (run_calls (exec_call ref_env 0) [CallPut ''a'' [1, 2, 3] ModeOverwrite] (rs_inner ref_rs)))) img \<and>
     recovers ref_env img index_new"
proof -
  let ?cs = "[CallPut ''a'' [1, 2, 3] ModeOverwrite]"
  obtain img where i: "crash_image (in_io (snd (run_calls (exec_call ref_env 0) ?cs (rs_inner ref_rs)))) img"
    using crash_exists by blast
  have "\<forall>c\<in>set ?cs. call_admissible c" by simp
  from calls_crash_safe [OF ref_lawful ref_shard_laws ref_mounted this prod.collapse [symmetric] i] i show ?thesis by blast
qed

section \<open>Flush, open, format\<close>

text \<open>
  C4. Durability. After a flush that reported success, a power cut and an open in any mode give a
  store with exactly the same objects (multipart leftovers apart), consistent and ready for the next
  flush.
\<close>

theorem flush_reopen:
  assumes "sb_laws X" and "shard_laws X" and "mounted X l ix0 A s"
    and "sb_txn_id (in_superblock s) + 1 < 2 ^ 64" and "flush_inner X l s = (Inr (), t)"
    and "crash_image (in_io t) img" and "readable h img"
  shows "\<exists>rs. open_impl X h mode False = Inr rs \<and> rs_layout rs = l \<and> rep X (rs_inner rs) (A |` visible_keys) \<and>
    mounted X l (in_index t) (A |` visible_keys) (rs_inner rs)"
  using flush_reopen_mounted [OF assms] by (auto simp: mounted_def)

theorem flush_reopen_witness:
  "\<exists>img h rs. crash_image (in_io (snd (flush_inner ref_env (rs_layout ref_rs) ref_one))) img \<and>
     open_impl ref_env h FullVerify False = Inr rs \<and> rep ref_env (rs_inner rs) [''a'' \<mapsto> (ref_payload, 0)]"
proof -
  obtain img where i: "crash_image (in_io (snd (flush_inner ref_env (rs_layout ref_rs) ref_one))) img" using crash_exists by blast
  from flush_reopen [OF ref_sb_laws ref_shard_laws ref_one_ok(2) ref_one_txn ref_one_flush i ref_readable, of FullVerify]
  show ?thesis using i unfolding ref_visible by blast
qed

text \<open>
  Formatting. A format that succeeds leaves a consistent, empty store whose empty index is
  committed in both superblock copies; and it succeeds on a new file, or on a block device of the
  right size, when the options are in range, the device has no faults and the serializer can write
  the first superblock.
\<close>

lemma format_correct:
  assumes "sb_laws X" and "shard_laws X" and "format_valid X h opts"
  shows "(\<forall>rs h'. format_with_options X h opts = (Inr rs, h') \<longrightarrow>
      mounted X (rs_layout rs) index_new Map.empty (rs_inner rs) \<and>
      host_contents h' = Some (dev_data (in_io (rs_inner rs)))) \<and>
    (validate_index_slot_size (fo_index_slot_size opts) = Inr () \<and> fo_max_key_length opts \<le> MAX_KEY_LENGTH_HARD_CEILING \<and>
     min_device_size (fo_index_slot_size opts) \<le> fo_device_size opts \<and> \<not> host_denied h \<and> \<not> host_locked h \<and>
     (\<forall>n. host_wfault h n = None) \<and> (\<forall>n. \<not> host_sfault h n) \<and> x_ser_shard X shard_default \<noteq> None \<and>
     (\<forall>max_key bs c. length bs < 2 ^ 32 \<and> max_key \<le> MAX_KEY_LENGTH_HARD_CEILING \<longrightarrow> is_ok (sb_to_bytes X
        (format_superblock opts (layout_for (fo_device_size opts) (fo_index_slot_size opts)) max_key bs c))) \<longrightarrow>
     (\<exists>rs h'. format_with_options X h opts = (Inr rs, h')))"
  using format_mounted(1,2) [OF assms] format_succeeds [OF assms] by blast

text \<open>
  The rebuilt free list. The allocator that an open computes from the gaps between the indexed
  extents is exactly the allocator that the running store kept by its allocations and frees.
\<close>

lemma rebuilt_allocator:
  assumes "store_ok de self" and "in_allocator self = Some a" and "DATA_START \<le> de"
  shows "rebuild_allocator (in_index self) de = a"
proof -
  have f: "hm_wf (ix_files (in_index self))" "files_inv de (hm_get (ix_files (in_index self)))"
    and a: "area_inv DATA_START de a" "free_set a = {DATA_START..<de} - used (hm_get (ix_files (in_index self)))"
    using assms(1,2) by (simp_all add: space_inv_def files_of_def)
  have de: "de < 2 ^ 64" using a(1) by (simp add: area_inv_def)
  note ra = rebuild_allocator_inv [OF f de assms(3)]
  show ?thesis using ea.canonical [OF ra(1) a(1)] ra(2) a(2) by simp
qed

section \<open>What an open guarantees\<close>

lemma apply_stale_keeps:
  assumes "hm_get (ix_files (apply_stale_removals stale ro t ix)) k = Some e"
  shows "hm_get (ix_files ix) k = Some e \<and> k \<notin> fst ` set stale"
  using assms unfolding apply_stale_removals_def
proof (induction stale arbitrary: ix)
  case Nil
  then show ?case by simp
next
  case (Cons kr stale)
  have "hm_get (ix_files (apply_stale ro t kr ix)) k = Some e \<and> k \<notin> fst ` set stale"
    using Cons.IH [of "apply_stale ro t kr ix"] Cons.prems by simp
  then show ?case by (cases kr) (auto simp: apply_stale_def hm_get_remove split: option.splits if_splits)
qed

lemma validate_keeps:
  assumes "validate_entries de ix = (ix1, ks)" and "hm_get (ix_files ix1) k = Some e"
  shows "\<not> out_of_bounds de e"
proof -
  have b: "k \<notin> set (bad_keys de (ix_files ix))" "hm_get (ix_files ix) k = Some e"
    using assms by (auto simp: validate_entries_def Let_def remove_keys_get split: if_splits)
  then show ?thesis using map_of_SomeD [OF b(2)] by (force simp: bad_keys_def)
qed

lemma map_filter_None: "x \<in> set xs \<Longrightarrow> f x = Some y \<Longrightarrow> y \<in> set (List.map_filter f xs)"
  by (force simp: map_filter_def)

text \<open>
  Full verification. Every entry of a store that was opened with \<open>FullVerify\<close>, read-only or
  not, lies inside the data area, and its extent on the device decodes block by block to a payload
  whose checksum is the one in the index.
\<close>

lemma full_verify_sound:
  assumes "open_impl X h FullVerify ro = Inr rs" and "host_contents h = Some img"
    and "hm_get (files_of (rs_inner rs)) k = Some e"
  shows "\<not> out_of_bounds (il_region_a (rs_layout rs)) e \<and>
    (\<exists>p. decode_blocks X (slice img (ei_offset e) (ei_offset e + num_blocks (ei_size e) * 4096)) (ei_size e) = Inr p \<and>
       x_crc32c X p = ei_crc32c e)"
proof -
  define io where "io = mk_device h img False ro"
  have op: "(if ro then dev_open_readonly h False else dev_open h False) = Inr io"
    using assms(1,2) by (auto simp: open_impl_def dev_open_def dev_open_readonly_def open_file_def io_def
        acquire_exclusive_lock_def split: if_splits)
  obtain sb l ix where oi: "open_index X io = Inr (sb, l, ix)"
    using assms(1) op by (cases "open_index X io") (auto simp: open_impl_def)
  obtain ix1 ks where va: "validate_entries (il_region_a l) ix = (ix1, ks)" by fastforce
  define stale where "stale = scan_stale X io FullVerify (ix_files ix1)"
  define ix2 where "ix2 = apply_stale_removals stale ro (uadd (sb_txn_id sb) 1) ix1"
  define ks3 where "ks3 = (if ro then [] else multipart_keys (ix_files ix2))"
  define F where "F = (\<lambda>io'. if sb_max_key_length sb = 0 then Inl (Io InvalidData)
      else bind_res (compression_from_u8 (sb_compression sb)) (\<lambda>compr.
        Inr \<lparr>rs_inner = \<lparr>in_io = io', in_index = ix2\<lparr>ix_files := remove_keys ks3 (ix_files ix2)\<rparr>,
          in_allocator = (if ro then None else Some (rebuild_allocator (ix2\<lparr>ix_files := remove_keys ks3 (ix_files ix2)\<rparr>) (il_region_a l))),
          in_superblock = sb, in_dirty = ((ks @ map fst stale) @ ks3 \<noteq> []), in_read_only = ro,
          in_shard_dirty = dirty_flags X ((ks @ map fst stale) @ ks3), in_last_flush_bytes = 0,
          in_max_key_length = sb_max_key_length sb, in_compression = compr\<rparr>,
          rs_layout = l, rs_next_upload_id = 0, rs_flush_log = []\<rparr>))"
  have run: "open_impl X h FullVerify ro =
      (if \<not> ro \<and> sb_flags sb AND FLAG_WRITE_PROTECT \<noteq> 0 then Inl WriteProtected
       else bind_res (if sb_flags sb AND FLAG_DIRECT_IO \<noteq> 0 then if ro then dev_open_readonly h True else dev_open h True else Inr io) F)"
    unfolding open_impl_def op bind_res.simps oi prod.case Let_def va ks3_def ix2_def stale_def F_def by (rule refl)
  obtain io' where "F io' = Inr rs"
  proof -
    have "bind_res (if sb_flags sb AND FLAG_DIRECT_IO \<noteq> 0 then if ro then dev_open_readonly h True else dev_open h True else Inr io) F = Inr rs"
      using assms(1) unfolding run by (metis Inl_Inr_False)
    then show ?thesis using that unfolding bind_res_Inr_iff by blast
  qed
  then have rs: "rs_layout rs = l" "files_of (rs_inner rs) = remove_keys ks3 (ix_files ix2)"
    unfolding F_def
    by (cases "sb_max_key_length sb = 0"; cases "compression_from_u8 (sb_compression sb)"; force simp: files_of_def)+
  have "hm_get (ix_files ix2) k = Some e" using assms(3) rs(2) by (simp add: remove_keys_get split: if_splits)
  then have e: "hm_get (ix_files ix1) k = Some e" "k \<notin> fst ` set stale" 
    using apply_stale_keeps [of stale ro "uadd (sb_txn_id sb) 1" ix1 k e] unfolding ix2_def by blast+
  have "full_stale X io (k, e) = None"
  proof (rule ccontr)
    assume "full_stale X io (k, e) \<noteq> None"
    then obtain kr where kr: "full_stale X io (k, e) = Some kr" by blast
    then have "fst kr = k" by (auto simp: full_stale_def Let_def split: sum.splits if_splits)
    moreover have "kr \<in> set stale"
      using map_filter_None [of "(k, e)" _ "full_stale X io", OF _ kr] map_of_SomeD [OF e(1)] by (simp add: stale_def scan_stale_def)
    ultimately show False using e(2) by blast
  qed
  then obtain p raw where d: "pread io (ei_offset e) (num_blocks (ei_size e) * 4096) = Inr raw"
    "decode_blocks X raw (ei_size e) = Inr p" "x_crc32c X p = ei_crc32c e"
    by (auto simp: full_stale_def Let_def padded_extent_size_Inr split: sum.splits if_splits)
  have "raw = slice img (ei_offset e) (ei_offset e + num_blocks (ei_size e) * 4096)"
    using pread_Inr(1) [OF d(1)] by (simp add: io_def mk_device_def)
  then show ?thesis using d validate_keeps [OF va e(1)] rs(1) by blast
qed

end
