(* ===== verification/Hazards.thy ===== *)
theory Hazards
  imports Durability
begin

text \<open>
  Behaviours of the raw store that its comments do not announce: what the fast integrity scan of an
  open cannot see, which overlaps the open keeps, and where a retry after a failed flush writes.
\<close>

section \<open>The block-0 check\<close>

text \<open>
  The fast scan compares block 0 with its own checksum. An entry whose extent was reused by another
  object passes it, and a get returns the other object's bytes, whatever checksum the index has.
\<close>

lemma reused_extent_undetected:
  assumes get: "hm_get (files_of self) k = Some e" and ok: "entry_ok de e" and room: "dev_room de (in_io self)"
    and plain: "ei_uncompressed_size e = 0" and len: "length w = ei_size e" and ne: "w \<noteq> []"
    and other: "slice (dev_data (in_io self)) (ei_offset e) (ei_offset e + num_blocks (ei_size e) * 4096) = encode_blocks X w"
    and nf: "\<And>i n. \<not> dev_rfault (in_io self) i n"
  shows "block0_stale X (in_io self) (k, e) = None" and "do_get X k self = Inr (w, e)"
proof -
  define e' where "e' = e\<lparr>ei_crc32c := x_crc32c X w\<rparr>"
  have "obj_ok X CNone (dev_data (in_io self)) e' w"
    using len ne other plain by (auto simp: obj_ok_def e'_def)
  moreover have "ei_offset e' = ei_offset e" "ei_padded_size e' = ei_padded_size e" "ei_size e' = ei_size e"
    by (simp_all add: e'_def)
  then have "entry_ok de e'" using ok unfolding entry_ok_def by metis
  ultimately have "block0_stale X (in_io self) (k, e') = None" using obj_ok_not_stale(1) [OF _ _ room nf] by blast
  then show "block0_stale X (in_io self) (k, e) = None" by (simp add: block0_stale_def e'_def)
  have fits: "extent_fits (in_io self) (ei_offset e) (num_blocks (length w))"
    using ok room len by (auto simp: entry_ok_def area_unit_def dev_room_def extent_fits_def)
  have "read_and_decode_batched X (in_io self) (ei_offset e) (length w) = Inr w"
    using other len by (intro stored_read_ok [OF fits _ nf]) simp
  then show "do_get X k self = Inr (w, e)"
    using get plain len by (simp add: do_get_def lookup_info_def)
qed

section \<open>Overlaps that the open keeps\<close>

definition overlap_entry :: "nat \<Rightarrow> nat \<Rightarrow> extent_info" where
  "overlap_entry off padded = \<lparr>ei_offset = off, ei_size = 1, ei_padded_size = padded, ei_crc32c = 0, ei_created_txn = 1,
     ei_last_modified = 0, ei_meta_len = 0, ei_uncompressed_size = 0\<rparr>"

definition overlap_index :: device_index where
  "overlap_index = \<lparr>ix_files = [(''a'', overlap_entry 8192 16384), (''b'', overlap_entry 12288 4096), (''c'', overlap_entry 16384 4096)],
     ix_tombstones = []\<rparr>"

text \<open>Only neighbours in offset order are compared, so a long extent can cover a later one.\<close>

lemma overlap_scan_incomplete:
  "snd (validate_entries 40960 overlap_index) = [''b'']"
  "map fst (ix_files (fst (validate_entries 40960 overlap_index))) = [''a'', ''c'']"
  by (simp_all add: validate_entries_def Let_def bad_keys_def out_of_bounds_def overlap_keys_def overlap_index_def
      overlap_entry_def remove_keys_def saturating_add_def uadd_def layout_consts)

section \<open>Retries after a failed flush\<close>

lemma flush_shards_other:
  "flush_shards X l is bw self = (r, self') \<Longrightarrow> j \<notin> set is \<Longrightarrow>
     slots_of self' ! j = slots_of self ! j \<and> in_shard_dirty self' = in_shard_dirty self"
  by (induction X l "is" bw self rule: flush_shards.induct)
    (auto simp: Let_def split: if_splits sum.splits prod.splits)

lemma flush_shards_slots:
  "flush_shards X l is bw self = (r, self') \<Longrightarrow> distinct is \<Longrightarrow> j \<in> set is \<Longrightarrow> j < length (slots_of self) \<Longrightarrow>
     in_shard_dirty self' = in_shard_dirty self \<and> (slots_of self' ! j = slots_of self ! j \<or>
     in_shard_dirty self ! j \<and> active_slot (slots_of self' ! j) = new_slot_of (active_slot (slots_of self ! j)))"
proof (induction X l "is" bw self rule: flush_shards.induct)
  case (2 X l i "is" bw self)
  then show ?case
    by (cases "j = i")
      (auto simp: Let_def dest: flush_shards_other split: if_splits sum.splits prod.splits)
qed simp

text \<open>
  A flush that fails while it writes the shards has already switched the in-memory slots of the
  shards it wrote, which stay dirty: the next flush writes them to the slots that the superblocks on
  the device refer to.
\<close>

lemma failed_flush_targets_committed:
  assumes laws: "shard_laws X" and ready: "flush_ready X l ix0 self" and rw: "\<not> in_read_only self"
    and fail: "flush_shards X l [0..<NUM_SHARDS] 0 self = (Inl e, self')"
    and i: "i < NUM_SHARDS" "slots_of self' ! i \<noteq> slots_of self ! i"
  shows "flush_inner X l self = (Inl e, self')" and "in_shard_dirty self' ! i"
    and "new_slot_of (active_slot (slots_of self' ! i)) = active_slot (slots_of self ! i)"
    and "\<forall>off\<in>{0, 4096}. \<exists>c. sb_copy X (dev_data (in_io self')) off = Inr ((in_superblock self)\<lparr>sb_superblock_checksum := c\<rparr>)"
proof -
  have so: "slots_ok l (slots_of self)" using ready by (simp add: flush_ready_def index_on_disk_def)
  then have len: "length (slots_of self) = NUM_SHARDS" and a: "active_slot (slots_of self ! i) \<le> 1"
    using i(1) by (auto simp: slots_ok_def)
  have t: "in_shard_dirty self' = in_shard_dirty self" "in_shard_dirty self ! i"
    "active_slot (slots_of self' ! i) = new_slot_of (active_slot (slots_of self ! i))"
    using flush_shards_slots [OF fail, of i] i len by auto
  show "flush_inner X l self = (Inl e, self')" using rw fail by (simp add: flush_inner_def)
  show "in_shard_dirty self' ! i" using t by simp
  have "x \<le> 1 \<Longrightarrow> new_slot_of (new_slot_of x) = x" for x by (simp add: new_slot_of_le)
  then show "new_slot_of (active_slot (slots_of self' ! i)) = active_slot (slots_of self ! i)" using t(3) a by simp
  show "\<forall>off\<in>{0, 4096}. \<exists>c. sb_copy X (dev_data (in_io self')) off = Inr ((in_superblock self)\<lparr>sb_superblock_checksum := c\<rparr>)"
    using ready shards_written(4) [OF laws ready fail, of 0] shards_written(4) [OF laws ready fail, of 4096]
    by (simp add: flush_ready_def sb_copy_def)
qed

end
