(* ===== verification/Tools_Properties.thy ===== *)
theory Tools_Properties
  imports Tools_Ops Hazards
begin

text \<open>
  Properties of the maintenance calls of the raw store: the free-space scrub and the metadata calls
  keep a mounted store mounted, verification reports what reads would return, and a repair restores
  the free list.
\<close>

section \<open>The scrub\<close>

lemma scrub_region_spec:
  assumes "4096 dvd a" and "4096 dvd b" and "b \<le> length (dev_data dev)" and "length (dev_data dev) + 4096 \<le> 2 ^ 64"
    and "scrub_region a b dev = (r, dev')"
  shows "frame_set dev dev' {a..<b}" and "r = Inr () \<Longrightarrow> \<forall>i\<in>{a..<b}. dev_data dev' ! i = 0"
proof -
  have "frame_set dev dev' {a..<b} \<and> (r = Inr () \<longrightarrow> (\<forall>i\<in>{a..<b}. dev_data dev' ! i = 0))"
    using assms
  proof (induction "b - a" arbitrary: a dev rule: less_induct)
    case less
    show ?case
    proof (cases "a < b")
      case False
      then show ?thesis using less.prems(5) by (subst (asm) scrub_region.simps) simp
    next
      case True
      define n where "n = min (b - a) SCRUB_CHUNK"
      have n: "0 < n" "a + n \<le> b" "4096 dvd n" using True less.prems(1,2) by (auto simp: n_def SCRUB_CHUNK_def min_def)
      obtain rp d1 where pw: "pwrite dev a (replicate n 0) = (rp, d1)" by fastforce
      have sp: "write_span dev (length (replicate n (0 :: byte))) = n" using n(3) by simp
      have fits: "a + write_span dev (length (replicate n (0 :: byte))) \<le> length (dev_data dev)"
        and small: "length (replicate n (0 :: byte)) + 4095 < 2 ^ 64" using n(2) less.prems(3,4) unfolding sp by simp_all
      have f1: "frame_set dev d1 {a..<a + n}" using pwrite_frame_set [OF fits small] pw sp by simp
      have eq: "(r, dev') = (case rp of Inl e \<Rightarrow> (Inl e, d1) | Inr _ \<Rightarrow> scrub_region (a + n) b d1)"
        using less.prems(5) pw True by (subst (asm) scrub_region.simps) (simp add: Let_def flip: n_def split: sum.splits)
      show ?thesis
      proof (cases rp)
        case (Inl e)
        then show ?thesis using eq frame_set_mono [OF f1, of "{a..<b}"] n by simp
      next
        case (Inr u)
        then have rest: "scrub_region (a + n) b d1 = (r, dev')" using eq by simp
        have len: "length (dev_data d1) = length (dev_data dev)" by (rule frame_set_length [OF f1])
        have ih: "frame_set d1 dev' {a + n..<b} \<and> (r = Inr () \<longrightarrow> (\<forall>i\<in>{a + n..<b}. dev_data dev' ! i = 0))"
          using less.hyps [OF _ _ less.prems(2) _ _ rest] n less.prems(1,3,4) len by simp
        have z: "dev_data dev' ! i = 0" if i: "i \<in> {a..<a + n}" for i
        proof -
          have "slice (dev_data d1) a (a + n) = replicate n 0"
            using pwrite_slice [OF fits small] pw Inr by simp
          moreover have "i - a < n" "a + (i - a) = i" using i by auto
          ultimately have "dev_data d1 ! i = 0"
            using slice_nth [of "i - a" "a + n" a "dev_data d1"] n(2) less.prems(3) len by simp
          then show ?thesis using ih i n(2) less.prems(3) len by (simp add: frame_set_def)
        qed
        have "frame_set dev dev' ({a..<a + n} \<union> {a + n..<b})" by (rule frame_set_trans [OF f1 conjunct1 [OF ih]])
        moreover have "{a..<a + n} \<union> {a + n..<b} = {a..<b}" using n(2) by auto
        ultimately show ?thesis using ih z by auto
      qed
    qed
  qed
  then show "frame_set dev dev' {a..<b}" and "r = Inr () \<Longrightarrow> \<forall>i\<in>{a..<b}. dev_data dev' ! i = 0" by blast+
qed

lemma scrub_regions_spec:
  assumes "fl_ok lo hi fl" and "\<forall>(off, s)\<in>set fl. 4096 dvd off \<and> 4096 dvd off + s"
    and "hi \<le> length (dev_data dev)" and "length (dev_data dev) + 4096 \<le> 2 ^ 64"
    and "scrub_regions fl n m dev = (r, dev')"
  shows "frame_set dev dev' (covered fl)"
    and "is_ok r \<Longrightarrow> (\<forall>i\<in>covered fl. dev_data dev' ! i = 0) \<and> r = Inr (n + length fl, foldl uadd m (map snd fl))"
proof -
  have "frame_set dev dev' (covered fl) \<and> (is_ok r \<longrightarrow> (\<forall>i\<in>covered fl. dev_data dev' ! i = 0) \<and>
      r = Inr (n + length fl, foldl uadd m (map snd fl)))"
    using assms
  proof (induction fl arbitrary: lo n m dev)
    case Nil
    then show ?case by auto
  next
    case (Cons e fl)
    obtain off s where e: "e = (off, s)" by (cases e)
    have p: "off + s \<le> hi" "fl_ok (off + s + 1) hi fl" "4096 dvd off" "4096 dvd off + s"
      using Cons.prems(1,2) by (auto simp: e)
    have u: "uadd off s = off + s" using p(1) Cons.prems(3,4) by (simp add: uadd_in_range)
    obtain rs d1 where sr: "scrub_region off (off + s) dev = (rs, d1)" by fastforce
    have le: "off + s \<le> length (dev_data dev)" using p(1) Cons.prems(3) by simp
    note s1 = scrub_region_spec [OF p(3,4) le Cons.prems(4) sr]
    have len: "length (dev_data d1) = length (dev_data dev)" by (rule frame_set_length [OF s1(1)])
    show ?case
    proof (cases rs)
      case (Inl er)
      then have "r = Inl er" "dev' = d1" using Cons.prems(5) sr by (auto simp: e u)
      then show ?thesis using frame_set_mono [OF s1(1), of "covered (e # fl)"] by (auto simp: e)
    next
      case (Inr v)
      then have run: "scrub_regions fl (n + 1) (uadd m s) d1 = (r, dev')" using Cons.prems(5) sr by (simp add: e u)
      have ih: "frame_set d1 dev' (covered fl) \<and> (is_ok r \<longrightarrow> (\<forall>i\<in>covered fl. dev_data dev' ! i = 0) \<and>
          r = Inr (n + 1 + length fl, foldl uadd (uadd m s) (map snd fl)))"
        by (rule Cons.IH [OF p(2) _ _ _ run]) (use Cons.prems len in auto)
      have "dev_data dev' ! i = 0" if "i \<in> {off..<off + s}" for i
      proof -
        have "i \<notin> covered fl" using fl_ok_covered [OF p(2)] that by auto
        then have "dev_data dev' ! i = dev_data d1 ! i" using ih that le len by (simp add: frame_set_def)
        then show ?thesis using s1(2) Inr that by simp
      qed
      moreover have "frame_set dev dev' (covered (e # fl))"
        using frame_set_trans [OF s1(1) conjunct1 [OF ih]] by (simp add: e)
      ultimately show ?thesis using ih by (auto simp: e)
    qed
  qed
  then show "frame_set dev dev' (covered fl)"
    and "is_ok r \<Longrightarrow> (\<forall>i\<in>covered fl. dev_data dev' ! i = 0) \<and> r = Inr (n + length fl, foldl uadd m (map snd fl))"
    by blast+
qed

lemma fl_ok_gap: "fl_ok lo hi fl \<Longrightarrow> (off, s) \<in> set fl \<Longrightarrow> off + s \<notin> covered fl"
proof (induction lo hi fl rule: fl_ok.induct)
  case (2 lo hi o' s' r)
  then show ?case
  proof (cases "(off, s) = (o', s')")
    case True
    then show ?thesis using fl_ok_covered [of "o' + s' + 1" hi r] 2 by auto
  next
    case False
    then have m: "(off, s) \<in> set r" and ok: "fl_ok (o' + s' + 1) hi r" using 2 by auto
    then show ?thesis using 2 fl_ok_mem [OF ok m] by auto
  qed
qed simp

text \<open>The runs of a consistent free list end at an extent or at the end of the data area.\<close>

lemma free_runs_aligned:
  assumes inv: "store_ok de self" and a: "in_allocator self = Some a" and de: "4096 dvd de" and m: "(off, s) \<in> set (free_list a)"
  shows "4096 dvd off" and "4096 dvd off + s"
proof -
  have ok: "fl_ok DATA_START de (free_list a)" and al: "fl_aligned (free_list a)"
    and fs: "free_set a = {DATA_START..<de} - used (hm_get (files_of self))" and fi: "files_inv de (hm_get (files_of self))"
    using inv a by (auto simp: space_inv_def area_inv_def alloc_inv_def)
  show "4096 dvd off" using al m by (auto simp: fl_aligned_def)
  have b: "DATA_START \<le> off" "0 < s" "off + s \<le> de" using fl_ok_mem [OF ok m] by auto
  show "4096 dvd off + s"
  proof (cases "off + s = de")
    case True
    then show ?thesis using de by simp
  next
    case False
    then have "off + s \<in> used (hm_get (files_of self))"
      using fl_ok_gap [OF ok m] fs b by (auto simp: free_set_def)
    then obtain k e where e: "hm_get (files_of self) k = Some e" "off + s \<in> e_range e" by (auto simp: used_mem)
    have "off + s - 1 \<in> covered (free_list a)" using m b(2) by (force simp: covered_def)
    then have "off + s - 1 \<notin> e_range e" using fs e_range_used [of "hm_get (files_of self)" k e] e(1) by (auto simp: free_set_def)
    then have "ei_offset e = off + s" using e(2) b(2) by auto
    moreover have "entry_ok de e" using fi e(1) by (auto simp: files_inv_def)
    ultimately show ?thesis by (simp add: entry_ok_def area_unit_def)
  qed
qed

text \<open>
  A step that keeps the index, up to tracked changes, and writes only to the data area keeps a
  mounted store mounted.
\<close>

lemma mounted_step:
  assumes m: "mounted X l ix0 A s" and tr: "tracked X s t" and fr: "dev_frame (in_io s) (in_io t) DATA_START (il_region_a l)"
    and ok: "store_ok (il_region_a l) t" and rep: "rep X t B"
  shows "mounted X l ix0 B t"
proof -
  have ready: "flush_ready X l ix0 s" and cfg: "config_ok s" using m by (simp_all add: mounted_def)
  have len: "length (in_shard_dirty s) = NUM_SHARDS" using ready by (simp add: flush_ready_def)
  have "config_ok t" using tr cfg len by (auto simp: tracked_def alters_def config_ok_def)
  then show ?thesis using flush_ready_step [OF ready tr fr] ok rep by (simp add: mounted_def)
qed

lemma mounted_region:
  assumes "mounted X l ix0 A s"
  shows "4096 dvd il_region_a l" and "DATA_START \<le> il_region_a l" and "il_region_a l \<le> length (dev_data (in_io s))"
    and "length (dev_data (in_io s)) + 4096 \<le> 2 ^ 64"
proof -
  have "layout_ok (length (dev_data (in_io s))) l" using assms by (simp add: mounted_def flush_ready_def)
  then show "4096 dvd il_region_a l" "DATA_START \<le> il_region_a l" "il_region_a l \<le> length (dev_data (in_io s))"
    "length (dev_data (in_io s)) + 4096 \<le> 2 ^ 64"
    using layout_facts [of "length (dev_data (in_io s))" l] by (auto simp: layout_ok_def)
qed

lemma scrub_spec:
  assumes m: "mounted X l ix0 A s" and run: "scrub_free_space s = (r, t)" and a: "in_allocator s = Some a"
  shows "mounted X l ix0 A t"
    and "is_ok r \<Longrightarrow> r = Inr (length (free_list a), free_space a) \<and> (\<forall>i\<in>free_set a. dev_data (in_io t) ! i = 0)"
proof -
  let ?de = "il_region_a l"
  have inv: "store_ok ?de s" and rep: "rep X s A" and rw: "\<not> in_read_only s"
    using m by (simp_all add: mounted_def config_ok_def)
  note reg = mounted_region [OF m]
  have ok: "fl_ok DATA_START ?de (free_list a)" and fs: "free_set a = {DATA_START..<?de} - used (hm_get (files_of s))"
    using inv a by (auto simp: space_inv_def area_inv_def alloc_inv_def)
  have al: "\<forall>(off, sz)\<in>set (free_list a). 4096 dvd off \<and> 4096 dvd off + sz"
    using free_runs_aligned [OF inv a reg(1)] by auto
  obtain rs d1 where sc: "scrub_regions (free_list a) 0 0 (in_io s) = (rs, d1)" by fastforce
  note sr = scrub_regions_spec [OF ok al reg(3,4) sc]
  obtain rsy d2 where sy: "dev_sync d1 = (rsy, d2)" by fastforce
  note ds = dev_sync_frame_set [OF sy]
  define d where "d = (case rs of Inl _ \<Rightarrow> d1 | Inr _ \<Rightarrow> d2)"
  have t: "t = s\<lparr>in_io := d\<rparr>" and rr: "is_ok r \<Longrightarrow> is_ok rs \<and> r = rs"
    using run rw a sc sy by (auto simp: scrub_free_space_def d_def split: sum.splits)
  have dd: "dev_data d = dev_data d1" using ds(2) by (simp add: d_def split: sum.splits)
  have fr: "frame_set (in_io s) d (covered (free_list a))"
    using sr(1) frame_set_trans [OF sr(1) ds(1)] by (simp add: d_def split: sum.splits)
  have cov: "covered (free_list a) \<subseteq> {DATA_START..<?de}" by (rule fl_ok_covered [OF ok])
  have df: "dev_frame (in_io s) d DATA_START ?de"
    using fr cov by (auto simp: frame_set_def dev_frame_def)
  have "rep X t A"
  proof -
    have "obj_ok X (in_compression s) (dev_data d) e p"
      if "hm_get (files_of s) k = Some e" "obj_ok X (in_compression s) (dev_data (in_io s)) e p" for k e p
    proof (rule obj_ok_slice [OF that(2)], rule frame_set_slice [OF fr])
      have "entry_ok ?de e" by (rule entry_ok_of [OF inv that(1)])
      then show "{ei_offset e..<ei_offset e + num_blocks (ei_size e) * 4096} \<inter> covered (free_list a) = {}"
        using e_range_used [of "hm_get (files_of s)" k e] that(1) fs by (auto simp: entry_ok_def free_set_def)
    qed
    then show ?thesis using rep unfolding rep_def t by simp blast
  qed
  moreover have "store_ok ?de t" unfolding t by (rule space_inv_io [OF inv dev_frame_length [OF df]])
  ultimately show "mounted X l ix0 A t" using df by (intro mounted_step [OF m]) (simp_all add: t)
  show "r = Inr (length (free_list a), free_space a) \<and> (\<forall>i\<in>free_set a. dev_data (in_io t) ! i = 0)" if "is_ok r"
    using rr [OF that] sr(2) by (auto simp: t dd free_space_def free_set_def)
qed

text \<open>
  C32. Free-space scrub. Scrubbing a mounted store, whatever fault stops it, keeps the index, every
  object and the committed index on the device; a scrub that reports success has zeroed every byte
  that no object uses, and reports the number of free runs and free bytes.
\<close>

theorem scrub_safe:
  assumes "mounted X l ix0 A s" and "scrub_free_space s = (r, t)"
  shows "mounted X l ix0 A t \<and> in_index t = in_index s \<and>
    (is_ok r \<longrightarrow> (\<forall>i\<in>{DATA_START..<il_region_a l} - used (hm_get (files_of s)). dev_data (in_io t) ! i = 0) \<and>
      (\<exists>n. r = Inr (n, card ({DATA_START..<il_region_a l} - used (hm_get (files_of s))))))"
proof -
  have inv: "store_ok (il_region_a l) s" and rw: "\<not> in_read_only s"
    using assms(1) by (simp_all add: mounted_def config_ok_def)
  then obtain a where a: "in_allocator s = Some a" and al: "alloc_inv DATA_START (il_region_a l) a" "il_region_a l < 2 ^ 64"
    and fs: "free_set a = {DATA_START..<il_region_a l} - used (hm_get (files_of s))"
    by (cases "in_allocator s") (auto simp: space_inv_def area_inv_def)
  have "in_index t = in_index s"
    using assms(2) by (auto simp: scrub_free_space_def split: if_splits sum.splits prod.splits)
  then show ?thesis using scrub_spec [OF assms a] free_space_card [OF al] fs by auto
qed

theorem scrub_safe_witness:
  "\<exists>r t. scrub_free_space ref_one = (r, t) \<and> mounted ref_env (rs_layout ref_rs) index_new [''a'' \<mapsto> (ref_payload, 0)] t"
proof -
  obtain r t where "scrub_free_space ref_one = (r, t)" by fastforce
  then show ?thesis using scrub_safe [OF ref_one_ok(2)] by blast
qed

section \<open>Metadata\<close>

lemma finish_put_tracked:
  assumes "inner_alloc n s = (ra, s1)" and "finish_put X now key off p sz ml w s1 = (r, t)"
  shows "tracked X s t"
proof -
  obtain rw d where w: "w = (rw, d)" by (cases w)
  have "tracked X s' (replace_entry X key e s')" for e s'
    using alters_chain [OF alters_free_old [of key s'] alters_untomb] unfolding replace_entry_def Let_def by (rule trackedI)
  from this [of "s1\<lparr>in_io := d\<rparr>"] show ?thesis
    using inner_alloc_state [OF assms(1)] assms(2) w by (auto simp: finish_put_def Let_def split: sum.splits if_splits)
qed

lemma update_metadata_tracked: "update_metadata X now key md s = (r, t) \<Longrightarrow> tracked X s t"
proof -
  assume run: "update_metadata X now key md s = (r, t)"
  have "tracked X s s1" if "inner_alloc n s = (ra, s1)" for n ra s1 using inner_alloc_state [OF that] by auto
  then show ?thesis
    using run
    by (auto simp: update_metadata_def Let_def dest: put_tracked finish_put_tracked split: if_splits sum.splits prod.splits)
qed

lemma get_metadata_spec:
  assumes inv: "store_ok de s" and rep: "rep X s A" and A: "A k = Some (p, ml)" and ml: "ml \<le> length p"
    and nf: "\<And>i n. \<not> dev_rfault (in_io s) i n" and small: "in_compression s = CNone \<or> length p \<le> COMPRESSED_RANGE_READ_MAX"
  shows "get_metadata X k s = Inr (drop (length p - ml) p)"
proof -
  obtain e where e: "hm_get (files_of s) k = Some e"
    using rep_None [OF rep, of k] A by (cases "hm_get (files_of s) k") auto
  have m: "ei_meta_len e = ml" and obj: "obj_ok X (in_compression s) (dev_data (in_io s)) e p"
    using rep_Some [OF rep e] A by (metis Pair_inject option.inject)+
  have lg: "logical_size e = length p" using obj by (auto simp: obj_ok_def logical_size_def)
  show ?thesis
  proof (cases "ml = 0")
    case True
    then show ?thesis using e m by (simp add: get_metadata_def lookup_info_def)
  next
    case False
    then have range: "length p - ml < length p" "length p \<le> length p" using ml by auto
    have "do_get_range X k (length p - ml) (length p) s = Inr (slice p (length p - ml) (length p), e)"
    proof (cases "ei_uncompressed_size e = 0")
      case True
      from do_get_range_plain(2) [OF inv e obj True range nf] show ?thesis .
    next
      case comp: False
      then have "in_compression s \<noteq> CNone" using obj by (auto simp: obj_ok_def)
      then have "length p \<le> COMPRESSED_RANGE_READ_MAX" using small by simp
      from do_get_range_compressed(2) [OF inv rep A e comp this _ range(2) nf] show ?thesis by simp
    qed
    then show ?thesis
      using e m False lg by (simp add: get_metadata_def lookup_info_def saturating_sub_def slice_def)
  qed
qed

text \<open>
  C31. Replacing metadata. An update of an object's metadata fails with nothing changed but bytes of
  free extents, or replaces the metadata suffix and keeps the body; for every device fault the store
  stays mounted with its last committed index. An unknown key or metadata above the limit is
  refused.
\<close>

theorem update_metadata_refines:
  fixes X :: "'x store_env_scheme"
  assumes "lawful X" and "mounted X l ix0 A s" and "update_metadata X now key md s = (r, t)"
    and "\<And>p ml. A key = Some (p, ml) \<Longrightarrow> length p + 65535 < 2 ^ 63"
  shows "case A key of
      None \<Rightarrow> t = s \<and> r = (if length md > 65535 then Inl (MetadataTooLarge (length md) 65535) else Inl (NotFound key))
    | Some (p, ml) \<Rightarrow>
        (if is_ok r then length md \<le> 65535 \<and> mounted X l ix0 (A(key \<mapsto> (take (length p - ml) p @ md, length md))) t
         else mounted X l ix0 A t \<and> t = s\<lparr>in_io := in_io t\<rparr>)"
proof -
  have laws: "crc_laws X" "codec_laws X" using assms(1) by (simp_all add: lawful_def)
  have inv: "store_ok (il_region_a l) s" and rep: "rep X s A" using assms(2) by (simp_all add: mounted_def)
  note sp = update_metadata_spec [OF laws inv rep assms(4) assms(3)]
  show ?thesis
  proof (cases "A key")
    case None
    then show ?thesis using sp by simp
  next
    case (Some pm)
    obtain p ml where pm: "pm = (p, ml)" by (cases pm)
    have po: "put_outcome X (il_region_a l) key (take (length p - ml) p @ md, length md) A s r t"
      and md: "is_ok r \<longrightarrow> length md \<le> 65535" using sp Some pm by simp_all
    have "mounted X l ix0 B t" if "rep X t B" for B
      using that po by (intro mounted_step [OF assms(2) update_metadata_tracked [OF assms(3)]]) (simp_all add: put_outcome_def)
    then show ?thesis using po md Some pm by (cases r) (auto simp: put_outcome_def)
  qed
qed

theorem update_metadata_refines_witness:
  "\<exists>r t. update_metadata ref_env 7 ''a'' [1] ref_one = (r, t) \<and>
     (if is_ok r then mounted ref_env (rs_layout ref_rs) index_new [''a'' \<mapsto> (ref_payload @ [1], 1)] t
      else mounted ref_env (rs_layout ref_rs) index_new [''a'' \<mapsto> (ref_payload, 0)] t)"
proof -
  obtain r t where run: "update_metadata ref_env 7 ''a'' [1] ref_one = (r, t)" by fastforce
  have law: "lawful ref_env" by (simp add: lawful_def ref_crc_laws ref_codec_laws)
  show ?thesis
    using update_metadata_refines [OF law ref_one_ok(2) run] run by (auto split: if_splits)
qed

text \<open>
  Metadata round trip. After an object was stored with a metadata suffix, a read of its metadata
  returns the suffix and a full read its body, when reads do not fail; for a compressed object the
  payload must not exceed the limit of ranged reads.
\<close>

lemma metadata_roundtrip:
  fixes X :: "'x store_env_scheme"
  assumes "lawful X" and "stream_laws X" and "mounted X l ix0 A s" and "put_with_meta X now key body md s = (Inr (), t)"
    and "length (body @ md) < 2 ^ 63" and "\<And>i n. \<not> dev_rfault (in_io t) i n"
    and "in_compression s = CNone \<or> length (body @ md) \<le> COMPRESSED_RANGE_READ_MAX"
  shows "get_metadata X key t = Inr md \<and> (\<exists>m. get_full X key t = Inr (body, m)) \<and>
    (\<exists>m. head_with_meta key t = Inr (m, length md) \<and> om_size m = length body)"
proof -
  have put: "do_put_with_meta X now key (body @ md) (length md) s = (Inr (), t)"
    using assms(4) by (simp add: put_with_meta_def split: if_splits)
  have laws: "crc_laws X" "codec_laws X" using assms(1) by (simp_all add: lawful_def)
  have inv: "store_ok (il_region_a l) s" and rep: "rep X s A" using assms(3) by (simp_all add: mounted_def)
  have it: "store_ok (il_region_a l) t" and rt: "rep X t (A(key \<mapsto> (body @ md, length md)))"
    using do_put_spec [OF laws inv assms(5) put] rep by auto
  have len: "length (in_shard_dirty s) = NUM_SHARDS" using inv by (simp add: space_inv_def)
  have cm: "in_compression t = in_compression s"
    using put_tracked [OF put] len by (auto simp: tracked_def alters_def)
  have At: "(A(key \<mapsto> (body @ md, length md))) key = Some (body @ md, length md)" by simp
  have "get_metadata X key t = Inr (drop (length (body @ md) - length md) (body @ md))"
    using assms(7) cm by (intro get_metadata_spec [OF it rt At _ assms(6)]) simp_all
  then have gm: "get_metadata X key t = Inr md" by simp
  obtain e where e: "hm_get (files_of t) key = Some e"
    using rep_None [OF rt, of key] by (cases "hm_get (files_of t) key") auto
  have m: "ei_meta_len e = length md" and obj: "obj_ok X (in_compression t) (dev_data (in_io t)) e (body @ md)"
    using rep_Some [OF rt e] At by (metis Pair_inject option.inject)+
  have lg: "logical_size e = length (body @ md)" using obj by (auto simp: obj_ok_def logical_size_def)
  have "full_body X key t e = Inr (take (length (body @ md) - length md) (body @ md))"
    using full_body_spec(2) [OF assms(2) it e obj assms(6)] m by simp
  then show ?thesis
    using gm e m lg by (simp add: get_full_def head_with_meta_def lookup_info_def meta_for_def saturating_sub_def)
qed

lemma ref_put_meta:
  "\<exists>t. put_with_meta ref_env 0 ''m'' [1, 2, 3] [9] (rs_inner ref_rs) = (Inr (), t) \<and> (\<forall>i n. \<not> dev_rfault (in_io t) i n)"
proof -
  let ?s = "rs_inner ref_rs" and ?p = "[1, 2, 3, 9] :: byte list"
  have so: "store_ok 40960 ?s" and rw: "\<not> in_read_only ?s" and fl: "files_of ?s = []"
    using ref_mounted by (simp_all add: mounted_def config_ok_def ref_rs_facts files_of_def index_new_def)
  obtain a where a: "in_allocator ?s = Some a" "free_set a = {DATA_START..<40960}"
    using so rw fl by (cases "in_allocator ?s") (auto simp: space_inv_def used_def)
  have "num_blocks (length ?p) = 1" by (simp add: num_blocks_def div_ceil_def)
  then have "{DATA_START..<DATA_START + num_blocks (length ?p) * 4096} \<subseteq> free_set a" by (simp add: a layout_consts)
  then have "fst (do_put_with_meta ref_env 0 ''m'' ?p 1 ?s) = Inr ()"
    by (intro do_put_succeeds [OF ref_crc_laws ref_codec_laws so _ rw _ _ a(1)]) (simp_all add: ref_rs_facts)
  then obtain t where t: "do_put_with_meta ref_env 0 ''m'' ?p 1 ?s = (Inr (), t)" by (metis prod.collapse)
  have "dev_frame (in_io ?s) (in_io t) DATA_START 40960"
    using do_put_spec [OF ref_crc_laws ref_codec_laws so _ t] by simp
  then have "dev_rfault (in_io t) = dev_rfault (in_io ?s)" by (simp add: dev_frame_def dev_same_def)
  moreover have "\<not> dev_rfault (in_io ?s) i n" for i n by (rule ref_rs_facts)
  ultimately show ?thesis using t by (simp add: put_with_meta_def)
qed

section \<open>Verification\<close>

lemma verify_extent_ok:
  "verify_extent X io de e = VerifyOk \<longleftrightarrow>
     DATA_START \<le> ei_offset e \<and> saturating_add (ei_offset e) (ei_padded_size e) \<le> de \<and> full_stale X io (k, e) = None"
  by (auto simp: verify_extent_def full_stale_def Let_def split: if_splits sum.splits raw_store_error.splits)

lemma overlap_pairs_windows: "map snd (overlap_pairs T) = overlap_windows T"
  by (induction T rule: overlap_pairs.induct) auto

lemma fl_consistent_ok: "fl_ok lo de fl \<Longrightarrow> DATA_START \<le> lo \<Longrightarrow> de < 2 ^ 64 \<Longrightarrow> fl_consistent de fl"
proof (induction lo de fl rule: fl_ok.induct)
  case (2 lo hi off s r)
  have sum: "uadd off s = off + s" "saturating_add off s = off + s" using 2 by (auto simp: u64_simps)
  have "fl_consistent hi r" using 2 by auto
  moreover have "case r of (n, _) # _ \<Rightarrow> \<not> uadd off s > n | [] \<Rightarrow> True" using 2(2) sum by (auto split: list.splits)
  ultimately show ?case using 2(2,3) sum by (auto split: list.splits)
qed simp

lemma used_ok_card: "used_ok lo hi L \<Longrightarrow> card (covered L) = sum_list (map snd L)"
proof (induction lo hi L rule: used_ok.induct)
  case (2 lo hi off s r)
  have "covered r \<subseteq> {off + s..<hi}" using used_ok_covered 2(2) by auto
  then have "{off..<off + s} \<inter> covered r = {}" by auto
  then show ?case using 2 by (simp add: card_Un_disjoint)
qed simp

lemma used_bytes_card:
  assumes wf: "hm_wf F" and inv: "files_inv de (hm_get F)" and "de < 2 ^ 64" and "DATA_START \<le> de"
  shows "foldl uadd 0 (map (\<lambda>(_, e). ei_padded_size e) F) = card (used (hm_get F))"
    and "card (used (hm_get F)) \<le> de - DATA_START"
proof -
  let ?L = "sort_key fst (map entry_span F)"
  have "used_ok DATA_START de ?L" and c: "covered ?L = used (hm_get F)"
    using spans_used_ok [OF wf inv assms(4), of ?L] by simp_all
  then have "card (used (hm_get F)) = sum_list (map snd ?L)" using used_ok_card [of DATA_START de ?L] by simp
  also have "mset (map snd ?L) = mset (map (\<lambda>(_, e). ei_padded_size e) F)"
    by (simp add: image_mset.compositionality comp_def case_prod_unfold entry_span_def)
  then have "sum_list (map snd ?L) = sum_list (map (\<lambda>(_, e). ei_padded_size e) F)" by (metis sum_mset_sum_list)
  finally have eq: "card (used (hm_get F)) = sum_list (map (\<lambda>(_, e). ei_padded_size e) F)" .
  have "card (used (hm_get F)) \<le> card {DATA_START..<de}" using files_inv_used [OF inv] by (intro card_mono) auto
  then show le: "card (used (hm_get F)) \<le> de - DATA_START" by simp
  then show "foldl uadd 0 (map (\<lambda>(_, e). ei_padded_size e) F) = card (used (hm_get F))"
    using foldl_uadd [of 0 "map (\<lambda>(_, e). ei_padded_size e) F"] assms(3) eq by simp
qed

text \<open>
  A consistent store verifies clean. The verification of a mounted store whose device can be
  read reports every object as good, no overlap, a consistent free list, and used and free bytes
  that add up to the data area.
\<close>

lemma verify_all_clean:
  assumes "mounted X (rs_layout rs) ix0 A (rs_inner rs)" and "\<And>i n. \<not> dev_rfault (in_io (rs_inner rs)) i n"
  shows "vr_errors (verify_all X rs) = [] \<and> vr_files_ok (verify_all X rs) = card (dom A) \<and>
    vr_files_checked (verify_all X rs) = card (dom A) \<and> vr_overlapping_extents (verify_all X rs) = [] \<and>
    vr_free_list_consistent (verify_all X rs) \<and> vr_space_accounted (verify_all X rs) \<and>
    vr_total_used (verify_all X rs) + vr_total_free (verify_all X rs) = vr_total_data_region (verify_all X rs)"
proof -
  let ?s = "rs_inner rs" and ?de = "il_region_a (rs_layout rs)"
  let ?F = "files_of ?s"
  have inv: "store_ok ?de ?s" and rep: "rep X ?s A" and rw: "\<not> in_read_only ?s"
    using assms(1) by (simp_all add: mounted_def config_ok_def)
  note reg = mounted_region [OF assms(1)]
  have de: "?de < 2 ^ 64" using reg(3,4) by simp
  have wf: "hm_wf ?F" and fi: "files_inv ?de (hm_get ?F)" and room: "dev_room ?de (in_io ?s)"
    using inv by (simp_all add: space_inv_def)
  obtain a where a: "in_allocator ?s = Some a" and ai: "alloc_inv DATA_START ?de a"
    and fs: "free_set a = {DATA_START..<?de} - used (hm_get ?F)"
    using inv rw by (cases "in_allocator ?s") (auto simp: space_inv_def area_inv_def)
  have ok: "verify_extent X (in_io ?s) ?de e = VerifyOk" if "(k, e) \<in> set ?F" for k e
  proof -
    have get: "hm_get ?F k = Some e" using that hm_get_iff [OF wf] by simp
    have eo: "entry_ok ?de e" by (rule entry_ok_of [OF inv get])
    obtain p where "obj_ok X (in_compression ?s) (dev_data (in_io ?s)) e p" using rep_Some [OF rep get] by blast
    then have "full_stale X (in_io ?s) (k, e) = None" by (rule obj_ok_not_stale(2) [OF _ eo room assms(2)])
    then show ?thesis using entry_in_bounds [OF eo de] verify_extent_ok by blast
  qed
  have ub: "foldl uadd 0 (map (\<lambda>(_, e). ei_padded_size e) ?F) = card (used (hm_get ?F))"
    "card (used (hm_get ?F)) \<le> ?de - DATA_START" by (rule used_bytes_card [OF wf fi de reg(2)])+
  have "card (free_set a) = card {DATA_START..<?de} - card (used (hm_get ?F))"
    unfolding fs using files_inv_used [OF fi] by (intro card_Diff_subset) (auto intro: finite_subset)
  then have fr: "free_space a = (?de - DATA_START) - card (used (hm_get ?F))" using free_space_card [OF ai de] by simp
  have sum: "card (used (hm_get ?F)) + free_space a = ?de - DATA_START" using fr ub(2) by simp
  have region: "usub ?de DATA_START = ?de - DATA_START" using reg(2) de by (simp add: usub_in_range)
  have "fl_ok DATA_START ?de (free_list a)" using ai by (simp add: alloc_inv_def)
  then have cons: "fl_consistent ?de (free_list a)" using de by (rule fl_consistent_ok [OF _ order_refl])
  have "overlap_keys ?F = []" by (rule overlap_keys_none [OF wf fi de reg(2)])
  then have ov: "overlap_pairs (sort_key (\<lambda>(_, off, _). off) (map (\<lambda>(k, v). (k, ei_offset v, ei_padded_size v)) ?F)) = []"
    using overlap_pairs_windows [of "sort_key (\<lambda>(_, off, _). off) (map (\<lambda>(k, v). (k, ei_offset v, ei_padded_size v)) ?F)"]
    by (simp add: overlap_keys_def)
  have "dom A = set (map fst ?F)" using rep_None [OF rep] by (auto simp: dom_map_of_conv_image_fst [symmetric] dom_def)
  then have cd: "card (dom A) = length ?F" using wf by (metis distinct_card hm_wf_def length_map)
  have "filter (\<lambda>(_, _, _, st). st = VerifyOk) (map (\<lambda>(path, info). (path, ei_offset info, ei_size info,
      verify_extent X (in_io ?s) ?de info)) ?F) = map (\<lambda>(path, info). (path, ei_offset info, ei_size info,
      verify_extent X (in_io ?s) ?de info)) ?F"
    using ok by (intro filter_True) auto
  moreover have "filter (\<lambda>(_, _, _, st). st \<noteq> VerifyOk) (map (\<lambda>(path, info). (path, ei_offset info, ei_size info,
      verify_extent X (in_io ?s) ?de info)) ?F) = []"
    using ok by (intro filter_False) auto
  ultimately show ?thesis
    using sum ub region cons ov cd de by (simp add: verify_all_def Let_def a uadd_in_range del: length_filter_map filter_map)
qed

lemma ref_one_reads: "\<not> dev_rfault (in_io ref_one) i n"
proof -
  have so: "store_ok 40960 (rs_inner ref_rs)" using ref_mounted by (simp add: mounted_def ref_rs_facts)
  have "dev_frame (in_io (rs_inner ref_rs)) (in_io ref_one) DATA_START 40960"
    using do_put_spec [OF ref_crc_laws ref_codec_laws so _ ref_one_ok(3)] by simp
  then show ?thesis using ref_rs_facts(12) by (simp add: dev_frame_def dev_same_def)
qed

text \<open>
  C34. Verification is exact. For an entry with a well-formed extent on a device that can be read,
  the verification lists the object as good exactly when the extent lies in the data area and a raw
  read returns a payload with the checksum of the index.
\<close>

theorem verify_all_exact:
  assumes wf: "hm_wf (files_of (rs_inner rs))" and nf: "\<And>i n. \<not> dev_rfault (in_io (rs_inner rs)) i n"
    and de: "il_region_a (rs_layout rs) \<le> length (dev_data (in_io (rs_inner rs)))"
    and len: "length (dev_data (in_io (rs_inner rs))) + 4096 \<le> 2 ^ 64"
    and e: "hm_get (files_of (rs_inner rs)) k = Some e" "4096 dvd ei_offset e" "ei_padded_size e = num_blocks (ei_size e) * 4096"
  shows "(k, ei_offset e, ei_size e, VerifyOk) \<in> set (vr_ok_files (verify_all X rs)) \<longleftrightarrow>
    DATA_START \<le> ei_offset e \<and> ei_offset e + ei_padded_size e \<le> il_region_a (rs_layout rs) \<and>
    (\<exists>p. do_get_raw X k (rs_inner rs) = Inr (p, e) \<and> x_crc32c X p = ei_crc32c e)"
proof -
  let ?s = "rs_inner rs" and ?de = "il_region_a (rs_layout rs)" and ?n = "num_blocks (ei_size e)"
  have mem: "(k, x) \<in> set (files_of ?s) \<longleftrightarrow> x = e" for x using hm_get_iff [OF wf, of k x] e(1) by auto
  have "(k, ei_offset e, ei_size e, VerifyOk) \<in> set (vr_ok_files (verify_all X rs)) \<longleftrightarrow>
      verify_extent X (in_io ?s) ?de e = VerifyOk"
    using mem by (auto simp: verify_all_def Let_def intro!: rev_image_eqI [of "(k, e)"] split: option.splits)
  also have "\<dots> \<longleftrightarrow> DATA_START \<le> ei_offset e \<and> ei_offset e + ei_padded_size e \<le> ?de \<and>
      full_stale X (in_io ?s) (k, e) = None"
    unfolding verify_extent_ok [where k = k]
    using de len u64_max_def saturating_add_le_iff [of ?de "ei_offset e" "ei_padded_size e"] by simp
  also have "\<dots> \<longleftrightarrow> DATA_START \<le> ei_offset e \<and> ei_offset e + ei_padded_size e \<le> ?de \<and>
      (\<exists>p. do_get_raw X k ?s = Inr (p, e) \<and> x_crc32c X p = ei_crc32c e)"
  proof (cases "ei_offset e + ei_padded_size e \<le> ?de")
    case True
    then have fits: "extent_fits (in_io ?s) (ei_offset e) ?n" using de len e by (simp add: extent_fits_def)
    have pad: "padded_extent_size (ei_size e) = Inr (?n * 4096)"
      using fits by (intro padded_extent_size_Inr [THEN iffD2]) (simp add: extent_fits_def)
    have rd: "pread (in_io ?s) (ei_offset e) (?n * 4096) = Inr (extent_bytes (in_io ?s) (ei_offset e) ?n)"
      by (rule pread_ok) (use fits nf in \<open>auto simp: extent_fits_def\<close>)
    have "do_get_raw X k ?s = Inr (p, e) \<longleftrightarrow> decode_blocks X (extent_bytes (in_io ?s) (ei_offset e) ?n) (ei_size e) = Inr p" for p
      using read_and_decode_no_fault [OF fits nf, where X = X] e(1) by (auto simp: do_get_raw_def lookup_info_def bind_res_Inr_iff)
    then show ?thesis using pad rd by (auto simp: full_stale_def Let_def split: sum.splits if_splits)
  qed simp
  finally show ?thesis .
qed

theorem verify_all_exact_witness:
  "\<exists>e :: extent_info. (''a'', ei_offset e, ei_size e, VerifyOk) \<in> set (vr_ok_files (verify_all ref_env (ref_rs\<lparr>rs_inner := ref_one\<rparr>)))"
proof -
  let ?rs = "ref_rs\<lparr>rs_inner := ref_one\<rparr>"
  have so: "store_ok (il_region_a (rs_layout ref_rs)) ref_one" and rep: "rep ref_env ref_one [''a'' \<mapsto> (ref_payload, 0)]"
    using ref_one_ok(2) by (simp_all add: mounted_def)
  obtain e where e: "hm_get (files_of ref_one) ''a'' = Some e"
    using rep_None [OF rep, of "''a''"] by (cases "hm_get (files_of ref_one) ''a''") auto
  have eo: "entry_ok (il_region_a (rs_layout ref_rs)) e" by (rule entry_ok_of [OF so e])
  note reg = mounted_region [OF ref_one_ok(2)]
  obtain p where obj: "obj_ok ref_env (in_compression ref_one) (dev_data (in_io ref_one)) e p" using rep_Some [OF rep e] by blast
  obtain w where "do_get_raw ref_env ''a'' ref_one = Inr (w, e) \<and> x_crc32c ref_env w = ei_crc32c e"
  proof -
    obtain w where w: "length w = ei_size e" "ei_crc32c e = x_crc32c ref_env w"
      "extent_bytes (in_io ref_one) (ei_offset e) (num_blocks (ei_size e)) = encode_blocks ref_env w"
      using obj by (auto simp: obj_ok_def)
    then have "read_and_decode_batched ref_env (in_io ref_one) (ei_offset e) (ei_size e) = Inr w"
      using stored_read_ok [of "in_io ref_one" "ei_offset e" w ref_env] stored_fits [OF so e] ref_one_reads by simp
    then show ?thesis using that [of w] w(2) e by (simp add: do_get_raw_def lookup_info_def)
  qed
  then have "(''a'', ei_offset e, ei_size e, VerifyOk) \<in> set (vr_ok_files (verify_all ref_env ?rs))"
    using verify_all_exact [where rs = ?rs and k = "''a''" and e = e and X = ref_env] so e eo reg ref_one_reads
    by (auto simp: space_inv_def entry_ok_def area_unit_def)
  then show ?thesis by blast
qed

section \<open>Repair\<close>

text \<open>
  C33. Repair. A repair discards the free list, whatever it was, rebuilds it from the index and
  flushes. When it reports success the store is mounted with all its objects, its whole index is
  committed on the device, and the free space it reports is the number of bytes no object uses.
\<close>

theorem repair_correct:
  assumes laws: "sb_laws X" "shard_laws X" and m: "mounted X (rs_layout rs) ix0 A ((rs_inner rs)\<lparr>in_allocator := a0\<rparr>)"
    and txn: "sb_txn_id (in_superblock (rs_inner rs)) + 1 < 2 ^ 64" and run: "repair X rs = (Inr report, rs')"
  shows "mounted X (rs_layout rs) (in_index (rs_inner rs')) A (rs_inner rs') \<and>
    in_index (rs_inner rs') = in_index (rs_inner rs) \<and>
    rr_new_free_space report = card ({DATA_START..<il_region_a (rs_layout rs)} - used (hm_get (files_of (rs_inner rs)))) \<and>
    rr_files_found report = card (dom A)"
proof -
  let ?s = "rs_inner rs" and ?l = "rs_layout rs"
  let ?de = "il_region_a ?l"
  define s1 where "s1 = ?s\<lparr>in_allocator := Some (rebuild_allocator (in_index ?s) ?de)\<rparr>"
  note reg = mounted_region [OF m]
  have de: "?de < 2 ^ 64" using reg(3,4) by simp
  have rw: "\<not> in_read_only ?s" using m by (simp add: mounted_def config_ok_def)
  have wf: "hm_wf (files_of ?s)" and fi: "files_inv ?de (hm_get (files_of ?s))" and rep: "rep X ?s A"
    using m by (auto simp: mounted_def space_inv_def rep_def files_of_def)
  note rb = rebuild_allocator_inv [OF wf [unfolded files_of_def] fi [unfolded files_of_def] de reg(2)]
  have m1: "mounted X ?l ix0 A s1"
    using m rb by (auto simp: mounted_def space_inv_def rep_def files_of_def flush_ready_def config_ok_def s1_def)
  obtain s2 where fl: "flush_inner X ?l s1 = (Inr (), s2)" and s2: "rs_inner rs' = s2"
    and st: "rr_new_free_space report = fst (alloc_stats (in_allocator s2))" and ff: "rr_files_found report = length (files_of ?s)"
    using run rw by (auto simp: repair_def Let_def flush_index_def s1_def rebuild_allocator_def split: sum.splits prod.splits)
  have t1: "sb_txn_id (in_superblock s1) + 1 < 2 ^ 64" using txn by (simp add: s1_def)
  note fm = flush_mounted [OF laws m1 t1 fl]
  have rdy: "flush_ready X ?l ix0 s1" using m1 by (simp add: mounted_def)
  note fd = flush_data_frame [OF laws rdy fl]
  have ix: "in_index s2 = in_index ?s" and al: "in_allocator s2 = Some (rebuild_allocator (in_index ?s) ?de)"
    using fd by (simp_all add: s1_def)
  have "dom A = set (map fst (files_of ?s))" using rep_None [OF rep] by (auto simp: dom_map_of_conv_image_fst [symmetric] dom_def)
  then have "card (dom A) = length (files_of ?s)" using wf by (metis distinct_card hm_wf_def length_map)
  moreover have "free_space (rebuild_allocator (in_index ?s) ?de) = card ({DATA_START..<?de} - used (hm_get (files_of ?s)))"
    using free_space_card [of DATA_START ?de] rb de by (simp add: area_inv_def files_of_def)
  ultimately show ?thesis using fm(1) s2 st ff ix al by (simp add: alloc_stats_def)
qed

theorem repair_correct_witness:
  "\<exists>report rs'. repair ref_env (ref_rs\<lparr>rs_inner := ref_one\<lparr>in_allocator := None\<rparr>\<rparr>) = (Inr report, rs') \<and>
     mounted ref_env (rs_layout ref_rs) (in_index (rs_inner rs')) [''a'' \<mapsto> (ref_payload, 0)] (rs_inner rs')"
proof -
  let ?l = "rs_layout ref_rs" and ?s = "ref_one\<lparr>in_allocator := None\<rparr>"
  let ?de = "il_region_a ?l" and ?rs = "ref_rs\<lparr>rs_inner := ?s\<rparr>"
  note reg = mounted_region [OF ref_one_ok(2)]
  have rw: "\<not> in_read_only ref_one" and so: "store_ok ?de ref_one" using ref_one_ok(2) by (simp_all add: mounted_def config_ok_def)
  then obtain a where a: "in_allocator ref_one = Some a" "area_inv DATA_START ?de a"
    "free_set a = {DATA_START..<?de} - used (hm_get (files_of ref_one))" and wf: "hm_wf (files_of ref_one)"
    and fi: "files_inv ?de (hm_get (files_of ref_one))"
    by (cases "in_allocator ref_one") (auto simp: space_inv_def)
  have de: "?de < 2 ^ 64" using reg(3,4) by simp
  note rb = rebuild_allocator_inv [OF wf [unfolded files_of_def] fi [unfolded files_of_def] de reg(2)]
  have "rebuild_allocator (in_index ref_one) ?de = a"
    using rb a by (intro alloc_inv_canonical [of DATA_START ?de]) (simp_all add: area_inv_def files_of_def)
  then have s1: "?s\<lparr>in_allocator := Some (rebuild_allocator (in_index ref_one) ?de)\<rparr> = ref_one" using a(1) by simp
  have "\<exists>report rs'. repair ref_env ?rs = (Inr report, rs')"
    using ref_one_flush s1 rw by (auto simp: repair_def Let_def flush_index_def rebuild_allocator_def split: prod.splits sum.splits)
  then obtain report rs' where run: "repair ref_env ?rs = (Inr report, rs')" by blast
  have m: "mounted ref_env (rs_layout ?rs) index_new [''a'' \<mapsto> (ref_payload, 0)] ((rs_inner ?rs)\<lparr>in_allocator := Some a\<rparr>)"
  proof -
    have "ref_one\<lparr>in_allocator := Some a\<rparr> = ref_one" by (rule inner.equality) (simp_all add: a(1))
    then show ?thesis using ref_one_ok(2) by simp
  qed
  show ?thesis using repair_correct [OF ref_sb_laws ref_shard_laws m _ run] ref_one_txn run by auto
qed

section \<open>Files that grow\<close>

text \<open>
  The extent of a put from a file is allocated for the size the file had at first, but everything
  that the reads deliver is written from its start on, beyond its end when the file has grown.
\<close>

lemma file_overrun:
  fixes X :: "'x store_env_scheme"
  assumes laws: "crc_laws X" and none: "in_compression self = CNone" and len: "sf_len file = Some n"
    and pad: "padded_extent_size n = Inr padded" and al: "inner_alloc padded self = (Inr off, self1)"
    and fits: "extent_fits (in_io self1) off (num_blocks (length (delivered (sf_reads file))))"
    and run: "put_with_meta_from_file X now key file ml self = (Inr (), self')"
  shows "slice (dev_data (in_io self')) off (off + num_blocks (length (delivered (sf_reads file))) * 4096) =
    encode_blocks X (delivered (sf_reads file))"
proof -
  let ?q = "delivered (sf_reads file)"
  have z: "x_crc32c X [] = 0" using laws by (simp add: crc_laws_def)
  obtain rl dev where lp: "file_put_loop X (in_io self1) (bw_new off) (sf_reads file) (x_crc32c X []) = (rl, dev)" by fastforce
  have cap: "length [] + length ?q \<le> num_blocks (length ?q) * 4092" using num_blocks_ge [of "length ?q"] by simp
  note fl = file_put_loop_spec [OF laws fits dev_frame_refl writer_inv_new cap lp]
  have fp: "finish_put X now key off padded n ml (rl, dev) self1 = (Inr (), self')"
    using run none pad al lp z by (auto simp: put_with_meta_from_file_def len split: if_splits)
  then obtain c where c: "rl = Inr c" by (cases rl) (auto simp: finish_put_def Let_def)
  have "in_io self' = dev"
    using fp c by (auto simp: finish_put_def replace_entry_def Let_def)
  then show ?thesis using fl c encode_and_write_stored(2) [OF fits, of X dev] by auto
qed

end
