(* ===== verification/Catalog.thy ===== *)
theory Catalog
  imports Object_Store "HOL-Library.Sublist"
begin

text \<open>
  The placement catalog of the sharded store (\<open>shardedobjstr/src/catalog.rs\<close>): which shards hold
  each object, the dirty flag, and the persistence of the catalog in a JSON or bincode file.

  The \<open>RwLock\<close>-protected hash map is the association list \<open>ct_entries\<close>; \<open>now\<close> is the clock that
  \<open>Utc::now()\<close> reads. The serializers (\<open>serde_json\<close>, \<open>bincode\<close>) are the parameter
  \<open>catalog_codec\<close>. The file system is a map from paths to contents with a schedule of outcomes: a
  write can fail after any number of bytes, a rename happens or does not.
\<close>

section \<open>Entries\<close>

record placement_entry =
  pe_shards :: "nat list"
  pe_size :: nat
  pe_crc32c :: "u32 option"
  pe_updated :: int
  pe_meta_len :: nat

record catalog =
  ct_entries :: "(string, placement_entry) hashmap"
  ct_dirty :: bool

definition catalog_new :: catalog where
  "catalog_new = \<lparr>ct_entries = [], ct_dirty = False\<rparr>"

definition clear_dirty :: "catalog \<Rightarrow> catalog" where
  "clear_dirty c = c\<lparr>ct_dirty := False\<rparr>"

definition catalog_put ::
  "int \<Rightarrow> string \<Rightarrow> nat list \<Rightarrow> nat \<Rightarrow> u32 option \<Rightarrow> nat \<Rightarrow> catalog \<Rightarrow> catalog" where
  "catalog_put now key shards sz crc meta_len c =
     c\<lparr>ct_entries := hm_insert key \<lparr>pe_shards = shards, pe_size = sz, pe_crc32c = crc, pe_updated = now,
          pe_meta_len = meta_len\<rparr> (ct_entries c), ct_dirty := True\<rparr>"

definition add_replica :: "int \<Rightarrow> string \<Rightarrow> nat \<Rightarrow> nat \<Rightarrow> nat \<Rightarrow> catalog \<Rightarrow> catalog" where
  "add_replica now key shard_id sz meta_len c =
     (let entry = (case hm_get (ct_entries c) key of
                     Some e \<Rightarrow> e
                   | None \<Rightarrow> \<lparr>pe_shards = [], pe_size = sz, pe_crc32c = None, pe_updated = now,
                              pe_meta_len = meta_len\<rparr>);
          entry1 = (if meta_len > 0 then entry\<lparr>pe_meta_len := meta_len\<rparr> else entry);
          entry2 = (if shard_id \<notin> set (pe_shards entry1)
                    then entry1\<lparr>pe_shards := pe_shards entry1 @ [shard_id]\<rparr> else entry1)
      in c\<lparr>ct_entries := hm_insert key entry2 (ct_entries c), ct_dirty := True\<rparr>)"

definition catalog_get :: "catalog \<Rightarrow> string \<Rightarrow> placement_entry option" where
  "catalog_get c key = hm_get (ct_entries c) key"

definition try_insert :: "int \<Rightarrow> string \<Rightarrow> nat list \<Rightarrow> nat \<Rightarrow> catalog \<Rightarrow> bool \<times> catalog" where
  "try_insert now key shards sz c =
     (case hm_get (ct_entries c) key of
        Some _ \<Rightarrow> (False, c)
      | None \<Rightarrow> (True, c\<lparr>ct_entries := hm_insert key \<lparr>pe_shards = shards, pe_size = sz,
            pe_crc32c = None, pe_updated = now, pe_meta_len = 0\<rparr> (ct_entries c), ct_dirty := True\<rparr>))"

definition catalog_remove :: "string \<Rightarrow> catalog \<Rightarrow> placement_entry option \<times> catalog" where
  "catalog_remove key c =
     (let removed = hm_get (ct_entries c) key;
          c1 = c\<lparr>ct_entries := hm_remove key (ct_entries c)\<rparr>
      in (removed, if removed \<noteq> None then c1\<lparr>ct_dirty := True\<rparr> else c1))"

definition catalog_clear :: "catalog \<Rightarrow> catalog" where
  "catalog_clear c = c\<lparr>ct_entries := [], ct_dirty := True\<rparr>"

definition catalog_replace :: "(string, placement_entry) hashmap \<Rightarrow> catalog \<Rightarrow> catalog" where
  "catalog_replace new_map c = c\<lparr>ct_entries := new_map, ct_dirty := True\<rparr>"

text \<open>\<open>shards.retain(|&s| s != shard_id)\<close>.\<close>

definition strip_shard :: "nat \<Rightarrow> placement_entry \<Rightarrow> placement_entry" where
  "strip_shard shard_id e = e\<lparr>pe_shards := filter (\<lambda>s. s \<noteq> shard_id) (pe_shards e)\<rparr>"

definition catalog_remove_shard :: "string \<Rightarrow> nat \<Rightarrow> catalog \<Rightarrow> catalog" where
  "catalog_remove_shard key shard_id c =
     (case hm_get (ct_entries c) key of
        None \<Rightarrow> c
      | Some entry \<Rightarrow>
          (let entry1 = strip_shard shard_id entry
           in c\<lparr>ct_entries := (if pe_shards entry1 = [] then hm_remove key (ct_entries c)
                                else hm_insert key entry1 (ct_entries c)), ct_dirty := True\<rparr>))"

definition remove_all_for_shard :: "nat \<Rightarrow> catalog \<Rightarrow> nat \<times> catalog" where
  "remove_all_for_shard shard_id c =
     (let hit = (\<lambda>(k, e). shard_id \<in> set (pe_shards e));
          affected = length (filter hit (ct_entries c));
          entries = map (\<lambda>(k, e). (k, if shard_id \<in> set (pe_shards e) then strip_shard shard_id e else e))
            (ct_entries c);
          to_remove = map fst (filter (\<lambda>(k, e). shard_id \<in> set (pe_shards e) \<and>
            pe_shards (strip_shard shard_id e) = []) (ct_entries c));
          c1 = c\<lparr>ct_entries := fold hm_remove to_remove entries\<rparr>
      in (affected, if affected > 0 then c1\<lparr>ct_dirty := True\<rparr> else c1))"

definition entries_for_shard :: "nat \<Rightarrow> catalog \<Rightarrow> (string \<times> placement_entry) list" where
  "entries_for_shard shard_id c = filter (\<lambda>(k, e). shard_id \<in> set (pe_shards e)) (ct_entries c)"

definition catalog_len :: "catalog \<Rightarrow> nat" where
  "catalog_len c = length (ct_entries c)"

definition load_into :: "catalog \<Rightarrow> catalog \<Rightarrow> catalog" where
  "load_into other c = c\<lparr>ct_entries := ct_entries other, ct_dirty := False\<rparr>"

definition catalog_list :: "(string \<Rightarrow> string) \<Rightarrow> string option \<Rightarrow> catalog \<Rightarrow> object_meta list" where
  "catalog_list path_from pfx c =
     map (\<lambda>(k, e). \<lparr>om_location = path_from k, om_last_modified = pe_updated e, om_size = pe_size e\<rparr>)
       (filter (\<lambda>(k, e). case pfx of Some p \<Rightarrow> prefix p k | None \<Rightarrow> True) (ct_entries c))"

section \<open>Persistence\<close>

record catalog_codec =
  cc_crc32c :: "byte list \<Rightarrow> u32"
  cc_bincode_ser :: "(string, placement_entry) hashmap \<Rightarrow> byte list option"
  cc_bincode_de :: "byte list \<Rightarrow> (string, placement_entry) hashmap option"
  cc_json_payload :: "(string, placement_entry) hashmap \<Rightarrow> byte list option"
  cc_envelope_ser :: "u32 \<Rightarrow> (string, placement_entry) hashmap \<Rightarrow> byte list option"
  cc_envelope_de :: "byte list \<Rightarrow> (u32 \<times> (string, placement_entry) hashmap) option"
  cc_json_de :: "byte list \<Rightarrow> (string, placement_entry) hashmap option"

datatype catalog_persistence = NoPersistence | JsonFile string | BincodeFile string

datatype fs_outcome = FsDone | FsFailed nat

record filesystem =
  fs_files :: "string \<rightharpoonup> byte list"
  fs_schedule :: "fs_outcome list"

definition fs_next :: "filesystem \<Rightarrow> fs_outcome \<times> filesystem" where
  "fs_next fs =
     (case fs_schedule fs of
        [] \<Rightarrow> (FsDone, fs)
      | oc # rest \<Rightarrow> (oc, fs\<lparr>fs_schedule := rest\<rparr>))"

text \<open>\<open>std::fs::write\<close>, \<open>std::fs::rename\<close> and \<open>std::fs::read\<close>.\<close>

definition fs_write :: "string \<Rightarrow> byte list \<Rightarrow> filesystem \<Rightarrow> (io_kind + unit) \<times> filesystem" where
  "fs_write path data fs =
     (case fs_next fs of
        (FsDone, fs1) \<Rightarrow> (Inr (), fs1\<lparr>fs_files := (fs_files fs1)(path \<mapsto> data)\<rparr>)
      | (FsFailed n, fs1) \<Rightarrow> (Inl OsError, fs1\<lparr>fs_files := (fs_files fs1)(path \<mapsto> take n data)\<rparr>))"

definition fs_rename :: "string \<Rightarrow> string \<Rightarrow> filesystem \<Rightarrow> (io_kind + unit) \<times> filesystem" where
  "fs_rename from_path to_path fs =
     (case fs_next fs of
        (FsFailed n, fs1) \<Rightarrow> (Inl OsError, fs1)
      | (FsDone, fs1) \<Rightarrow>
          (case fs_files fs1 from_path of
             None \<Rightarrow> (Inl OsError, fs1)
           | Some data \<Rightarrow> (Inr (), fs1\<lparr>fs_files := ((fs_files fs1)(from_path := None))(to_path \<mapsto> data)\<rparr>)))"

definition fs_read :: "string \<Rightarrow> filesystem \<Rightarrow> (io_kind + byte list) \<times> filesystem" where
  "fs_read path fs =
     (case fs_next fs of
        (FsFailed n, fs1) \<Rightarrow> (Inl OsError, fs1)
      | (FsDone, fs1) \<Rightarrow> (case fs_files fs1 path of None \<Rightarrow> (Inl OsError, fs1) | Some d \<Rightarrow> (Inr d, fs1)))"

text \<open>
  \<open>Path::with_extension\<close> on a path with a file name: what follows the last dot of the name is
  replaced, unless the name has no dot or begins with its only one.
\<close>

definition with_extension :: "string \<Rightarrow> string \<Rightarrow> string" where
  "with_extension path ext =
     (let name = rev (takeWhile (\<lambda>c. c \<noteq> CHR ''/'') (rev path));
          dir = take (length path - length name) path;
          tail = takeWhile (\<lambda>c. c \<noteq> CHR ''.'') (rev name);
          stem = (if length tail + 1 < length name then take (length name - length tail - 1) name else name)
      in dir @ stem @ ''.'' @ ext)"

definition atomic_write :: "string \<Rightarrow> byte list \<Rightarrow> filesystem \<Rightarrow> (io_kind + unit) \<times> filesystem" where
  "atomic_write path data fs =
     (let tmp_path = with_extension path ''tmp'' in
      case fs_write tmp_path data fs of
        (Inl e, fs1) \<Rightarrow> (Inl e, fs1)
      | (Inr _, fs1) \<Rightarrow> fs_rename tmp_path path fs1)"

definition ok_or :: "io_kind \<Rightarrow> 'a option \<Rightarrow> io_kind + 'a" where
  "ok_or e r = (case r of Some x \<Rightarrow> Inr x | None \<Rightarrow> Inl e)"

definition persist_save ::
  "catalog_codec \<Rightarrow> catalog_persistence \<Rightarrow> catalog \<Rightarrow> filesystem \<Rightarrow> (io_kind + unit) \<times> filesystem" where
  "persist_save C p c fs =
     (case p of
        NoPersistence \<Rightarrow> (Inr (), fs)
      | JsonFile path \<Rightarrow>
          (case bind_res (ok_or OtherKind (cc_json_payload C (ct_entries c))) (\<lambda>payload.
                 ok_or OtherKind (cc_envelope_ser C (cc_crc32c C payload) (ct_entries c))) of
             Inl e \<Rightarrow> (Inl e, fs)
           | Inr data \<Rightarrow> atomic_write path data fs)
      | BincodeFile path \<Rightarrow>
          (case ok_or OtherKind (cc_bincode_ser C (ct_entries c)) of
             Inl e \<Rightarrow> (Inl e, fs)
           | Inr payload \<Rightarrow> atomic_write path (u32_to_le_bytes (cc_crc32c C payload) @ payload) fs))"

definition load_json :: "catalog_codec \<Rightarrow> byte list \<Rightarrow> io_kind + catalog" where
  "load_json C raw =
     (case cc_envelope_de C raw of
        Some (checksum, data) \<Rightarrow>
          bind_res (ok_or OtherKind (cc_json_payload C data)) (\<lambda>payload.
            if cc_crc32c C payload \<noteq> checksum then Inl InvalidData
            else Inr \<lparr>ct_entries = data, ct_dirty = False\<rparr>)
      | None \<Rightarrow>
          bind_res (ok_or InvalidData (cc_json_de C raw)) (\<lambda>data.
            Inr \<lparr>ct_entries = data, ct_dirty = False\<rparr>))"

definition load_bincode :: "catalog_codec \<Rightarrow> byte list \<Rightarrow> io_kind + catalog" where
  "load_bincode C raw =
     (if length raw < 4 then Inl InvalidData
      else
        (let stored_crc = u32_from_le_bytes (take 4 raw); payload = drop 4 raw
         in if stored_crc \<noteq> cc_crc32c C payload then Inl InvalidData
            else bind_res (ok_or InvalidData (cc_bincode_de C payload)) (\<lambda>data.
              Inr \<lparr>ct_entries = data, ct_dirty = False\<rparr>)))"

definition load_file ::
  "(byte list \<Rightarrow> io_kind + catalog) \<Rightarrow> string \<Rightarrow> filesystem \<Rightarrow> (io_kind + catalog) \<times> filesystem" where
  "load_file parse path fs =
     (if fs_files fs path = None then (Inr catalog_new, fs)
      else case fs_read path fs of
             (Inl e, fs1) \<Rightarrow> (Inl e, fs1)
           | (Inr raw, fs1) \<Rightarrow> (parse raw, fs1))"

definition persist_load ::
  "catalog_codec \<Rightarrow> catalog_persistence \<Rightarrow> filesystem \<Rightarrow> (io_kind + catalog) \<times> filesystem" where
  "persist_load C p fs =
     (case p of
        NoPersistence \<Rightarrow> (Inr catalog_new, fs)
      | JsonFile path \<Rightarrow> load_file (load_json C) path fs
      | BincodeFile path \<Rightarrow> load_file (load_bincode C) path fs)"

text \<open>\<open>ShardedObjectStore::save_catalog\<close>, \<open>save_catalog_if_dirty\<close> and \<open>load_catalog\<close>.\<close>

definition save_catalog ::
  "catalog_codec \<Rightarrow> catalog_persistence \<Rightarrow> catalog \<Rightarrow> filesystem \<Rightarrow> (io_kind + unit) \<times> catalog \<times> filesystem" where
  "save_catalog C p c fs =
     (case persist_save C p c fs of
        (Inl e, fs1) \<Rightarrow> (Inl e, c, fs1)
      | (Inr _, fs1) \<Rightarrow> (Inr (), clear_dirty c, fs1))"

definition save_catalog_if_dirty ::
  "catalog_codec \<Rightarrow> catalog_persistence \<Rightarrow> catalog \<Rightarrow> filesystem \<Rightarrow> (io_kind + bool) \<times> catalog \<times> filesystem" where
  "save_catalog_if_dirty C p c fs =
     (if \<not> ct_dirty c then (Inr False, c, fs)
      else case save_catalog C p c fs of
             (Inl e, c1, fs1) \<Rightarrow> (Inl e, c1, fs1)
           | (Inr _, c1, fs1) \<Rightarrow> (Inr True, c1, fs1))"

definition load_catalog ::
  "catalog_codec \<Rightarrow> catalog_persistence \<Rightarrow> catalog \<Rightarrow> filesystem \<Rightarrow> (io_kind + unit) \<times> catalog \<times> filesystem" where
  "load_catalog C p c fs =
     (case persist_load C p fs of
        (Inl e, fs1) \<Rightarrow> (Inl e, c, fs1)
      | (Inr loaded, fs1) \<Rightarrow> (Inr (), load_into loaded c, fs1))"

section \<open>The shards that hold a key\<close>

definition holders :: "catalog \<Rightarrow> string \<Rightarrow> nat set" where
  "holders c k = (case catalog_get c k of None \<Rightarrow> {} | Some e \<Rightarrow> set (pe_shards e))"

text \<open>Every key once, and with every key at least one shard and no shard twice.\<close>

definition catalog_ok :: "catalog \<Rightarrow> bool" where
  "catalog_ok c \<longleftrightarrow> hm_wf (ct_entries c) \<and>
     (\<forall>(k, e)\<in>set (ct_entries c). pe_shards e \<noteq> [] \<and> distinct (pe_shards e))"

text \<open>
  An index from keys to replica sets, as the recovery code uses it: what one update does to the
  sets, and that a purge removes a shard everywhere.
\<close>

locale replica_index =
  fixes inv :: "'c \<Rightarrow> bool" and reps :: "'c \<Rightarrow> 'k \<Rightarrow> 's set"
    and add :: "'i \<Rightarrow> 'k \<Rightarrow> 's \<Rightarrow> 'c \<Rightarrow> 'c" and purge :: "'s \<Rightarrow> 'c \<Rightarrow> 'c"
    and remove_one :: "'k \<Rightarrow> 's \<Rightarrow> 'c \<Rightarrow> 'c"
  assumes add_inv: "inv c \<Longrightarrow> inv (add i k s c)"
    and add_reps: "inv c \<Longrightarrow> reps (add i k s c) = (reps c)(k := insert s (reps c k))"
    and purge_inv: "inv c \<Longrightarrow> inv (purge s c)"
    and purge_reps: "inv c \<Longrightarrow> reps (purge s c) = (\<lambda>k. reps c k - {s})"
    and remove_inv: "inv c \<Longrightarrow> inv (remove_one k s c)"
    and remove_reps: "inv c \<Longrightarrow> reps (remove_one k s c) = (reps c)(k := reps c k - {s})"
begin

lemma scan_spec:
  assumes "inv c"
  shows "inv (fold (\<lambda>(k, i). add i k s) items c) \<and>
    reps (fold (\<lambda>(k, i). add i k s) items c) =
      (\<lambda>k. if k \<in> fst ` set items then insert s (reps c k) else reps c k)"
  using assms
proof (induction items arbitrary: c)
  case Nil
  then show ?case by simp
next
  case (Cons ki items)
  obtain k i where ki: "ki = (k, i)" by (cases ki)
  from Cons.IH [OF add_inv [OF Cons.prems]] show ?case
    by (auto simp: add_reps [OF Cons.prems] fun_eq_iff ki)
qed

lemma rescan_spec:
  assumes "inv c"
  shows "inv (fold (\<lambda>(k, i). add i k s) items (purge s c))"
    and "reps (fold (\<lambda>(k, i). add i k s) items (purge s c)) =
      (\<lambda>k. if k \<in> fst ` set items then insert s (reps c k) else reps c k - {s})"
  using scan_spec [OF purge_inv [OF assms], of s items s] by (auto simp: purge_reps [OF assms] fun_eq_iff)

lemma drop_all_spec:
  assumes "inv c"
  shows "inv (fold (remove_one k) ss c) \<and>
    reps (fold (remove_one k) ss c) = (reps c)(k := reps c k - set ss)"
  using assms
proof (induction ss arbitrary: c)
  case Nil
  then show ?case by simp
next
  case (Cons s ss)
  from Cons.IH [OF remove_inv [OF Cons.prems]] show ?case
    by (auto simp: remove_reps [OF Cons.prems] fun_eq_iff)
qed

end

section \<open>The catalog operations on replica sets\<close>

lemma catalog_ok_iff:
  "catalog_ok c \<longleftrightarrow> hm_wf (ct_entries c) \<and>
     (\<forall>k e. catalog_get c k = Some e \<longrightarrow> pe_shards e \<noteq> [] \<and> distinct (pe_shards e))"
  by (auto simp: catalog_ok_def catalog_get_def hm_get_iff)

lemma catalog_ok_entry:
  "catalog_ok c \<Longrightarrow> catalog_get c k = Some e \<Longrightarrow> pe_shards e \<noteq> [] \<and> distinct (pe_shards e)"
  by (simp add: catalog_ok_iff)

lemma catalog_get_simps [simp]:
  "catalog_get (catalog_put now k ss n crc ml c) = (catalog_get c)(k \<mapsto>
     \<lparr>pe_shards = ss, pe_size = n, pe_crc32c = crc, pe_updated = now, pe_meta_len = ml\<rparr>)"
  "catalog_get (snd (catalog_remove k c)) = (catalog_get c)(k := None)"
  "catalog_get (clear_dirty c) = catalog_get c"
  "catalog_get (load_into d c) = catalog_get d"
  "catalog_get catalog_new = Map.empty"
  by (auto simp: catalog_get_def fun_eq_iff catalog_put_def catalog_remove_def clear_dirty_def load_into_def
      catalog_new_def Let_def hm_simps)

lemma holders_cong: "catalog_get c k = catalog_get d k \<Longrightarrow> holders c k = holders d k"
  by (simp add: holders_def)

lemma catalog_put_ok:
  assumes "catalog_ok c" and "ss \<noteq> []" and "distinct ss"
  shows "catalog_ok (catalog_put now k ss n crc ml c)"
    and "holders (catalog_put now k ss n crc ml c) = (holders c)(k := set ss)"
proof -
  have "hm_wf (ct_entries (catalog_put now k ss n crc ml c))"
    using assms(1) by (simp add: catalog_put_def catalog_ok_def hm_simps)
  with assms show "catalog_ok (catalog_put now k ss n crc ml c)" by (simp add: catalog_ok_iff)
  show "holders (catalog_put now k ss n crc ml c) = (holders c)(k := set ss)"
    by (simp add: holders_def fun_eq_iff)
qed

lemma catalog_remove_ok:
  assumes "catalog_ok c"
  shows "catalog_ok (snd (catalog_remove k c))" and "holders (snd (catalog_remove k c)) = (holders c)(k := {})"
proof -
  have "hm_wf (ct_entries (snd (catalog_remove k c)))"
    using assms by (simp add: catalog_remove_def Let_def catalog_ok_def hm_simps)
  with assms show "catalog_ok (snd (catalog_remove k c))" by (simp add: catalog_ok_iff)
  show "holders (snd (catalog_remove k c)) = (holders c)(k := {})"
    by (simp add: holders_def fun_eq_iff)
qed

lemma add_replica_ok:
  assumes "catalog_ok c"
  shows "catalog_ok (add_replica now k sid n ml c)"
    and "holders (add_replica now k sid n ml c) = (holders c)(k := insert sid (holders c k))"
proof -
  let ?c = "add_replica now k sid n ml c"
  have wf: "hm_wf (ct_entries ?c)"
    using assms by (simp add: add_replica_def Let_def catalog_ok_def hm_simps)
  have get: "\<exists>e. catalog_get ?c = (catalog_get c)(k \<mapsto> e) \<and> distinct (pe_shards e) \<and>
      set (pe_shards e) = insert sid (holders c k)"
    using catalog_ok_entry [OF assms, of k]
    by (auto simp: add_replica_def Let_def catalog_get_def holders_def fun_eq_iff hm_simps split: option.splits)
  then obtain e where e: "catalog_get ?c = (catalog_get c)(k \<mapsto> e)" "distinct (pe_shards e)"
    "set (pe_shards e) = insert sid (holders c k)" by blast
  then have "pe_shards e \<noteq> []" by auto
  with e wf assms show "catalog_ok ?c" by (simp add: catalog_ok_iff)
  show "holders ?c = (holders c)(k := insert sid (holders c k))"
    using e by (auto simp: holders_def fun_eq_iff)
qed

lemma strip_shards [simp]: "pe_shards (strip_shard sid e) = filter (\<lambda>s. s \<noteq> sid) (pe_shards e)"
  by (simp add: strip_shard_def)

lemma catalog_remove_shard_ok:
  assumes "catalog_ok c"
  shows "catalog_ok (catalog_remove_shard k sid c)"
    and "holders (catalog_remove_shard k sid c) = (holders c)(k := holders c k - {sid})"
proof -
  let ?c = "catalog_remove_shard k sid c"
  have wf: "hm_wf (ct_entries ?c)"
    using assms by (simp add: catalog_remove_shard_def Let_def catalog_ok_def hm_simps split: option.splits)
  have get: "catalog_get ?c = (catalog_get c)(k :=
      (case catalog_get c k of None \<Rightarrow> None | Some e \<Rightarrow>
        if pe_shards (strip_shard sid e) = [] then None else Some (strip_shard sid e)))"
    by (auto simp: catalog_remove_shard_def Let_def catalog_get_def fun_eq_iff hm_simps split: option.splits)
  from wf assms show "catalog_ok ?c"
    by (auto simp: catalog_ok_iff get split: option.splits if_splits)
  show "holders ?c = (holders c)(k := holders c k - {sid})"
    unfolding holders_def get by (auto simp: fun_eq_iff filter_empty_conv split: option.splits)
qed

lemma fold_hm_remove:
  "hm_get (fold hm_remove ks m) = (\<lambda>k. if k \<in> set ks then None else hm_get m k) \<and>
   (hm_wf m \<longrightarrow> hm_wf (fold hm_remove ks m))"
  by (induction ks arbitrary: m) (auto simp: hm_simps fun_eq_iff)

lemma remove_all_get:
  assumes "catalog_ok c"
  shows "catalog_get (snd (remove_all_for_shard sid c)) = (\<lambda>k. case catalog_get c k of None \<Rightarrow> None
      | Some e \<Rightarrow> if set (pe_shards e) \<subseteq> {sid} then None
                  else Some (if sid \<in> set (pe_shards e) then strip_shard sid e else e))"
    and "hm_wf (ct_entries (snd (remove_all_for_shard sid c)))"
proof -
  let ?E = "map (\<lambda>(k, e). (k, if sid \<in> set (pe_shards e) then strip_shard sid e else e)) (ct_entries c)"
  let ?R = "map fst (filter (\<lambda>(k, e). sid \<in> set (pe_shards e) \<and> pe_shards (strip_shard sid e) = []) (ct_entries c))"
  have wf: "hm_wf (ct_entries c)" using assms by (simp add: catalog_ok_def)
  have entries: "ct_entries (snd (remove_all_for_shard sid c)) = fold hm_remove ?R ?E"
    by (simp add: remove_all_for_shard_def Let_def)
  have "map fst ?E = map fst (ct_entries c)" by (simp add: comp_def case_prod_beta)
  with wf have "hm_wf ?E" unfolding hm_wf_def by (simp only:)
  then show "hm_wf (ct_entries (snd (remove_all_for_shard sid c)))"
    using entries fold_hm_remove [of ?R ?E] by simp
  have get: "hm_get ?E k = map_option (\<lambda>e. if sid \<in> set (pe_shards e) then strip_shard sid e else e) (hm_get (ct_entries c) k)" for k
    by (simp add: map_of_map)
  have mem: "k \<in> set ?R \<longleftrightarrow> (\<exists>e. hm_get (ct_entries c) k = Some e \<and> set (pe_shards e) \<subseteq> {sid})" for k
  proof -
    have "k \<in> set ?R \<longleftrightarrow> (\<exists>e. (k, e) \<in> set (ct_entries c) \<and> sid \<in> set (pe_shards e) \<and> set (pe_shards e) \<subseteq> {sid})"
      by (auto simp: filter_empty_conv image_iff subset_iff)
    also have "\<dots> \<longleftrightarrow> (\<exists>e. (k, e) \<in> set (ct_entries c) \<and> set (pe_shards e) \<subseteq> {sid})"
    proof -
      have "sid \<in> set (pe_shards e)" if "(k, e) \<in> set (ct_entries c)" "set (pe_shards e) \<subseteq> {sid}" for e
        using assms that by (cases "pe_shards e") (auto simp: catalog_ok_def)
      then show ?thesis by blast
    qed
    finally show ?thesis using wf by (simp add: hm_get_iff)
  qed
  show "catalog_get (snd (remove_all_for_shard sid c)) = (\<lambda>k. case catalog_get c k of None \<Rightarrow> None
      | Some e \<Rightarrow> if set (pe_shards e) \<subseteq> {sid} then None
                  else Some (if sid \<in> set (pe_shards e) then strip_shard sid e else e))"
  proof
    fix k
    have "catalog_get (snd (remove_all_for_shard sid c)) k = (if k \<in> set ?R then None else hm_get ?E k)"
      unfolding catalog_get_def entries by (simp only: fold_hm_remove)
    then show "catalog_get (snd (remove_all_for_shard sid c)) k = (case catalog_get c k of None \<Rightarrow> None
      | Some e \<Rightarrow> if set (pe_shards e) \<subseteq> {sid} then None
                  else Some (if sid \<in> set (pe_shards e) then strip_shard sid e else e))"
      unfolding mem get catalog_get_def by (auto split: option.splits)
  qed
qed

lemma remove_all_ok:
  assumes "catalog_ok c"
  shows "catalog_ok (snd (remove_all_for_shard sid c))"
    and "holders (snd (remove_all_for_shard sid c)) = (\<lambda>k. holders c k - {sid})"
    and "fst (remove_all_for_shard sid c) = card {k. sid \<in> holders c k}"
proof -
  note get = remove_all_get [OF assms, of sid]
  from get(2) catalog_ok_entry [OF assms] show "catalog_ok (snd (remove_all_for_shard sid c))"
    by (fastforce simp: catalog_ok_iff get(1) filter_empty_conv split: option.splits if_splits)
  show "holders (snd (remove_all_for_shard sid c)) = (\<lambda>k. holders c k - {sid})"
    unfolding holders_def get(1) by (auto simp: fun_eq_iff split: option.splits)
  have "hm_wf (ct_entries c)" using assms by (simp add: catalog_ok_def)
  then have d: "distinct (map fst (filter (\<lambda>(k, e). sid \<in> set (pe_shards e)) (ct_entries c)))"
    by (simp add: hm_wf_def distinct_map_filter)
  have "{k. sid \<in> holders c k} = set (map fst (filter (\<lambda>(k, e). sid \<in> set (pe_shards e)) (ct_entries c)))"
    (is "?L = ?R")
  proof (intro set_eqI)
    fix k
    have "k \<in> ?L \<longleftrightarrow> (\<exists>e. hm_get (ct_entries c) k = Some e \<and> sid \<in> set (pe_shards e))"
      by (auto simp: holders_def catalog_get_def split: option.splits)
    also have "\<dots> \<longleftrightarrow> k \<in> ?R"
      using \<open>hm_wf (ct_entries c)\<close> by (force simp: hm_get_iff)
    finally show "k \<in> ?L \<longleftrightarrow> k \<in> ?R" .
  qed
  then have "card {k. sid \<in> holders c k} = length (filter (\<lambda>(k, e). sid \<in> set (pe_shards e)) (ct_entries c))"
    using distinct_card [OF d] by simp
  then show "fst (remove_all_for_shard sid c) = card {k. sid \<in> holders c k}"
    by (simp add: remove_all_for_shard_def Let_def)
qed

interpretation cat: replica_index catalog_ok holders
  "\<lambda>(now, n, ml) k sid. add_replica now k sid n ml" "\<lambda>sid c. snd (remove_all_for_shard sid c)"
  "\<lambda>k sid. catalog_remove_shard k sid"
  by unfold_locales (auto simp: add_replica_ok remove_all_ok catalog_remove_shard_ok)

text \<open>
  C17. The catalog as a relation between keys and shards: a put makes the given shards the holders
  of its key, \<open>try_insert\<close> does so only for a new key, adding and removing a replica change one
  pair, removing a key or a shard empties its row or column, and the number that
  \<open>remove_all_for_shard\<close> returns is that of the keys the shard held. Every key keeps at least one
  holder and no holder twice.
\<close>

theorem catalog_refines:
  assumes "catalog_ok c" and "ss \<noteq> []" and "distinct ss"
  shows "let c1 = catalog_put now k ss n crc ml c;
        (fresh, c2) = try_insert now k ss n c;
        c3 = add_replica now k sid n ml c;
        c4 = catalog_remove_shard k sid c;
        (affected, c5) = remove_all_for_shard sid c;
        (removed, c6) = catalog_remove k c
      in catalog_ok c1 \<and> holders c1 = (holders c)(k := set ss) \<and>
         catalog_ok c2 \<and> (fresh \<longleftrightarrow> holders c k = {}) \<and>
         holders c2 = (if fresh then (holders c)(k := set ss) else holders c) \<and>
         catalog_ok c3 \<and> holders c3 = (holders c)(k := insert sid (holders c k)) \<and>
         catalog_ok c4 \<and> holders c4 = (holders c)(k := holders c k - {sid}) \<and>
         catalog_ok c5 \<and> holders c5 = (\<lambda>k. holders c k - {sid}) \<and> affected = card {k. sid \<in> holders c k} \<and>
         catalog_ok c6 \<and> holders c6 = (holders c)(k := {}) \<and> (removed = None \<longleftrightarrow> holders c k = {})"
proof -
  have none: "catalog_get c k = None \<longleftrightarrow> holders c k = {}"
    using catalog_ok_entry [OF assms(1)] by (auto simp: holders_def split: option.splits)
  have ins: "fst (try_insert now k ss n c) \<longleftrightarrow> holders c k = {}"
    using none by (auto simp: try_insert_def catalog_get_def split: option.splits)
  have eq: "snd (try_insert now k ss n c) = (if holders c k = {} then catalog_put now k ss n None 0 c else c)"
    using none by (auto simp: try_insert_def catalog_put_def catalog_get_def split: option.splits)
  have "catalog_ok (snd (try_insert now k ss n c))"
    "holders (snd (try_insert now k ss n c)) = (if holders c k = {} then (holders c)(k := set ss) else holders c)"
    using catalog_put_ok [OF assms] assms(1) by (auto simp: eq)
  moreover have "fst (catalog_remove k c) = None \<longleftrightarrow> holders c k = {}"
    using none by (simp add: catalog_remove_def Let_def catalog_get_def)
  ultimately show ?thesis
    using catalog_put_ok [OF assms] add_replica_ok [OF assms(1)] catalog_remove_shard_ok [OF assms(1)]
      remove_all_ok [OF assms(1)] catalog_remove_ok [OF assms(1)] ins
    by (simp add: Let_def case_prod_beta)
qed

definition example_catalog :: catalog where
  "example_catalog = catalog_put 5 ''a'' [1, 0] 10 None 0 (catalog_put 4 ''b'' [2] 7 None 0 catalog_new)"

theorem catalog_refines_witness:
  "catalog_ok example_catalog \<and>
   holders (snd (remove_all_for_shard 1 example_catalog)) = (\<lambda>k. holders example_catalog k - {1}) \<and>
   fst (remove_all_for_shard 1 example_catalog) = card {k. 1 \<in> holders example_catalog k}"
proof -
  have ok: "catalog_ok example_catalog" by code_simp
  show ?thesis
    using catalog_refines [OF ok, of "[0]" 6 "''c''" 1 None 0 1] ok by (simp add: Let_def case_prod_beta)
qed

end
