(* ===== verification/Catalog_Persistence.thy ===== *)
theory Catalog_Persistence
  imports Catalog Reference_Env "HOL-Library.List_Lexorder" "HOL-Library.Char_ord"
begin

text \<open>
  Saving and loading the placement catalog (\<open>CatalogPersistence\<close> of \<open>catalog.rs\<close>): the round trip
  through the file, what a failed save leaves behind, and a concrete serializer that has the
  properties the theorem asks of \<open>serde_json\<close> and \<open>bincode\<close>.
\<close>

section \<open>Saving and loading\<close>

text \<open>
  What the catalog relies on of the serializers: both forms read back to the same map, and the JSON
  payload over which the checksum is taken depends only on the map (\<open>serde_json::Value\<close> orders its
  keys).
\<close>

definition catalog_codec_laws :: "catalog_codec \<Rightarrow> bool" where
  "catalog_codec_laws C \<longleftrightarrow>
     (\<forall>m bs. hm_wf m \<and> cc_bincode_ser C m = Some bs \<longrightarrow>
        (\<exists>m'. cc_bincode_de C bs = Some m' \<and> hm_wf m' \<and> hm_get m' = hm_get m)) \<and>
     (\<forall>m crc bs. hm_wf m \<and> cc_envelope_ser C crc m = Some bs \<longrightarrow>
        (\<exists>m'. cc_envelope_de C bs = Some (crc, m') \<and> hm_wf m' \<and> hm_get m' = hm_get m)) \<and>
     (\<forall>m m'. hm_wf m \<and> hm_wf m' \<and> hm_get m = hm_get m' \<longrightarrow> cc_json_payload C m = cc_json_payload C m')"

lemma load_into_clean [simp]: "\<not> ct_dirty (load_into d c)"
  by (simp add: load_into_def)

lemma load_json_saved:
  assumes C: "catalog_codec_laws C" and wf: "hm_wf m" and "cc_json_payload C m = Some payload"
    and "cc_envelope_ser C (cc_crc32c C payload) m = Some bs"
  shows "\<exists>c'. load_json C bs = Inr c' \<and> catalog_get c' = hm_get m \<and> hm_wf (ct_entries c') \<and> \<not> ct_dirty c'"
proof -
  from C wf assms(4) obtain m' where m': "cc_envelope_de C bs = Some (cc_crc32c C payload, m')" "hm_wf m'"
    "hm_get m' = hm_get m" unfolding catalog_codec_laws_def by blast
  with C wf have "cc_json_payload C m' = cc_json_payload C m" unfolding catalog_codec_laws_def by blast
  with m' assms(3) show ?thesis by (simp add: load_json_def ok_or_def catalog_get_def fun_eq_iff)
qed

lemma load_bincode_saved:
  assumes C: "catalog_codec_laws C" and wf: "hm_wf m" and "cc_bincode_ser C m = Some payload"
  shows "\<exists>c'. load_bincode C (u32_to_le_bytes (cc_crc32c C payload) @ payload) = Inr c' \<and>
    catalog_get c' = hm_get m \<and> hm_wf (ct_entries c') \<and> \<not> ct_dirty c'"
proof -
  from assms obtain m' where "cc_bincode_de C payload = Some m'" "hm_wf m'" "hm_get m' = hm_get m"
    unfolding catalog_codec_laws_def by blast
  then show ?thesis by (simp add: load_bincode_def ok_or_def catalog_get_def fun_eq_iff)
qed

lemma atomic_write_spec:
  assumes "with_extension path ''tmp'' \<noteq> path" and "atomic_write path data fs = (r, fs')"
  shows "r = Inr () \<Longrightarrow> fs_files fs' path = Some data" and "r \<noteq> Inr () \<Longrightarrow> fs_files fs' path = fs_files fs path"
  using assms
  by (auto simp: atomic_write_def Let_def fs_write_def fs_rename_def fs_next_def
      split: list.splits fs_outcome.splits prod.splits sum.splits option.splits if_splits)

text \<open>A save either stops in the serializer or writes bytes from which a load gets the same map.\<close>

lemma persist_save_cases:
  assumes "catalog_codec_laws C" and "hm_wf (ct_entries c)"
    and "p = JsonFile path \<or> p = BincodeFile path" and "persist_save C p c fs = (r, fs')"
  obtains (stopped) e where "r = Inl e" "fs' = fs"
  | (wrote) data d where "atomic_write path data fs = (r, fs')" "catalog_get d = catalog_get c"
    "\<And>fs. fs_files fs path = Some data \<Longrightarrow> fs_schedule fs = [] \<Longrightarrow> persist_load C p fs = (Inr d, fs)"
proof (cases "p = JsonFile path")
  case p: True
  show thesis
  proof (cases "\<exists>payload data. cc_json_payload C (ct_entries c) = Some payload \<and>
      cc_envelope_ser C (cc_crc32c C payload) (ct_entries c) = Some data")
    case True
    then obtain payload data where pl: "cc_json_payload C (ct_entries c) = Some payload"
      "cc_envelope_ser C (cc_crc32c C payload) (ct_entries c) = Some data" by blast
    moreover from load_json_saved [OF assms(1,2) pl] obtain d where
      "load_json C data = Inr d" "catalog_get d = catalog_get c" by (auto simp: catalog_get_def fun_eq_iff)
    ultimately show thesis
      using p assms(4)
      by (intro wrote [of data d])
        (simp_all add: persist_save_def ok_or_def persist_load_def load_file_def fs_read_def fs_next_def)
  next
    case False
    with p assms(4) show thesis
      by (intro stopped [of OtherKind]) (auto simp: persist_save_def ok_or_def split: option.splits)
  qed
next
  case False
  with assms(3) have p: "p = BincodeFile path" by simp
  show thesis
  proof (cases "cc_bincode_ser C (ct_entries c)")
    case None
    with p assms(4) show thesis by (intro stopped [of OtherKind]) (auto simp: persist_save_def ok_or_def)
  next
    case (Some payload)
    moreover from load_bincode_saved [OF assms(1,2) Some] obtain d where
      "load_bincode C (u32_to_le_bytes (cc_crc32c C payload) @ payload) = Inr d" "catalog_get d = catalog_get c"
      by (auto simp: catalog_get_def fun_eq_iff)
    ultimately show thesis
      using p assms(4)
      by (intro wrote [of "u32_to_le_bytes (cc_crc32c C payload) @ payload" d])
        (simp_all add: persist_save_def ok_or_def persist_load_def load_file_def fs_read_def fs_next_def)
  qed
qed

text \<open>
  C19. Catalog persistence: when \<open>save_catalog\<close> reports success, the catalog is clean and loading its
  file gives an equal, clean catalog; when it fails, whichever step failed and however many bytes
  were written, the catalog file is what it was before and the catalog is unchanged. A bincode file
  whose stored checksum is not that of its payload is refused.
\<close>

theorem catalog_save_load:
  assumes "catalog_codec_laws C" and "hm_wf (ct_entries c)" and "with_extension path ''tmp'' \<noteq> path"
    and "p = JsonFile path \<or> p = BincodeFile path"
    and "save_catalog C p c fs = (r, c', fs')"
  shows "(case r of
      Inr _ \<Rightarrow> c' = clear_dirty c \<and> (fs_schedule fs' = [] \<longrightarrow>
        (\<forall>d. \<exists>d'. load_catalog C p d fs' = (Inr (), d', fs') \<and> catalog_get d' = catalog_get c \<and> \<not> ct_dirty d'))
    | Inl _ \<Rightarrow> c' = c \<and> fs_files fs' path = fs_files fs path) \<and>
    (\<forall>raw. u32_from_le_bytes (take 4 raw) \<noteq> cc_crc32c C (drop 4 raw) \<longrightarrow> load_bincode C raw = Inl InvalidData)"
proof (intro conjI)
  obtain r0 where save: "persist_save C p c fs = (r0, fs')" and r0: "r0 = r" "c' = (if is_ok r then clear_dirty c else c)"
    using assms(5) by (auto simp: save_catalog_def split: prod.splits sum.splits)
  show "case r of
      Inr _ \<Rightarrow> c' = clear_dirty c \<and> (fs_schedule fs' = [] \<longrightarrow>
        (\<forall>d. \<exists>d'. load_catalog C p d fs' = (Inr (), d', fs') \<and> catalog_get d' = catalog_get c \<and> \<not> ct_dirty d'))
    | Inl _ \<Rightarrow> c' = c \<and> fs_files fs' path = fs_files fs path"
    using assms(1,2,4) save
  proof (cases rule: persist_save_cases)
    case (stopped e)
    with r0 show ?thesis by auto
  next
    case (wrote data d)
    from r0 wrote(1) have aw: "atomic_write path data fs = (r, fs')" by simp
    show ?thesis
    proof (cases r)
      case (Inl e)
      with r0 atomic_write_spec(2) [OF assms(3) aw] show ?thesis by auto
    next
      case (Inr u)
      with atomic_write_spec(1) [OF assms(3) aw] have "fs_files fs' path = Some data" by simp
      then have "load_catalog C p e fs' = (Inr (), load_into d e, fs')" if "fs_schedule fs' = []" for e
        using that wrote(3) by (simp add: load_catalog_def)
      with wrote(2) Inr r0 show ?thesis by simp
    qed
  qed
  show "\<forall>raw. u32_from_le_bytes (take 4 raw) \<noteq> cc_crc32c C (drop 4 raw) \<longrightarrow> load_bincode C raw = Inl InvalidData"
    by (simp add: load_bincode_def Let_def)
qed

section \<open>A reference serializer\<close>

definition enc_crc_option :: "u32 option \<Rightarrow> byte list" where
  "enc_crc_option r = (case r of None \<Rightarrow> [0] | Some c \<Rightarrow> 1 # u32_to_le_bytes c)"

definition dec_crc_option :: "byte list \<Rightarrow> (u32 option \<times> byte list) option" where
  "dec_crc_option bs =
     (case bs of
        [] \<Rightarrow> None
      | b # t \<Rightarrow> if b = 0 then Some (None, t) else map_option (\<lambda>(c, u). (Some c, u)) (dec_u32 t))"

definition enc_placement :: "placement_entry \<Rightarrow> byte list" where
  "enc_placement e =
     enc_list (le_bytes 8) (pe_shards e) @ le_bytes 8 (pe_size e) @ enc_crc_option (pe_crc32c e) @
     enc_int (pe_updated e) @ le_bytes 8 (pe_meta_len e)"

definition dec_placement :: "byte list \<Rightarrow> (placement_entry \<times> byte list) option" where
  "dec_placement bs =
     Option.bind (dec_list (dec_nat 8) bs) (\<lambda>(ss, b1). Option.bind (dec_nat 8 b1) (\<lambda>(n, b2).
     Option.bind (dec_crc_option b2) (\<lambda>(c, b3). Option.bind (dec_int b3) (\<lambda>(t, b4).
     Option.bind (dec_nat 8 b4) (\<lambda>(ml, b5).
       Some (\<lparr>pe_shards = ss, pe_size = n, pe_crc32c = c, pe_updated = t, pe_meta_len = ml\<rparr>, b5))))))"

definition placement_range :: "placement_entry \<Rightarrow> bool" where
  "placement_range e \<longleftrightarrow> list_valid (\<lambda>s. s < 256 ^ 8) (pe_shards e) \<and> pe_size e < 256 ^ 8 \<and>
     - (2 ^ 63) \<le> pe_updated e \<and> pe_updated e < 2 ^ 63 \<and> pe_meta_len e < 256 ^ 8"

lemma dec_crc_option_enc: "dec_crc_option (enc_crc_option c @ t) = Some (c, t)"
  by (cases c) (simp_all add: dec_crc_option_def enc_crc_option_def dec_u32_enc)

lemma placement_code: "prefix_code placement_range enc_placement dec_placement"
proof -
  have nats: "prefix_code (\<lambda>s. s < 256 ^ 8) (le_bytes 8) (dec_nat 8)"
    by (simp add: prefix_code_def dec_nat_enc)
  show ?thesis
    unfolding prefix_code_def placement_range_def enc_placement_def dec_placement_def
    by (simp add: dec_list_enc [OF nats] dec_nat_enc dec_int_enc dec_crc_option_enc)
qed

text \<open>The map with its keys in order, so that the bytes depend on the map only.\<close>

definition canonical :: "(string, placement_entry) hashmap \<Rightarrow> (string, placement_entry) hashmap" where
  "canonical m = map (\<lambda>k. (k, the (hm_get m k))) (sorted_list_of_set (fst ` set m))"

definition ref_ser_map :: "(string, placement_entry) hashmap \<Rightarrow> byte list option" where
  "ref_ser_map m =
     (if list_valid (entry_range placement_range) (canonical m)
      then Some (enc_list (enc_entry enc_placement) (canonical m)) else None)"

definition ref_de_map :: "byte list \<Rightarrow> (string, placement_entry) hashmap option" where
  "ref_de_map bs = map_option fst (dec_list (dec_entry dec_placement) bs)"

lemma canonical_get: "hm_get (canonical m) = hm_get m" and canonical_wf: "hm_wf (canonical m)"
proof -
  show "hm_get (canonical m) = hm_get m"
  proof
    fix k
    show "hm_get (canonical m) k = hm_get m k"
      by (cases "k \<in> fst ` set m")
        (auto simp: canonical_def map_of_map_restrict restrict_map_def map_of_eq_None_iff [THEN iffD2] image_iff
          dest: weak_map_of_SomeI)
  qed
  show "hm_wf (canonical m)" by (simp add: hm_wf_def canonical_def comp_def)
qed

lemma canonical_cong:
  assumes "hm_get m = hm_get n"
  shows "canonical m = canonical n"
proof -
  have "fst ` set m = dom (hm_get m)" for m :: "(string, placement_entry) hashmap" by (rule dom_map_of_conv_image_fst [symmetric])
  with assms show ?thesis by (simp add: canonical_def)
qed

lemma ref_de_ser_map: "ref_ser_map m = Some bs \<Longrightarrow> ref_de_map (bs @ t) = Some (canonical m)"
  by (auto simp: ref_ser_map_def ref_de_map_def dec_list_enc [OF entry_code [OF placement_code]] split: if_splits)

lemma ref_ser_map_in_range:
  assumes "length m < 256 ^ 8" and "\<And>k e. (k, e) \<in> set m \<Longrightarrow> entry_range placement_range (k, e)"
  shows "\<exists>bs. ref_ser_map m = Some bs"
proof -
  have "length (canonical m) \<le> length m"
    using card_image_le [of "set m" fst] card_length [of m] by (simp add: canonical_def)
  moreover have "(k, e) \<in> set m" if "(k, e) \<in> set (canonical m)" for k e
  proof -
    from that have "hm_get (canonical m) k = Some e" by (simp add: hm_get_iff canonical_wf)
    then show ?thesis by (simp add: canonical_get map_of_SomeD)
  qed
  ultimately show ?thesis using assms by (auto simp: ref_ser_map_def list_valid_def)
qed

definition ref_catalog_codec :: catalog_codec where
  "ref_catalog_codec =
     \<lparr>cc_crc32c = ref_crc, cc_bincode_ser = ref_ser_map, cc_bincode_de = ref_de_map, cc_json_payload = ref_ser_map,
      cc_envelope_ser = (\<lambda>crc m. map_option (\<lambda>bs. u32_to_le_bytes crc @ bs) (ref_ser_map m)),
      cc_envelope_de = (\<lambda>bs. if length bs < 4 then None
        else map_option (\<lambda>m. (u32_from_le_bytes (take 4 bs), m)) (ref_de_map (drop 4 bs))),
      cc_json_de = ref_de_map\<rparr>"

lemma ref_catalog_codec_laws: "catalog_codec_laws ref_catalog_codec"
proof -
  have cong: "ref_ser_map m = ref_ser_map n" if "hm_get m = hm_get n" for m n
    using canonical_cong [OF that] by (simp add: ref_ser_map_def)
  have de: "ref_de_map bs = Some (canonical m)" if "ref_ser_map m = Some bs" for m bs
    using ref_de_ser_map [OF that, of "[]"] by simp
  show ?thesis
    unfolding catalog_codec_laws_def
  proof (intro conjI allI impI; elim conjE)
    fix m bs
    assume "cc_bincode_ser ref_catalog_codec m = Some bs"
    then show "\<exists>m'. cc_bincode_de ref_catalog_codec bs = Some m' \<and> hm_wf m' \<and> hm_get m' = hm_get m"
      using de [of m bs] canonical_wf [of m] canonical_get [of m] by (simp add: ref_catalog_codec_def)
  next
    fix m crc bs
    assume "cc_envelope_ser ref_catalog_codec crc m = Some bs"
    then obtain b where "ref_ser_map m = Some b" "bs = u32_to_le_bytes crc @ b"
      by (auto simp: ref_catalog_codec_def)
    then show "\<exists>m'. cc_envelope_de ref_catalog_codec bs = Some (crc, m') \<and> hm_wf m' \<and> hm_get m' = hm_get m"
      using de [of m b] canonical_wf [of m] canonical_get [of m] by (simp add: ref_catalog_codec_def)
  next
    fix m n :: "(string, placement_entry) hashmap"
    assume "hm_get m = hm_get n"
    from cong [OF this] show "cc_json_payload ref_catalog_codec m = cc_json_payload ref_catalog_codec n"
      by (simp add: ref_catalog_codec_def)
  qed
qed

theorem catalog_save_load_witness:
  "\<exists>c' fs'. save_catalog ref_catalog_codec (BincodeFile ''cat.bin'') example_catalog
       \<lparr>fs_files = Map.empty, fs_schedule = []\<rparr> = (Inr (), c', fs') \<and> \<not> ct_dirty c' \<and>
     (\<exists>d'. load_catalog ref_catalog_codec (BincodeFile ''cat.bin'') catalog_new fs' = (Inr (), d', fs') \<and>
        catalog_get d' = catalog_get example_catalog)"
proof -
  let ?fs = "\<lparr>fs_files = Map.empty, fs_schedule = []\<rparr>"
  have tmp: "with_extension ''cat.bin'' ''tmp'' = ''cat.tmp''" by (simp add: with_extension_def Let_def)
  have entries: "ct_entries example_catalog =
      [(''b'', \<lparr>pe_shards = [2], pe_size = 7, pe_crc32c = None, pe_updated = 4, pe_meta_len = 0\<rparr>),
       (''a'', \<lparr>pe_shards = [1, 0], pe_size = 10, pe_crc32c = None, pe_updated = 5, pe_meta_len = 0\<rparr>)]"
    by (simp add: example_catalog_def catalog_put_def catalog_new_def)
  have "\<exists>bs. ref_ser_map (ct_entries example_catalog) = Some bs"
    by (rule ref_ser_map_in_range)
      (auto simp: entries entry_range_def placement_range_def list_valid_def)
  then obtain bs where bs: "ref_ser_map (ct_entries example_catalog) = Some bs" ..
  obtain r c' fs' where save: "save_catalog ref_catalog_codec (BincodeFile ''cat.bin'') example_catalog ?fs = (r, c', fs')"
    by (metis prod_cases3)
  with bs tmp have ok: "r = Inr ()" "fs_schedule fs' = []"
    by (auto simp: save_catalog_def persist_save_def ref_catalog_codec_def ok_or_def atomic_write_def Let_def
        fs_write_def fs_rename_def fs_next_def)
  have wf: "hm_wf (ct_entries example_catalog)" by code_simp
  note saved = catalog_save_load [OF ref_catalog_codec_laws wf _ _ save, of "''cat.bin''"]
  have "c' = clear_dirty example_catalog \<and>
      (\<exists>d'. load_catalog ref_catalog_codec (BincodeFile ''cat.bin'') catalog_new fs' = (Inr (), d', fs') \<and>
        catalog_get d' = catalog_get example_catalog)"
    using saved ok by (auto simp: tmp)
  with save ok show ?thesis by (auto simp: clear_dirty_def)
qed

end
