(* ===== verification/Replication.thy ===== *)
theory Replication
  imports Complex_Main Prelude
begin

text \<open>
  Placement of objects on shards (\<open>shardedobjstr/src/replication.rs\<close>): the jump consistent hash and
  the replication policy.

  The hash computes with \<open>f64\<close>. All its operands are at least 1 and its results at most \<open>2 ^ 63\<close>,
  so a double is its exact rational value and \<open>f64_round\<close> is the rounding of IEEE 754 to 53
  significant bits, ties to even. The conversion \<open>as i64\<close> truncates and saturates. The key is a
  64-bit word, so \<open>wrapping_mul\<close> and \<open>wrapping_add\<close> are its arithmetic.
\<close>

section \<open>Double precision\<close>

function bit_len :: "int \<Rightarrow> nat" where
  "bit_len n = (if n \<le> 0 then 0 else Suc (bit_len (n div 2)))"
  by pat_completeness auto
termination
  by (relation "measure nat") auto

declare bit_len.simps [simp del]

definition round_half_even :: "rat \<Rightarrow> int" where
  "round_half_even x =
     (let n = \<lfloor>x\<rfloor>; d = x - of_int n
      in if d < 1 / 2 \<or> d = 1 / 2 \<and> even n then n else n + 1)"

definition f64_round :: "rat \<Rightarrow> rat" where
  "f64_round x =
     (let k = bit_len \<lfloor>x\<rfloor>
      in if k \<le> 53 then of_int (round_half_even (x * 2 ^ (53 - k))) / 2 ^ (53 - k)
         else of_int (round_half_even (x / 2 ^ (k - 53))) * 2 ^ (k - 53))"

definition f64_as_i64 :: "rat \<Rightarrow> nat" where
  "f64_as_i64 x = nat (min \<lfloor>x\<rfloor> (2 ^ 63 - 1))"

section \<open>Jump consistent hash\<close>

definition jump_next :: "nat \<Rightarrow> 64 word \<Rightarrow> nat" where
  "jump_next b key =
     f64_as_i64 (f64_round (of_nat (b + 1) * f64_round (2 ^ 31 / of_nat (unat (drop_bit 33 key) + 1))))"

lemma bit_len_le: "0 < n \<Longrightarrow> 2 ^ (bit_len n - 1) \<le> n"
proof (induction n rule: bit_len.induct)
  case (1 n)
  show ?case
  proof (cases "n div 2 \<le> 0")
    case True
    with 1 have "n = 1" by auto
    then show ?thesis by (simp add: bit_len.simps)
  next
    case False
    with 1 have "2 ^ (bit_len (n div 2) - 1) \<le> n div 2" by simp
    moreover from False have "bit_len (n div 2) = Suc (bit_len (n div 2) - 1)"
      by (simp add: bit_len.simps [of "n div 2"])
    moreover from 1 have "bit_len n = Suc (bit_len (n div 2))" by (simp add: bit_len.simps [of n])
    ultimately have "(2 :: int) ^ (bit_len n - 1) = 2 * 2 ^ (bit_len (n div 2) - 1)"
      and "2 * 2 ^ (bit_len (n div 2) - 1) \<le> 2 * (n div 2)" by (metis diff_Suc_1 power_Suc, simp)
    then show ?thesis by simp
  qed
qed

lemma round_half_even_ge: "of_int z \<le> x \<Longrightarrow> z \<le> round_half_even x"
proof -
  assume "of_int z \<le> x"
  then have "z \<le> \<lfloor>x\<rfloor>" by (simp add: le_floor_iff)
  then show ?thesis by (auto simp: round_half_even_def Let_def)
qed

text \<open>Rounding never goes below an integer that a double can hold.\<close>

lemma f64_round_ge:
  assumes n: "of_int n \<le> x" "n < 2 ^ 53" and x: "1 \<le> x"
  shows "of_int n \<le> f64_round x"
proof (cases "bit_len \<lfloor>x\<rfloor> \<le> 53")
  case True
  let ?p = "2 ^ (53 - bit_len \<lfloor>x\<rfloor>) :: rat"
  have "of_int (n * 2 ^ (53 - bit_len \<lfloor>x\<rfloor>)) \<le> x * ?p" using n(1) by simp
  then have "n * 2 ^ (53 - bit_len \<lfloor>x\<rfloor>) \<le> round_half_even (x * ?p)" by (rule round_half_even_ge)
  then have "of_int n * ?p \<le> of_int (round_half_even (x * ?p))"
    by (metis of_int_le_iff of_int_mult of_int_numeral of_int_power)
  with True show ?thesis by (simp add: f64_round_def Let_def pos_le_divide_eq)
next
  case False
  let ?e = "bit_len \<lfloor>x\<rfloor> - 53"
  let ?p = "2 ^ ?e :: rat"
  from x have "(1 :: int) \<le> \<lfloor>x\<rfloor>" by (simp add: le_floor_iff)
  then have "2 ^ (bit_len \<lfloor>x\<rfloor> - 1) \<le> \<lfloor>x\<rfloor>" using bit_len_le [of "\<lfloor>x\<rfloor>"] by simp
  moreover have "bit_len \<lfloor>x\<rfloor> - 1 = 52 + ?e" using False by linarith
  ultimately have "2 ^ 52 * 2 ^ ?e \<le> \<lfloor>x\<rfloor>" by (simp only: power_add)
  then have "of_int (2 ^ 52 * 2 ^ ?e) \<le> x" by (simp add: le_floor_iff)
  then have "of_int (2 ^ 52) \<le> x / ?p" by (simp add: pos_le_divide_eq)
  then have "2 ^ 52 \<le> round_half_even (x / ?p)" by (rule round_half_even_ge)
  then have "of_int (2 ^ 52) * ?p \<le> of_int (round_half_even (x / ?p)) * ?p"
    by (intro mult_right_mono) (simp_all only: of_int_le_iff zero_le_power zero_le_numeral)
  also have "\<dots> = f64_round x" using False by (simp add: f64_round_def Let_def)
  finally have "2 ^ 52 * ?p \<le> f64_round x" by simp
  moreover have "(2 :: rat) ^ 1 \<le> ?p" using False by (intro power_increasing) simp_all
  moreover have "of_int n \<le> (2 :: rat) ^ 53"
    using n(2) by (metis less_imp_le of_int_le_iff of_int_numeral of_int_power)
  ultimately show ?thesis by simp
qed

lemma jump_next_gt:
  assumes "b < 2 ^ 32"
  shows "b < jump_next b key"
proof -
  define d where "d = unat (drop_bit 33 key) + 1"
  let ?q = "f64_round (2 ^ 31 / of_nat d)"
  have "unat (drop_bit 33 key) < 2 ^ 31"
    using unsigned_less [of key, where 'a = nat]
    by (simp only: unat_drop_bit_eq drop_bit_nat_def) (simp add: less_mult_imp_div_less)
  then have d: "0 < d" "d \<le> 2 ^ 31" by (simp_all add: d_def)
  then have "of_nat d \<le> (2 :: rat) ^ 31" by (metis of_nat_le_iff of_nat_numeral of_nat_power)
  with d(1) have "1 \<le> (2 :: rat) ^ 31 / of_nat d" by (simp add: pos_le_divide_eq)
  then have q: "1 \<le> ?q" using f64_round_ge [of 1] by simp
  have "of_nat (b + 1) * 1 \<le> of_nat (b + 1) * ?q" using q by (intro mult_left_mono) simp_all
  then have "of_int (int (b + 1)) \<le> of_nat (b + 1) * ?q" by simp
  moreover have "1 \<le> of_nat (b + 1) * ?q"
    using mult_mono [OF _ q, of 1 "of_nat (b + 1)"] by simp
  ultimately have "of_int (int (b + 1)) \<le> f64_round (of_nat (b + 1) * ?q)"
    using assms by (intro f64_round_ge) simp_all
  then have "int (b + 1) \<le> \<lfloor>f64_round (of_nat (b + 1) * ?q)\<rfloor>" by (simp only: le_floor_iff)
  with assms show ?thesis by (simp add: jump_next_def f64_as_i64_def d_def del: of_nat_Suc)
qed

function jump_loop :: "u32 \<Rightarrow> 64 word \<Rightarrow> int \<Rightarrow> nat \<Rightarrow> int" where
  "jump_loop num_buckets key b j =
     (if j < unat num_buckets then
        (let b' = j; key' = key * 2862933555777941757 + 1
         in jump_loop num_buckets key' (int b') (jump_next b' key'))
      else b)"
  by pat_completeness auto
termination
proof (relation "measure (\<lambda>(n, key, b, j). unat n - j)")
  show "wf (measure (\<lambda>(n, key, b, j). unat n - j))" by simp
next
  fix n :: u32 and key :: "64 word" and b :: int and j b' :: nat and key'
  assume "j < unat n" and "b' = j"
  moreover have "unat n < 2 ^ 32" by (rule unat_u32_bound)
  ultimately have "j < jump_next b' key'" using jump_next_gt [of j key'] by simp
  with \<open>j < unat n\<close> show "((n, key', int b', jump_next b' key'), n, key, b, j) \<in> measure (\<lambda>(n, key, b, j). unat n - j)"
    by simp
qed

declare jump_loop.simps [simp del]

definition jump_consistent_hash :: "64 word \<Rightarrow> u32 \<Rightarrow> u32" where
  "jump_consistent_hash key num_buckets = of_int (jump_loop num_buckets key (- 1) 0)"

section \<open>Bounds and stability\<close>

lemma jump_loop_bounds:
  assumes "j < unat n"
  shows "int j \<le> jump_loop n key b j \<and> jump_loop n key b j < int (unat n)"
  using assms
proof (induction n key b j rule: jump_loop.induct)
  case (1 n key b j)
  let ?key = "key * 2862933555777941757 + 1"
  have gt: "j < jump_next j ?key"
    using 1(2) unat_u32_bound [of n] by (intro jump_next_gt) simp
  have step: "jump_loop n key b j = jump_loop n ?key (int j) (jump_next j ?key)"
    using 1(2) by (simp add: jump_loop.simps [of n key] Let_def)
  show ?case
  proof (cases "jump_next j ?key < unat n")
    case True
    with 1 gt step show ?thesis by fastforce
  next
    case False
    then have "jump_loop n key b j = int j"
      using step by (simp add: jump_loop.simps [of n ?key])
    with 1(2) show ?thesis by linarith
  qed
qed

lemma jump_loop_stable:
  assumes "j < unat n" and "n \<le> m"
  shows "jump_loop m key b j = jump_loop n key b j \<or> int (unat n) \<le> jump_loop m key b j"
  using assms
proof (induction n key b j rule: jump_loop.induct)
  case (1 n key b j)
  let ?key = "key * 2862933555777941757 + 1"
  have nm: "unat n \<le> unat m" using 1(3) by (simp add: word_le_nat_alt)
  have step: "jump_loop k key b j = jump_loop k ?key (int j) (jump_next j ?key)" if "j < unat k" for k
    using that by (simp add: jump_loop.simps [of k key] Let_def)
  have steps: "jump_loop n key b j = jump_loop n ?key (int j) (jump_next j ?key)"
    "jump_loop m key b j = jump_loop m ?key (int j) (jump_next j ?key)"
    using step 1(2) nm by simp_all
  show ?case
  proof (cases "jump_next j ?key < unat n")
    case True
    with 1 steps show ?thesis by simp
  next
    case False
    have n: "jump_loop n key b j = int j"
      using False steps(1) by (simp add: jump_loop.simps [of n ?key])
    show ?thesis
    proof (cases "jump_next j ?key < unat m")
      case True
      with jump_loop_bounds [of "jump_next j ?key" m ?key "int j"] False steps show ?thesis by linarith
    next
      case False
      then have "jump_loop m key b j = int j"
        using steps(2) by (simp add: jump_loop.simps [of m ?key])
      with n show ?thesis by simp
    qed
  qed
qed

lemma unat_jump:
  assumes "0 < n"
  shows "int (unat (jump_consistent_hash key n)) = jump_loop n key (- 1) 0"
proof -
  from assms have "0 < unat n" by (simp add: unat_gt_0)
  note bounds = jump_loop_bounds [OF this, of key "- 1"]
  moreover have "int (unat n) < 2 ^ 32"
    using unat_u32_bound [of n] by (metis of_nat_less_iff of_nat_numeral of_nat_power)
  ultimately have "0 \<le> jump_loop n key (- 1) 0" "jump_loop n key (- 1) 0 < 2 ^ 32" by linarith+
  then show ?thesis by (simp add: jump_consistent_hash_def unsigned_of_int take_bit_int_eq_self)
qed

text \<open>
  C20. The jump consistent hash ends with a bucket below the number of buckets, and when the number
  of buckets grows from \<open>n\<close> to \<open>m\<close> a key stays in its bucket or moves to one of the new ones. With
  no buckets the loop does not run and the result is \<open>-1 as u32\<close>.
\<close>

theorem jump_hash_consistent:
  assumes "0 < n" and "n \<le> m"
  shows "jump_consistent_hash key n < n \<and>
    (jump_consistent_hash key m = jump_consistent_hash key n \<or> n \<le> jump_consistent_hash key m) \<and>
    jump_consistent_hash key 0 = 2 ^ 32 - 1"
proof (intro conjI)
  have pos: "0 < unat n" and m: "0 < m" using assms by (simp_all add: unat_gt_0)
  have "int (unat (jump_consistent_hash key n)) < int (unat n)"
    using jump_loop_bounds [OF pos, of key "- 1"] unat_jump [OF assms(1), of key] by simp
  then show "jump_consistent_hash key n < n" by (simp only: word_less_nat_alt of_nat_less_iff)
  have "int (unat (jump_consistent_hash key m)) = int (unat (jump_consistent_hash key n)) \<or>
      int (unat n) \<le> int (unat (jump_consistent_hash key m))"
    using jump_loop_stable [OF pos assms(2), of key "- 1"] unat_jump [OF assms(1), of key] unat_jump [OF m, of key]
    by simp
  then show "jump_consistent_hash key m = jump_consistent_hash key n \<or> n \<le> jump_consistent_hash key m"
    by (simp only: word_le_nat_alt word_unat_eq_iff of_nat_le_iff of_nat_eq_iff)
  show "jump_consistent_hash key 0 = 2 ^ 32 - 1"
    by (simp add: jump_consistent_hash_def jump_loop.simps)
qed

theorem jump_hash_consistent_witness:
  "jump_consistent_hash 77 3 < 3 \<and>
   (jump_consistent_hash 77 5 = jump_consistent_hash 77 3 \<or> 3 \<le> jump_consistent_hash 77 5) \<and>
   jump_consistent_hash 77 0 = 2 ^ 32 - 1"
  by (rule jump_hash_consistent) simp_all

section \<open>Replication policy\<close>

record replication_policy =
  rp_factor :: nat

definition policy_new :: "nat \<Rightarrow> nat \<Rightarrow> replication_policy" where
  "policy_new replication_factor shard_count = \<lparr>rp_factor = max (min replication_factor shard_count) 1\<rparr>"

end
