(* ===== verification/Shard_State.thy ===== *)
theory Shard_State
  imports Catalog Replication "HOL-Library.Multiset"
begin

text \<open>
  The state of the sharded store (\<open>shardedobjstr/src/lib.rs\<close>): shard health, read preference, the
  cluster record and the operations on it that do no I/O, with the choice of target shards for a
  write and of the shard order for a read.

  A shard's \<open>Arc<dyn ObjectStore>\<close> is a reference: the offline placeholder or an address in the
  heap \<open>sh_heap\<close> of store states. The raw-reference registry holds addresses of the same heap, so
  replacing a shard's store does not change what the registry refers to. What the store calls of
  other crates is the parameter record \<open>store_ops\<close>: the \<open>ObjectStore\<close> methods of a shard's store,
  \<open>crc32c\<close>, \<open>Path::from\<close> and the RFC 3339 text of a time.
\<close>

section \<open>Shards\<close>

datatype shard_health = Healthy | Degraded | Offline | Syncing | Detached

definition is_writable :: "shard_health \<Rightarrow> bool" where
  "is_writable h \<longleftrightarrow> h = Healthy \<or> h = Degraded"

definition is_unavailable :: "shard_health \<Rightarrow> bool" where
  "is_unavailable h \<longleftrightarrow> h = Offline \<or> h = Detached"

datatype detach_reason = Manual | ProbeFailure | DeviceMissing | Drain

datatype read_preference = RoundRobin | Ordered

datatype store_ref = Placeholder nat | StoreAt nat

record shard_info =
  si_id :: nat
  si_store :: store_ref
  si_health :: shard_health
  si_free_space :: nat
  si_offline_since :: "int option"
  si_crc_error_count :: nat
  si_detach_reason :: "detach_reason option"
  si_suppress_replication :: bool

datatype shard_kind = RawKind | S3Like | Sidecar

record raw_ref_registry =
  rr_refs :: "nat option list"
  rr_kinds :: "shard_kind list"

definition rr_get :: "raw_ref_registry \<Rightarrow> nat \<Rightarrow> nat option" where
  "rr_get r shard_id = (if shard_id < length (rr_refs r) then rr_refs r ! shard_id else None)"

definition rr_kind :: "raw_ref_registry \<Rightarrow> nat \<Rightarrow> shard_kind" where
  "rr_kind r shard_id = (if shard_id < length (rr_kinds r) then rr_kinds r ! shard_id else Sidecar)"

record ('s, 'e) store_ops =
  so_put :: "int \<Rightarrow> string \<Rightarrow> byte list \<Rightarrow> 's \<Rightarrow> ('e + unit) \<times> 's"
  so_get :: "get_range option \<Rightarrow> string \<Rightarrow> 's \<Rightarrow> ('e + ('e + byte list)) \<times> 's"
  so_get_range :: "nat \<Rightarrow> nat \<Rightarrow> string \<Rightarrow> 's \<Rightarrow> ('e + byte list) \<times> 's"
  so_head :: "string \<Rightarrow> 's \<Rightarrow> ('e + object_meta) \<times> 's"
  so_delete :: "string \<Rightarrow> 's \<Rightarrow> ('e + unit) \<times> 's"
  so_list :: "'s \<Rightarrow> ('e + object_meta list) \<times> 's"
  so_head_with_meta :: "string \<Rightarrow> 's \<Rightarrow> (object_meta \<times> nat) option"
  so_list_with_meta :: "'s \<Rightarrow> (object_meta \<times> nat) list"
  so_not_found :: "'e \<Rightarrow> bool"
  so_message :: "'e \<Rightarrow> string"
  so_crc32c :: "byte list \<Rightarrow> u32"
  so_path :: "string \<Rightarrow> string"
  so_to_rfc3339 :: "int \<Rightarrow> byte list"
  so_parse_rfc3339 :: "byte list \<Rightarrow> int option"

text \<open>A multipart upload that is tracked for expiry; times in seconds.\<close>

record tracked_upload =
  tu_location :: string
  tu_created_at :: int
  tu_primary_shard_id :: nat

definition DEFAULT_MULTIPART_EXPIRY :: int where
  "DEFAULT_MULTIPART_EXPIRY = 24 * 60 * 60"

text \<open>
  The cluster. \<open>sh_repairs\<close> are the spawned read-repair tasks that have not run: key, good and
  corrupt shard with the store references, and the registry that the task captured.
\<close>

record 's sharded =
  sh_shards :: "shard_info list"
  sh_catalog :: catalog
  sh_replication :: replication_policy
  sh_read_counter :: nat
  sh_read_preference :: read_preference
  sh_read_only :: bool
  sh_min_writes :: nat
  sh_delete_requires_min_writes :: bool
  sh_raw_refs :: "raw_ref_registry option"
  sh_read_repair_count :: nat
  sh_read_repair_success :: nat
  sh_read_repair_failed :: nat
  sh_repairs :: "(string \<times> (nat \<times> store_ref) \<times> (nat \<times> store_ref) \<times> raw_ref_registry option) list"
  sh_vacuum_in_progress :: bool
  sh_multipart_uploads :: "(nat, tracked_upload) hashmap"
  sh_next_upload_id :: nat
  sh_multipart_expiry :: int
  sh_heap :: "nat \<Rightarrow> 's"

datatype 'e slot_error = SlotOffline nat | SlotError 'e

datatype 'e shard_error =
    NoShards
  | ShNotFound string
  | ShAlreadyExists string
  | ShPrecondition string
  | AllReplicasFailed string "(nat \<times> bool \<times> 'e slot_error) list"
  | ShInsufficientWrites string nat nat "(nat \<times> bool \<times> 'e slot_error) list"
  | ShStore "'e slot_error"
  | ShReadOnly
  | DeleteFailed
  | VacuumOfflineShard nat
  | VacuumAlreadyRunning
  | ShPanicked

section \<open>Construction\<close>

definition new_shard :: "int \<Rightarrow> nat \<Rightarrow> nat option \<Rightarrow> shard_info" where
  "new_shard now sid store =
     (case store of
        Some a \<Rightarrow> \<lparr>si_id = sid, si_store = StoreAt a, si_health = Healthy, si_free_space = u64_max,
            si_offline_since = None, si_crc_error_count = 0, si_detach_reason = None,
            si_suppress_replication = False\<rparr>
      | None \<Rightarrow> \<lparr>si_id = sid, si_store = Placeholder sid, si_health = Offline, si_free_space = 0,
            si_offline_since = Some now, si_crc_error_count = 0, si_detach_reason = None,
            si_suppress_replication = False\<rparr>)"

definition new_with_offline :: "int \<Rightarrow> nat option list \<Rightarrow> nat \<Rightarrow> (nat \<Rightarrow> 's) \<Rightarrow> 's sharded" where
  "new_with_offline now stores replication_factor heap =
     (let shard_count = length stores in
      \<lparr>sh_shards = map (\<lambda>(sid, store). new_shard now sid store) (enumerate 0 stores),
       sh_catalog = catalog_new, sh_replication = policy_new replication_factor shard_count,
       sh_read_counter = 0, sh_read_preference = RoundRobin, sh_read_only = False,
       sh_min_writes = max (saturating_sub (min replication_factor shard_count) 1) 1,
       sh_delete_requires_min_writes = False, sh_raw_refs = None, sh_read_repair_count = 0,
       sh_read_repair_success = 0, sh_read_repair_failed = 0, sh_repairs = [], sh_vacuum_in_progress = False,
       sh_multipart_uploads = [], sh_next_upload_id = 1, sh_multipart_expiry = DEFAULT_MULTIPART_EXPIRY,
       sh_heap = heap\<rparr>)"

definition sharded_new :: "int \<Rightarrow> nat list \<Rightarrow> nat \<Rightarrow> (nat \<Rightarrow> 's) \<Rightarrow> 's sharded" where
  "sharded_new now stores replication_factor heap =
     new_with_offline now (map Some stores) replication_factor heap"

definition with_min_writes :: "nat \<Rightarrow> 's sharded \<Rightarrow> 's sharded" where
  "with_min_writes min_writes c =
     c\<lparr>sh_min_writes := min (max min_writes 1) (rp_factor (sh_replication c))\<rparr>"

section \<open>Health\<close>

definition shard_at :: "'s sharded \<Rightarrow> nat \<Rightarrow> shard_info option" where
  "shard_at c sid = (if sid < length (sh_shards c) then Some (sh_shards c ! sid) else None)"

definition update_shard :: "nat \<Rightarrow> (shard_info \<Rightarrow> shard_info) \<Rightarrow> 's sharded \<Rightarrow> 's sharded" where
  "update_shard sid f c =
     (if sid < length (sh_shards c) then c\<lparr>sh_shards := (sh_shards c)[sid := f (sh_shards c ! sid)]\<rparr> else c)"

definition health_change :: "int \<Rightarrow> shard_health \<Rightarrow> shard_info \<Rightarrow> shard_info" where
  "health_change now health s =
     (let prev = si_health s; s1 = s\<lparr>si_health := health\<rparr> in
      if is_unavailable health \<or> health = Degraded then
        (if \<not> is_unavailable prev \<and> prev \<noteq> Degraded then s1\<lparr>si_offline_since := Some now\<rparr> else s1)
      else if health = Healthy then
        s1\<lparr>si_offline_since := None, si_detach_reason := None, si_suppress_replication := False\<rparr>
      else s1)"

definition set_shard_health :: "int \<Rightarrow> nat \<Rightarrow> shard_health \<Rightarrow> 's sharded \<Rightarrow> shard_health option \<times> 's sharded" where
  "set_shard_health now sid health c =
     (map_option si_health (shard_at c sid), update_shard sid (health_change now health) c)"

definition set_shard_free_space :: "nat \<Rightarrow> nat \<Rightarrow> 's sharded \<Rightarrow> 's sharded" where
  "set_shard_free_space sid free c = update_shard sid (\<lambda>s. s\<lparr>si_free_space := free\<rparr>) c"

text \<open>The common part of \<open>detach_shard\<close> and \<open>hold_offline\<close>: the slot's store becomes the placeholder.\<close>

definition take_offline :: "int \<Rightarrow> nat \<Rightarrow> shard_health \<Rightarrow> shard_info \<Rightarrow> shard_info" where
  "take_offline now sid health s =
     (let s1 = s\<lparr>si_store := Placeholder sid, si_health := health, si_free_space := 0\<rparr>
      in if \<not> is_unavailable (si_health s) then s1\<lparr>si_offline_since := Some now\<rparr> else s1)"

definition detach_shard :: "int \<Rightarrow> nat \<Rightarrow> 's sharded \<Rightarrow> shard_health option \<times> 's sharded" where
  "detach_shard now sid c =
     (map_option si_health (shard_at c sid), update_shard sid (take_offline now sid Offline) c)"

definition hold_offline ::
  "int \<Rightarrow> nat \<Rightarrow> bool \<Rightarrow> detach_reason \<Rightarrow> 's sharded \<Rightarrow> shard_health option \<times> 's sharded" where
  "hold_offline now sid suppress reason c =
     (map_option si_health (shard_at c sid),
      update_shard sid (\<lambda>s. (take_offline now sid Detached s)\<lparr>si_detach_reason := Some reason,
        si_suppress_replication := suppress\<rparr>) c)"

definition release_hold :: "nat \<Rightarrow> 's sharded \<Rightarrow> bool \<times> 's sharded" where
  "release_hold sid c =
     (case shard_at c sid of
        Some s \<Rightarrow>
          (if si_health s = Detached
           then (True, update_shard sid (\<lambda>s. s\<lparr>si_health := Offline, si_detach_reason := None,
                   si_suppress_replication := False\<rparr>) c)
           else (False, c))
      | None \<Rightarrow> (False, c))"

definition set_detach_reason :: "nat \<Rightarrow> detach_reason \<Rightarrow> 's sharded \<Rightarrow> 's sharded" where
  "set_detach_reason sid reason c = update_shard sid (\<lambda>s. s\<lparr>si_detach_reason := Some reason\<rparr>) c"

section \<open>Target selection\<close>

definition write_target :: "shard_info \<Rightarrow> bool" where
  "write_target s \<longleftrightarrow> \<not> is_unavailable (si_health s) \<and> si_health s \<noteq> Syncing"

text \<open>The loop over the ring: up to \<open>rf\<close> writable shards clockwise from \<open>home\<close>.\<close>

definition ring_targets :: "nat \<Rightarrow> nat \<Rightarrow> nat \<Rightarrow> (nat \<Rightarrow> bool) \<Rightarrow> nat list" where
  "ring_targets rf home n writable =
     take rf (filter writable (map (\<lambda>off. (home + off) mod n) [0..<n]))"

definition select_targets :: "('s, 'e) store_ops \<Rightarrow> string \<Rightarrow> 's sharded \<Rightarrow> nat list" where
  "select_targets D path c =
     (let rf = rp_factor (sh_replication c); n = length (sh_shards c);
          writable = (\<lambda>sid. write_target (sh_shards c ! sid));
          writable_count = length (filter writable [0..<n])
      in if n = 0 then []
         else if writable_count \<le> rf then filter writable [0..<n]
         else
           (let hash = of_nat (unat (so_crc32c D (as_bytes path)));
                home = unat (jump_consistent_hash hash (of_nat n))
            in ring_targets rf home n writable))"

text \<open>\<open>read_counter.fetch_add(1)\<close> and the rotation by its old value.\<close>

definition balanced_shard_order :: "nat list \<Rightarrow> 's sharded \<Rightarrow> nat list \<times> 's sharded" where
  "balanced_shard_order shards c =
     (if length shards \<le> 1 then (shards, c)
      else
        (let idx = sh_read_counter c mod length shards
         in (drop idx shards @ take idx shards, c\<lparr>sh_read_counter := uadd (sh_read_counter c) 1\<rparr>)))"

definition resolve_shards :: "('s, 'e) store_ops \<Rightarrow> string \<Rightarrow> 's sharded \<Rightarrow> (nat list \<times> bool) \<times> 's sharded" where
  "resolve_shards D key c =
     (let n = length (sh_shards c);
          available = (\<lambda>sid. \<not> is_unavailable (si_health (sh_shards c ! sid)));
          (raw, is_fallback) = (case catalog_get (sh_catalog c) key of
             Some e \<Rightarrow> (filter (\<lambda>sid. sid < n \<and> available sid) (pe_shards e), False)
           | None \<Rightarrow>
               (let hash = of_nat (unat (so_crc32c D (as_bytes key)));
                    home = unat (jump_consistent_hash hash (of_nat n))
                in (sort_key (\<lambda>sid. (sid + n - home) mod n) (filter available [0..<n]), True)))
      in case sh_read_preference c of
           Ordered \<Rightarrow> ((raw, is_fallback), c)
         | RoundRobin \<Rightarrow>
             (case balanced_shard_order raw c of (order, c1) \<Rightarrow> ((order, is_fallback), c1)))"

section \<open>Replica counts\<close>

definition shard_has :: "(shard_health \<Rightarrow> bool) \<Rightarrow> 's sharded \<Rightarrow> nat \<Rightarrow> bool" where
  "shard_has P c sid = (case shard_at c sid of Some s \<Rightarrow> P (si_health s) | None \<Rightarrow> False)"

definition find_under_replicated :: "'s sharded \<Rightarrow> (string \<times> nat) list" where
  "find_under_replicated c =
     List.map_filter (\<lambda>(key, e).
       let healthy_count = length (filter (shard_has (\<lambda>h. h = Healthy \<or> h = Syncing) c) (pe_shards e))
       in if healthy_count < rp_factor (sh_replication c) then Some (key, healthy_count) else None)
       (ct_entries (sh_catalog c))"

definition find_over_replicated :: "'s sharded \<Rightarrow> (string \<times> nat) list" where
  "find_over_replicated c =
     List.map_filter (\<lambda>(key, e).
       let count = length (filter (shard_has (\<lambda>h. \<not> is_unavailable h \<and> h \<noteq> Syncing) c) (pe_shards e))
       in if count > rp_factor (sh_replication c) then Some (key, count) else None)
       (ct_entries (sh_catalog c))"

text \<open>\<open>max_by_key\<close> keeps the last of equal maxima, \<open>min_by_key\<close> the first of equal minima.\<close>

fun max_by_key :: "('a \<Rightarrow> nat) \<Rightarrow> 'a list \<Rightarrow> 'a option" where
  "max_by_key f [] = None"
| "max_by_key f (x # xs) =
     (case max_by_key f xs of None \<Rightarrow> Some x | Some y \<Rightarrow> Some (if f x > f y then x else y))"

fun min_by_key :: "('a \<Rightarrow> nat) \<Rightarrow> 'a list \<Rightarrow> 'a option" where
  "min_by_key f [] = None"
| "min_by_key f (x # xs) =
     (case min_by_key f xs of None \<Rightarrow> Some x | Some y \<Rightarrow> Some (if f x \<le> f y then x else y))"

definition find_replication_target :: "string \<Rightarrow> 's sharded \<Rightarrow> nat option" where
  "find_replication_target key c =
     (let existing = (case catalog_get (sh_catalog c) key of Some e \<Rightarrow> pe_shards e | None \<Rightarrow> [])
      in max_by_key (\<lambda>sid. si_free_space (sh_shards c ! sid))
           (filter (\<lambda>sid. sid \<notin> set existing \<and> si_health (sh_shards c ! sid) = Healthy)
             [0..<length (sh_shards c)]))"

definition pick_excess_shard :: "string \<Rightarrow> 's sharded \<Rightarrow> nat option" where
  "pick_excess_shard key c =
     (let rf = rp_factor (sh_replication c); healthy = shard_has (\<lambda>h. h = Healthy) c in
      case catalog_get (sh_catalog c) key of
        None \<Rightarrow> None
      | Some e \<Rightarrow>
          (if length (pe_shards e) \<le> rf then None
           else min_by_key (\<lambda>sid. si_free_space (sh_shards c ! sid))
             (filter (\<lambda>candidate. length (filter healthy (filter (\<lambda>s. s \<noteq> candidate) (pe_shards e))) \<ge> rf)
               (filter healthy (pe_shards e)))))"

definition bump :: "nat \<Rightarrow> (nat \<times> nat) list \<Rightarrow> (nat \<times> nat) list" where
  "bump sid counts =
     (case position (\<lambda>(i, _). i = sid) counts of
        Some p \<Rightarrow> counts[p := (fst (counts ! p), snd (counts ! p) + 1)]
      | None \<Rightarrow> counts)"

definition shard_object_counts :: "'s sharded \<Rightarrow> (nat \<times> nat) list" where
  "shard_object_counts c =
     (let healthy_ids = map si_id (filter (\<lambda>s. si_health s = Healthy) (sh_shards c))
      in fold (\<lambda>(_, e). fold bump (pe_shards e)) (ct_entries (sh_catalog c)) (map (\<lambda>sid. (sid, 0)) healthy_ids))"

section \<open>Placement\<close>

lemma ring_rotate: "map (\<lambda>off. (home + off) mod n) [0..<n] = rotate home [0..<n]"
  by (rule nth_equalityI) (simp_all add: nth_rotate)

lemma ring_targets_spec:
  "distinct (ring_targets rf home n w) \<and> set (ring_targets rf home n w) \<subseteq> {sid. sid < n \<and> w sid} \<and>
   length (ring_targets rf home n w) = min rf (length (filter w [0..<n]))"
proof -
  let ?r = "filter w (rotate home [0..<n])"
  have "distinct ?r" "set ?r = {sid. sid < n \<and> w sid}" by auto
  moreover have "length ?r = length (filter w [0..<n])"
    using distinct_card [OF \<open>distinct ?r\<close>] distinct_card [of "filter w [0..<n]"] by (simp only: set_filter set_rotate) simp
  ultimately show ?thesis
    unfolding ring_targets_def ring_rotate using set_take_subset [of rf ?r]
    by (auto simp: min_def)
qed

lemma select_targets_spec:
  "distinct (select_targets D path c)"
  "sid \<in> set (select_targets D path c) \<Longrightarrow> sid < length (sh_shards c) \<and> write_target (sh_shards c ! sid)"
  "length (select_targets D path c) =
     min (rp_factor (sh_replication c)) (card {sid. sid < length (sh_shards c) \<and> write_target (sh_shards c ! sid)})"
proof -
  let ?n = "length (sh_shards c)" and ?w = "\<lambda>sid. write_target (sh_shards c ! sid)"
  note ring = ring_targets_spec [of "rp_factor (sh_replication c)" _ ?n ?w]
  have count: "length (filter ?w [0..<?n]) = card {sid. sid < ?n \<and> ?w sid}"
    using distinct_card [of "filter ?w [0..<?n]"] by simp
  show "distinct (select_targets D path c)"
    using ring by (simp add: select_targets_def Let_def)
  show "sid \<in> set (select_targets D path c) \<Longrightarrow> sid < ?n \<and> ?w sid"
    using ring by (fastforce simp: select_targets_def Let_def split: if_splits)
  show "length (select_targets D path c) = min (rp_factor (sh_replication c)) (card {sid. sid < ?n \<and> ?w sid})"
    using ring by (simp add: select_targets_def Let_def count min_def)
qed

lemma balanced_shard_order_mset:
  "balanced_shard_order ss c = (order, c') \<Longrightarrow> mset order = mset ss \<and> (\<exists>k. c' = c\<lparr>sh_read_counter := k\<rparr>)"
proof -
  have "mset (drop i ss) + mset (take i ss) = mset ss" for i
    by (metis append_take_drop_id mset_append union_commute)
  moreover have "c = c\<lparr>sh_read_counter := sh_read_counter c\<rparr>" by simp
  ultimately show "balanced_shard_order ss c = (order, c') \<Longrightarrow> ?thesis"
    unfolding balanced_shard_order_def by (auto simp: Let_def split: if_splits intro: exI [of _ "sh_read_counter c"])
qed

text \<open>The shards that a read may try: the available holders, or every available shard.\<close>

definition read_candidates :: "'s sharded \<Rightarrow> string \<Rightarrow> nat list" where
  "read_candidates c key =
     filter (\<lambda>sid. sid < length (sh_shards c) \<and> \<not> is_unavailable (si_health (sh_shards c ! sid)))
       (case catalog_get (sh_catalog c) key of Some e \<Rightarrow> pe_shards e | None \<Rightarrow> [0..<length (sh_shards c)])"

lemma resolve_shards_spec:
  assumes "resolve_shards D key c = ((order, is_fallback), c')"
  shows "mset order = mset (read_candidates c key)" and "is_fallback \<longleftrightarrow> catalog_get (sh_catalog c) key = None"
    and "\<exists>k. c' = c\<lparr>sh_read_counter := k\<rparr>"
proof -
  obtain raw fb where raw: "mset raw = mset (read_candidates c key)" "fb \<longleftrightarrow> catalog_get (sh_catalog c) key = None"
    and res: "resolve_shards D key c = (case sh_read_preference c of
        Ordered \<Rightarrow> ((raw, fb), c)
      | RoundRobin \<Rightarrow> (case balanced_shard_order raw c of (order, c1) \<Rightarrow> ((order, fb), c1)))"
  proof (cases "catalog_get (sh_catalog c) key")
    case None
    then show thesis
      by (intro that [of _ True]) (auto simp: resolve_shards_def Let_def read_candidates_def intro!: arg_cong [where f = mset] filter_cong)
  next
    case (Some e)
    then show thesis
      by (intro that [of _ False]) (auto simp: resolve_shards_def Let_def read_candidates_def)
  qed
  have "\<exists>k. c = c\<lparr>sh_read_counter := k\<rparr>" by (rule exI [of _ "sh_read_counter c"]) simp
  then have "mset order = mset raw \<and> is_fallback = fb \<and> (\<exists>k. c' = c\<lparr>sh_read_counter := k\<rparr>)"
    using assms balanced_shard_order_mset [of raw c order c']
    unfolding res by (auto split: read_preference.splits prod.splits)
  with raw show "mset order = mset (read_candidates c key)" "is_fallback \<longleftrightarrow> catalog_get (sh_catalog c) key = None"
    "\<exists>k. c' = c\<lparr>sh_read_counter := k\<rparr>" by simp_all
qed

lemma min_by_key_mem: "min_by_key f xs = Some x \<Longrightarrow> x \<in> set xs"
  by (induction xs arbitrary: x) (auto split: option.splits if_splits)

lemma pick_excess_spec:
  assumes "catalog_ok (sh_catalog c)"
  shows "\<forall>sid. pick_excess_shard key c = Some sid \<longrightarrow> sid \<in> holders (sh_catalog c) key \<and>
    rp_factor (sh_replication c) \<le> card {s \<in> holders (sh_catalog c) key - {sid}. shard_has (\<lambda>h. h = Healthy) c s}"
proof (intro allI impI)
  fix sid
  let ?healthy = "shard_has (\<lambda>h. h = Healthy) c"
  assume "pick_excess_shard key c = Some sid"
  then obtain e where e: "catalog_get (sh_catalog c) key = Some e"
    and "sid \<in> set (pe_shards e)"
    and len: "rp_factor (sh_replication c) \<le> length (filter ?healthy (filter (\<lambda>s. s \<noteq> sid) (pe_shards e)))"
    by (auto simp: pick_excess_shard_def Let_def split: option.splits if_splits dest!: min_by_key_mem)
  have "distinct (filter ?healthy (filter (\<lambda>s. s \<noteq> sid) (pe_shards e)))"
    using catalog_ok_entry [OF assms e] by simp
  from distinct_card [OF this] len
  have "rp_factor (sh_replication c) \<le> card {s \<in> set (pe_shards e) - {sid}. ?healthy s}"
    by (auto elim!: order_trans intro!: eq_refl arg_cong [where f = card])
  with e \<open>sid \<in> set (pe_shards e)\<close> show "sid \<in> holders (sh_catalog c) key \<and>
      rp_factor (sh_replication c) \<le> card {s \<in> holders (sh_catalog c) key - {sid}. ?healthy s}"
    by (simp add: holders_def)
qed

text \<open>
  C18. Placement: \<open>select_targets\<close> returns distinct writable shards, as many as the replication factor
  asks for or all writable ones when there are fewer; the shards that a read tries are exactly the
  available shards of the catalog entry, each once, or every available shard when the catalog has
  no entry, whatever the rotation; and the excess replica that a trim would shed leaves at least
  the replication factor of healthy copies.
\<close>

theorem placement_correct:
  assumes "catalog_ok (sh_catalog c)" and "resolve_shards D path c = ((order, is_fallback), c')"
  shows "distinct (select_targets D path c) \<and>
    (\<forall>sid\<in>set (select_targets D path c). sid < length (sh_shards c) \<and> write_target (sh_shards c ! sid)) \<and>
    length (select_targets D path c) = min (rp_factor (sh_replication c))
      (card {sid. sid < length (sh_shards c) \<and> write_target (sh_shards c ! sid)}) \<and>
    mset order = mset (read_candidates c path) \<and>
    (is_fallback \<longleftrightarrow> catalog_get (sh_catalog c) path = None) \<and>
    (\<forall>sid. pick_excess_shard path c = Some sid \<longrightarrow> sid \<in> holders (sh_catalog c) path \<and>
      rp_factor (sh_replication c) \<le> card {s \<in> holders (sh_catalog c) path - {sid}. shard_has (\<lambda>h. h = Healthy) c s})"
  using select_targets_spec [where D = D and path = path and c = c] resolve_shards_spec [OF assms(2)] pick_excess_spec [OF assms(1)]
  by (intro conjI) simp_all

theorem placement_correct_witness:
  "\<forall>D :: (nat, nat) store_ops.
     let c = (sharded_new 0 [0, 1, 2] 2 id)\<lparr>sh_catalog := catalog_put 0 ''k'' [0, 1, 2] 5 None 0 catalog_new\<rparr>
     in length (select_targets D ''k'' c) = min 2 (card {sid. sid < 3 \<and> write_target (sh_shards c ! sid)}) \<and>
        mset (fst (fst (resolve_shards D ''k'' c))) = mset (read_candidates c ''k'') \<and>
        pick_excess_shard ''k'' c = Some 0 \<and> 2 \<le> card {s \<in> holders (sh_catalog c) ''k'' - {0}. shard_has (\<lambda>h. h = Healthy) c s}"
proof
  fix D :: "(nat, nat) store_ops"
  let ?c = "(sharded_new 0 [0, 1, 2] 2 id)\<lparr>sh_catalog := catalog_put 0 ''k'' [0, 1, 2] 5 None 0 catalog_new\<rparr>"
  have ok: "catalog_ok (sh_catalog ?c)" by (simp add: catalog_ok_iff) (simp add: catalog_put_def catalog_new_def hm_wf_def)
  obtain order fb c' where r: "resolve_shards D ''k'' ?c = ((order, fb), c')" by (metis surj_pair)
  have shards: "sh_shards ?c = [new_shard 0 0 (Some 0), new_shard 0 1 (Some 1), new_shard 0 2 (Some 2)]"
    by (simp add: sharded_new_def new_with_offline_def Let_def numeral_2_eq_2)
  have n: "length (sh_shards ?c) = 3" "rp_factor (sh_replication ?c) = 2"
    by (simp_all add: sharded_new_def new_with_offline_def Let_def policy_new_def)
  have "shard_has (\<lambda>h. h = Healthy) ?c 0" "shard_has (\<lambda>h. h = Healthy) ?c 1" "shard_has (\<lambda>h. h = Healthy) ?c 2"
    unfolding shard_has_def shard_at_def shards by (simp_all add: new_shard_def)
  then have "pick_excess_shard ''k'' ?c = Some 0"
    unfolding pick_excess_shard_def Let_def shards n by (simp add: new_shard_def)
  then show "let c = ?c
     in length (select_targets D ''k'' c) = min 2 (card {sid. sid < 3 \<and> write_target (sh_shards c ! sid)}) \<and>
        mset (fst (fst (resolve_shards D ''k'' c))) = mset (read_candidates c ''k'') \<and>
        pick_excess_shard ''k'' c = Some 0 \<and> 2 \<le> card {s \<in> holders (sh_catalog c) ''k'' - {0}. shard_has (\<lambda>h. h = Healthy) c s}"
    using placement_correct [OF ok r] r n unfolding Let_def by simp
qed

end
