(* ===== verification/Tlv.thy ===== *)
theory Tlv
  imports Index "HOL-Library.List_Lexorder" "HOL-Library.Char_ord"
begin

text \<open>
  The metadata encoding of the sharded store (\<open>shardedobjstr/src/tlv.rs\<close>): field tags, the
  tables of well-known values, \<open>encode_metadata\<close> and \<open>decode_metadata\<close>.

  A Rust \<open>String\<close> is the list of its UTF-8 bytes as characters, so \<open>as_bytes\<close> keeps the length
  and the order of strings is the bytewise one. \<open>std::str::from_utf8\<close> is written out by the table
  of well-formed UTF-8 byte sequences. The decoder walks over the rest of the buffer instead of an
  index into it.
\<close>

section \<open>UTF-8\<close>

definition utf8_cont :: "nat \<Rightarrow> bool" where
  "utf8_cont b \<longleftrightarrow> 128 \<le> b \<and> b \<le> 191"

definition utf8_lead3 :: "nat \<Rightarrow> nat \<Rightarrow> bool" where
  "utf8_lead3 a b \<longleftrightarrow>
     a = 224 \<and> 160 \<le> b \<and> b \<le> 191 \<or> 225 \<le> a \<and> a \<le> 236 \<and> utf8_cont b \<or>
     a = 237 \<and> 128 \<le> b \<and> b \<le> 159 \<or> 238 \<le> a \<and> a \<le> 239 \<and> utf8_cont b"

definition utf8_lead4 :: "nat \<Rightarrow> nat \<Rightarrow> bool" where
  "utf8_lead4 a b \<longleftrightarrow>
     a = 240 \<and> 144 \<le> b \<and> b \<le> 191 \<or> 241 \<le> a \<and> a \<le> 243 \<and> utf8_cont b \<or>
     a = 244 \<and> 128 \<le> b \<and> b \<le> 143"

fun utf8_valid :: "nat list \<Rightarrow> bool" where
  "utf8_valid [] = True"
| "utf8_valid (a # r) =
     (if a < 128 then utf8_valid r
      else case r of
        [] \<Rightarrow> False
      | b # r1 \<Rightarrow>
          (if 194 \<le> a \<and> a \<le> 223 then utf8_cont b \<and> utf8_valid r1
           else case r1 of
             [] \<Rightarrow> False
           | c # r2 \<Rightarrow>
               (if utf8_lead3 a b then utf8_cont c \<and> utf8_valid r2
                else case r2 of
                  [] \<Rightarrow> False
                | d # r3 \<Rightarrow> utf8_lead4 a b \<and> utf8_cont c \<and> utf8_cont d \<and> utf8_valid r3)))"

text \<open>The byte sequences that a Rust \<open>String\<close> can hold, and \<open>from_utf8(\<dots>).unwrap_or_default()\<close>.\<close>

definition rust_string :: "string \<Rightarrow> bool" where
  "rust_string s \<longleftrightarrow> utf8_valid (map of_char s)"

definition utf8_or_default :: "byte list \<Rightarrow> string" where
  "utf8_or_default bs = (if utf8_valid (map unat bs) then map (\<lambda>b. char_of (unat b)) bs else [])"

definition strip_prefix :: "string \<Rightarrow> string \<Rightarrow> string option" where
  "strip_prefix p s = (if take (length p) s = p then Some (drop (length p) s) else None)"

section \<open>Tags and value tables\<close>

definition LOOKUP_BIT :: byte where "LOOKUP_BIT = 128"
definition TAG_CONTENT_TYPE :: byte where "TAG_CONTENT_TYPE = 1"
definition TAG_CACHE_CONTROL :: byte where "TAG_CACHE_CONTROL = 2"
definition TAG_CONTENT_DISPOSITION :: byte where "TAG_CONTENT_DISPOSITION = 3"
definition TAG_CONTENT_ENCODING :: byte where "TAG_CONTENT_ENCODING = 4"
definition TAG_CONTENT_LANGUAGE :: byte where "TAG_CONTENT_LANGUAGE = 5"
definition TAG_EXPIRES :: byte where "TAG_EXPIRES = 6"
definition TAG_ETAG :: byte where "TAG_ETAG = 7"
definition TAG_CUSTOM :: byte where "TAG_CUSTOM = 128"

lemmas tag_defs = LOOKUP_BIT_def TAG_CONTENT_TYPE_def TAG_CACHE_CONTROL_def
  TAG_CONTENT_DISPOSITION_def TAG_CONTENT_ENCODING_def TAG_CONTENT_LANGUAGE_def TAG_EXPIRES_def
  TAG_ETAG_def TAG_CUSTOM_def

definition field_name_to_tag :: "string \<Rightarrow> byte option" where
  "field_name_to_tag name =
     (if name = ''content-type'' then Some TAG_CONTENT_TYPE
      else if name = ''cache-control'' then Some TAG_CACHE_CONTROL
      else if name = ''content-disposition'' then Some TAG_CONTENT_DISPOSITION
      else if name = ''content-encoding'' then Some TAG_CONTENT_ENCODING
      else if name = ''content-language'' then Some TAG_CONTENT_LANGUAGE
      else if name = ''expires'' then Some TAG_EXPIRES
      else if name = ''etag'' then Some TAG_ETAG
      else None)"

definition tag_to_field_name :: "byte \<Rightarrow> string option" where
  "tag_to_field_name tag =
     (if tag = TAG_CONTENT_TYPE then Some ''content-type''
      else if tag = TAG_CACHE_CONTROL then Some ''cache-control''
      else if tag = TAG_CONTENT_DISPOSITION then Some ''content-disposition''
      else if tag = TAG_CONTENT_ENCODING then Some ''content-encoding''
      else if tag = TAG_CONTENT_LANGUAGE then Some ''content-language''
      else if tag = TAG_EXPIRES then Some ''expires''
      else if tag = TAG_ETAG then Some ''etag''
      else None)"

definition CT_VALUES :: "string list" where
  "CT_VALUES =
     [''application/octet-stream'',
      ''text/plain'',
      ''text/html'',
      ''text/css'',
      ''text/csv'',
      ''application/json'',
      ''application/xml'',
      ''image/png'',
      ''image/jpeg'',
      ''image/gif'',
      ''image/webp'',
      ''image/svg+xml'',
      ''application/pdf'',
      ''application/zip'',
      ''video/mp4'',
      ''audio/mpeg'',
      ''application/javascript'',
      ''text/xml'',
      ''application/x-www-form-urlencoded'',
      ''multipart/form-data'',
      ''application/gzip'',
      ''application/x-tar'',
      ''image/tiff'',
      ''audio/wav'',
      ''video/webm'',
      ''application/wasm'',
      ''font/woff2'',
      ''font/woff'',
      ''text/plain; charset=utf-8'',
      ''application/json; charset=utf-8'',
      ''text/html; charset=utf-8'',
      ''binary/octet-stream'']"

definition CC_VALUES :: "string list" where
  "CC_VALUES =
     [''no-cache'',
      ''no-store'',
      ''no-cache, no-store'',
      ''private'',
      ''public'',
      ''must-revalidate'',
      ''max-age=0'',
      ''max-age=60'',
      ''max-age=300'',
      ''max-age=3600'',
      ''max-age=86400'',
      ''max-age=604800'',
      ''max-age=2592000'',
      ''max-age=31536000'',
      ''public, max-age=3600'',
      ''public, max-age=86400'',
      ''public, max-age=31536000'',
      ''public, max-age=31536000, immutable'',
      ''private, no-cache'',
      ''no-store, must-revalidate'']"

definition CE_VALUES :: "string list" where
  "CE_VALUES =
     [''gzip'',
      ''br'',
      ''deflate'',
      ''identity'',
      ''zstd'',
      ''compress'']"

definition value_table :: "byte \<Rightarrow> string list option" where
  "value_table tag =
     (if tag = TAG_CONTENT_TYPE then Some CT_VALUES
      else if tag = TAG_CACHE_CONTROL then Some CC_VALUES
      else if tag = TAG_CONTENT_ENCODING then Some CE_VALUES
      else None)"

definition value_lookup :: "byte \<Rightarrow> string \<Rightarrow> byte option" where
  "value_lookup tag val =
     (case value_table tag of
        None \<Rightarrow> None
      | Some table \<Rightarrow> map_option of_nat (position (\<lambda>v. v = val) table))"

definition value_from_lookup :: "byte \<Rightarrow> byte \<Rightarrow> string option" where
  "value_from_lookup tag idx =
     (case value_table tag of
        None \<Rightarrow> None
      | Some table \<Rightarrow> if unat idx < length table then Some (table ! unat idx) else None)"

section \<open>Encoding\<close>

definition MAX_FIELD_LEN :: nat where
  "MAX_FIELD_LEN = 65535"

record metadata_too_large =
  mt_field :: string
  mt_len :: nat
  mt_max :: nat

definition too_large :: "string \<Rightarrow> nat \<Rightarrow> metadata_too_large" where
  "too_large key len = \<lparr>mt_field = key, mt_len = len, mt_max = MAX_FIELD_LEN\<rparr>"

text \<open>\<open>(len as u16).to_le_bytes()\<close> followed by the bytes.\<close>

definition put_field :: "byte list \<Rightarrow> byte list" where
  "put_field bs = le_bytes 2 (length bs mod 2 ^ 16) @ bs"

text \<open>The body of the encoder's loop: the bytes it appends for one key.\<close>

definition encode_entry :: "string \<Rightarrow> string \<Rightarrow> metadata_too_large + byte list" where
  "encode_entry key val =
     (case field_name_to_tag key of
        Some tag \<Rightarrow>
          (case value_lookup tag val of
             Some idx \<Rightarrow> Inr [tag OR LOOKUP_BIT, idx]
           | None \<Rightarrow>
               (let vb = as_bytes val
                in if length vb > MAX_FIELD_LEN then Inl (too_large key (length vb))
                   else Inr (tag # put_field vb)))
      | None \<Rightarrow>
          (case strip_prefix ''x-amz-meta-'' key of
             Some sfx \<Rightarrow>
               (let sb = as_bytes sfx
                in if length sb > MAX_FIELD_LEN then Inl (too_large key (length sb))
                   else let vb = as_bytes val
                        in if length vb > MAX_FIELD_LEN then Inl (too_large key (length vb))
                           else Inr (TAG_CUSTOM # put_field sb @ put_field vb))
           | None \<Rightarrow> Inr []))"

fun encode_keys :: "(string, string) hashmap \<Rightarrow> string list \<Rightarrow> byte list \<Rightarrow> metadata_too_large + byte list" where
  "encode_keys meta [] buf = Inr buf"
| "encode_keys meta (key # keys) buf =
     bind_res (encode_entry key (the (hm_get meta key))) (\<lambda>bs. encode_keys meta keys (buf @ bs))"

definition encode_metadata :: "(string, string) hashmap \<Rightarrow> metadata_too_large + byte list" where
  "encode_metadata meta = encode_keys meta (sort (map fst meta)) []"

section \<open>Decoding\<close>

text \<open>A length-prefixed field and the rest of the buffer, or \<open>None\<close> where the loop breaks.\<close>

definition take_field :: "byte list \<Rightarrow> (byte list \<times> byte list) option" where
  "take_field data =
     (if 2 > length data then None
      else let len = le_val (take 2 data); rest = drop 2 data
           in if len > length rest then None else Some (take len rest, drop len rest))"

definition insert_known :: "byte \<Rightarrow> string \<Rightarrow> (string, string) hashmap \<Rightarrow> (string, string) hashmap" where
  "insert_known tag val m =
     (case tag_to_field_name tag of Some name \<Rightarrow> hm_insert name val m | None \<Rightarrow> m)"

lemma take_field_shorter: "take_field data = Some (f, rest) \<Longrightarrow> length rest < length data"
  by (auto simp: take_field_def Let_def split: if_splits)

function decode_fields :: "byte list \<Rightarrow> (string, string) hashmap \<Rightarrow> (string, string) hashmap" where
  "decode_fields [] m = m"
| "decode_fields (tag_byte # data) m =
     (if tag_byte = TAG_CUSTOM then
        (case take_field data of
           None \<Rightarrow> m
         | Some (sfx, data1) \<Rightarrow>
             (case take_field data1 of
                None \<Rightarrow> m
              | Some (val, data2) \<Rightarrow>
                  decode_fields data2
                    (hm_insert (''x-amz-meta-'' @ utf8_or_default sfx) (utf8_or_default val) m)))
      else if tag_byte AND LOOKUP_BIT \<noteq> 0 then
        (case data of
           [] \<Rightarrow> m
         | idx # data1 \<Rightarrow>
             decode_fields data1
               (case value_from_lookup (tag_byte AND 127) idx of
                  Some val \<Rightarrow> insert_known (tag_byte AND 127) val m
                | None \<Rightarrow> m))
      else
        (case take_field data of
           None \<Rightarrow> m
         | Some (val, data1) \<Rightarrow> decode_fields data1 (insert_known tag_byte (utf8_or_default val) m)))"
  by pat_completeness auto
termination
  by (relation "measure (\<lambda>(data, m). length data)") (auto dest!: take_field_shorter)

definition decode_metadata :: "byte list \<Rightarrow> (string, string) hashmap" where
  "decode_metadata data = decode_fields data []"

section \<open>Strings and fields\<close>

lemma unat_of_char [simp]: "unat (of_char c :: byte) = of_char c"
proof -
  have "(of_char c :: byte) = of_nat (of_char c)" by (simp only: of_nat_of_char)
  moreover have "(of_char c :: nat) < 2 ^ 8" using nat_of_char_less_256 [of c] by simp
  ultimately show ?thesis by (simp add: unat_of_nat)
qed

lemma length_as_bytes [simp]: "length (as_bytes s) = length s"
  by (simp add: as_bytes_def)

lemma utf8_as_bytes: "rust_string s \<Longrightarrow> utf8_or_default (as_bytes s) = s"
  by (simp add: rust_string_def utf8_or_default_def as_bytes_def comp_def)

lemma take_put_field:
  assumes "length bs \<le> MAX_FIELD_LEN"
  shows "take_field (put_field bs @ rest) = Some (bs, rest)"
proof -
  have "le_val (le_bytes 2 (length bs mod 2 ^ 16)) = length bs"
    using assms by (subst le_val_le_bytes) (simp_all add: MAX_FIELD_LEN_def)
  then show ?thesis by (simp add: take_field_def put_field_def)
qed

lemma le_bytes_2: "le_bytes 2 x = [of_nat (x mod 256), of_nat (x div 256 mod 256)]"
proof -
  have "(2 :: nat) = Suc (Suc 0)" by simp
  then show ?thesis by (simp only: le_bytes.simps)
qed

lemma strip_prefix_Some: "strip_prefix p s = Some t \<longleftrightarrow> s = p @ t"
  by (auto simp: strip_prefix_def) (metis append_take_drop_id)

lemma rust_string_suffix: "rust_string (''x-amz-meta-'' @ s) \<Longrightarrow> rust_string s"
  by (simp add: rust_string_def)

section \<open>Tags\<close>

lemma tag_field_name:
  assumes "field_name_to_tag key = Some tag"
  shows "tag_to_field_name tag = Some key" "tag \<noteq> TAG_CUSTOM" "tag AND LOOKUP_BIT = 0"
    "tag OR LOOKUP_BIT \<noteq> TAG_CUSTOM" "(tag OR LOOKUP_BIT) AND LOOKUP_BIT \<noteq> 0"
    "(tag OR LOOKUP_BIT) AND 127 = tag"
  using assms by (auto simp: field_name_to_tag_def tag_to_field_name_def tag_defs split: if_splits)

lemma value_table_short: "value_table tag = Some table \<Longrightarrow> length table < 256"
  by (auto simp: value_table_def CT_VALUES_def CC_VALUES_def CE_VALUES_def split: if_splits)

lemma value_lookup_inverse:
  assumes "value_lookup tag val = Some idx"
  shows "value_from_lookup tag idx = Some val"
proof -
  from assms obtain table i where tab: "value_table tag = Some table"
    and pos: "position (\<lambda>v. v = val) table = Some i" and idx: "idx = of_nat i"
    by (auto simp: value_lookup_def split: option.splits)
  from position_Some_split [OF pos] have "i < length table" "table ! i = val" by auto
  moreover from this value_table_short [OF tab] have "unat idx = i"
    by (simp add: idx unat_of_nat)
  ultimately show ?thesis by (simp add: value_from_lookup_def tab)
qed

section \<open>Round trip\<close>

text \<open>The keys that the format can carry; the encoder skips the others.\<close>

definition encodable :: "string \<Rightarrow> bool" where
  "encodable key \<longleftrightarrow> field_name_to_tag key \<noteq> None \<or> strip_prefix ''x-amz-meta-'' key \<noteq> None"

text \<open>What the encoder rejects in one entry.\<close>

definition oversized :: "string \<Rightarrow> string \<Rightarrow> nat option" where
  "oversized key val =
     (case field_name_to_tag key of
        Some tag \<Rightarrow> if value_lookup tag val = None \<and> length val > 65535 then Some (length val) else None
      | None \<Rightarrow>
          (case strip_prefix ''x-amz-meta-'' key of
             Some sfx \<Rightarrow> if length sfx > 65535 then Some (length sfx)
                         else if length val > 65535 then Some (length val) else None
           | None \<Rightarrow> None))"

lemma encode_entry_cases:
  "encode_entry key val = Inl e \<longleftrightarrow> (\<exists>n. oversized key val = Some n \<and> e = too_large key n)"
  by (auto simp: encode_entry_def oversized_def Let_def MAX_FIELD_LEN_def split: option.splits)

lemma decode_entry:
  assumes "encode_entry key val = Inr bs" and "rust_string key" and "rust_string val"
  shows "decode_fields (bs @ rest) m = decode_fields rest (if encodable key then hm_insert key val m else m)"
proof (cases "field_name_to_tag key")
  case (Some tag)
  note tag = tag_field_name [OF Some]
  show ?thesis
  proof (cases "value_lookup tag val")
    case None
    with assms Some have "bs = tag # put_field (as_bytes val)" "length (as_bytes val) \<le> MAX_FIELD_LEN"
      by (auto simp: encode_entry_def Let_def split: if_splits)
    with tag Some assms(3) show ?thesis
      by (simp add: take_put_field insert_known_def utf8_as_bytes encodable_def)
  next
    case (Some idx)
    with assms \<open>field_name_to_tag key = Some tag\<close> have "bs = [tag OR LOOKUP_BIT, idx]"
      by (simp add: encode_entry_def)
    with tag value_lookup_inverse [OF Some] \<open>field_name_to_tag key = Some tag\<close> show ?thesis
      by (simp add: insert_known_def encodable_def)
  qed
next
  case None
  show ?thesis
  proof (cases "strip_prefix ''x-amz-meta-'' key")
    case (Some sfx)
    with assms None have bs: "bs = TAG_CUSTOM # put_field (as_bytes sfx) @ put_field (as_bytes val)"
      and len: "length (as_bytes sfx) \<le> MAX_FIELD_LEN" "length (as_bytes val) \<le> MAX_FIELD_LEN"
      by (auto simp: encode_entry_def Let_def split: if_splits)
    from Some have key: "key = ''x-amz-meta-'' @ sfx" by (simp only: strip_prefix_Some)
    with assms(2) have "rust_string sfx" by (simp only: rust_string_suffix)
    with assms(3) key have "utf8_or_default (as_bytes sfx) = sfx" "utf8_or_default (as_bytes val) = val"
      by (simp_all add: utf8_as_bytes)
    with len Some show ?thesis by (simp add: bs take_put_field encodable_def key)
  next
    case none: None
    with assms None have "bs = []" by (simp add: encode_entry_def)
    with None none show ?thesis by (simp add: encodable_def)
  qed
qed

lemma encode_keys_append:
  "encode_keys meta keys buf = map_sum id (\<lambda>bs. buf @ bs) (encode_keys meta keys [])"
proof (induction keys arbitrary: buf)
  case Nil
  then show ?case by simp
next
  case (Cons key keys)
  show ?case
  proof (cases "encode_entry key (the (hm_get meta key))")
    case (Inl e)
    then show ?thesis by simp
  next
    case (Inr bs)
    with Cons [of "buf @ bs"] Cons [of bs] show ?thesis
      by (cases "encode_keys meta keys []") simp_all
  qed
qed

lemma decode_keys:
  assumes "encode_keys meta keys [] = Inr bs" and "distinct keys"
    and "\<And>k. k \<in> set keys \<Longrightarrow> rust_string k \<and> rust_string (the (hm_get meta k))"
  shows "hm_get (decode_fields (bs @ rest) m) =
    hm_get (decode_fields rest (hm_extend m (map (\<lambda>k. (k, the (hm_get meta k))) (filter encodable keys))))"
  using assms
proof (induction keys arbitrary: bs m)
  case Nil
  then show ?case by (simp add: hm_extend_def)
next
  case (Cons key keys)
  let ?v = "the (hm_get meta key)"
  from Cons.prems(1) obtain e where e: "encode_entry key ?v = Inr e"
    and k: "encode_keys meta keys e = Inr bs" by (auto simp: bind_res_Inr_iff)
  from k obtain bs' where bs': "encode_keys meta keys [] = Inr bs'" "bs = e @ bs'"
    by (subst (asm) encode_keys_append) (cases "encode_keys meta keys []", simp_all)
  have str: "rust_string key" "rust_string ?v" using Cons.prems(3) [of key] by simp_all
  have "decode_fields (bs @ rest) m = decode_fields (bs' @ rest) (if encodable key then hm_insert key ?v m else m)"
    using decode_entry [OF e str] by (simp add: bs'(2))
  then show ?case
    using Cons.IH [OF bs'(1)] Cons.prems(2,3) by (simp add: hm_extend_def)
qed

lemma encode_keys_error:
  "encode_keys meta keys [] = Inl e \<longleftrightarrow>
     (\<exists>key n. find (\<lambda>k. oversized k (the (hm_get meta k)) \<noteq> None) keys = Some key \<and>
        oversized key (the (hm_get meta key)) = Some n \<and> e = too_large key n)"
proof (induction keys)
  case Nil
  then show ?case by simp
next
  case (Cons key keys)
  let ?v = "the (hm_get meta key)"
  show ?case
  proof (cases "encode_entry key ?v")
    case (Inl e')
    then obtain n where "oversized key ?v = Some n" "e' = too_large key n"
      using encode_entry_cases [of key ?v e'] by auto
    with Inl show ?thesis by auto
  next
    case (Inr bs)
    then have "oversized key ?v = None"
      using encode_entry_cases [of key ?v] by (cases "oversized key ?v") auto
    moreover have "encode_keys meta (key # keys) [] = Inl e \<longleftrightarrow> encode_keys meta keys [] = Inl e"
      using Inr by (simp, subst encode_keys_append) (cases "encode_keys meta keys []", simp_all)
    ultimately show ?thesis using Cons by simp
  qed
qed

lemma decode_encode:
  assumes "hm_wf meta" and "\<forall>(k, v)\<in>set meta. rust_string k \<and> rust_string v" and Inr: "encode_metadata meta = Inr buf"
  shows "hm_get (decode_metadata buf) = (\<lambda>k. if encodable k then hm_get meta k else None)"
proof -
  let ?ks = "filter encodable (sort (map fst meta))"
  let ?es = "map (\<lambda>k. (k, the (hm_get meta k))) ?ks"
  have str: "rust_string k \<and> rust_string (the (hm_get meta k))" if "k \<in> set (sort (map fst meta))" for k
  proof -
    from that obtain v where "(k, v) \<in> set meta" by auto
    with assms have "hm_get meta k = Some v" by (simp add: hm_get_iff)
    with assms(2) \<open>(k, v) \<in> set meta\<close> show ?thesis by auto
  qed
  have "hm_get (decode_metadata buf) = hm_get (hm_extend [] ?es)"
    using decode_keys [where rest = "[]" and m = "[]", OF Inr [unfolded encode_metadata_def] _ str] assms(1)
    by (simp add: decode_metadata_def hm_wf_def)
  also have "\<dots> = hm_get ?es"
    using assms(1) by (simp add: hm_extend_get hm_get_rev hm_wf_def comp_def)
  also have "\<dots> = (\<lambda>k. if encodable k then hm_get meta k else None)"
  proof
    fix k
    show "hm_get ?es k = (if encodable k then hm_get meta k else None)"
    proof (cases "hm_get meta k")
      case None
      then have "k \<notin> fst ` set meta" by (simp add: map_of_eq_None_iff)
      with None show ?thesis by (auto simp: map_of_map_restrict restrict_map_def)
    next
      case (Some v)
      then have "k \<in> fst ` set meta" by (force dest: map_of_SomeD)
      with Some show ?thesis by (auto simp: map_of_map_restrict restrict_map_def)
    qed
  qed
  finally show ?thesis .
qed

lemma encode_metadata_Inl:
  "encode_metadata meta = Inl e \<longleftrightarrow>
     (\<exists>key n. find (\<lambda>k. oversized k (the (hm_get meta k)) \<noteq> None) (sort (map fst meta)) = Some key \<and>
        oversized key (the (hm_get meta key)) = Some n \<and> e = too_large key n)"
  unfolding encode_metadata_def by (rule encode_keys_error)

lemma encode_metadata_ok:
  "is_ok (encode_metadata meta) \<longleftrightarrow> (\<forall>k\<in>fst ` set meta. oversized k (the (hm_get meta k)) = None)"
proof (cases "find (\<lambda>k. oversized k (the (hm_get meta k)) \<noteq> None) (sort (map fst meta))")
  case None
  then have "encode_metadata meta \<noteq> Inl e" for e by (simp add: encode_metadata_Inl)
  with None show ?thesis by (cases "encode_metadata meta") (auto simp: find_None_iff)
next
  case (Some key)
  then have key: "key \<in> fst ` set meta" "oversized key (the (hm_get meta key)) \<noteq> None"
    by (metis (mono_tags, lifting) find_Some_iff nth_mem set_map set_sort, metis (mono_tags, lifting) find_Some_iff)
  with Some have "\<exists>e. encode_metadata meta = Inl e" by (auto simp: encode_metadata_Inl)
  with key show ?thesis by auto
qed

lemma insert_known_wf: "hm_wf m \<Longrightarrow> hm_wf (insert_known tag val m)"
  by (simp add: insert_known_def hm_simps split: option.splits)

lemma decode_fields_wf: "hm_wf m \<Longrightarrow> hm_wf (decode_fields data m)"
  by (induction data m rule: decode_fields.induct)
    (auto simp: insert_known_wf hm_simps split: option.splits prod.splits list.splits)

lemma decode_metadata_wf: "hm_wf (decode_metadata data)"
  unfolding decode_metadata_def by (rule decode_fields_wf) (rule hm_wf_Nil)

text \<open>
  C21. Metadata round trip: when \<open>encode_metadata\<close> succeeds, decoding its bytes gives back exactly the
  entries whose key is a known field or carries the \<open>x-amz-meta-\<close> prefix; it fails exactly when a
  field is longer than 65535 bytes and has no table entry, and then names the first such key in
  key order.
\<close>

theorem metadata_tlv_roundtrip:
  assumes "hm_wf meta" and "\<forall>(k, v)\<in>set meta. rust_string k \<and> rust_string v"
  shows "case encode_metadata meta of
      Inr buf \<Rightarrow> \<forall>k. hm_get (decode_metadata buf) k = (if encodable k then hm_get meta k else None)
    | Inl e \<Rightarrow> \<exists>key n. find (\<lambda>k. oversized k (the (hm_get meta k)) \<noteq> None) (sort (map fst meta)) = Some key \<and>
        oversized key (the (hm_get meta key)) = Some n \<and>
        e = \<lparr>mt_field = key, mt_len = n, mt_max = 65535\<rparr>"
proof (cases "encode_metadata meta")
  case (Inl e)
  then show ?thesis
    using encode_metadata_Inl [of meta e] by (auto simp: too_large_def MAX_FIELD_LEN_def)
next
  case (Inr buf)
  then show ?thesis using decode_encode [OF assms Inr] by simp
qed

theorem metadata_tlv_roundtrip_witness:
  "encode_metadata [(''x-amz-meta-k'', ''v''), (''etag'', ''7''), (''content-type'', ''text/plain''), (''q'', ''z'')]
     = Inr [129, 1, 7, 1, 0, 55, 128, 1, 0, 107, 1, 0, 118] \<and>
   (\<forall>k. hm_get (decode_metadata [129, 1, 7, 1, 0, 55, 128, 1, 0, 107, 1, 0, 118]) k =
     (if encodable k then hm_get [(''x-amz-meta-k'', ''v''), (''etag'', ''7''), (''content-type'', ''text/plain''), (''q'', ''z'')] k else None))"
proof -
  let ?m = "[(''x-amz-meta-k'', ''v''), (''etag'', ''7''), (''content-type'', ''text/plain''), (''q'', ''z'')]"
  have "sort (map fst ?m) = [''content-type'', ''etag'', ''q'', ''x-amz-meta-k'']" by code_simp
  then have enc: "encode_metadata ?m = Inr [129, 1, 7, 1, 0, 55, 128, 1, 0, 107, 1, 0, 118]"
    by (simp add: encode_metadata_def encode_entry_def field_name_to_tag_def tag_defs value_lookup_def
        value_table_def CT_VALUES_def as_bytes_def put_field_def le_bytes_2 MAX_FIELD_LEN_def
        strip_prefix_def of_char_def)
  have "hm_wf ?m" by code_simp
  moreover have "\<forall>(k, v)\<in>set ?m. rust_string k \<and> rust_string v" by code_simp
  ultimately show ?thesis using metadata_tlv_roundtrip [of ?m] enc by simp
qed

end
