(* ===== verification/Sharded_Store.thy ===== *)
theory Sharded_Store
  imports Shard_State Tlv
begin

text \<open>
  The object operations of the sharded store (\<open>shardedobjstr/src/lib.rs\<close>): fan-out writes with
  their health marking, retry and clean-up, put, reads with fallback over the replicas, delete with
  its delete marker, the listings and the vacuum of delete markers.

  The futures that \<open>join_all\<close> runs together address different shards; they run in list order here.
  Events and log lines are dropped. An error that the source renders into a message keeps the shard
  and the error value.
\<close>

section \<open>Calls on a shard's store\<close>

definition on_slot :: "('s \<Rightarrow> ('e + 'r) \<times> 's) \<Rightarrow> store_ref \<Rightarrow> 's sharded \<Rightarrow> ('e slot_error + 'r) \<times> 's sharded" where
  "on_slot f ref c =
     (case ref of
        Placeholder sid \<Rightarrow> (Inl (SlotOffline sid), c)
      | StoreAt a \<Rightarrow>
          (case f (sh_heap c a) of (r, s) \<Rightarrow>
             (case r of Inl e \<Rightarrow> Inl (SlotError e) | Inr x \<Rightarrow> Inr x, c\<lparr>sh_heap := (sh_heap c)(a := s)\<rparr>)))"

fun fan_out :: "(nat \<Rightarrow> store_ref \<Rightarrow> 's sharded \<Rightarrow> 'r \<times> 's sharded) \<Rightarrow> (nat \<times> store_ref) list \<Rightarrow> 's sharded \<Rightarrow>
    (nat \<times> 'r) list \<times> 's sharded" where
  "fan_out f [] c = ([], c)"
| "fan_out f ((sid, ref) # rest) c =
     (case f sid ref c of (r, c1) \<Rightarrow>
        (case fan_out f rest c1 of (rs, c2) \<Rightarrow> ((sid, r) # rs, c2)))"

definition stores_of :: "'s sharded \<Rightarrow> nat list \<Rightarrow> (nat \<times> store_ref) list" where
  "stores_of c ids =
     map (\<lambda>sid. (sid, si_store (sh_shards c ! sid))) (filter (\<lambda>sid. sid < length (sh_shards c)) ids)"

definition oks :: "(nat \<times> ('e + 'r)) list \<Rightarrow> nat list" where
  "oks rs = map fst (filter (\<lambda>(_, r). is_ok r) rs)"

definition errs :: "(nat \<times> ('e + 'r)) list \<Rightarrow> (nat \<times> 'e) list" where
  "errs rs = List.map_filter (\<lambda>(sid, r). case r of Inl e \<Rightarrow> Some (sid, e) | Inr _ \<Rightarrow> None) rs"

section \<open>Sidecar clean-up\<close>

definition meta_sidecar_path :: "('s, 'e) store_ops \<Rightarrow> string \<Rightarrow> string" where
  "meta_sidecar_path D location = so_path D (location @ ''.__meta__'')"

definition cleanup_sidecar :: "('s, 'e) store_ops \<Rightarrow> string \<Rightarrow> shard_kind \<Rightarrow> store_ref \<Rightarrow> 's sharded \<Rightarrow> 's sharded" where
  "cleanup_sidecar D location kind ref c =
     (if kind = Sidecar then snd (on_slot (so_delete D (meta_sidecar_path D location)) ref c) else c)"

definition cleanup_sidecar_maybe ::
  "('s, 'e) store_ops \<Rightarrow> string \<Rightarrow> raw_ref_registry option \<Rightarrow> nat \<Rightarrow> store_ref \<Rightarrow> 's sharded \<Rightarrow> 's sharded" where
  "cleanup_sidecar_maybe D location refs shard_id ref c =
     (if (case refs of Some r \<Rightarrow> rr_kind r shard_id = Sidecar | None \<Rightarrow> True)
      then snd (on_slot (so_delete D (meta_sidecar_path D location)) ref c) else c)"

section \<open>Fan-out writes\<close>

definition mark_offline :: "int \<Rightarrow> nat \<Rightarrow> 's sharded \<Rightarrow> 's sharded" where
  "mark_offline now sid c = snd (set_shard_health now sid Offline c)"

definition mark_degraded :: "int \<Rightarrow> nat \<Rightarrow> 's sharded \<Rightarrow> 's sharded" where
  "mark_degraded now sid c =
     (if map_option si_health (shard_at c sid) = Some Healthy
      then snd (set_shard_health now sid Degraded c) else c)"

definition mark_write_failures ::
  "('s, 'e) store_ops \<Rightarrow> int \<Rightarrow> nat list \<Rightarrow> nat list \<Rightarrow> nat list \<Rightarrow> string \<Rightarrow> 's sharded \<Rightarrow> nat list \<times> 's sharded" where
  "mark_write_failures D now placed failed tried location c =
     (if placed = [] \<and> failed \<noteq> [] then
        (let c1 = fold (mark_offline now) failed c
         in (filter (\<lambda>sid. sid \<notin> set tried) (select_targets D location c1), c1))
      else ([], fold (mark_degraded now) failed c))"

definition cleanup_orphaned_writes :: "('s, 'e) store_ops \<Rightarrow> string \<Rightarrow> nat list \<Rightarrow> 's sharded \<Rightarrow> 's sharded" where
  "cleanup_orphaned_writes D location placed c =
     (if catalog_get (sh_catalog c) location \<noteq> None then c
      else snd (fan_out (\<lambda>sid ref c1.
             case on_slot (so_delete D location) ref c1 of (body_res, c2) \<Rightarrow>
               (body_res, cleanup_sidecar D location
                  (case sh_raw_refs c of Some r \<Rightarrow> rr_kind r sid | None \<Rightarrow> Sidecar) ref c2))
           (stores_of c placed) c))"

definition fan_put ::
  "('s, 'e) store_ops \<Rightarrow> int \<Rightarrow> string \<Rightarrow> byte list \<Rightarrow> nat list \<Rightarrow> 's sharded \<Rightarrow>
     (nat \<times> ('e slot_error + unit)) list \<times> 's sharded" where
  "fan_put D now location data targets c =
     fan_out (\<lambda>_. on_slot (so_put D now location data)) (stores_of c targets) c"

text \<open>The quorum check at the end of \<open>write_to_shards_inner\<close>.\<close>

definition enforce_min ::
  "('s, 'e) store_ops \<Rightarrow> string \<Rightarrow> nat \<Rightarrow> bool \<Rightarrow> nat list \<Rightarrow> (nat \<times> bool \<times> 'e slot_error) list \<Rightarrow> 's sharded \<Rightarrow>
     ('e shard_error + nat list) \<times> 's sharded" where
  "enforce_min D location min_required cleanup_on_fail placed errors c =
     (if length placed < min_required
      then (Inl (ShInsufficientWrites location min_required (length placed) errors),
            if cleanup_on_fail then cleanup_orphaned_writes D location placed c else c)
      else (Inr placed, c))"

definition write_to_shards_inner ::
  "('s, 'e) store_ops \<Rightarrow> int \<Rightarrow> string \<Rightarrow> byte list \<Rightarrow> nat list \<Rightarrow> nat \<Rightarrow> bool \<Rightarrow> 's sharded \<Rightarrow>
     ('e shard_error + nat list) \<times> 's sharded" where
  "write_to_shards_inner D now location data targets min_required cleanup_on_fail c =
     (case fan_put D now location data targets c of (outcomes, c1) \<Rightarrow>
        let placed = oks outcomes; errors = map (\<lambda>(sid, e). (sid, False, e)) (errs outcomes);
            failed = map fst (errs outcomes)
        in if placed = [] \<and> failed \<noteq> [] then
             (case mark_write_failures D now placed failed targets location c1 of (retry_ids, c2) \<Rightarrow>
                (case fan_put D now location data retry_ids c2 of (outcomes2, c3) \<Rightarrow>
                   let placed2 = oks outcomes2;
                       errors2 = errors @ map (\<lambda>(sid, e). (sid, True, e)) (errs outcomes2)
                   in if placed2 = [] then (Inl (AllReplicasFailed location errors2), c3)
                      else enforce_min D location min_required cleanup_on_fail placed2 errors2 c3))
           else
             (case mark_write_failures D now placed failed targets location c1 of (_, c2) \<Rightarrow>
                enforce_min D location min_required cleanup_on_fail placed errors c2))"

text \<open>\<open>result.expect(\<dots>)\<close>: there is a put result exactly when a shard was written.\<close>

definition write_to_shards ::
  "('s, 'e) store_ops \<Rightarrow> int \<Rightarrow> string \<Rightarrow> byte list \<Rightarrow> nat list \<Rightarrow> 's sharded \<Rightarrow>
     ('e shard_error + nat list) \<times> 's sharded" where
  "write_to_shards D now location data targets c =
     (case write_to_shards_inner D now location data targets (sh_min_writes c) True c of
        (Inl e, c1) \<Rightarrow> (Inl e, c1)
      | (Inr placed, c1) \<Rightarrow> (if placed = [] then Inl ShPanicked else Inr placed, c1))"

definition write_to_shards_best_effort ::
  "('s, 'e) store_ops \<Rightarrow> int \<Rightarrow> string \<Rightarrow> byte list \<Rightarrow> nat list \<Rightarrow> 's sharded \<Rightarrow>
     ('e shard_error + nat list) \<times> 's sharded" where
  "write_to_shards_best_effort D now location data targets c =
     write_to_shards_inner D now location data targets 1 False c"

section \<open>Raw delete and delete markers\<close>

definition DELETE_MARKER_PREFIX :: string where
  "DELETE_MARKER_PREFIX = ''__deleted__/''"

definition delete_marker_key :: "string \<Rightarrow> string" where
  "delete_marker_key key = DELETE_MARKER_PREFIX @ key"

definition is_delete_marker :: "string \<Rightarrow> bool" where
  "is_delete_marker key = prefix DELETE_MARKER_PREFIX key"

definition slot_not_found :: "('s, 'e) store_ops \<Rightarrow> 'e slot_error \<Rightarrow> bool" where
  "slot_not_found D e = (case e of SlotError e' \<Rightarrow> so_not_found D e' | SlotOffline _ \<Rightarrow> False)"

definition available :: "'s sharded \<Rightarrow> nat \<Rightarrow> bool" where
  "available c sid \<longleftrightarrow> sid < length (sh_shards c) \<and> \<not> is_unavailable (si_health (sh_shards c ! sid))"

definition update_catalog :: "(catalog \<Rightarrow> catalog) \<Rightarrow> 's sharded \<Rightarrow> 's sharded" where
  "update_catalog f c = c\<lparr>sh_catalog := f (sh_catalog c)\<rparr>"

definition delete_failed :: "('s, 'e) store_ops \<Rightarrow> nat \<times> ('e slot_error + unit) \<Rightarrow> bool" where
  "delete_failed D o' = (case snd o' of Inl e \<Rightarrow> \<not> slot_not_found D e | Inr _ \<Rightarrow> False)"

definition delete_raw :: "('s, 'e) store_ops \<Rightarrow> string \<Rightarrow> 's sharded \<Rightarrow> ('e shard_error + unit) \<times> 's sharded" where
  "delete_raw D location c =
     (let shard_ids = (case catalog_get (sh_catalog c) location of
            Some e \<Rightarrow> filter (available c) (pe_shards e)
          | None \<Rightarrow> filter (available c) [0..<length (sh_shards c)])
      in case fan_out (\<lambda>sid ref c1.
               on_slot (so_delete D location) ref (cleanup_sidecar_maybe D location (sh_raw_refs c) sid ref c1))
             (stores_of c shard_ids) c of (outcomes, c2) \<Rightarrow>
        let failed = filter (delete_failed D) outcomes;
            succeeded = map fst (filter (\<lambda>o'. \<not> delete_failed D o') outcomes);
            last_err = (case errs failed of [] \<Rightarrow> DeleteFailed | es \<Rightarrow> ShStore (snd (last es)))
        in if failed = [] then (Inr (), update_catalog (\<lambda>cat. snd (catalog_remove location cat)) c2)
           else
             (let c3 = update_catalog (fold (catalog_remove_shard location) succeeded) c2
              in if sh_delete_requires_min_writes c then
                   (if length succeeded \<ge> sh_min_writes c then (Inr (), c3) else (Inl last_err, c3))
                 else if succeeded = [] then (Inl last_err, c3) else (Inr (), c3)))"

definition put_delete_marker ::
  "('s, 'e) store_ops \<Rightarrow> int \<Rightarrow> string \<Rightarrow> 's sharded \<Rightarrow> ('e shard_error + int) \<times> 's sharded" where
  "put_delete_marker D now key c =
     (let marker_key = delete_marker_key key; body = so_to_rfc3339 D now; path = so_path D marker_key;
          all_healthy = filter (available c) [0..<length (sh_shards c)]
      in if all_healthy = [] then (Inl NoShards, c)
         else
           (case (if sh_delete_requires_min_writes c then write_to_shards D now path body all_healthy c
                  else write_to_shards_best_effort D now path body all_healthy c) of
              (Inl e, c1) \<Rightarrow> (Inl e, c1)
            | (Inr placed, c1) \<Rightarrow>
                (Inr now, update_catalog (catalog_put now marker_key placed (length body) None 0) c1)))"

definition remove_delete_marker ::
  "('s, 'e) store_ops \<Rightarrow> string \<Rightarrow> 's sharded \<Rightarrow> ('e shard_error + unit) \<times> 's sharded" where
  "remove_delete_marker D key c = delete_raw D (so_path D (delete_marker_key key)) c"

section \<open>Put\<close>

definition commit_put ::
  "('s, 'e) store_ops \<Rightarrow> int \<Rightarrow> string \<Rightarrow> byte list \<Rightarrow> nat list \<Rightarrow> 's sharded \<Rightarrow> 's sharded" where
  "commit_put D now location data placed c =
     snd (remove_delete_marker D location
       (update_catalog (catalog_put now location placed (length data) (Some (so_crc32c D data)) 0) c))"

fun is_insufficient :: "'e shard_error \<Rightarrow> bool" where
  "is_insufficient (ShInsufficientWrites _ _ _ _) = True"
| "is_insufficient _ = False"

definition sharded_put ::
  "('s, 'e) store_ops \<Rightarrow> int \<Rightarrow> string \<Rightarrow> byte list \<Rightarrow> 's sharded \<Rightarrow> ('e shard_error + unit) \<times> 's sharded" where
  "sharded_put D now location data c =
     (if sh_read_only c then (Inl ShReadOnly, c)
      else
        (let targets = select_targets D location c in
         if targets = [] then (Inl NoShards, c)
         else
           (case write_to_shards D now location data targets c of
              (Inr placed, c1) \<Rightarrow> (Inr (), commit_put D now location data placed c1)
            | (Inl first_err, c1) \<Rightarrow>
                (if is_insufficient first_err then (Inl first_err, c1)
                 else
                   (let c2 = fold (mark_offline now) targets c1; retry_targets = select_targets D location c2 in
                    if retry_targets = [] \<or> retry_targets = targets then (Inl NoShards, c2)
                    else
                      (case write_to_shards D now location data retry_targets c2 of
                         (Inl e, c3) \<Rightarrow> (Inl e, c3)
                       | (Inr placed, c3) \<Rightarrow> (Inr (), commit_put D now location data placed c3)))))))"

text \<open>Removal of the placeholder entry of a conditional put, which has no checksum.\<close>

definition drop_placeholder :: "string \<Rightarrow> 's sharded \<Rightarrow> 's sharded" where
  "drop_placeholder location c =
     (case catalog_get (sh_catalog c) location of
        Some e \<Rightarrow> if pe_crc32c e = None then update_catalog (\<lambda>cat. snd (catalog_remove location cat)) c else c
      | None \<Rightarrow> c)"

definition put_create ::
  "('s, 'e) store_ops \<Rightarrow> int \<Rightarrow> string \<Rightarrow> byte list \<Rightarrow> 's sharded \<Rightarrow> ('e shard_error + unit) \<times> 's sharded" where
  "put_create D now location data c =
     (let targets = select_targets D location c in
      if targets = [] then (Inl NoShards, c)
      else
        (case try_insert now location targets (length data) (sh_catalog c) of
           (False, _) \<Rightarrow> (Inl (ShAlreadyExists location), c)
         | (True, cat) \<Rightarrow>
             (case write_to_shards D now location data targets (c\<lparr>sh_catalog := cat\<rparr>) of
                (Inr placed, c1) \<Rightarrow> (Inr (), commit_put D now location data placed c1)
              | (Inl first_err, c1) \<Rightarrow>
                  (if is_insufficient first_err then (Inl first_err, drop_placeholder location c1)
                   else
                     (let c2 = fold (mark_offline now) targets c1; retry_targets = select_targets D location c2 in
                      if retry_targets = [] \<or> retry_targets = targets then (Inl NoShards, drop_placeholder location c2)
                      else
                        (case write_to_shards D now location data retry_targets c2 of
                           (Inl e, c3) \<Rightarrow> (Inl e, drop_placeholder location c3)
                         | (Inr placed, c3) \<Rightarrow> (Inr (), commit_put D now location data placed c3)))))))"

definition sharded_put_opts ::
  "('s, 'e) store_ops \<Rightarrow> int \<Rightarrow> string \<Rightarrow> byte list \<Rightarrow> put_mode \<Rightarrow> 's sharded \<Rightarrow> ('e shard_error + unit) \<times> 's sharded" where
  "sharded_put_opts D now location data mode c =
     (if sh_read_only c then (Inl ShReadOnly, c)
      else case mode of
        ModeCreate \<Rightarrow> put_create D now location data c
      | ModeOverwrite \<Rightarrow> sharded_put D now location data c
      | ModeUpdate e_tag version \<Rightarrow>
          (if e_tag \<noteq> None \<or> version \<noteq> None then (Inl (ShPrecondition location), c)
           else sharded_put D now location data c))"

section \<open>Reads\<close>

definition slot_message :: "('s, 'e) store_ops \<Rightarrow> 'e slot_error \<Rightarrow> string" where
  "slot_message D e =
     (case e of
        SlotOffline sid \<Rightarrow> ''Generic OfflinePlaceholderStore error: shard '' @ show_nat sid @ '' is offline''
      | SlotError e' \<Rightarrow> so_message D e')"

definition handle_read_error ::
  "('s, 'e) store_ops \<Rightarrow> nat \<Rightarrow> string \<Rightarrow> 'e slot_error \<Rightarrow> 's sharded \<Rightarrow> bool \<times> 's sharded" where
  "handle_read_error D shard_id key err c =
     (if \<not> sublist ''data corruption'' (slot_message D err) then (False, c)
      else case shard_at c shard_id of
        None \<Rightarrow> (True, c)
      | Some s \<Rightarrow>
          (True, update_catalog (catalog_remove_shard key shard_id)
             (update_shard shard_id (\<lambda>s. s\<lparr>si_crc_error_count := uadd (si_crc_error_count s) 1\<rparr>) c)))"

definition schedule_read_repair :: "string \<Rightarrow> nat \<Rightarrow> nat \<Rightarrow> 's sharded \<Rightarrow> 's sharded" where
  "schedule_read_repair key good_shard corrupt_shard c =
     (let c1 = c\<lparr>sh_read_repair_count := uadd (sh_read_repair_count c) 1\<rparr> in
      if available c good_shard \<and> available c corrupt_shard
      then c1\<lparr>sh_repairs := sh_repairs c @ [(key, (good_shard, si_store (sh_shards c ! good_shard)),
             (corrupt_shard, si_store (sh_shards c ! corrupt_shard)), sh_raw_refs c)]\<rparr>
      else c1)"

text \<open>The catalog entry that a read without one creates, with \<open>meta_len\<close> from a raw shard's index.\<close>

definition raw_hit :: "('s, 'e) store_ops \<Rightarrow> string \<Rightarrow> nat \<Rightarrow> 's sharded \<Rightarrow> (object_meta \<times> nat) option" where
  "raw_hit D key shard_id c =
     Option.bind (sh_raw_refs c) (\<lambda>refs. Option.bind (rr_get refs shard_id) (\<lambda>a. so_head_with_meta D key (sh_heap c a)))"

definition restore_entry ::
  "('s, 'e) store_ops \<Rightarrow> int \<Rightarrow> string \<Rightarrow> nat \<Rightarrow> store_ref \<Rightarrow> 's sharded \<Rightarrow> 's sharded" where
  "restore_entry D now key shard_id ref c =
     (case raw_hit D key shard_id c of
        Some (meta, ml) \<Rightarrow> update_catalog (add_replica now key shard_id (om_size meta) ml) c
      | None \<Rightarrow>
          (case on_slot (so_head D key) ref c of
             (Inr meta, c1) \<Rightarrow> update_catalog (add_replica now key shard_id (om_size meta) 0) c1
           | (Inl _, c1) \<Rightarrow> update_catalog (add_replica now key shard_id 0 0) c1))"

fun read_loop ::
  "('s, 'e) store_ops \<Rightarrow> int \<Rightarrow> ('s \<Rightarrow> ('e + 'r) \<times> 's) \<Rightarrow> string \<Rightarrow> bool \<Rightarrow> (nat \<times> store_ref) list \<Rightarrow> nat list \<Rightarrow>
     'e slot_error option \<Rightarrow> 's sharded \<Rightarrow> ('e shard_error + 'r) \<times> 's sharded" where
  "read_loop D now op key is_fallback [] corrupted last_err c =
     (Inl (case last_err of Some e \<Rightarrow> ShStore e | None \<Rightarrow> ShNotFound key), c)"
| "read_loop D now op key is_fallback ((shard_id, ref) # rest) corrupted last_err c =
     (case on_slot op ref c of
        (Inr result, c1) \<Rightarrow>
          (let c2 = (if is_fallback then restore_entry D now key shard_id ref c1 else c1)
           in (Inr result, fold (schedule_read_repair key shard_id) corrupted c2))
      | (Inl e, c1) \<Rightarrow>
          (case handle_read_error D shard_id key e c1 of (is_crc, c2) \<Rightarrow>
             read_loop D now op key is_fallback rest (if is_crc then corrupted @ [shard_id] else corrupted)
               (Some e) c2))"

definition read_with_fallback ::
  "('s, 'e) store_ops \<Rightarrow> int \<Rightarrow> ('s \<Rightarrow> ('e + 'r) \<times> 's) \<Rightarrow> string \<Rightarrow> 's sharded \<Rightarrow> ('e shard_error + 'r) \<times> 's sharded" where
  "read_with_fallback D now op location c =
     (if is_delete_marker location then (Inl (ShNotFound location), c)
      else case resolve_shards D location c of
        ((shard_ids, is_fallback), c1) \<Rightarrow>
          read_loop D now op location is_fallback (stores_of c1 shard_ids) [] None c1)"

definition sharded_get ::
  "('s, 'e) store_ops \<Rightarrow> int \<Rightarrow> string \<Rightarrow> 's sharded \<Rightarrow> ('e shard_error + ('e + byte list)) \<times> 's sharded" where
  "sharded_get D now location c = read_with_fallback D now (so_get D None location) location c"

definition sharded_get_opts ::
  "('s, 'e) store_ops \<Rightarrow> int \<Rightarrow> get_range option \<Rightarrow> string \<Rightarrow> 's sharded \<Rightarrow>
     ('e shard_error + ('e + byte list)) \<times> 's sharded" where
  "sharded_get_opts D now rng location c = read_with_fallback D now (so_get D rng location) location c"

definition sharded_get_range ::
  "('s, 'e) store_ops \<Rightarrow> int \<Rightarrow> nat \<Rightarrow> nat \<Rightarrow> string \<Rightarrow> 's sharded \<Rightarrow> ('e shard_error + byte list) \<times> 's sharded" where
  "sharded_get_range D now r_start r_end location c =
     read_with_fallback D now (so_get_range D r_start r_end location) location c"

text \<open>\<open>get_raw\<close> and \<open>head_raw\<close> differ from the public reads: no marker filter, no checksum handling.\<close>

fun first_ok ::
  "('s \<Rightarrow> ('e + 'r) \<times> 's) \<Rightarrow> (nat \<Rightarrow> store_ref \<Rightarrow> 'r \<Rightarrow> 's sharded \<Rightarrow> 's sharded) \<Rightarrow> string \<Rightarrow> (nat \<times> store_ref) list \<Rightarrow>
     'e slot_error option \<Rightarrow> 's sharded \<Rightarrow> ('e shard_error + 'r) \<times> 's sharded" where
  "first_ok op hit key [] last_err c = (Inl (case last_err of Some e \<Rightarrow> ShStore e | None \<Rightarrow> ShNotFound key), c)"
| "first_ok op hit key ((shard_id, ref) # rest) last_err c =
     (case on_slot op ref c of
        (Inr r, c1) \<Rightarrow> (Inr r, hit shard_id ref r c1)
      | (Inl e, c1) \<Rightarrow> first_ok op hit key rest (Some e) c1)"

definition get_raw_sharded ::
  "('s, 'e) store_ops \<Rightarrow> int \<Rightarrow> string \<Rightarrow> 's sharded \<Rightarrow> ('e shard_error + ('e + byte list)) \<times> 's sharded" where
  "get_raw_sharded D now location c =
     (case resolve_shards D location c of ((shard_ids, is_fallback), c1) \<Rightarrow>
        first_ok (so_get D None location)
          (\<lambda>shard_id ref _ c2. if is_fallback then
             (case on_slot (so_head D location) ref c2 of (r, c3) \<Rightarrow>
                update_catalog (add_replica now location shard_id (case r of Inr m \<Rightarrow> om_size m | Inl _ \<Rightarrow> 0) 0) c3)
             else c2)
          location (stores_of c1 shard_ids) None c1)"

definition head_raw_sharded ::
  "('s, 'e) store_ops \<Rightarrow> int \<Rightarrow> string \<Rightarrow> 's sharded \<Rightarrow> ('e shard_error + object_meta) \<times> 's sharded" where
  "head_raw_sharded D now location c =
     (case resolve_shards D location c of ((shard_ids, is_fallback), c1) \<Rightarrow>
        first_ok (so_head D location)
          (\<lambda>shard_id ref meta c2. if is_fallback
             then update_catalog (add_replica now location shard_id (om_size meta) 0) c2 else c2)
          location (stores_of c1 shard_ids) None c1)"

definition sharded_head ::
  "('s, 'e) store_ops \<Rightarrow> int \<Rightarrow> string \<Rightarrow> 's sharded \<Rightarrow> ('e shard_error + object_meta) \<times> 's sharded" where
  "sharded_head D now location c =
     (if is_delete_marker location then (Inl (ShNotFound location), c)
      else case resolve_shards D location c of ((shard_ids, is_fallback), c1) \<Rightarrow>
        first_ok (so_head D location)
          (\<lambda>shard_id ref meta c2. if is_fallback
             then update_catalog (add_replica now location shard_id (om_size meta)
                    (case raw_hit D location shard_id c2 of Some (_, ml) \<Rightarrow> ml | None \<Rightarrow> 0)) c2
             else c2)
          location (stores_of c1 shard_ids) None c1)"

section \<open>Delete and listings\<close>

definition sharded_delete ::
  "('s, 'e) store_ops \<Rightarrow> int \<Rightarrow> string \<Rightarrow> 's sharded \<Rightarrow> ('e shard_error + unit) \<times> 's sharded" where
  "sharded_delete D now location c =
     (if sh_read_only c then (Inl ShReadOnly, c)
      else if is_delete_marker location then delete_raw D location c
      else case put_delete_marker D now location c of
        (Inl e, c1) \<Rightarrow> (Inl e, c1)
      | (Inr _, c1) \<Rightarrow> delete_raw D location c1)"

definition sharded_list :: "('s, 'e) store_ops \<Rightarrow> string option \<Rightarrow> 's sharded \<Rightarrow> object_meta list" where
  "sharded_list D pfx c =
     filter (\<lambda>m. \<not> is_delete_marker (om_location m)) (catalog_list (so_path D) pfx (sh_catalog c))"

definition common_prefix :: "string \<Rightarrow> string \<Rightarrow> string option" where
  "common_prefix prefix_str path_str =
     (let relative = dropWhile (\<lambda>ch. ch = CHR ''/'')
            (case strip_prefix prefix_str path_str of Some r \<Rightarrow> r | None \<Rightarrow> path_str)
      in case position (\<lambda>ch. ch = CHR ''/'') relative of
           None \<Rightarrow> None
         | Some slash_pos \<Rightarrow>
             Some (if prefix_str = [] then take slash_pos relative @ ''/''
                   else rev (dropWhile (\<lambda>ch. ch = CHR ''/'') (rev prefix_str)) @ ''/'' @ take slash_pos relative @ ''/''))"

definition sharded_list_with_delimiter ::
  "('s, 'e) store_ops \<Rightarrow> string option \<Rightarrow> 's sharded \<Rightarrow> string list \<times> object_meta list" where
  "sharded_list_with_delimiter D pfx c =
     (let all = sharded_list D pfx c; prefix_str = (case pfx of Some p \<Rightarrow> p | None \<Rightarrow> [])
      in (map (so_path D) (sort_str id (remdups (List.map_filter (\<lambda>m. common_prefix prefix_str (om_location m)) all))),
          filter (\<lambda>m. common_prefix prefix_str (om_location m) = None) all))"

section \<open>Vacuum of delete markers\<close>

definition get_delete_marker ::
  "('s, 'e) store_ops \<Rightarrow> int \<Rightarrow> string \<Rightarrow> 's sharded \<Rightarrow> int option \<times> 's sharded" where
  "get_delete_marker D now key c =
     (case get_raw_sharded D now (so_path D (delete_marker_key key)) c of
        (Inr (Inr data), c1) \<Rightarrow> (so_parse_rfc3339 D data, c1)
      | (_, c1) \<Rightarrow> (None, c1))"

fun read_markers ::
  "('s, 'e) store_ops \<Rightarrow> int \<Rightarrow> string list \<Rightarrow> 's sharded \<Rightarrow> (string \<times> int) list \<times> 's sharded" where
  "read_markers D now [] c = ([], c)"
| "read_markers D now (key # keys) c =
     (case get_delete_marker D now key c of (ts, c1) \<Rightarrow>
        (case read_markers D now keys c1 of (ms, c2) \<Rightarrow>
           (case ts of Some t \<Rightarrow> ((key, t) # ms, c2) | None \<Rightarrow> (ms, c2))))"

definition list_delete_markers ::
  "('s, 'e) store_ops \<Rightarrow> int \<Rightarrow> 's sharded \<Rightarrow> (string \<times> int) list \<times> 's sharded" where
  "list_delete_markers D now c =
     read_markers D now
       (List.map_filter (\<lambda>m. strip_prefix DELETE_MARKER_PREFIX (om_location m))
         (catalog_list (so_path D) (Some (so_path D DELETE_MARKER_PREFIX)) (sh_catalog c))) c"

fun vacuum_loop ::
  "('s, 'e) store_ops \<Rightarrow> int \<Rightarrow> (string \<times> int) list \<Rightarrow> nat \<Rightarrow> nat \<Rightarrow> 's sharded \<Rightarrow> (nat \<times> nat) \<times> 's sharded" where
  "vacuum_loop D now [] purged cleaned c = ((purged, cleaned), c)"
| "vacuum_loop D now ((key, deleted_at) # markers) purged cleaned c =
     (let path = so_path D key in
      case head_raw_sharded D now path c of
        (Inr meta, c1) \<Rightarrow>
          (if om_last_modified meta > deleted_at
           then vacuum_loop D now markers (purged + 1) cleaned (snd (remove_delete_marker D key c1))
           else vacuum_loop D now markers (purged + 1) (cleaned + 1)
                  (snd (remove_delete_marker D key (snd (delete_raw D path c1)))))
      | (Inl _, c1) \<Rightarrow> vacuum_loop D now markers (purged + 1) cleaned (snd (remove_delete_marker D key c1)))"

definition vacuum_delete_markers_inner ::
  "('s, 'e) store_ops \<Rightarrow> int \<Rightarrow> 's sharded \<Rightarrow> ('e shard_error + (nat \<times> nat)) \<times> 's sharded" where
  "vacuum_delete_markers_inner D now c =
     (case position (\<lambda>s. is_unavailable (si_health s) \<or> si_health s = Degraded) (sh_shards c) of
        Some idx \<Rightarrow> (Inl (VacuumOfflineShard idx), c)
      | None \<Rightarrow>
          (case list_delete_markers D now c of (markers, c1) \<Rightarrow>
             (case vacuum_loop D now markers 0 0 c1 of (r, c2) \<Rightarrow> (Inr r, c2))))"

definition vacuum_delete_markers ::
  "('s, 'e) store_ops \<Rightarrow> int \<Rightarrow> 's sharded \<Rightarrow> ('e shard_error + (nat \<times> nat)) \<times> 's sharded" where
  "vacuum_delete_markers D now c =
     (if sh_vacuum_in_progress c then (Inl VacuumAlreadyRunning, c)
      else
        (case vacuum_delete_markers_inner D now (c\<lparr>sh_vacuum_in_progress := True\<rparr>) of
           (r, c1) \<Rightarrow> (r, c1\<lparr>sh_vacuum_in_progress := False\<rparr>)))"

end
