(* ===== verification/Sharded_Ops.thy ===== *)
theory Sharded_Ops
  imports Sharded_Store
begin

text \<open>
  The contract that the sharded store needs of a shard's \<open>ObjectStore\<close>, as a locale, and what the
  fan-out writes, the raw delete, the reads and the public operations do to the contents of the
  shards and to the catalog when every shard keeps the contract.
\<close>

section \<open>The contract of a shard\<close>

text \<open>
  \<open>holds s A\<close>: the store in state \<open>s\<close> has the objects \<open>A\<close>. A put or delete that fails changes
  nothing, a not-found error of a delete is true, and the bytes that a full get delivers are those
  of the object. Payloads are Rust buffers, shorter than \<open>2 ^ 63\<close> bytes.
\<close>

locale shard_store =
  fixes D :: "('s, 'e) store_ops" and holds :: "'s \<Rightarrow> (string \<rightharpoonup> byte list) \<Rightarrow> bool"
  assumes put_law: "holds s A \<Longrightarrow> length d < 2 ^ 63 \<Longrightarrow> so_put D now k d s = (r, s') \<Longrightarrow>
      holds s' (if is_ok r then A(k \<mapsto> d) else A)"
    and delete_law: "holds s A \<Longrightarrow> so_delete D k s = (r, s') \<Longrightarrow>
      holds s' (if is_ok r then A(k := None) else A) \<and> (\<forall>e. r = Inl e \<and> so_not_found D e \<longrightarrow> A k = None)"
    and get_law: "holds s A \<Longrightarrow> so_get D rng k s = (rg, s') \<Longrightarrow>
      holds s' A \<and> (\<forall>d. rng = None \<and> rg = Inr (Inr d) \<longrightarrow> A k = Some d)"
    and head_law: "holds s A \<Longrightarrow> so_head D k s = (rh, s') \<Longrightarrow> holds s' A"

section \<open>Frames\<close>

definition slots :: "'s sharded \<Rightarrow> store_ref list" where
  "slots c = map si_store (sh_shards c)"

text \<open>What no object operation changes: the shards' stores and the configuration.\<close>

definition frame :: "'s sharded \<Rightarrow> 's sharded \<Rightarrow> bool" where
  "frame c c' \<longleftrightarrow> slots c' = slots c \<and> sh_replication c' = sh_replication c \<and> sh_min_writes c' = sh_min_writes c \<and>
     sh_read_only c' = sh_read_only c \<and> sh_delete_requires_min_writes c' = sh_delete_requires_min_writes c \<and>
     sh_raw_refs c' = sh_raw_refs c \<and> sh_read_preference c' = sh_read_preference c"

definition same_except :: "string set \<Rightarrow> (nat \<Rightarrow> string \<rightharpoonup> byte list) \<Rightarrow> (nat \<Rightarrow> string \<rightharpoonup> byte list) \<Rightarrow> bool" where
  "same_except K H H' \<longleftrightarrow> (\<forall>a k. k \<notin> K \<longrightarrow> H' a k = H a k)"

lemma frame_refl [simp]: "frame c c"
  by (simp add: frame_def)

lemma frame_trans: "frame c d \<Longrightarrow> frame d e \<Longrightarrow> frame c e"
  by (simp add: frame_def)

lemma frame_heap [simp]: "frame c (d\<lparr>sh_heap := h\<rparr>) = frame c d" "frame (c\<lparr>sh_heap := h\<rparr>) d = frame c d"
  by (simp_all add: frame_def slots_def)

lemma frame_catalog [simp]: "frame c (update_catalog f d) = frame c d"
  by (simp add: frame_def slots_def update_catalog_def)

lemma frame_length: "frame c c' \<Longrightarrow> length (sh_shards c') = length (sh_shards c)"
  by (metis frame_def length_map slots_def)

lemma slots_nth: "sid < length (sh_shards c) \<Longrightarrow> slots c ! sid = si_store (sh_shards c ! sid)"
  by (simp add: slots_def)

lemma same_except_refl [simp]: "same_except K H H"
  by (simp add: same_except_def)

lemma same_except_trans: "same_except K H H1 \<Longrightarrow> same_except L H1 H2 \<Longrightarrow> same_except (K \<union> L) H H2"
  by (simp add: same_except_def)

lemma same_except_mono: "same_except K H H' \<Longrightarrow> K \<subseteq> L \<Longrightarrow> same_except L H H'"
  by (auto simp: same_except_def)

lemma update_shard_keeps:
  assumes "\<And>s. si_store (f s) = si_store s"
  shows "frame c (update_shard sid f c)" "sh_catalog (update_shard sid f c) = sh_catalog c"
    "sh_heap (update_shard sid f c) = sh_heap c"
proof -
  have "map si_store ((sh_shards c)[sid := f (sh_shards c ! sid)]) = map si_store (sh_shards c)"
    by (metis assms list_update_id map_update list_update_beyond linorder_not_le nth_map)
  then show "frame c (update_shard sid f c)" "sh_catalog (update_shard sid f c) = sh_catalog c"
    "sh_heap (update_shard sid f c) = sh_heap c"
    by (simp_all add: update_shard_def frame_def slots_def)
qed

lemma health_change_store [simp]: "si_store (health_change now h s) = si_store s"
  by (simp add: health_change_def Let_def)

lemma mark_keeps:
  "frame c (mark_offline now sid c)" "sh_catalog (mark_offline now sid c) = sh_catalog c"
  "sh_heap (mark_offline now sid c) = sh_heap c"
  "frame c (mark_degraded now sid c)" "sh_catalog (mark_degraded now sid c) = sh_catalog c"
  "sh_heap (mark_degraded now sid c) = sh_heap c"
  by (simp_all add: mark_offline_def mark_degraded_def set_shard_health_def update_shard_keeps)

lemma fold_mark_keeps:
  "frame c (fold (mark_offline now) sids c) \<and> sh_catalog (fold (mark_offline now) sids c) = sh_catalog c \<and>
   sh_heap (fold (mark_offline now) sids c) = sh_heap c"
  "frame c (fold (mark_degraded now) sids c) \<and> sh_catalog (fold (mark_degraded now) sids c) = sh_catalog c \<and>
   sh_heap (fold (mark_degraded now) sids c) = sh_heap c"
  by (induction sids arbitrary: c; simp; metis frame_trans mark_keeps)+

lemma mark_write_failures_keeps:
  assumes "mark_write_failures D now placed failed tried loc c = (ids, c')"
  shows "frame c c' \<and> sh_catalog c' = sh_catalog c \<and> sh_heap c' = sh_heap c \<and> distinct ids"
  using assms fold_mark_keeps [of c now failed] select_targets_spec(1) [of D loc]
  by (auto simp: mark_write_failures_def Let_def split: if_splits)

definition heap_rep ::
  "('s \<Rightarrow> (string \<rightharpoonup> byte list) \<Rightarrow> bool) \<Rightarrow> 's sharded \<Rightarrow> (nat \<Rightarrow> string \<rightharpoonup> byte list) \<Rightarrow> bool" where
  "heap_rep holds c H \<longleftrightarrow> (\<forall>a. holds (sh_heap c a) (H a))"

text \<open>The object that a shard has under a key.\<close>

definition stored :: "'s sharded \<Rightarrow> (nat \<Rightarrow> string \<rightharpoonup> byte list) \<Rightarrow> nat \<Rightarrow> string \<rightharpoonup> byte list" where
  "stored c H sid k =
     (if sid < length (sh_shards c)
      then case slots c ! sid of StoreAt a \<Rightarrow> H a k | Placeholder _ \<Rightarrow> None
      else None)"

lemma stored_frame: "frame c c' \<Longrightarrow> stored c' H = stored c H"
  using frame_length [of c c'] by (auto simp: fun_eq_iff stored_def frame_def)

lemma stored_same: "same_except K H H' \<Longrightarrow> k \<notin> K \<Longrightarrow> stored c H' sid k = stored c H sid k"
  by (simp add: stored_def same_except_def split: store_ref.splits)

lemma stores_of_slots: "stores_of c ids = map (\<lambda>sid. (sid, slots c ! sid)) (filter (\<lambda>sid. sid < length (sh_shards c)) ids)"
  by (simp add: stores_of_def slots_nth cong: map_cong)

lemma oks_simps [simp]: "oks [] = []" "oks ((sid, r) # rs) = (if is_ok r then sid # oks rs else oks rs)"
  by (simp_all add: oks_def)

lemma errs_simps [simp]:
  "errs [] = []" "errs ((sid, Inl e) # rs) = (sid, e) # errs rs" "errs ((sid, Inr x) # rs) = errs rs"
  by (simp_all add: errs_def)

lemma oks_subset: "set (oks rs) \<subseteq> set (map fst rs)" and distinct_oks: "distinct (map fst rs) \<Longrightarrow> distinct (oks rs)"
  by (auto simp: oks_def distinct_map_filter)

definition heap_only :: "'s sharded \<Rightarrow> 's sharded \<Rightarrow> bool" where
  "heap_only c c' \<longleftrightarrow> (\<exists>h. c' = c\<lparr>sh_heap := h\<rparr>)"

lemma heap_only_refl [simp]: "heap_only c c"
  unfolding heap_only_def by (rule exI [of _ "sh_heap c"]) simp

lemma heap_only_trans: "heap_only c d \<Longrightarrow> heap_only d e \<Longrightarrow> heap_only c e"
  by (auto simp: heap_only_def)

lemma heap_only_keeps:
  "heap_only c c' \<Longrightarrow> frame c c' \<and> sh_catalog c' = sh_catalog c \<and> sh_shards c' = sh_shards c \<and> sh_raw_refs c' = sh_raw_refs c"
  by (auto simp: heap_only_def)

text \<open>A call on a shard changes that shard's store only.\<close>

lemma on_slot_frame: "on_slot f ref c = (r, c') \<Longrightarrow> heap_only c c'"
  by (auto simp: on_slot_def heap_only_def split: store_ref.splits prod.splits intro: exI [of _ "sh_heap c"])

text \<open>
  Deletions: \<open>shrinks\<close> relates contents before and after calls that only remove objects under the
  keys \<open>K\<close>; \<open>gone\<close> are the outcomes of a delete that count as success.
\<close>

definition shrinks :: "string set \<Rightarrow> (nat \<Rightarrow> string \<rightharpoonup> byte list) \<Rightarrow> (nat \<Rightarrow> string \<rightharpoonup> byte list) \<Rightarrow> bool" where
  "shrinks K H H' \<longleftrightarrow> same_except K H H' \<and> (\<forall>a k. H' a k = H a k \<or> H' a k = None)"

lemma shrinks_refl: "shrinks K H H"
  by (simp add: shrinks_def)

lemma shrinks_trans:
  assumes "shrinks K H H1" and "shrinks K H1 H2"
  shows "shrinks K H H2"
proof -
  have "H2 a k = H a k \<or> H2 a k = None" for a k
    using assms unfolding shrinks_def by metis
  with assms show ?thesis by (simp add: shrinks_def same_except_def)
qed

lemma shrinks_None: "shrinks K H H' \<Longrightarrow> H a k = None \<Longrightarrow> H' a k = None"
  unfolding shrinks_def by metis

lemma shrinks_delete: "k \<in> K \<Longrightarrow> shrinks K H (\<lambda>a. if P a then (H a)(k := None) else H a)"
  by (simp add: shrinks_def same_except_def)

lemma shrinks_mono: "shrinks K H H' \<Longrightarrow> K \<subseteq> L \<Longrightarrow> shrinks L H H'"
  by (meson same_except_mono shrinks_def)

definition gone :: "('s, 'e) store_ops \<Rightarrow> 'e slot_error + unit \<Rightarrow> bool" where
  "gone D r \<longleftrightarrow> (case r of Inr _ \<Rightarrow> True | Inl e \<Rightarrow> slot_not_found D e)"

context shard_store
begin

lemma on_slot_put:
  assumes "heap_rep holds c H" and "length d < 2 ^ 63" and "on_slot (so_put D now k d) ref c = (r, c')"
  shows "heap_rep holds c' (\<lambda>a. if is_ok r \<and> ref = StoreAt a then (H a)(k \<mapsto> d) else H a)"
    and "is_ok r \<Longrightarrow> \<exists>a. ref = StoreAt a"
  using assms put_law [OF _ assms(2)]
  by (auto simp: on_slot_def heap_rep_def split: store_ref.splits prod.splits sum.splits) fastforce+

lemma on_slot_delete:
  assumes "heap_rep holds c H" and "on_slot (so_delete D k) ref c = (r, c')"
  shows "heap_rep holds c' (\<lambda>a. if is_ok r \<and> ref = StoreAt a then (H a)(k := None) else H a)"
    and "r = Inl e \<Longrightarrow> slot_not_found D e \<Longrightarrow> ref = StoreAt a \<Longrightarrow> H a k = None"
  using assms delete_law
  by (auto simp: on_slot_def heap_rep_def slot_not_found_def split: store_ref.splits prod.splits sum.splits) fastforce+

lemma fan_put_spec:
  assumes "heap_rep holds c H" and "length data < 2 ^ 63"
    and "fan_out (\<lambda>_. on_slot (so_put D now loc data)) stores c = (rs, c')" and "distinct (map fst stores)"
  shows "heap_only c c' \<and> map fst rs = map fst stores \<and>
    (\<exists>H'. heap_rep holds c' H' \<and> same_except {loc} H H' \<and>
      (\<forall>a. H' a loc = H a loc \<or> H' a loc = Some data) \<and>
      (\<forall>sid ref. (sid, ref) \<in> set stores \<and> sid \<in> set (oks rs) \<longrightarrow> (\<exists>a. ref = StoreAt a \<and> H' a loc = Some data)))"
  using assms
proof (induction stores arbitrary: c H rs)
  case Nil
  then show ?case by auto
next
  case (Cons st stores)
  obtain sid ref where st: "st = (sid, ref)" by (cases st)
  obtain r c1 where r: "on_slot (so_put D now loc data) ref c = (r, c1)" by fastforce
  obtain rs1 where rs1: "fan_out (\<lambda>_. on_slot (so_put D now loc data)) stores c1 = (rs1, c')" "rs = (sid, r) # rs1"
    using Cons.prems(3) r by (auto simp: st split: prod.splits)
  let ?H = "\<lambda>a. if is_ok r \<and> ref = StoreAt a then (H a)(loc \<mapsto> data) else H a"
  note put = on_slot_put [OF Cons.prems(1,2) r]
  from Cons.IH [OF put(1) Cons.prems(2) rs1(1)] Cons.prems(4) obtain H' where
    IH: "heap_only c1 c'" "map fst rs1 = map fst stores" "heap_rep holds c' H'"
      "same_except {loc} ?H H'" "\<forall>a. H' a loc = ?H a loc \<or> H' a loc = Some data"
      "\<forall>sid ref. (sid, ref) \<in> set stores \<and> sid \<in> set (oks rs1) \<longrightarrow> (\<exists>a. ref = StoreAt a \<and> H' a loc = Some data)"
    by (auto simp: st)
  have "same_except {loc} H ?H" by (simp add: same_except_def)
  with IH(4) have same: "same_except {loc} H H'" by (simp add: same_except_def)
  have vals: "\<forall>a. H' a loc = H a loc \<or> H' a loc = Some data" using IH(5) by (auto split: if_splits)
  have hit: "\<exists>a. ref = StoreAt a \<and> H' a loc = Some data" if "is_ok r"
  proof -
    from put(2) [OF that] obtain a where "ref = StoreAt a" ..
    with IH(5) [rule_format, of a] that show ?thesis by auto
  qed
  have "sid \<notin> set (oks rs1)" using IH(2) oks_subset [of rs1] Cons.prems(4) by (auto simp: st)
  with hit IH(6) Cons.prems(4) have "\<forall>sid' ref'. (sid', ref') \<in> set (st # stores) \<and> sid' \<in> set (oks rs) \<longrightarrow>
      (\<exists>a. ref' = StoreAt a \<and> H' a loc = Some data)"
    by (auto simp: st rs1(2) image_iff split: if_splits)
  moreover have "heap_only c c'" using on_slot_frame [OF r] IH(1) by (rule heap_only_trans)
  ultimately show ?case using IH(2,3) same vals by (auto simp: st rs1(2))
qed

lemma gone_delete:
  assumes "heap_rep holds c H" and "on_slot (so_delete D k) ref c = (r, c')"
  shows "\<exists>H'. heap_rep holds c' H' \<and> shrinks {k} H H' \<and> (\<forall>a. ref = StoreAt a \<and> gone D r \<longrightarrow> H' a k = None)"
proof -
  let ?H = "\<lambda>a. if is_ok r \<and> ref = StoreAt a then (H a)(k := None) else H a"
  have "\<forall>a. ref = StoreAt a \<and> gone D r \<longrightarrow> ?H a k = None"
    using on_slot_delete(2) [OF assms] by (cases r) (auto simp: gone_def)
  moreover have "shrinks {k} H ?H" by (rule shrinks_delete) simp
  ultimately show ?thesis using on_slot_delete(1) [OF assms] by (intro exI [of _ ?H] conjI)
qed

lemma delete_then_sidecar:
  assumes "heap_rep holds c H" and "on_slot (so_delete D loc) ref c = (r, c1)"
  shows "heap_only c (cleanup_sidecar D loc kind ref c1) \<and>
    (\<exists>H'. heap_rep holds (cleanup_sidecar D loc kind ref c1) H' \<and> shrinks {loc, meta_sidecar_path D loc} H H' \<and>
      (\<forall>a. ref = StoreAt a \<and> gone D r \<longrightarrow> H' a loc = None))"
proof -
  from gone_delete [OF assms] obtain H1 where H1: "heap_rep holds c1 H1" "shrinks {loc} H H1"
    "\<forall>a. ref = StoreAt a \<and> gone D r \<longrightarrow> H1 a loc = None" by blast
  obtain r2 c2 where d2: "on_slot (so_delete D (meta_sidecar_path D loc)) ref c1 = (r2, c2)" by fastforce
  from gone_delete [OF H1(1) d2] obtain H2 where H2: "heap_rep holds c2 H2" "shrinks {meta_sidecar_path D loc} H1 H2"
    by blast
  have s: "shrinks {loc, meta_sidecar_path D loc} H H1" "shrinks {loc, meta_sidecar_path D loc} H1 H2"
    using H1(2) H2(2) by (auto elim: shrinks_mono)
  show ?thesis
  proof (cases "kind = Sidecar")
    case True
    then have "cleanup_sidecar D loc kind ref c1 = c2" by (simp add: cleanup_sidecar_def d2)
    then show ?thesis
      using heap_only_trans [OF on_slot_frame [OF assms(2)] on_slot_frame [OF d2]] H2(1)
        shrinks_trans [OF s] H1(3) shrinks_None [OF s(2)] by metis
  next
    case False
    then show ?thesis
      using on_slot_frame [OF assms(2)] H1 s(1) by (auto simp: cleanup_sidecar_def)
  qed
qed

lemma sidecar_then_delete:
  assumes "heap_rep holds c H"
    and "on_slot (so_delete D loc) ref (cleanup_sidecar_maybe D loc refs sid ref c) = (r, c')"
  shows "heap_only c c' \<and>
    (\<exists>H'. heap_rep holds c' H' \<and> shrinks {loc, meta_sidecar_path D loc} H H' \<and>
      (\<forall>a. ref = StoreAt a \<and> gone D r \<longrightarrow> H' a loc = None))"
proof -
  obtain r1 c1 where d1: "on_slot (so_delete D (meta_sidecar_path D loc)) ref c = (r1, c1)" by fastforce
  let ?c = "cleanup_sidecar_maybe D loc refs sid ref c"
  have c: "?c = c1 \<or> ?c = c" by (auto simp: cleanup_sidecar_maybe_def d1)
  from gone_delete [OF assms(1) d1] obtain H1 where "heap_rep holds c1 H1" "shrinks {meta_sidecar_path D loc} H H1"
    by blast
  then obtain H2 where H2: "heap_rep holds ?c H2" "shrinks {loc, meta_sidecar_path D loc} H H2" "heap_only c ?c"
    using c assms(1) on_slot_frame [OF d1] shrinks_refl shrinks_mono
    by (metis heap_only_refl insertCI subset_insertI)
  from gone_delete [OF H2(1) assms(2)] obtain H' where
    "heap_rep holds c' H'" "shrinks {loc} H2 H'" "\<forall>a. ref = StoreAt a \<and> gone D r \<longrightarrow> H' a loc = None" by blast
  moreover from this(2) have "shrinks {loc, meta_sidecar_path D loc} H2 H'" by (auto elim: shrinks_mono)
  ultimately show ?thesis
    using heap_only_trans [OF H2(3) on_slot_frame [OF assms(2)]] shrinks_trans [OF H2(2)] by blast
qed

lemma fan_delete_spec:
  assumes step: "\<And>sid ref c H r c'. heap_rep holds c H \<Longrightarrow> f sid ref c = (r, c') \<Longrightarrow> heap_only c c' \<and>
      (\<exists>H'. heap_rep holds c' H' \<and> shrinks K H H' \<and> (\<forall>a. ref = StoreAt a \<and> gone D r \<longrightarrow> H' a loc = None))"
    and "heap_rep holds c H" and "fan_out f stores c = (rs, c')"
  shows "heap_only c c' \<and> map fst rs = map fst stores \<and>
    (\<exists>H'. heap_rep holds c' H' \<and> shrinks K H H' \<and>
      (\<forall>i a. i < length stores \<and> snd (stores ! i) = StoreAt a \<and> gone D (snd (rs ! i)) \<longrightarrow> H' a loc = None))"
  using assms(2,3)
proof (induction stores arbitrary: c H rs)
  case Nil
  then show ?case using shrinks_refl by (auto intro: exI [of _ H])
next
  case (Cons st stores)
  obtain sid ref where st: "st = (sid, ref)" by (cases st)
  obtain r c1 where r: "f sid ref c = (r, c1)" by fastforce
  obtain rs1 where rs1: "fan_out f stores c1 = (rs1, c')" "rs = (sid, r) # rs1"
    using Cons.prems(2) r by (auto simp: st split: prod.splits)
  from step [OF Cons.prems(1) r] obtain H1 where H1: "heap_only c c1" "heap_rep holds c1 H1" "shrinks K H H1"
    "\<forall>a. ref = StoreAt a \<and> gone D r \<longrightarrow> H1 a loc = None" by blast
  from Cons.IH [OF H1(2) rs1(1)] obtain H' where H': "heap_only c1 c'" "map fst rs1 = map fst stores"
    "heap_rep holds c' H'" "shrinks K H1 H'"
    "\<forall>i a. i < length stores \<and> snd (stores ! i) = StoreAt a \<and> gone D (snd (rs1 ! i)) \<longrightarrow> H' a loc = None" by blast
  have "\<forall>i a. i < length (st # stores) \<and> snd ((st # stores) ! i) = StoreAt a \<and> gone D (snd (rs ! i)) \<longrightarrow> H' a loc = None"
    using H1(4) H'(5) shrinks_None [OF H'(4)] by (auto simp: st rs1(2) nth_Cons split: nat.splits)
  with H'(2,3) heap_only_trans [OF H1(1) H'(1)] shrinks_trans [OF H1(3) H'(4)] show ?case
    by (auto simp: st rs1(2))
qed

lemma cleanup_orphaned_spec:
  assumes "heap_rep holds c H"
  shows "heap_only c (cleanup_orphaned_writes D loc placed c) \<and>
    (\<exists>H'. heap_rep holds (cleanup_orphaned_writes D loc placed c) H' \<and> shrinks {loc, meta_sidecar_path D loc} H H' \<and>
      (catalog_get (sh_catalog c) loc \<noteq> None \<longrightarrow> H' = H))"
proof (cases "catalog_get (sh_catalog c) loc = None")
  case True
  let ?f = "\<lambda>sid ref c1. case on_slot (so_delete D loc) ref c1 of (body_res, c2) \<Rightarrow>
      (body_res, cleanup_sidecar D loc (case sh_raw_refs c of Some r \<Rightarrow> rr_kind r sid | None \<Rightarrow> Sidecar) ref c2)"
  obtain rs c' where f: "fan_out ?f (stores_of c placed) c = (rs, c')" by fastforce
  have "heap_only c c' \<and> (\<exists>H'. heap_rep holds c' H' \<and> shrinks {loc, meta_sidecar_path D loc} H H')"
    using fan_delete_spec [OF _ assms f, of "{loc, meta_sidecar_path D loc}" loc] delete_then_sidecar
    by (fastforce split: prod.splits)
  with True f show ?thesis by (simp add: cleanup_orphaned_writes_def)
next
  case False
  then show ?thesis using assms shrinks_refl by (auto simp: cleanup_orphaned_writes_def)
qed

end

text \<open>
  What a write attempt leaves under its key: on every shard the old object, the new one or, where an
  orphaned new object was cleaned up, none; \<open>none\<close> only for keys without a catalog entry.
\<close>

definition attempted ::
  "('s, 'e) store_ops \<Rightarrow> string \<Rightarrow> byte list \<Rightarrow> bool \<Rightarrow> (nat \<Rightarrow> string \<rightharpoonup> byte list) \<Rightarrow> (nat \<Rightarrow> string \<rightharpoonup> byte list) \<Rightarrow> bool" where
  "attempted D loc data known H H' \<longleftrightarrow>
     same_except {loc, meta_sidecar_path D loc} H H' \<and>
     (\<forall>a. H' a loc = H a loc \<or> H' a loc = Some data \<or> \<not> known \<and> H' a loc = None) \<and>
     (\<forall>a k. k \<noteq> loc \<longrightarrow> H' a k = H a k \<or> \<not> known \<and> H' a k = None)"

definition wrote :: "string \<Rightarrow> byte list \<Rightarrow> (nat \<Rightarrow> string \<rightharpoonup> byte list) \<Rightarrow> (nat \<Rightarrow> string \<rightharpoonup> byte list) \<Rightarrow> bool" where
  "wrote loc data H H' \<longleftrightarrow> same_except {loc} H H' \<and> (\<forall>a. H' a loc = H a loc \<or> H' a loc = Some data)"

lemma wrote_trans: "wrote loc data H H1 \<Longrightarrow> wrote loc data H1 H2 \<Longrightarrow> wrote loc data H H2"
  unfolding wrote_def same_except_def by metis

lemma wrote_attempted: "wrote loc data H H' \<Longrightarrow> attempted D loc data known H H'"
  by (auto simp: wrote_def attempted_def same_except_def)

lemma attempted_refl [simp]: "attempted D loc data known H H"
  by (simp add: attempted_def)

lemma attempted_D:
  assumes "attempted D loc data known H H'"
  shows "k \<notin> {loc, meta_sidecar_path D loc} \<Longrightarrow> H' a k = H a k"
    and "H' a loc = H a loc \<or> H' a loc = Some data \<or> \<not> known \<and> H' a loc = None"
    and "k \<noteq> loc \<Longrightarrow> H' a k = H a k \<or> \<not> known \<and> H' a k = None"
  using assms unfolding attempted_def same_except_def by auto

lemma attemptedI:
  assumes "\<And>a k. k \<notin> {loc, meta_sidecar_path D loc} \<Longrightarrow> H' a k = H a k"
    and "\<And>a. H' a loc = H a loc \<or> H' a loc = Some data \<or> \<not> known \<and> H' a loc = None"
    and "\<And>a k. k \<noteq> loc \<Longrightarrow> H' a k = H a k \<or> \<not> known \<and> H' a k = None"
  shows "attempted D loc data known H H'"
  using assms unfolding attempted_def same_except_def by blast

lemma attempted_trans:
  assumes 1: "attempted D loc data known H H1" and 2: "attempted D loc data known H1 H2"
  shows "attempted D loc data known H H2"
proof (rule attemptedI)
  show "H2 a k = H a k" if "k \<notin> {loc, meta_sidecar_path D loc}" for a k
    using attempted_D(1) [OF 1 that] attempted_D(1) [OF 2 that] by simp
  show "H2 a loc = H a loc \<or> H2 a loc = Some data \<or> \<not> known \<and> H2 a loc = None" for a
    using attempted_D(2) [OF 1, of a] attempted_D(2) [OF 2, of a] by auto
  show "H2 a k = H a k \<or> \<not> known \<and> H2 a k = None" if "k \<noteq> loc" for a k
    using attempted_D(3) [OF 1 that, of a] attempted_D(3) [OF 2 that, of a] by auto
qed

lemma attempted_shrinks:
  assumes w: "wrote loc data H H1" and s: "shrinks {loc, meta_sidecar_path D loc} H1 H2" and k: "known \<Longrightarrow> H2 = H1"
  shows "attempted D loc data known H H2"
proof (rule attemptedI)
  have s': "H2 a k = H1 a k \<or> \<not> known \<and> H2 a k = None" for a k
    using s k unfolding shrinks_def by (cases known) auto
  have w': "k \<noteq> loc \<Longrightarrow> H1 a k = H a k" "H1 a loc = H a loc \<or> H1 a loc = Some data" for a k
    using w unfolding wrote_def same_except_def by auto
  show "H2 a k = H a k" if "k \<notin> {loc, meta_sidecar_path D loc}" for a k
    using that w'(1) [of k a] s unfolding shrinks_def same_except_def by auto
  show "H2 a loc = H a loc \<or> H2 a loc = Some data \<or> \<not> known \<and> H2 a loc = None" for a
    using s' [of a loc] w'(2) [of a] by auto
  show "H2 a k = H a k \<or> \<not> known \<and> H2 a k = None" if "k \<noteq> loc" for a k
    using s' [of a k] w'(1) [OF that, of a] by auto
qed

context shard_store
begin

lemma fan_put_placed:
  assumes "heap_rep holds c H" and "length data < 2 ^ 63" and "distinct ids"
    and "fan_put D now loc data ids c = (rs, c')"
  shows "heap_only c c' \<and> distinct (oks rs) \<and>
    (\<exists>H'. heap_rep holds c' H' \<and> wrote loc data H H' \<and> (\<forall>sid\<in>set (oks rs). stored c H' sid loc = Some data))"
proof -
  have d: "distinct (map fst (stores_of c ids))" using assms(3) by (simp add: stores_of_def comp_def)
  from fan_put_spec [OF assms(1,2) _ d, of now loc rs c'] assms(4) obtain H' where
    c': "heap_only c c'" "map fst rs = map fst (stores_of c ids)" and H': "heap_rep holds c' H'"
    "same_except {loc} H H'" "\<forall>a. H' a loc = H a loc \<or> H' a loc = Some data"
    "\<forall>sid ref. (sid, ref) \<in> set (stores_of c ids) \<and> sid \<in> set (oks rs) \<longrightarrow> (\<exists>a. ref = StoreAt a \<and> H' a loc = Some data)"
    by (auto simp: fan_put_def)
  have "stored c H' sid loc = Some data" if "sid \<in> set (oks rs)" for sid
  proof -
    from that oks_subset [of rs] have "sid \<in> set (map fst rs)" by blast
    then have sid: "sid < length (sh_shards c)" "(sid, slots c ! sid) \<in> set (stores_of c ids)"
      unfolding c'(2) by (auto simp: stores_of_slots)
    with H'(4) that obtain a where "slots c ! sid = StoreAt a" "H' a loc = Some data" by blast
    with sid(1) show ?thesis by (simp add: stored_def)
  qed
  moreover have "distinct (oks rs)" by (rule distinct_oks) (simp only: c'(2) d)
  ultimately show ?thesis using c'(1) H'(1-3) unfolding wrote_def by blast
qed

text \<open>The outcome of a fan-out write, from the state before it.\<close>

definition write_outcome ::
  "string \<Rightarrow> byte list \<Rightarrow> nat \<Rightarrow> 's sharded \<Rightarrow> (nat \<Rightarrow> string \<rightharpoonup> byte list) \<Rightarrow> 'e shard_error + nat list \<Rightarrow> 's sharded \<Rightarrow> bool" where
  "write_outcome loc data min_required c H r c' \<longleftrightarrow>
     frame c c' \<and> sh_catalog c' = sh_catalog c \<and>
     (\<exists>H'. heap_rep holds c' H' \<and> attempted D loc data (catalog_get (sh_catalog c) loc \<noteq> None) H H' \<and>
        (\<forall>placed. r = Inr placed \<longrightarrow> distinct placed \<and> min_required \<le> length placed \<and>
           (\<forall>sid\<in>set placed. stored c H' sid loc = Some data)))"

lemma enforce_min_spec:
  assumes "heap_rep holds c H1" and "frame c0 c" and "sh_catalog c = sh_catalog c0" and "wrote loc data H H1"
    and "distinct placed" and "\<forall>sid\<in>set placed. stored c0 H1 sid loc = Some data"
    and "enforce_min D loc m cl placed es c = (r, c')"
  shows "write_outcome loc data m c0 H r c'"
proof (cases "length placed < m")
  case True
  from cleanup_orphaned_spec [OF assms(1), of loc placed] obtain H2 where
    h: "heap_only c (cleanup_orphaned_writes D loc placed c)" "heap_rep holds (cleanup_orphaned_writes D loc placed c) H2"
    "shrinks {loc, meta_sidecar_path D loc} H1 H2" "catalog_get (sh_catalog c) loc \<noteq> None \<longrightarrow> H2 = H1" by blast
  have "attempted D loc data (catalog_get (sh_catalog c0) loc \<noteq> None) H H2"
    by (rule attempted_shrinks [OF assms(4) h(3)]) (use h(4) assms(3) in simp)
  with True assms h heap_only_keeps [OF h(1)] show ?thesis
    by (cases cl) (auto simp: write_outcome_def enforce_min_def intro: frame_trans wrote_attempted)
next
  case False
  with assms show ?thesis by (auto simp: write_outcome_def enforce_min_def intro: wrote_attempted)
qed

lemma write_inner_spec:
  assumes rep: "heap_rep holds c H" and len: "length data < 2 ^ 63" and d: "distinct targets"
    and run: "write_to_shards_inner D now loc data targets m cl c = (r, c')"
  shows "write_outcome loc data m c H r c'"
proof -
  obtain rs c1 where p1: "fan_put D now loc data targets c = (rs, c1)" by fastforce
  from fan_put_placed [OF rep len d p1] obtain H1 where h1: "heap_only c c1" "distinct (oks rs)" "heap_rep holds c1 H1"
    "wrote loc data H H1" "\<forall>sid\<in>set (oks rs). stored c H1 sid loc = Some data" by blast
  note k1 = heap_only_keeps [OF h1(1)]
  obtain ids c2 where m: "mark_write_failures D now (oks rs) (map fst (errs rs)) targets loc c1 = (ids, c2)" by fastforce
  note k2 = mark_write_failures_keeps [OF m]
  have c2: "heap_rep holds c2 H1" "frame c c2" "sh_catalog c2 = sh_catalog c"
    using h1(3) k1 k2 by (auto simp: heap_rep_def intro: frame_trans)
  show ?thesis
  proof (cases "oks rs = [] \<and> map fst (errs rs) \<noteq> []")
    case False
    then have run1: "enforce_min D loc m cl (oks rs) (map (\<lambda>(sid, e). (sid, False, e)) (errs rs)) c2 = (r, c')"
      using run unfolding write_to_shards_inner_def p1 prod.case Let_def if_not_P [OF False] m by simp
    show ?thesis by (rule enforce_min_spec [OF c2 h1(4,2,5) run1])
  next
    case True
    obtain rs2 c3 where p2: "fan_put D now loc data ids c2 = (rs2, c3)" by fastforce
    from fan_put_placed [OF c2(1) len _ p2] k2 obtain H2 where h2: "heap_only c2 c3" "distinct (oks rs2)"
      "heap_rep holds c3 H2" "wrote loc data H1 H2" "\<forall>sid\<in>set (oks rs2). stored c2 H2 sid loc = Some data" by blast
    have c3: "frame c c3" "sh_catalog c3 = sh_catalog c"
      using heap_only_keeps [OF h2(1)] c2 by (auto intro: frame_trans)
    have st: "\<forall>sid\<in>set (oks rs2). stored c H2 sid loc = Some data" using h2(5) stored_frame [OF c2(2)] by simp
    note w = wrote_trans [OF h1(4) h2(4)]
    let ?es = "map (\<lambda>(sid, e). (sid, False, e)) (errs rs) @ map (\<lambda>(sid, e). (sid, True, e)) (errs rs2)"
    have run2: "(if oks rs2 = [] then (Inl (AllReplicasFailed loc ?es), c3)
        else enforce_min D loc m cl (oks rs2) ?es c3) = (r, c')"
      using run unfolding write_to_shards_inner_def p1 prod.case Let_def if_P [OF True] m p2 .
    show ?thesis
    proof (cases "oks rs2 = []")
      case True
      with run2 c3 h2(3) w show ?thesis by (auto simp: write_outcome_def intro: wrote_attempted)
    next
      case False
      with run2 enforce_min_spec [OF h2(3) c3 w h2(2) st] show ?thesis by simp
    qed
  qed
qed

lemma write_to_shards_spec:
  assumes "heap_rep holds c H" and "length data < 2 ^ 63" and "distinct targets"
    and "write_to_shards D now loc data targets c = (r, c')"
  shows "write_outcome loc data (sh_min_writes c) c H r c'" and "r = Inr [] \<Longrightarrow> False"
proof -
  obtain r0 c0 where w: "write_to_shards_inner D now loc data targets (sh_min_writes c) True c = (r0, c0)" by fastforce
  from write_inner_spec [OF assms(1-3) w] assms(4) w
  show "write_outcome loc data (sh_min_writes c) c H r c'" "r = Inr [] \<Longrightarrow> False"
    by (auto simp: write_to_shards_def write_outcome_def split: sum.splits if_splits)
qed

end

section \<open>Raw delete\<close>

lemma catalog_remove_shard_other: "k' \<noteq> k \<Longrightarrow> catalog_get (catalog_remove_shard k sid c) k' = catalog_get c k'"
  by (simp add: catalog_remove_shard_def catalog_get_def Let_def hm_simps split: option.splits)

lemma fold_remove_shard_other:
  "k' \<noteq> k \<Longrightarrow> catalog_get (fold (catalog_remove_shard k) sids c) k' = catalog_get c k'"
  by (induction sids arbitrary: c) (simp_all add: catalog_remove_shard_other)

lemma available_candidates:
  "(case catalog_get (sh_catalog c) loc of
      Some e \<Rightarrow> filter (available c) (pe_shards e)
    | None \<Rightarrow> filter (available c) [0..<length (sh_shards c)]) = read_candidates c loc"
  by (auto simp: read_candidates_def available_def cong: filter_cong split: option.splits)

lemma distinct_candidates: "catalog_ok (sh_catalog c) \<Longrightarrow> distinct (read_candidates c loc)"
  using catalog_ok_entry [of "sh_catalog c" loc] by (auto simp: read_candidates_def split: option.splits)

text \<open>The catalog that a raw delete leaves: without the key, or without the shards that deleted it.\<close>

definition delete_catalog :: "('s, 'e) store_ops \<Rightarrow> string \<Rightarrow> (nat \<times> ('e slot_error + unit)) list \<Rightarrow> catalog \<Rightarrow> catalog" where
  "delete_catalog D loc outcomes cat =
     (if filter (delete_failed D) outcomes = [] then snd (catalog_remove loc cat)
      else fold (catalog_remove_shard loc) (map fst (filter (\<lambda>o'. \<not> delete_failed D o') outcomes)) cat)"

lemma delete_raw_cases:
  assumes "delete_raw D loc c = (r, c')"
  obtains outcomes c2 where
    "fan_out (\<lambda>sid ref c1. on_slot (so_delete D loc) ref (cleanup_sidecar_maybe D loc (sh_raw_refs c) sid ref c1))
       (stores_of c (read_candidates c loc)) c = (outcomes, c2)"
    "c' = update_catalog (delete_catalog D loc outcomes) c2"
    "is_ok r \<longleftrightarrow> filter (delete_failed D) outcomes = [] \<or>
       (if sh_delete_requires_min_writes c then sh_min_writes c \<le> length (filter (\<lambda>o'. \<not> delete_failed D o') outcomes)
        else filter (\<lambda>o'. \<not> delete_failed D o') outcomes \<noteq> [])"
proof -
  obtain outcomes c2 where f: "fan_out (\<lambda>sid ref c1. on_slot (so_delete D loc) ref
      (cleanup_sidecar_maybe D loc (sh_raw_refs c) sid ref c1)) (stores_of c (read_candidates c loc)) c = (outcomes, c2)"
    by fastforce
  show thesis
    by (rule that [OF f])
      (use assms in \<open>auto simp: delete_raw_def Let_def available_candidates f delete_catalog_def update_catalog_def
          split: if_splits\<close>)
qed

lemma delete_catalog_spec:
  assumes "catalog_ok cat"
  shows "catalog_ok (delete_catalog D loc outcomes cat)"
    and "k \<noteq> loc \<Longrightarrow> catalog_get (delete_catalog D loc outcomes cat) k = catalog_get cat k"
    and "holders (delete_catalog D loc outcomes cat) loc =
      (if filter (delete_failed D) outcomes = [] then {}
       else holders cat loc - fst ` {o' \<in> set outcomes. \<not> delete_failed D o'})"
  using cat.drop_all_spec [OF assms, of loc] catalog_remove_ok [OF assms]
  by (auto simp: delete_catalog_def fold_remove_shard_other)

context shard_store
begin

lemma delete_raw_spec:
  assumes rep: "heap_rep holds c H" and ok: "catalog_ok (sh_catalog c)" and run: "delete_raw D loc c = (r, c')"
  shows "frame c c' \<and> sh_shards c' = sh_shards c \<and> catalog_ok (sh_catalog c') \<and>
    (\<forall>k. k \<noteq> loc \<longrightarrow> catalog_get (sh_catalog c') k = catalog_get (sh_catalog c) k) \<and>
    holders (sh_catalog c') loc \<subseteq> holders (sh_catalog c) loc \<and>
    (\<exists>H'. heap_rep holds c' H' \<and> shrinks {loc, meta_sidecar_path D loc} H H' \<and>
      (\<forall>sid\<in>set (read_candidates c loc). stored c H' sid loc \<noteq> None \<longrightarrow>
         holders (sh_catalog c) loc = {} \<or> sid \<in> holders (sh_catalog c') loc))"
proof -
  from run obtain outcomes c2 where
    f: "fan_out (\<lambda>sid ref c1. on_slot (so_delete D loc) ref (cleanup_sidecar_maybe D loc (sh_raw_refs c) sid ref c1))
       (stores_of c (read_candidates c loc)) c = (outcomes, c2)"
    and c': "c' = update_catalog (delete_catalog D loc outcomes) c2" by (rule delete_raw_cases)
  let ?stores = "stores_of c (read_candidates c loc)"
  have "heap_only c c2 \<and> map fst outcomes = map fst ?stores \<and>
      (\<exists>H'. heap_rep holds c2 H' \<and> shrinks {loc, meta_sidecar_path D loc} H H' \<and>
        (\<forall>i a. i < length ?stores \<and> snd (?stores ! i) = StoreAt a \<and> gone D (snd (outcomes ! i)) \<longrightarrow> H' a loc = None))"
    by (rule fan_delete_spec [OF _ rep f]) (rule sidecar_then_delete)
  then obtain H' where
    h: "heap_only c c2" "map fst outcomes = map fst ?stores" "heap_rep holds c2 H'"
    "shrinks {loc, meta_sidecar_path D loc} H H'"
    "\<forall>i a. i < length ?stores \<and> snd (?stores ! i) = StoreAt a \<and> gone D (snd (outcomes ! i)) \<longrightarrow> H' a loc = None"
    by blast
  note k = heap_only_keeps [OF h(1)]
  have cat: "sh_catalog c' = delete_catalog D loc outcomes (sh_catalog c)"
    using k by (simp add: c' update_catalog_def)
  have hr: "heap_rep holds c' H'" using h(3) by (simp add: heap_rep_def c' update_catalog_def)
  have "sid \<in> holders (sh_catalog c') loc"
    if sid: "sid \<in> set (read_candidates c loc)" "stored c H' sid loc \<noteq> None" and ne: "holders (sh_catalog c) loc \<noteq> {}" for sid
  proof -
    have lt: "sid < length (sh_shards c)" using sid(1) by (simp add: read_candidates_def)
    with sid(1) have "sid \<in> set (map fst ?stores)" by (simp add: stores_of_slots)
    then obtain i where i: "i < length ?stores" "fst (?stores ! i) = sid" by (auto simp: in_set_conv_nth)
    then have ref: "snd (?stores ! i) = slots c ! sid" by (auto simp: stores_of_slots)
    have io: "i < length outcomes" "fst (outcomes ! i) = sid"
      using h(2) i by (metis length_map, metis length_map nth_map)
    have fail: "delete_failed D (outcomes ! i)"
      using h(5) i(1) ref sid(2) lt
      by (auto simp: stored_def gone_def delete_failed_def split: store_ref.splits sum.splits)
    have "distinct (map fst outcomes)"
      using distinct_candidates [OF ok] by (simp add: h(2) stores_of_slots comp_def)
    then have inj: "inj_on fst (set outcomes)" by (simp add: distinct_map)
    have "o' = outcomes ! i" if "o' \<in> set outcomes" "fst o' = sid" for o'
      using inj_onD [OF inj, of o' "outcomes ! i"] that io by simp
    with fail have "sid \<notin> fst ` {o' \<in> set outcomes. \<not> delete_failed D o'}" by blast
    moreover have "filter (delete_failed D) outcomes \<noteq> []"
      using fail io(1) by (auto simp: filter_empty_conv)
    moreover have "sid \<in> holders (sh_catalog c) loc"
      using sid(1) ne by (auto simp: read_candidates_def holders_def split: option.splits)
    ultimately show ?thesis by (simp add: cat delete_catalog_spec(3) [OF ok])
  qed
  then have "\<forall>sid\<in>set (read_candidates c loc). stored c H' sid loc \<noteq> None \<longrightarrow>
      holders (sh_catalog c) loc = {} \<or> sid \<in> holders (sh_catalog c') loc" by blast
  moreover have "frame c c'" "sh_shards c' = sh_shards c" using k by (simp_all add: c' update_catalog_def frame_def slots_def)
  moreover note dc = delete_catalog_spec [OF ok, where D = D and loc = loc and outcomes = outcomes]
  have "catalog_ok (sh_catalog c')" "\<forall>k. k \<noteq> loc \<longrightarrow> catalog_get (sh_catalog c') k = catalog_get (sh_catalog c) k"
    "holders (sh_catalog c') loc \<subseteq> holders (sh_catalog c) loc"
    unfolding cat using dc by auto
  ultimately show ?thesis using hr h(4) by blast
qed

end

section \<open>Put\<close>

text \<open>The entry that a successful put records.\<close>

definition put_entry :: "('s, 'e) store_ops \<Rightarrow> int \<Rightarrow> byte list \<Rightarrow> nat list \<Rightarrow> placement_entry" where
  "put_entry D now data placed =
     \<lparr>pe_shards = placed, pe_size = length data, pe_crc32c = Some (so_crc32c D data), pe_updated = now, pe_meta_len = 0\<rparr>"

definition marker_keys :: "('s, 'e) store_ops \<Rightarrow> string \<Rightarrow> string set" where
  "marker_keys D loc =
     {so_path D (delete_marker_key loc), meta_sidecar_path D (so_path D (delete_marker_key loc))}"

context shard_store
begin

definition put_outcome_sh ::
  "int \<Rightarrow> string \<Rightarrow> byte list \<Rightarrow> 's sharded \<Rightarrow> (nat \<Rightarrow> string \<rightharpoonup> byte list) \<Rightarrow> 'e shard_error + unit \<Rightarrow> 's sharded \<Rightarrow> bool" where
  "put_outcome_sh now loc data c H r c' \<longleftrightarrow>
     frame c c' \<and> catalog_ok (sh_catalog c') \<and>
     (\<exists>H'. heap_rep holds c' H' \<and>
        (case r of
           Inr _ \<Rightarrow> same_except (insert loc (marker_keys D loc) \<union> {meta_sidecar_path D loc}) H H' \<and>
             (\<forall>k. k \<noteq> loc \<and> k \<noteq> so_path D (delete_marker_key loc) \<longrightarrow>
                catalog_get (sh_catalog c') k = catalog_get (sh_catalog c) k) \<and>
             (\<exists>placed. catalog_get (sh_catalog c') loc = Some (put_entry D now data placed) \<and> distinct placed \<and>
                placed \<noteq> [] \<and> sh_min_writes c \<le> length placed \<and>
                (\<forall>sid\<in>set placed. stored c H' sid loc = Some data))
         | Inl _ \<Rightarrow> sh_catalog c' = sh_catalog c \<and>
             attempted D loc data (catalog_get (sh_catalog c) loc \<noteq> None) H H'))"

lemma commit_put_spec:
  assumes rep: "heap_rep holds c1 H1" and ok: "catalog_ok (sh_catalog c1)"
    and placed: "distinct placed" "placed \<noteq> []" "\<forall>sid\<in>set placed. stored c1 H1 sid loc = Some data"
    and loc: "loc \<notin> marker_keys D loc"
  shows "frame c1 (commit_put D now loc data placed c1)"
    and "catalog_ok (sh_catalog (commit_put D now loc data placed c1))"
    and "k \<noteq> loc \<Longrightarrow> k \<noteq> so_path D (delete_marker_key loc) \<Longrightarrow>
      catalog_get (sh_catalog (commit_put D now loc data placed c1)) k = catalog_get (sh_catalog c1) k"
    and "catalog_get (sh_catalog (commit_put D now loc data placed c1)) loc = Some (put_entry D now data placed)"
    and "\<exists>H'. heap_rep holds (commit_put D now loc data placed c1) H' \<and> same_except (marker_keys D loc) H1 H' \<and>
      (\<forall>sid\<in>set placed. stored c1 H' sid loc = Some data)"
proof -
  let ?c = "update_catalog (catalog_put now loc placed (length data) (Some (so_crc32c D data)) 0) c1"
  let ?mk = "so_path D (delete_marker_key loc)"
  obtain r c' where del: "delete_raw D ?mk ?c = (r, c')" by fastforce
  have c': "commit_put D now loc data placed c1 = c'"
    by (simp add: commit_put_def remove_delete_marker_def del)
  have rep1: "heap_rep holds ?c H1" using rep by (simp add: heap_rep_def update_catalog_def)
  have ok1: "catalog_ok (sh_catalog ?c)"
    using catalog_put_ok(1) [OF ok placed(2,1)] by (simp add: update_catalog_def)
  from delete_raw_spec [OF rep1 ok1 del] obtain H' where d: "frame ?c c'" "catalog_ok (sh_catalog c')"
    "\<forall>k. k \<noteq> ?mk \<longrightarrow> catalog_get (sh_catalog c') k = catalog_get (sh_catalog ?c) k" "heap_rep holds c' H'"
    "shrinks {?mk, meta_sidecar_path D ?mk} H1 H'" by blast
  have mk: "loc \<noteq> ?mk" using loc by (simp add: marker_keys_def)
  have get: "catalog_get (sh_catalog ?c) = (catalog_get (sh_catalog c1))(loc \<mapsto> put_entry D now data placed)"
    by (simp add: update_catalog_def put_entry_def)
  show "frame c1 (commit_put D now loc data placed c1)" "catalog_ok (sh_catalog (commit_put D now loc data placed c1))"
    using d(1,2) by (simp_all add: c' update_catalog_def frame_def slots_def)
  show "k \<noteq> loc \<Longrightarrow> k \<noteq> ?mk \<Longrightarrow>
      catalog_get (sh_catalog (commit_put D now loc data placed c1)) k = catalog_get (sh_catalog c1) k"
    "catalog_get (sh_catalog (commit_put D now loc data placed c1)) loc = Some (put_entry D now data placed)"
    using d(3) mk by (simp_all add: c' get)
  have same: "same_except (marker_keys D loc) H1 H'" using d(5) by (simp add: shrinks_def marker_keys_def)
  show "\<exists>H'. heap_rep holds (commit_put D now loc data placed c1) H' \<and> same_except (marker_keys D loc) H1 H' \<and>
      (\<forall>sid\<in>set placed. stored c1 H' sid loc = Some data)"
  proof (intro exI conjI ballI)
    show "heap_rep holds (commit_put D now loc data placed c1) H'" using d(4) by (simp add: c')
    show "same_except (marker_keys D loc) H1 H'" by (rule same)
    show "stored c1 H' sid loc = Some data" if "sid \<in> set placed" for sid
      using placed(3) that stored_same [OF same loc, of c1 sid] by simp
  qed
qed

text \<open>A write that succeeds and is committed.\<close>

lemma put_committed:
  assumes w: "write_outcome loc data (sh_min_writes c) c H (Inr placed) c1" and "placed \<noteq> []"
    and "catalog_ok (sh_catalog c)" and "loc \<notin> marker_keys D loc"
  shows "put_outcome_sh now loc data c H (Inr ()) (commit_put D now loc data placed c1)"
proof -
  from w obtain H1 where fr: "frame c c1" and cat: "sh_catalog c1 = sh_catalog c" and H1: "heap_rep holds c1 H1"
    "distinct placed" "sh_min_writes c \<le> length placed" "attempted D loc data (catalog_get (sh_catalog c) loc \<noteq> None) H H1"
    "\<forall>sid\<in>set placed. stored c H1 sid loc = Some data"
    by (auto simp: write_outcome_def)
  have st: "\<forall>sid\<in>set placed. stored c1 H1 sid loc = Some data" and ok: "catalog_ok (sh_catalog c1)"
    using H1(5) stored_frame [OF fr] assms(3) cat by simp_all
  note cp = commit_put_spec [OF H1(1) ok H1(2) assms(2) st assms(4), where now = now]
  from cp(5) obtain H' where H': "heap_rep holds (commit_put D now loc data placed c1) H'"
    "same_except (marker_keys D loc) H1 H'" "\<forall>sid\<in>set placed. stored c H' sid loc = Some data"
    using stored_frame [OF fr] by auto
  have "same_except (insert loc (marker_keys D loc) \<union> {meta_sidecar_path D loc}) H H'"
    using H1(4) H'(2) by (auto simp: attempted_def same_except_def)
  then show ?thesis
    unfolding put_outcome_sh_def using cp(1-4) H' H1(2,3) assms(2) fr cat by (auto intro: frame_trans)
qed

lemma put_failed:
  assumes "write_outcome loc data m c H (Inl e) c1" and "catalog_ok (sh_catalog c)"
    and "frame c1 c2" "sh_catalog c2 = sh_catalog c1" "sh_heap c2 = sh_heap c1"
  shows "put_outcome_sh now loc data c H (Inl e') c2"
  using assms by (auto simp: write_outcome_def put_outcome_sh_def heap_rep_def intro: frame_trans)

text \<open>A second attempt after one that changed no catalog entry.\<close>

lemma write_retry:
  assumes w1: "write_outcome loc data m c H (Inl e) c1"
    and c2: "frame c1 c2" "sh_catalog c2 = sh_catalog c1" "sh_heap c2 = sh_heap c1"
    and w2: "\<And>H1. heap_rep holds c2 H1 \<Longrightarrow> write_outcome loc data m' c2 H1 r c3"
  shows "write_outcome loc data m' c H r c3"
proof -
  let ?known = "catalog_get (sh_catalog c) loc \<noteq> None"
  from w1 obtain H1 where H1: "frame c c1" "sh_catalog c1 = sh_catalog c" "heap_rep holds c1 H1"
    "attempted D loc data ?known H H1" by (auto simp: write_outcome_def)
  have fr: "frame c c2" by (rule frame_trans [OF H1(1) c2(1)])
  have "heap_rep holds c2 H1" using H1(3) c2(3) by (simp add: heap_rep_def)
  from w2 [OF this] obtain H2 where H2: "frame c2 c3" "sh_catalog c3 = sh_catalog c2" "heap_rep holds c3 H2"
    "attempted D loc data ?known H1 H2"
    "\<forall>placed. r = Inr placed \<longrightarrow> distinct placed \<and> m' \<le> length placed \<and> (\<forall>sid\<in>set placed. stored c2 H2 sid loc = Some data)"
    using c2(2) H1(2) by (auto simp: write_outcome_def)
  show ?thesis
    unfolding write_outcome_def
    using frame_trans [OF fr H2(1)] H2(2,3,5) H1(2) c2(2) attempted_trans [OF H1(4) H2(4)] stored_frame [OF fr] by auto
qed

lemma sharded_put_spec:
  assumes rep: "heap_rep holds c H" and ok: "catalog_ok (sh_catalog c)" and len: "length data < 2 ^ 63"
    and loc: "loc \<notin> marker_keys D loc" and run: "sharded_put D now loc data c = (r, c')"
  shows "put_outcome_sh now loc data c H r c'"
proof -
  have refused: "put_outcome_sh now loc data c H (Inl e) c" for e
    using rep ok by (auto simp: put_outcome_sh_def)
  let ?t = "select_targets D loc c"
  obtain r1 c1 where w1: "write_to_shards D now loc data ?t c = (r1, c1)" by fastforce
  note o1 = write_to_shards_spec [OF rep len select_targets_spec(1) w1]
  show ?thesis
  proof (cases "sh_read_only c \<or> ?t = []")
    case True
    with run refused show ?thesis by (auto simp: sharded_put_def Let_def split: if_splits)
  next
    case False
    note enter = run [unfolded sharded_put_def Let_def if_not_P [OF False [unfolded de_Morgan_disj, THEN conjunct1]]
        if_not_P [OF False [unfolded de_Morgan_disj, THEN conjunct2]] w1]
    show ?thesis
    proof (cases r1)
      case (Inr placed)
      with enter have "r = Inr ()" "c' = commit_put D now loc data placed c1" by auto
      with put_committed [OF _ _ ok loc] o1 Inr show ?thesis by blast
    next
      case (Inl e)
      let ?c2 = "fold (mark_offline now) ?t c1"
      let ?rt = "select_targets D loc ?c2"
      have k: "frame c1 ?c2" "sh_catalog ?c2 = sh_catalog c1" "sh_heap ?c2 = sh_heap c1"
        using fold_mark_keeps(1) [of c1 now ?t] by auto
      obtain r3 c3 where w3: "write_to_shards D now loc data ?rt ?c2 = (r3, c3)" by fastforce
      have m: "sh_min_writes ?c2 = sh_min_writes c"
        using o1(1) k(1) by (auto simp: write_outcome_def frame_def)
      have o3: "write_outcome loc data (sh_min_writes c) c H r3 c3"
        by (rule write_retry [OF o1(1) [unfolded Inl] k])
          (use write_to_shards_spec(1) [OF _ len select_targets_spec(1) w3] m in simp)
      show ?thesis
      proof (cases "is_insufficient e \<or> ?rt = [] \<or> ?rt = ?t")
        case True
        with enter Inl have "(\<exists>e'. r = Inl e' \<and> c' = c1) \<or> (\<exists>e'. r = Inl e' \<and> c' = ?c2)"
          by (auto split: if_splits)
        with put_failed [OF o1(1) [unfolded Inl] ok] k show ?thesis by auto
      next
        case False
        with enter Inl w3 have fin: "(case r3 of Inl e' \<Rightarrow> (Inl e', c3) | Inr placed \<Rightarrow> (Inr (), commit_put D now loc data placed c3)) = (r, c')"
          by (auto split: sum.splits)
        show ?thesis
        proof (cases r3)
          case (Inl e')
          with fin put_failed [OF o3 [unfolded Inl] ok] show ?thesis by auto
        next
          case (Inr placed)
          have "placed \<noteq> []" using write_to_shards_spec(2) [OF _ len select_targets_spec(1) w3] Inr o1 k
            by (metis write_outcome_def heap_rep_def)
          with fin Inr put_committed [OF o3 [unfolded Inr] _ ok loc] show ?thesis by auto
        qed
      qed
    qed
  qed
qed

end

section \<open>Reads\<close>

text \<open>What a read may change: counters, pending repairs and the catalog entry of its key.\<close>

definition read_frame :: "string \<Rightarrow> 's sharded \<Rightarrow> 's sharded \<Rightarrow> bool" where
  "read_frame loc c c' \<longleftrightarrow> frame c c' \<and> map si_health (sh_shards c') = map si_health (sh_shards c) \<and>
     (catalog_ok (sh_catalog c) \<longrightarrow> catalog_ok (sh_catalog c')) \<and>
     (\<forall>k. k \<noteq> loc \<longrightarrow> catalog_get (sh_catalog c') k = catalog_get (sh_catalog c) k)"

lemma read_frame_refl [simp]: "read_frame loc c c"
  by (simp add: read_frame_def)

lemma read_frame_trans: "read_frame loc c d \<Longrightarrow> read_frame loc d e \<Longrightarrow> read_frame loc c e"
  by (auto simp: read_frame_def intro: frame_trans)

lemma read_frame_heap_only: "heap_only c c' \<Longrightarrow> read_frame loc c c'"
  using heap_only_keeps [of c c'] by (auto simp: read_frame_def)

lemma add_replica_other: "k \<noteq> loc \<Longrightarrow> catalog_get (add_replica now loc sid n ml cat) k = catalog_get cat k"
  by (simp add: add_replica_def catalog_get_def Let_def hm_simps)

lemma read_frame_add: "read_frame loc c (update_catalog (add_replica now loc sid n ml) c)"
  by (simp add: read_frame_def update_catalog_def frame_def slots_def add_replica_ok add_replica_other)

lemma handle_read_error_frame:
  assumes "handle_read_error D sid loc e c = (b, c')"
  shows "read_frame loc c c' \<and> sh_heap c' = sh_heap c"
proof -
  let ?u = "update_shard sid (\<lambda>s. s\<lparr>si_crc_error_count := uadd (si_crc_error_count s) 1\<rparr>) c"
  have h: "map si_health (sh_shards ?u) = map si_health (sh_shards c)"
    by (auto simp: update_shard_def map_update intro: nth_equalityI) (metis list_update_id map_update nth_map)
  have "frame c ?u" "sh_catalog ?u = sh_catalog c" "sh_heap ?u = sh_heap c" by (simp_all add: update_shard_keeps)
  then have "read_frame loc c (update_catalog (catalog_remove_shard loc sid) ?u)"
    using h by (auto simp: read_frame_def catalog_remove_shard_ok catalog_remove_shard_other update_catalog_def frame_def slots_def)
  with assms \<open>sh_heap ?u = sh_heap c\<close> show ?thesis
    by (auto simp: handle_read_error_def update_catalog_def split: if_splits option.splits)
qed

lemma schedule_frame:
  "read_frame loc c (schedule_read_repair k good bad c) \<and> sh_heap (schedule_read_repair k good bad c) = sh_heap c"
  by (simp add: schedule_read_repair_def Let_def read_frame_def frame_def slots_def)

lemma fold_schedule_frame:
  "read_frame loc c (fold (schedule_read_repair k good) bads c) \<and>
   sh_heap (fold (schedule_read_repair k good) bads c) = sh_heap c"
proof (induction bads arbitrary: c)
  case Nil
  then show ?case by simp
next
  case (Cons b bads)
  from schedule_frame [of loc c k good b] Cons [of "schedule_read_repair k good b c"] show ?case
    by (auto intro: read_frame_trans)
qed

context shard_store
begin

lemma on_slot_read:
  assumes "\<And>s A r s'. holds s A \<Longrightarrow> f s = (r, s') \<Longrightarrow> holds s' A \<and> P A r"
    and "heap_rep holds c H" and "on_slot f ref c = (r, c')"
  shows "heap_rep holds c' H" and "r = Inr x \<Longrightarrow> \<exists>a. ref = StoreAt a \<and> P (H a) (Inr x)"
  using assms by (auto simp: on_slot_def heap_rep_def split: store_ref.splits prod.splits sum.splits) fastforce+

lemma restore_entry_frame:
  assumes "heap_rep holds c H"
  shows "read_frame loc c (restore_entry D now loc sid ref c) \<and> heap_rep holds (restore_entry D now loc sid ref c) H"
proof (cases "raw_hit D loc sid c")
  case (Some p)
  then show ?thesis
    using assms read_frame_add by (auto simp: restore_entry_def heap_rep_def update_catalog_def split: prod.splits)
next
  case None
  obtain r c1 where h: "on_slot (so_head D loc) ref c = (r, c1)" by fastforce
  have rep1: "heap_rep holds c1 H"
    by (rule on_slot_read(1) [where P = "\<lambda>_ _. True", OF _ assms h]) (simp add: head_law)
  have "read_frame loc c (update_catalog (add_replica now loc sid n ml) c1)" for n ml
    using read_frame_heap_only [OF on_slot_frame [OF h]] read_frame_add by (rule read_frame_trans)
  with rep1 None h show ?thesis
    by (auto simp: restore_entry_def heap_rep_def update_catalog_def split: sum.splits)
qed

lemma read_loop_spec:
  assumes op: "\<And>s A r s'. holds s A \<Longrightarrow> op s = (r, s') \<Longrightarrow> holds s' A \<and> P A r"
    and "heap_rep holds c H" and "read_loop D now op loc fb stores bad le c = (r, c')"
  shows "read_frame loc c c' \<and> heap_rep holds c' H \<and>
    (\<forall>x. r = Inr x \<longrightarrow> (\<exists>sid a. (sid, StoreAt a) \<in> set stores \<and> P (H a) (Inr x)))"
  using assms(2,3)
proof (induction stores arbitrary: c bad le)
  case Nil
  then show ?case by auto
next
  case (Cons st stores)
  obtain sid ref where st: "st = (sid, ref)" by (cases st)
  obtain r1 c1 where o1: "on_slot op ref c = (r1, c1)" by fastforce
  have rd1: "heap_rep holds c1 H"
    by (rule on_slot_read(1) [where P = P, OF _ Cons.prems(1) o1]) (rule op)
  have rd2: "\<exists>a. ref = StoreAt a \<and> P (H a) (Inr x)" if "r1 = Inr x" for x
    by (rule on_slot_read(2) [where P = P, OF _ Cons.prems(1) o1 that]) (rule op)
  have f1: "read_frame loc c c1" by (rule read_frame_heap_only [OF on_slot_frame [OF o1]])
  show ?case
  proof (cases r1)
    case (Inr x)
    let ?c2 = "if fb then restore_entry D now loc sid ref c1 else c1"
    have f2: "read_frame loc c1 ?c2 \<and> heap_rep holds ?c2 H" using restore_entry_frame [OF rd1] rd1 by simp
    have "r = Inr x" "c' = fold (schedule_read_repair loc sid) bad ?c2"
      using Cons.prems(2) Inr o1 by (simp_all add: st Let_def)
    moreover have "read_frame loc ?c2 c' \<and> sh_heap c' = sh_heap ?c2"
      unfolding \<open>c' = _\<close> by (rule fold_schedule_frame)
    ultimately show ?thesis
      using f1 f2 rd2 [OF Inr] by (auto simp: st heap_rep_def intro: read_frame_trans)
  next
    case (Inl e)
    obtain b c2 where h: "handle_read_error D sid loc e c1 = (b, c2)" by fastforce
    note hf = handle_read_error_frame [OF h]
    have rep2: "heap_rep holds c2 H" using rd1 hf by (simp add: heap_rep_def)
    have "read_loop D now op loc fb stores (if b then bad @ [sid] else bad) (Some e) c2 = (r, c')"
      using Cons.prems(2) Inl o1 h by (simp add: st)
    from Cons.IH [OF rep2 this] have "read_frame loc c2 c'" "heap_rep holds c' H"
      "\<forall>x. r = Inr x \<longrightarrow> (\<exists>sid a. (sid, StoreAt a) \<in> set (st # stores) \<and> P (H a) (Inr x))" by fastforce+
    then show ?thesis using read_frame_trans [OF read_frame_trans [OF f1]] hf by blast
  qed
qed

lemma read_fallback_spec:
  assumes op: "\<And>s A r s'. holds s A \<Longrightarrow> op s = (r, s') \<Longrightarrow> holds s' A \<and> P A r"
    and rep: "heap_rep holds c H" and run: "read_with_fallback D now op loc c = (r, c')"
  shows "read_frame loc c c' \<and> heap_rep holds c' H \<and>
    (\<forall>x. r = Inr x \<longrightarrow> (\<exists>sid\<in>set (read_candidates c loc). \<exists>a. sid < length (sh_shards c) \<and> slots c ! sid = StoreAt a \<and>
       P (H a) (Inr x)))"
proof (cases "is_delete_marker loc")
  case True
  with rep run show ?thesis by (auto simp: read_with_fallback_def)
next
  case False
  obtain order fb c1 where rs: "resolve_shards D loc c = ((order, fb), c1)" by (metis surj_pair)
  note spec = resolve_shards_spec [OF rs]
  from spec(3) have c1: "read_frame loc c c1" "sh_heap c1 = sh_heap c" "sh_shards c1 = sh_shards c"
    by (auto simp: read_frame_def frame_def slots_def)
  have rep1: "heap_rep holds c1 H" using rep c1(2) by (simp add: heap_rep_def)
  have loop: "read_loop D now op loc fb (stores_of c1 order) [] None c1 = (r, c')"
    using run False rs by (simp add: read_with_fallback_def)
  have "read_frame loc c1 c' \<and> heap_rep holds c' H \<and>
    (\<forall>x. r = Inr x \<longrightarrow> (\<exists>sid a. (sid, StoreAt a) \<in> set (stores_of c1 order) \<and> P (H a) (Inr x)))"
    by (rule read_loop_spec [where P = P, OF _ rep1 loop]) (rule op)
  moreover have "sid \<in> set (read_candidates c loc) \<and> sid < length (sh_shards c) \<and> slots c ! sid = StoreAt a"
    if "(sid, StoreAt a) \<in> set (stores_of c1 order)" for sid a
    using that mset_eq_setD [OF spec(1)] c1(3) by (auto simp: stores_of_slots slots_def)
  ultimately show ?thesis using read_frame_trans [OF c1(1)] by metis
qed

lemma sharded_get_spec:
  assumes rep: "heap_rep holds c H" and run: "sharded_get D now loc c = (r, c')"
  shows "read_frame loc c c' \<and> heap_rep holds c' H \<and>
    (\<forall>d. r = Inr (Inr d) \<longrightarrow> (\<exists>sid\<in>set (read_candidates c loc). stored c H sid loc = Some d))"
proof -
  have "read_frame loc c c' \<and> heap_rep holds c' H \<and>
    (\<forall>x. r = Inr x \<longrightarrow> (\<exists>sid\<in>set (read_candidates c loc). \<exists>a. sid < length (sh_shards c) \<and> slots c ! sid = StoreAt a \<and>
       (\<forall>d. (Inr x :: 'e + 'e + byte list) = Inr (Inr d) \<longrightarrow> H a loc = Some d)))"
    by (rule read_fallback_spec [where P = "\<lambda>A r. \<forall>d. r = Inr (Inr d) \<longrightarrow> A loc = Some d", OF _ rep run [unfolded sharded_get_def]])
      (use get_law in blast)
  moreover have "stored c H sid loc = Some d"
    if "sid < length (sh_shards c)" "slots c ! sid = StoreAt a" "H a loc = Some d" for sid a d
    using that by (simp add: stored_def)
  ultimately show ?thesis by blast
qed

section \<open>Delete\<close>

text \<open>
  A successful delete: the marker is in the catalog with at least one shard that stores its
  timestamp, and a reachable shard that still has the object is still in its catalog entry, if
  the object had one.
\<close>

definition delete_outcome ::
  "int \<Rightarrow> string \<Rightarrow> 's sharded \<Rightarrow> (nat \<Rightarrow> string \<rightharpoonup> byte list) \<Rightarrow> 'e shard_error + unit \<Rightarrow> 's sharded \<Rightarrow> bool" where
  "delete_outcome now loc c H r c' \<longleftrightarrow>
     frame c c' \<and> catalog_ok (sh_catalog c') \<and>
     (\<forall>k. k \<noteq> loc \<and> k \<noteq> delete_marker_key loc \<longrightarrow> catalog_get (sh_catalog c') k = catalog_get (sh_catalog c) k) \<and>
     (\<exists>H'. heap_rep holds c' H' \<and>
        same_except (insert loc (insert (meta_sidecar_path D loc) (marker_keys D loc))) H H' \<and>
        (\<forall>a. H' a loc = H a loc \<or> H' a loc = None) \<and>
        (\<forall>sid\<in>holders (sh_catalog c) loc. available c' sid \<and> stored c H' sid loc \<noteq> None \<longrightarrow>
           sid \<in> holders (sh_catalog c') loc) \<and>
        (r = Inr () \<longrightarrow>
           (\<exists>e. catalog_get (sh_catalog c') (delete_marker_key loc) = Some e \<and> pe_shards e \<noteq> [] \<and>
              (\<forall>sid\<in>set (pe_shards e). stored c H' sid (delete_marker_key loc) = Some (so_to_rfc3339 D now)))))"

lemma put_marker_spec:
  assumes rep: "heap_rep holds c H" and ok: "catalog_ok (sh_catalog c)" and len: "length (so_to_rfc3339 D now) < 2 ^ 63"
    and mw: "1 \<le> sh_min_writes c" and path: "so_path D (delete_marker_key loc) = delete_marker_key loc"
    and run: "put_delete_marker D now loc c = (r, c')"
  shows "frame c c' \<and> catalog_ok (sh_catalog c') \<and>
    (\<forall>k. k \<noteq> delete_marker_key loc \<longrightarrow> catalog_get (sh_catalog c') k = catalog_get (sh_catalog c) k) \<and>
    (\<exists>H'. heap_rep holds c' H' \<and> same_except (marker_keys D loc) H H' \<and>
      (is_ok r \<longrightarrow> (\<exists>e. catalog_get (sh_catalog c') (delete_marker_key loc) = Some e \<and> pe_shards e \<noteq> [] \<and>
        (\<forall>sid\<in>set (pe_shards e). stored c H' sid (delete_marker_key loc) = Some (so_to_rfc3339 D now)))))"
proof (cases "filter (available c) [0..<length (sh_shards c)] = []")
  case True
  with run rep ok show ?thesis by (auto simp: put_delete_marker_def Let_def)
next
  case False
  let ?mk = "delete_marker_key loc" and ?body = "so_to_rfc3339 D now"
  let ?ids = "filter (available c) [0..<length (sh_shards c)]"
  obtain w c1 where w: "(if sh_delete_requires_min_writes c then write_to_shards D now ?mk ?body ?ids c
      else write_to_shards_best_effort D now ?mk ?body ?ids c) = (w, c1)" by fastforce
  note enter = run [unfolded put_delete_marker_def Let_def path if_not_P [OF False] w]
  have "\<exists>m\<ge>1. write_outcome ?mk ?body m c H w c1"
    using write_to_shards_spec(1) [OF rep len, of ?ids now ?mk w c1] write_inner_spec [OF rep len, of ?ids now ?mk 1 False w c1] w mw
    by (auto simp: write_to_shards_best_effort_def split: if_splits)
  then obtain m H1 where m: "1 \<le> m" and o1: "frame c c1" "sh_catalog c1 = sh_catalog c" "heap_rep holds c1 H1"
    "attempted D ?mk ?body (catalog_get (sh_catalog c) ?mk \<noteq> None) H H1"
    "\<forall>placed. w = Inr placed \<longrightarrow> distinct placed \<and> m \<le> length placed \<and> (\<forall>sid\<in>set placed. stored c H1 sid ?mk = Some ?body)"
    by (auto simp: write_outcome_def)
  have same: "same_except (marker_keys D loc) H H1"
    using o1(4) by (simp add: attempted_def marker_keys_def path)
  show ?thesis
  proof (cases w)
    case (Inl e)
    with enter have "r = Inl e" "c' = c1" by simp_all
    with o1 ok same show ?thesis by auto
  next
    case (Inr placed)
    let ?c2 = "update_catalog (catalog_put now ?mk placed (length ?body) None 0) c1"
    from enter Inr have r: "r = Inr now" "c' = ?c2" by simp_all
    from o1(5) Inr m have placed: "distinct placed" "placed \<noteq> []" "\<forall>sid\<in>set placed. stored c H1 sid ?mk = Some ?body"
      by auto
    have cat: "catalog_ok (sh_catalog ?c2)"
      using catalog_put_ok(1) [of "sh_catalog c1" placed] ok o1(2) placed by (simp add: update_catalog_def)
    have "heap_rep holds ?c2 H1" using o1(3) by (simp add: heap_rep_def update_catalog_def)
    with same placed o1(1,2) cat show ?thesis
      unfolding r by (auto simp: update_catalog_def frame_def slots_def)
  qed
qed

lemma sharded_delete_spec:
  assumes rep: "heap_rep holds c H" and ok: "catalog_ok (sh_catalog c)" and len: "length (so_to_rfc3339 D now) < 2 ^ 63"
    and mw: "1 \<le> sh_min_writes c" and path: "so_path D (delete_marker_key loc) = delete_marker_key loc"
    and nm: "\<not> is_delete_marker loc" and loc: "loc \<notin> marker_keys D loc" "delete_marker_key loc \<noteq> meta_sidecar_path D loc"
    and run: "sharded_delete D now loc c = (r, c')"
  shows "delete_outcome now loc c H r c'"
proof (cases "sh_read_only c")
  case True
  with run rep ok show ?thesis by (auto simp: sharded_delete_def delete_outcome_def)
next
  case False
  let ?mk = "delete_marker_key loc"
  obtain r1 c1 where p: "put_delete_marker D now loc c = (r1, c1)" by fastforce
  from put_marker_spec [OF rep ok len mw path p] obtain H1 where
    o1: "frame c c1" "catalog_ok (sh_catalog c1)"
    "\<forall>k. k \<noteq> ?mk \<longrightarrow> catalog_get (sh_catalog c1) k = catalog_get (sh_catalog c) k" "heap_rep holds c1 H1"
    "same_except (marker_keys D loc) H H1"
    "is_ok r1 \<longrightarrow> (\<exists>e. catalog_get (sh_catalog c1) ?mk = Some e \<and> pe_shards e \<noteq> [] \<and>
        (\<forall>sid\<in>set (pe_shards e). stored c H1 sid ?mk = Some (so_to_rfc3339 D now)))" by blast
  have mk: "loc \<noteq> ?mk" using loc(1) by (auto simp: marker_keys_def path)
  then have hold: "holders (sh_catalog c1) loc = holders (sh_catalog c) loc"
    using o1(3) by (intro holders_cong) simp
  have loc1: "H1 a loc = H a loc" for a using o1(5) loc(1) by (simp add: same_except_def)
  show ?thesis
  proof (cases r1)
    case (Inl e)
    with run False nm p have "r = Inl e" "c' = c1" by (simp_all add: sharded_delete_def)
    with o1 hold loc1 show ?thesis
      unfolding delete_outcome_def by (auto simp: same_except_def)
  next
    case (Inr t)
    with run False nm p have d: "delete_raw D loc c1 = (r, c')" by (simp add: sharded_delete_def)
    from delete_raw_spec [OF o1(4,2) d] obtain H2 where
      o2: "frame c1 c'" "sh_shards c' = sh_shards c1" "catalog_ok (sh_catalog c')"
      "\<forall>k. k \<noteq> loc \<longrightarrow> catalog_get (sh_catalog c') k = catalog_get (sh_catalog c1) k" "heap_rep holds c' H2"
      "shrinks {loc, meta_sidecar_path D loc} H1 H2"
      "\<forall>sid\<in>set (read_candidates c1 loc). stored c1 H2 sid loc \<noteq> None \<longrightarrow>
         holders (sh_catalog c1) loc = {} \<or> sid \<in> holders (sh_catalog c') loc" by blast
    have same: "same_except (insert loc (insert (meta_sidecar_path D loc) (marker_keys D loc))) H H2"
      using o1(5) o2(6) by (auto simp: same_except_def shrinks_def)
    have "sid \<in> holders (sh_catalog c') loc"
      if "sid \<in> holders (sh_catalog c) loc" "available c' sid" "stored c H2 sid loc \<noteq> None" for sid
    proof -
      have "sid \<in> set (read_candidates c1 loc)"
        using that(1,2) hold o2(2) by (auto simp: read_candidates_def available_def holders_def split: option.splits)
      with that o2(7) hold stored_frame [OF o1(1)] show ?thesis by auto
    qed
    moreover have "stored c H2 sid ?mk = stored c H1 sid ?mk" for sid
      using o2(6) mk loc(2) by (intro stored_same [where K = "{loc, meta_sidecar_path D loc}"]) (auto simp: shrinks_def)
    then have "\<exists>e. catalog_get (sh_catalog c') ?mk = Some e \<and> pe_shards e \<noteq> [] \<and>
        (\<forall>sid\<in>set (pe_shards e). stored c H2 sid ?mk = Some (so_to_rfc3339 D now))"
      using o1(6) o2(4) mk Inr by auto
    moreover have "\<forall>a. H2 a loc = H a loc \<or> H2 a loc = None"
      using o2(6) loc1 unfolding shrinks_def by metis
    ultimately show ?thesis
      unfolding delete_outcome_def using o2(3-5) o1(3) same frame_trans [OF o1(1) o2(1)] by (intro conjI exI [of _ H2]) auto
  qed
qed

end

end
