(* ===== verification/Raw_Shard.thy ===== *)
theory Raw_Shard
  imports Sharded_Ops Durability Raw_Tools
begin

text \<open>
  The raw store as a shard of the sharded store: its \<open>ObjectStore\<close> methods as \<open>store_ops\<close>
  (\<open>rawobjstr/src/store.rs\<close>) and the proof that they keep the contract \<open>shard_store\<close>.

  A full get returns once the index entry is found; the body is a stream that is read afterwards
  (only a Snappy body is read before the call returns). \<open>head\<close> is the default method of the trait,
  which takes the metadata of such a get.
\<close>

definition raw_get ::
  "'x store_env_scheme \<Rightarrow> get_range option \<Rightarrow> string \<Rightarrow> inner \<Rightarrow> os_error + ((os_error + byte list) \<times> object_meta)" where
  "raw_get X rng key self =
     (case rng of
        Some r \<Rightarrow> bind_res (get_ranged X key r self) (\<lambda>(bytes, meta, _, _). Inr (Inr bytes, meta))
      | None \<Rightarrow>
          (case hm_get (files_of self) key of
             None \<Rightarrow> Inl (to_os_error (NotFound key))
           | Some info \<Rightarrow>
               (if ei_uncompressed_size info > 0 \<and> in_compression self = Snappy
                then bind_res (full_body X key self info) (\<lambda>body. Inr (Inr body, meta_for key info))
                else Inr (full_body X key self info, meta_for key info))))"

record shard_text =
  st_message :: "os_error \<Rightarrow> string"
  st_to_rfc3339 :: "int \<Rightarrow> byte list"
  st_parse_rfc3339 :: "byte list \<Rightarrow> int option"

definition raw_ops :: "'x store_env_scheme \<Rightarrow> path_api \<Rightarrow> shard_text \<Rightarrow> (inner, os_error) store_ops" where
  "raw_ops X P T =
     \<lparr>so_put = (\<lambda>now key data self. put_opts X now key data ModeOverwrite self),
      so_get = (\<lambda>rng key self. (bind_res (raw_get X rng key self) (\<lambda>(body, _). Inr body), self)),
      so_get_range = (\<lambda>s e key self.
        (bind_res (raw_get X (Some (Bounded s e)) key self) (\<lambda>(body, _). body), self)),
      so_head = (\<lambda>key self. (bind_res (raw_get X None key self) (\<lambda>(_, meta). Inr meta), self)),
      so_delete = delete_object X,
      so_list = (\<lambda>self. (Inr (list_objects P None self), self)),
      so_head_with_meta = (\<lambda>key self. case head_with_meta key self of Inr r \<Rightarrow> Some r | Inl _ \<Rightarrow> None),
      so_list_with_meta = (\<lambda>self. list_with_meta P None self),
      so_not_found = (\<lambda>e. case e of OsNotFound _ _ \<Rightarrow> True | _ \<Rightarrow> False),
      so_message = st_message T, so_crc32c = x_crc32c X, so_path = pa_of_key P,
      so_to_rfc3339 = st_to_rfc3339 T, so_parse_rfc3339 = st_parse_rfc3339 T\<rparr>"

section \<open>The contract\<close>

definition bodies :: "obj_map \<Rightarrow> string \<rightharpoonup> byte list" where
  "bodies B k = map_option (\<lambda>(p, ml). take (length p - ml) p) (B k)"

definition raw_holds :: "'x store_env_scheme \<Rightarrow> inner \<Rightarrow> (string \<rightharpoonup> byte list) \<Rightarrow> bool" where
  "raw_holds X s A \<longleftrightarrow> lawful X \<and> stream_laws X \<and> (\<exists>de B. store_ok de s \<and> rep X s B \<and> A = bodies B)"

lemma bodies_update: "bodies (B(k \<mapsto> (d, 0))) = (bodies B)(k \<mapsto> d)" "bodies (B(k := None)) = (bodies B)(k := None)"
  by (auto simp: bodies_def fun_eq_iff)

lemma raw_get_full:
  assumes "stream_laws X" and "store_ok de s" and "rep X s B"
    and "raw_get X None k s = Inr (Inr d, meta)"
  shows "bodies B k = Some d"
proof -
  from assms(4) obtain info where e: "hm_get (files_of s) k = Some info" and b: "full_body X k s info = Inr d"
    by (auto simp: raw_get_def bind_res_Inr_iff split: option.splits if_splits)
  from rep_Some [OF assms(3) e] obtain p where p: "B k = Some (p, ei_meta_len info)"
    "obj_ok X (in_compression s) (dev_data (in_io s)) info p" by blast
  from full_body_spec(1) [OF assms(1,2) e p(2) b] p(1) show ?thesis by (simp add: bodies_def)
qed

interpretation rs: shard_store "raw_ops X P T" "raw_holds X"
proof
  fix s A d now k r s'
  assume h: "raw_holds X s A" and len: "length d < 2 ^ 63" and put: "so_put (raw_ops X P T) now k d s = (r, s')"
  from h obtain de B where B: "lawful X" "stream_laws X" "store_ok de s" "rep X s B" "A = bodies B"
    by (auto simp: raw_holds_def)
  from put have "put_opts X now k d ModeOverwrite s = (r, s')" by (simp add: raw_ops_def)
  from put_opts_spec [OF B(1,3) len this] B
  show "raw_holds X s' (if is_ok r then A(k \<mapsto> d) else A)"
    by (cases r) (auto simp: raw_holds_def simp flip: bodies_update)
next
  fix s A k r s'
  assume h: "raw_holds X s A" and del: "so_delete (raw_ops X P T) k s = (r, s')"
  from h obtain de B where B: "lawful X" "stream_laws X" "store_ok de s" "rep X s B" "A = bodies B"
    by (auto simp: raw_holds_def)
  from del have del': "delete_object X k s = (r, s')" by (simp add: raw_ops_def)
  have nf: "\<not> so_not_found (raw_ops X P T) e" if "r = Inl e" for e
    using del' that by (auto simp: delete_object_def raw_ops_def split: if_splits)
  from delete_object_spec [OF B(3) del'] B
  show "raw_holds X s' (if is_ok r then A(k := None) else A) \<and>
      (\<forall>e. r = Inl e \<and> so_not_found (raw_ops X P T) e \<longrightarrow> A k = None)"
    using nf by (cases r) (auto simp: raw_holds_def simp flip: bodies_update)
next
  fix s A rng k s' and rg :: "os_error + (os_error + byte list)"
  assume h: "raw_holds X s A" and get: "so_get (raw_ops X P T) rng k s = (rg, s')"
  from h obtain de B where B: "stream_laws X" "store_ok de s" "rep X s B" "A = bodies B" by (auto simp: raw_holds_def)
  from get have s': "s' = s" and rg: "rg = bind_res (raw_get X rng k s) (\<lambda>(body, _). Inr body)"
    by (auto simp: raw_ops_def)
  have "A k = Some d" if d: "rng = None" "rg = Inr (Inr d)" for d
  proof -
    from d rg obtain meta where "raw_get X None k s = Inr (Inr d, meta)"
      by (cases "raw_get X None k s") auto
    from raw_get_full [OF B(1-3) this] B(4) show ?thesis by simp
  qed
  with h s' show "raw_holds X s' A \<and> (\<forall>d. rng = None \<and> rg = Inr (Inr d) \<longrightarrow> A k = Some d)" by blast
next
  fix s A k s' and rh :: "os_error + object_meta"
  assume "raw_holds X s A" and "so_head (raw_ops X P T) k s = (rh, s')"
  then show "raw_holds X s' A" by (auto simp: raw_ops_def)
qed

section \<open>Corruption behind a stream\<close>

text \<open>
  A checksum error of a full get of an uncompressed (or Zstd or Gzip) object comes out of the stream,
  after the call has returned: the get itself succeeds.
\<close>

lemma raw_get_defers_corruption:
  assumes "hm_get (files_of s) k = Some info" and "\<not> (ei_uncompressed_size info > 0 \<and> in_compression s = Snappy)"
    and "full_body X k s info = Inl e"
  shows "so_get (raw_ops X P T) None k s = (Inr (Inl e), s)"
  using assms by (simp add: raw_ops_def raw_get_def)

text \<open>
  So the sharded get returns that failing stream although other replicas are intact: it neither
  tries them nor removes the replica from the catalog nor schedules a repair.
\<close>

lemma get_stops_at_corrupt_stream:
  assumes "\<not> is_delete_marker loc" and "resolve_shards D loc c = ((sid # rest, False), c1)"
    and "sid < length (sh_shards c)" and "si_store (sh_shards c ! sid) = StoreAt a"
    and "so_get D None loc (sh_heap c a) = (Inr (Inl e), s')"
  shows "\<exists>c'. sharded_get D now loc c = (Inr (Inl e), c') \<and> sh_catalog c' = sh_catalog c \<and>
    sh_repairs c' = sh_repairs c \<and> sh_shards c' = sh_shards c"
proof -
  from resolve_shards_spec(3) [OF assms(2)] obtain n where c1: "c1 = c\<lparr>sh_read_counter := n\<rparr>" ..
  have "stores_of c1 (sid # rest) = (sid, StoreAt a) # stores_of c1 rest"
    using assms(3,4) by (simp add: stores_of_def c1)
  then show ?thesis
    using assms by (auto simp: sharded_get_def read_with_fallback_def on_slot_def c1)
qed

end
