(* ===== verification/Sharded_Properties.thy ===== *)
theory Sharded_Properties
  imports Raw_Shard
begin

text \<open>
  The properties of the sharded store, for every kind of shard that keeps the contract
  \<open>shard_store\<close>, with witnesses on a cluster of two formatted raw stores.
\<close>

section \<open>A cluster of raw stores\<close>

definition ref_paths :: path_api where
  "ref_paths = \<lparr>pa_of_key = id, pa_prefix_matches = (\<lambda>p k. prefix p k)\<rparr>"

definition ref_text :: shard_text where
  "ref_text = \<lparr>st_message = (\<lambda>e. case e of OsGeneric (DataCorruption _ _ _) \<Rightarrow> ''data corruption'' | _ \<Rightarrow> ''error''),
     st_to_rfc3339 = (\<lambda>t. le_bytes 8 (nat t)), st_parse_rfc3339 = (\<lambda>bs. Some (int (le_val bs)))\<rparr>"

definition ref_ops :: "(inner, os_error) store_ops" where
  "ref_ops = raw_ops ref_env ref_paths ref_text"

definition ref_cluster :: "inner sharded" where
  "ref_cluster = sharded_new 0 [0, 1] 2 (\<lambda>_. rs_inner ref_rs)"

lemma ref_ops_fields [simp]:
  "so_path ref_ops = id" "so_to_rfc3339 ref_ops t = le_bytes 8 (nat t)"
  by (simp_all add: ref_ops_def raw_ops_def ref_paths_def ref_text_def)

lemma ref_shards: "shard_store ref_ops (raw_holds ref_env)"
  unfolding ref_ops_def by (rule rs.shard_store_axioms)

lemma ref_cluster_shards: "sh_shards ref_cluster = [new_shard 0 0 (Some 0), new_shard 0 1 (Some 1)]"
  "sh_replication ref_cluster = \<lparr>rp_factor = 2\<rparr>" "sh_min_writes ref_cluster = 1" "\<not> sh_read_only ref_cluster"
  "sh_catalog ref_cluster = catalog_new" "sh_heap ref_cluster = (\<lambda>_. rs_inner ref_rs)"
  by (simp_all add: ref_cluster_def sharded_new_def new_with_offline_def Let_def policy_new_def saturating_sub_def)

lemma ref_cluster_ok: "heap_rep (raw_holds ref_env) ref_cluster (\<lambda>_. Map.empty)" "catalog_ok (sh_catalog ref_cluster)"
proof -
  have "store_ok 40960 (rs_inner ref_rs)" "rep ref_env (rs_inner ref_rs) Map.empty"
    using ref_mounted by (simp_all add: mounted_def ref_rs_facts)
  moreover have "bodies Map.empty = Map.empty" by (simp add: bodies_def fun_eq_iff)
  ultimately show "heap_rep (raw_holds ref_env) ref_cluster (\<lambda>_. Map.empty)"
    unfolding heap_rep_def raw_holds_def ref_cluster_shards(6) lawful_def
    using ref_crc_laws ref_codec_laws ref_stream_laws by metis
  show "catalog_ok (sh_catalog ref_cluster)"
    by (simp add: ref_cluster_shards catalog_ok_def catalog_new_def hm_simps)
qed

lemma ref_marker_keys: "loc \<notin> marker_keys ref_ops loc"
proof -
  have "length loc < length (so_path ref_ops (delete_marker_key loc))"
    "length loc < length (meta_sidecar_path ref_ops (so_path ref_ops (delete_marker_key loc)))"
    by (simp_all add: delete_marker_key_def DELETE_MARKER_PREFIX_def meta_sidecar_path_def)
  then show ?thesis by (auto simp: marker_keys_def)
qed

section \<open>Put\<close>

text \<open>
  C12. A sharded put that succeeds has written the data to at least \<open>min_writes\<close> distinct shards, and
  the catalog entry of its key lists exactly those shards with the size and checksum of the data; a
  put that fails leaves the catalog as it was, and each shard has its old object or the new data
  under the key, or nothing where the key is new. All other keys but the delete marker of the
  location keep their entry, and no object but that of the location, its marker and their sidecars
  changes on any shard, whatever shards fail on the way.
\<close>

theorem sharded_put_replicates:
  assumes "shard_store D holds" and "heap_rep holds c H" and "catalog_ok (sh_catalog c)" and "length data < 2 ^ 63"
    and "loc \<notin> marker_keys D loc" and "sharded_put D now loc data c = (r, c')"
  shows "slots c' = slots c \<and> catalog_ok (sh_catalog c') \<and>
    (\<exists>H'. heap_rep holds c' H' \<and>
      (case r of
         Inr _ \<Rightarrow>
           (\<exists>placed. catalog_get (sh_catalog c') loc = Some \<lparr>pe_shards = placed, pe_size = length data,
                pe_crc32c = Some (so_crc32c D data), pe_updated = now, pe_meta_len = 0\<rparr> \<and>
              distinct placed \<and> placed \<noteq> [] \<and> sh_min_writes c \<le> length placed \<and>
              (\<forall>sid\<in>set placed. stored c' H' sid loc = Some data)) \<and>
           (\<forall>k. k \<noteq> loc \<and> k \<noteq> so_path D (delete_marker_key loc) \<longrightarrow>
              catalog_get (sh_catalog c') k = catalog_get (sh_catalog c) k) \<and>
           same_except ({loc, meta_sidecar_path D loc} \<union> marker_keys D loc) H H'
       | Inl _ \<Rightarrow>
           sh_catalog c' = sh_catalog c \<and> same_except {loc, meta_sidecar_path D loc} H H' \<and>
           (\<forall>a. H' a loc = H a loc \<or> H' a loc = Some data \<or> catalog_get (sh_catalog c) loc = None \<and> H' a loc = None)))"
proof -
  from shard_store.sharded_put_spec [OF assms]
  have "shard_store.put_outcome_sh D holds now loc data c H r c'" .
  note o = this [unfolded shard_store.put_outcome_sh_def [OF assms(1)]]
  then have fr: "frame c c'" and ok: "catalog_ok (sh_catalog c')" by blast+
  note st = stored_frame [OF fr]
  show ?thesis
  proof (cases r)
    case (Inl e)
    with o fr ok show ?thesis by (auto simp: frame_def attempted_def)
  next
    case (Inr u)
    have "insert loc (marker_keys D loc) \<union> {meta_sidecar_path D loc} = {loc, meta_sidecar_path D loc} \<union> marker_keys D loc"
      by auto
    with Inr o fr ok show ?thesis by (auto simp: frame_def put_entry_def st)
  qed
qed

lemma ref_sharded_put: "fst (sharded_put ref_ops 0 ''a'' ref_payload ref_cluster) = Inr ()"
proof -
  have t: "select_targets ref_ops ''a'' ref_cluster = [0, 1]"
    by (simp add: select_targets_def ref_cluster_shards write_target_def new_shard_def is_unavailable_def Let_def)
  have put: "so_put ref_ops 0 ''a'' ref_payload (rs_inner ref_rs) = (Inr (), ref_one)"
    using ref_one_ok(3) by (simp add: ref_ops_def raw_ops_def put_opts_def do_put_def Let_def map_os_def)
  have "fan_put ref_ops 0 ''a'' ref_payload [0, 1] ref_cluster =
      ([(0, Inr ()), (1, Inr ())], ref_cluster\<lparr>sh_heap := (sh_heap ref_cluster)(0 := ref_one, 1 := ref_one)\<rparr>)"
    by (simp add: fan_put_def stores_of_def ref_cluster_shards new_shard_def on_slot_def put)
  then show ?thesis
    by (simp add: sharded_put_def t ref_cluster_shards write_to_shards_def write_to_shards_inner_def
        mark_write_failures_def enforce_min_def)
qed

theorem sharded_put_replicates_witness:
  "\<exists>c' H' placed. sharded_put ref_ops 0 ''a'' ref_payload ref_cluster = (Inr (), c') \<and>
     heap_rep (raw_holds ref_env) c' H' \<and> catalog_get (sh_catalog c') ''a'' = Some \<lparr>pe_shards = placed,
       pe_size = length ref_payload, pe_crc32c = Some (so_crc32c ref_ops ref_payload), pe_updated = 0, pe_meta_len = 0\<rparr> \<and>
     placed \<noteq> [] \<and> (\<forall>sid\<in>set placed. stored c' H' sid ''a'' = Some ref_payload)"
proof -
  obtain c' where p: "sharded_put ref_ops 0 ''a'' ref_payload ref_cluster = (Inr (), c')"
    using ref_sharded_put by (metis prod.collapse)
  have "length ref_payload < 2 ^ 63" by simp
  from sharded_put_replicates [OF ref_shards ref_cluster_ok this ref_marker_keys p] p show ?thesis by auto
qed

section \<open>Get\<close>

text \<open>
  C13. A sharded get that delivers bytes delivers the object of an available shard of the key's
  catalog entry (of any available shard when there is none) and changes no shard. After a
  successful put no later get delivers anything but the data put, whichever replica answers.
\<close>

theorem sharded_read_your_writes:
  assumes "shard_store D holds" and "heap_rep holds c H" and "catalog_ok (sh_catalog c)" and "length data < 2 ^ 63"
    and "loc \<notin> marker_keys D loc" and "sharded_put D now loc data c = (Inr (), c1)"
    and "sharded_get D now' loc c1 = (r, c2)"
  shows "\<exists>H1. heap_rep holds c1 H1 \<and> heap_rep holds c2 H1 \<and>
    (\<forall>d. r = Inr (Inr d) \<longrightarrow> d = data \<and> (\<exists>sid\<in>set (read_candidates c1 loc). stored c1 H1 sid loc = Some d)) \<and>
    (\<forall>k. k \<noteq> loc \<longrightarrow> catalog_get (sh_catalog c2) k = catalog_get (sh_catalog c1) k)"
proof -
  from shard_store.sharded_put_spec [OF assms(1-6)]
  have "shard_store.put_outcome_sh D holds now loc data c H (Inr ()) c1" .
  note o = this [unfolded shard_store.put_outcome_sh_def [OF assms(1)]]
  then obtain H1 placed where fr: "frame c c1" and H1: "heap_rep holds c1 H1"
    and get: "catalog_get (sh_catalog c1) loc = Some (put_entry D now data placed)"
    and st: "\<forall>sid\<in>set placed. stored c H1 sid loc = Some data" by auto
  have "set (read_candidates c1 loc) \<subseteq> set placed" using get by (auto simp: read_candidates_def put_entry_def)
  with st stored_frame [OF fr] have "d = data" if "sid \<in> set (read_candidates c1 loc)" "stored c1 H1 sid loc = Some d" for sid d
    using that by auto
  with shard_store.sharded_get_spec [OF assms(1) H1 assms(7)] H1 show ?thesis
    by (intro exI [of _ H1]) (auto simp: read_frame_def)
qed

theorem sharded_read_your_writes_witness:
  "\<exists>c1 r c2 H1. sharded_put ref_ops 0 ''a'' ref_payload ref_cluster = (Inr (), c1) \<and>
     sharded_get ref_ops 1 ''a'' c1 = (r, c2) \<and> heap_rep (raw_holds ref_env) c2 H1 \<and>
     (\<forall>d. r = Inr (Inr d) \<longrightarrow> d = ref_payload)"
proof -
  obtain c1 where p: "sharded_put ref_ops 0 ''a'' ref_payload ref_cluster = (Inr (), c1)"
    using ref_sharded_put by (metis prod.collapse)
  obtain r c2 where g: "sharded_get ref_ops 1 ''a'' c1 = (r, c2)" by fastforce
  have "length ref_payload < 2 ^ 63" by simp
  from sharded_read_your_writes [OF ref_shards ref_cluster_ok this ref_marker_keys p g] p g show ?thesis by metis
qed

section \<open>Delete\<close>

text \<open>
  C14. A sharded delete leaves every other object, and under the location each shard has its old object
  or none. When it succeeds, the catalog holds a delete marker on at least one shard that stores
  the time of the deletion, and whether it succeeds or not a reachable shard that still has the
  object is still listed in its catalog entry, so that the object is not forgotten where it was not
  deleted.
\<close>

theorem sharded_delete_marks:
  assumes "shard_store D holds" and "heap_rep holds c H" and "catalog_ok (sh_catalog c)"
    and "length (so_to_rfc3339 D now) < 2 ^ 63" and "1 \<le> sh_min_writes c"
    and "so_path D (delete_marker_key loc) = delete_marker_key loc" and "\<not> is_delete_marker loc"
    and "loc \<notin> marker_keys D loc" and "delete_marker_key loc \<noteq> meta_sidecar_path D loc"
    and "sharded_delete D now loc c = (r, c')"
  shows "slots c' = slots c \<and> catalog_ok (sh_catalog c') \<and>
    (\<forall>k. k \<noteq> loc \<and> k \<noteq> delete_marker_key loc \<longrightarrow> catalog_get (sh_catalog c') k = catalog_get (sh_catalog c) k) \<and>
    (\<exists>H'. heap_rep holds c' H' \<and>
      same_except ({loc, meta_sidecar_path D loc} \<union> marker_keys D loc) H H' \<and>
      (\<forall>a. H' a loc = H a loc \<or> H' a loc = None) \<and>
      (\<forall>sid\<in>holders (sh_catalog c) loc. available c' sid \<and> stored c' H' sid loc \<noteq> None \<longrightarrow>
         sid \<in> holders (sh_catalog c') loc) \<and>
      (r = Inr () \<longrightarrow>
         (\<exists>e. catalog_get (sh_catalog c') (delete_marker_key loc) = Some e \<and> pe_shards e \<noteq> [] \<and>
            (\<forall>sid\<in>set (pe_shards e). stored c' H' sid (delete_marker_key loc) = Some (so_to_rfc3339 D now)))))"
proof -
  from shard_store.sharded_delete_spec [OF assms]
  have "shard_store.delete_outcome D holds now loc c H r c'" .
  note o = this [unfolded shard_store.delete_outcome_def [OF assms(1)]]
  then have fr: "frame c c'" by blast
  then have sl: "slots c' = slots c" by (simp only: frame_def)
  show ?thesis
    unfolding Un_insert_left Un_empty_left stored_frame [OF fr] using o sl by blast
qed

theorem sharded_delete_marks_witness:
  "\<exists>c1 r c' H'. sharded_put ref_ops 0 ''a'' ref_payload ref_cluster = (Inr (), c1) \<and>
     sharded_delete ref_ops 5 ''a'' c1 = (r, c') \<and> heap_rep (raw_holds ref_env) c' H' \<and>
     (\<forall>sid\<in>holders (sh_catalog c1) ''a''. available c' sid \<and> stored c' H' sid ''a'' \<noteq> None \<longrightarrow>
        sid \<in> holders (sh_catalog c') ''a'')"
proof -
  obtain c1 where p: "sharded_put ref_ops 0 ''a'' ref_payload ref_cluster = (Inr (), c1)"
    using ref_sharded_put by (metis prod.collapse)
  obtain r c' where d: "sharded_delete ref_ops 5 ''a'' c1 = (r, c')" by fastforce
  have len: "length ref_payload < 2 ^ 63" by simp
  from shard_store.sharded_put_spec [OF ref_shards ref_cluster_ok len ref_marker_keys p]
  obtain H1 where c1: "frame ref_cluster c1" "catalog_ok (sh_catalog c1)" "heap_rep (raw_holds ref_env) c1 H1"
    unfolding shard_store.put_outcome_sh_def [OF ref_shards] by auto
  have mw: "1 \<le> sh_min_writes c1" using c1(1) by (simp add: frame_def ref_cluster_shards)
  have "delete_marker_key ''a'' \<noteq> meta_sidecar_path ref_ops ''a''" "\<not> is_delete_marker ''a''"
    by (simp_all add: delete_marker_key_def DELETE_MARKER_PREFIX_def meta_sidecar_path_def is_delete_marker_def)
  from sharded_delete_marks [OF ref_shards c1(3,2) _ mw _ this(2) ref_marker_keys this(1) d] p d show ?thesis
    by auto
qed

end
