(* ===== verification/Shard_Recovery.thy ===== *)
theory Shard_Recovery
  imports Sharded_Properties
begin

text \<open>
  Rebuilding the catalog from the shards and bringing shards back (\<open>shardedobjstr/src/lib.rs\<close>):
  \<open>rebuild_catalog\<close>, \<open>rebuild_catalog_for_shard\<close>, \<open>invalidate_shard\<close>, \<open>attach_shard\<close> and
  \<open>remove_replica\<close>, and what a scan of a shard does to the catalog.
\<close>

section \<open>Scanning\<close>

definition is_meta_key :: "string \<Rightarrow> bool" where
  "is_meta_key key = suffix ''.__meta__'' key"

text \<open>The objects of a shard: from the raw index when the registry has the shard, else by \<open>list\<close>.\<close>

definition scan_shard ::
  "('s, 'e) store_ops \<Rightarrow> nat \<Rightarrow> store_ref \<Rightarrow> 's sharded \<Rightarrow> ('e slot_error + (object_meta \<times> nat) list) \<times> 's sharded" where
  "scan_shard D sid ref c =
     (case Option.bind (sh_raw_refs c) (\<lambda>refs. rr_get refs sid) of
        Some a \<Rightarrow> (Inr (so_list_with_meta D (sh_heap c a)), c)
      | None \<Rightarrow>
          (case on_slot (so_list D) ref c of
             (Inl e, c1) \<Rightarrow> (Inl e, c1)
           | (Inr objects, c1) \<Rightarrow> (Inr (map (\<lambda>m. (m, 0)) objects), c1)))"

definition rebuild_entry ::
  "nat \<Rightarrow> object_meta \<times> nat \<Rightarrow> (string, placement_entry) hashmap \<Rightarrow> (string, placement_entry) hashmap" where
  "rebuild_entry shard_id mm new_map =
     (case mm of (meta, ml) \<Rightarrow>
        let key = om_location meta in
        if is_meta_key key then new_map
        else
          (let entry = (case hm_get new_map key of
                 Some e \<Rightarrow> e
               | None \<Rightarrow> \<lparr>pe_shards = [], pe_size = om_size meta, pe_crc32c = None,
                          pe_updated = om_last_modified meta, pe_meta_len = ml\<rparr>);
               entry1 = (if ml > pe_meta_len entry then entry\<lparr>pe_meta_len := ml\<rparr> else entry);
               entry2 = (if shard_id \<notin> set (pe_shards entry1)
                         then entry1\<lparr>pe_shards := pe_shards entry1 @ [shard_id]\<rparr> else entry1)
           in hm_insert key entry2 new_map))"

definition rebuild_result ::
  "nat \<times> ('e slot_error + (object_meta \<times> nat) list) \<Rightarrow> (string, placement_entry) hashmap \<times> nat \<Rightarrow>
     (string, placement_entry) hashmap \<times> nat" where
  "rebuild_result res st =
     (case res of (shard_id, result) \<Rightarrow>
        (case result of
           Inl _ \<Rightarrow> st
         | Inr objects \<Rightarrow>
             (fold (rebuild_entry shard_id) objects (fst st),
              snd st + length (filter (\<lambda>(m, _). \<not> is_meta_key (om_location m)) objects))))"

definition rebuild_catalog :: "('s, 'e) store_ops \<Rightarrow> 's sharded \<Rightarrow> nat \<times> 's sharded" where
  "rebuild_catalog D c =
     (let shard_stores = map (\<lambda>s. (si_id s, si_store s)) (filter (\<lambda>s. \<not> is_unavailable (si_health s)) (sh_shards c))
      in case fan_out (scan_shard D) shard_stores c of (results, c1) \<Rightarrow>
        (case fold rebuild_result results ([], 0) of (new_map, found) \<Rightarrow>
           (found, update_catalog (\<lambda>cat. clear_dirty (catalog_replace new_map cat)) c1)))"

definition rebuild_catalog_for_shard ::
  "('s, 'e) store_ops \<Rightarrow> int \<Rightarrow> nat \<Rightarrow> 's sharded \<Rightarrow> ('e shard_error + nat) \<times> 's sharded" where
  "rebuild_catalog_for_shard D now shard_id c =
     (case shard_at c shard_id of
        None \<Rightarrow> (Inl NoShards, c)
      | Some s \<Rightarrow>
          (let c1 = update_catalog (\<lambda>cat. snd (remove_all_for_shard shard_id cat)) c in
           case Option.bind (sh_raw_refs c1) (\<lambda>refs. rr_get refs shard_id) of
             Some a \<Rightarrow>
               (let items = so_list_with_meta D (sh_heap c1 a)
                in (Inr (length items), update_catalog (fold (\<lambda>(m, ml).
                      add_replica now (om_location m) shard_id (om_size m) ml) items) c1))
           | None \<Rightarrow>
               (case on_slot (so_list D) (si_store s) c1 of
                  (Inl e, c2) \<Rightarrow> (Inl (ShStore e), c2)
                | (Inr objects, c2) \<Rightarrow>
                    (let listed = filter (\<lambda>m. \<not> is_meta_key (om_location m)) objects
                     in (Inr (length listed), update_catalog (fold (\<lambda>m.
                           add_replica now (om_location m) shard_id (om_size m) 0) listed) c2)))))"

section \<open>Invalidation, attach and removal\<close>

record invalidate_report =
  ir_shard_id :: nat
  ir_entries_purged :: nat
  ir_entries_restored :: nat
  ir_missing_keys :: "string list"
  ir_scan_ok :: bool

definition invalidate_shard ::
  "('s, 'e) store_ops \<Rightarrow> int \<Rightarrow> nat \<Rightarrow> 's sharded \<Rightarrow> ('e shard_error + invalidate_report) \<times> 's sharded" where
  "invalidate_shard D now shard_id c =
     (if shard_id \<ge> length (sh_shards c) then (Inl NoShards, c)
      else
        (let c1 = update_shard shard_id (\<lambda>s. s\<lparr>si_health := Degraded\<rparr>) c;
             old_keys = map fst (entries_for_shard shard_id (sh_catalog c1));
             (entries_purged, cat) = remove_all_for_shard shard_id (sh_catalog c1)
         in case rebuild_catalog_for_shard D now shard_id (c1\<lparr>sh_catalog := cat\<rparr>) of (scan_result, c2) \<Rightarrow>
              let new_keys = map fst (entries_for_shard shard_id (sh_catalog c2));
                  report = \<lparr>ir_shard_id = shard_id, ir_entries_purged = entries_purged,
                    ir_entries_restored = (case scan_result of Inr n \<Rightarrow> n | Inl _ \<Rightarrow> 0),
                    ir_missing_keys = filter (\<lambda>k. k \<notin> set new_keys) old_keys, ir_scan_ok = is_ok scan_result\<rparr>
              in (Inr report,
                  if is_ok scan_result
                  then update_shard shard_id (\<lambda>s. s\<lparr>si_health := Healthy, si_offline_since := None\<rparr>) c2 else c2)))"

definition attach_shard ::
  "('s, 'e) store_ops \<Rightarrow> int \<Rightarrow> nat \<Rightarrow> store_ref \<Rightarrow> bool \<Rightarrow> 's sharded \<Rightarrow> ('e shard_error + nat) \<times> 's sharded" where
  "attach_shard D now shard_id store force c =
     (if shard_id \<ge> length (sh_shards c) then (Inl NoShards, c)
      else
        (let c1 = update_shard shard_id (\<lambda>s. s\<lparr>si_store := store, si_health := Syncing, si_free_space := u64_max,
               si_offline_since := None, si_suppress_replication := False, si_detach_reason := None\<rparr>) c;
             (result, c2) = (if force then rebuild_catalog_for_shard D now shard_id c1
               else case invalidate_shard D now shard_id c1 of
                      (Inl e, c2) \<Rightarrow> (Inl e, c2)
                    | (Inr r, c2) \<Rightarrow> (Inr (ir_entries_restored r), c2))
         in (result, update_shard shard_id (\<lambda>s. if is_ok result then s\<lparr>si_health := Healthy\<rparr>
               else s\<lparr>si_health := Offline, si_offline_since := Some now\<rparr>) c2)))"

definition remove_replica ::
  "('s, 'e) store_ops \<Rightarrow> string \<Rightarrow> nat \<Rightarrow> 's sharded \<Rightarrow> ('e shard_error + unit) \<times> 's sharded" where
  "remove_replica D key shard_id c =
     (case shard_at c shard_id of
        None \<Rightarrow> (Inl NoShards, c)
      | Some s \<Rightarrow>
          (let path = so_path D key;
               c1 = cleanup_sidecar_maybe D path (sh_raw_refs c) shard_id (si_store s) c
           in case on_slot (so_delete D path) (si_store s) c1 of
                (Inl e, c2) \<Rightarrow> (Inl (ShStore e), c2)
              | (Inr _, c2) \<Rightarrow> (Inr (), update_catalog (catalog_remove_shard key shard_id) c2)))"

section \<open>A scan of one shard\<close>

text \<open>The keys that the scan of a shard sees.\<close>

definition scan_keys :: "('s, 'e) store_ops \<Rightarrow> nat \<Rightarrow> 's sharded \<Rightarrow> string set option" where
  "scan_keys D sid c =
     (case Option.bind (sh_raw_refs c) (\<lambda>refs. rr_get refs sid) of
        Some a \<Rightarrow> Some ((\<lambda>(m, _). om_location m) ` set (so_list_with_meta D (sh_heap c a)))
      | None \<Rightarrow>
          (case fst (on_slot (so_list D) (si_store (sh_shards c ! sid)) c) of
             Inl _ \<Rightarrow> None
           | Inr objects \<Rightarrow> Some {om_location m |m. m \<in> set objects \<and> \<not> is_meta_key (om_location m)}))"

lemma fold_add_replica:
  "fold (\<lambda>x. add_replica now (f x) sid (g x) (h x)) xs =
     fold (\<lambda>(k, i). (\<lambda>(now, n, ml) k sid. add_replica now k sid n ml) i k sid) (map (\<lambda>x. (f x, (now, g x, h x))) xs)"
  by (simp add: fold_map comp_def)

lemma rescan_holders:
  assumes "catalog_ok cat"
  shows "catalog_ok (fold (\<lambda>x. add_replica now (f x) sid (g x) (h x)) xs (snd (remove_all_for_shard sid cat)))"
    and "holders (fold (\<lambda>x. add_replica now (f x) sid (g x) (h x)) xs (snd (remove_all_for_shard sid cat))) =
      (\<lambda>k. if k \<in> f ` set xs then insert sid (holders cat k) else holders cat k - {sid})"
  unfolding fold_add_replica
  using cat.rescan_spec [OF assms, of sid "map (\<lambda>x. (f x, (now, g x, h x))) xs"] by (simp_all add: image_image)

lemma on_slot_list_cong:
  assumes "sh_heap c1 = sh_heap c"
  shows "fst (on_slot f ref c1) = fst (on_slot f ref c)"
  using assms by (simp add: on_slot_def split: store_ref.splits prod.splits)

lemma rebuild_for_shard_spec:
  assumes ok: "catalog_ok (sh_catalog c)" and sid: "sid < length (sh_shards c)"
    and run: "rebuild_catalog_for_shard D now sid c = (r, c')"
  shows "catalog_ok (sh_catalog c') \<and> sh_shards c' = sh_shards c \<and> (is_ok r \<longleftrightarrow> scan_keys D sid c \<noteq> None) \<and>
    holders (sh_catalog c') = (case scan_keys D sid c of
        None \<Rightarrow> (\<lambda>k. holders (sh_catalog c) k - {sid})
      | Some keys \<Rightarrow> (\<lambda>k. if k \<in> keys then insert sid (holders (sh_catalog c) k) else holders (sh_catalog c) k - {sid}))"
proof -
  let ?c1 = "update_catalog (\<lambda>cat. snd (remove_all_for_shard sid cat)) c"
  let ?s = "sh_shards c ! sid"
  have at: "shard_at c sid = Some ?s" using sid by (simp add: shard_at_def)
  have c1: "sh_heap ?c1 = sh_heap c" "sh_raw_refs ?c1 = sh_raw_refs c" "sh_shards ?c1 = sh_shards c"
    "sh_catalog ?c1 = snd (remove_all_for_shard sid (sh_catalog c))" by (simp_all add: update_catalog_def)
  note purge = remove_all_ok(1,2) [OF ok, of sid]
  show ?thesis
  proof (cases "Option.bind (sh_raw_refs c) (\<lambda>refs. rr_get refs sid)")
    case (Some a)
    let ?items = "so_list_with_meta D (sh_heap c a)"
    have split: "(\<lambda>(m, ml). add_replica now (om_location m) sid (om_size m) ml) =
        (\<lambda>x. add_replica now (om_location (fst x)) sid (om_size (fst x)) (snd x))" by (simp add: fun_eq_iff case_prod_beta)
    from run at c1 Some have "r = Inr (length ?items)"
      "c' = update_catalog (fold (\<lambda>(m, ml). add_replica now (om_location m) sid (om_size m) ml) ?items) ?c1"
      by (simp_all add: rebuild_catalog_for_shard_def Let_def)
    with Some show ?thesis
      using rescan_holders [OF ok, of now "\<lambda>x. om_location (fst x)" sid "\<lambda>x. om_size (fst x)" snd ?items] c1
      unfolding split by (simp add: update_catalog_def scan_keys_def case_prod_beta)
  next
    case None
    obtain r2 c2 where l: "on_slot (so_list D) (si_store ?s) ?c1 = (r2, c2)" by fastforce
    have r2: "fst (on_slot (so_list D) (si_store ?s) c) = r2"
      using on_slot_list_cong [OF c1(1), of "so_list D" "si_store ?s"] l by simp
    have k2: "sh_catalog c2 = sh_catalog ?c1" "sh_shards c2 = sh_shards c"
      using heap_only_keeps [OF on_slot_frame [OF l]] c1(3) by simp_all
    show ?thesis
    proof (cases r2)
      case (Inl e)
      with run at c1(2) None l have "r = Inl (ShStore e)" "c' = c2"
        by (simp_all add: rebuild_catalog_for_shard_def Let_def)
      with Inl None r2 k2 c1(4) purge show ?thesis by (simp add: scan_keys_def)
    next
      case (Inr objects)
      let ?listed = "filter (\<lambda>m. \<not> is_meta_key (om_location m)) objects"
      from run at c1(2) None l Inr have "r = Inr (length ?listed)"
        "c' = update_catalog (fold (\<lambda>m. add_replica now (om_location m) sid (om_size m) 0) ?listed) c2"
        by (simp_all add: rebuild_catalog_for_shard_def Let_def)
      moreover have "om_location ` set ?listed = {om_location m |m. m \<in> set objects \<and> \<not> is_meta_key (om_location m)}"
        by auto
      ultimately show ?thesis
        using rescan_holders [OF ok, of now om_location sid om_size "\<lambda>_. 0" ?listed] None r2 Inr k2 c1(4)
        by (simp add: update_catalog_def scan_keys_def)
    qed
  qed
qed

section \<open>Rebuilding the whole catalog\<close>

definition map_ok :: "(string, placement_entry) hashmap \<Rightarrow> bool" where
  "map_ok m \<longleftrightarrow> catalog_ok \<lparr>ct_entries = m, ct_dirty = False\<rparr>"

definition map_holders :: "(string, placement_entry) hashmap \<Rightarrow> string \<Rightarrow> nat set" where
  "map_holders m = holders \<lparr>ct_entries = m, ct_dirty = False\<rparr>"

lemma map_holders_get: "map_holders m k = (case hm_get m k of None \<Rightarrow> {} | Some e \<Rightarrow> set (pe_shards e))"
  by (simp add: map_holders_def holders_def catalog_get_def)

lemma map_ok_iff: "map_ok m \<longleftrightarrow> hm_wf m \<and> (\<forall>k e. hm_get m k = Some e \<longrightarrow> pe_shards e \<noteq> [] \<and> distinct (pe_shards e))"
  by (simp add: map_ok_def catalog_ok_iff catalog_get_def)

lemma rebuild_entry_spec:
  assumes "map_ok m"
  shows "map_ok (rebuild_entry sid (meta, ml) m) \<and> map_holders (rebuild_entry sid (meta, ml) m) =
    (if is_meta_key (om_location meta) then map_holders m
     else (map_holders m)(om_location meta := insert sid (map_holders m (om_location meta))))"
proof (cases "is_meta_key (om_location meta)")
  case True
  then show ?thesis using assms by (simp add: rebuild_entry_def)
next
  case False
  let ?k = "om_location meta"
  define e0 where "e0 = (case hm_get m ?k of
      Some e \<Rightarrow> e
    | None \<Rightarrow> \<lparr>pe_shards = [], pe_size = om_size meta, pe_crc32c = None, pe_updated = om_last_modified meta, pe_meta_len = ml\<rparr>)"
  have e0: "distinct (pe_shards e0)" "set (pe_shards e0) = map_holders m ?k"
    using assms by (auto simp: e0_def map_ok_iff map_holders_get split: option.splits)
  define e1 where "e1 = (if ml > pe_meta_len e0 then e0\<lparr>pe_meta_len := ml\<rparr> else e0)"
  define e where "e = (if sid \<notin> set (pe_shards e1) then e1\<lparr>pe_shards := pe_shards e1 @ [sid]\<rparr> else e1)"
  have "rebuild_entry sid (meta, ml) m = hm_insert ?k e m"
    using False unfolding e_def e1_def e0_def by (simp only: rebuild_entry_def Let_def prod.case if_False)
  moreover have "pe_shards e1 = pe_shards e0" by (simp add: e1_def)
  ultimately have e: "rebuild_entry sid (meta, ml) m = hm_insert ?k e m" "distinct (pe_shards e)"
    "set (pe_shards e) = insert sid (map_holders m ?k)"
    using e0 by (auto simp: e_def)
  then have "pe_shards e \<noteq> []" by auto
  with e assms False show ?thesis
    by (auto simp: map_ok_iff map_holders_get fun_eq_iff hm_simps)
qed

text \<open>The keys that a scan result contributes.\<close>

definition result_keys :: "'e slot_error + (object_meta \<times> nat) list \<Rightarrow> string set" where
  "result_keys res = (case res of Inl _ \<Rightarrow> {} | Inr objects \<Rightarrow>
     {om_location m |m ml. (m, ml) \<in> set objects \<and> \<not> is_meta_key (om_location m)})"

lemma fold_rebuild_entry:
  assumes "map_ok m"
  shows "map_ok (fold (rebuild_entry sid) objects m) \<and> map_holders (fold (rebuild_entry sid) objects m) =
    (\<lambda>k. if k \<in> result_keys (Inr objects :: 'e slot_error + _) then insert sid (map_holders m k) else map_holders m k)"
  using assms
proof (induction objects arbitrary: m)
  case Nil
  then show ?case by (simp add: result_keys_def)
next
  case (Cons o' objects)
  obtain meta ml where o': "o' = (meta, ml)" by (cases o')
  note step = rebuild_entry_spec [OF Cons.prems, of sid meta ml]
  have "result_keys (Inr (o' # objects) :: 'e slot_error + _) =
      (if is_meta_key (om_location meta) then {} else {om_location meta}) \<union> result_keys (Inr objects :: 'e slot_error + _)"
    by (auto simp: result_keys_def o')
  with Cons.IH [of "rebuild_entry sid (meta, ml) m"] step show ?case
    by (auto simp: o' fun_eq_iff)
qed

lemma fold_rebuild_result:
  fixes results :: "(nat \<times> ('e slot_error + (object_meta \<times> nat) list)) list"
  assumes "map_ok (fst st)"
  shows "map_ok (fst (fold rebuild_result results st)) \<and>
    map_holders (fst (fold rebuild_result results st)) =
      (\<lambda>k. map_holders (fst st) k \<union> {sid. \<exists>res. (sid, res) \<in> set results \<and> k \<in> result_keys res})"
  using assms
proof (induction results arbitrary: st)
  case Nil
  then show ?case by simp
next
  case (Cons r results)
  obtain sid res where r: "r = (sid, res)" by (cases r)
  have step: "map_ok (fst (rebuild_result r st)) \<and> map_holders (fst (rebuild_result r st)) =
      (\<lambda>k. if k \<in> result_keys res then insert sid (map_holders (fst st) k) else map_holders (fst st) k)"
  proof (cases res)
    case (Inl e)
    then show ?thesis using Cons.prems by (simp add: r rebuild_result_def result_keys_def)
  next
    case (Inr objects)
    then show ?thesis
      using fold_rebuild_entry [OF Cons.prems, of sid objects, where 'e = 'e] by (simp add: r rebuild_result_def)
  qed
  have "map_ok (fst (fold rebuild_result (r # results) st))"
    using Cons.IH [of "rebuild_result r st"] step by simp
  moreover have "map_holders (fst (fold rebuild_result (r # results) st)) k =
      map_holders (fst st) k \<union> {sid. \<exists>res. (sid, res) \<in> set (r # results) \<and> k \<in> result_keys res}" for k
    using Cons.IH [of "rebuild_result r st"] step by (auto simp: r)
  ultimately show ?case by (simp add: fun_eq_iff)
qed

text \<open>
  C15. The rebuilt catalog lists exactly the objects that the scans of the available shards found, each
  with the shards that have it, sidecar keys left out; a shard that is unavailable or whose scan
  failed is in no entry. Every entry has at least one shard and none twice, and the catalog is clean.
\<close>

theorem rebuild_catalog_exact:
  assumes "rebuild_catalog D c = (n, c')"
    and "results = fst (fan_out (scan_shard D)
      (map (\<lambda>s. (si_id s, si_store s)) (filter (\<lambda>s. \<not> is_unavailable (si_health s)) (sh_shards c))) c)"
  shows "catalog_ok (sh_catalog c') \<and> \<not> ct_dirty (sh_catalog c') \<and>
    (\<forall>k sid. sid \<in> holders (sh_catalog c') k \<longleftrightarrow>
       (\<exists>objects m ml. (sid, Inr objects) \<in> set results \<and> (m, ml) \<in> set objects \<and> om_location m = k) \<and> \<not> is_meta_key k)"
proof -
  have empty: "map_ok (fst ([], 0))" "map_holders (fst ([], 0)) = (\<lambda>_. {})"
    by (simp_all add: map_ok_iff map_holders_get fun_eq_iff hm_simps)
  note spec = fold_rebuild_result [OF empty(1), of results]
  have cat: "sh_catalog c' = \<lparr>ct_entries = fst (fold rebuild_result results ([], 0)), ct_dirty = False\<rparr>"
    using assms by (auto simp: rebuild_catalog_def Let_def update_catalog_def catalog_replace_def clear_dirty_def
        split: prod.splits)
  have keys: "k \<in> result_keys res \<longleftrightarrow> (\<exists>objects m ml. res = Inr objects \<and> (m, ml) \<in> set objects \<and> om_location m = k) \<and> \<not> is_meta_key k"
    for k and res :: "'b slot_error + (object_meta \<times> nat) list" by (cases res) (auto simp: result_keys_def)
  have "holders (sh_catalog c') k = {sid. \<exists>res. (sid, res) \<in> set results \<and> k \<in> result_keys res}" for k
    using spec empty(2) by (simp add: cat map_holders_def)
  with spec show ?thesis by (auto simp: cat map_ok_def keys)
qed

text \<open>The cluster of \<open>ref_cluster\<close> with the object \<open>a\<close> on both shards and nothing in the catalog.\<close>

definition ref_full :: "inner sharded" where
  "ref_full = ref_cluster\<lparr>sh_heap := (\<lambda>_. ref_one)\<rparr>"

lemma ref_full_fields [simp]:
  "sh_heap ref_full = (\<lambda>_. ref_one)" "sh_catalog ref_full = catalog_new" "sh_raw_refs ref_full = None"
  "sh_shards ref_full = [new_shard 0 0 (Some 0), new_shard 0 1 (Some 1)]" "catalog_ok (sh_catalog ref_full)"
  using ref_cluster_ok(2)
  by (simp_all add: ref_full_def ref_cluster_shards) (simp add: ref_cluster_def sharded_new_def new_with_offline_def)

lemma ref_one_list: "om_location ` set (list_objects ref_paths None ref_one) = {''a''}"
proof -
  have wf: "hm_wf (files_of ref_one)" using ref_one_ok(2) by (simp add: mounted_def space_inv_def)
  from put_entry(1) [OF ref_one_ok(3) ref_rs_facts(1)] obtain info where
    get: "hm_get (files_of ref_one) = [''a'' \<mapsto> info]" by (auto simp: files_of_def ref_rs_facts index_new_def)
  have "(k, v) \<in> set (files_of ref_one) \<longleftrightarrow> k = ''a'' \<and> v = info" for k v
    unfolding hm_get_iff [OF wf, symmetric] get by auto
  then have "set (files_of ref_one) = {(''a'', info)}" by auto
  then show ?thesis
    by (simp add: list_objects_def prefix_filter_def visible_def starts_with_def MULTIPART_TMP_PREFIX_def ref_paths_def
        meta_for_def case_prod_beta)
qed

lemma ref_list: "so_list ref_ops s = (Inr (list_objects ref_paths None s), s)"
  by (simp add: ref_ops_def raw_ops_def)

theorem rebuild_catalog_exact_witness:
  "\<exists>n c'. rebuild_catalog ref_ops ref_full = (n, c') \<and> holders (sh_catalog c') ''a'' = {0, 1} \<and>
     holders (sh_catalog c') ''b'' = {}"
proof -
  obtain n c' where run: "rebuild_catalog ref_ops ref_full = (n, c')" by fastforce
  define ms where "ms = list_objects ref_paths None ref_one"
  define res :: "(nat \<times> (os_error slot_error + (object_meta \<times> nat) list)) list"
    where "res = [(0, Inr (map (\<lambda>m. (m, 0)) ms)), (1, Inr (map (\<lambda>m. (m, 0)) ms))]"
  have "res = fst (fan_out (scan_shard ref_ops) (map (\<lambda>s. (si_id s, si_store s))
      (filter (\<lambda>s. \<not> is_unavailable (si_health s)) (sh_shards ref_full))) ref_full)"
    by (simp add: new_shard_def is_unavailable_def scan_shard_def on_slot_def ref_list res_def ms_def)
  note exact = rebuild_catalog_exact [OF run this]
  have "(\<exists>objects m ml. (sid, Inr objects) \<in> set res \<and> (m, ml) \<in> set objects \<and> om_location m = k) \<longleftrightarrow>
      sid \<in> {0, 1} \<and> k \<in> om_location ` set ms" for sid k
    by (auto simp: res_def image_iff)
  with exact have "sid \<in> holders (sh_catalog c') k \<longleftrightarrow> sid \<in> {0, 1} \<and> k = ''a'' \<and> \<not> is_meta_key k" for sid k
    using ref_one_list by (simp only: ms_def singleton_iff conj_assoc)
  moreover have "\<not> is_meta_key ''a''" by (simp add: is_meta_key_def suffix_def)
  ultimately have "holders (sh_catalog c') ''a'' = {0, 1}" "holders (sh_catalog c') ''b'' = {}"
    by (simp_all add: set_eq_iff)
  with run show ?thesis by blast
qed

section \<open>Attaching a shard\<close>

lemma scan_keys_cong:
  assumes "sh_raw_refs c1 = sh_raw_refs c" and "sh_heap c1 = sh_heap c"
    and "si_store (sh_shards c1 ! sid) = si_store (sh_shards c ! sid)"
  shows "scan_keys D sid c1 = scan_keys D sid c"
  unfolding scan_keys_def assms(1,3) on_slot_list_cong [OF assms(2)] assms(2) ..

text \<open>The state in which \<open>attach_shard\<close> scans: the slot has the new store.\<close>

definition attached :: "nat \<Rightarrow> store_ref \<Rightarrow> 's sharded \<Rightarrow> 's sharded" where
  "attached sid store c = update_shard sid (\<lambda>s. s\<lparr>si_store := store, si_health := Syncing, si_free_space := u64_max,
     si_offline_since := None, si_suppress_replication := False, si_detach_reason := None\<rparr>) c"

lemma invalidate_spec:
  assumes ok: "catalog_ok (sh_catalog c)" and sid: "sid < length (sh_shards c)"
    and run: "invalidate_shard D now sid c = (r, c')"
  shows "\<exists>rep. r = Inr rep \<and> ir_scan_ok rep = (scan_keys D sid c \<noteq> None) \<and> catalog_ok (sh_catalog c') \<and>
    slots c' = slots c \<and> holders (sh_catalog c') = (case scan_keys D sid c of
        None \<Rightarrow> (\<lambda>k. holders (sh_catalog c) k - {sid})
      | Some keys \<Rightarrow> (\<lambda>k. if k \<in> keys then insert sid (holders (sh_catalog c) k) else holders (sh_catalog c) k - {sid}))"
proof -
  let ?c1 = "update_shard sid (\<lambda>s. s\<lparr>si_health := Degraded\<rparr>) c"
  let ?c2 = "?c1\<lparr>sh_catalog := snd (remove_all_for_shard sid (sh_catalog ?c1))\<rparr>"
  have k1: "frame c ?c1" "sh_catalog ?c1 = sh_catalog c" "sh_heap ?c1 = sh_heap c" by (simp_all add: update_shard_keeps)
  have ok2: "catalog_ok (sh_catalog ?c2)" using remove_all_ok(1) [OF ok] k1(2) by simp
  have h2: "holders (sh_catalog ?c2) = (\<lambda>k. holders (sh_catalog c) k - {sid})" using remove_all_ok(2) [OF ok] k1(2) by simp
  have sid2: "sid < length (sh_shards ?c2)" using sid frame_length [OF k1(1)] by simp
  obtain res c3 where rb: "rebuild_catalog_for_shard D now sid ?c2 = (res, c3)" by fastforce
  note spec = rebuild_for_shard_spec [OF ok2 sid2 rb]
  have st: "si_store (sh_shards ?c2 ! sid) = si_store (sh_shards c ! sid)" using sid by (simp add: update_shard_def)
  have raw: "sh_raw_refs ?c2 = sh_raw_refs c" by (simp add: update_shard_def)
  have scan: "scan_keys D sid ?c2 = scan_keys D sid c" using scan_keys_cong [OF raw _ st] k1(3) by simp
  obtain rep where rep: "r = Inr rep" "ir_scan_ok rep = is_ok res"
    and c': "c' = (if is_ok res then update_shard sid (\<lambda>s. s\<lparr>si_health := Healthy, si_offline_since := None\<rparr>) c3 else c3)"
    using run sid rb by (auto simp: invalidate_shard_def Let_def case_prod_beta)
  have "frame c3 c'" "sh_catalog c' = sh_catalog c3" by (auto simp: c' update_shard_keeps)
  moreover have "slots c3 = slots c" using spec k1(1) by (simp add: slots_def frame_def)
  ultimately have "slots c' = slots c" "sh_catalog c' = sh_catalog c3" by (simp_all add: frame_def)
  moreover have "holders (sh_catalog c3) = (case scan_keys D sid c of
        None \<Rightarrow> (\<lambda>k. holders (sh_catalog c) k - {sid})
      | Some keys \<Rightarrow> (\<lambda>k. if k \<in> keys then insert sid (holders (sh_catalog c) k) else holders (sh_catalog c) k - {sid}))"
    using spec unfolding scan h2 by (auto simp: fun_eq_iff split: option.splits)
  ultimately show ?thesis using rep spec unfolding scan by simp
qed

text \<open>Everything that attaching a store does to the catalog and to the slot.\<close>

lemma attach_shard_outcome:
  assumes "catalog_ok (sh_catalog c)" and "sid < length (sh_shards c)" and "attach_shard D now sid store force c = (r, c')"
  shows "catalog_ok (sh_catalog c') \<and> slots c' = (slots c)[sid := store] \<and>
    si_health (sh_shards c' ! sid) = (if is_ok r then Healthy else Offline) \<and>
    (\<forall>k. holders (sh_catalog c') k - {sid} = holders (sh_catalog c) k - {sid}) \<and>
    (case scan_keys D sid (attached sid store c) of
       Some keys \<Rightarrow> is_ok r \<and> (\<forall>k. sid \<in> holders (sh_catalog c') k \<longleftrightarrow> k \<in> keys)
     | None \<Rightarrow> (is_ok r \<longleftrightarrow> \<not> force) \<and> (\<forall>k. sid \<notin> holders (sh_catalog c') k))"
proof -
  let ?c1 = "attached sid store c"
  have c1: "sh_catalog ?c1 = sh_catalog c" "slots ?c1 = (slots c)[sid := store]" "sid < length (sh_shards ?c1)"
    using assms(2) by (simp_all add: attached_def update_shard_def slots_def map_update)
  have ok1: "catalog_ok (sh_catalog ?c1)" using assms(1) c1(1) by simp
  obtain res c2 where step: "(if force then rebuild_catalog_for_shard D now sid ?c1
      else case invalidate_shard D now sid ?c1 of (Inl e, c2) \<Rightarrow> (Inl e, c2) | (Inr r, c2) \<Rightarrow> (Inr (ir_entries_restored r), c2)) = (res, c2)"
    by fastforce
  have fin: "r = res" "c' = update_shard sid (\<lambda>s. if is_ok res then s\<lparr>si_health := Healthy\<rparr>
      else s\<lparr>si_health := Offline, si_offline_since := Some now\<rparr>) c2"
  proof -
    have "attach_shard D now sid store force c = (res, update_shard sid (\<lambda>s. if is_ok res then s\<lparr>si_health := Healthy\<rparr>
        else s\<lparr>si_health := Offline, si_offline_since := Some now\<rparr>) c2)"
      unfolding attach_shard_def Let_def if_not_P [OF iffD2 [OF linorder_not_le assms(2)]] step [unfolded attached_def] prod.case ..
    from trans [OF sym [OF assms(3)] this] show "r = res" "c' = update_shard sid (\<lambda>s. if is_ok res then s\<lparr>si_health := Healthy\<rparr>
        else s\<lparr>si_health := Offline, si_offline_since := Some now\<rparr>) c2" by (simp_all only: prod.inject)
  qed
  have o: "catalog_ok (sh_catalog c2) \<and> slots c2 = slots ?c1 \<and> (is_ok res \<longleftrightarrow> scan_keys D sid ?c1 \<noteq> None \<or> \<not> force) \<and>
      holders (sh_catalog c2) = (case scan_keys D sid ?c1 of
        None \<Rightarrow> (\<lambda>k. holders (sh_catalog c) k - {sid})
      | Some keys \<Rightarrow> (\<lambda>k. if k \<in> keys then insert sid (holders (sh_catalog c) k) else holders (sh_catalog c) k - {sid}))"
  proof (cases force)
    case True
    with step have "rebuild_catalog_for_shard D now sid ?c1 = (res, c2)" by simp
    from rebuild_for_shard_spec [OF ok1 c1(3) this] True show ?thesis unfolding c1(1) by (simp add: slots_def)
  next
    case False
    obtain r1 c3 where i: "invalidate_shard D now sid ?c1 = (r1, c3)" by fastforce
    from invalidate_spec [OF ok1 c1(3) i] False step i show ?thesis unfolding c1(1) by auto
  qed
  have fr: "frame c2 c'" "sh_catalog c' = sh_catalog c2" by (simp_all add: fin update_shard_keeps)
  have "length (sh_shards c2) = length (sh_shards ?c1)" using o by (metis length_map slots_def)
  then have health: "si_health (sh_shards c' ! sid) = (if is_ok r then Healthy else Offline)"
    using c1(3) by (simp add: fin update_shard_def)
  from o fr c1(2) health show ?thesis
    unfolding fin(1) by (auto simp: frame_def split: option.splits)
qed

text \<open>
  Where the code departs from its comments. The entries of the shard are purged before the scan also with \<open>force\<close>, which is
  documented as adding the objects found without purging: an entry of the shard that the scan does not find is lost. And
  without \<open>force\<close> a failed scan is a success for the caller: the shard becomes Healthy with no entry instead of Offline.
\<close>

lemma attach_force_purges:
  assumes "catalog_ok (sh_catalog c)" and "sid < length (sh_shards c)" and "attach_shard D now sid store True c = (r, c')"
    and "scan_keys D sid (attached sid store c) = Some keys" and "k \<notin> keys"
  shows "sid \<notin> holders (sh_catalog c') k"
  using attach_shard_outcome [OF assms(1-3)] assms(4,5) by simp

lemma attach_unscanned_healthy:
  assumes "catalog_ok (sh_catalog c)" and "sid < length (sh_shards c)" and "attach_shard D now sid store False c = (r, c')"
    and "scan_keys D sid (attached sid store c) = None"
  shows "is_ok r \<and> si_health (sh_shards c' ! sid) = Healthy \<and> (\<forall>k. sid \<notin> holders (sh_catalog c') k)"
  using attach_shard_outcome [OF assms(1-3)] assms(4) by simp

text \<open>
  C16. What attaching a store to a shard slot guarantees as it is documented: the slot has the store, no other shard's
  listing changes, and the shard is Healthy when the call succeeds and Offline when it fails. When the scan works (of
  the registry's raw store for the slot, else of the attached store), the call succeeds and the shard is listed for
  every key that the scan found, and without \<open>force\<close>, which asks for a purge, for no other. When the scan fails, the
  call fails with \<open>force\<close>. Two more effects, against the comments of the code, are \<open>attach_force_purges\<close> and
  \<open>attach_unscanned_healthy\<close>.
\<close>

theorem attach_shard_exact:
  assumes "catalog_ok (sh_catalog c)" and "sid < length (sh_shards c)" and "attach_shard D now sid store force c = (r, c')"
  shows "catalog_ok (sh_catalog c') \<and> slots c' = (slots c)[sid := store] \<and>
    si_health (sh_shards c' ! sid) = (if is_ok r then Healthy else Offline) \<and>
    (\<forall>k. holders (sh_catalog c') k - {sid} = holders (sh_catalog c) k - {sid}) \<and>
    (case scan_keys D sid (attached sid store c) of
       Some keys \<Rightarrow> is_ok r \<and> keys \<subseteq> {k. sid \<in> holders (sh_catalog c') k} \<and>
         (force \<or> {k. sid \<in> holders (sh_catalog c') k} \<subseteq> keys)
     | None \<Rightarrow> force \<longrightarrow> \<not> is_ok r)"
  using attach_shard_outcome [OF assms] by (auto split: option.splits)

theorem attach_shard_exact_witness:
  "\<exists>r c'. attach_shard ref_ops 7 1 (StoreAt 5) False ref_full = (Inr r, c') \<and>
     1 \<in> holders (sh_catalog c') ''a'' \<and> 1 \<notin> holders (sh_catalog c') ''b'' \<and> si_health (sh_shards c' ! 1) = Healthy"
proof -
  obtain r c' where run: "attach_shard ref_ops 7 1 (StoreAt 5) False ref_full = (r, c')" by fastforce
  have "{om_location m |m. m \<in> set (list_objects ref_paths None ref_one) \<and> \<not> is_meta_key (om_location m)} =
      {k \<in> om_location ` set (list_objects ref_paths None ref_one). \<not> is_meta_key k}" by blast
  also have "\<dots> = {''a''}" unfolding ref_one_list by (auto simp: is_meta_key_def suffix_def)
  finally have "scan_keys ref_ops 1 (attached 1 (StoreAt 5) ref_full) = Some {''a''}"
    by (simp add: scan_keys_def attached_def update_shard_def on_slot_def ref_list)
  with attach_shard_exact [OF ref_full_fields(5) _ run] run show ?thesis by (cases r) auto
qed

end
