(* ===== verification/Sharded_Hazards.thy ===== *)
theory Sharded_Hazards
  imports Shard_Recovery
begin

text \<open>
  Executions of the sharded store in which the code does less than its comments promise: a
  conditional put that misses its quorum leaves its data on the shards, and attaching a store
  scans the raw store of the registry instead of the attached one.
\<close>

section \<open>Conditional put below the quorum\<close>

text \<open>Two raw stores, the second of them read-only, with a quorum of two writes.\<close>

definition half_cluster :: "inner sharded" where
  "half_cluster = (with_min_writes 2 ref_cluster)\<lparr>sh_heap := (\<lambda>_. rs_inner ref_rs)(1 := (rs_inner ref_rs)\<lparr>in_read_only := True\<rparr>)\<rparr>"

text \<open>
  \<open>cleanup_orphaned_writes\<close> removes the data of a failed write only for a key that is not in the
  catalog. The placeholder entry of a conditional put is in the catalog during the write, so its
  data stays on the shard, and the placeholder is removed afterwards: the key has no entry but the
  shard has the object, which a later read or catalog rebuild finds.
\<close>

lemma create_leaves_orphan:
  "\<exists>es c'. put_create ref_ops 0 ''a'' ref_payload half_cluster = (Inl (ShInsufficientWrites ''a'' 2 1 es), c') \<and>
     catalog_get (sh_catalog c') ''a'' = None \<and> sh_heap c' 0 = ref_one"
proof -
  let ?ro = "(rs_inner ref_rs)\<lparr>in_read_only := True\<rparr>"
  have f: "sh_shards half_cluster = [new_shard 0 0 (Some 0), new_shard 0 1 (Some 1)]" "sh_min_writes half_cluster = 2"
    "sh_replication half_cluster = \<lparr>rp_factor = 2\<rparr>" "sh_catalog half_cluster = catalog_new"
    "sh_heap half_cluster = (\<lambda>_. rs_inner ref_rs)(1 := ?ro)"
    by (simp_all add: half_cluster_def with_min_writes_def ref_cluster_shards)
  have t: "select_targets ref_ops ''a'' half_cluster = [0, 1]"
    by (simp add: select_targets_def f write_target_def new_shard_def is_unavailable_def Let_def)
  obtain cat where ins: "try_insert 0 ''a'' [0, 1] (length ref_payload) catalog_new = (True, cat)"
    and get: "map_option pe_crc32c (catalog_get cat ''a'') = Some None"
    by (simp add: try_insert_def catalog_new_def catalog_get_def hm_simps)
  have put: "so_put ref_ops 0 ''a'' ref_payload (rs_inner ref_rs) = (Inr (), ref_one)"
    using ref_one_ok(3) by (simp add: ref_ops_def raw_ops_def put_opts_def do_put_def Let_def map_os_def)
  obtain e where put2: "so_put ref_ops 0 ''a'' ref_payload ?ro = (Inl e, ?ro)"
    by (simp add: ref_ops_def raw_ops_def put_opts_def do_put_def do_put_with_meta_def Let_def map_os_def)
  let ?c = "half_cluster\<lparr>sh_catalog := cat\<rparr>"
  have fan: "fan_put ref_ops 0 ''a'' ref_payload [0, 1] ?c =
      ([(0, Inr ()), (1, Inl (SlotError e))], ?c\<lparr>sh_heap := (sh_heap half_cluster)(0 := ref_one)\<rparr>)"
    by (simp add: fan_put_def stores_of_def f new_shard_def on_slot_def put put2 fun_upd_twist)
  let ?c1 = "?c\<lparr>sh_heap := (sh_heap half_cluster)(0 := ref_one)\<rparr>"
  let ?c2 = "mark_degraded 0 1 ?c1"
  have keep: "sh_catalog ?c2 = cat" "sh_heap ?c2 0 = ref_one"
    by (simp_all add: mark_degraded_def set_shard_health_def update_shard_keeps)
  then have kept: "cleanup_orphaned_writes ref_ops ''a'' [0] ?c2 = ?c2"
    using get by (auto simp: cleanup_orphaned_writes_def)
  have "write_to_shards ref_ops 0 ''a'' ref_payload [0, 1] ?c =
      (Inl (ShInsufficientWrites ''a'' 2 1 [(1, False, SlotError e)]), ?c2)"
    using kept by (simp add: write_to_shards_def write_to_shards_inner_def fan [simplified] f mark_write_failures_def enforce_min_def)
  then have run: "put_create ref_ops 0 ''a'' ref_payload half_cluster =
      (Inl (ShInsufficientWrites ''a'' 2 1 [(1, False, SlotError e)]), drop_placeholder ''a'' ?c2)"
    unfolding put_create_def t Let_def f(4) ins by simp
  have "drop_placeholder ''a'' ?c2 = update_catalog (\<lambda>cat. snd (catalog_remove ''a'' cat)) ?c2"
    using get unfolding drop_placeholder_def keep(1) by auto
  then have "catalog_get (sh_catalog (drop_placeholder ''a'' ?c2)) ''a'' = None" "sh_heap (drop_placeholder ''a'' ?c2) 0 = ref_one"
    using keep by (simp_all add: update_catalog_def catalog_remove_def catalog_get_def Let_def hm_simps)
  with run show ?thesis by blast
qed

section \<open>Attach with a registry\<close>

text \<open>
  When the registry has a raw store for the slot, \<open>attach_shard\<close> scans that store: the keys for which
  the catalog lists the shard afterwards are those of the registry's store, whatever store was
  attached.
\<close>

lemma attach_scans_registry:
  assumes "sh_raw_refs c = Some refs" and "rr_get refs sid = Some a"
  shows "scan_keys D sid (attached sid store c) = Some ((\<lambda>(m, _). om_location m) ` set (so_list_with_meta D (sh_heap c a)))"
  using assms by (simp add: scan_keys_def attached_def update_shard_def)

end
