(* ===== verification/Shard_Metadata.thy ===== *)
theory Shard_Metadata
  imports Sharded_Ops
begin

text \<open>
  Object metadata on the shards (\<open>shardedobjstr/src/metadata.rs\<close>): metadata as attributes of an
  S3-like store, as a suffix of the object on a raw store and as a sidecar object elsewhere, and
  the calls that route it. \<open>write_with_meta_to_shard\<close> is from \<open>repair.rs\<close>.

  The methods of a shard that these calls use beyond \<open>store_ops\<close> are the parameter record
  \<open>meta_api\<close>: \<open>put_opts\<close> with attributes, the attributes of a get result, \<open>list\<close> with a prefix
  and the metadata methods of a raw store, called on the raw store of the registry.
\<close>

section \<open>Attributes\<close>

datatype attribute =
    ContentType
  | CacheControl
  | ContentDisposition
  | ContentEncoding
  | ContentLanguage
  | Metadata string
  | OtherAttribute string

type_synonym attributes = "(attribute, string) hashmap"

definition AMZ_META :: string where
  "AMZ_META = ''x-amz-meta-''"

definition attribute_of :: "string \<Rightarrow> attribute option" where
  "attribute_of key =
     (if key = ''content-type'' then Some ContentType
      else if key = ''cache-control'' then Some CacheControl
      else if key = ''content-disposition'' then Some ContentDisposition
      else if key = ''content-encoding'' then Some ContentEncoding
      else if key = ''content-language'' then Some ContentLanguage
      else if prefix AMZ_META key then Some (Metadata (drop (length AMZ_META) key))
      else None)"

definition meta_to_attributes :: "(string, string) hashmap \<Rightarrow> attributes" where
  "meta_to_attributes meta =
     fold (\<lambda>(key, v) attrs. case attribute_of key of Some a \<Rightarrow> hm_insert a v attrs | None \<Rightarrow> attrs) meta []"

fun attribute_key :: "attribute \<Rightarrow> string option" where
  "attribute_key ContentType = Some ''content-type''"
| "attribute_key CacheControl = Some ''cache-control''"
| "attribute_key ContentDisposition = Some ''content-disposition''"
| "attribute_key ContentEncoding = Some ''content-encoding''"
| "attribute_key ContentLanguage = Some ''content-language''"
| "attribute_key (Metadata k) = Some (AMZ_META @ k)"
| "attribute_key (OtherAttribute _) = None"

definition attributes_to_meta :: "attributes \<Rightarrow> (string, string) hashmap" where
  "attributes_to_meta attrs =
     fold (\<lambda>(attr, v) m. case attribute_key attr of Some key \<Rightarrow> hm_insert key v m | None \<Rightarrow> m) attrs []"

section \<open>One shard\<close>

record ('s, 'e) meta_api =
  ma_put_attrs :: "int \<Rightarrow> string \<Rightarrow> byte list \<Rightarrow> attributes \<Rightarrow> 's \<Rightarrow> ('e + unit) \<times> 's"
  ma_attributes :: "string \<Rightarrow> 's \<Rightarrow> attributes"
  ma_list :: "string option \<Rightarrow> 's \<Rightarrow> ('e + object_meta list) \<times> 's"
  ma_put_with_meta :: "int \<Rightarrow> string \<Rightarrow> byte list \<Rightarrow> byte list \<Rightarrow> 's \<Rightarrow> unit result \<times> 's"
  ma_get_metadata :: "string \<Rightarrow> 's \<Rightarrow> byte list result"
  ma_head_with_meta :: "string \<Rightarrow> 's \<Rightarrow> (object_meta \<times> nat) result"
  ma_list_with_meta :: "string option \<Rightarrow> 's \<Rightarrow> (object_meta \<times> nat) list"
  ma_set_meta_len :: "string \<Rightarrow> nat \<Rightarrow> 's \<Rightarrow> unit result \<times> 's"

text \<open>
  \<open>obj_err\<close> makes a \<open>RawStoreError\<close> of an \<open>object_store::Error\<close>: \<open>NotFound\<close> stays, everything else
  becomes an I/O error with the text of the original, kept as a value here. \<open>MdStore\<close> is an
  \<open>object_store::Error\<close> that is passed on as it is.
\<close>

datatype 'e meta_error =
    MdRaw raw_store_error
  | MdNotFound "'e slot_error"
  | MdIo "'e slot_error"
  | MdStore "'e slot_error"

definition obj_err :: "('s, 'e) store_ops \<Rightarrow> 'e slot_error \<Rightarrow> 'e meta_error" where
  "obj_err D e = (if slot_not_found D e then MdNotFound e else MdIo e)"

text \<open>A call on a raw store of the registry, and one on a slot's store whose errors are wrapped.\<close>

definition on_raw :: "('s \<Rightarrow> 'r result \<times> 's) \<Rightarrow> nat \<Rightarrow> 's sharded \<Rightarrow> ('e meta_error + 'r) \<times> 's sharded" where
  "on_raw f a c =
     (case f (sh_heap c a) of (r, s) \<Rightarrow>
        (case r of Inl e \<Rightarrow> Inl (MdRaw e) | Inr x \<Rightarrow> Inr x, c\<lparr>sh_heap := (sh_heap c)(a := s)\<rparr>))"

definition on_slot_with ::
  "('e slot_error \<Rightarrow> 'x) \<Rightarrow> ('s \<Rightarrow> ('e + 'r) \<times> 's) \<Rightarrow> store_ref \<Rightarrow> 's sharded \<Rightarrow> ('x + 'r) \<times> 's sharded" where
  "on_slot_with wrap f ref c =
     (case on_slot f ref c of (Inl e, c1) \<Rightarrow> (Inl (wrap e), c1) | (Inr x, c1) \<Rightarrow> (Inr x, c1))"

text \<open>A full get with the attributes of its result.\<close>

definition get_with_attrs ::
  "('s, 'e) store_ops \<Rightarrow> ('s, 'e) meta_api \<Rightarrow> string \<Rightarrow> 's \<Rightarrow> ('e + ('e + byte list) \<times> attributes) \<times> 's" where
  "get_with_attrs D M location s =
     (case so_get D None location s of
        (Inl e, s1) \<Rightarrow> (Inl e, s1)
      | (Inr body, s1) \<Rightarrow> (Inr (body, ma_attributes M location s), s1))"

definition nonempty :: "byte list \<Rightarrow> byte list option" where
  "nonempty bs = (if bs = [] then None else Some bs)"

definition read_metadata_from_shard ::
  "('s, 'e) store_ops \<Rightarrow> ('s, 'e) meta_api \<Rightarrow> store_ref \<Rightarrow> nat \<Rightarrow> string \<Rightarrow> attributes \<Rightarrow> raw_ref_registry \<Rightarrow>
     's sharded \<Rightarrow> byte list option \<times> 's sharded" where
  "read_metadata_from_shard D M store shard_id location attributes refs c =
     (case rr_kind refs shard_id of
        RawKind \<Rightarrow>
          (case rr_get refs shard_id of
             Some a \<Rightarrow> (case ma_get_metadata M location (sh_heap c a) of Inr b \<Rightarrow> nonempty b | Inl _ \<Rightarrow> None, c)
           | None \<Rightarrow> (None, c))
      | S3Like \<Rightarrow>
          (let meta_map = attributes_to_meta attributes in
           if meta_map = [] then (None, c)
           else (case encode_metadata meta_map of Inr b \<Rightarrow> nonempty b | Inl _ \<Rightarrow> None, c))
      | Sidecar \<Rightarrow>
          (case on_slot (so_get D None (meta_sidecar_path D location)) store c of
             (Inr (Inr b), c1) \<Rightarrow> (nonempty b, c1)
           | (_, c1) \<Rightarrow> (None, c1)))"

definition try_put_shard ::
  "('s, 'e) store_ops \<Rightarrow> ('s, 'e) meta_api \<Rightarrow> int \<Rightarrow> raw_ref_registry \<Rightarrow> string \<Rightarrow> byte list \<Rightarrow> byte list \<Rightarrow> nat \<Rightarrow>
     's sharded \<Rightarrow> ('e meta_error + unit) \<times> 's sharded" where
  "try_put_shard D M now refs location payload metadata shard_id c =
     (case rr_kind refs shard_id of
        RawKind \<Rightarrow>
          (case rr_get refs shard_id of
             Some a \<Rightarrow> on_raw (ma_put_with_meta M now location payload metadata) a c
           | None \<Rightarrow> (Inl (MdRaw (NotFound (''shard '' @ show_nat shard_id @ '': no raw ref''))), c))
      | S3Like \<Rightarrow>
          (case shard_at c shard_id of
             Some s \<Rightarrow> on_slot_with (obj_err D) (ma_put_attrs M now location payload
               (meta_to_attributes (decode_metadata metadata))) (si_store s) c
           | None \<Rightarrow> (Inl (MdRaw (NotFound (''shard '' @ show_nat shard_id @ '': no store''))), c))
      | Sidecar \<Rightarrow>
          (case shard_at c shard_id of
             Some s \<Rightarrow>
               (case on_slot_with (obj_err D) (so_put D now location payload) (si_store s) c of
                  (Inl e, c1) \<Rightarrow> (Inl e, c1)
                | (Inr _, c1) \<Rightarrow>
                    (if metadata \<noteq> []
                     then on_slot_with (obj_err D) (so_put D now (meta_sidecar_path D location) metadata) (si_store s) c1
                     else (Inr (), c1)))
           | None \<Rightarrow> (Inl (MdRaw (NotFound (''shard '' @ show_nat shard_id @ '': no store''))), c)))"

text \<open>\<open>repair::write_with_meta_to_shard\<close>: like \<open>try_put_shard\<close>, on a given store, with a plain put as fallback.\<close>

definition write_with_meta_to_shard ::
  "('s, 'e) store_ops \<Rightarrow> ('s, 'e) meta_api \<Rightarrow> int \<Rightarrow> raw_ref_registry \<Rightarrow> nat \<Rightarrow> store_ref \<Rightarrow> string \<Rightarrow> byte list \<Rightarrow>
     byte list \<Rightarrow> 's sharded \<Rightarrow> ('e meta_error + unit) \<times> 's sharded" where
  "write_with_meta_to_shard D M now refs target_shard target_store location data metadata c =
     (if metadata = [] then on_slot_with MdStore (so_put D now location data) target_store c
      else case rr_kind refs target_shard of
        RawKind \<Rightarrow>
          (case rr_get refs target_shard of
             Some a \<Rightarrow> on_raw (ma_put_with_meta M now location data metadata) a c
           | None \<Rightarrow> on_slot_with MdStore (so_put D now location data) target_store c)
      | S3Like \<Rightarrow> on_slot_with MdStore (ma_put_attrs M now location data (meta_to_attributes (decode_metadata metadata))) target_store c
      | Sidecar \<Rightarrow>
          (case on_slot_with MdStore (so_put D now location data) target_store c of
             (Inl e, c1) \<Rightarrow> (Inl e, c1)
           | (Inr _, c1) \<Rightarrow> on_slot_with MdStore (so_put D now (meta_sidecar_path D location) metadata) target_store c1))"

section \<open>Put with metadata\<close>

fun fan_ids :: "(nat \<Rightarrow> 's sharded \<Rightarrow> 'r \<times> 's sharded) \<Rightarrow> nat list \<Rightarrow> 's sharded \<Rightarrow> (nat \<times> 'r) list \<times> 's sharded" where
  "fan_ids f [] c = ([], c)"
| "fan_ids f (sid # ids) c =
     (case f sid c of (r, c1) \<Rightarrow> (case fan_ids f ids c1 of (rs, c2) \<Rightarrow> ((sid, r) # rs, c2)))"

definition sharded_put_with_meta ::
  "('s, 'e) store_ops \<Rightarrow> ('s, 'e) meta_api \<Rightarrow> int \<Rightarrow> raw_ref_registry \<Rightarrow> string \<Rightarrow> byte list \<Rightarrow> byte list \<Rightarrow>
     's sharded \<Rightarrow> ('e meta_error + unit) \<times> 's sharded" where
  "sharded_put_with_meta D M now refs location payload metadata c =
     (if sh_read_only c then (Inl (MdRaw ReadOnly), c)
      else
        (let targets = select_targets D location c in
         case fan_ids (try_put_shard D M now refs location payload metadata) targets c of (outcomes, c1) \<Rightarrow>
         case mark_write_failures D now (oks outcomes) (map fst (errs outcomes)) targets location c1 of (retry_ids, c2) \<Rightarrow>
         case (if oks outcomes = [] \<and> retry_ids \<noteq> []
               then fan_ids (try_put_shard D M now refs location payload metadata) retry_ids c2
               else ([], c2)) of (outcomes2, c3) \<Rightarrow>
           let placed = oks outcomes @ oks outcomes2;
               failures = errs outcomes @ errs outcomes2
           in if placed = []
              then (Inl (if failures = [] then MdRaw (NotFound location) else snd (last failures)), c3)
              else if length placed < sh_min_writes c3
              then (Inl (MdRaw (InsufficientWrites location (sh_min_writes c3) (length placed))),
                    cleanup_orphaned_writes D location placed c3)
              else (Inr (), update_catalog (catalog_put now location placed (length payload)
                     (Some (so_crc32c D payload)) (length metadata mod 65536)) c3)))"

section \<open>Reads of metadata\<close>

fun head_meta_loop ::
  "('s, 'e) store_ops \<Rightarrow> ('s, 'e) meta_api \<Rightarrow> raw_ref_registry \<Rightarrow> string \<Rightarrow> nat list \<Rightarrow> 'e meta_error option \<Rightarrow>
     's sharded \<Rightarrow> ('e meta_error + object_meta \<times> nat) \<times> 's sharded" where
  "head_meta_loop D M refs location [] last_err c =
     (Inl (case last_err of Some e \<Rightarrow> e | None \<Rightarrow> MdRaw (NotFound location)), c)"
| "head_meta_loop D M refs location (shard_id # rest) last_err c =
     (case rr_get refs shard_id of
        Some a \<Rightarrow>
          (case ma_head_with_meta M location (sh_heap c a) of
             Inr r \<Rightarrow> (Inr r, c)
           | Inl (NotFound _) \<Rightarrow> head_meta_loop D M refs location rest last_err c
           | Inl e \<Rightarrow> head_meta_loop D M refs location rest (Some (MdRaw e)) c)
      | None \<Rightarrow>
          (case shard_at c shard_id of
             None \<Rightarrow> head_meta_loop D M refs location rest last_err c
           | Some s \<Rightarrow>
               (case on_slot (so_head D location) (si_store s) c of
                  (Inr meta, c1) \<Rightarrow>
                    (Inr (meta, case catalog_get (sh_catalog c1) location of Some e \<Rightarrow> pe_meta_len e | None \<Rightarrow> 0), c1)
                | (Inl e, c1) \<Rightarrow>
                    (if slot_not_found D e then head_meta_loop D M refs location rest last_err c1
                     else head_meta_loop D M refs location rest (Some (obj_err D e)) c1))))"

definition sharded_head_with_meta ::
  "('s, 'e) store_ops \<Rightarrow> ('s, 'e) meta_api \<Rightarrow> raw_ref_registry \<Rightarrow> string \<Rightarrow> 's sharded \<Rightarrow>
     ('e meta_error + object_meta \<times> nat) \<times> 's sharded" where
  "sharded_head_with_meta D M refs location c =
     (if is_delete_marker location then (Inl (MdRaw (NotFound location)), c)
      else case resolve_shards D location c of ((order, _), c1) \<Rightarrow> head_meta_loop D M refs location order None c1)"

fun get_meta_loop ::
  "('s, 'e) store_ops \<Rightarrow> ('s, 'e) meta_api \<Rightarrow> raw_ref_registry \<Rightarrow> string \<Rightarrow> nat list \<Rightarrow> 's sharded \<Rightarrow>
     ('e meta_error + byte list) \<times> 's sharded" where
  "get_meta_loop D M refs location [] c = (Inl (MdRaw (NotFound location)), c)"
| "get_meta_loop D M refs location (shard_id # rest) c =
     (case rr_get refs shard_id of
        Some a \<Rightarrow>
          (case ma_get_metadata M location (sh_heap c a) of
             Inr data \<Rightarrow> (Inr data, c)
           | Inl _ \<Rightarrow> get_meta_loop D M refs location rest c)
      | None \<Rightarrow>
          (case shard_at c shard_id of
             None \<Rightarrow> get_meta_loop D M refs location rest c
           | Some s \<Rightarrow>
               (case rr_kind refs shard_id of
                  S3Like \<Rightarrow>
                    (case on_slot (get_with_attrs D M location) (si_store s) c of
                       (Inr (_, attributes), c1) \<Rightarrow>
                         (let meta = attributes_to_meta attributes in
                          (Inr (if meta = [] then [] else case encode_metadata meta of Inr b \<Rightarrow> b | Inl _ \<Rightarrow> []), c1))
                     | (Inl _, c1) \<Rightarrow> get_meta_loop D M refs location rest c1)
                | Sidecar \<Rightarrow>
                    (case on_slot (so_get D None (meta_sidecar_path D location)) (si_store s) c of
                       (Inr (Inr bytes), c1) \<Rightarrow> (Inr bytes, c1)
                     | (Inr (Inl e), c1) \<Rightarrow> (Inl (MdIo (SlotError e)), c1)
                     | (Inl _, c1) \<Rightarrow> get_meta_loop D M refs location rest c1)
                | RawKind \<Rightarrow> (Inl (MdRaw Panicked), c))))"

definition sharded_get_metadata ::
  "('s, 'e) store_ops \<Rightarrow> ('s, 'e) meta_api \<Rightarrow> raw_ref_registry \<Rightarrow> string \<Rightarrow> 's sharded \<Rightarrow>
     ('e meta_error + byte list) \<times> 's sharded" where
  "sharded_get_metadata D M refs location c =
     (if is_delete_marker location then (Inl (MdRaw (NotFound location)), c)
      else case resolve_shards D location c of ((order, _), c1) \<Rightarrow> get_meta_loop D M refs location order c1)"

section \<open>Listing, \<open>set_meta_len\<close> and sidecar removal\<close>

text \<open>Items whose key was not seen before, in order.\<close>

fun add_unseen :: "(object_meta \<times> nat) list \<Rightarrow> (object_meta \<times> nat) list \<Rightarrow> (object_meta \<times> nat) list" where
  "add_unseen results [] = results"
| "add_unseen results (x # xs) =
     add_unseen (if om_location (fst x) \<in> (\<lambda>r. om_location (fst r)) ` set results then results else results @ [x]) xs"

fun list_meta_loop ::
  "('s, 'e) meta_api \<Rightarrow> raw_ref_registry \<Rightarrow> string option \<Rightarrow> nat list \<Rightarrow> (object_meta \<times> nat) list \<Rightarrow> 's sharded \<Rightarrow>
     (object_meta \<times> nat) list \<times> 's sharded" where
  "list_meta_loop M refs pfx [] results c = (results, c)"
| "list_meta_loop M refs pfx (shard_id # rest) results c =
     (case rr_get refs shard_id of
        Some a \<Rightarrow>
          list_meta_loop M refs pfx rest
            (add_unseen results (filter (\<lambda>(m, _). \<not> is_delete_marker (om_location m)) (ma_list_with_meta M pfx (sh_heap c a)))) c
      | None \<Rightarrow>
          (case shard_at c shard_id of
             None \<Rightarrow> list_meta_loop M refs pfx rest results c
           | Some s \<Rightarrow>
               (case on_slot (ma_list M pfx) (si_store s) c of (r, c1) \<Rightarrow>
                  (let items = (case r of Inr xs \<Rightarrow> xs | Inl _ \<Rightarrow> []);
                       listed = filter (\<lambda>m. \<not> (rr_kind refs shard_id = Sidecar \<and> suffix ''.__meta__'' (om_location m)) \<and>
                         \<not> is_delete_marker (om_location m)) items
                   in list_meta_loop M refs pfx rest (add_unseen results (map (\<lambda>m. (m, 0)) listed)) c1))))"

definition sharded_list_with_meta ::
  "('s, 'e) meta_api \<Rightarrow> raw_ref_registry \<Rightarrow> string option \<Rightarrow> 's sharded \<Rightarrow> (object_meta \<times> nat) list \<times> 's sharded" where
  "sharded_list_with_meta M refs pfx c = list_meta_loop M refs pfx [0..<length (rr_refs refs)] [] c"

fun set_meta_loop ::
  "('s, 'e) meta_api \<Rightarrow> raw_ref_registry \<Rightarrow> string \<Rightarrow> nat \<Rightarrow> nat list \<Rightarrow> 's sharded \<Rightarrow> ('e meta_error + unit) \<times> 's sharded" where
  "set_meta_loop M refs location meta_len [] c = (Inl (MdRaw (NotFound location)), c)"
| "set_meta_loop M refs location meta_len (shard_id # rest) c =
     (case rr_get refs shard_id of
        Some a \<Rightarrow>
          (case ma_set_meta_len M location meta_len (sh_heap c a) of (r, s) \<Rightarrow>
             let c1 = c\<lparr>sh_heap := (sh_heap c)(a := s)\<rparr>
             in if is_ok r then (Inr (), c1) else set_meta_loop M refs location meta_len rest c1)
      | None \<Rightarrow>
          (if shard_at c shard_id \<noteq> None then (Inr (), c) else set_meta_loop M refs location meta_len rest c))"

definition sharded_set_meta_len ::
  "('s, 'e) store_ops \<Rightarrow> ('s, 'e) meta_api \<Rightarrow> raw_ref_registry \<Rightarrow> string \<Rightarrow> nat \<Rightarrow> 's sharded \<Rightarrow>
     ('e meta_error + unit) \<times> 's sharded" where
  "sharded_set_meta_len D M refs location meta_len c =
     (if sh_read_only c then (Inl (MdRaw ReadOnly), c)
      else case resolve_shards D location c of ((order, _), c1) \<Rightarrow> set_meta_loop M refs location meta_len order c1)"

definition delete_sidecar ::
  "('s, 'e) store_ops \<Rightarrow> raw_ref_registry \<Rightarrow> string \<Rightarrow> 's sharded \<Rightarrow> 's sharded" where
  "delete_sidecar D refs location c =
     (if sh_read_only c then c
      else fold (\<lambda>shard_id c1.
          if rr_kind refs shard_id = Sidecar then
            (case shard_at c1 shard_id of
               Some s \<Rightarrow> snd (on_slot (so_delete D (meta_sidecar_path D location)) (si_store s) c1)
             | None \<Rightarrow> c1)
          else c1) (select_targets D location c) c)"

end
