(* ===== verification/Metadata_Ops.thy ===== *)
theory Metadata_Ops
  imports Shard_Metadata
begin

text \<open>
  What the metadata calls do: the translation between metadata and attributes, and the writes with
  metadata, for shards that keep the contract \<open>meta_store\<close>, an extension of \<open>shard_store\<close>.
\<close>

section \<open>Attributes\<close>

text \<open>Both translations insert the entries of a map under translated keys.\<close>

lemma fold_translate:
  assumes "hm_wf m" and "\<And>k a. f k = Some a \<longleftrightarrow> g a = Some k" and "hm_wf acc"
  shows "hm_wf (fold (\<lambda>(k, v) r. case f k of Some a \<Rightarrow> hm_insert a v r | None \<Rightarrow> r) m acc) \<and>
    hm_get (fold (\<lambda>(k, v) r. case f k of Some a \<Rightarrow> hm_insert a v r | None \<Rightarrow> r) m acc) a =
      (case g a of Some k \<Rightarrow> (case hm_get m k of Some v \<Rightarrow> Some v | None \<Rightarrow> hm_get acc a) | None \<Rightarrow> hm_get acc a)"
  using assms(1,3)
proof (induction m arbitrary: acc)
  case Nil
  then show ?case by (simp add: hm_simps split: option.splits)
next
  case (Cons kv m)
  obtain k v where kv: "kv = (k, v)" by (cases kv)
  have wf: "hm_wf m" and new: "hm_get m k = None"
    using Cons.prems(1) by (auto simp: kv hm_wf_def map_of_eq_None_iff)
  show ?case
  proof (cases "f k")
    case None
    then have "g a \<noteq> Some k" using assms(2) by (metis option.distinct(1))
    then show ?thesis using Cons.IH [OF wf Cons.prems(2)] None by (auto simp: kv split: option.splits)
  next
    case (Some b)
    then have "g b = Some k" using assms(2) by blast
    then have "g a = Some k \<longleftrightarrow> a = b" using assms(2) Some by (metis option.inject)
    then show ?thesis
      using Cons.IH [OF wf, of "hm_insert b v acc"] Some Cons.prems(2) new
      by (auto simp: kv hm_simps split: option.splits)
  qed
qed

lemma attribute_of_key: "attribute_key a \<noteq> None \<Longrightarrow> attribute_of (the (attribute_key a)) = Some a"
  by (cases a) (simp_all add: attribute_of_def AMZ_META_def)

lemma attribute_inverse: "attribute_of k = Some a \<longleftrightarrow> attribute_key a = Some k"
proof
  assume "attribute_of k = Some a"
  then show "attribute_key a = Some k"
    by (auto simp: attribute_of_def prefix_def split: if_splits)
next
  assume "attribute_key a = Some k"
  then show "attribute_of k = Some a" using attribute_of_key [of a] by simp
qed

lemma meta_to_attributes_get:
  assumes "hm_wf meta"
  shows "hm_wf (meta_to_attributes meta)"
    and "hm_get (meta_to_attributes meta) a = Option.bind (attribute_key a) (hm_get meta)"
  using fold_translate [of meta attribute_of attribute_key "[]" a, OF assms attribute_inverse hm_wf_Nil]
  unfolding meta_to_attributes_def
  by (auto simp del: attribute_key.simps split: option.splits)

lemma attributes_to_meta_get:
  assumes "hm_wf attrs"
  shows "hm_wf (attributes_to_meta attrs)"
    and "hm_get (attributes_to_meta attrs) k = Option.bind (attribute_of k) (hm_get attrs)"
  using fold_translate [of attrs attribute_key attribute_of "[]" k, OF assms attribute_inverse [symmetric] hm_wf_Nil]
  unfolding attributes_to_meta_def by (auto simp del: attribute_key.simps split: option.splits)

lemma attributes_roundtrip:
  assumes "hm_wf meta"
  shows "hm_get (attributes_to_meta (meta_to_attributes meta)) k = (if attribute_of k = None then None else hm_get meta k)"
proof (cases "attribute_of k")
  case None
  then show ?thesis by (simp add: attributes_to_meta_get(2) [OF meta_to_attributes_get(1) [OF assms]])
next
  case (Some a)
  then have "attribute_key a = Some k" by (simp only: attribute_inverse)
  then show ?thesis
    using Some by (simp add: attributes_to_meta_get(2) [OF meta_to_attributes_get(1) [OF assms]] meta_to_attributes_get(2) [OF assms])
qed

lemma attribute_encodable: "attribute_of k \<noteq> None \<Longrightarrow> encodable k"
  by (auto simp: attribute_of_def encodable_def field_name_to_tag_def AMZ_META_def strip_prefix_Some prefix_def split: if_splits)

text \<open>
  Metadata on an S3-like shard: a writer decodes the metadata bytes and stores them as attributes,
  a reader encodes the attributes again. When the bytes were the encoding of a metadata map, the
  reader's encoding succeeds and decodes to exactly the entries of the map that have an attribute.
\<close>

lemma s3_metadata_roundtrip:
  assumes "hm_wf meta" and "\<forall>(k, v)\<in>set meta. rust_string k \<and> rust_string v" and "encode_metadata meta = Inr buf"
  shows "\<exists>buf'. encode_metadata (attributes_to_meta (meta_to_attributes (decode_metadata buf))) = Inr buf' \<and>
    (\<forall>k. hm_get (decode_metadata buf') k = (if attribute_of k = None then None else hm_get meta k))"
proof -
  let ?m = "attributes_to_meta (meta_to_attributes (decode_metadata buf))"
  have wf: "hm_wf ?m" by (intro attributes_to_meta_get meta_to_attributes_get decode_metadata_wf)
  have get: "hm_get ?m k = (if attribute_of k = None then None else hm_get meta k)" for k
    using attributes_roundtrip [OF decode_metadata_wf] attribute_encodable [of k] by (simp add: decode_encode [OF assms])
  have sub: "hm_get ?m k = hm_get meta k \<and> (k, v) \<in> set meta" if "(k, v) \<in> set ?m" for k v
    using that get [of k] by (auto simp: hm_get_iff [OF wf, symmetric] hm_get_iff [OF assms(1), symmetric] split: if_splits)
  have str: "\<forall>(k, v)\<in>set ?m. rust_string k \<and> rust_string v" using sub assms(2) by blast
  have "is_ok (encode_metadata ?m)"
    unfolding encode_metadata_ok
  proof
    fix k
    assume "k \<in> fst ` set ?m"
    then obtain v where "(k, v) \<in> set ?m" by auto
    with sub have "hm_get ?m k = hm_get meta k" "k \<in> fst ` set meta" by force+
    with encode_metadata_ok [of meta] assms(3) show "oversized k (the (hm_get ?m k)) = None" by auto
  qed
  then obtain buf' where enc: "encode_metadata ?m = Inr buf'" unfolding is_ok_iff ..
  have "hm_get (decode_metadata buf') k = (if attribute_of k = None then None else hm_get meta k)" for k
    using decode_encode [OF wf str enc] get [of k] attribute_encodable [of k] by simp
  with enc show ?thesis by blast
qed

section \<open>Writes with metadata\<close>

locale meta_store = shard_store D holds for D :: "('s, 'e) store_ops" and holds +
  fixes M :: "('s, 'e) meta_api"
  assumes put_meta_law: "holds s A \<Longrightarrow> length (d @ md) < 2 ^ 63 \<Longrightarrow> ma_put_with_meta M now k d md s = (rm, s') \<Longrightarrow>
      holds s' (if is_ok rm then A(k \<mapsto> d) else A)"
    and put_attrs_law: "holds s A \<Longrightarrow> length d < 2 ^ 63 \<Longrightarrow> ma_put_attrs M now k d attrs s = (r, s') \<Longrightarrow>
      holds s' (if is_ok r then A(k \<mapsto> d) else A)"

text \<open>The registry's raw stores are those of the slots.\<close>

definition agrees :: "raw_ref_registry \<Rightarrow> 's sharded \<Rightarrow> bool" where
  "agrees refs c \<longleftrightarrow> (\<forall>sid a. rr_get refs sid = Some a \<and> sid < length (sh_shards c) \<longrightarrow> slots c ! sid = StoreAt a)"

text \<open>The object of a sidecar fits a buffer together with the data beside which it is stored.\<close>

definition beside :: "byte list \<Rightarrow> byte list option \<Rightarrow> bool" where
  "beside data m \<longleftrightarrow> (case m of Some md \<Rightarrow> length (data @ md) < 2 ^ 63 | None \<Rightarrow> True)"

text \<open>A write of \<open>data\<close> under \<open>loc\<close> that may touch the keys \<open>K\<close> besides, with sidecars that fit.\<close>

definition wrote_in :: "string set \<Rightarrow> string \<Rightarrow> byte list \<Rightarrow> (nat \<Rightarrow> string \<rightharpoonup> byte list) \<Rightarrow> (nat \<Rightarrow> string \<rightharpoonup> byte list) \<Rightarrow> bool" where
  "wrote_in K loc data H H' \<longleftrightarrow> same_except (insert loc K) H H' \<and> (\<forall>a. H' a loc = H a loc \<or> H' a loc = Some data) \<and>
     (\<forall>a k. k \<noteq> loc \<longrightarrow> H' a k = H a k \<or> beside data (H' a k))"

lemma wrote_in_refl [simp]: "wrote_in K loc data H H"
  by (simp add: wrote_in_def)

lemma wrote_in_trans:
  assumes "wrote_in K loc data H H1" and "wrote_in K loc data H1 H2"
  shows "wrote_in K loc data H H2"
proof -
  have "same_except (insert loc K) H H2" using assms unfolding wrote_in_def same_except_def by metis
  moreover have "\<forall>a. H2 a loc = H a loc \<or> H2 a loc = Some data" using assms unfolding wrote_in_def by metis
  moreover have "\<forall>a k. k \<noteq> loc \<longrightarrow> H2 a k = H a k \<or> beside data (H2 a k)" using assms unfolding wrote_in_def by metis
  ultimately show ?thesis by (simp add: wrote_in_def)
qed

lemma stored_wrote_in: "wrote_in K loc data H H' \<Longrightarrow> stored c H sid loc = Some data \<Longrightarrow> stored c H' sid loc = Some data"
  unfolding wrote_in_def stored_def by (auto split: if_splits store_ref.splits) metis

lemma heap_only_slots: "heap_only c c' \<Longrightarrow> slots c' = slots c \<and> sh_shards c' = sh_shards c"
  by (auto simp: heap_only_def slots_def)

lemma agrees_cong: "frame c c' \<Longrightarrow> agrees refs c' = agrees refs c"
  using frame_length [of c c'] by (simp add: agrees_def frame_def)

lemma stored_heap_only: "heap_only c c' \<Longrightarrow> stored c' H = stored c H"
  using heap_only_keeps stored_frame by blast

context shard_store
begin

text \<open>One write of a fan-out: what it changes, and that its success stores the data on the shard.\<close>

definition shard_write ::
  "string set \<Rightarrow> string \<Rightarrow> byte list \<Rightarrow> nat \<Rightarrow> 's sharded \<Rightarrow> (nat \<Rightarrow> string \<rightharpoonup> byte list) \<Rightarrow> bool \<Rightarrow> 's sharded \<Rightarrow> bool" where
  "shard_write K loc data sid c H ok c' \<longleftrightarrow> heap_only c c' \<and>
     (\<exists>H'. heap_rep holds c' H' \<and> wrote_in K loc data H H' \<and> (ok \<longrightarrow> stored c H' sid loc = Some data))"

lemma fan_ids_spec:
  assumes step: "\<And>sid c1 H1 r c2. sid \<in> set ids \<Longrightarrow> heap_only c c1 \<Longrightarrow> heap_rep holds c1 H1 \<Longrightarrow> f sid c1 = (r, c2) \<Longrightarrow>
      shard_write K loc data sid c1 H1 (is_ok r) c2"
    and "heap_rep holds c H" and "fan_ids f ids c = (rs, c')"
  shows "heap_only c c' \<and> map fst rs = ids \<and>
    (\<exists>H'. heap_rep holds c' H' \<and> wrote_in K loc data H H' \<and> (\<forall>sid\<in>set (oks rs). stored c H' sid loc = Some data))"
  using assms
proof (induction ids arbitrary: c H rs)
  case Nil
  then show ?case by auto
next
  case (Cons sid ids)
  obtain r c1 where r: "f sid c = (r, c1)" by fastforce
  obtain rs1 where rs1: "fan_ids f ids c1 = (rs1, c')" "rs = (sid, r) # rs1"
    using Cons.prems(3) r by (auto split: prod.splits)
  from Cons.prems(1) [OF _ _ Cons.prems(2) r] obtain H1 where H1: "heap_only c c1" "heap_rep holds c1 H1"
    "wrote_in K loc data H H1" "is_ok r \<longrightarrow> stored c H1 sid loc = Some data" by (auto simp: shard_write_def)
  have step1: "shard_write K loc data sid' c2 H2 (is_ok r') c3"
    if "sid' \<in> set ids" "heap_only c1 c2" "heap_rep holds c2 H2" "f sid' c2 = (r', c3)" for sid' c2 H2 r' c3
    using Cons.prems(1) [OF _ heap_only_trans [OF H1(1) that(2)] that(3,4)] that(1) by simp
  from Cons.IH [OF step1 H1(2) rs1(1)] obtain H' where H': "heap_only c1 c'" "map fst rs1 = ids"
    "heap_rep holds c' H'" "wrote_in K loc data H1 H'" "\<forall>sid\<in>set (oks rs1). stored c1 H' sid loc = Some data" by blast
  have "\<forall>sid'\<in>set (oks rs). stored c H' sid' loc = Some data"
    using H1(4) H'(5) stored_wrote_in [OF H'(4)] stored_heap_only [OF H1(1)] by (auto simp: rs1(2))
  with H'(2,3) heap_only_trans [OF H1(1) H'(1)] wrote_in_trans [OF H1(3) H'(4)] show ?case by (auto simp: rs1(2))
qed

lemma slot_write:
  assumes law: "\<And>s A r s'. holds s A \<Longrightarrow> f s = (r, s') \<Longrightarrow> holds s' (if is_ok r then A(loc \<mapsto> data) else A)"
    and "heap_rep holds c H" and "on_slot_with wrap f ref c = (r, c')" and "sid < length (sh_shards c)" and "slots c ! sid = ref"
  shows "shard_write K loc data sid c H (is_ok r) c'"
proof -
  obtain r0 c0 where o: "on_slot f ref c = (r0, c0)" by fastforce
  with assms(3) have c': "c' = c0" "is_ok r = is_ok r0" by (auto simp: on_slot_with_def split: sum.splits)
  let ?H = "\<lambda>a. if is_ok r0 \<and> ref = StoreAt a then (H a)(loc \<mapsto> data) else H a"
  have "heap_rep holds c0 ?H"
    using assms(2) o law by (auto simp: on_slot_def heap_rep_def split: store_ref.splits prod.splits sum.splits) fastforce+
  moreover have "wrote_in K loc data H ?H" by (auto simp: wrote_in_def same_except_def)
  moreover have "is_ok r0 \<longrightarrow> stored c ?H sid loc = Some data"
    using o assms(4,5) by (auto simp: stored_def on_slot_def split: store_ref.splits prod.splits)
  ultimately show ?thesis
    unfolding shard_write_def c' using on_slot_frame [OF o] by blast
qed

lemma raw_write:
  assumes law: "\<And>s A r s'. holds s A \<Longrightarrow> f s = (r, s') \<Longrightarrow> holds s' (if is_ok r then A(loc \<mapsto> data) else A)"
    and "heap_rep holds c H" and "on_raw f a c = (r, c')" and "sid < length (sh_shards c)" and "slots c ! sid = StoreAt a"
  shows "shard_write K loc data sid c H (is_ok r) c'"
proof -
  obtain r0 s where f: "f (sh_heap c a) = (r0, s)" by fastforce
  with assms(3) have c': "c' = c\<lparr>sh_heap := (sh_heap c)(a := s)\<rparr>" "is_ok r = is_ok r0"
    by (auto simp: on_raw_def split: sum.splits)
  let ?H = "H(a := if is_ok r0 then (H a)(loc \<mapsto> data) else H a)"
  have "heap_rep holds c' ?H"
    using assms(2) law [OF _ f] by (auto simp: heap_rep_def c'(1))
  moreover have "wrote_in K loc data H ?H" by (auto simp: wrote_in_def same_except_def)
  moreover have "is_ok r0 \<longrightarrow> stored c ?H sid loc = Some data"
    using assms(4,5) by (simp add: stored_def)
  moreover have "heap_only c c'" unfolding heap_only_def c' by blast
  ultimately show ?thesis unfolding shard_write_def c'(2) by blast
qed

text \<open>A write under another key after a successful one.\<close>

lemma shard_write_then:
  assumes "shard_write K loc data sid c H True c1"
    and "\<And>H1. heap_rep holds c1 H1 \<Longrightarrow> shard_write {} loc' data' sid c1 H1 ok c2" and "loc' \<noteq> loc" and "length (data @ data') < 2 ^ 63" and "loc' \<in> K"
  shows "shard_write K loc data sid c H ok' c2"
proof -
  from assms(1) obtain H1 where H1: "heap_only c c1" "heap_rep holds c1 H1" "wrote_in K loc data H H1"
    "stored c H1 sid loc = Some data" by (auto simp: shard_write_def)
  from assms(2) [OF H1(2)] obtain H2 where H2: "heap_only c1 c2" "heap_rep holds c2 H2" "same_except {loc'} H1 H2"
    "\<forall>a. H2 a loc' = H1 a loc' \<or> H2 a loc' = Some data'"
    by (auto simp: shard_write_def wrote_in_def)
  have "H2 a k = H1 a k \<or> beside data (H2 a k)" for a k
    using spec [OF H2(4), of a] H2(3) assms(4) by (cases "k = loc'") (auto simp: same_except_def beside_def)
  moreover have "same_except (insert loc K) H1 H2" "\<forall>a. H2 a loc = H1 a loc"
    using H2(3) assms(3,5) by (auto simp: same_except_def)
  ultimately have "wrote_in K loc data H1 H2" by (simp add: wrote_in_def)
  moreover have "stored c H2 sid loc = Some data" using stored_same [OF H2(3), of loc c sid] assms(3) H1(4) by auto
  ultimately show ?thesis
    unfolding shard_write_def using heap_only_trans [OF H1(1) H2(1)] H2(2) wrote_in_trans [OF H1(3)] by blast
qed

lemma shard_write_same: "heap_rep holds c H \<Longrightarrow> shard_write K loc data sid c H False c"
  by (auto simp: shard_write_def)

lemma shard_write_weaken: "shard_write K loc data sid c H ok c' \<Longrightarrow> (ok' \<Longrightarrow> ok) \<Longrightarrow> shard_write K loc data sid c H ok' c'"
  by (auto simp: shard_write_def)

end

lemma mark_ids_range:
  assumes "mark_write_failures D now placed failed tried loc c = (ids, c')"
  shows "\<forall>sid\<in>set ids. sid < length (sh_shards c)"
proof -
  let ?c = "fold (mark_offline now) failed c"
  have "frame c ?c" using fold_mark_keeps(1) [of c now failed] by blast
  then have "length (sh_shards ?c) = length (sh_shards c)" by (rule frame_length)
  moreover have "set ids \<subseteq> set (select_targets D loc ?c)"
    using assms by (auto simp: mark_write_failures_def Let_def split: if_splits)
  ultimately show ?thesis using select_targets_spec(2) [where D = D and path = loc and c = ?c] by auto
qed

context meta_store
begin

lemma try_put_spec:
  assumes rep: "heap_rep holds c H" and ag: "agrees refs c" and sid: "sid < length (sh_shards c)"
    and len: "length (payload @ metadata) < 2 ^ 63" and loc: "meta_sidecar_path D loc \<noteq> loc"
    and run: "try_put_shard D M now refs loc payload metadata sid c = (r, c')"
  shows "shard_write {meta_sidecar_path D loc} loc payload sid c H (is_ok r) c'"
proof -
  let ?s = "sh_shards c ! sid"
  have at: "shard_at c sid = Some ?s" "slots c ! sid = si_store ?s" using sid by (simp_all add: shard_at_def slots_def)
  have pl: "length payload < 2 ^ 63" "length metadata < 2 ^ 63" using len by simp_all
  show ?thesis
  proof (cases "rr_kind refs sid")
    case RawKind
    show ?thesis
    proof (cases "rr_get refs sid")
      case None
      with RawKind run rep show ?thesis by (auto simp: try_put_shard_def shard_write_same)
    next
      case (Some a)
      with RawKind run have o: "on_raw (ma_put_with_meta M now loc payload metadata) a c = (r, c')"
        by (simp add: try_put_shard_def)
      have "slots c ! sid = StoreAt a" using ag Some sid by (simp add: agrees_def)
      from raw_write [OF _ rep o sid this] show ?thesis using put_meta_law [OF _ len] by blast
    qed
  next
    case S3Like
    with run at(1) have o: "on_slot_with (obj_err D) (ma_put_attrs M now loc payload (meta_to_attributes (decode_metadata metadata))) (si_store ?s) c = (r, c')"
      by (simp add: try_put_shard_def)
    from slot_write [OF _ rep o sid at(2)] show ?thesis using put_attrs_law [OF _ pl(1)] by blast
  next
    case Sidecar
    obtain r1 c1 where o1: "on_slot_with (obj_err D) (so_put D now loc payload) (si_store ?s) c = (r1, c1)" by fastforce
    have w1: "shard_write {meta_sidecar_path D loc} loc payload sid c H (is_ok r1) c1"
      by (rule slot_write [OF _ rep o1 sid at(2)]) (use put_law [OF _ pl(1)] in blast)
    show ?thesis
    proof (cases "is_ok r1 \<and> metadata \<noteq> []")
      case False
      with Sidecar run at(1) o1 have "c' = c1 \<and> is_ok r = is_ok r1"
        by (auto simp: try_put_shard_def split: sum.splits if_splits)
      with w1 show ?thesis by simp
    next
      case True
      then obtain u where "r1 = Inr u" by (auto simp: is_ok_iff)
      with True Sidecar run at(1) o1 have o2: "on_slot_with (obj_err D) (so_put D now (meta_sidecar_path D loc) metadata) (si_store ?s) c1 = (r, c')"
        by (simp add: try_put_shard_def)
      from w1 have "heap_only c c1" by (simp add: shard_write_def)
      then have k: "sid < length (sh_shards c1)" "slots c1 ! sid = si_store ?s"
        using sid at(2) heap_only_slots [of c c1] by simp_all
      have w2: "shard_write {} (meta_sidecar_path D loc) metadata sid c1 H1 (is_ok r) c'" if "heap_rep holds c1 H1" for H1
        by (rule slot_write [OF _ that o2 k]) (use put_law [OF _ pl(2)] in blast)
      show ?thesis
        by (rule shard_write_then [OF _ w2 loc len]) (use w1 True in simp_all)
    qed
  qed
qed

lemma fan_put_meta_spec:
  assumes rep: "heap_rep holds c H" and ag: "agrees refs c" and ids: "\<forall>sid\<in>set ids. sid < length (sh_shards c)"
    and len: "length (payload @ metadata) < 2 ^ 63" and loc: "meta_sidecar_path D loc \<noteq> loc"
    and run: "fan_ids (try_put_shard D M now refs loc payload metadata) ids c = (rs, c')"
  shows "heap_only c c' \<and> map fst rs = ids \<and>
    (\<exists>H'. heap_rep holds c' H' \<and> wrote_in {meta_sidecar_path D loc} loc payload H H' \<and>
      (\<forall>sid\<in>set (oks rs). stored c H' sid loc = Some payload))"
proof (rule fan_ids_spec [OF _ rep run])
  fix sid c1 H1 r c2
  assume a: "sid \<in> set ids" "heap_only c c1" "heap_rep holds c1 H1"
    "try_put_shard D M now refs loc payload metadata sid c1 = (r, c2)"
  note k = heap_only_keeps [OF a(2)]
  have "agrees refs c1" "sid < length (sh_shards c1)" using ag ids a(1) k agrees_cong by auto
  from try_put_spec [OF a(3) this len loc a(4)]
  show "shard_write {meta_sidecar_path D loc} loc payload sid c1 H1 (is_ok r) c2" .
qed

definition meta_entry :: "int \<Rightarrow> byte list \<Rightarrow> byte list \<Rightarrow> nat list \<Rightarrow> placement_entry" where
  "meta_entry now payload metadata placed =
     \<lparr>pe_shards = placed, pe_size = length payload, pe_crc32c = Some (so_crc32c D payload), pe_updated = now,
      pe_meta_len = length metadata mod 65536\<rparr>"

definition meta_put_outcome ::
  "int \<Rightarrow> string \<Rightarrow> byte list \<Rightarrow> byte list \<Rightarrow> 's sharded \<Rightarrow> (nat \<Rightarrow> string \<rightharpoonup> byte list) \<Rightarrow> 'e meta_error + unit \<Rightarrow> 's sharded \<Rightarrow> bool" where
  "meta_put_outcome now loc payload metadata c H r c' \<longleftrightarrow>
     frame c c' \<and> catalog_ok (sh_catalog c') \<and>
     (\<forall>k. k \<noteq> loc \<longrightarrow> catalog_get (sh_catalog c') k = catalog_get (sh_catalog c) k) \<and>
     (\<exists>H'. heap_rep holds c' H' \<and> same_except {loc, meta_sidecar_path D loc} H H' \<and>
        (case r of
           Inr _ \<Rightarrow> \<exists>placed. catalog_get (sh_catalog c') loc = Some (meta_entry now payload metadata placed) \<and>
             distinct placed \<and> placed \<noteq> [] \<and> sh_min_writes c \<le> length placed \<and>
             (\<forall>sid\<in>set placed. stored c H' sid loc = Some payload)
         | Inl _ \<Rightarrow> sh_catalog c' = sh_catalog c \<and>
             (\<forall>a. H' a loc = H a loc \<or> H' a loc = Some payload \<or>
                catalog_get (sh_catalog c) loc = None \<and> H' a loc = None)))"

lemma sharded_put_meta_spec:
  assumes rep: "heap_rep holds c H" and ok: "catalog_ok (sh_catalog c)" and ag: "agrees refs c"
    and len: "length (payload @ metadata) < 2 ^ 63" and loc: "meta_sidecar_path D loc \<noteq> loc"
    and run: "sharded_put_with_meta D M now refs loc payload metadata c = (r, c')"
  shows "meta_put_outcome now loc payload metadata c H r c'"
proof (cases "sh_read_only c")
  case True
  with run rep ok show ?thesis by (auto simp: sharded_put_with_meta_def meta_put_outcome_def)
next
  case False
  let ?K = "{meta_sidecar_path D loc}" and ?t = "select_targets D loc c"
  let ?f = "try_put_shard D M now refs loc payload metadata"
  obtain rs c1 where f1: "fan_ids ?f ?t c = (rs, c1)" by fastforce
  have t: "distinct ?t" "\<forall>sid\<in>set ?t. sid < length (sh_shards c)" using select_targets_spec(1,2) [where D = D and path = loc and c = c] by auto
  from fan_put_meta_spec [OF rep ag t(2) len loc f1] obtain H1 where h1: "heap_only c c1" "map fst rs = ?t"
    "heap_rep holds c1 H1" "wrote_in ?K loc payload H H1" "\<forall>sid\<in>set (oks rs). stored c H1 sid loc = Some payload" by blast
  obtain ids c2 where m: "mark_write_failures D now (oks rs) (map fst (errs rs)) ?t loc c1 = (ids, c2)" by fastforce
  note k2 = mark_write_failures_keeps [OF m]
  have c2: "heap_rep holds c2 H1" "frame c c2" "sh_catalog c2 = sh_catalog c"
    using h1(3) k2 heap_only_keeps [OF h1(1)] by (auto simp: heap_rep_def intro: frame_trans)
  have ag2: "agrees refs c2" using ag agrees_cong [OF c2(2)] by simp
  obtain rs2 c3 where f2: "(if oks rs = [] \<and> ids \<noteq> [] then fan_ids ?f ids c2 else ([], c2)) = (rs2, c3)" by fastforce
  let ?p = "oks rs @ oks rs2"
  have "heap_only c2 c3 \<and> distinct ?p \<and> (\<exists>H2. heap_rep holds c3 H2 \<and> wrote_in ?K loc payload H H2 \<and>
      (\<forall>sid\<in>set ?p. stored c H2 sid loc = Some payload))"
  proof (cases "oks rs = [] \<and> ids \<noteq> []")
    case True
    with f2 have f2': "fan_ids ?f ids c2 = (rs2, c3)" by simp
    have ids: "\<forall>sid\<in>set ids. sid < length (sh_shards c2)"
      using mark_ids_range [OF m] heap_only_keeps [OF h1(1)] frame_length [OF c2(2)] by simp
    from fan_put_meta_spec [OF c2(1) ag2 ids len loc f2'] obtain H2 where "heap_only c2 c3" "map fst rs2 = ids"
      "heap_rep holds c3 H2" "wrote_in ?K loc payload H1 H2" "\<forall>sid\<in>set (oks rs2). stored c2 H2 sid loc = Some payload" by blast
    then show ?thesis using True k2 wrote_in_trans [OF h1(4)] distinct_oks [of rs2] stored_frame [OF c2(2)] by auto
  next
    case False
    with f2 have "rs2 = []" "c3 = c2" by (simp_all add: if_not_P)
    then show ?thesis using c2(1) h1 t(1) distinct_oks [of rs] by auto
  qed
  then obtain H2 where h2: "heap_only c2 c3" "distinct ?p" "heap_rep holds c3 H2" "wrote_in ?K loc payload H H2"
    "\<forall>sid\<in>set ?p. stored c H2 sid loc = Some payload" by blast
  note k3 = heap_only_keeps [OF h2(1)]
  have c3: "frame c c3" "sh_catalog c3 = sh_catalog c" "sh_min_writes c3 = sh_min_writes c"
    using k3 c2 frame_trans [OF c2(2)] by (auto simp: frame_def)
  have w: "same_except {loc, meta_sidecar_path D loc} H H2" "\<forall>a. H2 a loc = H a loc \<or> H2 a loc = Some payload"
    using h2(4) by (simp_all add: wrote_in_def)
  note enter = run [unfolded sharded_put_with_meta_def if_not_P [OF False] Let_def f1 prod.case m f2]
  consider "?p = []" | "?p \<noteq> []" "length ?p < sh_min_writes c3" | "?p \<noteq> []" "\<not> length ?p < sh_min_writes c3" by blast
  then show ?thesis
  proof cases
    case 1
    then have "\<not> is_ok r \<and> c' = c3" using enter by (auto simp: if_P)
    with c3 h2(3) w ok show ?thesis by (cases r) (auto simp: meta_put_outcome_def)
  next
    case 2
    let ?c4 = "cleanup_orphaned_writes D loc ?p c3"
    from cleanup_orphaned_spec [OF h2(3), of loc ?p] obtain H3 where h3: "heap_only c3 ?c4" "heap_rep holds ?c4 H3"
      "shrinks {loc, meta_sidecar_path D loc} H2 H3" "catalog_get (sh_catalog c3) loc \<noteq> None \<longrightarrow> H3 = H2" by blast
    note k4 = heap_only_keeps [OF h3(1)]
    have "\<not> is_ok r \<and> c' = ?c4" using enter unfolding if_not_P [OF 2(1)] if_P [OF 2(2)] by auto
    moreover have "same_except {loc, meta_sidecar_path D loc} H H3"
      using w(1) h3(3) by (auto simp: shrinks_def same_except_def)
    moreover have "H3 a loc = H a loc \<or> H3 a loc = Some payload \<or> catalog_get (sh_catalog c) loc = None \<and> H3 a loc = None" for a
      using w(2) h3(3,4) c3(2) unfolding shrinks_def by metis
    ultimately show ?thesis
      using k4 c3 frame_trans [OF c3(1)] h3(2) ok by (cases r) (auto simp: meta_put_outcome_def)
  next
    case 3
    let ?c4 = "update_catalog (catalog_put now loc ?p (length payload) (Some (so_crc32c D payload)) (length metadata mod 65536)) c3"
    have r: "r = Inr ()" "c' = ?c4" using enter unfolding if_not_P [OF 3(1)] if_not_P [OF 3(2)] by simp_all
    have "catalog_ok (sh_catalog ?c4)" using catalog_put_ok(1) [OF _ 3(1) h2(2)] ok c3(2) by (simp add: update_catalog_def)
    moreover have "heap_rep holds ?c4 H2" using h2(3) by (simp add: heap_rep_def update_catalog_def)
    moreover have "frame c ?c4" using c3(1) by simp
    moreover have "catalog_get (sh_catalog ?c4) = (catalog_get (sh_catalog c))(loc \<mapsto> meta_entry now payload metadata ?p)"
      using c3(2) by (simp add: update_catalog_def meta_entry_def)
    ultimately show ?thesis
      unfolding r meta_put_outcome_def using 3 w(1) h2(2,5) c3(3) by (intro conjI exI [of _ H2]) auto
  qed
qed

end

end
