(* ===== verification/Metadata_Properties.thy ===== *)
theory Metadata_Properties
  imports Metadata_Ops Sharded_Properties Tools_Properties
begin

text \<open>
  The properties of the writes with metadata, with raw stores as the shards.
\<close>

section \<open>Raw stores\<close>

text \<open>
  The metadata methods of \<open>RawObjectStore\<close> (\<open>rawobjstr/src/store.rs\<close>). Its \<open>put_opts\<close> ignores the
  attributes and its get results have none.
\<close>

definition raw_meta :: "'x store_env_scheme \<Rightarrow> path_api \<Rightarrow> (inner, os_error) meta_api" where
  "raw_meta X P =
     \<lparr>ma_put_attrs = (\<lambda>now key data attrs self. put_opts X now key data ModeOverwrite self),
      ma_attributes = (\<lambda>key self. []),
      ma_list = (\<lambda>pfx self. (Inr (list_objects P pfx self), self)),
      ma_put_with_meta = put_with_meta X, ma_get_metadata = get_metadata X, ma_head_with_meta = head_with_meta,
      ma_list_with_meta = list_with_meta P, ma_set_meta_len = set_meta_len X\<rparr>"

lemma bodies_meta: "bodies (B(k \<mapsto> (d @ md, length md))) = (bodies B)(k \<mapsto> d)"
  by (auto simp: bodies_def fun_eq_iff)

interpretation rm: meta_store "raw_ops X P T" "raw_holds X" "raw_meta X P"
proof
  fix s A d md now k rm s'
  assume h: "raw_holds X s A" and len: "length (d @ md) < 2 ^ 63" and put: "ma_put_with_meta (raw_meta X P) now k d md s = (rm, s')"
  from h obtain de B where B: "lawful X" "stream_laws X" "store_ok de s" "rep X s B" "A = bodies B"
    by (auto simp: raw_holds_def)
  from put have "put_with_meta X now k d md s = (rm, s')" by (simp add: raw_meta_def)
  from put_with_meta_spec [OF B(1,3) _ this] len B
  show "raw_holds X s' (if is_ok rm then A(k \<mapsto> d) else A)"
    by (cases rm) (auto simp: raw_holds_def simp flip: bodies_meta)
next
  fix s A d now k attrs r s'
  assume "raw_holds X s A" "length d < 2 ^ 63" "ma_put_attrs (raw_meta X P) now k d attrs s = (r, s')"
  then show "raw_holds X s' (if is_ok r then A(k \<mapsto> d) else A)"
    using rs.put_law [of X s A d P T now k r s'] by (simp add: raw_meta_def raw_ops_def)
qed

section \<open>Put with metadata\<close>

text \<open>
  A put with metadata that succeeds has stored the payload on at least \<open>min_writes\<close> distinct shards,
  whichever way each of them keeps the metadata, and the catalog entry lists exactly those shards
  with the size and checksum of the payload and the length of the metadata; one that fails leaves
  the catalog. Nothing but the object and its sidecar changes on any shard, and no other entry.
\<close>

lemma put_with_meta_replicates:
  assumes "meta_store D holds M" and "heap_rep holds c H" and "catalog_ok (sh_catalog c)" and "agrees refs c"
    and "length (payload @ metadata) < 2 ^ 63" and "meta_sidecar_path D loc \<noteq> loc"
    and "sharded_put_with_meta D M now refs loc payload metadata c = (r, c')"
  shows "slots c' = slots c \<and> catalog_ok (sh_catalog c') \<and>
    (\<forall>k. k \<noteq> loc \<longrightarrow> catalog_get (sh_catalog c') k = catalog_get (sh_catalog c) k) \<and>
    (\<exists>H'. heap_rep holds c' H' \<and> same_except {loc, meta_sidecar_path D loc} H H' \<and>
      (case r of
         Inr _ \<Rightarrow> \<exists>placed. catalog_get (sh_catalog c') loc = Some \<lparr>pe_shards = placed, pe_size = length payload,
             pe_crc32c = Some (so_crc32c D payload), pe_updated = now, pe_meta_len = length metadata mod 65536\<rparr> \<and>
           distinct placed \<and> placed \<noteq> [] \<and> sh_min_writes c \<le> length placed \<and>
           (\<forall>sid\<in>set placed. stored c' H' sid loc = Some payload)
       | Inl _ \<Rightarrow> sh_catalog c' = sh_catalog c \<and>
           (\<forall>a. H' a loc = H a loc \<or> H' a loc = Some payload \<or> catalog_get (sh_catalog c) loc = None \<and> H' a loc = None)))"
proof -
  from meta_store.sharded_put_meta_spec [OF assms]
  have "meta_store.meta_put_outcome D holds now loc payload metadata c H r c'" .
  note o = this [unfolded meta_store.meta_put_outcome_def [OF assms(1)] meta_store.meta_entry_def [OF assms(1)]]
  then have fr: "frame c c'" by blast
  then have "slots c' = slots c" by (simp only: frame_def)
  with o show ?thesis unfolding stored_frame [OF fr] by blast
qed

definition ref_refs :: raw_ref_registry where
  "ref_refs = \<lparr>rr_refs = [Some 0, Some 1], rr_kinds = [RawKind, RawKind]\<rparr>"

end
