(* ===== verification/Sharded_Copy.thy ===== *)
theory Sharded_Copy
  imports Metadata_Ops
begin

text \<open>
  Copies between keys and between shards (\<open>shardedobjstr/src/lib.rs\<close>): \<open>copy\<close>, \<open>copy_if_not_exists\<close>
  and \<open>rename_if_not_exists\<close> of the sharded store, \<open>replicate_object\<close>, the task of a read repair,
  and the verification of the replicas of an object.
\<close>

section \<open>Copy and rename\<close>

datatype 'e copy_error = CeShard "'e shard_error" | CeStream 'e | CeMeta "'e meta_error"

text \<open>
  The registry has a raw store for every slot of kind \<open>Raw\<close>: without one the code panics in \<open>get_metadata\<close>,
  which is taken as a failed read of the metadata here.
\<close>

definition read_object_metadata ::
  "('s, 'e) store_ops \<Rightarrow> ('s, 'e) meta_api \<Rightarrow> string \<Rightarrow> attributes \<Rightarrow> 's sharded \<Rightarrow> byte list \<times> 's sharded" where
  "read_object_metadata D M location attributes c =
     (case sh_raw_refs c of
        None \<Rightarrow> ([], c)
      | Some refs \<Rightarrow>
          (if (case catalog_get (sh_catalog c) location of
                 Some e \<Rightarrow> pe_meta_len e = 0 \<and> \<not> (\<exists>sid\<in>set (pe_shards e). rr_kind refs sid = S3Like)
               | None \<Rightarrow> False)
           then ([], c)
           else
             (case sharded_get_metadata D M refs location c of
                (Inr bytes, c1) \<Rightarrow> (bytes, c1)
              | (Inl _, c1) \<Rightarrow>
                  (let meta_map = attributes_to_meta attributes in
                   (if meta_map = [] then [] else case encode_metadata meta_map of Inr b \<Rightarrow> b | Inl _ \<Rightarrow> [], c1)))))"

text \<open>The source of a copy: its bytes and its metadata, read as \<open>get\<close> and \<open>read_object_metadata\<close> do.\<close>

definition copy_source ::
  "('s, 'e) store_ops \<Rightarrow> ('s, 'e) meta_api \<Rightarrow> int \<Rightarrow> string \<Rightarrow> 's sharded \<Rightarrow>
     ('e copy_error + byte list \<times> attributes) \<times> 's sharded" where
  "copy_source D M now from_path c =
     (case read_with_fallback D now (get_with_attrs D M from_path) from_path c of
        (Inl e, c1) \<Rightarrow> (Inl (CeShard e), c1)
      | (Inr (Inl e, _), c1) \<Rightarrow> (Inl (CeStream e), c1)
      | (Inr (Inr data, attributes), c1) \<Rightarrow> (Inr (data, attributes), c1))"

definition sharded_copy ::
  "('s, 'e) store_ops \<Rightarrow> ('s, 'e) meta_api \<Rightarrow> int \<Rightarrow> string \<Rightarrow> string \<Rightarrow> 's sharded \<Rightarrow> ('e copy_error + unit) \<times> 's sharded" where
  "sharded_copy D M now from_path to_path c =
     (if sh_read_only c then (Inl (CeShard ShReadOnly), c)
      else
        (case copy_source D M now from_path c of
           (Inl e, c1) \<Rightarrow> (Inl e, c1)
         | (Inr (data, attributes), c1) \<Rightarrow>
             (case read_object_metadata D M from_path attributes c1 of (meta_bytes, c2) \<Rightarrow>
                (case (if meta_bytes = [] then None else sh_raw_refs c2) of
                   Some refs \<Rightarrow>
                     (case sharded_put_with_meta D M now refs to_path data meta_bytes c2 of
                        (Inl e, c3) \<Rightarrow> (Inl (CeMeta e), c3)
                      | (Inr _, c3) \<Rightarrow> (Inr (), c3))
                 | None \<Rightarrow>
                     (case sharded_put D now to_path data c2 of
                        (Inl e, c3) \<Rightarrow> (Inl (CeShard e), c3)
                      | (Inr _, c3) \<Rightarrow> (Inr (), c3))))))"

definition sharded_copy_if_not_exists ::
  "('s, 'e) store_ops \<Rightarrow> ('s, 'e) meta_api \<Rightarrow> int \<Rightarrow> string \<Rightarrow> string \<Rightarrow> 's sharded \<Rightarrow> ('e copy_error + unit) \<times> 's sharded" where
  "sharded_copy_if_not_exists D M now from_path to_path c =
     (if sh_read_only c then (Inl (CeShard ShReadOnly), c)
      else if catalog_get (sh_catalog c) to_path \<noteq> None then (Inl (CeShard (ShAlreadyExists to_path)), c)
      else
        (case copy_source D M now from_path c of
           (Inl e, c1) \<Rightarrow> (Inl e, c1)
         | (Inr (data, attributes), c1) \<Rightarrow>
             (let targets = select_targets D to_path c1 in
              case try_insert now to_path targets (length data) (sh_catalog c1) of
                (False, _) \<Rightarrow> (Inl (CeShard (ShAlreadyExists to_path)), c1)
              | (True, cat) \<Rightarrow>
                  (case read_object_metadata D M from_path attributes (c1\<lparr>sh_catalog := cat\<rparr>) of (meta_bytes, c2) \<Rightarrow>
                     (case (if meta_bytes = [] then None else sh_raw_refs c2) of
                        Some refs \<Rightarrow>
                          (case sharded_put_with_meta D M now refs to_path data meta_bytes c2 of
                             (Inr _, c3) \<Rightarrow> (Inr (), c3)
                           | (Inl e, c3) \<Rightarrow> (Inl (CeMeta e), update_catalog (\<lambda>cat. snd (catalog_remove to_path cat)) c3))
                      | None \<Rightarrow>
                          (case write_to_shards D now to_path data targets c2 of
                             (Inr placed, c3) \<Rightarrow>
                               (Inr (), update_catalog (catalog_put now to_path placed (length data) (Some (so_crc32c D data)) 0) c3)
                           | (Inl e, c3) \<Rightarrow>
                               (Inl (CeShard e), update_catalog (\<lambda>cat. snd (catalog_remove to_path cat)) c3)))))))"

definition sharded_rename_if_not_exists ::
  "('s, 'e) store_ops \<Rightarrow> ('s, 'e) meta_api \<Rightarrow> int \<Rightarrow> string \<Rightarrow> string \<Rightarrow> 's sharded \<Rightarrow> ('e copy_error + unit) \<times> 's sharded" where
  "sharded_rename_if_not_exists D M now from_path to_path c =
     (case sharded_copy_if_not_exists D M now from_path to_path c of
        (Inl e, c1) \<Rightarrow> (Inl e, c1)
      | (Inr _, c1) \<Rightarrow>
          (case sharded_delete D now from_path c1 of
             (Inl e, c2) \<Rightarrow> (Inl (CeShard e), c2)
           | (Inr _, c2) \<Rightarrow> (Inr (), c2)))"

section \<open>Copies between shards\<close>

text \<open>
  The common part of \<open>replicate_object\<close> and of a read-repair task: read the object and its metadata
  on one shard and write both to another. The result is the size and the length of the metadata.
\<close>

definition copy_to_shard ::
  "('s, 'e) store_ops \<Rightarrow> ('s, 'e) meta_api \<Rightarrow> int \<Rightarrow> raw_ref_registry option \<Rightarrow> string \<Rightarrow> nat \<times> store_ref \<Rightarrow>
     nat \<times> store_ref \<Rightarrow> 's sharded \<Rightarrow> ('e copy_error + nat \<times> nat) \<times> 's sharded" where
  "copy_to_shard D M now raw_refs path src dst c =
     (case on_slot (get_with_attrs D M path) (snd src) c of
        (Inl e, c1) \<Rightarrow> (Inl (CeShard (ShStore e)), c1)
      | (Inr (Inl e, _), c1) \<Rightarrow> (Inl (CeStream e), c1)
      | (Inr (Inr data, attributes), c1) \<Rightarrow>
          (case (case raw_refs of
                   Some refs \<Rightarrow> read_metadata_from_shard D M (snd src) (fst src) path attributes refs c1
                 | None \<Rightarrow> (None, c1)) of
             (meta_bytes, c2) \<Rightarrow>
               (let meta = (case meta_bytes of Some m \<Rightarrow> m | None \<Rightarrow> []) in
                case (case (meta_bytes, raw_refs) of
                        (Some m, Some refs) \<Rightarrow> write_with_meta_to_shard D M now refs (fst dst) (snd dst) path data m c2
                      | _ \<Rightarrow> on_slot_with MdStore (so_put D now path data) (snd dst) c2) of
                  (Inl e, c3) \<Rightarrow> (Inl (CeMeta e), c3)
                | (Inr _, c3) \<Rightarrow> (Inr (length data, length meta mod 65536), c3))))"

definition replicate_object ::
  "('s, 'e) store_ops \<Rightarrow> ('s, 'e) meta_api \<Rightarrow> int \<Rightarrow> string \<Rightarrow> nat \<Rightarrow> nat \<Rightarrow> raw_ref_registry option \<Rightarrow> 's sharded \<Rightarrow>
     ('e copy_error + nat) \<times> 's sharded" where
  "replicate_object D M now key from_shard to_shard raw_refs c =
     (if from_shard \<ge> length (sh_shards c) \<or> to_shard \<ge> length (sh_shards c) then (Inl (CeShard NoShards), c)
      else
        (case copy_to_shard D M now raw_refs (so_path D key) (from_shard, si_store (sh_shards c ! from_shard))
            (to_shard, si_store (sh_shards c ! to_shard)) c of
           (Inl e, c1) \<Rightarrow> (Inl e, c1)
         | (Inr (sz, ml), c1) \<Rightarrow> (Inr sz, update_catalog (add_replica now key to_shard sz ml) c1)))"

text \<open>The spawned task of \<open>schedule_read_repair\<close>, with the stores and the registry it captured.\<close>

definition run_read_repair ::
  "('s, 'e) store_ops \<Rightarrow> ('s, 'e) meta_api \<Rightarrow> int \<Rightarrow>
     string \<times> (nat \<times> store_ref) \<times> (nat \<times> store_ref) \<times> raw_ref_registry option \<Rightarrow> 's sharded \<Rightarrow> 's sharded" where
  "run_read_repair D M now task c =
     (case task of (key, good, bad, raw_refs) \<Rightarrow>
        (case copy_to_shard D M now raw_refs (so_path D key) good bad c of
           (Inl _, c1) \<Rightarrow> c1\<lparr>sh_read_repair_failed := uadd (sh_read_repair_failed c1) 1\<rparr>
         | (Inr (sz, ml), c1) \<Rightarrow>
             (update_catalog (add_replica now key (fst bad) sz ml) c1)
               \<lparr>sh_read_repair_success := uadd (sh_read_repair_success c1) 1\<rparr>))"

section \<open>Verification of replicas\<close>

record 'e verify_replica_result =
  vr_shard_id :: nat
  vr_crc32c :: "u32 option"
  vr_size :: "nat option"
  vr_matches_catalog :: "bool option"
  vr_error :: "'e slot_error option"

record 'e verify_object_report =
  vo_key :: string
  vo_catalog_crc :: "u32 option"
  vo_replicas :: "'e verify_replica_result list"
  vo_replicas_consistent :: bool

definition verify_replica ::
  "('s, 'e) store_ops \<Rightarrow> u32 option \<Rightarrow> nat \<times> ('e slot_error + ('e + byte list)) \<Rightarrow> 'e verify_replica_result" where
  "verify_replica D catalog_crc o' =
     (case snd o' of
        Inr (Inr data) \<Rightarrow>
          \<lparr>vr_shard_id = fst o', vr_crc32c = Some (so_crc32c D data), vr_size = Some (length data),
           vr_matches_catalog = map_option (\<lambda>c. c = so_crc32c D data) catalog_crc, vr_error = None\<rparr>
      | Inr (Inl e) \<Rightarrow>
          \<lparr>vr_shard_id = fst o', vr_crc32c = None, vr_size = None, vr_matches_catalog = None, vr_error = Some (SlotError e)\<rparr>
      | Inl e \<Rightarrow>
          \<lparr>vr_shard_id = fst o', vr_crc32c = None, vr_size = None, vr_matches_catalog = None, vr_error = Some e\<rparr>)"

fun windows_equal :: "'a list \<Rightarrow> bool" where
  "windows_equal (x # y # xs) = (x = y \<and> windows_equal (y # xs))"
| "windows_equal _ = True"

definition verify_object ::
  "('s, 'e) store_ops \<Rightarrow> string \<Rightarrow> 's sharded \<Rightarrow> ('e shard_error + 'e verify_object_report) \<times> 's sharded" where
  "verify_object D key c =
     (case catalog_get (sh_catalog c) key of
        None \<Rightarrow> (Inl (ShNotFound key), c)
      | Some entry \<Rightarrow>
          (case fan_out (\<lambda>_. on_slot (so_get D None (so_path D key))) (stores_of c (pe_shards entry)) c of
             (outcomes, c1) \<Rightarrow>
               (let replicas = map (verify_replica D (pe_crc32c entry)) outcomes;
                    readable_crcs = List.map_filter vr_crc32c replicas
                in (Inr \<lparr>vo_key = key, vo_catalog_crc = pe_crc32c entry, vo_replicas = replicas,
                     vo_replicas_consistent = (if length readable_crcs \<le> 1 then True else windows_equal readable_crcs)\<rparr>, c1))))"

record 'e verify_all_report =
  va_objects_checked :: nat
  va_objects_ok :: nat
  va_objects_mismatched :: nat
  va_objects_with_errors :: nat
  va_details :: "'e verify_object_report list"

definition tally ::
  "'e shard_error + 'e verify_object_report \<Rightarrow> 'e verify_all_report \<Rightarrow> 'e verify_all_report" where
  "tally result rpt0 =
     (let rpt = rpt0\<lparr>va_objects_checked := va_objects_checked rpt0 + 1\<rparr> in
      case result of
        Inl _ \<Rightarrow> rpt\<lparr>va_objects_with_errors := va_objects_with_errors rpt + 1\<rparr>
      | Inr obj \<Rightarrow>
          (let has_errors = (\<exists>r\<in>set (vo_replicas obj). vr_error r \<noteq> None);
               has_mismatch = (\<not> vo_replicas_consistent obj \<or> (\<exists>r\<in>set (vo_replicas obj). vr_matches_catalog r = Some False))
           in if has_mismatch then rpt\<lparr>va_objects_mismatched := va_objects_mismatched rpt + 1, va_details := va_details rpt @ [obj]\<rparr>
              else if has_errors then rpt\<lparr>va_objects_with_errors := va_objects_with_errors rpt + 1, va_details := va_details rpt @ [obj]\<rparr>
              else rpt\<lparr>va_objects_ok := va_objects_ok rpt + 1\<rparr>))"

fun verify_loop ::
  "('s, 'e) store_ops \<Rightarrow> string list \<Rightarrow> 'e verify_all_report \<Rightarrow> 's sharded \<Rightarrow> 'e verify_all_report \<times> 's sharded" where
  "verify_loop D [] rpt c = (rpt, c)"
| "verify_loop D (key # keys) rpt c = (case verify_object D key c of (r, c1) \<Rightarrow> verify_loop D keys (tally r rpt) c1)"

definition sharded_verify_all ::
  "('s, 'e) store_ops \<Rightarrow> string option \<Rightarrow> 's sharded \<Rightarrow> 'e verify_all_report \<times> 's sharded" where
  "sharded_verify_all D pfx c =
     verify_loop D (filter (\<lambda>k. case pfx of Some p \<Rightarrow> prefix p k | None \<Rightarrow> True) (map fst (ct_entries (sh_catalog c))))
       \<lparr>va_objects_checked = 0, va_objects_ok = 0, va_objects_mismatched = 0, va_objects_with_errors = 0, va_details = []\<rparr> c"

end
