(* ===== verification/Cluster_Repair.thy ===== *)
theory Cluster_Repair
  imports Sharded_Copy Shard_Recovery
begin

text \<open>
  Repair of the cluster (\<open>shardedobjstr/src/repair.rs\<close>): the synchronisation of a shard that comes
  back, the sweeps that restore the replication factor, the drain of a shard and the
  redistribution of objects. Progress messages and logs are dropped. A store that the code holds
  as an \<open>Arc\<close> beside the cluster (the original store of a detached slot, the victim of a drain) is a
  reference into the heap of the cluster.

  Loops whose end depends on what the shards do are partial functions into \<open>option\<close>. The panic of
  \<open>get_metadata\<close> on a slot of kind \<open>Raw\<close> without a raw reference ends the task: it is the error \<open>RePanicked\<close>,
  which no caller handles, and the value \<open>None\<close> of \<open>sync_and_reattach\<close>.
\<close>

section \<open>Copies with the metadata of the source\<close>

datatype 'e repair_error =
    ReMessage string
  | ReStore "'e slot_error"
  | ReStream 'e
  | ReMeta "'e meta_error"
  | RePanicked

definition read_source_metadata ::
  "('s, 'e) store_ops \<Rightarrow> ('s, 'e) meta_api \<Rightarrow> raw_ref_registry \<Rightarrow> string \<Rightarrow> 's sharded \<Rightarrow>
     ('e repair_error + byte list) \<times> 's sharded" where
  "read_source_metadata D M refs location c =
     (if (case catalog_get (sh_catalog c) location of Some e \<Rightarrow> pe_meta_len e = 0 | None \<Rightarrow> False) then (Inr [], c)
      else
        (case sharded_get_metadata D M refs location c of
           (Inr bytes, c1) \<Rightarrow> (Inr bytes, c1)
         | (Inl e, c1) \<Rightarrow> (case e of MdRaw Panicked \<Rightarrow> Inl RePanicked | _ \<Rightarrow> Inr [], c1)))"

text \<open>The write of a copy, with the metadata of the source when a registry is at hand.\<close>

definition write_copy ::
  "('s, 'e) store_ops \<Rightarrow> ('s, 'e) meta_api \<Rightarrow> int \<Rightarrow> raw_ref_registry option \<Rightarrow> nat \<Rightarrow> store_ref \<Rightarrow> string \<Rightarrow> byte list \<Rightarrow>
     's sharded \<Rightarrow> ('e repair_error + unit) \<times> 's sharded" where
  "write_copy D M now refs target_shard target_store location data c =
     (case refs of
        Some rr \<Rightarrow>
          (case read_source_metadata D M rr location c of
             (Inl e, c1) \<Rightarrow> (Inl e, c1)
           | (Inr md, c1) \<Rightarrow>
               (case write_with_meta_to_shard D M now rr target_shard target_store location data md c1 of
                  (Inl e, c2) \<Rightarrow> (Inl (ReMeta e), c2)
                | (Inr _, c2) \<Rightarrow> (Inr (), c2)))
      | None \<Rightarrow> on_slot_with ReStore (so_put D now location data) target_store c)"

text \<open>\<open>source_store.get(location)\<close> and its bytes.\<close>

definition read_all ::
  "('s, 'e) store_ops \<Rightarrow> string \<Rightarrow> store_ref \<Rightarrow> 's sharded \<Rightarrow> ('e repair_error + byte list) \<times> 's sharded" where
  "read_all D location store c =
     (case on_slot (so_get D None location) store c of
        (Inl e, c1) \<Rightarrow> (Inl (ReStore e), c1)
      | (Inr (Inl e), c1) \<Rightarrow> (Inl (ReStream e), c1)
      | (Inr (Inr data), c1) \<Rightarrow> (Inr data, c1))"

definition sync_copy ::
  "('s, 'e) store_ops \<Rightarrow> ('s, 'e) meta_api \<Rightarrow> int \<Rightarrow> raw_ref_registry option \<Rightarrow> nat \<Rightarrow> store_ref \<Rightarrow> store_ref \<Rightarrow> string \<Rightarrow>
     's sharded \<Rightarrow> ('e repair_error + unit) \<times> 's sharded" where
  "sync_copy D M now refs target_shard target_store source_store location c =
     (case read_all D location source_store c of
        (Inl e, c1) \<Rightarrow> (Inl e, c1)
      | (Inr data, c1) \<Rightarrow> write_copy D M now refs target_shard target_store location data c1)"

section \<open>Mirror synchronisation\<close>

record mirror_sync_report =
  mr_copied :: nat
  mr_deleted :: nat
  mr_bytes_copied :: nat
  mr_updated :: nat

definition stale_copy :: "object_meta \<Rightarrow> object_meta \<Rightarrow> bool" where
  "stale_copy meta target_meta \<longleftrightarrow> om_last_modified meta > om_last_modified target_meta \<or> om_size meta \<noteq> om_size target_meta"

fun mirror_copy_loop ::
  "('s, 'e) store_ops \<Rightarrow> ('s, 'e) meta_api \<Rightarrow> int \<Rightarrow> raw_ref_registry option \<Rightarrow> nat \<Rightarrow> store_ref \<Rightarrow> store_ref \<Rightarrow>
     (string, object_meta) hashmap \<Rightarrow> object_meta list \<Rightarrow> mirror_sync_report \<Rightarrow> 's sharded \<Rightarrow>
     ('e repair_error + mirror_sync_report) \<times> 's sharded" where
  "mirror_copy_loop D M now refs tgt target_store source_store target_by_key [] stats c = (Inr stats, c)"
| "mirror_copy_loop D M now refs tgt target_store source_store target_by_key (meta # objects) stats c =
     (case hm_get target_by_key (om_location meta) of
        None \<Rightarrow>
          (case sync_copy D M now refs tgt target_store source_store (om_location meta) c of
             (Inl e, c1) \<Rightarrow> (Inl e, c1)
           | (Inr _, c1) \<Rightarrow> mirror_copy_loop D M now refs tgt target_store source_store target_by_key objects
               (stats\<lparr>mr_copied := mr_copied stats + 1, mr_bytes_copied := mr_bytes_copied stats + om_size meta\<rparr>) c1)
      | Some target_meta \<Rightarrow>
          (if stale_copy meta target_meta then
             (case sync_copy D M now refs tgt target_store source_store (om_location meta) c of
                (Inl e, c1) \<Rightarrow> (Inl e, c1)
              | (Inr _, c1) \<Rightarrow> mirror_copy_loop D M now refs tgt target_store source_store target_by_key objects
                  (stats\<lparr>mr_updated := mr_updated stats + 1, mr_bytes_copied := mr_bytes_copied stats + om_size meta\<rparr>) c1)
           else mirror_copy_loop D M now refs tgt target_store source_store target_by_key objects stats c))"

fun mirror_delete_loop ::
  "('s, 'e) store_ops \<Rightarrow> store_ref \<Rightarrow> string set \<Rightarrow> object_meta list \<Rightarrow> mirror_sync_report \<Rightarrow> 's sharded \<Rightarrow>
     ('e repair_error + mirror_sync_report) \<times> 's sharded" where
  "mirror_delete_loop D target_store source_keys [] stats c = (Inr stats, c)"
| "mirror_delete_loop D target_store source_keys (meta # objects) stats c =
     (if om_location meta \<in> source_keys then mirror_delete_loop D target_store source_keys objects stats c
      else
        (case on_slot (so_delete D (om_location meta)) target_store c of
           (Inl e, c1) \<Rightarrow> (Inl (ReStore e), c1)
         | (Inr _, c1) \<Rightarrow> mirror_delete_loop D target_store source_keys objects
             (stats\<lparr>mr_deleted := mr_deleted stats + 1\<rparr>) c1))"

text \<open>\<open>raw_refs.or_else(cluster.raw_refs())\<close>.\<close>

definition effective_refs :: "raw_ref_registry option \<Rightarrow> 's sharded \<Rightarrow> raw_ref_registry option" where
  "effective_refs raw_refs c = (case raw_refs of Some r \<Rightarrow> Some r | None \<Rightarrow> sh_raw_refs c)"

definition original_store :: "store_ref option list \<Rightarrow> nat \<Rightarrow> store_ref option" where
  "original_store originals sid = (if sid < length originals then originals ! sid else None)"

definition mirror_sync ::
  "('s, 'e) store_ops \<Rightarrow> ('s, 'e) meta_api \<Rightarrow> int \<Rightarrow> store_ref option list \<Rightarrow> nat \<Rightarrow> raw_ref_registry option \<Rightarrow> 's sharded \<Rightarrow>
     ('e repair_error + mirror_sync_report) \<times> 's sharded" where
  "mirror_sync D M now originals target_shard raw_refs c =
     (case find (\<lambda>sid. sid \<noteq> target_shard \<and> shard_has (\<lambda>h. h = Healthy) c sid) [0..<length (sh_shards c)] of
        None \<Rightarrow> (Inl (ReMessage ''no healthy source shard available for mirror sync''), c)
      | Some source_shard \<Rightarrow>
          (case shard_at c source_shard of
             None \<Rightarrow> (Inl (ReMessage ''source shard store unavailable''), c)
           | Some s \<Rightarrow>
               (case original_store originals target_shard of
                  None \<Rightarrow> (Inl (ReMessage ''target shard original store unavailable''), c)
                | Some target_store \<Rightarrow>
                    (case on_slot (so_list D) (si_store s) c of
                       (Inl e, c1) \<Rightarrow> (Inl (ReStore e), c1)
                     | (Inr source_objects, c1) \<Rightarrow>
                         (case on_slot (so_list D) target_store c1 of
                            (Inl e, c2) \<Rightarrow> (Inl (ReStore e), c2)
                          | (Inr target_objects, c2) \<Rightarrow>
                              (case mirror_copy_loop D M now (effective_refs raw_refs c) target_shard target_store (si_store s)
                                   (fold (\<lambda>m. hm_insert (om_location m) m) target_objects []) source_objects
                                   \<lparr>mr_copied = 0, mr_deleted = 0, mr_bytes_copied = 0, mr_updated = 0\<rparr> c2 of
                                 (Inl e, c3) \<Rightarrow> (Inl e, c3)
                               | (Inr stats, c3) \<Rightarrow>
                                   mirror_delete_loop D target_store (om_location ` set source_objects) target_objects stats c3))))))"

section \<open>Partitioned synchronisation\<close>

text \<open>Phase 1: the under-replicated objects are copied to the recovering shard.\<close>

definition healthy_source :: "nat \<Rightarrow> placement_entry \<Rightarrow> 's sharded \<Rightarrow> nat option" where
  "healthy_source target_shard e c =
     find (\<lambda>sid. sid \<noteq> target_shard \<and> shard_has (\<lambda>h. h = Healthy) c sid) (pe_shards e)"

fun part_copy_loop ::
  "('s, 'e) store_ops \<Rightarrow> ('s, 'e) meta_api \<Rightarrow> int \<Rightarrow> raw_ref_registry option \<Rightarrow> nat \<Rightarrow> store_ref \<Rightarrow> (string \<times> nat) list \<Rightarrow> nat \<Rightarrow>
     's sharded \<Rightarrow> ('e repair_error + nat) \<times> 's sharded" where
  "part_copy_loop D M now refs tgt target_store [] replicated c = (Inr replicated, c)"
| "part_copy_loop D M now refs tgt target_store ((key, _) # unders) replicated c =
     (case catalog_get (sh_catalog c) key of
        None \<Rightarrow> part_copy_loop D M now refs tgt target_store unders replicated c
      | Some e \<Rightarrow>
          (case healthy_source tgt e c of
             None \<Rightarrow> part_copy_loop D M now refs tgt target_store unders replicated c
           | Some source_shard \<Rightarrow>
               (case shard_at c source_shard of
                  None \<Rightarrow> part_copy_loop D M now refs tgt target_store unders replicated c
                | Some s \<Rightarrow>
                    (case sync_copy D M now refs tgt target_store (si_store s) (so_path D key) c of
                       (Inr _, c1) \<Rightarrow> part_copy_loop D M now refs tgt target_store unders (replicated + 1) c1
                     | (Inl RePanicked, c1) \<Rightarrow> (Inl RePanicked, c1)
                     | (Inl _, c1) \<Rightarrow> part_copy_loop D M now refs tgt target_store unders replicated c1))))"

text \<open>Phase 2: objects of the recovering shard that a delete marker outdates are removed.\<close>

definition replay_marker ::
  "('s, 'e) store_ops \<Rightarrow> store_ref \<Rightarrow> string \<times> int \<Rightarrow> 's sharded \<Rightarrow> 's sharded" where
  "replay_marker D target_store marker c =
     (let path = so_path D (fst marker) in
      case on_slot (so_head D path) target_store c of
        (Inr meta, c1) \<Rightarrow>
          (if om_last_modified meta \<le> snd marker then snd (on_slot (so_delete D path) target_store c1) else c1)
      | (Inl _, c1) \<Rightarrow> c1)"

text \<open>Phase 3: stale copies on the recovering shard are replaced or removed.\<close>

definition refresh_object ::
  "('s, 'e) store_ops \<Rightarrow> ('s, 'e) meta_api \<Rightarrow> int \<Rightarrow> raw_ref_registry option \<Rightarrow> nat \<Rightarrow> store_ref \<Rightarrow> object_meta \<Rightarrow> 's sharded \<Rightarrow>
     ('e repair_error + unit) \<times> 's sharded" where
  "refresh_object D M now raw_refs tgt target_store meta c =
     (let key = om_location meta; drop_it = (\<lambda>c1. (Inr (), snd (on_slot (so_delete D key) target_store c1))) in
      if prefix DELETE_MARKER_PREFIX key then (Inr (), c)
      else case catalog_get (sh_catalog c) key of
        None \<Rightarrow> drop_it c
      | Some e \<Rightarrow>
          (if om_last_modified meta < pe_updated e then
             (case healthy_source tgt e c of
                None \<Rightarrow> drop_it c
              | Some sid \<Rightarrow>
                  (case shard_at c sid of
                     None \<Rightarrow> (Inr (), c)
                   | Some s \<Rightarrow>
                       (case on_slot (so_get D None key) (si_store s) c of
                          (Inl _, c1) \<Rightarrow> drop_it c1
                        | (Inr (Inl _), c1) \<Rightarrow> (Inr (), c1)
                        | (Inr (Inr data), c1) \<Rightarrow>
                            (case write_copy D M now raw_refs tgt target_store key data c1 of
                               (Inl RePanicked, c2) \<Rightarrow> (Inl RePanicked, c2)
                             | (_, c2) \<Rightarrow> (Inr (), c2)))))
           else (Inr (), c)))"

fun refresh_objects ::
  "('s, 'e) store_ops \<Rightarrow> ('s, 'e) meta_api \<Rightarrow> int \<Rightarrow> raw_ref_registry option \<Rightarrow> nat \<Rightarrow> store_ref \<Rightarrow> object_meta list \<Rightarrow> 's sharded \<Rightarrow>
     ('e repair_error + unit) \<times> 's sharded" where
  "refresh_objects D M now raw_refs tgt target_store [] c = (Inr (), c)"
| "refresh_objects D M now raw_refs tgt target_store (meta # objects) c =
     (case refresh_object D M now raw_refs tgt target_store meta c of
        (Inl e, c1) \<Rightarrow> (Inl e, c1)
      | (Inr _, c1) \<Rightarrow> refresh_objects D M now raw_refs tgt target_store objects c1)"

text \<open>Phase 4: delete markers on the recovering shard that the cluster no longer needs are removed.\<close>

definition clean_marker ::
  "('s, 'e) store_ops \<Rightarrow> int \<Rightarrow> store_ref \<Rightarrow> object_meta \<Rightarrow> 's sharded \<Rightarrow> 's sharded" where
  "clean_marker D now target_store meta c =
     (let key = om_location meta; drop_it = (\<lambda>c1. snd (on_slot (so_delete D key) target_store c1)) in
      case strip_prefix DELETE_MARKER_PREFIX key of
        None \<Rightarrow> c
      | Some original_key \<Rightarrow>
          (case on_slot (so_get D None key) target_store c of
             (Inr (Inr data), c1) \<Rightarrow>
               (case so_parse_rfc3339 D data of
                  None \<Rightarrow> c1
                | Some deleted_at \<Rightarrow>
                    (case get_delete_marker D now original_key c1 of
                       (None, c2) \<Rightarrow> drop_it c2
                     | (Some _, c2) \<Rightarrow>
                         (case sharded_head D now (so_path D original_key) c2 of
                            (Inr live_meta, c3) \<Rightarrow> (if om_last_modified live_meta > deleted_at then drop_it c3 else c3)
                          | (Inl _, c3) \<Rightarrow> c3)))
           | (_, c1) \<Rightarrow> c1))"

definition partitioned_sync ::
  "('s, 'e) store_ops \<Rightarrow> ('s, 'e) meta_api \<Rightarrow> int \<Rightarrow> store_ref option list \<Rightarrow> nat \<Rightarrow> raw_ref_registry option \<Rightarrow> 's sharded \<Rightarrow>
     ('e repair_error + nat) \<times> 's sharded" where
  "partitioned_sync D M now originals target_shard raw_refs c =
     (case original_store originals target_shard of
        None \<Rightarrow> (Inl (ReMessage ''target shard original store unavailable''), c)
      | Some target_store \<Rightarrow>
          (case part_copy_loop D M now (effective_refs raw_refs c) target_shard target_store (find_under_replicated c) 0 c of
             (Inl e, c1) \<Rightarrow> (Inl e, c1)
           | (Inr replicated, c1) \<Rightarrow>
               (case list_delete_markers D now c1 of (markers, c2) \<Rightarrow>
                  (let c3 = fold (replay_marker D target_store) markers c2 in
                   case on_slot (so_list D) target_store c3 of (r, c4) \<Rightarrow>
                     (let target_objects = (case r of Inr xs \<Rightarrow> xs | Inl _ \<Rightarrow> []) in
                      case refresh_objects D M now raw_refs target_shard target_store target_objects c4 of
                        (Inl e, c5) \<Rightarrow> (Inl e, c5)
                      | (Inr _, c5) \<Rightarrow> (Inr replicated, fold (clean_marker D now target_store) target_objects c5))))))"

section \<open>Re-attachment\<close>

text \<open>How a synchronisation ended: \<open>Some\<close> its success, or \<open>None\<close> for a panic.\<close>

definition sync_outcome :: "'e repair_error + 'a \<Rightarrow> bool option" where
  "sync_outcome r = (case r of Inl RePanicked \<Rightarrow> None | Inl _ \<Rightarrow> Some False | Inr _ \<Rightarrow> Some True)"

definition sync_and_reattach ::
  "('s, 'e) store_ops \<Rightarrow> ('s, 'e) meta_api \<Rightarrow> int \<Rightarrow> store_ref option list \<Rightarrow> nat \<Rightarrow> raw_ref_registry option \<Rightarrow> 's sharded \<Rightarrow>
     's sharded option" where
  "sync_and_reattach D M now originals shard_id raw_refs c =
     (let c1 = snd (set_shard_health now shard_id Syncing c);
          is_mirror = (rp_factor (sh_replication c1) = length (sh_shards c1));
          (outcome, c2) = (if is_mirror then (case mirror_sync D M now originals shard_id raw_refs c1 of (r, c2) \<Rightarrow> (sync_outcome r, c2))
            else (case partitioned_sync D M now originals shard_id raw_refs c1 of (r, c2) \<Rightarrow> (sync_outcome r, c2)))
      in map_option (\<lambda>sync_ok.
        if \<not> sync_ok then snd (set_shard_health now shard_id Offline c2)
        else
          (case original_store originals shard_id of
             None \<Rightarrow> snd (set_shard_health now shard_id Offline c2)
           | Some original \<Rightarrow>
               (case attach_shard D now shard_id original True c2 of
                  (Inr _, c3) \<Rightarrow> c3
                | (Inl _, c3) \<Rightarrow> snd (set_shard_health now shard_id Offline c3)))) outcome)"

section \<open>Sweeps over under- and over-replicated objects\<close>

fun re_replication_loop ::
  "('s, 'e) store_ops \<Rightarrow> ('s, 'e) meta_api \<Rightarrow> int \<Rightarrow> raw_ref_registry option \<Rightarrow> (string \<times> nat) list \<Rightarrow> nat \<Rightarrow> 's sharded \<Rightarrow>
     nat \<times> 's sharded" where
  "re_replication_loop D M now raw_refs [] replicated c = (replicated, c)"
| "re_replication_loop D M now raw_refs ((key, _) # batch) replicated c =
     (case catalog_get (sh_catalog c) key of
        None \<Rightarrow> re_replication_loop D M now raw_refs batch replicated c
      | Some e \<Rightarrow>
          (case find (shard_has (\<lambda>h. h = Healthy) c) (pe_shards e) of
             None \<Rightarrow> re_replication_loop D M now raw_refs batch replicated c
           | Some source_shard \<Rightarrow>
               (case find_replication_target key c of
                  None \<Rightarrow> re_replication_loop D M now raw_refs batch replicated c
                | Some target_shard \<Rightarrow>
                    (case replicate_object D M now key source_shard target_shard raw_refs c of
                       (Inr _, c1) \<Rightarrow> re_replication_loop D M now raw_refs batch (replicated + 1) c1
                     | (Inl _, c1) \<Rightarrow> re_replication_loop D M now raw_refs batch replicated c1))))"

definition re_replication_sweep ::
  "('s, 'e) store_ops \<Rightarrow> ('s, 'e) meta_api \<Rightarrow> int \<Rightarrow> nat \<Rightarrow> raw_ref_registry option \<Rightarrow> 's sharded \<Rightarrow> nat \<times> 's sharded" where
  "re_replication_sweep D M now batch_size raw_refs c =
     (if \<not> (\<exists>s\<in>set (sh_shards c). \<not> si_suppress_replication s \<and> (is_unavailable (si_health s) \<or> si_health s = Degraded)) then (0, c)
      else re_replication_loop D M now raw_refs (take batch_size (find_under_replicated c)) 0 c)"

fun trim_loop :: "('s, 'e) store_ops \<Rightarrow> (string \<times> nat) list \<Rightarrow> nat \<Rightarrow> 's sharded \<Rightarrow> nat \<times> 's sharded" where
  "trim_loop D [] trimmed c = (trimmed, c)"
| "trim_loop D ((key, _) # batch) trimmed c =
     (case pick_excess_shard key c of
        None \<Rightarrow> trim_loop D batch trimmed c
      | Some excess_shard \<Rightarrow>
          (case remove_replica D key excess_shard c of
             (Inr _, c1) \<Rightarrow> trim_loop D batch (trimmed + 1) c1
           | (Inl _, c1) \<Rightarrow> trim_loop D batch trimmed c1))"

definition over_replication_trim :: "('s, 'e) store_ops \<Rightarrow> nat \<Rightarrow> 's sharded \<Rightarrow> nat \<times> 's sharded" where
  "over_replication_trim D batch_size c = trim_loop D (take batch_size (find_over_replicated c)) 0 c"

text \<open>\<open>repair_replication_sweep\<close>: every object of the batch until it has enough replicas, or no more than enough.\<close>

partial_function (option) repair_key ::
  "('s, 'e) store_ops \<Rightarrow> ('s, 'e) meta_api \<Rightarrow> int \<Rightarrow> raw_ref_registry option \<Rightarrow> string \<Rightarrow> nat \<Rightarrow> 's sharded \<Rightarrow> (nat \<times> 's sharded) option" where
  "repair_key D M now raw_refs key n c =
     (case catalog_get (sh_catalog c) key of
        None \<Rightarrow> Some (n, c)
      | Some e \<Rightarrow>
          (if length (filter (shard_has (\<lambda>h. h = Healthy \<or> h = Syncing) c) (pe_shards e)) \<ge> rp_factor (sh_replication c)
           then Some (n, c)
           else
             (case find (shard_has (\<lambda>h. h = Healthy) c) (pe_shards e) of
                None \<Rightarrow> Some (n, c)
              | Some source_shard \<Rightarrow>
                  (case find_replication_target key c of
                     None \<Rightarrow> Some (n, c)
                   | Some target_shard \<Rightarrow>
                       (let r = replicate_object D M now key source_shard target_shard raw_refs c in
                        if is_ok (fst r) then repair_key D M now raw_refs key (n + 1) (snd r) else Some (n, snd r))))))"

partial_function (option) trim_key ::
  "('s, 'e) store_ops \<Rightarrow> string \<Rightarrow> nat \<Rightarrow> 's sharded \<Rightarrow> (nat \<times> 's sharded) option" where
  "trim_key D key n c =
     (case pick_excess_shard key c of
        None \<Rightarrow> Some (n, c)
      | Some excess_shard \<Rightarrow>
          (let r = remove_replica D key excess_shard c in
           if is_ok (fst r) then trim_key D key (n + 1) (snd r) else Some (n, snd r)))"

fun sweep_keys :: "(string \<Rightarrow> nat \<Rightarrow> 's sharded \<Rightarrow> (nat \<times> 's sharded) option) \<Rightarrow> string list \<Rightarrow> nat \<Rightarrow> 's sharded \<Rightarrow> (nat \<times> 's sharded) option" where
  "sweep_keys step [] n c = Some (n, c)"
| "sweep_keys step (key # keys) n c = Option.bind (step key n c) (\<lambda>(n1, c1). sweep_keys step keys n1 c1)"

record repair_replication_result =
  rx_re_replicated :: nat
  rx_trimmed :: nat
  rx_under_remaining :: nat
  rx_over_remaining :: nat

definition repair_replication_sweep ::
  "('s, 'e) store_ops \<Rightarrow> ('s, 'e) meta_api \<Rightarrow> int \<Rightarrow> nat \<Rightarrow> raw_ref_registry option \<Rightarrow> 's sharded \<Rightarrow>
     (repair_replication_result \<times> 's sharded) option" where
  "repair_replication_sweep D M now batch_size raw_refs c =
     Option.bind (sweep_keys (repair_key D M now raw_refs) (map fst (take batch_size (find_under_replicated c))) 0 c) (\<lambda>(re_replicated, c1).
       Option.bind (sweep_keys (trim_key D) (map fst (take batch_size (find_over_replicated c1))) 0 c1) (\<lambda>(trimmed, c2).
         Some (\<lparr>rx_re_replicated = re_replicated, rx_trimmed = trimmed,
                rx_under_remaining = length (find_under_replicated c2), rx_over_remaining = length (find_over_replicated c2)\<rparr>, c2)))"

section \<open>The dry-run plan\<close>

datatype planned_action_kind = Replicate nat nat | Trim nat

record planned_action =
  pl_key :: string
  pl_current_count :: nat
  pl_target_rf :: nat
  pl_action :: planned_action_kind

record repair_replication_plan =
  pn_replications :: "planned_action list"
  pn_trims :: "planned_action list"
  pn_unrepairable :: nat
  pn_untrimmable :: nat

definition plan_replication :: "'s sharded \<Rightarrow> string \<times> nat \<Rightarrow> repair_replication_plan \<Rightarrow> repair_replication_plan" where
  "plan_replication c item plan =
     (case catalog_get (sh_catalog c) (fst item) of
        None \<Rightarrow> plan
      | Some e \<Rightarrow>
          (case find (shard_has (\<lambda>h. h = Healthy) c) (pe_shards e) of
             None \<Rightarrow> plan\<lparr>pn_unrepairable := pn_unrepairable plan + 1\<rparr>
           | Some source_shard \<Rightarrow>
               (case find_replication_target (fst item) c of
                  None \<Rightarrow> plan\<lparr>pn_unrepairable := pn_unrepairable plan + 1\<rparr>
                | Some target_shard \<Rightarrow>
                    plan\<lparr>pn_replications := pn_replications plan @ [\<lparr>pl_key = fst item, pl_current_count = snd item,
                      pl_target_rf = rp_factor (sh_replication c), pl_action = Replicate source_shard target_shard\<rparr>]\<rparr>)))"

definition plan_trim :: "'s sharded \<Rightarrow> string \<times> nat \<Rightarrow> repair_replication_plan \<Rightarrow> repair_replication_plan" where
  "plan_trim c item plan =
     (case pick_excess_shard (fst item) c of
        None \<Rightarrow> plan\<lparr>pn_untrimmable := pn_untrimmable plan + 1\<rparr>
      | Some excess_shard \<Rightarrow>
          plan\<lparr>pn_trims := pn_trims plan @ [\<lparr>pl_key = fst item, pl_current_count = snd item,
            pl_target_rf = rp_factor (sh_replication c), pl_action = Trim excess_shard\<rparr>]\<rparr>)"

definition plan_repair_replication :: "'s sharded \<Rightarrow> nat \<Rightarrow> repair_replication_plan" where
  "plan_repair_replication c batch_size =
     fold (plan_trim c) (take batch_size (find_over_replicated c))
       (fold (plan_replication c) (take batch_size (find_under_replicated c))
         \<lparr>pn_replications = [], pn_trims = [], pn_unrepairable = 0, pn_untrimmable = 0\<rparr>)"

section \<open>Drain of a shard\<close>

record drain_report =
  dr_moved :: nat
  dr_skipped :: nat
  dr_errors :: nat
  dr_deleted :: nat
  dr_delete_errors :: nat
  dr_re_replicated :: nat
  dr_under_remaining :: nat

text \<open>
  The survivor cluster is the cluster itself (as the server passes it) or a second cluster over the
  surviving stores with a catalog of its own (as the command line does); the stores are shared.
\<close>

definition survivor_refs :: "'s sharded \<times> 's sharded option \<Rightarrow> raw_ref_registry option" where
  "survivor_refs cs = (case snd cs of None \<Rightarrow> sh_raw_refs (fst cs) | Some s \<Rightarrow> sh_raw_refs s)"

definition on_survivor :: "('s sharded \<Rightarrow> 'r \<times> 's sharded) \<Rightarrow> 's sharded \<times> 's sharded option \<Rightarrow> 'r \<times> 's sharded \<times> 's sharded option" where
  "on_survivor f cs =
     (case snd cs of
        None \<Rightarrow> (case f (fst cs) of (r, c1) \<Rightarrow> (r, c1, None))
      | Some s \<Rightarrow>
          (case f (s\<lparr>sh_heap := sh_heap (fst cs)\<rparr>) of (r, s1) \<Rightarrow> (r, (fst cs)\<lparr>sh_heap := sh_heap s1\<rparr>, Some s1)))"

definition on_cluster :: "('s sharded \<Rightarrow> 'r \<times> 's sharded) \<Rightarrow> 's sharded \<times> 's sharded option \<Rightarrow> 'r \<times> 's sharded \<times> 's sharded option" where
  "on_cluster f cs = (case f (fst cs) of (r, c1) \<Rightarrow> (r, c1, snd cs))"

datatype drain_outcome = Moved | Skipped | Failed

definition drain_write ::
  "('s, 'e) store_ops \<Rightarrow> ('s, 'e) meta_api \<Rightarrow> int \<Rightarrow> string \<Rightarrow> byte list \<Rightarrow> byte list \<Rightarrow> 's sharded \<times> 's sharded option \<Rightarrow>
     bool \<times> 's sharded \<times> 's sharded option" where
  "drain_write D M now location data meta_bytes cs =
     (case (if meta_bytes = [] then None else survivor_refs cs) of
        Some refs \<Rightarrow> on_survivor (\<lambda>s. case sharded_put_with_meta D M now refs location data meta_bytes s of (r, s1) \<Rightarrow> (is_ok r, s1)) cs
      | None \<Rightarrow> on_survivor (\<lambda>s. case sharded_put D now location data s of (r, s1) \<Rightarrow> (is_ok r, s1)) cs)"

definition drain_object ::
  "('s, 'e) store_ops \<Rightarrow> ('s, 'e) meta_api \<Rightarrow> int \<Rightarrow> nat \<Rightarrow> store_ref \<Rightarrow> raw_ref_registry option \<Rightarrow> string \<Rightarrow>
     's sharded \<times> 's sharded option \<Rightarrow> drain_outcome \<times> 's sharded \<times> 's sharded option" where
  "drain_object D M now victim victim_store raw_refs location cs =
     (if (case catalog_get (sh_catalog (fst cs)) location of Some e \<Rightarrow> \<exists>s\<in>set (pe_shards e). s \<noteq> victim | None \<Rightarrow> False)
      then (Skipped, cs)
      else
        (case on_cluster (on_slot (get_with_attrs D M location) victim_store) cs of
           (Inr (Inr data, attributes), cs1) \<Rightarrow>
             (case (case raw_refs of
                      Some refs \<Rightarrow> on_cluster (read_metadata_from_shard D M victim_store victim location attributes refs) cs1
                    | None \<Rightarrow> (None, cs1)) of
                (md, cs2) \<Rightarrow>
                  (case drain_write D M now location data (case md of Some m \<Rightarrow> m | None \<Rightarrow> []) cs2 of
                     (success, cs3) \<Rightarrow> (if success then Moved else Failed, cs3)))
         | (_, cs1) \<Rightarrow> (Failed, cs1)))"

fun drain_loop ::
  "('s, 'e) store_ops \<Rightarrow> ('s, 'e) meta_api \<Rightarrow> int \<Rightarrow> nat \<Rightarrow> store_ref \<Rightarrow> raw_ref_registry option \<Rightarrow> string list \<Rightarrow>
     drain_report \<times> string list \<Rightarrow> 's sharded \<times> 's sharded option \<Rightarrow> (drain_report \<times> string list) \<times> 's sharded \<times> 's sharded option" where
  "drain_loop D M now victim victim_store raw_refs [] acc cs = (acc, cs)"
| "drain_loop D M now victim victim_store raw_refs (location # files) (rpt, safe) cs =
     (case drain_object D M now victim victim_store raw_refs location cs of
        (Skipped, cs1) \<Rightarrow> drain_loop D M now victim victim_store raw_refs files (rpt\<lparr>dr_skipped := dr_skipped rpt + 1\<rparr>, safe @ [location]) cs1
      | (Moved, cs1) \<Rightarrow> drain_loop D M now victim victim_store raw_refs files (rpt\<lparr>dr_moved := dr_moved rpt + 1\<rparr>, safe @ [location]) cs1
      | (Failed, cs1) \<Rightarrow> drain_loop D M now victim victim_store raw_refs files (rpt\<lparr>dr_errors := dr_errors rpt + 1\<rparr>, safe) cs1)"

fun drain_delete_loop ::
  "('s, 'e) store_ops \<Rightarrow> nat \<Rightarrow> store_ref \<Rightarrow> raw_ref_registry option \<Rightarrow> string list \<Rightarrow> drain_report \<Rightarrow> 's sharded \<Rightarrow> drain_report \<times> 's sharded" where
  "drain_delete_loop D victim victim_store raw_refs [] rpt c = (rpt, c)"
| "drain_delete_loop D victim victim_store raw_refs (location # files) rpt c =
     (case on_slot (so_delete D location) victim_store c of (r, c1) \<Rightarrow>
        drain_delete_loop D victim victim_store raw_refs files
          (if is_ok r then rpt\<lparr>dr_deleted := dr_deleted rpt + 1\<rparr> else rpt\<lparr>dr_delete_errors := dr_delete_errors rpt + 1\<rparr>)
          (cleanup_sidecar_maybe D location raw_refs victim victim_store c1))"

definition drain_shard ::
  "('s, 'e) store_ops \<Rightarrow> ('s, 'e) meta_api \<Rightarrow> int \<Rightarrow> nat \<Rightarrow> store_ref \<Rightarrow> raw_ref_registry option \<Rightarrow> 's sharded \<times> 's sharded option \<Rightarrow>
     (drain_report \<times> 's sharded \<times> 's sharded option) option" where
  "drain_shard D M now victim victim_store raw_refs cs =
     (case on_cluster (on_slot (so_list D) victim_store) cs of (listed, cs1) \<Rightarrow>
        (let victim_files = filter (\<lambda>k. \<not> is_meta_key k) (map om_location (case listed of Inr xs \<Rightarrow> xs | Inl _ \<Rightarrow> [])) in
         case drain_loop D M now victim victim_store raw_refs victim_files
             (\<lparr>dr_moved = 0, dr_skipped = 0, dr_errors = 0, dr_deleted = 0, dr_delete_errors = 0, dr_re_replicated = 0,
               dr_under_remaining = 0\<rparr>, []) cs1 of
           ((rpt, safe_to_delete), (c2, s2)) \<Rightarrow>
             (case drain_delete_loop D victim victim_store raw_refs safe_to_delete rpt
                 (update_catalog (\<lambda>cat. snd (remove_all_for_shard victim cat)) c2) of
                (rpt1, c3) \<Rightarrow>
                  Option.bind (repair_replication_sweep D M now u64_max raw_refs c3) (\<lambda>(sweep, c4).
                    Some (rpt1\<lparr>dr_re_replicated := rx_re_replicated sweep, dr_under_remaining := rx_under_remaining sweep\<rparr>, c4, s2)))))"

section \<open>Redistribution\<close>

record redistribute_result =
  rd_moved :: nat
  rd_skipped :: nat
  rd_errors :: nat
  rd_shard_counts :: "(nat \<times> nat) list"

text \<open>
  Doubles: the quotients here are zero or at least \<open>2 ^ -64\<close>, so that scaling by \<open>2 ^ 64\<close> brings
  them into the range where \<open>f64_round\<close> is the rounding of IEEE 754.
\<close>

definition f64_of_nat :: "nat \<Rightarrow> rat" where
  "f64_of_nat n = f64_round (of_nat n)"

definition f64_div :: "rat \<Rightarrow> rat \<Rightarrow> rat" where
  "f64_div a b = f64_round (a / b * 2 ^ 64) / 2 ^ 64"

definition balanced :: "rat \<Rightarrow> rat \<Rightarrow> nat \<Rightarrow> nat \<Rightarrow> bool" where
  "balanced mean tolerance_pct max_c min_c \<longleftrightarrow> mean > 0 \<and> f64_div (f64_of_nat (max_c - min_c)) mean \<le> tolerance_pct"

datatype move_outcome = MvMoved | MvSkipped | MvError

text \<open>The first object of the source shard that may move, and what became of it.\<close>

fun try_move ::
  "('s, 'e) store_ops \<Rightarrow> ('s, 'e) meta_api \<Rightarrow> int \<Rightarrow> raw_ref_registry option \<Rightarrow> nat \<Rightarrow> nat set \<Rightarrow> nat \<Rightarrow> nat \<Rightarrow>
     (string \<times> placement_entry) list \<Rightarrow> 's sharded \<Rightarrow> move_outcome option \<times> 's sharded" where
  "try_move D M now raw_refs rf healthy_set src_shard dst_shard [] c = (None, c)"
| "try_move D M now raw_refs rf healthy_set src_shard dst_shard ((key, e) # candidates) c =
     (if dst_shard \<in> set (pe_shards e) \<or> length (filter (\<lambda>s. s \<noteq> src_shard \<and> s \<in> healthy_set) (pe_shards e)) + 1 < rf
      then try_move D M now raw_refs rf healthy_set src_shard dst_shard candidates c
      else
        (case replicate_object D M now key src_shard dst_shard raw_refs c of
           (Inl _, c1) \<Rightarrow> (Some MvError, c1)
         | (Inr _, c1) \<Rightarrow>
             (if (case catalog_get (sh_catalog c1) key of
                    Some e1 \<Rightarrow> length (filter (\<lambda>s. s \<in> healthy_set) (pe_shards e1)) \<ge> rf | None \<Rightarrow> False)
              then
                (case remove_replica D key src_shard c1 of
                   (Inr _, c2) \<Rightarrow> (Some MvMoved, c2)
                 | (Inl _, c2) \<Rightarrow> (Some MvError, c2))
              else (Some MvSkipped, c1))))"

definition move_count :: "nat \<Rightarrow> nat \<Rightarrow> (nat \<times> nat) list \<Rightarrow> (nat \<times> nat) list" where
  "move_count src_shard dst_shard counts =
     map (\<lambda>(sid, cnt).
       let cnt1 = (if sid = src_shard then saturating_sub cnt 1 else cnt)
       in (sid, if sid = dst_shard then cnt1 + 1 else cnt1)) counts"

partial_function (option) redistribute_loop ::
  "('s, 'e) store_ops \<Rightarrow> ('s, 'e) meta_api \<Rightarrow> int \<Rightarrow> raw_ref_registry option \<Rightarrow> nat \<Rightarrow> nat \<Rightarrow> rat \<Rightarrow> rat \<Rightarrow> nat set \<Rightarrow>
     redistribute_result \<Rightarrow> (nat \<times> nat) list \<Rightarrow> nat \<Rightarrow> 's sharded \<Rightarrow> (redistribute_result \<times> 's sharded) option" where
  "redistribute_loop D M now raw_refs rf batch_size tolerance_pct mean healthy_set result counts0 moved c =
     (if \<not> moved < batch_size then Some (result, c)
      else
        (let counts = sort_key (\<lambda>(_, n). - int n) counts0;
             (src_shard, src_count) = hd counts; (dst_shard, dst_count) = last counts
         in if balanced mean tolerance_pct src_count dst_count \<or> src_count \<le> dst_count + 1 then Some (result, c)
            else
              (let m = try_move D M now raw_refs rf healthy_set src_shard dst_shard (entries_for_shard src_shard (sh_catalog c)) c in
               if fst m = None then Some (result, snd m)
               else if fst m = Some MvMoved
               then redistribute_loop D M now raw_refs rf batch_size tolerance_pct mean healthy_set
                      (result\<lparr>rd_moved := rd_moved result + 1\<rparr>) (move_count src_shard dst_shard counts) (moved + 1) (snd m)
               else if fst m = Some MvSkipped
               then redistribute_loop D M now raw_refs rf batch_size tolerance_pct mean healthy_set
                      (result\<lparr>rd_skipped := rd_skipped result + 1\<rparr>) counts moved (snd m)
               else redistribute_loop D M now raw_refs rf batch_size tolerance_pct mean healthy_set
                      (result\<lparr>rd_errors := rd_errors result + 1\<rparr>) counts moved (snd m))))"

definition redistribute_sweep ::
  "('s, 'e) store_ops \<Rightarrow> ('s, 'e) meta_api \<Rightarrow> int \<Rightarrow> nat \<Rightarrow> rat \<Rightarrow> raw_ref_registry option \<Rightarrow> 's sharded \<Rightarrow>
     (redistribute_result \<times> 's sharded) option" where
  "redistribute_sweep D M now batch_size tolerance_pct raw_refs c =
     (let result = \<lparr>rd_moved = 0, rd_skipped = 0, rd_errors = 0, rd_shard_counts = shard_object_counts c\<rparr>;
          counts = shard_object_counts c; sum = sum_list (map snd counts);
          mean = f64_div (f64_of_nat sum) (f64_of_nat (length counts))
      in if find_under_replicated c \<noteq> [] \<or> length counts < 2 \<or> sum = 0 \<or>
            balanced mean tolerance_pct (Max (set (map snd counts))) (Min (set (map snd counts)))
         then Some (result, c)
         else
           Option.bind (redistribute_loop D M now raw_refs (rp_factor (sh_replication c)) batch_size tolerance_pct mean
               (fst ` set counts) result counts 0 c) (\<lambda>(result1, c1).
             Some (result1\<lparr>rd_shard_counts := shard_object_counts c1\<rparr>, c1)))"

end
