(* ===== verification/Copy_Ops.thy ===== *)
theory Copy_Ops
  imports Sharded_Copy
begin

text \<open>
  What the copies between shards and between keys do, for shards that keep the contract
  \<open>meta_store\<close>: the target gets the object of the source and nothing else changes.
\<close>

section \<open>Copies between shards\<close>

text \<open>The object of a shard together with its metadata fits a buffer.\<close>

definition fits_buffer ::
  "('s, 'e) store_ops \<Rightarrow> ('s, 'e) meta_api \<Rightarrow> raw_ref_registry option \<Rightarrow> string \<Rightarrow> nat \<times> store_ref \<Rightarrow> 's sharded \<Rightarrow> bool" where
  "fits_buffer D M raw_refs path src c \<longleftrightarrow>
     (case on_slot (get_with_attrs D M path) (snd src) c of
        (Inr (Inr data, attributes), c1) \<Rightarrow>
          (case raw_refs of
             None \<Rightarrow> length data < 2 ^ 63
           | Some refs \<Rightarrow>
               (case fst (read_metadata_from_shard D M (snd src) (fst src) path attributes refs c1) of
                  None \<Rightarrow> length data < 2 ^ 63
                | Some m \<Rightarrow> length (data @ m) < 2 ^ 63))
      | _ \<Rightarrow> True)"

definition agrees_opt :: "raw_ref_registry option \<Rightarrow> 's sharded \<Rightarrow> bool" where
  "agrees_opt raw_refs c \<longleftrightarrow> (case raw_refs of Some refs \<Rightarrow> agrees refs c | None \<Rightarrow> True)"

text \<open>
  Nothing changes but the key and its sidecar, the key only to the object of the source, and the sidecar
  only to one that fits beside it.
\<close>

definition copied ::
  "('s, 'e) store_ops \<Rightarrow> string \<Rightarrow> store_ref \<Rightarrow> (nat \<Rightarrow> string \<rightharpoonup> byte list) \<Rightarrow> (nat \<Rightarrow> string \<rightharpoonup> byte list) \<Rightarrow> bool" where
  "copied D path src H H' \<longleftrightarrow> same_except {path, meta_sidecar_path D path} H H' \<and>
     (\<forall>a'. H' a' path = H a' path \<or> (\<exists>a. src = StoreAt a \<and> H a path \<noteq> None \<and> H' a' path = H a path)) \<and>
     (\<forall>a' k. k \<noteq> path \<longrightarrow> H' a' k = H a' k \<or> (\<exists>a data. src = StoreAt a \<and> H a path = Some data \<and> beside data (H' a' k)))"

lemma copied_refl [simp]: "copied D path src H H"
  by (simp add: copied_def)

context meta_store
begin

lemma get_with_attrs_law:
  assumes "holds s A" and "get_with_attrs D M k s = (r, s')"
  shows "holds s' A \<and> (\<forall>d ats. r = Inr (Inr d, ats) \<longrightarrow> A k = Some d)"
  using assms(2) get_law [OF assms(1), of None k]
  by (auto simp: get_with_attrs_def split: prod.splits sum.splits)

lemma read_metadata_spec:
  assumes rep: "heap_rep holds c H" and run: "read_metadata_from_shard D M store sid loc ats refs c = (md, c')"
  shows "heap_only c c' \<and> heap_rep holds c' H"
proof -
  obtain r c1 where o: "on_slot (so_get D None (meta_sidecar_path D loc)) store c = (r, c1)" by fastforce
  have "heap_rep holds c1 H"
    by (rule on_slot_read(1) [where P = "\<lambda>_ _. True", OF _ rep o]) (use get_law in blast)
  with rep run o on_slot_frame [OF o] show ?thesis
    by (auto simp: read_metadata_from_shard_def Let_def split: shard_kind.splits option.splits if_splits sum.splits)
qed

lemma write_with_meta_spec:
  assumes rep: "heap_rep holds c H" and ag: "agrees refs c" and sid: "sid < length (sh_shards c)" and ref: "slots c ! sid = ref"
    and len: "length (data @ md) < 2 ^ 63" and loc: "meta_sidecar_path D loc \<noteq> loc"
    and run: "write_with_meta_to_shard D M now refs sid ref loc data md c = (r, c')"
  shows "shard_write {meta_sidecar_path D loc} loc data sid c H (is_ok r) c'"
proof -
  have pl: "length data < 2 ^ 63" "length md < 2 ^ 63" using len by simp_all
  have plain: ?thesis if "on_slot_with MdStore (so_put D now loc data) ref c = (r, c')"
    by (rule slot_write [OF _ rep that sid ref]) (use put_law [OF _ pl(1)] in blast)
  show ?thesis
  proof (cases "md = [] \<or> rr_kind refs sid = RawKind \<and> rr_get refs sid = None")
    case True
    with run plain show ?thesis by (auto simp: write_with_meta_to_shard_def split: if_splits)
  next
    case md: False
    show ?thesis
    proof (cases "rr_kind refs sid")
      case RawKind
      with md obtain a where a: "rr_get refs sid = Some a" by auto
      with RawKind run md have o: "on_raw (ma_put_with_meta M now loc data md) a c = (r, c')"
        by (simp add: write_with_meta_to_shard_def)
      have "slots c ! sid = StoreAt a" using ag a sid by (simp add: agrees_def)
      from raw_write [OF _ rep o sid this] show ?thesis using put_meta_law [OF _ len] by blast
    next
      case S3Like
      with run md have "on_slot_with MdStore (ma_put_attrs M now loc data (meta_to_attributes (decode_metadata md))) ref c = (r, c')"
        by (simp add: write_with_meta_to_shard_def)
      from slot_write [OF _ rep this sid ref] show ?thesis using put_attrs_law [OF _ pl(1)] by blast
    next
      case Sidecar
      obtain r1 c1 where o1: "on_slot_with MdStore (so_put D now loc data) ref c = (r1, c1 :: 's sharded)" by fastforce
      have w1: "shard_write {meta_sidecar_path D loc} loc data sid c H (is_ok r1) c1"
        by (rule slot_write [OF _ rep o1 sid ref]) (use put_law [OF _ pl(1)] in blast)
      show ?thesis
      proof (cases r1)
        case (Inl e)
        with run md Sidecar o1 w1 show ?thesis by (auto simp: write_with_meta_to_shard_def)
      next
        case (Inr u)
        with run md Sidecar o1 have o2: "on_slot_with MdStore (so_put D now (meta_sidecar_path D loc) md) ref c1 = (r, c')"
          by (simp add: write_with_meta_to_shard_def)
        from w1 have "heap_only c c1" by (simp add: shard_write_def)
        then have k: "sid < length (sh_shards c1)" "slots c1 ! sid = ref"
          using sid ref heap_only_slots [of c c1] by simp_all
        have w2: "shard_write {} (meta_sidecar_path D loc) md sid c1 H1 (is_ok r) c'" if "heap_rep holds c1 H1" for H1
          by (rule slot_write [OF _ that o2 k]) (use put_law [OF _ pl(2)] in blast)
        show ?thesis by (rule shard_write_then [OF _ w2 loc len]) (use w1 Inr in simp_all)
      qed
    qed
  qed
qed

lemma copy_to_shard_spec:
  assumes rep: "heap_rep holds c H" and ag: "agrees_opt raw_refs c" and sid: "fst dst < length (sh_shards c)"
    and ref: "slots c ! fst dst = snd dst" and fits: "fits_buffer D M raw_refs path src c"
    and loc: "meta_sidecar_path D path \<noteq> path" and run: "copy_to_shard D M now raw_refs path src dst c = (r, c')"
  shows "heap_only c c' \<and> (\<exists>H'. heap_rep holds c' H' \<and> copied D path (snd src) H H' \<and>
    (\<forall>sz ml. r = Inr (sz, ml) \<longrightarrow> (\<exists>a data. snd src = StoreAt a \<and> H a path = Some data \<and> sz = length data \<and>
       stored c H' (fst dst) path = Some data)))"
proof -
  obtain g c1 where g: "on_slot (get_with_attrs D M path) (snd src) c = (g, c1)" by fastforce
  note h1 = on_slot_frame [OF g]
  have rep1: "heap_rep holds c1 H"
    by (rule on_slot_read(1) [where P = "\<lambda>_ _. True", OF _ rep g]) (use get_with_attrs_law in blast)
  show ?thesis
  proof (cases "\<exists>data ats. g = Inr (Inr data, ats)")
    case False
    then have "c' = c1" "\<not> is_ok r" using run g by (auto simp: copy_to_shard_def split: sum.splits)
    then show ?thesis using h1 rep1 by (intro conjI exI [of _ H]) auto
  next
    case True
    then obtain data ats where d: "g = Inr (Inr data, ats)" by blast
    have "\<exists>a. snd src = StoreAt a \<and> (\<forall>d ats2. (Inr (Inr data, ats) :: 'e + ('e + byte list) \<times> attributes) = Inr (Inr d, ats2) \<longrightarrow> H a path = Some d)"
      by (rule on_slot_read(2) [where P = "\<lambda>A r. \<forall>d ats. r = Inr (Inr d, ats) \<longrightarrow> A path = Some d", OF _ rep g d]) (rule get_with_attrs_law)
    then obtain a where a: "snd src = StoreAt a" "H a path = Some data" by blast
    define m where "m = (case raw_refs of Some refs \<Rightarrow> read_metadata_from_shard D M (snd src) (fst src) path ats refs c1 | None \<Rightarrow> (None, c1))"
    obtain md c2 where m': "m = (md, c2)" by (cases m)
    have m2: "heap_only c1 c2" "heap_rep holds c2 H"
      using m' rep1 read_metadata_spec [OF rep1] by (auto simp: m_def split: option.splits)
    have k2: "frame c c2" "heap_only c c2" using heap_only_keeps heap_only_trans [OF h1 m2(1)] by blast+
    have sid2: "fst dst < length (sh_shards c2)" "slots c2 ! fst dst = snd dst"
      using sid ref k2(1) frame_length [OF k2(1)] by (simp_all add: frame_def)
    have len: "length (data @ (case md of Some x \<Rightarrow> x | None \<Rightarrow> [])) < 2 ^ 63"
      using fits g d m' by (auto simp: fits_buffer_def m_def split: option.splits)
    define w where "w = (case (md, raw_refs) of (Some x, Some refs) \<Rightarrow> write_with_meta_to_shard D M now refs (fst dst) (snd dst) path data x c2
      | _ \<Rightarrow> on_slot_with MdStore (so_put D now path data) (snd dst) c2)"
    obtain rw c3 where w': "w = (rw, c3)" by (cases w)
    have "shard_write {meta_sidecar_path D path} path data (fst dst) c2 H (is_ok rw) c3"
    proof (cases "md = None \<or> raw_refs = None")
      case True
      then have "on_slot_with MdStore (so_put D now path data) (snd dst) c2 = (rw, c3)"
        using w' by (auto simp: w_def split: option.splits)
      from slot_write [OF _ m2(2) this sid2] show ?thesis using put_law [of _ _ data] len by fastforce
    next
      case False
      then obtain x refs where x: "md = Some x" "raw_refs = Some refs" by auto
      have "agrees refs c2" using ag x(2) agrees_cong [OF k2(1)] by (simp add: agrees_opt_def)
      from write_with_meta_spec [OF m2(2) this sid2 _ loc, of data x now rw c3] show ?thesis
        using len w' x by (simp add: w_def)
    qed
    then obtain H' where H': "heap_only c2 c3" "heap_rep holds c3 H'" "wrote_in {meta_sidecar_path D path} path data H H'"
      "is_ok rw \<longrightarrow> stored c2 H' (fst dst) path = Some data" by (auto simp: shard_write_def)
    have run': "(r, c') = (case rw of Inl e \<Rightarrow> (Inl (CeMeta e), c3)
        | Inr _ \<Rightarrow> (Inr (length data, length (case md of Some x \<Rightarrow> x | None \<Rightarrow> []) mod 65536), c3))"
      using run g d m' w' unfolding copy_to_shard_def w_def m_def by (simp split: sum.splits)
    have "copied D path (snd src) H H'" unfolding copied_def using H'(3) a by (simp add: wrote_in_def)
    moreover have "c' = c3" "\<forall>sz ml. r = Inr (sz, ml) \<longrightarrow> is_ok rw \<and> sz = length data" using run' by (auto split: sum.splits)
    ultimately show ?thesis
      using H' a heap_only_trans [OF k2(2) H'(1)] stored_frame [OF k2(1)] by auto
  qed
qed

lemma replicate_object_spec:
  assumes rep: "heap_rep holds c H" and ag: "agrees_opt raw_refs c"
    and fits: "fits_buffer D M raw_refs (so_path D key) (src, slots c ! src) c"
    and loc: "meta_sidecar_path D (so_path D key) \<noteq> so_path D key"
    and run: "replicate_object D M now key src dst raw_refs c = (r, c')"
  shows "frame c c' \<and> sh_shards c' = sh_shards c \<and>
    (\<exists>H'. heap_rep holds c' H' \<and> same_except {so_path D key, meta_sidecar_path D (so_path D key)} H H' \<and>
      (\<forall>a. H' a (so_path D key) = H a (so_path D key) \<or>
        stored c H src (so_path D key) \<noteq> None \<and> H' a (so_path D key) = stored c H src (so_path D key)) \<and>
      (\<forall>a k. k \<noteq> so_path D key \<longrightarrow> H' a k = H a k \<or>
        (\<exists>data. stored c H src (so_path D key) = Some data \<and> beside data (H' a k))) \<and>
      (case r of
         Inr sz \<Rightarrow> \<exists>data ml. stored c H src (so_path D key) = Some data \<and> sz = length data \<and>
           stored c H' dst (so_path D key) = Some data \<and> sh_catalog c' = add_replica now key dst sz ml (sh_catalog c)
       | Inl _ \<Rightarrow> sh_catalog c' = sh_catalog c))"
proof (cases "src \<ge> length (sh_shards c) \<or> dst \<ge> length (sh_shards c)")
  case True
  then have "replicate_object D M now key src dst raw_refs c = (Inl (CeShard NoShards), c)"
    by (simp add: replicate_object_def)
  with run rep show ?thesis by (auto intro!: exI [of _ H])
next
  case False
  let ?p = "so_path D key"
  have sid: "src < length (sh_shards c)" "dst < length (sh_shards c)" using False by simp_all
  obtain r1 c1 where cp: "copy_to_shard D M now raw_refs ?p (src, slots c ! src) (dst, slots c ! dst) c = (r1, c1)" by fastforce
  have run': "(case r1 of Inl e \<Rightarrow> (Inl e, c1) | Inr (sz, ml) \<Rightarrow> (Inr sz, update_catalog (add_replica now key dst sz ml) c1)) = (r, c')"
    using run cp sid unfolding replicate_object_def if_not_P [OF False] by (simp add: slots_nth)
  from copy_to_shard_spec [OF rep ag _ _ fits loc cp] sid obtain H' where h: "heap_only c c1" "heap_rep holds c1 H'"
    "copied D ?p (slots c ! src) H H'"
    "\<forall>sz ml. r1 = Inr (sz, ml) \<longrightarrow> (\<exists>a data. slots c ! src = StoreAt a \<and> H a ?p = Some data \<and> sz = length data \<and>
       stored c H' dst ?p = Some data)" by auto
  note k = heap_only_keeps [OF h(1)]
  have st: "stored c H src ?p = H a ?p" if "slots c ! src = StoreAt a" for a using that sid by (simp add: stored_def)
  have same: "same_except {?p, meta_sidecar_path D ?p} H H'"
    "\<forall>a. H' a ?p = H a ?p \<or> stored c H src ?p \<noteq> None \<and> H' a ?p = stored c H src ?p"
    "\<forall>a k. k \<noteq> ?p \<longrightarrow> H' a k = H a k \<or> (\<exists>data. stored c H src ?p = Some data \<and> beside data (H' a k))"
    using h(3) st unfolding copied_def by metis+
  show ?thesis
  proof (cases r1)
    case (Inl e)
    with run' have "r = Inl e" "c' = c1" by simp_all
    with h(2) same k show ?thesis by auto
  next
    case (Inr x)
    obtain sz ml where x: "x = (sz, ml)" by (cases x)
    from h(4) Inr x st obtain data where d: "stored c H src ?p = Some data" "sz = length data" "stored c H' dst ?p = Some data" by auto
    have r: "r = Inr sz" "c' = update_catalog (add_replica now key dst sz ml) c1" using run' Inr x by simp_all
    have "frame c c'" "sh_shards c' = sh_shards c" "sh_catalog c' = add_replica now key dst sz ml (sh_catalog c)" "heap_rep holds c' H'"
      using k h(2) by (simp_all add: r(2) update_catalog_def heap_rep_def frame_def slots_def)
    with same d r(1) show ?thesis by auto
  qed
qed

lemma run_read_repair_spec:
  assumes rep: "heap_rep holds c H" and ag: "agrees_opt raw_refs c" and sid: "bad < length (sh_shards c)"
    and fits: "fits_buffer D M raw_refs (so_path D key) (good, src) c"
    and loc: "meta_sidecar_path D (so_path D key) \<noteq> so_path D key"
    and run: "run_read_repair D M now (key, (good, src), (bad, slots c ! bad), raw_refs) c = c'"
  shows "frame c c' \<and> (\<exists>H'. heap_rep holds c' H' \<and> copied D (so_path D key) src H H' \<and>
      (sh_catalog c' = sh_catalog c \<or>
       (\<exists>a data ml. src = StoreAt a \<and> H a (so_path D key) = Some data \<and> stored c H' bad (so_path D key) = Some data \<and>
          sh_catalog c' = add_replica now key bad (length data) ml (sh_catalog c))))"
proof -
  obtain r1 c1 where cp: "copy_to_shard D M now raw_refs (so_path D key) (good, src) (bad, slots c ! bad) c = (r1, c1)" by fastforce
  from copy_to_shard_spec [OF rep ag _ _ fits loc cp] sid obtain H' where h: "heap_only c c1" "heap_rep holds c1 H'"
    "copied D (so_path D key) src H H'"
    "\<forall>sz ml. r1 = Inr (sz, ml) \<longrightarrow> (\<exists>a data. src = StoreAt a \<and> H a (so_path D key) = Some data \<and> sz = length data \<and>
       stored c H' bad (so_path D key) = Some data)" by auto
  note k = heap_only_keeps [OF h(1)]
  show ?thesis
  proof (cases r1)
    case (Inl e)
    with run cp have "c' = c1\<lparr>sh_read_repair_failed := uadd (sh_read_repair_failed c1) 1\<rparr>" by (simp add: run_read_repair_def)
    with k h show ?thesis by (auto simp: frame_def slots_def heap_rep_def)
  next
    case (Inr x)
    obtain sz ml where x: "x = (sz, ml)" by (cases x)
    with run cp Inr have "c' = (update_catalog (add_replica now key bad sz ml) c1)\<lparr>sh_read_repair_success := uadd (sh_read_repair_success c1) 1\<rparr>"
      by (simp add: run_read_repair_def)
    with k h Inr x show ?thesis by (auto simp: frame_def slots_def heap_rep_def update_catalog_def)
  qed
qed

end

section \<open>Copies between keys\<close>

text \<open>
  The source of the copy with its metadata fits a buffer, read with the catalog as it is or with the
  placeholder of the target in it.
\<close>

definition copy_fits :: "('s, 'e) store_ops \<Rightarrow> ('s, 'e) meta_api \<Rightarrow> int \<Rightarrow> string \<Rightarrow> string \<Rightarrow> 's sharded \<Rightarrow> bool" where
  "copy_fits D M now src dst c \<longleftrightarrow>
     (case copy_source D M now src c of
        (Inr (data, ats), c1) \<Rightarrow>
          length (data @ fst (read_object_metadata D M src ats c1)) < 2 ^ 63 \<and>
          length (data @ fst (read_object_metadata D M src ats (c1\<lparr>sh_catalog :=
            snd (try_insert now dst (select_targets D dst c1) (length data) (sh_catalog c1))\<rparr>))) < 2 ^ 63
      | _ \<Rightarrow> True)"

text \<open>The target of a copy: an entry with enough shards, each of which has the data.\<close>

definition placed_copy ::
  "('s, 'e) store_ops \<Rightarrow> string \<Rightarrow> byte list \<Rightarrow> 's sharded \<Rightarrow> (nat \<Rightarrow> string \<rightharpoonup> byte list) \<Rightarrow> bool" where
  "placed_copy D dst data c H \<longleftrightarrow>
     (\<exists>e. catalog_get (sh_catalog c) dst = Some e \<and> pe_size e = length data \<and> pe_crc32c e = Some (so_crc32c D data) \<and>
        distinct (pe_shards e) \<and> pe_shards e \<noteq> [] \<and> sh_min_writes c \<le> length (pe_shards e) \<and>
        (\<forall>sid\<in>set (pe_shards e). stored c H sid dst = Some data))"

lemma copy_fitsD:
  assumes "copy_fits D M now src dst c" and "copy_source D M now src c = (Inr (data, ats), c1)"
  shows "try_insert now dst (select_targets D dst c1) (length data) (sh_catalog c1) = (b, cat) \<Longrightarrow>
      read_object_metadata D M src ats (c1\<lparr>sh_catalog := cat\<rparr>) = (md, c2) \<Longrightarrow> length (data @ md) < 2 ^ 63"
    and "read_object_metadata D M src ats c1 = (md, c2) \<Longrightarrow> length (data @ md) < 2 ^ 63"
  using assms by (auto simp: copy_fits_def)

lemma placed_copy_same:
  assumes "placed_copy D dst data c H" and "frame c c'" and "same_except K H H'" and "dst \<notin> K"
    and "catalog_get (sh_catalog c') dst = catalog_get (sh_catalog c) dst"
  shows "placed_copy D dst data c' H'"
proof -
  have "stored c' H' sid dst = stored c H sid dst" for sid
    using stored_same [OF assms(3,4)] stored_frame [OF assms(2)] by metis
  moreover have "sh_min_writes c' = sh_min_writes c" using assms(2) by (simp add: frame_def)
  ultimately show ?thesis using assms(1,5) by (simp add: placed_copy_def)
qed

context meta_store
begin

lemma get_meta_loop_spec:
  assumes "heap_rep holds c H" and "get_meta_loop D M refs loc ids c = (r, c')"
  shows "heap_only c c' \<and> heap_rep holds c' H"
  using assms
proof (induction ids arbitrary: c)
  case Nil
  then show ?case by auto
next
  case (Cons sid ids)
  have step: "heap_only c c' \<and> heap_rep holds c' H" if "get_meta_loop D M refs loc ids c1 = (r, c')" "heap_only c c1" "heap_rep holds c1 H" for c1
    using Cons.IH [OF that(3,1)] heap_only_trans [OF that(2)] by blast
  show ?case
  proof (cases "rr_get refs sid")
    case (Some a)
    with Cons.prems step [of c] show ?thesis by (auto split: sum.splits)
  next
    case None
    show ?thesis
    proof (cases "shard_at c sid")
      case None
      with \<open>rr_get refs sid = None\<close> Cons.prems step [of c] show ?thesis by auto
    next
      case (Some s)
      obtain g c1 where g: "on_slot (get_with_attrs D M loc) (si_store s) c = (g, c1)" by fastforce
      obtain h c2 where h: "on_slot (so_get D None (meta_sidecar_path D loc)) (si_store s) c = (h, c2)" by fastforce
      have "heap_rep holds c1 H"
        by (rule on_slot_read(1) [where P = "\<lambda>_ _. True", OF _ Cons.prems(1) g]) (use get_with_attrs_law in blast)
      moreover have "heap_rep holds c2 H"
        by (rule on_slot_read(1) [where P = "\<lambda>_ _. True", OF _ Cons.prems(1) h]) (use get_law in blast)
      ultimately show ?thesis
        using Cons.prems \<open>rr_get refs sid = None\<close> Some g h step [of c1] step [of c2] on_slot_frame [OF g] on_slot_frame [OF h]
        by (auto simp: Let_def split: shard_kind.splits sum.splits)
    qed
  qed
qed

lemma cluster_metadata_spec:
  assumes "heap_rep holds c H" and "sharded_get_metadata D M refs loc c = (r, c')"
  shows "frame c c' \<and> sh_catalog c' = sh_catalog c \<and> sh_shards c' = sh_shards c \<and> heap_rep holds c' H"
proof (cases "is_delete_marker loc")
  case True
  with assms show ?thesis by (auto simp: sharded_get_metadata_def)
next
  case False
  obtain order fb c1 where rs: "resolve_shards D loc c = ((order, fb), c1)" by (metis surj_pair)
  from resolve_shards_spec(3) [OF rs] obtain k where c1: "c1 = c\<lparr>sh_read_counter := k\<rparr>" by blast
  have "heap_rep holds c1 H" using assms(1) by (simp add: c1 heap_rep_def)
  moreover have "get_meta_loop D M refs loc order c1 = (r, c')" using assms(2) False rs by (simp add: sharded_get_metadata_def)
  ultimately have g: "heap_only c1 c' \<and> heap_rep holds c' H" by (rule get_meta_loop_spec)
  moreover have "frame c c1" by (simp add: c1 frame_def slots_def)
  ultimately show ?thesis using heap_only_keeps [of c1 c'] by (auto simp: c1 intro: frame_trans)
qed

lemma read_object_metadata_spec:
  assumes "heap_rep holds c H" and "read_object_metadata D M loc ats c = (md, c')"
  shows "frame c c' \<and> sh_catalog c' = sh_catalog c \<and> sh_shards c' = sh_shards c \<and> heap_rep holds c' H"
proof -
  have "c' = c \<or> (\<exists>refs r. sharded_get_metadata D M refs loc c = (r, c'))"
    using assms(2) by (auto simp: read_object_metadata_def Let_def split: option.splits if_splits prod.splits sum.splits)
  then show ?thesis using assms(1) cluster_metadata_spec [OF assms(1)] by auto
qed

lemma copy_source_spec:
  assumes rep: "heap_rep holds c H" and run: "copy_source D M now src c = (r, c')"
  shows "read_frame src c c' \<and> heap_rep holds c' H \<and>
    (\<forall>data ats. r = Inr (data, ats) \<longrightarrow> (\<exists>sid\<in>set (read_candidates c src). stored c H sid src = Some data))"
proof -
  obtain g c1 where g: "read_with_fallback D now (get_with_attrs D M src) src c = (g, c1)" by fastforce
  have spec: "read_frame src c c1 \<and> heap_rep holds c1 H \<and>
    (\<forall>x. g = Inr x \<longrightarrow> (\<exists>sid\<in>set (read_candidates c src). \<exists>a. sid < length (sh_shards c) \<and> slots c ! sid = StoreAt a \<and>
       (\<forall>d ats. (Inr x :: 'e + ('e + byte list) \<times> attributes) = Inr (Inr d, ats) \<longrightarrow> H a src = Some d)))"
    by (rule read_fallback_spec [where P = "\<lambda>A r. \<forall>d ats. r = Inr (Inr d, ats) \<longrightarrow> A src = Some d", OF _ rep g])
      (rule get_with_attrs_law)
  have c': "c' = c1" using run g by (auto simp: copy_source_def split: sum.splits prod.splits)
  have "\<exists>sid\<in>set (read_candidates c src). stored c H sid src = Some data" if "r = Inr (data, ats)" for data ats
  proof -
    have "g = Inr (Inr data, ats)" using run g that by (auto simp: copy_source_def split: sum.splits prod.splits)
    with spec obtain sid a where "sid \<in> set (read_candidates c src)" "sid < length (sh_shards c)" "slots c ! sid = StoreAt a" "H a src = Some data"
      by blast
    then have "stored c H sid src = Some data" by (simp add: stored_def)
    with \<open>sid \<in> _\<close> show ?thesis by blast
  qed
  with spec c' show ?thesis by blast
qed

text \<open>A write that stores \<open>data\<close> under \<open>dst\<close> or leaves the catalog; it may touch the keys \<open>K\<close> besides.\<close>

definition written ::
  "string set \<Rightarrow> string \<Rightarrow> byte list \<Rightarrow> 's sharded \<Rightarrow> (nat \<Rightarrow> string \<rightharpoonup> byte list) \<Rightarrow> bool \<Rightarrow> 's sharded \<Rightarrow> bool" where
  "written K dst data c H success c' \<longleftrightarrow>
     frame c c' \<and> catalog_ok (sh_catalog c') \<and>
     (\<exists>H'. heap_rep holds c' H' \<and> same_except (insert dst (insert (meta_sidecar_path D dst) K)) H H' \<and>
        (if success then (\<forall>k. k \<noteq> dst \<and> k \<notin> K \<longrightarrow> catalog_get (sh_catalog c') k = catalog_get (sh_catalog c) k) \<and>
           placed_copy D dst data c' H'
         else catalog_get (sh_catalog c') = catalog_get (sh_catalog c)))"

lemma writtenI:
  assumes "frame c c'" and "catalog_ok (sh_catalog c')" and "heap_rep holds c' H'"
    and "same_except L H H'" and "L \<subseteq> insert dst (insert (meta_sidecar_path D dst) K)"
    and "\<And>k. k \<noteq> dst \<Longrightarrow> k \<notin> K \<Longrightarrow> catalog_get (sh_catalog c') k = catalog_get (sh_catalog c) k"
    and "catalog_get (sh_catalog c') dst = Some e" and "pe_size e = length data" and "pe_crc32c e = Some (so_crc32c D data)"
    and "distinct (pe_shards e)" and "pe_shards e \<noteq> []" and "sh_min_writes c \<le> length (pe_shards e)"
    and "\<forall>sid\<in>set (pe_shards e). stored c H' sid dst = Some data"
  shows "written K dst data c H True c'"
proof -
  have "sh_min_writes c' = sh_min_writes c" using assms(1) by (simp add: frame_def)
  then have "placed_copy D dst data c' H'" using assms(7-13) stored_frame [OF assms(1)] by (simp add: placed_copy_def)
  with assms(1-3,6) same_except_mono [OF assms(4,5)] show ?thesis unfolding written_def by auto
qed

lemma meta_put_written:
  assumes rep: "heap_rep holds c H" and ok: "catalog_ok (sh_catalog c)" and ag: "agrees refs c"
    and len: "length (data @ md) < 2 ^ 63" and loc: "meta_sidecar_path D dst \<noteq> dst"
    and run: "sharded_put_with_meta D M now refs dst data md c = (r, c')"
  shows "written K dst data c H (is_ok r) c'"
proof -
  note o = sharded_put_meta_spec [OF assms, unfolded meta_put_outcome_def]
  show ?thesis
  proof (cases r)
    case (Inl e)
    with o show ?thesis unfolding written_def by (auto intro: same_except_mono)
  next
    case (Inr u)
    from o [unfolded Inr sum.case] obtain H' placed where "frame c c'" "catalog_ok (sh_catalog c')"
      "\<forall>k. k \<noteq> dst \<longrightarrow> catalog_get (sh_catalog c') k = catalog_get (sh_catalog c) k" "heap_rep holds c' H'"
      "same_except {dst, meta_sidecar_path D dst} H H'"
      "catalog_get (sh_catalog c') dst = Some (meta_entry now data md placed)"
      "distinct placed" "placed \<noteq> []" "sh_min_writes c \<le> length placed"
      "\<forall>sid\<in>set placed. stored c H' sid dst = Some data" by blast
    then have "written K dst data c H True c'"
      by (intro writtenI [where e = "meta_entry now data md placed"]) (auto simp: meta_entry_def)
    with Inr show ?thesis by simp
  qed
qed

lemma put_written:
  assumes rep: "heap_rep holds c H" and ok: "catalog_ok (sh_catalog c)" and len: "length data < 2 ^ 63"
    and loc: "dst \<notin> marker_keys D dst" and run: "sharded_put D now dst data c = (r, c')"
  shows "written (marker_keys D dst) dst data c H (is_ok r) c'"
proof -
  note o = sharded_put_spec [OF assms, unfolded put_outcome_sh_def]
  show ?thesis
  proof (cases r)
    case (Inl e)
    with o ok show ?thesis unfolding written_def attempted_def by (auto intro: same_except_mono)
  next
    case (Inr u)
    from o [unfolded Inr sum.case] obtain H' placed where "frame c c'" "catalog_ok (sh_catalog c')" "heap_rep holds c' H'"
      "same_except (insert dst (marker_keys D dst) \<union> {meta_sidecar_path D dst}) H H'"
      "\<forall>k. k \<noteq> dst \<and> k \<noteq> so_path D (delete_marker_key dst) \<longrightarrow> catalog_get (sh_catalog c') k = catalog_get (sh_catalog c) k"
      "catalog_get (sh_catalog c') dst = Some (put_entry D now data placed)"
      "distinct placed" "placed \<noteq> []" "sh_min_writes c \<le> length placed"
      "\<forall>sid\<in>set placed. stored c H' sid dst = Some data" by blast
    then have "written (marker_keys D dst) dst data c H True c'"
      by (intro writtenI [where e = "put_entry D now data placed"]) (auto simp: put_entry_def marker_keys_def)
    with Inr show ?thesis by simp
  qed
qed

definition copy_outcome ::
  "string set \<Rightarrow> string \<Rightarrow> string \<Rightarrow> 's sharded \<Rightarrow> (nat \<Rightarrow> string \<rightharpoonup> byte list) \<Rightarrow> 'e copy_error + unit \<Rightarrow> 's sharded \<Rightarrow> bool" where
  "copy_outcome K src dst c H r c' \<longleftrightarrow>
     frame c c' \<and> catalog_ok (sh_catalog c') \<and>
     (\<exists>H'. heap_rep holds c' H' \<and> same_except (insert dst (insert (meta_sidecar_path D dst) K)) H H' \<and>
        (case r of
           Inr _ \<Rightarrow> (\<forall>k. k \<noteq> src \<and> k \<noteq> dst \<and> k \<notin> K \<longrightarrow> catalog_get (sh_catalog c') k = catalog_get (sh_catalog c) k) \<and>
             (\<exists>data. (\<exists>sid\<in>set (read_candidates c src). stored c H sid src = Some data) \<and> placed_copy D dst data c' H')
         | Inl _ \<Rightarrow> (\<forall>k. k \<noteq> src \<longrightarrow> catalog_get (sh_catalog c') k = catalog_get (sh_catalog c) k)))"

text \<open>Reads of the source, then a write from a catalog that differs from theirs at most at the target.\<close>

lemma copy_outcomeI:
  assumes "frame c c2" and w: "written K dst data c2 H (is_ok r) c'"
    and "\<And>k. k \<noteq> src \<Longrightarrow> catalog_get (sh_catalog c2) k = catalog_get (sh_catalog c) k"
    and "\<exists>sid\<in>set (read_candidates c src). stored c H sid src = Some data"
  shows "copy_outcome K src dst c H r c'"
proof -
  from w obtain H' where H': "frame c2 c'" "catalog_ok (sh_catalog c')" "heap_rep holds c' H'"
    "same_except (insert dst (insert (meta_sidecar_path D dst) K)) H H'"
    "if is_ok r then (\<forall>k. k \<noteq> dst \<and> k \<notin> K \<longrightarrow> catalog_get (sh_catalog c') k = catalog_get (sh_catalog c2) k) \<and>
           placed_copy D dst data c' H' else catalog_get (sh_catalog c') = catalog_get (sh_catalog c2)" unfolding written_def by blast
  with assms(3,4) frame_trans [OF assms(1)] show ?thesis unfolding copy_outcome_def
    by (cases r) (auto intro!: exI [of _ H'])
qed

lemma sharded_copy_spec:
  assumes rep: "heap_rep holds c H" and ok: "catalog_ok (sh_catalog c)" and ag: "agrees_opt (sh_raw_refs c) c"
    and fits: "copy_fits D M now src dst c" and loc: "meta_sidecar_path D dst \<noteq> dst" "dst \<notin> marker_keys D dst"
    and run: "sharded_copy D M now src dst c = (r, c')"
  shows "copy_outcome (marker_keys D dst) src dst c H r c'"
proof (cases "sh_read_only c")
  case True
  with run rep ok show ?thesis by (auto simp: sharded_copy_def copy_outcome_def)
next
  case False
  obtain g c1 where g: "copy_source D M now src c = (g, c1)" by fastforce
  from copy_source_spec [OF rep g] have s: "read_frame src c c1" "heap_rep holds c1 H"
    "\<And>data ats. g = Inr (data, ats) \<Longrightarrow> \<exists>sid\<in>set (read_candidates c src). stored c H sid src = Some data" by blast+
  have f1: "frame c c1" "catalog_ok (sh_catalog c1)" "\<And>k. k \<noteq> src \<Longrightarrow> catalog_get (sh_catalog c1) k = catalog_get (sh_catalog c) k"
    using s(1) ok by (auto simp: read_frame_def)
  show ?thesis
  proof (cases g)
    case (Inl e)
    with run False g have "r = Inl e" "c' = c1" by (simp_all add: sharded_copy_def)
    with f1 s(2) show ?thesis by (auto simp: copy_outcome_def)
  next
    case (Inr x)
    obtain data ats where x: "x = (data, ats)" by (cases x)
    obtain md c2 where m: "read_object_metadata D M src ats c1 = (md, c2)" by fastforce
    note m2 = read_object_metadata_spec [OF s(2) m]
    have len: "length (data @ md) < 2 ^ 63" using copy_fitsD(2) [OF fits g [unfolded Inr x] m] .
    have c2: "frame c c2" "heap_rep holds c2 H" "catalog_ok (sh_catalog c2)"
      "\<And>k. k \<noteq> src \<Longrightarrow> catalog_get (sh_catalog c2) k = catalog_get (sh_catalog c) k"
      using m2 f1 frame_trans [OF f1(1)] by auto
    note enter = run [unfolded sharded_copy_def if_not_P [OF False] g Inr x prod.case sum.case m]
    show ?thesis
    proof (rule copy_outcomeI [OF c2(1) _ c2(4) s(3) [OF Inr [unfolded x]]])
      show "written (marker_keys D dst) dst data c2 H (is_ok r) c'"
      proof (cases "if md = [] then None else sh_raw_refs c2")
        case (Some refs)
        obtain w c3 where w: "sharded_put_with_meta D M now refs dst data md c2 = (w, c3)" by fastforce
        have rc: "is_ok r = is_ok w" "c' = c3" using enter [unfolded Some option.case w] by (auto split: sum.splits)
        have "sh_raw_refs c = Some refs" using Some c2(1) by (auto simp: frame_def split: if_splits)
        then have "agrees refs c2" using ag agrees_cong [OF c2(1)] by (simp add: agrees_opt_def)
        from meta_put_written [OF c2(2,3) this len loc(1) w] show ?thesis unfolding rc .
      next
        case None
        obtain w c3 where w: "sharded_put D now dst data c2 = (w, c3)" by fastforce
        have rc: "is_ok r = is_ok w" "c' = c3" using enter [unfolded None option.case w] by (auto split: sum.splits)
        from put_written [OF c2(2,3) _ loc(2) w] len show ?thesis unfolding rc by simp
      qed
    qed
  qed
qed

text \<open>A write for a new key whose placeholder is in the catalog; the placeholder is removed when it fails.\<close>

lemma placeholder:
  assumes "try_insert now k ss n cat0 = (True, cat)" and "catalog_ok cat0"
  shows "catalog_get cat0 k = None" and "\<exists>e. catalog_get cat = (catalog_get cat0)(k \<mapsto> e)"
    and "ss \<noteq> [] \<Longrightarrow> distinct ss \<Longrightarrow> catalog_ok cat"
    and "catalog_ok (snd (catalog_remove k cat))" and "catalog_get (snd (catalog_remove k cat)) = catalog_get cat0"
proof -
  have new: "catalog_get cat0 k = None" using assms(1) by (auto simp: try_insert_def catalog_get_def split: option.splits)
  then show "catalog_get cat0 k = None" .
  let ?e = "\<lparr>pe_shards = ss, pe_size = n, pe_crc32c = None, pe_updated = now, pe_meta_len = 0\<rparr>"
  have cat: "cat = cat0\<lparr>ct_entries := hm_insert k ?e (ct_entries cat0), ct_dirty := True\<rparr>"
    using assms(1) new by (simp add: try_insert_def catalog_get_def)
  have get: "catalog_get cat = (catalog_get cat0)(k \<mapsto> ?e)" by (simp add: cat catalog_get_def fun_eq_iff hm_simps)
  then show "\<exists>e. catalog_get cat = (catalog_get cat0)(k \<mapsto> e)" by blast
  have wf: "hm_wf (ct_entries cat)" using assms(2) by (simp add: cat catalog_ok_def hm_simps)
  with get assms(2) show "ss \<noteq> [] \<Longrightarrow> distinct ss \<Longrightarrow> catalog_ok cat" by (auto simp: catalog_ok_iff split: if_splits)
  show "catalog_get (snd (catalog_remove k cat)) = catalog_get cat0" using get new by (auto simp: fun_eq_iff)
  with wf assms(2) show "catalog_ok (snd (catalog_remove k cat))"
    by (auto simp: catalog_ok_iff catalog_remove_def Let_def hm_simps)
qed

lemma no_targets_fail:
  assumes "select_targets D dst c = []" and "catalog_get (sh_catalog c) dst \<noteq> None"
  shows "\<exists>e. sharded_put_with_meta D M now refs dst data md c = (Inl e, c)" and "\<exists>e. write_to_shards D now dst data [] c = (Inl e, c)"
  using assms by (auto simp: sharded_put_with_meta_def Let_def mark_write_failures_def write_to_shards_def
      write_to_shards_inner_def fan_put_def stores_of_def enforce_min_def cleanup_orphaned_writes_def)

definition create_write ::
  "int \<Rightarrow> string \<Rightarrow> byte list \<Rightarrow> byte list \<Rightarrow> nat list \<Rightarrow> 's sharded \<Rightarrow> ('e copy_error + unit) \<times> 's sharded" where
  "create_write now dst data md targets c2 =
     (case (if md = [] then None else sh_raw_refs c2) of
        Some refs \<Rightarrow>
          (case sharded_put_with_meta D M now refs dst data md c2 of
             (Inr _, c3) \<Rightarrow> (Inr (), c3)
           | (Inl e, c3) \<Rightarrow> (Inl (CeMeta e), update_catalog (\<lambda>cat. snd (catalog_remove dst cat)) c3))
      | None \<Rightarrow>
          (case write_to_shards D now dst data targets c2 of
             (Inr placed, c3) \<Rightarrow>
               (Inr (), update_catalog (catalog_put now dst placed (length data) (Some (so_crc32c D data)) 0) c3)
           | (Inl e, c3) \<Rightarrow>
               (Inl (CeShard e), update_catalog (\<lambda>cat. snd (catalog_remove dst cat)) c3)))"

text \<open>The failed write: the placeholder goes and the catalog is the one before it.\<close>

lemma create_failed:
  assumes ins: "try_insert now dst ss n (sh_catalog c1) = (True, cat)" and ok: "catalog_ok (sh_catalog c1)" and "frame c1 c3"
    and "catalog_get (sh_catalog c3) = catalog_get cat" and "catalog_ok (sh_catalog c3) \<or> sh_catalog c3 = cat"
    and "heap_rep holds c3 H'" and "same_except (insert dst (insert (meta_sidecar_path D dst) K)) H H'"
  shows "written K dst data c1 H False (update_catalog (\<lambda>cat. snd (catalog_remove dst cat)) c3)"
proof -
  let ?c = "update_catalog (\<lambda>cat. snd (catalog_remove dst cat)) c3"
  note ph = placeholder [OF ins ok]
  have get: "catalog_get (sh_catalog ?c) = catalog_get (sh_catalog c1)"
    using ph(1,2) assms(4) by (auto simp: update_catalog_def fun_eq_iff)
  have "catalog_ok (sh_catalog ?c)"
    using assms(5) ph(4) catalog_remove_ok(1) by (auto simp: update_catalog_def)
  with get assms(3,6,7) show ?thesis unfolding written_def
    by (auto simp: update_catalog_def heap_rep_def frame_def slots_def)
qed

lemma create_plain_written:
  assumes ok: "catalog_ok (sh_catalog c1)" "catalog_ok (sh_catalog c2)" and fr: "frame c1 c2" and rep: "heap_rep holds c2 H"
    and ins: "try_insert now dst ss n (sh_catalog c1) = (True, sh_catalog c2)" and ss: "distinct ss" and len: "length data < 2 ^ 63"
    and w: "write_to_shards D now dst data ss c2 = (w, c3)"
  shows "case w of
      Inl e \<Rightarrow> written {} dst data c1 H False (update_catalog (\<lambda>cat. snd (catalog_remove dst cat)) c3)
    | Inr placed \<Rightarrow> written {} dst data c1 H True
        (update_catalog (catalog_put now dst placed (length data) (Some (so_crc32c D data)) 0) c3)"
proof -
  from write_to_shards_spec [OF rep len ss w]
  have o: "write_outcome dst data (sh_min_writes c2) c2 H w c3" "w \<noteq> Inr []" by auto
  from o(1) obtain H' where H': "frame c1 c3" "sh_catalog c3 = sh_catalog c2" "heap_rep holds c3 H'"
    "same_except {dst, meta_sidecar_path D dst} H H'"
    "\<forall>placed. w = Inr placed \<longrightarrow> distinct placed \<and> sh_min_writes c2 \<le> length placed \<and> (\<forall>sid\<in>set placed. stored c2 H' sid dst = Some data)"
    unfolding write_outcome_def attempted_def using frame_trans [OF fr] by blast
  show ?thesis
  proof (cases w)
    case (Inl e)
    with create_failed [OF ins ok(1), of c3 H' "{}"] H' show ?thesis by simp
  next
    case (Inr placed)
    let ?e = "\<lparr>pe_shards = placed, pe_size = length data, pe_crc32c = Some (so_crc32c D data), pe_updated = now, pe_meta_len = 0\<rparr>"
    have p: "placed \<noteq> []" "distinct placed" "sh_min_writes c1 \<le> length placed" "\<forall>sid\<in>set placed. stored c1 H' sid dst = Some data"
      using o(2) H'(5) Inr fr stored_frame [OF fr] by (auto simp: frame_def)
    have get2: "catalog_get (sh_catalog c2) k = catalog_get (sh_catalog c1) k" if "k \<noteq> dst" for k
      using placeholder(2) [OF ins ok(1)] that by auto
    show ?thesis unfolding Inr sum.case
      by (rule writtenI [where e = ?e, OF _ _ _ H'(4) order_refl])
        (use p H' get2 catalog_put_ok(1) [OF ok(2) p(1,2)] in \<open>simp_all add: update_catalog_def heap_rep_def frame_def slots_def\<close>)
  qed
qed

lemma create_written:
  assumes ok: "catalog_ok (sh_catalog c1)" and fr: "frame c1 c2" "sh_shards c2 = sh_shards c1" and rep: "heap_rep holds c2 H"
    and ins: "try_insert now dst (select_targets D dst c1) n (sh_catalog c1) = (True, sh_catalog c2)"
    and ag: "agrees_opt (sh_raw_refs c1) c1" and len: "length (data @ md) < 2 ^ 63" and loc: "meta_sidecar_path D dst \<noteq> dst"
    and run: "create_write now dst data md (select_targets D dst c1) c2 = (r, c')"
  shows "written {} dst data c1 H (is_ok r) c'"
proof (cases "select_targets D dst c1 = []")
  case True
  note ph = placeholder [OF ins ok]
  have "select_targets D dst c2 = []" using True fr by (simp add: select_targets_def frame_def)
  note none = no_targets_fail [OF this]
  have "\<not> is_ok r \<and> c' = update_catalog (\<lambda>cat. snd (catalog_remove dst cat)) c2"
    using run none ph(2) True by (auto simp: create_write_def split: option.splits sum.splits prod.splits)
      (metis prod.inject sum.distinct(1))+
  with create_failed [OF ins ok fr(1) refl _ rep] show ?thesis by simp
next
  case False
  note ph = placeholder [OF ins ok]
  have get2: "catalog_get (sh_catalog c2) k = catalog_get (sh_catalog c1) k" if "k \<noteq> dst" for k using ph(2) that by auto
  have ok2: "catalog_ok (sh_catalog c2)" using ph(3) [OF False select_targets_spec(1)] .
  show ?thesis
  proof (cases "if md = [] then None else sh_raw_refs c2")
    case (Some refs)
    obtain w c3 where w: "sharded_put_with_meta D M now refs dst data md c2 = (w, c3)" by fastforce
    have "sh_raw_refs c1 = Some refs" using Some fr(1) by (auto simp: frame_def split: if_splits)
    then have "agrees refs c2" using ag agrees_cong [OF fr(1)] by (simp add: agrees_opt_def)
    from meta_put_written [OF rep ok2 this len loc w] have wr: "written {} dst data c2 H (is_ok w) c3" .
    show ?thesis
    proof (cases w)
      case (Inl e)
      with run Some w have rc: "r = Inl (CeMeta e)" "c' = update_catalog (\<lambda>cat. snd (catalog_remove dst cat)) c3"
        by (simp_all add: create_write_def)
      from wr Inl obtain H' where "frame c1 c3" "catalog_ok (sh_catalog c3)" "heap_rep holds c3 H'"
        "catalog_get (sh_catalog c3) = catalog_get (sh_catalog c2)" "same_except {dst, meta_sidecar_path D dst} H H'"
        unfolding written_def using frame_trans [OF fr(1)] by auto
      then show ?thesis using create_failed [OF ins ok, of c3 H' "{}"] rc by simp
    next
      case (Inr u)
      with run Some w have rc: "r = Inr ()" "c' = c3" by (simp_all add: create_write_def)
      with wr Inr get2 frame_trans [OF fr(1)] show ?thesis by (auto simp: written_def)
    qed
  next
    case None
    obtain w c3 where w: "write_to_shards D now dst data (select_targets D dst c1) c2 = (w, c3)" by fastforce
    from create_plain_written [OF ok ok2 fr(1) rep ins select_targets_spec(1) _ w] len run None w
    show ?thesis by (cases w) (auto simp: create_write_def)
  qed
qed

lemma sharded_copy_if_not_exists_spec:
  assumes rep: "heap_rep holds c H" and ok: "catalog_ok (sh_catalog c)" and ag: "agrees_opt (sh_raw_refs c) c"
    and fits: "copy_fits D M now src dst c" and loc: "meta_sidecar_path D dst \<noteq> dst" and ne: "src \<noteq> dst"
    and run: "sharded_copy_if_not_exists D M now src dst c = (r, c')"
  shows "copy_outcome {} src dst c H r c' \<and> (is_ok r \<longrightarrow> catalog_get (sh_catalog c) dst = None)"
proof (cases "sh_read_only c \<or> catalog_get (sh_catalog c) dst \<noteq> None")
  case True
  then have "\<not> is_ok r" "c' = c" using run by (auto simp: sharded_copy_if_not_exists_def split: if_splits)
  with rep ok show ?thesis by (cases r) (auto simp: copy_outcome_def intro!: exI [of _ H])
next
  case False
  then have ro: "\<not> sh_read_only c" and dst: "\<not> catalog_get (sh_catalog c) dst \<noteq> None" by simp_all
  obtain g c1 where g: "copy_source D M now src c = (g, c1)" by fastforce
  from copy_source_spec [OF rep g] have s: "read_frame src c c1" "heap_rep holds c1 H"
    "\<And>data ats. g = Inr (data, ats) \<Longrightarrow> \<exists>sid\<in>set (read_candidates c src). stored c H sid src = Some data" by blast+
  have f1: "frame c c1" "catalog_ok (sh_catalog c1)" "\<And>k. k \<noteq> src \<Longrightarrow> catalog_get (sh_catalog c1) k = catalog_get (sh_catalog c) k"
    using s(1) ok by (auto simp: read_frame_def)
  note enter = run [unfolded sharded_copy_if_not_exists_def if_not_P [OF ro] if_not_P [OF dst] g]
  have "copy_outcome {} src dst c H r c'"
  proof (cases g)
    case (Inl e)
    with enter have "r = Inl e" "c' = c1" by simp_all
    with f1 s(2) show ?thesis by (auto simp: copy_outcome_def)
  next
    case (Inr x)
    obtain data ats where x: "x = (data, ats)" by (cases x)
    let ?t = "select_targets D dst c1"
    obtain b cat where ins: "try_insert now dst ?t (length data) (sh_catalog c1) = (b, cat)" by fastforce
    have "catalog_get (sh_catalog c1) dst = None" using f1(3) [of dst] ne dst by simp
    then have b: "b = True" using ins by (auto simp: try_insert_def catalog_get_def)
    obtain md c2 where m: "read_object_metadata D M src ats (c1\<lparr>sh_catalog := cat\<rparr>) = (md, c2)" by fastforce
    have "heap_rep holds (c1\<lparr>sh_catalog := cat\<rparr>) H" using s(2) by (simp add: heap_rep_def)
    note m2 = read_object_metadata_spec [OF this m]
    have len: "length (data @ md) < 2 ^ 63" using copy_fitsD(1) [OF fits g [unfolded Inr x] ins m] .
    have c2: "frame c1 c2" "sh_shards c2 = sh_shards c1" "heap_rep holds c2 H" "sh_catalog c2 = cat"
      using m2 by (auto simp: frame_def slots_def)
    have run': "create_write now dst data md ?t c2 = (r, c')"
      using enter unfolding Inr x prod.case sum.case Let_def ins b m by (simp add: create_write_def)
    have "agrees_opt (sh_raw_refs c1) c1" using ag f1(1) agrees_cong [OF f1(1)] by (auto simp: agrees_opt_def frame_def split: option.splits)
    from create_written [OF f1(2) c2(1-3) ins [unfolded b c2(4) [symmetric]] this len loc run']
    have "written {} dst data c1 H (is_ok r) c'" .
    from copy_outcomeI [OF f1(1) this f1(3) s(3) [OF Inr [unfolded x]]] show ?thesis .
  qed
  with dst show ?thesis by simp
qed

text \<open>
  A rename copies and then deletes: the object is under its old key as before, or it is placed under
  the new one.
\<close>

lemma sharded_rename_spec:
  assumes rep: "heap_rep holds c H" and ok: "catalog_ok (sh_catalog c)" and ag: "agrees_opt (sh_raw_refs c) c"
    and fits: "copy_fits D M now src dst c" and loc: "meta_sidecar_path D dst \<noteq> dst" "src \<noteq> dst" "src \<noteq> meta_sidecar_path D dst"
    and del: "length (so_to_rfc3339 D now) < 2 ^ 63" "1 \<le> sh_min_writes c" "so_path D (delete_marker_key src) = delete_marker_key src"
      "\<not> is_delete_marker src" "src \<notin> marker_keys D src" "delete_marker_key src \<noteq> meta_sidecar_path D src"
    and sep: "dst \<notin> insert (meta_sidecar_path D src) (marker_keys D src)"
    and run: "sharded_rename_if_not_exists D M now src dst c = (r, c')"
  shows "frame c c' \<and> catalog_ok (sh_catalog c') \<and> (\<exists>H'. heap_rep holds c' H' \<and>
     same_except ({src, dst, meta_sidecar_path D src, meta_sidecar_path D dst} \<union> marker_keys D src) H H' \<and>
     (\<not> is_ok r \<and> (\<forall>a. H' a src = H a src) \<and> (\<forall>k. k \<noteq> src \<longrightarrow> catalog_get (sh_catalog c') k = catalog_get (sh_catalog c) k) \<or>
      (\<exists>data. (\<exists>sid\<in>set (read_candidates c src). stored c H sid src = Some data) \<and> placed_copy D dst data c' H')) \<and>
     (is_ok r \<longrightarrow> catalog_get (sh_catalog c) dst = None \<and>
        (\<exists>e. catalog_get (sh_catalog c') (delete_marker_key src) = Some e \<and> pe_shards e \<noteq> [])))"
proof -
  obtain r1 c1 where cp: "sharded_copy_if_not_exists D M now src dst c = (r1, c1)" by fastforce
  from sharded_copy_if_not_exists_spec [OF rep ok ag fits loc(1,2) cp] have o: "copy_outcome {} src dst c H r1 c1"
    "is_ok r1 \<longrightarrow> catalog_get (sh_catalog c) dst = None" by auto
  from o(1) [unfolded copy_outcome_def] obtain H1 where H1: "frame c c1" "catalog_ok (sh_catalog c1)" "heap_rep holds c1 H1"
    "same_except {dst, meta_sidecar_path D dst} H H1"
    "case r1 of Inr _ \<Rightarrow> (\<forall>k. k \<noteq> src \<and> k \<noteq> dst \<and> k \<notin> {} \<longrightarrow> catalog_get (sh_catalog c1) k = catalog_get (sh_catalog c) k) \<and>
             (\<exists>data. (\<exists>sid\<in>set (read_candidates c src). stored c H sid src = Some data) \<and> placed_copy D dst data c1 H1)
         | Inl _ \<Rightarrow> (\<forall>k. k \<noteq> src \<longrightarrow> catalog_get (sh_catalog c1) k = catalog_get (sh_catalog c) k)" by blast
  show ?thesis
  proof (cases r1)
    case (Inl e)
    with run cp have rc: "r = Inl e" "c' = c1" by (simp_all add: sharded_rename_if_not_exists_def)
    have "H1 a src = H a src" for a using H1(4) loc(2,3) by (simp add: same_except_def)
    moreover have "same_except ({src, dst, meta_sidecar_path D src, meta_sidecar_path D dst} \<union> marker_keys D src) H H1"
      by (rule same_except_mono [OF H1(4)]) auto
    ultimately show ?thesis using H1 Inl rc by auto
  next
    case (Inr u)
    obtain r2 c2 where d: "sharded_delete D now src c1 = (r2, c2)" by fastforce
    have rc: "is_ok r = is_ok r2" "c' = c2" using run cp Inr d by (auto simp: sharded_rename_if_not_exists_def split: sum.splits)
    have "1 \<le> sh_min_writes c1" using del(2) H1(1) by (simp add: frame_def)
    from sharded_delete_spec [OF H1(3,2) del(1) this del(3-6) d] obtain H2 where H2: "frame c1 c2" "catalog_ok (sh_catalog c2)"
      "\<forall>k. k \<noteq> src \<and> k \<noteq> delete_marker_key src \<longrightarrow> catalog_get (sh_catalog c2) k = catalog_get (sh_catalog c1) k"
      "heap_rep holds c2 H2" "same_except (insert src (insert (meta_sidecar_path D src) (marker_keys D src))) H1 H2"
      "r2 = Inr () \<longrightarrow> (\<exists>e. catalog_get (sh_catalog c2) (delete_marker_key src) = Some e \<and> pe_shards e \<noteq> [])"
      unfolding delete_outcome_def by blast
    have mk: "dst \<noteq> delete_marker_key src" using sep del(3) by (auto simp: marker_keys_def)
    from H1(5) Inr obtain data where data: "\<exists>sid\<in>set (read_candidates c src). stored c H sid src = Some data" "placed_copy D dst data c1 H1"
      by auto
    have "placed_copy D dst data c2 H2"
      by (rule placed_copy_same [OF data(2) H2(1,5)]) (use sep loc(2) mk H2(3) in auto)
    moreover have "same_except ({src, dst, meta_sidecar_path D src, meta_sidecar_path D dst} \<union> marker_keys D src) H H2"
      by (rule same_except_mono [OF same_except_trans [OF H1(4) H2(5)]]) auto
    ultimately show ?thesis
      using H2 data(1) o(2) Inr rc frame_trans [OF H1(1) H2(1)] by (auto simp: is_ok_iff)
  qed
qed

end

section \<open>Verification of replicas\<close>

context shard_store
begin

lemma fan_get_spec:
  assumes "heap_rep holds c H" and "fan_out (\<lambda>_. on_slot (so_get D None path)) stores c = (rs, c')"
  shows "heap_only c c' \<and> heap_rep holds c' H \<and> map fst rs = map fst stores \<and>
    (\<forall>i<length stores. \<forall>d. snd (rs ! i) = Inr (Inr d) \<longrightarrow> (\<exists>a. snd (stores ! i) = StoreAt a \<and> H a path = Some d))"
  using assms
proof (induction stores arbitrary: c rs)
  case Nil
  then show ?case by auto
next
  case (Cons st stores)
  obtain sid ref where st: "st = (sid, ref)" by (cases st)
  obtain r c1 where g: "on_slot (so_get D None path) ref c = (r, c1)" by fastforce
  obtain rs1 where rs: "fan_out (\<lambda>_. on_slot (so_get D None path)) stores c1 = (rs1, c')" "rs = (sid, r) # rs1"
    using Cons.prems(2) g by (auto simp: st split: prod.splits)
  have rep1: "heap_rep holds c1 H"
    by (rule on_slot_read(1) [where P = "\<lambda>_ _. True", OF _ Cons.prems(1) g]) (use get_law in blast)
  have hit: "\<exists>a. ref = StoreAt a \<and> H a path = Some d" if d: "r = Inr (Inr d)" for d
  proof -
    have "\<exists>a. ref = StoreAt a \<and> (\<forall>d'. (Inr (Inr d) :: 'e + 'e + byte list) = Inr (Inr d') \<longrightarrow> H a path = Some d')"
      by (rule on_slot_read(2) [where P = "\<lambda>A r. \<forall>d. r = Inr (Inr d) \<longrightarrow> A path = Some d", OF _ Cons.prems(1) g d]) (use get_law in blast)
    then show ?thesis by blast
  qed
  from Cons.IH [OF rep1 rs(1)] hit heap_only_trans [OF on_slot_frame [OF g]]
  show ?case by (auto simp: rs(2) st nth_Cons split: nat.splits)
qed

end

lemma windows_equal_iff: "windows_equal xs \<longleftrightarrow> (\<forall>x\<in>set xs. \<forall>y\<in>set xs. x = y)"
  by (induction xs rule: windows_equal.induct) auto

lemma windows_equal_filter:
  "windows_equal (List.map_filter f xs) \<longleftrightarrow> (\<forall>x\<in>set xs. \<forall>y\<in>set xs. f x \<noteq> None \<and> f y \<noteq> None \<longrightarrow> f x = f y)"
proof -
  have "set (List.map_filter f xs) = {v. \<exists>x\<in>set xs. f x = Some v}"
    by (induction xs) (auto simp: map_filter_simps split: option.splits)
  then have "windows_equal (List.map_filter f xs) \<longleftrightarrow> (\<forall>v w. (\<exists>x\<in>set xs. f x = Some v) \<and> (\<exists>y\<in>set xs. f y = Some w) \<longrightarrow> v = w)"
    unfolding windows_equal_iff by blast
  also have "\<dots> \<longleftrightarrow> (\<forall>x\<in>set xs. \<forall>y\<in>set xs. f x \<noteq> None \<and> f y \<noteq> None \<longrightarrow> f x = f y)" by fastforce
  finally show ?thesis .
qed

text \<open>What a result of the verification says about its shard.\<close>

definition replica_verdict ::
  "('s, 'e) store_ops \<Rightarrow> placement_entry \<Rightarrow> string \<Rightarrow> 's sharded \<Rightarrow> (nat \<Rightarrow> string \<rightharpoonup> byte list) \<Rightarrow> 'e verify_replica_result \<Rightarrow> bool" where
  "replica_verdict D e path c H v \<longleftrightarrow>
     (case vr_error v of
        None \<Rightarrow> (\<exists>d. stored c H (vr_shard_id v) path = Some d \<and> vr_crc32c v = Some (so_crc32c D d) \<and> vr_size v = Some (length d) \<and>
          vr_matches_catalog v = map_option (\<lambda>x. x = so_crc32c D d) (pe_crc32c e))
      | Some _ \<Rightarrow> vr_crc32c v = None \<and> vr_size v = None \<and> vr_matches_catalog v = None)"

context shard_store
begin

lemma verify_object_spec:
  assumes rep: "heap_rep holds c H" and e: "catalog_get (sh_catalog c) key = Some e" and run: "verify_object D key c = (r, c')"
  shows "heap_only c c' \<and> heap_rep holds c' H \<and> (\<exists>v. r = Inr v \<and> vo_key v = key \<and> vo_catalog_crc v = pe_crc32c e \<and>
    map vr_shard_id (vo_replicas v) = filter (\<lambda>sid. sid < length (sh_shards c)) (pe_shards e) \<and>
    (\<forall>x\<in>set (vo_replicas v). replica_verdict D e (so_path D key) c H x) \<and>
    (vo_replicas_consistent v \<longleftrightarrow>
      (\<forall>x\<in>set (vo_replicas v). \<forall>y\<in>set (vo_replicas v). vr_crc32c x \<noteq> None \<and> vr_crc32c y \<noteq> None \<longrightarrow> vr_crc32c x = vr_crc32c y)))"
proof -
  let ?st = "stores_of c (pe_shards e)" and ?vr = "verify_replica D (pe_crc32c e)"
  obtain rs where f: "fan_out (\<lambda>_. on_slot (so_get D None (so_path D key))) ?st c = (rs, c')"
    using run e by (auto simp: verify_object_def Let_def split: prod.splits)
  from fan_get_spec [OF rep f] have s: "heap_only c c'" "heap_rep holds c' H" "map fst rs = map fst ?st"
    "\<forall>i<length ?st. \<forall>d. snd (rs ! i) = Inr (Inr d) \<longrightarrow> (\<exists>a. snd (?st ! i) = StoreAt a \<and> H a (so_path D key) = Some d)" by blast+
  let ?crcs = "List.map_filter vr_crc32c (map ?vr rs)"
  have r: "r = Inr \<lparr>vo_key = key, vo_catalog_crc = pe_crc32c e, vo_replicas = map ?vr rs,
      vo_replicas_consistent = (if length ?crcs \<le> 1 then True else windows_equal ?crcs)\<rparr>"
    using run e f by (simp add: verify_object_def Let_def)
  have ids: "map fst ?st = filter (\<lambda>sid. sid < length (sh_shards c)) (pe_shards e)"
    by (simp add: stores_of_slots comp_def)
  have vid: "vr_shard_id (?vr o') = fst o'" for o' :: "nat \<times> ('e slot_error + ('e + byte list))"
    by (simp add: verify_replica_def split: sum.splits)
  have verdict: "replica_verdict D e (so_path D key) c H (?vr (rs ! i))" if i: "i < length rs" for i
  proof (cases "\<exists>d. snd (rs ! i) = Inr (Inr d)")
    case False
    then show ?thesis by (auto simp: replica_verdict_def verify_replica_def split: sum.splits)
  next
    case True
    then obtain d where d: "snd (rs ! i) = Inr (Inr d)" by blast
    have len: "length rs = length ?st" using arg_cong [OF s(3), of length] by simp
    have "fst (rs ! i) = fst (?st ! i)" using arg_cong [OF s(3), of "\<lambda>xs. xs ! i"] i len by simp
    moreover have "?st ! i \<in> set ?st" using i len by simp
    ultimately have "fst (rs ! i) < length (sh_shards c)" "slots c ! fst (rs ! i) = snd (?st ! i)" by (auto simp: stores_of_slots)
    moreover from s(4) d i len obtain a where "snd (?st ! i) = StoreAt a" "H a (so_path D key) = Some d" by auto
    ultimately have "stored c H (fst (rs ! i)) (so_path D key) = Some d" by (simp add: stored_def)
    then show ?thesis using d by (simp add: replica_verdict_def verify_replica_def)
  qed
  have "windows_equal ?crcs" if "length ?crcs \<le> 1"
    using that by (cases ?crcs rule: windows_equal.cases) auto
  then have "(if length ?crcs \<le> 1 then True else windows_equal ?crcs) \<longleftrightarrow>
      (\<forall>x\<in>set (map ?vr rs). \<forall>y\<in>set (map ?vr rs). vr_crc32c x \<noteq> None \<and> vr_crc32c y \<noteq> None \<longrightarrow> vr_crc32c x = vr_crc32c y)"
    using windows_equal_filter [of vr_crc32c "map ?vr rs"] by presburger
  moreover have "map vr_shard_id (map ?vr rs) = filter (\<lambda>sid. sid < length (sh_shards c)) (pe_shards e)"
    using s(3) ids by (simp add: comp_def vid)
  moreover have "\<forall>x\<in>set (map ?vr rs). replica_verdict D e (so_path D key) c H x"
    using verdict by (metis (no_types, lifting) in_set_conv_nth length_map nth_map)
  ultimately show ?thesis unfolding r using s(1,2) by simp
qed

text \<open>The report of one object is true of the cluster.\<close>

definition true_report :: "'s sharded \<Rightarrow> (nat \<Rightarrow> string \<rightharpoonup> byte list) \<Rightarrow> 'e verify_object_report \<Rightarrow> bool" where
  "true_report c H v \<longleftrightarrow> (\<exists>e. catalog_get (sh_catalog c) (vo_key v) = Some e \<and> vo_catalog_crc v = pe_crc32c e \<and>
     map vr_shard_id (vo_replicas v) = filter (\<lambda>sid. sid < length (sh_shards c)) (pe_shards e) \<and>
     (\<forall>x\<in>set (vo_replicas v). replica_verdict D e (so_path D (vo_key v)) c H x) \<and>
     (vo_replicas_consistent v \<longleftrightarrow>
       (\<forall>x\<in>set (vo_replicas v). \<forall>y\<in>set (vo_replicas v). vr_crc32c x \<noteq> None \<and> vr_crc32c y \<noteq> None \<longrightarrow> vr_crc32c x = vr_crc32c y)))"

lemma true_report_cong: "heap_only c c' \<Longrightarrow> true_report c' H v = true_report c H v"
  using heap_only_keeps [of c c'] stored_heap_only [of c c'] unfolding true_report_def replica_verdict_def by presburger

lemma verify_loop_spec:
  assumes "heap_rep holds c H" and "\<forall>k\<in>set keys. catalog_get (sh_catalog c) k \<noteq> None" and "verify_loop D keys rpt c = (rpt', c')"
  shows "heap_only c c' \<and> heap_rep holds c' H \<and>
    (\<exists>vs. map vo_key vs = keys \<and> (\<forall>v\<in>set vs. true_report c H v) \<and> rpt' = fold (\<lambda>v. tally (Inr v :: 'e shard_error + _)) vs rpt)"
  using assms
proof (induction keys arbitrary: c rpt)
  case Nil
  then show ?case by (auto intro!: exI [of _ "[]"])
next
  case (Cons k keys)
  obtain r c1 where v: "verify_object D k c = (r, c1)" by fastforce
  have loop: "verify_loop D keys (tally r rpt) c1 = (rpt', c')" using Cons.prems(3) v by simp
  from Cons.prems(2) obtain e where e: "catalog_get (sh_catalog c) k = Some e" by auto
  from verify_object_spec [OF Cons.prems(1) e v] e obtain x where x: "heap_only c c1" "heap_rep holds c1 H" "r = Inr x"
    "vo_key x = k" "true_report c H x" unfolding true_report_def by blast
  have "\<forall>k\<in>set keys. catalog_get (sh_catalog c1) k \<noteq> None" using Cons.prems(2) heap_only_keeps [OF x(1)] by simp
  from Cons.IH [OF x(2) this loop] obtain vs where vs: "heap_only c1 c'" "heap_rep holds c' H" "map vo_key vs = keys"
    "\<forall>v\<in>set vs. true_report c1 H v" "rpt' = fold (\<lambda>v. tally (Inr v :: 'e shard_error + _)) vs (tally r rpt)" by blast
  show ?case
    by (intro conjI heap_only_trans [OF x(1) vs(1)] vs(2) exI [of _ "x # vs"])
      (use vs x true_report_cong [OF x(1)] in simp_all)
qed

end

definition clean_report :: "'e verify_object_report \<Rightarrow> bool" where
  "clean_report v \<longleftrightarrow> vo_replicas_consistent v \<and> (\<forall>x\<in>set (vo_replicas v). vr_error x = None \<and> vr_matches_catalog x \<noteq> Some False)"

lemma fold_tally:
  "va_objects_checked (fold (\<lambda>v. tally (Inr v :: 'e shard_error + 'e verify_object_report)) vs rpt) = va_objects_checked rpt + length vs"
  "va_objects_ok (fold (\<lambda>v. tally (Inr v :: 'e shard_error + 'e verify_object_report)) vs rpt) = va_objects_ok rpt + length (filter clean_report vs)"
  "va_details (fold (\<lambda>v. tally (Inr v :: 'e shard_error + 'e verify_object_report)) vs rpt) = va_details rpt @ filter (\<lambda>v. \<not> clean_report v) vs"
  "(let rpt' = fold (\<lambda>v. tally (Inr v :: 'e shard_error + 'e verify_object_report)) vs rpt
    in va_objects_mismatched rpt' + va_objects_with_errors rpt') =
   va_objects_mismatched rpt + va_objects_with_errors rpt + length (filter (\<lambda>v. \<not> clean_report v) vs)"
  by (induction vs arbitrary: rpt) (auto simp: tally_def clean_report_def Let_def)

end
