(* ===== verification/Repair_Ops.thy ===== *)
theory Repair_Ops
  imports Cluster_Repair Copy_Ops
begin

text \<open>
  What the repair sweeps do: they end whatever the shards answer, and when the shards keep their
  contract no step changes the object behind a key or leaves a key with too few healthy replicas.
\<close>

section \<open>What the steps do to the catalog\<close>

lemma on_raw_heap_only: "on_raw f a c = (r, c') \<Longrightarrow> heap_only c c'"
  by (auto simp: on_raw_def heap_only_def split: prod.splits)

lemma on_slot_with_heap_only: "on_slot_with w f ref c = (r, c') \<Longrightarrow> heap_only c c'"
  using on_slot_frame by (fastforce simp: on_slot_with_def split: prod.splits sum.splits)

lemma read_metadata_heap_only:
  assumes "read_metadata_from_shard D M store sid loc ats refs c = (md, c')"
  shows "heap_only c c'"
proof -
  obtain r c1 where o: "on_slot (so_get D None (meta_sidecar_path D loc)) store c = (r, c1)" by fastforce
  with assms on_slot_frame [OF o] show ?thesis
    by (auto simp: read_metadata_from_shard_def Let_def split: shard_kind.splits option.splits if_splits sum.splits)
qed

lemma write_with_meta_heap_only:
  assumes "write_with_meta_to_shard D M now refs sid ref loc data md c = (r, c')"
  shows "heap_only c c'"
proof -
  obtain r1 c1 where o: "on_slot_with MdStore (so_put D now loc data) ref c = (r1, c1)" by fastforce
  have s: "heap_only c c1" by (rule on_slot_with_heap_only [OF o])
  have "heap_only c c2" if "on_slot_with MdStore (so_put D now (meta_sidecar_path D loc) md) ref c1 = (r2, c2)" for r2 c2
    using heap_only_trans [OF s on_slot_with_heap_only [OF that]] .
  with assms o s on_raw_heap_only on_slot_with_heap_only show ?thesis
    unfolding write_with_meta_to_shard_def by (auto split: if_splits shard_kind.splits option.splits sum.splits)
qed

lemma copy_to_shard_heap_only:
  assumes "copy_to_shard D M now raw_refs path src dst c = (r, c')"
  shows "heap_only c c'"
proof -
  obtain g c1 where g: "on_slot (get_with_attrs D M path) (snd src) c = (g, c1)" by fastforce
  note h1 = on_slot_frame [OF g]
  show ?thesis
  proof (cases "\<exists>data ats. g = Inr (Inr data, ats)")
    case False
    with assms g h1 show ?thesis by (auto simp: copy_to_shard_def split: sum.splits)
  next
    case True
    then obtain data ats where d: "g = Inr (Inr data, ats)" by blast
    define m where "m = (case raw_refs of Some refs \<Rightarrow> read_metadata_from_shard D M (snd src) (fst src) path ats refs c1 | None \<Rightarrow> (None, c1))"
    obtain md c2 where m': "m = (md, c2)" by (cases m)
    have h2: "heap_only c1 c2" using m' read_metadata_heap_only by (fastforce simp: m_def split: option.splits)
    define w where "w = (case (md, raw_refs) of (Some x, Some refs) \<Rightarrow> write_with_meta_to_shard D M now refs (fst dst) (snd dst) path data x c2
      | _ \<Rightarrow> on_slot_with MdStore (so_put D now path data) (snd dst) c2)"
    obtain rw c3 where w': "w = (rw, c3)" by (cases w)
    have h3: "heap_only c2 c3"
      using w' write_with_meta_heap_only on_slot_with_heap_only by (fastforce simp: w_def split: option.splits)
    have "c' = c3" using assms g d m' w' unfolding copy_to_shard_def w_def m_def by (auto split: sum.splits)
    with heap_only_trans [OF h1 heap_only_trans [OF h2 h3]] show ?thesis by simp
  qed
qed

lemma replicate_object_shape:
  assumes "replicate_object D M now key src dst raw_refs c = (r, c')"
  shows "sh_shards c' = sh_shards c" and "sh_replication c' = sh_replication c"
    and "case r of Inr sz \<Rightarrow> \<exists>ml. sh_catalog c' = add_replica now key dst sz ml (sh_catalog c) | Inl _ \<Rightarrow> sh_catalog c' = sh_catalog c"
    and "sh_raw_refs c' = sh_raw_refs c"
proof -
  obtain r1 c1 where cp: "copy_to_shard D M now raw_refs (so_path D key) (src, si_store (sh_shards c ! src)) (dst, si_store (sh_shards c ! dst)) c = (r1, c1)"
    by fastforce
  obtain h where c1: "c1 = c\<lparr>sh_heap := h\<rparr>" using copy_to_shard_heap_only [OF cp] by (auto simp: heap_only_def)
  have "sh_shards c' = sh_shards c \<and> sh_replication c' = sh_replication c \<and> sh_raw_refs c' = sh_raw_refs c \<and>
    (case r of Inr sz \<Rightarrow> \<exists>ml. sh_catalog c' = add_replica now key dst sz ml (sh_catalog c) | Inl _ \<Rightarrow> sh_catalog c' = sh_catalog c)"
    using assms cp by (auto simp: replicate_object_def c1 update_catalog_def split: if_splits sum.splits)
  then show "sh_shards c' = sh_shards c" "sh_replication c' = sh_replication c"
    "case r of Inr sz \<Rightarrow> \<exists>ml. sh_catalog c' = add_replica now key dst sz ml (sh_catalog c) | Inl _ \<Rightarrow> sh_catalog c' = sh_catalog c"
    "sh_raw_refs c' = sh_raw_refs c" by auto
qed

lemma remove_replica_shape:
  assumes "remove_replica D key sid c = (r, c')"
  shows "sh_shards c' = sh_shards c" and "sh_replication c' = sh_replication c"
    and "case r of Inr _ \<Rightarrow> sh_catalog c' = catalog_remove_shard key sid (sh_catalog c) | Inl _ \<Rightarrow> sh_catalog c' = sh_catalog c"
    and "sh_raw_refs c' = sh_raw_refs c"
proof -
  have side: "heap_only c (cleanup_sidecar_maybe D p refs sid ref c)" for p refs ref
    unfolding cleanup_sidecar_maybe_def by (metis heap_only_refl on_slot_frame surjective_pairing)
  have "sh_shards c' = sh_shards c \<and> sh_replication c' = sh_replication c \<and> sh_raw_refs c' = sh_raw_refs c \<and>
    (case r of Inr _ \<Rightarrow> sh_catalog c' = catalog_remove_shard key sid (sh_catalog c) | Inl _ \<Rightarrow> sh_catalog c' = sh_catalog c)"
  proof (cases "shard_at c sid")
    case None
    with assms show ?thesis by (auto simp: remove_replica_def)
  next
    case (Some s)
    let ?c1 = "cleanup_sidecar_maybe D (so_path D key) (sh_raw_refs c) sid (si_store s) c"
    obtain r2 c2 where d: "on_slot (so_delete D (so_path D key)) (si_store s) ?c1 = (r2, c2)" by fastforce
    from heap_only_trans [OF side on_slot_frame [OF d]] obtain h where "c2 = c\<lparr>sh_heap := h\<rparr>" by (auto simp: heap_only_def)
    with assms Some d show ?thesis by (auto simp: remove_replica_def update_catalog_def split: sum.splits)
  qed
  then show "sh_shards c' = sh_shards c" "sh_replication c' = sh_replication c"
    "case r of Inr _ \<Rightarrow> sh_catalog c' = catalog_remove_shard key sid (sh_catalog c) | Inl _ \<Rightarrow> sh_catalog c' = sh_catalog c"
    "sh_raw_refs c' = sh_raw_refs c" by auto
qed

section \<open>The sweeps end\<close>

text \<open>The healthy shards that do not hold a key.\<close>

definition free_targets :: "string \<Rightarrow> 's sharded \<Rightarrow> nat set" where
  "free_targets key c = {sid. sid < length (sh_shards c) \<and> shard_has (\<lambda>h. h = Healthy) c sid \<and> sid \<notin> holders (sh_catalog c) key}"

lemma max_by_key_mem: "max_by_key f xs = Some x \<Longrightarrow> x \<in> set xs"
  by (induction f xs arbitrary: x rule: max_by_key.induct) (auto split: option.splits if_splits)

lemma replication_target_free:
  assumes "find_replication_target key c = Some sid"
  shows "sid \<in> free_targets key c"
  using max_by_key_mem [OF assms [unfolded find_replication_target_def Let_def]]
  by (auto simp: free_targets_def shard_has_def shard_at_def holders_def split: option.splits)

lemma add_replica_holders: "holders (add_replica now k sid n ml cat) k = insert sid (holders cat k)"
  by (auto simp: add_replica_def holders_def catalog_get_def Let_def hm_simps split: option.splits)

lemma repair_key_returns: "\<exists>m c'. repair_key D M now raw_refs key n c = Some (m, c')"
proof (induction "card (free_targets key c)" arbitrary: n c rule: less_induct)
  case less
  show ?case
  proof (cases "\<exists>src dst e. catalog_get (sh_catalog c) key = Some e \<and> find (shard_has (\<lambda>h. h = Healthy) c) (pe_shards e) = Some src \<and>
      find_replication_target key c = Some dst \<and> is_ok (fst (replicate_object D M now key src dst raw_refs c))")
    case False
    then show ?thesis by (subst repair_key.simps) (auto simp: Let_def split: option.splits)
  next
    case True
    then obtain src dst e where e: "catalog_get (sh_catalog c) key = Some e"
      and src: "find (shard_has (\<lambda>h. h = Healthy) c) (pe_shards e) = Some src"
      and dst: "find_replication_target key c = Some dst" and ok: "is_ok (fst (replicate_object D M now key src dst raw_refs c))" by blast
    obtain r c1 where r: "replicate_object D M now key src dst raw_refs c = (r, c1)" by fastforce
    note sh = replicate_object_shape [OF r]
    obtain sz ml where cat: "sh_catalog c1 = add_replica now key dst sz ml (sh_catalog c)"
      using sh(3) ok r by (auto simp: is_ok_iff)
    have "free_targets key c1 = free_targets key c - {dst}"
      unfolding free_targets_def cat add_replica_holders shard_has_def shard_at_def sh(1) by auto
    moreover have "dst \<in> free_targets key c" by (rule replication_target_free [OF dst])
    moreover have "finite (free_targets key c)" by (simp add: free_targets_def)
    ultimately have "card (free_targets key c1) < card (free_targets key c)" by (metis card_Diff1_less)
    from less [OF this, of "n + 1"] show ?thesis
      by (subst repair_key.simps) (use e src dst ok r in \<open>auto simp: Let_def\<close>)
  qed
qed

definition entry_shards :: "string \<Rightarrow> 's sharded \<Rightarrow> nat list" where
  "entry_shards key c = (case catalog_get (sh_catalog c) key of Some e \<Rightarrow> pe_shards e | None \<Rightarrow> [])"

lemma remove_shard_entry:
  "sh_catalog c' = catalog_remove_shard key sid (sh_catalog c) \<Longrightarrow> entry_shards key c' = filter (\<lambda>s. s \<noteq> sid) (entry_shards key c)"
  by (auto simp: entry_shards_def catalog_remove_shard_def catalog_get_def Let_def hm_simps strip_shard_def filter_empty_conv split: option.splits if_splits)

lemma pick_excess_mem: "pick_excess_shard key c = Some sid \<Longrightarrow> sid \<in> set (entry_shards key c)"
  by (auto simp: pick_excess_shard_def entry_shards_def Let_def split: option.splits if_splits dest!: min_by_key_mem)

lemma trim_key_returns: "\<exists>m c'. trim_key D key n c = Some (m, c')"
proof (induction "length (entry_shards key c)" arbitrary: n c rule: less_induct)
  case less
  show ?case
  proof (cases "\<exists>sid. pick_excess_shard key c = Some sid \<and> is_ok (fst (remove_replica D key sid c))")
    case False
    then show ?thesis by (subst trim_key.simps) (auto simp: Let_def split: option.splits)
  next
    case True
    then obtain sid where sid: "pick_excess_shard key c = Some sid" "is_ok (fst (remove_replica D key sid c))" by blast
    obtain r c1 where r: "remove_replica D key sid c = (r, c1)" by fastforce
    have "sh_catalog c1 = catalog_remove_shard key sid (sh_catalog c)"
      using remove_replica_shape(3) [OF r] sid(2) r by (auto simp: is_ok_iff)
    from remove_shard_entry [OF this] pick_excess_mem [OF sid(1)]
    have "length (entry_shards key c1) < length (entry_shards key c)" by (simp add: length_filter_less)
    from less [OF this, of "n + 1"] show ?thesis
      by (subst trim_key.simps) (use sid r in \<open>auto simp: Let_def\<close>)
  qed
qed

lemma sweep_keys_returns: "(\<And>key n c. \<exists>m c'. step key n c = Some (m, c')) \<Longrightarrow> \<exists>m c'. sweep_keys step keys n c = Some (m, c')"
proof (induction keys arbitrary: n c)
  case (Cons k ks)
  from Cons.prems obtain m c1 where "step k n c = Some (m, c1)" by blast
  with Cons.IH [OF Cons.prems, of m c1] show ?case by simp
qed simp

lemma repair_sweep_returns:
  "\<exists>result c'. repair_replication_sweep D M now n raw_refs c = Some (result, c')"
proof -
  obtain m1 c1 where 1: "sweep_keys (repair_key D M now raw_refs) (map fst (take n (find_under_replicated c))) 0 c = Some (m1, c1)"
    using sweep_keys_returns [where step = "repair_key D M now raw_refs", OF repair_key_returns] by blast
  obtain m2 c2 where 2: "sweep_keys (trim_key D) (map fst (take n (find_over_replicated c1))) 0 c1 = Some (m2, c2)"
    using sweep_keys_returns [where step = "trim_key D", OF trim_key_returns] by blast
  show ?thesis by (simp add: repair_replication_sweep_def 1 2)
qed

section \<open>The sweeps keep the replicas\<close>

text \<open>The healthy shards among those that the catalog lists for a key.\<close>

definition live :: "'s sharded \<Rightarrow> string \<Rightarrow> nat set" where
  "live c k = {sid \<in> holders (sh_catalog c) k. shard_has (\<lambda>h. h = Healthy) c sid}"

text \<open>
  The state of a cluster in which every healthy replica of a key has the same object \<open>obj k\<close>: keys
  are canonical paths, no key is the sidecar of another, no two keys share a sidecar, and no two slots
  share a store. Objects are below \<open>2 ^ 62\<close> bytes, and together with its sidecar an object fits a buffer.
\<close>

definition replicas_ok ::
  "('s, 'e) store_ops \<Rightarrow> 's sharded \<Rightarrow> (nat \<Rightarrow> string \<rightharpoonup> byte list) \<Rightarrow> (string \<Rightarrow> byte list) \<Rightarrow> bool" where
  "replicas_ok D c H obj \<longleftrightarrow> catalog_ok (sh_catalog c) \<and>
     (\<forall>i j a. i < length (slots c) \<and> j < length (slots c) \<and> slots c ! i = StoreAt a \<and> slots c ! j = StoreAt a \<longrightarrow> i = j) \<and>
     (\<forall>k. holders (sh_catalog c) k \<noteq> {} \<longrightarrow> so_path D k = k \<and> meta_sidecar_path D k \<noteq> k \<and>
        holders (sh_catalog c) (meta_sidecar_path D k) = {} \<and> length (obj k) < 2 ^ 62 \<and>
        (\<forall>k'. holders (sh_catalog c) k' \<noteq> {} \<and> meta_sidecar_path D k' = meta_sidecar_path D k \<longrightarrow> k' = k) \<and>
        (\<forall>a. beside (obj k) (H a (meta_sidecar_path D k)))) \<and>
     (\<forall>k. \<forall>sid\<in>live c k. stored c H sid k = Some (obj k))"

text \<open>
  The shards keep less than \<open>2 ^ 62\<close> bytes of metadata with an object: the index field of a raw store
  has 16 bits, and an S3 service limits the attributes of an object to a few kilobytes.
\<close>

definition small_metadata :: "('s \<Rightarrow> (string \<rightharpoonup> byte list) \<Rightarrow> bool) \<Rightarrow> ('s, 'e) meta_api \<Rightarrow> bool" where
  "small_metadata holds M \<longleftrightarrow>
     (\<forall>s A k b. holds s A \<longrightarrow>
        (ma_get_metadata M k s = Inr b \<longrightarrow> length b < 2 ^ 62) \<and>
        (encode_metadata (attributes_to_meta (ma_attributes M k s)) = Inr b \<longrightarrow> length b < 2 ^ 62))"

lemma shard_has_cong: "sh_shards c' = sh_shards c \<Longrightarrow> shard_has P c' sid = shard_has P c sid"
  by (simp add: shard_has_def shard_at_def)

lemma live_subset: "sid \<in> live c k \<Longrightarrow> sid < length (sh_shards c)"
  by (auto simp: live_def shard_has_def shard_at_def split: option.splits if_splits)

lemma finite_live: "finite (live c k)"
  by (rule finite_subset [of _ "{..<length (sh_shards c)}"]) (auto dest: live_subset)

lemma find_live: "find (shard_has (\<lambda>h. h = Healthy) c) (entry_shards k c) = Some sid \<Longrightarrow> sid \<in> live c k"
  by (auto simp: live_def entry_shards_def holders_def find_Some_iff split: option.splits)

context meta_store
begin

text \<open>What a copy reads as metadata of the source fits a buffer beside the object.\<close>

lemma source_metadata_fits:
  assumes rep: "heap_rep holds c H" and small: "small_metadata holds M" and len: "length d < 2 ^ 62"
    and side: "\<forall>a. beside d (H a (meta_sidecar_path D k))" and ats: "ats = ma_attributes M k s" "holds s A"
    and run: "read_metadata_from_shard D M ref sid k ats refs c = (Some md, c')"
  shows "length (d @ md) < 2 ^ 63"
proof -
  have sum: "length b < 2 ^ 62 \<Longrightarrow> length (d @ b) < 2 ^ 63" for b :: "byte list" using len by simp
  show ?thesis
  proof (cases "rr_kind refs sid")
    case RawKind
    with run obtain a where "ma_get_metadata M k (sh_heap c a) = Inr md"
      by (auto simp: read_metadata_from_shard_def nonempty_def split: option.splits sum.splits if_splits)
    moreover have "holds (sh_heap c a) (H a)" using rep by (simp add: heap_rep_def)
    ultimately show ?thesis using small sum by (auto simp: small_metadata_def)
  next
    case S3Like
    with run have "encode_metadata (attributes_to_meta (ma_attributes M k s)) = Inr md"
      by (auto simp: read_metadata_from_shard_def nonempty_def Let_def ats(1) split: sum.splits if_splits)
    then show ?thesis using small sum ats(2) by (auto simp: small_metadata_def)
  next
    case Sidecar
    obtain g c1 where g: "on_slot (so_get D None (meta_sidecar_path D k)) ref c = (g, c1)" by fastforce
    with run Sidecar have m: "g = Inr (Inr md)"
      by (auto simp: read_metadata_from_shard_def nonempty_def split: sum.splits if_splits)
    have "\<exists>a. ref = StoreAt a \<and> (\<forall>d. (Inr (Inr md) :: 'e + 'e + byte list) = Inr (Inr d) \<longrightarrow> H a (meta_sidecar_path D k) = Some d)"
      by (rule on_slot_read(2) [where P = "\<lambda>A r. \<forall>d. r = Inr (Inr d) \<longrightarrow> A (meta_sidecar_path D k) = Some d", OF _ rep g m])
        (use get_law in fastforce)
    then obtain a where "H a (meta_sidecar_path D k) = Some md" by blast
    with side show ?thesis by (metis beside_def option.simps(5))
  qed
qed

lemma fits_of_small:
  assumes rep: "heap_rep holds c H" and small: "small_metadata holds M" and st: "stored c H src k = Some d" "length d < 2 ^ 62"
    and side: "\<forall>a. beside d (H a (meta_sidecar_path D k))"
  shows "fits_buffer D M raw_refs k (src, slots c ! src) c"
proof -
  obtain a where a: "slots c ! src = StoreAt a" "H a k = Some d"
    using st(1) by (auto simp: stored_def split: if_splits store_ref.splits)
  obtain g c1 where g: "on_slot (get_with_attrs D M k) (StoreAt a) c = (g, c1)" by fastforce
  have rep1: "heap_rep holds c1 H"
    by (rule on_slot_read(1) [where P = "\<lambda>_ _. True", OF _ rep g]) (use get_with_attrs_law in blast)
  show ?thesis
  proof (cases "\<exists>data ats. g = Inr (Inr data, ats)")
    case False
    then show ?thesis using g by (auto simp: fits_buffer_def a(1) split: sum.splits)
  next
    case True
    then obtain data ats where d: "g = Inr (Inr data, ats)" by blast
    have "\<exists>a'. StoreAt a = StoreAt a' \<and> (\<forall>d ats2. (Inr (Inr data, ats) :: 'e + ('e + byte list) \<times> attributes) = Inr (Inr d, ats2) \<longrightarrow> H a' k = Some d)"
      by (rule on_slot_read(2) [where P = "\<lambda>A r. \<forall>d ats. r = Inr (Inr d, ats) \<longrightarrow> A k = Some d", OF _ rep g d]) (rule get_with_attrs_law)
    with a(2) have data: "data = d" by auto
    have ats: "ats = ma_attributes M k (sh_heap c a)" "holds (sh_heap c a) (H a)"
      using g d rep by (auto simp: on_slot_def get_with_attrs_def heap_rep_def split: prod.splits sum.splits)
    have "length (d @ md) < 2 ^ 63"
      if "raw_refs = Some refs" "fst (read_metadata_from_shard D M (StoreAt a) src k ats refs c1) = Some md" for refs md
      using source_metadata_fits [OF rep1 small st(2) side ats] that(2) by (metis prod.collapse)
    then show ?thesis using g d st(2) by (auto simp: fits_buffer_def a(1) data split: option.splits)
  qed
qed

text \<open>One replication step of a sweep, from a live replica to a healthy shard.\<close>

lemma replicate_step:
  assumes rep: "heap_rep holds c H" and inv: "replicas_ok D c H obj" and ag: "agrees_opt raw_refs c"
    and small: "small_metadata holds M" and src: "src \<in> live c key" and dst: "shard_has (\<lambda>h. h = Healthy) c dst"
    and run: "replicate_object D M now key src dst raw_refs c = (r, c')"
  shows "frame c c' \<and> sh_shards c' = sh_shards c \<and>
    live c' = (if is_ok r then (live c)(key := insert dst (live c key)) else live c) \<and>
    (\<exists>H'. heap_rep holds c' H' \<and> replicas_ok D c' H' obj)"
proof -
  let ?side = "meta_sidecar_path D key"
  from src have hk: "holders (sh_catalog c) key \<noteq> {}" by (auto simp: live_def)
  with inv have k: "so_path D key = key" "?side \<noteq> key" "length (obj key) < 2 ^ 62" "\<forall>a. beside (obj key) (H a ?side)"
    by (auto simp: replicas_ok_def)
  have st: "stored c H src key = Some (obj key)" using inv src by (auto simp: replicas_ok_def)
  from replicate_object_spec [where key = key, OF rep ag, unfolded k(1), OF fits_of_small [OF rep small st k(3,4)] k(2) run]
  obtain H' where o: "frame c c'" "sh_shards c' = sh_shards c" "heap_rep holds c' H'" "same_except {key, ?side} H H'"
    "\<forall>a. H' a key = H a key \<or> stored c H src key \<noteq> None \<and> H' a key = stored c H src key"
    "\<forall>a k. k \<noteq> key \<longrightarrow> H' a k = H a k \<or> (\<exists>data. stored c H src key = Some data \<and> beside data (H' a k))"
    "case r of Inr sz \<Rightarrow> \<exists>data ml. stored c H src key = Some data \<and> sz = length data \<and>
           stored c H' dst key = Some data \<and> sh_catalog c' = add_replica now key dst sz ml (sh_catalog c)
       | Inl _ \<Rightarrow> sh_catalog c' = sh_catalog c" by blast
  have ok: "catalog_ok (sh_catalog c)" using inv by (simp add: replicas_ok_def)
  have cat: "catalog_ok (sh_catalog c')" "holders (sh_catalog c') =
      (if is_ok r then (holders (sh_catalog c))(key := insert dst (holders (sh_catalog c) key)) else holders (sh_catalog c))"
    using o(7) ok add_replica_ok by (cases r; force)+
  have lv: "live c' = (if is_ok r then (live c)(key := insert dst (live c key)) else live c)"
    using dst unfolding live_def cat(2) shard_has_cong [OF o(2)] by (auto simp: fun_eq_iff)
  have dom: "holders (sh_catalog c') k = {} \<longleftrightarrow> holders (sh_catalog c) k = {}" for k using hk by (auto simp: cat(2))
  have stored': "stored c' H' sid k = Some (obj k)" if "sid \<in> live c' k" for sid k
  proof (cases "k = key")
    case False
    then have l: "sid \<in> live c k" using that by (auto simp: lv split: if_splits)
    then have "holders (sh_catalog c) k \<noteq> {}" by (auto simp: live_def)
    then have "k \<notin> {key, ?side}" using False inv hk by (auto simp: replicas_ok_def)
    from stored_same [OF o(4) this, of c sid] stored_frame [OF o(1)] inv l show ?thesis by (auto simp: replicas_ok_def)
  next
    case True
    show ?thesis
    proof (cases "sid \<in> live c key")
      case True
      then have "stored c H sid key = Some (obj key)" using inv by (auto simp: replicas_ok_def)
      then obtain a where a: "sid < length (sh_shards c)" "slots c ! sid = StoreAt a" "H a key = Some (obj key)"
        by (auto simp: stored_def split: if_splits store_ref.splits)
      have "H' a key = Some (obj key)" using o(5) st a(3) by metis
      with a have "stored c H' sid key = Some (obj key)" by (simp add: stored_def)
      then show ?thesis using stored_frame [OF o(1)] \<open>k = key\<close> by simp
    next
      case False
      with that \<open>k = key\<close> lv have "sid = dst" "is_ok r" by (auto split: if_splits)
      then show ?thesis using o(7) st stored_frame [OF o(1)] \<open>k = key\<close> by (auto simp: is_ok_iff)
    qed
  qed
  have side': "beside (obj k) (H' a (meta_sidecar_path D k))" if "holders (sh_catalog c) k \<noteq> {}" for k a
  proof (cases "k = key")
    case True
    then show ?thesis using o(6) k(2,4) st by (metis option.inject)
  next
    case False
    have "meta_sidecar_path D k \<noteq> ?side" using inv that hk False unfolding replicas_ok_def by blast
    moreover have "meta_sidecar_path D k \<noteq> key" using inv that hk by (auto simp: replicas_ok_def)
    ultimately have "H' a (meta_sidecar_path D k) = H a (meta_sidecar_path D k)" using o(4) by (simp add: same_except_def)
    then show ?thesis using inv that by (simp add: replicas_ok_def)
  qed
  have "replicas_ok D c' H' obj"
    using inv cat(1) dom stored' side' o(1) unfolding replicas_ok_def frame_def by auto
  with o(1-3) lv show ?thesis by blast
qed

text \<open>One removal of a replica.\<close>

lemma remove_replica_spec:
  assumes rep: "heap_rep holds c H" and run: "remove_replica D key sid c = (r, c')" and sid: "sid < length (sh_shards c)"
  shows "frame c c' \<and> (\<exists>H'. heap_rep holds c' H' \<and> shrinks {so_path D key, meta_sidecar_path D (so_path D key)} H H' \<and>
    (\<forall>a. slots c ! sid \<noteq> StoreAt a \<longrightarrow> H' a = H a) \<and> (\<not> is_ok r \<and> meta_sidecar_path D (so_path D key) \<noteq> so_path D key \<longrightarrow>
       (\<forall>a. H' a (so_path D key) = H a (so_path D key))))"
proof -
  let ?p = "so_path D key" and ?ref = "slots c ! sid"
  let ?side = "meta_sidecar_path D ?p"
  have s: "shard_at c sid = Some (sh_shards c ! sid)" "si_store (sh_shards c ! sid) = ?ref" using sid by (simp_all add: shard_at_def slots_nth)
  let ?c1 = "cleanup_sidecar_maybe D ?p (sh_raw_refs c) sid ?ref c"
  obtain r0 c0 where d0: "on_slot (so_delete D ?side) ?ref c = (r0, c0)" by fastforce
  let ?H0 = "\<lambda>a. if is_ok r0 \<and> ?ref = StoreAt a then (H a)(?side := None) else H a"
  have "\<exists>H1. heap_only c ?c1 \<and> heap_rep holds ?c1 H1 \<and> shrinks {?side} H H1 \<and> (\<forall>a. ?ref \<noteq> StoreAt a \<longrightarrow> H1 a = H a)"
  proof (cases "?c1 = c")
    case True
    then show ?thesis using rep by (intro exI [of _ H]) (simp add: shrinks_refl)
  next
    case False
    then have c1: "?c1 = c0" by (auto simp: cleanup_sidecar_maybe_def d0 split: if_splits)
    show ?thesis unfolding c1 by (intro exI [of _ ?H0] conjI on_slot_frame [OF d0] on_slot_delete(1) [OF rep d0]) (auto simp: shrinks_def same_except_def)
  qed
  then obtain H1 where H1: "heap_only c ?c1" "heap_rep holds ?c1 H1" "shrinks {?side} H H1" "\<forall>a. ?ref \<noteq> StoreAt a \<longrightarrow> H1 a = H a" by blast
  obtain r2 c2 where d: "on_slot (so_delete D ?p) ?ref ?c1 = (r2, c2)" by fastforce
  let ?H2 = "\<lambda>a. if is_ok r2 \<and> ?ref = StoreAt a then (H1 a)(?p := None) else H1 a"
  have "frame c c2" using heap_only_keeps [OF heap_only_trans [OF H1(1) on_slot_frame [OF d]]] by blast
  moreover have "c' = c2 \<and> \<not> is_ok r \<and> \<not> is_ok r2 \<or> c' = update_catalog (catalog_remove_shard key sid) c2 \<and> is_ok r"
    using run d s by (auto simp: remove_replica_def split: sum.splits)
  moreover have "heap_rep holds c2 ?H2" by (rule on_slot_delete(1) [OF H1(2) d])
  moreover have "shrinks {?p, ?side} H ?H2" "\<forall>a. ?ref \<noteq> StoreAt a \<longrightarrow> ?H2 a = H a"
    using H1(3,4) by (auto simp: shrinks_def same_except_def)
  moreover have "?H2 a ?p = H a ?p" if "\<not> is_ok r2" "?side \<noteq> ?p" for a using that H1(3) by (simp add: shrinks_def same_except_def)
  ultimately show ?thesis by (auto simp: heap_rep_def update_catalog_def frame_def slots_def intro!: exI [of _ ?H2])
qed

lemma trim_step:
  assumes rep: "heap_rep holds c H" and inv: "replicas_ok D c H obj" and pick: "pick_excess_shard key c = Some sid"
    and run: "remove_replica D key sid c = (r, c')"
  shows "frame c c' \<and> sh_shards c' = sh_shards c \<and>
    live c' = (if is_ok r then (live c)(key := live c key - {sid}) else live c) \<and>
    rp_factor (sh_replication c) \<le> card (live c key - {sid}) \<and>
    (\<exists>H'. heap_rep holds c' H' \<and> replicas_ok D c' H' obj)"
proof -
  let ?side = "meta_sidecar_path D key"
  have ok: "catalog_ok (sh_catalog c)" using inv by (simp add: replicas_ok_def)
  have "{s \<in> holders (sh_catalog c) key - {sid}. shard_has (\<lambda>h. h = Healthy) c s} = live c key - {sid}" by (auto simp: live_def)
  then have pk: "sid \<in> holders (sh_catalog c) key" "rp_factor (sh_replication c) \<le> card (live c key - {sid})"
    using pick_excess_spec [OF ok, of key] pick by auto
  then have hk: "holders (sh_catalog c) key \<noteq> {}" by blast
  with inv have k: "so_path D key = key" "?side \<noteq> key" by (auto simp: replicas_ok_def)
  have n: "sid < length (sh_shards c)"
    using pick by (auto simp: pick_excess_shard_def Let_def shard_has_def shard_at_def split: option.splits if_splits dest!: min_by_key_mem)
  from remove_replica_spec [where key = key, OF rep _ n, unfolded k(1), OF run] obtain H' where o: "frame c c'" "heap_rep holds c' H'"
    "shrinks {key, ?side} H H'" "\<forall>a. slots c ! sid \<noteq> StoreAt a \<longrightarrow> H' a = H a" "\<not> is_ok r \<longrightarrow> (\<forall>a. H' a key = H a key)"
    using k(2) by blast
  note sh = remove_replica_shape [OF run]
  have cat: "catalog_ok (sh_catalog c')" "holders (sh_catalog c') =
      (if is_ok r then (holders (sh_catalog c))(key := holders (sh_catalog c) key - {sid}) else holders (sh_catalog c))"
    using sh(3) ok catalog_remove_shard_ok by (cases r; force)+
  have lv: "live c' = (if is_ok r then (live c)(key := live c key - {sid}) else live c)"
    unfolding live_def cat(2) shard_has_cong [OF sh(1)] by (auto simp: fun_eq_iff)
  have stored': "stored c' H' i k = Some (obj k)" if "i \<in> live c' k" for i k
  proof -
    have l: "i \<in> live c k" using that by (auto simp: lv split: if_splits)
    then have old: "stored c H i k = Some (obj k)" using inv by (auto simp: replicas_ok_def)
    have "stored c H' i k = Some (obj k)"
    proof (cases "k = key")
      case False
      have "holders (sh_catalog c) k \<noteq> {}" using l by (auto simp: live_def)
      then have "k \<notin> {key, ?side}" using False inv hk by (auto simp: replicas_ok_def)
      from stored_same [OF conjunct1 [OF o(3) [unfolded shrinks_def]] this, of c i] old show ?thesis by simp
    next
      case True
      show ?thesis
      proof (cases "is_ok r")
        case False
        with o(5) old True show ?thesis by (auto simp: stored_def split: if_splits store_ref.splits)
      next
        case ok: True
        then have "i \<noteq> sid" using that True by (auto simp: lv)
        moreover obtain a where a: "i < length (sh_shards c)" "slots c ! i = StoreAt a" "H a k = Some (obj k)"
          using old by (auto simp: stored_def split: if_splits store_ref.splits)
        ultimately have "slots c ! sid \<noteq> StoreAt a" using inv n by (auto simp: replicas_ok_def slots_def)
        with o(4) a show ?thesis by (auto simp: stored_def)
      qed
    qed
    then show ?thesis using stored_frame [OF o(1)] by simp
  qed
  have side': "beside d (H a k) \<Longrightarrow> beside d (H' a k)" for d a k
    using o(3) unfolding shrinks_def beside_def by (metis option.simps(4))
  have dom: "holders (sh_catalog c') k \<noteq> {} \<Longrightarrow> holders (sh_catalog c) k \<noteq> {}"
    "holders (sh_catalog c) k = {} \<Longrightarrow> holders (sh_catalog c') k = {}" for k by (auto simp: cat(2) split: if_splits)
  have "replicas_ok D c' H' obj"
    using inv cat(1) dom side' stored' o(1) unfolding replicas_ok_def frame_def by simp
  with o(1,2) sh(1) lv pk(2) show ?thesis by blast
qed

text \<open>
  What a part of the sweep keeps: the frame, the objects, and at least \<open>min rf\<close> of the live replicas
  of every key.
\<close>

definition sweep_keeps :: "(string \<Rightarrow> byte list) \<Rightarrow> 's sharded \<Rightarrow> 's sharded \<Rightarrow> bool" where
  "sweep_keeps obj c c' \<longleftrightarrow> frame c c' \<and> sh_shards c' = sh_shards c \<and>
     (\<forall>k. min (rp_factor (sh_replication c)) (card (live c k)) \<le> card (live c' k)) \<and>
     (\<exists>H'. heap_rep holds c' H' \<and> replicas_ok D c' H' obj)"

lemma sweep_keeps_refl: "heap_rep holds c H \<Longrightarrow> replicas_ok D c H obj \<Longrightarrow> sweep_keeps obj c c"
  by (auto simp: sweep_keeps_def)

lemma sweep_keeps_trans:
  assumes "sweep_keeps obj c c1" and "sweep_keeps obj c1 c2"
  shows "sweep_keeps obj c c2"
proof -
  have rf: "sh_replication c1 = sh_replication c" using assms(1) by (simp add: sweep_keeps_def frame_def)
  have "min (rp_factor (sh_replication c)) (card (live c k)) \<le> card (live c2 k)" for k
  proof -
    have "min (rp_factor (sh_replication c)) (card (live c k)) \<le> card (live c1 k)"
      "min (rp_factor (sh_replication c)) (card (live c1 k)) \<le> card (live c2 k)"
      using assms rf by (simp_all add: sweep_keeps_def)
    then show ?thesis by linarith
  qed
  with assms frame_trans show ?thesis by (auto simp: sweep_keeps_def)
qed

lemma repair_key_keeps:
  assumes "heap_rep holds c H" and "replicas_ok D c H obj" and "agrees_opt raw_refs c" and small: "small_metadata holds M"
    and "repair_key D M now raw_refs key n c = Some (m, c')"
  shows "sweep_keeps obj c c'"
  using assms(1-3,5)
proof (induction "card (free_targets key c)" arbitrary: n c H rule: less_induct)
  case less
  show ?case
  proof (cases "\<exists>e src dst. catalog_get (sh_catalog c) key = Some e \<and>
      \<not> rp_factor (sh_replication c) \<le> length (filter (shard_has (\<lambda>h. h = Healthy \<or> h = Syncing) c) (pe_shards e)) \<and>
      find (shard_has (\<lambda>h. h = Healthy) c) (pe_shards e) = Some src \<and> find_replication_target key c = Some dst")
    case False
    then have "c' = c" using less.prems(4) by (subst (asm) repair_key.simps) (auto split: option.splits if_splits)
    with less.prems(1,2) sweep_keeps_refl show ?thesis by blast
  next
    case True
    then obtain e src dst where e: "catalog_get (sh_catalog c) key = Some e"
      and lo: "\<not> rp_factor (sh_replication c) \<le> length (filter (shard_has (\<lambda>h. h = Healthy \<or> h = Syncing) c) (pe_shards e))"
      and src: "find (shard_has (\<lambda>h. h = Healthy) c) (pe_shards e) = Some src" and dst: "find_replication_target key c = Some dst" by blast
    obtain r c1 where r: "replicate_object D M now key src dst raw_refs c = (r, c1)" by fastforce
    have sl: "src \<in> live c key" using src e by (intro find_live) (simp add: entry_shards_def)
    have dl: "dst \<in> free_targets key c" by (rule replication_target_free [OF dst])
    then have dh: "shard_has (\<lambda>h. h = Healthy) c dst" by (simp add: free_targets_def)
    from replicate_step [OF less.prems(1-3) small sl dh r] obtain H1 where o: "frame c c1" "sh_shards c1 = sh_shards c"
      "live c1 = (if is_ok r then (live c)(key := insert dst (live c key)) else live c)" "heap_rep holds c1 H1" "replicas_ok D c1 H1 obj" by blast
    have "card (live c k) \<le> card (live c1 k)" for k using o(3) finite_live [of c key] by (auto simp: card_insert_if)
    then have k1: "sweep_keeps obj c c1" using o by (auto simp: sweep_keeps_def min.coboundedI2)
    have run: "(if is_ok r then repair_key D M now raw_refs key (n + 1) c1 else Some (n, c1)) = Some (m, c')"
      using less.prems(4) e lo src dst r by (subst (asm) repair_key.simps) (simp add: Let_def split: if_splits)
    show ?thesis
    proof (cases "is_ok r")
      case False
      with run k1 show ?thesis by simp
    next
      case True
      then obtain sz ml where cat: "sh_catalog c1 = add_replica now key dst sz ml (sh_catalog c)"
        using replicate_object_shape(3) [OF r] by (auto simp: is_ok_iff)
      have "free_targets key c1 = free_targets key c - {dst}"
        unfolding free_targets_def cat add_replica_holders shard_has_cong [OF o(2)] o(2) by auto
      with dl have "card (free_targets key c1) < card (free_targets key c)"
        by (simp add: card_Diff1_less free_targets_def del: card_Diff_insert)
      moreover have "agrees_opt raw_refs c1" using less.prems(3) agrees_cong [OF o(1)] by (simp add: agrees_opt_def split: option.splits)
      ultimately have "sweep_keeps obj c1 c'" using less.hyps [OF _ o(4,5)] run True by simp
      with k1 show ?thesis by (rule sweep_keeps_trans)
    qed
  qed
qed

lemma trim_key_keeps:
  assumes "heap_rep holds c H" and "replicas_ok D c H obj" and "trim_key D key n c = Some (m, c')"
  shows "sweep_keeps obj c c'"
  using assms
proof (induction "length (entry_shards key c)" arbitrary: n c H rule: less_induct)
  case less
  show ?case
  proof (cases "pick_excess_shard key c")
    case None
    then have "c' = c" using less.prems(3) by (subst (asm) trim_key.simps) simp
    with less.prems(1,2) sweep_keeps_refl show ?thesis by blast
  next
    case (Some sid)
    obtain r c1 where r: "remove_replica D key sid c = (r, c1)" by fastforce
    from trim_step [OF less.prems(1,2) Some r] obtain H1 where o: "frame c c1" "sh_shards c1 = sh_shards c"
      "live c1 = (if is_ok r then (live c)(key := live c key - {sid}) else live c)"
      "rp_factor (sh_replication c) \<le> card (live c key - {sid})" "heap_rep holds c1 H1" "replicas_ok D c1 H1 obj" by blast
    have "min (rp_factor (sh_replication c)) (card (live c k)) \<le> card (live c1 k)" for k using o(3,4) by auto
    then have k1: "sweep_keeps obj c c1" using o by (auto simp: sweep_keeps_def)
    have run: "(if is_ok r then trim_key D key (n + 1) c1 else Some (n, c1)) = Some (m, c')"
      using less.prems(3) Some r by (subst (asm) trim_key.simps) (simp add: Let_def split: if_splits)
    show ?thesis
    proof (cases "is_ok r")
      case False
      with run k1 show ?thesis by simp
    next
      case True
      then have "sh_catalog c1 = catalog_remove_shard key sid (sh_catalog c)"
        using remove_replica_shape(3) [OF r] by (auto simp: is_ok_iff)
      from remove_shard_entry [OF this] pick_excess_mem [OF Some]
      have "length (entry_shards key c1) < length (entry_shards key c)" by (simp add: length_filter_less)
      with run True have "sweep_keeps obj c1 c'" using less.hyps [OF _ o(5,6)] by simp
      with k1 show ?thesis by (rule sweep_keeps_trans)
    qed
  qed
qed

lemma sweep_keys_keeps:
  assumes step: "\<And>key n c1 H1 m c2. heap_rep holds c1 H1 \<Longrightarrow> replicas_ok D c1 H1 obj \<Longrightarrow> frame c c1 \<Longrightarrow> step key n c1 = Some (m, c2) \<Longrightarrow> sweep_keeps obj c1 c2"
    and "heap_rep holds c H" and "replicas_ok D c H obj" and "sweep_keys step keys n c = Some (m, c')"
  shows "sweep_keeps obj c c'"
  using assms
proof (induction keys arbitrary: n c H)
  case Nil
  then show ?case using sweep_keeps_refl by auto
next
  case (Cons k ks)
  from Cons.prems(4) obtain n1 c1 where s: "step k n c = Some (n1, c1)" "sweep_keys step ks n1 c1 = Some (m, c')"
    by (auto simp: bind_eq_Some_conv)
  have k1: "sweep_keeps obj c c1" by (rule Cons.prems(1) [OF Cons.prems(2,3) frame_refl s(1)])
  then obtain H1 where H1: "frame c c1" "heap_rep holds c1 H1" "replicas_ok D c1 H1 obj" by (auto simp: sweep_keeps_def)
  have "sweep_keeps obj c1 c'"
    by (rule Cons.IH [OF _ H1(2,3) s(2)]) (use Cons.prems(1) frame_trans [OF H1(1)] in blast)
  with k1 show ?case by (rule sweep_keeps_trans)
qed

end

end
