(* ===== verification/Memory_Shard.thy ===== *)
theory Memory_Shard
  imports Metadata_Ops
begin

text \<open>
  An in-memory object store as a shard (the \<open>memory\<close> backend of the configuration): an association
  list from keys to data and attributes. It keeps the contract \<open>meta_store\<close>, and clusters of it
  are the concrete inputs of several witnesses.
\<close>

type_synonym mem = "(string, byte list \<times> attributes) hashmap"

definition mem_meta_of :: "string \<times> byte list \<times> attributes \<Rightarrow> object_meta" where
  "mem_meta_of kv = \<lparr>om_location = fst kv, om_last_modified = 0, om_size = length (fst (snd kv))\<rparr>"

definition mem_get :: "get_range option \<Rightarrow> string \<Rightarrow> mem \<Rightarrow> (string + (string + byte list)) \<times> mem" where
  "mem_get rng k s =
     (case hm_get s k of
        None \<Rightarrow> Inl ''NotFound''
      | Some (d, _) \<Rightarrow>
          Inr (Inr (case rng of None \<Rightarrow> d | Some r \<Rightarrow> (case resolve_range (length d) r of (a, b) \<Rightarrow> take (b - a) (drop a d)))), s)"

definition mem_ops :: "(mem, string) store_ops" where
  "mem_ops =
     \<lparr>so_put = (\<lambda>now k d s. (Inr (), hm_insert k (d, []) s)),
      so_get = mem_get,
      so_get_range = (\<lambda>a b k s. (case hm_get s k of None \<Rightarrow> Inl ''NotFound'' | Some (d, _) \<Rightarrow> Inr (take (b - a) (drop a d)), s)),
      so_head = (\<lambda>k s. (case hm_get s k of None \<Rightarrow> Inl ''NotFound'' | Some v \<Rightarrow> Inr (mem_meta_of (k, v)), s)),
      so_delete = (\<lambda>k s. (Inr (), hm_remove k s)),
      so_list = (\<lambda>s. (Inr (map mem_meta_of s), s)),
      so_head_with_meta = (\<lambda>k s. map_option (\<lambda>v. (mem_meta_of (k, v), 0)) (hm_get s k)),
      so_list_with_meta = (\<lambda>s. map (\<lambda>kv. (mem_meta_of kv, 0)) s),
      so_not_found = (\<lambda>e. e = ''NotFound''), so_message = id,
      so_crc32c = (\<lambda>d. of_nat (sum_list (map unat d))), so_path = id,
      so_to_rfc3339 = (\<lambda>t. le_bytes 8 (nat t)), so_parse_rfc3339 = (\<lambda>bs. Some (int (le_val bs)))\<rparr>"

definition mem_meta :: "(mem, string) meta_api" where
  "mem_meta =
     \<lparr>ma_put_attrs = (\<lambda>now k d ats s. (Inr (), hm_insert k (d, ats) s)),
      ma_attributes = (\<lambda>k s. case hm_get s k of None \<Rightarrow> [] | Some (_, ats) \<Rightarrow> ats),
      ma_list = (\<lambda>pfx s. (Inr (map mem_meta_of (filter (\<lambda>(k, _). case pfx of None \<Rightarrow> True | Some p \<Rightarrow> prefix p k) s)), s)),
      ma_put_with_meta = (\<lambda>now k d md s. (Inl (NotFound k), s)),
      ma_get_metadata = (\<lambda>k s. Inl (NotFound k)),
      ma_head_with_meta = (\<lambda>k s. Inl (NotFound k)),
      ma_list_with_meta = (\<lambda>pfx s. []),
      ma_set_meta_len = (\<lambda>k n s. (Inl (NotFound k), s))\<rparr>"

definition mem_holds :: "mem \<Rightarrow> (string \<rightharpoonup> byte list) \<Rightarrow> bool" where
  "mem_holds s A \<longleftrightarrow> A = (\<lambda>k. map_option fst (hm_get s k))"

lemma mem_fields [simp]:
  "so_put mem_ops now k d s = (Inr (), hm_insert k (d, []) s)" "so_get mem_ops = mem_get"
  "so_delete mem_ops k s = (Inr (), hm_remove k s)" "so_path mem_ops = id" "so_to_rfc3339 mem_ops t = le_bytes 8 (nat t)"
  "so_list mem_ops s = (Inr (map mem_meta_of s), s)" "so_not_found mem_ops e \<longleftrightarrow> e = ''NotFound''" "so_message mem_ops e = e"
  "so_crc32c mem_ops b = of_nat (sum_list (map unat b))"
  "ma_put_attrs mem_meta now k d ats s = (Inr (), hm_insert k (d, ats) s)"
  "ma_attributes mem_meta k s = (case hm_get s k of None \<Rightarrow> [] | Some (_, ats) \<Rightarrow> ats)"
  by (simp_all add: mem_ops_def mem_meta_def)

interpretation ms: shard_store mem_ops mem_holds
  by unfold_locales (auto simp: mem_ops_def mem_holds_def mem_get_def fun_eq_iff hm_simps split: option.splits)

interpretation mm: meta_store mem_ops mem_holds mem_meta
  by unfold_locales (auto simp: mem_meta_def mem_holds_def fun_eq_iff hm_simps)

text \<open>A cluster of three memory shards with a replica on each.\<close>

definition mem_refs :: raw_ref_registry where
  "mem_refs = \<lparr>rr_refs = [None, None, None], rr_kinds = [S3Like, Sidecar, Sidecar]\<rparr>"

definition mem_cluster :: "mem sharded" where
  "mem_cluster = (sharded_new 0 [0, 1, 2] 3 (\<lambda>_. []))\<lparr>sh_raw_refs := Some mem_refs\<rparr>"

definition mem_contents :: "mem sharded \<Rightarrow> nat \<Rightarrow> string \<rightharpoonup> byte list" where
  "mem_contents c a k = map_option fst (hm_get (sh_heap c a) k)"

lemma mem_heap_rep: "heap_rep mem_holds c (mem_contents c)"
  by (simp add: heap_rep_def mem_holds_def mem_contents_def fun_eq_iff)

lemma mem_heap_rep_iff: "heap_rep mem_holds c H \<longleftrightarrow> H = mem_contents c"
  by (auto simp: heap_rep_def mem_holds_def mem_contents_def fun_eq_iff)

lemma mem_agrees: "sh_raw_refs c = Some mem_refs \<Longrightarrow> agrees mem_refs c"
  by (auto simp: agrees_def rr_get_def mem_refs_def nth_Cons split: nat.splits if_splits)

lemma mem_sidecar: "meta_sidecar_path mem_ops k = k @ ''.__meta__''"
  by (simp add: meta_sidecar_path_def)

lemma mem_marker_keys: "k \<notin> marker_keys mem_ops k"
proof -
  have "length k < length (so_path mem_ops (delete_marker_key k))"
    "length k < length (meta_sidecar_path mem_ops (so_path mem_ops (delete_marker_key k)))"
    by (simp_all add: delete_marker_key_def DELETE_MARKER_PREFIX_def meta_sidecar_path_def)
  then show ?thesis by (auto simp: marker_keys_def)
qed

end
