(* ===== verification/Copy_Properties.thy ===== *)
theory Copy_Properties
  imports Copy_Ops Memory_Shard
begin

text \<open>
  The properties of copies between keys and shards and of the verification of replicas, with
  witnesses on memory shards.
\<close>

section \<open>Copy and rename\<close>

text \<open>
  C22. A copy within the sharded store that succeeds has read the source from an available shard of its
  entry and stored exactly that object under the target on at least \<open>min_writes\<close> distinct shards,
  which the new catalog entry lists with the object's size and checksum. Whatever happens, nothing
  but the target, its sidecar and its delete marker changes on any shard, and a failed copy leaves
  every entry but that of the source, where a corrupt replica may have been dropped.
\<close>

theorem sharded_copy_places:
  assumes "meta_store D holds M" and "heap_rep holds c H" and "catalog_ok (sh_catalog c)" and "agrees_opt (sh_raw_refs c) c"
    and "copy_fits D M now src dst c" and "meta_sidecar_path D dst \<noteq> dst" and "dst \<notin> marker_keys D dst"
    and "sharded_copy D M now src dst c = (r, c')"
  shows "slots c' = slots c \<and> catalog_ok (sh_catalog c') \<and>
     (\<exists>H'. heap_rep holds c' H' \<and> same_except ({dst, meta_sidecar_path D dst} \<union> marker_keys D dst) H H' \<and>
        (case r of
           Inr _ \<Rightarrow> (\<exists>data e. (\<exists>sid\<in>set (read_candidates c src). stored c H sid src = Some data) \<and>
               catalog_get (sh_catalog c') dst = Some e \<and> pe_size e = length data \<and> pe_crc32c e = Some (so_crc32c D data) \<and>
               distinct (pe_shards e) \<and> pe_shards e \<noteq> [] \<and> sh_min_writes c \<le> length (pe_shards e) \<and>
               (\<forall>sid\<in>set (pe_shards e). stored c' H' sid dst = Some data)) \<and>
             (\<forall>k. k \<noteq> src \<and> k \<noteq> dst \<and> k \<notin> marker_keys D dst \<longrightarrow> catalog_get (sh_catalog c') k = catalog_get (sh_catalog c) k)
         | Inl _ \<Rightarrow> (\<forall>k. k \<noteq> src \<longrightarrow> catalog_get (sh_catalog c') k = catalog_get (sh_catalog c) k)))"
proof -
  note o = meta_store.sharded_copy_spec [OF assms, unfolded meta_store.copy_outcome_def [OF assms(1)] placed_copy_def]
  then have "slots c' = slots c" "sh_min_writes c' = sh_min_writes c" by (simp_all add: frame_def)
  moreover have "{dst, meta_sidecar_path D dst} \<union> marker_keys D dst = insert dst (insert (meta_sidecar_path D dst) (marker_keys D dst))"
    by auto
  ultimately show ?thesis using o by (cases r) auto
qed

text \<open>One object with an attribute on the S3-like memory shard.\<close>

definition mem_one :: "mem sharded" where
  "mem_one = mem_cluster\<lparr>sh_heap := (\<lambda>_. [])(0 := [(''a'', [1, 2, 3], [(Metadata ''k'', ''v'')])]),
     sh_catalog := catalog_put 0 ''a'' [0] 3 None 0 catalog_new\<rparr>"

lemma mem_one_fields [simp]:
  "sh_raw_refs mem_one = Some mem_refs" "\<not> sh_read_only mem_one" "sh_min_writes mem_one = 2" "sh_read_preference mem_one = RoundRobin"
  "sh_replication mem_one = \<lparr>rp_factor = 3\<rparr>"
  "sh_shards mem_one = [new_shard 0 0 (Some 0), new_shard 0 1 (Some 1), new_shard 0 2 (Some 2)]"
  "sh_heap mem_one = (\<lambda>_. [])(0 := [(''a'', [1, 2, 3], [(Metadata ''k'', ''v'')])])"
  "sh_catalog mem_one = catalog_put 0 ''a'' [0] 3 None 0 catalog_new" "\<not> sh_delete_requires_min_writes mem_one"
  by (simp_all add: mem_one_def mem_cluster_def sharded_new_def new_with_offline_def policy_new_def saturating_sub_def numeral_2_eq_2)

lemma mem_one_same: "mem_one\<lparr>sh_heap := (\<lambda>_. [])(0 := [(''a'', [1, 2, 3], [(Metadata ''k'', ''v'')])])\<rparr> = mem_one"
  by (simp add: mem_one_def)

lemma mem_one_ok: "catalog_ok (sh_catalog mem_one)"
proof -
  have "catalog_ok catalog_new" by (simp add: catalog_ok_def catalog_new_def hm_simps)
  then show ?thesis by (simp add: catalog_put_ok)
qed

lemma mem_one_source: "copy_source mem_ops mem_meta now ''a'' mem_one = (Inr ([1, 2, 3], [(Metadata ''k'', ''v'')]), mem_one)"
  by (simp add: copy_source_def read_with_fallback_def is_delete_marker_def DELETE_MARKER_PREFIX_def resolve_shards_def
      balanced_shard_order_def stores_of_def new_shard_def on_slot_def get_with_attrs_def mem_get_def is_unavailable_def mem_one_same)

lemmas mem_eval = new_shard_def is_unavailable_def write_target_def shard_at_def rr_get_def rr_kind_def mem_refs_def catalog_get_def
  catalog_put_def catalog_new_def try_insert_def is_delete_marker_def DELETE_MARKER_PREFIX_def resolve_shards_def
  balanced_shard_order_def stores_of_def on_slot_def on_slot_with_def get_with_attrs_def mem_get_def select_targets_def Let_def

lemma mem_encode: "encode_metadata [(''x-amz-meta-k'', ''v'')] = Inr (TAG_CUSTOM # put_field [107] @ put_field [118])"
  by (simp add: encode_metadata_def encode_entry_def field_name_to_tag_def MAX_FIELD_LEN_def strip_prefix_def as_bytes_def)

definition mem_md :: "byte list" where
  "mem_md = TAG_CUSTOM # put_field [107] @ put_field [118]"

lemma mem_md_len [simp]: "length mem_md = 7" "mem_md \<noteq> []"
  by (simp_all add: mem_md_def put_field_def)

lemma mem_one_meta:
  "read_object_metadata mem_ops mem_meta ''a'' [(Metadata ''k'', ''v'')] mem_one = (mem_md, mem_one)"
  "fst (read_object_metadata mem_ops mem_meta ''a'' [(Metadata ''k'', ''v'')] (mem_one\<lparr>sh_catalog :=
     snd (try_insert now ''b'' ss n (sh_catalog mem_one))\<rparr>)) = mem_md"
  by (simp_all add: read_object_metadata_def sharded_get_metadata_def mem_eval mem_one_same attributes_to_meta_def AMZ_META_def mem_encode flip: mem_md_def)

lemma mem_one_fits: "copy_fits mem_ops mem_meta now ''a'' ''b'' mem_one"
  using mem_one_meta(2) [of now "select_targets mem_ops ''b'' mem_one" 3]
  by (simp add: copy_fits_def mem_one_source mem_one_meta(1) numeral_3_eq_3)

lemma mem_copy_runs: "fst (sharded_copy mem_ops mem_meta 0 ''a'' ''b'' mem_one) = Inr ()"
  by (simp add: sharded_copy_def mem_one_source mem_one_meta sharded_put_with_meta_def try_put_shard_def mark_write_failures_def mem_eval)

theorem sharded_copy_places_witness:
  "\<exists>c' H' e. sharded_copy mem_ops mem_meta 0 ''a'' ''b'' mem_one = (Inr (), c') \<and> heap_rep mem_holds c' H' \<and>
     catalog_get (sh_catalog c') ''b'' = Some e \<and> 2 \<le> length (pe_shards e) \<and>
     (\<forall>sid\<in>set (pe_shards e). stored c' H' sid ''b'' = Some [1, 2, 3])"
proof -
  obtain c' where run: "sharded_copy mem_ops mem_meta 0 ''a'' ''b'' mem_one = (Inr (), c')"
    using mem_copy_runs by (metis prod.collapse)
  have ag: "agrees_opt (sh_raw_refs mem_one) mem_one" by (simp add: agrees_opt_def mem_agrees)
  have side: "meta_sidecar_path mem_ops ''b'' \<noteq> ''b''" by (simp add: mem_sidecar)
  have "stored mem_one (mem_contents mem_one) sid ''a'' = Some data \<Longrightarrow> data = [1, 2, 3]" for sid data
    by (auto simp: stored_def slots_def new_shard_def mem_contents_def nth_Cons split: nat.splits if_splits store_ref.splits)
  then show ?thesis
    using sharded_copy_places [OF mm.meta_store_axioms mem_heap_rep mem_one_ok ag mem_one_fits side mem_marker_keys run] run
    by fastforce
qed

text \<open>
  C24. A rename to a key that is not in the catalog never loses the object: if it does not place the
  object under the new key on at least \<open>min_writes\<close> shards, it fails with the source unchanged on every
  shard. A rename that succeeds found no entry of the target, has placed the object there and left a
  delete marker of the source. Only the two keys, their sidecars and the marker change.
\<close>

theorem sharded_rename_keeps_object:
  assumes "meta_store D holds M" and "heap_rep holds c H" and "catalog_ok (sh_catalog c)" and "agrees_opt (sh_raw_refs c) c"
    and "copy_fits D M now src dst c" and "meta_sidecar_path D dst \<noteq> dst" and "src \<noteq> dst" and "src \<noteq> meta_sidecar_path D dst"
    and "length (so_to_rfc3339 D now) < 2 ^ 63" and "1 \<le> sh_min_writes c"
    and "so_path D (delete_marker_key src) = delete_marker_key src"
    and "\<not> is_delete_marker src" and "src \<notin> marker_keys D src" and "delete_marker_key src \<noteq> meta_sidecar_path D src"
    and "dst \<notin> insert (meta_sidecar_path D src) (marker_keys D src)"
    and "sharded_rename_if_not_exists D M now src dst c = (r, c')"
  shows "slots c' = slots c \<and> catalog_ok (sh_catalog c') \<and> (\<exists>H'. heap_rep holds c' H' \<and>
     same_except ({src, dst, meta_sidecar_path D src, meta_sidecar_path D dst} \<union> marker_keys D src) H H' \<and>
     (\<not> is_ok r \<and> (\<forall>a. H' a src = H a src) \<and> (\<forall>k. k \<noteq> src \<longrightarrow> catalog_get (sh_catalog c') k = catalog_get (sh_catalog c) k) \<or>
      (\<exists>data e. (\<exists>sid\<in>set (read_candidates c src). stored c H sid src = Some data) \<and>
         catalog_get (sh_catalog c') dst = Some e \<and> distinct (pe_shards e) \<and> sh_min_writes c \<le> length (pe_shards e) \<and>
         pe_shards e \<noteq> [] \<and> (\<forall>sid\<in>set (pe_shards e). stored c' H' sid dst = Some data))) \<and>
     (is_ok r \<longrightarrow> catalog_get (sh_catalog c) dst = None \<and>
        (\<exists>e. catalog_get (sh_catalog c') (delete_marker_key src) = Some e \<and> pe_shards e \<noteq> [])))"
proof -
  note o = meta_store.sharded_rename_spec [OF assms]
  then have "slots c' = slots c" and mw: "sh_min_writes c' = sh_min_writes c" by (simp_all add: frame_def)
  with o [unfolded placed_copy_def mw] show ?thesis by blast
qed

lemma mem_rename_runs: "fst (sharded_rename_if_not_exists mem_ops mem_meta 0 ''a'' ''b'' mem_one) = Inr ()"
  apply (simp add: sharded_rename_if_not_exists_def sharded_copy_if_not_exists_def mem_one_source)
  apply (simp add: mem_eval read_object_metadata_def sharded_get_metadata_def attributes_to_meta_def AMZ_META_def mem_encode flip: mem_md_def)
  apply (simp add: sharded_put_with_meta_def try_put_shard_def mark_write_failures_def mem_eval)
  apply (simp add: sharded_delete_def put_delete_marker_def delete_marker_key_def mem_eval mem_sidecar update_catalog_def available_def
      write_to_shards_best_effort_def write_to_shards_inner_def fan_put_def mark_write_failures_def enforce_min_def catalog_put_def)
  apply (simp add: delete_raw_def mem_eval mem_sidecar available_def delete_failed_def cleanup_sidecar_maybe_def cleanup_sidecar_def update_catalog_def)
  done

theorem sharded_rename_keeps_object_witness:
  "\<exists>c' H' e. sharded_rename_if_not_exists mem_ops mem_meta 0 ''a'' ''b'' mem_one = (Inr (), c') \<and> heap_rep mem_holds c' H' \<and>
     catalog_get (sh_catalog c') (delete_marker_key ''a'') = Some e \<and> pe_shards e \<noteq> []"
proof -
  obtain c' where run: "sharded_rename_if_not_exists mem_ops mem_meta 0 ''a'' ''b'' mem_one = (Inr (), c')"
    using mem_rename_runs by (metis prod.collapse)
  have ag: "agrees_opt (sh_raw_refs mem_one) mem_one" by (simp add: agrees_opt_def mem_agrees)
  have keys: "meta_sidecar_path mem_ops ''b'' \<noteq> ''b''" "''a'' \<noteq> (''b'' :: string)" "''a'' \<noteq> meta_sidecar_path mem_ops ''b''"
    "length (so_to_rfc3339 mem_ops 0) < 2 ^ 63" "1 \<le> sh_min_writes mem_one"
    "so_path mem_ops (delete_marker_key ''a'') = delete_marker_key ''a''" "\<not> is_delete_marker ''a''"
    "delete_marker_key ''a'' \<noteq> meta_sidecar_path mem_ops ''a''"
    "''b'' \<notin> insert (meta_sidecar_path mem_ops ''a'') (marker_keys mem_ops ''a'')"
    by (simp_all add: mem_sidecar delete_marker_key_def is_delete_marker_def DELETE_MARKER_PREFIX_def marker_keys_def)
  from sharded_rename_keeps_object [OF mm.meta_store_axioms mem_heap_rep mem_one_ok ag mem_one_fits keys(1-7) mem_marker_keys keys(8,9) run] run
  show ?thesis by fastforce
qed

section \<open>Replication of an object\<close>

text \<open>
  Replicating an object to another shard leaves, when it reports success, exactly the object of the
  source shard on the target, lists the target among the shards of the key and returns the size of
  the object; when it fails the catalog is unchanged. No other key changes on any shard, and under the
  key every store has what it had or the object of the source.
\<close>

lemma replicate_object_copies:
  assumes "meta_store D holds M" and "heap_rep holds c H" and "catalog_ok (sh_catalog c)" and "agrees_opt raw_refs c"
    and "fits_buffer D M raw_refs (so_path D key) (src, slots c ! src) c"
    and "meta_sidecar_path D (so_path D key) \<noteq> so_path D key"
    and "replicate_object D M now key src dst raw_refs c = (r, c')"
  shows "slots c' = slots c \<and> catalog_ok (sh_catalog c') \<and>
    (\<exists>H'. heap_rep holds c' H' \<and> same_except {so_path D key, meta_sidecar_path D (so_path D key)} H H' \<and>
      (\<forall>a. H' a (so_path D key) = H a (so_path D key) \<or> H' a (so_path D key) = stored c H src (so_path D key)) \<and>
      (case r of
         Inr sz \<Rightarrow> \<exists>data. stored c H src (so_path D key) = Some data \<and> sz = length data \<and>
           stored c' H' dst (so_path D key) = Some data \<and>
           holders (sh_catalog c') = (holders (sh_catalog c))(key := insert dst (holders (sh_catalog c) key))
       | Inl _ \<Rightarrow> sh_catalog c' = sh_catalog c))"
proof -
  from meta_store.replicate_object_spec [OF assms(1,2,4-7)] obtain H' where o: "frame c c'" "heap_rep holds c' H'"
    "same_except {so_path D key, meta_sidecar_path D (so_path D key)} H H'"
    "\<forall>a. H' a (so_path D key) = H a (so_path D key) \<or>
        stored c H src (so_path D key) \<noteq> None \<and> H' a (so_path D key) = stored c H src (so_path D key)"
    "\<forall>a k. k \<noteq> so_path D key \<longrightarrow> H' a k = H a k \<or> (\<exists>data. stored c H src (so_path D key) = Some data \<and> beside data (H' a k))"
    "case r of Inr sz \<Rightarrow> \<exists>data ml. stored c H src (so_path D key) = Some data \<and> sz = length data \<and>
           stored c H' dst (so_path D key) = Some data \<and> sh_catalog c' = add_replica now key dst sz ml (sh_catalog c)
       | Inl _ \<Rightarrow> sh_catalog c' = sh_catalog c" by blast
  have "slots c' = slots c" using o(1) by (simp add: frame_def)
  moreover have "catalog_ok (sh_catalog c')" using o(6) assms(3) add_replica_ok(1) by (auto split: sum.splits)
  ultimately show ?thesis using o(2-4,6) add_replica_ok(2) [OF assms(3)] stored_frame [OF o(1)]
    by (intro conjI exI [of _ H']) (auto split: sum.splits)
qed

lemma mem_replicate_runs: "fst (replicate_object mem_ops mem_meta 0 ''a'' 0 2 (Some mem_refs) mem_one) = Inr 3"
  by (simp add: replicate_object_def copy_to_shard_def read_metadata_from_shard_def write_with_meta_to_shard_def mem_eval
      attributes_to_meta_def AMZ_META_def mem_encode nonempty_def mem_sidecar flip: mem_md_def)

section \<open>Verification of the cluster\<close>

text \<open>
  C25. The verification of the cluster checks every key of the catalog with the prefix and changes no
  object. Each object's report has one result per shard of its entry: either an error, or the checksum
  and size of the object that the shard has and whether the checksum is the one of the catalog; it calls
  the replicas consistent exactly when all readable checksums agree. The objects counted as good are
  those whose replicas were all read, agree and match the catalog; all others are in the details.
\<close>

theorem cluster_verify_exact:
  assumes "shard_store D holds" and "heap_rep holds c H" and "sharded_verify_all D pfx c = (rpt, c')"
  shows "heap_rep holds c' H \<and> sh_catalog c' = sh_catalog c \<and>
    (\<exists>vs. map vo_key vs = filter (\<lambda>k. case pfx of Some p \<Rightarrow> prefix p k | None \<Rightarrow> True) (map fst (ct_entries (sh_catalog c))) \<and>
      va_objects_checked rpt = length vs \<and> va_objects_ok rpt = length (filter clean_report vs) \<and>
      va_details rpt = filter (\<lambda>v. \<not> clean_report v) vs \<and>
      va_objects_ok rpt + va_objects_mismatched rpt + va_objects_with_errors rpt = va_objects_checked rpt \<and>
      (\<forall>v\<in>set vs. \<exists>e. catalog_get (sh_catalog c) (vo_key v) = Some e \<and>
         map vr_shard_id (vo_replicas v) = filter (\<lambda>sid. sid < length (sh_shards c)) (pe_shards e) \<and>
         (\<forall>x\<in>set (vo_replicas v). case vr_error x of
            None \<Rightarrow> \<exists>d. stored c H (vr_shard_id x) (so_path D (vo_key v)) = Some d \<and> vr_crc32c x = Some (so_crc32c D d) \<and>
              vr_size x = Some (length d) \<and> vr_matches_catalog x = map_option (\<lambda>y. y = so_crc32c D d) (pe_crc32c e)
          | Some _ \<Rightarrow> vr_crc32c x = None \<and> vr_size x = None \<and> vr_matches_catalog x = None) \<and>
         (vo_replicas_consistent v \<longleftrightarrow> (\<forall>x\<in>set (vo_replicas v). \<forall>y\<in>set (vo_replicas v).
            vr_crc32c x \<noteq> None \<and> vr_crc32c y \<noteq> None \<longrightarrow> vr_crc32c x = vr_crc32c y))))"
proof -
  let ?keys = "filter (\<lambda>k. case pfx of Some p \<Rightarrow> prefix p k | None \<Rightarrow> True) (map fst (ct_entries (sh_catalog c)))"
  let ?r0 = "\<lparr>va_objects_checked = 0, va_objects_ok = 0, va_objects_mismatched = 0, va_objects_with_errors = 0, va_details = []\<rparr>"
  have keys: "\<forall>k\<in>set ?keys. catalog_get (sh_catalog c) k \<noteq> None"
    by (auto simp: catalog_get_def map_of_eq_None_iff image_iff)
  from shard_store.verify_loop_spec [OF assms(1,2) keys assms(3) [unfolded sharded_verify_all_def]] obtain vs where
    o: "heap_only c c'" "heap_rep holds c' H" "map vo_key vs = ?keys" "\<forall>v\<in>set vs. shard_store.true_report D c H v"
    "rpt = fold (\<lambda>v. tally (Inr v :: 'b shard_error + _)) vs ?r0" by blast
  note t = fold_tally [of vs ?r0, folded o(5)]
  have "length vs = length (filter clean_report vs) + length (filter (\<lambda>v. \<not> clean_report v) vs)"
    by (simp add: sum_length_filter_compl)
  with t have "va_objects_ok rpt + va_objects_mismatched rpt + va_objects_with_errors rpt = va_objects_checked rpt"
    by (simp add: Let_def)
  moreover have "va_objects_checked rpt = length vs" "va_objects_ok rpt = length (filter clean_report vs)"
    "va_details rpt = filter (\<lambda>v. \<not> clean_report v) vs" using t by simp_all
  moreover note o(4) [unfolded shard_store.true_report_def [OF assms(1)] replica_verdict_def]
  ultimately show ?thesis using o(2,3) heap_only_keeps [OF o(1)] by (intro conjI exI [of _ vs]) (assumption | simp | blast)+
qed

theorem cluster_verify_exact_witness:
  "\<exists>rpt c'. sharded_verify_all mem_ops None mem_one = (rpt, c') \<and> heap_rep mem_holds c' (mem_contents mem_one) \<and>
     va_objects_checked rpt = 1 \<and> va_objects_ok rpt = 1"
proof -
  obtain rpt c' where run: "sharded_verify_all mem_ops None mem_one = (rpt, c')" by fastforce
  have "va_objects_ok rpt = 1" "va_objects_checked rpt = 1"
    using run by (auto simp: sharded_verify_all_def verify_object_def tally_def verify_replica_def mem_eval map_filter_def)
  with cluster_verify_exact [OF ms.shard_store_axioms mem_heap_rep run] run show ?thesis by blast
qed

end
