(* ===== verification/Repair_Properties.thy ===== *)
theory Repair_Properties
  imports Repair_Ops Copy_Properties
begin

text \<open>
  The properties of the repair sweeps, with witnesses on memory shards, and a redistribution that
  never ends.
\<close>

section \<open>The repair sweep\<close>

text \<open>
  The loops of the repair sweep end whatever the shards answer: every copy that succeeds adds a
  shard to the entry that was a healthy shard without the object before, and every removal that
  succeeds takes one from the entry, so the sweep always returns, and so does the drain of a shard
  that runs it last.
\<close>

lemma repair_sweep_ends:
  "(\<exists>result c'. repair_replication_sweep D M now batch_size raw_refs c = Some (result, c')) \<and>
   (\<exists>rpt cs'. drain_shard D M now victim victim_store raw_refs cs = Some (rpt, cs'))"
proof -
  note sweep = repair_sweep_returns
  obtain listed cs1 where 1: "on_cluster (on_slot (so_list D) victim_store) cs = (listed, cs1)" by (metis surj_pair)
  obtain rpt safe c2 s2 where 2: "drain_loop D M now victim victim_store raw_refs
      (filter (\<lambda>k. \<not> is_meta_key k) (map om_location (case listed of Inr xs \<Rightarrow> xs | Inl _ \<Rightarrow> [])))
      (\<lparr>dr_moved = 0, dr_skipped = 0, dr_errors = 0, dr_deleted = 0, dr_delete_errors = 0, dr_re_replicated = 0, dr_under_remaining = 0\<rparr>, []) cs1 =
      ((rpt, safe), (c2, s2))" by (metis surj_pair)
  obtain rpt1 c3 where 3: "drain_delete_loop D victim victim_store raw_refs safe rpt
      (update_catalog (\<lambda>cat. snd (remove_all_for_shard victim cat)) c2) = (rpt1, c3)" by fastforce
  obtain result c4 where 4: "repair_replication_sweep D M now u64_max raw_refs c3 = Some (result, c4)" using sweep by blast
  have "\<exists>rpt cs'. drain_shard D M now victim victim_store raw_refs cs = Some (rpt, cs')"
    by (simp add: drain_shard_def 1 2 3 4)
  with sweep show ?thesis by blast
qed

text \<open>
  C26. The repair sweep is safe, with or without a registry of raw stores: if every healthy shard that the
  catalog lists for a key has the key's object, this is so afterwards, with the same objects; no key that had
  healthy replicas ends with fewer than it had or than the replication factor asks for, whichever copies and
  removals fail. Listed shards that are not healthy are not looked at. The registry's stores are those of the
  slots, and no shard keeps \<open>2 ^ 62\<close> bytes of metadata or more with an object.
\<close>

theorem repair_sweep_safe:
  assumes "meta_store D holds M" and "heap_rep holds c H" and "replicas_ok D c H obj" and "agrees_opt raw_refs c"
    and "small_metadata holds M" and "repair_replication_sweep D M now batch_size raw_refs c = Some (result, c')"
  shows "slots c' = slots c \<and>
    (\<forall>k. min (rp_factor (sh_replication c)) (card {sid \<in> holders (sh_catalog c) k. shard_has (\<lambda>h. h = Healthy) c sid})
       \<le> card {sid \<in> holders (sh_catalog c') k. shard_has (\<lambda>h. h = Healthy) c' sid}) \<and>
    (\<exists>H'. heap_rep holds c' H' \<and> replicas_ok D c' H' obj)"
proof -
  from assms(6) obtain n1 c1 n2 where
    1: "sweep_keys (repair_key D M now raw_refs) (map fst (take batch_size (find_under_replicated c))) 0 c = Some (n1, c1)"
    and 2: "sweep_keys (trim_key D) (map fst (take batch_size (find_over_replicated c1))) 0 c1 = Some (n2, c')"
    by (auto simp: repair_replication_sweep_def bind_eq_Some_conv)
  have ag: "agrees_opt raw_refs d" if "frame c d" for d
    using assms(4) agrees_cong [OF that] by (simp add: agrees_opt_def split: option.splits)
  have k1: "meta_store.sweep_keeps D holds obj c c1"
    by (rule meta_store.sweep_keys_keeps [OF assms(1) _ assms(2,3) 1])
      (use meta_store.repair_key_keeps [OF assms(1) _ _ _ assms(5)] ag in blast)
  then obtain H1 where H1: "heap_rep holds c1 H1" "replicas_ok D c1 H1 obj"
    unfolding meta_store.sweep_keeps_def [OF assms(1)] by blast
  have "meta_store.sweep_keeps D holds obj c1 c'"
    by (rule meta_store.sweep_keys_keeps [OF assms(1) _ H1 2]) (use meta_store.trim_key_keeps [OF assms(1)] in blast)
  from meta_store.sweep_keeps_trans [OF assms(1) k1 this] show ?thesis
    unfolding meta_store.sweep_keeps_def [OF assms(1)] live_def frame_def by blast
qed

text \<open>A memory shard that refuses, as S3 does, attributes whose encoding has more than 2 KiB.\<close>

definition attrs_fit :: "attributes \<Rightarrow> bool" where
  "attrs_fit ats \<longleftrightarrow> (case encode_metadata (attributes_to_meta ats) of Inr b \<Rightarrow> length b \<le> 2048 | Inl _ \<Rightarrow> True)"

definition limit_meta :: "(mem, string) meta_api" where
  "limit_meta = mem_meta\<lparr>ma_put_attrs :=
     \<lambda>now k d ats s. if attrs_fit ats then (Inr (), hm_insert k (d, ats) s) else (Inl ''MetadataTooLarge'', s)\<rparr>"

definition limit_holds :: "mem \<Rightarrow> (string \<rightharpoonup> byte list) \<Rightarrow> bool" where
  "limit_holds s A \<longleftrightarrow> mem_holds s A \<and> (\<forall>k. attrs_fit (ma_attributes mem_meta k s))"

lemma attrs_fit_Nil: "attrs_fit []"
  by (simp add: attrs_fit_def attributes_to_meta_def encode_metadata_def)

interpretation lm: meta_store mem_ops limit_holds limit_meta
  by unfold_locales
    (auto simp: limit_holds_def limit_meta_def mem_ops_def mem_holds_def mem_get_def fun_eq_iff hm_simps attrs_fit_Nil mem_meta_def
      split: option.splits if_splits)

lemma limit_small: "small_metadata limit_holds limit_meta"
proof -
  have "length b < 2 ^ 62" if "limit_holds s A" "encode_metadata (attributes_to_meta (ma_attributes limit_meta k s)) = Inr b" for s A k b
  proof -
    have "attrs_fit (ma_attributes mem_meta k s)" using that(1) unfolding limit_holds_def by blast
    then show ?thesis using that(2) by (simp add: attrs_fit_def limit_meta_def)
  qed
  then show ?thesis unfolding small_metadata_def by (simp add: limit_meta_def mem_meta_def)
qed

lemma limit_mem_one: "heap_rep limit_holds mem_one (mem_contents mem_one)"
proof -
  have "attrs_fit [(Metadata ''k'', ''v'')]"
    by (simp add: attrs_fit_def attributes_to_meta_def AMZ_META_def mem_encode put_field_def)
  then have "\<forall>k. attrs_fit (ma_attributes mem_meta k (sh_heap mem_one a))" for a
    by (auto simp: attrs_fit_Nil hm_simps split: if_splits)
  with mem_heap_rep [of mem_one] show ?thesis by (simp add: heap_rep_def limit_holds_def)
qed

theorem repair_sweep_safe_witness:
  "\<exists>result c' H'. repair_replication_sweep mem_ops limit_meta 0 10 (Some mem_refs) mem_one = Some (result, c') \<and>
     heap_rep limit_holds c' H' \<and> replicas_ok mem_ops c' H' (\<lambda>_. [1, 2, 3])"
proof -
  obtain result c' where run: "repair_replication_sweep mem_ops limit_meta 0 10 (Some mem_refs) mem_one = Some (result, c')"
    using repair_sweep_returns by blast
  have h: "holders (sh_catalog mem_one) = (\<lambda>k. if k = ''a'' then {0} else {})"
    by (auto simp: fun_eq_iff holders_def)
  have inv: "replicas_ok mem_ops mem_one (mem_contents mem_one) (\<lambda>_. [1, 2, 3])"
    unfolding replicas_ok_def live_def h
    using mem_one_ok
    by (auto simp: mem_sidecar slots_def new_shard_def nth_Cons stored_def mem_contents_def beside_def split: nat.splits if_splits)
  have "agrees_opt (Some mem_refs) mem_one" by (simp add: agrees_opt_def mem_agrees)
  from repair_sweep_safe [OF lm.meta_store_axioms limit_mem_one inv this limit_small run] run show ?thesis by auto
qed

section \<open>A redistribution that does not end\<close>

text \<open>
  When the first candidate of the fullest shard cannot be copied and the failure leaves the state as
  it was, the loop of \<open>redistribute_sweep\<close> counts an error, finds the same candidate again and never
  returns; the bound on the number of moved objects does not count errors.
\<close>

lemma redistribute_diverges:
  assumes "moved < batch_size" and "sort_key (\<lambda>(_, n). - int n) counts = counts"
    and "\<not> balanced mean tolerance_pct (snd (hd counts)) (snd (last counts))" and "\<not> snd (hd counts) \<le> snd (last counts) + 1"
    and "try_move D M now raw_refs rf healthy_set (fst (hd counts)) (fst (last counts))
      (entries_for_shard (fst (hd counts)) (sh_catalog c)) c = (Some MvError, c)"
  shows "redistribute_loop D M now raw_refs rf batch_size tolerance_pct mean healthy_set result counts moved c = None"
proof -
  have "\<not> (D' = D \<and> M' = M \<and> now' = now \<and> rr' = raw_refs \<and> rf' = rf \<and> bs' = batch_size \<and> t' = tolerance_pct \<and> mean' = mean \<and>
      hs' = healthy_set \<and> counts' = counts \<and> moved' = moved \<and> c' = c)"
    if "redistribute_loop D' M' now' rr' rf' bs' t' mean' hs' result' counts' moved' c' = Some y"
    for D' M' now' rr' rf' bs' t' mean' hs' result' counts' moved' c' y
    apply (rule redistribute_loop.raw_induct [OF _ that])
    subgoal premises p
      using p(2) assms by (auto simp: Let_def split: prod.splits dest!: p(1))
    done
  then show ?thesis by (metis not_None_eq)
qed

text \<open>A shard without room: two objects on the first shard, a second shard that refuses every write.\<close>

definition full_ops :: "(mem, string) store_ops" where
  "full_ops = mem_ops\<lparr>so_put := \<lambda>now k d s. (Inl ''NoSpace'', s)\<rparr>"

definition two_on_one :: "mem sharded" where
  "two_on_one = (sharded_new 0 [0, 1] 1 ((\<lambda>_. [])(0 := [(''a'', [1], []), (''b'', [2], [])])))\<lparr>sh_catalog :=
     \<lparr>ct_entries = [(''a'', \<lparr>pe_shards = [0], pe_size = 1, pe_crc32c = None, pe_updated = 0, pe_meta_len = 0\<rparr>),
       (''b'', \<lparr>pe_shards = [0], pe_size = 1, pe_crc32c = None, pe_updated = 0, pe_meta_len = 0\<rparr>)], ct_dirty = True\<rparr>\<rparr>"

lemma full_fields: "so_path full_ops = id" "so_get full_ops = mem_get" "so_put full_ops now k d s = (Inl ''NoSpace'', s)"
  by (simp_all add: full_ops_def)

lemma two_on_one_fields:
  "sh_shards two_on_one = [new_shard 0 0 (Some 0), new_shard 0 1 (Some 1)]" "sh_replication two_on_one = \<lparr>rp_factor = 1\<rparr>"
  "sh_heap two_on_one = (\<lambda>_. [])(0 := [(''a'', [1], []), (''b'', [2], [])])"
  "sh_catalog two_on_one = \<lparr>ct_entries = [(''a'', \<lparr>pe_shards = [0], pe_size = 1, pe_crc32c = None, pe_updated = 0, pe_meta_len = 0\<rparr>),
       (''b'', \<lparr>pe_shards = [0], pe_size = 1, pe_crc32c = None, pe_updated = 0, pe_meta_len = 0\<rparr>)], ct_dirty = True\<rparr>"
  "two_on_one\<lparr>sh_heap := sh_heap two_on_one\<rparr> = two_on_one"
  by (simp_all add: two_on_one_def sharded_new_def new_with_offline_def policy_new_def saturating_sub_def)

lemma redistribute_never_returns: "redistribute_sweep full_ops mem_meta 0 10 0 None two_on_one = None"
proof -
  have counts: "shard_object_counts two_on_one = [(0, 2), (1, 0)]"
    by (simp add: shard_object_counts_def two_on_one_fields new_shard_def bump_def)
  have under: "find_under_replicated two_on_one = []"
    by (simp add: find_under_replicated_def two_on_one_fields new_shard_def shard_has_def shard_at_def map_filter_simps)
  have two: "f64_of_nat 2 = 2" by (simp add: f64_of_nat_def f64_round_def bit_len.simps round_half_even_def)
  have mean: "f64_div 2 2 = 1" by (simp add: f64_div_def f64_round_def bit_len.simps round_half_even_def)
  have half: "f64_div 2 1 = 2" by (simp add: f64_div_def f64_round_def bit_len.simps round_half_even_def)
  have nb: "\<not> balanced 1 0 2 0" by (simp add: balanced_def two half)
  have move: "try_move full_ops mem_meta 0 None 1 {0, 1} 0 1 (entries_for_shard 0 (sh_catalog two_on_one)) two_on_one = (Some MvError, two_on_one)"
    by (simp add: entries_for_shard_def two_on_one_fields(1-4) replicate_object_def copy_to_shard_def on_slot_def get_with_attrs_def
        mem_get_def full_fields on_slot_with_def new_shard_def)
  have "redistribute_loop full_ops mem_meta 0 None 1 10 0 1 {0, 1} result [(0, 2), (1, 0)] 0 two_on_one = None" for result
    by (rule redistribute_diverges) (use nb move in simp_all)
  moreover have "f64_of_nat (Suc (Suc 0)) = 2" using two by (simp add: numeral_2_eq_2)
  ultimately show ?thesis
    by (simp add: redistribute_sweep_def counts under two mean nb two_on_one_fields(2) Let_def)
qed

section \<open>A drain that deletes the last copy\<close>

text \<open>
  The drain takes an object for safe when the catalog lists any other shard for it, also one that is
  offline. Here the second shard is offline: the drain deletes the object from the victim, and no
  store has it any more.
\<close>

definition offline_mirror :: "mem sharded" where
  "offline_mirror = (new_with_offline 0 [Some 0, None] 1 ((\<lambda>_. [])(0 := [(''a'', [1], [])])))\<lparr>sh_catalog :=
     \<lparr>ct_entries = [(''a'', \<lparr>pe_shards = [0, 1], pe_size = 1, pe_crc32c = None, pe_updated = 0, pe_meta_len = 0\<rparr>)], ct_dirty = True\<rparr>\<rparr>"

lemma offline_mirror_fields:
  "sh_shards offline_mirror = [new_shard 0 0 (Some 0), new_shard 0 1 None]" "sh_replication offline_mirror = \<lparr>rp_factor = 1\<rparr>"
  "sh_heap offline_mirror = (\<lambda>_. [])(0 := [(''a'', [1], [])])"
  "sh_catalog offline_mirror = \<lparr>ct_entries = [(''a'', \<lparr>pe_shards = [0, 1], pe_size = 1, pe_crc32c = None, pe_updated = 0, pe_meta_len = 0\<rparr>)], ct_dirty = True\<rparr>"
  by (simp_all add: offline_mirror_def new_with_offline_def policy_new_def)

lemma drain_deletes_last_copy:
  "\<exists>rpt c'. drain_shard mem_ops mem_meta 0 0 (StoreAt 0) None (offline_mirror, None) = Some (rpt, c', None) \<and>
     dr_skipped rpt = 1 \<and> dr_deleted rpt = 1 \<and> dr_errors rpt = 0 \<and> (\<forall>a. hm_get (sh_heap c' a) ''a'' = None)"
proof -
  define c1 where "c1 = offline_mirror\<lparr>sh_heap := (\<lambda>_. [])(0 := []),
    sh_catalog := \<lparr>ct_entries = [(''a'', \<lparr>pe_shards = [1], pe_size = 1, pe_crc32c = None, pe_updated = 0, pe_meta_len = 0\<rparr>)], ct_dirty = True\<rparr>\<rparr>"
  note facts = offline_mirror_fields new_shard_def shard_has_def shard_at_def
  have under: "find_under_replicated c1 = [(''a'', 0)]" by (simp add: c1_def find_under_replicated_def facts map_filter_simps)
  have over: "find_over_replicated c1 = []" by (simp add: c1_def find_over_replicated_def facts map_filter_simps is_unavailable_def)
  have key: "repair_key mem_ops mem_meta 0 None ''a'' 0 c1 = Some (0, c1)"
    by (subst repair_key.simps) (simp add: c1_def facts catalog_get_def)
  have sweep: "repair_replication_sweep mem_ops mem_meta 0 u64_max None c1 =
      Some (\<lparr>rx_re_replicated = 0, rx_trimmed = 0, rx_under_remaining = 1, rx_over_remaining = 0\<rparr>, c1)"
    by (simp add: repair_replication_sweep_def under over key u64_max_def)
  have nm: "\<not> is_meta_key ''a''" by (auto simp: is_meta_key_def suffix_def dest!: arg_cong [where f = length])
  have list: "on_cluster (on_slot (so_list mem_ops) (StoreAt 0)) (offline_mirror, None) =
      (Inr [\<lparr>om_location = ''a'', om_last_modified = 0, om_size = 1\<rparr>], offline_mirror, None)"
    by (simp add: on_cluster_def on_slot_def facts(3) mem_meta_of_def)
  have skip: "drain_object mem_ops mem_meta 0 0 (StoreAt 0) None ''a'' (offline_mirror, None) = (Skipped, offline_mirror, None)"
    by (simp add: drain_object_def facts catalog_get_def)
  have purge: "update_catalog (\<lambda>cat. snd (remove_all_for_shard 0 cat)) offline_mirror = c1\<lparr>sh_heap := sh_heap offline_mirror\<rparr>"
    by (simp add: c1_def update_catalog_def facts remove_all_for_shard_def strip_shard_def Let_def)
  have del: "drain_delete_loop mem_ops 0 (StoreAt 0) None [''a''] rpt (c1\<lparr>sh_heap := sh_heap offline_mirror\<rparr>) =
      (rpt\<lparr>dr_deleted := dr_deleted rpt + 1\<rparr>, c1)" for rpt
    by (simp add: c1_def on_slot_def facts cleanup_sidecar_maybe_def)
  have "hm_get (sh_heap c1 a) ''a'' = None" for a by (simp add: c1_def)
  then show ?thesis by (simp add: drain_shard_def list nm skip purge del sweep Let_def del: drain_delete_loop.simps)
qed

end
