(* ===== verification/Recovery_Loop.thy ===== *)
theory Recovery_Loop
  imports Cluster_Repair
begin

text \<open>
  The background tasks of the server (\<open>objstrd/src/recovery.rs\<close>): the recovery loop that probes every
  shard, detaches unreachable ones and re-attaches those that are reachable again, and the periodic
  repair of the replication. One tick of the timer is one cycle; what the cycle finds outside the
  program (the clock, the device paths, whether a probe is answered in time, whether an
  administrative operation runs) is a record. Log messages are dropped; \<open>None\<close> is a panic of the task
  (a failure count out of range, a timer with a period of zero, a slot of kind \<open>Raw\<close> without a raw reference
  whose metadata is read) or a cycle that does not end. The stores themselves are taken not to panic.
\<close>

section \<open>Configuration and status\<close>

record recovery_config =
  rc_enabled :: bool
  rc_poll_interval_secs :: nat
  rc_probe_timeout_secs :: nat
  rc_failure_threshold :: nat
  rc_re_replicate_batch_size :: nat
  rc_repair_replication_interval_secs :: nat
  rc_repair_replication_batch_size :: nat

definition recovery_config_default :: recovery_config where
  "recovery_config_default = \<lparr>rc_enabled = True, rc_poll_interval_secs = 10, rc_probe_timeout_secs = 5,
     rc_failure_threshold = 3, rc_re_replicate_batch_size = 100, rc_repair_replication_interval_secs = 0,
     rc_repair_replication_batch_size = 500\<rparr>"

text \<open>\<open>RecoveryStatus\<close>; its snapshot of the configuration never changes and is left out. Times are RFC 3339 texts.\<close>

record recovery_status =
  rv_total_re_replicated :: nat
  rv_last_sweep_count :: nat
  rv_under_replicated_count :: nat
  rv_over_replicated_count :: nat
  rv_total_trimmed :: nat
  rv_last_trim_count :: nat
  rv_last_poll_at :: "byte list option"
  rv_last_sweep_at :: "byte list option"
  rv_poll_cycles :: nat

definition recovery_status_new :: recovery_status where
  "recovery_status_new = \<lparr>rv_total_re_replicated = 0, rv_last_sweep_count = 0, rv_under_replicated_count = 0,
     rv_over_replicated_count = 0, rv_total_trimmed = 0, rv_last_trim_count = 0, rv_last_poll_at = None,
     rv_last_sweep_at = None, rv_poll_cycles = 0\<rparr>"

text \<open>What one cycle observes. \<open>tk_answers sid\<close>: the first item of the listing, or its end, arrives before the timeout.\<close>

record tick =
  tk_now :: int
  tk_exists :: "nat \<Rightarrow> string \<Rightarrow> bool"
  tk_answers :: "nat \<Rightarrow> bool"
  tk_admin_op :: bool

text \<open>What the loop keeps between cycles.\<close>

record 's recovery_state =
  rl_fail_counts :: "nat list"
  rl_status :: recovery_status
  rl_cluster :: "'s sharded"

definition recovery_start :: "store_ref option list \<Rightarrow> 's sharded \<Rightarrow> 's recovery_state" where
  "recovery_start originals c =
     \<lparr>rl_fail_counts = replicate (length originals) 0, rl_status = recovery_status_new, rl_cluster = c\<rparr>"

section \<open>One shard\<close>

text \<open>The placeholder of a detached slot answers every listing with an error.\<close>

definition probe_store :: "bool \<Rightarrow> store_ref \<Rightarrow> bool" where
  "probe_store answers store = (case store of Placeholder _ \<Rightarrow> False | StoreAt _ \<Rightarrow> answers)"

text \<open>\<open>fail_counts[shard_id] = n\<close>.\<close>

definition set_count :: "nat \<Rightarrow> nat \<Rightarrow> nat list \<Rightarrow> nat list option" where
  "set_count sid n counts = (if sid < length counts then Some (counts[sid := n]) else None)"

definition device_missing :: "tick \<Rightarrow> string option list \<Rightarrow> nat \<Rightarrow> bool" where
  "device_missing t device_paths sid =
     (sid < length device_paths \<and> (case device_paths ! sid of Some path \<Rightarrow> \<not> tk_exists t sid path | None \<Rightarrow> False))"

definition detach_for :: "int \<Rightarrow> nat \<Rightarrow> detach_reason \<Rightarrow> 's sharded \<Rightarrow> 's sharded" where
  "detach_for now sid reason c = set_detach_reason sid reason (snd (detach_shard now sid c))"

definition poll_shard ::
  "('s, 'e) store_ops \<Rightarrow> ('s, 'e) meta_api \<Rightarrow> recovery_config \<Rightarrow> tick \<Rightarrow> store_ref option list \<Rightarrow> string option list \<Rightarrow>
     raw_ref_registry option \<Rightarrow> nat \<Rightarrow> nat list \<times> 's sharded \<Rightarrow> (nat list \<times> 's sharded) option" where
  "poll_shard D M cfg t originals device_paths raw_refs sid st =
     (case st of (counts, c) \<Rightarrow>
        (case shard_at c sid of
           None \<Rightarrow> Some (counts, c)
         | Some s \<Rightarrow>
             (if (si_health s = Healthy \<or> si_health s = Degraded) \<and> device_missing t device_paths sid then
                map_option (\<lambda>counts'. (counts', detach_for (tk_now t) sid DeviceMissing c)) (set_count sid 0 counts)
              else
                (case si_health s of
                   Offline \<Rightarrow>
                     (if device_missing t device_paths sid then Some (counts, c)
                      else case original_store originals sid of
                        None \<Rightarrow> Some (counts, c)
                      | Some original \<Rightarrow>
                          (if probe_store (tk_answers t sid) original
                           then map_option (\<lambda>c'. (counts, c')) (sync_and_reattach D M (tk_now t) originals sid raw_refs c)
                           else Some (counts, c)))
                 | Detached \<Rightarrow> Some (counts, c)
                 | Syncing \<Rightarrow> Some (counts, c)
                 | _ \<Rightarrow>
                     (if probe_store (tk_answers t sid) (si_store s) then map_option (\<lambda>counts'. (counts', c)) (set_count sid 0 counts)
                      else Option.bind (set_count sid (counts ! sid + 1) counts) (\<lambda>counts1.
                        if counts1 ! sid \<ge> rc_failure_threshold cfg
                        then map_option (\<lambda>counts'. (counts', detach_for (tk_now t) sid ProbeFailure c)) (set_count sid 0 counts1)
                        else Some (counts1, c)))))))"

fun poll_shards ::
  "('s, 'e) store_ops \<Rightarrow> ('s, 'e) meta_api \<Rightarrow> recovery_config \<Rightarrow> tick \<Rightarrow> store_ref option list \<Rightarrow> string option list \<Rightarrow>
     raw_ref_registry option \<Rightarrow> nat list \<Rightarrow> nat list \<times> 's sharded \<Rightarrow> (nat list \<times> 's sharded) option" where
  "poll_shards D M cfg t originals device_paths raw_refs [] st = Some st"
| "poll_shards D M cfg t originals device_paths raw_refs (sid # sids) st =
     Option.bind (poll_shard D M cfg t originals device_paths raw_refs sid st)
       (poll_shards D M cfg t originals device_paths raw_refs sids)"

section \<open>One cycle\<close>

text \<open>The sweeps of a cycle, which an administrative operation suspends: copies made and excess replicas removed.\<close>

definition cycle_sweeps ::
  "('s, 'e) store_ops \<Rightarrow> ('s, 'e) meta_api \<Rightarrow> recovery_config \<Rightarrow> tick \<Rightarrow> raw_ref_registry option \<Rightarrow> 's sharded \<Rightarrow>
     (nat \<times> nat) \<times> 's sharded" where
  "cycle_sweeps D M cfg t raw_refs c =
     (if tk_admin_op t then ((0, 0), c)
      else
        (case re_replication_sweep D M (tk_now t) (rc_re_replicate_batch_size cfg) raw_refs c of (sweep_count, c1) \<Rightarrow>
          (case (if sweep_count = 0
             then re_replication_loop D M (tk_now t) raw_refs (take (rc_re_replicate_batch_size cfg) (find_under_replicated c1)) 0 c1
             else (0, c1)) of (under_repair_count, c2) \<Rightarrow>
            (case over_replication_trim D (rc_re_replicate_batch_size cfg) c2 of (trim_count, c3) \<Rightarrow>
              ((sweep_count + under_repair_count, trim_count), c3)))))"

definition update_status ::
  "('s, 'e) store_ops \<Rightarrow> tick \<Rightarrow> nat \<Rightarrow> nat \<Rightarrow> 's sharded \<Rightarrow> recovery_status \<Rightarrow> recovery_status" where
  "update_status D t total_replicated trim_count c st =
     (let now_str = so_to_rfc3339 D (tk_now t);
          st1 = st\<lparr>rv_poll_cycles := uadd (rv_poll_cycles st) 1, rv_last_poll_at := Some now_str,
                   rv_under_replicated_count := length (find_under_replicated c),
                   rv_over_replicated_count := length (find_over_replicated c)\<rparr>
      in if total_replicated > 0 \<or> trim_count > 0
         then st1\<lparr>rv_last_sweep_count := total_replicated,
                  rv_total_re_replicated := uadd (rv_total_re_replicated st1) total_replicated,
                  rv_last_trim_count := trim_count, rv_total_trimmed := uadd (rv_total_trimmed st1) trim_count,
                  rv_last_sweep_at := Some now_str\<rparr>
         else st1)"

definition recovery_cycle ::
  "('s, 'e) store_ops \<Rightarrow> ('s, 'e) meta_api \<Rightarrow> recovery_config \<Rightarrow> store_ref option list \<Rightarrow> string option list \<Rightarrow>
     raw_ref_registry option \<Rightarrow> tick \<Rightarrow> 's recovery_state \<Rightarrow> 's recovery_state option" where
  "recovery_cycle D M cfg originals device_paths raw_refs t st =
     Option.bind (poll_shards D M cfg t originals device_paths raw_refs [0..<length (sh_shards (rl_cluster st))]
         (rl_fail_counts st, rl_cluster st)) (\<lambda>(counts, c).
       (case cycle_sweeps D M cfg t raw_refs c of ((copies, trims), c1) \<Rightarrow>
          Some \<lparr>rl_fail_counts = counts, rl_status = update_status D t copies trims c1 (rl_status st), rl_cluster = c1\<rparr>))"

text \<open>The state after the given ticks.\<close>

fun recovery_ticks ::
  "('s, 'e) store_ops \<Rightarrow> ('s, 'e) meta_api \<Rightarrow> recovery_config \<Rightarrow> store_ref option list \<Rightarrow> string option list \<Rightarrow>
     raw_ref_registry option \<Rightarrow> tick list \<Rightarrow> 's recovery_state \<Rightarrow> 's recovery_state option" where
  "recovery_ticks D M cfg originals device_paths raw_refs [] st = Some st"
| "recovery_ticks D M cfg originals device_paths raw_refs (t # ts) st =
     Option.bind (recovery_cycle D M cfg originals device_paths raw_refs t st)
       (recovery_ticks D M cfg originals device_paths raw_refs ts)"

text \<open>\<open>tokio::time::interval\<close> panics when the period is zero.\<close>

definition recovery_loop ::
  "('s, 'e) store_ops \<Rightarrow> ('s, 'e) meta_api \<Rightarrow> recovery_config \<Rightarrow> store_ref option list \<Rightarrow> string option list \<Rightarrow>
     raw_ref_registry option \<Rightarrow> tick list \<Rightarrow> 's sharded \<Rightarrow> 's recovery_state option" where
  "recovery_loop D M cfg originals device_paths raw_refs ts c =
     (if \<not> rc_enabled cfg then Some (recovery_start originals c)
      else if rc_poll_interval_secs cfg = 0 then None
      else recovery_ticks D M cfg originals device_paths raw_refs ts (recovery_start originals c))"

section \<open>Periodic repair of the replication\<close>

record repair_replication_status =
  rq_phase :: string
  rq_cycles_completed :: nat
  rq_total_objects_replicated :: nat
  rq_total_objects_trimmed :: nat
  rq_last_catalog_size :: nat
  rq_remaining_under_replicated :: nat
  rq_last_completed_at :: "byte list option"
  rq_last_started_at :: "byte list option"

definition repair_status_new :: repair_replication_status where
  "repair_status_new = \<lparr>rq_phase = ''idle'', rq_cycles_completed = 0, rq_total_objects_replicated = 0,
     rq_total_objects_trimmed = 0, rq_last_catalog_size = 0, rq_remaining_under_replicated = 0,
     rq_last_completed_at = None, rq_last_started_at = None\<rparr>"

text \<open>The sweeps of one cycle, repeated while they copy objects and objects remain.\<close>

partial_function (option) repair_batches ::
  "('s, 'e) store_ops \<Rightarrow> ('s, 'e) meta_api \<Rightarrow> int \<Rightarrow> nat \<Rightarrow> raw_ref_registry option \<Rightarrow> nat \<Rightarrow> nat \<Rightarrow> 's sharded \<Rightarrow>
     ((nat \<times> nat) \<times> 's sharded) option" where
  "repair_batches D M now batch_size raw_refs replicated trimmed c =
     Option.bind (repair_replication_sweep D M now batch_size raw_refs c) (\<lambda>r.
       let replicated1 = uadd replicated (rx_re_replicated (fst r)); trimmed1 = uadd trimmed (rx_trimmed (fst r))
       in if rx_re_replicated (fst r) = 0 \<or> rx_under_remaining (fst r) = 0 then Some ((replicated1, trimmed1), snd r)
          else repair_batches D M now batch_size raw_refs replicated1 trimmed1 (snd r))"

definition repair_replication_cycle ::
  "('s, 'e) store_ops \<Rightarrow> ('s, 'e) meta_api \<Rightarrow> tick \<Rightarrow> nat \<Rightarrow> raw_ref_registry option \<Rightarrow> repair_replication_status \<times> 's sharded \<Rightarrow>
     (repair_replication_status \<times> 's sharded) option" where
  "repair_replication_cycle D M t batch_size raw_refs stc =
     (case stc of (st, c) \<Rightarrow>
        if tk_admin_op t then Some (st, c)
        else
          (let now_str = so_to_rfc3339 D (tk_now t); (catalog_size, c1) = rebuild_catalog D c in
           map_option (\<lambda>((cycle_replicated, cycle_trimmed), c2).
             (st\<lparr>rq_phase := ''idle'', rq_last_started_at := Some now_str, rq_last_catalog_size := catalog_size,
                 rq_cycles_completed := uadd (rq_cycles_completed st) 1,
                 rq_total_objects_replicated := uadd (rq_total_objects_replicated st) cycle_replicated,
                 rq_total_objects_trimmed := uadd (rq_total_objects_trimmed st) cycle_trimmed,
                 rq_remaining_under_replicated := length (find_under_replicated c2),
                 rq_last_completed_at := Some now_str\<rparr>, c2))
             (repair_batches D M (tk_now t) batch_size raw_refs 0 0 c1)))"

fun repair_replication_loop ::
  "('s, 'e) store_ops \<Rightarrow> ('s, 'e) meta_api \<Rightarrow> nat \<Rightarrow> raw_ref_registry option \<Rightarrow> tick list \<Rightarrow> repair_replication_status \<times> 's sharded \<Rightarrow>
     (repair_replication_status \<times> 's sharded) option" where
  "repair_replication_loop D M batch_size raw_refs [] stc = Some stc"
| "repair_replication_loop D M batch_size raw_refs (t # ts) stc =
     Option.bind (repair_replication_cycle D M t batch_size raw_refs stc) (repair_replication_loop D M batch_size raw_refs ts)"

end
