(* ===== verification/Recovery_Ops.thy ===== *)
theory Recovery_Ops
  imports Recovery_Loop Repair_Ops
begin

text \<open>
  What the background tasks do to the health of the shards. Reads, copies and sweeps leave it alone;
  each cycle moves every shard by one step of an automaton on health and failure count. The periodic
  repair ends because every sweep that goes on has restored a missing replica.
\<close>

section \<open>Calls that leave health and stores of the slots\<close>

definition shard_view :: "'s sharded \<Rightarrow> (shard_health \<times> store_ref) list" where
  "shard_view c = map (\<lambda>s. (si_health s, si_store s)) (sh_shards c)"

text \<open>The view with the registry of raw stores, which no background task changes.\<close>

definition cluster_view :: "'s sharded \<Rightarrow> (shard_health \<times> store_ref) list \<times> raw_ref_registry option" where
  "cluster_view c = (shard_view c, sh_raw_refs c)"

named_theorems view "calls that keep the view of the slots"

lemma view_heap_only: "heap_only c c' \<Longrightarrow> cluster_view c' = cluster_view c"
  by (auto simp: heap_only_def cluster_view_def shard_view_def)

lemma view_catalog [simp]: "cluster_view (update_catalog f c) = cluster_view c"
  by (simp add: update_catalog_def cluster_view_def shard_view_def)

lemma view_on_slot [view]: "on_slot f ref c = (r, c') \<Longrightarrow> cluster_view c' = cluster_view c"
  by (rule view_heap_only [OF on_slot_frame])

lemma view_on_slot_with [view]: "on_slot_with w f ref c = (r, c') \<Longrightarrow> cluster_view c' = cluster_view c"
  by (rule view_heap_only [OF on_slot_with_heap_only])

lemma view_write_with_meta [view]:
  "write_with_meta_to_shard D M now refs sid ref loc data md c = (r, c') \<Longrightarrow> cluster_view c' = cluster_view c"
  by (rule view_heap_only [OF write_with_meta_heap_only])

lemma view_resolve [view]: "resolve_shards D key c = (r, c') \<Longrightarrow> cluster_view c' = cluster_view c"
  by (auto simp: resolve_shards_def balanced_shard_order_def Let_def cluster_view_def shard_view_def split: option.splits if_splits read_preference.splits prod.splits)

lemma view_get_meta_loop [view]:
  "get_meta_loop D M refs loc sids c = (r, c') \<Longrightarrow> cluster_view c' = cluster_view c"
  by (induction D M refs loc sids c rule: get_meta_loop.induct)
    (auto simp: Let_def split: option.splits sum.splits shard_kind.splits prod.splits dest!: view_on_slot)

lemma view_get_metadata [view]: "sharded_get_metadata D M refs loc c = (r, c') \<Longrightarrow> cluster_view c' = cluster_view c"
  by (auto simp: sharded_get_metadata_def split: if_splits prod.splits dest!: view)

lemma view_source_metadata [view]: "read_source_metadata D M refs loc c = (r, c') \<Longrightarrow> cluster_view c' = cluster_view c"
  by (auto simp: read_source_metadata_def split: if_splits prod.splits sum.splits dest!: view_get_metadata)

lemma view_write_copy [view]: "write_copy D M now refs sid ref loc data c = (r, c') \<Longrightarrow> cluster_view c' = cluster_view c"
  by (auto simp: write_copy_def split: option.splits prod.splits sum.splits dest!: view)

lemma view_read_all [view]: "read_all D loc ref c = (r, c') \<Longrightarrow> cluster_view c' = cluster_view c"
  by (auto simp: read_all_def split: prod.splits sum.splits dest!: view_on_slot)

lemma view_sync_copy [view]: "sync_copy D M now refs sid tgt src loc c = (r, c') \<Longrightarrow> cluster_view c' = cluster_view c"
  by (auto simp: sync_copy_def split: prod.splits sum.splits dest!: view)

lemma view_mirror_copy [view]:
  "mirror_copy_loop D M now refs tgt target_store source_store tk objs stats c = (r, c') \<Longrightarrow> cluster_view c' = cluster_view c"
  by (induction D M now refs tgt target_store source_store tk objs stats c rule: mirror_copy_loop.induct)
    (auto split: option.splits sum.splits prod.splits if_splits dest!: view_sync_copy)

lemma view_mirror_delete [view]:
  "mirror_delete_loop D target_store ks objs stats c = (r, c') \<Longrightarrow> cluster_view c' = cluster_view c"
  by (induction D target_store ks objs stats c rule: mirror_delete_loop.induct)
    (auto split: sum.splits prod.splits if_splits dest!: view_on_slot)

lemma view_mirror_sync [view]: "mirror_sync D M now originals tgt refs c = (r, c') \<Longrightarrow> cluster_view c' = cluster_view c"
  by (auto simp: mirror_sync_def split: option.splits sum.splits prod.splits dest!: view)

lemma view_part_copy [view]:
  "part_copy_loop D M now refs tgt target_store unders n c = (r, c') \<Longrightarrow> cluster_view c' = cluster_view c"
  by (induction D M now refs tgt target_store unders n c rule: part_copy_loop.induct)
    (auto split: option.splits sum.splits prod.splits repair_error.splits dest!: view_sync_copy)

lemma view_first_ok:
  assumes "\<And>sid ref x c. cluster_view (g sid ref x c) = cluster_view c"
  shows "first_ok f g loc stores le c = (r, c') \<Longrightarrow> cluster_view c' = cluster_view c"
  using assms by (induction f g loc stores le c rule: first_ok.induct) (auto split: sum.splits prod.splits dest!: view_on_slot)

lemma view_get_raw [view]: "get_raw_sharded D now loc c = (r, c') \<Longrightarrow> cluster_view c' = cluster_view c"
  unfolding get_raw_sharded_def
  by (auto split: prod.splits if_splits dest!: view_on_slot view_resolve view_first_ok [rotated])

lemma view_get_marker [view]: "get_delete_marker D now key c = (r, c') \<Longrightarrow> cluster_view c' = cluster_view c"
  by (auto simp: get_delete_marker_def split: prod.splits sum.splits dest!: view_get_raw)

lemma view_read_markers [view]: "read_markers D now keys c = (r, c') \<Longrightarrow> cluster_view c' = cluster_view c"
  by (induction D now keys c arbitrary: r c' rule: read_markers.induct) (fastforce split: prod.splits option.splits dest!: view_get_marker)+

lemma view_list_markers [view]: "list_delete_markers D now c = (r, c') \<Longrightarrow> cluster_view c' = cluster_view c"
  unfolding list_delete_markers_def by (rule view_read_markers)

lemma view_head [view]: "sharded_head D now loc c = (r, c') \<Longrightarrow> cluster_view c' = cluster_view c"
  unfolding sharded_head_def
  by (auto split: prod.splits if_splits dest!: view_resolve view_first_ok [rotated])

lemma view_snd: "(\<And>r c'. f c = (r, c') \<Longrightarrow> cluster_view c' = cluster_view c) \<Longrightarrow> cluster_view (snd (f c)) = cluster_view c"
  by (cases "f c") simp

lemma view_snd_slot [simp]: "cluster_view (snd (on_slot f ref c)) = cluster_view c"
  by (rule view_snd) (rule view_on_slot)

lemma view_replay [simp]: "cluster_view (replay_marker D ref m c) = cluster_view c"
  by (auto simp: replay_marker_def Let_def split: prod.splits sum.splits dest!: view_on_slot)

lemma view_refresh [view]: "refresh_object D M now refs tgt ref m c = (r, c') \<Longrightarrow> cluster_view c' = cluster_view c"
  unfolding refresh_object_def Let_def
  by (auto split: prod.splits sum.splits option.splits if_splits repair_error.splits dest!: view_on_slot view_write_copy)

lemma view_refresh_objects [view]: "refresh_objects D M now refs tgt ref ms c = (r, c') \<Longrightarrow> cluster_view c' = cluster_view c"
  by (induction D M now refs tgt ref ms c rule: refresh_objects.induct) (auto split: sum.splits prod.splits dest!: view_refresh)

lemma view_clean [simp]: "cluster_view (clean_marker D now ref m c) = cluster_view c"
  by (auto simp: clean_marker_def Let_def split: prod.splits sum.splits option.splits dest!: view_on_slot view_get_marker view_head)

lemma view_fold: "(\<And>x c. cluster_view (f x c) = cluster_view c) \<Longrightarrow> cluster_view (fold f xs c) = cluster_view c"
  by (induction xs arbitrary: c) simp_all

lemma view_partitioned_sync [view]: "partitioned_sync D M now originals tgt refs c = (r, c') \<Longrightarrow> cluster_view c' = cluster_view c"
  by (auto simp: partitioned_sync_def Let_def view_fold split: option.splits sum.splits prod.splits
      dest!: view_part_copy view_list_markers view_on_slot view_refresh_objects)

section \<open>Synchronisation and detachment\<close>

lemma length_view [simp]: "length (shard_view c) = length (sh_shards c)"
  by (simp add: shard_view_def)

lemma view_update_shard: "shard_view (update_shard sid f c) =
   (if sid < length (sh_shards c) then (shard_view c)[sid := (si_health (f (sh_shards c ! sid)), si_store (f (sh_shards c ! sid)))] else shard_view c)"
  by (simp add: update_shard_def shard_view_def map_update)

lemma view_parts: "cluster_view c' = cluster_view c \<Longrightarrow> shard_view c' = shard_view c \<and> sh_raw_refs c' = sh_raw_refs c"
  by (simp add: cluster_view_def)

lemma view_rebuild_for_shard [view]: "rebuild_catalog_for_shard D now sid c = (r, c') \<Longrightarrow> cluster_view c' = cluster_view c"
  by (auto simp: rebuild_catalog_for_shard_def Let_def split: option.splits prod.splits sum.splits dest!: view_on_slot)

lemma view_set_health:
  "shard_view (snd (set_shard_health now sid h c)) = (if sid < length (sh_shards c) then (shard_view c)[sid := (h, snd (shard_view c ! sid))] else shard_view c)"
  by (auto simp: set_shard_health_def update_shard_def health_change_def Let_def shard_view_def map_update)

lemma view_detach_for:
  "shard_view (detach_for now sid reason c) = (if sid < length (sh_shards c) then (shard_view c)[sid := (Offline, Placeholder sid)] else shard_view c)"
  by (auto simp: detach_for_def set_detach_reason_def detach_shard_def update_shard_def shard_view_def take_offline_def map_update Let_def)

lemma slot_raw_refs [simp]:
  "sh_raw_refs (update_shard sid f c) = sh_raw_refs c" "sh_raw_refs (snd (set_shard_health now sid h c)) = sh_raw_refs c"
  "sh_raw_refs (detach_for now sid reason c) = sh_raw_refs c"
  by (auto simp: update_shard_def set_shard_health_def health_change_def detach_for_def set_detach_reason_def detach_shard_def
      take_offline_def Let_def)

lemma view_attach:
  assumes "attach_shard D now sid ref True c = (r, c')" and "sid < length (sh_shards c)"
  shows "shard_view c' = (shard_view c)[sid := (if is_ok r then Healthy else Offline, ref)] \<and> sh_raw_refs c' = sh_raw_refs c"
proof -
  let ?c1 = "update_shard sid (\<lambda>s. s\<lparr>si_store := ref, si_health := Syncing, si_free_space := u64_max,
               si_offline_since := None, si_suppress_replication := False, si_detach_reason := None\<rparr>) c"
  obtain r2 c2 where rb: "rebuild_catalog_for_shard D now sid ?c1 = (r2, c2)" by fastforce
  have v: "shard_view c2 = (shard_view c)[sid := (Syncing, ref)]"
    using view_parts [OF view_rebuild_for_shard [OF rb]] assms(2) by (simp add: view_update_shard)
  then have n: "sid < length (sh_shards c2)" using assms(2) by (metis length_list_update length_view)
  have st: "snd (shard_view c2 ! sid) = ref" using v assms(2) by simp
  have c': "c' = update_shard sid (\<lambda>s. if is_ok r then s\<lparr>si_health := Healthy\<rparr> else s\<lparr>si_health := Offline, si_offline_since := Some now\<rparr>) c2"
    using assms rb by (auto simp: attach_shard_def Let_def)
  have "sh_raw_refs c' = sh_raw_refs c" using view_parts [OF view_rebuild_for_shard [OF rb]] by (simp add: c')
  then show ?thesis using n st v unfolding c' view_update_shard by (auto simp: shard_view_def)
qed

lemma view_sync_and_reattach:
  assumes "sid < length (sh_shards c)" and res: "sync_and_reattach D M now originals sid raw_refs c = Some c'"
  shows "\<exists>h ref. (h = Healthy \<or> h = Offline) \<and> (ref = snd (shard_view c ! sid) \<or> original_store originals sid = Some ref) \<and>
     (h = Healthy \<longrightarrow> original_store originals sid = Some ref) \<and>
     shard_view c' = (shard_view c)[sid := (h, ref)] \<and> sh_raw_refs c' = sh_raw_refs c"
proof -
  let ?c1 = "snd (set_shard_health now sid Syncing c)"
  define sync where "sync = (if rp_factor (sh_replication ?c1) = length (sh_shards ?c1)
    then (case mirror_sync D M now originals sid raw_refs ?c1 of (r, c2) \<Rightarrow> (sync_outcome r, c2))
    else (case partitioned_sync D M now originals sid raw_refs ?c1 of (r, c2) \<Rightarrow> (sync_outcome r, c2)))"
  obtain out c2 where s: "sync = (out, c2)" by fastforce
  have "cluster_view c2 = cluster_view ?c1"
    using s unfolding sync_def by (auto split: prod.splits if_splits dest!: view_mirror_sync view_partitioned_sync)
  note vp = view_parts [OF this]
  have v2: "shard_view c2 = (shard_view c)[sid := (Syncing, snd (shard_view c ! sid))]" "sh_raw_refs c2 = sh_raw_refs c"
    using vp assms(1) by (simp_all add: view_set_health)
  then have n2: "sid < length (sh_shards c2)" using assms(1) by (metis length_list_update length_view)
  have off: "shard_view (snd (set_shard_health now sid Offline d)) = (shard_view c)[sid := (Offline, ref)]"
    if "shard_view d = (shard_view c)[sid := (h, ref)]" for d h ref
  proof -
    have "sid < length (sh_shards d)" using that assms(1) by (metis length_list_update length_view)
    with that assms(1) show ?thesis by (simp add: view_set_health)
  qed
  note run = res [unfolded sync_and_reattach_def [of D M now originals sid raw_refs c] Let_def, folded sync_def, unfolded s prod.case]
  then obtain ok where ok: "out = Some ok" by (auto simp: map_option_case split: option.splits)
  show ?thesis
  proof (cases "ok \<and> original_store originals sid \<noteq> None")
    case False
    then have "c' = snd (set_shard_health now sid Offline c2)" using run ok by (auto split: option.splits if_splits)
    with off [OF v2(1)] v2(2) show ?thesis
      by (intro exI [of _ Offline] exI [of _ "snd (shard_view c ! sid)"]) simp
  next
    case True
    then obtain ref where o: "original_store originals sid = Some ref" by blast
    obtain r c3 where a: "attach_shard D now sid ref True c2 = (r, c3)" by fastforce
    have v3: "shard_view c3 = (shard_view c)[sid := (if is_ok r then Healthy else Offline, ref)]" "sh_raw_refs c3 = sh_raw_refs c"
      using view_attach [OF a n2] v2 by simp_all
    have "c' = (if is_ok r then c3 else snd (set_shard_health now sid Offline c3))"
      using run ok True o a by (auto split: sum.splits)
    with off [OF v3(1)] v3 o show ?thesis
      by (intro exI [of _ "if is_ok r then Healthy else Offline"] exI [of _ ref]) auto
  qed
qed

section \<open>Panics\<close>

text \<open>
  A registry with a raw store for every slot of kind \<open>Raw\<close>; with it the metadata reads of a
  synchronisation do not panic.
\<close>

definition registry_complete :: "raw_ref_registry \<Rightarrow> bool" where
  "registry_complete refs \<longleftrightarrow> (\<forall>sid. rr_kind refs sid = RawKind \<longrightarrow> rr_get refs sid \<noteq> None)"

definition refs_complete :: "raw_ref_registry option \<Rightarrow> bool" where
  "refs_complete refs \<longleftrightarrow> (case refs of Some rr \<Rightarrow> registry_complete rr | None \<Rightarrow> True)"

lemma effective_refs_cong: "sh_raw_refs c' = sh_raw_refs c \<Longrightarrow> effective_refs raw_refs c' = effective_refs raw_refs c"
  by (simp add: effective_refs_def split: option.splits)

lemma get_meta_loop_calm: "registry_complete refs \<Longrightarrow> fst (get_meta_loop D M refs loc sids c) \<noteq> Inl (MdRaw Panicked)"
  by (induction D M refs loc sids c rule: get_meta_loop.induct)
    (auto simp: registry_complete_def Let_def split: option.splits sum.splits shard_kind.splits prod.splits)

lemma source_metadata_calm:
  assumes "registry_complete refs"
  shows "fst (read_source_metadata D M refs loc c) \<noteq> Inl RePanicked"
proof -
  have "fst (sharded_get_metadata D M refs loc c) \<noteq> Inl (MdRaw Panicked)"
    by (simp add: sharded_get_metadata_def get_meta_loop_calm [OF assms] split: prod.splits)
  then show ?thesis
    by (auto simp: read_source_metadata_def split: sum.splits prod.splits meta_error.splits raw_store_error.splits)
qed

lemma write_copy_calm:
  assumes "refs_complete refs"
  shows "fst (write_copy D M now refs sid ref loc data c) \<noteq> Inl RePanicked"
proof (cases refs)
  case None
  then show ?thesis by (auto simp: write_copy_def on_slot_with_def split: prod.splits sum.splits)
next
  case (Some rr)
  then have "fst (read_source_metadata D M rr loc c) \<noteq> Inl RePanicked"
    using assms source_metadata_calm by (simp add: refs_complete_def)
  then show ?thesis using Some by (auto simp: write_copy_def split: prod.splits sum.splits)
qed

lemma sync_copy_calm:
  assumes "refs_complete refs"
  shows "fst (sync_copy D M now refs tgt target source loc c) \<noteq> Inl RePanicked"
  by (auto simp: sync_copy_def read_all_def write_copy_calm [OF assms] split: prod.splits sum.splits)

lemma mirror_copy_calm:
  "refs_complete refs \<Longrightarrow> fst (mirror_copy_loop D M now refs tgt target source known objs stats c) \<noteq> Inl RePanicked"
proof (induction objs arbitrary: stats c)
  case (Cons m objs)
  obtain r c1 where s: "sync_copy D M now refs tgt target source (om_location m) c = (r, c1)" by fastforce
  have "r \<noteq> Inl RePanicked" using sync_copy_calm [OF Cons.prems, of D M now tgt target source "om_location m" c] s by simp
  then show ?case using Cons s by (auto split: option.splits sum.splits)
qed simp

lemma mirror_delete_calm: "fst (mirror_delete_loop D target ks objs stats c) \<noteq> Inl RePanicked"
  by (induction D target ks objs stats c rule: mirror_delete_loop.induct) (auto split: sum.splits prod.splits)

lemma mirror_sync_calm:
  assumes "refs_complete (effective_refs raw_refs c)"
  shows "fst (mirror_sync D M now originals tgt raw_refs c) \<noteq> Inl RePanicked"
proof -
  have copies: "mirror_copy_loop D M now (effective_refs raw_refs c) tgt target source known objs stats d \<noteq> (Inl RePanicked, d')"
    for target source known objs stats d d'
    using mirror_copy_calm [OF assms, of D M now tgt target source known objs stats d] by auto
  show ?thesis
    unfolding mirror_sync_def
    by (auto simp: copies mirror_delete_calm split: option.splits sum.splits prod.splits)
qed

lemma part_copy_calm:
  "refs_complete refs \<Longrightarrow> \<exists>n. fst (part_copy_loop D M now refs tgt target unders k c) = Inr n"
proof (induction unders arbitrary: k c)
  case (Cons u unders)
  obtain key n where u: "u = (key, n)" by (cases u)
  have copy: "sync_copy D M now refs tgt target source loc c \<noteq> (Inl RePanicked, c')" for source loc c'
    using sync_copy_calm [OF Cons.prems, of D M now tgt target source loc c] by auto
  show ?case using Cons by (auto simp: u copy split: option.splits sum.splits prod.splits repair_error.splits)
qed simp

lemma refresh_calm:
  assumes "refs_complete refs"
  shows "fst (refresh_objects D M now refs tgt target ms c) = Inr ()"
proof (induction ms arbitrary: c)
  case (Cons m ms)
  have copy: "write_copy D M now refs tgt target loc data d \<noteq> (Inl RePanicked, d')" for loc data d d'
    using write_copy_calm [OF assms, of D M now tgt target loc data d] by auto
  have "fst (refresh_object D M now refs tgt target m c) = Inr ()"
    by (auto simp: refresh_object_def Let_def copy split: prod.splits sum.splits option.splits repair_error.splits)
  then show ?case using Cons by (cases "refresh_object D M now refs tgt target m c") simp
qed simp

lemma partitioned_sync_calm:
  assumes "refs_complete (effective_refs raw_refs c)"
  shows "fst (partitioned_sync D M now originals tgt raw_refs c) \<noteq> Inl RePanicked"
proof -
  have raw: "refs_complete raw_refs" using assms by (simp add: effective_refs_def refs_complete_def split: option.splits)
  have copies: "part_copy_loop D M now (effective_refs raw_refs c) tgt target unders k d \<noteq> (Inl e, d')" for target unders k d e d'
    using part_copy_calm [OF assms, of D M now tgt target unders k d] by auto
  have refresh: "refresh_objects D M now raw_refs tgt target ms d \<noteq> (Inl e, d')" for target ms d e d'
    using refresh_calm [OF raw, of D M now tgt target ms d] by auto
  show ?thesis
    unfolding partitioned_sync_def Let_def
    by (auto simp: copies refresh split: option.splits sum.splits prod.splits)
qed

lemma sync_and_reattach_calm:
  assumes "refs_complete (effective_refs raw_refs c)"
  shows "sync_and_reattach D M now originals sid raw_refs c \<noteq> None"
proof -
  let ?c1 = "snd (set_shard_health now sid Syncing c)"
  have "effective_refs raw_refs ?c1 = effective_refs raw_refs c" by (rule effective_refs_cong) simp
  with assms have "refs_complete (effective_refs raw_refs ?c1)" by simp
  note calm = mirror_sync_calm [OF this, of D M now originals sid] partitioned_sync_calm [OF this, of D M now originals sid]
  have "sync_outcome r \<noteq> None" if "r \<noteq> Inl RePanicked" for r :: "'b repair_error + 'c"
    using that by (auto simp: sync_outcome_def split: sum.splits repair_error.splits)
  with calm show ?thesis
    by (auto simp: sync_and_reattach_def Let_def sync_outcome_def split: prod.splits sum.splits repair_error.splits)
qed

section \<open>The automaton of one shard\<close>

text \<open>
  One cycle for one shard, as health and number of failed probes in a row: what is observed is whether
  the device path is gone, whether the probe is answered, and whether the loop knows the original store.
\<close>

inductive shard_step :: "nat \<Rightarrow> bool \<times> bool \<times> bool \<Rightarrow> shard_health \<times> nat \<Rightarrow> shard_health \<times> nat \<Rightarrow> bool" for thr where
  gone: "h = Healthy \<or> h = Degraded \<Longrightarrow> shard_step thr (True, ans, orig) (h, f) (Offline, 0)"
| alive: "h = Healthy \<or> h = Degraded \<Longrightarrow> shard_step thr (False, True, orig) (h, f) (h, 0)"
| failing: "h = Healthy \<or> h = Degraded \<Longrightarrow> f + 1 < thr \<Longrightarrow> shard_step thr (False, False, orig) (h, f) (h, f + 1)"
| detached: "h = Healthy \<or> h = Degraded \<Longrightarrow> thr \<le> f + 1 \<Longrightarrow> shard_step thr (False, False, orig) (h, f) (Offline, 0)"
| waiting: "shard_step thr obs (Offline, f) (Offline, f)"
| recovered: "shard_step thr (False, True, True) (Offline, f) (Healthy, f)"
| held: "h = Detached \<or> h = Syncing \<Longrightarrow> shard_step thr obs (h, f) (h, f)"

inductive_cases shard_stepE: "shard_step thr (missing, ans, orig) (h, f) y"

inductive_cases heldE: "shard_step thr obs (Detached, f) y"

inductive shard_run :: "nat \<Rightarrow> (bool \<times> bool \<times> bool) list \<Rightarrow> shard_health \<times> nat \<Rightarrow> shard_health \<times> nat \<Rightarrow> bool" for thr where
  run_Nil: "shard_run thr [] x x"
| run_Cons: "shard_step thr obs x y \<Longrightarrow> shard_run thr os y z \<Longrightarrow> shard_run thr (obs # os) x z"

inductive_simps shard_run_simps [simp]: "shard_run thr [] x y" "shard_run thr (obs # os) x y"

text \<open>The longest row of unanswered probes, when \<open>f\<close> came before.\<close>

fun longest_row :: "nat \<Rightarrow> bool list \<Rightarrow> nat" where
  "longest_row f [] = f"
| "longest_row f (b # bs) = (if b then max f (longest_row 0 bs) else longest_row (Suc f) bs)"

lemma longest_row_ge: "f \<le> longest_row f bs"
  by (induction f bs rule: longest_row.induct) auto

lemma run_held: "shard_run thr os (Detached, f) y \<Longrightarrow> y = (Detached, f)"
  by (induction os arbitrary: y) (auto elim!: heldE)

lemma run_bound: "shard_run thr os (h, f) (h', f') \<Longrightarrow> f < max 1 thr \<Longrightarrow> f' < max 1 thr"
proof (induction os arbitrary: h f)
  case (Cons obs os)
  then obtain h1 f1 where y: "shard_step thr obs (h, f) (h1, f1)" "shard_run thr os (h1, f1) (h', f')" by auto
  have "f1 < max 1 thr" using y(1) Cons.prems(2) by cases auto
  from Cons.IH [OF y(2) this] show ?case .
qed auto

lemma run_alive:
  assumes "shard_run thr os (h, f) (h', f')" and "h = Healthy \<or> h = Degraded" and "\<And>obs. obs \<in> set os \<Longrightarrow> \<not> fst obs"
    and "longest_row f (map (\<lambda>x. fst (snd x)) os) < max 1 thr"
  shows "h' = h"
  using assms
proof (induction os arbitrary: f)
  case (Cons obs os)
  obtain ans orig where obs: "obs = (False, ans, orig)" using Cons.prems(3) [of obs] by (cases obs) auto
  from Cons.prems(1) obtain h1 f1 where y: "shard_step thr obs (h, f) (h1, f1)" "shard_run thr os (h1, f1) (h', f')" by auto
  have n: "\<And>obs. obs \<in> set os \<Longrightarrow> \<not> fst obs" using Cons.prems(3) by simp
  have "h1 = h \<and> longest_row f1 (map (\<lambda>x. fst (snd x)) os) < max 1 thr"
    using y(1) Cons.prems(2,4) longest_row_ge [of "Suc f" "map (\<lambda>x. fst (snd x)) os"] unfolding obs
    by (auto elim!: shard_stepE split: if_splits)
  then show ?case using Cons.IH [OF _ _ n] y(2) Cons.prems(2) by blast
qed auto

lemma run_offline:
  assumes "shard_run thr os (Offline, f) y" and "\<And>obs. obs \<in> set os \<Longrightarrow> \<not> fst (snd obs)"
  shows "y = (Offline, f)"
  using assms
proof (induction os)
  case (Cons obs os)
  obtain missing orig where obs: "obs = (missing, False, orig)" using Cons.prems(2) [of obs] by (cases obs) auto
  from Cons.prems(1) have "shard_run thr os (Offline, f) y" unfolding obs by (auto elim!: shard_stepE)
  with Cons show ?case by simp
qed auto

lemma run_dead:
  assumes "shard_run thr os (h, f) (h', f')" and "h = Healthy \<or> h = Degraded"
    and "\<And>obs. obs \<in> set os \<Longrightarrow> \<not> fst (snd obs)" and "max 1 thr \<le> f + length os" and "f < max 1 thr"
  shows "h' = Offline"
  using assms
proof (induction os arbitrary: f)
  case (Cons obs os)
  obtain missing orig where obs: "obs = (missing, False, orig)" using Cons.prems(3) [of obs] by (cases obs) auto
  from Cons.prems(1) obtain h1 f1 where y: "shard_step thr obs (h, f) (h1, f1)" "shard_run thr os (h1, f1) (h', f')" by auto
  have n: "\<And>obs. obs \<in> set os \<Longrightarrow> \<not> fst (snd obs)" using Cons.prems(3) by simp
  have "(h1, f1) = (Offline, 0) \<or> h1 = h \<and> f1 = f + 1 \<and> f + 1 < thr"
    using y(1) Cons.prems(2) unfolding obs by (auto elim!: shard_stepE)
  then show ?case
  proof
    assume "(h1, f1) = (Offline, 0)"
    with run_offline [OF _ n] y(2) show ?thesis by fastforce
  next
    assume "h1 = h \<and> f1 = f + 1 \<and> f + 1 < thr"
    with Cons.IH [OF _ Cons.prems(2) n, of f1] y(2) Cons.prems(4) show ?thesis by simp
  qed
qed auto

section \<open>A cycle steps every shard\<close>

text \<open>Every slot that is in use has a store, and the original stores are stores.\<close>

definition slots_filled :: "'s sharded \<Rightarrow> bool" where
  "slots_filled c \<longleftrightarrow> (\<forall>x\<in>set (shard_view c). fst x = Healthy \<or> fst x = Degraded \<longrightarrow> (\<exists>a. snd x = StoreAt a))"

definition observed :: "store_ref option list \<Rightarrow> string option list \<Rightarrow> nat \<Rightarrow> tick \<Rightarrow> bool \<times> bool \<times> bool" where
  "observed originals paths sid t = (device_missing t paths sid, tk_answers t sid, original_store originals sid \<noteq> None)"

lemma slots_filled_update:
  assumes "slots_filled c" and "shard_view c' = (shard_view c)[sid := (h, ref)]" and "h = Healthy \<or> h = Degraded \<longrightarrow> (\<exists>a. ref = StoreAt a)"
  shows "slots_filled c'"
proof -
  have "x = (h, ref) \<or> x \<in> set (shard_view c)" if "x \<in> set (shard_view c')" for x
    using that set_update_subset_insert [of "shard_view c" sid "(h, ref)"] by (auto simp: assms(2))
  with assms(1,3) show ?thesis unfolding slots_filled_def by (metis fst_conv snd_conv)
qed

lemma poll_shard_step:
  assumes n: "sid < length (sh_shards c)" and f: "sid < length counts" and fill: "slots_filled c"
    and orig: "\<And>ref. Some ref \<in> set originals \<Longrightarrow> \<exists>a. ref = StoreAt a"
  shows "(poll_shard D M cfg t originals paths raw_refs sid (counts, c) = None \<and> \<not> refs_complete (effective_refs raw_refs c)) \<or>
    (\<exists>counts' c' h ref f. poll_shard D M cfg t originals paths raw_refs sid (counts, c) = Some (counts', c') \<and>
      counts' = counts[sid := f] \<and> shard_view c' = (shard_view c)[sid := (h, ref)] \<and> sh_raw_refs c' = sh_raw_refs c \<and> slots_filled c' \<and>
      shard_step (rc_failure_threshold cfg) (observed originals paths sid t) (fst (shard_view c ! sid), counts ! sid) (h, f))"
proof -
  let ?s = "sh_shards c ! sid"
  have v: "shard_view c ! sid = (si_health ?s, si_store ?s)" using n by (simp add: shard_view_def)
  have same: "shard_view c = (shard_view c)[sid := (si_health ?s, si_store ?s)]" using v by (metis list_update_id)
  have st: "\<exists>a. si_store ?s = StoreAt a" if "si_health ?s = Healthy \<or> si_health ?s = Degraded"
    using fill that n unfolding slots_filled_def shard_view_def by auto
  have dv: "shard_view (detach_for now sid reason c) = (shard_view c)[sid := (Offline, Placeholder sid)]" for now reason
    using n by (simp add: view_detach_for)
  have "slots_filled (detach_for now sid reason c)" for now reason by (rule slots_filled_update [OF fill dv]) simp
  note detach = dv this
  note d = poll_shard_def [of D M cfg t originals paths raw_refs sid "(counts, c)"] shard_at_def set_count_def observed_def
  show ?thesis
  proof (cases "si_health ?s = Healthy \<or> si_health ?s = Degraded")
    case True
    then obtain a where a: "si_store ?s = StoreAt a" using st by blast
    show ?thesis
    proof (cases "device_missing t paths sid")
      case gone: True
      with True n f detach v show ?thesis
        by (intro disjI2 exI [of _ "counts[sid := 0]"] exI [of _ "detach_for (tk_now t) sid DeviceMissing c"] exI [of _ Offline] exI [of _ "Placeholder sid"] exI [of _ 0])
          (auto simp: d intro: shard_step.intros)
    next
      case here: False
      consider (alive) "tk_answers t sid" | (failing) "\<not> tk_answers t sid" "counts ! sid + 1 < rc_failure_threshold cfg"
        | (out) "\<not> tk_answers t sid" "rc_failure_threshold cfg \<le> counts ! sid + 1" by linarith
      then show ?thesis
      proof cases
        case alive
        with True here n f fill same v a show ?thesis
          by (intro disjI2 exI [of _ "counts[sid := 0]"] exI [of _ c] exI [of _ "si_health ?s"] exI [of _ "si_store ?s"] exI [of _ 0])
            (auto simp: d probe_store_def intro: shard_step.intros split: shard_health.splits)
      next
        case failing
        with True here n f fill same v a show ?thesis
          by (intro disjI2 exI [of _ "counts[sid := counts ! sid + 1]"] exI [of _ c] exI [of _ "si_health ?s"] exI [of _ "si_store ?s"] exI [of _ "counts ! sid + 1"])
            (auto simp: d probe_store_def intro: shard_step.failing [simplified] split: shard_health.splits)
      next
        case out
        with True here n f detach v a show ?thesis
          by (intro disjI2 exI [of _ "counts[sid := 0]"] exI [of _ "detach_for (tk_now t) sid ProbeFailure c"] exI [of _ Offline] exI [of _ "Placeholder sid"] exI [of _ 0])
            (auto simp: d probe_store_def intro: shard_step.detached [simplified] split: shard_health.splits)
      qed
    qed
  next
    case False
    show ?thesis
    proof (cases "si_health ?s = Offline \<and> \<not> device_missing t paths sid \<and> (\<exists>ref. original_store originals sid = Some ref \<and> probe_store (tk_answers t sid) ref)")
      case True
      then obtain ref where o: "original_store originals sid = Some ref" "probe_store (tk_answers t sid) ref" by blast
      then have ans: "tk_answers t sid" by (simp add: probe_store_def split: store_ref.splits)
      have "Some ref \<in> set originals" using o(1) by (auto simp: original_store_def split: if_splits) (metis nth_mem)
      then obtain a where a: "ref = StoreAt a" using orig by blast
      have poll: "poll_shard D M cfg t originals paths raw_refs sid (counts, c) =
          map_option (\<lambda>c'. (counts, c')) (sync_and_reattach D M (tk_now t) originals sid raw_refs c)"
        using True n o by (auto simp: d)
      show ?thesis
      proof (cases "sync_and_reattach D M (tk_now t) originals sid raw_refs c")
        case None
        with poll sync_and_reattach_calm [of raw_refs c D M "tk_now t" originals sid] show ?thesis by auto
      next
        case (Some c')
        from view_sync_and_reattach [OF n Some] obtain h r where
          y: "h = Healthy \<or> h = Offline" "h = Healthy \<longrightarrow> original_store originals sid = Some r" "shard_view c' = (shard_view c)[sid := (h, r)]"
            "sh_raw_refs c' = sh_raw_refs c" by blast
        have "slots_filled c'" by (rule slots_filled_update [OF fill y(3)]) (use y(1,2) o(1) a in auto)
        with True o ans y v poll Some show ?thesis
          by (intro disjI2 exI [of _ counts] exI [of _ c'] exI [of _ h] exI [of _ r] exI [of _ "counts ! sid"])
            (auto simp: observed_def intro: shard_step.intros)
      qed
    next
      case stay: False
      have "shard_step (rc_failure_threshold cfg) (observed originals paths sid t) (si_health ?s, counts ! sid) (si_health ?s, counts ! sid)"
        using False by (cases "si_health ?s") (auto intro: shard_step.intros)
      with stay False n fill same v show ?thesis
        by (intro disjI2 exI [of _ counts] exI [of _ c] exI [of _ "si_health ?s"] exI [of _ "si_store ?s"] exI [of _ "counts ! sid"])
          (auto simp: d split: shard_health.splits option.splits)
    qed
  qed
qed

lemma poll_shards_step:
  assumes "distinct sids" and "\<And>sid. sid \<in> set sids \<Longrightarrow> sid < length (sh_shards c) \<and> sid < length counts" and "slots_filled c"
    and orig: "\<And>ref. Some ref \<in> set originals \<Longrightarrow> \<exists>a. ref = StoreAt a"
  shows "(poll_shards D M cfg t originals paths raw_refs sids (counts, c) = None \<and> \<not> refs_complete (effective_refs raw_refs c)) \<or>
   (\<exists>counts' c'. poll_shards D M cfg t originals paths raw_refs sids (counts, c) = Some (counts', c') \<and>
    length counts' = length counts \<and> length (sh_shards c') = length (sh_shards c) \<and> sh_raw_refs c' = sh_raw_refs c \<and> slots_filled c' \<and>
    (\<forall>i. if i \<in> set sids then shard_step (rc_failure_threshold cfg) (observed originals paths i t)
            (fst (shard_view c ! i), counts ! i) (fst (shard_view c' ! i), counts' ! i)
          else shard_view c' ! i = shard_view c ! i \<and> counts' ! i = counts ! i))"
  using assms(1-3)
proof (induction sids arbitrary: counts c)
  case Nil
  then show ?case by simp
next
  case (Cons sid sids)
  have n: "sid < length (sh_shards c)" "sid < length counts" using Cons.prems(2) by auto
  note one = poll_shard_step [where D = D and M = M and cfg = cfg and t = t and paths = paths and raw_refs = raw_refs and originals = originals, OF n Cons.prems(3) orig]
  show ?case
  proof (cases "poll_shard D M cfg t originals paths raw_refs sid (counts, c)")
    case None
    with one show ?thesis by simp
  next
    case (Some x)
    with one obtain counts1 c1 h ref f where
      p: "poll_shard D M cfg t originals paths raw_refs sid (counts, c) = Some (counts1, c1)"
      and y: "counts1 = counts[sid := f]" "shard_view c1 = (shard_view c)[sid := (h, ref)]" "slots_filled c1"
        "shard_step (rc_failure_threshold cfg) (observed originals paths sid t) (fst (shard_view c ! sid), counts ! sid) (h, f)"
        "sh_raw_refs c1 = sh_raw_refs c" by auto
    have len: "length (sh_shards c1) = length (sh_shards c)" using y(2) by (metis length_list_update length_view)
    have pre: "\<And>i. i \<in> set sids \<Longrightarrow> i < length (sh_shards c1) \<and> i < length counts1" using Cons.prems(2) len y(1) by simp
    have refs: "effective_refs raw_refs c1 = effective_refs raw_refs c" using y(5) by (rule effective_refs_cong)
    show ?thesis
    proof (cases "poll_shards D M cfg t originals paths raw_refs sids (counts1, c1)")
      case None
      with Cons.IH [OF _ pre y(3)] Cons.prems(1) p refs show ?thesis by auto
    next
      case (Some z)
      with Cons.IH [OF _ pre y(3)] Cons.prems(1) obtain counts' c' where
        q: "poll_shards D M cfg t originals paths raw_refs sids (counts1, c1) = Some (counts', c')"
          "length counts' = length counts1" "length (sh_shards c') = length (sh_shards c1)" "sh_raw_refs c' = sh_raw_refs c1" "slots_filled c'"
        and st: "\<And>i. if i \<in> set sids then shard_step (rc_failure_threshold cfg) (observed originals paths i t)
                (fst (shard_view c1 ! i), counts1 ! i) (fst (shard_view c' ! i), counts' ! i)
              else shard_view c' ! i = shard_view c1 ! i \<and> counts' ! i = counts1 ! i" by auto
      have "if i \<in> set (sid # sids) then shard_step (rc_failure_threshold cfg) (observed originals paths i t)
                (fst (shard_view c ! i), counts ! i) (fst (shard_view c' ! i), counts' ! i)
              else shard_view c' ! i = shard_view c ! i \<and> counts' ! i = counts ! i" for i
      proof (cases "i = sid")
        case True
        with st [of i] Cons.prems(1) have "shard_view c' ! sid = (h, ref)" "counts' ! sid = f" using n y(1,2) by auto
        with True y(4) show ?thesis by simp
      next
        case False
        then have "shard_view c1 ! i = shard_view c ! i" "counts1 ! i = counts ! i" by (simp_all add: y(1,2))
        with st [of i] False show ?thesis by (simp split: if_splits)
      qed
      with p q len y(1,5) show ?thesis by (intro disjI2 exI [of _ counts'] exI [of _ c']) simp
    qed
  qed
qed

lemma replicate_object_keeps:
  "replicate_object D M now key src dst raw_refs c = (r, c') \<Longrightarrow> sh_shards c' = sh_shards c \<and> sh_raw_refs c' = sh_raw_refs c"
  using replicate_object_shape(1,4) by blast

lemma remove_replica_keeps: "remove_replica D key sid c = (r, c') \<Longrightarrow> sh_shards c' = sh_shards c \<and> sh_raw_refs c' = sh_raw_refs c"
  using remove_replica_shape(1,4) by blast

lemma re_replication_shards:
  "re_replication_loop D M now raw_refs batch n c = (m, c') \<Longrightarrow> sh_shards c' = sh_shards c \<and> sh_raw_refs c' = sh_raw_refs c"
  by (induction D M now raw_refs batch n c rule: re_replication_loop.induct)
    (auto split: option.splits prod.splits sum.splits dest!: replicate_object_keeps)

lemma trim_shards: "trim_loop D batch n c = (m, c') \<Longrightarrow> sh_shards c' = sh_shards c \<and> sh_raw_refs c' = sh_raw_refs c"
  by (induction D batch n c rule: trim_loop.induct)
    (auto split: option.splits prod.splits sum.splits dest!: remove_replica_keeps)

lemma sweeps_shards: "cycle_sweeps D M cfg t raw_refs c = (r, c') \<Longrightarrow> sh_shards c' = sh_shards c \<and> sh_raw_refs c' = sh_raw_refs c"
  unfolding cycle_sweeps_def re_replication_sweep_def over_replication_trim_def
  by (auto split: if_splits prod.splits dest!: re_replication_shards trim_shards)

text \<open>The health of a shard and its failure count.\<close>

definition shard_state :: "'s recovery_state \<Rightarrow> nat \<Rightarrow> shard_health \<times> nat" where
  "shard_state st i = (si_health (sh_shards (rl_cluster st) ! i), rl_fail_counts st ! i)"

definition state_ok :: "store_ref option list \<Rightarrow> 's recovery_state \<Rightarrow> bool" where
  "state_ok originals st \<longleftrightarrow> length (rl_fail_counts st) = length originals \<and> length (sh_shards (rl_cluster st)) = length originals \<and>
     slots_filled (rl_cluster st)"

lemma recovery_cycle_step:
  assumes ok: "state_ok originals st" and orig: "\<And>ref. Some ref \<in> set originals \<Longrightarrow> \<exists>a. ref = StoreAt a"
  shows "(recovery_cycle D M cfg originals paths raw_refs t st = None \<and> \<not> refs_complete (effective_refs raw_refs (rl_cluster st))) \<or>
   (\<exists>st'. recovery_cycle D M cfg originals paths raw_refs t st = Some st' \<and> state_ok originals st' \<and>
    sh_raw_refs (rl_cluster st') = sh_raw_refs (rl_cluster st) \<and>
    (\<forall>i<length originals. shard_step (rc_failure_threshold cfg) (observed originals paths i t) (shard_state st i) (shard_state st' i)))"
proof -
  let ?c = "rl_cluster st"
  let ?n = "length (sh_shards ?c)"
  have v: "fst (shard_view c ! i) = si_health (sh_shards c ! i)" if "i < length (sh_shards c)" for i and c :: "'a sharded"
    using that by (simp add: shard_view_def)
  have pre: "\<And>sid. sid \<in> set [0..<?n] \<Longrightarrow> sid < ?n \<and> sid < length (rl_fail_counts st)" "slots_filled ?c"
    using ok by (auto simp: state_ok_def)
  note step = poll_shards_step [where D = D and M = M and cfg = cfg and t = t and paths = paths and raw_refs = raw_refs and originals = originals and sids = "[0..<?n]",
    OF distinct_upt pre orig]
  show ?thesis
  proof (cases "poll_shards D M cfg t originals paths raw_refs [0..<?n] (rl_fail_counts st, ?c)")
    case None
    with step show ?thesis by (simp add: recovery_cycle_def)
  next
    case (Some x)
    with step
    obtain counts' c' where p: "poll_shards D M cfg t originals paths raw_refs [0..<?n] (rl_fail_counts st, ?c) = Some (counts', c')"
      "length counts' = length originals" "length (sh_shards c') = ?n" "slots_filled c'" "sh_raw_refs c' = sh_raw_refs ?c"
    and st: "\<And>i. if i \<in> set [0..<?n] then shard_step (rc_failure_threshold cfg) (observed originals paths i t)
            (fst (shard_view ?c ! i), rl_fail_counts st ! i) (fst (shard_view c' ! i), counts' ! i)
          else shard_view c' ! i = shard_view ?c ! i \<and> counts' ! i = rl_fail_counts st ! i"
      using ok unfolding state_ok_def by (elim disjE exE conjE) (simp, metis (no_types, lifting))
  obtain copies trims c1 where s: "cycle_sweeps D M cfg t raw_refs c' = ((copies, trims), c1)" by (metis surj_pair)
  have sh: "sh_shards c1 = sh_shards c'" "sh_raw_refs c1 = sh_raw_refs c'" using sweeps_shards [OF s] by simp_all
  have "slots_filled c1" using p(4) by (simp add: slots_filled_def shard_view_def sh)
  moreover have "shard_step (rc_failure_threshold cfg) (observed originals paths i t)
      (si_health (sh_shards ?c ! i), rl_fail_counts st ! i) (si_health (sh_shards c1 ! i), counts' ! i)" if "i < ?n" for i
    using st [of i] that p(3) by (simp add: v sh)
  ultimately show ?thesis
    using ok p s sh by (simp add: recovery_cycle_def state_ok_def shard_state_def)
  qed
qed

lemma recovery_ticks_run:
  assumes "state_ok originals st" and orig: "\<And>ref. Some ref \<in> set originals \<Longrightarrow> \<exists>a. ref = StoreAt a"
  shows "(recovery_ticks D M cfg originals paths raw_refs ts st = None \<and> \<not> refs_complete (effective_refs raw_refs (rl_cluster st))) \<or>
   (\<exists>st'. recovery_ticks D M cfg originals paths raw_refs ts st = Some st' \<and> state_ok originals st' \<and>
    (\<forall>i<length originals. shard_run (rc_failure_threshold cfg) (map (observed originals paths i) ts) (shard_state st i) (shard_state st' i)))"
  using assms(1)
proof (induction ts arbitrary: st)
  case (Cons t ts)
  note one = recovery_cycle_step [where D = D and M = M and cfg = cfg and t = t and paths = paths and raw_refs = raw_refs and originals = originals, OF Cons.prems orig]
  show ?case
  proof (cases "recovery_cycle D M cfg originals paths raw_refs t st")
    case None
    with one show ?thesis by simp
  next
    case (Some st1)
    with one have 1: "state_ok originals st1" "sh_raw_refs (rl_cluster st1) = sh_raw_refs (rl_cluster st)"
      "\<forall>i<length originals. shard_step (rc_failure_threshold cfg) (observed originals paths i t) (shard_state st i) (shard_state st1 i)" by auto
    have "effective_refs raw_refs (rl_cluster st1) = effective_refs raw_refs (rl_cluster st)" using 1(2) by (rule effective_refs_cong)
    from Cons.IH [OF 1(1)] show ?thesis
    proof
      assume "recovery_ticks D M cfg originals paths raw_refs ts st1 = None \<and> \<not> refs_complete (effective_refs raw_refs (rl_cluster st1))"
      with Some \<open>effective_refs raw_refs (rl_cluster st1) = effective_refs raw_refs (rl_cluster st)\<close> show ?thesis by simp
    next
      assume "\<exists>st'. recovery_ticks D M cfg originals paths raw_refs ts st1 = Some st' \<and> state_ok originals st' \<and>
        (\<forall>i<length originals. shard_run (rc_failure_threshold cfg) (map (observed originals paths i) ts) (shard_state st1 i) (shard_state st' i))"
      then obtain st' where 2: "recovery_ticks D M cfg originals paths raw_refs ts st1 = Some st'" "state_ok originals st'"
        "\<forall>i<length originals. shard_run (rc_failure_threshold cfg) (map (observed originals paths i) ts) (shard_state st1 i) (shard_state st' i)" by blast
      with 1 Some show ?thesis
        by (intro disjI2 exI [of _ st'] conjI allI impI) (simp_all only: recovery_ticks.simps bind.bind_lunit list.map, auto intro: run_Cons simp del: shard_run_simps)
    qed
  qed
qed simp

section \<open>The periodic repair ends\<close>

text \<open>
  The healthy replicas that a key lacks. Neither phase of the sweep increases the lack of any key, and
  every copy that is counted decreases it for its key.
\<close>

definition lack :: "'s sharded \<Rightarrow> string \<Rightarrow> nat" where
  "lack c k = rp_factor (sh_replication c) - card (live c k)"

definition placed_keys :: "'s sharded \<Rightarrow> string set" where
  "placed_keys c = {k. holders (sh_catalog c) k \<noteq> {}}"

definition closer :: "'s sharded \<Rightarrow> 's sharded \<Rightarrow> bool" where
  "closer c c' \<longleftrightarrow> catalog_ok (sh_catalog c') \<and> placed_keys c' \<subseteq> placed_keys c \<and> (\<forall>k. lack c' k \<le> lack c k)"

lemma closer_refl: "catalog_ok (sh_catalog c) \<Longrightarrow> closer c c"
  by (simp add: closer_def)

lemma closer_trans: "closer c d \<Longrightarrow> closer d e \<Longrightarrow> closer c e"
  by (auto simp: closer_def intro: order_trans)

lemma finite_placed: "finite (placed_keys c)"
proof (rule finite_subset)
  show "placed_keys c \<subseteq> fst ` set (ct_entries (sh_catalog c))"
    by (auto simp: placed_keys_def holders_def catalog_get_def split: option.splits dest!: map_of_SomeD intro: rev_image_eqI)
qed simp

lemma repair_key_closer:
  assumes "repair_key D M now raw_refs key n c = Some (m, c')" and "catalog_ok (sh_catalog c)"
  shows "closer c c' \<and> n \<le> m \<and> (n < m \<longrightarrow> key \<in> placed_keys c \<and> lack c' key < lack c key)"
  using assms
proof (induction "card (free_targets key c)" arbitrary: n c rule: less_induct)
  case less
  show ?case
  proof (cases "\<exists>e src dst. catalog_get (sh_catalog c) key = Some e \<and>
      \<not> rp_factor (sh_replication c) \<le> length (filter (shard_has (\<lambda>h. h = Healthy \<or> h = Syncing) c) (pe_shards e)) \<and>
      find (shard_has (\<lambda>h. h = Healthy) c) (pe_shards e) = Some src \<and> find_replication_target key c = Some dst")
    case False
    then have "c' = c \<and> m = n" using less.prems(1) by (subst (asm) repair_key.simps) (auto split: option.splits if_splits)
    with less.prems(2) closer_refl show ?thesis by blast
  next
    case True
    then obtain e src dst where e: "catalog_get (sh_catalog c) key = Some e"
      and lo: "length (filter (shard_has (\<lambda>h. h = Healthy \<or> h = Syncing) c) (pe_shards e)) < rp_factor (sh_replication c)"
      and src: "find (shard_has (\<lambda>h. h = Healthy) c) (pe_shards e) = Some src" and dst: "find_replication_target key c = Some dst" by fastforce
    obtain r c1 where r: "replicate_object D M now key src dst raw_refs c = (r, c1)" by fastforce
    note sh = replicate_object_shape [OF r]
    have run: "(if is_ok r then repair_key D M now raw_refs key (n + 1) c1 else Some (n, c1)) = Some (m, c')"
      using less.prems(1) e lo src dst r by (subst (asm) repair_key.simps) (simp add: Let_def split: if_splits)
    have hl: "holders (sh_catalog c) key = set (pe_shards e)" using e by (simp add: holders_def)
    have "live c key = set (filter (shard_has (\<lambda>h. h = Healthy) c) (pe_shards e))" by (auto simp: live_def hl)
    moreover have "length (filter (shard_has (\<lambda>h. h = Healthy) c) xs) \<le> length (filter (shard_has (\<lambda>h. h = Healthy \<or> h = Syncing) c) xs)" for xs
      by (induction xs) (auto simp: shard_has_def split: option.splits)
    then have "length (filter (shard_has (\<lambda>h. h = Healthy) c) (pe_shards e)) < rp_factor (sh_replication c)" using lo by (rule le_less_trans)
    ultimately have few: "card (live c key) < rp_factor (sh_replication c)" using card_length [of "filter (shard_has (\<lambda>h. h = Healthy) c) (pe_shards e)"] by simp
    have pk: "key \<in> placed_keys c" using src by (auto simp: placed_keys_def hl find_Some_iff)
    have dl: "dst \<in> free_targets key c" by (rule replication_target_free [OF dst])
    show ?thesis
    proof (cases "is_ok r")
      case False
      then have "sh_catalog c1 = sh_catalog c" using sh(3) by (cases r) auto
      then have "closer c c1" using less.prems(2) by (simp add: closer_def placed_keys_def lack_def live_def sh shard_has_cong [OF sh(1)])
      with False run show ?thesis by simp
    next
      case True
      then obtain sz ml where cat: "sh_catalog c1 = add_replica now key dst sz ml (sh_catalog c)" using sh(3) by (auto simp: is_ok_iff)
      note ok1 = add_replica_ok [OF less.prems(2), of now key dst sz ml, folded cat]
      have lv: "live c1 = (live c)(key := insert dst (live c key))"
        using dl by (auto simp: live_def ok1(2) shard_has_cong [OF sh(1)] free_targets_def fun_eq_iff)
      have "dst \<notin> live c key" using dl by (simp add: free_targets_def live_def)
      then have drop: "lack c1 key < lack c key" using few finite_live [of c key] by (simp add: lack_def lv sh(2))
      have "lack c1 k \<le> lack c k" for k using drop by (cases "k = key") (auto simp: lack_def lv sh(2))
      then have cl: "closer c c1" using ok1 pk by (auto simp: closer_def placed_keys_def split: if_splits)
      have "free_targets key c1 = free_targets key c - {dst}"
        unfolding free_targets_def cat add_replica_holders shard_has_cong [OF sh(1)] sh(1) by auto
      with dl have "card (free_targets key c1) < card (free_targets key c)"
        by (simp add: card_Diff1_less free_targets_def del: card_Diff_insert)
      from less.hyps [OF this _ ok1(1)] run True have rest: "closer c1 c'" "n + 1 \<le> m" by auto
      have "lack c' key < lack c key" using drop rest(1) by (auto simp: closer_def intro: order.strict_trans1)
      with closer_trans [OF cl rest(1)] rest(2) pk show ?thesis by simp
    qed
  qed
qed

lemma trim_key_closer:
  assumes "trim_key D key n c = Some (m, c')" and "catalog_ok (sh_catalog c)"
  shows "closer c c'"
  using assms
proof (induction "length (entry_shards key c)" arbitrary: n c rule: less_induct)
  case less
  show ?case
  proof (cases "pick_excess_shard key c")
    case None
    then have "c' = c" using less.prems(1) by (subst (asm) trim_key.simps) simp
    with less.prems(2) closer_refl show ?thesis by blast
  next
    case (Some sid)
    obtain r c1 where r: "remove_replica D key sid c = (r, c1)" by fastforce
    note sh = remove_replica_shape [OF r]
    have run: "(if is_ok r then trim_key D key (n + 1) c1 else Some (n, c1)) = Some (m, c')"
      using less.prems(1) Some r by (subst (asm) trim_key.simps) (simp add: Let_def split: if_splits)
    show ?thesis
    proof (cases "is_ok r")
      case False
      then have "sh_catalog c1 = sh_catalog c" using sh(3) by (cases r) auto
      then have "closer c c1" using less.prems(2) by (simp add: closer_def placed_keys_def lack_def live_def sh shard_has_cong [OF sh(1)])
      with False run show ?thesis by simp
    next
      case True
      then have cat: "sh_catalog c1 = catalog_remove_shard key sid (sh_catalog c)" using sh(3) by (auto simp: is_ok_iff)
      note ok1 = catalog_remove_shard_ok [OF less.prems(2), of key sid, folded cat]
      have lv: "live c1 = (live c)(key := live c key - {sid})"
        by (auto simp: live_def ok1(2) shard_has_cong [OF sh(1)] fun_eq_iff)
      have "{s \<in> holders (sh_catalog c) key - {sid}. shard_has (\<lambda>h. h = Healthy) c s} = live c key - {sid}" by (auto simp: live_def)
      then have "rp_factor (sh_replication c) \<le> card (live c key - {sid})"
        using pick_excess_spec [OF less.prems(2), of key] Some by auto
      then have "closer c c1" using ok1 by (auto simp: closer_def placed_keys_def lack_def lv sh(2) split: if_splits)
      moreover have "length (entry_shards key c1) < length (entry_shards key c)"
        using remove_shard_entry [OF cat] pick_excess_mem [OF Some] by (simp add: length_filter_less)
      with less.hyps [OF this _ ok1(1)] run True have "closer c1 c'" by simp
      ultimately show ?thesis by (rule closer_trans)
    qed
  qed
qed

text \<open>\<open>counts\<close>: the step reports its successes as decreases of the lack of its key.\<close>

lemma sweep_closer:
  assumes "\<And>k n c m c'. step k n c = Some (m, c') \<Longrightarrow> catalog_ok (sh_catalog c) \<Longrightarrow>
      closer c c' \<and> (counts \<longrightarrow> n \<le> m \<and> (n < m \<longrightarrow> k \<in> placed_keys c \<and> lack c' k < lack c k))"
    and "sweep_keys step keys n c = Some (m, c')" and "catalog_ok (sh_catalog c)"
  shows "closer c c' \<and> (counts \<longrightarrow> n \<le> m \<and> (n < m \<longrightarrow> (\<exists>k\<in>placed_keys c. lack c' k < lack c k)))"
  using assms(2,3)
proof (induction keys arbitrary: n c)
  case Nil
  then show ?case using closer_refl by auto
next
  case (Cons k ks)
  then obtain n1 c1 where s: "step k n c = Some (n1, c1)" "sweep_keys step ks n1 c1 = Some (m, c')" by (auto simp: bind_eq_Some_conv)
  note 1 = assms(1) [OF s(1) Cons.prems(2)]
  then have "catalog_ok (sh_catalog c1)" by (simp add: closer_def)
  note 2 = Cons.IH [OF s(2) this]
  have "\<exists>k\<in>placed_keys c. lack c' k < lack c k" if "n < m" counts
  proof (cases "n < n1")
    case True
    with 1 2 that(2) have "k \<in> placed_keys c" "lack c1 k < lack c k" "lack c' k \<le> lack c1 k" by (simp_all add: closer_def)
    then show ?thesis by (intro bexI [of _ k]) auto
  next
    case False
    with that 1 2 obtain k' where "k' \<in> placed_keys c1" "lack c' k' < lack c1 k'" by auto
    moreover from this 1 have "k' \<in> placed_keys c" "lack c1 k' \<le> lack c k'" by (auto simp: closer_def)
    ultimately show ?thesis by (intro bexI [of _ k']) auto
  qed
  moreover have "counts \<longrightarrow> n \<le> m" using 1 2 by auto
  ultimately show ?case using 1 2 closer_trans by blast
qed

lemma repair_batches_returns:
  assumes "catalog_ok (sh_catalog c)"
  shows "\<exists>r c'. repair_batches D M now batch_size raw_refs a b c = Some (r, c')"
  using assms
proof (induction "\<Sum>k\<in>placed_keys c. lack c k" arbitrary: a b c rule: less_induct)
  case less
  obtain res c2 where s: "repair_replication_sweep D M now batch_size raw_refs c = Some (res, c2)" using repair_sweep_returns by blast
  then obtain n1 c1 n2 where 1: "sweep_keys (repair_key D M now raw_refs) (map fst (take batch_size (find_under_replicated c))) 0 c = Some (n1, c1)"
    and 2: "sweep_keys (trim_key D) (map fst (take batch_size (find_over_replicated c1))) 0 c1 = Some (n2, c2)"
    and res: "rx_re_replicated res = n1" by (auto simp: repair_replication_sweep_def bind_eq_Some_conv)
  have k1: "closer c c1 \<and> (True \<longrightarrow> 0 \<le> n1 \<and> (0 < n1 \<longrightarrow> (\<exists>k\<in>placed_keys c. lack c1 k < lack c k)))"
    by (rule sweep_closer [OF _ 1 less.prems]) (use repair_key_closer in blast)
  then have "catalog_ok (sh_catalog c1)" by (simp add: closer_def)
  from sweep_closer [where counts = False, OF _ 2 this] have k2: "closer c1 c2" using trim_key_closer by blast
  have cl: "closer c c2" using k1 k2 closer_trans by blast
  have less': "(\<Sum>k\<in>placed_keys c2. lack c2 k) < (\<Sum>k\<in>placed_keys c. lack c k)" if pos: "0 < n1"
  proof -
    from k1 pos obtain k where k: "k \<in> placed_keys c" "lack c1 k < lack c k" by auto
    moreover have "lack c2 k \<le> lack c1 k" using k2 by (simp add: closer_def)
    ultimately have strict: "lack c2 k < lack c k" by simp
    have "(\<Sum>k\<in>placed_keys c2. lack c2 k) \<le> (\<Sum>k\<in>placed_keys c. lack c2 k)"
      using cl by (intro sum_mono2 finite_placed) (auto simp: closer_def)
    also have "\<dots> < (\<Sum>k\<in>placed_keys c. lack c k)"
      using cl k(1) strict by (intro sum_strict_mono_ex1 finite_placed) (auto simp: closer_def)
    finally show ?thesis .
  qed
  show ?case
  proof (cases "rx_re_replicated res = 0 \<or> rx_under_remaining res = 0")
    case True
    then show ?thesis by (subst repair_batches.simps) (simp add: s Let_def)
  next
    case False
    then have "0 < n1" using res by simp
    from less.hyps [OF less' [OF this]] cl show ?thesis
      by (subst repair_batches.simps) (simp add: s Let_def False closer_def)
  qed
qed

lemma rebuild_catalog_ok:
  assumes "rebuild_catalog D c = (n, c')"
  shows "catalog_ok (sh_catalog c')"
proof -
  have empty: "map_ok (fst ([], 0))" by (simp add: map_ok_iff hm_simps)
  obtain results c1 where f: "fan_out (scan_shard D) (map (\<lambda>s. (si_id s, si_store s)) (filter (\<lambda>s. \<not> is_unavailable (si_health s)) (sh_shards c))) c = (results, c1)"
    by fastforce
  have "sh_catalog c' = \<lparr>ct_entries = fst (fold rebuild_result results ([], 0)), ct_dirty = False\<rparr>"
    using assms f by (auto simp: rebuild_catalog_def Let_def update_catalog_def catalog_replace_def clear_dirty_def split: prod.splits)
  with fold_rebuild_result [OF empty, of results] show ?thesis by (simp add: map_ok_def)
qed

lemma repair_cycle_returns:
  "\<exists>st' c'. repair_replication_cycle D M t batch_size raw_refs (st, c) = Some (st', c')"
proof -
  obtain n c1 where r: "rebuild_catalog D c = (n, c1)" by fastforce
  from repair_batches_returns [OF rebuild_catalog_ok [OF r], of D M "tk_now t" batch_size raw_refs 0 0] obtain a b c' where
    "repair_batches D M (tk_now t) batch_size raw_refs 0 0 c1 = Some ((a, b), c')" by auto
  then show ?thesis by (simp add: repair_replication_cycle_def r Let_def)
qed

end
