(* ===== verification/Recovery_Properties.thy ===== *)
theory Recovery_Properties
  imports Recovery_Ops Copy_Properties
begin

text \<open>The properties of the background tasks, with witnesses on memory shards.\<close>

section \<open>The recovery loop\<close>

text \<open>The loop panics only for a period of zero or an incomplete registry; otherwise every shard has run its automaton.\<close>

lemma recovery_loop_ran:
  assumes "length (sh_shards c) = length originals" and "slots_filled c"
    and "\<And>ref. Some ref \<in> set originals \<Longrightarrow> \<exists>a. ref = StoreAt a" and "rc_enabled cfg"
  shows "case recovery_loop D M cfg originals paths raw_refs ts c of
    None \<Rightarrow> rc_poll_interval_secs cfg = 0 \<or> \<not> refs_complete (effective_refs raw_refs c)
  | Some st \<Rightarrow> state_ok originals st \<and> (\<forall>i<length originals. shard_run (rc_failure_threshold cfg) (map (observed originals paths i) ts)
       (si_health (sh_shards c ! i), 0) (shard_state st i))"
proof -
  have "state_ok originals (recovery_start originals c)" using assms(1,2) by (simp add: state_ok_def recovery_start_def)
  from recovery_ticks_run [where D = D and M = M and cfg = cfg and ts = ts and paths = paths and raw_refs = raw_refs, OF this assms(3)]
  show ?thesis by (auto simp: recovery_loop_def assms(4) shard_state_def recovery_start_def)
qed

text \<open>
  C27. The recovery loop does not panic when its period is positive and the registry in use has a raw store
  for every slot of kind \<open>Raw\<close>, as long as the stores themselves return; with a period of zero it panics at
  once. It moves the health and the failure count of every shard by one step of the automaton \<open>shard_step\<close>
  per tick, whatever the synchronisations and sweeps of the same tick do: a shard in use is detached when its
  device is gone or when the probe fails for the last time the threshold allows, an offline shard comes back
  only when its device is there and its original store answers, and a shard that is held or synchronising is
  left alone. The failure counts stay below the threshold, so that they never overflow.
\<close>

theorem recovery_loop_refines:
  assumes "length (sh_shards c) = length originals" and "slots_filled c"
    and "\<And>ref. Some ref \<in> set originals \<Longrightarrow> \<exists>a. ref = StoreAt a" and "rc_enabled cfg"
    and "refs_complete (effective_refs raw_refs c)"
  shows "if rc_poll_interval_secs cfg = 0 then recovery_loop D M cfg originals paths raw_refs ts c = None
    else \<exists>st. recovery_loop D M cfg originals paths raw_refs ts c = Some st \<and>
      length (rl_fail_counts st) = length originals \<and>
      (\<forall>i<length originals. rl_fail_counts st ! i < max 1 (rc_failure_threshold cfg) \<and>
         shard_run (rc_failure_threshold cfg) (map (observed originals paths i) ts)
           (si_health (sh_shards c ! i), 0) (si_health (sh_shards (rl_cluster st) ! i), rl_fail_counts st ! i))"
proof (cases "rc_poll_interval_secs cfg = 0")
  case True
  then show ?thesis by (simp add: recovery_loop_def assms(4))
next
  case False
  note ran = recovery_loop_ran [where D = D and M = M and paths = paths and raw_refs = raw_refs and ts = ts and originals = originals,
    OF assms(1,2) _ assms(4)]
  from ran assms(3,5) False obtain st where
    st: "recovery_loop D M cfg originals paths raw_refs ts c = Some st" "state_ok originals st"
    and run: "\<And>i. i < length originals \<Longrightarrow> shard_run (rc_failure_threshold cfg) (map (observed originals paths i) ts)
       (si_health (sh_shards c ! i), 0) (shard_state st i)" by (auto split: option.splits)
  have "rl_fail_counts st ! i < max 1 (rc_failure_threshold cfg)" if "i < length originals" for i
    using run_bound [OF run [OF that, unfolded shard_state_def]] by simp
  with st run False show ?thesis by (auto simp: state_ok_def shard_state_def)
qed

definition mem_originals :: "store_ref option list" where
  "mem_originals = [Some (StoreAt 0), Some (StoreAt 1), Some (StoreAt 2)]"

definition quiet_tick :: "nat \<Rightarrow> tick" where
  "quiet_tick dead = \<lparr>tk_now = 0, tk_exists = \<lambda>_ _. True, tk_answers = \<lambda>sid. sid \<noteq> dead, tk_admin_op = True\<rparr>"

lemma mem_one_filled: "length (sh_shards mem_one) = length mem_originals" "slots_filled mem_one"
  "Some ref \<in> set mem_originals \<Longrightarrow> \<exists>a. ref = StoreAt a" "rc_enabled recovery_config_default"
  "refs_complete (effective_refs None mem_one)" "rc_poll_interval_secs recovery_config_default \<noteq> 0"
  by (auto simp: slots_filled_def shard_view_def new_shard_def mem_originals_def recovery_config_default_def effective_refs_def
      refs_complete_def registry_complete_def mem_refs_def rr_kind_def nth_Cons split: if_splits nat.splits)

theorem recovery_loop_refines_witness:
  "\<exists>st. recovery_loop mem_ops mem_meta recovery_config_default mem_originals [None, None, None] None [quiet_tick 1, quiet_tick 1] mem_one = Some st \<and>
     rl_fail_counts st ! 1 = 2 \<and> si_health (sh_shards (rl_cluster st) ! 1) = Healthy"
proof -
  let ?obs = "(False, False, True)"
  from recovery_loop_refines [where D = mem_ops and M = mem_meta and paths = "[None, None, None]" and ts = "[quiet_tick 1, quiet_tick 1]",
    OF mem_one_filled(1-5)]
  obtain st where st: "recovery_loop mem_ops mem_meta recovery_config_default mem_originals [None, None, None] None [quiet_tick 1, quiet_tick 1] mem_one = Some st"
    and run: "\<forall>i<length mem_originals. rl_fail_counts st ! i < max 1 (rc_failure_threshold recovery_config_default) \<and>
       shard_run (rc_failure_threshold recovery_config_default) (map (observed mem_originals [None, None, None] i) [quiet_tick 1, quiet_tick 1])
         (si_health (sh_shards mem_one ! i), 0) (si_health (sh_shards (rl_cluster st) ! i), rl_fail_counts st ! i)"
    using mem_one_filled(6) by (auto simp only: if_False)
  have obs: "observed mem_originals [None, None, None] 1 (quiet_tick 1) = ?obs"
    by (simp add: observed_def device_missing_def quiet_tick_def original_store_def mem_originals_def)
  have mem_len: "length mem_originals = 3" by (simp add: mem_originals_def)
  have thr: "rc_failure_threshold recovery_config_default = 3" by (simp add: recovery_config_default_def)
  from run have "shard_run 3 [?obs, ?obs] (Healthy, 0) (si_health (sh_shards (rl_cluster st) ! 1), rl_fail_counts st ! 1)"
    unfolding thr by (auto simp: obs [simplified] new_shard_def mem_len dest!: spec [of _ 1]) blast
  then have "si_health (sh_shards (rl_cluster st) ! 1) = Healthy \<and> rl_fail_counts st ! 1 = 2"
    by (auto elim!: shard_stepE)
  with st show ?thesis by blast
qed

text \<open>
  C28. What the recovery loop decides over any number of ticks. A shard that an operator holds detached
  stays detached. A shard in use whose device stays in place keeps its health as long as fewer probes in
  a row than the threshold go unanswered. A shard in use that answers no probe is offline once as many
  ticks as the threshold have passed.
\<close>

theorem recovery_loop_decides:
  assumes "length (sh_shards c) = length originals" and "slots_filled c"
    and "\<And>ref. Some ref \<in> set originals \<Longrightarrow> \<exists>a. ref = StoreAt a" and "rc_enabled cfg"
    and "recovery_loop D M cfg originals paths raw_refs ts c = Some st"
    and "i < length originals" and "h = si_health (sh_shards c ! i)" and "h' = si_health (sh_shards (rl_cluster st) ! i)"
  shows "(h = Detached \<longrightarrow> h' = Detached) \<and>
    ((h = Healthy \<or> h = Degraded) \<and> (\<forall>t\<in>set ts. \<not> device_missing t paths i) \<and>
       longest_row 0 (map (\<lambda>t. tk_answers t i) ts) < max 1 (rc_failure_threshold cfg) \<longrightarrow> h' = h) \<and>
    ((h = Healthy \<or> h = Degraded) \<and> (\<forall>t\<in>set ts. \<not> tk_answers t i) \<and> max 1 (rc_failure_threshold cfg) \<le> length ts \<longrightarrow> h' = Offline)"
proof -
  let ?os = "map (observed originals paths i) ts"
  from recovery_loop_ran [where D = D and M = M and paths = paths and raw_refs = raw_refs and ts = ts and originals = originals,
    OF assms(1,2) _ assms(4)] assms(3,5,6)
  have run: "shard_run (rc_failure_threshold cfg) ?os (h, 0) (h', rl_fail_counts st ! i)"
    unfolding shard_state_def assms(7,8) by simp
  have "h' = h" if "h = Healthy \<or> h = Degraded" "\<forall>t\<in>set ts. \<not> device_missing t paths i"
    "longest_row 0 (map (\<lambda>t. tk_answers t i) ts) < max 1 (rc_failure_threshold cfg)"
    by (rule run_alive [OF run that(1)]) (use that(2,3) in \<open>auto simp: observed_def comp_def\<close>)
  moreover have "h' = Offline" if "h = Healthy \<or> h = Degraded" "\<forall>t\<in>set ts. \<not> tk_answers t i" "max 1 (rc_failure_threshold cfg) \<le> length ts"
    by (rule run_dead [OF run that(1)]) (use that(2,3) in \<open>auto simp: observed_def\<close>)
  moreover have "h' = Detached" if "h = Detached" using run_held run that by blast
  ultimately show ?thesis by blast
qed

theorem recovery_loop_decides_witness:
  "\<exists>st. recovery_loop mem_ops mem_meta recovery_config_default mem_originals [None, None, None] None
       [quiet_tick 1, quiet_tick 1, quiet_tick 1] mem_one = Some st \<and>
     si_health (sh_shards (rl_cluster st) ! 0) = Healthy \<and> si_health (sh_shards (rl_cluster st) ! 1) = Offline"
proof -
  let ?ts = "[quiet_tick 1, quiet_tick 1, quiet_tick 1]"
  obtain st where st: "recovery_loop mem_ops mem_meta recovery_config_default mem_originals [None, None, None] None ?ts mem_one = Some st"
    using recovery_loop_ran [where D = mem_ops and M = mem_meta and paths = "[None, None, None]" and raw_refs = None and ts = ?ts,
      OF mem_one_filled(1-4)] mem_one_filled(5,6) by (auto split: option.splits)
  note decide = recovery_loop_decides [OF mem_one_filled(1-4) st _ refl refl]
  have miss: "\<not> device_missing t [None, None, None] 0" for t by (simp add: device_missing_def)
  have "si_health (sh_shards (rl_cluster st) ! 0) = Healthy"
    using decide [of 0] miss by (auto simp: mem_originals_def new_shard_def quiet_tick_def recovery_config_default_def)
  moreover have "si_health (sh_shards (rl_cluster st) ! 1) = Offline"
    using decide [of 1] by (auto simp: mem_originals_def new_shard_def quiet_tick_def recovery_config_default_def)
  ultimately show ?thesis using st by blast
qed

section \<open>A registry without the raw store of a raw slot\<close>

text \<open>
  The server registers a raw shard that it could not open at the start as a slot of kind \<open>Raw\<close> without a raw
  reference. Once another store is attached to the slot, reading the metadata of an object there reaches the
  \<open>unreachable!\<close> of \<open>get_metadata\<close>, and a synchronisation that copies such an object kills the recovery task.
\<close>

definition unopened_refs :: raw_ref_registry where
  "unopened_refs = \<lparr>rr_refs = [None, None, None], rr_kinds = [RawKind, Sidecar, Sidecar]\<rparr>"

lemma get_metadata_panics:
  "\<exists>c'. sharded_get_metadata mem_ops mem_meta unopened_refs ''a'' mem_one = (Inl (MdRaw Panicked), c')"
  "\<not> registry_complete unopened_refs"
proof -
  show "\<not> registry_complete unopened_refs"
    by (auto simp: registry_complete_def unopened_refs_def rr_kind_def rr_get_def intro!: exI [of _ 0])
  have "is_delete_marker ''a'' = False" by (simp add: is_delete_marker_def DELETE_MARKER_PREFIX_def)
  then show "\<exists>c'. sharded_get_metadata mem_ops mem_meta unopened_refs ''a'' mem_one = (Inl (MdRaw Panicked), c')"
    by (simp add: sharded_get_metadata_def mem_eval unopened_refs_def rr_kind_def rr_get_def)
qed

section \<open>The periodic repair\<close>

text \<open>
  C29. The periodic repair task gets through every cycle, whatever the shards answer and whichever
  catalog the scan of the cycle yields: the sweeps are repeated only after one that copied an
  object, and each such sweep leaves fewer replicas missing.
\<close>

theorem background_repair_ends:
  "\<exists>st' c'. repair_replication_loop D M batch_size raw_refs ts (st, c) = Some (st', c')"
proof (induction ts arbitrary: st c)
  case (Cons t ts)
  from repair_cycle_returns [of D M t batch_size raw_refs st c] obtain st1 c1 where
    "repair_replication_cycle D M t batch_size raw_refs (st, c) = Some (st1, c1)" by blast
  with Cons show ?case by simp
qed simp

end
