(* ===== verification/Conf_Text.thy ===== *)
theory Conf_Text
  imports Tlv "HOL-Library.Sublist"
begin

text \<open>
  The text functions that both configuration parsers use: lines, trimming, words, decimal numbers and
  the tokenizer with quotes (\<open>tokenize\<close> of \<open>shardedobjstr/src/config.rs\<close>, \<open>tokenize_kv_line\<close> of
  \<open>objstrd/src/config.rs\<close>). The texts are ASCII; \<open>is_whitespace\<close> is \<open>char::is_whitespace\<close> on ASCII, and
  the length of a string is its length in bytes. The second part writes tokens and numbers in a form
  that the parsers read back.
\<close>

section \<open>Lines and words\<close>

definition is_whitespace :: "char \<Rightarrow> bool" where
  "is_whitespace c = (let n = of_char c :: nat in (9 \<le> n \<and> n \<le> 13) \<or> n = 32)"

definition trim_start :: "string \<Rightarrow> string" where
  "trim_start s = dropWhile is_whitespace s"

definition trim_end :: "string \<Rightarrow> string" where
  "trim_end s = rev (dropWhile is_whitespace (rev s))"

definition trim :: "string \<Rightarrow> string" where
  "trim s = trim_end (trim_start s)"

definition newline :: char where
  "newline = CHR 0x0A"

definition strip_cr :: "string \<Rightarrow> string" where
  "strip_cr l = (if l \<noteq> [] \<and> last l = CHR 0x0D then butlast l else l)"

text \<open>\<open>str::lines\<close>: a carriage return belongs to the line ending only before a newline.\<close>

function text_lines :: "string \<Rightarrow> string list" where
  "text_lines [] = []"
| "text_lines (c # cs) =
     (let t = c # cs; l = takeWhile (\<lambda>x. x \<noteq> newline) t in
      case dropWhile (\<lambda>x. x \<noteq> newline) t of
        [] \<Rightarrow> [l]
      | _ # rest \<Rightarrow> strip_cr l # text_lines rest)"
  by pat_completeness auto
termination
proof (relation "measure length")
  fix c cs t l x rest
  assume "t = c # cs" "dropWhile (\<lambda>x. x \<noteq> newline) t = x # rest"
  then show "(rest, c # cs) \<in> measure length"
    using length_dropWhile_le [of "\<lambda>x. x \<noteq> newline" t] by simp
qed simp

text \<open>\<open>split_whitespace().next().unwrap_or("")\<close> and \<open>splitn(2, char::is_whitespace)\<close> with the second part trimmed.\<close>

definition first_word :: "string \<Rightarrow> string" where
  "first_word s = takeWhile (\<lambda>c. \<not> is_whitespace c) (trim_start s)"

definition key_value :: "string \<Rightarrow> string \<times> string option" where
  "key_value line =
     (case dropWhile (\<lambda>c. \<not> is_whitespace c) line of
        [] \<Rightarrow> (line, None)
      | _ # rest \<Rightarrow> (takeWhile (\<lambda>c. \<not> is_whitespace c) line, Some (trim rest)))"

section \<open>Numbers\<close>

definition is_digit :: "char \<Rightarrow> bool" where
  "is_digit c = (let n = of_char c :: nat in 48 \<le> n \<and> n \<le> 57)"

definition digits_value :: "string \<Rightarrow> nat" where
  "digits_value s = foldl (\<lambda>n c. 10 * n + (of_char c - 48)) 0 s"

text \<open>\<open>parse::<u64>()\<close> and \<open>parse::<usize>()\<close> (with \<open>u64_max\<close>), \<open>parse::<u32>()\<close>: an optional \<open>+\<close>, then digits.\<close>

definition parse_uint :: "nat \<Rightarrow> string \<Rightarrow> nat option" where
  "parse_uint bound s =
     (let ds = (case s of c # cs \<Rightarrow> if c = CHR ''+'' then cs else s | [] \<Rightarrow> s) in
      if ds \<noteq> [] \<and> list_all is_digit ds \<and> digits_value ds \<le> bound then Some (digits_value ds) else None)"

section \<open>The tokenizer\<close>

fun tokenize_chars :: "string list \<Rightarrow> string \<Rightarrow> char option \<Rightarrow> string \<Rightarrow> string list \<times> string \<times> char option" where
  "tokenize_chars tokens current in_quote [] = (tokens, current, in_quote)"
| "tokenize_chars tokens current (Some q) (ch # rest) =
     (if ch = q then tokenize_chars tokens current None rest
      else tokenize_chars tokens (current @ [ch]) (Some q) rest)"
| "tokenize_chars tokens current None (ch # rest) =
     (if ch = CHR 0x22 \<or> ch = CHR 0x27 then tokenize_chars tokens current (Some ch) rest
      else if is_whitespace ch then
        (if current \<noteq> [] then tokenize_chars (tokens @ [current]) [] None rest
         else tokenize_chars tokens [] None rest)
      else tokenize_chars tokens (current @ [ch]) None rest)"

definition tokenize_kv_line :: "string \<Rightarrow> string list" where
  "tokenize_kv_line line =
     (case tokenize_chars [] [] None line of (tokens, current, _) \<Rightarrow> if current \<noteq> [] then tokens @ [current] else tokens)"

section \<open>Writing tokens and numbers\<close>

text \<open>A token is written as it is when it has no white space and no quotes, otherwise character by character in quotes.\<close>

definition plain_char :: "char \<Rightarrow> bool" where
  "plain_char c \<longleftrightarrow> c \<noteq> CHR 0x22 \<and> c \<noteq> CHR 0x27 \<and> \<not> is_whitespace c"

definition quote_char :: "char \<Rightarrow> string" where
  "quote_char c = (if c = CHR 0x22 then [CHR 0x27, c, CHR 0x27] else [CHR 0x22, c, CHR 0x22])"

definition write_token :: "string \<Rightarrow> string" where
  "write_token t = (if list_all plain_char t then t else concat (map quote_char t))"

fun write_tokens :: "string list \<Rightarrow> string" where
  "write_tokens [] = []"
| "write_tokens [t] = write_token t"
| "write_tokens (t # ts) = write_token t @ CHR '' '' # write_tokens ts"

fun write_nat :: "nat \<Rightarrow> string" where
  "write_nat n = (if n < 10 then [char_of (48 + n)] else write_nat (n div 10) @ [char_of (48 + n mod 10)])"

declare write_nat.simps [simp del]

lemma char_plain_facts: "\<not> is_whitespace (CHR 0x22)" "\<not> is_whitespace (CHR 0x27)" "is_whitespace (CHR '' '')"
  "\<not> plain_char (CHR '' '')"
  by (simp_all add: is_whitespace_def plain_char_def)

lemma tokenize_plain:
  "list_all plain_char t \<Longrightarrow> tokenize_chars ts cur None (t @ rest) = tokenize_chars ts (cur @ t) None rest"
  by (induction t arbitrary: cur) (auto simp: plain_char_def)

lemma tokenize_quoted: "tokenize_chars ts cur None (concat (map quote_char t) @ rest) = tokenize_chars ts (cur @ t) None rest"
  by (induction t arbitrary: cur) (auto simp: quote_char_def char_plain_facts)

lemma tokenize_token: "tokenize_chars ts cur None (write_token t @ rest) = tokenize_chars ts (cur @ t) None rest"
  by (simp add: write_token_def tokenize_plain tokenize_quoted)

lemma tokenize_chars_write:
  "[] \<notin> set toks \<Longrightarrow> \<exists>ts' cur. tokenize_chars ts [] None (write_tokens toks) = (ts', cur, None) \<and>
     (if cur \<noteq> [] then ts' @ [cur] else ts') = ts @ toks"
proof (induction toks arbitrary: ts rule: write_tokens.induct)
  case 1
  then show ?case by simp
next
  case (2 t)
  then show ?case using tokenize_token [of ts "[]" t "[]"] by simp
next
  case (3 t t' toks)
  have step: "tokenize_chars ts [] None (write_tokens (t # t' # toks)) = tokenize_chars (ts @ [t]) [] None (write_tokens (t' # toks))"
    using 3(2) by (auto simp: tokenize_token char_plain_facts)
  from 3(1) [of "ts @ [t]"] 3(2) show ?case unfolding step by auto
qed

lemma tokenize_kv_write: "[] \<notin> set toks \<Longrightarrow> tokenize_kv_line (write_tokens toks) = toks"
  using tokenize_chars_write [of toks "[]"] by (auto simp: tokenize_kv_line_def)

lemma digit_char: "n < 10 \<Longrightarrow> is_digit (char_of (48 + n)) \<and> (of_char (char_of (48 + n :: nat)) :: nat) = 48 + n"
  by (simp add: is_digit_def)

lemma write_nat_value: "list_all is_digit (write_nat n) \<and> digits_value (write_nat n) = n \<and> write_nat n \<noteq> []"
proof (induction n rule: write_nat.induct)
  case (1 n)
  show ?case
  proof (cases "n < 10")
    case True
    then show ?thesis using digit_char [of n] by (simp add: write_nat.simps [of n] digits_value_def)
  next
    case False
    have "n mod 10 < 10" by simp
    from digit_char [OF this] 1 [OF False] False show ?thesis by (simp add: write_nat.simps [of n] digits_value_def)
  qed
qed

lemma parse_write_nat: "n \<le> bound \<Longrightarrow> parse_uint bound (write_nat n) = Some n"
proof -
  assume "n \<le> bound"
  moreover have "\<not> is_digit (CHR ''+'')" by (simp add: is_digit_def)
  then have "(case write_nat n of c # cs \<Rightarrow> if c = CHR ''+'' then cs else write_nat n | [] \<Rightarrow> write_nat n) = write_nat n"
    using write_nat_value [of n] by (auto split: list.splits)
  ultimately show ?thesis using write_nat_value [of n] by (simp add: parse_uint_def)
qed

lemma digit_plain: "is_digit c \<Longrightarrow> plain_char c"
  by (auto simp: is_digit_def plain_char_def is_whitespace_def Let_def)

end
