(* ===== verification/Cluster_Config.thy ===== *)
theory Cluster_Config
  imports Conf_Text
begin

text \<open>
  The configuration files of the sharded store (\<open>shardedobjstr/src/config.rs\<close>): the flat format with
  \<open>shard\<close> lines and the tree format, where indentation nests clusters. An error carries the values of its
  message. What validation asks the file system is a record; reading the file is an argument.
\<close>

section \<open>Data\<close>

datatype shard_conf =
    RawShard (rs_path: string) (rs_read_only: bool) (rs_compression: "string option") (rs_direct_io: "bool option") (rs_size_mb: "nat option")
  | FsShard string bool
  | S3Shard (s3_endpoint: string) (s3_bucket: string) (s3_region: "string option") (s3_access_key: "string option")
      (s3_secret_key: "string option") (s3_path_style: bool)
  | MemShard
  | NodeShard string

definition type_name :: "shard_conf \<Rightarrow> string" where
  "type_name s = (case s of RawShard _ _ _ _ _ \<Rightarrow> ''raw'' | FsShard _ _ \<Rightarrow> ''fs'' | S3Shard _ _ _ _ _ _ \<Rightarrow> ''s3''
     | MemShard \<Rightarrow> ''mem'' | NodeShard _ \<Rightarrow> ''node'')"

datatype tree_node =
  TreeNode (tn_name: string) (tn_replication_factor: nat) (tn_min_writes: "nat option") (tn_shards: "shard_conf list")
    (tn_children: "tree_node list")

fun find_node :: "string \<Rightarrow> tree_node \<Rightarrow> tree_node option"
  and find_child :: "string \<Rightarrow> tree_node list \<Rightarrow> tree_node option" where
  "find_node name (TreeNode nm rf mw shards children) =
     (if nm = name then Some (TreeNode nm rf mw shards children) else find_child name children)"
| "find_child name [] = None"
| "find_child name (child # children) =
     (case find_node name child of Some found \<Rightarrow> Some found | None \<Rightarrow> find_child name children)"

record tree_conf =
  tc_cluster_name :: string
  tc_root :: tree_node
  tc_catalog :: "string option"
  tc_read_prefer :: "string option"
  tc_compression :: "string option"
  tc_direct_io :: bool
  tc_size_mb :: "nat option"
  tc_read_only :: bool

record cluster_conf =
  cc_replicas :: nat
  cc_min_writes :: "nat option"
  cc_catalog :: "string option"
  cc_read_prefer :: "string option"
  cc_direct_io :: bool
  cc_compression :: "string option"
  cc_size_mb :: "nat option"
  cc_read_only :: bool
  cc_delete_requires_min_writes :: bool
  cc_shards :: "shard_conf list"

datatype conf_error =
    AtLine nat conf_error
  | InNode string conf_error
  | UnterminatedQuote string
  | RequiresValue string
  | InvalidNumber string string
  | MustBePositive string
  | MinWritesAbove nat nat
  | UnknownReadPrefer string
  | UnknownDirective string
  | MissingField string string
  | UnknownOption string string
  | NoShardType
  | UnknownShardType string
  | NoShardsDefined
  | NoNodesDefined
  | UnexpectedEnd
  | EmptyLine string
  | DuplicateKey string
  | ReadFailed
  | FileTooLarge nat

definition DAEMON_DIRECTIVES :: "string list" where
  "DAEMON_DIRECTIVES = [''cluster'', ''bucket'', ''flush_interval'', ''admin_token'', ''access_key'', ''secret_key'',
     ''cors_origin'', ''log_file'', ''log_buffer_size'', ''event_socket'', ''event_secret'', ''max_readers'',
     ''event_source'', ''catalog_path'', ''catalog_format'', ''catalog_flush_interval'']"

definition TREE_DAEMON_DIRECTIVES :: "string list" where
  "TREE_DAEMON_DIRECTIVES = [''bucket'', ''flush_interval'', ''admin_token'', ''access_key'', ''secret_key'',
     ''cors_origin'', ''log_file'', ''log_buffer_size'', ''event_socket'', ''event_secret'', ''max_readers'',
     ''event_source'', ''catalog_path'', ''catalog_format'', ''catalog_flush_interval'']"

section \<open>Shards\<close>

definition tokenize :: "string \<Rightarrow> conf_error + string list" where
  "tokenize line =
     (case tokenize_chars [] [] None line of (tokens, current, in_quote) \<Rightarrow>
        if in_quote \<noteq> None then Inl (UnterminatedQuote line)
        else Inr (if current \<noteq> [] then tokens @ [current] else tokens))"

definition require_value :: "string list \<Rightarrow> string \<Rightarrow> nat \<Rightarrow> conf_error + string" where
  "require_value tokens key line = (if length tokens > 1 then Inr (tokens ! 1) else Inl (AtLine line (RequiresValue key)))"

definition is_read_only :: "string \<Rightarrow> bool" where
  "is_read_only tok \<longleftrightarrow> tok = ''readonly'' \<or> tok = ''read_only'' \<or> tok = ''read-only''"

definition is_true :: "string \<Rightarrow> bool" where
  "is_true val \<longleftrightarrow> val = ''true'' \<or> val = ''1''"

text \<open>\<open>tok.strip_prefix(a).or_else(|| tok.strip_prefix(b))\<close>.\<close>

definition strip_either :: "string \<Rightarrow> string \<Rightarrow> string \<Rightarrow> string option" where
  "strip_either a b tok = (case strip_prefix a tok of Some v \<Rightarrow> Some v | None \<Rightarrow> strip_prefix b tok)"

definition raw_option :: "nat \<Rightarrow> string \<Rightarrow> shard_conf \<Rightarrow> conf_error + shard_conf" where
  "raw_option line tok s =
     (case s of RawShard path ro cmp dio sz \<Rightarrow>
        if is_read_only tok then Inr (RawShard path True cmp dio sz)
        else if tok = ''direct_io'' \<or> tok = ''direct-io'' then Inr (RawShard path ro cmp (Some True) sz)
        else (case strip_prefix ''compression='' tok of
            Some val \<Rightarrow> Inr (RawShard path ro (Some val) dio sz)
          | None \<Rightarrow>
              (case strip_either ''size_mb='' ''size-mb='' tok of
                 Some val \<Rightarrow>
                   (case parse_uint u64_max val of
                      Some n \<Rightarrow> Inr (RawShard path ro cmp dio (Some n))
                    | None \<Rightarrow> Inl (AtLine line (InvalidNumber ''size_mb'' val)))
               | None \<Rightarrow>
                   (case strip_either ''direct_io='' ''direct-io='' tok of
                      Some val \<Rightarrow> Inr (RawShard path ro cmp (Some (is_true val)) sz)
                    | None \<Rightarrow> Inl (AtLine line (UnknownOption ''raw'' tok)))))
      | _ \<Rightarrow> Inr s)"

fun fold_tokens :: "(string \<Rightarrow> 'a \<Rightarrow> conf_error + 'a) \<Rightarrow> string list \<Rightarrow> 'a \<Rightarrow> conf_error + 'a" where
  "fold_tokens f [] s = Inr s"
| "fold_tokens f (tok # toks) s = (case f tok s of Inl e \<Rightarrow> Inl e | Inr s1 \<Rightarrow> fold_tokens f toks s1)"

definition parse_raw_shard :: "string list \<Rightarrow> nat \<Rightarrow> conf_error + shard_conf" where
  "parse_raw_shard tokens line =
     (case tokens of
        [] \<Rightarrow> Inl (AtLine line (MissingField ''raw'' ''path''))
      | first # rest \<Rightarrow>
          (let path = (case strip_prefix ''path='' first of Some p \<Rightarrow> p | None \<Rightarrow> first)
           in fold_tokens (raw_option line) rest (RawShard path False None None None)))"

definition fs_option :: "nat \<Rightarrow> string \<Rightarrow> bool \<Rightarrow> conf_error + bool" where
  "fs_option line tok ro = (if is_read_only tok then Inr True else Inl (AtLine line (UnknownOption ''fs'' tok)))"

definition parse_fs_shard :: "string list \<Rightarrow> nat \<Rightarrow> conf_error + shard_conf" where
  "parse_fs_shard tokens line =
     (case tokens of
        [] \<Rightarrow> Inl (AtLine line (MissingField ''fs'' ''root''))
      | first # rest \<Rightarrow>
          (let root = (case strip_prefix ''root='' first of Some p \<Rightarrow> p | None \<Rightarrow> first) in
           case fold_tokens (fs_option line) rest False of Inl e \<Rightarrow> Inl e | Inr ro \<Rightarrow> Inr (FsShard root ro)))"

text \<open>The assignment of one option of an S3 shard; \<open>None\<close> for an unknown one.\<close>

definition s3_assign :: "string \<Rightarrow> shard_conf \<Rightarrow> shard_conf option" where
  "s3_assign tok s =
     (case s of S3Shard ep bu re ak sk ps \<Rightarrow>
        (case strip_prefix ''endpoint='' tok of Some v \<Rightarrow> Some (S3Shard v bu re ak sk ps) | None \<Rightarrow>
        (case strip_prefix ''bucket='' tok of Some v \<Rightarrow> Some (S3Shard ep v re ak sk ps) | None \<Rightarrow>
        (case strip_prefix ''region='' tok of Some v \<Rightarrow> Some (S3Shard ep bu (Some v) ak sk ps) | None \<Rightarrow>
        (case strip_prefix ''access_key='' tok of Some v \<Rightarrow> Some (S3Shard ep bu re (Some v) sk ps) | None \<Rightarrow>
        (case strip_prefix ''secret_key='' tok of Some v \<Rightarrow> Some (S3Shard ep bu re ak (Some v) ps) | None \<Rightarrow>
          if tok = ''path_style'' \<or> tok = ''path_style=true'' then Some (S3Shard ep bu re ak sk True) else None)))))
      | _ \<Rightarrow> None)"

definition s3_option :: "nat \<Rightarrow> string \<Rightarrow> shard_conf \<Rightarrow> conf_error + shard_conf" where
  "s3_option line tok s =
     (case s3_assign tok s of Some s1 \<Rightarrow> Inr s1 | None \<Rightarrow> Inl (AtLine line (UnknownOption ''s3'' tok)))"

definition parse_s3_shard :: "string list \<Rightarrow> nat \<Rightarrow> conf_error + shard_conf" where
  "parse_s3_shard tokens line =
     (case fold_tokens (s3_option line) tokens (S3Shard [] [] None None None False) of
        Inl e \<Rightarrow> Inl e
      | Inr s \<Rightarrow>
          (if s3_endpoint s = [] then Inl (AtLine line (MissingField ''s3'' ''endpoint''))
           else if s3_bucket s = [] then Inl (AtLine line (MissingField ''s3'' ''bucket''))
           else Inr s))"

definition parse_shard_tokens :: "string list \<Rightarrow> nat \<Rightarrow> conf_error + shard_conf" where
  "parse_shard_tokens tokens line =
     (case tokens of
        [] \<Rightarrow> Inl (AtLine line NoShardType)
      | first # rest \<Rightarrow>
          (if first = ''raw'' then parse_raw_shard rest line
           else if first = ''fs'' then parse_fs_shard rest line
           else if first = ''s3'' then parse_s3_shard rest line
           else if first = ''mem'' then Inr MemShard
           else parse_raw_shard tokens line))"

section \<open>The flat format\<close>

definition skipped_prefix :: "string \<Rightarrow> bool" where
  "skipped_prefix key \<longleftrightarrow> prefix ''recovery_'' key \<or> prefix ''repair_replication_'' key"

text \<open>\<open>val.parse::<usize>()\<close> that must be at least 1.\<close>

definition positive_value :: "string list \<Rightarrow> string \<Rightarrow> nat \<Rightarrow> conf_error + nat" where
  "positive_value tokens key line =
     (case require_value tokens key line of
        Inl e \<Rightarrow> Inl e
      | Inr val \<Rightarrow>
          (case parse_uint u64_max val of
             None \<Rightarrow> Inl (AtLine line (InvalidNumber key val))
           | Some n \<Rightarrow> if n = 0 then Inl (AtLine line (MustBePositive key)) else Inr n))"

definition flag_value :: "string list \<Rightarrow> bool" where
  "flag_value tokens \<longleftrightarrow> (if length tokens > 1 then is_true (tokens ! 1) else True)"

definition cluster_directive :: "nat \<Rightarrow> string \<Rightarrow> string list \<Rightarrow> cluster_conf \<Rightarrow> conf_error + cluster_conf" where
  "cluster_directive line trimmed tokens st =
     (let key = hd tokens in
      if key = ''replicas'' then
        (case positive_value tokens key line of Inl e \<Rightarrow> Inl e | Inr n \<Rightarrow> Inr (st\<lparr>cc_replicas := n\<rparr>))
      else if key = ''min_writes'' then
        (case positive_value tokens key line of Inl e \<Rightarrow> Inl e | Inr n \<Rightarrow> Inr (st\<lparr>cc_min_writes := Some n\<rparr>))
      else if key = ''catalog'' then
        (case require_value tokens key line of Inl e \<Rightarrow> Inl e | Inr v \<Rightarrow> Inr (st\<lparr>cc_catalog := Some v\<rparr>))
      else if key = ''read_prefer'' then
        (case require_value tokens key line of
           Inl e \<Rightarrow> Inl e
         | Inr v \<Rightarrow> if v = ''round-robin'' \<or> v = ''ordered'' then Inr (st\<lparr>cc_read_prefer := Some v\<rparr>)
             else Inl (AtLine line (UnknownReadPrefer v)))
      else if key = ''direct_io'' then Inr (st\<lparr>cc_direct_io := flag_value tokens\<rparr>)
      else if key = ''compression'' then
        (case require_value tokens key line of Inl e \<Rightarrow> Inl e | Inr v \<Rightarrow> Inr (st\<lparr>cc_compression := Some v\<rparr>))
      else if key = ''size_mb'' then
        (case require_value tokens key line of
           Inl e \<Rightarrow> Inl e
         | Inr v \<Rightarrow> (case parse_uint u64_max v of Some n \<Rightarrow> Inr (st\<lparr>cc_size_mb := Some n\<rparr>)
             | None \<Rightarrow> Inl (AtLine line (InvalidNumber key v))))
      else if key = ''read_only'' then Inr (st\<lparr>cc_read_only := flag_value tokens\<rparr>)
      else if key = ''delete_requires_min_writes'' then Inr (st\<lparr>cc_delete_requires_min_writes := flag_value tokens\<rparr>)
      else if key = ''shard'' then
        (case parse_shard_tokens (tl tokens) line of Inl e \<Rightarrow> Inl e | Inr s \<Rightarrow> Inr (st\<lparr>cc_shards := cc_shards st @ [s]\<rparr>))
      else if key \<in> set DAEMON_DIRECTIVES then Inr st
      else if skipped_prefix key then Inr st
      else if sublist ''rf='' trimmed then Inr st
      else Inl (AtLine line (UnknownDirective key)))"

definition indent_of :: "string \<Rightarrow> nat" where
  "indent_of raw_line = length raw_line - length (trim_start raw_line)"

definition is_blank :: "string \<Rightarrow> bool" where
  "is_blank trimmed \<longleftrightarrow> trimmed = [] \<or> prefix ''#'' trimmed"

definition cluster_line :: "nat \<Rightarrow> string \<Rightarrow> cluster_conf \<Rightarrow> conf_error + cluster_conf" where
  "cluster_line line raw_line st =
     (let trimmed = trim raw_line in
      if is_blank trimmed then Inr st
      else if indent_of raw_line > 0 then Inr st
      else case tokenize trimmed of
        Inl e \<Rightarrow> Inl (AtLine line e)
      | Inr tokens \<Rightarrow> if tokens = [] then Inr st else cluster_directive line trimmed tokens st)"

fun cluster_lines :: "nat \<Rightarrow> string list \<Rightarrow> cluster_conf \<Rightarrow> conf_error + cluster_conf" where
  "cluster_lines line [] st = Inr st"
| "cluster_lines line (l # ls) st = (case cluster_line line l st of Inl e \<Rightarrow> Inl e | Inr st1 \<Rightarrow> cluster_lines (line + 1) ls st1)"

definition cluster_start :: cluster_conf where
  "cluster_start = \<lparr>cc_replicas = 1, cc_min_writes = None, cc_catalog = None, cc_read_prefer = None, cc_direct_io = False,
     cc_compression = None, cc_size_mb = None, cc_read_only = False, cc_delete_requires_min_writes = False, cc_shards = []\<rparr>"

definition parse_cluster_conf :: "string \<Rightarrow> conf_error + cluster_conf" where
  "parse_cluster_conf text =
     (case cluster_lines 1 (text_lines text) cluster_start of
        Inl e \<Rightarrow> Inl e
      | Inr st \<Rightarrow>
          (if cc_shards st = [] then Inl NoShardsDefined
           else case cc_min_writes st of
             Some mw \<Rightarrow> if mw > cc_replicas st then Inl (MinWritesAbove mw (cc_replicas st)) else Inr st
           | None \<Rightarrow> Inr st))"

definition load_cluster_conf :: "string option \<Rightarrow> conf_error + cluster_conf" where
  "load_cluster_conf text = (case text of None \<Rightarrow> Inl ReadFailed | Some t \<Rightarrow> parse_cluster_conf t)"

section \<open>The tree format\<close>

definition is_tree_node_line :: "string \<Rightarrow> bool" where
  "is_tree_node_line line \<longleftrightarrow>
     first_word line \<notin> set [''raw'', ''fs'', ''s3'', ''mem'', ''shard''] \<and> sublist ''rf='' line"

definition node_option :: "string \<Rightarrow> string \<Rightarrow> nat \<times> nat option \<Rightarrow> conf_error + (nat \<times> nat option)" where
  "node_option name part st =
     (case strip_prefix ''rf='' part of
        Some val \<Rightarrow>
          (case parse_uint u64_max val of
             None \<Rightarrow> Inl (InNode name (InvalidNumber ''rf'' val))
           | Some n \<Rightarrow> if n = 0 then Inl (InNode name (MustBePositive ''rf'')) else Inr (n, snd st))
      | None \<Rightarrow>
          (case strip_prefix ''min_writes='' part of
             Some val \<Rightarrow>
               (case parse_uint u64_max val of
                  None \<Rightarrow> Inl (InNode name (InvalidNumber ''min_writes'' val))
                | Some n \<Rightarrow> if n = 0 then Inl (InNode name (MustBePositive ''min_writes'')) else Inr (fst st, Some n))
           | None \<Rightarrow> Inr st))"

definition parse_tree_node_line :: "string \<Rightarrow> conf_error + (string \<times> nat \<times> nat option)" where
  "parse_tree_node_line line =
     (case tokenize line of
        Inl e \<Rightarrow> Inl e
      | Inr [] \<Rightarrow> Inl (EmptyLine ''node'')
      | Inr (name # parts) \<Rightarrow>
          (case fold_tokens (node_option name) parts (1, None) of
             Inl e \<Rightarrow> Inl e
           | Inr (rf, Some mw) \<Rightarrow> if mw > rf then Inl (InNode name (MinWritesAbove mw rf)) else Inr (name, rf, Some mw)
           | Inr (rf, None) \<Rightarrow> Inr (name, rf, None)))"

definition parse_tree_shard_line :: "string \<Rightarrow> conf_error + shard_conf" where
  "parse_tree_shard_line line =
     (case tokenize line of
        Inl e \<Rightarrow> Inl e
      | Inr [] \<Rightarrow> Inl (EmptyLine ''shard'')
      | Inr (first # rest) \<Rightarrow>
          (if first = ''raw'' then parse_raw_shard rest 0
           else if first = ''fs'' then parse_fs_shard rest 0
           else if first = ''s3'' then parse_s3_shard rest 0
           else if first = ''mem'' then Inr MemShard
           else if prefix ''/'' first \<or> CHR ''.'' \<in> set first then parse_raw_shard (first # rest) 0
           else Inl (UnknownShardType first)))"

text \<open>
  The loop of \<open>parse_tree_node_block\<close> below a node of the given indentation, on the lines from the current
  position; the result has the lines that follow the block.
\<close>

function tree_body ::
  "nat \<Rightarrow> (nat \<times> string) list \<Rightarrow> shard_conf list \<Rightarrow> tree_node list \<Rightarrow>
     conf_error + (shard_conf list \<times> tree_node list \<times> (nat \<times> string) list)" where
  "tree_body node_indent [] shards children = Inr (shards, children, [])"
| "tree_body node_indent ((indent, line) # ls) shards children =
     (if indent \<le> node_indent then Inr (shards, children, (indent, line) # ls)
      else if is_tree_node_line line then
        (case parse_tree_node_line line of
           Inl e \<Rightarrow> Inl e
         | Inr (name, rf, mw) \<Rightarrow>
             (case tree_body indent ls [] [] of
                Inl e \<Rightarrow> Inl e
              | Inr (sh, ch, rest) \<Rightarrow>
                  tree_body node_indent rest (shards @ [NodeShard name]) (children @ [TreeNode name rf mw sh ch])))
      else
        (case parse_tree_shard_line line of
           Inl e \<Rightarrow> Inl e
         | Inr s \<Rightarrow> tree_body node_indent ls (shards @ [s]) children))"
  by pat_completeness auto

termination
proof -
  have shorter: "length rest \<le> length ls" if "tree_body_dom (i, ls, sh, ch)" and "tree_body i ls sh ch = Inr (sh', ch', rest)" for i ls sh ch sh' ch' rest
    using that
  proof (induction i ls sh ch arbitrary: sh' ch' rest rule: tree_body.pinduct)
    case (1 i sh ch)
    then show ?case by (simp add: tree_body.psimps)
  next
    case (2 i j l ls sh ch)
    show ?case
    proof (cases "j \<le> i \<or> \<not> is_tree_node_line l")
      case True
      with 2 show ?thesis by (auto simp: tree_body.psimps split: sum.splits if_splits) (meson le_SucI not_le)+
    next
      case False
      with 2(1,5) obtain name rf mw sh1 ch1 rest1 where p: "parse_tree_node_line l = Inr (name, rf, mw)"
        and b: "tree_body j ls [] [] = Inr (sh1, ch1, rest1)"
        and r: "tree_body i rest1 (sh @ [NodeShard name]) (ch @ [TreeNode name rf mw sh1 ch1]) = Inr (sh', ch', rest)"
        by (auto simp: tree_body.psimps split: sum.splits prod.splits)
      have "length rest1 \<le> length ls" using 2(2) [OF _ _ p refl refl b] False by simp
      moreover have "length rest \<le> length rest1" using 2(3) [OF _ _ p refl refl b refl refl r] False by simp
      ultimately show ?thesis by simp
    qed
  qed
  show ?thesis
    by (relation "measure (\<lambda>(_, ls, _, _). length ls)") (auto dest: shorter)
qed

definition parse_tree_node_block :: "(nat \<times> string) list \<Rightarrow> conf_error + (tree_node \<times> (nat \<times> string) list)" where
  "parse_tree_node_block lines =
     (case lines of
        [] \<Rightarrow> Inl UnexpectedEnd
      | (indent, line) # ls \<Rightarrow>
          (case parse_tree_node_line line of
             Inl e \<Rightarrow> Inl e
           | Inr (name, rf, mw) \<Rightarrow>
               (case tree_body indent ls [] [] of
                  Inl e \<Rightarrow> Inl e
                | Inr (sh, ch, rest) \<Rightarrow> Inr (TreeNode name rf mw sh ch, rest))))"

definition content_lines :: "string \<Rightarrow> (nat \<times> string) list" where
  "content_lines text =
     map (\<lambda>l. (indent_of l, trim l)) (filter (\<lambda>l. \<not> is_blank (trim l)) (text_lines text))"

text \<open>A line of indentation 0 is a directive, or it stays for the node parser (\<open>None\<close>).\<close>

definition tree_directive :: "string \<Rightarrow> tree_conf \<Rightarrow> conf_error + tree_conf option" where
  "tree_directive line st =
     (case key_value line of (key, val) \<Rightarrow>
        if key = ''cluster'' then Inr (Some (st\<lparr>tc_cluster_name := (case val of Some v \<Rightarrow> v | None \<Rightarrow> [])\<rparr>))
        else if key = ''catalog'' then Inr (Some (st\<lparr>tc_catalog := val\<rparr>))
        else if key = ''read_prefer'' then
          (case val of
             Some v \<Rightarrow> if v = ''round-robin'' \<or> v = ''ordered'' then Inr (Some (st\<lparr>tc_read_prefer := Some v\<rparr>))
               else Inl (UnknownReadPrefer v)
           | None \<Rightarrow> Inr (Some st))
        else if key = ''replicas'' then Inr (Some st)
        else if key = ''compression'' then Inr (Some (st\<lparr>tc_compression := val\<rparr>))
        else if key = ''direct_io'' then Inr (Some (st\<lparr>tc_direct_io := (case val of Some v \<Rightarrow> is_true v | None \<Rightarrow> True)\<rparr>))
        else if key = ''size_mb'' then
          (case val of
             Some v \<Rightarrow> (case parse_uint u64_max v of Some n \<Rightarrow> Inr (Some (st\<lparr>tc_size_mb := Some n\<rparr>))
               | None \<Rightarrow> Inl (InvalidNumber ''size_mb'' v))
           | None \<Rightarrow> Inr (Some st))
        else if key = ''read_only'' then Inr (Some (st\<lparr>tc_read_only := (case val of Some v \<Rightarrow> is_true v | None \<Rightarrow> True)\<rparr>))
        else if key \<in> set TREE_DAEMON_DIRECTIVES then Inr (Some st)
        else if skipped_prefix key then Inr (Some st)
        else Inr None)"

fun tree_directives ::
  "(nat \<times> string) list \<Rightarrow> (nat \<times> string) list \<Rightarrow> tree_conf \<Rightarrow> conf_error + ((nat \<times> string) list \<times> tree_conf)" where
  "tree_directives [] remaining st = Inr (remaining, st)"
| "tree_directives ((indent, line) # ls) remaining st =
     (if indent = 0 then
        (case tree_directive line st of
           Inl e \<Rightarrow> Inl e
         | Inr (Some st1) \<Rightarrow> tree_directives ls remaining st1
         | Inr None \<Rightarrow> tree_directives ls (remaining @ [(indent, line)]) st)
      else tree_directives ls (remaining @ [(indent, line)]) st)"

definition tree_start :: tree_conf where
  "tree_start = \<lparr>tc_cluster_name = [], tc_root = TreeNode [] 0 None [] [], tc_catalog = None, tc_read_prefer = None,
     tc_compression = None, tc_direct_io = False, tc_size_mb = None, tc_read_only = False\<rparr>"

definition parse_tree_conf :: "string \<Rightarrow> conf_error + tree_conf" where
  "parse_tree_conf text =
     (case tree_directives (content_lines text) [] tree_start of
        Inl e \<Rightarrow> Inl e
      | Inr (remaining, st) \<Rightarrow>
          (if remaining = [] then Inl NoNodesDefined
           else case parse_tree_node_block remaining of
             Inl e \<Rightarrow> Inl e
           | Inr (root, _) \<Rightarrow>
               Inr (st\<lparr>tc_root := root, tc_cluster_name := (if tc_cluster_name st = [] then tn_name root else tc_cluster_name st)\<rparr>)))"

definition load_tree_conf :: "string option \<Rightarrow> conf_error + tree_conf" where
  "load_tree_conf text = (case text of None \<Rightarrow> Inl ReadFailed | Some t \<Rightarrow> parse_tree_conf t)"

definition is_tree_config :: "string \<Rightarrow> bool" where
  "is_tree_config text \<longleftrightarrow> list_ex (\<lambda>(indent, line). indent = 0 \<and> is_tree_node_line line) (content_lines text)"

definition load_auto_conf :: "string option \<Rightarrow> conf_error + tree_conf" where
  "load_auto_conf text =
     (case text of
        None \<Rightarrow> Inl ReadFailed
      | Some t \<Rightarrow>
          (if is_tree_config t then parse_tree_conf t
           else case parse_cluster_conf t of
             Inl e \<Rightarrow> Inl e
           | Inr flat \<Rightarrow> Inr \<lparr>tc_cluster_name = [],
               tc_root = TreeNode ''root'' (cc_replicas flat) (cc_min_writes flat) (cc_shards flat) [],
               tc_catalog = cc_catalog flat, tc_read_prefer = cc_read_prefer flat, tc_compression = cc_compression flat,
               tc_direct_io = cc_direct_io flat, tc_size_mb = cc_size_mb flat, tc_read_only = cc_read_only flat\<rparr>))"

section \<open>Validation\<close>

text \<open>What validation asks the file system: whether a path exists, and the parent of a path if it is named and missing.\<close>

record file_system =
  fs_exists :: "string \<Rightarrow> bool"
  fs_missing_parent :: "string \<Rightarrow> string option"

datatype diag_level = DiagError | DiagWarning | DiagInfo

datatype diag_message =
    ReplicasClamped nat nat
  | UnknownGlobalCompression string
  | WillBeFormatted nat string
  | NoSizeSet nat string
  | ParentMissing nat string
  | UnknownCompression nat string
  | DirectoryMissing nat string
  | EmptyEndpoint nat
  | EmptyBucket nat
  | Summary nat nat string

definition unknown_compression :: "string option \<Rightarrow> string option" where
  "unknown_compression cmp = (case cmp of Some name \<Rightarrow> if is_ok (compression_from_str_name name) then None else Some name | None \<Rightarrow> None)"

definition validate_shard :: "file_system \<Rightarrow> cluster_conf \<Rightarrow> nat \<times> shard_conf \<Rightarrow> (diag_level \<times> diag_message) list" where
  "validate_shard fs conf is =
     (case is of (i, shard) \<Rightarrow>
        (case shard of
           RawShard path ro cmp dio sz \<Rightarrow>
             (if fs_exists fs path then []
              else if sz \<noteq> None \<or> cc_size_mb conf \<noteq> None then [(DiagInfo, WillBeFormatted i path)]
              else [(DiagWarning, NoSizeSet i path)]) @
             (case fs_missing_parent fs path of Some parent \<Rightarrow> [(DiagError, ParentMissing i parent)] | None \<Rightarrow> []) @
             (case unknown_compression cmp of Some name \<Rightarrow> [(DiagError, UnknownCompression i name)] | None \<Rightarrow> [])
         | FsShard root ro \<Rightarrow> (if fs_exists fs root then [] else [(DiagWarning, DirectoryMissing i root)])
         | S3Shard ep bu re ak sk ps \<Rightarrow>
             (if ep = [] then [(DiagError, EmptyEndpoint i)] else []) @ (if bu = [] then [(DiagError, EmptyBucket i)] else [])
         | MemShard \<Rightarrow> []
         | NodeShard name \<Rightarrow> []))"

definition validate_cluster_conf :: "file_system \<Rightarrow> cluster_conf \<Rightarrow> (diag_level \<times> diag_message) list" where
  "validate_cluster_conf fs conf =
     (if cc_replicas conf > length (cc_shards conf)
      then [(DiagWarning, ReplicasClamped (cc_replicas conf) (length (cc_shards conf)))] else []) @
     (case unknown_compression (cc_compression conf) of Some name \<Rightarrow> [(DiagError, UnknownGlobalCompression name)] | None \<Rightarrow> []) @
     concat (map (validate_shard fs conf) (enumerate 0 (cc_shards conf))) @
     [(DiagInfo, Summary (length (cc_shards conf)) (cc_replicas conf) (case cc_catalog conf of Some c \<Rightarrow> c | None \<Rightarrow> ''none''))]"

end
