(* ===== verification/Server_Config.thy ===== *)
theory Server_Config
  imports Cluster_Config
begin

text \<open>
  The configuration of the server (\<open>objstrd/src/config.rs\<close>): the tree format with the directives of the
  server, its validation, and the flat cluster configuration that comes from environment variables or
  from a JSON file. The JSON decoder, the environment and the files are arguments; warnings that are
  only logged are left out. The hash map that groups nodes by host is visited in the order in which the
  hosts were first met.
\<close>

section \<open>The tree of server nodes\<close>

text \<open>\<open>TreeShard\<close> has the variants and fields of the sharded store's \<open>ShardConf\<close>.\<close>

type_synonym tree_shard = shard_conf

datatype server_node =
  ServerNode (sn_name: string) (sn_listen: string) (sn_endpoint: string) (sn_replication_factor: nat)
    (sn_min_writes: "nat option") (sn_delete_requires_min_writes: bool) (sn_shards: "tree_shard list")
    (sn_children: "server_node list")

record server_conf =
  tg_cluster_name :: string
  tg_default_bucket :: string
  tg_root :: server_node
  tg_read_prefer :: "string option"
  tg_recovery_enabled :: "bool option"
  tg_recovery_poll_secs :: "nat option"
  tg_recovery_probe_timeout_secs :: "nat option"
  tg_recovery_failure_threshold :: "nat option"
  tg_recovery_re_replicate_batch_size :: "nat option"
  tg_repair_replication_interval_secs :: "nat option"
  tg_repair_replication_batch_size :: "nat option"
  tg_compression :: "string option"
  tg_direct_io :: "bool option"
  tg_size_mb :: "nat option"
  tg_flush_interval :: "nat option"
  tg_admin_token :: "string option"
  tg_access_key :: "string option"
  tg_secret_key :: "string option"
  tg_cors_origin :: "string option"
  tg_log_file :: "string option"
  tg_log_buffer_size :: "nat option"
  tg_event_socket :: "string option"
  tg_event_secret :: "string option"
  tg_max_readers :: "nat option"
  tg_event_source :: "string option"
  tg_catalog_path :: "string option"
  tg_catalog_format :: "string option"
  tg_catalog_flush_interval :: "nat option"

fun find_node_recursive :: "server_node \<Rightarrow> string \<Rightarrow> server_node option"
  and find_in_children :: "server_node list \<Rightarrow> string \<Rightarrow> server_node option" where
  "find_node_recursive (ServerNode nm li ep rf mw dr shards children) name =
     (if nm = name then Some (ServerNode nm li ep rf mw dr shards children) else find_in_children children name)"
| "find_in_children [] name = None"
| "find_in_children (child # children) name =
     (case find_node_recursive child name of Some found \<Rightarrow> Some found | None \<Rightarrow> find_in_children children name)"

section \<open>Node and shard lines\<close>

definition is_node_line :: "string \<Rightarrow> bool" where
  "is_node_line line \<longleftrightarrow> first_word line \<notin> set [''raw'', ''fs'', ''s3'', ''mem''] \<and> sublist ''rf='' line"

record parsed_node =
  pn_listen :: string
  pn_endpoint :: string
  pn_replication_factor :: nat
  pn_min_writes :: "nat option"
  pn_delete_requires_min_writes :: bool

text \<open>\<open>part.split('=').next()\<close>.\<close>

definition key_of_part :: "string \<Rightarrow> string" where
  "key_of_part part = takeWhile (\<lambda>c. c \<noteq> CHR ''='') part"

definition node_part :: "string \<Rightarrow> string \<Rightarrow> parsed_node \<Rightarrow> conf_error + parsed_node" where
  "node_part name part p =
     (case strip_prefix ''rf='' part of
        Some val \<Rightarrow>
          (case parse_uint u64_max val of
             None \<Rightarrow> Inl (InvalidNumber ''rf'' val)
           | Some n \<Rightarrow> Inr (p\<lparr>pn_replication_factor := n\<rparr>))
      | None \<Rightarrow>
     (case strip_prefix ''min_writes='' part of
        Some val \<Rightarrow>
          (case parse_uint u64_max val of
             None \<Rightarrow> Inl (InvalidNumber ''min_writes'' val)
           | Some n \<Rightarrow> if n = 0 then Inl (InNode name (MustBePositive ''min_writes'')) else Inr (p\<lparr>pn_min_writes := Some n\<rparr>))
      | None \<Rightarrow>
          if part = ''delete_requires_min_writes'' \<or> part = ''delete_requires_min_writes=true'' \<or> part = ''delete_requires_min_writes=1''
          then Inr (p\<lparr>pn_delete_requires_min_writes := True\<rparr>)
          else if part = ''delete_requires_min_writes=false'' \<or> part = ''delete_requires_min_writes=0''
          then Inr (p\<lparr>pn_delete_requires_min_writes := False\<rparr>)
          else
     (case strip_prefix ''listen='' part of
        Some val \<Rightarrow> Inr (p\<lparr>pn_listen := val\<rparr>)
      | None \<Rightarrow>
     (case strip_prefix ''endpoint='' part of
        Some val \<Rightarrow> Inr (p\<lparr>pn_endpoint := val\<rparr>)
      | None \<Rightarrow> Inr p))))"

text \<open>The loop over the parts of a line: a key that occurs twice is an error, made by \<open>dup\<close>.\<close>

fun unique_parts ::
  "(string \<Rightarrow> conf_error) \<Rightarrow> (string \<Rightarrow> 'a \<Rightarrow> conf_error + 'a) \<Rightarrow> string list \<Rightarrow> string list \<Rightarrow> 'a \<Rightarrow> conf_error + 'a" where
  "unique_parts dup f seen_keys [] s = Inr s"
| "unique_parts dup f seen_keys (part # parts) s =
     (if key_of_part part \<in> set seen_keys then Inl (dup (key_of_part part))
      else case f part s of Inl e \<Rightarrow> Inl e | Inr s1 \<Rightarrow> unique_parts dup f (seen_keys @ [key_of_part part]) parts s1)"

definition parse_node_line :: "string \<Rightarrow> conf_error + (string \<times> parsed_node)" where
  "parse_node_line line =
     (case tokenize_kv_line line of
        [] \<Rightarrow> Inl (EmptyLine ''node'')
      | name # parts \<Rightarrow>
          (case unique_parts (\<lambda>k. InNode name (DuplicateKey k)) (node_part name) [] parts
              \<lparr>pn_listen = [], pn_endpoint = [], pn_replication_factor = 1, pn_min_writes = None, pn_delete_requires_min_writes = False\<rparr> of
             Inl e \<Rightarrow> Inl e
           | Inr p \<Rightarrow>
               if pn_listen p = [] then Inl (MissingField name ''listen'')
               else if pn_endpoint p = [] then Inl (MissingField name ''endpoint'')
               else case pn_min_writes p of
                 Some v \<Rightarrow> if v > pn_replication_factor p then Inl (InNode name (MinWritesAbove v (pn_replication_factor p))) else Inr (name, p)
               | None \<Rightarrow> Inr (name, p)))"

definition raw_part :: "string \<Rightarrow> shard_conf \<Rightarrow> conf_error + shard_conf" where
  "raw_part part s =
     (case s of RawShard path ro cmp dio sz \<Rightarrow>
        if is_read_only part then Inr (RawShard path True cmp dio sz)
        else if part = ''direct_io'' \<or> part = ''direct-io'' then Inr (RawShard path ro cmp (Some True) sz)
        else (case strip_either ''direct_io='' ''direct-io='' part of
            Some val \<Rightarrow> Inr (RawShard path ro cmp (Some (is_true val)) sz)
          | None \<Rightarrow>
              (case strip_prefix ''compression='' part of
                 Some val \<Rightarrow> Inr (RawShard path ro (Some val) dio sz)
               | None \<Rightarrow>
                   (case strip_either ''size_mb='' ''size-mb='' part of
                      Some val \<Rightarrow>
                        (case parse_uint u64_max val of
                           Some n \<Rightarrow> Inr (RawShard path ro cmp dio (Some n))
                         | None \<Rightarrow> Inl (InvalidNumber ''size_mb'' val))
                    | None \<Rightarrow> Inr s)))
      | _ \<Rightarrow> Inr s)"

text \<open>An S3 option is assigned as in the sharded store (\<open>s3_assign\<close>); an unknown one is ignored here.\<close>

definition s3_part :: "string \<Rightarrow> shard_conf \<Rightarrow> conf_error + shard_conf" where
  "s3_part part s = (case s3_assign part s of Some s1 \<Rightarrow> Inr s1 | None \<Rightarrow> Inr s)"

definition parse_shard_line :: "string \<Rightarrow> conf_error + tree_shard" where
  "parse_shard_line line =
     (case tokenize_kv_line line of
        [] \<Rightarrow> Inl (EmptyLine ''shard'')
      | first # rest \<Rightarrow>
          (if first = ''raw'' then
             (case rest of
                [] \<Rightarrow> Inl (MissingField ''raw'' ''path'')
              | path # parts \<Rightarrow> fold_tokens raw_part parts (RawShard path False None None None))
           else if first = ''fs'' then
             (case rest of
                [] \<Rightarrow> Inl (MissingField ''fs'' ''root'')
              | root # parts \<Rightarrow> Inr (FsShard root (list_ex is_read_only parts)))
           else if first = ''mem'' then Inr MemShard
           else if first = ''s3'' then
             (case unique_parts DuplicateKey s3_part [] rest (S3Shard [] [] None None None False) of
                Inl e \<Rightarrow> Inl e
              | Inr s \<Rightarrow>
                  if s3_endpoint s = [] then Inl (MissingField ''s3'' ''endpoint'')
                  else if s3_bucket s = [] then Inl (MissingField ''s3'' ''bucket'')
                  else Inr s)
           else Inl (UnknownShardType first)))"

section \<open>Node blocks\<close>

definition server_node_of :: "string \<times> parsed_node \<Rightarrow> tree_shard list \<Rightarrow> server_node list \<Rightarrow> server_node" where
  "server_node_of np shards children =
     (case np of (name, p) \<Rightarrow>
        ServerNode name (pn_listen p) (pn_endpoint p) (pn_replication_factor p) (pn_min_writes p) (pn_delete_requires_min_writes p)
          shards children)"

function server_body ::
  "nat \<Rightarrow> (nat \<times> string) list \<Rightarrow> tree_shard list \<Rightarrow> server_node list \<Rightarrow>
     conf_error + (tree_shard list \<times> server_node list \<times> (nat \<times> string) list)" where
  "server_body node_indent [] shards children = Inr (shards, children, [])"
| "server_body node_indent ((indent, line) # ls) shards children =
     (if indent \<le> node_indent then Inr (shards, children, (indent, line) # ls)
      else if is_node_line line then
        (case parse_node_line line of
           Inl e \<Rightarrow> Inl e
         | Inr np \<Rightarrow>
             (case server_body indent ls [] [] of
                Inl e \<Rightarrow> Inl e
              | Inr (sh, ch, rest) \<Rightarrow>
                  server_body node_indent rest (shards @ [NodeShard (fst np)]) (children @ [server_node_of np sh ch])))
      else
        (case parse_shard_line line of
           Inl e \<Rightarrow> Inl e
         | Inr s \<Rightarrow> server_body node_indent ls (shards @ [s]) children))"
  by pat_completeness auto

termination
proof -
  have shorter: "length rest \<le> length ls" if "server_body_dom (i, ls, sh, ch)" and "server_body i ls sh ch = Inr (sh', ch', rest)" for i ls sh ch sh' ch' rest
    using that
  proof (induction i ls sh ch arbitrary: sh' ch' rest rule: server_body.pinduct)
    case (1 i sh ch)
    then show ?case by (simp add: server_body.psimps)
  next
    case (2 i j l ls sh ch)
    show ?case
    proof (cases "j \<le> i \<or> \<not> is_node_line l")
      case True
      with 2 show ?thesis by (auto simp: server_body.psimps split: sum.splits if_splits) (meson le_SucI not_le)+
    next
      case False
      with 2(1,5) obtain np sh1 ch1 rest1 where p: "parse_node_line l = Inr np"
        and b: "server_body j ls [] [] = Inr (sh1, ch1, rest1)"
        and r: "server_body i rest1 (sh @ [NodeShard (fst np)]) (ch @ [server_node_of np sh1 ch1]) = Inr (sh', ch', rest)"
        by (auto simp: server_body.psimps split: sum.splits)
      have "length rest1 \<le> length ls" using 2(2) [OF _ _ p b] False by simp
      moreover have "length rest \<le> length rest1" using 2(3) [OF _ _ p b refl refl r] False by simp
      ultimately show ?thesis by simp
    qed
  qed
  show ?thesis
    by (relation "measure (\<lambda>(_, ls, _, _). length ls)") (auto dest: shorter)
qed

definition parse_node_block :: "(nat \<times> string) list \<Rightarrow> conf_error + (server_node \<times> (nat \<times> string) list)" where
  "parse_node_block lines =
     (case lines of
        [] \<Rightarrow> Inl UnexpectedEnd
      | (indent, line) # ls \<Rightarrow>
          (case parse_node_line line of
             Inl e \<Rightarrow> Inl e
           | Inr np \<Rightarrow>
               (case server_body indent ls [] [] of
                  Inl e \<Rightarrow> Inl e
                | Inr (sh, ch, rest) \<Rightarrow> Inr (server_node_of np sh ch, rest))))"

section \<open>The directives\<close>

definition u32_max :: nat where
  "u32_max = 2 ^ 32 - 1"

text \<open>A directive with a number; without a value it is ignored.\<close>

definition num_directive :: "nat \<Rightarrow> string \<Rightarrow> string option \<Rightarrow> (nat \<Rightarrow> server_conf) \<Rightarrow> server_conf \<Rightarrow> conf_error + server_conf option" where
  "num_directive bound key val upd st =
     (case val of
        None \<Rightarrow> Inr (Some st)
      | Some v \<Rightarrow> (case parse_uint bound v of Some n \<Rightarrow> Inr (Some (upd n)) | None \<Rightarrow> Inl (InvalidNumber key v)))"

definition recovery_directive :: "string \<Rightarrow> string option \<Rightarrow> server_conf \<Rightarrow> conf_error + server_conf option" where
  "recovery_directive key val st =
     (case val of
        None \<Rightarrow> Inr (Some st)
      | Some v \<Rightarrow>
        if key = ''recovery_enabled'' then Inr (Some (st\<lparr>tg_recovery_enabled := Some (is_true v)\<rparr>))
        else if key = ''recovery_poll_secs'' then num_directive u64_max ''recovery_poll_secs'' val (\<lambda>n. st\<lparr>tg_recovery_poll_secs := Some n\<rparr>) st
        else if key = ''recovery_probe_timeout_secs'' then num_directive u64_max ''recovery_probe_timeout_secs'' val (\<lambda>n. st\<lparr>tg_recovery_probe_timeout_secs := Some n\<rparr>) st
        else if key = ''recovery_failure_threshold'' then num_directive u32_max ''recovery_failure_threshold'' val (\<lambda>n. st\<lparr>tg_recovery_failure_threshold := Some n\<rparr>) st
        else if key = ''recovery_re_replicate_batch_size'' then num_directive u64_max ''recovery_re_replicate_batch_size'' val (\<lambda>n. st\<lparr>tg_recovery_re_replicate_batch_size := Some n\<rparr>) st
        else Inr (Some st))"

definition known_directive :: "string \<Rightarrow> string option \<Rightarrow> server_conf \<Rightarrow> conf_error + server_conf option" where
  "known_directive key val st =
       (if key = ''compression'' then Inr (Some (st\<lparr>tg_compression := val\<rparr>))
        else if key = ''direct_io'' then Inr (Some (st\<lparr>tg_direct_io := Some (case val of Some v \<Rightarrow> is_true v | None \<Rightarrow> True)\<rparr>))
        else if key = ''size_mb'' then num_directive u64_max ''size_mb'' val (\<lambda>n. st\<lparr>tg_size_mb := Some n\<rparr>) st
        else if key = ''flush_interval'' then num_directive u64_max ''flush_interval'' val (\<lambda>n. st\<lparr>tg_flush_interval := Some n\<rparr>) st
        else if key = ''admin_token'' then Inr (Some (st\<lparr>tg_admin_token := val\<rparr>))
        else if key = ''access_key'' then Inr (Some (st\<lparr>tg_access_key := val\<rparr>))
        else if key = ''secret_key'' then Inr (Some (st\<lparr>tg_secret_key := val\<rparr>))
        else if key = ''cors_origin'' then Inr (Some (st\<lparr>tg_cors_origin := val\<rparr>))
        else if key = ''log_file'' then Inr (Some (st\<lparr>tg_log_file := val\<rparr>))
        else if key = ''log_buffer_size'' then num_directive u64_max ''log_buffer_size'' val (\<lambda>n. st\<lparr>tg_log_buffer_size := Some n\<rparr>) st
        else if key = ''event_socket'' then Inr (Some (st\<lparr>tg_event_socket := val\<rparr>))
        else if key = ''event_secret'' then Inr (Some (st\<lparr>tg_event_secret := val\<rparr>))
        else if key = ''max_readers'' then num_directive u64_max ''max_readers'' val (\<lambda>n. st\<lparr>tg_max_readers := Some n\<rparr>) st
        else if key = ''event_source'' then Inr (Some (st\<lparr>tg_event_source := val\<rparr>))
        else if key = ''repair_replication_interval'' then num_directive u64_max ''repair_replication_interval'' val (\<lambda>n. st\<lparr>tg_repair_replication_interval_secs := Some n\<rparr>) st
        else if key = ''repair_replication_batch_size'' then num_directive u64_max ''repair_replication_batch_size'' val (\<lambda>n. st\<lparr>tg_repair_replication_batch_size := Some n\<rparr>) st
        else if key = ''catalog_path'' then Inr (Some (st\<lparr>tg_catalog_path := val\<rparr>))
        else if key = ''catalog_format'' then Inr (Some (st\<lparr>tg_catalog_format := val\<rparr>))
        else if key = ''catalog_flush_interval'' then num_directive u64_max ''catalog_flush_interval'' val (\<lambda>n. st\<lparr>tg_catalog_flush_interval := Some n\<rparr>) st
        else if key \<in> set [''read_only'', ''catalog'', ''replicas'', ''min_writes'', ''delete_requires_min_writes''] then Inr (Some st)
        else Inr None)"

definition server_directive :: "string \<Rightarrow> server_conf \<Rightarrow> conf_error + server_conf option" where
  "server_directive line st =
     (if prefix ''cluster '' line then Inr (Some (st\<lparr>tg_cluster_name := trim (drop 7 line)\<rparr>))
      else if prefix ''bucket '' line then Inr (Some (st\<lparr>tg_default_bucket := trim (drop 6 line)\<rparr>))
      else if prefix ''read_prefer '' line then Inr (Some (st\<lparr>tg_read_prefer := Some (trim (drop 11 line))\<rparr>))
      else case key_value line of (key, val) \<Rightarrow>
        if prefix ''recovery_'' line then recovery_directive key val st else known_directive key val st)"

fun server_directives ::
  "(nat \<times> string) list \<Rightarrow> (nat \<times> string) list \<Rightarrow> server_conf \<Rightarrow> conf_error + ((nat \<times> string) list \<times> server_conf)" where
  "server_directives [] remaining st = Inr (remaining, st)"
| "server_directives ((indent, line) # ls) remaining st =
     (if indent = 0 then
        (case server_directive line st of
           Inl e \<Rightarrow> Inl e
         | Inr (Some st1) \<Rightarrow> server_directives ls remaining st1
         | Inr None \<Rightarrow> server_directives ls (remaining @ [(indent, line)]) st)
      else server_directives ls (remaining @ [(indent, line)]) st)"

definition server_start :: server_conf where
  "server_start = \<lparr>tg_cluster_name = [], tg_default_bucket = ''testbucket'', tg_root = ServerNode [] [] [] 0 None False [] [],
     tg_read_prefer = None, tg_recovery_enabled = None, tg_recovery_poll_secs = None, tg_recovery_probe_timeout_secs = None,
     tg_recovery_failure_threshold = None, tg_recovery_re_replicate_batch_size = None, tg_repair_replication_interval_secs = None,
     tg_repair_replication_batch_size = None, tg_compression = None, tg_direct_io = None, tg_size_mb = None, tg_flush_interval = None,
     tg_admin_token = None, tg_access_key = None, tg_secret_key = None, tg_cors_origin = None, tg_log_file = None,
     tg_log_buffer_size = None, tg_event_socket = None, tg_event_secret = None, tg_max_readers = None, tg_event_source = None,
     tg_catalog_path = None, tg_catalog_format = None, tg_catalog_flush_interval = None\<rparr>"

definition parse_tree_config :: "string \<Rightarrow> conf_error + server_conf" where
  "parse_tree_config text =
     (case server_directives (content_lines text) [] server_start of
        Inl e \<Rightarrow> Inl e
      | Inr (remaining, st) \<Rightarrow>
          (if remaining = [] then Inl NoNodesDefined
           else case parse_node_block remaining of
             Inl e \<Rightarrow> Inl e
           | Inr (root, _) \<Rightarrow>
               Inr (st\<lparr>tg_root := root, tg_cluster_name := (if tg_cluster_name st = [] then sn_name root else tg_cluster_name st)\<rparr>)))"

definition MAX_CONFIG_FILE_SIZE :: nat where
  "MAX_CONFIG_FILE_SIZE = 10 * 1024 * 1024"

text \<open>A file as the loaders see it: the size that \<open>metadata\<close> reports and the text, each unless the call fails.\<close>

definition load_tree_config :: "nat option \<Rightarrow> string option \<Rightarrow> conf_error + server_conf" where
  "load_tree_config len text =
     (case len of
        None \<Rightarrow> Inl ReadFailed
      | Some n \<Rightarrow> if n > MAX_CONFIG_FILE_SIZE then Inl (FileTooLarge n)
          else case text of None \<Rightarrow> Inl ReadFailed | Some t \<Rightarrow> parse_tree_config t)"

section \<open>Flat clusters\<close>

record store_config =
  sc_name :: "string option"
  sc_store_type :: string
  sc_image :: "string option"
  sc_size_mb :: "nat option"
  sc_direct_io :: "bool option"
  sc_read_only :: "bool option"
  sc_root :: "string option"
  sc_endpoint :: "string option"
  sc_s3_bucket :: "string option"
  sc_region :: "string option"
  sc_access_key :: "string option"
  sc_secret_key :: "string option"
  sc_force_path_style :: "bool option"
  sc_allow_http :: "bool option"

record cluster_config =
  cf_stores :: "store_config list"
  cf_replication_factor :: nat
  cf_min_writes :: "nat option"
  cf_delete_requires_min_writes :: bool
  cf_default_bucket :: string

definition load_config_file :: "(string \<Rightarrow> cluster_config option) \<Rightarrow> nat option \<Rightarrow> string option \<Rightarrow> cluster_config option" where
  "load_config_file from_json len text =
     (case len of
        None \<Rightarrow> None
      | Some n \<Rightarrow> if n > MAX_CONFIG_FILE_SIZE then None
          else case text of
            None \<Rightarrow> None
          | Some data \<Rightarrow> (case from_json data of None \<Rightarrow> None | Some cfg \<Rightarrow> if cf_stores cfg = [] then None else Some cfg))"

definition store_var :: "nat \<Rightarrow> string \<Rightarrow> string" where
  "store_var i field = ''STORE_'' @ write_nat i @ ''_'' @ field"

definition env_flag :: "string \<Rightarrow> bool" where
  "env_flag v \<longleftrightarrow> v = ''1'' \<or> to_ascii_lowercase v = ''true''"

definition env_store :: "(string \<Rightarrow> string option) \<Rightarrow> nat \<Rightarrow> store_config option" where
  "env_store var i =
     (case var (store_var i ''TYPE'') of
        None \<Rightarrow> None
      | Some t \<Rightarrow> Some \<lparr>
          sc_name = (case var (store_var i ''NAME'') of Some n \<Rightarrow> Some n | None \<Rightarrow> Some (''store-'' @ write_nat i)),
          sc_store_type = to_ascii_lowercase t,
          sc_image = var (store_var i ''IMAGE''),
          sc_size_mb = Option.bind (var (store_var i ''SIZE_MB'')) (parse_uint u64_max),
          sc_direct_io = map_option env_flag (var (store_var i ''DIRECT_IO'')),
          sc_read_only = map_option env_flag (var (store_var i ''READ_ONLY'')),
          sc_root = var (store_var i ''ROOT''),
          sc_endpoint = var (store_var i ''ENDPOINT''),
          sc_s3_bucket = var (store_var i ''S3_BUCKET''),
          sc_region = var (store_var i ''REGION''),
          sc_access_key = var (store_var i ''ACCESS_KEY''),
          sc_secret_key = var (store_var i ''SECRET_KEY''),
          sc_force_path_style = map_option env_flag (var (store_var i ''FORCE_PATH_STYLE'')),
          sc_allow_http = map_option env_flag (var (store_var i ''ALLOW_HTTP''))\<rparr>)"

definition parse_multi_store_env :: "(string \<Rightarrow> string option) \<Rightarrow> cluster_config option" where
  "parse_multi_store_env var =
     (let stores = List.map_filter (env_store var) [0..<64] in
      if stores = [] then None
      else Some \<lparr>
        cf_stores = stores,
        cf_replication_factor = (case Option.bind (var ''REPLICATION_FACTOR'') (parse_uint u64_max) of Some n \<Rightarrow> n | None \<Rightarrow> 1),
        cf_min_writes = Option.bind (var ''MIN_WRITES'') (parse_uint u64_max),
        cf_delete_requires_min_writes = (case var ''DELETE_REQUIRES_MIN_WRITES'' of Some v \<Rightarrow> is_true v | None \<Rightarrow> False),
        cf_default_bucket = (case var ''BUCKET'' of Some b \<Rightarrow> b | None \<Rightarrow> ''testbucket'')\<rparr>)"

definition parse_config ::
  "(string \<Rightarrow> cluster_config option) \<Rightarrow> (string \<Rightarrow> nat option \<times> string option) \<Rightarrow> (string \<Rightarrow> string option) \<Rightarrow> cluster_config option" where
  "parse_config from_json file_at var =
     (case var ''CONFIG_FILE'' of
        Some path \<Rightarrow> (case file_at path of (len, text) \<Rightarrow> load_config_file from_json len text)
      | None \<Rightarrow> if var ''STORE_0_TYPE'' \<noteq> None then parse_multi_store_env var else None)"

section \<open>Validation\<close>

record server_files = file_system +
  fs_is_dir :: "string \<Rightarrow> bool"

datatype config_diag =
    DuplicateNode string
  | NodeNotFound string
  | UnknownAlgorithm string
  | DuplicateS3 string string string
  | DuplicateRaw string string string
  | DuplicateFs string string string
  | ListenWithoutPort string string
  | EndpointNotUrl string string
  | FactorExceeds string nat nat
  | RawAutoCreated string nat string
  | RawWithoutSize string nat string
  | RawParentMissing string nat string
  | ShardCompression string nat string
  | FsRootMissing string nat string
  | FsRootNotDir string nat string
  | S3EndpointNotUrl string nat string
  | S3BucketEmpty string nat
  | UnknownChild string nat string
  | ClusterSummary string nat nat string

fun collect_node_names :: "server_node \<Rightarrow> string list" where
  "collect_node_names (ServerNode nm li ep rf mw dr shards children) = nm # concat (map collect_node_names children)"

fun collect_s3_shards :: "server_node \<Rightarrow> (string \<times> string \<times> string) list" where
  "collect_s3_shards (ServerNode nm li ep rf mw dr shards children) =
     List.map_filter (\<lambda>s. case s of S3Shard endpoint bucket _ _ _ _ \<Rightarrow> Some (endpoint, bucket, nm) | _ \<Rightarrow> None) shards @
     concat (map collect_s3_shards children)"

fun collect_nodes :: "server_node \<Rightarrow> server_node list" where
  "collect_nodes (ServerNode nm li ep rf mw dr shards children) =
     ServerNode nm li ep rf mw dr shards children # concat (map collect_nodes children)"

fun count_shards :: "server_node \<Rightarrow> nat" where
  "count_shards (ServerNode nm li ep rf mw dr shards children) =
     length (filter (\<lambda>s. case s of NodeShard _ \<Rightarrow> False | _ \<Rightarrow> True) shards) + sum_list (map count_shards children)"

definition endpoint_hostname :: "string \<Rightarrow> string" where
  "endpoint_hostname endpoint =
     (let without_scheme = (case strip_either ''https://'' ''http://'' endpoint of Some r \<Rightarrow> r | None \<Rightarrow> endpoint)
      in takeWhile (\<lambda>c. c \<noteq> CHR ''/'') (takeWhile (\<lambda>c. c \<noteq> CHR '':'') without_scheme))"

text \<open>The items whose key was met before, in order: \<open>if !seen.insert(key)\<close>.\<close>

fun repeated :: "('a \<Rightarrow> 'k) \<Rightarrow> 'k list \<Rightarrow> 'a list \<Rightarrow> 'a list" where
  "repeated key seen [] = []"
| "repeated key seen (x # xs) =
     (if key x \<in> set seen then x # repeated key seen xs else repeated key (key x # seen) xs)"

text \<open>The hosts in the order in which they first occur, and the raw paths and file system roots of a host.\<close>

fun first_occurrences :: "'a list \<Rightarrow> 'a list \<Rightarrow> 'a list" where
  "first_occurrences seen [] = []"
| "first_occurrences seen (x # xs) =
     (if x \<in> set seen then first_occurrences seen xs else x # first_occurrences (x # seen) xs)"

definition raw_paths :: "server_node list \<Rightarrow> (string \<times> string) list" where
  "raw_paths nodes = concat (map (\<lambda>n. List.map_filter (\<lambda>s. case s of RawShard path _ _ _ _ \<Rightarrow> Some (path, sn_name n) | _ \<Rightarrow> None) (sn_shards n)) nodes)"

definition fs_roots :: "server_node list \<Rightarrow> (string \<times> string) list" where
  "fs_roots nodes = concat (map (\<lambda>n. List.map_filter (\<lambda>s. case s of FsShard root _ \<Rightarrow> Some (root, sn_name n) | _ \<Rightarrow> None) (sn_shards n)) nodes)"

definition host_diags :: "server_node list \<Rightarrow> string \<Rightarrow> (diag_level \<times> config_diag) list" where
  "host_diags nodes host =
     (let group = filter (\<lambda>n. endpoint_hostname (sn_endpoint n) = host) nodes in
      map (\<lambda>(path, nname). (DiagError, DuplicateRaw path host nname)) (repeated fst [] (raw_paths group)) @
      map (\<lambda>(root, nname). (DiagError, DuplicateFs root host nname)) (repeated fst [] (fs_roots group)))"

definition is_url :: "string \<Rightarrow> bool" where
  "is_url s \<longleftrightarrow> prefix ''http://'' s \<or> prefix ''https://'' s"

definition shard_diags :: "server_files \<Rightarrow> server_conf \<Rightarrow> string list \<Rightarrow> string \<Rightarrow> nat \<times> tree_shard \<Rightarrow> (diag_level \<times> config_diag) list" where
  "shard_diags fs tree all_names nm is =
     (case is of (i, shard) \<Rightarrow>
        (case shard of
           RawShard path ro cmp dio sz \<Rightarrow>
             (if fs_exists fs path then []
              else if sz \<noteq> None \<or> tg_size_mb tree \<noteq> None then [(DiagInfo, RawAutoCreated nm i path)]
              else [(DiagWarning, RawWithoutSize nm i path)]) @
             (case fs_missing_parent fs path of Some parent \<Rightarrow> [(DiagError, RawParentMissing nm i parent)] | None \<Rightarrow> []) @
             (case unknown_compression cmp of Some name \<Rightarrow> [(DiagError, ShardCompression nm i name)] | None \<Rightarrow> [])
         | FsShard root ro \<Rightarrow>
             (if \<not> fs_exists fs root then [(DiagError, FsRootMissing nm i root)]
              else if \<not> fs_is_dir fs root then [(DiagError, FsRootNotDir nm i root)] else [])
         | S3Shard ep bu re ak sk ps \<Rightarrow>
             (if is_url ep then [] else [(DiagWarning, S3EndpointNotUrl nm i ep)]) @ (if bu = [] then [(DiagError, S3BucketEmpty nm i)] else [])
         | NodeShard ref_name \<Rightarrow> (if ref_name \<in> set all_names then [] else [(DiagError, UnknownChild nm i ref_name)])
         | MemShard \<Rightarrow> []))"

definition node_diags :: "server_files \<Rightarrow> server_conf \<Rightarrow> string list \<Rightarrow> server_node \<Rightarrow> (diag_level \<times> config_diag) list" where
  "node_diags fs tree all_names node =
     (if CHR '':'' \<in> set (sn_listen node) then [] else [(DiagWarning, ListenWithoutPort (sn_name node) (sn_listen node))]) @
     (if is_url (sn_endpoint node) then [] else [(DiagWarning, EndpointNotUrl (sn_name node) (sn_endpoint node))]) @
     (if sn_replication_factor node > length (sn_shards node) \<and> length (sn_shards node) > 0
      then [(DiagWarning, FactorExceeds (sn_name node) (sn_replication_factor node) (length (sn_shards node)))] else []) @
     concat (map (shard_diags fs tree all_names (sn_name node)) (enumerate 0 (sn_shards node)))"

fun validate_node :: "server_files \<Rightarrow> server_conf \<Rightarrow> string list \<Rightarrow> server_node \<Rightarrow> (diag_level \<times> config_diag) list" where
  "validate_node fs tree all_names (ServerNode nm li ep rf mw dr shards children) =
     node_diags fs tree all_names (ServerNode nm li ep rf mw dr shards children) @
     concat (map (validate_node fs tree all_names) children)"

definition validate_tree_config :: "server_files \<Rightarrow> server_conf \<Rightarrow> string option \<Rightarrow> (diag_level \<times> config_diag) list" where
  "validate_tree_config fs tree node_name =
     (let all_names = collect_node_names (tg_root tree); nodes = collect_nodes (tg_root tree) in
      map (\<lambda>name. (DiagError, DuplicateNode name)) (repeated id [] all_names) @
      (case node_name of
         Some name \<Rightarrow> (if find_node_recursive (tg_root tree) name = None then [(DiagError, NodeNotFound name)] else [])
       | None \<Rightarrow> []) @
      (case unknown_compression (tg_compression tree) of Some name \<Rightarrow> [(DiagError, UnknownAlgorithm name)] | None \<Rightarrow> []) @
      map (\<lambda>(ep, bkt, nname). (DiagError, DuplicateS3 ep bkt nname))
        (repeated (\<lambda>(ep, bkt, nname). (ep, bkt)) [] (collect_s3_shards (tg_root tree))) @
      concat (map (host_diags nodes) (first_occurrences [] (map (\<lambda>n. endpoint_hostname (sn_endpoint n)) nodes))) @
      validate_node fs tree all_names (tg_root tree) @
      [(DiagInfo, ClusterSummary (tg_cluster_name tree) (length all_names) (count_shards (tg_root tree)) (tg_default_bucket tree))])"

end
