(* ===== verification/Config_Properties.thy ===== *)
theory Config_Properties
  imports Cluster_Config
begin

text \<open>
  The configuration parsers of the sharded store accept only well-formed configurations, and every
  well-formed configuration can be written in a form that they read back.
\<close>

section \<open>Accepted configurations are well-formed\<close>

definition shard_ok :: "shard_conf \<Rightarrow> bool" where
  "shard_ok s \<longleftrightarrow> (case s of
     RawShard _ _ _ _ (Some n) \<Rightarrow> n \<le> u64_max
   | S3Shard ep bu _ _ _ _ \<Rightarrow> ep \<noteq> [] \<and> bu \<noteq> []
   | _ \<Rightarrow> True)"

definition factor_ok :: "nat \<Rightarrow> nat option \<Rightarrow> bool" where
  "factor_ok rf mw \<longleftrightarrow> 1 \<le> rf \<and> rf \<le> u64_max \<and> (case mw of Some m \<Rightarrow> 1 \<le> m \<and> m \<le> rf | None \<Rightarrow> True)"

definition is_node_shard :: "shard_conf \<Rightarrow> bool" where
  "is_node_shard s \<longleftrightarrow> (case s of NodeShard _ \<Rightarrow> True | _ \<Rightarrow> False)"

definition prefer_ok :: "string option \<Rightarrow> bool" where
  "prefer_ok p \<longleftrightarrow> p \<in> {None, Some ''round-robin'', Some ''ordered''}"

definition conf_ok :: "cluster_conf \<Rightarrow> bool" where
  "conf_ok c \<longleftrightarrow> factor_ok (cc_replicas c) (cc_min_writes c) \<and> cc_shards c \<noteq> [] \<and>
     list_all (\<lambda>s. shard_ok s \<and> \<not> is_node_shard s) (cc_shards c) \<and> prefer_ok (cc_read_prefer c) \<and>
     (case cc_size_mb c of Some n \<Rightarrow> n \<le> u64_max | None \<Rightarrow> True)"

text \<open>The child nodes that a node's shards refer to, in order.\<close>

definition node_refs :: "shard_conf list \<Rightarrow> string list" where
  "node_refs shards = List.map_filter (\<lambda>s. case s of NodeShard n \<Rightarrow> Some n | _ \<Rightarrow> None) shards"

fun tree_ok :: "tree_node \<Rightarrow> bool" where
  "tree_ok (TreeNode name rf mw shards children) \<longleftrightarrow> name \<noteq> [] \<and> factor_ok rf mw \<and> list_all shard_ok shards \<and>
     node_refs shards = map tn_name children \<and> (\<forall>c\<in>set children. tree_ok c)"

lemma fold_tokens_inv:
  assumes "\<And>tok s s'. f tok s = Inr s' \<Longrightarrow> P s \<Longrightarrow> P s'"
  shows "fold_tokens f toks s = Inr s' \<Longrightarrow> P s \<Longrightarrow> P s'"
  by (induction toks arbitrary: s) (auto split: sum.splits dest: assms)

lemma parse_uint_bound: "parse_uint bound s = Some n \<Longrightarrow> n \<le> bound"
  by (auto simp: parse_uint_def Let_def split: if_splits)

lemma raw_shard_ok: "parse_raw_shard toks line = Inr s \<Longrightarrow> shard_ok s \<and> \<not> is_node_shard s"
proof -
  assume a: "parse_raw_shard toks line = Inr s"
  let ?P = "\<lambda>s. shard_ok s \<and> \<not> is_node_shard s"
  have step: "?P s'" if "raw_option l tok s = Inr s'" "?P s" for l tok s s'
    using that by (auto simp: raw_option_def shard_ok_def is_node_shard_def parse_uint_bound
        split: shard_conf.splits if_splits option.splits)
  have start: "?P (RawShard q False None None None)" for q by (simp add: shard_ok_def is_node_shard_def)
  have "?P s" if "fold_tokens (raw_option line) ts (RawShard q False None None None) = Inr s" for ts q
    by (rule fold_tokens_inv [where P = ?P, OF step that start])
  with a show ?thesis by (cases toks) (simp_all add: parse_raw_shard_def Let_def)
qed

lemma s3_shard_ok: "parse_s3_shard toks line = Inr s \<Longrightarrow> shard_ok s \<and> \<not> is_node_shard s"
proof -
  assume a: "parse_s3_shard toks line = Inr s"
  let ?P = "\<lambda>s. \<exists>ep bu re ak sk ps. s = S3Shard ep bu re ak sk ps"
  have step: "?P s'" if "s3_option l tok s = Inr s'" "?P s" for l tok s s'
    using that by (auto simp: s3_option_def s3_assign_def split: option.splits if_splits)
  have start: "?P (S3Shard [] [] None None None False)" by (intro exI) (rule refl)
  have "?P s'" if "fold_tokens (s3_option line) toks (S3Shard [] [] None None None False) = Inr s'" for s'
    by (rule fold_tokens_inv [where P = ?P, OF step that start])
  with a have "?P s" by (auto simp: parse_s3_shard_def split: sum.splits if_splits)
  with a show ?thesis by (auto simp: parse_s3_shard_def shard_ok_def is_node_shard_def split: sum.splits if_splits)
qed

lemma fs_shard_ok: "parse_fs_shard toks line = Inr s \<Longrightarrow> shard_ok s \<and> \<not> is_node_shard s"
  by (auto simp: parse_fs_shard_def Let_def shard_ok_def is_node_shard_def split: list.splits sum.splits option.splits)

lemma shard_tokens_ok: "parse_shard_tokens toks line = Inr s \<Longrightarrow> shard_ok s \<and> \<not> is_node_shard s"
  by (cases toks) (auto simp: parse_shard_tokens_def split: if_splits
      dest: raw_shard_ok fs_shard_ok s3_shard_ok, simp_all add: shard_ok_def is_node_shard_def)

lemma tree_shard_line_ok: "parse_tree_shard_line line = Inr s \<Longrightarrow> shard_ok s \<and> \<not> is_node_shard s"
  by (auto simp: parse_tree_shard_line_def split: sum.splits list.splits if_splits
      dest: raw_shard_ok fs_shard_ok s3_shard_ok, simp_all add: shard_ok_def is_node_shard_def)

text \<open>What every line of a flat configuration keeps.\<close>

definition conf_lines_ok :: "cluster_conf \<Rightarrow> bool" where
  "conf_lines_ok c \<longleftrightarrow> 1 \<le> cc_replicas c \<and> cc_replicas c \<le> u64_max \<and> (case cc_min_writes c of Some m \<Rightarrow> 1 \<le> m | None \<Rightarrow> True) \<and>
     list_all (\<lambda>s. shard_ok s \<and> \<not> is_node_shard s) (cc_shards c) \<and> prefer_ok (cc_read_prefer c) \<and>
     (case cc_size_mb c of Some n \<Rightarrow> n \<le> u64_max | None \<Rightarrow> True)"

lemma positive_value_ok: "positive_value toks key line = Inr n \<Longrightarrow> 1 \<le> n \<and> n \<le> u64_max"
  by (auto simp: positive_value_def parse_uint_bound split: sum.splits option.splits if_splits)

lemma if_cases: "(if b then x else y) = z \<Longrightarrow> (x = z \<Longrightarrow> Q) \<Longrightarrow> (y = z \<Longrightarrow> Q) \<Longrightarrow> Q"
  by (simp split: if_splits)

lemma cluster_directive_ok:
  assumes "cluster_directive line trimmed toks st = Inr st'" and "conf_lines_ok st"
  shows "conf_lines_ok st'"
  using assms unfolding cluster_directive_def Let_def
  apply (elim if_cases)
  apply (auto simp: conf_lines_ok_def split: sum.splits dest: positive_value_ok)[2]
  apply (auto simp: conf_lines_ok_def split: sum.splits)[1]
  apply (auto simp: conf_lines_ok_def prefer_ok_def split: sum.splits if_splits)[1]
  apply (auto simp: conf_lines_ok_def split: sum.splits)[2]
  apply (auto simp: conf_lines_ok_def split: sum.splits option.splits dest: parse_uint_bound)[1]
  apply (auto simp: conf_lines_ok_def split: sum.splits)[2]
  apply (auto simp: conf_lines_ok_def split: sum.splits dest: shard_tokens_ok)[1]
  apply (simp_all)
  done

lemma cluster_lines_ok: "cluster_lines n ls st = Inr st' \<Longrightarrow> conf_lines_ok st \<Longrightarrow> conf_lines_ok st'"
  by (induction n ls st rule: cluster_lines.induct)
    (auto simp: cluster_line_def Let_def split: sum.splits if_splits dest: cluster_directive_ok)

lemma node_line_ok: "parse_tree_node_line line = Inr (name, rf, mw) \<Longrightarrow> factor_ok rf mw"
proof -
  assume a: "parse_tree_node_line line = Inr (name, rf, mw)"
  let ?P = "\<lambda>st. 1 \<le> fst st \<and> fst st \<le> u64_max \<and> (case snd st of Some m \<Rightarrow> 1 \<le> m | None \<Rightarrow> True)"
  have step: "?P s'" if "node_option nm tok s = Inr s'" "?P s" for nm tok s s'
    using that by (auto simp: node_option_def parse_uint_bound split: option.splits if_splits)
  have start: "?P (1, None)" by (simp add: u64_max_def)
  have "?P st" if "fold_tokens (node_option nm) parts (1, None) = Inr st" for nm parts st
    by (rule fold_tokens_inv [where P = ?P, OF step that start])
  with a show ?thesis
    by (fastforce simp: parse_tree_node_line_def factor_ok_def split: sum.splits list.splits option.splits if_splits prod.splits)
qed

lemma tokenize_nonempty: "tokenize line = Inr toks \<Longrightarrow> [] \<notin> set toks"
proof -
  have inv: "tokenize_chars ts cur q l = (ts', cur', q') \<Longrightarrow> [] \<notin> set ts \<Longrightarrow> [] \<notin> set ts'" for ts cur q l ts' cur' q'
    by (induction ts cur q l rule: tokenize_chars.induct) (auto split: if_splits)
  assume "tokenize line = Inr toks"
  then show ?thesis using inv [of "[]"] by (fastforce simp: tokenize_def split: prod.splits if_splits)
qed

lemma node_line_name: "parse_tree_node_line line = Inr (name, rf, mw) \<Longrightarrow> name \<noteq> []"
  using tokenize_nonempty [of line]
  by (auto simp: parse_tree_node_line_def split: sum.splits list.splits option.splits if_splits)

lemma node_refs_simps [simp]:
  "node_refs [] = []" "node_refs (xs @ ys) = node_refs xs @ node_refs ys" "node_refs (NodeShard n # xs) = n # node_refs xs"
  "\<not> is_node_shard s \<Longrightarrow> node_refs (s # xs) = node_refs xs"
  by (auto simp: node_refs_def List.map_filter_def is_node_shard_def split: shard_conf.splits)

lemma tree_body_ok:
  assumes "tree_body i ls sh ch = Inr (sh', ch', rest)"
    and "list_all shard_ok sh" and "node_refs sh = map tn_name ch" and "\<forall>c\<in>set ch. tree_ok c"
  shows "list_all shard_ok sh' \<and> node_refs sh' = map tn_name ch' \<and> (\<forall>c\<in>set ch'. tree_ok c)"
  using assms
proof (induction i ls sh ch arbitrary: sh' ch' rest rule: tree_body.induct)
  case (1 i sh ch)
  then show ?case by simp
next
  case (2 i j l ls sh ch)
  show ?case
  proof (cases "j \<le> i")
    case True
    with 2(4-) show ?thesis by auto
  next
    case False
    show ?thesis
    proof (cases "is_tree_node_line l")
      case True
      with 2(4) False obtain name rf mw sh1 ch1 rest1 where p: "parse_tree_node_line l = Inr (name, rf, mw)"
        and b: "tree_body j ls [] [] = Inr (sh1, ch1, rest1)"
        and r: "tree_body i rest1 (sh @ [NodeShard name]) (ch @ [TreeNode name rf mw sh1 ch1]) = Inr (sh', ch', rest)"
        by (auto split: sum.splits prod.splits)
      have c: "list_all shard_ok sh1 \<and> node_refs sh1 = map tn_name ch1 \<and> (\<forall>c\<in>set ch1. tree_ok c)"
        using 2(1) [OF False True p refl refl b] by simp
      have "tree_ok (TreeNode name rf mw sh1 ch1)" using c node_line_ok [OF p] node_line_name [OF p] by simp
      then show ?thesis using 2(2) [OF False True p refl refl b refl refl r] 2(5-) by (simp add: shard_ok_def)
    next
      case shard: False
      with 2(4) False obtain s where s: "parse_tree_shard_line l = Inr s"
        and r: "tree_body i ls (sh @ [s]) ch = Inr (sh', ch', rest)" by (auto split: sum.splits)
      from 2(3) [OF False shard s r] 2(5-) tree_shard_line_ok [OF s] show ?thesis by simp
    qed
  qed
qed

lemma tree_directives_ok:
  "tree_directives ls remaining st = Inr (remaining', st') \<Longrightarrow> prefer_ok (tc_read_prefer st) \<Longrightarrow> prefer_ok (tc_read_prefer st')"
proof (induction ls remaining st rule: tree_directives.induct)
  case (2 i l ls remaining st)
  have "prefer_ok (tc_read_prefer st1)" if "tree_directive l st = Inr (Some st1)" for st1
    using that 2(5) by (auto simp: tree_directive_def prefer_ok_def split: prod.splits if_splits option.splits)
  with 2 show ?case by (auto split: if_splits sum.splits option.splits)
qed simp

text \<open>
  C37. Both parsers accept only well-formed configurations. A flat configuration has shards, none of them
  a node reference, at least one replica, a write quorum between one and the number of replicas, a
  known read preference and sizes of 64 bits; an S3 shard has an endpoint and a bucket. In a tree every
  node has a name, a replication factor of at least one and a quorum up to it, and its references to
  children are its children, in their order.
\<close>

theorem parsed_conf_ok:
  "(\<forall>conf. parse_cluster_conf text = Inr conf \<longrightarrow> conf_ok conf) \<and>
   (\<forall>conf. parse_tree_conf text = Inr conf \<longrightarrow> tree_ok (tc_root conf) \<and> tc_cluster_name conf \<noteq> [] \<and> prefer_ok (tc_read_prefer conf))"
proof (intro conjI allI impI)
  fix conf assume p: "parse_cluster_conf text = Inr conf"
  have "conf_lines_ok cluster_start" by (simp add: conf_lines_ok_def cluster_start_def prefer_ok_def u64_max_def)
  then have "conf_lines_ok conf" using p cluster_lines_ok
    by (fastforce simp: parse_cluster_conf_def split: sum.splits if_splits option.splits)
  with p show "conf_ok conf"
    by (auto simp: parse_cluster_conf_def conf_ok_def conf_lines_ok_def factor_ok_def split: sum.splits if_splits option.splits)
next
  fix conf assume "parse_tree_conf text = Inr conf"
  then obtain remaining st root rest where d: "tree_directives (content_lines text) [] tree_start = Inr (remaining, st)"
    and b: "parse_tree_node_block remaining = Inr (root, rest)"
    and conf: "conf = st\<lparr>tc_root := root, tc_cluster_name := (if tc_cluster_name st = [] then tn_name root else tc_cluster_name st)\<rparr>"
    by (auto simp: parse_tree_conf_def split: sum.splits if_splits)
  from b obtain i l ls name rf mw sh ch where "remaining = (i, l) # ls" and p: "parse_tree_node_line l = Inr (name, rf, mw)"
    and t: "tree_body i ls [] [] = Inr (sh, ch, rest)" and root: "root = TreeNode name rf mw sh ch"
    by (auto simp: parse_tree_node_block_def split: list.splits sum.splits)
  have "tree_ok root" unfolding root using tree_body_ok [OF t] node_line_ok [OF p] node_line_name [OF p] by simp
  moreover have "prefer_ok (tc_read_prefer st)" by (rule tree_directives_ok [OF d]) (simp add: tree_start_def prefer_ok_def)
  ultimately show "tree_ok (tc_root conf)" "tc_cluster_name conf \<noteq> []" "prefer_ok (tc_read_prefer conf)"
    using node_line_name [OF p] by (auto simp: conf root)
qed

lemma parse_demo:
  "parse_cluster_conf ''shard mem'' = Inr (cluster_start\<lparr>cc_shards := [MemShard]\<rparr>)"
  "parse_tree_conf ''n rf=1'' = Inr (tree_start\<lparr>tc_cluster_name := ''n'', tc_root := TreeNode ''n'' 1 None [] []\<rparr>)"
  by (simp_all add: parse_cluster_conf_def Let_def newline_def cluster_line_def trim_def trim_end_def trim_start_def is_whitespace_def is_blank_def
      indent_of_def tokenize_def cluster_directive_def parse_shard_tokens_def cluster_start_def
      parse_tree_conf_def content_lines_def tree_directive_def key_value_def TREE_DAEMON_DIRECTIVES_def skipped_prefix_def
      parse_tree_node_block_def parse_tree_node_line_def node_option_def strip_prefix_def parse_uint_def is_digit_def digits_value_def u64_max_def tree_start_def)

theorem parsed_conf_ok_witness:
  "(\<exists>conf. parse_cluster_conf ''shard mem'' = Inr conf \<and> conf_ok conf) \<and>
   (\<exists>conf. parse_tree_conf ''n rf=1'' = Inr conf \<and> tree_ok (tc_root conf))"
  using parsed_conf_ok [of "''shard mem''"] parsed_conf_ok [of "''n rf=1''"] parse_demo by blast

section \<open>Writing a configuration\<close>

definition opt_token :: "string \<Rightarrow> string option \<Rightarrow> string list" where
  "opt_token p v = (case v of Some x \<Rightarrow> [p @ x] | None \<Rightarrow> [])"

definition bool_text :: "bool \<Rightarrow> string" where
  "bool_text b = (if b then ''true'' else ''false'')"

definition shard_tokens :: "shard_conf \<Rightarrow> string list" where
  "shard_tokens s = (case s of
     RawShard path ro cmp dio sz \<Rightarrow> [''raw'', ''path='' @ path] @ (if ro then [''readonly''] else []) @ opt_token ''compression='' cmp @
       opt_token ''direct_io='' (map_option bool_text dio) @ opt_token ''size_mb='' (map_option write_nat sz)
   | FsShard root ro \<Rightarrow> [''fs'', ''root='' @ root] @ (if ro then [''readonly''] else [])
   | S3Shard ep bu re ak sk ps \<Rightarrow> [''s3'', ''endpoint='' @ ep, ''bucket='' @ bu] @ opt_token ''region='' re @ opt_token ''access_key='' ak @
       opt_token ''secret_key='' sk @ (if ps then [''path_style''] else [])
   | MemShard \<Rightarrow> [''mem'']
   | NodeShard name \<Rightarrow> [])"

definition opt_line :: "string \<Rightarrow> string option \<Rightarrow> string list list" where
  "opt_line key v = (case v of Some x \<Rightarrow> [[key, x]] | None \<Rightarrow> [])"

definition conf_lines :: "cluster_conf \<Rightarrow> string list list" where
  "conf_lines c = [[''replicas'', write_nat (cc_replicas c)]] @ opt_line ''min_writes'' (map_option write_nat (cc_min_writes c)) @
     opt_line ''catalog'' (cc_catalog c) @ opt_line ''read_prefer'' (cc_read_prefer c) @ [[''direct_io'', bool_text (cc_direct_io c)]] @
     opt_line ''compression'' (cc_compression c) @ opt_line ''size_mb'' (map_option write_nat (cc_size_mb c)) @
     [[''read_only'', bool_text (cc_read_only c)], [''delete_requires_min_writes'', bool_text (cc_delete_requires_min_writes c)]] @
     map (\<lambda>s. ''shard'' # shard_tokens s) (cc_shards c)"

definition write_lines :: "string list \<Rightarrow> string" where
  "write_lines ls = concat (map (\<lambda>l. l @ [newline]) ls)"

definition write_conf :: "cluster_conf \<Rightarrow> string" where
  "write_conf c = write_lines (map write_tokens (conf_lines c))"

text \<open>The texts that a line can carry: without newlines, and directive values that are not empty.\<close>

definition one_line :: "string \<Rightarrow> bool" where
  "one_line s \<longleftrightarrow> newline \<notin> set s"

definition opt_one_line :: "string option \<Rightarrow> bool" where
  "opt_one_line v \<longleftrightarrow> (case v of Some x \<Rightarrow> one_line x | None \<Rightarrow> True)"

definition shard_writable :: "shard_conf \<Rightarrow> bool" where
  "shard_writable s \<longleftrightarrow> (case s of
     RawShard path _ cmp _ _ \<Rightarrow> one_line path \<and> opt_one_line cmp
   | FsShard root _ \<Rightarrow> one_line root
   | S3Shard ep bu re ak sk _ \<Rightarrow> one_line ep \<and> one_line bu \<and> opt_one_line re \<and> opt_one_line ak \<and> opt_one_line sk
   | _ \<Rightarrow> True)"

definition conf_writable :: "cluster_conf \<Rightarrow> bool" where
  "conf_writable c \<longleftrightarrow> opt_one_line (cc_catalog c) \<and> opt_one_line (cc_compression c) \<and> cc_catalog c \<noteq> Some [] \<and>
     cc_compression c \<noteq> Some [] \<and> list_all shard_writable (cc_shards c)"

subsection \<open>Lines of tokens\<close>

lemma newline_facts: "is_whitespace newline" "\<not> plain_char newline" "is_whitespace (CHR 0x0D)"
  by (simp_all add: newline_def is_whitespace_def plain_char_def)

lemma write_token_edges:
  assumes "t \<noteq> []"
  shows "write_token t \<noteq> []" and "\<not> is_whitespace (hd (write_token t))" and "\<not> is_whitespace (last (write_token t))"
proof -
  have q: "quote_char c = [q, c, q] \<Longrightarrow> True" "\<exists>q. \<not> is_whitespace q \<and> quote_char c = [q, c, q]" for c q
    by (auto simp: quote_char_def char_plain_facts)
  obtain c cs where t: "t = c # cs" using assms by (cases t) auto
  obtain d ds where t': "t = ds @ [d]" using assms by (cases t rule: rev_cases) auto
  show "write_token t \<noteq> []" "\<not> is_whitespace (hd (write_token t))"
    using q(2) [of c] by (auto simp: write_token_def t plain_char_def)
  show "\<not> is_whitespace (last (write_token t))"
    using q(2) [of d] by (auto simp: write_token_def t' plain_char_def)
qed

lemma one_line_simps [simp]: "one_line []" "one_line (a @ b) \<longleftrightarrow> one_line a \<and> one_line b" "one_line (c # b) \<longleftrightarrow> c \<noteq> newline \<and> one_line b"
  "CHR '' '' \<noteq> newline"
  by (auto simp: one_line_def newline_def)

lemma write_token_one_line: "one_line t \<Longrightarrow> one_line (write_token t)"
  by (auto simp: one_line_def write_token_def quote_char_def newline_def split: if_splits)

lemma write_tokens_edges:
  assumes "toks \<noteq> []" and "[] \<notin> set toks"
  shows "write_tokens toks \<noteq> []" and "hd (write_tokens toks) = hd (write_token (hd toks))" and "\<not> is_whitespace (last (write_tokens toks))"
proof -
  have "write_tokens toks \<noteq> [] \<and> hd (write_tokens toks) = hd (write_token (hd toks)) \<and> \<not> is_whitespace (last (write_tokens toks))"
    using assms by (induction toks rule: write_tokens.induct) (auto simp: write_token_edges)
  then show "write_tokens toks \<noteq> []" "hd (write_tokens toks) = hd (write_token (hd toks))" "\<not> is_whitespace (last (write_tokens toks))" by auto
qed

lemma write_tokens_one_line: "list_all one_line toks \<Longrightarrow> one_line (write_tokens toks)"
  by (induction toks rule: write_tokens.induct) (simp_all add: write_token_one_line)

lemma trim_edges: "l \<noteq> [] \<Longrightarrow> \<not> is_whitespace (hd l) \<Longrightarrow> \<not> is_whitespace (last l) \<Longrightarrow> trim l = l \<and> indent_of l = 0"
proof -
  assume a: "l \<noteq> []" "\<not> is_whitespace (hd l)" "\<not> is_whitespace (last l)"
  obtain c cs where c: "l = c # cs" using a(1) by (cases l) auto
  obtain d ds where d: "l = ds @ [d]" using a(1) by (cases l rule: rev_cases) auto
  have "trim_start l = l" using a(2) c by (simp add: trim_start_def)
  moreover have "trim_end l = l" using a(3) d by (simp add: trim_end_def)
  ultimately show ?thesis by (simp add: trim_def indent_of_def)
qed

lemma text_lines_step:
  assumes "one_line l" and "l \<noteq> []" and "\<not> is_whitespace (last l)"
  shows "text_lines (l @ newline # rest) = l # text_lines rest"
proof -
  obtain c cs where c: "l @ newline # rest = c # cs" by (cases l) auto
  have n: "\<forall>x\<in>set l. x \<noteq> newline" using assms(1) by (auto simp: one_line_def)
  then have t: "takeWhile (\<lambda>x. x \<noteq> newline) (l @ newline # rest) = l" "dropWhile (\<lambda>x. x \<noteq> newline) (l @ newline # rest) = newline # rest"
    by (simp_all add: takeWhile_append dropWhile_append)
  have "strip_cr l = l" using assms(2,3) newline_facts(3) by (auto simp: strip_cr_def)
  then show ?thesis using text_lines.simps(2) [of c cs, folded c] t by (simp add: Let_def)
qed

text \<open>A line as the parsers see it: some tokens, the first of them a plain word.\<close>

definition good_line :: "string list \<Rightarrow> bool" where
  "good_line toks \<longleftrightarrow> toks \<noteq> [] \<and> [] \<notin> set toks \<and> list_all one_line toks \<and> hd (write_token (hd toks)) \<noteq> CHR ''#''"

lemma good_line_text:
  assumes "good_line toks"
  shows "text_lines (write_tokens toks @ newline # rest) = write_tokens toks # text_lines rest"
    and "trim (write_tokens toks) = write_tokens toks" and "indent_of (write_tokens toks) = 0"
    and "\<not> is_blank (write_tokens toks)" and "tokenize (write_tokens toks) = Inr toks"
proof -
  note e = write_tokens_edges [of toks]
  have g: "toks \<noteq> []" "[] \<notin> set toks" "list_all one_line toks" using assms by (simp_all add: good_line_def)
  then have h: "hd toks \<noteq> []" by (cases toks) auto
  show "text_lines (write_tokens toks @ newline # rest) = write_tokens toks # text_lines rest"
    using e g write_tokens_one_line by (intro text_lines_step) auto
  show "trim (write_tokens toks) = write_tokens toks" "indent_of (write_tokens toks) = 0"
    using trim_edges [of "write_tokens toks"] e g write_token_edges [OF h] by auto
  show "\<not> is_blank (write_tokens toks)"
    using e g assms by (cases "write_tokens toks") (auto simp: is_blank_def good_line_def)
  show "tokenize (write_tokens toks) = Inr toks"
    using tokenize_chars_write [OF g(2), of "[]"] by (auto simp: tokenize_def)
qed

lemma write_lines_simps [simp]: "write_lines [] = []" "write_lines (l # ls) = l @ newline # write_lines ls"
  by (simp_all add: write_lines_def)

lemma text_lines_write: "list_all good_line tss \<Longrightarrow> text_lines (write_lines (map write_tokens tss)) = map write_tokens tss"
  by (induction tss) (simp_all add: good_line_text)

lemma cluster_line_write: "good_line toks \<Longrightarrow> cluster_line n (write_tokens toks) st = cluster_directive n (write_tokens toks) toks st"
  using good_line_text [of toks] by (simp add: cluster_line_def Let_def good_line_def)

subsection \<open>Shards\<close>

lemma strip_prefix_append [simp]: "strip_prefix p (p @ x) = Some x"
  by (simp add: strip_prefix_def)

lemma fold_tokens_append:
  "fold_tokens f (xs @ ys) s = (case fold_tokens f xs s of Inl e \<Rightarrow> Inl e | Inr s1 \<Rightarrow> fold_tokens f ys s1)"
  by (induction xs arbitrary: s) (auto split: sum.splits)

lemma fold_opt_token:
  "fold_tokens f (opt_token p v) s = (case v of Some x \<Rightarrow> f (p @ x) s | None \<Rightarrow> Inr s)"
  by (auto simp: opt_token_def split: option.splits sum.splits)

lemma raw_options:
  "raw_option n ''readonly'' (RawShard path ro cmp dio sz) = Inr (RawShard path True cmp dio sz)"
  "raw_option n (''compression='' @ v) (RawShard path ro cmp dio sz) = Inr (RawShard path ro (Some v) dio sz)"
  "raw_option n (''direct_io='' @ bool_text b) (RawShard path ro cmp dio sz) = Inr (RawShard path ro cmp (Some b) sz)"
  "k \<le> u64_max \<Longrightarrow> raw_option n (''size_mb='' @ write_nat k) (RawShard path ro cmp dio sz) = Inr (RawShard path ro cmp dio (Some k))"
  by (simp_all add: raw_option_def is_read_only_def strip_prefix_def strip_either_def bool_text_def is_true_def parse_write_nat)

lemma s3_options:
  "s3_option n (''endpoint='' @ v) (S3Shard ep bu re ak sk ps) = Inr (S3Shard v bu re ak sk ps)"
  "s3_option n (''bucket='' @ v) (S3Shard ep bu re ak sk ps) = Inr (S3Shard ep v re ak sk ps)"
  "s3_option n (''region='' @ v) (S3Shard ep bu re ak sk ps) = Inr (S3Shard ep bu (Some v) ak sk ps)"
  "s3_option n (''access_key='' @ v) (S3Shard ep bu re ak sk ps) = Inr (S3Shard ep bu re (Some v) sk ps)"
  "s3_option n (''secret_key='' @ v) (S3Shard ep bu re ak sk ps) = Inr (S3Shard ep bu re ak (Some v) ps)"
  "s3_option n ''path_style'' (S3Shard ep bu re ak sk ps) = Inr (S3Shard ep bu re ak sk True)"
  by (simp_all add: s3_option_def s3_assign_def strip_prefix_def)

lemma parse_raw_write:
  assumes "shard_ok (RawShard path ro cmp dio sz)"
  shows "parse_raw_shard (tl (shard_tokens (RawShard path ro cmp dio sz))) n = Inr (RawShard path ro cmp dio sz)"
  using assms
  by (cases cmp; cases dio; cases sz)
     (simp_all add: parse_raw_shard_def shard_tokens_def strip_prefix_append [of "''path=''", simplified] fold_tokens_append opt_token_def
       raw_options [simplified] shard_ok_def)

lemma parse_s3_write:
  assumes "shard_ok (S3Shard ep bu re ak sk ps)"
  shows "parse_s3_shard (tl (shard_tokens (S3Shard ep bu re ak sk ps))) n = Inr (S3Shard ep bu re ak sk ps)"
  using assms
  by (cases re; cases ak; cases sk)
     (simp_all add: parse_s3_shard_def shard_tokens_def fold_tokens_append opt_token_def s3_options [simplified] shard_ok_def)

lemma parse_fs_write: "parse_fs_shard (tl (shard_tokens (FsShard root ro))) n = Inr (FsShard root ro)"
  by (simp add: parse_fs_shard_def shard_tokens_def strip_prefix_append [of "''root=''", simplified] fs_option_def is_read_only_def)

lemma parse_shard_write:
  assumes "shard_ok s" and "\<not> is_node_shard s"
  shows "parse_shard_tokens (shard_tokens s) n = Inr s"
proof (cases s)
  case (RawShard path ro cmp dio sz)
  with parse_raw_write [OF assms(1) [unfolded RawShard], of n] show ?thesis by (simp add: parse_shard_tokens_def shard_tokens_def)
next
  case (FsShard root ro)
  with parse_fs_write [of root ro n] show ?thesis by (simp add: parse_shard_tokens_def shard_tokens_def)
next
  case (S3Shard ep bu re ak sk ps)
  with parse_s3_write [OF assms(1) [unfolded S3Shard], of n] show ?thesis by (simp add: parse_shard_tokens_def shard_tokens_def)
next
  case MemShard
  then show ?thesis by (simp add: parse_shard_tokens_def shard_tokens_def)
next
  case (NodeShard name)
  with assms(2) show ?thesis by (simp add: is_node_shard_def)
qed

subsection \<open>The flat format\<close>

lemma plain_one_line: "list_all plain_char w \<Longrightarrow> one_line w"
  using newline_facts by (auto simp: one_line_def list_all_iff)

lemma good_line_word:
  assumes "list_all plain_char w" and "w \<noteq> []" and "hd w \<noteq> CHR ''#''" and "[] \<notin> set vs" and "list_all one_line vs"
  shows "good_line (w # vs)"
  using assms plain_one_line [OF assms(1)] by (auto simp: good_line_def write_token_def)

lemma plain_words: "list_all plain_char w \<and> w \<noteq> [] \<and> hd w \<noteq> CHR ''#''"
  if "w \<in> {''replicas'', ''min_writes'', ''catalog'', ''read_prefer'', ''direct_io'', ''compression'', ''size_mb'', ''read_only'',
     ''delete_requires_min_writes'', ''shard'', ''raw'', ''fs'', ''s3'', ''mem''}"
  using that by (auto simp: plain_char_def is_whitespace_def)

lemma write_nat_token: "write_nat n \<noteq> []" "list_all plain_char (write_nat n)" "one_line (write_nat n)"
  using write_nat_value [of n] digit_plain plain_one_line by (auto simp: list_all_iff)

lemma lit_one_line: "one_line (bool_text b)" "bool_text b \<noteq> []"
  by (simp_all add: bool_text_def newline_def)

lemma shard_tokens_good:
  assumes "shard_writable s" and "\<not> is_node_shard s"
  shows "good_line (shard_tokens s) \<and> good_line (''shard'' # shard_tokens s)"
proof -
  obtain w vs where w: "shard_tokens s = w # vs" "w \<in> {''raw'', ''fs'', ''s3'', ''mem''}" "[] \<notin> set vs" "list_all one_line vs"
    using assms
    by (cases s) (auto simp: shard_tokens_def opt_token_def shard_writable_def opt_one_line_def is_node_shard_def newline_def
        write_nat_token(3) lit_one_line(1) split: option.splits)
  have g: "good_line (w # vs)" using plain_words [of w] w by (intro good_line_word) auto
  have "good_line (''shard'' # w # vs)" using plain_words [of w] plain_words [of "''shard''"] w plain_one_line by (intro good_line_word) auto
  with g w(1) show ?thesis by simp
qed

lemma conf_lines_good:
  assumes "conf_ok c" and "conf_writable c"
  shows "list_all good_line (conf_lines c)"
proof -
  have opt: "list_all good_line (opt_line w v)"
    if "w \<in> {''min_writes'', ''catalog'', ''read_prefer'', ''compression'', ''size_mb''}" "opt_one_line v" "v \<noteq> Some []" for w v
  proof -
    have "list_all plain_char w \<and> w \<noteq> [] \<and> hd w \<noteq> CHR ''#''" by (rule plain_words, rule subsetD [OF _ that(1)]) simp
    with that(2,3) show ?thesis by (cases v) (auto simp: opt_line_def opt_one_line_def intro!: good_line_word)
  qed
  have num: "opt_one_line (map_option write_nat v)" "map_option write_nat v \<noteq> Some []" for v
    by (auto simp: opt_one_line_def write_nat_token split: option.splits)
  have rp: "opt_one_line (cc_read_prefer c)" "cc_read_prefer c \<noteq> Some []"
    using assms(1) by (auto simp: conf_ok_def prefer_ok_def opt_one_line_def newline_def)
  have lit: "good_line [w, bool_text b]" if "w \<in> {''direct_io'', ''read_only'', ''delete_requires_min_writes''}" for w b
  proof -
    have "list_all plain_char w \<and> w \<noteq> [] \<and> hd w \<noteq> CHR ''#''" by (rule plain_words, rule subsetD [OF _ that]) simp
    with lit_one_line [of b] show ?thesis by (auto intro!: good_line_word)
  qed
  have rep: "good_line [''replicas'', write_nat n]" for n
    using plain_words [of "''replicas''"] write_nat_token [of n] by (intro good_line_word) (auto dest: sym)
  have sh: "list_all good_line (map (\<lambda>s. ''shard'' # shard_tokens s) (cc_shards c))"
    using assms shard_tokens_good by (auto simp: list_all_iff conf_ok_def conf_writable_def)
  show ?thesis
    unfolding conf_lines_def list_all_append
    using assms(2) by (intro conjI opt num rp sh) (simp_all add: rep lit conf_writable_def)
qed

definition run_tokens :: "nat \<Rightarrow> string list list \<Rightarrow> cluster_conf \<Rightarrow> conf_error + cluster_conf" where
  "run_tokens n tss st = cluster_lines n (map write_tokens tss) st"

lemma run_tokens_simps:
  "run_tokens n [] st = Inr st"
  "run_tokens n (xs @ ys) st = (case run_tokens n xs st of Inl e \<Rightarrow> Inl e | Inr st1 \<Rightarrow> run_tokens (n + length xs) ys st1)"
  "good_line ts \<Longrightarrow> run_tokens n (ts # tss) st = (case cluster_directive n (write_tokens ts) ts st of Inl e \<Rightarrow> Inl e | Inr st1 \<Rightarrow> run_tokens (n + 1) tss st1)"
proof -
  show "run_tokens n [] st = Inr st" by (simp add: run_tokens_def)
  show "run_tokens n (xs @ ys) st = (case run_tokens n xs st of Inl e \<Rightarrow> Inl e | Inr st1 \<Rightarrow> run_tokens (n + length xs) ys st1)"
    unfolding run_tokens_def by (induction xs arbitrary: n st) (auto split: sum.splits)
  show "good_line ts \<Longrightarrow> run_tokens n (ts # tss) st = (case cluster_directive n (write_tokens ts) ts st of Inl e \<Rightarrow> Inl e | Inr st1 \<Rightarrow> run_tokens (n + 1) tss st1)"
    by (simp add: run_tokens_def cluster_line_write split: sum.splits)
qed

lemma is_true_text: "is_true (bool_text b) \<longleftrightarrow> b"
  by (simp add: is_true_def bool_text_def)

lemma directives:
  "1 \<le> k \<Longrightarrow> k \<le> u64_max \<Longrightarrow> cluster_directive n tr [''replicas'', write_nat k] st = Inr (st\<lparr>cc_replicas := k\<rparr>)"
  "1 \<le> k \<Longrightarrow> k \<le> u64_max \<Longrightarrow> cluster_directive n tr [''min_writes'', write_nat k] st = Inr (st\<lparr>cc_min_writes := Some k\<rparr>)"
  "cluster_directive n tr [''catalog'', v] st = Inr (st\<lparr>cc_catalog := Some v\<rparr>)"
  "v \<in> {''round-robin'', ''ordered''} \<Longrightarrow> cluster_directive n tr [''read_prefer'', v] st = Inr (st\<lparr>cc_read_prefer := Some v\<rparr>)"
  "cluster_directive n tr [''direct_io'', bool_text b] st = Inr (st\<lparr>cc_direct_io := b\<rparr>)"
  "cluster_directive n tr [''compression'', v] st = Inr (st\<lparr>cc_compression := Some v\<rparr>)"
  "k \<le> u64_max \<Longrightarrow> cluster_directive n tr [''size_mb'', write_nat k] st = Inr (st\<lparr>cc_size_mb := Some k\<rparr>)"
  "cluster_directive n tr [''read_only'', bool_text b] st = Inr (st\<lparr>cc_read_only := b\<rparr>)"
  "cluster_directive n tr [''delete_requires_min_writes'', bool_text b] st = Inr (st\<lparr>cc_delete_requires_min_writes := b\<rparr>)"
  "cluster_directive n tr (''shard'' # toks) st =
     (case parse_shard_tokens toks n of Inl e \<Rightarrow> Inl e | Inr s \<Rightarrow> Inr (st\<lparr>cc_shards := cc_shards st @ [s]\<rparr>))"
  by (auto simp: cluster_directive_def Let_def positive_value_def require_value_def parse_write_nat flag_value_def is_true_text)

definition reads :: "string list list \<Rightarrow> cluster_conf \<Rightarrow> cluster_conf \<Rightarrow> bool" where
  "reads tss st st' \<longleftrightarrow> (\<forall>n. run_tokens n tss st = Inr st')"

lemma reads_append: "reads xs st st1 \<Longrightarrow> reads ys st1 st2 \<Longrightarrow> reads (xs @ ys) st st2"
  by (simp add: reads_def run_tokens_simps)

lemma reads_one: "good_line ts \<Longrightarrow> (\<And>n tr. cluster_directive n tr ts st = Inr st') \<Longrightarrow> reads [ts] st st'"
  by (simp add: reads_def run_tokens_simps)

lemma reads_opt:
  assumes "list_all good_line (opt_line w (map_option g v))" and "\<And>n tr x. v = Some x \<Longrightarrow> cluster_directive n tr [w, g x] st = Inr (upd (Some x) st)"
    and "upd None st = st"
  shows "reads (opt_line w (map_option g v)) st (upd v st)"
  using assms by (cases v) (auto simp: opt_line_def reads_def run_tokens_simps)

lemma reads_shards:
  assumes "list_all (\<lambda>s. shard_ok s \<and> \<not> is_node_shard s) ss" and "list_all shard_writable ss"
  shows "reads (map (\<lambda>s. ''shard'' # shard_tokens s) ss) st (st\<lparr>cc_shards := cc_shards st @ ss\<rparr>)"
  unfolding reads_def
proof
  fix n
  show "run_tokens n (map (\<lambda>s. ''shard'' # shard_tokens s) ss) st = Inr (st\<lparr>cc_shards := cc_shards st @ ss\<rparr>)"
    using assms
    by (induction ss arbitrary: n st) (simp_all add: run_tokens_simps shard_tokens_good directives(10) parse_shard_write)
qed

lemma reads_conf_lines:
  assumes "conf_ok c" and "conf_writable c"
  shows "reads (conf_lines c) cluster_start c"
proof -
  note good = conf_lines_good [OF assms]
  have w: "factor_ok (cc_replicas c) (cc_min_writes c)" "prefer_ok (cc_read_prefer c)" "cc_shards c \<noteq> []"
    "case cc_size_mb c of Some n \<Rightarrow> n \<le> u64_max | None \<Rightarrow> True"
    "list_all (\<lambda>s. shard_ok s \<and> \<not> is_node_shard s) (cc_shards c)" "list_all shard_writable (cc_shards c)"
    using assms by (simp_all add: conf_ok_def conf_writable_def)
  let ?s1 = "cluster_start\<lparr>cc_replicas := cc_replicas c\<rparr>"
  let ?s2 = "?s1\<lparr>cc_min_writes := cc_min_writes c\<rparr>"
  let ?s3 = "?s2\<lparr>cc_catalog := cc_catalog c\<rparr>"
  let ?s4 = "?s3\<lparr>cc_read_prefer := cc_read_prefer c\<rparr>"
  let ?s5 = "?s4\<lparr>cc_direct_io := cc_direct_io c\<rparr>"
  let ?s6 = "?s5\<lparr>cc_compression := cc_compression c\<rparr>"
  let ?s7 = "?s6\<lparr>cc_size_mb := cc_size_mb c\<rparr>"
  let ?s8 = "?s7\<lparr>cc_read_only := cc_read_only c, cc_delete_requires_min_writes := cc_delete_requires_min_writes c\<rparr>"
  have g: "good_line [''replicas'', write_nat (cc_replicas c)]" "list_all good_line (opt_line ''min_writes'' (map_option write_nat (cc_min_writes c)))"
    "list_all good_line (opt_line ''catalog'' (map_option id (cc_catalog c)))" "list_all good_line (opt_line ''read_prefer'' (map_option id (cc_read_prefer c)))"
    "good_line [''direct_io'', bool_text (cc_direct_io c)]" "list_all good_line (opt_line ''compression'' (map_option id (cc_compression c)))"
    "list_all good_line (opt_line ''size_mb'' (map_option write_nat (cc_size_mb c)))" "good_line [''read_only'', bool_text (cc_read_only c)]"
    "good_line [''delete_requires_min_writes'', bool_text (cc_delete_requires_min_writes c)]"
    using good unfolding conf_lines_def list_all_append by (simp_all add: option.map_id)
  have r1: "reads [[''replicas'', write_nat (cc_replicas c)]] cluster_start ?s1"
    by (rule reads_one [OF g(1)], rule directives) (use w(1) in \<open>simp_all add: factor_ok_def\<close>)
  have r2: "reads (opt_line ''min_writes'' (map_option write_nat (cc_min_writes c))) ?s1 ?s2"
    by (rule reads_opt [OF g(2), where upd = "\<lambda>v. cc_min_writes_update (\<lambda>_. v)"]) (use w(1) in \<open>auto simp: factor_ok_def directives cluster_start_def\<close>)
  have r3: "reads (opt_line ''catalog'' (map_option id (cc_catalog c))) ?s2 ?s3"
    by (rule reads_opt [OF g(3), where upd = "\<lambda>v. cc_catalog_update (\<lambda>_. v)"]) (simp_all add: directives cluster_start_def)
  have r4: "reads (opt_line ''read_prefer'' (map_option id (cc_read_prefer c))) ?s3 ?s4"
    by (rule reads_opt [OF g(4), where upd = "\<lambda>v. cc_read_prefer_update (\<lambda>_. v)"])
      (use w(2) in \<open>auto simp: prefer_ok_def directives(4) cluster_start_def\<close>)
  have r5: "reads [[''direct_io'', bool_text (cc_direct_io c)]] ?s4 ?s5" by (rule reads_one [OF g(5)]) (simp add: directives)
  have r6: "reads (opt_line ''compression'' (map_option id (cc_compression c))) ?s5 ?s6"
    by (rule reads_opt [OF g(6), where upd = "\<lambda>v. cc_compression_update (\<lambda>_. v)"]) (simp_all add: directives cluster_start_def)
  have r7: "reads (opt_line ''size_mb'' (map_option write_nat (cc_size_mb c))) ?s6 ?s7"
    by (rule reads_opt [OF g(7), where upd = "\<lambda>v. cc_size_mb_update (\<lambda>_. v)"]) (use w(4) in \<open>auto simp: directives cluster_start_def\<close>)
  have r8: "reads ([[''read_only'', bool_text (cc_read_only c)]] @ [[''delete_requires_min_writes'', bool_text (cc_delete_requires_min_writes c)]]) ?s7 ?s8"
    by (rule reads_append; rule reads_one) (simp_all add: g directives)
  have "?s8\<lparr>cc_shards := cc_shards ?s8 @ cc_shards c\<rparr> = c" by (cases c) (simp add: cluster_start_def)
  with reads_shards [OF w(5,6), of ?s8] have r9: "reads (map (\<lambda>s. ''shard'' # shard_tokens s) (cc_shards c)) ?s8 c" by simp
  show ?thesis
    using reads_append [OF r1 reads_append [OF r2 reads_append [OF r3 reads_append [OF r4 reads_append [OF r5 reads_append [OF r6
      reads_append [OF r7 reads_append [OF r8 r9]]]]]]]] by (simp add: conf_lines_def option.map_id)
qed

text \<open>
  Every well-formed flat configuration whose texts fit on a line can be written, with quotes where
  a value needs them, and the parser reads the written text back as exactly that configuration.
\<close>

lemma cluster_conf_roundtrip:
  assumes "conf_ok c" and "conf_writable c"
  shows "parse_cluster_conf (write_conf c) = Inr c"
proof -
  have "cluster_lines 1 (text_lines (write_conf c)) cluster_start = Inr c"
    using reads_conf_lines [OF assms] text_lines_write [OF conf_lines_good [OF assms]] by (simp add: reads_def run_tokens_def write_conf_def)
  then show ?thesis using assms(1) by (auto simp: parse_cluster_conf_def conf_ok_def factor_ok_def split: option.splits)
qed

end
