(* ===== verification/Config_Trees.thy ===== *)
theory Config_Trees
  imports Config_Properties
begin

text \<open>
  The tree format: every well-formed tree can be written with indentation and is read back, whatever
  the depth; and a directive of the flat format that turns a tree file into an empty cluster.
\<close>

section \<open>Writing a tree\<close>

definition node_tokens :: "string \<Rightarrow> nat \<Rightarrow> nat option \<Rightarrow> string list" where
  "node_tokens name rf mw = [name, ''rf='' @ write_nat rf] @ opt_token ''min_writes='' (map_option write_nat mw)"

text \<open>The lines of a node at indentation \<open>d\<close> and of the shards and children of a node.\<close>

fun node_lines :: "nat \<Rightarrow> tree_node \<Rightarrow> (nat \<times> string list) list"
  and body_lines :: "nat \<Rightarrow> shard_conf list \<Rightarrow> tree_node list \<Rightarrow> (nat \<times> string list) list" where
  "node_lines d (TreeNode name rf mw shards children) = (d, node_tokens name rf mw) # body_lines (d + 1) shards children"
| "body_lines d [] children = []"
| "body_lines d (s # shards) children =
     (if is_node_shard s then (case children of [] \<Rightarrow> [] | c # cs \<Rightarrow> node_lines d c @ body_lines d shards cs)
      else (d, shard_tokens s) # body_lines d shards children)"

definition name_ok :: "string \<Rightarrow> bool" where
  "name_ok name \<longleftrightarrow> name \<noteq> [] \<and> list_all plain_char name \<and> hd name \<noteq> CHR ''#'' \<and>
     name \<notin> set [''raw'', ''fs'', ''s3'', ''mem'', ''shard'']"

fun tree_writable :: "tree_node \<Rightarrow> bool" where
  "tree_writable (TreeNode name rf mw shards children) \<longleftrightarrow> name_ok name \<and> list_all shard_writable shards \<and> (\<forall>c\<in>set children. tree_writable c)"

definition written :: "(nat \<times> string list) list \<Rightarrow> (nat \<times> string) list" where
  "written = map (\<lambda>(d, toks). (d, write_tokens toks))"

lemma written_simps [simp]: "written [] = []" "written (xs @ ys) = written xs @ written ys" "written ((d, t) # xs) = (d, write_tokens t) # written xs"
  by (simp_all add: written_def)

section \<open>Lines of nodes and shards\<close>

lemma first_word_tokens:
  assumes "list_all plain_char w" and "w \<noteq> []"
  shows "first_word (write_tokens (w # ts)) = w"
proof -
  have w: "\<forall>c\<in>set w. \<not> is_whitespace c" using assms(1) by (simp add: list_all_iff plain_char_def)
  obtain r where r: "write_tokens (w # ts) = w @ r" "r = [] \<or> hd r = CHR '' ''"
    using assms(1) by (cases ts) (auto simp: write_token_def)
  have "trim_start (w @ r) = w @ r" using w assms(2) by (cases w) (auto simp: trim_start_def)
  then show ?thesis using w r char_plain_facts(3) by (cases r) (auto simp: first_word_def takeWhile_append)
qed

lemma node_tokens_good: "name_ok name \<Longrightarrow> good_line (node_tokens name rf mw)"
  by (auto simp: node_tokens_def name_ok_def opt_token_def write_nat_token newline_def split: option.splits intro!: good_line_word)

lemma node_tokens_line:
  assumes "name_ok name"
  shows "is_tree_node_line (write_tokens (node_tokens name rf mw))"
proof -
  have fw: "first_word (write_tokens (node_tokens name rf mw)) = name"
    using first_word_tokens [of name "(''rf='' @ write_nat rf) # opt_token ''min_writes='' (map_option write_nat mw)"] assms
    by (simp add: node_tokens_def name_ok_def)
  have pl: "write_token (''rf='' @ write_nat rf) = ''rf='' @ write_nat rf"
    using write_nat_token(2) [of rf] by (simp add: write_token_def plain_char_def is_whitespace_def)
  obtain a b where "write_tokens (node_tokens name rf mw) = a @ ''rf='' @ b"
  proof (cases mw)
    case None
    then show ?thesis using that [of "write_token name @ '' ''" "write_nat rf"] pl by (simp add: node_tokens_def opt_token_def)
  next
    case (Some m)
    then show ?thesis using that [of "write_token name @ '' ''" "write_nat rf @ CHR '' '' # write_token (''min_writes='' @ write_nat m)"] pl
      by (simp add: node_tokens_def opt_token_def)
  qed
  then have "sublist ''rf='' (write_tokens (node_tokens name rf mw))" unfolding sublist_def by blast
  with fw assms show ?thesis by (simp add: is_tree_node_line_def name_ok_def)
qed

lemma parse_node_write:
  assumes "name_ok name" and "factor_ok rf mw"
  shows "parse_tree_node_line (write_tokens (node_tokens name rf mw)) = Inr (name, rf, mw)"
proof -
  have mwle: "m \<le> u64_max" if "mw = Some m" for m using assms(2) that by (simp add: factor_ok_def)
  have opts: "1 \<le> k \<Longrightarrow> k \<le> u64_max \<Longrightarrow> node_option name (''rf='' @ write_nat k) st = Inr (k, snd st)"
    "1 \<le> k \<Longrightarrow> k \<le> u64_max \<Longrightarrow> node_option name (''min_writes='' @ write_nat k) st = Inr (fst st, Some k)" for k st
    by (simp_all add: node_option_def strip_prefix_def parse_write_nat)
  show ?thesis
    using assms(2) mwle good_line_text(5) [OF node_tokens_good [OF assms(1)], of rf mw]
    by (cases mw) (simp_all add: parse_tree_node_line_def node_tokens_def opt_token_def factor_ok_def opts [simplified])
qed

lemma shard_line_facts:
  assumes "shard_ok s" and "shard_writable s" and "\<not> is_node_shard s"
  shows "\<not> is_tree_node_line (write_tokens (shard_tokens s))" and "parse_tree_shard_line (write_tokens (shard_tokens s)) = Inr s"
proof -
  obtain w ts where w: "shard_tokens s = w # ts" "w = type_name s" "w \<in> set [''raw'', ''fs'', ''s3'', ''mem'']"
    using assms(3) by (cases s) (simp_all add: shard_tokens_def type_name_def is_node_shard_def)
  have "list_all plain_char w \<and> w \<noteq> []"
    using plain_words [of w] subsetD [OF _ w(3), of "{''raw'', ''fs'', ''s3'', ''mem''}"] by auto
  then have "first_word (write_tokens (shard_tokens s)) = w" unfolding w(1) by (intro first_word_tokens) auto
  with w(3) show "\<not> is_tree_node_line (write_tokens (shard_tokens s))" by (auto simp: is_tree_node_line_def)
  have t: "tokenize (write_tokens (shard_tokens s)) = Inr (shard_tokens s)"
    using good_line_text(5) shard_tokens_good [OF assms(2,3)] by blast
  show "parse_tree_shard_line (write_tokens (shard_tokens s)) = Inr s"
    using parse_raw_write [of _ _ _ _ _ 0] parse_fs_write [of _ _ 0] parse_s3_write [of _ _ _ _ _ _ 0] assms t
    by (cases s) (simp_all add: parse_tree_shard_line_def shard_tokens_def is_node_shard_def)
qed

section \<open>Reading a tree back\<close>

definition stops :: "nat \<Rightarrow> (nat \<times> string) list \<Rightarrow> bool" where
  "stops d rest \<longleftrightarrow> (case rest of [] \<Rightarrow> True | (j, _) # _ \<Rightarrow> j \<le> d)"

lemma tree_body_stops: "stops d rest \<Longrightarrow> tree_body d rest sh ch = Inr (sh, ch, rest)"
  by (cases rest) (auto simp: stops_def)

lemma body_lines_hd: "stops d rest \<Longrightarrow> stops d (written (body_lines d sh ch) @ rest)"
proof (cases sh)
  case (Cons s ss)
  assume "stops d rest"
  moreover have "\<exists>x xs. node_lines d c = (d, x) # xs" for c by (cases c) simp
  ultimately show ?thesis using Cons
    by (cases ch) (auto simp: stops_def, metis (no_types, lifting) Cons_eq_appendI case_prodI list.simps(5) order_refl written_simps(3))
qed simp

lemma tree_body_write:
  "i < d \<Longrightarrow> stops d rest \<Longrightarrow> tree_ok n \<Longrightarrow> tree_writable n \<Longrightarrow>
     tree_body i (written (node_lines d n) @ rest) sh0 ch0 = tree_body i rest (sh0 @ [NodeShard (tn_name n)]) (ch0 @ [n])"
  "i < d \<Longrightarrow> stops d rest \<Longrightarrow> list_all shard_ok sh \<Longrightarrow> list_all shard_writable sh \<Longrightarrow> node_refs sh = map tn_name ch \<Longrightarrow>
     (\<forall>c\<in>set ch. tree_ok c \<and> tree_writable c) \<Longrightarrow>
     tree_body i (written (body_lines d sh ch) @ rest) sh0 ch0 = tree_body i rest (sh0 @ sh) (ch0 @ ch)"
proof (induction d n and d sh ch arbitrary: i rest sh0 ch0 and i rest sh0 ch0 rule: node_lines_body_lines.induct)
  case (1 d name rf mw shards children)
  have ok: "name_ok name" "factor_ok rf mw" using 1 by simp_all
  have "stops (d + 1) rest" using 1(3) by (auto simp: stops_def split: list.splits)
  then have body: "tree_body d (written (body_lines (d + 1) shards children) @ rest) [] [] = Inr (shards, children, rest)"
    using 1(1) [of d rest "[]" "[]"] 1(3-) tree_body_stops by simp
  show ?case using 1(2) body by (simp add: node_tokens_line [OF ok(1)] parse_node_write [OF ok])
next
  case (2 d children)
  then show ?case by simp
next
  case (3 d s shards children)
  show ?case
  proof (cases "is_node_shard s")
    case False
    then have "tree_body i (written (body_lines d shards children) @ rest) (sh0 @ [s]) ch0 = tree_body i rest ((sh0 @ [s]) @ shards) (ch0 @ children)"
      using 3(4-) by (intro 3(3)) auto
    with False 3(4,6,7) show ?thesis using shard_line_facts [of s] by simp
  next
    case True
    then obtain nm where s: "s = NodeShard nm" by (cases s) (auto simp: is_node_shard_def)
    with 3(8) obtain c cs where c: "children = c # cs" "nm = tn_name c" by (cases children) auto
    have st: "stops d (written (body_lines d shards cs) @ rest)" by (rule body_lines_hd [OF 3(5)])
    have "tree_body i (written (node_lines d c) @ written (body_lines d shards cs) @ rest) sh0 ch0 =
        tree_body i (written (body_lines d shards cs) @ rest) (sh0 @ [NodeShard (tn_name c)]) (ch0 @ [c])"
      using 3(4-) c by (intro 3(1) [OF True c(1) _ st]) auto
    also have "\<dots> = tree_body i rest ((sh0 @ [NodeShard (tn_name c)]) @ shards) ((ch0 @ [c]) @ cs)"
      using 3(4-) c s by (intro 3(2) [OF True c(1)]) auto
    finally show ?thesis using True by (simp add: c s)
  qed
qed

section \<open>The whole file\<close>

definition line_text :: "string \<Rightarrow> bool" where
  "line_text l \<longleftrightarrow> l \<noteq> [] \<and> one_line l \<and> \<not> is_whitespace (hd l) \<and> \<not> is_whitespace (last l) \<and> hd l \<noteq> CHR ''#''"

definition indented :: "nat \<times> string \<Rightarrow> string" where
  "indented dl = replicate (fst dl) CHR '' '' @ snd dl"

definition directive_line :: "string \<Rightarrow> string option \<Rightarrow> (nat \<times> string) list" where
  "directive_line key v = (case v of Some x \<Rightarrow> [(0, key @ CHR '' '' # x)] | None \<Rightarrow> [])"

definition tree_lines :: "tree_conf \<Rightarrow> (nat \<times> string) list" where
  "tree_lines t = directive_line ''cluster'' (Some (tc_cluster_name t)) @ directive_line ''catalog'' (tc_catalog t) @
     directive_line ''read_prefer'' (tc_read_prefer t) @ directive_line ''compression'' (tc_compression t) @
     directive_line ''direct_io'' (Some (bool_text (tc_direct_io t))) @ directive_line ''size_mb'' (map_option write_nat (tc_size_mb t)) @
     directive_line ''read_only'' (Some (bool_text (tc_read_only t))) @ written (node_lines 0 (tc_root t))"

definition write_tree :: "tree_conf \<Rightarrow> string" where
  "write_tree t = write_lines (map indented (tree_lines t))"

definition opt_text :: "string option \<Rightarrow> bool" where
  "opt_text v \<longleftrightarrow> (case v of Some x \<Rightarrow> line_text x | None \<Rightarrow> True)"

definition directive_words :: "string list" where
  "directive_words = [''cluster'', ''catalog'', ''read_prefer'', ''replicas'', ''compression'', ''direct_io'', ''size_mb'', ''read_only''] @
     TREE_DAEMON_DIRECTIVES"

definition tree_conf_ok :: "tree_conf \<Rightarrow> bool" where
  "tree_conf_ok t \<longleftrightarrow> tree_ok (tc_root t) \<and> tree_writable (tc_root t) \<and> tn_name (tc_root t) \<notin> set directive_words \<and>
     \<not> skipped_prefix (tn_name (tc_root t)) \<and> line_text (tc_cluster_name t) \<and> opt_text (tc_catalog t) \<and> opt_text (tc_compression t) \<and>
     prefer_ok (tc_read_prefer t) \<and> (case tc_size_mb t of Some n \<Rightarrow> n \<le> u64_max | None \<Rightarrow> True)"

lemma content_lines_write:
  assumes "\<forall>x\<in>set xs. line_text (snd x)"
  shows "content_lines (write_lines (map indented xs)) = xs"
proof -
  have one: "text_lines (indented (d, l) @ newline # rest) = indented (d, l) # text_lines rest" "trim (indented (d, l)) = l"
    "indent_of (indented (d, l)) = d" "\<not> is_blank l" if l: "line_text l" for d l rest
  proof -
    obtain c cs where c: "l = c # cs" using l by (cases l) (auto simp: line_text_def)
    have sp: "dropWhile is_whitespace (replicate d CHR '' '' @ l) = l"
      using l c char_plain_facts(3) by (induction d) (auto simp: line_text_def)
    have "one_line (replicate d CHR '' '')" by (auto simp: one_line_def newline_def)
    then show "text_lines (indented (d, l) @ newline # rest) = indented (d, l) # text_lines rest"
      unfolding indented_def using l c by (intro text_lines_step) (auto simp: line_text_def)
    show "indent_of (indented (d, l)) = d" using sp by (simp add: indent_of_def trim_start_def indented_def)
    have "trim l = l" using trim_edges [of l] l by (simp add: line_text_def)
    then show "trim (indented (d, l)) = l" using sp c l by (simp add: trim_def trim_start_def indented_def line_text_def)
    show "\<not> is_blank l" using l c by (auto simp: line_text_def is_blank_def)
  qed
  have "text_lines (write_lines (map indented xs)) = map indented xs"
    using assms by (induction xs) (auto simp: one)
  moreover have "map (\<lambda>l. (indent_of l, trim l)) (filter (\<lambda>l. \<not> is_blank (trim l)) (map indented xs)) = xs"
    using assms by (induction xs) (auto simp: one)
  ultimately show ?thesis by (simp add: content_lines_def)
qed

lemma good_line_line_text: "good_line toks \<Longrightarrow> line_text (write_tokens toks)"
  using write_tokens_edges [of toks] write_token_edges [of "hd toks"] write_tokens_one_line [of toks]
  by (cases toks) (auto simp: good_line_def line_text_def)

lemma node_lines_text:
  "tree_ok n \<Longrightarrow> tree_writable n \<Longrightarrow> (j, l) \<in> set (written (node_lines d n)) \<Longrightarrow> line_text l"
  "list_all shard_ok sh \<Longrightarrow> list_all shard_writable sh \<Longrightarrow> node_refs sh = map tn_name ch \<Longrightarrow> (\<forall>c\<in>set ch. tree_ok c \<and> tree_writable c) \<Longrightarrow>
     (j, l) \<in> set (written (body_lines d sh ch)) \<Longrightarrow> line_text l"
proof (induction d n and d sh ch rule: node_lines_body_lines.induct)
  case (1 d name rf mw shards children)
  then show ?case using good_line_line_text node_tokens_good by auto
next
  case (3 d s shards children)
  show ?case
  proof (cases "is_node_shard s")
    case True
    then obtain nm where s: "s = NodeShard nm" by (cases s) (auto simp: is_node_shard_def)
    with 3(6) obtain c cs where c: "children = c # cs" by (cases children) auto
    with 3 True s show ?thesis by auto
  next
    case False
    with 3(3-) good_line_line_text shard_tokens_good [of s] show ?thesis by auto
  qed
qed simp_all

lemma key_value_line:
  assumes "list_all plain_char key" and "line_text v"
  shows "key_value (key @ CHR '' '' # v) = (key, Some v)"
proof -
  have k: "\<forall>c\<in>set key. \<not> is_whitespace c" using assms(1) by (simp add: list_all_iff plain_char_def)
  have "trim v = v" using trim_edges [of v] assms(2) by (simp add: line_text_def)
  then show ?thesis using k char_plain_facts(3) by (simp add: key_value_def takeWhile_append dropWhile_append)
qed

lemma tree_directives_indented:
  "\<forall>x\<in>set ls. 0 < fst x \<Longrightarrow> tree_directives ls remaining st = Inr (remaining @ ls, st)"
  by (induction ls remaining st rule: tree_directives.induct) simp_all

lemma node_lines_indent: "(j, l) \<in> set (written (node_lines d n)) \<Longrightarrow> d \<le> j" "(j, l) \<in> set (written (body_lines d sh ch)) \<Longrightarrow> d \<le> j"
  by (induction d n and d sh ch rule: node_lines_body_lines.induct) (auto split: if_splits list.splits)

text \<open>The directives of a written tree, one after the other.\<close>

definition settles :: "(nat \<times> string) list \<Rightarrow> tree_conf \<Rightarrow> tree_conf \<Rightarrow> bool" where
  "settles ls st st' \<longleftrightarrow> (\<forall>rest remaining. tree_directives (ls @ rest) remaining st = tree_directives rest remaining st')"

lemma settles_append: "settles xs st st1 \<Longrightarrow> settles ys st1 st2 \<Longrightarrow> settles (xs @ ys) st st2"
  by (simp add: settles_def)

lemma settles_line:
  assumes "list_all plain_char key" and "opt_text (map_option g v)"
    and "\<And>x. v = Some x \<Longrightarrow> tree_directive (key @ CHR '' '' # g x) st = Inr (Some (upd (Some x) st))" and "upd None st = st"
  shows "settles (directive_line key (map_option g v)) st (upd v st)"
  using assms by (cases v) (simp_all add: settles_def directive_line_def)

lemma directive_keys: "list_all plain_char ''cluster''" "list_all plain_char ''catalog''" "list_all plain_char ''read_prefer''"
  "list_all plain_char ''compression''" "list_all plain_char ''direct_io''" "list_all plain_char ''size_mb''" "list_all plain_char ''read_only''"
  by (simp_all add: plain_char_def is_whitespace_def)

lemma tree_directive_values:
  "line_text v \<Longrightarrow> tree_directive (''cluster'' @ CHR '' '' # v) st = Inr (Some (st\<lparr>tc_cluster_name := v\<rparr>))"
  "line_text v \<Longrightarrow> tree_directive (''catalog'' @ CHR '' '' # v) st = Inr (Some (st\<lparr>tc_catalog := Some v\<rparr>))"
  "line_text v \<Longrightarrow> v = ''round-robin'' \<or> v = ''ordered'' \<Longrightarrow>
     tree_directive (''read_prefer'' @ CHR '' '' # v) st = Inr (Some (st\<lparr>tc_read_prefer := Some v\<rparr>))"
  "line_text v \<Longrightarrow> tree_directive (''compression'' @ CHR '' '' # v) st = Inr (Some (st\<lparr>tc_compression := Some v\<rparr>))"
  "line_text (bool_text b) \<Longrightarrow> tree_directive (''direct_io'' @ CHR '' '' # bool_text b) st = Inr (Some (st\<lparr>tc_direct_io := b\<rparr>))"
  "line_text (write_nat n) \<Longrightarrow> n \<le> u64_max \<Longrightarrow> tree_directive (''size_mb'' @ CHR '' '' # write_nat n) st = Inr (Some (st\<lparr>tc_size_mb := Some n\<rparr>))"
  "line_text (bool_text b) \<Longrightarrow> tree_directive (''read_only'' @ CHR '' '' # bool_text b) st = Inr (Some (st\<lparr>tc_read_only := b\<rparr>))"
  unfolding tree_directive_def
  by (simp_all add: key_value_line [OF directive_keys(1)] key_value_line [OF directive_keys(2)] key_value_line [OF directive_keys(3)]
      key_value_line [OF directive_keys(4)] key_value_line [OF directive_keys(5)] key_value_line [OF directive_keys(6)]
      key_value_line [OF directive_keys(7)] is_true_text parse_write_nat del: append.append_Cons)

lemma line_text_values: "line_text (bool_text b)" "line_text (write_nat n)" "line_text ''round-robin''" "line_text ''ordered''"
proof -
  have plain: "line_text w" if "list_all plain_char w" "w \<noteq> []" "hd w \<noteq> CHR ''#''" for w
    using that plain_one_line [OF that(1)] by (auto simp: line_text_def list_all_iff plain_char_def)
  show "line_text (bool_text b)" "line_text ''round-robin''" "line_text ''ordered''"
    by (rule plain; simp add: bool_text_def plain_char_def is_whitespace_def)+
  have "is_digit (hd (write_nat n))" using write_nat_value [of n] by (cases "write_nat n") auto
  then show "line_text (write_nat n)" using write_nat_token [of n] by (intro plain) (auto simp: is_digit_def)
qed

lemma settles_one: "tree_directive (key @ CHR '' '' # v) st = Inr (Some st') \<Longrightarrow> settles (directive_line key (Some v)) st st'"
  by (simp add: settles_def directive_line_def)

lemma settles_directives:
  assumes "tree_conf_ok t"
  shows "settles (directive_line ''cluster'' (Some (tc_cluster_name t)) @ directive_line ''catalog'' (tc_catalog t) @
     directive_line ''read_prefer'' (tc_read_prefer t) @ directive_line ''compression'' (tc_compression t) @
     directive_line ''direct_io'' (Some (bool_text (tc_direct_io t))) @ directive_line ''size_mb'' (map_option write_nat (tc_size_mb t)) @
     directive_line ''read_only'' (Some (bool_text (tc_read_only t)))) tree_start (t\<lparr>tc_root := tc_root tree_start\<rparr>)"
proof -
  have w: "line_text (tc_cluster_name t)" "opt_text (tc_catalog t)" "opt_text (tc_compression t)" "prefer_ok (tc_read_prefer t)"
    "case tc_size_mb t of Some n \<Rightarrow> n \<le> u64_max | None \<Rightarrow> True" using assms by (simp_all add: tree_conf_ok_def)
  have pt: "opt_text (map_option id (tc_read_prefer t))" "opt_text (map_option write_nat (tc_size_mb t))"
    using w(4) line_text_values by (auto simp: prefer_ok_def opt_text_def split: option.splits)
  note v = tree_directive_values
  let ?s1 = "tree_start\<lparr>tc_cluster_name := tc_cluster_name t\<rparr>"
  let ?s2 = "?s1\<lparr>tc_catalog := tc_catalog t\<rparr>"
  let ?s3 = "?s2\<lparr>tc_read_prefer := tc_read_prefer t\<rparr>"
  let ?s4 = "?s3\<lparr>tc_compression := tc_compression t\<rparr>"
  let ?s5 = "?s4\<lparr>tc_direct_io := tc_direct_io t\<rparr>"
  let ?s6 = "?s5\<lparr>tc_size_mb := tc_size_mb t\<rparr>"
  let ?s7 = "?s6\<lparr>tc_read_only := tc_read_only t\<rparr>"
  have r1: "settles (directive_line ''cluster'' (Some (tc_cluster_name t))) tree_start ?s1" by (rule settles_one [OF v(1) [OF w(1)]])
  have r2: "settles (directive_line ''catalog'' (map_option id (tc_catalog t))) ?s1 ?s2"
    by (rule settles_line [OF directive_keys(2), where upd = "\<lambda>v. tc_catalog_update (\<lambda>_. v)"])
      (use w(2) v(2) in \<open>auto simp: option.map_id opt_text_def tree_start_def simp del: append.append_Cons\<close>)
  have r3: "settles (directive_line ''read_prefer'' (map_option id (tc_read_prefer t))) ?s2 ?s3"
    by (rule settles_line [OF directive_keys(3) pt(1), where upd = "\<lambda>v. tc_read_prefer_update (\<lambda>_. v)"])
      (use w(4) v(3) line_text_values in \<open>auto simp: prefer_ok_def tree_start_def simp del: append.append_Cons\<close>)
  have r4: "settles (directive_line ''compression'' (map_option id (tc_compression t))) ?s3 ?s4"
    by (rule settles_line [OF directive_keys(4), where upd = "\<lambda>v. tc_compression_update (\<lambda>_. v)"])
      (use w(3) v(4) in \<open>auto simp: option.map_id opt_text_def tree_start_def simp del: append.append_Cons\<close>)
  have r5: "settles (directive_line ''direct_io'' (Some (bool_text (tc_direct_io t)))) ?s4 ?s5" by (rule settles_one [OF v(5) [OF line_text_values(1)]])
  have r6: "settles (directive_line ''size_mb'' (map_option write_nat (tc_size_mb t))) ?s5 ?s6"
    by (rule settles_line [OF directive_keys(6) pt(2), where upd = "\<lambda>v. tc_size_mb_update (\<lambda>_. v)"])
      (use w(5) v(6) [OF line_text_values(2)] in \<open>auto simp: tree_start_def simp del: append.append_Cons\<close>)
  have r7: "settles (directive_line ''read_only'' (Some (bool_text (tc_read_only t)))) ?s6 ?s7" by (rule settles_one [OF v(7) [OF line_text_values(1)]])
  have e: "?s7 = t\<lparr>tc_root := tc_root tree_start\<rparr>" by (cases t) (simp add: tree_start_def)
  show ?thesis
    using settles_append [OF r1 settles_append [OF r2 settles_append [OF r3 settles_append [OF r4 settles_append [OF r5 settles_append [OF r6 r7]]]]]]
    unfolding e by (simp add: option.map_id)
qed

lemma directive_line_text:
  assumes "list_all plain_char key" and "key \<noteq> []" and "hd key \<noteq> CHR ''#''" and "opt_text v"
  shows "\<forall>x\<in>set (directive_line key v). line_text (snd x)"
proof -
  have "\<not> is_whitespace (hd key)" using assms(1,2) by (cases key) (auto simp: plain_char_def)
  then show ?thesis
    using assms plain_one_line [OF assms(1)] by (auto simp: directive_line_def opt_text_def line_text_def split: option.splits)
qed

lemma tree_lines_text:
  assumes "tree_conf_ok t"
  shows "\<forall>x\<in>set (tree_lines t). line_text (snd x)"
proof -
  have w: "opt_text (Some (tc_cluster_name t))" "opt_text (tc_catalog t)" "opt_text (tc_read_prefer t)" "opt_text (tc_compression t)"
    "opt_text (map_option write_nat (tc_size_mb t))" "opt_text (Some (bool_text b))" for b
    using assms line_text_values by (auto simp: tree_conf_ok_def opt_text_def prefer_ok_def split: option.splits)
  have n: "\<forall>x\<in>set (written (node_lines 0 (tc_root t))). line_text (snd x)"
    using node_lines_text(1) [of "tc_root t"] assms by (auto simp: tree_conf_ok_def)
  have d: "\<forall>x\<in>set (directive_line ''cluster'' (Some (tc_cluster_name t))). line_text (snd x)"
    "\<forall>x\<in>set (directive_line ''catalog'' (tc_catalog t)). line_text (snd x)"
    "\<forall>x\<in>set (directive_line ''read_prefer'' (tc_read_prefer t)). line_text (snd x)"
    "\<forall>x\<in>set (directive_line ''compression'' (tc_compression t)). line_text (snd x)"
    "\<forall>x\<in>set (directive_line ''direct_io'' (Some (bool_text (tc_direct_io t)))). line_text (snd x)"
    "\<forall>x\<in>set (directive_line ''size_mb'' (map_option write_nat (tc_size_mb t))). line_text (snd x)"
    "\<forall>x\<in>set (directive_line ''read_only'' (Some (bool_text (tc_read_only t)))). line_text (snd x)"
    by (intro directive_line_text directive_keys w; simp)+
  show ?thesis unfolding tree_lines_def set_append using d n by blast
qed

lemma root_line_remains:
  assumes "name_ok name" and "name \<notin> set directive_words" and "\<not> skipped_prefix name"
  shows "tree_directive (write_tokens (node_tokens name rf mw)) st = Inr None"
proof -
  have n: "list_all plain_char name" using assms(1) by (simp add: name_ok_def)
  then have k: "\<forall>c\<in>set name. \<not> is_whitespace c" by (simp add: list_all_iff plain_char_def)
  obtain r where "write_tokens (node_tokens name rf mw) = name @ CHR '' '' # r"
    using n by (cases "opt_token ''min_writes='' (map_option write_nat mw)") (simp_all add: node_tokens_def write_token_def)
  then obtain val where kv: "key_value (write_tokens (node_tokens name rf mw)) = (name, val)"
    using k char_plain_facts(3) by (simp add: key_value_def takeWhile_append dropWhile_append)
  have "name \<notin> {''cluster'', ''catalog'', ''read_prefer'', ''replicas'', ''compression'', ''direct_io'', ''size_mb'', ''read_only''}"
    "name \<notin> set TREE_DAEMON_DIRECTIVES" using assms(2) unfolding directive_words_def by simp_all
  then show ?thesis using assms(3) unfolding tree_directive_def kv prod.case by simp
qed

text \<open>
  C38. Every well-formed tree configuration, whatever its depth, can be written with indentation and
  is read back by the tree parser as exactly that tree with its global settings. The name of the root
  must not be a directive, since a line of no indentation that starts with one is not a node.
\<close>

theorem tree_conf_roundtrip:
  assumes "tree_conf_ok t"
  shows "parse_tree_conf (write_tree t) = Inr t"
proof -
  obtain name rf mw sh ch where root: "tc_root t = TreeNode name rf mw sh ch" by (cases "tc_root t")
  have w: "tree_ok (tc_root t)" "tree_writable (tc_root t)" "name \<notin> set directive_words" "\<not> skipped_prefix name"
    "tc_cluster_name t \<noteq> []" using assms by (simp_all add: tree_conf_ok_def root line_text_def)
  then have nm: "name_ok name" "factor_ok rf mw" by (simp_all add: root)
  let ?dirs = "directive_line ''cluster'' (Some (tc_cluster_name t)) @ directive_line ''catalog'' (tc_catalog t) @
     directive_line ''read_prefer'' (tc_read_prefer t) @ directive_line ''compression'' (tc_compression t) @
     directive_line ''direct_io'' (Some (bool_text (tc_direct_io t))) @ directive_line ''size_mb'' (map_option write_nat (tc_size_mb t)) @
     directive_line ''read_only'' (Some (bool_text (tc_read_only t)))"
  let ?rest = "written (body_lines 1 sh ch)"
  let ?head = "(0, write_tokens (node_tokens name rf mw))"
  have lines: "tree_lines t = ?dirs @ ?head # ?rest" by (simp add: tree_lines_def root)
  have "content_lines (write_tree t) = ?dirs @ ?head # ?rest"
    unfolding write_tree_def lines [symmetric] by (rule content_lines_write [OF tree_lines_text [OF assms]])
  moreover have "\<forall>x\<in>set ?rest. 0 < fst x" using node_lines_indent(2) [of _ _ 1 sh ch] by fastforce
  then have "tree_directives (?dirs @ ?head # ?rest) [] tree_start = Inr (?head # ?rest, t\<lparr>tc_root := tc_root tree_start\<rparr>)"
    using settles_directives [OF assms, unfolded settles_def, THEN spec, THEN spec, of "?head # ?rest" "[]"]
    by (simp add: root_line_remains [OF nm(1) w(3,4)] tree_directives_indented)
  moreover have "tree_body 0 (?rest @ []) [] [] = tree_body 0 [] ([] @ sh) ([] @ ch)"
    using w(1,2) by (intro tree_body_write(2)) (auto simp: root stops_def)
  then have "parse_tree_node_block (?head # ?rest) = Inr (tc_root t, [])"
    by (simp add: parse_tree_node_block_def parse_node_write [OF nm] root)
  ultimately show ?thesis using w(5) by (simp add: parse_tree_conf_def)
qed

definition demo_tree :: tree_conf where
  "demo_tree = tree_start\<lparr>tc_cluster_name := ''c1'', tc_read_prefer := Some ''ordered'', tc_size_mb := Some 64,
     tc_root := TreeNode ''site'' 2 (Some 1) [NodeShard ''rack'', MemShard]
       [TreeNode ''rack'' 1 None [RawShard ''/dev/a'' False None None None, FsShard ''/data'' True] []]\<rparr>"

theorem tree_conf_roundtrip_witness:
  "parse_tree_conf (write_tree demo_tree) = Inr demo_tree \<and> tc_cluster_name demo_tree = ''c1''"
proof -
  have "tree_conf_ok demo_tree"
    by (simp add: demo_tree_def tree_conf_ok_def factor_ok_def shard_ok_def node_refs_def is_node_shard_def name_ok_def shard_writable_def
        plain_char_def is_whitespace_def directive_words_def TREE_DAEMON_DIRECTIVES_def skipped_prefix_def line_text_def one_line_def
        newline_def opt_text_def opt_one_line_def tree_start_def prefer_ok_def u64_max_def)
  from tree_conf_roundtrip [OF this] show ?thesis by (simp add: demo_tree_def)
qed

text \<open>
  A flat file may hold \<open>min_writes\<close> before its shards. The tree parser has no such directive: it takes
  the line as the root node, whose body ends at once, and every node and shard that follows is ignored.
\<close>

lemma tree_min_writes_swallowed:
  "parse_tree_conf (write_lines (map indented [(0, ''min_writes 2''), (0, ''root rf=2''), (2, ''mem'')])) =
     Inr (tree_start\<lparr>tc_cluster_name := ''min_writes'', tc_root := TreeNode ''min_writes'' 1 None [] []\<rparr>)"
proof -
  let ?ls = "[(0, ''min_writes 2''), (0, ''root rf=2''), (2, ''mem'')]"
  have "content_lines (write_lines (map indented ?ls)) = ?ls"
    by (rule content_lines_write) (simp add: line_text_def one_line_def newline_def is_whitespace_def)
  moreover have "tree_directives ?ls [] tree_start = Inr (?ls, tree_start)"
    by (simp add: tree_directive_def key_value_def is_whitespace_def TREE_DAEMON_DIRECTIVES_def skipped_prefix_def trim_def trim_end_def trim_start_def)
  moreover have "parse_tree_node_block ?ls = Inr (TreeNode ''min_writes'' 1 None [] [], [(0, ''root rf=2''), (2, ''mem'')])"
    by (simp add: parse_tree_node_block_def parse_tree_node_line_def tokenize_def node_option_def strip_prefix_def is_whitespace_def)
  ultimately show ?thesis by (simp add: parse_tree_conf_def tree_start_def)
qed

end
