(* ===== verification/Server_Validation.thy ===== *)
theory Server_Validation
  imports Server_Config Config_Trees
begin

text \<open>
  What the server's parser guarantees of a tree, and what validation then decides: it reports an error
  exactly when names, backends or devices collide, a requested node is missing, or a shard cannot be used.
\<close>

section \<open>Accepted trees\<close>

fun server_ok :: "server_node \<Rightarrow> bool" where
  "server_ok (ServerNode nm li ep rf mw dr shards children) \<longleftrightarrow> nm \<noteq> [] \<and> li \<noteq> [] \<and> ep \<noteq> [] \<and> rf \<le> u64_max \<and>
     (case mw of Some m \<Rightarrow> 1 \<le> m \<and> m \<le> rf | None \<Rightarrow> True) \<and> list_all shard_ok shards \<and>
     node_refs shards = map sn_name children \<and> (\<forall>c\<in>set children. server_ok c)"

lemma unique_parts_inv:
  assumes "\<And>tok s s'. f tok s = Inr s' \<Longrightarrow> P s \<Longrightarrow> P s'"
  shows "unique_parts dup f seen toks s = Inr s' \<Longrightarrow> P s \<Longrightarrow> P s'"
  by (induction toks arbitrary: seen s) (auto split: sum.splits if_splits dest: assms)

lemma tokenize_kv: "tokenize line = Inr toks \<Longrightarrow> tokenize_kv_line line = toks"
  by (auto simp: tokenize_def tokenize_kv_line_def split: prod.splits if_splits)

lemma tokenize_kv_nonempty: "[] \<notin> set (tokenize_kv_line line)"
proof -
  have inv: "tokenize_chars ts cur q l = (ts', cur', q') \<Longrightarrow> [] \<notin> set ts \<Longrightarrow> [] \<notin> set ts'" for ts cur q l ts' cur' q'
    by (induction ts cur q l rule: tokenize_chars.induct) (auto split: if_splits)
  obtain ts cur q where t: "tokenize_chars [] [] None line = (ts, cur, q)" by (cases "tokenize_chars [] [] None line")
  then have "[] \<notin> set ts" using inv by fastforce
  then show ?thesis by (simp add: tokenize_kv_line_def t)
qed

text \<open>What one part of a node line does to the replication factor and the quorum.\<close>

lemma node_part_factor:
  assumes "node_part name part p = Inr q"
  shows "case strip_prefix ''rf='' part of
      Some v \<Rightarrow> parse_uint u64_max v = Some (pn_replication_factor q) \<and> pn_min_writes q = pn_min_writes p
    | None \<Rightarrow> (case strip_prefix ''min_writes='' part of
        Some v \<Rightarrow> \<exists>n. parse_uint u64_max v = Some n \<and> n \<noteq> 0 \<and> pn_min_writes q = Some n \<and> pn_replication_factor q = pn_replication_factor p
      | None \<Rightarrow> pn_replication_factor q = pn_replication_factor p \<and> pn_min_writes q = pn_min_writes p)"
proof (cases "strip_prefix ''rf='' part")
  case rf: None
  show ?thesis
  proof (cases "strip_prefix ''min_writes='' part")
    case None
    with assms rf have "pn_replication_factor q = pn_replication_factor p \<and> pn_min_writes q = pn_min_writes p"
      unfolding node_part_def option.case by simp (elim if_cases, auto split: option.splits)
    with rf None show ?thesis by simp
  qed (use assms rf in \<open>auto simp: node_part_def split: option.splits if_splits\<close>)
qed (use assms in \<open>auto simp: node_part_def split: option.splits\<close>)

lemma parse_node_line_ok:
  assumes "parse_node_line line = Inr (name, p)"
  shows "name \<noteq> [] \<and> pn_listen p \<noteq> [] \<and> pn_endpoint p \<noteq> [] \<and> pn_replication_factor p \<le> u64_max \<and>
     (case pn_min_writes p of Some m \<Rightarrow> 1 \<le> m \<and> m \<le> pn_replication_factor p | None \<Rightarrow> True)"
proof -
  let ?P = "\<lambda>p. pn_replication_factor p \<le> u64_max \<and> (case pn_min_writes p of Some m \<Rightarrow> 1 \<le> m | None \<Rightarrow> True)"
  let ?start = "\<lparr>pn_listen = [], pn_endpoint = [], pn_replication_factor = 1, pn_min_writes = None, pn_delete_requires_min_writes = False\<rparr>"
  have step: "?P s'" if "node_part nm tok s = Inr s'" "?P s" for nm tok s s'
    using node_part_factor [OF that(1)] that(2) parse_uint_bound by (auto split: option.splits)
  have start: "?P ?start" by (simp add: u64_max_def)
  have "?P p'" if "unique_parts dup (node_part nm) [] parts ?start = Inr p'" for dup nm parts p'
    by (rule unique_parts_inv [where P = ?P, OF step that start])
  with assms tokenize_kv_nonempty [of line] show ?thesis
    by (fastforce simp: parse_node_line_def split: list.splits sum.splits option.splits if_splits)
qed

lemma parse_shard_line_ok:
  assumes "parse_shard_line line = Inr s"
  shows "shard_ok s \<and> \<not> is_node_shard s"
proof -
  let ?P = "\<lambda>s. shard_ok s \<and> \<not> is_node_shard s"
  let ?S = "\<lambda>s. \<exists>ep bu re ak sk ps. s = S3Shard ep bu re ak sk ps"
  have rstep: "?P s'" if "raw_part tok s = Inr s'" "?P s" for tok s s'
    using that by (auto simp: raw_part_def shard_ok_def is_node_shard_def parse_uint_bound split: shard_conf.splits if_splits option.splits)
  have rstart: "?P (RawShard q False None None None)" for q by (simp add: shard_ok_def is_node_shard_def)
  have raw: "?P s" if "fold_tokens raw_part ts (RawShard q False None None None) = Inr s" for ts q
    by (rule fold_tokens_inv [where P = ?P, OF rstep that rstart])
  have sstep: "?S s'" if "s3_part tok s = Inr s'" "?S s" for tok s s'
    using that by (auto simp: s3_part_def s3_assign_def split: option.splits if_splits)
  have sstart: "?S (S3Shard [] [] None None None False)" by (intro exI) (rule refl)
  have s3: "?S s'" if "unique_parts DuplicateKey s3_part [] ts (S3Shard [] [] None None None False) = Inr s'" for ts s'
    by (rule unique_parts_inv [where P = ?S, OF sstep that sstart])
  obtain first rest where l: "tokenize_kv_line line = first # rest" using assms by (cases "tokenize_kv_line line") (simp_all add: parse_shard_line_def)
  show ?thesis
    using assms unfolding parse_shard_line_def l list.case
    by (elim if_cases) (auto split: list.splits sum.splits if_splits dest!: s3 dest: raw, simp_all add: shard_ok_def is_node_shard_def)
qed

lemma server_body_ok:
  assumes "server_body i ls sh ch = Inr (sh', ch', rest)"
    and "list_all shard_ok sh" and "node_refs sh = map sn_name ch" and "\<forall>c\<in>set ch. server_ok c"
  shows "list_all shard_ok sh' \<and> node_refs sh' = map sn_name ch' \<and> (\<forall>c\<in>set ch'. server_ok c)"
  using assms
proof (induction i ls sh ch arbitrary: sh' ch' rest rule: server_body.induct)
  case (1 i sh ch)
  then show ?case by simp
next
  case (2 i j l ls sh ch)
  consider "j \<le> i" | "\<not> j \<le> i" "is_node_line l" | "\<not> j \<le> i" "\<not> is_node_line l" by blast
  then show ?case
  proof cases
    case 1
    with 2(4-) show ?thesis by auto
  next
    case node: 2
    with 2(4) obtain name p sh1 ch1 rest1 where p: "parse_node_line l = Inr (name, p)"
      and b: "server_body j ls [] [] = Inr (sh1, ch1, rest1)"
      and r: "server_body i rest1 (sh @ [NodeShard name]) (ch @ [server_node_of (name, p) sh1 ch1]) = Inr (sh', ch', rest)"
      by (auto split: sum.splits)
    have "list_all shard_ok sh1 \<and> node_refs sh1 = map sn_name ch1 \<and> (\<forall>c\<in>set ch1. server_ok c)"
      using 2(1) [OF node p b] by simp
    then have "server_ok (server_node_of (name, p) sh1 ch1)" using parse_node_line_ok [OF p] by (simp add: server_node_of_def)
    then show ?thesis using 2(2) [OF node p b refl refl] r 2(5-) by (simp add: shard_ok_def server_node_of_def)
  next
    case shard: 3
    with 2(4) obtain s where s: "parse_shard_line l = Inr s"
      and r: "server_body i ls (sh @ [s]) ch = Inr (sh', ch', rest)" by (auto split: sum.splits)
    from 2(3) [OF shard s r] 2(5-) parse_shard_line_ok [OF s] show ?thesis by simp
  qed
qed

lemma parsed_server_ok:
  assumes "parse_tree_config text = Inr tree"
  shows "server_ok (tg_root tree)"
proof -
  from assms obtain i l ls rest np sh ch where p: "parse_node_line l = Inr np"
    and t: "server_body i ls [] [] = Inr (sh, ch, rest)" and root: "tg_root tree = server_node_of np sh ch"
    by (auto simp: parse_tree_config_def parse_node_block_def split: list.splits sum.splits if_splits)
  obtain name q where np: "np = (name, q)" by (cases np)
  show ?thesis unfolding root np using server_body_ok [OF t] parse_node_line_ok [of l name q] p
    by (simp add: server_node_of_def np)
qed

section \<open>Collecting nodes\<close>

lemma find_node_collected:
  "find_node_recursive n name \<noteq> None \<longleftrightarrow> name \<in> set (collect_node_names n)"
  "find_in_children ns name \<noteq> None \<longleftrightarrow> name \<in> set (concat (map collect_node_names ns))"
  by (induction n name and ns name rule: find_node_recursive_find_in_children.induct) (auto split: option.splits)

lemma collected_names: "collect_node_names n = map sn_name (collect_nodes n)"
  by (induction n rule: collect_nodes.induct) (simp add: map_concat comp_def cong: map_cong)

lemma concat_nested: "concat (concat (map f xs)) = concat (map (\<lambda>x. concat (f x)) xs)"
  by (induction xs) simp_all

lemma validated_nodes: "validate_node fs tree names n = concat (map (node_diags fs tree names) (collect_nodes n))"
  by (induction n rule: collect_nodes.induct) (simp add: map_concat comp_def concat_nested cong: map_cong)

definition s3_backends :: "server_node \<Rightarrow> (string \<times> string) list" where
  "s3_backends n = List.map_filter (\<lambda>s. case s of S3Shard ep bu _ _ _ _ \<Rightarrow> Some (ep, bu) | _ \<Rightarrow> None) (sn_shards n)"

lemma collected_s3: "map (\<lambda>(ep, bkt, nname). (ep, bkt)) (collect_s3_shards n) = concat (map s3_backends (collect_nodes n))"
proof (induction n rule: collect_nodes.induct)
  case (1 nm li ep rf mw dr shards children)
  have "map (\<lambda>(ep, bkt, nname). (ep, bkt))
      (List.map_filter (\<lambda>s. case s of S3Shard endpoint bucket _ _ _ _ \<Rightarrow> Some (endpoint, bucket, nm) | _ \<Rightarrow> None) shards) =
    List.map_filter (\<lambda>s. case s of S3Shard ep bu _ _ _ _ \<Rightarrow> Some (ep, bu) | _ \<Rightarrow> None) shards"
    by (induction shards) (auto simp: List.map_filter_def split: shard_conf.splits)
  with 1 show ?case by (simp add: s3_backends_def map_concat comp_def concat_nested cong: map_cong)
qed

lemma repeated_Nil: "repeated key seen xs = [] \<longleftrightarrow> distinct (map key xs) \<and> key ` set xs \<inter> set seen = {}"
  by (induction key seen xs rule: repeated.induct) auto

lemma set_first_occurrences: "set (first_occurrences seen xs) = set xs - set seen"
  by (induction seen xs rule: first_occurrences.induct) auto

lemma collected_ok: "server_ok n \<Longrightarrow> m \<in> set (collect_nodes n) \<Longrightarrow> server_ok m"
  by (induction n rule: collect_nodes.induct) auto

lemma collected_children: "m \<in> set (collect_nodes n) \<Longrightarrow> set (sn_children m) \<subseteq> set (collect_nodes n)"
proof (induction n rule: collect_nodes.induct)
  case (1 nm li ep rf mw dr shards children)
  have "c \<in> set (collect_nodes c)" for c by (cases c) simp
  with 1 show ?case by fastforce
qed

section \<open>What validation decides\<close>

definition shard_usable :: "server_files \<Rightarrow> tree_shard \<Rightarrow> bool" where
  "shard_usable fs s \<longleftrightarrow> (case s of
     RawShard path _ cmp _ _ \<Rightarrow> fs_missing_parent fs path = None \<and> unknown_compression cmp = None
   | FsShard root _ \<Rightarrow> fs_exists fs root \<and> fs_is_dir fs root
   | _ \<Rightarrow> True)"

definition on_host :: "string \<Rightarrow> server_node list \<Rightarrow> server_node list" where
  "on_host host nodes = filter (\<lambda>n. endpoint_hostname (sn_endpoint n) = host) nodes"

definition no_errors :: "(diag_level \<times> config_diag) list \<Rightarrow> bool" where
  "no_errors ds \<longleftrightarrow> list_all (\<lambda>d. fst d \<noteq> DiagError) ds"

lemma no_errors_iff: "(\<forall>d. (DiagError, d) \<notin> set ds) \<longleftrightarrow> no_errors ds"
  by (auto simp: no_errors_def list_all_iff)

lemma no_errors_append [simp]: "no_errors (xs @ ys) \<longleftrightarrow> no_errors xs \<and> no_errors ys"
  by (simp add: no_errors_def)

lemma no_errors_concat: "no_errors (concat (map f xs)) \<longleftrightarrow> (\<forall>x\<in>set xs. no_errors (f x))"
  by (simp add: no_errors_def list_all_iff)

lemma no_errors_simps [simp]:
  "no_errors []" "no_errors ((l, d) # ds) \<longleftrightarrow> l \<noteq> DiagError \<and> no_errors ds"
  by (simp_all add: no_errors_def)

lemma no_errors_map: "no_errors (map (\<lambda>x. (DiagError, g x)) xs) \<longleftrightarrow> xs = []"
  by (cases xs) simp_all

lemma host_no_errors:
  "no_errors (host_diags nodes host) \<longleftrightarrow>
     distinct (map fst (raw_paths (on_host host nodes))) \<and> distinct (map fst (fs_roots (on_host host nodes)))"
  unfolding host_diags_def Let_def on_host_def [symmetric]
  by (simp add: case_prod_unfold no_errors_map repeated_Nil)

lemma hosts_no_errors:
  "no_errors (concat (map (host_diags nodes) (first_occurrences [] (map (\<lambda>n. endpoint_hostname (sn_endpoint n)) nodes)))) \<longleftrightarrow>
     (\<forall>host. distinct (map fst (raw_paths (on_host host nodes))) \<and> distinct (map fst (fs_roots (on_host host nodes))))"
proof -
  have "distinct (map fst (raw_paths (on_host host nodes))) \<and> distinct (map fst (fs_roots (on_host host nodes)))"
    if "host \<notin> (\<lambda>n. endpoint_hostname (sn_endpoint n)) ` set nodes" for host
  proof -
    have "on_host host nodes = []" using that by (auto simp: on_host_def filter_empty_conv)
    then show ?thesis by (simp add: raw_paths_def fs_roots_def)
  qed
  then show ?thesis unfolding no_errors_concat host_no_errors set_first_occurrences set_map list.set(1) Diff_empty by blast
qed

lemma node_no_errors:
  assumes "server_ok n" and "set (map sn_name (sn_children n)) \<subseteq> set names"
  shows "no_errors (node_diags fs tree names n) \<longleftrightarrow> (\<forall>s\<in>set (sn_shards n). shard_usable fs s)"
proof -
  have sh: "shard_ok s" and ref: "s = NodeShard r \<Longrightarrow> r \<in> set names" if "s \<in> set (sn_shards n)" for s r
  proof -
    show "shard_ok s" using that assms(1) by (cases n) (auto simp: list_all_iff)
    assume "s = NodeShard r"
    then have "r \<in> set (node_refs (sn_shards n))" using that by (force simp: node_refs_def List.map_filter_def)
    then show "r \<in> set names" using assms by (cases n) auto
  qed
  have "no_errors (shard_diags fs tree names nm (i, s)) \<longleftrightarrow> shard_usable fs s" if "s \<in> set (sn_shards n)" for nm i s
    using sh [OF that] ref [OF that]
    by (cases s) (auto simp: shard_diags_def shard_usable_def shard_ok_def split: option.splits)
  moreover have "snd ` set (enumerate 0 (sn_shards n)) = set (sn_shards n)" by (simp flip: set_map)
  ultimately have "(\<forall>x\<in>set (enumerate 0 (sn_shards n)). no_errors (shard_diags fs tree names nm x)) \<longleftrightarrow>
      (\<forall>s\<in>set (sn_shards n). shard_usable fs s)" for nm
    by (metis (no_types, lifting) image_iff prod.collapse)
  then show ?thesis by (simp add: node_diags_def no_errors_concat)
qed

text \<open>
  Validation of a tree that the server's parser accepted reports an error exactly in these cases:
  two nodes have the same name, the requested node is not in the tree, a compression is unknown, two
  shards anywhere in the tree use the same endpoint and bucket, two shards of nodes on one host use the
  same device or the same directory, or a shard's directory is missing. References to unknown children
  and empty buckets, for which validation also looks, cannot occur in an accepted tree.
\<close>

lemma validate_tree_exact:
  assumes "parse_tree_config text = Inr tree"
  defines "nodes \<equiv> collect_nodes (tg_root tree)"
  shows "(\<forall>d. (DiagError, d) \<notin> set (validate_tree_config fs tree node_name)) \<longleftrightarrow>
     distinct (map sn_name nodes) \<and>
     (case node_name of Some name \<Rightarrow> name \<in> sn_name ` set nodes | None \<Rightarrow> True) \<and>
     unknown_compression (tg_compression tree) = None \<and>
     distinct (concat (map s3_backends nodes)) \<and>
     (\<forall>host. distinct (map fst (raw_paths (on_host host nodes))) \<and> distinct (map fst (fs_roots (on_host host nodes)))) \<and>
     (\<forall>n\<in>set nodes. \<forall>s\<in>set (sn_shards n). shard_usable fs s)"
proof -
  have names: "collect_node_names (tg_root tree) = map sn_name nodes" unfolding nodes_def by (rule collected_names)
  have "no_errors (validate_node fs tree (map sn_name nodes) (tg_root tree)) \<longleftrightarrow> (\<forall>n\<in>set nodes. \<forall>s\<in>set (sn_shards n). shard_usable fs s)"
    unfolding validated_nodes no_errors_concat nodes_def [symmetric]
  proof (rule ball_cong [OF refl])
    fix n assume n: "n \<in> set nodes"
    show "no_errors (node_diags fs tree (map sn_name nodes) n) \<longleftrightarrow> (\<forall>s\<in>set (sn_shards n). shard_usable fs s)"
      using node_no_errors collected_ok [OF parsed_server_ok [OF assms(1)]] collected_children n unfolding nodes_def
      by (metis image_mono list.set_map)
  qed
  moreover have "find_node_recursive (tg_root tree) name = None \<longleftrightarrow> name \<notin> sn_name ` set nodes" for name
    using find_node_collected(1) [of "tg_root tree" name] unfolding names by auto
  moreover have "no_errors (map (\<lambda>(ep, bkt, nname). (DiagError, DuplicateS3 ep bkt nname))
      (repeated (\<lambda>(ep, bkt, nname). (ep, bkt)) [] (collect_s3_shards (tg_root tree)))) \<longleftrightarrow> distinct (concat (map s3_backends nodes))"
    unfolding nodes_def collected_s3 [symmetric] by (simp add: case_prod_unfold no_errors_map repeated_Nil)
  ultimately show ?thesis
    unfolding no_errors_iff validate_tree_config_def Let_def names nodes_def [symmetric]
    by (simp add: hosts_no_errors no_errors_map repeated_Nil split: option.splits)
qed

definition demo_lines :: "(nat \<times> string) list" where
  "demo_lines = [(0, ''a rf=1 listen=h:1 endpoint=http://h''), (1, ''raw /d''), (1, ''b rf=1 listen=h:2 endpoint=http://h:2''), (2, ''raw /d'')]"

definition demo_server :: server_conf where
  "demo_server = server_start\<lparr>tg_cluster_name := ''a'',
     tg_root := ServerNode ''a'' ''h:1'' ''http://h'' 1 None False [RawShard ''/d'' False None None None, NodeShard ''b'']
       [ServerNode ''b'' ''h:2'' ''http://h:2'' 1 None False [RawShard ''/d'' False None None None] []]\<rparr>"

lemma demo_content: "content_lines (write_lines (map indented demo_lines)) = demo_lines"
  by (rule content_lines_write) (simp add: demo_lines_def line_text_def one_line_def newline_def is_whitespace_def)

lemma demo_server_parsed: "parse_tree_config (write_lines (map indented demo_lines)) = Inr demo_server"
proof -
  note demo_content
  moreover have "server_directives demo_lines [] server_start = Inr (demo_lines, server_start)"
    by (simp add: demo_lines_def server_directive_def known_directive_def key_value_def is_whitespace_def)
  moreover have n: "parse_node_line ''a rf=1 listen=h:1 endpoint=http://h'' = Inr (''a'', \<lparr>pn_listen = ''h:1'', pn_endpoint = ''http://h'',
      pn_replication_factor = 1, pn_min_writes = None, pn_delete_requires_min_writes = False\<rparr>)"
    "parse_node_line ''b rf=1 listen=h:2 endpoint=http://h:2'' = Inr (''b'', \<lparr>pn_listen = ''h:2'', pn_endpoint = ''http://h:2'',
      pn_replication_factor = 1, pn_min_writes = None, pn_delete_requires_min_writes = False\<rparr>)"
    by (simp_all add: parse_node_line_def tokenize_kv_line_def is_whitespace_def node_part_def key_of_part_def strip_prefix_def
        parse_uint_def is_digit_def digits_value_def u64_max_def)
  moreover have "parse_shard_line ''raw /d'' = Inr (RawShard ''/d'' False None None None)"
    by (simp add: parse_shard_line_def tokenize_kv_line_def is_whitespace_def)
  moreover have "\<not> is_node_line ''raw /d''" "is_node_line ''b rf=1 listen=h:2 endpoint=http://h:2''"
    by (simp_all add: is_node_line_def first_word_def trim_start_def is_whitespace_def sublist_Cons_right)
  ultimately show ?thesis
    by (simp add: parse_tree_config_def parse_node_block_def demo_lines_def demo_server_def server_node_of_def server_start_def)
qed

text \<open>Two nodes of the host \<open>h\<close> use the device \<open>/d\<close>, so validation reports an error although every path exists.\<close>

end
