(* ===== verification/Config_Agreement.thy ===== *)
theory Config_Agreement
  imports Server_Validation
begin

text \<open>
  One tree file serves two programs, the server and the command line of the sharded store. When both
  parsers accept it, the whole configuration of the command line follows from the server's and from two
  directives that only the command line reads, \<open>read_only\<close> and \<open>catalog\<close>: the server skips them. The
  server also keeps a \<open>path=\<close> or \<open>root=\<close> in front of a path, which the command line removes.
\<close>

section \<open>The command line's view of a server tree\<close>

definition without :: "string \<Rightarrow> string \<Rightarrow> string" where
  "without p s = (case strip_prefix p s of Some r \<Rightarrow> r | None \<Rightarrow> s)"

definition cli_shard :: "tree_shard \<Rightarrow> shard_conf" where
  "cli_shard s = (case s of
     RawShard path ro cmp dio sz \<Rightarrow> RawShard (without ''path='' path) ro cmp dio sz
   | FsShard root ro \<Rightarrow> FsShard (without ''root='' root) ro
   | _ \<Rightarrow> s)"

fun cli_node :: "server_node \<Rightarrow> tree_node" where
  "cli_node (ServerNode nm li ep rf mw dr shards children) = TreeNode nm rf mw (map cli_shard shards) (map cli_node children)"

section \<open>Parts of a line\<close>

lemma fold_tokens_rel:
  assumes "\<And>tok s t s1 t1. R s t \<Longrightarrow> f tok s = Inr s1 \<Longrightarrow> g tok t = Inr t1 \<Longrightarrow> R s1 t1"
  shows "R s t \<Longrightarrow> fold_tokens f toks s = Inr s' \<Longrightarrow> fold_tokens g toks t = Inr t' \<Longrightarrow> R s' t'"
  by (induction toks arbitrary: s t) (auto split: sum.splits dest: assms)

lemma unique_parts_rel:
  assumes "\<And>tok s t s1 t1. R s t \<Longrightarrow> f tok s = Inr s1 \<Longrightarrow> g tok t = Inr t1 \<Longrightarrow> R s1 t1"
  shows "R s t \<Longrightarrow> unique_parts dup f seen toks s = Inr s' \<Longrightarrow> fold_tokens g toks t = Inr t' \<Longrightarrow> R s' t'"
  by (induction toks arbitrary: s t seen) (auto split: sum.splits if_splits dest: assms)

lemma raw_step:
  assumes "raw_part tok (RawShard p ro c d z) = Inr s1" and "raw_option n tok (RawShard q ro c d z) = Inr t1"
  shows "\<exists>ro' c' d' z'. s1 = RawShard p ro' c' d' z' \<and> t1 = RawShard q ro' c' d' z'"
proof -
  consider "is_read_only tok" | "tok = ''direct_io'' \<or> tok = ''direct-io''" | v where "tok = ''compression='' @ v"
    | v where "tok = ''size_mb='' @ v \<or> tok = ''size-mb='' @ v" | v where "tok = ''direct_io='' @ v \<or> tok = ''direct-io='' @ v"
    using assms(2) unfolding raw_option_def shard_conf.case strip_either_def
    by (simp split: if_split_asm option.split_asm add: strip_prefix_Some)
  then show ?thesis
  proof cases
    case (4 v)
    then show ?thesis using assms
      by (elim disjE) (simp_all add: raw_part_def raw_option_def strip_either_def strip_prefix_def is_read_only_def split: option.split_asm, blast+)
  next
    case (5 v)
    then show ?thesis using assms
      by (elim disjE) (simp_all add: raw_part_def raw_option_def strip_either_def strip_prefix_def is_read_only_def, blast+)
  qed (use assms in \<open>auto simp: raw_part_def raw_option_def strip_either_def strip_prefix_def is_read_only_def\<close>)
qed

lemma fs_options: "fold_tokens (fs_option n) toks b = Inr r \<Longrightarrow> r \<longleftrightarrow> b \<or> list_ex is_read_only toks"
  by (induction toks arbitrary: b) (auto simp: fs_option_def split: sum.splits if_splits)

lemma shard_lines_agree:
  assumes "parse_shard_line l = Inr s" and "parse_tree_shard_line l = Inr s'"
  shows "s' = cli_shard s"
proof -
  from assms(2) obtain first rest where t: "tokenize l = Inr (first # rest)"
    by (auto simp: parse_tree_shard_line_def split: sum.splits list.splits)
  note kv = tokenize_kv [OF t]
  consider "first = ''raw''" | "first = ''fs''" | "first = ''mem''" | "first = ''s3''"
    using assms(1) unfolding parse_shard_line_def kv list.case by (simp split: if_split_asm)
  then show ?thesis
  proof cases
    case 1
    with assms t kv obtain path parts where r: "rest = path # parts" and s: "fold_tokens raw_part parts (RawShard path False None None None) = Inr s"
      and s': "fold_tokens (raw_option 0) parts (RawShard (without ''path='' path) False None None None) = Inr s'"
      by (cases rest) (auto simp: parse_shard_line_def parse_tree_shard_line_def parse_raw_shard_def Let_def without_def)
    let ?R = "\<lambda>a b. \<exists>ro c d z. a = RawShard path ro c d z \<and> b = RawShard (without ''path='' path) ro c d z"
    have step: "?R a1 b1" if "?R a b" "raw_part tok a = Inr a1" "raw_option 0 tok b = Inr b1" for tok a b a1 b1
      using that raw_step by blast
    have "?R s s'" by (rule fold_tokens_rel [where R = ?R, OF step _ s s']) blast+
    then show ?thesis by (auto simp: cli_shard_def)
  next
    case 2
    with assms t kv show ?thesis
      by (cases rest) (auto simp: parse_shard_line_def parse_tree_shard_line_def parse_fs_shard_def Let_def cli_shard_def without_def
          split: sum.splits dest: fs_options)
  next
    case 3
    with assms t kv show ?thesis by (simp add: parse_shard_line_def parse_tree_shard_line_def cli_shard_def)
  next
    case 4
    let ?start = "S3Shard [] [] None None None False"
    from 4 assms t kv have s: "unique_parts DuplicateKey s3_part [] rest ?start = Inr s" and s': "fold_tokens (s3_option 0) rest ?start = Inr s'"
      by (auto simp: parse_shard_line_def parse_tree_shard_line_def parse_s3_shard_def split: sum.splits if_splits)
    let ?R = "\<lambda>a b. a = b \<and> cli_shard a = a"
    have step: "?R a1 b1" if "?R a b" "s3_part tok a = Inr a1" "s3_option 0 tok b = Inr b1" for tok a b a1 b1
    proof -
      from that have "s3_assign tok a = Some a1" "a1 = b1" by (auto simp: s3_part_def s3_option_def split: option.splits)
      then show ?thesis by (auto simp: s3_assign_def cli_shard_def split: option.splits if_splits shard_conf.splits)
    qed
    have "?R s s'" by (rule unique_parts_rel [where R = ?R, OF step _ s s']) (simp_all add: cli_shard_def)
    then show ?thesis by metis
  qed
qed

lemma node_lines_agree:
  assumes "parse_node_line l = Inr (name, p)" and "parse_tree_node_line l = Inr (name', rf, mw)"
  shows "name' = name \<and> rf = pn_replication_factor p \<and> mw = pn_min_writes p"
proof -
  from assms(2) obtain parts st where t: "tokenize l = Inr (name' # parts)" and f: "fold_tokens (node_option name') parts (1, None) = Inr st"
    and st: "st = (rf, mw)"
    by (auto simp: parse_tree_node_line_def split: sum.splits list.splits option.splits if_splits)
  let ?start = "\<lparr>pn_listen = [], pn_endpoint = [], pn_replication_factor = 1, pn_min_writes = None, pn_delete_requires_min_writes = False\<rparr>"
  from assms(1) tokenize_kv [OF t] have n: "name' = name"
    and u: "unique_parts (\<lambda>k. InNode name (DuplicateKey k)) (node_part name) [] parts ?start = Inr p"
    by (auto simp: parse_node_line_def split: sum.splits option.splits if_splits)
  let ?R = "\<lambda>q st. st = (pn_replication_factor q, pn_min_writes q)"
  have step: "?R q1 st1" if "?R q st" "node_part name tok q = Inr q1" "node_option name tok st = Inr st1" for tok q st q1 st1
    using node_part_factor [OF that(2)] that(1,3) by (auto simp: node_option_def split: option.splits if_splits)
  have "?R p st" by (rule unique_parts_rel [where R = ?R, OF step _ u f [unfolded n]]) simp_all
  with n st show ?thesis by simp
qed

section \<open>Blocks\<close>

lemma tokenize_chars_extends: "tokenize_chars ts cur q l = (ts', cur', q') \<Longrightarrow> \<exists>zs. ts' = ts @ zs"
  by (induction ts cur q l rule: tokenize_chars.induct) (auto split: if_splits)

lemma tokenize_chars_plain: "list_all plain_char w \<Longrightarrow> tokenize_chars ts cur None (w @ r) = tokenize_chars ts (cur @ w) None r"
  by (induction w arbitrary: cur) (simp_all add: plain_char_def)

lemma tokenize_chars_blank: "list_all is_whitespace w \<Longrightarrow> tokenize_chars ts [] None (w @ r) = tokenize_chars ts [] None r"
  by (induction w) (auto simp: is_whitespace_def)

lemma tokenize_first_word:
  assumes "tokenize l = Inr toks" and "first_word l = w" and "list_all plain_char w" and "w \<noteq> []"
  shows "\<exists>rest. toks = w # rest"
proof -
  define r where "r = dropWhile (\<lambda>c. \<not> is_whitespace c) (trim_start l)"
  have "l = takeWhile is_whitespace l @ w @ r"
    using assms(2) unfolding first_word_def r_def trim_start_def by (metis takeWhile_dropWhile_id)
  moreover have "list_all is_whitespace (takeWhile is_whitespace l)" by (auto simp: list_all_iff dest: set_takeWhileD)
  ultimately have t: "tokenize_chars [] [] None l = tokenize_chars [] w None r"
    using tokenize_chars_blank tokenize_chars_plain [OF assms(3), of "[]" "[]" r] by (metis append_Nil)
  show ?thesis
  proof (cases r)
    case Nil
    with t assms(1,4) show ?thesis by (auto simp: tokenize_def)
  next
    case (Cons c cs)
    then have "is_whitespace c" unfolding r_def by (metis dropWhile_eq_Cons_conv)
    moreover from this have "c \<noteq> CHR 0x22" "c \<noteq> CHR 0x27" by (auto simp: is_whitespace_def)
    ultimately have "tokenize_chars [] w None r = tokenize_chars [w] [] None cs" using assms(4) by (simp add: Cons)
    with t obtain ts cur q where "tokenize_chars [] [] None l = (ts, cur, q)" "tokenize_chars [w] [] None cs = (ts, cur, q)"
      by (metis prod_cases3)
    with tokenize_chars_extends assms(1) show ?thesis by (fastforce simp: tokenize_def split: if_splits)
  qed
qed

lemma shard_word_refused: "first_word l = ''shard'' \<Longrightarrow> parse_tree_shard_line l \<noteq> Inr s"
proof
  assume w: "first_word l = ''shard''" and p: "parse_tree_shard_line l = Inr s"
  from p obtain toks where t: "tokenize l = Inr toks" by (auto simp: parse_tree_shard_line_def split: sum.splits)
  have "list_all plain_char ''shard''" by (simp add: plain_char_def is_whitespace_def)
  from tokenize_first_word [OF t w this] obtain rest where "toks = ''shard'' # rest" by auto
  with t p show False by (simp add: parse_tree_shard_line_def)
qed

lemma bodies_agree:
  assumes "server_body i ls sh ch = Inr (sh1, ch1, rest1)"
    and "tree_body i ls (map cli_shard sh) (map cli_node ch) = Inr (sh2, ch2, rest2)"
  shows "sh2 = map cli_shard sh1 \<and> ch2 = map cli_node ch1 \<and> rest2 = rest1"
  using assms
proof (induction i ls sh ch arbitrary: sh1 ch1 rest1 sh2 ch2 rest2 rule: server_body.induct)
  case (1 i sh ch)
  then show ?case by auto
next
  case (2 i j l ls sh ch)
  consider "j \<le> i" | "\<not> j \<le> i" "is_tree_node_line l" | "\<not> j \<le> i" "\<not> is_tree_node_line l" by blast
  then show ?case
  proof cases
    case 1
    with 2(4,5) show ?thesis by auto
  next
    case node: 2
    then have n: "is_node_line l" by (auto simp: is_node_line_def is_tree_node_line_def)
    with 2(4) node obtain np sh3 ch3 rest3 where p: "parse_node_line l = Inr np"
      and b: "server_body j ls [] [] = Inr (sh3, ch3, rest3)"
      and r: "server_body i rest3 (sh @ [NodeShard (fst np)]) (ch @ [server_node_of np sh3 ch3]) = Inr (sh1, ch1, rest1)"
      by (auto split: sum.splits)
    obtain name q where np: "np = (name, q)" by (cases np)
    from 2(5) node obtain name' rf mw sh4 ch4 rest4 where p': "parse_tree_node_line l = Inr (name', rf, mw)"
      and b': "tree_body j ls [] [] = Inr (sh4, ch4, rest4)"
      and r': "tree_body i rest4 (map cli_shard sh @ [NodeShard name']) (map cli_node ch @ [TreeNode name' rf mw sh4 ch4]) = Inr (sh2, ch2, rest2)"
      by (auto split: sum.splits)
    have "sh4 = map cli_shard sh3 \<and> ch4 = map cli_node ch3 \<and> rest4 = rest3" using 2(1) [OF node(1) n p b] b' by simp
    then have "tree_body i rest3 (map cli_shard (sh @ [NodeShard (fst np)])) (map cli_node (ch @ [server_node_of np sh3 ch3])) = Inr (sh2, ch2, rest2)"
      using r' node_lines_agree [OF p [unfolded np] p'] by (simp add: server_node_of_def cli_shard_def np)
    then show ?thesis by (rule 2(2) [OF node(1) n p b refl refl r])
  next
    case shard: 3
    from 2(5) shard obtain s' where s': "parse_tree_shard_line l = Inr s'"
      and r': "tree_body i ls (map cli_shard sh @ [s']) (map cli_node ch) = Inr (sh2, ch2, rest2)" by (auto split: sum.splits)
    have n: "\<not> is_node_line l" using shard(2) shard_word_refused [of l s'] s' by (auto simp: is_node_line_def is_tree_node_line_def)
    with 2(4) shard(1) obtain s where s: "parse_shard_line l = Inr s"
      and r: "server_body i ls (sh @ [s]) ch = Inr (sh1, ch1, rest1)" by (auto split: sum.splits)
    from 2(3) [OF shard(1) n s r] r' shard_lines_agree [OF s s'] show ?thesis by simp
  qed
qed

section \<open>Directives\<close>

text \<open>
  The lines without indentation that both programs read alike: the line is not one of the two quorum
  directives, which only the server skips, a directive that the server finds by its name and a space is
  written that way, and of the directives \<open>repair_replication_*\<close> only the two that the server knows occur.
\<close>

definition shared_line :: "string \<Rightarrow> bool" where
  "shared_line line \<longleftrightarrow>
     (let key = fst (key_value line) in
      key \<notin> set [''min_writes'', ''delete_requires_min_writes''] \<and>
      (key \<in> set [''cluster'', ''bucket'', ''read_prefer''] \<longrightarrow> prefix (key @ '' '') line) \<and>
      (prefix ''repair_replication_'' key \<longrightarrow> key \<in> set [''repair_replication_interval'', ''repair_replication_batch_size'']))"

definition same_settings :: "server_conf \<Rightarrow> tree_conf \<Rightarrow> bool" where
  "same_settings t c \<longleftrightarrow> tc_cluster_name c = tg_cluster_name t \<and> tc_read_prefer c = tg_read_prefer t \<and>
     tc_compression c = tg_compression t \<and> tc_direct_io c = (tg_direct_io t = Some True) \<and> tc_size_mb c = tg_size_mb t"

definition server_keys :: "string list" where
  "server_keys = [''compression'', ''direct_io'', ''size_mb'', ''repair_replication_interval'', ''repair_replication_batch_size'',
     ''read_only'', ''catalog'', ''replicas'', ''min_writes'', ''delete_requires_min_writes''] @ tl TREE_DAEMON_DIRECTIVES"

text \<open>
  The two settings of the command line that no field of the server has: the last \<open>read_only\<close> line (no value
  means true) and the last \<open>catalog\<close> line decide.
\<close>

fun cli_only :: "(nat \<times> string) list \<Rightarrow> bool \<times> string option \<Rightarrow> bool \<times> string option" where
  "cli_only [] st = st"
| "cli_only ((indent, line) # ls) st =
     (let (key, val) = key_value line in
      cli_only ls
        (if indent \<noteq> 0 then st
         else if key = ''read_only'' then ((case val of Some v \<Rightarrow> is_true v | None \<Rightarrow> True), snd st)
         else if key = ''catalog'' then (fst st, val)
         else st))"

definition cli_conf :: "server_conf \<Rightarrow> (nat \<times> string) list \<Rightarrow> tree_conf" where
  "cli_conf t ls = \<lparr>tc_cluster_name = tg_cluster_name t, tc_root = cli_node (tg_root t), tc_catalog = snd (cli_only ls (False, None)),
     tc_read_prefer = tg_read_prefer t, tc_compression = tg_compression t, tc_direct_io = (tg_direct_io t = Some True),
     tc_size_mb = tg_size_mb t, tc_read_only = fst (cli_only ls (False, None))\<rparr>"

lemma tree_directive_cli_only:
  assumes "tree_directive line c = Inr o2" and "c1 = (case o2 of Some c1 \<Rightarrow> c1 | None \<Rightarrow> c)"
  shows "cli_only ((0, line) # ls) (tc_read_only c, tc_catalog c) = cli_only ls (tc_read_only c1, tc_catalog c1)"
proof -
  obtain key val where kv: "key_value line = (key, val)" by (cases "key_value line")
  show ?thesis
  proof (cases "key = ''read_only'' \<or> key = ''catalog''")
    case True
    with assms show ?thesis by (elim disjE) (auto simp: tree_directive_def kv)
  next
    case False
    then have "tc_read_only c1 = tc_read_only c \<and> tc_catalog c1 = tc_catalog c"
      using assms by (simp add: tree_directive_def kv split: if_split_asm option.split_asm) (auto simp: tree_conf.simps)
    with False show ?thesis by (simp add: kv)
  qed
qed

lemma tree_directives_cli_only:
  "tree_directives ls rem c = Inr (rem', c') \<Longrightarrow> (tc_read_only c', tc_catalog c') = cli_only ls (tc_read_only c, tc_catalog c)"
proof (induction ls rem c rule: tree_directives.induct)
  case (2 indent line ls rem c)
  show ?case
  proof (cases "indent = 0")
    case True
    with 2(4) obtain o2 where d: "tree_directive line c = Inr o2" by (auto split: sum.splits)
    show ?thesis unfolding True tree_directive_cli_only [OF d refl] using 2 True d by (cases o2) simp_all
  next
    case False
    then show ?thesis using 2(3) [OF False] 2(4) by (simp add: case_prod_beta)
  qed
qed simp

lemma num_directive_not_None: "num_directive bound key val upd st \<noteq> Inr None"
  by (simp add: num_directive_def split: option.splits)

lemma num_directive_Some:
  assumes "num_directive bound key val upd st = Inr (Some st1)"
  shows "(val = None \<and> st1 = st) \<or> (\<exists>v n. val = Some v \<and> parse_uint bound v = Some n \<and> st1 = upd n)"
  using assms by (auto simp: num_directive_def split: option.splits)

lemma known_directive_keys:
  assumes "known_directive key val st = Inr o1"
  shows "o1 = None \<longleftrightarrow> key \<notin> set server_keys"
proof (cases "key \<in> set server_keys")
  case True
  then have "known_directive key val st \<noteq> Inr None"
    unfolding server_keys_def TREE_DAEMON_DIRECTIVES_def append.simps list.sel set_simps insert_iff empty_iff
    by (elim disjE) (simp_all add: known_directive_def num_directive_not_None)
  with assms True show ?thesis by auto
next
  case False
  then have "known_directive key val st = Inr None"
    unfolding server_keys_def TREE_DAEMON_DIRECTIVES_def append.simps list.sel set_simps insert_iff empty_iff
    by (simp add: known_directive_def)
  with assms False show ?thesis by auto
qed

lemma known_agree:
  assumes kv: "key_value line = (key, val)" and "key \<in> set server_keys" and "key \<notin> set [''min_writes'', ''delete_requires_min_writes'']"
    and "known_directive key val st = Inr (Some st1)" and "tree_directive line c = Inr o2" and "same_settings st c"
  shows "\<exists>c1. o2 = Some c1 \<and> same_settings st1 c1"
  using assms(2-)
  unfolding server_keys_def TREE_DAEMON_DIRECTIVES_def append.simps list.sel set_simps insert_iff empty_iff
  by (elim disjE) (auto simp: known_directive_def num_directive_def tree_directive_def kv TREE_DAEMON_DIRECTIVES_def skipped_prefix_def same_settings_def
      split: option.split_asm)

lemma unknown_agree:
  assumes kv: "key_value line = (key, val)" and "key \<notin> set server_keys" and "key \<notin> set [''cluster'', ''bucket'', ''read_prefer'']" and "\<not> skipped_prefix key"
  shows "tree_directive line c = Inr None"
  using assms(2-)
  unfolding server_keys_def TREE_DAEMON_DIRECTIVES_def append.simps list.sel set_simps insert_iff empty_iff
  by (simp add: tree_directive_def kv TREE_DAEMON_DIRECTIVES_def)

lemma recovery_agree:
  assumes kv: "key_value line = (''recovery_'' @ k, val)" and "recovery_directive (''recovery_'' @ k) val st = Inr o1"
    and "tree_directive line c = Inr o2" and "same_settings st c"
  shows "\<exists>st1 c1. o1 = Some st1 \<and> o2 = Some c1 \<and> same_settings st1 c1"
proof -
  have "o2 = Some c" using assms(3) by (simp add: tree_directive_def kv TREE_DAEMON_DIRECTIVES_def skipped_prefix_def)
  moreover have "\<exists>st1. o1 = Some st1 \<and> same_settings st1 c"
    using assms(2,4) unfolding recovery_directive_def
    by (cases val) (simp, force simp: num_directive_def same_settings_def split: if_split_asm option.split_asm)+
  ultimately show ?thesis by blast
qed

lemma fst_key_value: "fst (key_value line) = takeWhile (\<lambda>c. \<not> is_whitespace c) line"
  using takeWhile_dropWhile_id [of "\<lambda>c. \<not> is_whitespace c" line] unfolding key_value_def
  by (cases "dropWhile (\<lambda>c. \<not> is_whitespace c) line") (simp_all only: list.case fst_conv append_Nil2)

lemma prefix_takeWhile: "list_all P p \<Longrightarrow> prefix p (takeWhile P l) \<longleftrightarrow> prefix p l"
proof (induction p arbitrary: l)
  case (Cons a p)
  then show ?case by (cases l) auto
qed simp

lemma spaced_key:
  assumes "prefix (k @ '' '') line" and "list_all (\<lambda>c. \<not> is_whitespace c) k"
  shows "key_value line = (k, Some (trim (drop (length k) line)))"
proof -
  obtain r where r: "line = k @ CHR '' '' # r" using assms(1) by (auto simp: prefix_def)
  have "trim (CHR '' '' # r) = trim r" using char_plain_facts(3) by (simp add: trim_def trim_start_def)
  then show ?thesis using assms(2) char_plain_facts(3) by (simp add: key_value_def r takeWhile_append dropWhile_append list_all_iff)
qed

lemma directives_agree:
  assumes "server_directive line st = Inr o1" and "tree_directive line c = Inr o2" and "shared_line line" and "same_settings st c"
  shows "(o1 = None \<and> o2 = None) \<or> (\<exists>st1 c1. o1 = Some st1 \<and> o2 = Some c1 \<and> same_settings st1 c1)"
proof -
  obtain key val where kv: "key_value line = (key, val)" by (cases "key_value line")
  have shared: "key \<notin> set [''min_writes'', ''delete_requires_min_writes'']"
    "key \<in> set [''cluster'', ''bucket'', ''read_prefer''] \<Longrightarrow> prefix (key @ '' '') line"
    "prefix ''repair_replication_'' key \<Longrightarrow> key \<in> set server_keys"
  proof -
    have sub: "set [''repair_replication_interval'', ''repair_replication_batch_size''] \<subseteq> set server_keys" by (simp add: server_keys_def)
    note sl = assms(3) [unfolded shared_line_def kv fst_conv Let_def]
    show "key \<notin> set [''min_writes'', ''delete_requires_min_writes'']" using sl by (rule conjunct1)
    show "key \<in> set [''cluster'', ''bucket'', ''read_prefer''] \<Longrightarrow> prefix (key @ '' '') line" using sl by (elim conjE mp)
    show "prefix ''repair_replication_'' key \<Longrightarrow> key \<in> set server_keys" using sl by (intro subsetD [OF sub]) (elim conjE mp)
  qed
  have spaced: "prefix (k @ '' '') line \<Longrightarrow> list_all (\<lambda>c. \<not> is_whitespace c) k \<Longrightarrow> key = k \<and> val = Some (trim (drop (length k) line))" for k
    using spaced_key [of k line] kv by simp
  have plain: "list_all (\<lambda>c. \<not> is_whitespace c) ''cluster''" "list_all (\<lambda>c. \<not> is_whitespace c) ''bucket''"
    "list_all (\<lambda>c. \<not> is_whitespace c) ''read_prefer''" "list_all (\<lambda>c. \<not> is_whitespace c) ''recovery_''" by (simp_all add: is_whitespace_def)
  have sp: "prefix ''cluster '' line \<Longrightarrow> key = ''cluster'' \<and> val = Some (trim (drop 7 line))"
    "prefix ''bucket '' line \<Longrightarrow> key = ''bucket'' \<and> val = Some (trim (drop 6 line))"
    "prefix ''read_prefer '' line \<Longrightarrow> key = ''read_prefer'' \<and> val = Some (trim (drop 11 line))"
    using spaced [OF _ plain(1)] spaced [OF _ plain(2)] spaced [OF _ plain(3)] by (simp_all add: eval_nat_numeral)
  consider (cluster) "key = ''cluster''" | (bucket) "key = ''bucket''" | (reads) "key = ''read_prefer''"
    | (other) "key \<notin> set [''cluster'', ''bucket'', ''read_prefer'']" by auto
  then show ?thesis
  proof cases
    case cluster
    with shared(2) sp assms(1,2,4) show ?thesis
      by (auto simp: server_directive_def tree_directive_def kv same_settings_def split: option.splits if_splits)
  next
    case bucket
    with shared(2) sp assms(1,2,4) show ?thesis
      by (auto simp: server_directive_def tree_directive_def kv same_settings_def TREE_DAEMON_DIRECTIVES_def split: option.splits if_splits)
  next
    case reads
    with shared(2) sp assms(1,2,4) show ?thesis
      by (auto simp: server_directive_def tree_directive_def kv same_settings_def split: option.splits if_splits)
  next
    case other
    have rec: "prefix ''recovery_'' line \<longleftrightarrow> prefix ''recovery_'' key"
      using prefix_takeWhile [OF plain(4), of line] fst_key_value [of line] by (simp add: kv)
    have d: "(if prefix ''recovery_'' key then recovery_directive key val st else known_directive key val st) = Inr o1"
      using assms(1) other sp unfolding server_directive_def rec kv prod.case by (auto split: if_splits)
    show ?thesis
    proof (cases "prefix ''recovery_'' key")
      case True
      then obtain k where k: "key = ''recovery_'' @ k" by (auto simp: prefix_def)
      have "recovery_directive (''recovery_'' @ k) val st = Inr o1" using d True by (simp add: k)
      then show ?thesis using recovery_agree [OF kv [unfolded k] _ assms(2,4)] by blast
    next
      case False
      with d have kd: "known_directive key val st = Inr o1" by simp
      show ?thesis
      proof (cases "key \<in> set server_keys")
        case True
        with known_directive_keys [OF kd] kd known_agree [OF kv True shared(1) _ assms(2,4)] show ?thesis by (cases o1) auto
      next
        case keys: False
        then have "\<not> skipped_prefix key" using False shared(3) by (auto simp: skipped_prefix_def)
        from unknown_agree [OF kv keys other this] assms(2) known_directive_keys [OF kd] keys show ?thesis by simp
      qed
    qed
  qed
qed

lemma top_lines_agree:
  assumes "server_directives ls rem st = Inr (rem1, st1)" and "tree_directives ls rem c = Inr (rem2, c2)"
    and "\<forall>(i, l)\<in>set ls. i = 0 \<longrightarrow> shared_line l" and "same_settings st c"
  shows "rem2 = rem1 \<and> same_settings st1 c2"
  using assms
proof (induction ls arbitrary: rem st c)
  case (Cons x ls)
  obtain i l where x: "x = (i, l)" by (cases x)
  have rest: "\<forall>(i, l)\<in>set ls. i = 0 \<longrightarrow> shared_line l" using Cons.prems(3) by simp
  show ?case
  proof (cases "i = 0")
    case True
    with Cons.prems(1,2) x obtain o1 o2 where o: "server_directive l st = Inr o1" "tree_directive l c = Inr o2" by (auto split: sum.splits)
    have "shared_line l" using Cons.prems(3) True by (simp add: x)
    from directives_agree [OF o this Cons.prems(4)] show ?thesis
      using Cons.IH [OF _ _ rest] Cons.prems True o by (fastforce simp: x)
  next
    case False
    with Cons.IH [OF _ _ rest Cons.prems(4)] Cons.prems(1,2) show ?thesis by (simp add: x)
  qed
qed simp

text \<open>
  C36. One file, two programs: when the server and the command line both accept a tree file whose lines
  without indentation are shared, the whole configuration of the command line is a function of the server's
  and of the directives that the server skips: the same tree with the same names, replication factors,
  quorums, shards and shard options, the same cluster name and defaults, and a read-only flag and catalog
  that come from the last \<open>read_only\<close> and \<open>catalog\<close> line, of which the server takes no notice. The paths
  differ only where the file writes \<open>path=\<close> or \<open>root=\<close>, which the server takes as part of the path.
\<close>

theorem configs_agree:
  assumes "parse_tree_config text = Inr t" and "parse_tree_conf text = Inr c"
    and "\<forall>(i, l)\<in>set (content_lines text). i = 0 \<longrightarrow> shared_line l"
  shows "c = cli_conf t (content_lines text)"
proof -
  from assms(1) obtain rem1 st1 root1 where s: "server_directives (content_lines text) [] server_start = Inr (rem1, st1)"
    and b: "parse_node_block rem1 = Inr root1"
    and t: "t = st1\<lparr>tg_root := fst root1, tg_cluster_name := (if tg_cluster_name st1 = [] then sn_name (fst root1) else tg_cluster_name st1)\<rparr>"
    by (auto simp: parse_tree_config_def split: sum.splits if_splits)
  from assms(2) obtain rem2 c2 root2 where s': "tree_directives (content_lines text) [] tree_start = Inr (rem2, c2)"
    and b': "parse_tree_node_block rem2 = Inr root2"
    and c: "c = c2\<lparr>tc_root := fst root2, tc_cluster_name := (if tc_cluster_name c2 = [] then tn_name (fst root2) else tc_cluster_name c2)\<rparr>"
    by (auto simp: parse_tree_conf_def split: sum.splits if_splits)
  have "same_settings server_start tree_start" by (simp add: same_settings_def server_start_def tree_start_def)
  from top_lines_agree [OF s s' assms(3) this] have rem: "rem2 = rem1" and set: "same_settings st1 c2" by auto
  from b obtain i l ls name q sh ch rest where r: "rem1 = (i, l) # ls" and p: "parse_node_line l = Inr (name, q)"
    and u: "server_body i ls [] [] = Inr (sh, ch, rest)" and r1: "fst root1 = server_node_of (name, q) sh ch"
    by (auto simp: parse_node_block_def split: list.splits sum.splits)
  from b' rem r obtain name' rf mw sh' ch' rest' where p': "parse_tree_node_line l = Inr (name', rf, mw)"
    and u': "tree_body i ls [] [] = Inr (sh', ch', rest')" and r2: "fst root2 = TreeNode name' rf mw sh' ch'"
    by (auto simp: parse_tree_node_block_def split: sum.splits)
  have "fst root2 = cli_node (fst root1)"
    using bodies_agree [OF u, of sh' ch' rest'] u' node_lines_agree [OF p p'] by (simp add: r1 r2 server_node_of_def)
  moreover have "tn_name (cli_node n) = sn_name n" for n by (cases n) simp
  moreover have "(tc_read_only c2, tc_catalog c2) = cli_only (content_lines text) (False, None)"
    using tree_directives_cli_only [OF s'] by (simp add: tree_start_def)
  ultimately show ?thesis using set by (auto simp: t c same_settings_def cli_conf_def prod_eq_iff)
qed

definition demo_cli :: tree_conf where
  "demo_cli = tree_start\<lparr>tc_cluster_name := ''a'',
     tc_root := TreeNode ''a'' 1 None [RawShard ''/d'' False None None None, NodeShard ''b''] [TreeNode ''b'' 1 None [RawShard ''/d'' False None None None] []]\<rparr>"

lemma demo_cli_parsed: "parse_tree_conf (write_lines (map indented demo_lines)) = Inr demo_cli"
proof -
  note demo_content
  moreover have "tree_directives demo_lines [] tree_start = Inr (demo_lines, tree_start)"
    by (simp add: demo_lines_def tree_directive_def key_value_def is_whitespace_def TREE_DAEMON_DIRECTIVES_def skipped_prefix_def)
  moreover have "parse_tree_node_line ''a rf=1 listen=h:1 endpoint=http://h'' = Inr (''a'', 1, None)"
    "parse_tree_node_line ''b rf=1 listen=h:2 endpoint=http://h:2'' = Inr (''b'', 1, None)"
    by (simp_all add: parse_tree_node_line_def tokenize_def is_whitespace_def node_option_def strip_prefix_def
        parse_uint_def is_digit_def digits_value_def u64_max_def)
  moreover have "parse_tree_shard_line ''raw /d'' = Inr (RawShard ''/d'' False None None None)"
    by (simp add: parse_tree_shard_line_def parse_raw_shard_def tokenize_def is_whitespace_def strip_prefix_def)
  moreover have "\<not> is_tree_node_line ''raw /d''" "is_tree_node_line ''b rf=1 listen=h:2 endpoint=http://h:2''"
    by (simp_all add: is_tree_node_line_def first_word_def trim_start_def is_whitespace_def sublist_Cons_right)
  ultimately show ?thesis
    by (simp add: parse_tree_conf_def parse_tree_node_block_def demo_lines_def tree_start_def demo_cli_def)
qed

theorem configs_agree_witness:
  "parse_tree_conf (write_lines (map indented demo_lines)) = Inr demo_cli \<and>
   demo_cli = cli_conf demo_server (content_lines (write_lines (map indented demo_lines)))"
proof -
  have "\<forall>(i, l)\<in>set (content_lines (write_lines (map indented demo_lines))). i = 0 \<longrightarrow> shared_line l"
    unfolding demo_content by (simp add: demo_lines_def shared_line_def fst_key_value is_whitespace_def)
  from configs_agree [OF demo_server_parsed demo_cli_parsed this] demo_cli_parsed show ?thesis by simp
qed

end
