(* ===== verification/S3_Adapter.thy ===== *)
theory S3_Adapter
  imports Raw_Shard Tlv Conf_Text
begin

text \<open>
  The S3 adapter of the server (\<open>objstrd/src/adapter.rs\<close>): buckets and objects. A request is a record of
  the fields that the handler reads, a response one of the fields that it sets; an error has the code of
  the S3 error without its text.

  The backend is a record of calls on its state, so that the adapter runs on a raw store or on a cluster.
  Path parsing, MD5, time formats and HTTP header rules of third-party crates are the record \<open>s3_env\<close>. What
  one request meets outside (the clock, temporary files, a new identifier) is the record \<open>req_io\<close>. Events
  and logs are left out. A string is the list of its UTF-8 bytes.
\<close>

section \<open>Environment\<close>

record s3_env =
  se_md5 :: "byte list \<Rightarrow> string"
  se_parse :: "string \<Rightarrow> string option"
  se_from :: "string \<Rightarrow> string"
  se_whole_secs :: "int \<Rightarrow> int"
  se_format_time :: "int \<Rightarrow> string option"
  se_parse_time :: "string \<Rightarrow> int option"
  se_header_name :: "string \<Rightarrow> bool"
  se_header_value :: "byte list \<Rightarrow> bool"
  se_header_text :: "string \<Rightarrow> bool"

text \<open>
  \<open>ri_write_ok n\<close> says whether the write number \<open>n\<close> of a request to its temporary file works, \<open>ri_source\<close> what
  the size query and the reads of a temporary file with given contents return, and \<open>ri_part_ok\<close> whether
  the temporary file of a part can be read.
\<close>

record req_io =
  ri_now :: int
  ri_instant :: int
  ri_create_ok :: bool
  ri_write_ok :: "nat \<Rightarrow> bool"
  ri_flush_ok :: bool
  ri_seek_ok :: bool
  ri_source :: "byte list \<Rightarrow> source_file"
  ri_temp_name :: string
  ri_part_ok :: "string \<Rightarrow> bool"
  ri_uuid :: string

record ('b, 'e) backend_ops =
  bo_put_with_meta :: "int \<Rightarrow> string \<Rightarrow> byte list \<Rightarrow> byte list \<Rightarrow> 'b \<Rightarrow> ('e + unit) \<times> 'b"
  bo_put_from_file :: "int \<Rightarrow> string \<Rightarrow> source_file \<Rightarrow> nat \<Rightarrow> 'b \<Rightarrow> ('e + unit) \<times> 'b"
  bo_head_with_meta :: "string \<Rightarrow> 'b \<Rightarrow> ('e + object_meta \<times> nat) \<times> 'b"
  bo_get_metadata :: "string \<Rightarrow> 'b \<Rightarrow> ('e + byte list) \<times> 'b"
  bo_list_with_meta :: "string option \<Rightarrow> 'b \<Rightarrow> (object_meta \<times> nat) list \<times> 'b"
  bo_delete_sidecar :: "string \<Rightarrow> 'b \<Rightarrow> 'b"
  bo_get :: "get_range option \<Rightarrow> string \<Rightarrow> 'b \<Rightarrow> ('e + ('e + byte list)) \<times> 'b"
  bo_head :: "string \<Rightarrow> 'b \<Rightarrow> ('e + object_meta) \<times> 'b"
  bo_delete :: "string \<Rightarrow> 'b \<Rightarrow> ('e + unit) \<times> 'b"
  bo_list :: "string option \<Rightarrow> 'b \<Rightarrow> ('e + object_meta) list \<times> 'b"
  bo_not_found :: "'e \<Rightarrow> bool"

text \<open>The variant \<open>StoreBackend::Raw\<close>; it has no sidecars.\<close>

datatype raw_backend_error = RbRaw raw_store_error | RbOs os_error

definition wrap_err :: "('e \<Rightarrow> 'x) \<Rightarrow> 'e + 'a \<Rightarrow> 'x + 'a" where
  "wrap_err f r = (case r of Inl e \<Rightarrow> Inl (f e) | Inr x \<Rightarrow> Inr x)"

definition raw_backend :: "'x store_env_scheme \<Rightarrow> path_api \<Rightarrow> (inner, raw_backend_error) backend_ops" where
  "raw_backend X P = \<lparr>
     bo_put_with_meta = (\<lambda>now path body meta s. case put_with_meta X now path body meta s of (r, s1) \<Rightarrow> (wrap_err RbRaw r, s1)),
     bo_put_from_file = (\<lambda>now path f ml s. case put_with_meta_from_file X now path f ml s of (r, s1) \<Rightarrow> (wrap_err RbRaw r, s1)),
     bo_head_with_meta = (\<lambda>path s. (wrap_err RbRaw (head_with_meta path s), s)),
     bo_get_metadata = (\<lambda>path s. (wrap_err RbRaw (get_metadata X path s), s)),
     bo_list_with_meta = (\<lambda>pfx s. (list_with_meta P pfx s, s)),
     bo_delete_sidecar = (\<lambda>path s. s),
     bo_get = (\<lambda>rng path s. (bind_res (wrap_err RbOs (raw_get X rng path s)) (\<lambda>(body, _). Inr (wrap_err RbOs body)), s)),
     bo_head = (\<lambda>path s. (bind_res (wrap_err RbOs (raw_get X None path s)) (\<lambda>(_, meta). Inr meta), s)),
     bo_delete = (\<lambda>path s. case delete_object X path s of (r, s1) \<Rightarrow> (wrap_err RbOs r, s1)),
     bo_list = (\<lambda>pfx s. (map Inr (list_objects P pfx s), s)),
     bo_not_found = (\<lambda>e. case e of RbRaw (NotFound _) \<Rightarrow> True | RbOs (OsNotFound _ _) \<Rightarrow> True | _ \<Rightarrow> False)\<rparr>"

section \<open>State\<close>

record part_meta =
  pm_size :: nat
  pm_etag :: string
  pm_temp_path :: string

record upload =
  up_bucket :: string
  up_key :: string
  up_metadata :: "(string, string) hashmap"
  up_parts :: "(int, part_meta) hashmap"
  up_created_at :: int

text \<open>\<open>ad_temps\<close> is the directory of the temporary files that outlive a request.\<close>

record 'b adapter =
  ad_backend :: 'b
  ad_buckets :: "string set"
  ad_uploads :: "(string, upload) hashmap"
  ad_locations :: "(string, string) hashmap"
  ad_bucket_stats_cache :: "(string, nat \<times> nat \<times> int) hashmap"
  ad_allow_anon_list_buckets :: bool
  ad_max_body_size :: nat
  ad_upload_expiry :: int
  ad_temps :: "(string, byte list) hashmap"

definition MAX_CONCURRENT_UPLOADS :: nat where
  "MAX_CONCURRENT_UPLOADS = 1000"

definition NANOS :: int where
  "NANOS = 1000000000"

definition UPLOAD_EXPIRY :: int where
  "UPLOAD_EXPIRY = 24 * 60 * 60 * NANOS"

definition DEFAULT_MAX_BODY_SIZE :: nat where
  "DEFAULT_MAX_BODY_SIZE = 5 * 1024 * 1024 * 1024"

definition adapter_build :: "'b \<Rightarrow> string set \<Rightarrow> 'b adapter" where
  "adapter_build backend buckets = \<lparr>ad_backend = backend, ad_buckets = buckets, ad_uploads = [], ad_locations = [], ad_bucket_stats_cache = [],
     ad_allow_anon_list_buckets = False, ad_max_body_size = DEFAULT_MAX_BODY_SIZE, ad_upload_expiry = UPLOAD_EXPIRY, ad_temps = []\<rparr>"

definition set_buckets :: "string set \<Rightarrow> 'b adapter \<Rightarrow> 'b adapter" where
  "set_buckets new s = s\<lparr>ad_buckets := new\<rparr>"

datatype s3_error =
    S3NoSuchKey | S3NoSuchBucket | S3InternalError | S3InvalidArgument | S3BucketNotEmpty | S3InvalidBucketName
  | S3EntityTooLarge | S3InvalidRange | S3NotModified "string option" | S3PreconditionFailed | S3NotImplemented
  | S3InvalidRequest | S3MalformedXML | S3SlowDown | S3NoSuchUpload | S3InvalidPart

type_synonym ('b, 'r) handler = "'b adapter \<Rightarrow> (s3_error + 'r) \<times> 'b adapter"

text \<open>The operator \<open>?\<close>, and a call of the backend whose error becomes an S3 error.\<close>

definition and_then :: "(s3_error + 'a) \<times> 's \<Rightarrow> ('a \<Rightarrow> 's \<Rightarrow> (s3_error + 'c) \<times> 's) \<Rightarrow> (s3_error + 'c) \<times> 's" where
  "and_then m f = (case m of (Inl e, s) \<Rightarrow> (Inl e, s) | (Inr x, s) \<Rightarrow> f x s)"

definition on_backend :: "('b \<Rightarrow> 'r \<times> 'b) \<Rightarrow> 'b adapter \<Rightarrow> 'r \<times> 'b adapter" where
  "on_backend f s = (case f (ad_backend s) of (r, b) \<Rightarrow> (r, s\<lparr>ad_backend := b\<rparr>))"

definition backend_call :: "('e \<Rightarrow> s3_error) \<Rightarrow> ('b \<Rightarrow> ('e + 'r) \<times> 'b) \<Rightarrow> ('b, 'r) handler" where
  "backend_call err f s = (case on_backend f s of (r, s1) \<Rightarrow> (wrap_err err r, s1))"

definition internal :: "'e \<Rightarrow> s3_error" where
  "internal e = S3InternalError"

definition no_such_key :: "('b, 'e) backend_ops \<Rightarrow> 'e \<Rightarrow> s3_error" where
  "no_such_key B e = (if bo_not_found B e then S3NoSuchKey else S3InternalError)"

section \<open>Keys\<close>

definition raw_path :: "s3_env \<Rightarrow> string \<Rightarrow> string" where
  "raw_path E s = (case se_parse E s of Some p \<Rightarrow> p | None \<Rightarrow> se_from E s)"

definition DIR_MARK :: string where
  "DIR_MARK = ''__DIRMARK__''"

definition DIR_MARK_SUFFIX :: string where
  "DIR_MARK_SUFFIX = ''/__DIRMARK__''"

definition obj_key :: "s3_env \<Rightarrow> string \<Rightarrow> string \<Rightarrow> string" where
  "obj_key E bucket key =
     (if suffix ''/'' key then raw_path E (bucket @ ''/'' @ key @ DIR_MARK) else raw_path E (bucket @ ''/'' @ key))"

text \<open>\<open>key.split('/')\<close>.\<close>

fun split_slash :: "string \<Rightarrow> string list" where
  "split_slash [] = [[]]"
| "split_slash (c # cs) =
     (if c = CHR ''/'' then [] # split_slash cs
      else case split_slash cs of [] \<Rightarrow> [[c]] | w # ws \<Rightarrow> (c # w) # ws)"

definition validate_key :: "string \<Rightarrow> s3_error + unit" where
  "validate_key key = (if list_ex (\<lambda>c. c = ''..'' \<or> c = DIR_MARK) (split_slash key) then Inl S3InvalidArgument else Inr ())"

definition ensure_bucket :: "string \<Rightarrow> 'b adapter \<Rightarrow> s3_error + unit" where
  "ensure_bucket bucket s = (if bucket \<in> ad_buckets s then Inr () else Inl S3NoSuchBucket)"

text \<open>A check that does not change the state.\<close>

definition check :: "s3_error + unit \<Rightarrow> ('b, 'r) handler \<Rightarrow> ('b, 'r) handler" where
  "check r f s = (case r of Inl e \<Rightarrow> (Inl e, s) | Inr _ \<Rightarrow> f s)"

section \<open>Metadata\<close>

record s3_headers =
  hd_content_type :: "string option"
  hd_cache_control :: "string option"
  hd_content_disposition :: "string option"
  hd_content_encoding :: "string option"
  hd_content_language :: "string option"
  hd_expires :: "int option"
  hd_metadata :: "(string, string) hashmap option"

definition insert_opt :: "string \<Rightarrow> string option \<Rightarrow> (string, string) hashmap \<Rightarrow> (string, string) hashmap" where
  "insert_opt key v m = (case v of Some x \<Rightarrow> hm_insert key x m | None \<Rightarrow> m)"

definition build_s3_metadata :: "s3_env \<Rightarrow> s3_headers \<Rightarrow> (string, string) hashmap" where
  "build_s3_metadata E h =
     (let m1 = insert_opt ''content-type'' (hd_content_type h) [];
          m2 = insert_opt ''cache-control'' (hd_cache_control h) m1;
          m3 = insert_opt ''content-disposition'' (hd_content_disposition h) m2;
          m4 = insert_opt ''content-encoding'' (hd_content_encoding h) m3;
          m5 = insert_opt ''content-language'' (hd_content_language h) m4;
          m6 = insert_opt ''expires'' (Option.bind (hd_expires h) (se_format_time E)) m5
      in case hd_metadata h of
           Some user \<Rightarrow> fold (\<lambda>(k, v). hm_insert (''x-amz-meta-'' @ k) v) user m6
         | None \<Rightarrow> m6)"

definition extract_user_metadata :: "(string, string) hashmap \<Rightarrow> (string, string) hashmap" where
  "extract_user_metadata meta =
     List.map_filter (\<lambda>(k, v). map_option (\<lambda>name. (name, v)) (strip_prefix ''x-amz-meta-'' k)) meta"

text \<open>The bytes of a UTF-8 string whose characters are all below 256, one byte for each; \<open>None\<close> for another character.\<close>

fun latin1 :: "string \<Rightarrow> byte list option" where
  "latin1 [] = Some []"
| "latin1 (c # cs) =
     (let a = of_char c :: nat in
      if a < 128 then map_option (\<lambda>bs. of_nat a # bs) (latin1 cs)
      else case cs of
        [] \<Rightarrow> None
      | d # ds \<Rightarrow>
          (if a = 194 \<or> a = 195 then map_option (\<lambda>bs. of_nat ((a - 192) * 64 + (of_char d - 128)) # bs) (latin1 ds) else None))"

definition user_meta_headers :: "s3_env \<Rightarrow> (string, string) hashmap \<Rightarrow> (string \<times> byte list) list" where
  "user_meta_headers E user =
     List.map_filter (\<lambda>(key, val).
       let name = ''x-amz-meta-'' @ key in
       if se_header_name E name then
         (case latin1 val of
            Some bytes \<Rightarrow> if se_header_value E bytes then Some (name, bytes) else None
          | None \<Rightarrow> None)
       else None) user"

definition load_metadata :: "s3_env \<Rightarrow> ('b, 'e) backend_ops \<Rightarrow> string \<Rightarrow> string \<Rightarrow> 'b adapter \<Rightarrow> (string, string) hashmap option \<times> 'b adapter" where
  "load_metadata E B bucket key s =
     (case on_backend (bo_get_metadata B (obj_key E bucket key)) s of
        (Inr data, s1) \<Rightarrow> (Some (if data = [] then [] else decode_metadata data), s1)
      | (Inl _, s1) \<Rightarrow> (None, s1))"

text \<open>Metadata for a response: any error, or none at all, counts as empty metadata.\<close>

definition metadata_or_empty :: "('b, 'e) backend_ops \<Rightarrow> string \<Rightarrow> 'b adapter \<Rightarrow> (string, string) hashmap \<times> 'b adapter" where
  "metadata_or_empty B path s =
     (case on_backend (bo_get_metadata B path) s of
        (Inr data, s1) \<Rightarrow> (if data \<noteq> [] then decode_metadata data else [], s1)
      | (Inl _, s1) \<Rightarrow> ([], s1))"

section \<open>Buckets\<close>

definition bucket_of_key :: "string \<Rightarrow> string option" where
  "bucket_of_key key =
     (let first = takeWhile (\<lambda>c. c \<noteq> CHR ''/'') key in if first \<noteq> [] \<and> first \<noteq> ''__buckets__'' then Some first else None)"

definition rebuild_buckets_from_index :: "('b, 'e) backend_ops \<Rightarrow> 'b adapter \<Rightarrow> string set \<times> 'b adapter" where
  "rebuild_buckets_from_index B s =
     (case on_backend (bo_list B None) s of (listing, s1) \<Rightarrow>
        (set (List.map_filter (\<lambda>r. case r of Inr item \<Rightarrow> bucket_of_key (om_location item) | Inl _ \<Rightarrow> None) (takeWhile is_ok listing)), s1))"

definition compute_bucket_stats :: "s3_env \<Rightarrow> ('b, 'e) backend_ops \<Rightarrow> string \<Rightarrow> 'b adapter \<Rightarrow> (nat \<times> nat) \<times> 'b adapter" where
  "compute_bucket_stats E B bucket s =
     (case on_backend (bo_list_with_meta B (Some (raw_path E (bucket @ ''/'')))) s of (listing, s1) \<Rightarrow>
        (fold (\<lambda>(item, _) (obj_count, bytes_used).
            let full = om_location item; key = (case strip_prefix (bucket @ ''/'') full of Some k \<Rightarrow> k | None \<Rightarrow> full) in
            if \<not> prefix ''__buckets__/'' key then (obj_count + 1, uadd bytes_used (om_size item)) else (obj_count, bytes_used))
          listing (0, 0), s1))"

definition create_bucket :: "string \<Rightarrow> string option \<Rightarrow> ('b, string) handler" where
  "create_bucket bucket location_constraint s =
     (if sublist ''.-'' bucket \<or> sublist ''-.'' bucket then (Inl S3InvalidBucketName, s)
      else if bucket \<in> ad_buckets s then (Inr (''/'' @ bucket), s)
      else
        (let s1 = s\<lparr>ad_buckets := insert bucket (ad_buckets s)\<rparr> in
         (Inr (''/'' @ bucket),
          case location_constraint of
            Some loc \<Rightarrow> if loc \<noteq> [] then s1\<lparr>ad_locations := hm_insert bucket loc (ad_locations s1)\<rparr> else s1
          | None \<Rightarrow> s1)))"

definition delete_bucket :: "s3_env \<Rightarrow> ('b, 'e) backend_ops \<Rightarrow> string \<Rightarrow> ('b, unit) handler" where
  "delete_bucket E B bucket s =
     (case on_backend (bo_list B (Some (raw_path E (bucket @ ''/'')))) s of (listing, s1) \<Rightarrow>
        (case listing of
           Inr _ # _ \<Rightarrow> (Inl S3BucketNotEmpty, s1)
         | _ \<Rightarrow> if bucket \<notin> ad_buckets s1 then (Inl S3NoSuchBucket, s1)
             else (Inr (), s1\<lparr>ad_buckets := ad_buckets s1 - {bucket}\<rparr>)))"

definition BUCKET_STATS_TTL :: int where
  "BUCKET_STATS_TTL = 5 * NANOS"

definition head_bucket :: "s3_env \<Rightarrow> ('b, 'e) backend_ops \<Rightarrow> req_io \<Rightarrow> string \<Rightarrow> ('b, nat \<times> nat) handler" where
  "head_bucket E B io bucket s =
     check (ensure_bucket bucket s) (\<lambda>s.
       let fresh = (case hm_get (ad_bucket_stats_cache s) bucket of
             Some (num, bytes, at_time) \<Rightarrow> if max 0 (ri_instant io - at_time) < BUCKET_STATS_TTL then Some (num, bytes) else None
           | None \<Rightarrow> None) in
       case fresh of
         Some stats \<Rightarrow> (Inr stats, s)
       | None \<Rightarrow>
           (case compute_bucket_stats E B bucket s of ((obj_count, bytes_used), s1) \<Rightarrow>
              (Inr (obj_count, bytes_used),
               s1\<lparr>ad_bucket_stats_cache := hm_insert bucket (obj_count, bytes_used, ri_instant io) (ad_bucket_stats_cache s1)\<rparr>))) s"

text \<open>\<open>i32 as usize\<close>.\<close>

definition i32_as_usize :: "int \<Rightarrow> nat" where
  "i32_as_usize n = nat (if n < 0 then n + 2 ^ 64 else n)"

definition list_buckets :: "bool \<Rightarrow> string option \<Rightarrow> int option \<Rightarrow> 'b adapter \<Rightarrow> string list \<times> string option" where
  "list_buckets has_credentials continuation_token max_buckets s =
     (if \<not> has_credentials \<and> \<not> ad_allow_anon_list_buckets s then ([], None)
      else
        (let cont_token = (case continuation_token of Some t \<Rightarrow> t | None \<Rightarrow> []);
             all_names = sorted_list_of_set (ad_buckets s);
             names = (if cont_token \<noteq> [] then filter (\<lambda>n. cont_token < n) all_names else all_names);
             limit = i32_as_usize (case max_buckets of Some n \<Rightarrow> n | None \<Rightarrow> 2 ^ 31 - 1);
             truncated = length names > limit;
             page = take limit names
         in (page, if truncated \<and> page \<noteq> [] then Some (last page) else None)))"

definition get_bucket_location :: "string \<Rightarrow> 'b adapter \<Rightarrow> s3_error + string option" where
  "get_bucket_location bucket s = bind_res (ensure_bucket bucket s) (\<lambda>_. Inr (hm_get (ad_locations s) bucket))"

definition invalidate_stats :: "string \<Rightarrow> 'b adapter \<Rightarrow> 'b adapter" where
  "invalidate_stats bucket s = s\<lparr>ad_bucket_stats_cache := hm_remove bucket (ad_bucket_stats_cache s)\<rparr>"

section \<open>Putting objects\<close>

text \<open>A request body: the chunks that its stream delivers, or the error that ends it.\<close>

type_synonym body_stream = "(unit + byte list) list"

record put_input =
  po_bucket :: string
  po_key :: string
  po_content_length :: "int option"
  po_headers :: s3_headers
  po_body :: "body_stream option"

definition SPOOL_THRESHOLD :: int where
  "SPOOL_THRESHOLD = 8 * 1024 * 1024"

fun collect_body :: "body_stream \<Rightarrow> s3_error + byte list" where
  "collect_body [] = Inr []"
| "collect_body (Inl _ # _) = Inl S3InternalError"
| "collect_body (Inr chunk # rest) = bind_res (collect_body rest) (\<lambda>bs. Inr (chunk @ bs))"

text \<open>The loops that spool a body into a temporary file: what the file then holds, and the number of writes.\<close>

fun spool_body :: "req_io \<Rightarrow> nat \<Rightarrow> body_stream \<Rightarrow> nat \<Rightarrow> byte list \<Rightarrow> (s3_error + nat) \<times> byte list" where
  "spool_body io limit [] writes acc = (Inr writes, acc)"
| "spool_body io limit (Inl _ # _) writes acc = (Inl S3InternalError, acc)"
| "spool_body io limit (Inr chunk # rest) writes acc =
     (if limit > 0 \<and> length acc + length chunk > limit then (Inl S3EntityTooLarge, acc)
      else if \<not> ri_write_ok io writes then (Inl S3InternalError, acc)
      else spool_body io limit rest (writes + 1) (acc @ chunk))"

text \<open>Storing the contents of the temporary file with metadata appended (also used to complete an upload).\<close>

definition append_metadata :: "req_io \<Rightarrow> (string, string) hashmap \<Rightarrow> nat \<Rightarrow> byte list \<Rightarrow> s3_error + (source_file \<times> nat)" where
  "append_metadata io meta writes body =
     (case encode_metadata meta of
        Inl _ \<Rightarrow> Inl S3InvalidArgument
      | Inr meta_bytes \<Rightarrow>
          if \<not> ri_write_ok io writes \<or> \<not> ri_flush_ok io \<or> \<not> ri_seek_ok io then Inl S3InternalError
          else Inr (ri_source io (body @ meta_bytes), length meta_bytes mod 2 ^ 16))"

definition put_large :: "s3_env \<Rightarrow> ('b, 'e) backend_ops \<Rightarrow> req_io \<Rightarrow> put_input \<Rightarrow> (string, string) hashmap \<Rightarrow> body_stream \<Rightarrow> ('b, string) handler" where
  "put_large E B io inp meta body s =
     (if \<not> ri_create_ok io then (Inl S3InternalError, s)
      else case spool_body io (ad_max_body_size s) body 0 [] of
        (Inl e, _) \<Rightarrow> (Inl e, s)
      | (Inr writes, data) \<Rightarrow>
          (let md5 = se_md5 E data in
           case append_metadata io (hm_insert ''etag'' md5 meta) writes data of
             Inl e \<Rightarrow> (Inl e, s)
           | Inr (file, meta_len) \<Rightarrow>
               and_then (backend_call internal (bo_put_from_file B (ri_now io) (obj_key E (po_bucket inp) (po_key inp)) file meta_len) s)
                 (\<lambda>_ s1. (Inr md5, invalidate_stats (po_bucket inp) s1))))"

definition put_small :: "s3_env \<Rightarrow> ('b, 'e) backend_ops \<Rightarrow> req_io \<Rightarrow> put_input \<Rightarrow> (string, string) hashmap \<Rightarrow> byte list \<Rightarrow> ('b, string) handler" where
  "put_small E B io inp meta body_data s =
     (let md5 = se_md5 E body_data in
      case encode_metadata (hm_insert ''etag'' md5 meta) of
        Inl _ \<Rightarrow> (Inl S3InvalidArgument, s)
      | Inr meta_bytes \<Rightarrow>
          and_then (backend_call internal (bo_put_with_meta B (ri_now io) (obj_key E (po_bucket inp) (po_key inp)) body_data meta_bytes) s)
            (\<lambda>_ s1. (Inr md5, invalidate_stats (po_bucket inp) s1)))"

definition s3_put_object :: "s3_env \<Rightarrow> ('b, 'e) backend_ops \<Rightarrow> req_io \<Rightarrow> put_input \<Rightarrow> ('b, string) handler" where
  "s3_put_object E B io inp s =
     check (validate_key (po_key inp)) (\<lambda>s. check (ensure_bucket (po_bucket inp) s) (\<lambda>s.
       if ad_max_body_size s > 0 \<and> (case po_content_length inp of Some cl \<Rightarrow> cl > 0 \<and> nat cl > ad_max_body_size s | None \<Rightarrow> False)
       then (Inl S3EntityTooLarge, s)
       else
         (let meta = build_s3_metadata E (po_headers inp) in
          case po_body inp of
            None \<Rightarrow> put_small E B io inp meta [] s
          | Some body \<Rightarrow>
              (let content_len = (case po_content_length inp of Some cl \<Rightarrow> cl | None \<Rightarrow> -1) in
               if content_len \<ge> 0 \<and> content_len \<le> SPOOL_THRESHOLD then
                 (case collect_body body of Inl e \<Rightarrow> (Inl e, s) | Inr data \<Rightarrow> put_small E B io inp meta data s)
               else put_large E B io inp meta body s))) s) s"

section \<open>Getting objects\<close>

datatype etag = Strong string | Weak string
datatype etag_condition = AnyTag | TheTag etag
datatype s3_range = RangeInt nat "nat option" | RangeSuffix nat

record get_input =
  gi_bucket :: string
  gi_key :: string
  gi_range :: "s3_range option"
  gi_if_modified_since :: "int option"
  gi_if_unmodified_since :: "int option"
  gi_if_match :: "etag_condition option"
  gi_if_none_match :: "etag_condition option"

record object_headers =
  oh_content_type :: "string option"
  oh_cache_control :: "string option"
  oh_content_encoding :: "string option"
  oh_content_disposition :: "string option"
  oh_content_language :: "string option"
  oh_user :: "(string \<times> byte list) list"

definition headers_of_meta :: "s3_env \<Rightarrow> (string, string) hashmap \<Rightarrow> object_headers" where
  "headers_of_meta E meta =
     \<lparr>oh_content_type = hm_get meta ''content-type'', oh_cache_control = hm_get meta ''cache-control'',
      oh_content_encoding = hm_get meta ''content-encoding'', oh_content_disposition = hm_get meta ''content-disposition'',
      oh_content_language = hm_get meta ''content-language'', oh_user = user_meta_headers E (extract_user_metadata meta)\<rparr>"

text \<open>The body of a response is the stream that the client reads after the handler returned.\<close>

record 'e get_output =
  gt_body :: "'e + byte list"
  gt_content_length :: int
  gt_content_range :: "string option"
  gt_headers :: object_headers
  gt_last_modified :: int
  gt_e_tag :: etag

definition quoted :: "string \<Rightarrow> string" where
  "quoted s = CHR 0x22 # s @ [CHR 0x22]"

definition etag_text :: "etag \<Rightarrow> string" where
  "etag_text e = (case e of Strong s \<Rightarrow> quoted s | Weak s \<Rightarrow> ''W/'' @ quoted s)"

definition not_modified :: "s3_env \<Rightarrow> etag option \<Rightarrow> s3_error" where
  "not_modified E e =
     S3NotModified (case e of Some t \<Rightarrow> if se_header_text E (etag_text t) then Some (etag_text t) else None | None \<Rightarrow> None)"

definition etag_matches :: "etag_condition \<Rightarrow> etag \<Rightarrow> bool" where
  "etag_matches cond e = (case cond of AnyTag \<Rightarrow> True | TheTag t \<Rightarrow> t = e)"

definition EMPTY_MD5 :: string where
  "EMPTY_MD5 = ''d41d8cd98f00b204e9800998ecf8427e''"

text \<open>The checks of a get between the lookup and the read, in their order: range, dates, entity tags.\<close>

definition check_conditions :: "s3_env \<Rightarrow> get_input \<Rightarrow> nat \<Rightarrow> int \<Rightarrow> (string, string) hashmap \<Rightarrow> s3_error + etag" where
  "check_conditions E inp body_size obj_mtime meta =
     (let obj_mtime_secs = se_whole_secs E obj_mtime;
          stored = map_option Strong (hm_get meta ''etag'');
          e = (case stored of Some t \<Rightarrow> t | None \<Rightarrow> Strong EMPTY_MD5) in
      if (case gi_range inp of Some (RangeInt first _) \<Rightarrow> first \<ge> body_size | _ \<Rightarrow> False) then Inl S3InvalidRange
      else if (case gi_if_modified_since inp of Some ims \<Rightarrow> obj_mtime_secs \<le> ims | None \<Rightarrow> False) then Inl (not_modified E stored)
      else if (case gi_if_unmodified_since inp of Some ius \<Rightarrow> obj_mtime_secs > ius | None \<Rightarrow> False) then Inl S3PreconditionFailed
      else if (case gi_if_match inp of Some c \<Rightarrow> \<not> etag_matches c e | None \<Rightarrow> False) then Inl S3PreconditionFailed
      else if (case gi_if_none_match inp of Some c \<Rightarrow> etag_matches c e | None \<Rightarrow> False) then Inl (not_modified E (Some e))
      else Inr e)"

text \<open>The bytes to read, the length and the \<open>Content-Range\<close> of the response, in machine arithmetic.\<close>

definition as_i64 :: "nat \<Rightarrow> int" where
  "as_i64 n = (if n < 2 ^ 63 then int n else int n - 2 ^ 64)"

definition range_bounds :: "nat \<Rightarrow> s3_range \<Rightarrow> nat \<times> nat" where
  "range_bounds body_size r =
     (case r of
        RangeInt first final \<Rightarrow> (first, min (case final of Some l \<Rightarrow> uadd l 1 | None \<Rightarrow> body_size) body_size)
      | RangeSuffix len \<Rightarrow> (body_size - min len body_size, body_size))"

definition content_range_text :: "nat \<Rightarrow> nat \<Rightarrow> nat \<Rightarrow> string" where
  "content_range_text st en body_size = ''bytes '' @ write_nat st @ ''-'' @ write_nat (usub en 1) @ ''/'' @ write_nat body_size"

definition s3_get_object :: "s3_env \<Rightarrow> ('b, 'e) backend_ops \<Rightarrow> get_input \<Rightarrow> ('b, 'e get_output) handler" where
  "s3_get_object E B inp s =
     check (validate_key (gi_key inp)) (\<lambda>s. check (ensure_bucket (gi_bucket inp) s) (\<lambda>s.
       let path = obj_key E (gi_bucket inp) (gi_key inp) in
       and_then (backend_call (no_such_key B) (bo_head_with_meta B path) s) (\<lambda>(head_meta, _) s1.
         let body_size = om_size head_meta in
         case on_backend (bo_get_metadata B path) s1 of (rm, s2) \<Rightarrow>
           (case (case rm of
                 Inr data \<Rightarrow> Inr (if data \<noteq> [] then decode_metadata data else [])
               | Inl e \<Rightarrow> if bo_not_found B e then Inr [] else Inl S3InternalError) of
              Inl e \<Rightarrow> (Inl e, s2)
            | Inr meta \<Rightarrow>
                (case check_conditions E inp body_size (om_last_modified head_meta) meta of
                   Inl e \<Rightarrow> (Inl e, s2)
                 | Inr e_tag \<Rightarrow>
                     (case gi_range inp of
                        Some r \<Rightarrow>
                          (case range_bounds body_size r of (st, en) \<Rightarrow>
                             and_then
                               (if en > st then
                                  and_then (backend_call internal (bo_get B (Some (Bounded st en)) path) s2) (\<lambda>body s3.
                                    (wrap_err internal body, s3))
                                else (Inr [], s2))
                               (\<lambda>bytes s3. (Inr \<lparr>gt_body = Inr bytes, gt_content_length = as_i64 (usub en st),
                                  gt_content_range = Some (content_range_text st en body_size), gt_headers = headers_of_meta E meta,
                                  gt_last_modified = om_last_modified head_meta, gt_e_tag = e_tag\<rparr>, s3)))
                      | None \<Rightarrow>
                          and_then (backend_call internal (bo_get B None path) s2) (\<lambda>body s3.
                            (Inr \<lparr>gt_body = body, gt_content_length = as_i64 body_size, gt_content_range = None,
                               gt_headers = headers_of_meta E meta, gt_last_modified = om_last_modified head_meta, gt_e_tag = e_tag\<rparr>, s3))))))) s) s"

record head_output =
  ho_content_length :: int
  ho_headers :: object_headers
  ho_expires :: "int option"
  ho_last_modified :: int
  ho_e_tag :: "etag option"

definition s3_head_object :: "s3_env \<Rightarrow> ('b, 'e) backend_ops \<Rightarrow> string \<Rightarrow> string \<Rightarrow> ('b, head_output) handler" where
  "s3_head_object E B bucket key s =
     check (validate_key key) (\<lambda>s. check (ensure_bucket bucket s) (\<lambda>s.
       let path = obj_key E bucket key in
       and_then (backend_call (no_such_key B) (bo_head_with_meta B path) s) (\<lambda>(head, _) s1.
         case metadata_or_empty B path s1 of (meta, s2) \<Rightarrow>
           (Inr \<lparr>ho_content_length = as_i64 (om_size head), ho_headers = headers_of_meta E meta,
              ho_expires = Option.bind (hm_get meta ''expires'') (se_parse_time E), ho_last_modified = om_last_modified head,
              ho_e_tag = map_option Strong (hm_get meta ''etag'')\<rparr>, s2))) s) s"

datatype object_attribute = AttrETag | AttrChecksum | AttrObjectParts | AttrStorageClass | AttrObjectSize

record attributes_output =
  ao_e_tag :: "etag option"
  ao_object_size :: "int option"
  ao_storage_class :: "string option"
  ao_last_modified :: int

definition get_object_attributes :: "s3_env \<Rightarrow> ('b, 'e) backend_ops \<Rightarrow> object_attribute list \<Rightarrow> string \<Rightarrow> string \<Rightarrow> ('b, attributes_output) handler" where
  "get_object_attributes E B requested bucket key s =
     check (validate_key key) (\<lambda>s. check (ensure_bucket bucket s) (\<lambda>s.
       let path = obj_key E bucket key in
       and_then (backend_call (no_such_key B) (bo_head_with_meta B path) s) (\<lambda>(head, _) s1.
         case (if AttrETag \<in> set requested \<or> AttrStorageClass \<in> set requested \<or> AttrChecksum \<in> set requested
               then metadata_or_empty B path s1 else ([], s1)) of (meta, s2) \<Rightarrow>
           (Inr \<lparr>ao_e_tag = (if AttrETag \<in> set requested then map_option Strong (hm_get meta ''etag'') else None),
              ao_object_size = (if AttrObjectSize \<in> set requested then Some (as_i64 (om_size head)) else None),
              ao_storage_class = (if AttrStorageClass \<in> set requested
                then Some (case hm_get meta ''x-amz-storage-class'' of Some sc \<Rightarrow> sc | None \<Rightarrow> ''STANDARD'') else None),
              ao_last_modified = om_last_modified head\<rparr>, s2))) s) s"

text \<open>The access control list is fixed; the handler only checks that the object exists.\<close>

definition get_object_acl :: "s3_env \<Rightarrow> ('b, 'e) backend_ops \<Rightarrow> string \<Rightarrow> string \<Rightarrow> ('b, unit) handler" where
  "get_object_acl E B bucket key s =
     check (ensure_bucket bucket s) (\<lambda>s.
       and_then (backend_call (no_such_key B) (bo_head B (obj_key E bucket key)) s) (\<lambda>_ s1. (Inr (), s1))) s"

section \<open>Deleting and copying objects\<close>

text \<open>\<open>delete_sidecar\<close> and \<open>delete\<close> of the backend; a missing object counts as deleted.\<close>

definition delete_path :: "('b, 'e) backend_ops \<Rightarrow> string \<Rightarrow> 'b adapter \<Rightarrow> ('e + unit) \<times> 'b adapter" where
  "delete_path B path s =
     (case on_backend (\<lambda>b. bo_delete B path (bo_delete_sidecar B path b)) s of
        (Inl e, s1) \<Rightarrow> (if bo_not_found B e then (Inr (), s1) else (Inl e, s1))
      | (Inr _, s1) \<Rightarrow> (Inr (), s1))"

definition s3_delete_object :: "s3_env \<Rightarrow> ('b, 'e) backend_ops \<Rightarrow> string \<Rightarrow> string \<Rightarrow> ('b, unit) handler" where
  "s3_delete_object E B bucket key s =
     check (validate_key key) (\<lambda>s. check (ensure_bucket bucket s) (\<lambda>s.
       case delete_path B (obj_key E bucket key) s of
         (Inl _, s1) \<Rightarrow> (Inl S3InternalError, s1)
       | (Inr _, s1) \<Rightarrow> (Inr (), invalidate_stats bucket s1)) s) s"

fun delete_keys :: "s3_env \<Rightarrow> ('b, 'e) backend_ops \<Rightarrow> string \<Rightarrow> string list \<Rightarrow> 'b adapter \<Rightarrow> (string list \<times> (string \<times> s3_error) list) \<times> 'b adapter" where
  "delete_keys E B bucket [] s = (([], []), s)"
| "delete_keys E B bucket (key # keys) s =
     (case validate_key key of
        Inl _ \<Rightarrow>
          (case delete_keys E B bucket keys s of ((deleted, errors), s1) \<Rightarrow> ((deleted, (key, S3InvalidArgument) # errors), s1))
      | Inr _ \<Rightarrow>
          (case delete_path B (obj_key E bucket key) s of
             (Inr _, s1) \<Rightarrow> (case delete_keys E B bucket keys s1 of ((deleted, errors), s2) \<Rightarrow> ((key # deleted, errors), s2))
           | (Inl _, s1) \<Rightarrow>
               (case delete_keys E B bucket keys s1 of ((deleted, errors), s2) \<Rightarrow> ((deleted, (key, S3InternalError) # errors), s2))))"

definition delete_objects :: "s3_env \<Rightarrow> ('b, 'e) backend_ops \<Rightarrow> string \<Rightarrow> string list \<Rightarrow> ('b, string list \<times> (string \<times> s3_error) list) handler" where
  "delete_objects E B bucket keys s =
     check (ensure_bucket bucket s) (\<lambda>s.
       if length keys > 1000 then (Inl S3MalformedXML, s)
       else (case delete_keys E B bucket keys s of (r, s1) \<Rightarrow> (Inr r, s1))) s"

definition read_source_object :: "s3_env \<Rightarrow> ('b, 'e) backend_ops \<Rightarrow> string \<Rightarrow> ('b, byte list \<times> byte list \<times> string) handler" where
  "read_source_object E B path s =
     and_then (backend_call (no_such_key B) (bo_head_with_meta B path) s) (\<lambda>(_, src_meta_len) s1.
     and_then (backend_call (no_such_key B) (bo_get B None path) s1) (\<lambda>body_result s2.
       case body_result of
         Inl _ \<Rightarrow> (Inl S3InternalError, s2)
       | Inr body \<Rightarrow>
           (if src_meta_len > 0 then
              and_then (backend_call internal (bo_get_metadata B path) s2) (\<lambda>raw_meta s3.
                (Inr (body, raw_meta, case hm_get (decode_metadata raw_meta) ''etag'' of Some t \<Rightarrow> t | None \<Rightarrow> se_md5 E body), s3))
            else (Inr (body, [], se_md5 E body), s2))))"

record copy_input =
  ci_bucket :: string
  ci_key :: string
  ci_source :: "(string \<times> string) option"
  ci_replace :: bool
  ci_headers :: s3_headers

definition s3_copy_object :: "s3_env \<Rightarrow> ('b, 'e) backend_ops \<Rightarrow> req_io \<Rightarrow> copy_input \<Rightarrow> ('b, string) handler" where
  "s3_copy_object E B io inp s =
     (case ci_source inp of
        None \<Rightarrow> (Inl S3NotImplemented, s)
      | Some (src_bucket, src_key) \<Rightarrow>
          check (validate_key src_key) (\<lambda>s. check (validate_key (ci_key inp)) (\<lambda>s.
          check (ensure_bucket src_bucket s) (\<lambda>s. check (ensure_bucket (ci_bucket inp) s) (\<lambda>s.
            if src_bucket = ci_bucket inp \<and> src_key = ci_key inp \<and> \<not> ci_replace inp then (Inl S3InvalidRequest, s)
            else
              and_then (read_source_object E B (obj_key E src_bucket src_key) s) (\<lambda>(body, raw_meta, e_tag) s1.
                case (if ci_replace inp then encode_metadata (hm_insert ''etag'' e_tag (build_s3_metadata E (ci_headers inp)))
                      else if raw_meta = [] then encode_metadata [(''etag'', e_tag)] else Inr raw_meta) of
                  Inl _ \<Rightarrow> (Inl S3InvalidArgument, s1)
                | Inr meta_bytes \<Rightarrow>
                    and_then (backend_call internal (bo_put_with_meta B (ri_now io) (obj_key E (ci_bucket inp) (ci_key inp)) body meta_bytes) s1)
                      (\<lambda>_ s2. (Inr e_tag, invalidate_stats (ci_bucket inp) s2)))) s) s) s) s)"

end
