(* ===== verification/S3_Listing.thy ===== *)
theory S3_Listing
  imports S3_Adapter
begin

text \<open>
  The listing handlers of the S3 adapter (\<open>list_objects_v2\<close>, \<open>list_objects\<close>, \<open>list_object_versions\<close>): keys are
  decoded, filtered and grouped by a delimiter, and a page of the merged keys and common prefixes is
  returned with a token for the next one.
\<close>

section \<open>The handlers\<close>

record list_input =
  li_bucket :: string
  li_prefix :: "string option"
  li_delimiter :: "string option"
  li_max_keys :: "int option"
  li_start_after :: "string option"
  li_continuation_token :: "string option"
  li_encoding_type :: "string option"
  li_fetch_owner :: "bool option"

record s3_object =
  ob_key :: string
  ob_last_modified :: int
  ob_size :: int
  ob_owner :: bool
  ob_e_tag :: "etag option"

record list_output =
  lo_key_count :: nat
  lo_max_keys :: int
  lo_is_truncated :: bool
  lo_next_continuation_token :: "string option"
  lo_contents :: "s3_object list"
  lo_common_prefixes :: "string list"
  lo_delimiter :: "string option"

text \<open>The S3 key of a stored key below the bucket, undoing the directory mark.\<close>

definition decode_dir_mark :: "string \<Rightarrow> string option" where
  "decode_dir_mark raw_key =
     (if suffix DIR_MARK_SUFFIX raw_key then Some (take (length raw_key - length DIR_MARK) raw_key)
      else if raw_key = DIR_MARK \<or> suffix (''/'' @ DIR_MARK @ ''/'') raw_key then None
      else Some raw_key)"

text \<open>\<open>remainder.find(delim)\<close>.\<close>

fun find_sub :: "string \<Rightarrow> string \<Rightarrow> nat option" where
  "find_sub delim [] = (if delim = [] then Some 0 else None)"
| "find_sub delim (c # cs) = (if prefix delim (c # cs) then Some 0 else map_option Suc (find_sub delim cs))"

definition after :: "string option \<Rightarrow> string \<Rightarrow> bool" where
  "after bound s = (case bound of Some b \<Rightarrow> b < s | None \<Rightarrow> True)"

definition listed_key :: "list_input \<Rightarrow> object_meta \<Rightarrow> string option" where
  "listed_key inp item =
     (case strip_prefix (li_bucket inp @ ''/'') (om_location item) of
        None \<Rightarrow> None
      | Some raw_key \<Rightarrow>
          (case decode_dir_mark raw_key of
             None \<Rightarrow> None
           | Some key \<Rightarrow>
               if prefix ''__buckets__/'' key then None
               else if \<not> prefix (case li_prefix inp of Some p \<Rightarrow> p | None \<Rightarrow> []) key then None
               else if \<not> after (li_start_after inp) key then None
               else if \<not> after (li_continuation_token inp) key then None
               else Some key))"

text \<open>The common prefix of a key, when the delimiter occurs after the requested prefix.\<close>

definition key_group :: "string \<Rightarrow> string option \<Rightarrow> string \<Rightarrow> string option" where
  "key_group prefix_str delimiter key =
     (case delimiter of
        None \<Rightarrow> None
      | Some delim \<Rightarrow>
          (let remainder = drop (length prefix_str) key in
           case find_sub delim remainder of
             Some pos \<Rightarrow> Some (prefix_str @ take (pos + length delim) remainder)
           | None \<Rightarrow> None))"

definition to_object :: "list_input \<Rightarrow> object_meta \<Rightarrow> string \<Rightarrow> s3_object" where
  "to_object inp item key =
     \<lparr>ob_key = key, ob_last_modified = om_last_modified item, ob_size = as_i64 (om_size item),
      ob_owner = (li_fetch_owner inp = Some True), ob_e_tag = None\<rparr>"

definition list_delimiter :: "list_input \<Rightarrow> string option" where
  "list_delimiter inp = (case li_delimiter inp of Some d \<Rightarrow> if d = [] then None else Some d | None \<Rightarrow> None)"

text \<open>What the loop over the listing collects: the objects, and the set of common prefixes.\<close>

definition collect_objects :: "list_input \<Rightarrow> (object_meta \<times> nat) list \<Rightarrow> s3_object list" where
  "collect_objects inp listing =
     List.map_filter (\<lambda>(item, _).
       case listed_key inp item of
         None \<Rightarrow> None
       | Some key \<Rightarrow> (case key_group (case li_prefix inp of Some p \<Rightarrow> p | None \<Rightarrow> []) (list_delimiter inp) key of
           Some _ \<Rightarrow> None
         | None \<Rightarrow> Some (to_object inp item key))) listing"

definition collect_prefixes :: "list_input \<Rightarrow> (object_meta \<times> nat) list \<Rightarrow> string list" where
  "collect_prefixes inp listing =
     List.map_filter (\<lambda>(item, _).
       case listed_key inp item of
         None \<Rightarrow> None
       | Some key \<Rightarrow> (case key_group (case li_prefix inp of Some p \<Rightarrow> p | None \<Rightarrow> []) (list_delimiter inp) key of
           Some cp \<Rightarrow> if after (li_start_after inp) cp \<and> after (li_continuation_token inp) cp then Some cp else None
         | None \<Rightarrow> None)) listing"

text \<open>The loop that merges objects and prefixes up to \<open>n\<close> entries; it returns what was taken and what remains.\<close>

fun merge_page :: "nat \<Rightarrow> s3_object list \<Rightarrow> string list \<Rightarrow> (s3_object list \<times> string list) \<times> (s3_object list \<times> string list)" where
  "merge_page 0 objs pfxs = (([], []), (objs, pfxs))"
| "merge_page (Suc n) (ob # objs) (p # pfxs) =
     (if ob_key ob < p then (case merge_page n objs (p # pfxs) of ((os, ps), rest) \<Rightarrow> ((ob # os, ps), rest))
      else (case merge_page n (ob # objs) pfxs of ((os, ps), rest) \<Rightarrow> ((os, p # ps), rest)))"
| "merge_page (Suc n) (ob # objs) [] = (case merge_page n objs [] of ((os, ps), rest) \<Rightarrow> ((ob # os, ps), rest))"
| "merge_page (Suc n) [] (p # pfxs) = (case merge_page n [] pfxs of ((os, ps), rest) \<Rightarrow> ((os, p # ps), rest))"
| "merge_page (Suc n) [] [] = (([], []), ([], []))"

text \<open>The greater of the last object key and the last prefix.\<close>

definition last_entry :: "string list \<Rightarrow> string list \<Rightarrow> string option" where
  "last_entry keys pfxs =
     (if keys = [] then (if pfxs = [] then None else Some (last pfxs))
      else if pfxs = [] then Some (last keys)
      else Some (if last keys > last pfxs then last keys else last pfxs))"

fun load_etags :: "s3_env \<Rightarrow> ('b, 'e) backend_ops \<Rightarrow> string \<Rightarrow> s3_object list \<Rightarrow> 'b adapter \<Rightarrow> s3_object list \<times> 'b adapter" where
  "load_etags E B bucket [] s = ([], s)"
| "load_etags E B bucket (ob # objs) s =
     (case load_metadata E B bucket (ob_key ob) s of (meta, s1) \<Rightarrow>
        (case load_etags E B bucket objs s1 of (rest, s2) \<Rightarrow>
           (ob\<lparr>ob_e_tag := map_option Strong (Option.bind meta (\<lambda>m. hm_get m ''etag''))\<rparr> # rest, s2)))"

definition upper_hex :: "nat \<Rightarrow> char" where
  "upper_hex n = (if n < 10 then char_of (n + 48) else char_of (n + 55))"

definition url_encode :: "string \<Rightarrow> string" where
  "url_encode s = concat (map (\<lambda>c.
     let n = of_char c :: nat in
     if (48 \<le> n \<and> n \<le> 57) \<or> (65 \<le> n \<and> n \<le> 90) \<or> (97 \<le> n \<and> n \<le> 122) \<or> c \<in> set ''-_.~/'' then [c]
     else [CHR ''%'', upper_hex (n div 16), upper_hex (n mod 16)]) s)"

text \<open>The directory part of the prefix, up to its last slash, is what the backend lists.\<close>

definition dir_part :: "string \<Rightarrow> string" where
  "dir_part prefix_str = rev (dropWhile (\<lambda>c. c \<noteq> CHR ''/'') (rev prefix_str))"

definition page_of :: "list_input \<Rightarrow> (object_meta \<times> nat) list \<Rightarrow> (s3_object list \<times> string list) \<times> (s3_object list \<times> string list)" where
  "page_of inp listing =
     merge_page (nat (max 0 (case li_max_keys inp of Some n \<Rightarrow> n | None \<Rightarrow> 1000)))
       (sort_key ob_key (collect_objects inp listing)) (sorted_list_of_set (set (collect_prefixes inp listing)))"

definition list_objects_v2 :: "s3_env \<Rightarrow> ('b, 'e) backend_ops \<Rightarrow> list_input \<Rightarrow> ('b, list_output) handler" where
  "list_objects_v2 E B inp s =
     check (ensure_bucket (li_bucket inp) s) (\<lambda>s.
       let bucket = li_bucket inp;
           prefix_str = (case li_prefix inp of Some p \<Rightarrow> p | None \<Rightarrow> []);
           max_keys = (case li_max_keys inp of Some n \<Rightarrow> n | None \<Rightarrow> 1000) in
       case on_backend (bo_list_with_meta B (Some (raw_path E (bucket @ ''/'' @ dir_part prefix_str)))) s of (listing, s1) \<Rightarrow>
         (case page_of inp listing of ((objs, pfxs), (more_objs, more_pfxs)) \<Rightarrow>
            (let is_truncated = (max_keys > 0 \<and> (more_objs \<noteq> [] \<or> more_pfxs \<noteq> []));
                 enc = (if li_encoding_type inp = Some ''url'' then url_encode else id) in
             case load_etags E B bucket objs s1 of (tagged, s2) \<Rightarrow>
               (Inr \<lparr>lo_key_count = length objs + length pfxs, lo_max_keys = max_keys, lo_is_truncated = is_truncated,
                  lo_next_continuation_token = (if is_truncated then last_entry (map ob_key objs) pfxs else None),
                  lo_contents = map (\<lambda>ob. ob\<lparr>ob_key := enc (ob_key ob)\<rparr>) tagged, lo_common_prefixes = map enc pfxs,
                  lo_delimiter = list_delimiter inp\<rparr>, s2)))) s"

text \<open>
  The first version of the call: \<open>into_v2\<close> is the conversion of the request, which belongs to a third-party
  crate. The marker of the next page is taken from the encoded keys.
\<close>

definition s3_list_objects ::
  "s3_env \<Rightarrow> ('b, 'e) backend_ops \<Rightarrow> (list_input \<Rightarrow> list_input) \<Rightarrow> string option \<Rightarrow> list_input \<Rightarrow> ('b, list_output \<times> string option) handler" where
  "s3_list_objects E B into_v2 uri_query inp s =
     (if (case uri_query of Some q \<Rightarrow> sublist ''allow-unordered=true'' q | None \<Rightarrow> False) \<and> li_delimiter inp \<noteq> None
      then (Inl S3InvalidArgument, s)
      else
        and_then (list_objects_v2 E B ((into_v2 inp)\<lparr>li_fetch_owner := Some True\<rparr>) s) (\<lambda>v2 s1.
          (Inr (v2, if lo_is_truncated v2 \<and> list_delimiter inp \<noteq> None
             then last_entry (map ob_key (lo_contents v2)) (lo_common_prefixes v2) else None), s1)))"

record versions_output =
  vo_keys :: "(string \<times> int \<times> int) list"
  vo_is_truncated :: bool
  vo_next_key_marker :: "string option"

definition list_object_versions ::
  "s3_env \<Rightarrow> ('b, 'e) backend_ops \<Rightarrow> string \<Rightarrow> string option \<Rightarrow> string option \<Rightarrow> int option \<Rightarrow> ('b, versions_output) handler" where
  "list_object_versions E B bucket pfx key_marker max_keys_opt s =
     check (ensure_bucket bucket s) (\<lambda>s.
       let prefix_str = (case pfx of Some p \<Rightarrow> p | None \<Rightarrow> []);
           max_keys = i32_as_usize (case max_keys_opt of Some n \<Rightarrow> n | None \<Rightarrow> 1000);
           marker = (case key_marker of Some m \<Rightarrow> if m = [] then None else Some m | None \<Rightarrow> None) in
       case on_backend (bo_list_with_meta B (Some (raw_path E (bucket @ ''/'' @ prefix_str)))) s of (listing, s1) \<Rightarrow>
         (let versions = sort_key fst (List.map_filter (\<lambda>(item, _).
                case Option.bind (strip_prefix (bucket @ ''/'') (om_location item)) decode_dir_mark of
                  None \<Rightarrow> None
                | Some key \<Rightarrow>
                    if prefix ''__buckets__/'' key \<or> \<not> prefix prefix_str key \<or> \<not> after marker key then None
                    else Some (key, om_last_modified item, as_i64 (om_size item))) listing);
              is_truncated = length versions > max_keys;
              page = take max_keys versions
          in (Inr \<lparr>vo_keys = page, vo_is_truncated = is_truncated,
                vo_next_key_marker = (if is_truncated \<and> page \<noteq> [] then Some (fst (last page)) else None)\<rparr>, s1))) s"

end
