(* ===== verification/S3_Uploads.thy ===== *)
theory S3_Uploads
  imports S3_Listing
begin

text \<open>
  The multipart uploads of the S3 adapter (\<open>create_multipart_upload\<close> to \<open>list_parts\<close> of
  \<open>objstrd/src/adapter.rs\<close>) and its fixed answers. A part is spooled into a temporary file that outlives the
  request; the registry of uploads names the files, and dropping an upload removes them. Completing an
  upload joins the files of the requested parts and stores them as one object.
\<close>

section \<open>The registry\<close>

text \<open>\<open>Drop for Upload\<close>.\<close>

definition drop_upload :: "upload \<Rightarrow> 'b adapter \<Rightarrow> 'b adapter" where
  "drop_upload u s = s\<lparr>ad_temps := fold (\<lambda>(_, part). hm_remove (pm_temp_path part)) (up_parts u) (ad_temps s)\<rparr>"

definition remove_upload :: "string \<Rightarrow> 'b adapter \<Rightarrow> 'b adapter" where
  "remove_upload upload_id s =
     (case hm_get (ad_uploads s) upload_id of
        Some u \<Rightarrow> drop_upload u (s\<lparr>ad_uploads := hm_remove upload_id (ad_uploads s)\<rparr>)
      | None \<Rightarrow> s)"

text \<open>\<open>uploads.insert\<close>: a displaced upload is dropped.\<close>

definition insert_upload :: "string \<Rightarrow> upload \<Rightarrow> 'b adapter \<Rightarrow> 'b adapter" where
  "insert_upload upload_id u s =
     (let s1 = s\<lparr>ad_uploads := hm_insert upload_id u (ad_uploads s)\<rparr> in
      case hm_get (ad_uploads s) upload_id of Some old \<Rightarrow> drop_upload old s1 | None \<Rightarrow> s1)"

definition stale :: "req_io \<Rightarrow> 'b adapter \<Rightarrow> upload \<Rightarrow> bool" where
  "stale io s u \<longleftrightarrow> max 0 (ri_instant io - up_created_at u) > ad_upload_expiry s"

definition purge_stale :: "req_io \<Rightarrow> 'b adapter \<Rightarrow> 'b adapter" where
  "purge_stale io s = fold remove_upload (map fst (filter (\<lambda>(_, u). stale io s u) (ad_uploads s))) s"

definition create_multipart_upload :: "s3_env \<Rightarrow> req_io \<Rightarrow> string \<Rightarrow> string \<Rightarrow> s3_headers \<Rightarrow> ('b, string) handler" where
  "create_multipart_upload E io bucket key headers s =
     check (ensure_bucket bucket s) (\<lambda>s.
       let u = \<lparr>up_bucket = bucket, up_key = key, up_metadata = build_s3_metadata E headers, up_parts = [], up_created_at = ri_instant io\<rparr>;
           s1 = purge_stale io s in
       if length (ad_uploads s1) \<ge> MAX_CONCURRENT_UPLOADS then (Inl S3SlowDown, s1)
       else (Inr (ri_uuid io), insert_upload (ri_uuid io) u s1)) s"

section \<open>Parts\<close>

definition part_number_ok :: "int \<Rightarrow> bool" where
  "part_number_ok n \<longleftrightarrow> \<not> (n < 1 \<or> n > 10000)"

text \<open>The entry of a part in its upload.\<close>

definition register_part :: "string \<Rightarrow> int \<Rightarrow> part_meta \<Rightarrow> ('b, unit) handler" where
  "register_part upload_id part_number pm s =
     (case hm_get (ad_uploads s) upload_id of
        None \<Rightarrow> (Inl S3NoSuchUpload, s)
      | Some u \<Rightarrow>
          (Inr (), s\<lparr>ad_uploads := hm_insert upload_id (u\<lparr>up_parts := hm_insert part_number pm (up_parts u)\<rparr>) (ad_uploads s)\<rparr>))"

definition part_of_data :: "s3_env \<Rightarrow> req_io \<Rightarrow> byte list \<Rightarrow> part_meta" where
  "part_of_data E io data = \<lparr>pm_size = length data, pm_etag = se_md5 E data, pm_temp_path = ri_temp_name io\<rparr>"

definition write_temp :: "req_io \<Rightarrow> byte list \<Rightarrow> 'b adapter \<Rightarrow> 'b adapter" where
  "write_temp io data s = s\<lparr>ad_temps := hm_insert (ri_temp_name io) data (ad_temps s)\<rparr>"

definition remove_temp :: "req_io \<Rightarrow> 'b adapter \<Rightarrow> 'b adapter" where
  "remove_temp io s = s\<lparr>ad_temps := hm_remove (ri_temp_name io) (ad_temps s)\<rparr>"

definition upload_part :: "s3_env \<Rightarrow> req_io \<Rightarrow> string \<Rightarrow> int \<Rightarrow> body_stream option \<Rightarrow> ('b, etag) handler" where
  "upload_part E io upload_id part_number body s =
     (if \<not> part_number_ok part_number then (Inl S3InvalidArgument, s)
      else if \<not> ri_create_ok io then (Inl S3InternalError, s)
      else
        (case spool_body io (ad_max_body_size s) (case body of Some b \<Rightarrow> b | None \<Rightarrow> []) 0 [] of
           (Inl e, data) \<Rightarrow> (Inl e, remove_temp io (write_temp io data s))
         | (Inr _, data) \<Rightarrow>
             (if \<not> ri_flush_ok io then (Inl S3InternalError, remove_temp io (write_temp io data s))
              else
                (case register_part upload_id part_number (part_of_data E io data) (write_temp io data s) of
                   (Inl e, s1) \<Rightarrow> (Inl e, remove_temp io s1)
                 | (Inr _, s1) \<Rightarrow> (Inr (Strong (se_md5 E data)), s1)))))"

text \<open>\<open>split_once\<close>, and the range \<open>bytes=start-end\<close> of a copy.\<close>

definition split_once :: "char \<Rightarrow> string \<Rightarrow> (string \<times> string) option" where
  "split_once c s =
     (let before = takeWhile (\<lambda>x. x \<noteq> c) s in
      if length before = length s then None else Some (before, drop (Suc (length before)) s))"

definition copy_range :: "string option \<Rightarrow> nat \<Rightarrow> s3_error + nat \<times> nat" where
  "copy_range copy_source_range src_body_size =
     (case copy_source_range of
        None \<Rightarrow> Inr (0, src_body_size)
      | Some range_str \<Rightarrow>
          (case Option.bind (strip_prefix ''bytes='' (trim range_str)) (split_once (CHR ''-'')) of
             None \<Rightarrow> Inl S3InvalidArgument
           | Some (start_str, end_str) \<Rightarrow>
               (if list_ex (\<lambda>c. \<not> is_digit c) start_str \<or> list_ex (\<lambda>c. \<not> is_digit c) end_str then Inl S3InvalidArgument
                else case (parse_uint u64_max start_str, parse_uint u64_max end_str) of
                  (Some st, Some en) \<Rightarrow>
                    (if st > en then Inl S3InvalidRange
                     else if st \<ge> src_body_size \<or> en \<ge> src_body_size then Inl S3InvalidRange
                     else Inr (st, en + 1))
                | _ \<Rightarrow> Inl S3InvalidArgument)))"

text \<open>
  The second half of \<open>upload_part_copy\<close>: the source is read into a new temporary file, which becomes the part. A
  failure leaves the file behind. The copied bytes are one write; a failed write leaves the file empty.
\<close>

definition copy_to_temp :: "s3_env \<Rightarrow> ('b, 'e) backend_ops \<Rightarrow> req_io \<Rightarrow> string \<Rightarrow> int \<Rightarrow> string \<Rightarrow> nat \<Rightarrow> nat \<Rightarrow> ('b, etag) handler" where
  "copy_to_temp E B io upload_id part_number src_path copy_start copy_end s =
     and_then (backend_call (no_such_key B) (bo_get B (Some (Bounded copy_start copy_end)) src_path) (write_temp io [] s))
       (\<lambda>body s2.
         case body of
           Inl _ \<Rightarrow> (Inl S3InternalError, s2)
         | Inr data \<Rightarrow>
             (if data \<noteq> [] \<and> \<not> ri_write_ok io 0 then (Inl S3InternalError, s2)
              else if \<not> ri_flush_ok io then (Inl S3InternalError, write_temp io data s2)
              else and_then (register_part upload_id part_number (part_of_data E io data) (write_temp io data s2))
                (\<lambda>_ s3. (Inr (Strong (se_md5 E data)), s3))))"

definition upload_part_copy :: "s3_env \<Rightarrow> ('b, 'e) backend_ops \<Rightarrow> req_io \<Rightarrow> string \<Rightarrow> int \<Rightarrow> (string \<times> string) option \<Rightarrow> string option \<Rightarrow> ('b, etag) handler" where
  "upload_part_copy E B io upload_id part_number copy_source copy_source_range s =
     (if \<not> part_number_ok part_number then (Inl S3InvalidArgument, s)
      else case copy_source of
        None \<Rightarrow> (Inl S3NotImplemented, s)
      | Some (src_bucket, src_key) \<Rightarrow>
          (let src_path = obj_key E src_bucket src_key in
           and_then (backend_call (no_such_key B) (bo_head_with_meta B src_path) s) (\<lambda>(src_head, _) s1.
             case copy_range copy_source_range (om_size src_head) of
               Inl e \<Rightarrow> (Inl e, s1)
             | Inr (copy_start, copy_end) \<Rightarrow>
                 (if ad_max_body_size s1 > 0 \<and> copy_end - copy_start > ad_max_body_size s1 then (Inl S3EntityTooLarge, s1)
                  else if \<not> ri_create_ok io then (Inl S3InternalError, s1)
                  else copy_to_temp E B io upload_id part_number src_path copy_start copy_end s1))))"

section \<open>Completing an upload\<close>

definition COPY_BUF :: nat where
  "COPY_BUF = 1024 * 1024"

text \<open>The loop that copies the file of one part, a buffer at a time.\<close>

function copy_part :: "req_io \<Rightarrow> byte list \<Rightarrow> nat \<Rightarrow> byte list \<Rightarrow> s3_error + nat \<times> byte list" where
  "copy_part io data writes acc =
     (if data = [] then Inr (writes, acc)
      else if \<not> ri_write_ok io writes then Inl S3InternalError
      else copy_part io (drop COPY_BUF data) (writes + 1) (acc @ take COPY_BUF data))"
  by pat_completeness auto

termination copy_part
  by (relation "measure (\<lambda>(_, data, _, _). length data)") (simp_all add: COPY_BUF_def)

declare copy_part.simps [simp del]

text \<open>The loop over the requested parts.\<close>

fun assemble_parts :: "req_io \<Rightarrow> (string, byte list) hashmap \<Rightarrow> upload \<Rightarrow> int option list \<Rightarrow> nat \<Rightarrow> byte list \<Rightarrow> s3_error + nat \<times> byte list" where
  "assemble_parts io temps u [] writes acc = Inr (writes, acc)"
| "assemble_parts io temps u (None # parts) writes acc = Inl S3InvalidRequest"
| "assemble_parts io temps u (Some n # parts) writes acc =
     (case hm_get (up_parts u) n of
        None \<Rightarrow> Inl S3InvalidPart
      | Some pm \<Rightarrow>
          (case hm_get temps (pm_temp_path pm) of
             None \<Rightarrow> Inl S3InternalError
           | Some data \<Rightarrow>
               (if \<not> ri_part_ok io (pm_temp_path pm) then Inl S3InternalError
                else bind_res (copy_part io data writes acc) (\<lambda>(writes1, acc1). assemble_parts io temps u parts writes1 acc1))))"

text \<open>A second completion of an upload that is gone answers from the stored object.\<close>

definition already_completed :: "s3_env \<Rightarrow> ('b, 'e) backend_ops \<Rightarrow> string \<Rightarrow> string \<Rightarrow> ('b, etag) handler" where
  "already_completed E B bucket key s =
     (case on_backend (bo_head B (obj_key E bucket key)) s of
        (Inl _, s1) \<Rightarrow> (Inl S3NoSuchUpload, s1)
      | (Inr _, s1) \<Rightarrow>
          (case load_metadata E B bucket key s1 of (meta, s2) \<Rightarrow>
             (Inr (Strong (case Option.bind meta (\<lambda>m. hm_get m ''etag'') of Some t \<Rightarrow> t | None \<Rightarrow> [])), s2)))"

text \<open>
  The upload leaves the registry at once. An error before the write of the object drops it with its parts; only a
  failed write puts it back. \<open>ri_flush_ok\<close> and \<open>ri_seek_ok\<close> are the flushes and the seek of the assembled file.
\<close>

definition complete_multipart_upload ::
  "s3_env \<Rightarrow> ('b, 'e) backend_ops \<Rightarrow> req_io \<Rightarrow> string \<Rightarrow> string \<Rightarrow> string \<Rightarrow> int option list option option \<Rightarrow> ('b, etag) handler" where
  "complete_multipart_upload E B io bucket key upload_id multipart_upload s =
     (case multipart_upload of
        None \<Rightarrow> (Inl S3InvalidRequest, s)
      | Some parts_opt \<Rightarrow>
          (case hm_get (ad_uploads s) upload_id of
             None \<Rightarrow> already_completed E B bucket key s
           | Some u \<Rightarrow>
               (let s1 = s\<lparr>ad_uploads := hm_remove upload_id (ad_uploads s)\<rparr>;
                    parts = (case parts_opt of Some ps \<Rightarrow> ps | None \<Rightarrow> []) in
                if parts = [] then (Inl S3InvalidPart, drop_upload u s1)
                else if \<not> ri_create_ok io then (Inl S3InternalError, drop_upload u s1)
                else case assemble_parts io (ad_temps s1) u parts 0 [] of
                  Inl e \<Rightarrow> (Inl e, drop_upload u s1)
                | Inr (writes, data) \<Rightarrow>
                    (if \<not> ri_flush_ok io then (Inl S3InternalError, drop_upload u s1)
                     else
                       (let md5 = se_md5 E data in
                        case append_metadata io (hm_insert ''etag'' md5 (up_metadata u)) writes data of
                          Inl e \<Rightarrow> (Inl e, drop_upload u s1)
                        | Inr (file, meta_len) \<Rightarrow>
                            (case on_backend (bo_put_from_file B (ri_now io) (obj_key E bucket key) file meta_len) s1 of
                               (Inl _, s2) \<Rightarrow> (Inl S3InternalError, insert_upload upload_id u s2)
                             | (Inr _, s2) \<Rightarrow> (Inr (Strong md5), drop_upload u (invalidate_stats bucket s2))))))))"

definition abort_multipart_upload :: "string \<Rightarrow> ('b, unit) handler" where
  "abort_multipart_upload upload_id s =
     (case hm_get (ad_uploads s) upload_id of
        Some _ \<Rightarrow> (Inr (), remove_upload upload_id s)
      | None \<Rightarrow> (Inl S3NoSuchUpload, s))"

section \<open>Listings of uploads, fixed answers\<close>

definition list_multipart_uploads :: "string \<Rightarrow> 'b adapter \<Rightarrow> s3_error + (string \<times> string) list option" where
  "list_multipart_uploads bucket s =
     bind_res (ensure_bucket bucket s) (\<lambda>_.
       let result = map (\<lambda>(upload_id, u). (up_key u, upload_id)) (filter (\<lambda>(_, u). up_bucket u = bucket) (ad_uploads s)) in
       Inr (if result = [] then None else Some result))"

definition list_parts :: "string \<Rightarrow> 'b adapter \<Rightarrow> s3_error + (int \<times> int \<times> etag) list" where
  "list_parts upload_id s =
     (case hm_get (ad_uploads s) upload_id of
        None \<Rightarrow> Inl S3NoSuchUpload
      | Some u \<Rightarrow> Inr (sort_key fst (map (\<lambda>(num, pm). (num, as_i64 (pm_size pm), Strong (pm_etag pm))) (up_parts u))))"

text \<open>\<open>get_bucket_versioning\<close>, \<open>put_bucket_versioning\<close> and \<open>get_bucket_acl\<close> check the bucket and answer a constant.\<close>

definition get_bucket_versioning :: "string \<Rightarrow> 'b adapter \<Rightarrow> s3_error + unit" where
  "get_bucket_versioning bucket s = ensure_bucket bucket s"

definition put_bucket_versioning :: "string \<Rightarrow> 'b adapter \<Rightarrow> s3_error + unit" where
  "put_bucket_versioning bucket s = ensure_bucket bucket s"

definition get_bucket_acl :: "string \<Rightarrow> 'b adapter \<Rightarrow> s3_error + (string \<times> string \<times> string)" where
  "get_bucket_acl bucket s = bind_res (ensure_bucket bucket s) (\<lambda>_. Inr (''rawobjstr'', ''CanonicalUser'', ''FULL_CONTROL''))"

end
