(* ===== verification/S3_Objects.thy ===== *)
theory S3_Objects
  imports S3_Uploads Tools_Properties
begin

text \<open>
  What the S3 adapter needs of its backend, as a locale, and that the raw store provides it. The contract
  speaks about a map from paths to bodies and metadata bytes. The lemmas on the object handlers
  (put, get, delete, copy) are proved once in the locale.
\<close>

section \<open>The contract of a backend\<close>

type_synonym s3_map = "string \<rightharpoonup> byte list \<times> byte list"

text \<open>
  A file with the contents \<open>c\<close>, read with any fault: the query of its length may fail, reads come in any portions and may
  fail at any point. What they deliver before is the beginning of the contents, and only the end of the file ends them.
\<close>

definition reads_back :: "source_file \<Rightarrow> byte list \<Rightarrow> bool" where
  "reads_back f c \<longleftrightarrow> (sf_len f = None \<or> sf_len f = Some (length c)) \<and> prefix (delivered (sf_reads f)) c \<and>
     (\<forall>q. read_to_end (sf_reads f) = Inr q \<longrightarrow> q = c)"

definition split_meta :: "byte list \<Rightarrow> nat \<Rightarrow> byte list \<times> byte list" where
  "split_meta c ml = (take (length c - ml) c, drop (length c - ml) c)"

lemma split_meta_append [simp]: "split_meta (body @ meta) (length meta) = (body, meta)"
  by (simp add: split_meta_def)

locale object_backend =
  fixes B :: "('b, 'e) backend_ops" and holds :: "'b \<Rightarrow> s3_map \<Rightarrow> bool"
  assumes put_law: "holds b M \<Longrightarrow> length body + length meta < 2 ^ 63 \<Longrightarrow> bo_put_with_meta B now p body meta b = (r, b') \<Longrightarrow>
      holds b' (if is_ok r then M(p \<mapsto> (body, meta)) else M) \<and> (is_ok r \<longrightarrow> length meta < 2 ^ 16)"
    and put_file_law: "holds b M \<Longrightarrow> reads_back f c \<Longrightarrow> ml \<le> length c \<Longrightarrow> length c < 2 ^ 63 \<Longrightarrow> bo_put_from_file B now p f ml b = (r, b') \<Longrightarrow>
      holds b' (if is_ok r then M(p \<mapsto> split_meta c ml) else M)"
    and head_meta_law: "holds b M \<Longrightarrow> bo_head_with_meta B p b = (rh, b') \<Longrightarrow> holds b' M \<and>
      (case rh of
         Inl e \<Rightarrow> bo_not_found B e \<longleftrightarrow> M p = None
       | Inr (om, ml) \<Rightarrow> \<exists>body meta. M p = Some (body, meta) \<and> om_size om = length body \<and> ml = length meta)"
    and head_law: "holds b M \<Longrightarrow> bo_head B p b = (ro, b') \<Longrightarrow> holds b' M \<and> (case ro of Inl e \<Rightarrow> bo_not_found B e \<longrightarrow> M p = None | Inr _ \<Rightarrow> M p \<noteq> None)"
    and get_metadata_law: "holds b M \<Longrightarrow> bo_get_metadata B p b = (rm, b') \<Longrightarrow> holds b' M \<and>
      (case rm of Inl e \<Rightarrow> bo_not_found B e \<longrightarrow> M p = None | Inr meta \<Rightarrow> \<exists>body. M p = Some (body, meta))"
    and get_law: "holds b M \<Longrightarrow> bo_get B rng p b = (rg, b') \<Longrightarrow> holds b' M \<and>
      (case rg of
         Inl e \<Rightarrow> bo_not_found B e \<longrightarrow> M p = None
       | Inr (Inl _) \<Rightarrow> M p \<noteq> None
       | Inr (Inr d) \<Rightarrow> \<exists>body meta. M p = Some (body, meta) \<and>
           d = (case rng of None \<Rightarrow> body | Some r \<Rightarrow> (case resolve_range (length body) r of (st, en) \<Rightarrow> slice body st en)))"
    and delete_law: "holds b M \<Longrightarrow> bo_delete B p b = (rd, b') \<Longrightarrow>
      holds b' (if is_ok rd then M(p := None) else M) \<and> (\<forall>e. rd = Inl e \<and> bo_not_found B e \<longrightarrow> M p = None)"
    and sidecar_law: "holds b M \<Longrightarrow> holds (bo_delete_sidecar B p b) M"

section \<open>The raw store\<close>

definition raw_objects :: "'x store_env_scheme \<Rightarrow> inner \<Rightarrow> s3_map \<Rightarrow> bool" where
  "raw_objects X s M \<longleftrightarrow> lawful X \<and> stream_laws X \<and>
     (\<exists>de A. store_ok de s \<and> rep X s A \<and> (\<forall>k p ml. A k = Some (p, ml) \<longrightarrow> ml \<le> length p) \<and>
        M = (\<lambda>k. map_option (\<lambda>(p, ml). split_meta p ml) (A k)))"

lemma raw_objects_put:
  assumes "lawful X" "stream_laws X" "store_ok de s" "rep X s (A(k \<mapsto> (p, ml)))" "ml \<le> length p"
    "\<forall>k p ml. A k = Some (p, ml) \<longrightarrow> ml \<le> length p" "M = (\<lambda>k. map_option (\<lambda>(p, ml). split_meta p ml) (A k))"
  shows "raw_objects X s (M(k \<mapsto> split_meta p ml))"
  unfolding raw_objects_def using assms
  by (intro conjI exI [of _ de] exI [of _ "A(k \<mapsto> (p, ml))"]) (auto simp: fun_eq_iff)

lemma do_get_range_safe:
  assumes inv: "store_ok de s" and rep: "rep X s A" and A: "A k = Some (p, ml)" and range: "a \<le> b" "b \<le> length p"
    and run: "do_get_range X k a b s = Inr (q, e')"
  shows "q = slice p a b"
proof -
  obtain e where e: "hm_get (files_of s) k = Some e"
    using rep_None [OF rep, of k] A by (cases "hm_get (files_of s) k") auto
  have obj: "obj_ok X (in_compression s) (dev_data (in_io s)) e p"
    using rep_Some [OF rep e] A by (metis Pair_inject option.inject)
  show ?thesis
  proof (cases "ei_uncompressed_size e = 0")
    case plain: True
    show ?thesis
    proof (cases "a = b")
      case True
      then show ?thesis using do_get_range_empty(1) [OF inv e obj plain, of a q e'] run range by (simp add: slice_def)
    next
      case False
      then have "a < b" using range by simp
      from run [unfolded do_get_range_plain(1) [OF inv e obj plain this range(2)]] show ?thesis by (auto simp: bind_res_Inr_iff)
    qed
  next
    case comp: False
    then have u: "ei_uncompressed_size e = length p" using obj by (auto simp: obj_ok_def)
    have "length p \<le> COMPRESSED_RANGE_READ_MAX"
      using run e comp u by (auto simp: do_get_range_def lookup_info_def split: if_splits)
    then show ?thesis using do_get_range_compressed(1) [OF inv rep A e comp _ range run] by simp
  qed
qed

lemma raw_entry:
  assumes "rep X s A" and "hm_get (files_of s) k = Some e"
  obtains p where "A k = Some (p, ei_meta_len e)" and "logical_size e = length p"
proof -
  from rep_Some [OF assms] obtain p where p: "A k = Some (p, ei_meta_len e)" "obj_ok X (in_compression s) (dev_data (in_io s)) e p" .
  then have "logical_size e = length p" by (auto simp: obj_ok_def logical_size_def)
  with p that show ?thesis by blast
qed

lemma get_metadata_safe:
  assumes "store_ok de s" and "rep X s A" and "\<forall>k p ml. A k = Some (p, ml) \<longrightarrow> ml \<le> length p"
    and "get_metadata X k s = Inr meta"
  shows "\<exists>p ml. A k = Some (p, ml) \<and> meta = drop (length p - ml) p"
proof -
  from assms(4) obtain e where e: "hm_get (files_of s) k = Some e"
    by (auto simp: get_metadata_def lookup_info_def bind_res_Inr_iff split: option.splits)
  from raw_entry [OF assms(2) e] obtain p where p: "A k = Some (p, ei_meta_len e)" and l: "logical_size e = length p" .
  show ?thesis
  proof (cases "ei_meta_len e = 0")
    case True
    then show ?thesis using assms(4) e p by (auto simp: get_metadata_def lookup_info_def)
  next
    case False
    then obtain e' where "do_get_range X k (length p - ei_meta_len e) (length p) s = Inr (meta, e')"
      using assms(4) e l by (auto simp: get_metadata_def lookup_info_def bind_res_Inr_iff saturating_sub_def)
    from do_get_range_safe [OF assms(1,2) p _ _ this] show ?thesis using p by (auto simp: slice_def)
  qed
qed

lemma slice_take: "en \<le> n \<Longrightarrow> slice p st en = slice (take n p) st en"
  by (simp add: slice_def drop_take min_def)

lemma resolve_range_bounds: "resolve_range n r = (st, en) \<Longrightarrow> st \<le> en \<and> en \<le> n"
  by (cases r) (auto simp: Let_def saturating_sub_def)

lemma raw_get_range_safe:
  assumes "store_ok de s" and "rep X s A" and "\<forall>k p ml. A k = Some (p, ml) \<longrightarrow> ml \<le> length p"
    and "raw_get X (Some r) k s = Inr (d, om)"
  shows "\<exists>p ml st en. A k = Some (p, ml) \<and> resolve_range (length p - ml) r = (st, en) \<and> d = Inr (slice (take (length p - ml) p) st en)"
proof -
  from assms(4) obtain e where e: "hm_get (files_of s) k = Some e"
    by (auto simp: raw_get_def get_ranged_def bind_res_Inr_iff split: option.splits)
  from raw_entry [OF assms(2) e] obtain p where p: "A k = Some (p, ei_meta_len e)" and l: "logical_size e = length p" .
  obtain st en where r: "resolve_range (length p - ei_meta_len e) r = (st, en)" by fastforce
  from assms(4) e l r obtain q e' where q: "do_get_range X k st en s = Inr (q, e')" "d = Inr q"
    by (auto simp: raw_get_def get_ranged_def bind_res_Inr_iff saturating_sub_def map_os_def split: sum.splits)
  note b = resolve_range_bounds [OF r]
  have "q = slice p st en" using b by (intro do_get_range_safe [OF assms(1,2) p _ _ q(1)]) auto
  then show ?thesis using p r q(2) b slice_take [of en "length p - ei_meta_len e" p st] by auto
qed

lemma raw_lookup_None: "rep X s A \<Longrightarrow> lookup_info k s = Inl e \<longleftrightarrow> A k = None \<and> e = NotFound k"
  using rep_None [of X s A k] by (auto simp: lookup_info_def split: option.splits)

lemma raw_objects_cases:
  assumes "raw_objects X s M"
  obtains de A where "lawful X" "stream_laws X" "store_ok de s" "rep X s A" "\<forall>k p ml. A k = Some (p, ml) \<longrightarrow> ml \<le> length p"
    "M = (\<lambda>k. map_option (\<lambda>(p, ml). split_meta p ml) (A k))"
  using assms by (auto simp: raw_objects_def)

lemma raw_objects_after_put:
  assumes "raw_objects X s M" and "ml \<le> length c"
    and "\<And>de A. store_ok de s \<Longrightarrow> rep X s A \<Longrightarrow>
      store_ok de s' \<and> (case r of Inl e \<Rightarrow> rep X s' A | Inr _ \<Rightarrow> rep X s' (A(k \<mapsto> (c, ml))))"
  shows "raw_objects X s' (if is_ok r then M(k \<mapsto> split_meta c ml) else M)"
proof -
  from raw_objects_cases [OF assms(1)] obtain de A where A: "lawful X" "stream_laws X" "store_ok de s" "rep X s A"
    "\<forall>k p ml. A k = Some (p, ml) \<longrightarrow> ml \<le> length p" "M = (\<lambda>k. map_option (\<lambda>(p, ml). split_meta p ml) (A k))" .
  note sp = assms(3) [OF A(3,4)]
  show ?thesis
  proof (cases r)
    case (Inl e)
    then show ?thesis using sp A by (auto simp: raw_objects_def)
  next
    case (Inr u)
    then have "store_ok de s'" "rep X s' (A(k \<mapsto> (c, ml)))" using sp by simp_all
    from raw_objects_put [OF A(1,2) this assms(2) A(5,6)] show ?thesis using Inr by simp
  qed
qed

lemma raw_put_law:
  assumes "raw_objects X s M" and "length body + length meta < 2 ^ 63" and "put_with_meta X now p body meta s = (r, s')"
  shows "raw_objects X s' (if is_ok r then M(p \<mapsto> (body, meta)) else M)" and "is_ok r \<longrightarrow> length meta < 2 ^ 16"
proof -
  have l: "lawful X" using assms(1) by (simp add: raw_objects_def)
  show "is_ok r \<longrightarrow> length meta < 2 ^ 16"
    using assms(3) by (auto simp: put_with_meta_def split: if_splits)
  have "raw_objects X s' (if is_ok r then M(p \<mapsto> split_meta (body @ meta) (length meta)) else M)"
    using put_with_meta_spec [OF l _ assms(2,3)]
    by (intro raw_objects_after_put [OF assms(1)]) (auto split: sum.splits)
  then show "raw_objects X s' (if is_ok r then M(p \<mapsto> (body, meta)) else M)" unfolding split_meta_append .
qed

lemma raw_put_file_law:
  assumes "raw_objects X s M" and "reads_back f c" and "ml \<le> length c" and "length c < 2 ^ 63"
    and "put_with_meta_from_file X now p f ml s = (r, s')"
  shows "raw_objects X s' (if is_ok r then M(p \<mapsto> split_meta c ml) else M)"
proof (rule raw_objects_after_put [OF assms(1,3)])
  fix de A
  assume inv: "store_ok de s" and rep: "rep X s A"
  have laws: "crc_laws X" "codec_laws X" using assms(1) by (simp_all add: raw_objects_def lawful_def)
  have f: "prefix (delivered (sf_reads f)) c" "\<And>q. read_to_end (sf_reads f) = Inr q \<Longrightarrow> q = c" using assms(2) by (simp_all add: reads_back_def)
  show "store_ok de s' \<and> (case r of Inl e \<Rightarrow> rep X s' A | Inr _ \<Rightarrow> rep X s' (A(p \<mapsto> (c, ml))))"
  proof (cases "sf_len f")
    case (Some n)
    then have n: "n = length c" using assms(2) by (simp add: reads_back_def)
    note sp = put_from_file_spec [OF laws inv rep Some _ _ _ assms(5)]
    have po: "put_outcome X de p (delivered (sf_reads f), ml) A s r s'"
      using f n assms(4) by (intro sp(1)) (auto dest: prefix_length_le)
    moreover have "is_ok r \<Longrightarrow> read_to_end (sf_reads f) = Inr (delivered (sf_reads f))"
      using f n assms(4) by (intro sp(2)) (auto dest: prefix_length_le)
    then have "is_ok r \<Longrightarrow> delivered (sf_reads f) = c" using f(2) by blast
    ultimately show ?thesis by (cases r) (simp_all add: put_outcome_def)
  next
    case None
    show ?thesis
    proof (cases "in_compression s \<noteq> CNone \<and> (\<exists>q. read_to_end (sf_reads f) = Inr q)")
      case True
      then have "do_put_with_meta X now p c ml s = (r, s')"
        using f(2) assms(5) by (auto simp: put_with_meta_from_file_def)
      from do_put_spec [OF laws inv assms(4) this] show ?thesis using rep by (auto split: sum.splits)
    next
      case False
      then have "\<exists>e. r = Inl e \<and> s' = s"
        using assms(5) None by (auto simp: put_with_meta_from_file_def split: if_splits sum.splits)
      then show ?thesis using inv rep by auto
    qed
  qed
qed

lemma raw_head_meta_law:
  assumes "raw_objects X s M"
  shows "case head_with_meta p s of
      Inl e \<Rightarrow> e = NotFound p \<and> M p = None
    | Inr (om, ml) \<Rightarrow> \<exists>body meta. M p = Some (body, meta) \<and> om_size om = length body \<and> ml = length meta"
proof -
  from raw_objects_cases [OF assms] obtain A where A: "rep X s A" "\<forall>k p ml. A k = Some (p, ml) \<longrightarrow> ml \<le> length p"
    "M = (\<lambda>k. map_option (\<lambda>(p, ml). split_meta p ml) (A k))" by metis
  show ?thesis
  proof (cases "lookup_info p s")
    case (Inl e)
    then have "A p = None" "e = NotFound p" using raw_lookup_None [OF A(1)] by simp_all
    then show ?thesis using Inl A(3) by (simp add: head_with_meta_def)
  next
    case (Inr e)
    then have e: "hm_get (files_of s) p = Some e" by (auto simp: lookup_info_def split: option.splits)
    from raw_entry [OF A(1) e] obtain q where q: "A p = Some (q, ei_meta_len e)" "logical_size e = length q" .
    then have "ei_meta_len e \<le> length q" using A(2) by blast
    then show ?thesis using q Inr A(3) by (simp add: head_with_meta_def meta_for_def saturating_sub_def split_meta_def)
  qed
qed

text \<open>Reading an entry that exists never fails with \<open>NotFound\<close>.\<close>

lemma bind_res_Inl_iff: "bind_res r f = Inl e \<longleftrightarrow> r = Inl e \<or> (\<exists>x. r = Inr x \<and> f x = Inl e)"
  by (cases r) auto

definition no_nf :: "'a result \<Rightarrow> bool" where
  "no_nf r \<longleftrightarrow> (\<forall>k. r \<noteq> Inl (NotFound k))"

lemma no_nf_intros:
  "no_nf (Inr x)" "no_nf r \<Longrightarrow> (\<And>x. no_nf (f x)) \<Longrightarrow> no_nf (bind_res r f)" "no_nf r \<Longrightarrow> no_nf (name_corruption k r)"
  "no_nf (checked_or m v)" "no_nf (decompress X c d)" "no_nf (verify_block_crc X b n)" "no_nf (pread dev off len)"
proof -
  show "no_nf r \<Longrightarrow> no_nf (name_corruption k r)" by (cases "(k, r)" rule: name_corruption.cases) (auto simp: no_nf_def)
  show "no_nf (pread dev off len)"
    by (auto simp: no_nf_def pread_def read_exact_at_def aligned_buf_def bind_res_Inl_iff split: option.splits sum.splits if_splits)
qed (auto simp: no_nf_def bind_res_Inl_iff checked_or_def decompress_def verify_block_crc_def Let_def split: option.splits sum.splits compression.splits)

lemma decode_loop_nf: "no_nf (decode_loop X raw n len is acc)"
  by (induction "is" arbitrary: acc) (simp_all add: no_nf_intros)

lemma decode_range_loop_nf: "no_nf (decode_range_loop X raw n a b is acc)"
  by (induction "is" arbitrary: acc) (simp_all add: no_nf_intros)

lemma read_batches_nf: "no_nf (read_batches X dev off len n i acc)"
proof (induction X dev off len n i acc rule: read_batches.induct)
  case (1 X dev off len n i acc)
  then show ?case
    by (subst read_batches.simps) (auto simp: Let_def intro!: no_nf_intros decode_loop_nf)
qed

lemma do_get_nf: "hm_get (files_of s) k = Some e \<Longrightarrow> no_nf (do_get X k s)"
  unfolding do_get_def lookup_info_def read_and_decode_batched_def
  by (auto intro!: no_nf_intros read_batches_nf split: if_splits)

lemma do_get_range_nf: "hm_get (files_of s) k = Some e \<Longrightarrow> no_nf (do_get_range X k a b s)"
  using do_get_nf [of s k e X] decode_range_loop_nf
  unfolding do_get_range_def decode_block_range_def lookup_info_def
  by (auto simp: Let_def no_nf_def [of "Inl (Io _)"] intro!: no_nf_intros split: prod.splits)

lemma map_os_nf: "no_nf r \<Longrightarrow> map_os r \<noteq> Inl (OsNotFound a b)"
  by (cases r) (auto simp: no_nf_def map_os_def elim: to_os_error.elims)

lemma raw_get_nf:
  assumes "hm_get (files_of s) k = Some e" shows "raw_get X rng k s \<noteq> Inl (OsNotFound a b)"
proof (cases rng)
  case None
  have "map_os (name_corruption k (read_and_decode_batched X (in_io s) (ei_offset e) (ei_size e))) \<noteq> Inl (OsNotFound a b)"
    unfolding read_and_decode_batched_def by (intro map_os_nf no_nf_intros read_batches_nf)
  moreover have "map_os (decompress X c d) \<noteq> Inl (OsNotFound a b)" for c d by (intro map_os_nf no_nf_intros)
  ultimately show ?thesis
    using assms None by (auto simp: raw_get_def full_body_def Let_def bind_res_Inl_iff split: sum.splits if_splits)
next
  case (Some r)
  then show ?thesis
    using assms map_os_nf [OF do_get_range_nf [OF assms, of X]]
    by (auto simp: raw_get_def get_ranged_def bind_res_Inl_iff split: sum.splits prod.splits)
qed

lemma raw_get_metadata_law:
  assumes "raw_objects X s M"
  shows "case get_metadata X p s of Inl e \<Rightarrow> (\<exists>k. e = NotFound k) \<longrightarrow> M p = None | Inr meta \<Rightarrow> \<exists>body. M p = Some (body, meta)"
proof -
  from raw_objects_cases [OF assms] obtain de A where A: "store_ok de s" "rep X s A" "\<forall>k p ml. A k = Some (p, ml) \<longrightarrow> ml \<le> length p"
    "M = (\<lambda>k. map_option (\<lambda>(p, ml). split_meta p ml) (A k))" by metis
  show ?thesis
  proof (cases "hm_get (files_of s) p")
    case None
    then have "A p = None" using rep_None [OF A(2)] by simp
    then show ?thesis using None A(4) by (simp add: get_metadata_def lookup_info_def)
  next
    case (Some e)
    have "no_nf (get_metadata X p s)"
      unfolding get_metadata_def lookup_info_def using Some do_get_range_nf [OF Some, of X] by (auto intro!: no_nf_intros)
    then show ?thesis
      using get_metadata_safe [OF A(1-3), of p] A(4) by (auto simp: no_nf_def split_meta_def split: sum.splits)
  qed
qed

lemma raw_get_law:
  assumes "raw_objects X s M"
  shows "case raw_get X rng p s of
      Inl e \<Rightarrow> (\<exists>a b. e = OsNotFound a b) \<longrightarrow> M p = None
    | Inr (Inl _, _) \<Rightarrow> M p \<noteq> None
    | Inr (Inr d, _) \<Rightarrow> \<exists>body meta. M p = Some (body, meta) \<and>
        d = (case rng of None \<Rightarrow> body | Some r \<Rightarrow> (case resolve_range (length body) r of (st, en) \<Rightarrow> slice body st en))"
proof -
  from raw_objects_cases [OF assms] obtain de A where A: "stream_laws X" "store_ok de s" "rep X s A"
    "\<forall>k p ml. A k = Some (p, ml) \<longrightarrow> ml \<le> length p" "M = (\<lambda>k. map_option (\<lambda>(p, ml). split_meta p ml) (A k))" by metis
  have Mp: "M p = None \<longleftrightarrow> hm_get (files_of s) p = None" using rep_None [OF A(3), of p] A(5) by simp
  show ?thesis
  proof (cases "raw_get X rng p s")
    case (Inl e)
    then show ?thesis using raw_get_nf [of s p _ X rng] Mp by (cases "hm_get (files_of s) p") auto
  next
    case (Inr x)
    obtain d om where x: "x = (d, om)" by fastforce
    show ?thesis
    proof (cases rng)
      case None
      with Inr x have "M p \<noteq> None" by (auto simp: Mp raw_get_def split: option.splits)
      moreover have "\<exists>meta. M p = Some (b, meta)" if "d = Inr b" for b
        using raw_get_full [OF A(1-3), of p b om] None Inr x that A(5) by (auto simp: bodies_def split_meta_def)
      ultimately show ?thesis using Inr x None by (auto split: sum.splits)
    next
      case (Some r)
      from raw_get_range_safe [OF A(2-4) Inr [unfolded x Some]] obtain q ml st en where
        q: "A p = Some (q, ml)" "resolve_range (length q - ml) r = (st, en)" "d = Inr (slice (take (length q - ml) q) st en)" by blast
      then show ?thesis using Inr x Some A(5) by (simp add: split_meta_def)
    qed
  qed
qed

lemma raw_delete_law:
  assumes "raw_objects X s M" and "delete_object X p s = (r, s')"
  shows "raw_objects X s' (if is_ok r then M(p := None) else M)" and "r \<noteq> Inl (OsNotFound a b)"
proof -
  from raw_objects_cases [OF assms(1)] obtain de A where A: "lawful X" "stream_laws X" "store_ok de s" "rep X s A"
    "\<forall>k p ml. A k = Some (p, ml) \<longrightarrow> ml \<le> length p" "M = (\<lambda>k. map_option (\<lambda>(p, ml). split_meta p ml) (A k))" .
  note sp = delete_object_spec [OF A(3) assms(2)]
  show "raw_objects X s' (if is_ok r then M(p := None) else M)"
  proof (cases r)
    case (Inl e)
    then show ?thesis using sp assms(1) by simp
  next
    case (Inr u)
    then have "store_ok de s'" "rep X s' (A(p := None))" using sp A(4) by simp_all
    then have "raw_objects X s' (M(p := None))"
      unfolding raw_objects_def using A
      by (intro conjI exI [of _ de] exI [of _ "A(p := None)"]) (auto simp: fun_eq_iff)
    then show ?thesis using Inr by simp
  qed
  show "r \<noteq> Inl (OsNotFound a b)" using assms(2) by (auto simp: delete_object_def split: if_splits)
qed

lemma is_ok_wrap [simp]: "is_ok (wrap_err f r) = is_ok r"
  by (cases r) (simp_all add: wrap_err_def)

interpretation raw_objs: object_backend "raw_backend X P" "raw_objects X"
proof
  fix b M p b' and rh :: "raw_backend_error + object_meta \<times> nat"
  assume "raw_objects X b M" and "bo_head_with_meta (raw_backend X P) p b = (rh, b')"
  then show "raw_objects X b' M \<and> (case rh of
       Inl e \<Rightarrow> bo_not_found (raw_backend X P) e \<longleftrightarrow> M p = None
     | Inr (om, ml) \<Rightarrow> \<exists>body meta. M p = Some (body, meta) \<and> om_size om = length body \<and> ml = length meta)"
    using raw_head_meta_law [of X b M p] by (auto simp: raw_backend_def wrap_err_def split: sum.splits)
next
  fix b M p b' and ro :: "raw_backend_error + object_meta"
  assume "raw_objects X b M" and "bo_head (raw_backend X P) p b = (ro, b')"
  then show "raw_objects X b' M \<and> (case ro of Inl e \<Rightarrow> bo_not_found (raw_backend X P) e \<longrightarrow> M p = None | Inr _ \<Rightarrow> M p \<noteq> None)"
    using raw_get_law [of X b M p None] by (auto simp: raw_backend_def wrap_err_def split: sum.splits os_error.splits)
next
  fix b M p b' and rm :: "raw_backend_error + byte list"
  assume "raw_objects X b M" and "bo_get_metadata (raw_backend X P) p b = (rm, b')"
  then show "raw_objects X b' M \<and> (case rm of Inl e \<Rightarrow> bo_not_found (raw_backend X P) e \<longrightarrow> M p = None
     | Inr meta \<Rightarrow> \<exists>body. M p = Some (body, meta))"
    using raw_get_metadata_law [of X b M p] by (auto simp: raw_backend_def wrap_err_def split: sum.splits raw_store_error.splits)
next
  fix b M rng p b' and rg :: "raw_backend_error + raw_backend_error + byte list"
  assume "raw_objects X b M" and "bo_get (raw_backend X P) rng p b = (rg, b')"
  then show "raw_objects X b' M \<and> (case rg of
         Inl e \<Rightarrow> bo_not_found (raw_backend X P) e \<longrightarrow> M p = None
       | Inr (Inl _) \<Rightarrow> M p \<noteq> None
       | Inr (Inr d) \<Rightarrow> \<exists>body meta. M p = Some (body, meta) \<and>
           d = (case rng of None \<Rightarrow> body | Some r \<Rightarrow> (case resolve_range (length body) r of (st, en) \<Rightarrow> slice body st en)))"
    using raw_get_law [of X b M p rng] by (auto simp: raw_backend_def wrap_err_def split: sum.splits os_error.splits)
next
  fix b M p b' and rd :: "raw_backend_error + unit"
  assume h: "raw_objects X b M" and "bo_delete (raw_backend X P) p b = (rd, b')"
  then obtain r0 where r0: "delete_object X p b = (r0, b')" "rd = wrap_err RbOs r0"
    by (auto simp: raw_backend_def split: prod.splits)
  show "raw_objects X b' (if is_ok rd then M(p := None) else M) \<and>
      (\<forall>e. rd = Inl e \<and> bo_not_found (raw_backend X P) e \<longrightarrow> M p = None)"
    using raw_delete_law [OF h r0(1)] by (auto simp: r0(2) wrap_err_def raw_backend_def split: sum.splits os_error.splits)
next
  fix b M body meta now p b' and r :: "raw_backend_error + unit"
  assume h: "raw_objects X b M" "length body + length (meta :: byte list) < 2 ^ 63"
    and "bo_put_with_meta (raw_backend X P) now p body meta b = (r, b')"
  then obtain r0 where r0: "put_with_meta X now p body meta b = (r0, b')" "r = wrap_err RbRaw r0"
    by (auto simp: raw_backend_def split: prod.splits)
  show "raw_objects X b' (if is_ok r then M(p \<mapsto> (body, meta)) else M) \<and> (is_ok r \<longrightarrow> length meta < 2 ^ 16)"
    using raw_put_law [OF h r0(1)] by (simp add: r0(2))
next
  fix b M f c ml now p b' and r :: "raw_backend_error + unit"
  assume h: "raw_objects X b M" "reads_back f c" "ml \<le> length c" "length c < 2 ^ 63"
    and "bo_put_from_file (raw_backend X P) now p f ml b = (r, b')"
  then obtain r0 where r0: "put_with_meta_from_file X now p f ml b = (r0, b')" "r = wrap_err RbRaw r0"
    by (auto simp: raw_backend_def split: prod.splits)
  show "raw_objects X b' (if is_ok r then M(p \<mapsto> split_meta c ml) else M)"
    using raw_put_file_law [OF h r0(1)] by (simp add: r0(2))
qed (simp add: raw_backend_def)

end
