(* ===== verification/S3_Requests.thy ===== *)
theory S3_Requests
  imports S3_Objects
begin

text \<open>
  The object handlers of the S3 adapter on any backend that satisfies the contract: what a put, a get, a delete
  and a copy do to the map of objects, and what they answer.
\<close>

section \<open>Sequencing\<close>

lemma and_then_iff: "and_then m f = (r, s') \<longleftrightarrow>
    (\<exists>e. m = (Inl e, s') \<and> r = Inl e) \<or> (\<exists>x s1. m = (Inr x, s1) \<and> f x s1 = (r, s'))"
  by (cases m; cases "fst m") (auto simp: and_then_def)

lemma check_iff: "check c f s = (r, s') \<longleftrightarrow> (\<exists>e. c = Inl e \<and> r = Inl e \<and> s' = s) \<or> (c = Inr () \<and> f s = (r, s'))"
  by (cases c) (auto simp: check_def)

lemma backend_call_iff: "backend_call err f s = (r, s') \<longleftrightarrow>
    (\<exists>r0 b. f (ad_backend s) = (r0, b) \<and> r = wrap_err err r0 \<and> s' = s\<lparr>ad_backend := b\<rparr>)"
  by (cases "f (ad_backend s)") (auto simp: backend_call_def on_backend_def)

lemma wrap_err_iff:
  "wrap_err f r = Inr x \<longleftrightarrow> r = Inr x" "wrap_err f r = Inl e \<longleftrightarrow> (\<exists>e0. r = Inl e0 \<and> e = f e0)"
  "Inr x = wrap_err f r \<longleftrightarrow> r = Inr x" "Inl e = wrap_err f r \<longleftrightarrow> (\<exists>e0. r = Inl e0 \<and> e = f e0)"
  by (cases r; auto simp: wrap_err_def)+

lemmas handler_iffs = and_then_iff check_iff backend_call_iff wrap_err_iff

lemmas handler_defs = and_then_def check_def backend_call_def on_backend_def wrap_err_def

lemma invalidate_stats_fields [simp]:
  "ad_backend (invalidate_stats bucket s) = ad_backend s" "ad_uploads (invalidate_stats bucket s) = ad_uploads s"
  "ad_temps (invalidate_stats bucket s) = ad_temps s" "ad_buckets (invalidate_stats bucket s) = ad_buckets s"
  "ad_upload_expiry (invalidate_stats bucket s) = ad_upload_expiry s"
  by (simp_all add: invalidate_stats_def)

section \<open>Bodies and metadata\<close>

lemma spool_collect: "spool_body io limit body w acc = (Inr w', data) \<Longrightarrow> \<exists>d. collect_body body = Inr d \<and> data = acc @ d"
  by (induction io limit body w acc rule: spool_body.induct) (auto split: if_splits)

text \<open>The metadata bytes that a request stores for a body.\<close>

definition stored_meta :: "s3_env \<Rightarrow> (string, string) hashmap \<Rightarrow> byte list \<Rightarrow> byte list option" where
  "stored_meta E meta data = (case encode_metadata (hm_insert ''etag'' (se_md5 E data) meta) of Inr mb \<Rightarrow> Some mb | Inl _ \<Rightarrow> None)"

definition meta_fits :: "s3_env \<Rightarrow> (string, string) hashmap \<Rightarrow> bool" where
  "meta_fits E meta \<longleftrightarrow> (\<forall>data mb. stored_meta E meta data = Some mb \<longrightarrow> length mb < 2 ^ 62)"

text \<open>
  The object that a body and its metadata become on the way through a temporary file, where the length of the metadata is cut
  to 16 bits: below 64 KiB they are kept as they are, otherwise the head of the metadata ends up in the body.
\<close>

definition spooled :: "byte list \<Rightarrow> byte list \<Rightarrow> byte list \<times> byte list" where
  "spooled data mb = split_meta (data @ mb) (length mb mod 2 ^ 16)"

lemma spooled_small: "length mb < 2 ^ 16 \<Longrightarrow> spooled data mb = (data, mb)"
  by (simp add: spooled_def)

text \<open>The temporary file keeps what was written to it, as nothing else changes it; reading it back may fail.\<close>

definition private_temp :: "req_io \<Rightarrow> bool" where
  "private_temp io \<longleftrightarrow> (\<forall>c. reads_back (ri_source io c) c)"

lemma append_metadata_ok:
  assumes "append_metadata io (hm_insert ''etag'' (se_md5 E data) meta) w data = Inr (f, ml)" and "meta_fits E meta" and "private_temp io"
  obtains mb where "stored_meta E meta data = Some mb" and "reads_back f (data @ mb)" and "ml = length mb mod 2 ^ 16" and "length mb < 2 ^ 62"
proof -
  from assms(1) obtain mb where mb: "encode_metadata (hm_insert ''etag'' (se_md5 E data) meta) = Inr mb"
    "f = ri_source io (data @ mb)" "ml = length mb mod 2 ^ 16"
    by (auto simp: append_metadata_def split: sum.splits if_splits)
  then have "stored_meta E meta data = Some mb" by (simp add: stored_meta_def)
  with assms(2) have "length mb < 2 ^ 62" by (auto simp: meta_fits_def)
  with mb assms(3) that [of mb] \<open>stored_meta E meta data = Some mb\<close> show ?thesis by (simp add: private_temp_def)
qed

definition body_fits :: "body_stream option \<Rightarrow> bool" where
  "body_fits body \<longleftrightarrow> (\<forall>data. collect_body (case body of Some b \<Rightarrow> b | None \<Rightarrow> []) = Inr data \<longrightarrow> length data < 2 ^ 62)"

definition body_of :: "body_stream option \<Rightarrow> byte list option" where
  "body_of body = (case collect_body (case body of Some b \<Rightarrow> b | None \<Rightarrow> []) of Inr data \<Rightarrow> Some data | Inl _ \<Rightarrow> None)"

section \<open>Put\<close>

text \<open>After a request the objects are \<open>M\<close>, and the uploads and buckets are what they were.\<close>

definition becomes :: "('b \<Rightarrow> s3_map \<Rightarrow> bool) \<Rightarrow> s3_map \<Rightarrow> 'b adapter \<Rightarrow> 'b adapter \<Rightarrow> bool" where
  "becomes holds M s s' \<longleftrightarrow> holds (ad_backend s') M \<and> ad_uploads s' = ad_uploads s \<and> ad_temps s' = ad_temps s \<and>
     ad_buckets s' = ad_buckets s \<and> ad_upload_expiry s' = ad_upload_expiry s"

context object_backend
begin

lemma put_small_spec:
  assumes "holds (ad_backend s) M" and "meta_fits E meta" and "length data < 2 ^ 62" and "put_small E B io inp meta data s = (r, s')"
  shows "case r of
      Inl e \<Rightarrow> becomes holds M s s'
    | Inr md5 \<Rightarrow> md5 = se_md5 E data \<and> (\<exists>mb. stored_meta E meta data = Some mb \<and>
        becomes holds (M(obj_key E (po_bucket inp) (po_key inp) \<mapsto> spooled data mb)) s s')"
proof (cases "encode_metadata (hm_insert ''etag'' (se_md5 E data) meta)")
  case (Inl e)
  then show ?thesis using assms by (auto simp: put_small_def becomes_def)
next
  case (Inr mb)
  then have mb: "stored_meta E meta data = Some mb" by (simp add: stored_meta_def)
  then have "length mb < 2 ^ 62" using assms(2) by (auto simp: meta_fits_def)
  then have "length data + length mb < 2 ^ 63" using assms(3) by simp
  note law = put_law [OF assms(1) this, of "ri_now io" "obj_key E (po_bucket inp) (po_key inp)"]
  from assms(4) Inr obtain r0 b where
    r0: "bo_put_with_meta B (ri_now io) (obj_key E (po_bucket inp) (po_key inp)) data mb (ad_backend s) = (r0, b)" and
    cs: "(\<exists>e. r0 = Inl e \<and> r = Inl S3InternalError \<and> s' = s\<lparr>ad_backend := b\<rparr>) \<or>
      (r0 = Inr () \<and> r = Inr (se_md5 E data) \<and> s' = invalidate_stats (po_bucket inp) (s\<lparr>ad_backend := b\<rparr>))"
    by (auto simp: put_small_def handler_iffs internal_def Let_def)
  show ?thesis using cs law [OF r0] mb spooled_small [of mb data] by (auto simp: becomes_def)
qed

lemma put_large_spec:
  assumes "holds (ad_backend s) M" and "meta_fits E meta" and "body_fits (Some body)" and "private_temp io"
    and "put_large E B io inp meta body s = (r, s')"
  shows "case r of
      Inl e \<Rightarrow> becomes holds M s s'
    | Inr md5 \<Rightarrow> \<exists>data mb. collect_body body = Inr data \<and> md5 = se_md5 E data \<and> stored_meta E meta data = Some mb \<and>
        becomes holds (M(obj_key E (po_bucket inp) (po_key inp) \<mapsto> spooled data mb)) s s'"
proof (cases "\<exists>e. r = Inl e \<and> s' = s")
  case True
  then show ?thesis using assms(1) by (auto simp: becomes_def)
next
  case False
  with assms(5) obtain w data where sp: "spool_body io (ad_max_body_size s) body 0 [] = (Inr w, data)"
    by (auto simp: put_large_def split: if_splits prod.splits sum.splits)
  with False assms(5) obtain f ml where ap: "append_metadata io (hm_insert ''etag'' (se_md5 E data) meta) w data = Inr (f, ml)"
    by (auto simp: put_large_def Let_def split: if_splits sum.splits)
  from append_metadata_ok [OF ap assms(2,4)] obtain mb where
    mb: "stored_meta E meta data = Some mb" "reads_back f (data @ mb)" "ml = length mb mod 2 ^ 16" "length mb < 2 ^ 62" .
  have data: "collect_body body = Inr data" using spool_collect [OF sp] by simp
  then have "length data < 2 ^ 62" using assms(3) by (simp add: body_fits_def)
  then have len: "ml \<le> length (data @ mb)" "length (data @ mb) < 2 ^ 63"
    using mb mod_less_eq_dividend [of "length mb" "2 ^ 16"] by (simp_all add: trans_le_add2)
  note law = put_file_law [OF assms(1) mb(2) len, of "ri_now io" "obj_key E (po_bucket inp) (po_key inp)"]
  from assms(5) False sp ap obtain r0 b where
    r0: "bo_put_from_file B (ri_now io) (obj_key E (po_bucket inp) (po_key inp)) f ml (ad_backend s) = (r0, b)" and
    cs: "(\<exists>e. r0 = Inl e \<and> r = Inl S3InternalError \<and> s' = s\<lparr>ad_backend := b\<rparr>) \<or>
      (r0 = Inr () \<and> r = Inr (se_md5 E data) \<and> s' = invalidate_stats (po_bucket inp) (s\<lparr>ad_backend := b\<rparr>))"
    by (auto simp: put_large_def handler_iffs internal_def Let_def split: if_splits)
  show ?thesis using cs law [OF r0] mb data by (auto simp: becomes_def spooled_def)
qed

lemma put_object_spec:
  assumes "holds (ad_backend s) M" and "meta_fits E (build_s3_metadata E (po_headers inp))" and "body_fits (po_body inp)" and "private_temp io"
    and "s3_put_object E B io inp s = (r, s')"
  shows "case r of
      Inl e \<Rightarrow> becomes holds M s s'
    | Inr md5 \<Rightarrow> \<exists>data mb. body_of (po_body inp) = Some data \<and> md5 = se_md5 E data \<and>
        stored_meta E (build_s3_metadata E (po_headers inp)) data = Some mb \<and>
        becomes holds (M(obj_key E (po_bucket inp) (po_key inp) \<mapsto> spooled data mb)) s s'"
proof (cases "\<exists>e. r = Inl e \<and> s' = s")
  case True
  then show ?thesis using assms(1) by (auto simp: becomes_def)
next
  case False
  let ?m = "build_s3_metadata E (po_headers inp)"
  from assms(5) False consider
      (small) data where "body_of (po_body inp) = Some data" "put_small E B io inp ?m data s = (r, s')"
    | (large) body where "po_body inp = Some body" "put_large E B io inp ?m body s = (r, s')"
    by (auto simp: s3_put_object_def check_iff Let_def body_of_def split: if_splits option.splits sum.splits)
  then show ?thesis
  proof cases
    case small
    have "length data < 2 ^ 62" using small(1) assms(3) by (auto simp: body_of_def body_fits_def split: sum.splits)
    from put_small_spec [OF assms(1,2) this small(2)] small(1) show ?thesis by (auto split: sum.splits)
  next
    case large
    have "body_fits (Some body)" using large(1) assms(3) by simp
    from put_large_spec [OF assms(1,2) this assms(4) large(2)] large(1) show ?thesis by (auto simp: body_of_def split: sum.splits)
  qed
qed

end

section \<open>Get\<close>

text \<open>The part of the handler after the lookup of the object and its metadata.\<close>

definition get_tail ::
  "s3_env \<Rightarrow> ('b, 'e) backend_ops \<Rightarrow> get_input \<Rightarrow> string \<Rightarrow> nat \<Rightarrow> int \<Rightarrow> byte list \<Rightarrow> ('b, 'e get_output) handler" where
  "get_tail E B inp p n t mb s =
     (case check_conditions E inp (n) t (decode_metadata mb) of
        Inl e \<Rightarrow> (Inl e, s)
      | Inr e_tag \<Rightarrow>
          (case gi_range inp of
             Some r \<Rightarrow>
               (case range_bounds (n) r of (st, en) \<Rightarrow>
                  and_then
                    (if en > st then
                       and_then (backend_call internal (bo_get B (Some (Bounded st en)) p) s) (\<lambda>body s3. (wrap_err internal body, s3))
                     else (Inr [], s))
                    (\<lambda>bytes s3. (Inr \<lparr>gt_body = Inr bytes, gt_content_length = as_i64 (usub en st),
                       gt_content_range = Some (content_range_text st en (n)), gt_headers = headers_of_meta E (decode_metadata mb),
                       gt_last_modified = t, gt_e_tag = e_tag\<rparr>, s3)))
           | None \<Rightarrow>
               and_then (backend_call internal (bo_get B None p) s) (\<lambda>d s3.
                 (Inr \<lparr>gt_body = d, gt_content_length = as_i64 (n), gt_content_range = None,
                    gt_headers = headers_of_meta E (decode_metadata mb), gt_last_modified = t, gt_e_tag = e_tag\<rparr>, s3))))"

text \<open>What a successful get says about the stored object.\<close>

definition answers :: "s3_env \<Rightarrow> get_input \<Rightarrow> byte list \<times> byte list \<Rightarrow> 'e get_output \<Rightarrow> bool" where
  "answers E inp v out \<longleftrightarrow>
     (case v of (body, mb) \<Rightarrow>
        check_conditions E inp (length body) (gt_last_modified out) (decode_metadata mb) = Inr (gt_e_tag out) \<and>
        gt_headers out = headers_of_meta E (decode_metadata mb) \<and>
        (case gi_range inp of
           None \<Rightarrow> gt_content_length out = as_i64 (length body) \<and> gt_content_range out = None \<and> (\<forall>d. gt_body out = Inr d \<longrightarrow> d = body)
         | Some r \<Rightarrow> (case range_bounds (length body) r of (st, en) \<Rightarrow>
             gt_body out = Inr (slice body st en) \<and> gt_content_length out = as_i64 (usub en st) \<and>
             gt_content_range out = Some (content_range_text st en (length body)))))"

lemma decode_metadata_Nil [simp]: "decode_metadata [] = []"
  by (simp add: decode_metadata_def)

lemma decode_or_empty: "(if data \<noteq> [] then decode_metadata data else []) = decode_metadata data"
  by simp

lemma range_bounds_le: "range_bounds n r = (st, en) \<Longrightarrow> en \<le> n"
  by (auto simp: range_bounds_def split: s3_range.splits)

lemma validate_key_error: "validate_key key = Inl e \<Longrightarrow> e = S3InvalidArgument"
  by (auto simp: validate_key_def split: if_splits)

lemma ensure_bucket_error: "ensure_bucket bucket s = Inl e \<Longrightarrow> e = S3NoSuchBucket"
  by (auto simp: ensure_bucket_def split: if_splits)

lemma check_conditions_error: "check_conditions E inp n t m = Inl e \<Longrightarrow> e \<noteq> S3NoSuchKey"
  by (auto simp: check_conditions_def not_modified_def Let_def split: if_splits)

lemma becomes_backend: "holds b M \<Longrightarrow> becomes holds M s (s\<lparr>ad_backend := b\<rparr>)"
  by (simp add: becomes_def)

context object_backend
begin

text \<open>The read of a range of a known object, and of the whole body.\<close>

lemma range_read:
  assumes h: "holds (ad_backend s) M" and M: "M p = Some (body, mb)" and rb: "range_bounds (length body) rg = (st, en)"
    and run: "(if en > st then and_then (backend_call internal (bo_get B (Some (Bounded st en)) p) s) (\<lambda>body s3. (wrap_err internal body, s3))
               else (Inr [], s)) = (r, s')"
  shows "becomes holds M s s' \<and> (\<forall>e. r = Inl e \<longrightarrow> e = S3InternalError) \<and> (\<forall>d. r = Inr d \<longrightarrow> d = slice body st en)"
proof (cases "en > st")
  case False
  then show ?thesis using run h by (auto simp: becomes_def slice_def)
next
  case True
  obtain r0 b where g: "bo_get B (Some (Bounded st en)) p (ad_backend s) = (r0, b)" by fastforce
  have rr: "resolve_range (length body) (Bounded st en) = (st, en)" using True range_bounds_le [OF rb] by (simp add: Let_def min_def)
  note law = get_law [OF h g]
  show ?thesis
    using run True g law M rr by (cases r0; cases "projr r0") (auto simp: handler_iffs internal_def becomes_def split: sum.splits)
qed

lemma get_tail_spec:
  assumes h: "holds (ad_backend s) M" and M: "M p = Some (body, mb)" and run: "get_tail E B inp p (length body) t mb s = (r, s')"
  shows "becomes holds M s s' \<and> (case r of Inr out \<Rightarrow> answers E inp (body, mb) out | Inl e \<Rightarrow> e \<noteq> S3NoSuchKey)"
proof (cases "check_conditions E inp (length body) t (decode_metadata mb)")
  case (Inl e)
  then show ?thesis using run h check_conditions_error by (auto simp: get_tail_def becomes_def)
next
  case (Inr tag)
  show ?thesis
  proof (cases "gi_range inp")
    case None
    obtain r0 b where g: "bo_get B None p (ad_backend s) = (r0, b)" by fastforce
    from get_law [OF h g] show ?thesis
      using run Inr None g M by (auto simp: get_tail_def handler_iffs internal_def becomes_def answers_def split: sum.splits)
  next
    case (Some rg)
    obtain st en where rb: "range_bounds (length body) rg = (st, en)" by fastforce
    obtain r0 s0 where rd: "(if en > st then and_then (backend_call internal (bo_get B (Some (Bounded st en)) p) s) (\<lambda>body s3. (wrap_err internal body, s3))
        else (Inr [], s)) = (r0, s0)" by fastforce
    have "get_tail E B inp p (length body) t mb s = and_then (r0, s0) (\<lambda>bytes s3.
        (Inr \<lparr>gt_body = Inr bytes, gt_content_length = as_i64 (usub en st), gt_content_range = Some (content_range_text st en (length body)),
           gt_headers = headers_of_meta E (decode_metadata mb), gt_last_modified = t, gt_e_tag = tag\<rparr>, s3))"
      unfolding rd [symmetric] by (simp add: get_tail_def Inr Some rb)
    then show ?thesis
      using range_read [OF h M rb rd] run Inr Some rb by (cases r0) (auto simp: and_then_def answers_def)
  qed
qed

lemma get_object_spec:
  assumes h: "holds (ad_backend s) M" and run: "s3_get_object E B inp s = (r, s')"
  defines "p \<equiv> obj_key E (gi_bucket inp) (gi_key inp)"
  shows "becomes holds M s s' \<and>
    (case r of
       Inr out \<Rightarrow> \<exists>v. M p = Some v \<and> answers E inp v out
     | Inl e \<Rightarrow> e = S3NoSuchKey \<longleftrightarrow> M p = None \<and> validate_key (gi_key inp) = Inr () \<and> ensure_bucket (gi_bucket inp) s = Inr ())"
proof (cases "validate_key (gi_key inp) = Inr () \<and> ensure_bucket (gi_bucket inp) s = Inr ()")
  case False
  then show ?thesis
    using run h by (auto simp: s3_get_object_def check_iff becomes_def dest: validate_key_error ensure_bucket_error)
next
  case True
  obtain rh b1 where hd: "bo_head_with_meta B p (ad_backend s) = (rh, b1)" by fastforce
  note law1 = head_meta_law [OF h hd]
  show ?thesis
  proof (cases rh)
    case (Inl e)
    then show ?thesis using run True hd law1
      by (auto simp: s3_get_object_def handler_iffs Let_def p_def [symmetric] no_such_key_def becomes_def)
  next
    case (Inr x)
    obtain om ml where x: "x = (om, ml)" by fastforce
    with Inr law1 obtain body mb where M: "M p = Some (body, mb)" "om_size om = length body" and h1: "holds b1 M" by auto
    obtain rm b2 where gm: "bo_get_metadata B p b1 = (rm, b2)" by fastforce
    note law2 = get_metadata_law [OF h1 gm]
    show ?thesis
    proof (cases rm)
      case (Inl e)
      then have "r = Inl S3InternalError \<and> s' = s\<lparr>ad_backend := b2\<rparr>"
        using run True hd \<open>rh = Inr x\<close> x gm law2 M
        by (auto simp: s3_get_object_def handler_iffs Let_def p_def [symmetric] on_backend_def)
      then show ?thesis using law2 M by (auto simp: becomes_def)
    next
      case (Inr data)
      then have d: "data = mb" and h2: "holds b2 M" using law2 M(1) by auto
      let ?s2 = "s\<lparr>ad_backend := b2\<rparr>"
      have h2': "holds (ad_backend ?s2) M" using h2 by simp
      have tail: "s3_get_object E B inp s = get_tail E B inp p (om_size om) (om_last_modified om) mb ?s2"
        using True hd \<open>rh = Inr x\<close> x gm Inr d
        by (simp add: s3_get_object_def check_def and_then_def backend_call_def on_backend_def Let_def p_def [symmetric] wrap_err_def
            decode_or_empty get_tail_def)
      show ?thesis
        using get_tail_spec [OF h2' M(1), of E inp "om_last_modified om" r s'] run tail M True
        by (auto simp: becomes_def split: sum.splits)
    qed
  qed
qed

end

section \<open>Delete and copy\<close>

context object_backend
begin

lemma delete_path_spec:
  assumes h: "holds (ad_backend s) M" and run: "delete_path B p s = (r, s')"
  shows "becomes holds (if is_ok r then M(p := None) else M) s s'"
proof -
  obtain rd b where d: "bo_delete B p (bo_delete_sidecar B p (ad_backend s)) = (rd, b)" by fastforce
  from delete_law [OF sidecar_law [OF h] d] show ?thesis
    using run d by (cases rd) (auto simp: delete_path_def on_backend_def becomes_def fun_upd_idem split: if_splits)
qed

lemma delete_object_handler_spec:
  assumes h: "holds (ad_backend s) M" and run: "s3_delete_object E B bucket key s = (r, s')"
  shows "becomes holds (if is_ok r then M(obj_key E bucket key := None) else M) s s'"
proof (cases "\<exists>e. r = Inl e \<and> s' = s")
  case True
  then show ?thesis using h by (auto simp: becomes_def)
next
  case False
  obtain rd s1 where d: "delete_path B (obj_key E bucket key) s = (rd, s1)" by fastforce
  have "validate_key key = Inr ()" "ensure_bucket bucket s = Inr ()"
    using run False by (auto simp: s3_delete_object_def check_iff)
  then have "(r, s') = (case rd of Inl _ \<Rightarrow> (Inl S3InternalError, s1) | Inr _ \<Rightarrow> (Inr (), invalidate_stats bucket s1))"
    using run d by (simp add: s3_delete_object_def check_def split: sum.splits)
  then show ?thesis using delete_path_spec [OF h d] by (cases rd) (simp_all add: becomes_def)
qed

text \<open>A batch removes exactly the keys it reports as deleted.\<close>

lemma delete_keys_spec:
  assumes "holds (ad_backend s) M" and "delete_keys E B bucket keys s = ((deleted, errors), s')"
  shows "becomes holds (M |` (- obj_key E bucket ` set deleted)) s s' \<and> set keys = set deleted \<union> fst ` set errors"
  using assms
proof (induction keys arbitrary: s M deleted errors)
  case Nil
  then show ?case by (simp add: becomes_def)
next
  case (Cons key keys)
  show ?case
  proof (cases "validate_key key")
    case (Inl e)
    obtain dl er s1 where rest: "delete_keys E B bucket keys s = ((dl, er), s1)" by (metis prod.exhaust)
    have "dl = deleted" "errors = (key, S3InvalidArgument) # er" "s1 = s'" using Cons.prems(2) Inl rest by simp_all
    then show ?thesis using Cons.IH [OF Cons.prems(1), of dl er] rest by auto
  next
    case (Inr u)
    obtain rd s1 where d: "delete_path B (obj_key E bucket key) s = (rd, s1)" by fastforce
    note sp = delete_path_spec [OF Cons.prems(1) d]
    then have h1: "holds (ad_backend s1) (if is_ok rd then M(obj_key E bucket key := None) else M)" by (simp add: becomes_def)
    obtain dl er s2 where rest': "delete_keys E B bucket keys s1 = ((dl, er), s2)" by (metis prod.exhaust)
    have "s2 = s'" using Cons.prems(2) Inr d rest' by (cases rd) simp_all
    with rest' have rest: "delete_keys E B bucket keys s1 = ((dl, er), s')" by simp
    note ih = Cons.IH [OF h1 rest]
    have eq: "(M(obj_key E bucket key := None)) |` (- obj_key E bucket ` set dl) = M |` (- obj_key E bucket ` set (key # dl))"
      by (auto simp: restrict_map_def fun_eq_iff)
    show ?thesis
    proof (cases rd)
      case (Inl e)
      then have "deleted = dl" "errors = (key, S3InternalError) # er" using Cons.prems(2) Inr d rest by simp_all
      then show ?thesis using ih sp Inl by (auto simp: becomes_def)
    next
      case ok: (Inr v)
      then have okr: "is_ok rd" by simp
      have "deleted = key # dl" "errors = er" using ok Cons.prems(2) Inr d rest by simp_all
      moreover have "becomes holds (M |` (- obj_key E bucket ` set (key # dl))) s1 s'" "set keys = set dl \<union> fst ` set er"
        using ih unfolding if_P [of "is_ok rd", OF okr] eq by blast+
      ultimately show ?thesis using sp by (simp add: becomes_def)
    qed
  qed
qed

lemma read_source_spec:
  assumes h: "holds (ad_backend s) M" and run: "read_source_object E B p s = (r, s')"
  shows "becomes holds M s s' \<and>
    (case r of
       Inr (body, mb, tag) \<Rightarrow> M p = Some (body, mb) \<and>
         tag = (case hm_get (decode_metadata mb) ''etag'' of Some t \<Rightarrow> t | None \<Rightarrow> se_md5 E body)
     | Inl e \<Rightarrow> M p = None \<longrightarrow> e = S3NoSuchKey)"
proof -
  obtain rh b1 where hd: "bo_head_with_meta B p (ad_backend s) = (rh, b1)" by fastforce
  note law1 = head_meta_law [OF h hd]
  show ?thesis
  proof (cases rh)
    case (Inl e)
    then show ?thesis using run hd law1 by (auto simp: read_source_object_def handler_iffs no_such_key_def becomes_def)
  next
    case (Inr x)
    obtain om ml where x: "x = (om, ml)" by fastforce
    with Inr law1 obtain body mb where M: "M p = Some (body, mb)" "ml = length mb" and h1: "holds b1 M" by auto
    obtain rg b2 where g: "bo_get B None p b1 = (rg, b2)" by fastforce
    note law2 = get_law [OF h1 g]
    then have h2: "holds b2 M" by simp
    obtain rm b3 where gm: "bo_get_metadata B p b2 = (rm, b3)" by fastforce
    note law3 = get_metadata_law [OF h2 gm]
    show ?thesis
    proof (cases "\<exists>d. rg = Inr (Inr d)")
      case False
      then consider (e1) e where "rg = Inl e" | (e2) e where "rg = Inr (Inl e)" by (metis sum.exhaust)
      then show ?thesis using run hd Inr x g law2 M by cases (auto simp: read_source_object_def handler_defs becomes_def)
    next
      case True
      then have "rg = Inr (Inr body)" using law2 M by auto
      then show ?thesis
        using run hd Inr x g law2 M gm law3
        by (cases rm) (auto simp: read_source_object_def handler_defs becomes_def split: if_splits)
    qed
  qed
qed

end

text \<open>The metadata that a copy stores: new headers, or those of the source.\<close>

definition copied_meta :: "s3_env \<Rightarrow> copy_input \<Rightarrow> byte list \<Rightarrow> string \<Rightarrow> byte list option" where
  "copied_meta E inp raw_meta tag =
     (case (if ci_replace inp then encode_metadata (hm_insert ''etag'' tag (build_s3_metadata E (ci_headers inp)))
            else if raw_meta = [] then encode_metadata [(''etag'', tag)] else Inr raw_meta) of
        Inr mb \<Rightarrow> Some mb | Inl _ \<Rightarrow> None)"

definition copied_fits :: "s3_env \<Rightarrow> copy_input \<Rightarrow> s3_map \<Rightarrow> bool" where
  "copied_fits E inp M \<longleftrightarrow> (\<forall>p body mb tag mb'. M p = Some (body, mb) \<longrightarrow> copied_meta E inp mb tag = Some mb' \<longrightarrow> length body + length mb' < 2 ^ 63)"

definition entity_tag :: "s3_env \<Rightarrow> byte list \<times> byte list \<Rightarrow> string" where
  "entity_tag E v = (case v of (body, mb) \<Rightarrow> case hm_get (decode_metadata mb) ''etag'' of Some t \<Rightarrow> t | None \<Rightarrow> se_md5 E body)"

context object_backend
begin

lemma copy_object_handler_spec:
  assumes h: "holds (ad_backend s) M" and fits: "copied_fits E inp M" and run: "s3_copy_object E B io inp s = (r, s')"
  shows "case r of
      Inl e \<Rightarrow> becomes holds M s s'
    | Inr tag \<Rightarrow> \<exists>src_bucket src_key body mb mb'. ci_source inp = Some (src_bucket, src_key) \<and>
        M (obj_key E src_bucket src_key) = Some (body, mb) \<and> tag = entity_tag E (body, mb) \<and> copied_meta E inp mb tag = Some mb' \<and>
        becomes holds (M(obj_key E (ci_bucket inp) (ci_key inp) \<mapsto> (body, mb'))) s s'"
proof (cases "\<exists>e. r = Inl e \<and> s' = s")
  case True
  then show ?thesis using h by (auto simp: becomes_def)
next
  case False
  let ?dst = "obj_key E (ci_bucket inp) (ci_key inp)"
  from run False obtain sb sk where src: "ci_source inp = Some (sb, sk)" and
    ok: "validate_key sk = Inr ()" "validate_key (ci_key inp) = Inr ()" "ensure_bucket sb s = Inr ()" "ensure_bucket (ci_bucket inp) s = Inr ()"
      "\<not> (sb = ci_bucket inp \<and> sk = ci_key inp \<and> \<not> ci_replace inp)"
    by (auto simp: s3_copy_object_def check_iff split: option.splits if_splits)
  obtain rs s1 where rd: "read_source_object E B (obj_key E sb sk) s = (rs, s1)" by fastforce
  note rsp = read_source_spec [OF h rd]
  show ?thesis
  proof (cases rs)
    case (Inl e)
    then have "r = Inl e" "s' = s1" using run src ok rd by (auto simp: s3_copy_object_def check_def and_then_def)
    then show ?thesis using rsp by simp
  next
    case (Inr x)
    obtain body mb tag where x: "x = (body, mb, tag)" by (metis prod.exhaust)
    with Inr rsp have b1: "becomes holds M s s1" and M: "M (obj_key E sb sk) = Some (body, mb)" and tag: "tag = entity_tag E (body, mb)"
      by (auto simp: entity_tag_def)
    show ?thesis
    proof (cases "copied_meta E inp mb tag")
      case None
      then have "r = Inl S3InvalidArgument" "s' = s1"
        using run src ok rd Inr x by (auto simp: s3_copy_object_def check_def and_then_def copied_meta_def split: sum.splits if_splits)
      then show ?thesis using b1 by simp
    next
      case (Some mb')
      obtain rp b where put: "bo_put_with_meta B (ri_now io) ?dst body mb' (ad_backend s1) = (rp, b)" by fastforce
      have "length body + length mb' < 2 ^ 63" using fits M Some unfolding copied_fits_def by blast
      moreover have "holds (ad_backend s1) M" using b1 by (simp add: becomes_def)
      ultimately have law: "holds b (if is_ok rp then M(?dst \<mapsto> (body, mb')) else M)" using put_law [OF _ _ put] by blast
      have "(r, s') = and_then (wrap_err internal rp, s1\<lparr>ad_backend := b\<rparr>) (\<lambda>_ s2. (Inr tag, invalidate_stats (ci_bucket inp) s2))"
        using run src ok rd Inr x Some put
        by (auto simp: s3_copy_object_def check_def and_then_def copied_meta_def backend_call_def on_backend_def split: sum.splits if_splits)
      then show ?thesis
        using law b1 src M tag Some by (cases rp) (auto simp: and_then_def wrap_err_def becomes_def)
    qed
  qed
qed

end

end
