(* ===== verification/S3_Registry.thy ===== *)
theory S3_Registry
  imports S3_Requests
begin

text \<open>
  The registry of multipart uploads as an abstract state: every upload has the bytes of its parts. The invariant
  says that each part has a temporary file of its own with the recorded length and digest; the handlers keep it,
  and completing an upload stores the concatenation of the requested parts.
\<close>

section \<open>The abstract registry\<close>

record s3_upload =
  su_bucket :: string
  su_key :: string
  su_metadata :: "(string, string) hashmap"
  su_created_at :: int
  su_parts :: "int \<rightharpoonup> byte list"

definition part_at :: "'b adapter \<Rightarrow> string \<Rightarrow> int \<Rightarrow> part_meta option" where
  "part_at s uid n = Option.bind (hm_get (ad_uploads s) uid) (\<lambda>u. hm_get (up_parts u) n)"

definition abs_upload :: "(string, byte list) hashmap \<Rightarrow> upload \<Rightarrow> s3_upload" where
  "abs_upload temps u = \<lparr>su_bucket = up_bucket u, su_key = up_key u, su_metadata = up_metadata u, su_created_at = up_created_at u,
     su_parts = (\<lambda>n. Option.bind (hm_get (up_parts u) n) (\<lambda>pm. hm_get temps (pm_temp_path pm)))\<rparr>"

definition abs_uploads :: "'b adapter \<Rightarrow> string \<rightharpoonup> s3_upload" where
  "abs_uploads s uid = map_option (abs_upload (ad_temps s)) (hm_get (ad_uploads s) uid)"

definition registry_ok :: "s3_env \<Rightarrow> 'b adapter \<Rightarrow> bool" where
  "registry_ok E s \<longleftrightarrow>
     hm_wf (ad_uploads s) \<and> length (ad_uploads s) \<le> MAX_CONCURRENT_UPLOADS \<and>
     (\<forall>uid u. hm_get (ad_uploads s) uid = Some u \<longrightarrow> hm_wf (up_parts u)) \<and>
     (\<forall>uid n pm. part_at s uid n = Some pm \<longrightarrow> part_number_ok n \<and>
        (\<exists>data. hm_get (ad_temps s) (pm_temp_path pm) = Some data \<and> pm_size pm = length data \<and> pm_etag pm = se_md5 E data)) \<and>
     (\<forall>uid n pm uid' n' pm'. part_at s uid n = Some pm \<longrightarrow> part_at s uid' n' = Some pm' \<longrightarrow> pm_temp_path pm = pm_temp_path pm' \<longrightarrow>
        uid = uid' \<and> n = n')"

lemma registry_new: "registry_ok E (adapter_build b buckets)"
  by (simp add: registry_ok_def adapter_build_def part_at_def hm_wf_Nil MAX_CONCURRENT_UPLOADS_def)

lemma registry_frame:
  assumes "registry_ok E s" and "ad_uploads s' = ad_uploads s" and "ad_temps s' = ad_temps s"
  shows "registry_ok E s'" and "abs_uploads s' = abs_uploads s"
  using assms by (simp_all add: registry_ok_def part_at_def abs_uploads_def fun_eq_iff)

section \<open>Maps\<close>

lemma hm_length: "hm_wf m \<Longrightarrow> length m = card (dom (hm_get m))"
  using distinct_card [of "map fst m"] by (simp add: hm_wf_def dom_map_of_conv_image_fst)

lemma hm_remove_length: "hm_wf m \<Longrightarrow> length (hm_remove k m) \<le> length m"
  by (simp add: hm_length hm_simps card_mono finite_dom_map_of)

lemma hm_insert_length: "hm_wf m \<Longrightarrow> length (hm_insert k v m) = (if hm_get m k = None then Suc (length m) else length m)"
  by (auto simp: hm_length hm_simps finite_dom_map_of insert_absorb domIff)

lemma hm_reinsert_length: "hm_wf m \<Longrightarrow> hm_get m k \<noteq> None \<Longrightarrow> length (hm_insert k v (hm_remove k m)) = length m"
  by (auto simp: hm_length hm_simps finite_dom_map_of insert_absorb domIff)

lemma fold_remove:
  "hm_get (fold (\<lambda>(_, part). hm_remove (f part)) ps m) k = (if k \<in> f ` snd ` set ps then None else hm_get m k)"
  by (induction ps arbitrary: m) (auto simp: hm_simps)

definition temp_paths :: "upload \<Rightarrow> string set" where
  "temp_paths u = {pm_temp_path pm | n pm. hm_get (up_parts u) n = Some pm}"

lemma drop_upload_temps:
  "hm_wf (up_parts u) \<Longrightarrow> hm_get (ad_temps (drop_upload u s)) p = (if p \<in> temp_paths u then None else hm_get (ad_temps s) p)"
  by (auto simp: drop_upload_def fold_remove temp_paths_def hm_get_iff image_iff)

lemma drop_upload_fields [simp]:
  "ad_uploads (drop_upload u s) = ad_uploads s" "ad_backend (drop_upload u s) = ad_backend s"
  "ad_buckets (drop_upload u s) = ad_buckets s" "ad_upload_expiry (drop_upload u s) = ad_upload_expiry s"
  by (simp_all add: drop_upload_def)

section \<open>Removing an upload\<close>

text \<open>An upload leaves the registry and its files go; the other uploads keep theirs.\<close>

lemma drop_registered:
  assumes ok: "registry_ok E s" and u: "hm_get (ad_uploads s) uid = Some u"
  defines "s' \<equiv> drop_upload u (s\<lparr>ad_uploads := hm_remove uid (ad_uploads s)\<rparr>)"
  shows "registry_ok E s'" and "abs_uploads s' = (abs_uploads s)(uid := None)"
proof -
  have wf: "hm_wf (up_parts u)" using ok u by (auto simp: registry_ok_def)
  have at': "part_at s' i n = (if i = uid then None else part_at s i n)" for i n
    by (simp add: part_at_def s'_def hm_simps)
  have keep: "hm_get (ad_temps s') (pm_temp_path pm) = hm_get (ad_temps s) (pm_temp_path pm)" if p: "part_at s i n = Some pm" "i \<noteq> uid" for i n pm
  proof -
    have "pm_temp_path pm \<notin> temp_paths u"
    proof
      assume "pm_temp_path pm \<in> temp_paths u"
      then obtain n' pm' where "part_at s uid n' = Some pm'" "pm_temp_path pm = pm_temp_path pm'"
        using u by (auto simp: temp_paths_def part_at_def)
      then show False using ok p unfolding registry_ok_def by metis
    qed
    then show ?thesis by (simp add: s'_def drop_upload_temps [OF wf])
  qed
  have "hm_wf (ad_uploads s')" "length (ad_uploads s') \<le> MAX_CONCURRENT_UPLOADS"
    using ok hm_remove_length [of "ad_uploads s" uid] by (auto simp: s'_def registry_ok_def hm_simps)
  moreover have "hm_wf (up_parts v)" if "hm_get (ad_uploads s') i = Some v" for i v
    using that ok by (auto simp: s'_def hm_simps registry_ok_def split: if_splits)
  moreover have "part_number_ok n \<and> (\<exists>data. hm_get (ad_temps s') (pm_temp_path pm) = Some data \<and> pm_size pm = length data \<and> pm_etag pm = se_md5 E data)"
    if "part_at s' i n = Some pm" for i n pm
  proof -
    have p: "part_at s i n = Some pm" "i \<noteq> uid" using that by (auto simp: at' split: if_splits)
    then show ?thesis using ok keep [OF p] unfolding registry_ok_def by metis
  qed
  moreover have "i = i' \<and> n = n'" if "part_at s' i n = Some pm" "part_at s' i' n' = Some pm'" "pm_temp_path pm = pm_temp_path pm'" for i i' n n' pm pm'
  proof -
    have "part_at s i n = Some pm" "part_at s i' n' = Some pm'" using that by (auto simp: at' split: if_splits)
    then show ?thesis using ok that(3) unfolding registry_ok_def by metis
  qed
  ultimately show "registry_ok E s'" unfolding registry_ok_def by blast
  show "abs_uploads s' = (abs_uploads s)(uid := None)"
  proof
    fix i
    show "abs_uploads s' i = ((abs_uploads s)(uid := None)) i"
    proof (cases "i = uid")
      case True
      then show ?thesis by (simp add: abs_uploads_def s'_def hm_simps)
    next
      case False
      then have "hm_get (ad_uploads s') i = hm_get (ad_uploads s) i" by (simp add: s'_def hm_simps)
      moreover have "abs_upload (ad_temps s') v = abs_upload (ad_temps s) v" if "hm_get (ad_uploads s) i = Some v" for v
        using keep [OF _ False] that by (auto simp: abs_upload_def part_at_def fun_eq_iff bind_eq_None_conv split: bind_splits)
      ultimately show ?thesis using False by (cases "hm_get (ad_uploads s) i") (simp_all add: abs_uploads_def)
    qed
  qed
qed

lemma remove_upload_spec:
  assumes "registry_ok E s"
  shows "registry_ok E (remove_upload uid s) \<and> abs_uploads (remove_upload uid s) = (abs_uploads s)(uid := None) \<and>
    ad_backend (remove_upload uid s) = ad_backend s \<and> ad_buckets (remove_upload uid s) = ad_buckets s \<and>
    ad_upload_expiry (remove_upload uid s) = ad_upload_expiry s"
proof (cases "hm_get (ad_uploads s) uid")
  case None
  then have "(abs_uploads s)(uid := None) = abs_uploads s" by (simp add: abs_uploads_def fun_upd_idem)
  then show ?thesis using assms None by (simp add: remove_upload_def)
next
  case (Some u)
  then show ?thesis using drop_registered [OF assms Some] by (simp add: remove_upload_def)
qed

lemma fold_remove_upload:
  assumes "registry_ok E s"
  shows "registry_ok E (fold remove_upload ids s) \<and> abs_uploads (fold remove_upload ids s) = abs_uploads s |` (- set ids) \<and>
    ad_backend (fold remove_upload ids s) = ad_backend s \<and> ad_buckets (fold remove_upload ids s) = ad_buckets s \<and>
    ad_upload_expiry (fold remove_upload ids s) = ad_upload_expiry s"
  using assms
proof (induction ids arbitrary: s)
  case (Cons i ids)
  note r = remove_upload_spec [OF Cons.prems, of i]
  note ih = Cons.IH [OF conjunct1 [OF r]]
  have "abs_uploads (remove_upload i s) |` (- set ids) = abs_uploads s |` (- set (i # ids))"
    unfolding conjunct1 [OF conjunct2 [OF r]] by (auto simp: restrict_map_def fun_eq_iff)
  then show ?case using ih r unfolding fold_simps by metis
qed (simp add: restrict_map_def)

text \<open>The reaper removes exactly the uploads that are too old.\<close>

definition live_uploads :: "req_io \<Rightarrow> int \<Rightarrow> (string \<rightharpoonup> s3_upload) \<Rightarrow> string \<rightharpoonup> s3_upload" where
  "live_uploads io expiry U uid =
     (case U uid of Some u \<Rightarrow> if max 0 (ri_instant io - su_created_at u) > expiry then None else Some u | None \<Rightarrow> None)"

lemma purge_stale_spec:
  assumes "registry_ok E s"
  shows "registry_ok E (purge_stale io s) \<and> abs_uploads (purge_stale io s) = live_uploads io (ad_upload_expiry s) (abs_uploads s) \<and>
    ad_backend (purge_stale io s) = ad_backend s \<and> ad_buckets (purge_stale io s) = ad_buckets s \<and>
    ad_upload_expiry (purge_stale io s) = ad_upload_expiry s"
proof -
  let ?ids = "map fst (filter (\<lambda>(_, u). stale io s u) (ad_uploads s))"
  have wf: "hm_wf (ad_uploads s)" using assms by (simp add: registry_ok_def)
  have ids: "uid \<in> set ?ids \<longleftrightarrow> (\<exists>u. hm_get (ad_uploads s) uid = Some u \<and> stale io s u)" for uid
    using hm_get_iff [OF wf, of uid] by (auto simp: image_iff)
  have "abs_uploads s |` (- set ?ids) = live_uploads io (ad_upload_expiry s) (abs_uploads s)"
  proof
    fix uid
    show "(abs_uploads s |` (- set ?ids)) uid = live_uploads io (ad_upload_expiry s) (abs_uploads s) uid"
      using ids [of uid] by (cases "hm_get (ad_uploads s) uid")
        (auto simp: restrict_map_def live_uploads_def abs_uploads_def abs_upload_def stale_def)
  qed
  then show ?thesis using fold_remove_upload [OF assms, of ?ids] by (simp add: purge_stale_def)
qed

section \<open>Adding an upload\<close>

lemma registry_upload:
  assumes ok: "registry_ok E s" and none: "hm_get (ad_uploads s) uid = None" and len: "length (ad_uploads s) < MAX_CONCURRENT_UPLOADS"
    and parts: "up_parts u = []"
  defines "s' \<equiv> s\<lparr>ad_uploads := hm_insert uid u (ad_uploads s)\<rparr>"
  shows "registry_ok E s'" and "abs_uploads s' = (abs_uploads s)(uid \<mapsto> abs_upload [] u)"
proof -
  have at': "part_at s' i n = part_at s i n" for i n
    using none parts by (simp add: part_at_def s'_def hm_simps)
  have wf: "hm_wf (ad_uploads s)" using ok by (simp add: registry_ok_def)
  have "hm_wf (up_parts v)" if "hm_get (ad_uploads s') i = Some v" for i v
    using that ok parts by (auto simp: s'_def hm_simps registry_ok_def split: if_splits)
  moreover have "hm_wf (ad_uploads s')" "length (ad_uploads s') \<le> MAX_CONCURRENT_UPLOADS" "ad_temps s' = ad_temps s"
    using wf len none hm_insert_length [OF wf, of uid u] by (auto simp: s'_def hm_simps)
  ultimately show "registry_ok E s'" using ok unfolding registry_ok_def at' by auto
  show "abs_uploads s' = (abs_uploads s)(uid \<mapsto> abs_upload [] u)"
    using parts by (auto simp: abs_uploads_def s'_def hm_simps abs_upload_def fun_eq_iff)
qed

lemma create_upload_spec:
  assumes ok: "registry_ok E s" and fresh: "hm_get (ad_uploads s) (ri_uuid io) = None"
    and run: "create_multipart_upload E io bucket key headers s = (r, s')"
  shows "registry_ok E s' \<and> ad_backend s' = ad_backend s \<and> ad_buckets s' = ad_buckets s \<and> ad_upload_expiry s' = ad_upload_expiry s \<and>
    (case r of
       Inl e \<Rightarrow> abs_uploads s' = abs_uploads s \<or> abs_uploads s' = live_uploads io (ad_upload_expiry s) (abs_uploads s)
     | Inr uid \<Rightarrow> uid = ri_uuid io \<and> abs_uploads s' = (live_uploads io (ad_upload_expiry s) (abs_uploads s))
         (uid \<mapsto> \<lparr>su_bucket = bucket, su_key = key, su_metadata = build_s3_metadata E headers, su_created_at = ri_instant io, su_parts = Map.empty\<rparr>))"
proof (cases "ensure_bucket bucket s")
  case (Inl e)
  then show ?thesis using run ok by (auto simp: create_multipart_upload_def check_def)
next
  case (Inr v)
  let ?s1 = "purge_stale io s"
  let ?u = "\<lparr>up_bucket = bucket, up_key = key, up_metadata = build_s3_metadata E headers, up_parts = [], up_created_at = ri_instant io\<rparr>"
  note pg = purge_stale_spec [OF ok, of io]
  have "abs_uploads ?s1 (ri_uuid io) = None" using pg fresh by (simp add: live_uploads_def abs_uploads_def)
  then have none: "hm_get (ad_uploads ?s1) (ri_uuid io) = None" by (simp add: abs_uploads_def)
  show ?thesis
  proof (cases "length (ad_uploads ?s1) \<ge> MAX_CONCURRENT_UPLOADS")
    case True
    then show ?thesis using run Inr pg by (auto simp: create_multipart_upload_def check_def Let_def)
  next
    case False
    then have "length (ad_uploads ?s1) < MAX_CONCURRENT_UPLOADS" by simp
    note ru = registry_upload [OF conjunct1 [OF pg] none this, of ?u]
    have "r = Inr (ri_uuid io)" "s' = ?s1\<lparr>ad_uploads := hm_insert (ri_uuid io) ?u (ad_uploads ?s1)\<rparr>"
      using run Inr False none by (auto simp: create_multipart_upload_def check_def Let_def insert_upload_def)
    then show ?thesis using ru pg by (simp add: abs_upload_def)
  qed
qed

section \<open>Adding a part\<close>

text \<open>More temporary files than the registry names do not change it.\<close>

lemma registry_extend:
  assumes ok: "registry_ok E s" and "ad_uploads s' = ad_uploads s" and sub: "hm_get (ad_temps s) \<subseteq>\<^sub>m hm_get (ad_temps s')"
  shows "registry_ok E s'" and "abs_uploads s' = abs_uploads s"
proof -
  have at': "part_at s' = part_at s" using assms(2) by (simp add: part_at_def fun_eq_iff)
  have keep: "\<exists>data. hm_get (ad_temps s) (pm_temp_path pm) = Some data \<and> hm_get (ad_temps s') (pm_temp_path pm) = Some data \<and>
      pm_size pm = length data \<and> pm_etag pm = se_md5 E data" if "part_at s i n = Some pm" for i n pm
  proof -
    from ok that obtain data where "hm_get (ad_temps s) (pm_temp_path pm) = Some data" "pm_size pm = length data" "pm_etag pm = se_md5 E data"
      unfolding registry_ok_def by blast
    then show ?thesis using sub by (auto simp: map_le_def dom_def)
  qed
  have "\<exists>data. hm_get (ad_temps s') (pm_temp_path pm) = Some data \<and> pm_size pm = length data \<and> pm_etag pm = se_md5 E data"
    if "part_at s i n = Some pm" for i n pm using keep [OF that] by blast
  then show "registry_ok E s'" using ok unfolding registry_ok_def at' assms(2) by blast
  have "abs_upload (ad_temps s') u = abs_upload (ad_temps s) u" if "hm_get (ad_uploads s) i = Some u" for i u
  proof -
    have "hm_get (ad_temps s') (pm_temp_path pm) = hm_get (ad_temps s) (pm_temp_path pm)" if "hm_get (up_parts u) n = Some pm" for n pm
      using keep [of i n pm] that \<open>hm_get (ad_uploads s) i = Some u\<close> by (auto simp: part_at_def)
    then show ?thesis by (auto simp: abs_upload_def fun_eq_iff split: bind_splits)
  qed
  then show "abs_uploads s' = abs_uploads s"
    using assms(2) by (auto simp: abs_uploads_def fun_eq_iff map_option_case split: option.splits)
qed

text \<open>A part with a fresh file, whether the number is new or replaces an older part.\<close>

lemma registry_part:
  assumes ok: "registry_ok E s" and u: "hm_get (ad_uploads s) uid = Some u" and num: "part_number_ok n"
    and f: "hm_get (ad_temps s) (pm_temp_path pm) = Some data" "pm_size pm = length data" "pm_etag pm = se_md5 E data"
    and own: "\<And>i m pm'. part_at s i m = Some pm' \<Longrightarrow> pm_temp_path pm' \<noteq> pm_temp_path pm"
  defines "s' \<equiv> s\<lparr>ad_uploads := hm_insert uid (u\<lparr>up_parts := hm_insert n pm (up_parts u)\<rparr>) (ad_uploads s)\<rparr>"
  shows "registry_ok E s'"
    and "abs_uploads s' = (abs_uploads s)(uid \<mapsto> (abs_upload (ad_temps s) u)\<lparr>su_parts := (su_parts (abs_upload (ad_temps s) u))(n \<mapsto> data)\<rparr>)"
proof -
  have at': "part_at s' i m = (if i = uid \<and> m = n then Some pm else part_at s i m)" for i m
    using u by (simp add: part_at_def s'_def hm_simps)
  have wf: "hm_wf (ad_uploads s)" "hm_wf (up_parts u)" using ok u by (auto simp: registry_ok_def)
  have "hm_wf (ad_uploads s')" "length (ad_uploads s') \<le> MAX_CONCURRENT_UPLOADS" "ad_temps s' = ad_temps s"
    using ok wf u by (auto simp: s'_def hm_simps hm_insert_length registry_ok_def)
  moreover have "hm_wf (up_parts v)" if "hm_get (ad_uploads s') i = Some v" for i v
    using that ok wf by (auto simp: s'_def hm_simps registry_ok_def split: if_splits)
  moreover have "part_number_ok m \<and> (\<exists>data. hm_get (ad_temps s) (pm_temp_path q) = Some data \<and> pm_size q = length data \<and> pm_etag q = se_md5 E data)"
    if "part_at s' i m = Some q" for i m q
  proof (cases "i = uid \<and> m = n")
    case True
    then show ?thesis using that f num by (simp add: at')
  next
    case False
    then have "part_at s i m = Some q" using that by (simp add: at' split: if_splits)
    then show ?thesis using ok unfolding registry_ok_def by blast
  qed
  moreover have "i = i' \<and> m = m'" if "part_at s' i m = Some q" "part_at s' i' m' = Some q'" "pm_temp_path q = pm_temp_path q'" for i i' m m' q q'
  proof (cases "(i = uid \<and> m = n) \<or> (i' = uid \<and> m' = n)")
    case True
    then show ?thesis using that own by (auto simp: at' split: if_splits)
  next
    case False
    then have "part_at s i m = Some q" "part_at s i' m' = Some q'" using that by (auto simp: at' split: if_splits)
    then show ?thesis using ok that(3) unfolding registry_ok_def by blast
  qed
  ultimately show "registry_ok E s'" unfolding registry_ok_def by simp
  show "abs_uploads s' = (abs_uploads s)(uid \<mapsto> (abs_upload (ad_temps s) u)\<lparr>su_parts := (su_parts (abs_upload (ad_temps s) u))(n \<mapsto> data)\<rparr>)"
    using f(1) by (auto simp: abs_uploads_def s'_def hm_simps abs_upload_def fun_eq_iff)
qed

lemma write_temp_fields [simp]:
  "ad_uploads (write_temp io d s) = ad_uploads s" "ad_backend (write_temp io d s) = ad_backend s" "ad_buckets (write_temp io d s) = ad_buckets s"
  "ad_upload_expiry (write_temp io d s) = ad_upload_expiry s" "hm_get (ad_temps (write_temp io d s)) = (hm_get (ad_temps s))(ri_temp_name io \<mapsto> d)"
  "ad_uploads (remove_temp io s) = ad_uploads s" "ad_backend (remove_temp io s) = ad_backend s" "ad_buckets (remove_temp io s) = ad_buckets s"
  "ad_upload_expiry (remove_temp io s) = ad_upload_expiry s" "hm_get (ad_temps (remove_temp io s)) = (hm_get (ad_temps s))(ri_temp_name io := None)"
  by (simp_all add: write_temp_def remove_temp_def hm_simps)

text \<open>What a request may change besides the objects: the uploads become \<open>U\<close>.\<close>

definition uploads_become :: "s3_env \<Rightarrow> (string \<rightharpoonup> s3_upload) \<Rightarrow> 'b adapter \<Rightarrow> 'b adapter \<Rightarrow> bool" where
  "uploads_become E U s s' \<longleftrightarrow> registry_ok E s' \<and> abs_uploads s' = U \<and> ad_buckets s' = ad_buckets s \<and> ad_upload_expiry s' = ad_upload_expiry s"

definition add_part :: "string \<Rightarrow> int \<Rightarrow> byte list \<Rightarrow> (string \<rightharpoonup> s3_upload) \<Rightarrow> string \<rightharpoonup> s3_upload" where
  "add_part uid n data U = (case U uid of Some u \<Rightarrow> U(uid \<mapsto> u\<lparr>su_parts := (su_parts u)(n \<mapsto> data)\<rparr>) | None \<Rightarrow> U)"

lemma register_part_spec:
  assumes ok: "registry_ok E s" and fresh: "hm_get (ad_temps s) (ri_temp_name io) = None" and num: "part_number_ok n"
    and t: "ad_uploads t = ad_uploads s" "hm_get (ad_temps t) = (hm_get (ad_temps s))(ri_temp_name io \<mapsto> data)"
    and run: "register_part uid n (part_of_data E io data) t = (r, t')"
  shows "ad_backend t' = ad_backend t \<and> ad_buckets t' = ad_buckets t \<and> ad_upload_expiry t' = ad_upload_expiry t \<and>
    (case r of
       Inl e \<Rightarrow> e = S3NoSuchUpload \<and> t' = t \<and> abs_uploads s uid = None
     | Inr _ \<Rightarrow> abs_uploads s uid \<noteq> None \<and> registry_ok E t' \<and> abs_uploads t' = add_part uid n data (abs_uploads s))"
proof (cases "hm_get (ad_uploads s) uid")
  case None
  then show ?thesis using run t by (auto simp: register_part_def abs_uploads_def)
next
  case (Some u)
  have sub: "hm_get (ad_temps s) \<subseteq>\<^sub>m hm_get (ad_temps t)" using fresh by (auto simp: t map_le_def dom_def)
  note ex = registry_extend [OF ok t(1) sub]
  have own: "pm_temp_path pm' \<noteq> ri_temp_name io" if "part_at t i m = Some pm'" for i m pm'
  proof -
    have "part_at s i m = Some pm'" using that by (simp add: part_at_def t)
    then show ?thesis using ok fresh unfolding registry_ok_def by (metis option.distinct(1))
  qed
  have ut: "hm_get (ad_uploads t) uid = Some u" using Some t by simp
  note rp = registry_part [OF ex(1) ut num, of "part_of_data E io data" data]
  have "r = Inr ()" "t' = t\<lparr>ad_uploads := hm_insert uid (u\<lparr>up_parts := hm_insert n (part_of_data E io data) (up_parts u)\<rparr>) (ad_uploads t)\<rparr>"
    using run ut by (auto simp: register_part_def)
  moreover have "abs_uploads s uid = Some (abs_upload (ad_temps t) u)" using ut by (simp add: abs_uploads_def flip: ex(2))
  ultimately show ?thesis using rp own ex(2) by (simp add: part_of_data_def t add_part_def)
qed

lemma temps_restored:
  assumes ok: "registry_ok E s" and "hm_get (ad_temps s) (ri_temp_name io) = None"
    and "ad_uploads t = ad_uploads s" "hm_get (ad_temps t) = (hm_get (ad_temps s))(ri_temp_name io \<mapsto> data)"
    and "ad_buckets t = ad_buckets s" "ad_upload_expiry t = ad_upload_expiry s"
  shows "uploads_become E (abs_uploads s) s (remove_temp io t)" and "uploads_become E (abs_uploads s) s t"
  using registry_extend [OF ok, of "remove_temp io t"] registry_extend [OF ok, of t] assms
  by (auto simp: uploads_become_def map_le_def dom_def)

lemma upload_part_spec:
  assumes ok: "registry_ok E s" and fresh: "hm_get (ad_temps s) (ri_temp_name io) = None"
    and run: "upload_part E io uid n body s = (r, s')"
  shows "ad_backend s' = ad_backend s \<and>
    (case r of
       Inl e \<Rightarrow> uploads_become E (abs_uploads s) s s'
     | Inr tag \<Rightarrow> \<exists>data. body_of body = Some data \<and> tag = Strong (se_md5 E data) \<and> part_number_ok n \<and> abs_uploads s uid \<noteq> None \<and>
         uploads_become E (add_part uid n data (abs_uploads s)) s s')"
proof (cases "\<exists>e. r = Inl e \<and> s' = s")
  case True
  then show ?thesis using ok by (auto simp: uploads_become_def)
next
  case False
  let ?b = "case body of Some b \<Rightarrow> b | None \<Rightarrow> []"
  obtain rs data where sp: "spool_body io (ad_max_body_size s) ?b 0 [] = (rs, data)" by fastforce
  have num: "part_number_ok n" and cr: "ri_create_ok io" using run False by (auto simp: upload_part_def split: if_splits)
  let ?t = "write_temp io data s"
  have res: "uploads_become E (abs_uploads s) s (remove_temp io ?t)" by (rule temps_restored(1) [OF ok fresh]) simp_all
  show ?thesis
  proof (cases "\<exists>w. rs = Inr w \<and> ri_flush_ok io")
    case False
    then have "\<exists>e. r = Inl e \<and> s' = remove_temp io ?t" using run num cr sp by (cases rs) (auto simp: upload_part_def)
    then show ?thesis using res by auto
  next
    case True
    then obtain w where w: "rs = Inr w" and fl: "ri_flush_ok io" by blast
    obtain rr t' where reg: "register_part uid n (part_of_data E io data) ?t = (rr, t')" by fastforce
    note rp = register_part_spec [OF ok fresh num _ _ reg, simplified]
    have data: "body_of body = Some data" using spool_collect [of io _ ?b 0 "[]" w data] sp w by (auto simp: body_of_def)
    have "(r, s') = (case rr of Inl e \<Rightarrow> (Inl e, remove_temp io t') | Inr _ \<Rightarrow> (Inr (Strong (se_md5 E data)), t'))"
      using run num cr sp w fl reg by (simp add: upload_part_def split: sum.splits)
    then show ?thesis using rp res data num by (cases rr) (auto simp: uploads_become_def)
  qed
qed

lemma abort_spec:
  assumes ok: "registry_ok E s" and run: "abort_multipart_upload uid s = (r, s')"
  shows "ad_backend s' = ad_backend s \<and> (is_ok r \<longleftrightarrow> abs_uploads s uid \<noteq> None) \<and> uploads_become E ((abs_uploads s)(uid := None)) s s'"
  using run remove_upload_spec [OF ok, of uid] ok
  by (cases "hm_get (ad_uploads s) uid") (auto simp: abort_multipart_upload_def abs_uploads_def uploads_become_def fun_upd_idem)

section \<open>Joining parts\<close>

fun join_parts :: "(int \<rightharpoonup> byte list) \<Rightarrow> int option list \<Rightarrow> byte list option" where
  "join_parts m [] = Some []"
| "join_parts m (None # ps) = None"
| "join_parts m (Some n # ps) = (case m n of None \<Rightarrow> None | Some d \<Rightarrow> map_option ((@) d) (join_parts m ps))"

lemma copy_part_spec: "copy_part io data w acc = Inr (w', acc') \<Longrightarrow> acc' = acc @ data"
proof (induction io data w acc rule: copy_part.induct)
  case (1 io data w acc)
  show ?case
  proof (cases "data = []")
    case True
    then show ?thesis using "1.prems" by (simp add: copy_part.simps)
  next
    case False
    then have "ri_write_ok io w" "copy_part io (drop COPY_BUF data) (w + 1) (acc @ take COPY_BUF data) = Inr (w', acc')"
      using "1.prems" by (simp_all add: copy_part.simps [of io data] split: if_splits)
    then show ?thesis using "1.IH" False by simp
  qed
qed

lemma assemble_spec:
  assumes "assemble_parts io temps u parts w acc = Inr (w', data)"
  shows "\<exists>d. join_parts (su_parts (abs_upload temps u)) parts = Some d \<and> data = acc @ d"
  using assms
proof (induction io temps u parts w acc rule: assemble_parts.induct)
  case (3 io temps u n parts w acc)
  then obtain pm d w1 acc1 where d: "hm_get (up_parts u) n = Some pm" "hm_get temps (pm_temp_path pm) = Some d" "ri_part_ok io (pm_temp_path pm)"
      "copy_part io d w acc = Inr (w1, acc1)" "assemble_parts io temps u parts w1 acc1 = Inr (w', data)"
    by (auto simp: bind_res_Inr_iff split: option.splits if_splits)
  have "\<exists>d'. join_parts (su_parts (abs_upload temps u)) parts = Some d' \<and> data = acc1 @ d'"
    using "3.IH" [OF d(1,2) _ d(5)] d(3) by simp
  then show ?case using d copy_part_spec [OF d(4)] by (auto simp: abs_upload_def)
qed simp_all

lemma copy_range_bounds: "copy_range rng n = Inr (st, en) \<Longrightarrow> st \<le> en \<and> en \<le> n"
  by (auto simp: copy_range_def split: option.splits if_splits prod.splits)

lemma registry_same:
  assumes "registry_ok E s" and "hm_get (ad_uploads s') = hm_get (ad_uploads s)" and "hm_wf (ad_uploads s')"
    and "length (ad_uploads s') = length (ad_uploads s)" and "ad_temps s' = ad_temps s"
  shows "registry_ok E s'" and "abs_uploads s' = abs_uploads s"
  using assms by (simp_all add: registry_ok_def part_at_def abs_uploads_def fun_eq_iff)

lemma reinsert_upload:
  assumes ok: "registry_ok E s" and u: "hm_get (ad_uploads s) uid = Some u"
    and t: "ad_uploads t = hm_remove uid (ad_uploads s)" "ad_temps t = ad_temps s" "ad_buckets t = ad_buckets s" "ad_upload_expiry t = ad_upload_expiry s"
  shows "uploads_become E (abs_uploads s) s (insert_upload uid u t) \<and> ad_backend (insert_upload uid u t) = ad_backend t"
proof -
  have ins: "insert_upload uid u t = t\<lparr>ad_uploads := hm_insert uid u (hm_remove uid (ad_uploads s))\<rparr>"
    using t(1) by (simp add: insert_upload_def hm_simps)
  have wf: "hm_wf (ad_uploads s)" using ok by (simp add: registry_ok_def)
  have "hm_get (hm_insert uid u (hm_remove uid (ad_uploads s))) = hm_get (ad_uploads s)" using u by (auto simp: hm_simps fun_eq_iff)
  moreover have "hm_wf (hm_insert uid u (hm_remove uid (ad_uploads s)))" using wf by (simp add: hm_simps)
  moreover have "length (hm_insert uid u (hm_remove uid (ad_uploads s))) = length (ad_uploads s)" using wf u by (simp add: hm_reinsert_length)
  ultimately show ?thesis
    using registry_same [OF ok, of "insert_upload uid u t"] t by (simp add: ins uploads_become_def)
qed

text \<open>
  The outcome of a completion: an error leaves the objects alone; the upload is gone, or it is still there when the write
  failed. A success stores the joined parts with the metadata of the upload, or finds the object of an earlier completion.
\<close>

definition completed ::
  "('b \<Rightarrow> s3_map \<Rightarrow> bool) \<Rightarrow> s3_env \<Rightarrow> s3_map \<Rightarrow> string \<Rightarrow> string \<Rightarrow> int option list option option \<Rightarrow> s3_error + etag \<Rightarrow> 'b adapter \<Rightarrow> 'b adapter \<Rightarrow> bool" where
  "completed holds E M p uid parts r s s' \<longleftrightarrow>
     (case r of
        Inl e \<Rightarrow> holds (ad_backend s') M \<and>
          (uploads_become E (abs_uploads s) s s' \<or> uploads_become E ((abs_uploads s)(uid := None)) s s')
      | Inr tag \<Rightarrow>
          (case abs_uploads s uid of
             None \<Rightarrow> holds (ad_backend s') M \<and> M p \<noteq> None \<and> uploads_become E (abs_uploads s) s s'
           | Some u \<Rightarrow> (\<exists>ps data mb. parts = Some (Some ps) \<and> ps \<noteq> [] \<and> join_parts (su_parts u) ps = Some data \<and>
               tag = Strong (se_md5 E data) \<and> stored_meta E (su_metadata u) data = Some mb \<and> holds (ad_backend s') (M(p \<mapsto> spooled data mb)) \<and>
               uploads_become E ((abs_uploads s)(uid := None)) s s')))"

context object_backend
begin

lemma copy_to_temp_spec:
  assumes h: "holds (ad_backend s) M" and ok: "registry_ok E s" and fresh: "hm_get (ad_temps s) (ri_temp_name io) = None"
    and num: "part_number_ok n" and M: "M p = Some (body, mb)" and le: "st \<le> en" "en \<le> length body"
    and run: "copy_to_temp E B io uid n p st en s = (r, s')"
  shows "holds (ad_backend s') M \<and>
    (case r of
       Inl e \<Rightarrow> uploads_become E (abs_uploads s) s s'
     | Inr tag \<Rightarrow> tag = Strong (se_md5 E (slice body st en)) \<and> abs_uploads s uid \<noteq> None \<and>
         uploads_become E (add_part uid n (slice body st en) (abs_uploads s)) s s')"
proof -
  obtain rg b where g: "bo_get B (Some (Bounded st en)) p (ad_backend s) = (rg, b)" by fastforce
  note law = get_law [OF h g]
  let ?s2 = "(write_temp io [] s)\<lparr>ad_backend := b\<rparr>"
  have left: "uploads_become E (abs_uploads s) s t"
    if "ad_uploads t = ad_uploads s" "hm_get (ad_temps t) = (hm_get (ad_temps s))(ri_temp_name io \<mapsto> d)" "ad_buckets t = ad_buckets s"
      "ad_upload_expiry t = ad_upload_expiry s" for t and d
    by (rule temps_restored(2) [OF ok fresh that])
  consider (err) e where "rg = Inl e" | (broken) e where "rg = Inr (Inl e)" | (data) d where "rg = Inr (Inr d)"
    by (metis sum.exhaust)
  then show ?thesis
  proof cases
    case err
    then have "(r, s') = (Inl (no_such_key B e), ?s2)"
      using run g by (simp add: copy_to_temp_def handler_defs)
    then show ?thesis using left [of ?s2 "[]"] law by simp
  next
    case broken
    then have "(r, s') = (Inl S3InternalError, ?s2)" using run g by (simp add: copy_to_temp_def handler_defs)
    then show ?thesis using left [of ?s2 "[]"] law by simp
  next
    case data
    have d: "d = slice body st en" using law data M le by (auto simp: Let_def min_def)
    let ?t = "write_temp io d ?s2"
    obtain rr t' where reg: "register_part uid n (part_of_data E io d) ?t = (rr, t')" by fastforce
    note rp = register_part_spec [OF ok fresh num _ _ reg, simplified]
    have res: "copy_to_temp E B io uid n p st en s = (if d \<noteq> [] \<and> \<not> ri_write_ok io 0 then (Inl S3InternalError, ?s2)
        else if \<not> ri_flush_ok io then (Inl S3InternalError, ?t) else and_then (rr, t') (\<lambda>_ s3. (Inr (Strong (se_md5 E d)), s3)))"
      using g data reg by (cases "d = []") (simp_all add: copy_to_temp_def handler_defs)
    show ?thesis
    proof (cases "(d \<noteq> [] \<and> \<not> ri_write_ok io 0) \<or> \<not> ri_flush_ok io")
      case True
      then show ?thesis using run res left [of ?s2 "[]"] left [of ?t d] law by (auto split: if_splits)
    next
      case False
      then have "(r, s') = and_then (rr, t') (\<lambda>_ s3. (Inr (Strong (se_md5 E d)), s3))" using run res by (simp split: if_splits)
      then show ?thesis using rp left [of ?t d] law d by (cases rr) (auto simp: and_then_def uploads_become_def)
    qed
  qed
qed

lemma upload_part_copy_spec:
  assumes h: "holds (ad_backend s) M" and ok: "registry_ok E s" and fresh: "hm_get (ad_temps s) (ri_temp_name io) = None"
    and run: "upload_part_copy E B io uid n source rng s = (r, s')"
  shows "holds (ad_backend s') M \<and>
    (case r of
       Inl e \<Rightarrow> uploads_become E (abs_uploads s) s s'
     | Inr tag \<Rightarrow> \<exists>sb sk body mb st en. source = Some (sb, sk) \<and> M (obj_key E sb sk) = Some (body, mb) \<and>
         copy_range rng (length body) = Inr (st, en) \<and> tag = Strong (se_md5 E (slice body st en)) \<and> part_number_ok n \<and>
         abs_uploads s uid \<noteq> None \<and> uploads_become E (add_part uid n (slice body st en) (abs_uploads s)) s s')"
proof (cases "\<exists>e. r = Inl e \<and> s' = s")
  case True
  then show ?thesis using h ok by (auto simp: uploads_become_def)
next
  case False
  have num: "part_number_ok n" using run False by (auto simp: upload_part_copy_def split: if_splits)
  obtain sb sk where src: "source = Some (sb, sk)" using run False num by (auto simp: upload_part_copy_def split: option.splits)
  obtain rh b1 where hd: "bo_head_with_meta B (obj_key E sb sk) (ad_backend s) = (rh, b1)" by fastforce
  note law = head_meta_law [OF h hd]
  let ?s1 = "s\<lparr>ad_backend := b1\<rparr>"
  have ok1: "registry_ok E ?s1" "abs_uploads ?s1 = abs_uploads s" using registry_frame [OF ok, of ?s1] by simp_all
  show ?thesis
  proof (cases "\<exists>e. r = Inl e \<and> s' = ?s1")
    case True
    then show ?thesis using ok1 law by (auto simp: uploads_become_def)
  next
    case no_err: False
    with run num src hd obtain om ml st en where rh: "rh = Inr (om, ml)" and rg: "copy_range rng (om_size om) = Inr (st, en)"
      and cp: "copy_to_temp E B io uid n (obj_key E sb sk) st en ?s1 = (r, s')"
      by (cases rh) (auto simp: upload_part_copy_def handler_defs Let_def split: sum.splits if_splits)
    from law rh obtain body mb where M: "M (obj_key E sb sk) = Some (body, mb)" and sz: "om_size om = length body" by auto
    have "holds (ad_backend ?s1) M" "hm_get (ad_temps ?s1) (ri_temp_name io) = None" using law fresh by simp_all
    from copy_to_temp_spec [OF this(1) ok1(1) this(2) num M _ _ cp] copy_range_bounds [OF rg] show ?thesis
      using src M num rg sz ok1(2) by (auto simp: uploads_become_def split: sum.splits)
  qed
qed

lemma already_completed_spec:
  assumes h: "holds (ad_backend s) M" and ok: "registry_ok E s" and run: "already_completed E B bucket key s = (r, s')"
  shows "holds (ad_backend s') M \<and> uploads_become E (abs_uploads s) s s' \<and> (is_ok r \<longrightarrow> M (obj_key E bucket key) \<noteq> None)"
proof -
  obtain rh b1 where hd: "bo_head B (obj_key E bucket key) (ad_backend s) = (rh, b1)" by fastforce
  note law1 = head_law [OF h hd]
  then have h1: "holds b1 M" by simp
  obtain rm b2 where gm: "bo_get_metadata B (obj_key E bucket key) b1 = (rm, b2)" by fastforce
  note law2 = get_metadata_law [OF h1 gm]
  have same: "uploads_become E (abs_uploads s) s (s\<lparr>ad_backend := b\<rparr>)" for b
    using registry_frame [OF ok, of "s\<lparr>ad_backend := b\<rparr>"] by (simp add: uploads_become_def)
  show ?thesis
    using run hd gm law1 law2 same
    by (cases rh; cases rm) (auto simp: already_completed_def load_metadata_def on_backend_def)
qed

lemma finish_complete:
  assumes h: "holds (ad_backend s) M" and ok: "registry_ok E s" and temp: "private_temp io" and u: "hm_get (ad_uploads s) uid = Some u"
    and fits: "meta_fits E (su_metadata (abs_upload (ad_temps s) u))"
    and small: "\<And>data. join_parts (su_parts (abs_upload (ad_temps s) u)) ps = Some data \<Longrightarrow> length data < 2 ^ 62"
    and as: "assemble_parts io (ad_temps s) u ps 0 [] = Inr (w, data)"
    and ap: "append_metadata io (hm_insert ''etag'' (se_md5 E data) (up_metadata u)) w data = Inr (f, ml)"
    and res: "(r, s') = (case on_backend (bo_put_from_file B (ri_now io) (obj_key E bucket key) f ml) (s\<lparr>ad_uploads := hm_remove uid (ad_uploads s)\<rparr>) of
           (Inl _, s2) \<Rightarrow> (Inl S3InternalError, insert_upload uid u s2)
         | (Inr _, s2) \<Rightarrow> (Inr (Strong (se_md5 E data)), drop_upload u (invalidate_stats bucket s2)))"
    and ne: "ps \<noteq> []"
  shows "completed holds E M (obj_key E bucket key) uid (Some (Some ps)) r s s'"
proof -
  let ?s1 = "s\<lparr>ad_uploads := hm_remove uid (ad_uploads s)\<rparr>" and ?p = "obj_key E bucket key"
  have au: "abs_uploads s uid = Some (abs_upload (ad_temps s) u)" using u by (simp add: abs_uploads_def)
  have gone1: "uploads_become E ((abs_uploads s)(uid := None)) s (drop_upload u ?s1)"
    using drop_registered [OF ok u] by (simp add: uploads_become_def)
  have mf: "meta_fits E (up_metadata u)" using fits by (simp add: abs_upload_def)
  from append_metadata_ok [OF ap mf temp] obtain mb where
    mb: "stored_meta E (up_metadata u) data = Some mb" "reads_back f (data @ mb)" "ml = length mb mod 2 ^ 16"
      "length mb < 2 ^ 62" .
  have join: "join_parts (su_parts (abs_upload (ad_temps s) u)) ps = Some data" using assemble_spec [OF as] by simp
  have "length data < 2 ^ 62" by (rule small [OF join])
  then have len: "ml \<le> length (data @ mb)" "length (data @ mb) < 2 ^ 63"
    using mb mod_less_eq_dividend [of "length mb" "2 ^ 16"] by (simp_all add: trans_le_add2)
  obtain rp b where put: "bo_put_from_file B (ri_now io) ?p f ml (ad_backend s) = (rp, b)" by fastforce
  have law: "holds b (if is_ok rp then M(?p \<mapsto> spooled data mb) else M)"
    using put_file_law [OF h mb(2) len put] unfolding mb(3) spooled_def .
  let ?t = "?s1\<lparr>ad_backend := b\<rparr>"
  show ?thesis
  proof (cases rp)
    case (Inl e)
    then have "r = Inl S3InternalError" "s' = insert_upload uid u ?t" using res put by (simp_all add: on_backend_def)
    then show ?thesis using reinsert_upload [OF ok u, of ?t] law Inl by (simp add: completed_def)
  next
    case (Inr x)
    then have r: "r = Inr (Strong (se_md5 E data))" and s': "s' = drop_upload u (invalidate_stats bucket ?t)"
      using res put by (simp_all add: on_backend_def)
    have "ad_uploads s' = ad_uploads (drop_upload u ?s1)" "ad_temps s' = ad_temps (drop_upload u ?s1)"
      by (simp_all add: s' drop_upload_def)
    then have "uploads_become E ((abs_uploads s)(uid := None)) s s'"
      using registry_frame [of E "drop_upload u ?s1" s'] gone1 by (simp add: uploads_become_def s')
    then show ?thesis
      using r law Inr au ne join mb(1) by (auto simp: completed_def s' abs_upload_def)
  qed
qed

lemma complete_spec:
  assumes h: "holds (ad_backend s) M" and ok: "registry_ok E s" and temp: "private_temp io"
    and fits: "\<And>u. abs_uploads s uid = Some u \<Longrightarrow> meta_fits E (su_metadata u)"
    and small: "\<And>u ps data. abs_uploads s uid = Some u \<Longrightarrow> parts = Some (Some ps) \<Longrightarrow> join_parts (su_parts u) ps = Some data \<Longrightarrow> length data < 2 ^ 62"
    and run: "complete_multipart_upload E B io bucket key uid parts s = (r, s')"
  shows "completed holds E M (obj_key E bucket key) uid parts r s s'"
proof (cases "\<exists>e. r = Inl e \<and> s' = s")
  case True
  then show ?thesis using h ok by (auto simp: completed_def uploads_become_def)
next
  case False
  then obtain po where po: "parts = Some po" using run by (auto simp: complete_multipart_upload_def split: option.splits)
  show ?thesis
  proof (cases "hm_get (ad_uploads s) uid")
    case None
    then have "already_completed E B bucket key s = (r, s')" using run po by (simp add: complete_multipart_upload_def)
    from already_completed_spec [OF h ok this] show ?thesis using None
      by (cases r) (simp_all add: completed_def abs_uploads_def)
  next
    case (Some u)
    let ?s1 = "s\<lparr>ad_uploads := hm_remove uid (ad_uploads s)\<rparr>" and ?p = "obj_key E bucket key"
    have au: "abs_uploads s uid = Some (abs_upload (ad_temps s) u)" using Some by (simp add: abs_uploads_def)
    have gone1: "uploads_become E ((abs_uploads s)(uid := None)) s (drop_upload u ?s1)"
      using drop_registered [OF ok Some] by (simp add: uploads_become_def)
    have err: ?thesis if "r = Inl e" "s' = drop_upload u ?s1" for e
      using that gone1 h by (simp add: completed_def)
    show ?thesis
    proof (cases "\<exists>e. r = Inl e \<and> s' = drop_upload u ?s1")
      case True
      then show ?thesis using err by blast
    next
      case no_err: False
      with run po Some obtain ps w data where ps: "po = Some ps" "ps \<noteq> []" and as: "assemble_parts io (ad_temps s) u ps 0 [] = Inr (w, data)"
        by (auto simp: complete_multipart_upload_def Let_def split: option.splits if_splits sum.splits)
      from no_err run po Some ps as obtain f ml where
        ap: "append_metadata io (hm_insert ''etag'' (se_md5 E data) (up_metadata u)) w data = Inr (f, ml)" and
        res: "(r, s') = (case on_backend (bo_put_from_file B (ri_now io) ?p f ml) ?s1 of
           (Inl _, s2) \<Rightarrow> (Inl S3InternalError, insert_upload uid u s2)
         | (Inr _, s2) \<Rightarrow> (Inr (Strong (se_md5 E data)), drop_upload u (invalidate_stats bucket s2)))"
        by (auto simp: complete_multipart_upload_def Let_def split: if_splits sum.splits)
      show ?thesis
        using finish_complete [OF h ok temp Some fits [OF au] _ as ap res] small [OF au] po ps au by simp
    qed
  qed
qed

end

end
