(* ===== verification/S3_Pages.thy ===== *)
theory S3_Pages
  imports S3_Listing Durability
begin

text \<open>
  The pages of a listing: following the tokens from page to page visits every key and every common
  prefix exactly once, in order, and ends.
\<close>

section \<open>Order of strings\<close>

lemma nat_max_zero: "nat (max 0 n) = nat n"
  by simp

lemma prefix_le: "prefix xs ys \<Longrightarrow> xs \<le> (ys :: string)"
  by (induction xs arbitrary: ys) (auto simp: prefix_def)

lemma sorted_list_of_set_append:
  assumes "sorted_list_of_set A = xs @ ys" and "finite A" and "A' \<subseteq> A" and "\<And>x. x \<in> set xs \<Longrightarrow> x \<notin> A'"
    and "\<And>y. y \<in> set ys \<Longrightarrow> y \<in> A'"
  shows "ys = sorted_list_of_set (A' :: 'a :: linorder set)"
proof (rule sorted_distinct_set_unique)
  have "sorted (xs @ ys)" "distinct (xs @ ys)" "set (xs @ ys) = A" using assms(2) by (simp_all flip: assms(1))
  then show "sorted ys" "distinct ys" by (simp_all add: sorted_append)
  have fin: "finite A'" using assms(2,3) by (rule rev_finite_subset)
  then show "sorted (sorted_list_of_set A')" "distinct (sorted_list_of_set A')" by simp_all
  from \<open>set (xs @ ys) = A\<close> have "set ys = A'" using assms(3-5) by auto
  then show "set ys = set (sorted_list_of_set A')" using fin by simp
qed

section \<open>One page\<close>

definition all_before :: "s3_object list \<Rightarrow> string list \<Rightarrow> s3_object list \<Rightarrow> string list \<Rightarrow> bool" where
  "all_before os ps mo mp = (\<forall>x \<in> ob_key ` set os \<union> set ps. \<forall>y \<in> ob_key ` set mo \<union> set mp. x < y)"

lemma all_before_Cons:
  "all_before (ob # os) ps mo mp \<longleftrightarrow> (\<forall>y \<in> ob_key ` set mo \<union> set mp. ob_key ob < y) \<and> all_before os ps mo mp"
  "all_before os (p # ps) mo mp \<longleftrightarrow> (\<forall>y \<in> ob_key ` set mo \<union> set mp. p < y) \<and> all_before os ps mo mp"
  by (auto simp: all_before_def)

lemma all_before_Nil [simp]: "all_before [] [] mo mp" "all_before os ps [] []"
  by (simp_all add: all_before_def)

lemma merge_page_taken:
  "fst (fst (merge_page n objs pfxs)) @ fst (snd (merge_page n objs pfxs)) = objs"
  "snd (fst (merge_page n objs pfxs)) @ snd (snd (merge_page n objs pfxs)) = pfxs"
  "length (fst (fst (merge_page n objs pfxs))) + length (snd (fst (merge_page n objs pfxs))) = min n (length objs + length pfxs)"
  by (induction n objs pfxs rule: merge_page.induct) (simp_all add: case_prod_unfold)

lemma merge_page_splits:
  assumes "merge_page n objs pfxs = ((os, ps), (mo, mp))"
  shows "objs = os @ mo \<and> pfxs = ps @ mp \<and> length os + length ps = min n (length objs + length pfxs)"
  using merge_page_taken [where n = n and objs = objs and pfxs = pfxs] by (simp add: assms)

lemma merge_page_before:
  assumes "merge_page n objs pfxs = ((os, ps), (mo, mp))"
    and "sorted_wrt (<) (map ob_key objs)" and "sorted_wrt (<) pfxs" and "ob_key ` set objs \<inter> set pfxs = {}"
  shows "all_before os ps mo mp"
  using assms
proof (induction n objs pfxs arbitrary: os ps rule: merge_page.induct)
  case (2 n ob objs p pfxs)
  show ?case
  proof (cases "ob_key ob < p")
    case True
    with 2(3) obtain os' where r: "merge_page n objs (p # pfxs) = ((os', ps), (mo, mp))" and os: "os = ob # os'"
      by (auto split: prod.splits)
    have "set mo \<subseteq> set objs" "set mp \<subseteq> set (p # pfxs)" using merge_page_splits [OF r] by (metis set_append sup_ge2)+
    moreover have "\<forall>x \<in> set (p # pfxs). ob_key ob < x" using 2(5) True by (auto intro: less_trans)
    moreover have "\<forall>x \<in> set objs. ob_key ob < ob_key x" using 2(4) by simp
    ultimately have "\<forall>y \<in> ob_key ` set mo \<union> set mp. ob_key ob < y" by blast
    moreover have "all_before os' ps mo mp"
      using 2(4-6) by (intro 2(1) [OF True r]) simp_all
    ultimately show ?thesis by (simp add: os all_before_Cons)
  next
    case False
    with 2(3) obtain ps' where r: "merge_page n (ob # objs) pfxs = ((os, ps'), (mo, mp))" and ps: "ps = p # ps'"
      by (auto split: prod.splits)
    have "p \<noteq> ob_key ob" using 2(6) by auto
    then have lt: "p < ob_key ob" using False by simp
    have "set mo \<subseteq> set (ob # objs)" "set mp \<subseteq> set pfxs" using merge_page_splits [OF r] by (metis set_append sup_ge2)+
    moreover have "\<forall>x \<in> set (ob # objs). p < ob_key x" using 2(4) lt by (auto intro: less_trans)
    moreover have "\<forall>x \<in> set pfxs. p < x" using 2(5) by simp
    ultimately have "\<forall>y \<in> ob_key ` set mo \<union> set mp. p < y" by blast
    moreover have "all_before os ps' mo mp"
      using 2(4-6) by (intro 2(2) [OF False r]) simp_all
    ultimately show ?thesis by (simp add: ps all_before_Cons)
  qed
next
  case (3 n ob objs)
  then obtain os' where r: "merge_page n objs [] = ((os', ps), (mo, mp))" and os: "os = ob # os'"
    by (auto split: prod.splits)
  have "set mo \<subseteq> set objs" "mp = []" using merge_page_splits [OF r] by auto
  then have "\<forall>y \<in> ob_key ` set mo \<union> set mp. ob_key ob < y" using 3(3) by auto
  then show ?case using 3 by (simp add: os r all_before_Cons)
next
  case (4 n p pfxs)
  then obtain ps' where r: "merge_page n [] pfxs = ((os, ps'), (mo, mp))" and ps: "ps = p # ps'"
    by (auto split: prod.splits)
  have "set mp \<subseteq> set pfxs" "mo = []" using merge_page_splits [OF r] by auto
  then have "\<forall>y \<in> ob_key ` set mo \<union> set mp. p < y" using 4(4) by auto
  then show ?case using 4 by (simp add: ps r all_before_Cons)
qed simp_all

section \<open>The entries of a listing\<close>

text \<open>
  The reference: the keys of a request, and its entries, which are the keys without a delimiter after
  the prefix and the common prefixes of the others.
\<close>

definition prefix_of :: "list_input \<Rightarrow> string" where
  "prefix_of inp = (case li_prefix inp of Some p \<Rightarrow> p | None \<Rightarrow> [])"

definition group_of :: "list_input \<Rightarrow> string \<Rightarrow> string option" where
  "group_of inp = key_group (prefix_of inp) (list_delimiter inp)"

definition keys_of :: "list_input \<Rightarrow> (object_meta \<times> nat) list \<Rightarrow> string set" where
  "keys_of inp listing = {key. \<exists>item n. (item, n) \<in> set listing \<and>
     Option.bind (strip_prefix (li_bucket inp @ ''/'') (om_location item)) decode_dir_mark = Some key \<and>
     \<not> prefix ''__buckets__/'' key \<and> prefix (prefix_of inp) key}"

definition plain_entries :: "list_input \<Rightarrow> (object_meta \<times> nat) list \<Rightarrow> string set" where
  "plain_entries inp listing =
     {key \<in> keys_of inp listing. group_of inp key = None \<and> after (li_start_after inp) key \<and> after (li_continuation_token inp) key}"

definition group_entries :: "list_input \<Rightarrow> (object_meta \<times> nat) list \<Rightarrow> string set" where
  "group_entries inp listing =
     {cp. \<exists>key \<in> keys_of inp listing. group_of inp key = Some cp \<and> after (li_start_after inp) cp \<and> after (li_continuation_token inp) cp}"

definition entries_of :: "list_input \<Rightarrow> (object_meta \<times> nat) list \<Rightarrow> string set" where
  "entries_of inp listing = plain_entries inp listing \<union> group_entries inp listing"

lemma listed_key_iff:
  "listed_key inp item = Some key \<longleftrightarrow>
     Option.bind (strip_prefix (li_bucket inp @ ''/'') (om_location item)) decode_dir_mark = Some key \<and>
     \<not> prefix ''__buckets__/'' key \<and> prefix (prefix_of inp) key \<and>
     after (li_start_after inp) key \<and> after (li_continuation_token inp) key"
  unfolding listed_key_def prefix_of_def by (cases "strip_prefix (li_bucket inp @ ''/'') (om_location item)") (auto split: option.splits)

lemma listed_keys: "(\<exists>item n. (item, n) \<in> set listing \<and> listed_key inp item = Some key) \<longleftrightarrow>
    key \<in> keys_of inp listing \<and> after (li_start_after inp) key \<and> after (li_continuation_token inp) key"
  unfolding keys_of_def listed_key_iff by blast

lemma set_map_filter: "set (List.map_filter f xs) = {y. \<exists>x \<in> set xs. f x = Some y}"
  by (induction xs) (auto simp: List.map_filter_simps split: option.splits)

lemma find_sub_bound: "find_sub d s = Some n \<Longrightarrow> n + length d \<le> length s"
  by (induction s arbitrary: n) (auto dest: prefix_length_le split: if_splits)

lemma find_sub_take: "find_sub d s = Some n \<Longrightarrow> find_sub d (take (n + length d) s) = Some n"
proof (induction s arbitrary: n)
  case (Cons c cs)
  show ?case
  proof (cases "prefix d (c # cs)")
    case True
    then obtain zs where "c # cs = d @ zs" by (auto simp: prefix_def)
    moreover have "find_sub d d = Some 0" by (cases d) simp_all
    moreover have "n = 0" using Cons.prems True by simp
    ultimately show ?thesis by simp
  next
    case False
    with Cons.prems obtain m where m: "find_sub d cs = Some m" "n = Suc m" by auto
    have "\<not> prefix d (c # take (m + length d) cs)"
      using False by (metis prefix_order.trans same_prefix_prefix take_is_prefix append_Cons append_Nil)
    then show ?thesis using Cons.IH [OF m(1)] m(2) by simp
  qed
qed (simp split: if_splits)

lemma group_prefix:
  assumes "group_of inp key = Some cp" and "prefix (prefix_of inp) key"
  shows "prefix cp key"
proof -
  from assms(2) obtain r where key: "key = prefix_of inp @ r" by (auto simp: prefix_def)
  with assms(1) obtain n where "cp = prefix_of inp @ take n r"
    by (auto simp: group_of_def key_group_def Let_def split: option.splits)
  then show ?thesis by (simp add: key take_is_prefix)
qed

lemma group_idem: "group_of inp key = Some cp \<Longrightarrow> group_of inp cp = Some cp"
  by (auto simp: group_of_def key_group_def Let_def find_sub_take find_sub_bound min_absorb2 split: option.splits)

lemma after_le: "after b x \<Longrightarrow> x \<le> y \<Longrightarrow> after b y"
  by (auto simp: after_def split: option.splits)

lemma group_after:
  assumes "key \<in> keys_of inp listing" and "group_of inp key = Some cp" and "after b cp"
  shows "after b key"
proof -
  have "prefix (prefix_of inp) key" using assms(1) by (auto simp: keys_of_def)
  then show ?thesis using group_prefix [OF assms(2)] after_le [OF assms(3)] prefix_le by blast
qed

lemma object_keys:
  "ob_key ` set (collect_objects inp listing) = plain_entries inp listing"
proof -
  have "ob_key ` set (collect_objects inp listing) =
      {key. (\<exists>item n. (item, n) \<in> set listing \<and> listed_key inp item = Some key) \<and> group_of inp key = None}"
    unfolding collect_objects_def set_map_filter prefix_of_def [symmetric] group_of_def [symmetric]
    by (force simp: to_object_def image_iff split: option.splits)
  then show ?thesis using listed_keys by (auto simp: plain_entries_def)
qed

lemma prefix_entries:
  "set (collect_prefixes inp listing) = group_entries inp listing"
proof -
  have "set (collect_prefixes inp listing) =
      {cp. \<exists>key. (\<exists>item n. (item, n) \<in> set listing \<and> listed_key inp item = Some key) \<and> group_of inp key = Some cp \<and>
         after (li_start_after inp) cp \<and> after (li_continuation_token inp) cp}"
    unfolding collect_prefixes_def set_map_filter prefix_of_def [symmetric] group_of_def [symmetric]
    by (force split: option.splits if_splits)
  then show ?thesis using listed_keys group_after by (auto simp: group_entries_def)
qed

lemma entries_union:
  "entries_of inp listing = ob_key ` set (collect_objects inp listing) \<union> set (collect_prefixes inp listing)"
  by (simp add: entries_of_def object_keys prefix_entries)

lemma entries_disjoint: "plain_entries inp listing \<inter> group_entries inp listing = {}"
  using group_idem by (fastforce simp: plain_entries_def group_entries_def)

lemma entries_token:
  "plain_entries (inp\<lparr>li_continuation_token := t\<rparr>) listing =
     {e \<in> plain_entries (inp\<lparr>li_continuation_token := None\<rparr>) listing. after t e}"
  "group_entries (inp\<lparr>li_continuation_token := t\<rparr>) listing =
     {e \<in> group_entries (inp\<lparr>li_continuation_token := None\<rparr>) listing. after t e}"
  by (auto simp: plain_entries_def group_entries_def keys_of_def group_of_def prefix_of_def list_delimiter_def after_def)

lemma entries_after:
  assumes "m \<in> entries_of inp listing"
  shows "plain_entries (inp\<lparr>li_continuation_token := Some m\<rparr>) listing = {e \<in> plain_entries inp listing. m < e}"
    and "group_entries (inp\<lparr>li_continuation_token := Some m\<rparr>) listing = {e \<in> group_entries inp listing. m < e}"
proof -
  have m: "after (li_continuation_token inp) m" using assms by (auto simp: entries_of_def plain_entries_def group_entries_def)
  have "m < e \<Longrightarrow> after (li_continuation_token inp) e" for e using after_le [OF m] by simp
  then show "plain_entries (inp\<lparr>li_continuation_token := Some m\<rparr>) listing = {e \<in> plain_entries inp listing. m < e}"
    and "group_entries (inp\<lparr>li_continuation_token := Some m\<rparr>) listing = {e \<in> group_entries inp listing. m < e}"
    unfolding entries_token [where inp = inp and t = "Some m"] entries_token [where inp = inp and t = "li_continuation_token inp", simplified]
    by (auto simp: after_def)
qed

lemma finite_entries: "finite (plain_entries inp listing)" "finite (group_entries inp listing)"
  by (simp_all flip: object_keys prefix_entries)

section \<open>Following the tokens\<close>

text \<open>The keys of a response, as it lists them, and all its entries.\<close>

definition page_keys :: "list_output \<Rightarrow> string list" where
  "page_keys out = map ob_key (lo_contents out)"

definition page_entries :: "list_output \<Rightarrow> string set" where
  "page_entries out = set (page_keys out) \<union> set (lo_common_prefixes out)"

text \<open>The entries of a page come before those of the pages after it.\<close>

definition pages_ordered :: "list_output list \<Rightarrow> bool" where
  "pages_ordered pages = sorted_wrt (\<lambda>p q. \<forall>x \<in> page_entries p. \<forall>y \<in> page_entries q. x < y) pages"

text \<open>A client asks for page after page, at most \<open>fuel\<close> of them, until one is not truncated.\<close>

fun list_pages :: "nat \<Rightarrow> s3_env \<Rightarrow> ('b, 'e) backend_ops \<Rightarrow> list_input \<Rightarrow> 'b adapter \<Rightarrow> list_output list option" where
  "list_pages 0 E B inp s = None"
| "list_pages (Suc fuel) E B inp s =
     (case list_objects_v2 E B inp s of
        (Inl _, _) \<Rightarrow> None
      | (Inr out, s1) \<Rightarrow>
          (if lo_is_truncated out
           then map_option ((#) out) (list_pages fuel E B (inp\<lparr>li_continuation_token := lo_next_continuation_token out\<rparr>) s1)
           else Some [out]))"

text \<open>What the listing of a backend must satisfy: no location twice, and none that ends in a slash.\<close>

definition locations_ok :: "(object_meta \<times> nat) list \<Rightarrow> bool" where
  "locations_ok listing \<longleftrightarrow> distinct (map (om_location \<circ> fst) listing) \<and> list_all (\<lambda>(item, _). \<not> suffix ''/'' (om_location item)) listing"

lemma decode_inj:
  assumes "decode_dir_mark a = Some k" "decode_dir_mark b = Some k" "\<not> suffix ''/'' a" "\<not> suffix ''/'' b"
  shows "a = b"
proof -
  have enc: "x = (if suffix ''/'' k then k @ DIR_MARK else k)" if d: "decode_dir_mark x = Some k" and n: "\<not> suffix ''/'' x" for x
  proof (cases "suffix DIR_MARK_SUFFIX x")
    case True
    then obtain y where "x = (y @ ''/'') @ DIR_MARK" by (auto simp: suffix_def DIR_MARK_SUFFIX_def DIR_MARK_def)
    moreover from this True d have "k = y @ ''/''" by (simp add: decode_dir_mark_def)
    ultimately show ?thesis by (simp add: suffix_def)
  next
    case False
    then show ?thesis using d n by (auto simp: decode_dir_mark_def split: if_splits)
  qed
  show ?thesis using enc [OF assms(1,3)] enc [OF assms(2,4)] by simp
qed

lemma listed_key_inj:
  assumes "listed_key inp a = Some k" and "listed_key inp b = Some k"
    and "\<not> suffix ''/'' (om_location a)" and "\<not> suffix ''/'' (om_location b)"
  shows "om_location a = om_location b"
proof -
  from assms(1,2) obtain x y where "om_location a = (li_bucket inp @ ''/'') @ x" "om_location b = (li_bucket inp @ ''/'') @ y"
    and d: "decode_dir_mark x = Some k" "decode_dir_mark y = Some k"
    by (auto simp: listed_key_iff bind_eq_Some_conv strip_prefix_Some)
  moreover from this assms(3,4) have "\<not> suffix ''/'' x" "\<not> suffix ''/'' y"
    by (metis append.assoc suffix_def)+
  ultimately show ?thesis using decode_inj [OF d] by simp
qed

lemma collect_objects_Cons:
  "collect_objects inp (x # listing) =
     (case listed_key inp (fst x) of
        Some key \<Rightarrow> if group_of inp key = None then to_object inp (fst x) key # collect_objects inp listing else collect_objects inp listing
      | None \<Rightarrow> collect_objects inp listing)"
  by (cases x) (auto simp: collect_objects_def List.map_filter_simps group_of_def prefix_of_def split: option.splits)

lemma object_keys_distinct:
  "locations_ok listing \<Longrightarrow> distinct (map ob_key (collect_objects inp listing))"
proof (induction listing)
  case Nil
  show ?case by (simp add: collect_objects_def List.map_filter_simps)
next
  case (Cons x listing)
  have ok: "locations_ok listing" using Cons.prems by (simp add: locations_ok_def)
  have "key \<notin> ob_key ` set (collect_objects inp listing)" if k: "listed_key inp (fst x) = Some key" for key
  proof
    assume "key \<in> ob_key ` set (collect_objects inp listing)"
    then have "\<exists>item n. (item, n) \<in> set listing \<and> listed_key inp item = Some key"
      unfolding object_keys listed_keys by (simp add: plain_entries_def)
    then obtain item n where i: "(item, n) \<in> set listing" "listed_key inp item = Some key" by blast
    have "\<not> suffix ''/'' (om_location item)" "\<not> suffix ''/'' (om_location (fst x))"
      using Cons.prems i(1) by (auto simp: locations_ok_def list_all_iff split: prod.splits)
    then have "om_location (fst x) = om_location item" using listed_key_inj [OF k i(2)] by simp
    then show False using Cons.prems i(1) by (force simp: locations_ok_def)
  qed
  then show ?case using Cons.IH [OF ok] by (simp add: collect_objects_Cons to_object_def split: option.splits)
qed

lemma page_of_props:
  assumes "page_of inp listing = ((os, ps), (mo, mp))" and "locations_ok listing"
  defines "n \<equiv> nat (max 0 (case li_max_keys inp of Some n \<Rightarrow> n | None \<Rightarrow> 1000))"
  shows "sorted_list_of_set (plain_entries inp listing) = map ob_key os @ map ob_key mo"
    and "sorted_list_of_set (group_entries inp listing) = ps @ mp"
    and "all_before os ps mo mp"
    and "length os + length ps = min n (card (entries_of inp listing))"
proof -
  let ?objs = "sort_key ob_key (collect_objects inp listing)"
  let ?pfxs = "sorted_list_of_set (set (collect_prefixes inp listing))"
  have m: "merge_page n ?objs ?pfxs = ((os, ps), (mo, mp))" using assms(1) by (simp add: page_of_def n_def)
  have d: "distinct (map ob_key (collect_objects inp listing))" using object_keys_distinct [OF assms(2)] .
  have dk: "distinct (map ob_key ?objs)" using d by (simp add: distinct_map)
  have "sorted_wrt (<) (map ob_key ?objs)" using dk by (simp add: strict_sorted_iff del: sort_key_simps)
  then show "all_before os ps mo mp"
    using entries_disjoint by (intro merge_page_before [OF m]) (simp_all add: object_keys prefix_entries finite_entries)
  have sp: "?objs = os @ mo" "?pfxs = ps @ mp" "length os + length ps = min n (length ?objs + length ?pfxs)"
    using merge_page_splits [OF m] by blast+
  have "card (entries_of inp listing) = length ?objs + length ?pfxs"
    unfolding entries_union using entries_disjoint [of inp listing] distinct_card [OF d]
    by (simp add: card_Un_disjoint object_keys prefix_entries finite_entries)
  then show "length os + length ps = min n (card (entries_of inp listing))" using sp(3) by simp
  show "sorted_list_of_set (group_entries inp listing) = ps @ mp" using sp(2) by (simp add: prefix_entries)
  have "sorted_list_of_set (plain_entries inp listing) = map ob_key ?objs"
    using dk by (intro sorted_distinct_set_unique) (simp_all add: finite_entries object_keys)
  then show "sorted_list_of_set (plain_entries inp listing) = map ob_key os @ map ob_key mo" unfolding sp(1) by simp
qed

lemma last_entry_max:
  assumes "sorted ks" and "sorted ps" and "ks \<noteq> [] \<or> ps \<noteq> []"
  shows "\<exists>m. last_entry ks ps = Some m \<and> m \<in> set ks \<union> set ps \<and> (\<forall>x \<in> set ks \<union> set ps. x \<le> m)"
proof -
  have l: "x \<le> last xs" if "sorted xs" "x \<in> set xs" for x :: string and xs
    using that by (induction xs) (auto simp: sorted_wrt_append)
  show ?thesis
    using assms(3) l [OF assms(1)] l [OF assms(2)] by (force simp: last_entry_def not_less intro: order_trans less_imp_le)
qed

section \<open>A backend that lists without changing its state\<close>

definition backend_listing :: "s3_env \<Rightarrow> ('b, 'e) backend_ops \<Rightarrow> list_input \<Rightarrow> 'b adapter \<Rightarrow> (object_meta \<times> nat) list" where
  "backend_listing E B inp s =
     fst (bo_list_with_meta B (Some (raw_path E (li_bucket inp @ ''/'' @ dir_part (prefix_of inp)))) (ad_backend s))"

definition page_limit :: "list_input \<Rightarrow> int" where
  "page_limit inp = (case li_max_keys inp of Some n \<Rightarrow> n | None \<Rightarrow> 1000)"

locale quiet_listing =
  fixes B :: "('b, 'e) backend_ops"
  assumes list_quiet: "snd (bo_list_with_meta B pfx b) = b"
    and get_metadata_quiet: "snd (bo_get_metadata B path b) = b"
begin

lemma load_metadata_state: "snd (load_metadata E B bucket key s) = s"
  using get_metadata_quiet [of "obj_key E bucket key" "ad_backend s"]
  by (auto simp: load_metadata_def on_backend_def split: prod.splits sum.splits)

lemma load_etags_same:
  "snd (load_etags E B bucket objs s) = s" "map ob_key (fst (load_etags E B bucket objs s)) = map ob_key objs"
  by (induction objs) (simp_all add: case_prod_unfold load_metadata_state)

lemma on_backend_list: "on_backend (bo_list_with_meta B pfx) s = (fst (bo_list_with_meta B pfx (ad_backend s)), s)"
  using list_quiet [of pfx "ad_backend s"] by (simp add: on_backend_def case_prod_unfold)

lemma page_response:
  assumes "li_bucket inp \<in> ad_buckets s" and "li_encoding_type inp \<noteq> Some ''url''"
    and page: "page_of inp (backend_listing E B inp s) = ((os, ps), (mo, mp))"
  shows "\<exists>out. list_objects_v2 E B inp s = (Inr out, s) \<and> map ob_key (lo_contents out) = map ob_key os \<and> lo_common_prefixes out = ps \<and>
    lo_is_truncated out = (page_limit inp > 0 \<and> (mo \<noteq> [] \<or> mp \<noteq> [])) \<and>
    lo_next_continuation_token out = (if lo_is_truncated out then last_entry (map ob_key os) ps else None)"
  using assms load_etags_same [of E "li_bucket inp" os s]
  by (auto simp: list_objects_v2_def check_def ensure_bucket_def Let_def on_backend_list backend_listing_def prefix_of_def
      page_limit_def case_prod_unfold comp_def cong: map_cong)

lemma one_page:
  assumes "li_bucket inp \<in> ad_buckets s" and "li_encoding_type inp \<noteq> Some ''url''" and "0 < page_limit inp"
    and "locations_ok (backend_listing E B inp s)"
  defines "plain \<equiv> plain_entries inp (backend_listing E B inp s)" and "groups \<equiv> group_entries inp (backend_listing E B inp s)"
  obtains (ends) out where "list_objects_v2 E B inp s = (Inr out, s)" and "\<not> lo_is_truncated out"
      and "page_keys out = sorted_list_of_set plain" and "lo_common_prefixes out = sorted_list_of_set groups"
      and "length (lo_contents out) + length (lo_common_prefixes out) \<le> nat (page_limit inp)"
    | (continues) out m where "list_objects_v2 E B inp s = (Inr out, s)" and "lo_is_truncated out"
      and "lo_next_continuation_token out = Some m" and "m \<in> plain \<union> groups" and "\<forall>x \<in> page_entries out. x \<le> m"
      and "sorted_list_of_set plain = page_keys out @ sorted_list_of_set {e \<in> plain. m < e}"
      and "sorted_list_of_set groups = lo_common_prefixes out @ sorted_list_of_set {e \<in> groups. m < e}"
      and "length (lo_contents out) + length (lo_common_prefixes out) \<le> nat (page_limit inp)"
proof -
  let ?l = "backend_listing E B inp s"
  obtain os ps mo mp where page: "page_of inp ?l = ((os, ps), (mo, mp))" by (metis prod.exhaust)
  note props = page_of_props [OF page assms(4), folded plain_def groups_def]
  obtain out where out: "list_objects_v2 E B inp s = (Inr out, s)" "page_keys out = map ob_key os" "lo_common_prefixes out = ps"
      "lo_is_truncated out = (mo \<noteq> [] \<or> mp \<noteq> [])"
      "lo_next_continuation_token out = (if lo_is_truncated out then last_entry (map ob_key os) ps else None)"
    using page_response [OF assms(1,2) page] assms(3) by (auto simp: page_keys_def)
  have len: "length (lo_contents out) + length (lo_common_prefixes out) \<le> nat (page_limit inp)"
    using arg_cong [OF out(2), of length] props(4) out(3) by (simp add: page_keys_def page_limit_def nat_max_zero)
  have fin: "finite plain" "finite groups" unfolding plain_def groups_def by (rule finite_entries)+
  have sets: "plain = ob_key ` set os \<union> ob_key ` set mo" "groups = set ps \<union> set mp"
    using arg_cong [OF props(1), of set] arg_cong [OF props(2), of set] fin by simp_all
  show thesis
  proof (cases "mo = [] \<and> mp = []")
    case True
    then show thesis using ends [OF out(1)] out props(1,2) len by simp
  next
    case False
    then have "0 < card (plain \<union> groups)" using sets fin by (auto simp: card_gt_0_iff)
    then have "0 < length os + length ps"
      using assms(3) by (simp add: props(4) page_limit_def entries_of_def flip: plain_def groups_def)
    moreover have "sorted (map ob_key os)" "sorted ps"
      using sorted_sorted_list_of_set [of plain] sorted_sorted_list_of_set [of groups] unfolding props(1,2) by (simp_all add: sorted_append)
    ultimately obtain m where m: "last_entry (map ob_key os) ps = Some m" "m \<in> ob_key ` set os \<union> set ps"
      "\<forall>x \<in> ob_key ` set os \<union> set ps. x \<le> m" using last_entry_max [of "map ob_key os" ps] by auto
    have less: "x \<in> ob_key ` set mo \<union> set mp \<Longrightarrow> m < x" for x using props(3) m(2) by (auto simp: all_before_def)
    have le: "x \<in> ob_key ` set os \<union> set ps \<Longrightarrow> \<not> m < x" for x using m(3) by (simp add: not_less)
    have "map ob_key mo = sorted_list_of_set {e \<in> plain. m < e}"
      by (rule sorted_list_of_set_append [OF props(1) fin(1)]) (use le less sets in auto)
    moreover have "mp = sorted_list_of_set {e \<in> groups. m < e}"
      by (rule sorted_list_of_set_append [OF props(2) fin(2)]) (use le less sets in auto)
    ultimately show thesis
      using False out m sets props(1,2) len by (intro continues [OF out(1)]) (auto simp: page_entries_def)
  qed
qed

text \<open>With more pages than there are entries, the client gets them all.\<close>

lemma all_pages:
  assumes "li_bucket inp \<in> ad_buckets s" and "li_encoding_type inp \<noteq> Some ''url''" and "0 < page_limit inp"
    and "locations_ok (backend_listing E B inp s)" and "card (entries_of inp (backend_listing E B inp s)) < fuel"
  shows "\<exists>pages. list_pages fuel E B inp s = Some pages \<and>
    concat (map page_keys pages) = sorted_list_of_set (plain_entries inp (backend_listing E B inp s)) \<and>
    concat (map lo_common_prefixes pages) = sorted_list_of_set (group_entries inp (backend_listing E B inp s)) \<and>
    pages_ordered pages \<and> (\<forall>out \<in> set pages. length (lo_contents out) + length (lo_common_prefixes out) \<le> nat (page_limit inp))"
  using assms
proof (induction fuel arbitrary: inp)
  case (Suc fuel)
  let ?l = "backend_listing E B inp s"
  from Suc.prems(1-4) show ?case
  proof (cases rule: one_page)
    case (ends out)
    then show ?thesis by (simp add: pages_ordered_def)
  next
    case (continues out m)
    let ?inp = "inp\<lparr>li_continuation_token := Some m\<rparr>"
    have l: "backend_listing E B ?inp s = ?l" by (simp add: backend_listing_def prefix_of_def)
    have m: "m \<in> entries_of inp ?l" using continues(4) by (simp add: entries_of_def)
    note after_m = entries_after [OF m]
    have "entries_of ?inp ?l \<subset> entries_of inp ?l" using m unfolding entries_of_def after_m by auto
    then have "card (entries_of ?inp ?l) < card (entries_of inp ?l)"
      by (intro psubset_card_mono) (simp_all add: entries_of_def finite_entries)
    then have "\<exists>pages. list_pages fuel E B ?inp s = Some pages \<and>
        concat (map page_keys pages) = sorted_list_of_set {e \<in> plain_entries inp ?l. m < e} \<and>
        concat (map lo_common_prefixes pages) = sorted_list_of_set {e \<in> group_entries inp ?l. m < e} \<and>
        pages_ordered pages \<and> (\<forall>out \<in> set pages. length (lo_contents out) + length (lo_common_prefixes out) \<le> nat (page_limit ?inp))"
      using Suc.prems Suc.IH [of ?inp] by (simp add: l after_m page_limit_def)
    then obtain pages where pages: "list_pages fuel E B ?inp s = Some pages"
      "concat (map page_keys pages) = sorted_list_of_set {e \<in> plain_entries inp ?l. m < e}"
      "concat (map lo_common_prefixes pages) = sorted_list_of_set {e \<in> group_entries inp ?l. m < e}"
      "pages_ordered pages" "\<forall>out \<in> set pages. length (lo_contents out) + length (lo_common_prefixes out) \<le> nat (page_limit inp)"
      by (auto simp: page_limit_def)
    have "m < y" if "q \<in> set pages" "y \<in> page_entries q" for q y
    proof -
      have "y \<in> set (concat (map page_keys pages)) \<union> set (concat (map lo_common_prefixes pages))"
        using that by (auto simp: page_entries_def)
      then show ?thesis unfolding pages(2,3) by (auto simp: finite_entries)
    qed
    then have "pages_ordered (out # pages)" using continues(5) pages(4) by (fastforce simp: pages_ordered_def)
    then show ?thesis using continues pages by simp
  qed
qed simp

end

interpretation raw: quiet_listing "raw_backend X P"
  by unfold_locales (simp_all add: raw_backend_def)

section \<open>The raw store behind the adapter\<close>

definition ref_s3 :: s3_env where
  "ref_s3 = \<lparr>se_md5 = (\<lambda>_. ''d41d8cd98f00b204e9800998ecf8427e''), se_parse = (\<lambda>s. Some (rev (dropWhile (\<lambda>c. c = CHR ''/'') (rev s)))),
     se_from = id, se_whole_secs = (\<lambda>t. t div NANOS * NANOS), se_format_time = (\<lambda>_. None), se_parse_time = (\<lambda>_. None),
     se_header_name = (\<lambda>_. True), se_header_value = (\<lambda>_. True), se_header_text = (\<lambda>_. True)\<rparr>"

definition ref_s3_paths :: path_api where
  "ref_s3_paths = \<lparr>pa_of_key = id, pa_prefix_matches = (\<lambda>k p. prefix p k)\<rparr>"

text \<open>A store with three objects in the bucket \<open>b\<close>.\<close>

definition ref_extent :: extent_info where
  "ref_extent = \<lparr>ei_offset = DATA_START, ei_size = 0, ei_padded_size = 4096, ei_crc32c = 0, ei_created_txn = 1, ei_last_modified = 0,
     ei_meta_len = 0, ei_uncompressed_size = 0\<rparr>"

definition ref_listing_store :: inner where
  "ref_listing_store = set_files [(''b/y'', ref_extent), (''b/x/2'', ref_extent), (''b/x/1'', ref_extent)] ref_store"

definition ref_list_input :: list_input where
  "ref_list_input = \<lparr>li_bucket = ''b'', li_prefix = None, li_delimiter = Some ''/'', li_max_keys = Some 1, li_start_after = None,
     li_continuation_token = None, li_encoding_type = None, li_fetch_owner = None\<rparr>"

lemma ref_backend_listing:
  "backend_listing ref_s3 (raw_backend ref_env ref_s3_paths) ref_list_input (adapter_build ref_listing_store {''b''}) =
     map (\<lambda>k. (meta_for k ref_extent, 0)) [''b/y'', ''b/x/2'', ''b/x/1'']"
  by (simp add: backend_listing_def raw_backend_def list_with_meta_def adapter_build_def ref_listing_store_def files_of_def set_files_def
      visible_def starts_with_def MULTIPART_TMP_PREFIX_def prefix_filter_def ref_s3_paths_def ref_s3_def raw_path_def ref_list_input_def
      dir_part_def prefix_of_def ref_extent_def)

lemma ref_listed:
  "listed_key ref_list_input (meta_for ''b/y'' ref_extent) = Some ''y''"
  "listed_key ref_list_input (meta_for ''b/x/1'' ref_extent) = Some ''x/1''"
  "listed_key ref_list_input (meta_for ''b/x/2'' ref_extent) = Some ''x/2''"
  by (simp_all add: listed_key_def ref_list_input_def strip_prefix_def meta_for_def decode_dir_mark_def DIR_MARK_def DIR_MARK_SUFFIX_def
      suffix_to_prefix after_def)

lemma ref_groups:
  "group_of ref_list_input ''y'' = None" "group_of ref_list_input ''x/1'' = Some ''x/''" "group_of ref_list_input ''x/2'' = Some ''x/''"
  by (simp_all add: group_of_def ref_list_input_def key_group_def list_delimiter_def prefix_of_def)

lemma ref_entries:
  "plain_entries ref_list_input (map (\<lambda>k. (meta_for k ref_extent, 0)) [''b/y'', ''b/x/2'', ''b/x/1'']) = {''y''}"
  "group_entries ref_list_input (map (\<lambda>k. (meta_for k ref_extent, 0)) [''b/y'', ''b/x/2'', ''b/x/1'']) = {''x/''}"
  using ref_listed ref_groups
  by (simp_all add: collect_objects_Cons collect_objects_def [where listing = "[]"] collect_prefixes_def List.map_filter_simps
      prefix_of_def [symmetric] group_of_def [symmetric] to_object_def flip: object_keys prefix_entries) (simp add: ref_list_input_def after_def)

text \<open>
  C11. A listing of a bucket of a raw store, page by page. A client asks with a positive page size and follows
  the continuation token of each response. With more requests than entries it comes to an end, and no page has more
  keys and prefixes than the page size. The lists of keys of the responses, one after the other, are every key
  without a delimiter after the prefix, each exactly once and in order; their lists of common prefixes are the
  common prefixes of the other keys, each exactly once and in order; and every entry of a page comes before every entry
  of the pages after it. The backend lists no path twice and none that ends in a slash, and the request does not
  ask for URL encoding.
\<close>

theorem pages_list_everything_once:
  assumes "li_bucket inp \<in> ad_buckets s" and "li_encoding_type inp \<noteq> Some ''url''" and "0 < page_limit inp"
    and "locations_ok (backend_listing E (raw_backend X P) inp s)"
    and "card (entries_of inp (backend_listing E (raw_backend X P) inp s)) < fuel"
  shows "\<exists>pages. list_pages fuel E (raw_backend X P) inp s = Some pages \<and>
    concat (map (\<lambda>out. map ob_key (lo_contents out)) pages) = sorted_list_of_set (plain_entries inp (backend_listing E (raw_backend X P) inp s)) \<and>
    concat (map lo_common_prefixes pages) = sorted_list_of_set (group_entries inp (backend_listing E (raw_backend X P) inp s)) \<and>
    sorted_wrt (\<lambda>p q. \<forall>x \<in> ob_key ` set (lo_contents p) \<union> set (lo_common_prefixes p).
      \<forall>y \<in> ob_key ` set (lo_contents q) \<union> set (lo_common_prefixes q). x < y) pages \<and>
    (\<forall>out \<in> set pages. length (lo_contents out) + length (lo_common_prefixes out) \<le> nat (page_limit inp))"
proof -
  have keys: "page_keys = (\<lambda>out. map ob_key (lo_contents out))" by (simp add: fun_eq_iff page_keys_def)
  show ?thesis using raw.all_pages [OF assms] unfolding pages_ordered_def page_entries_def keys set_map .
qed

theorem pages_list_everything_once_witness:
  "\<exists>pages. list_pages 3 ref_s3 (raw_backend ref_env ref_s3_paths) ref_list_input (adapter_build ref_listing_store {''b''}) = Some pages \<and>
     concat (map (\<lambda>out. map ob_key (lo_contents out)) pages) = [''y''] \<and> concat (map lo_common_prefixes pages) = [''x/'']"
proof -
  have "locations_ok (map (\<lambda>k. (meta_for k ref_extent, 0 :: nat)) [''b/y'', ''b/x/2'', ''b/x/1''])"
    by (simp add: locations_ok_def meta_for_def suffix_def)
  moreover have "li_bucket ref_list_input \<in> ad_buckets (adapter_build ref_listing_store {''b''})"
    "li_encoding_type ref_list_input \<noteq> Some ''url''" "0 < page_limit ref_list_input"
    by (simp_all add: ref_list_input_def adapter_build_def page_limit_def)
  ultimately show ?thesis
    using pages_list_everything_once [of ref_list_input "adapter_build ref_listing_store {''b''}" ref_s3 ref_env ref_s3_paths 3]
    unfolding ref_backend_listing entries_of_def ref_entries by auto
qed

end
