(* ===== verification/S3_Refinement.thy ===== *)
theory S3_Refinement
  imports S3_Registry S3_Pages
begin

text \<open>
  The S3 adapter on a raw store refines an abstract machine: a map of objects and a map of uploads with the bytes of
  their parts. The requests are those that read or change objects and uploads.
\<close>

section \<open>Requests\<close>

datatype s3_request =
    ReqPut req_io put_input
  | ReqGet get_input
  | ReqDelete string string
  | ReqDeleteMany string "string list"
  | ReqCopy req_io copy_input
  | ReqCreate req_io string string s3_headers
  | ReqPart req_io string int "body_stream option"
  | ReqPartCopy req_io string int "(string \<times> string) option" "string option"
  | ReqComplete req_io string string string "int option list option option"
  | ReqAbort string

datatype 'e s3_response = RespDone | RespTag string | RespEtag etag | RespGet "'e get_output" | RespDeleted "string list" | RespUpload string



section \<open>The abstract machine\<close>

record s3_state =
  st_objects :: s3_map
  st_uploads :: "string \<rightharpoonup> s3_upload"

text \<open>
  One request and its response. What a put or a completed upload stores is \<open>spooled data mb\<close>, the body and the metadata
  themselves when the metadata are below 64 KiB. A failed request changes no object. It may lose uploads in two cases: the creation of an
  upload reaps the old ones before it is refused, and a completion that fails before the write of the object drops its upload.
\<close>

inductive s3_step :: "s3_env \<Rightarrow> int \<Rightarrow> s3_request \<Rightarrow> s3_error + 'e s3_response \<Rightarrow> s3_state \<Rightarrow> s3_state \<Rightarrow> bool"
  for E :: s3_env and expiry :: int where
  step_put: "body_of (po_body inp) = Some data \<Longrightarrow> stored_meta E (build_s3_metadata E (po_headers inp)) data = Some mb \<Longrightarrow>
    s3_step E expiry (ReqPut io inp) (Inr (RespTag (se_md5 E data))) st
      (st\<lparr>st_objects := (st_objects st)(obj_key E (po_bucket inp) (po_key inp) \<mapsto> spooled data mb)\<rparr>)"
| step_get: "st_objects st (obj_key E (gi_bucket inp) (gi_key inp)) = Some v \<Longrightarrow> answers E inp v out \<Longrightarrow>
    s3_step E expiry (ReqGet inp) (Inr (RespGet out)) st st"
| step_get_none: "st_objects st (obj_key E (gi_bucket inp) (gi_key inp)) = None \<Longrightarrow>
    s3_step E expiry (ReqGet inp) (Inl S3NoSuchKey) st st"
| step_delete: "s3_step E expiry (ReqDelete bucket key) (Inr RespDone) st (st\<lparr>st_objects := (st_objects st)(obj_key E bucket key := None)\<rparr>)"
| step_delete_many: "set deleted \<subseteq> set keys \<Longrightarrow>
    s3_step E expiry (ReqDeleteMany bucket keys) (Inr (RespDeleted deleted)) st
      (st\<lparr>st_objects := st_objects st |` (- obj_key E bucket ` set deleted)\<rparr>)"
| step_copy: "ci_source inp = Some (src_bucket, src_key) \<Longrightarrow> st_objects st (obj_key E src_bucket src_key) = Some (body, mb) \<Longrightarrow>
    tag = entity_tag E (body, mb) \<Longrightarrow> copied_meta E inp mb tag = Some mb' \<Longrightarrow>
    s3_step E expiry (ReqCopy io inp) (Inr (RespTag tag)) st
      (st\<lparr>st_objects := (st_objects st)(obj_key E (ci_bucket inp) (ci_key inp) \<mapsto> (body, mb'))\<rparr>)"
| step_create: "uid = ri_uuid io \<Longrightarrow>
    s3_step E expiry (ReqCreate io bucket key headers) (Inr (RespUpload uid)) st
      (st\<lparr>st_uploads := (live_uploads io expiry (st_uploads st))(uid \<mapsto> \<lparr>su_bucket = bucket, su_key = key,
         su_metadata = build_s3_metadata E headers, su_created_at = ri_instant io, su_parts = Map.empty\<rparr>)\<rparr>)"
| step_create_refused: "s3_step E expiry (ReqCreate io bucket key headers) (Inl e) st (st\<lparr>st_uploads := live_uploads io expiry (st_uploads st)\<rparr>)"
| step_part: "body_of body = Some data \<Longrightarrow> part_number_ok n \<Longrightarrow> st_uploads st uid \<noteq> None \<Longrightarrow>
    s3_step E expiry (ReqPart io uid n body) (Inr (RespEtag (Strong (se_md5 E data)))) st
      (st\<lparr>st_uploads := add_part uid n data (st_uploads st)\<rparr>)"
| step_part_copy: "source = Some (src_bucket, src_key) \<Longrightarrow> st_objects st (obj_key E src_bucket src_key) = Some (body, mb) \<Longrightarrow>
    copy_range rng (length body) = Inr (first, final) \<Longrightarrow> part_number_ok n \<Longrightarrow> st_uploads st uid \<noteq> None \<Longrightarrow>
    s3_step E expiry (ReqPartCopy io uid n source rng) (Inr (RespEtag (Strong (se_md5 E (slice body first final))))) st
      (st\<lparr>st_uploads := add_part uid n (slice body first final) (st_uploads st)\<rparr>)"
| step_complete: "st_uploads st uid = Some u \<Longrightarrow> ps \<noteq> [] \<Longrightarrow> join_parts (su_parts u) ps = Some data \<Longrightarrow>
    stored_meta E (su_metadata u) data = Some mb \<Longrightarrow>
    s3_step E expiry (ReqComplete io bucket key uid (Some (Some ps))) (Inr (RespEtag (Strong (se_md5 E data)))) st
      (st\<lparr>st_objects := (st_objects st)(obj_key E bucket key \<mapsto> spooled data mb), st_uploads := (st_uploads st)(uid := None)\<rparr>)"
| step_complete_again: "st_uploads st uid = None \<Longrightarrow> st_objects st (obj_key E bucket key) \<noteq> None \<Longrightarrow>
    s3_step E expiry (ReqComplete io bucket key uid parts) (Inr (RespEtag tag)) st st"
| step_complete_lost: "s3_step E expiry (ReqComplete io bucket key uid parts) (Inl e) st (st\<lparr>st_uploads := (st_uploads st)(uid := None)\<rparr>)"
| step_abort: "st_uploads st uid \<noteq> None \<Longrightarrow>
    s3_step E expiry (ReqAbort uid) (Inr RespDone) st (st\<lparr>st_uploads := (st_uploads st)(uid := None)\<rparr>)"
| step_fail: "(\<And>inp. req = ReqGet inp \<Longrightarrow> e = S3NoSuchKey \<Longrightarrow> False) \<Longrightarrow> s3_step E expiry req (Inl e) st st"

text \<open>A failed request changes no object.\<close>

lemma failure_keeps_objects: "s3_step E expiry req (Inl e) st st' \<Longrightarrow> st_objects st' = st_objects st"
  by (cases rule: s3_step.cases) auto

section \<open>Refinement\<close>







lemma same_objects [simp]: "st\<lparr>st_objects := st_objects st\<rparr> = st" "st\<lparr>st_uploads := st_uploads st\<rparr> = st"
  by simp_all















section \<open>The theorem\<close>










section \<open>Limits of the handlers\<close>

text \<open>
  The length of the encoded metadata is cut to 16 bits on the way through a temporary file. With 64 KiB or more the
  object that is stored has the first 64 KiB of its metadata at the end of its body.
\<close>

lemma spooled_metadata_wraps:
  assumes "2 ^ 16 \<le> length mb" and "length mb < 2 ^ 17"
  shows "spooled data mb = (data @ take (2 ^ 16) mb, drop (2 ^ 16) mb)"
proof -
  have "length mb mod 2 ^ 16 = length mb - 2 ^ 16" using assms by (simp add: mod_if)
  then show ?thesis using assms(1) by (simp add: spooled_def split_meta_def)
qed

text \<open>A range whose last byte is \<open>u64::MAX\<close> passes the range check, and the announced length is negative.\<close>

lemma range_end_wraps:
  assumes "0 < first" and "first < n" and "n < 2 ^ 63"
  shows "range_bounds n (RangeInt first (Some u64_max)) = (first, 0) \<and> as_i64 (usub 0 first) = - int first"
  using assms by (simp add: range_bounds_def uadd_def usub_def u64_max_def as_i64_def)

end
