(* ===== verification/Shard_Uploads.thy ===== *)
theory Shard_Uploads
  imports Copy_Ops Raw_Tools
begin

text \<open>
  Multipart uploads of the sharded store (\<open>put_multipart_opts\<close> and \<open>ShardedMultipartUpload\<close> of
  \<open>shardedobjstr/src/lib.rs\<close>), the registry that tracks them for expiry, and the put of an object
  with metadata from a file (\<open>metadata.rs\<close>).

  The primary target keeps the parts with its own multipart upload, whose methods are the parameter
  record \<open>upload_api\<close>; \<open>'u\<close> is the handle and \<open>'o\<close> the options that are passed on. A handle
  works on the store that the sharded upload took from its slot when it was started. The registry
  and the catalog that an upload refers to are those of the cluster.
\<close>

section \<open>Tracking\<close>

definition register_multipart :: "int \<Rightarrow> string \<Rightarrow> nat \<Rightarrow> 's sharded \<Rightarrow> nat \<times> 's sharded" where
  "register_multipart now location primary_shard_id c =
     (let tid = sh_next_upload_id c
      in (tid, c\<lparr>sh_next_upload_id := uadd tid 1,
             sh_multipart_uploads := hm_insert tid
               \<lparr>tu_location = location, tu_created_at = now, tu_primary_shard_id = primary_shard_id\<rparr>
               (sh_multipart_uploads c)\<rparr>))"

definition untrack :: "nat \<Rightarrow> 's sharded \<Rightarrow> 's sharded" where
  "untrack tid c = c\<lparr>sh_multipart_uploads := hm_remove tid (sh_multipart_uploads c)\<rparr>"

definition multipart_upload_count :: "'s sharded \<Rightarrow> nat" where
  "multipart_upload_count c = length (sh_multipart_uploads c)"

text \<open>\<open>duration_since\<close> is zero for a time that is still to come.\<close>

definition upload_age :: "int \<Rightarrow> tracked_upload \<Rightarrow> int" where
  "upload_age now u = max 0 (now - tu_created_at u)"

definition tracked_uploads :: "int \<Rightarrow> 's sharded \<Rightarrow> (nat \<times> string \<times> int \<times> nat) list" where
  "tracked_uploads now c =
     map (\<lambda>(tid, u). (tid, tu_location u, upload_age now u, tu_primary_shard_id u)) (sh_multipart_uploads c)"

definition stale_uploads :: "int \<Rightarrow> 's sharded \<Rightarrow> (nat \<times> string \<times> nat) list" where
  "stale_uploads now c =
     map (\<lambda>(tid, u). (tid, tu_location u, tu_primary_shard_id u))
       (filter (\<lambda>(_, u). upload_age now u > sh_multipart_expiry c) (sh_multipart_uploads c))"

fun purge_loop ::
  "('s, 'e) store_ops \<Rightarrow> (nat \<times> string \<times> nat) list \<Rightarrow> nat \<Rightarrow> 's sharded \<Rightarrow> nat \<times> 's sharded" where
  "purge_loop D [] purged c = (purged, c)"
| "purge_loop D ((tid, location, primary_shard_id) # rest) purged c =
     (let c1 = (case shard_at c primary_shard_id of
            Some s \<Rightarrow> snd (on_slot (so_delete D location) (si_store s) c)
          | None \<Rightarrow> c)
      in purge_loop D rest (purged + 1) (untrack tid c1))"

definition purge_stale_multiparts :: "('s, 'e) store_ops \<Rightarrow> int \<Rightarrow> 's sharded \<Rightarrow> nat \<times> 's sharded" where
  "purge_stale_multiparts D now c =
     (let stale = stale_uploads now c in if stale = [] then (0, c) else purge_loop D stale 0 c)"

section \<open>Starting an upload\<close>

text \<open>
  \<open>ua_size\<close> is the size in the metadata of a get result, \<open>ua_crc32c_append\<close> the running checksum
  of the \<open>crc32c\<close> crate. A put result is not looked at.
\<close>

record ('s, 'e, 'o, 'u) upload_api =
  ua_start :: "'o \<Rightarrow> string \<Rightarrow> 's \<Rightarrow> ('e + 'u) \<times> 's"
  ua_put_part :: "int \<Rightarrow> byte list \<Rightarrow> 'u \<Rightarrow> 's \<Rightarrow> ('e + unit) \<times> 'u \<times> 's"
  ua_complete :: "int \<Rightarrow> 'u \<Rightarrow> 's \<Rightarrow> ('e + unit) \<times> 'u \<times> 's"
  ua_abort :: "'u \<Rightarrow> 's \<Rightarrow> ('e + unit) \<times> 'u \<times> 's"
  ua_size :: "string \<Rightarrow> 's \<Rightarrow> nat"
  ua_crc32c_append :: "u32 \<Rightarrow> byte list \<Rightarrow> u32"

record 'u sharded_upload =
  su_location :: string
  su_primary_upload :: 'u
  su_primary_shard_id :: nat
  su_primary_store :: store_ref
  su_replica_stores :: "(nat \<times> store_ref) list"
  su_tracking_id :: nat
  su_min_writes :: nat
  su_raw_refs :: "raw_ref_registry option"

datatype 'e upload_error =
    UpShard "'e shard_error"
  | UpInsufficientWrites string nat nat "(nat \<times> 'e meta_error) list"

text \<open>One attempt: the primary shard opens the upload, which is then registered.\<close>

definition start_upload ::
  "('s, 'e, 'o, 'u) upload_api \<Rightarrow> 'o \<Rightarrow> int \<Rightarrow> string \<Rightarrow> nat list \<Rightarrow> 's sharded \<Rightarrow>
     ('e slot_error + 'u sharded_upload) \<times> 's sharded" where
  "start_upload U opts now location targets c =
     (let primary_id = hd targets;
          primary_store = si_store (sh_shards c ! primary_id);
          replica_stores = stores_of c (tl targets)
      in case on_slot (ua_start U opts location) primary_store c of
           (Inl e, c1) \<Rightarrow> (Inl e, c1)
         | (Inr primary_upload, c1) \<Rightarrow>
             (case register_multipart now location primary_id c1 of (tid, c2) \<Rightarrow>
                (Inr \<lparr>su_location = location, su_primary_upload = primary_upload,
                   su_primary_shard_id = primary_id, su_primary_store = primary_store,
                   su_replica_stores = replica_stores, su_tracking_id = tid,
                   su_min_writes = sh_min_writes c2, su_raw_refs = sh_raw_refs c2\<rparr>, c2)))"

definition sharded_put_multipart_opts ::
  "('s, 'e) store_ops \<Rightarrow> ('s, 'e, 'o, 'u) upload_api \<Rightarrow> 'o \<Rightarrow> int \<Rightarrow> string \<Rightarrow> 's sharded \<Rightarrow>
     ('e shard_error + 'u sharded_upload) \<times> 's sharded" where
  "sharded_put_multipart_opts D U opts now location c =
     (if sh_read_only c then (Inl ShReadOnly, c)
      else
        (let targets = select_targets D location c in
         if targets = [] then (Inl NoShards, c)
         else
           (case start_upload U opts now location targets c of
              (Inr up, c1) \<Rightarrow> (Inr up, c1)
            | (Inl _, c1) \<Rightarrow>
                (let c2 = mark_offline now (hd targets) c1; retry_targets = select_targets D location c2 in
                 if retry_targets = [] then (Inl NoShards, c2)
                 else
                   (case start_upload U opts now location retry_targets c2 of
                      (Inr up, c3) \<Rightarrow> (Inr up, c3)
                    | (Inl e, c3) \<Rightarrow> (Inl (ShStore e), c3))))))"

section \<open>Parts, completion, abort\<close>

text \<open>A call on the handle of the primary shard.\<close>

definition on_upload ::
  "('u \<Rightarrow> 's \<Rightarrow> ('e + 'r) \<times> 'u \<times> 's) \<Rightarrow> 'u sharded_upload \<Rightarrow> 's sharded \<Rightarrow>
     ('e slot_error + 'r) \<times> 'u sharded_upload \<times> 's sharded" where
  "on_upload f up c =
     (case su_primary_store up of
        Placeholder sid \<Rightarrow> (Inl (SlotOffline sid), up, c)
      | StoreAt a \<Rightarrow>
          (case f (su_primary_upload up) (sh_heap c a) of (r, u, s) \<Rightarrow>
             (case r of Inl e \<Rightarrow> Inl (SlotError e) | Inr x \<Rightarrow> Inr x,
              up\<lparr>su_primary_upload := u\<rparr>, c\<lparr>sh_heap := (sh_heap c)(a := s)\<rparr>)))"

definition sharded_put_part ::
  "('s, 'e, 'o, 'u) upload_api \<Rightarrow> int \<Rightarrow> byte list \<Rightarrow> 'u sharded_upload \<Rightarrow> 's sharded \<Rightarrow>
     ('e slot_error + unit) \<times> 'u sharded_upload \<times> 's sharded" where
  "sharded_put_part U now payload up c = on_upload (ua_put_part U now payload) up c"

definition replicate_part ::
  "('s, 'e) store_ops \<Rightarrow> ('s, 'e) meta_api \<Rightarrow> int \<Rightarrow> raw_ref_registry option \<Rightarrow> string \<Rightarrow> byte list \<Rightarrow> byte list \<Rightarrow>
     nat \<Rightarrow> store_ref \<Rightarrow> 's sharded \<Rightarrow> ('e meta_error + unit) \<times> 's sharded" where
  "replicate_part D M now raw_refs location data meta sid store c =
     (case raw_refs of
        Some refs \<Rightarrow>
          (if meta \<noteq> [] then write_with_meta_to_shard D M now refs sid store location data meta c
           else on_slot_with MdStore (so_put D now location data) store c)
      | None \<Rightarrow> on_slot_with MdStore (so_put D now location data) store c)"

text \<open>The clean-up below the quorum: the replicas that were written, then the primary.\<close>

definition drop_incomplete ::
  "('s, 'e) store_ops \<Rightarrow> 'u sharded_upload \<Rightarrow> nat list \<Rightarrow> 's sharded \<Rightarrow> 's sharded" where
  "drop_incomplete D up placed c =
     snd (on_slot (so_delete D (su_location up)) (su_primary_store up)
       (fold (\<lambda>(shard_id, store) c1. snd (on_slot (so_delete D (su_location up)) store c1))
         (filter (\<lambda>(shard_id, _). shard_id \<in> set placed) (su_replica_stores up)) c))"

definition complete_replicated ::
  "('s, 'e) store_ops \<Rightarrow> ('s, 'e) meta_api \<Rightarrow> int \<Rightarrow> 'u sharded_upload \<Rightarrow> 's sharded \<Rightarrow>
     ('e upload_error + unit) \<times> 's sharded" where
  "complete_replicated D M now up c =
     (case on_slot (get_with_attrs D M (su_location up)) (su_primary_store up) c of
        (Inl e, c1) \<Rightarrow> (Inl (UpShard (ShStore e)), c1)
      | (Inr (Inl e, _), c1) \<Rightarrow> (Inl (UpShard (ShStore (SlotError e))), c1)
      | (Inr (Inr data, attributes), c1) \<Rightarrow>
          (case (case su_raw_refs up of
                   Some refs \<Rightarrow>
                     read_metadata_from_shard D M (su_primary_store up) (su_primary_shard_id up) (su_location up)
                       attributes refs c1
                 | None \<Rightarrow> (None, c1)) of (md, c2) \<Rightarrow>
             let meta_bytes = (case md of Some b \<Rightarrow> b | None \<Rightarrow> []) in
             case fan_out (replicate_part D M now (su_raw_refs up) (su_location up) data meta_bytes)
                    (su_replica_stores up) c2 of (outcomes, c3) \<Rightarrow>
             let placed = su_primary_shard_id up # oks outcomes in
             if length placed < su_min_writes up
             then (Inl (UpInsufficientWrites (su_location up) (su_min_writes up) (length placed) (errs outcomes)),
                   drop_incomplete D up placed c3)
             else (Inr (), update_catalog (catalog_put now (su_location up) placed (length data)
                     (Some (so_crc32c D data)) (length meta_bytes mod 65536)) c3)))"

definition complete_single ::
  "('s, 'e) store_ops \<Rightarrow> ('s, 'e) meta_api \<Rightarrow> ('s, 'e, 'o, 'u) upload_api \<Rightarrow> int \<Rightarrow> 'u sharded_upload \<Rightarrow> 's sharded \<Rightarrow>
     ('e upload_error + unit) \<times> 's sharded" where
  "complete_single D M U now up c =
     (case on_slot (\<lambda>s. case so_get D None (su_location up) s of
                 (Inl e, s1) \<Rightarrow> (Inl e, s1)
               | (Inr body, s1) \<Rightarrow> (Inr (body, ua_size U (su_location up) s), s1)) (su_primary_store up) c of
        (Inl e, c1) \<Rightarrow> (Inl (UpShard (ShStore e)), c1)
      | (Inr (Inl e, _), c1) \<Rightarrow> (Inl (UpShard (ShStore (SlotError e))), c1)
      | (Inr (Inr data, obj_size), c1) \<Rightarrow>
          (let single_meta_len = (case su_raw_refs up of
                 None \<Rightarrow> 0
               | Some refs \<Rightarrow>
                   (case (rr_kind refs (su_primary_shard_id up), rr_get refs (su_primary_shard_id up)) of
                      (RawKind, Some a) \<Rightarrow>
                        (case ma_get_metadata M (su_location up) (sh_heap c1 a) of
                           Inr b \<Rightarrow> length b mod 65536
                         | Inl _ \<Rightarrow> 0)
                    | _ \<Rightarrow> 0))
           in (Inr (), update_catalog (catalog_put now (su_location up) [su_primary_shard_id up] obj_size
                 (Some (ua_crc32c_append U 0 data)) single_meta_len) c1)))"

definition sharded_complete ::
  "('s, 'e) store_ops \<Rightarrow> ('s, 'e) meta_api \<Rightarrow> ('s, 'e, 'o, 'u) upload_api \<Rightarrow> int \<Rightarrow> 'u sharded_upload \<Rightarrow> 's sharded \<Rightarrow>
     ('e upload_error + unit) \<times> 'u sharded_upload \<times> 's sharded" where
  "sharded_complete D M U now up c =
     (case on_upload (ua_complete U now) up c of
        (Inl e, up1, c1) \<Rightarrow> (Inl (UpShard (ShStore e)), up1, c1)
      | (Inr _, up1, c1) \<Rightarrow>
          (case (if su_replica_stores up1 \<noteq> []
                 then complete_replicated D M now up1 (untrack (su_tracking_id up1) c1)
                 else complete_single D M U now up1 (untrack (su_tracking_id up1) c1)) of (r, c2) \<Rightarrow>
             (r, up1, c2)))"

definition sharded_abort ::
  "('s, 'e, 'o, 'u) upload_api \<Rightarrow> 'u sharded_upload \<Rightarrow> 's sharded \<Rightarrow>
     ('e slot_error + unit) \<times> 'u sharded_upload \<times> 's sharded" where
  "sharded_abort U up c = on_upload (ua_abort U) up (untrack (su_tracking_id up) c)"

section \<open>Put from a file\<close>

text \<open>
  The file of an upload, as the calls see it: what the size query returns, what reading the metadata
  suffix returns (the seek included), the reads of the checksum pass, the file as the write to each
  shard sees it after its seek, and the reads of the whole file for shards of other kinds.
\<close>

record upload_file =
  uf_len :: "nat option"
  uf_suffix :: "io_kind + byte list"
  uf_body :: "io_kind + (io_kind + byte list) list"
  uf_pass :: "nat \<Rightarrow> io_kind + source_file"
  uf_all :: "io_kind + (io_kind + byte list) list"

record 's file_api =
  fa_put_from_file :: "int \<Rightarrow> string \<Rightarrow> source_file \<Rightarrow> nat \<Rightarrow> 's \<Rightarrow> unit result \<times> 's"
  fa_crc32c_append :: "u32 \<Rightarrow> byte list \<Rightarrow> u32"

definition CRC_BUF :: nat where
  "CRC_BUF = 1024 * 1024"

text \<open>A read delivers at most what the buffer and the rest of the body have room for.\<close>

fun crc_file_loop :: "(u32 \<Rightarrow> byte list \<Rightarrow> u32) \<Rightarrow> nat \<Rightarrow> u32 \<Rightarrow> (io_kind + byte list) list \<Rightarrow> u32 result" where
  "crc_file_loop app remaining crc [] = Inr crc"
| "crc_file_loop app remaining crc (r # rest) =
     (if remaining > 0 then
        (case r of
           Inl k \<Rightarrow> Inl (Io k)
         | Inr c \<Rightarrow>
             (let b = take (min remaining CRC_BUF) c in
              if b = [] then Inr crc else crc_file_loop app (remaining - length b) (app crc b) rest))
      else Inr crc)"

fun file_put_targets ::
  "'s file_api \<Rightarrow> int \<Rightarrow> raw_ref_registry \<Rightarrow> string \<Rightarrow> upload_file \<Rightarrow> nat \<Rightarrow> nat list \<Rightarrow> 's sharded \<Rightarrow>
     (nat \<times> unit result) list result \<times> 's sharded" where
  "file_put_targets F now refs location src meta_len [] c = (Inr [], c)"
| "file_put_targets F now refs location src meta_len (shard_id # rest) c =
     (case rr_get refs shard_id of
        None \<Rightarrow> file_put_targets F now refs location src meta_len rest c
      | Some a \<Rightarrow>
          (case uf_pass src shard_id of
             Inl k \<Rightarrow> (Inl (Io k), c)
           | Inr sf \<Rightarrow>
               (case fa_put_from_file F now location sf meta_len (sh_heap c a) of (r, s) \<Rightarrow>
                  (case file_put_targets F now refs location src meta_len rest (c\<lparr>sh_heap := (sh_heap c)(a := s)\<rparr>) of
                     (Inl e, c2) \<Rightarrow> (Inl e, c2)
                   | (Inr rs, c2) \<Rightarrow> (Inr ((shard_id, r) # rs), c2)))))"

definition commit_from_file ::
  "('s, 'e) store_ops \<Rightarrow> int \<Rightarrow> string \<Rightarrow> nat \<Rightarrow> u32 \<Rightarrow> nat \<Rightarrow> (nat \<times> unit result) list \<Rightarrow> 's sharded \<Rightarrow>
     ('e meta_error + unit) \<times> 's sharded" where
  "commit_from_file D now location body_len crc meta_len outcomes c =
     (let placed = oks outcomes; failures = errs outcomes in
      if placed = []
      then (Inl (MdRaw (if failures = [] then NotFound location else snd (last failures))), c)
      else if length placed < sh_min_writes c
      then (Inl (MdRaw (InsufficientWrites location (sh_min_writes c) (length placed))),
            cleanup_orphaned_writes D location placed c)
      else (Inr (), update_catalog (catalog_put now location placed body_len (Some crc) meta_len) c))"

definition put_raw_from_file ::
  "('s, 'e) store_ops \<Rightarrow> 's file_api \<Rightarrow> int \<Rightarrow> raw_ref_registry \<Rightarrow> string \<Rightarrow> upload_file \<Rightarrow> nat \<Rightarrow> 's sharded \<Rightarrow>
     ('e meta_error + unit) \<times> 's sharded" where
  "put_raw_from_file D F now refs location src meta_len c =
     (let targets = select_targets D location c;
          body_len = saturating_sub (case uf_len src of Some n \<Rightarrow> n | None \<Rightarrow> 0) meta_len
      in case uf_suffix src of
           Inl k \<Rightarrow> (Inl (MdRaw (Io k)), c)
         | Inr _ \<Rightarrow>
             (case uf_body src of
                Inl k \<Rightarrow> (Inl (MdRaw (Io k)), c)
              | Inr reads \<Rightarrow>
                  (case crc_file_loop (fa_crc32c_append F) body_len 0 reads of
                     Inl e \<Rightarrow> (Inl (MdRaw e), c)
                   | Inr crc \<Rightarrow>
                       (case file_put_targets F now refs location src meta_len targets c of
                          (Inl e, c1) \<Rightarrow> (Inl (MdRaw e), c1)
                        | (Inr outcomes, c1) \<Rightarrow>
                            (case mark_write_failures D now (oks outcomes) (map fst (errs outcomes)) targets location c1 of
                               (retry_ids, c2) \<Rightarrow>
                                 (case (if oks outcomes = [] \<and> retry_ids \<noteq> []
                                        then file_put_targets F now refs location src meta_len retry_ids c2
                                        else (Inr [], c2)) of
                                    (Inl e, c3) \<Rightarrow> (Inl (MdRaw e), c3)
                                  | (Inr outcomes2, c3) \<Rightarrow>
                                      commit_from_file D now location body_len crc meta_len (outcomes @ outcomes2) c3))))))"

definition sharded_put_meta_from_file ::
  "('s, 'e) store_ops \<Rightarrow> ('s, 'e) meta_api \<Rightarrow> 's file_api \<Rightarrow> int \<Rightarrow> raw_ref_registry \<Rightarrow> string \<Rightarrow> upload_file \<Rightarrow> nat \<Rightarrow>
     's sharded \<Rightarrow> ('e meta_error + unit) \<times> 's sharded" where
  "sharded_put_meta_from_file D M F now refs location src meta_len c =
     (if list_all (\<lambda>sid. rr_kind refs sid = RawKind) (select_targets D location c)
      then put_raw_from_file D F now refs location src meta_len c
      else case uf_all src of
        Inl k \<Rightarrow> (Inl (MdRaw (Io k)), c)
      | Inr reads \<Rightarrow>
          (case read_to_end reads of
             Inl e \<Rightarrow> (Inl (MdRaw e), c)
           | Inr buf \<Rightarrow>
               (let payload_end = saturating_sub (length buf) meta_len
                in sharded_put_with_meta D M now refs location (take payload_end buf) (drop payload_end buf) c)))"

end
