(* ===== verification/Upload_Ops.thy ===== *)
theory Upload_Ops
  imports Shard_Uploads
begin

text \<open>
  What the multipart uploads of the sharded store do to the shards and to the catalog, when every
  shard keeps the contract \<open>upload_store\<close>: the registry, the start of an upload, its parts, its
  completion with the replication of the assembled object, and the put from a file.
\<close>

section \<open>The registry\<close>

lemma track_frame [simp]:
  "frame c (untrack tid d) = frame c d" "sh_heap (untrack tid c) = sh_heap c" "sh_catalog (untrack tid c) = sh_catalog c"
  "sh_shards (untrack tid c) = sh_shards c" "slots (untrack tid c) = slots c"
  "heap_rep holds (untrack tid c) H = heap_rep holds c H"
  by (simp_all add: untrack_def frame_def slots_def heap_rep_def)

text \<open>The registry is well-formed: one record per id, and every id was handed out by the counter.\<close>

definition uploads_ok :: "'s sharded \<Rightarrow> bool" where
  "uploads_ok c \<longleftrightarrow> hm_wf (sh_multipart_uploads c) \<and> (\<forall>tid u. hm_get (sh_multipart_uploads c) tid = Some u \<longrightarrow> tid < sh_next_upload_id c)"

lemma register_spec:
  assumes "uploads_ok c" and "sh_next_upload_id c + 1 < 2 ^ 64" and "register_multipart now loc sid c = (tid, c')"
  shows "uploads_ok c' \<and> hm_get (sh_multipart_uploads c) tid = None \<and>
    hm_get (sh_multipart_uploads c') = (hm_get (sh_multipart_uploads c))(tid \<mapsto>
      \<lparr>tu_location = loc, tu_created_at = now, tu_primary_shard_id = sid\<rparr>)"
proof -
  have "hm_get (sh_multipart_uploads c) (sh_next_upload_id c) = None"
    using assms(1) unfolding uploads_ok_def by (metis less_irrefl option.exhaust)
  then show ?thesis
    using assms by (auto simp: register_multipart_def uploads_ok_def Let_def hm_simps uadd_def less_Suc_eq split: if_splits)
qed

lemma on_slot_registry:
  "sh_multipart_uploads (snd (on_slot f ref c)) = sh_multipart_uploads c"
  "sh_next_upload_id (snd (on_slot f ref c)) = sh_next_upload_id c"
  by (simp_all add: on_slot_def split: store_ref.splits prod.splits)

lemma purge_loop_registry:
  "fst (purge_loop D stale n c) = n + length stale"
  "hm_get (sh_multipart_uploads (snd (purge_loop D stale n c))) = (hm_get (sh_multipart_uploads c)) |` (- fst ` set stale)"
  by (induction D stale n c rule: purge_loop.induct)
    (auto simp: Let_def untrack_def on_slot_registry hm_simps fun_eq_iff restrict_map_def split: option.splits)

text \<open>A purge counts the uploads that are past the expiry and removes exactly them from the registry.\<close>

lemma purge_exact:
  assumes "uploads_ok c" and "purge_stale_multiparts D now c = (n, c')"
  shows "n = length (filter (\<lambda>(_, u). upload_age now u > sh_multipart_expiry c) (sh_multipart_uploads c)) \<and>
    hm_get (sh_multipart_uploads c') tid =
      (case hm_get (sh_multipart_uploads c) tid of
         Some u \<Rightarrow> if upload_age now u > sh_multipart_expiry c then None else Some u
       | None \<Rightarrow> None)"
proof -
  let ?s = "stale_uploads now c"
  have wf: "hm_wf (sh_multipart_uploads c)" using assms(1) by (simp add: uploads_ok_def)
  have run: "n = length ?s" "hm_get (sh_multipart_uploads c') = (hm_get (sh_multipart_uploads c)) |` (- fst ` set ?s)"
    using assms(2) purge_loop_registry [of D ?s 0 c]
    by (auto simp: purge_stale_multiparts_def Let_def split: if_splits)
  have "tid \<in> fst ` set ?s \<longleftrightarrow> (\<exists>u. hm_get (sh_multipart_uploads c) tid = Some u \<and> upload_age now u > sh_multipart_expiry c)"
    by (force simp: stale_uploads_def hm_get_iff [OF wf])
  then show ?thesis using run by (auto simp: stale_uploads_def restrict_map_def split: option.splits)
qed

section \<open>The contract of a shard's uploads\<close>

text \<open>
  A store may keep parts as objects under the keys \<open>spool\<close>. \<open>handle u k\<close>: \<open>u\<close> is an upload to the
  key \<open>k\<close>; \<open>spooled u s b\<close>: its parts in the state \<open>s\<close> are together \<open>b\<close>.
\<close>

locale upload_store = meta_store D holds M for D :: "('s, 'e) store_ops" and holds and M +
  fixes U :: "('s, 'e, 'o, 'u) upload_api" and handle :: "'u \<Rightarrow> string \<Rightarrow> bool"
    and spooled :: "'u \<Rightarrow> 's \<Rightarrow> byte list \<Rightarrow> bool" and spool :: "string set"
  assumes start_law: "holds s A \<Longrightarrow> ua_start U opts k s = (ru, s') \<Longrightarrow>
      holds s' A \<and> (\<forall>u. ru = Inr u \<longrightarrow> handle u k \<and> spooled u s' [])"
    and part_law: "holds s A \<Longrightarrow> handle u k \<Longrightarrow> length d < 2 ^ 63 \<Longrightarrow> ua_put_part U now d u s = (r, u', s') \<Longrightarrow>
      (\<exists>A'. holds s' A' \<and> (\<forall>j. j \<notin> spool \<longrightarrow> A' j = A j)) \<and> handle u' k \<and>
      (is_ok r \<longrightarrow> (\<forall>b. spooled u s b \<longrightarrow> spooled u' s' (b @ d)))"
    and complete_law: "holds s A \<Longrightarrow> handle u k \<Longrightarrow> spooled u s b \<Longrightarrow> k \<notin> spool \<Longrightarrow> length b < 2 ^ 63 \<Longrightarrow>
      ua_complete U now u s = (r, u', s') \<Longrightarrow>
      \<exists>A'. holds s' A' \<and> (\<forall>j. j \<notin> spool \<and> j \<noteq> k \<longrightarrow> A' j = A j) \<and> A' k = (if is_ok r then Some b else A k)"
    and abort_law: "holds s A \<Longrightarrow> handle u k \<Longrightarrow> ua_abort U u s = (r, u', s') \<Longrightarrow>
      \<exists>A'. holds s' A' \<and> (\<forall>j. j \<notin> spool \<longrightarrow> A' j = A j)"
    and size_law: "holds s A \<Longrightarrow> A k = Some d \<Longrightarrow> ua_size U k s = length d"
    and append_law: "holds s A \<Longrightarrow> ua_crc32c_append U 0 d = so_crc32c D d"

text \<open>The stores of an upload are those of the slots, each shard once.\<close>

definition upload_ok :: "'u sharded_upload \<Rightarrow> 's sharded \<Rightarrow> bool" where
  "upload_ok up c \<longleftrightarrow>
     distinct (su_primary_shard_id up # map fst (su_replica_stores up)) \<and>
     (\<forall>(sid, ref) \<in> set ((su_primary_shard_id up, su_primary_store up) # su_replica_stores up).
        sid < length (sh_shards c) \<and> slots c ! sid = ref)"

lemma upload_ok_cong:
  assumes "frame c c'"
  shows "upload_ok (up\<lparr>su_primary_upload := u\<rparr>) c' = upload_ok up c"
  using assms frame_length [OF assms] by (simp add: upload_ok_def frame_def)

definition spooled_in :: "('u \<Rightarrow> 's \<Rightarrow> byte list \<Rightarrow> bool) \<Rightarrow> 'u sharded_upload \<Rightarrow> 's sharded \<Rightarrow> byte list \<Rightarrow> bool" where
  "spooled_in spooled up c b \<longleftrightarrow>
     (\<exists>a. su_primary_store up = StoreAt a \<and> spooled (su_primary_upload up) (sh_heap c a) b)"

lemma fan_out_ids:
  "\<forall>(sid, ref) \<in> set stores. ref = g sid \<Longrightarrow> fan_out f stores c = fan_ids (\<lambda>sid. f sid (g sid)) (map fst stores) c"
  by (induction f stores c rule: fan_out.induct) (auto split: prod.splits)

section \<open>Start and parts\<close>

context upload_store
begin

lemma start_upload_spec:
  assumes rep: "heap_rep holds c H" and t: "distinct targets" "\<forall>sid\<in>set targets. sid < length (sh_shards c)" "targets \<noteq> []"
    and run: "start_upload U opts now loc targets c = (r, c')"
  shows "frame c c' \<and> sh_catalog c' = sh_catalog c \<and> heap_rep holds c' H \<and>
    (\<forall>up. r = Inr up \<longrightarrow> upload_ok up c' \<and> su_location up = loc \<and> handle (su_primary_upload up) loc \<and> spooled_in spooled up c' [] \<and>
       su_primary_shard_id up # map fst (su_replica_stores up) = targets \<and>
       su_min_writes up = sh_min_writes c \<and> su_raw_refs up = sh_raw_refs c \<and>
       hm_get (sh_multipart_uploads c') (su_tracking_id up) \<noteq> None)"
proof -
  let ?p = "hd targets" let ?ref = "si_store (sh_shards c ! ?p)"
  have p: "?p < length (sh_shards c)" "targets = ?p # tl targets" using t(2,3) by (auto simp: list.expand)
  obtain r1 c1 where s: "on_slot (ua_start U opts loc) ?ref c = (r1, c1)" by fastforce
  note k1 = heap_only_keeps [OF on_slot_frame [OF s]]
  have rep1: "heap_rep holds c1 H"
    by (rule on_slot_read(1) [where P = "\<lambda>_ _. True", OF _ rep s]) (use start_law in blast)
  show ?thesis
  proof (cases r1)
    case (Inl e)
    with run s have "r = Inl e" "c' = c1" by (simp_all add: start_upload_def Let_def)
    with k1 rep1 show ?thesis by simp
  next
    case (Inr u)
    obtain tid c2 where reg: "register_multipart now loc ?p c1 = (tid, c2)" by fastforce
    then have c2: "frame c c2" "sh_catalog c2 = sh_catalog c" "heap_rep holds c2 H" "sh_heap c2 = sh_heap c1"
      "hm_get (sh_multipart_uploads c2) tid \<noteq> None"
      using k1 rep1 by (auto simp: register_multipart_def Let_def frame_def slots_def heap_rep_def hm_simps)
    have r: "r = Inr \<lparr>su_location = loc, su_primary_upload = u, su_primary_shard_id = ?p, su_primary_store = ?ref,
        su_replica_stores = stores_of c (tl targets), su_tracking_id = tid, su_min_writes = sh_min_writes c2,
        su_raw_refs = sh_raw_refs c2\<rparr>" "c' = c2"
      using run s Inr reg by (auto simp: start_upload_def Let_def)
    have fst_stores: "map fst (stores_of c (tl targets)) = tl targets"
      using t(2) p(2) by (simp add: stores_of_def comp_def filter_id_conv) (metis list.set_intros(2))
    obtain a where a: "?ref = StoreAt a" "ua_start U opts loc (sh_heap c a) = (Inr u, sh_heap c1 a)"
      using s Inr by (auto simp: on_slot_def split: store_ref.splits prod.splits sum.splits)
    have u: "handle u loc \<and> spooled u (sh_heap c1 a) []"
      using start_law [OF _ a(2)] rep unfolding heap_rep_def by blast
    have st: "\<forall>(sid, ref)\<in>set (stores_of c (tl targets)). sid < length (sh_shards c) \<and> slots c ! sid = ref"
      by (auto simp: stores_of_slots)
    have d: "distinct (?p # tl targets)" using t(1) p(2) by metis
    have "slots c2 = slots c" "length (sh_shards c2) = length (sh_shards c)"
      using c2(1) frame_length [OF c2(1)] by (simp_all add: frame_def)
    then have "upload_ok up c2" if "r = Inr up" for up
      using that p(1) d st fst_stores by (auto simp: r(1) upload_ok_def slots_nth simp flip: set_map)
    then show ?thesis
      using c2 u a(1) p(2) fst_stores by (auto simp: r spooled_in_def frame_def)
  qed
qed

lemma put_multipart_spec:
  assumes rep: "heap_rep holds c H" and run: "sharded_put_multipart_opts D U opts now loc c = (r, c')"
  shows "frame c c' \<and> sh_catalog c' = sh_catalog c \<and> heap_rep holds c' H \<and>
    (\<forall>up. r = Inr up \<longrightarrow> \<not> sh_read_only c \<and> upload_ok up c' \<and> su_location up = loc \<and> handle (su_primary_upload up) loc \<and>
       spooled_in spooled up c' [] \<and> su_min_writes up = sh_min_writes c \<and> su_raw_refs up = sh_raw_refs c \<and>
       hm_get (sh_multipart_uploads c') (su_tracking_id up) \<noteq> None)"
proof (cases "sh_read_only c \<or> select_targets D loc c = []")
  case True
  with run rep show ?thesis by (auto simp: sharded_put_multipart_opts_def Let_def split: if_splits)
next
  case False
  let ?t = "select_targets D loc c"
  have targets: "distinct (select_targets D loc d)" "\<forall>sid\<in>set (select_targets D loc d). sid < length (sh_shards d)" for d :: "'s sharded"
    using select_targets_spec(1,2) [where D = D and path = loc and c = d] by auto
  obtain r1 c1 where s1: "start_upload U opts now loc ?t c = (r1, c1)" by fastforce
  note h1 = start_upload_spec [OF rep targets _ s1]
  show ?thesis
  proof (cases r1)
    case (Inr up)
    with run s1 False have "r = Inr up" "c' = c1" by (simp_all add: sharded_put_multipart_opts_def Let_def)
    with h1 False Inr show ?thesis by simp
  next
    case (Inl e)
    let ?c2 = "mark_offline now (hd ?t) c1" let ?t2 = "select_targets D loc ?c2"
    note k = mark_keeps(1-3) [where c = c1 and now = now and sid = "hd ?t"]
    have c2: "frame c ?c2" "sh_catalog ?c2 = sh_catalog c" "heap_rep holds ?c2 H"
      using h1 False k by (auto simp: heap_rep_def intro: frame_trans)
    show ?thesis
    proof (cases "?t2 = []")
      case True
      with run s1 False Inl have "r = Inl NoShards" "c' = ?c2" by (simp_all add: sharded_put_multipart_opts_def Let_def)
      with c2 show ?thesis by simp
    next
      case t2: False
      obtain r3 c3 where s3: "start_upload U opts now loc ?t2 ?c2 = (r3, c3)" by fastforce
      note h3 = start_upload_spec [OF c2(3) targets t2 s3]
      have c': "c' = c3" and r: "\<And>up. r = Inr up \<Longrightarrow> r3 = Inr up"
        using run s1 False Inl t2 s3 by (auto simp: sharded_put_multipart_opts_def Let_def split: sum.splits)
      have m: "sh_min_writes ?c2 = sh_min_writes c" "sh_raw_refs ?c2 = sh_raw_refs c" using c2(1) by (simp_all add: frame_def)
      have "frame c c3" using h3 frame_trans [OF c2(1)] by blast
      moreover note h3 [unfolded m c2(2)]
      ultimately show ?thesis using False r unfolding c' by blast
    qed
  qed
qed

text \<open>A call on the primary's handle changes the primary's store, and nothing outside the keys \<open>K\<close> there.\<close>

lemma on_upload_spec:
  assumes rep: "heap_rep holds c H"
    and law: "\<And>a s A r u' s'. su_primary_store up = StoreAt a \<Longrightarrow> s = sh_heap c a \<Longrightarrow> holds s A \<Longrightarrow>
      f (su_primary_upload up) s = (r, u', s') \<Longrightarrow> \<exists>A'. holds s' A' \<and> (\<forall>j. j \<notin> K \<longrightarrow> A' j = A j) \<and> P A (is_ok r) A'"
    and run: "on_upload f up c = (r, up', c')"
  shows "heap_only c c' \<and> (\<exists>H'. heap_rep holds c' H' \<and> same_except K H H' \<and>
    (\<forall>a. su_primary_store up = StoreAt a \<longrightarrow> P (H a) (is_ok r) (H' a)))"
proof (cases "su_primary_store up")
  case (Placeholder sid)
  with run rep show ?thesis by (auto simp: on_upload_def intro!: exI [of _ H])
next
  case (StoreAt a)
  obtain r1 u1 s1 where f: "f (su_primary_upload up) (sh_heap c a) = (r1, u1, s1)" by (metis prod_cases3)
  have c': "c' = c\<lparr>sh_heap := (sh_heap c)(a := s1)\<rparr>" "r = (case r1 of Inl e \<Rightarrow> Inl (SlotError e) | Inr x \<Rightarrow> Inr x)"
    using run f StoreAt by (auto simp: on_upload_def)
  obtain A' where A': "holds s1 A'" "\<forall>j. j \<notin> K \<longrightarrow> A' j = H a j" "P (H a) (is_ok r1) A'"
    using law [OF StoreAt refl _ f, of "H a"] rep by (auto simp: heap_rep_def)
  have "heap_rep holds c' (H(a := A'))" using rep A'(1) by (simp add: heap_rep_def c'(1))
  moreover have "same_except K H (H(a := A'))" using A'(2) by (simp add: same_except_def)
  moreover have "heap_only c c'" unfolding heap_only_def c'(1) by blast
  moreover have "P (H a) (is_ok r) A'" using A'(3) by (cases r1) (simp_all add: c'(2))
  ultimately show ?thesis by (intro conjI exI [of _ "H(a := A')"]) (simp_all add: StoreAt)
qed

lemma put_part_spec:
  assumes rep: "heap_rep holds c H" and h: "handle (su_primary_upload up) k" and len: "length d < 2 ^ 63"
    and run: "sharded_put_part U now d up c = (r, up', c')"
  shows "heap_only c c' \<and> (\<exists>u. up' = up\<lparr>su_primary_upload := u\<rparr> \<and> handle u k) \<and>
    (\<exists>H'. heap_rep holds c' H' \<and> same_except spool H H') \<and>
    (is_ok r \<longrightarrow> (\<forall>b. spooled_in spooled up c b \<longrightarrow> spooled_in spooled up' c' (b @ d)))"
proof -
  have o: "on_upload (ua_put_part U now d) up c = (r, up', c')" using run by (simp add: sharded_put_part_def)
  have "heap_only c c' \<and> (\<exists>H'. heap_rep holds c' H' \<and> same_except spool H H')"
    using on_upload_spec [where P = "\<lambda>_ _ _. True" and K = spool, OF rep _ o] part_law [OF _ h len] by fastforce
  moreover have "\<exists>u. up' = up\<lparr>su_primary_upload := u\<rparr> \<and> handle u k"
  proof (cases "su_primary_store up")
    case (Placeholder sid)
    then show ?thesis using o h by (auto simp: on_upload_def intro!: exI [of _ "su_primary_upload up"])
  next
    case (StoreAt a)
    obtain r1 u1 s1 where f: "ua_put_part U now d (su_primary_upload up) (sh_heap c a) = (r1, u1, s1)" by (metis prod_cases3)
    have "up' = up\<lparr>su_primary_upload := u1\<rparr>" using o f StoreAt by (simp add: on_upload_def)
    moreover have "handle u1 k" using part_law [OF _ h len f] rep unfolding heap_rep_def by blast
    ultimately show ?thesis by blast
  qed
  moreover have "spooled_in spooled up' c' (b @ d)" if ok: "is_ok r" and b: "spooled_in spooled up c b" for b
  proof -
    from b obtain a where a: "su_primary_store up = StoreAt a" "spooled (su_primary_upload up) (sh_heap c a) b"
      by (auto simp: spooled_in_def)
    obtain r1 u1 s1 where f: "ua_put_part U now d (su_primary_upload up) (sh_heap c a) = (r1, u1, s1)" by (metis prod_cases3)
    then have "up' = up\<lparr>su_primary_upload := u1\<rparr>" "sh_heap c' a = s1" "is_ok r1"
      using o ok a(1) by (auto simp: on_upload_def split: sum.splits)
    moreover have "spooled u1 s1 (b @ d)" if "is_ok r1"
      using part_law [OF _ h len f, of "H a"] rep a(2) that by (simp add: heap_rep_def)
    ultimately show ?thesis using a(1) by (simp add: spooled_in_def)
  qed
  ultimately show ?thesis by blast
qed

end

text \<open>Successive parts, up to the first that fails.\<close>

fun put_parts ::
  "('s, 'e, 'o, 'u) upload_api \<Rightarrow> int \<Rightarrow> byte list list \<Rightarrow> 'u sharded_upload \<Rightarrow> 's sharded \<Rightarrow>
     bool \<times> 'u sharded_upload \<times> 's sharded" where
  "put_parts U now [] up c = (True, up, c)"
| "put_parts U now (d # ds) up c =
     (case sharded_put_part U now d up c of (r, up1, c1) \<Rightarrow>
        if is_ok r then put_parts U now ds up1 c1 else (False, up1, c1))"

context upload_store
begin

lemma put_parts_spec:
  assumes "heap_rep holds c H" and "handle (su_primary_upload up) k" and "\<forall>d\<in>set ds. length d < 2 ^ 63"
    and "put_parts U now ds up c = (ok, up', c')" and "spooled_in spooled up c b"
  shows "heap_only c c' \<and> (\<exists>u. up' = up\<lparr>su_primary_upload := u\<rparr> \<and> handle u k) \<and>
    (\<exists>H'. heap_rep holds c' H' \<and> same_except spool H H') \<and> (ok \<longrightarrow> spooled_in spooled up' c' (b @ concat ds))"
  using assms
proof (induction ds arbitrary: up c H b)
  case Nil
  then show ?case by (auto intro!: exI [of _ "su_primary_upload up"])
next
  case (Cons d ds)
  obtain r up1 c1 where p: "sharded_put_part U now d up c = (r, up1, c1)" by (metis prod_cases3)
  from put_part_spec [OF Cons.prems(1,2) _ p] Cons.prems(3) obtain u H1 where
    s: "heap_only c c1" "up1 = up\<lparr>su_primary_upload := u\<rparr>" "handle u k" "heap_rep holds c1 H1" "same_except spool H H1"
      "is_ok r \<Longrightarrow> spooled_in spooled up1 c1 (b @ d)" using Cons.prems(5) by auto
  show ?case
  proof (cases "is_ok r")
    case False
    with Cons.prems(4) p s show ?thesis by auto
  next
    case True
    have run: "put_parts U now ds up1 c1 = (ok, up', c')" using Cons.prems(4) p True by simp
    have h: "handle (su_primary_upload up1) k" using s(2,3) by simp
    from Cons.IH [OF s(4) h _ run s(6) [OF True]] Cons.prems(3) obtain u2 H2 where
      "heap_only c1 c'" "up' = up1\<lparr>su_primary_upload := u2\<rparr>" "handle u2 k" "heap_rep holds c' H2" "same_except spool H1 H2"
      "ok \<longrightarrow> spooled_in spooled up' c' ((b @ d) @ concat ds)" by auto
    with s(2,5) heap_only_trans [OF s(1)] same_except_trans [OF s(5), of spool] show ?thesis by auto
  qed
qed

end

section \<open>Completion\<close>

definition upload_fits ::
  "('s, 'e) store_ops \<Rightarrow> ('s, 'e) meta_api \<Rightarrow> ('s, 'e, 'o, 'u) upload_api \<Rightarrow> int \<Rightarrow> 'u sharded_upload \<Rightarrow> 's sharded \<Rightarrow> bool" where
  "upload_fits D M U now up c \<longleftrightarrow>
     (case on_upload (ua_complete U now) up c of
        (Inr _, _, c1) \<Rightarrow>
          fits_buffer D M (su_raw_refs up) (su_location up) (su_primary_shard_id up, su_primary_store up)
            (untrack (su_tracking_id up) c1)
      | _ \<Rightarrow> True)"

text \<open>What a completion has done, when nothing outside the keys \<open>K\<close> changed on any shard.\<close>

definition complete_outcome ::
  "('s, 'e) store_ops \<Rightarrow> ('s \<Rightarrow> (string \<rightharpoonup> byte list) \<Rightarrow> bool) \<Rightarrow> int \<Rightarrow> 'u sharded_upload \<Rightarrow> byte list \<Rightarrow> string set \<Rightarrow> 's sharded \<Rightarrow>
     (nat \<Rightarrow> string \<rightharpoonup> byte list) \<Rightarrow> 'x + unit \<Rightarrow> 's sharded \<Rightarrow> bool" where
  "complete_outcome D holds now up b K c H r c' \<longleftrightarrow>
     frame c c' \<and> catalog_ok (sh_catalog c') \<and>
     (\<forall>k. k \<noteq> su_location up \<longrightarrow> catalog_get (sh_catalog c') k = catalog_get (sh_catalog c) k) \<and>
     (\<exists>H'. heap_rep holds c' H' \<and> same_except K H H' \<and>
        (case r of
           Inl _ \<Rightarrow> sh_catalog c' = sh_catalog c
         | Inr _ \<Rightarrow> \<exists>placed ml.
             catalog_get (sh_catalog c') (su_location up) =
               Some \<lparr>pe_shards = placed, pe_size = length b, pe_crc32c = Some (so_crc32c D b), pe_updated = now, pe_meta_len = ml\<rparr> \<and>
             distinct placed \<and> su_primary_shard_id up \<in> set placed \<and>
             (su_replica_stores up \<noteq> [] \<longrightarrow> su_min_writes up \<le> length placed) \<and>
             (\<forall>sid\<in>set placed. stored c' H' sid (su_location up) = Some b)))"

lemma complete_outcome_handle [simp]:
  "complete_outcome D holds now (up\<lparr>su_primary_upload := u\<rparr>) b K c H r c' = complete_outcome D holds now up b K c H r c'"
  by (cases r) (simp_all add: complete_outcome_def)

lemma complete_outcome_failed:
  assumes "frame c c'" and "sh_catalog c' = sh_catalog c" and "catalog_ok (sh_catalog c)" and "heap_rep holds c' H'" and "same_except K H H'"
    and "\<not> is_ok r"
  shows "complete_outcome D holds now up b K c H r c'"
  using assms by (cases r) (auto simp: complete_outcome_def)

lemma complete_outcome_placed:
  assumes fr: "frame c c1" and cat: "sh_catalog c1 = sh_catalog c" "catalog_ok (sh_catalog c)"
    and H': "heap_rep holds c1 H'" "same_except K H H'"
    and placed: "distinct placed" "su_primary_shard_id up \<in> set placed" "su_replica_stores up \<noteq> [] \<longrightarrow> su_min_writes up \<le> length placed"
    and st: "\<forall>sid\<in>set placed. stored c H' sid (su_location up) = Some b"
  shows "complete_outcome D holds now up b K c H (Inr ())
    (update_catalog (catalog_put now (su_location up) placed (length b) (Some (so_crc32c D b)) ml) c1)" (is "complete_outcome _ _ _ _ _ _ _ _ _ ?c")
proof -
  have ne: "placed \<noteq> []" using placed(2) by auto
  have f: "frame c ?c" using fr by simp
  have "catalog_ok (sh_catalog ?c)" using catalog_put_ok(1) [OF cat(2) ne placed(1)] cat(1) by (simp add: update_catalog_def)
  moreover have "heap_rep holds ?c H'" using H'(1) by (simp add: heap_rep_def update_catalog_def)
  moreover have "catalog_get (sh_catalog ?c) = (catalog_get (sh_catalog c))(su_location up \<mapsto>
      \<lparr>pe_shards = placed, pe_size = length b, pe_crc32c = Some (so_crc32c D b), pe_updated = now, pe_meta_len = ml\<rparr>)"
    using cat(1) by (simp add: update_catalog_def)
  ultimately show ?thesis
    unfolding complete_outcome_def stored_frame [OF f] using f H'(2) placed st by (intro conjI exI [of _ H']) auto
qed

context upload_store
begin

lemma replicate_part_spec:
  assumes rep: "heap_rep holds c H" and ag: "agrees_opt raw_refs c" and sid: "sid < length (sh_shards c)" and ref: "slots c ! sid = ref"
    and len: "length (data @ md) < 2 ^ 63" and loc: "meta_sidecar_path D loc \<noteq> loc"
    and run: "replicate_part D M now raw_refs loc data md sid ref c = (r, c')"
  shows "shard_write {meta_sidecar_path D loc} loc data sid c H (is_ok r) c'"
proof (cases "raw_refs = None \<or> md = []")
  case True
  then have "on_slot_with MdStore (so_put D now loc data) ref c = (r, c')"
    using run by (auto simp: replicate_part_def split: option.splits)
  from slot_write [OF _ rep this sid ref] show ?thesis using put_law [of _ _ data] len by fastforce
next
  case False
  then obtain refs where refs: "raw_refs = Some refs" by auto
  then have "write_with_meta_to_shard D M now refs sid ref loc data md c = (r, c')"
    using False run by (simp add: replicate_part_def)
  from write_with_meta_spec [OF rep _ sid ref len loc this] show ?thesis using ag refs by (simp add: agrees_opt_def)
qed

lemma replicate_all_spec:
  assumes rep: "heap_rep holds c H" and ag: "agrees_opt raw_refs c" and up: "upload_ok up c"
    and len: "length (data @ md) < 2 ^ 63" and loc: "meta_sidecar_path D loc \<noteq> loc"
    and run: "fan_out (replicate_part D M now raw_refs loc data md) (su_replica_stores up) c = (rs, c')"
  shows "heap_only c c' \<and> map fst rs = map fst (su_replica_stores up) \<and>
    (\<exists>H'. heap_rep holds c' H' \<and> wrote_in {meta_sidecar_path D loc} loc data H H' \<and>
      (\<forall>sid\<in>set (oks rs). stored c H' sid loc = Some data))"
proof -
  let ?f = "replicate_part D M now raw_refs loc data md" and ?R = "map fst (su_replica_stores up)"
  have slots: "\<forall>(sid, ref)\<in>set (su_replica_stores up). ref = slots c ! sid"
    and R: "\<forall>sid\<in>set ?R. sid < length (sh_shards c)" using up by (auto simp: upload_ok_def)
  have fi: "fan_ids (\<lambda>sid. ?f sid (slots c ! sid)) ?R c = (rs, c')" using run unfolding fan_out_ids [OF slots] .
  show ?thesis
  proof (rule fan_ids_spec [OF _ rep fi])
    fix sid c1 H1 r1 c2
    assume a: "sid \<in> set ?R" "heap_only c c1" "heap_rep holds c1 H1" "?f sid (slots c ! sid) c1 = (r1, c2)"
    then have fr: "frame c c1" using heap_only_keeps by blast
    have "agrees_opt raw_refs c1" using ag agrees_cong [OF fr] by (simp add: agrees_opt_def split: option.splits)
    moreover have "sid < length (sh_shards c1)" "slots c1 ! sid = slots c ! sid"
      using fr frame_length [OF fr] R [rule_format, OF a(1)] by (simp_all add: frame_def)
    ultimately show "shard_write {meta_sidecar_path D loc} loc data sid c1 H1 (is_ok r1) c2"
      by (rule replicate_part_spec [OF a(3) _ _ _ len loc a(4)])
  qed
qed

lemma drop_incomplete_spec:
  assumes "heap_rep holds c H"
  shows "heap_only c (drop_incomplete D up placed c) \<and>
    (\<exists>H'. heap_rep holds (drop_incomplete D up placed c) H' \<and> shrinks {su_location up} H H')"
proof -
  let ?del = "\<lambda>store c. snd (on_slot (so_delete D (su_location up)) store c)"
  have one: "heap_only c (?del store c) \<and> (\<exists>H'. heap_rep holds (?del store c) H' \<and> shrinks {su_location up} H H')"
    if "heap_rep holds c H" for store c H
    using gone_delete [OF that, of "su_location up" store] on_slot_frame by (metis prod.collapse)
  have loop: "heap_only c (fold (\<lambda>(_, store). ?del store) stores c) \<and>
      (\<exists>H'. heap_rep holds (fold (\<lambda>(_, store). ?del store) stores c) H' \<and> shrinks {su_location up} H H')"
    if "heap_rep holds c H" for stores :: "(nat \<times> store_ref) list" and c H
    using that
  proof (induction stores arbitrary: c H)
    case Nil
    then show ?case using shrinks_refl by auto
  next
    case (Cons st stores)
    obtain i store where st: "st = (i, store)" by (cases st)
    from one [OF Cons.prems] obtain H1 where H1: "heap_only c (?del store c)" "heap_rep holds (?del store c) H1"
      "shrinks {su_location up} H H1" by blast
    from Cons.IH [OF H1(2)] show ?case
      using heap_only_trans [OF H1(1)] shrinks_trans [OF H1(3)] by (auto simp: st)
  qed
  from loop [OF assms] obtain H1 where H1:
    "heap_only c (fold (\<lambda>(_, store). ?del store) (filter (\<lambda>(sid, _). sid \<in> set placed) (su_replica_stores up)) c)"
    "heap_rep holds (fold (\<lambda>(_, store). ?del store) (filter (\<lambda>(sid, _). sid \<in> set placed) (su_replica_stores up)) c) H1"
    "shrinks {su_location up} H H1" by blast
  from one [OF H1(2), of "su_primary_store up"] show ?thesis
    unfolding drop_incomplete_def using heap_only_trans [OF H1(1)] shrinks_trans [OF H1(3)] by blast
qed

lemma complete_replicated_spec:
  assumes rep: "heap_rep holds c H" and ok: "catalog_ok (sh_catalog c)" and up: "upload_ok up c" and ag: "agrees_opt (su_raw_refs up) c"
    and b: "stored c H (su_primary_shard_id up) (su_location up) = Some b"
    and fits: "fits_buffer D M (su_raw_refs up) (su_location up) (su_primary_shard_id up, su_primary_store up) c"
    and loc: "meta_sidecar_path D (su_location up) \<noteq> su_location up"
    and run: "complete_replicated D M now up c = (r, c')"
  shows "complete_outcome D holds now up b {su_location up, meta_sidecar_path D (su_location up)} c H r c'"
proof -
  let ?l = "su_location up" and ?p = "su_primary_shard_id up" and ?ref = "su_primary_store up"
  let ?K = "{meta_sidecar_path D ?l}" and ?R = "map fst (su_replica_stores up)"
  obtain g c1 where g: "on_slot (get_with_attrs D M ?l) ?ref c = (g, c1)" by fastforce
  note h1 = on_slot_frame [OF g]
  have rep1: "heap_rep holds c1 H"
    by (rule on_slot_read(1) [where P = "\<lambda>_ _. True", OF _ rep g]) (use get_with_attrs_law in blast)
  show ?thesis
  proof (cases "\<exists>data ats. g = Inr (Inr data, ats)")
    case False
    then have "c' = c1" "\<not> is_ok r" using run g by (auto simp: complete_replicated_def split: sum.splits)
    then show ?thesis using heap_only_keeps [OF h1] ok rep1 by (intro complete_outcome_failed [where H' = H]) simp_all
  next
    case True
    then obtain data ats where d: "g = Inr (Inr data, ats)" by blast
    have "\<exists>a. ?ref = StoreAt a \<and> (\<forall>d ats2. (Inr (Inr data, ats) :: 'e + ('e + byte list) \<times> attributes) = Inr (Inr d, ats2) \<longrightarrow> H a ?l = Some d)"
      by (rule on_slot_read(2) [where P = "\<lambda>A r. \<forall>d ats. r = Inr (Inr d, ats) \<longrightarrow> A ?l = Some d", OF _ rep g d]) (rule get_with_attrs_law)
    then have data: "data = b" using b up by (auto simp: stored_def upload_ok_def)
    define m where "m = (case su_raw_refs up of Some refs \<Rightarrow> read_metadata_from_shard D M ?ref ?p ?l ats refs c1 | None \<Rightarrow> (None, c1))"
    obtain md c2 where m': "m = (md, c2)" by (cases m)
    have m2: "heap_only c1 c2" "heap_rep holds c2 H"
      using m' rep1 read_metadata_spec [OF rep1] by (auto simp: m_def split: option.splits)
    note k2 = heap_only_keeps [OF heap_only_trans [OF h1 m2(1)]]
    let ?md = "case md of Some x \<Rightarrow> x | None \<Rightarrow> []"
    have len: "length (data @ ?md) < 2 ^ 63"
      using fits g d m' by (auto simp: fits_buffer_def m_def split: option.splits)
    let ?f = "replicate_part D M now (su_raw_refs up) ?l data ?md"
    obtain rs c3 where f: "fan_out ?f (su_replica_stores up) c2 = (rs, c3)" by fastforce
    have R: "distinct (?p # ?R)" using up by (simp add: upload_ok_def)
    have ag2: "agrees_opt (su_raw_refs up) c2" using ag agrees_cong [of c c2] k2 by (simp add: agrees_opt_def split: option.splits)
    have "upload_ok up c2" using up upload_ok_cong [of c c2 "su_primary_upload up" up] k2 by simp
    from replicate_all_spec [OF m2(2) ag2 this len loc f]
    obtain H' where H': "heap_only c2 c3" "map fst rs = ?R" "heap_rep holds c3 H'" "wrote_in ?K ?l data H H'"
      "\<forall>sid\<in>set (oks rs). stored c2 H' sid ?l = Some data" by blast
    have c3: "frame c c3" "sh_catalog c3 = sh_catalog c" using heap_only_keeps [OF H'(1)] k2 frame_trans by auto
    have same: "same_except {?l, meta_sidecar_path D ?l} H H'" using H'(4) by (simp add: wrote_in_def)
    let ?placed = "?p # oks rs"
    have run': "(r, c') = (if length ?placed < su_min_writes up
        then (Inl (UpInsufficientWrites ?l (su_min_writes up) (length ?placed) (errs rs)), drop_incomplete D up ?placed c3)
        else (Inr (), update_catalog (catalog_put now ?l ?placed (length data) (Some (so_crc32c D data)) (length ?md mod 65536)) c3))"
      using run g d m' f unfolding complete_replicated_def m_def by (simp add: Let_def)
    show ?thesis
    proof (cases "length ?placed < su_min_writes up")
      case True
      from drop_incomplete_spec [OF H'(3)] obtain H2 where H2: "heap_only c3 (drop_incomplete D up ?placed c3)"
        "heap_rep holds (drop_incomplete D up ?placed c3) H2" "shrinks {?l} H' H2" by blast
      have "\<not> is_ok r" "c' = drop_incomplete D up ?placed c3" using run' True by simp_all
      moreover have "same_except {?l, meta_sidecar_path D ?l} H H2" using same H2(3) by (auto simp: shrinks_def same_except_def)
      ultimately show ?thesis
        using heap_only_keeps [OF H2(1)] c3 frame_trans [OF c3(1)] H2(2) ok by (intro complete_outcome_failed) auto
    next
      case False
      have "stored c H' ?p ?l = Some b" using stored_wrote_in [OF H'(4)] b data by blast
      then have st: "\<forall>sid\<in>set ?placed. stored c H' sid ?l = Some b"
        using H'(5) data stored_frame [of c c2] k2 by auto
      have pl: "distinct ?placed" using R H'(2) distinct_oks [of rs] oks_subset [of rs] by auto
      have "r = Inr ()" "c' = update_catalog (catalog_put now ?l ?placed (length b) (Some (so_crc32c D b)) (length ?md mod 65536)) c3"
        using run' False data by simp_all
      then show ?thesis
        using False by (auto intro!: complete_outcome_placed [OF c3(1,2) ok H'(3) same pl _ _ st])
    qed
  qed
qed

lemma complete_single_spec:
  assumes rep: "heap_rep holds c H" and ok: "catalog_ok (sh_catalog c)" and up: "upload_ok up c" and none: "su_replica_stores up = []"
    and b: "stored c H (su_primary_shard_id up) (su_location up) = Some b"
    and run: "complete_single D M U now up c = (r, c')"
  shows "complete_outcome D holds now up b {su_location up} c H r c'"
proof -
  let ?l = "su_location up" and ?p = "su_primary_shard_id up" and ?ref = "su_primary_store up"
  let ?op = "\<lambda>s. case so_get D None ?l s of (Inl e, s1) \<Rightarrow> (Inl e, s1) | (Inr body, s1) \<Rightarrow> (Inr (body, ua_size U ?l s), s1)"
  let ?P = "\<lambda>A r. \<forall>d n. r = Inr (Inr d, n) \<longrightarrow> A ?l = Some d \<and> n = length d"
  have law: "holds s' A \<and> ?P A r" if "holds s A" "?op s = (r, s')" for s A r s'
    using that get_law [OF that(1), of None ?l] size_law [OF that(1)] by (auto split: prod.splits sum.splits)
  obtain g c1 where g: "on_slot ?op ?ref c = (g, c1)" by fastforce
  note h1 = on_slot_frame [OF g]
  have rep1: "heap_rep holds c1 H" by (rule on_slot_read(1) [where P = ?P, OF _ rep g]) (rule law)
  note k = heap_only_keeps [OF h1]
  show ?thesis
  proof (cases "\<exists>data n. g = Inr (Inr data, n)")
    case False
    then have "c' = c1" "\<not> is_ok r" using run g by (auto simp: complete_single_def split: sum.splits)
    then show ?thesis using k ok rep1 by (intro complete_outcome_failed [where H' = H]) simp_all
  next
    case True
    then obtain data n where d: "g = Inr (Inr data, n)" by blast
    have "\<exists>a. ?ref = StoreAt a \<and> ?P (H a) (Inr (Inr data, n) :: 'e + ('e + byte list) \<times> nat)"
      by (rule on_slot_read(2) [where P = ?P, OF _ rep g d]) (rule law)
    then have "data = b" "n = length b" using b up by (auto simp: stored_def upload_ok_def)
    moreover have "ua_crc32c_append U 0 b = so_crc32c D b" using append_law rep unfolding heap_rep_def by blast
    ultimately obtain ml where "r = Inr ()" "c' = update_catalog (catalog_put now ?l [?p] (length b) (Some (so_crc32c D b)) ml) c1"
      using run g d by (auto simp: complete_single_def Let_def)
    then show ?thesis using none b k ok rep1 by (auto intro!: complete_outcome_placed [where H' = H])
  qed
qed

lemma complete_outcome_after:
  assumes "frame c c1" and "sh_catalog c1 = sh_catalog c" and "same_except K H H1"
    and "complete_outcome D holds now up b L c1 H1 r c'"
  shows "complete_outcome D holds now up b (K \<union> L) c H r c'"
proof -
  from assms(4) obtain H' where H': "heap_rep holds c' H'" "same_except L H1 H'" and
    o: "frame c1 c'" "complete_outcome D holds now up b L c1 H1 r c'" by (auto simp: complete_outcome_def)
  from o(2) same_except_trans [OF assms(3)] show ?thesis
    unfolding complete_outcome_def assms(2) using frame_trans [OF assms(1) o(1)] by blast
qed

lemma sharded_complete_spec:
  assumes rep: "heap_rep holds c H" and ok: "catalog_ok (sh_catalog c)" and up: "upload_ok up c" and ag: "agrees_opt (su_raw_refs up) c"
    and h: "handle (su_primary_upload up) (su_location up)" and sp: "spooled_in spooled up c b" and len: "length b < 2 ^ 63"
    and loc: "meta_sidecar_path D (su_location up) \<noteq> su_location up" "su_location up \<notin> spool"
    and fits: "upload_fits D M U now up c"
    and run: "sharded_complete D M U now up c = (r, up', c')"
  shows "complete_outcome D holds now up b (spool \<union> {su_location up, meta_sidecar_path D (su_location up)}) c H r c'"
proof -
  let ?l = "su_location up" and ?K = "spool \<union> {su_location up}"
  obtain r1 up1 c1 where o: "on_upload (ua_complete U now) up c = (r1, up1, c1)" by (metis prod_cases3)
  from sp obtain a where a: "su_primary_store up = StoreAt a" "spooled (su_primary_upload up) (sh_heap c a) b"
    by (auto simp: spooled_in_def)
  have "heap_only c c1 \<and> (\<exists>H'. heap_rep holds c1 H' \<and> same_except ?K H H' \<and>
      (\<forall>a. su_primary_store up = StoreAt a \<longrightarrow> H' a ?l = (if is_ok r1 then Some b else H a ?l)))"
    by (rule on_upload_spec [where P = "\<lambda>A ok A'. A' ?l = (if ok then Some b else A ?l)", OF rep _ o])
      (use complete_law [OF _ h _ loc(2) len] a in fastforce)
  then obtain H1 where H1: "heap_only c c1" "heap_rep holds c1 H1" "same_except ?K H H1" "is_ok r1 \<Longrightarrow> H1 a ?l = Some b"
    using a(1) by auto
  note k = heap_only_keeps [OF H1(1)]
  let ?c2 = "untrack (su_tracking_id up) c1"
  have up1: "\<exists>u. up1 = up\<lparr>su_primary_upload := u\<rparr>" using o a(1) by (auto simp: on_upload_def split: prod.splits)
  show ?thesis
  proof (cases r1)
    case (Inl e)
    then have "c' = c1" "\<not> is_ok r" using run o by (auto simp: sharded_complete_def)
    moreover have "same_except (spool \<union> {?l, meta_sidecar_path D ?l}) H H1" by (rule same_except_mono [OF H1(3)]) auto
    ultimately show ?thesis using k ok H1(2) by (intro complete_outcome_failed [where H' = H1]) simp_all
  next
    case (Inr x)
    have c2: "frame c ?c2" "sh_catalog ?c2 = sh_catalog c" "heap_rep holds ?c2 H1" using k H1(2) by simp_all
    have u: "upload_ok up1 ?c2" using up1 up by (auto simp: upload_ok_cong [OF c2(1)])
    have b: "stored ?c2 H1 (su_primary_shard_id up1) (su_location up1) = Some b"
      using u up1 a(1) H1(4) Inr by (auto simp: stored_def upload_ok_def)
    have ag2: "agrees_opt (su_raw_refs up1) ?c2" using ag agrees_cong [OF c2(1)] up1 by (auto simp: agrees_opt_def split: option.splits)
    have fits2: "fits_buffer D M (su_raw_refs up1) (su_location up1) (su_primary_shard_id up1, su_primary_store up1) ?c2"
      using fits o Inr up1 by (auto simp: upload_fits_def)
    have ok2: "catalog_ok (sh_catalog ?c2)" using ok c2(2) by simp
    have loc2: "meta_sidecar_path D (su_location up1) \<noteq> su_location up1" using loc(1) up1 by auto
    have "complete_outcome D holds now up1 b {su_location up1, meta_sidecar_path D (su_location up1)} ?c2 H1 r c'"
    proof (cases "su_replica_stores up1 = []")
      case False
      then have "complete_replicated D M now up1 ?c2 = (r, c')" using run o Inr up1 by (auto simp: sharded_complete_def split: prod.splits)
      from complete_replicated_spec [OF c2(3) ok2 u ag2 b fits2 loc2 this] show ?thesis .
    next
      case True
      then have "complete_single D M U now up1 ?c2 = (r, c')" using run o Inr up1 by (auto simp: sharded_complete_def split: prod.splits)
      from complete_outcome_after [OF frame_refl refl same_except_refl complete_single_spec [OF c2(3) ok2 u True b this], where K = "{meta_sidecar_path D (su_location up1)}"]
      show ?thesis by (simp add: insert_commute)
    qed
    then have "complete_outcome D holds now up b {?l, meta_sidecar_path D ?l} ?c2 H1 r c'"
      using up1 by auto
    from complete_outcome_after [OF c2(1,2) H1(3) this] show ?thesis by (simp add: insert_commute)
  qed
qed

end

end
