(* ===== verification/File_Uploads.thy ===== *)
theory File_Uploads
  imports Upload_Ops
begin

text \<open>
  The put of an object with metadata from a file: with a file that delivers the same bytes in every
  pass, it keeps the contract of \<open>sharded_put_with_meta\<close>, streamed to raw shards or read into memory.
\<close>

section \<open>The contract of a shard\<close>

locale file_store = meta_store D holds M for D :: "('s, 'e) store_ops" and holds and M +
  fixes F :: "'s file_api"
  assumes file_law: "holds s A \<Longrightarrow> sf_len f = Some (length (d @ md)) \<Longrightarrow> read_to_end (sf_reads f) = Inr (d @ md) \<Longrightarrow>
      length (d @ md) < 2 ^ 63 \<Longrightarrow> fa_put_from_file F now k f (length md) s = (rm, s') \<Longrightarrow>
      holds s' (if is_ok rm then A(k \<mapsto> d) else A)"
    and crc_law: "holds s A \<Longrightarrow> fa_crc32c_append F (so_crc32c D x) y = so_crc32c D (x @ y) \<and> so_crc32c D [] = 0"

text \<open>Every pass over the file that is not refused delivers the payload \<open>d\<close> and the metadata \<open>md\<close>.\<close>

definition steady :: "upload_file \<Rightarrow> byte list \<Rightarrow> byte list \<Rightarrow> bool" where
  "steady src d md \<longleftrightarrow>
     uf_len src = Some (length (d @ md)) \<and>
     (\<forall>rs. uf_body src = Inr rs \<longrightarrow> (\<exists>cs. rs = map Inr cs \<and> concat cs = d \<and> (\<forall>c\<in>set cs. c \<noteq> [] \<and> length c \<le> CRC_BUF))) \<and>
     (\<forall>sid f. uf_pass src sid = Inr f \<longrightarrow> sf_len f = Some (length (d @ md)) \<and> read_to_end (sf_reads f) = Inr (d @ md)) \<and>
     (\<forall>rs buf. uf_all src = Inr rs \<and> read_to_end rs = Inr buf \<longrightarrow> buf = d @ md)"

context file_store
begin

lemma crc_file_loop_spec:
  assumes "holds s A" and "\<forall>c\<in>set cs. c \<noteq> [] \<and> length c \<le> CRC_BUF"
  shows "crc_file_loop (fa_crc32c_append F) (length (concat cs)) (so_crc32c D x) (map Inr cs) = Inr (so_crc32c D (x @ concat cs))"
  using assms(2)
proof (induction cs arbitrary: x)
  case Nil
  then show ?case by simp
next
  case (Cons c cs)
  then have "take (min (length (concat (c # cs))) CRC_BUF) c = c" by simp
  with Cons show ?case using crc_law [OF assms(1)] by simp
qed

lemma file_put_targets_spec:
  assumes "heap_rep holds c H" and "agrees refs c" and "\<forall>sid\<in>set ids. sid < length (sh_shards c)" and "distinct ids"
    and "steady src d md" and "length (d @ md) < 2 ^ 63"
    and "file_put_targets F now refs loc src (length md) ids c = (r, c')"
  shows "heap_only c c' \<and> (\<exists>H'. heap_rep holds c' H' \<and> wrote_in {} loc d H H' \<and>
    (\<forall>rs. r = Inr rs \<longrightarrow> set (map fst rs) \<subseteq> set ids \<and> distinct (map fst rs) \<and> (\<forall>sid\<in>set (oks rs). stored c H' sid loc = Some d)))"
  using assms(1-4,7)
proof (induction ids arbitrary: c H r c')
  case Nil
  then show ?case by (auto intro!: exI [of _ H])
next
  case (Cons sid ids)
  show ?case
  proof (cases "rr_get refs sid")
    case None
    from Cons.IH [OF Cons.prems(1,2)] Cons.prems(3-5) None show ?thesis by fastforce
  next
    case (Some a)
    show ?thesis
    proof (cases "uf_pass src sid")
      case (Inl k)
      with Some Cons.prems show ?thesis by (auto intro!: exI [of _ H])
    next
      case (Inr f)
      obtain r1 s1 where p: "fa_put_from_file F now loc f (length md) (sh_heap c a) = (r1, s1)" by fastforce
      let ?c1 = "c\<lparr>sh_heap := (sh_heap c)(a := s1)\<rparr>" let ?H1 = "H(a := if is_ok r1 then (H a)(loc \<mapsto> d) else H a)"
      have f: "sf_len f = Some (length (d @ md))" "read_to_end (sf_reads f) = Inr (d @ md)" using assms(5) Inr by (auto simp: steady_def)
      have h1: "heap_only c ?c1" "wrote_in {} loc d H ?H1" by (auto simp: heap_only_def wrote_in_def same_except_def)
      have rep1: "heap_rep holds ?c1 ?H1"
        using Cons.prems(1) file_law [OF _ f assms(6) p, of "H a"] by (simp add: heap_rep_def split: if_splits)
      obtain r2 c2 where rest: "file_put_targets F now refs loc src (length md) ids ?c1 = (r2, c2)" by fastforce
      have ag1: "agrees refs ?c1" using Cons.prems(2) agrees_cong [of c ?c1] by simp
      have ids: "\<forall>sid\<in>set ids. sid < length (sh_shards ?c1)" "distinct ids" using Cons.prems(3,4) by simp_all
      from Cons.IH [OF rep1 ag1 ids rest] obtain H' where H': "heap_only ?c1 c2" "heap_rep holds c2 H'"
        "wrote_in {} loc d ?H1 H'" "\<forall>rs. r2 = Inr rs \<longrightarrow> set (map fst rs) \<subseteq> set ids \<and> distinct (map fst rs) \<and>
          (\<forall>sid\<in>set (oks rs). stored ?c1 H' sid loc = Some d)" by blast
      have run: "(r, c') = (case r2 of Inl e \<Rightarrow> (Inl e, c2) | Inr rs \<Rightarrow> (Inr ((sid, r1) # rs), c2))"
        using Cons.prems(5) Some Inr p rest by (simp split: sum.splits)
      have st: "stored ?c1 H' = stored c H'" using stored_heap_only [OF h1(1)] .
      have "slots c ! sid = StoreAt a" "sid < length (sh_shards c)" using Cons.prems(2,3) Some by (auto simp: agrees_def)
      then have "is_ok r1 \<Longrightarrow> stored c H' sid loc = Some d" by (intro stored_wrote_in [OF H'(3)]) (simp add: stored_def)
      then show ?thesis
        using H' st run heap_only_trans [OF h1(1) H'(1)] wrote_in_trans [OF h1(2) H'(3)] Cons.prems(4)
        by (cases r2) auto
    qed
  qed
qed

lemma commit_from_file_spec:
  assumes fr: "frame c c1" and cat: "sh_catalog c1 = sh_catalog c" "catalog_ok (sh_catalog c)"
    and H1: "heap_rep holds c1 H1" "wrote_in {} loc d H H1"
    and placed: "distinct (oks rs)" "\<forall>sid\<in>set (oks rs). stored c H1 sid loc = Some d"
    and md: "length md < 65536"
    and run: "commit_from_file D now loc (length d) (so_crc32c D d) (length md) rs c1 = (r, c')"
  shows "meta_put_outcome now loc d md c H r c'"
proof -
  let ?p = "oks rs"
  have w: "same_except {loc, meta_sidecar_path D loc} H H1" "\<forall>a. H1 a loc = H a loc \<or> H1 a loc = Some d"
    using H1(2) by (auto simp: wrote_in_def same_except_def)
  have m: "sh_min_writes c1 = sh_min_writes c" using fr by (simp add: frame_def)
  consider "?p = []" | "?p \<noteq> []" "length ?p < sh_min_writes c1" | "?p \<noteq> []" "\<not> length ?p < sh_min_writes c1" by blast
  then show ?thesis
  proof cases
    case 1
    then have "\<not> is_ok r" "c' = c1" using run by (auto simp: commit_from_file_def Let_def)
    with fr cat H1(1) w show ?thesis by (cases r) (auto simp: meta_put_outcome_def)
  next
    case 2
    let ?c2 = "cleanup_orphaned_writes D loc ?p c1"
    from cleanup_orphaned_spec [OF H1(1), of loc ?p] obtain H2 where h2: "heap_only c1 ?c2" "heap_rep holds ?c2 H2"
      "shrinks {loc, meta_sidecar_path D loc} H1 H2" "catalog_get (sh_catalog c1) loc \<noteq> None \<longrightarrow> H2 = H1" by blast
    note k = heap_only_keeps [OF h2(1)]
    have "\<not> is_ok r" "c' = ?c2" using run 2 by (auto simp: commit_from_file_def Let_def)
    moreover have "same_except {loc, meta_sidecar_path D loc} H H2"
      using w(1) h2(3) by (auto simp: shrinks_def same_except_def)
    moreover have "H2 a loc = H a loc \<or> H2 a loc = Some d \<or> catalog_get (sh_catalog c) loc = None \<and> H2 a loc = None" for a
      using w(2) h2(3,4) cat(1) unfolding shrinks_def by metis
    ultimately show ?thesis
      using k cat frame_trans [OF fr] h2(2) by (cases r) (auto simp: meta_put_outcome_def)
  next
    case 3
    let ?c2 = "update_catalog (catalog_put now loc ?p (length d) (Some (so_crc32c D d)) (length md)) c1"
    have r: "r = Inr ()" "c' = ?c2" using run 3 by (auto simp: commit_from_file_def Let_def)
    have "catalog_ok (sh_catalog ?c2)" using catalog_put_ok(1) [OF cat(2) 3(1) placed(1)] cat(1) by (simp add: update_catalog_def)
    moreover have "heap_rep holds ?c2 H1" using H1(1) by (simp add: heap_rep_def update_catalog_def)
    moreover have "catalog_get (sh_catalog ?c2) = (catalog_get (sh_catalog c))(loc \<mapsto> meta_entry now d md ?p)"
      using cat(1) md by (simp add: update_catalog_def meta_entry_def)
    ultimately show ?thesis
      unfolding r meta_put_outcome_def using 3 w(1) placed m fr by (intro conjI exI [of _ H1]) auto
  qed
qed

lemma retry_file_spec:
  assumes rep: "heap_rep holds c1 H" and ag: "agrees refs c1" and ids: "\<forall>sid\<in>set ids. sid < length (sh_shards c1)" "distinct ids"
    and st: "steady src d md" and len: "length (d @ md) < 2 ^ 63" and fr: "frame c c1"
    and placed: "distinct (oks rs)" "\<forall>sid\<in>set (oks rs). stored c H sid loc = Some d"
    and run: "(if oks rs = [] \<and> ids \<noteq> [] then file_put_targets F now refs loc src (length md) ids c1 else (Inr [], c1)) = (r, c')"
  shows "heap_only c1 c' \<and> (\<exists>H'. heap_rep holds c' H' \<and> wrote_in {} loc d H H' \<and>
    (\<forall>rs2. r = Inr rs2 \<longrightarrow> distinct (oks (rs @ rs2)) \<and> (\<forall>sid\<in>set (oks (rs @ rs2)). stored c H' sid loc = Some d)))"
proof (cases "oks rs = [] \<and> ids \<noteq> []")
  case True
  with run have "file_put_targets F now refs loc src (length md) ids c1 = (r, c')" by simp
  moreover have "oks (rs @ rs2) = oks rs2" for rs2 using True by (simp add: oks_def)
  ultimately show ?thesis
    using file_put_targets_spec [OF rep ag ids st len] distinct_oks unfolding stored_frame [OF fr] by metis
next
  case False
  with run have "r = Inr []" "c' = c1" by (auto split: if_splits)
  then show ?thesis using rep placed by (auto simp: oks_def intro!: exI [of _ H])
qed

lemma put_raw_from_file_spec:
  assumes rep: "heap_rep holds c H" and ok: "catalog_ok (sh_catalog c)" and ag: "agrees refs c" and st: "steady src d md"
    and len: "length (d @ md) < 2 ^ 63" and md: "length md < 65536"
    and run: "put_raw_from_file D F now refs loc src (length md) c = (r, c')"
  shows "meta_put_outcome now loc d md c H r c'"
proof -
  let ?t = "select_targets D loc c" let ?f = "file_put_targets F now refs loc src (length md)"
  have early: "meta_put_outcome now loc d md c H r0 c0" if "\<not> is_ok r0" "frame c c0" "sh_catalog c0 = sh_catalog c" "heap_rep holds c0 H0"
    "wrote_in {} loc d H H0" for r0 c0 H0
    using that ok by (cases r0) (auto simp: meta_put_outcome_def wrote_in_def same_except_def intro!: exI [of _ H0])
  have body: "saturating_sub (case uf_len src of Some n \<Rightarrow> n | None \<Rightarrow> 0) (length md) = length d"
    using st by (simp add: steady_def saturating_sub_def)
  have t: "distinct ?t" "\<forall>sid\<in>set ?t. sid < length (sh_shards c)" using select_targets_spec(1,2) [where D = D and path = loc and c = c] by auto
  obtain r1 c1 where f1: "?f ?t c = (r1, c1)" by fastforce
  from file_put_targets_spec [OF rep ag t(2,1) st len f1] obtain H1 where h1: "heap_only c c1" "heap_rep holds c1 H1"
    "wrote_in {} loc d H H1" "\<And>rs. r1 = Inr rs \<Longrightarrow> set (map fst rs) \<subseteq> set ?t \<and> distinct (map fst rs) \<and> (\<forall>sid\<in>set (oks rs). stored c H1 sid loc = Some d)"
    by blast
  note k1 = heap_only_keeps [OF h1(1)]
  show ?thesis
  proof (cases "(\<exists>k. uf_suffix src = Inl k) \<or> (\<exists>k. uf_body src = Inl k)")
    case True
    then have "\<not> is_ok r" "c' = c" using run by (auto simp: put_raw_from_file_def Let_def split: sum.splits)
    then show ?thesis using rep by (intro early [of _ _ H]) simp_all
  next
    case False
    then obtain x reads where fs: "uf_suffix src = Inr x" "uf_body src = Inr reads" by (metis sum.exhaust)
    then obtain cs where cs: "reads = map Inr cs" "concat cs = d" "\<forall>c\<in>set cs. c \<noteq> [] \<and> length c \<le> CRC_BUF"
      using st unfolding steady_def by blast
    have "holds (sh_heap c 0) (H 0)" using rep by (simp add: heap_rep_def)
    then have crc: "crc_file_loop (fa_crc32c_append F) (length d) 0 reads = Inr (so_crc32c D d)"
      using crc_file_loop_spec [OF _ cs(3), of _ _ "[]"] crc_law cs by fastforce
    note run1 = run [unfolded put_raw_from_file_def Let_def body fs sum.case crc f1 prod.case]
    show ?thesis
    proof (cases r1)
      case (Inl e)
      then show ?thesis using run1 h1 k1 by (intro early [of _ _ H1]) auto
    next
      case (Inr rs)
      obtain ids c2 where m: "mark_write_failures D now (oks rs) (map fst (errs rs)) ?t loc c1 = (ids, c2)" by fastforce
      note k2 = mark_write_failures_keeps [OF m]
      have c2: "heap_rep holds c2 H1" "frame c c2" "sh_catalog c2 = sh_catalog c"
        using h1(2) k2 k1 by (auto simp: heap_rep_def intro: frame_trans)
      obtain r3 c3 where f3: "(if oks rs = [] \<and> ids \<noteq> [] then ?f ids c2 else (Inr [], c2)) = (r3, c3)" by fastforce
      have ids: "\<forall>sid\<in>set ids. sid < length (sh_shards c2)" "distinct ids"
        using mark_ids_range [OF m] k1 k2 frame_length [OF c2(2)] by simp_all
      have ag2: "agrees refs c2" using ag agrees_cong [OF c2(2)] by simp
      from retry_file_spec [OF c2(1) ag2 ids st len c2(2) _ _ f3] h1(4) [OF Inr] distinct_oks [of rs] obtain H2 where
        h2: "heap_only c2 c3" "heap_rep holds c3 H2" "wrote_in {} loc d H1 H2" "\<And>rs2. r3 = Inr rs2 \<Longrightarrow>
          distinct (oks (rs @ rs2)) \<and> (\<forall>sid\<in>set (oks (rs @ rs2)). stored c H2 sid loc = Some d)" by blast
      note k3 = heap_only_keeps [OF h2(1)]
      have c3: "frame c c3" "sh_catalog c3 = sh_catalog c" "wrote_in {} loc d H H2"
        using k3 c2(3) frame_trans [OF c2(2)] wrote_in_trans [OF h1(3) h2(3)] by auto
      note run3 = run1 [unfolded Inr sum.case m prod.case f3]
      show ?thesis
      proof (cases r3)
        case (Inl e)
        then show ?thesis using run3 c3 h2(2) by (intro early [of _ _ H2]) auto
      next
        case (Inr rs2)
        then show ?thesis
          using run3 h2(4) by (intro commit_from_file_spec [OF c3(1,2) ok h2(2) c3(3) _ _ md, of "rs @ rs2"]) auto
      qed
    qed
  qed
qed

lemma put_meta_from_file_spec:
  assumes "heap_rep holds c H" and "catalog_ok (sh_catalog c)" and "agrees refs c" and st: "steady src d md"
    and len: "length (d @ md) < 2 ^ 63" and "length md < 65536" and loc: "meta_sidecar_path D loc \<noteq> loc"
    and run: "sharded_put_meta_from_file D M F now refs loc src (length md) c = (r, c')"
  shows "meta_put_outcome now loc d md c H r c'"
proof (cases "list_all (\<lambda>sid. rr_kind refs sid = RawKind) (select_targets D loc c)")
  case True
  with run have "put_raw_from_file D F now refs loc src (length md) c = (r, c')" by (simp add: sharded_put_meta_from_file_def)
  from put_raw_from_file_spec [OF assms(1-6) this] show ?thesis .
next
  case all: False
  show ?thesis
  proof (cases "uf_all src")
    case (Inl k)
    with run all assms(1,2) show ?thesis by (auto simp: sharded_put_meta_from_file_def meta_put_outcome_def)
  next
    case (Inr rs)
    show ?thesis
    proof (cases "read_to_end rs")
      case (Inl e)
      with Inr run all assms(1,2) show ?thesis by (auto simp: sharded_put_meta_from_file_def meta_put_outcome_def)
    next
      case r: (Inr buf)
      have "buf = d @ md" using st Inr r by (simp add: steady_def)
      then have "sharded_put_with_meta D M now refs loc d md c = (r, c')"
        using run all Inr r by (simp add: sharded_put_meta_from_file_def Let_def saturating_sub_def)
      from sharded_put_meta_spec [OF assms(1-3) len loc this] show ?thesis .
    qed
  qed
qed

end

end
