(* ===== verification/Upload_Properties.thy ===== *)
theory Upload_Properties
  imports File_Uploads Metadata_Properties Copy_Properties
begin

text \<open>
  The raw store and the in-memory store keep the contracts of multipart uploads and of puts from a
  file; the properties of the uploads of the sharded store.
\<close>

section \<open>Raw stores\<close>

definition show_value :: "string \<Rightarrow> nat" where
  "show_value s = foldl (\<lambda>v c. 10 * v + (of_char c - 48)) 0 s"

lemma show_value_show: "show_value (show_nat n) = n"
proof (induction n rule: show_nat.induct)
  case (1 n)
  then show ?case
    by (subst show_nat.simps) (auto simp: show_value_def)
qed

lemma part_key_inj: "part_key i m = part_key i n \<longleftrightarrow> m = n"
  by (metis part_key_def same_append_eq show_value_show)

text \<open>
  The \<open>MultipartUpload\<close> of \<open>RawObjectStore\<close> (\<open>rawobjstr/src/store.rs\<close>), with the value of the
  store's counter of uploads; parts are objects under hidden keys.
\<close>

definition raw_uploads :: "'x store_env_scheme \<Rightarrow> nat \<Rightarrow> (inner, os_error, 'o, multipart) upload_api" where
  "raw_uploads X upload_id =
     \<lparr>ua_start = (\<lambda>opts location self. (Inr (mp_new location upload_id), self)),
      ua_put_part = put_part X, ua_complete = mp_complete X,
      ua_abort = (\<lambda>mp self. case mp_abort X mp self of (mp', self') \<Rightarrow> (Inr (), mp', self')),
      ua_size = (\<lambda>key self. case hm_get (files_of self) key of Some info \<Rightarrow> om_size (meta_for key info) | None \<Rightarrow> 0),
      ua_crc32c_append = x_crc32c_append X\<rparr>"

definition raw_files :: "'x store_env_scheme \<Rightarrow> inner file_api" where
  "raw_files X = \<lparr>fa_put_from_file = put_with_meta_from_file X, fa_crc32c_append = x_crc32c_append X\<rparr>"

definition hidden_keys :: "string set" where
  "hidden_keys = {k. starts_with k MULTIPART_TMP_PREFIX}"

definition raw_handle :: "multipart \<Rightarrow> string \<Rightarrow> bool" where
  "raw_handle mp k \<longleftrightarrow> mp_location mp = k \<and> mp_part_keys mp = map (part_key (mp_upload_id mp)) [0..<mp_part_count mp]"

definition raw_spooled :: "'x store_env_scheme \<Rightarrow> multipart \<Rightarrow> inner \<Rightarrow> byte list \<Rightarrow> bool" where
  "raw_spooled X mp s b \<longleftrightarrow>
     (\<exists>B cs. rep X s B \<and> map B (mp_part_keys mp) = map (\<lambda>c. Some (c, 0)) cs \<and> concat cs = b)"

lemma raw_parts_hidden: "raw_handle mp k \<Longrightarrow> set (mp_part_keys mp) \<subseteq> hidden_keys"
  by (auto simp: raw_handle_def hidden_keys_def part_key_def starts_with_def)

lemma bodies_apply: "bodies B k = map_option (\<lambda>(p, ml). take (length p - ml) p) (B k)"
  by (simp add: bodies_def)

lemma raw_put_part_law:
  assumes "raw_holds X s A" and h: "raw_handle u k" and len: "length d < 2 ^ 63" and run: "put_part X now d u s = (r, u', s')"
  shows "(\<exists>A'. raw_holds X s' A' \<and> (\<forall>j. j \<notin> hidden_keys \<longrightarrow> A' j = A j)) \<and> raw_handle u' k \<and>
    (is_ok r \<longrightarrow> (\<forall>b. raw_spooled X u s b \<longrightarrow> raw_spooled X u' s' (b @ d)))"
proof -
  let ?key = "part_key (mp_upload_id u) (mp_part_count u)"
  from assms(1) obtain de B where B: "lawful X" "stream_laws X" "store_ok de s" "rep X s B" "A = bodies B"
    by (auto simp: raw_holds_def)
  obtain r1 where dp: "do_put_with_meta X now ?key d 0 s = (r1, s')" and r: "is_ok r = is_ok r1"
    and u': "u' = u\<lparr>mp_part_count := mp_part_count u + 1, mp_part_keys := mp_part_keys u @ [?key]\<rparr>"
    using run by (auto simp: put_part_def do_put_def Let_def map_os_def split: prod.splits sum.splits)
  let ?B = "if is_ok r1 then B(?key \<mapsto> (d, 0)) else B"
  have sp: "store_ok de s'" "rep X s' ?B"
    using do_put_spec [OF _ _ B(3) len dp] B(1,4) by (auto simp: lawful_def split: sum.splits)
  have hid: "?key \<in> hidden_keys" by (simp add: hidden_keys_def part_key_def starts_with_def)
  have "raw_holds X s' (bodies ?B) \<and> (\<forall>j. j \<notin> hidden_keys \<longrightarrow> bodies ?B j = A j)"
    using B(1,2,5) sp hid by (auto simp: raw_holds_def bodies_apply)
  moreover have "raw_handle u' k" using h by (simp add: u' raw_handle_def)
  moreover have "raw_spooled X u' s' (b @ d)" if ok: "is_ok r" and b: "raw_spooled X u s b" for b
  proof -
    from b obtain cs where cs: "map B (mp_part_keys u) = map (\<lambda>c. Some (c, 0)) cs" "concat cs = b"
      using rep_unique [OF _ B(4)] by (auto simp: raw_spooled_def)
    have "?key \<notin> set (mp_part_keys u)" using h by (auto simp: raw_handle_def part_key_inj)
    then have "map ?B (mp_part_keys u') = map (\<lambda>c. Some (c, 0)) (cs @ [d])"
      using cs(1) ok r by (simp add: u' map_fun_upd)
    with sp(2) cs(2) show ?thesis unfolding raw_spooled_def by (intro exI [of _ ?B] exI [of _ "cs @ [d]"]) simp
  qed
  ultimately show ?thesis by blast
qed

lemma raw_complete_law:
  assumes "raw_holds X s A" and h: "raw_handle u k" and sp: "raw_spooled X u s b" and k: "k \<notin> hidden_keys" and len: "length b < 2 ^ 63"
    and run: "mp_complete X now u s = (r, u', s')"
  shows "\<exists>A'. raw_holds X s' A' \<and> (\<forall>j. j \<notin> hidden_keys \<and> j \<noteq> k \<longrightarrow> A' j = A j) \<and> A' k = (if is_ok r then Some b else A k)"
proof -
  from assms(1) obtain de B where B: "lawful X" "stream_laws X" "store_ok de s" "rep X s B" "A = bodies B"
    by (auto simp: raw_holds_def)
  from sp obtain cs where cs: "map B (mp_part_keys u) = map (\<lambda>c. Some (c, 0)) cs" "concat cs = b"
    using rep_unique [OF _ B(4)] by (auto simp: raw_spooled_def)
  have parts: "map (\<lambda>k. map_option fst (B k)) (mp_part_keys u) = map Some cs"
    using arg_cong [OF cs(1), of "map (map_option fst)"] by (simp add: comp_def)
  let ?B = "(B(k \<mapsto> (b, 0))) |` (- set (mp_part_keys u))"
  have loc: "mp_location u = k" using h by (simp add: raw_handle_def)
  note spec = mp_complete_spec [OF _ B(2,3,4) parts _ run, unfolded cs(2) loc]
  have hid: "set (mp_part_keys u) \<subseteq> hidden_keys" by (rule raw_parts_hidden [OF h])
  show ?thesis
  proof (cases r)
    case (Inl e)
    then have "raw_holds X s' A" using spec B len by (auto simp: raw_holds_def lawful_def)
    then show ?thesis using Inl by auto
  next
    case (Inr x)
    then have "raw_holds X s' (bodies ?B)" using spec B(1,2) len by (auto simp: raw_holds_def lawful_def)
    moreover have "bodies ?B j = A j" if "j \<notin> hidden_keys" "j \<noteq> k" for j
      using that hid B(5) by (auto simp: bodies_apply restrict_map_def)
    moreover have "bodies ?B k = Some b" using k hid by (auto simp: bodies_apply restrict_map_def)
    ultimately show ?thesis using Inr by (intro exI [of _ "bodies ?B"]) simp
  qed
qed

interpretation ru: upload_store "raw_ops X P T" "raw_holds X" "raw_meta X P" "raw_uploads X upload_id" raw_handle
  "raw_spooled X" hidden_keys
proof
  fix s A opts k ru s'
  assume "raw_holds X s A" "ua_start (raw_uploads X upload_id) opts k s = (ru, s')"
  then show "raw_holds X s' A \<and> (\<forall>u. ru = Inr u \<longrightarrow> raw_handle u k \<and> raw_spooled X u s' [])"
    by (auto simp: raw_uploads_def raw_handle_def raw_spooled_def mp_new_def raw_holds_def)
next
  fix s A u k d now r u' s'
  assume "raw_holds X s A" "raw_handle u k" "length d < 2 ^ 63" "ua_put_part (raw_uploads X upload_id) now d u s = (r, u', s')"
  then show "(\<exists>A'. raw_holds X s' A' \<and> (\<forall>j. j \<notin> hidden_keys \<longrightarrow> A' j = A j)) \<and> raw_handle u' k \<and>
      (is_ok r \<longrightarrow> (\<forall>b. raw_spooled X u s b \<longrightarrow> raw_spooled X u' s' (b @ d)))"
    by (intro raw_put_part_law) (simp_all add: raw_uploads_def)
next
  fix s A u k b now r u' s'
  assume "raw_holds X s A" "raw_handle u k" "raw_spooled X u s b" "k \<notin> hidden_keys" "length b < 2 ^ 63"
    "ua_complete (raw_uploads X upload_id) now u s = (r, u', s')"
  then show "\<exists>A'. raw_holds X s' A' \<and> (\<forall>j. j \<notin> hidden_keys \<and> j \<noteq> k \<longrightarrow> A' j = A j) \<and> A' k = (if is_ok r then Some b else A k)"
    by (intro raw_complete_law) (simp_all add: raw_uploads_def)
next
  fix s A u k r u' s'
  assume h: "raw_holds X s A" "raw_handle u k" and run: "ua_abort (raw_uploads X upload_id) u s = (r, u', s')"
  from h(1) obtain de B where B: "lawful X" "stream_laws X" "store_ok de s" "rep X s B" "A = bodies B" by (auto simp: raw_holds_def)
  have "mp_abort X u s = (u', s')" using run by (simp add: raw_uploads_def split: prod.splits)
  from multipart_abort [OF B(3) this] B have "raw_holds X s' (bodies (B |` (- set (mp_part_keys u))))" by (auto simp: raw_holds_def)
  moreover have "bodies (B |` (- set (mp_part_keys u))) j = A j" if "j \<notin> hidden_keys" for j
    using that raw_parts_hidden [OF h(2)] B(5) by (auto simp: bodies_apply restrict_map_def)
  ultimately show "\<exists>A'. raw_holds X s' A' \<and> (\<forall>j. j \<notin> hidden_keys \<longrightarrow> A' j = A j)" by blast
next
  fix s A k d
  assume h: "raw_holds X s A" "A k = Some d"
  from h obtain de B where B: "store_ok de s" "rep X s B" "A = bodies B" by (auto simp: raw_holds_def)
  from h(2) B(3) obtain p ml where p: "B k = Some (p, ml)" "d = take (length p - ml) p" by (auto simp: bodies_apply)
  then obtain e where e: "hm_get (files_of s) k = Some e" using rep_None [OF B(2), of k] by auto
  have "ei_meta_len e = ml" using rep_Some [OF B(2) e] p(1) by (metis Pair_inject option.inject)
  moreover have "logical_size e = length p" using part_content_spec(3) [OF _ B(2) e p(1)] B(1) by blast
  ultimately show "ua_size (raw_uploads X upload_id) k s = length d"
    using e p(2) by (simp add: raw_uploads_def meta_for_def saturating_sub_def)
next
  fix s A d
  assume "raw_holds X s A"
  then show "ua_crc32c_append (raw_uploads X upload_id) 0 d = so_crc32c (raw_ops X P T) d"
    by (simp add: raw_holds_def lawful_def crc_laws_def raw_uploads_def raw_ops_def) (metis append_Nil)
qed

interpretation rf: file_store "raw_ops X P T" "raw_holds X" "raw_meta X P" "raw_files X"
proof
  fix s A f d md now k rm s'
  assume h: "raw_holds X s A" and f: "sf_len f = Some (length (d @ md))" "read_to_end (sf_reads f) = Inr (d @ md)"
    and len: "length (d @ md) < 2 ^ 63" and run: "fa_put_from_file (raw_files X) now k f (length md) s = (rm, s')"
  from h obtain de B where B: "lawful X" "stream_laws X" "store_ok de s" "rep X s B" "A = bodies B" by (auto simp: raw_holds_def)
  have c: "delivered (sf_reads f) = d @ md" using read_to_end_delivered [OF f(2)] by simp
  have run': "put_with_meta_from_file X now k f (length md) s = (rm, s')" using run by (simp add: raw_files_def)
  have "put_outcome X de k (d @ md, length md) B s rm s'"
    using put_from_file_spec(1) [OF _ _ B(3,4) f(1) len _ _ run'] B(1) f(2) by (simp add: c lawful_def)
  then show "raw_holds X s' (if is_ok rm then A(k \<mapsto> d) else A)"
    using B by (cases rm) (auto simp: put_outcome_def raw_holds_def simp flip: bodies_meta)
next
  fix s A x y
  assume "raw_holds X s A"
  then show "fa_crc32c_append (raw_files X) (so_crc32c (raw_ops X P T) x) y = so_crc32c (raw_ops X P T) (x @ y) \<and>
      so_crc32c (raw_ops X P T) [] = 0"
    by (simp add: raw_holds_def lawful_def crc_laws_def raw_files_def raw_ops_def)
qed

section \<open>In-memory stores\<close>

definition mem_uploads :: "(mem, string, unit, string \<times> byte list) upload_api" where
  "mem_uploads =
     \<lparr>ua_start = (\<lambda>opts location s. (Inr (location, []), s)),
      ua_put_part = (\<lambda>now d u s. (Inr (), (fst u, snd u @ d), s)),
      ua_complete = (\<lambda>now u s. (Inr (), u, hm_insert (fst u) (snd u, []) s)),
      ua_abort = (\<lambda>u s. (Inr (), u, s)),
      ua_size = (\<lambda>k s. case hm_get s k of Some (d, _) \<Rightarrow> length d | None \<Rightarrow> 0),
      ua_crc32c_append = (\<lambda>crc d. crc + of_nat (sum_list (map unat d)))\<rparr>"

lemma mem_insert: "mem_holds s A \<Longrightarrow> mem_holds (hm_insert k (b, ats) s) (A(k \<mapsto> b))"
  by (auto simp: mem_holds_def fun_eq_iff hm_simps)

interpretation mu: upload_store mem_ops mem_holds mem_meta mem_uploads "\<lambda>u k. fst u = k" "\<lambda>u s b. snd u = b" "{}"
proof
  fix s A u k b now r u' s'
  assume "mem_holds s A" "fst u = k" "snd u = b" "ua_complete mem_uploads now u s = (r, u', s')"
  then show "\<exists>A'. mem_holds s' A' \<and> (\<forall>j. j \<notin> {} \<and> j \<noteq> k \<longrightarrow> A' j = A j) \<and> A' k = (if is_ok r then Some b else A k)"
    using mem_insert [of s A k b "[]"] by (intro exI [of _ "A(k \<mapsto> b)"]) (auto simp: mem_uploads_def)
qed (auto simp: mem_uploads_def mem_holds_def fun_eq_iff hm_simps)

section \<open>Multipart uploads\<close>

text \<open>
  C23. A multipart upload that was started, took its parts and was completed with success has stored
  the concatenation of the parts on every shard that the new catalog entry lists, the primary among
  them, with its size and checksum; when there are replica targets, there are at least
  \<open>min_writes\<close> of these shards. A completion that fails, in whatever way a shard fails, leaves the
  catalog. No other entry changes, and on the shards nothing but the object, its sidecar and the
  keys where stores keep parts.
\<close>

theorem multipart_upload_replicates:
  assumes "upload_store D holds M U handle spooled spool" and "heap_rep holds c H" and "catalog_ok (sh_catalog c)"
    and "agrees_opt (sh_raw_refs c) c" and "meta_sidecar_path D loc \<noteq> loc" and "loc \<notin> spool" and "length (concat ds) < 2 ^ 63"
    and "sharded_put_multipart_opts D U opts t0 loc c = (Inr up, c1)"
    and "put_parts U t1 ds up c1 = (True, up1, c2)"
    and "upload_fits D M U t2 up1 c2" and "sharded_complete D M U t2 up1 c2 = (r, up2, c')"
  shows "slots c' = slots c \<and> catalog_ok (sh_catalog c') \<and>
    (\<forall>k. k \<noteq> loc \<longrightarrow> catalog_get (sh_catalog c') k = catalog_get (sh_catalog c) k) \<and>
    (\<exists>H'. heap_rep holds c' H' \<and> same_except (spool \<union> {loc, meta_sidecar_path D loc}) H H' \<and>
      (case r of
         Inl _ \<Rightarrow> sh_catalog c' = sh_catalog c
       | Inr _ \<Rightarrow> \<exists>placed ml.
           catalog_get (sh_catalog c') loc = Some \<lparr>pe_shards = placed, pe_size = length (concat ds),
             pe_crc32c = Some (so_crc32c D (concat ds)), pe_updated = t2, pe_meta_len = ml\<rparr> \<and>
           distinct placed \<and> su_primary_shard_id up \<in> set placed \<and>
           (su_replica_stores up \<noteq> [] \<longrightarrow> sh_min_writes c \<le> length placed) \<and>
           (\<forall>sid\<in>set placed. stored c' H' sid loc = Some (concat ds))))"
proof -
  note start = upload_store.put_multipart_spec [OF assms(1,2,8)]
  then have s: "frame c c1" "sh_catalog c1 = sh_catalog c" "heap_rep holds c1 H" "upload_ok up c1" "su_location up = loc"
    "handle (su_primary_upload up) loc" "spooled_in spooled up c1 []" "su_min_writes up = sh_min_writes c" "su_raw_refs up = sh_raw_refs c"
    by blast+
  have "length d \<le> length (concat ds)" if "d \<in> set ds" for d using that by (induction ds) auto
  then have ds: "\<forall>d\<in>set ds. length d < 2 ^ 63" using assms(7) by fastforce
  from upload_store.put_parts_spec [OF assms(1) s(3,6) ds assms(9) s(7)] obtain u H2 where
    p: "heap_only c1 c2" "up1 = up\<lparr>su_primary_upload := u\<rparr>" "handle u loc" "heap_rep holds c2 H2" "same_except spool H H2"
      "spooled_in spooled up1 c2 (concat ds)" by auto
  note k = heap_only_keeps [OF p(1)]
  have fr: "frame c c2" "sh_catalog c2 = sh_catalog c" using k s(1,2) frame_trans by auto
  have u1: "su_location up1 = loc" "su_raw_refs up1 = sh_raw_refs c" "su_min_writes up1 = sh_min_writes c"
    "su_primary_shard_id up1 = su_primary_shard_id up" "su_replica_stores up1 = su_replica_stores up"
    using s(5,8,9) p(2) by simp_all
  have ok2: "upload_ok up1 c2" using s(4) k unfolding p(2) by (simp add: upload_ok_cong [of c1 c2])
  have "complete_outcome D holds t2 up1 (concat ds) (spool \<union> {loc, meta_sidecar_path D loc}) c2 H2 r c'"
    using upload_store.sharded_complete_spec [OF assms(1) p(4) _ ok2 _ _ p(6) assms(7) _ _ assms(10,11)] assms(3-6) p(2,3) fr u1
      agrees_cong [OF fr(1)] by (simp add: agrees_opt_def split: option.splits)
  from upload_store.complete_outcome_after [OF assms(1) fr p(5) this]
  have o: "complete_outcome D holds t2 up1 (concat ds) (spool \<union> {loc, meta_sidecar_path D loc}) c H r c'" by simp
  then have "slots c' = slots c" by (simp add: complete_outcome_def frame_def)
  with o show ?thesis unfolding complete_outcome_def u1 by blast
qed

lemmas upload_eval = sharded_put_multipart_opts_def start_upload_def register_multipart_def sharded_put_part_def on_upload_def
  sharded_complete_def complete_replicated_def complete_single_def replicate_part_def read_metadata_from_shard_def
  untrack_def mem_uploads_def mem_eval attributes_to_meta_def nonempty_def

text \<open>An upload of two parts to the cluster of three memory shards.\<close>

definition mem_up :: "byte list \<Rightarrow> (string \<times> byte list) sharded_upload" where
  "mem_up b = \<lparr>su_location = ''b'', su_primary_upload = (''b'', b), su_primary_shard_id = 0, su_primary_store = StoreAt 0,
     su_replica_stores = [(1, StoreAt 1), (2, StoreAt 2)], su_tracking_id = 1, su_min_writes = 2, su_raw_refs = Some mem_refs\<rparr>"

definition mem_started :: "mem sharded" where
  "mem_started = mem_one\<lparr>sh_next_upload_id := 2, sh_multipart_uploads :=
     [(1, \<lparr>tu_location = ''b'', tu_created_at = 0, tu_primary_shard_id = 0\<rparr>)]\<rparr>"

lemma mem_one_registry [simp]: "sh_next_upload_id mem_one = 1" "sh_multipart_uploads mem_one = []" "sh_multipart_expiry mem_one = 86400"
  by (simp_all add: mem_one_def mem_cluster_def sharded_new_def new_with_offline_def DEFAULT_MULTIPART_EXPIRY_def)

lemma mem_start: "sharded_put_multipart_opts mem_ops mem_uploads () 0 ''b'' mem_one = (Inr (mem_up []), mem_started)"
  by (simp add: upload_eval mem_one_same mem_up_def mem_started_def uadd_def)

lemma mem_parts: "put_parts mem_uploads 0 [[1, 2], [3]] (mem_up []) mem_started = (True, mem_up [1, 2, 3], mem_started)"
  by (simp add: upload_eval mem_up_def mem_started_def)

lemma mem_started_fields [simp]:
  "sh_heap mem_started = sh_heap mem_one" "sh_shards mem_started = sh_shards mem_one" "sh_catalog mem_started = sh_catalog mem_one"
  "sh_multipart_uploads mem_started = [(1, \<lparr>tu_location = ''b'', tu_created_at = 0, tu_primary_shard_id = 0\<rparr>)]"
  by (simp_all add: mem_started_def)

lemma mem_upload_fits: "upload_fits mem_ops mem_meta mem_uploads 0 (mem_up [1, 2, 3]) mem_started"
  by (simp add: upload_fits_def fits_buffer_def upload_eval mem_up_def hm_simps)

lemma mem_complete: "fst (sharded_complete mem_ops mem_meta mem_uploads 0 (mem_up [1, 2, 3]) mem_started) = Inr ()"
  by (simp add: upload_eval mem_up_def hm_simps)

theorem multipart_upload_replicates_witness:
  "\<exists>c' H'. snd (snd (sharded_complete mem_ops mem_meta mem_uploads 0 (mem_up [1, 2, 3]) mem_started)) = c' \<and>
     heap_rep mem_holds c' H' \<and> same_except ({} \<union> {''b'', meta_sidecar_path mem_ops ''b''}) (mem_contents mem_one) H' \<and>
     (\<exists>placed ml. catalog_get (sh_catalog c') ''b'' = Some \<lparr>pe_shards = placed, pe_size = length [1, 2, 3 :: byte],
         pe_crc32c = Some (so_crc32c mem_ops [1, 2, 3]), pe_updated = 0, pe_meta_len = ml\<rparr> \<and>
       distinct placed \<and> su_primary_shard_id (mem_up []) \<in> set placed \<and> 2 \<le> length placed \<and>
       (\<forall>sid\<in>set placed. stored c' H' sid ''b'' = Some [1, 2, 3]))"
proof -
  obtain up c' where run: "sharded_complete mem_ops mem_meta mem_uploads 0 (mem_up [1, 2, 3]) mem_started = (Inr (), up, c')"
    using mem_complete by (metis prod.collapse)
  have ag: "agrees_opt (sh_raw_refs mem_one) mem_one" by (simp add: agrees_opt_def mem_agrees)
  have side: "meta_sidecar_path mem_ops ''b'' \<noteq> ''b''" by (simp add: mem_sidecar)
  have len: "length (concat [[1, 2], [3]] :: byte list) < 2 ^ 63" and cc: "concat [[1, 2], [3]] = ([1, 2, 3] :: byte list)"
    and rp: "(su_replica_stores (mem_up []) \<noteq> []) = True" and mw: "sh_min_writes mem_one = 2" by (simp_all add: mem_up_def)
  have ni: "''b'' \<notin> {}" by simp
  note o = multipart_upload_replicates [OF mu.upload_store_axioms mem_heap_rep mem_one_ok ag side ni
      len mem_start mem_parts mem_upload_fits run, unfolded sum.case cc mw rp simp_thms]
  show ?thesis unfolding run snd_conv using o [THEN conjunct2, THEN conjunct2, THEN conjunct2] by (simp only: ex_simps simp_thms)
qed

section \<open>Puts from a file\<close>

text \<open>
  A put from a file whose passes deliver the same payload and metadata keeps the contract of the put
  from memory, whether the raw shards stream it or the file is read as a whole.
\<close>

lemma put_from_file_replicates:
  assumes "file_store D holds M F" and "heap_rep holds c H" and "catalog_ok (sh_catalog c)" and "agrees refs c"
    and "steady src payload metadata" and "length (payload @ metadata) < 2 ^ 63" and "length metadata < 65536"
    and "meta_sidecar_path D loc \<noteq> loc"
    and "sharded_put_meta_from_file D M F now refs loc src (length metadata) c = (r, c')"
  shows "slots c' = slots c \<and> catalog_ok (sh_catalog c') \<and>
    (\<forall>k. k \<noteq> loc \<longrightarrow> catalog_get (sh_catalog c') k = catalog_get (sh_catalog c) k) \<and>
    (\<exists>H'. heap_rep holds c' H' \<and> same_except {loc, meta_sidecar_path D loc} H H' \<and>
      (case r of
         Inr _ \<Rightarrow> \<exists>placed. catalog_get (sh_catalog c') loc = Some \<lparr>pe_shards = placed, pe_size = length payload,
             pe_crc32c = Some (so_crc32c D payload), pe_updated = now, pe_meta_len = length metadata mod 65536\<rparr> \<and>
           distinct placed \<and> placed \<noteq> [] \<and> sh_min_writes c \<le> length placed \<and>
           (\<forall>sid\<in>set placed. stored c' H' sid loc = Some payload)
       | Inl _ \<Rightarrow> sh_catalog c' = sh_catalog c \<and>
           (\<forall>a. H' a loc = H a loc \<or> H' a loc = Some payload \<or> catalog_get (sh_catalog c) loc = None \<and> H' a loc = None)))"
proof -
  have ms: "meta_store D holds M" using assms(1) by (rule file_store.axioms(1))
  from file_store.put_meta_from_file_spec [OF assms]
  have o: "meta_store.meta_put_outcome D holds now loc payload metadata c H r c'" .
  note o = o [unfolded meta_store.meta_put_outcome_def [OF ms] meta_store.meta_entry_def [OF ms]]
  then have fr: "frame c c'" by blast
  then have "slots c' = slots c" by (simp only: frame_def)
  with o show ?thesis unfolding stored_frame [OF fr] by blast
qed

section \<open>Hazards\<close>

text \<open>
  The purge of an upload that was never completed deletes the object that was committed before under
  the same key from the primary shard, and the catalog still lists it there.
\<close>

lemma purge_deletes_committed:
  "mem_contents mem_one 0 ''a'' = Some [1, 2, 3]"
  "case sharded_put_multipart_opts mem_ops mem_uploads () 0 ''a'' mem_one of (r, c1) \<Rightarrow>
     is_ok r \<and> mem_contents c1 0 ''a'' = Some [1, 2, 3] \<and>
     (case purge_stale_multiparts mem_ops 86401 c1 of (n, c2) \<Rightarrow>
        n = 1 \<and> mem_contents c2 0 ''a'' = None \<and> map_option pe_shards (catalog_get (sh_catalog c2) ''a'') = Some [0])"
  by (simp_all add: upload_eval mem_contents_def mem_one_same uadd_def purge_stale_multiparts_def stale_uploads_def upload_age_def hm_simps)

text \<open>
  With one writable shard left, a put is refused for want of the quorum, but a multipart upload of
  the same object is completed on that shard alone.
\<close>

definition mem_alone :: "mem sharded" where
  "mem_alone = (sharded_new 0 [0, 1, 2] 3 (\<lambda>_. []))\<lparr>sh_shards :=
     [new_shard 0 0 (Some 0), new_shard 0 1 None, new_shard 0 2 None]\<rparr>"

lemma mem_alone_fields [simp]:
  "sh_raw_refs mem_alone = None" "\<not> sh_read_only mem_alone" "sh_min_writes mem_alone = 2" "sh_replication mem_alone = \<lparr>rp_factor = 3\<rparr>"
  "sh_shards mem_alone = [new_shard 0 0 (Some 0), new_shard 0 1 None, new_shard 0 2 None]"
  "sh_heap mem_alone = (\<lambda>_. [])" "sh_catalog mem_alone = catalog_new" "sh_next_upload_id mem_alone = 1" "sh_multipart_uploads mem_alone = []"
  by (simp_all add: mem_alone_def sharded_new_def new_with_offline_def policy_new_def saturating_sub_def numeral_2_eq_2)

lemma single_target_skips_quorum:
  "fst (sharded_put mem_ops 0 ''b'' [1] mem_alone) = Inl (ShInsufficientWrites ''b'' 2 1 [])"
  "case sharded_put_multipart_opts mem_ops mem_uploads () 0 ''b'' mem_alone of
     (Inr up, c1) \<Rightarrow>
       (case put_parts mem_uploads 0 [[1]] up c1 of (ok, up1, c2) \<Rightarrow>
          (case sharded_complete mem_ops mem_meta mem_uploads 0 up1 c2 of (r, _, c3) \<Rightarrow>
             ok \<and> r = Inr () \<and> map_option pe_shards (catalog_get (sh_catalog c3) ''b'') = Some [0]))
   | _ \<Rightarrow> False"
  by (simp_all add: upload_eval sharded_put_def write_to_shards_def write_to_shards_inner_def fan_put_def mark_write_failures_def
      enforce_min_def uadd_def update_catalog_def hm_simps)

text \<open>
  A read-only cluster refuses a put with metadata, but the put of the same object from a file, with
  all target shards raw, is carried out.
\<close>

definition mem_files :: "mem file_api" where
  "mem_files =
     \<lparr>fa_put_from_file = (\<lambda>now k f ml s. case read_to_end (sf_reads f) of
          Inl e \<Rightarrow> (Inl e, s)
        | Inr b \<Rightarrow> (Inr (), hm_insert k (take (length b - ml) b, []) s)),
      fa_crc32c_append = (\<lambda>crc d. crc + of_nat (sum_list (map unat d)))\<rparr>"

definition mem_raw_refs :: raw_ref_registry where
  "mem_raw_refs = \<lparr>rr_refs = [Some 0, Some 1, Some 2], rr_kinds = [RawKind, RawKind, RawKind]\<rparr>"

definition one_byte_file :: upload_file where
  "one_byte_file = \<lparr>uf_len = Some 1, uf_suffix = Inr [], uf_body = Inr [Inr [7]],
     uf_pass = (\<lambda>_. Inr \<lparr>sf_len = Some 1, sf_reads = [Inr [7]]\<rparr>), uf_all = Inr [Inr [7]]\<rparr>"

lemma from_file_ignores_read_only:
  "fst (sharded_put_with_meta mem_ops mem_meta 0 mem_raw_refs ''b'' [7] [] (mem_one\<lparr>sh_read_only := True\<rparr>)) = Inl (MdRaw ReadOnly)"
  "case sharded_put_meta_from_file mem_ops mem_meta mem_files 0 mem_raw_refs ''b'' one_byte_file 0 (mem_one\<lparr>sh_read_only := True\<rparr>) of
     (r, c1) \<Rightarrow> r = Inr () \<and> mem_contents c1 0 ''b'' = Some [7] \<and> mem_contents c1 1 ''b'' = Some [7]"
  by (simp_all add: sharded_put_with_meta_def sharded_put_meta_from_file_def put_raw_from_file_def commit_from_file_def one_byte_file_def
      mem_files_def mem_raw_refs_def mem_contents_def saturating_sub_def CRC_BUF_def mem_eval mark_write_failures_def update_catalog_def hm_simps)

end
