(* ===== verification/Spec2Isabelle.thy ===== *)
theory Spec2Isabelle
  imports Tools_Properties Store_Properties Catalog_Persistence Sharded_Hazards
    Metadata_Properties Repair_Properties Recovery_Properties Config_Agreement S3_Refinement
    Upload_Properties
begin

text \<open>
  \<^bold>\<open>objstr: a raw-device object store and a sharded store on top of it\<close>

  The repository has three crates. \<open>rawobjstr\<close> keeps objects in extents of a block device or file,
  with an index that is committed through two superblocks. \<open>shardedobjstr\<close> places every object on
  several shards, each an \<open>ObjectStore\<close> (often a raw store), and remembers the places in a catalog.
  \<open>objstrd\<close> is the server. This development models the first two, and of the third the S3 adapter, the
  background tasks and the configuration.

  \<^bold>\<open>The raw store (\<open>src/rawobjstr/src\<close>)\<close>

  \<^item> \<open>Prelude\<close>: generic lemmas on lists, maps, little-endian integers, \<open>u64\<close> arithmetic as \<open>nat\<close> with
    the wrap-around written out, and association lists that stand for \<open>HashMap\<close>.
  \<^item> \<open>Raw_Types\<close> (\<open>lib.rs\<close>): errors, layout constants, compression kinds; the codecs are parameters.
  \<^item> \<open>Allocator\<close> (\<open>allocator.rs\<close>): the free list, first-fit \<open>alloc\<close>, coalescing \<open>free\<close>. The lemmas show
    that the free list stays sorted and coalesced and that live extents never overlap.
  \<^item> \<open>Device_Io\<close> (\<open>io.rs\<close>): positioned reads and writes, \<open>O_DIRECT\<close> padding, sync, create and lock. The
    operating system is a record with the bytes in view, the synced bytes, the pending writes and a
    schedule of faults for every call.
  \<^item> \<open>Extent_Codec\<close>, \<open>Extent_Stream\<close> (\<open>extent.rs\<close>): blocks of 4092 payload bytes and a checksum, in the
    batch form and as streaming writer and reader; \<open>Extent_Properties\<close> shows that both forms agree, the
    round trip, and that a damaged block is reported.
  \<^item> \<open>Superblock\<close>, \<open>Index\<close> (\<open>superblock.rs\<close>, \<open>index.rs\<close>): the records on the device and their encoding.
  \<^item> \<open>Raw_Store\<close> (\<open>store.rs\<close>): the state \<open>inner\<close> and the put, get, range and copy routines.
    \<open>Store_Invariant\<close> has the invariant: every byte of the data area belongs to exactly one of the free
    list, an object's extent and a running operation. \<open>Store_Ops\<close> shows that the operations keep it and
    refine a map from keys to payloads, under every fault.
  \<^item> \<open>Object_Store\<close>, \<open>Object_Ops\<close>, \<open>Multipart\<close>: the \<open>ObjectStore\<close> methods and the multipart upload.
  \<^item> \<open>Lifecycle\<close>, \<open>Format\<close>, \<open>Flush\<close>, \<open>Recovery\<close>, \<open>Crash\<close>, \<open>Dirty_Tracking\<close>, \<open>Durability\<close>: format, open
    with its integrity scan, flush of the dirty index shards and reload. A crash image takes each byte
    from the synced state or any pending write; \<open>Durability\<close> shows that an open after a crash finds the
    last committed index or the new one, and that a session of calls, flushes and reopens refines a map.
  \<^item> \<open>Raw_Tools\<close>, \<open>Tools_Ops\<close>, \<open>Tools_Properties\<close>: verification, repair, scrub, import and export,
    metadata suffixes.
  \<^item> \<open>Reference_Env\<close> has concrete instances of the parameters for the witnesses, \<open>Store_Properties\<close> the
    properties of the calls, \<open>Hazards\<close> the behaviours that the code does not guard against.

  \<^bold>\<open>The sharded store (\<open>src/shardedobjstr/src\<close>)\<close>

  \<^item> \<open>Tlv\<close> (\<open>tlv.rs\<close>): encoding of metadata maps. \<open>Replication\<close> (\<open>replication.rs\<close>): the jump hash with
    its double arithmetic as exact rationals and one rounding per operation.
  \<^item> \<open>Catalog\<close>, \<open>Catalog_Persistence\<close> (\<open>catalog.rs\<close>): the catalog as a relation between keys and shards,
    and its file.
  \<^item> \<open>Shard_State\<close> (\<open>lib.rs\<close>, \<open>metadata.rs\<close>): slots with health and a reference to a store in a heap, so
    that a slot and the registry of raw stores may share one store; choice of write targets and of the
    read order. Calls that the code runs concurrently on several shards run in the order of the list.
  \<^item> \<open>Sharded_Store\<close>, \<open>Sharded_Ops\<close>, \<open>Sharded_Properties\<close>: put with quorum and retry, get with fallback
    and read repair, delete with markers, listings. The locale \<open>shard_store\<close> is the contract of a
    shard; \<open>Raw_Shard\<close> proves that the raw store keeps it.
  \<^item> \<open>Shard_Recovery\<close>: rebuild of the catalog, and attachment of shards with what its comments promise and the
    two effects they rule out. \<open>Sharded_Hazards\<close>: behaviours
    that differ from the documentation.
  \<^item> \<open>Shard_Metadata\<close>, \<open>Metadata_Ops\<close>, \<open>Metadata_Properties\<close> (\<open>metadata.rs\<close>): object metadata on raw
    shards, as attributes or in sidecar objects; the locale \<open>meta_store\<close> extends \<open>shard_store\<close>. Properties of
    operations that write through the registry of raw stores assume that it agrees with the slots (\<open>agrees_opt\<close>),
    as it does from the start of a cluster until a shard is detached or another store is attached.
  \<^item> \<open>Sharded_Copy\<close>, \<open>Copy_Ops\<close>, \<open>Copy_Properties\<close>: copies between keys and between shards, rename, the
    read repair task, verification of replicas. \<open>Memory_Shard\<close> is a shard in memory that satisfies both
    locales and carries the witnesses. The copy takes a panic in the read of the source's metadata as a failed read.
  \<^item> \<open>Shard_Uploads\<close>, \<open>Upload_Ops\<close>, \<open>File_Uploads\<close>, \<open>Upload_Properties\<close> (\<open>lib.rs\<close>, \<open>metadata.rs\<close>): multipart uploads,
    whose parts the primary shard keeps, with their registry, completion and replication, and the put from a file. The
    locales \<open>upload_store\<close> and \<open>file_store\<close> extend \<open>meta_store\<close>; the raw store is shown to keep both. The last section
    has an expiry that deletes a committed object, a quorum that is not enforced and a write to a read-only cluster.
  \<^item> \<open>Cluster_Repair\<close>, \<open>Repair_Ops\<close>, \<open>Repair_Properties\<close> (\<open>repair.rs\<close>): synchronisation of a shard that
    comes back, replication and trim sweeps, the plan, drain and redistribution. A panic of a synchronisation is
    an outcome of its own. The lemmas show that the sweeps end and lose no healthy replica (metadata is
    shorter than \<open>2 ^ 62\<close> bytes, the registry agrees with the slots), that a redistribution may run forever and a drain may delete the last
    copy that can be reached.
  \<^item> \<open>Conf_Text\<close>, \<open>Cluster_Config\<close>, \<open>Config_Properties\<close>, \<open>Config_Trees\<close> (\<open>config.rs\<close>): the flat and the tree
    format of configuration files, with lines, words, numbers and quotes as the parsers read them; texts are
    ASCII. Accepted configurations are well-formed, and every well-formed one can be written and read back.

  \<^bold>\<open>The server (\<open>src/objstrd/src\<close>)\<close>

  \<^item> \<open>Recovery_Loop\<close>, \<open>Recovery_Ops\<close>, \<open>Recovery_Properties\<close> (\<open>recovery.rs\<close>): the background loop that probes
    the shards, detaches and re-attaches them, and the periodic repair. What a cycle observes from outside
    is a record; a panic ends the loop with \<open>None\<close>. With a positive period and a registry that has a raw store for
    every raw slot each cycle is shown to be a step of an automaton for every shard, and the periodic repair
    to end.
  \<^item> \<open>Server_Config\<close>, \<open>Server_Validation\<close> (\<open>config.rs\<close>): the server's tree format with its directives, the
    configuration from environment variables, and validation, which is shown to report an error exactly for
    colliding or unusable nodes and shards. \<open>Config_Agreement\<close> shows that the server and the command line of the
    sharded store see the same cluster in one file: the configuration of the command line is a function of the
    server's and of the lines \<open>read_only\<close> and \<open>catalog\<close>, which the server skips.
  \<^item> \<open>S3_Adapter\<close>, \<open>S3_Listing\<close>, \<open>S3_Uploads\<close> (\<open>adapter.rs\<close>): the handlers of the S3 protocol, from a record of the
    request to a response or an error code. The backend is a record of calls; \<open>raw_backend\<close> is the raw store.
    \<open>S3_Pages\<close> shows that the lists of the responses, page after page, have every entry once and in order. \<open>S3_Objects\<close> states what the handlers need of a backend
    as a locale and interprets it on the raw store, \<open>S3_Requests\<close> and \<open>S3_Registry\<close> have the lemmas on objects and on
    uploads with their temporary files, and \<open>S3_Refinement\<close> the simulation by an abstract machine of objects and uploads.
    Every fault of the device and of the temporary files is allowed; \<open>spooled\<close> is what a put through a temporary file
    stores, also for metadata whose length does not fit its field.

  \<^bold>\<open>Bounds and parameters\<close>

  No definition that models code takes fuel; the client of the paged listing counts its requests, and one more than there
  are entries is enough. Loops over device blocks and lists, and the jump hash, are total functions with
  termination proofs. The loops of the repair and redistribution sweeps, which the code does not bound,
  are partial functions into an option: the repair loops are proved to return, the redistribution loop may
  not. The endless loops of the background tasks are functions of the list of ticks they run for.
  The parsers of node blocks are total: a block never gives back more lines than it got. Payloads are shorter than \<open>2 ^ 63\<close> bytes, as Rust buffers are. The codecs of third-party crates (compression, bincode, JSON, CRC), clocks
  and hash orders are arguments of the definitions; what the properties need of them is stated in
  predicates and locales that \<open>Reference_Env\<close> instantiates.

  \<^bold>\<open>Not modelled\<close>

  Event sinks and logs (output only), the command lines and the terminal output, the HTTP routing, the web
  pages and the main program of \<open>objstrd\<close>, and the Python bindings. Of the adapter's backends, the sharded one is modelled
  with the sharded store, but not as an instance of the record of calls. Threads: the code's locks serialise the operations of one store, and
  the model runs operations one after the other. A failed sync of the device keeps its pending writes, and a read error
  of a multipart upload's own temporary file counts as an error of the compressing stream.
\<close>

end
